(* ===== verification/RT_Prelude.thy ===== *)
theory RT_Prelude
  imports Main "HOL-Library.Word" "HOL-Library.Multiset"
begin

text \<open>
  Shared vocabulary of the development: the machine types of the 64-bit little-endian build,
  the error monad that makes \<open>Die\<close>, undefined behaviour and exhausted fuel explicit values,
  monadic iteration over the index range of a C loop, word-addressed memory, and the generic
  lemmas and simplification sets the component theories use.
\<close>

unbundle bit_operations_syntax

section \<open>Machine types\<close>

type_synonym word_t = "64 word"      \<comment> \<open>\<open>Word_t\<close>, \<open>Addr_t\<close> and \<open>ml_val_t\<close> of the SIZE_64 build\<close>
type_synonym addr_t = "64 word"
type_synonym byte_t = "8 word"
type_synonym u16 = "16 word"
type_synonym u32 = "32 word"

abbreviation (input) WORD_SZB :: nat where "WORD_SZB \<equiv> 8"
abbreviation (input) ONE_K :: nat where "ONE_K \<equiv> 1024"
abbreviation (input) INT_MAX :: int where "INT_MAX \<equiv> 2147483647"
abbreviation (input) INT_MIN :: int where "INT_MIN \<equiv> - 2147483648"

section \<open>Failure\<close>

text \<open>
  \<open>Die msg\<close> is the run-time system's fatal error; \<open>Fault msg\<close> marks an execution whose
  behaviour C leaves undefined (an access outside an object, signed overflow); \<open>Exited n\<close>
  is a call of \<open>Exit(n)\<close>; \<open>NoFuel\<close> is the result of a loop cut off by its fuel.
\<close>

datatype rt_error = Die string | Fault string | Exited int | NoFuel

type_synonym 'a res = "rt_error + 'a"

fun rbind :: "'a res \<Rightarrow> ('a \<Rightarrow> 'b res) \<Rightarrow> 'b res" where
  "rbind (Inl e) f = Inl e"
| "rbind (Inr x) f = f x"

lemma rbind_eq_Inr [simp]: "rbind m f = Inr y \<longleftrightarrow> (\<exists>x. m = Inr x \<and> f x = Inr y)"
  by (cases m) auto

lemma rbind_cong [fundef_cong]:
  "m = m' \<Longrightarrow> (\<And>x. m' = Inr x \<Longrightarrow> f x = f' x) \<Longrightarrow> rbind m f = rbind m' f'"
  by (cases m') auto

text \<open>An \<open>int\<close> result outside its range is undefined behaviour.\<close>

definition in_int :: "int \<Rightarrow> bool" where
  "in_int n \<longleftrightarrow> INT_MIN \<le> n \<and> n \<le> INT_MAX"

definition chk_int :: "int \<Rightarrow> int res" where
  "chk_int n = (if in_int n then Inr n else Inl (Fault ''signed overflow''))"

lemma rbind_assoc: "rbind (rbind m f) g = rbind m (\<lambda>x. rbind (f x) g)"
  by (cases m) auto

text \<open>A loop over a list of indices whose body may fail.\<close>

fun rfold :: "('i \<Rightarrow> 's \<Rightarrow> 's res) \<Rightarrow> 'i list \<Rightarrow> 's \<Rightarrow> 's res" where
  "rfold f [] s = Inr s"
| "rfold f (i # is) s = rbind (f i s) (rfold f is)"

lemma rfold_append: "rfold f (xs @ ys) s = rbind (rfold f xs s) (rfold f ys)"
  by (induction xs arbitrary: s) (auto simp: rbind_assoc intro!: rbind_cong)

lemma rfold_cong [fundef_cong]:
  "xs = ys \<Longrightarrow> s = t \<Longrightarrow> (\<And>x u. x \<in> set ys \<Longrightarrow> f x u = g x u) \<Longrightarrow> rfold f xs s = rfold g ys t"
proof (induction ys arbitrary: xs s t)
  case (Cons y ys)
  then show ?case by (auto intro!: rbind_cong)
qed simp

text \<open>An invariant kept by the body is kept by the loop; with a progress hypothesis it returns.\<close>

lemma rfold_inv:
  assumes "rfold f xs s = Inr t" and "P s"
    and "\<And>x u v. x \<in> set xs \<Longrightarrow> P u \<Longrightarrow> f x u = Inr v \<Longrightarrow> P v"
  shows "P t"
  using assms by (induction xs arbitrary: s) auto

lemma rfold_total:
  assumes "P s" and "\<And>x u. x \<in> set xs \<Longrightarrow> P u \<Longrightarrow> \<exists>v. f x u = Inr v \<and> P v"
  shows "\<exists>t. rfold f xs s = Inr t \<and> P t"
  using assms
proof (induction xs arbitrary: s)
  case (Cons x xs)
  from Cons.prems obtain v where v: "f x s = Inr v" "P v" by fastforce
  with Cons.IH [of v] Cons.prems(2) obtain t where "rfold f xs v = Inr t" "P t" by auto
  with v show ?case by auto
qed auto

lemma rfold_Inr: "(\<And>x u. x \<in> set xs \<Longrightarrow> f x u = Inr (g x u)) \<Longrightarrow> rfold f xs s = Inr (fold g xs s)"
  by (induction xs arbitrary: s) auto

section \<open>Words\<close>

lemma unat_2p: "k < LENGTH('a::len) \<Longrightarrow> unat (2 ^ k :: 'a word) = 2 ^ k"
proof -
  assume "k < LENGTH('a)"
  then have "(2 :: nat) ^ k < 2 ^ LENGTH('a)" by simp
  moreover have "(2 ^ k :: 'a word) = of_nat (2 ^ k)" by simp
  ultimately show ?thesis by (simp only: unat_of_nat mod_less)
qed

lemma unat_2p_large: "LENGTH('a::len) \<le> k \<Longrightarrow> unat (2 ^ k :: 'a word) = 0"
proof -
  assume "LENGTH('a) \<le> k"
  then have "(2 :: nat) ^ k mod 2 ^ LENGTH('a) = 0" by (simp add: le_imp_power_dvd)
  moreover have "(2 ^ k :: 'a word) = of_nat (2 ^ k)" by simp
  ultimately show ?thesis by (simp only: unat_of_nat)
qed

lemma unat_and_le: "unat (w AND v) \<le> unat (v :: 'a::len word)"
  by (metis word_and_le1 word_le_nat_alt)

lemma unat_and_mask_less: "0 < sz \<Longrightarrow> unat (w AND of_nat (sz - 1) :: 'a::len word) < sz"
proof -
  assume "0 < sz"
  have "unat (w AND of_nat (sz - 1)) \<le> unat (of_nat (sz - 1) :: 'a word)" by (rule unat_and_le)
  also have "\<dots> \<le> sz - 1" by (simp add: unat_of_nat)
  finally show ?thesis using \<open>0 < sz\<close> by linarith
qed

section \<open>Filling an index range of a table\<close>

text \<open>The C loop \<open>for (j = lo; j < hi; j++) t[j] = v\<close>.\<close>

definition fill :: "(nat \<Rightarrow> 'a) \<Rightarrow> nat \<Rightarrow> nat \<Rightarrow> 'a \<Rightarrow> (nat \<Rightarrow> 'a)" where
  "fill t lo hi v = fold (\<lambda>j u. u(j := v)) [lo..<hi] t"

lemma fold_upd_const:
  "fold (\<lambda>j u. u(j := v)) xs t = (\<lambda>j. if j \<in> set xs then v else t j)"
  by (induction xs arbitrary: t) (auto simp: fun_eq_iff)

lemma fill_apply [simp]: "fill t lo hi v j = (if lo \<le> j \<and> j < hi then v else t j)"
  by (simp add: fill_def fold_upd_const)

lemma fill_empty [simp]: "hi \<le> lo \<Longrightarrow> fill t lo hi v = t"
  by (simp add: fill_def)

section \<open>Alignment: the \<open>ROUNDUP\<close> macro\<close>

definition ROUNDUP :: "addr_t \<Rightarrow> addr_t \<Rightarrow> addr_t" where
  "ROUNDUP i n = (i + (n - 1)) AND NOT (n - 1)"

lemma unat_and_not_mask: "unat (x AND NOT (mask k)) = unat x div 2 ^ k * 2 ^ k" for x :: "'a::len word"
proof -
  have "NOT x AND take_bit k x = 0" by (rule bit_word_eqI) (auto simp: bit_simps)
  then have "x - take_bit k x = x AND NOT (take_bit k x)" by (rule disjunctive_diff_eq_and_not)
  also have "\<dots> = x AND NOT (mask k)" by (rule bit_word_eqI) (auto simp: bit_simps)
  finally have eq: "x AND NOT (mask k) = x - take_bit k x" by simp
  have t: "unat (take_bit k x) = unat x mod 2 ^ k" by (simp add: unsigned_take_bit_eq flip: take_bit_eq_mod)
  then have "take_bit k x \<le> x" by (simp add: word_le_nat_alt)
  then show ?thesis by (simp add: eq unat_sub t minus_mod_eq_div_mult)
qed

lemma ROUNDUP_pow2:
  assumes "unat (i :: addr_t) + 2 ^ k \<le> 2 ^ 64" "k < 64"
  shows "unat (ROUNDUP i (2 ^ k)) = (unat i + (2 ^ k - 1)) div 2 ^ k * 2 ^ k"
proof -
  have m: "(2 ^ k - 1 :: addr_t) = mask k" by (simp add: mask_eq_exp_minus_1)
  have "unat (mask k :: addr_t) = 2 ^ k - 1"
    using assms(2) unat_2p [of k, where 'a = 64] by (simp add: m [symmetric] unat_sub word_le_nat_alt)
  moreover have "0 < (2 :: nat) ^ k" by simp
  then have "unat i + (2 ^ k - 1) < 2 ^ 64" using assms(1) by linarith
  ultimately have "unat (i + mask k) = unat i + (2 ^ k - 1)" by (simp add: unat_word_ariths(1))
  then show ?thesis by (simp add: ROUNDUP_def m unat_and_not_mask)
qed

end
