(* ===== verification/Tags.thy ===== *)
theory Tags
  imports RT_Prelude
begin

text \<open>
  Tags, descriptors and immediate values: the macros of \<open>include/tags.h\<close>,
  \<open>include/ml-values.h\<close> and the 32-bit conversions of \<open>include/ml-objects.h\<close> on
  64-bit ML values, the arena identifiers of \<open>gc/arena-id.h\<close>, and the byte-order reversal
  of \<open>kernel/swap-bytes.c\<close>.
\<close>

section \<open>tags.h\<close>

abbreviation (input) MAJOR_MASK :: word_t where "MAJOR_MASK \<equiv> 3"
abbreviation (input) DTAG_MASK :: word_t where "DTAG_MASK \<equiv> 0x7c"
abbreviation (input) DTAG_record :: word_t where "DTAG_record \<equiv> 0"
abbreviation (input) DTAG_vec_hdr :: word_t where "DTAG_vec_hdr \<equiv> 1"
abbreviation (input) DTAG_vec_data :: word_t where "DTAG_vec_data \<equiv> 0"
abbreviation (input) DTAG_arr_hdr :: word_t where "DTAG_arr_hdr \<equiv> 2"
abbreviation (input) DTAG_arr_data :: word_t where "DTAG_arr_data \<equiv> 3"
abbreviation (input) DTAG_ref :: word_t where "DTAG_ref \<equiv> 3"
abbreviation (input) DTAG_raw :: word_t where "DTAG_raw \<equiv> 4"
abbreviation (input) DTAG_mixed :: word_t where "DTAG_mixed \<equiv> 5"
abbreviation (input) DTAG_special :: word_t where "DTAG_special \<equiv> 6"
abbreviation (input) DTAG_extern :: word_t where "DTAG_extern \<equiv> 0x10"
abbreviation (input) DTAG_forward :: word_t where "DTAG_forward \<equiv> 0x1f"

definition MAKE_TAG :: "word_t \<Rightarrow> word_t" where
  "MAKE_TAG t = push_bit 2 t OR 2"

definition MAKE_DESC :: "word_t \<Rightarrow> word_t \<Rightarrow> word_t" where
  "MAKE_DESC l t = push_bit 7 l OR MAKE_TAG t"

definition MAKE_MIXED_DESC :: "word_t \<Rightarrow> word_t \<Rightarrow> word_t" where
  "MAKE_MIXED_DESC ptrLen rawLen =
     push_bit 32 ptrLen OR push_bit 7 (ptrLen + rawLen) OR MAKE_TAG DTAG_mixed"

definition GET_LEN :: "word_t \<Rightarrow> word_t" where "GET_LEN d = drop_bit 7 d"
definition GET_TAG :: "word_t \<Rightarrow> word_t" where "GET_TAG d = drop_bit 2 (d AND DTAG_MASK)"
definition MIXED_GET_LEN :: "word_t \<Rightarrow> word_t" where
  "MIXED_GET_LEN d = ucast (drop_bit 7 (ucast d :: u32))"
definition MIXED_GET_PTRLEN :: "word_t \<Rightarrow> word_t" where "MIXED_GET_PTRLEN d = drop_bit 32 d"

definition isBOXED :: "word_t \<Rightarrow> bool" where "isBOXED w \<longleftrightarrow> w AND MAJOR_MASK = 0"
definition isUNBOXED :: "word_t \<Rightarrow> bool" where "isUNBOXED w \<longleftrightarrow> w AND 1 = 1"
definition isDESC :: "word_t \<Rightarrow> bool" where "isDESC w \<longleftrightarrow> w AND MAJOR_MASK = 2"
definition MARK_PTR :: "word_t \<Rightarrow> word_t" where "MARK_PTR p = p OR 1"
definition UNMARK_PTR :: "word_t \<Rightarrow> word_t" where "UNMARK_PTR p = p AND NOT 1"

definition DESC_pair :: word_t where "DESC_pair = MAKE_DESC 2 DTAG_record"
definition DESC_ref :: word_t where "DESC_ref = MAKE_DESC 1 DTAG_ref"
definition DESC_reald :: word_t where "DESC_reald = MAKE_DESC 1 DTAG_raw"
definition DESC_word64 :: word_t where "DESC_word64 = MAKE_DESC 1 DTAG_raw"
definition DESC_polyvec :: word_t where "DESC_polyvec = MAKE_DESC 0 DTAG_vec_hdr"
definition DESC_polyarr :: word_t where "DESC_polyarr = MAKE_DESC 0 DTAG_arr_hdr"
definition DESC_word8arr :: word_t where "DESC_word8arr = MAKE_DESC 1 DTAG_arr_hdr"
definition DESC_word8vec :: word_t where "DESC_word8vec = MAKE_DESC 1 DTAG_vec_hdr"
definition DESC_string :: word_t where "DESC_string = MAKE_DESC 1 DTAG_vec_hdr"
definition DESC_real64arr :: word_t where "DESC_real64arr = MAKE_DESC 6 DTAG_arr_hdr"
definition DESC_forwarded :: word_t where "DESC_forwarded = MAKE_DESC 0 DTAG_forward"
definition DESC_weak :: word_t where "DESC_weak = MAKE_DESC 2 DTAG_special"
definition DESC_null_weak :: word_t where "DESC_null_weak = MAKE_DESC 3 DTAG_special"
definition DESC_evaled_susp :: word_t where "DESC_evaled_susp = MAKE_DESC 0 DTAG_special"
definition DESC_unevaled_susp :: word_t where "DESC_unevaled_susp = MAKE_DESC 1 DTAG_special"

section \<open>ml-values.h: immediate integers\<close>

text \<open>\<open>INT_CtoML\<close> on an argument of type \<open>Int_t\<close>; \<open>INT_MLtoC\<close> shifts arithmetically.\<close>

definition INT_CtoML :: "word_t \<Rightarrow> word_t" where "INT_CtoML n = 2 * n + 1"
definition INT_MLtoC :: "word_t \<Rightarrow> word_t" where "INT_MLtoC n = signed_drop_bit 1 n"

definition ML_unit :: word_t where "ML_unit = INT_CtoML 0"
definition ML_false :: word_t where "ML_false = INT_CtoML 0"
definition ML_true :: word_t where "ML_true = INT_CtoML 1"
definition ML_nil :: word_t where "ML_nil = INT_CtoML 0"

text \<open>
  The 32-bit conversions of \<open>ml-objects.h\<close> pass a 32-bit argument to the macro, so that
  \<open>2*(n)+1\<close> is computed in 32 bits: unsigned arithmetic wraps around, and signed
  arithmetic that overflows is undefined. The result is then widened.
\<close>

definition WORD32_CtoML :: "u32 \<Rightarrow> word_t" where "WORD32_CtoML n = ucast (2 * n + 1 :: u32)"
definition WORD32_MLtoC :: "word_t \<Rightarrow> u32" where "WORD32_MLtoC n = ucast (INT_MLtoC n)"

definition INT32_CtoML :: "int \<Rightarrow> word_t res" where
  "INT32_CtoML n = (if INT_MIN \<le> 2 * n + 1 \<and> 2 * n + 1 \<le> INT_MAX then Inr (word_of_int (2 * n + 1))
     else Inl (Fault ''signed overflow''))"
definition INT32_MLtoC :: "word_t \<Rightarrow> int" where
  "INT32_MLtoC n = sint (ucast (INT_MLtoC n) :: u32)"

section \<open>arena-id.h\<close>

type_synonym aid_t = u16

abbreviation (input) RECORD_INDX :: nat where "RECORD_INDX \<equiv> 0"
abbreviation (input) PAIR_INDX :: nat where "PAIR_INDX \<equiv> 1"
abbreviation (input) MIXED_INDX :: nat where "MIXED_INDX \<equiv> 2"
abbreviation (input) STRING_INDX :: nat where "STRING_INDX \<equiv> 3"
abbreviation (input) ARRAY_INDX :: nat where "ARRAY_INDX \<equiv> 4"
abbreviation (input) NUM_ARENAS :: nat where "NUM_ARENAS \<equiv> 5"
abbreviation (input) MAX_NUM_GENS :: nat where "MAX_NUM_GENS \<equiv> 14"

abbreviation (input) OBJC_new :: nat where "OBJC_new \<equiv> 0"
abbreviation (input) OBJC_record :: nat where "OBJC_record \<equiv> 1"
abbreviation (input) OBJC_pair :: nat where "OBJC_pair \<equiv> 2"
abbreviation (input) OBJC_mixed :: nat where "OBJC_mixed \<equiv> 3"
abbreviation (input) OBJC_string :: nat where "OBJC_string \<equiv> 4"
abbreviation (input) OBJC_array :: nat where "OBJC_array \<equiv> 5"
abbreviation (input) OBJC_bigobj :: nat where "OBJC_bigobj \<equiv> 8"
abbreviation (input) OBJC_MAX :: nat where "OBJC_MAX \<equiv> 15"
abbreviation (input) MAX_HBLK :: nat where "MAX_HBLK \<equiv> 255"
abbreviation (input) HBLK_bigobj :: nat where "HBLK_bigobj \<equiv> 0"
abbreviation (input) HBLK_bigobjhdr :: nat where "HBLK_bigobjhdr \<equiv> 1"

definition MAKE_AID :: "nat \<Rightarrow> nat \<Rightarrow> nat \<Rightarrow> aid_t" where
  "MAKE_AID gen objc blk = push_bit 12 (of_nat gen) OR push_bit 8 (of_nat objc) OR of_nat blk"

definition MAKE_MAX_AID :: "nat \<Rightarrow> aid_t" where "MAKE_MAX_AID gen = MAKE_AID gen OBJC_MAX MAX_HBLK"
definition EXTRACT_HBLK :: "aid_t \<Rightarrow> nat" where "EXTRACT_HBLK aid = unat (aid AND 0xff)"
definition EXTRACT_OBJC :: "aid_t \<Rightarrow> nat" where "EXTRACT_OBJC aid = unat (drop_bit 8 aid AND 0xf)"
definition EXTRACT_GEN :: "aid_t \<Rightarrow> nat" where "EXTRACT_GEN aid = unat (drop_bit 12 aid)"
definition IS_FROM_SPACE :: "aid_t \<Rightarrow> aid_t \<Rightarrow> bool" where "IS_FROM_SPACE aid maxAid \<longleftrightarrow> aid \<le> maxAid"
definition AID_NEW :: aid_t where "AID_NEW = MAKE_AID 0 OBJC_new 0"
definition AID_UNMAPPED :: aid_t where "AID_UNMAPPED = 0xffff"
definition AID_BIGOBJ :: "nat \<Rightarrow> aid_t" where "AID_BIGOBJ gen = MAKE_AID gen OBJC_bigobj HBLK_bigobj"
definition AID_BIGOBJ_HDR :: "nat \<Rightarrow> aid_t" where
  "AID_BIGOBJ_HDR gen = MAKE_AID gen OBJC_bigobj HBLK_bigobjhdr"
definition BO_IS_HDR :: "aid_t \<Rightarrow> bool" where "BO_IS_HDR aid \<longleftrightarrow> EXTRACT_HBLK aid = HBLK_bigobjhdr"
definition IS_BIGOBJ_AID :: "aid_t \<Rightarrow> bool" where "IS_BIGOBJ_AID aid \<longleftrightarrow> EXTRACT_OBJC aid = OBJC_bigobj"

section \<open>swap-bytes.c\<close>

definition SwapBytes32 :: "u32 \<Rightarrow> u32" where
  "SwapBytes32 x =
     (let b0 = x AND 0x000000FF;
          b1 = x AND 0x0000FF00;
          b2 = x AND 0x00FF0000;
          b3 = x AND 0xFF000000
      in push_bit 24 b0 OR push_bit 8 b1 OR drop_bit 8 b2 OR drop_bit 24 b3)"

section \<open>Properties\<close>

lemma bit_less: "w < 2 ^ k \<Longrightarrow> bit (w :: 'a::len word) n \<Longrightarrow> n < k"
proof (rule ccontr)
  assume w: "w < 2 ^ k" and b: "bit w n" and "\<not> n < k"
  then have k: "k < LENGTH('a)" using bit_imp_le_length [OF b] by linarith
  from w have "unat w < 2 ^ k" by (simp add: word_less_nat_alt unat_2p [OF k])
  moreover have "bit (unat w) n" using b by (simp add: bit_unsigned_iff)
  then have "2 ^ n \<le> unat w" by (metis bit_nat_def div_less even_zero leI)
  moreover have "(2 :: nat) ^ k \<le> 2 ^ n" using \<open>\<not> n < k\<close> by (intro power_increasing) auto
  ultimately show False by linarith
qed


lemma bit_2: "bit (2 :: 'a::len word) n \<longleftrightarrow> n = 1 \<and> 1 < LENGTH('a)"
  by (auto simp: bit_2_iff possible_bit_word)

lemma bit_TAG: "bit (MAKE_TAG t) n \<longleftrightarrow> n = 1 \<or> (2 \<le> n \<and> n < 64 \<and> bit t (n - 2))"
  unfolding MAKE_TAG_def bit_or_iff bit_2 bit_push_bit_iff by auto

lemma bit_DESC: "bit (MAKE_DESC l t) n \<longleftrightarrow> (7 \<le> n \<and> n < 64 \<and> bit l (n - 7)) \<or> n = 1 \<or> (2 \<le> n \<and> n < 64 \<and> bit t (n - 2))"
  unfolding MAKE_DESC_def bit_or_iff bit_TAG bit_push_bit_iff by auto

lemma GET_LEN_MAKE_DESC: "l < 2 ^ 57 \<Longrightarrow> t < 32 \<Longrightarrow> GET_LEN (MAKE_DESC l t) = l"
proof (rule bit_word_eqI)
  fix n assume l: "l < 2 ^ 57" and t: "t < 32" and n: "n < LENGTH(64)"
  have "\<not> bit t (n + 5)" using bit_less [of t 5 "n + 5"] t by auto
  moreover have "bit l n \<Longrightarrow> n < 57" using bit_less [OF l] .
  ultimately show "bit (GET_LEN (MAKE_DESC l t)) n \<longleftrightarrow> bit l n"
    unfolding GET_LEN_def bit_drop_bit_eq comp_def bit_DESC by (auto simp: add.commute)
qed

lemma masks:
  "(0x7c :: word_t) = push_bit 2 (mask 5)" "(3 :: word_t) = mask 2" "(0xff :: u16) = mask 8"
  "(0xf :: u16) = mask 4" "(2 :: word_t) = push_bit 1 (mask 1)" "(1 :: word_t) = mask 1"
  by (simp_all add: mask_eq_exp_minus_1)

lemma GET_TAG_MAKE_DESC: "t < 32 \<Longrightarrow> GET_TAG (MAKE_DESC l t) = t"
proof (rule bit_word_eqI)
  fix n assume t: "t < 32" and n: "n < LENGTH(64)"
  have "bit t n \<Longrightarrow> n < 5" using bit_less [of t 5 n] t by auto
  then show "bit (GET_TAG (MAKE_DESC l t)) n \<longleftrightarrow> bit t n"
    unfolding GET_TAG_def masks bit_drop_bit_eq comp_def bit_and_iff bit_DESC bit_push_bit_iff bit_mask_iff
    by auto
qed

lemma desc_kind: "isDESC (MAKE_DESC l t)"
proof -
  have "MAKE_DESC l t AND MAJOR_MASK = 2"
  proof (rule bit_word_eqI)
    fix n assume n: "n < LENGTH(64)"
    show "bit (MAKE_DESC l t AND MAJOR_MASK) n \<longleftrightarrow> bit (2 :: word_t) n"
      unfolding masks(2) bit_and_iff bit_DESC bit_mask_iff bit_2 by auto
  qed
  then show ?thesis by (simp add: isDESC_def)
qed

lemma low_bits:
  "isBOXED w \<longleftrightarrow> \<not> bit w 0 \<and> \<not> bit w 1" "isUNBOXED w \<longleftrightarrow> bit w 0" "isDESC w \<longleftrightarrow> \<not> bit w 0 \<and> bit w 1"
proof -
  have m: "w AND MAJOR_MASK = (if bit w 0 then 1 else 0) + (if bit w 1 then 2 else 0)"
  proof -
    have "w AND MAJOR_MASK = take_bit 2 w" by (simp add: masks(2) take_bit_eq_mask)
    also have "\<dots> = (if bit w 0 then 1 else 0) + (if bit w 1 then 2 else 0)"
      by (simp add: numeral_2_eq_2 take_bit_Suc bit_0 bit_Suc mod_2_eq_odd)
    finally show ?thesis .
  qed
  show "isBOXED w \<longleftrightarrow> \<not> bit w 0 \<and> \<not> bit w 1" unfolding isBOXED_def m by auto
  show "isDESC w \<longleftrightarrow> \<not> bit w 0 \<and> bit w 1" unfolding isDESC_def m by auto
  show "isUNBOXED w \<longleftrightarrow> bit w 0"
    by (simp add: isUNBOXED_def and_one_eq bit_0 odd_iff_mod_2_eq_one)
qed

lemma bit_MIXED: "bit (MAKE_MIXED_DESC p r) n \<longleftrightarrow>
   (32 \<le> n \<and> n < 64 \<and> bit p (n - 32)) \<or> (7 \<le> n \<and> n < 64 \<and> bit (p + r) (n - 7))
   \<or> n = 1 \<or> (2 \<le> n \<and> n < 64 \<and> bit (5 :: word_t) (n - 2))"
  unfolding MAKE_MIXED_DESC_def bit_or_iff bit_TAG bit_push_bit_iff by auto

lemma MIXED_roundtrip:
  assumes p: "p < 2 ^ 32" and l: "p + r < 2 ^ 25"
  shows "MIXED_GET_PTRLEN (MAKE_MIXED_DESC p r) = p" and "MIXED_GET_LEN (MAKE_MIXED_DESC p r) = p + r"
    and "GET_TAG (MAKE_MIXED_DESC p r) = DTAG_mixed"
proof -
  have five: "\<not> bit (5 :: word_t) (n + 3)" for n using bit_less [of "5 :: word_t" 3 "n + 3"] by auto
  have lb: "\<not> bit (p + r) (25 + n)" for n using bit_less [OF l, of "25 + n"] by auto
  show "MIXED_GET_PTRLEN (MAKE_MIXED_DESC p r) = p"
  proof (rule bit_word_eqI)
    fix n assume n: "n < LENGTH(64)"
    show "bit (MIXED_GET_PTRLEN (MAKE_MIXED_DESC p r)) n \<longleftrightarrow> bit p n"
      unfolding MIXED_GET_PTRLEN_def bit_drop_bit_eq comp_def bit_MIXED
      using lb [of n] five [of "n + 27"] bit_less [OF p, of n] by (auto simp: add.commute)
  qed
  show "MIXED_GET_LEN (MAKE_MIXED_DESC p r) = p + r"
  proof (rule bit_word_eqI)
    fix n assume n: "n < LENGTH(64)"
    show "bit (MIXED_GET_LEN (MAKE_MIXED_DESC p r)) n \<longleftrightarrow> bit (p + r) n"
      unfolding MIXED_GET_LEN_def bit_unsigned_iff bit_drop_bit_eq comp_def bit_MIXED
      using five [of "n + 2"] bit_less [OF l, of n] by (auto simp: add.commute)
  qed
  show "GET_TAG (MAKE_MIXED_DESC p r) = DTAG_mixed"
  proof (rule bit_word_eqI)
    fix n assume n: "n < LENGTH(64)"
    have "bit (5 :: word_t) n \<Longrightarrow> n < 5" using bit_less [of "5 :: word_t" 3 n] by auto
    then show "bit (GET_TAG (MAKE_MIXED_DESC p r)) n \<longleftrightarrow> bit DTAG_mixed n"
      unfolding GET_TAG_def masks(1) bit_drop_bit_eq comp_def bit_and_iff bit_MIXED bit_push_bit_iff bit_mask_iff
      by auto
  qed
qed

lemma masks32:
  "(0x000000FF :: u32) = mask 8" "(0x0000FF00 :: u32) = push_bit 8 (mask 8)"
  "(0x00FF0000 :: u32) = push_bit 16 (mask 8)" "(0xFF000000 :: u32) = push_bit 24 (mask 8)"
  by (simp_all add: mask_eq_exp_minus_1)

lemma SwapBytes32_bit:
  assumes "n < 32"
  shows "bit (SwapBytes32 x) n \<longleftrightarrow>
    (if n < 8 then bit x (n + 24) else if n < 16 then bit x (n + 8)
     else if n < 24 then bit x (n - 8) else bit x (n - 24))"
  using assms bit_imp_le_length [of x]
  unfolding SwapBytes32_def Let_def masks32 bit_or_iff bit_and_iff bit_drop_bit_eq comp_def
    bit_push_bit_iff bit_mask_iff
  by (auto simp: add.commute)

lemma sint_of: "- (2 ^ 63) \<le> k \<Longrightarrow> k < 2 ^ 63 \<Longrightarrow> sint (word_of_int k :: word_t) = k"
  using signed_take_bit_int_eq_self [of 63 k] by (simp add: signed_of_int)

lemma sint_eqD: "sint w = k \<Longrightarrow> w = word_of_int k"
  by (metis of_int_sint scast_id)

lemma sint_INT_MLtoC: "sint (INT_MLtoC w) = sint w div 2"
  by (simp add: INT_MLtoC_def sint_signed_drop_bit_eq drop_bit_eq_div)

lemma INT_CtoML_sint: "INT_CtoML n = word_of_int (2 * sint n + 1)"
  by (simp add: INT_CtoML_def)

lemma INT_MLtoC_of: "- (2 ^ 62) \<le> k \<Longrightarrow> k < 2 ^ 62 \<Longrightarrow> INT_MLtoC (word_of_int (2 * k + 1)) = word_of_int k"
proof -
  assume k: "- (2 ^ 62) \<le> k" "k < 2 ^ 62"
  have "sint (word_of_int (2 * k + 1) :: word_t) = 2 * k + 1" by (rule sint_of) (use k in auto)
  then have "sint (INT_MLtoC (word_of_int (2 * k + 1))) = k" by (simp add: sint_INT_MLtoC)
  then show ?thesis by (rule sint_eqD)
qed

lemma INT_MLtoC_CtoML: "INT_MLtoC (INT_CtoML n) = n \<longleftrightarrow> - (2 ^ 62) \<le> sint n \<and> sint n < 2 ^ 62"
proof
  assume "INT_MLtoC (INT_CtoML n) = n"
  then have "sint n = sint (INT_CtoML n) div 2" by (metis sint_INT_MLtoC)
  then have "2 * sint n \<le> sint (INT_CtoML n)" "sint (INT_CtoML n) < 2 * sint n + 2" by presburger+
  with sint_ge [of "INT_CtoML n"] sint_lt [of "INT_CtoML n"]
  show "- (2 ^ 62) \<le> sint n \<and> sint n < 2 ^ 62" by simp
next
  assume "- (2 ^ 62) \<le> sint n \<and> sint n < 2 ^ 62"
  then show "INT_MLtoC (INT_CtoML n) = n" by (simp add: INT_CtoML_sint INT_MLtoC_of del: of_int_add of_int_mult)
qed

lemma WORD32_MLtoC_CtoML: "unat (WORD32_MLtoC (WORD32_CtoML n)) = unat n mod 2 ^ 31"
proof -
  define k where "k = (2 * uint n + 1) mod 2 ^ 32"
  have k: "0 \<le> k" "k < 2 ^ 32" by (simp_all add: k_def)
  have "uint (2 * n + 1 :: u32) = k"
    by (simp add: k_def uint_word_ariths mod_simps)
  then have w: "WORD32_CtoML n = word_of_int k"
    by (metis WORD32_CtoML_def of_int_uint)
  have "sint (WORD32_CtoML n) = k" unfolding w by (rule sint_of) (use k in auto)
  then have "sint (INT_MLtoC (WORD32_CtoML n)) = k div 2" by (simp add: sint_INT_MLtoC)
  then have "INT_MLtoC (WORD32_CtoML n) = word_of_int (k div 2)" by (rule sint_eqD)
  then have "uint (WORD32_MLtoC (WORD32_CtoML n)) = k div 2 mod 2 ^ 32"
    by (simp add: WORD32_MLtoC_def unsigned_of_int take_bit_eq_mod uint_word_of_int) (use k in simp)
  also have "\<dots> = uint n mod 2 ^ 31"
    using zmod_zmult2_eq [of "2 ^ 31" "2 * uint n + 1" 2] k by (simp add: k_def)
  finally show ?thesis by (metis nat_mod_distrib nat_numeral nat_power_eq uint_ge_0 unat_eq_nat_uint zero_le_numeral zero_le_power)
qed

lemma INT32_roundtrip:
  "(- (2 ^ 30) \<le> n \<and> n < 2 ^ 30 \<longrightarrow> (\<exists>w. INT32_CtoML n = Inr w \<and> INT32_MLtoC w = n))
   \<and> (n < - (2 ^ 30) \<or> 2 ^ 30 \<le> n \<longrightarrow> INT32_CtoML n = Inl (Fault ''signed overflow''))"
proof (intro conjI impI)
  assume n: "- (2 ^ 30) \<le> n \<and> n < 2 ^ 30"
  have "INT_MLtoC (word_of_int (2 * n + 1)) = word_of_int n" by (rule INT_MLtoC_of) (use n in auto)
  moreover have "sint (ucast (word_of_int n :: word_t) :: u32) = n"
  proof -
    have "(ucast (word_of_int n :: word_t) :: u32) = word_of_int n"
      by (rule bit_word_eqI) (simp add: bit_unsigned_iff bit_word_of_int_iff)
    moreover have "signed_take_bit 31 n = n" using n by (simp add: signed_take_bit_int_eq_self)
    ultimately show ?thesis by (simp add: signed_of_int)
  qed
  ultimately show "\<exists>w. INT32_CtoML n = Inr w \<and> INT32_MLtoC w = n"
    using n by (simp add: INT32_CtoML_def INT32_MLtoC_def del: of_int_add of_int_mult)
qed (auto simp: INT32_CtoML_def)

lemma AID_value:
  assumes "g < 16" "c < 16" "b < 256"
  shows "unat (MAKE_AID g c b) = g * 4096 + c * 256 + b"
proof -
  have b: "bit (of_nat b :: u16) n \<Longrightarrow> n < 8" for n
    using bit_less [of "of_nat b :: u16" 8 n] assms(3) by (simp add: word_less_nat_alt unat_of_nat)
  have c: "bit (of_nat c :: u16) n \<Longrightarrow> n < 4" for n
    using bit_less [of "of_nat c :: u16" 4 n] assms(2) by (simp add: word_less_nat_alt unat_of_nat)
  have 1: "push_bit 8 (of_nat c) OR of_nat b = (push_bit 8 (of_nat c) + of_nat b :: u16)"
  proof (rule disjunctive_add_eq_or [symmetric])
    show "push_bit 8 (of_nat c) AND of_nat b = (0 :: u16)"
      by (rule bit_word_eqI) (use b in \<open>fastforce simp: bit_and_iff bit_push_bit_iff\<close>)
  qed
  have 2: "push_bit 12 (of_nat g) OR (push_bit 8 (of_nat c) OR of_nat b)
      = (push_bit 12 (of_nat g) + (push_bit 8 (of_nat c) OR of_nat b) :: u16)"
  proof (rule disjunctive_add_eq_or [symmetric])
    show "push_bit 12 (of_nat g) AND (push_bit 8 (of_nat c) OR of_nat b) = (0 :: u16)"
      by (rule bit_word_eqI) (use b c in \<open>fastforce simp: bit_and_iff bit_or_iff bit_push_bit_iff\<close>)
  qed
  have "MAKE_AID g c b = push_bit 12 (of_nat g) + (push_bit 8 (of_nat c) + of_nat b)"
    unfolding MAKE_AID_def by (metis 1 2 or.assoc)
  also have "\<dots> = of_nat (g * 4096 + c * 256 + b)" by (simp add: push_bit_eq_mult)
  finally show ?thesis using assms by (simp only: unat_of_nat) simp
qed

lemma EXTRACT_nat:
  "EXTRACT_HBLK a = unat a mod 256" "EXTRACT_OBJC a = unat a div 256 mod 16" "EXTRACT_GEN a = unat a div 4096"
proof -
  have "a AND 0xff = take_bit 8 a" by (simp add: masks(3) take_bit_eq_mask)
  then show "EXTRACT_HBLK a = unat a mod 256" by (simp add: EXTRACT_HBLK_def take_bit_eq_mod unat_mod)
  have "drop_bit 8 a AND 0xf = take_bit 4 (drop_bit 8 a)" by (simp add: masks(4) take_bit_eq_mask)
  then show "EXTRACT_OBJC a = unat a div 256 mod 16"
    by (simp add: EXTRACT_OBJC_def take_bit_eq_mod drop_bit_eq_div unat_mod unat_div)
  show "EXTRACT_GEN a = unat a div 4096"
    by (simp add: EXTRACT_GEN_def drop_bit_eq_div unat_div)
qed

lemma EXTRACT_MAKE_AID:
  assumes "g < 16" "c < 16" "b < 256"
  shows "EXTRACT_GEN (MAKE_AID g c b) = g" "EXTRACT_OBJC (MAKE_AID g c b) = c" "EXTRACT_HBLK (MAKE_AID g c b) = b"
proof -
  define k where "k = c + g * 16"
  have "unat (MAKE_AID g c b) = b + k * 256" "k mod 16 = c"
    using AID_value [OF assms] assms(2) by (simp_all add: k_def)
  then show "EXTRACT_OBJC (MAKE_AID g c b) = c" "EXTRACT_HBLK (MAKE_AID g c b) = b"
    using assms by (simp_all add: EXTRACT_nat)
  show "EXTRACT_GEN (MAKE_AID g c b) = g" using assms by (simp add: EXTRACT_nat AID_value)
qed

lemma FROM_SPACE_iff:
  assumes "g < 16" "c < 16" "b < 256" "G \<le> 14"
  shows "IS_FROM_SPACE (MAKE_AID g c b) (MAKE_MAX_AID G) \<longleftrightarrow> g \<le> G"
  using assms by (simp add: IS_FROM_SPACE_def MAKE_MAX_AID_def word_le_nat_alt AID_value) linarith
text \<open>C25. Descriptors round-trip: for every length below \<open>2^57\<close> and every tag, the length
  and the tag read back from \<open>MAKE_DESC\<close> are the ones stored, and the word is tagged as a
  descriptor and as nothing else; for mixed records the pointer length and the total length
  (below \<open>2^25\<close>) are read back, and the tag is \<open>DTAG_mixed\<close>.\<close>

theorem descriptor_roundtrip:
  assumes "l < 2 ^ 57" and "t < 32" and "p < 2 ^ 32" and "p + r < 2 ^ 25"
  shows "GET_LEN (MAKE_DESC l t) = l \<and> GET_TAG (MAKE_DESC l t) = t
       \<and> isDESC (MAKE_DESC l t) \<and> \<not> isBOXED (MAKE_DESC l t) \<and> \<not> isUNBOXED (MAKE_DESC l t)
       \<and> MIXED_GET_PTRLEN (MAKE_MIXED_DESC p r) = p \<and> MIXED_GET_LEN (MAKE_MIXED_DESC p r) = p + r
       \<and> GET_TAG (MAKE_MIXED_DESC p r) = DTAG_mixed"
  using assms desc_kind [of l t] MIXED_roundtrip [of p r]
  by (auto simp: GET_LEN_MAKE_DESC GET_TAG_MAKE_DESC low_bits)

theorem descriptor_roundtrip_witness:
  "GET_LEN (MAKE_DESC 1000 DTAG_extern) = 1000 \<and> MIXED_GET_LEN (MAKE_MIXED_DESC 3 4) = 7"
  using descriptor_roundtrip [of 1000 DTAG_extern 3 4] by simp

text \<open>C26. Immediate integers: every word carries exactly one of the three major tags; an
  \<open>INT_CtoML\<close> value is unboxed, and reading it back gives the integer exactly when it has at
  most 63 bits. The 32-bit conversions are weaker than their names: \<open>WORD32_CtoML\<close> drops
  the top bit of its argument, because the doubling happens in 32 bits, and \<open>INT32_CtoML\<close>
  overflows outside 31 bits.\<close>

theorem immediate_roundtrip:
  "(isBOXED w \<and> \<not> isUNBOXED w \<and> \<not> isDESC w \<or> \<not> isBOXED w \<and> isUNBOXED w \<and> \<not> isDESC w
      \<or> \<not> isBOXED w \<and> \<not> isUNBOXED w \<and> isDESC w)
   \<and> isUNBOXED (INT_CtoML n)
   \<and> (INT_MLtoC (INT_CtoML n) = n \<longleftrightarrow> - (2 ^ 62) \<le> sint n \<and> sint n < 2 ^ 62)
   \<and> unat (WORD32_MLtoC (WORD32_CtoML u)) = unat u mod 2 ^ 31
   \<and> (- (2 ^ 30) \<le> i \<and> i < 2 ^ 30 \<longrightarrow> (\<exists>v. INT32_CtoML i = Inr v \<and> INT32_MLtoC v = i))
   \<and> (i < - (2 ^ 30) \<or> 2 ^ 30 \<le> i \<longrightarrow> INT32_CtoML i = Inl (Fault ''signed overflow''))"
  using INT_MLtoC_CtoML [of n] WORD32_MLtoC_CtoML [of u] INT32_roundtrip [of i]
  by (simp add: low_bits INT_CtoML_def bit_0) blast

theorem immediate_roundtrip_witness:
  "INT_MLtoC (INT_CtoML 5) = 5 \<and> unat (WORD32_MLtoC (WORD32_CtoML 0x80000001)) = 1
   \<and> (\<exists>v. INT32_CtoML 7 = Inr v \<and> INT32_MLtoC v = 7)"
  using immediate_roundtrip [where w = 0 and n = 5 and u = "0x80000001" and i = 7] by simp

text \<open>C27. Arena identifiers: generation, object class and block number are read back from
  \<open>MAKE_AID\<close>; the single comparison of \<open>IS_FROM_SPACE\<close> is the test that the generation is
  at most the one being collected; and unmapped pages are never in from-space.\<close>

theorem arena_id_roundtrip:
  assumes "g < 16" and "c < 16" and "b < 256" and "G \<le> MAX_NUM_GENS"
  shows "EXTRACT_GEN (MAKE_AID g c b) = g \<and> EXTRACT_OBJC (MAKE_AID g c b) = c
       \<and> EXTRACT_HBLK (MAKE_AID g c b) = b
       \<and> (IS_FROM_SPACE (MAKE_AID g c b) (MAKE_MAX_AID G) \<longleftrightarrow> g \<le> G)
       \<and> \<not> IS_FROM_SPACE AID_UNMAPPED (MAKE_MAX_AID G)"
  using assms EXTRACT_MAKE_AID FROM_SPACE_iff [OF assms]
  by (simp add: IS_FROM_SPACE_def AID_UNMAPPED_def MAKE_MAX_AID_def word_le_nat_alt AID_value)

theorem arena_id_roundtrip_witness:
  "EXTRACT_OBJC (MAKE_AID 3 OBJC_bigobj HBLK_bigobjhdr) = OBJC_bigobj
   \<and> IS_FROM_SPACE (MAKE_AID 3 OBJC_bigobj HBLK_bigobjhdr) (MAKE_MAX_AID 5)"
  using arena_id_roundtrip [of 3 OBJC_bigobj HBLK_bigobjhdr 5] by simp

text \<open>C28. \<open>SwapBytes32\<close> reverses the four bytes of its argument and is its own inverse.\<close>

theorem SwapBytes32_reverses:
  "SwapBytes32 (SwapBytes32 x) = x
   \<and> ucast (SwapBytes32 x) = (ucast (drop_bit 24 x) :: byte_t)
   \<and> ucast (drop_bit 8 (SwapBytes32 x)) = (ucast (drop_bit 16 x) :: byte_t)
   \<and> ucast (drop_bit 16 (SwapBytes32 x)) = (ucast (drop_bit 8 x) :: byte_t)
   \<and> ucast (drop_bit 24 (SwapBytes32 x)) = (ucast x :: byte_t)"
proof (intro conjI bit_word_eqI)
  fix n assume "n < LENGTH(32)"
  then show "bit (SwapBytes32 (SwapBytes32 x)) n \<longleftrightarrow> bit x n"
    by (auto simp: SwapBytes32_bit)
qed (auto simp: bit_unsigned_iff bit_drop_bit_eq SwapBytes32_bit add.commute)

end
