(* ===== verification/Memory_Sys.thy ===== *)
theory Memory_Sys
  imports Tags
begin

text \<open>
  The memory system of \<open>memory/mem-common.ins\<close> and \<open>memory/mem-mmap.c\<close> (anonymous
  \<open>mmap\<close>, partial \<open>munmap\<close>): memory objects, their alignment to BIBOP pages and
  the count of allocated virtual memory. \<open>mmap\<close> and \<open>munmap\<close> belong to the operating
  system: what \<open>mmap\<close> returns is a parameter of the operations, whether \<open>munmap\<close>
  succeeds is a function the state carries, so that every caller has it, and the mapped part of
  the address space is the state the two calls change.
\<close>

abbreviation (input) BIBOP_PAGE_SZB :: addr_t where "BIBOP_PAGE_SZB \<equiv> 0x40000"

definition RND_MEMOBJ_SZB :: "addr_t \<Rightarrow> addr_t" where
  "RND_MEMOBJ_SZB sz = ROUNDUP sz BIBOP_PAGE_SZB"

record mem_obj =
  mo_base :: addr_t
  mo_sizeB :: addr_t

record mem_sys =
  ms_PageSize :: addr_t
  ms_PageShift :: nat
  ms_VMSizeB :: addr_t
  ms_mapped :: "addr_t set"        \<comment> \<open>the mapped part of the address space\<close>
  ms_munmap :: "addr_t set \<Rightarrow> addr_t \<Rightarrow> addr_t \<Rightarrow> bool"
    \<comment> \<open>does \<open>munmap\<close> succeed, given what is mapped, an address and a length\<close>

text \<open>The addresses of a range that does not wrap around.\<close>

definition addr_range :: "addr_t \<Rightarrow> addr_t \<Rightarrow> addr_t set" where
  "addr_range a n = {x. unat a \<le> unat x \<and> unat x < unat a + unat n}"

text \<open>\<open>munmap\<close>, with whether it succeeded. A call that fails unmaps nothing.\<close>

definition munmap :: "addr_t \<Rightarrow> addr_t \<Rightarrow> mem_sys \<Rightarrow> bool \<times> mem_sys" where
  "munmap a n s =
     (if ms_munmap s (ms_mapped s) a n then (True, s\<lparr>ms_mapped := ms_mapped s - addr_range a n\<rparr>)
      else (False, s))"

text \<open>The shift loop of \<open>InitMemory\<close>, with fuel: \<open>i\<close> is an \<open>int\<close>.\<close>

fun page_shift :: "nat \<Rightarrow> u32 \<Rightarrow> nat \<Rightarrow> u32 \<Rightarrow> nat res" where
  "page_shift 0 i j sz = Inl NoFuel"
| "page_shift (Suc fuel) i j sz = (if i \<noteq> sz then page_shift fuel (push_bit 1 i) (j + 1) sz else Inr j)"

definition InitMemory :: "nat \<Rightarrow> u32 \<Rightarrow> mem_sys \<Rightarrow> mem_sys res" where
  "InitMemory fuel pageSize s =
     rbind (page_shift fuel 1 0 pageSize) (\<lambda>j.
       Inr (s\<lparr>ms_VMSizeB := 0, ms_PageSize := ucast pageSize, ms_PageShift := j\<rparr>))"

definition MEM_GetVMSize :: "mem_sys \<Rightarrow> addr_t" where
  "MEM_GetVMSize s = ms_VMSizeB s div 1024"

text \<open>
  \<open>mmap\<close> is the operating system's answer to a request of the given size: \<open>None\<close> when it
  fails, otherwise the address of the new mapping. The code ignores the result of the two calls
  of \<open>munmap\<close> that trim the mapping: where one fails, its part stays mapped.
\<close>

definition MapMemory :: "(addr_t \<Rightarrow> addr_t option) \<Rightarrow> addr_t \<Rightarrow> mem_sys \<Rightarrow> (mem_obj \<times> mem_sys) option" where
  "MapMemory mmap szb s =
     (case mmap (szb + BIBOP_PAGE_SZB) of
        None \<Rightarrow> None
      | Some addr \<Rightarrow>
          (let s1 = s\<lparr>ms_mapped := ms_mapped s \<union> addr_range addr (szb + BIBOP_PAGE_SZB)\<rparr>;
               offset = BIBOP_PAGE_SZB - (addr AND (BIBOP_PAGE_SZB - 1))
           in if offset \<noteq> BIBOP_PAGE_SZB then
                Some (\<lparr>mo_base = addr + offset, mo_sizeB = szb\<rparr>,
                      snd (munmap (addr + offset + szb) (BIBOP_PAGE_SZB - offset) (snd (munmap addr offset s1))))
              else
                Some (\<lparr>mo_base = addr, mo_sizeB = szb\<rparr>, snd (munmap (addr + szb) BIBOP_PAGE_SZB s1))))"

definition UnmapMemory :: "mem_obj \<Rightarrow> mem_sys \<Rightarrow> mem_sys res" where
  "UnmapMemory obj s =
     (let (ok, s) = munmap (mo_base obj) (mo_sizeB obj) s
      in if ok then Inr s else Inl (Die ''error unmapping''))"

text \<open>
  The code returns \<open>NIL\<close>, having changed nothing, when the descriptor of the object cannot be
  allocated and when \<open>mmap\<close> fails; \<open>mmap\<close> is \<open>None\<close> in both cases.
\<close>

definition MEM_AllocMemObj :: "(addr_t \<Rightarrow> addr_t option) \<Rightarrow> addr_t \<Rightarrow> mem_sys \<Rightarrow> (mem_obj \<times> mem_sys) option" where
  "MEM_AllocMemObj mmap szb s =
     (let alloc_szb = (if szb \<le> BIBOP_PAGE_SZB then BIBOP_PAGE_SZB else RND_MEMOBJ_SZB szb) in
      case MapMemory mmap alloc_szb s of
        None \<Rightarrow> None
      | Some (obj, s1) \<Rightarrow> Some (obj, s1\<lparr>ms_VMSizeB := ms_VMSizeB s1 + alloc_szb\<rparr>))"

text \<open>\<open>None\<close> is the NIL object.\<close>

definition MEM_FreeMemObj :: "mem_obj option \<Rightarrow> mem_sys \<Rightarrow> mem_sys res" where
  "MEM_FreeMemObj obj s =
     (case obj of
        None \<Rightarrow> Inr s
      | Some obj \<Rightarrow> rbind (UnmapMemory obj s) (\<lambda>s. Inr (s\<lparr>ms_VMSizeB := ms_VMSizeB s - mo_sizeB obj\<rparr>)))"

section \<open>Properties\<close>

text \<open>What the system call promises: a mapping that does not wrap and was not mapped before.\<close>

definition mmap_ok :: "(addr_t \<Rightarrow> addr_t option) \<Rightarrow> mem_sys \<Rightarrow> bool" where
  "mmap_ok mmap s \<longleftrightarrow> (\<forall>n a. mmap n = Some a \<longrightarrow>
     unat a + unat n < 2 ^ 64 \<and> addr_range a n \<inter> ms_mapped s = {})"

lemma page_mask: "a AND (BIBOP_PAGE_SZB - 1) = (a mod BIBOP_PAGE_SZB :: addr_t)"
proof -
  have "BIBOP_PAGE_SZB - 1 = (mask 18 :: addr_t)" by (simp add: mask_eq_exp_minus_1)
  then have "a AND (BIBOP_PAGE_SZB - 1) = take_bit 18 a" by (simp add: take_bit_eq_mask)
  then show ?thesis by (simp add: take_bit_eq_mod)
qed

lemma RND_MEMOBJ_page:
  assumes "unat sz + 2 ^ 18 \<le> 2 ^ 64"
  shows "unat (RND_MEMOBJ_SZB sz) = (unat sz + (2 ^ 18 - 1)) div 2 ^ 18 * 2 ^ 18"
  using ROUNDUP_pow2 [OF assms] by (simp add: RND_MEMOBJ_SZB_def)

lemma range_split:
  assumes "unat a + unat n + unat m < 2 ^ 64"
  shows "addr_range a (n + m) = addr_range a n \<union> addr_range (a + n) m"
    and "addr_range a n \<inter> addr_range (a + n) m = {}"
proof -
  have e: "unat (n + m) = unat n + unat m" "unat (a + n) = unat a + unat n"
    using assms by (simp_all add: unat_word_ariths(1))
  show "addr_range a (n + m) = addr_range a n \<union> addr_range (a + n) m"
    unfolding addr_range_def e by (rule set_eqI) (simp, linarith)
  show "addr_range a n \<inter> addr_range (a + n) m = {}"
    unfolding addr_range_def e by auto
qed

text \<open>Every \<open>munmap\<close> outside the given range succeeds.\<close>

definition munmap_outside :: "addr_t set \<Rightarrow> mem_sys \<Rightarrow> bool" where
  "munmap_outside R s \<longleftrightarrow> (\<forall>M a n. addr_range a n \<inter> R = {} \<longrightarrow> ms_munmap s M a n)"

lemma snd_munmap:
  "\<exists>M. snd (munmap a n s) = s\<lparr>ms_mapped := M\<rparr> \<and> ms_mapped s - addr_range a n \<subseteq> M \<and> M \<subseteq> ms_mapped s
     \<and> (munmap_outside R s \<and> addr_range a n \<inter> R = {} \<longrightarrow> M = ms_mapped s - addr_range a n)"
proof (cases "ms_munmap s (ms_mapped s) a n")
  case True
  then show ?thesis by (intro exI [of _ "ms_mapped s - addr_range a n"]) (auto simp: munmap_def)
next
  case False
  then show ?thesis by (intro exI [of _ "ms_mapped s"]) (auto simp: munmap_def munmap_outside_def)
qed

lemma MapMemory_spec:
  assumes ok: "mmap_ok mmap s" and m: "MapMemory mmap szb s = Some (obj, s')"
    and sz: "unat szb + 2 ^ 18 < 2 ^ 64"
  shows "mo_sizeB obj = szb \<and> unat (mo_base obj) mod 2 ^ 18 = 0
    \<and> unat (mo_base obj) + unat szb < 2 ^ 64
    \<and> addr_range (mo_base obj) szb \<inter> ms_mapped s = {}
    \<and> (\<exists>addr M. mmap (szb + BIBOP_PAGE_SZB) = Some addr \<and> s' = s\<lparr>ms_mapped := M\<rparr>
         \<and> addr_range (mo_base obj) szb \<subseteq> addr_range addr (szb + BIBOP_PAGE_SZB)
         \<and> ms_mapped s \<union> addr_range (mo_base obj) szb \<subseteq> M
         \<and> M \<subseteq> ms_mapped s \<union> addr_range addr (szb + BIBOP_PAGE_SZB)
         \<and> (munmap_outside (addr_range (mo_base obj) szb) s \<longrightarrow>
              M = ms_mapped s \<union> addr_range (mo_base obj) szb))"
proof -
  from m obtain addr where addr: "mmap (szb + BIBOP_PAGE_SZB) = Some addr"
    by (auto simp: MapMemory_def split: option.splits)
  let ?T = "addr_range addr (szb + BIBOP_PAGE_SZB)"
  have tot: "unat (szb + BIBOP_PAGE_SZB) = unat szb + 2 ^ 18"
    using sz by (simp add: unat_word_ariths(1))
  from ok addr have a: "unat addr + (unat szb + 2 ^ 18) < 2 ^ 64"
    and dj: "addr_range addr (szb + BIBOP_PAGE_SZB) \<inter> ms_mapped s = {}"
    unfolding mmap_ok_def tot [symmetric] by auto
  define r where "r = unat addr mod 2 ^ 18"
  have r: "r < 2 ^ 18" "r \<le> unat addr" "(unat addr - r) mod 2 ^ 18 = 0"
    by (auto simp: r_def)
  have um: "unat (addr AND (BIBOP_PAGE_SZB - 1)) = r"
    by (simp only: page_mask unat_mod r_def) simp
  define off where "off = BIBOP_PAGE_SZB - (addr AND (BIBOP_PAGE_SZB - 1))"
  have off: "unat off = 2 ^ 18 - r"
    using r(1) um by (simp add: off_def unat_sub word_le_nat_alt)
  let ?s1 = "s\<lparr>ms_mapped := ms_mapped s \<union> addr_range addr (szb + BIBOP_PAGE_SZB)\<rparr>"
  have m': "(if off \<noteq> BIBOP_PAGE_SZB then Some (\<lparr>mo_base = addr + off, mo_sizeB = szb\<rparr>,
        snd (munmap (addr + off + szb) (BIBOP_PAGE_SZB - off) (snd (munmap addr off ?s1))))
      else Some (\<lparr>mo_base = addr, mo_sizeB = szb\<rparr>, snd (munmap (addr + szb) BIBOP_PAGE_SZB ?s1))) = Some (obj, s')"
    using m unfolding MapMemory_def addr option.case Let_def off_def .
  show ?thesis
  proof (cases "r = 0")
    case True
    then have "off = BIBOP_PAGE_SZB" using off by (simp add: word_unat_eq_iff)
    then have res: "obj = \<lparr>mo_base = addr, mo_sizeB = szb\<rparr>"
      "s' = snd (munmap (addr + szb) BIBOP_PAGE_SZB ?s1)"
      using m' by auto
    have "unat addr + unat szb + unat BIBOP_PAGE_SZB < 2 ^ 64" using a by simp
    note sp = range_split [OF this]
    obtain M where M: "s' = ?s1\<lparr>ms_mapped := M\<rparr>" "ms_mapped ?s1 - addr_range (addr + szb) BIBOP_PAGE_SZB \<subseteq> M"
        "M \<subseteq> ms_mapped ?s1"
        "munmap_outside (addr_range addr szb) ?s1 \<and> addr_range (addr + szb) BIBOP_PAGE_SZB \<inter> addr_range addr szb = {}
           \<longrightarrow> M = ms_mapped ?s1 - addr_range (addr + szb) BIBOP_PAGE_SZB"
      using snd_munmap [of "addr + szb" BIBOP_PAGE_SZB ?s1 "addr_range addr szb"] res by blast
    have "addr_range addr szb \<inter> ms_mapped s = {}" "addr_range addr szb \<subseteq> ?T" using sp dj by blast+
    moreover have "ms_mapped s \<union> addr_range addr szb \<subseteq> M" using M(2) sp dj by auto
    moreover have "M \<subseteq> ms_mapped s \<union> ?T" using M(3) by simp
    moreover have "M = ms_mapped s \<union> addr_range addr szb" if "munmap_outside (addr_range addr szb) s"
    proof -
      have "munmap_outside (addr_range addr szb) ?s1" using that by (simp add: munmap_outside_def)
      then have "M = ms_mapped s \<union> ?T - addr_range (addr + szb) BIBOP_PAGE_SZB" using M(4) sp(2) by auto
      then show ?thesis using sp dj by blast
    qed
    moreover have "s' = s\<lparr>ms_mapped := M\<rparr>" using M(1) by simp
    ultimately show ?thesis using a True addr unfolding res(1) r_def by auto
  next
    case False
    then have "off \<noteq> BIBOP_PAGE_SZB" using off r(1) by (auto simp: word_unat_eq_iff)
    then have res: "obj = \<lparr>mo_base = addr + off, mo_sizeB = szb\<rparr>"
      "s' = snd (munmap (addr + off + szb) (BIBOP_PAGE_SZB - off) (snd (munmap addr off ?s1)))"
      using m' by auto
    have b: "unat (addr + off) = unat addr + (2 ^ 18 - r)" "unat (addr + off + szb) = unat addr + (2 ^ 18 - r) + unat szb"
      using a off r by (simp_all add: unat_word_ariths(1))
    have c: "unat (BIBOP_PAGE_SZB - off) = r" using off r by (simp add: unat_sub word_le_nat_alt)
    have e: "szb + BIBOP_PAGE_SZB = off + (szb + (BIBOP_PAGE_SZB - off))" by simp
    have s1: "unat (szb + (BIBOP_PAGE_SZB - off)) = unat szb + r"
      using a c r by (simp add: unat_word_ariths(1))
    have "unat addr + unat off + unat (szb + (BIBOP_PAGE_SZB - off)) < 2 ^ 64"
      "unat (addr + off) + unat szb + unat (BIBOP_PAGE_SZB - off) < 2 ^ 64"
      using a b c off s1 r by simp_all
    note sp1 = range_split [OF this(1), folded e] and sp2 = range_split [OF this(2)]
    let ?R = "addr_range (addr + off) szb" and ?G1 = "addr_range addr off"
      and ?G2 = "addr_range (addr + off + szb) (BIBOP_PAGE_SZB - off)"
    obtain M1 where M1: "snd (munmap addr off ?s1) = ?s1\<lparr>ms_mapped := M1\<rparr>" "ms_mapped ?s1 - ?G1 \<subseteq> M1" "M1 \<subseteq> ms_mapped ?s1"
        "munmap_outside ?R ?s1 \<and> ?G1 \<inter> ?R = {} \<longrightarrow> M1 = ms_mapped ?s1 - ?G1"
      using snd_munmap [of addr off ?s1 ?R] by blast
    let ?s2 = "?s1\<lparr>ms_mapped := M1\<rparr>"
    obtain M where M: "s' = ?s2\<lparr>ms_mapped := M\<rparr>" "ms_mapped ?s2 - ?G2 \<subseteq> M" "M \<subseteq> ms_mapped ?s2"
        "munmap_outside ?R ?s2 \<and> ?G2 \<inter> ?R = {} \<longrightarrow> M = ms_mapped ?s2 - ?G2"
      using snd_munmap [of "addr + off + szb" "BIBOP_PAGE_SZB - off" ?s2 ?R] res(2) M1(1) by auto
    have T: "?T = ?G1 \<union> ?R \<union> ?G2" "?G1 \<inter> ?R = {}" "?G2 \<inter> ?R = {}" using sp1 sp2 by blast+
    have "?R \<inter> ms_mapped s = {}" "?R \<subseteq> ?T" using T dj by blast+
    moreover have "ms_mapped s \<union> ?R \<subseteq> M"
    proof -
      have "ms_mapped s \<union> ?T - ?G1 \<subseteq> M1" "M1 - ?G2 \<subseteq> M" using M1(2) M(2) by simp_all
      then show ?thesis using T dj by blast
    qed
    moreover have "M \<subseteq> ms_mapped s \<union> ?T" using M(3) M1(3) by auto
    moreover have "M = ms_mapped s \<union> ?R" if "munmap_outside ?R s"
    proof -
      have "munmap_outside ?R ?s1" "munmap_outside ?R ?s2" using that by (simp_all add: munmap_outside_def)
      then have "M = ms_mapped s \<union> ?T - ?G1 - ?G2" using M(4) M1(4) T(2,3) by auto
      then show ?thesis using T dj by blast
    qed
    moreover have "s' = s\<lparr>ms_mapped := M\<rparr>" using M(1) by simp
    moreover have "unat (mo_base obj) mod 2 ^ 18 = 0"
    proof -
      have "unat addr + (2 ^ 18 - r) = (unat addr - r) + 2 ^ 18" using r by simp
      then show ?thesis using r(3) by (simp add: res b)
    qed
    moreover have "unat (mo_base obj) + unat szb < 2 ^ 64" using a b r by (simp add: res(1))
    ultimately show ?thesis unfolding res(1) using addr by auto
  qed
qed

lemma MEM_AllocMemObj_spec:
  assumes "mmap_ok mmap s" and "MEM_AllocMemObj mmap szb s = Some (obj, s')"
    and "unat szb + 2 ^ 19 < 2 ^ 64"
  defines "R \<equiv> addr_range (mo_base obj) (mo_sizeB obj)"
  shows "unat (mo_base obj) mod 2 ^ 18 = 0 \<and> unat (mo_sizeB obj) mod 2 ^ 18 = 0
       \<and> unat szb \<le> unat (mo_sizeB obj) \<and> unat (mo_sizeB obj) \<le> unat szb + 2 ^ 18 \<and> 0 < unat (mo_sizeB obj)
       \<and> R \<inter> ms_mapped s = {}
       \<and> (\<exists>addr M. mmap (mo_sizeB obj + BIBOP_PAGE_SZB) = Some addr
            \<and> s' = s\<lparr>ms_mapped := M, ms_VMSizeB := ms_VMSizeB s + mo_sizeB obj\<rparr>
            \<and> R \<subseteq> addr_range addr (mo_sizeB obj + BIBOP_PAGE_SZB) \<and> ms_mapped s \<union> R \<subseteq> M
            \<and> M \<subseteq> ms_mapped s \<union> addr_range addr (mo_sizeB obj + BIBOP_PAGE_SZB)
            \<and> (munmap_outside R s \<longrightarrow> M = ms_mapped s \<union> R))"
proof -
  define n where "n = (if szb \<le> BIBOP_PAGE_SZB then BIBOP_PAGE_SZB else RND_MEMOBJ_SZB szb)"
  have n: "unat n mod 2 ^ 18 = 0" "unat szb \<le> unat n" "unat n \<le> unat szb + 2 ^ 18" "0 < unat n"
  proof -
    have "unat (RND_MEMOBJ_SZB szb) = (unat szb + (2 ^ 18 - 1)) div 2 ^ 18 * 2 ^ 18"
      using assms(3) by (intro RND_MEMOBJ_page) simp
    then show "unat n mod 2 ^ 18 = 0" "unat szb \<le> unat n" "unat n \<le> unat szb + 2 ^ 18" "0 < unat n"
      by (auto simp: n_def word_le_nat_alt split: if_splits)
  qed
  from assms(2) obtain s1 where s1: "MapMemory mmap n s = Some (obj, s1)"
    "s' = s1\<lparr>ms_VMSizeB := ms_VMSizeB s1 + n\<rparr>"
    by (auto simp: MEM_AllocMemObj_def n_def [symmetric] Let_def split: option.splits)
  have "unat n + 2 ^ 18 < 2 ^ 64" using n(3) assms(3) by simp
  from MapMemory_spec [OF assms(1) s1(1) this] have
    o: "mo_sizeB obj = n" "unat (mo_base obj) mod 2 ^ 18 = 0" "R \<inter> ms_mapped s = {}"
    and ex: "\<exists>addr M. mmap (n + BIBOP_PAGE_SZB) = Some addr \<and> s1 = s\<lparr>ms_mapped := M\<rparr>
         \<and> R \<subseteq> addr_range addr (n + BIBOP_PAGE_SZB) \<and> ms_mapped s \<union> R \<subseteq> M
         \<and> M \<subseteq> ms_mapped s \<union> addr_range addr (n + BIBOP_PAGE_SZB)
         \<and> (munmap_outside R s \<longrightarrow> M = ms_mapped s \<union> R)"
    unfolding R_def by auto
  from ex obtain addr M where e: "mmap (n + BIBOP_PAGE_SZB) = Some addr" "s1 = s\<lparr>ms_mapped := M\<rparr>"
    and rest: "R \<subseteq> addr_range addr (n + BIBOP_PAGE_SZB)" "ms_mapped s \<union> R \<subseteq> M"
      "M \<subseteq> ms_mapped s \<union> addr_range addr (n + BIBOP_PAGE_SZB)" "munmap_outside R s \<longrightarrow> M = ms_mapped s \<union> R"
    by blast
  have "s' = s\<lparr>ms_mapped := M, ms_VMSizeB := ms_VMSizeB s + n\<rparr>" by (simp add: s1(2) e(2))
  with e(1) rest o n show ?thesis by blast
qed

text \<open>C32. Whatever address \<open>mmap\<close> returns, a memory object starts on a BIBOP page boundary, is a
  whole number of BIBOP pages, at least as large as requested, and lies in the mapping that
  \<open>mmap\<close> made, apart from what was mapped before. Nothing outside that mapping changes; of its
  extra page, mapped for alignment, nothing stays mapped when the unmapping calls of the trim
  succeed. The virtual-memory count grows by the object's size. Freeing the object unmaps it and
  takes its size off the count, which restores the state before the allocation when the trim
  succeeded; when \<open>munmap\<close> fails, the run-time system dies.\<close>

theorem MEM_AllocMemObj_aligned:
  assumes "mmap_ok mmap s" and "MEM_AllocMemObj mmap szb s = Some (obj, s')"
    and "unat szb + 2 ^ 19 < 2 ^ 64"
    and R: "R = addr_range (mo_base obj) (mo_sizeB obj)"
  shows "unat (mo_base obj) mod 2 ^ 18 = 0 \<and> unat (mo_sizeB obj) mod 2 ^ 18 = 0
       \<and> unat szb \<le> unat (mo_sizeB obj) \<and> unat (mo_sizeB obj) \<le> unat szb + 2 ^ 18
       \<and> (\<exists>addr. mmap (mo_sizeB obj + BIBOP_PAGE_SZB) = Some addr
            \<and> R \<subseteq> addr_range addr (mo_sizeB obj + BIBOP_PAGE_SZB)
            \<and> ms_mapped s' \<subseteq> ms_mapped s \<union> addr_range addr (mo_sizeB obj + BIBOP_PAGE_SZB))
       \<and> R \<inter> ms_mapped s = {} \<and> ms_mapped s \<union> R \<subseteq> ms_mapped s'
       \<and> ms_VMSizeB s' = ms_VMSizeB s + mo_sizeB obj
       \<and> MEM_FreeMemObj (Some obj) s' =
           (if ms_munmap s (ms_mapped s') (mo_base obj) (mo_sizeB obj)
            then Inr (s\<lparr>ms_mapped := ms_mapped s' - R\<rparr>) else Inl (Die ''error unmapping''))
       \<and> (munmap_outside R s \<longrightarrow> ms_mapped s' = ms_mapped s \<union> R \<and> s\<lparr>ms_mapped := ms_mapped s' - R\<rparr> = s)"
proof -
  note al = MEM_AllocMemObj_spec [OF assms(1-3), folded R]
  from al obtain addr M where e: "mmap (mo_sizeB obj + BIBOP_PAGE_SZB) = Some addr"
      "s' = s\<lparr>ms_mapped := M, ms_VMSizeB := ms_VMSizeB s + mo_sizeB obj\<rparr>"
    and rest: "R \<subseteq> addr_range addr (mo_sizeB obj + BIBOP_PAGE_SZB)" "ms_mapped s \<union> R \<subseteq> M"
      "M \<subseteq> ms_mapped s \<union> addr_range addr (mo_sizeB obj + BIBOP_PAGE_SZB)"
      "munmap_outside R s \<longrightarrow> M = ms_mapped s \<union> R"
    by blast
  have "MEM_FreeMemObj (Some obj) s' =
           (if ms_munmap s (ms_mapped s') (mo_base obj) (mo_sizeB obj)
            then Inr (s\<lparr>ms_mapped := ms_mapped s' - R\<rparr>) else Inl (Die ''error unmapping''))"
    by (simp add: MEM_FreeMemObj_def UnmapMemory_def munmap_def e(2) R)
  moreover have "munmap_outside R s \<longrightarrow> ms_mapped s' = ms_mapped s \<union> R \<and> s\<lparr>ms_mapped := ms_mapped s' - R\<rparr> = s"
  proof
    assume "munmap_outside R s"
    then have M: "M = ms_mapped s \<union> R" using rest(4) by blast
    moreover have "ms_mapped s \<union> R - R = ms_mapped s" using al by blast
    ultimately show "ms_mapped s' = ms_mapped s \<union> R \<and> s\<lparr>ms_mapped := ms_mapped s' - R\<rparr> = s"
      by (simp add: e(2))
  qed
  moreover have "ms_mapped s' = M" "ms_VMSizeB s' = ms_VMSizeB s + mo_sizeB obj" by (simp_all add: e(2))
  ultimately show ?thesis using al e(1) rest by blast
qed

theorem MEM_AllocMemObj_aligned_witness:
  "let s = (\<lambda>um. \<lparr>ms_PageSize = 4096, ms_PageShift = 12, ms_VMSizeB = 0, ms_mapped = {}, ms_munmap = um\<rparr>);
       mmap = (\<lambda>n. if n = 0xC0000 then Some 0x7f0000123000 else None);
       s1 = s (\<lambda>_ _ _. True); s2 = s (\<lambda>_ _ n. n < 0x80000)
   in (\<exists>obj s'. MEM_AllocMemObj mmap 0x50000 s1 = Some (obj, s') \<and> unat (mo_base obj) mod 2 ^ 18 = 0
        \<and> ms_mapped s' = addr_range (mo_base obj) (mo_sizeB obj) \<and> MEM_FreeMemObj (Some obj) s' = Inr s1)
    \<and> (\<exists>obj s'. MEM_AllocMemObj mmap 0x50000 s2 = Some (obj, s')
        \<and> addr_range (mo_base obj) (mo_sizeB obj) \<subseteq> ms_mapped s'
        \<and> MEM_FreeMemObj (Some obj) s' = Inl (Die ''error unmapping''))"
proof -
  let ?s = "\<lambda>um. \<lparr>ms_PageSize = 4096, ms_PageShift = 12, ms_VMSizeB = 0, ms_mapped = {}, ms_munmap = um\<rparr> :: mem_sys"
  let ?mmap = "\<lambda>n. if n = 0xC0000 then Some (0x7f0000123000 :: addr_t) else None"
  let ?s1 = "?s (\<lambda>_ _ _. True)" and ?s2 = "?s (\<lambda>_ _ n. n < 0x80000)"
  have ok: "mmap_ok ?mmap (?s um)" for um by (auto simp: mmap_ok_def split: if_splits)
  have m: "\<exists>obj s'. MEM_AllocMemObj ?mmap 0x50000 (?s um) = Some (obj, s') \<and> mo_sizeB obj = 0x80000" for um
    by (simp add: MEM_AllocMemObj_def MapMemory_def RND_MEMOBJ_SZB_def ROUNDUP_def Let_def)
  obtain o1 t1 o2 t2 where al: "MEM_AllocMemObj ?mmap 0x50000 ?s1 = Some (o1, t1)"
      "MEM_AllocMemObj ?mmap 0x50000 ?s2 = Some (o2, t2)" "mo_sizeB o2 = 0x80000"
    using m by meson
  have "munmap_outside R ?s1" for R by (simp add: munmap_outside_def)
  with MEM_AllocMemObj_aligned [OF ok al(1) _ refl]
  have "unat (mo_base o1) mod 2 ^ 18 = 0 \<and> ms_mapped t1 = addr_range (mo_base o1) (mo_sizeB o1)
      \<and> MEM_FreeMemObj (Some o1) t1 = Inr ?s1" by simp
  moreover from MEM_AllocMemObj_aligned [OF ok al(2) _ refl] al(3)
  have "addr_range (mo_base o2) (mo_sizeB o2) \<subseteq> ms_mapped t2
      \<and> MEM_FreeMemObj (Some o2) t2 = Inl (Die ''error unmapping'')" by simp
  ultimately show ?thesis unfolding Let_def using al by auto
qed

end
