(* ===== verification/Bibop.thy ===== *)
theory Bibop
  imports Tags
begin

text \<open>
  The BIBOP, the map from memory pages to arena identifiers: the two-level table of the 64-bit
  build (\<open>include/bibop.h\<close>, \<open>InitBibop\<close> and \<open>FreeBibop\<close> of \<open>gc/init-gc.c\<close>,
  \<open>MarkRegion\<close> of \<open>gc/gc-util.c\<close>) and the flat table of the 32-bit build. A level-1 entry
  is \<open>None\<close> when it points to the shared table \<open>UnmappedL2\<close>. Reading or writing the level-1
  table outside its 65536 entries is a \<open>Fault\<close>.
\<close>

abbreviation (input) BIBOP_L1_SZ :: nat where "BIBOP_L1_SZ \<equiv> 65536"
abbreviation (input) BIBOP_L2_SZ :: nat where "BIBOP_L2_SZ \<equiv> 16384"

record l2_bibop =
  l2_tbl :: "nat \<Rightarrow> aid_t"
  l2_numMapped :: u32

record bibop =
  bb_l1 :: "nat \<Rightarrow> l2_bibop option"
  UnmappedL2 :: l2_bibop

definition BIBOP_ADDR_TO_INDEX :: "addr_t \<Rightarrow> nat" where
  "BIBOP_ADDR_TO_INDEX a = unat (drop_bit 18 a)"

definition BIBOP_INDEX_TO_L1_INDEX :: "nat \<Rightarrow> nat" where "BIBOP_INDEX_TO_L1_INDEX ix = ix div 2 ^ 14"
definition BIBOP_INDEX_TO_L2_INDEX :: "nat \<Rightarrow> nat" where "BIBOP_INDEX_TO_L2_INDEX ix = ix mod 2 ^ 14"
definition BIBOP_INDEX_TO_ADDR :: "nat \<Rightarrow> addr_t" where "BIBOP_INDEX_TO_ADDR i = push_bit 18 (of_nat i)"

definition l2_of :: "bibop \<Rightarrow> nat \<Rightarrow> l2_bibop" where
  "l2_of b i = (case bb_l1 b i of None \<Rightarrow> UnmappedL2 b | Some t \<Rightarrow> t)"

definition set_l2 :: "nat \<Rightarrow> l2_bibop \<Rightarrow> bibop \<Rightarrow> bibop" where
  "set_l2 i t b = (case bb_l1 b i of
      None \<Rightarrow> b\<lparr>UnmappedL2 := t\<rparr>
    | Some _ \<Rightarrow> b\<lparr>bb_l1 := (bb_l1 b)(i := Some t)\<rparr>)"

definition INDEX_TO_PAGEID :: "bibop \<Rightarrow> nat \<Rightarrow> aid_t res" where
  "INDEX_TO_PAGEID b ix =
     (if BIBOP_L1_SZ \<le> BIBOP_INDEX_TO_L1_INDEX ix then Inl (Fault ''BIBOP index out of range'')
      else Inr (l2_tbl (l2_of b (BIBOP_INDEX_TO_L1_INDEX ix)) (BIBOP_INDEX_TO_L2_INDEX ix)))"

definition ADDR_TO_PAGEID :: "bibop \<Rightarrow> addr_t \<Rightarrow> aid_t res" where
  "ADDR_TO_PAGEID b a = INDEX_TO_PAGEID b (BIBOP_ADDR_TO_INDEX a)"

text \<open>The update of a single entry, \<open>BIBOP_UPDATE\<close>.\<close>

definition BIBOP_UPDATE :: "nat \<Rightarrow> aid_t \<Rightarrow> bibop \<Rightarrow> bibop res" where
  "BIBOP_UPDATE ix aid b =
     (let i = BIBOP_INDEX_TO_L1_INDEX ix; t = l2_of b i in
      if BIBOP_L1_SZ \<le> i then Inl (Fault ''BIBOP index out of range'')
      else Inr (set_l2 i (t\<lparr>l2_tbl := (l2_tbl t)(BIBOP_INDEX_TO_L2_INDEX ix := aid)\<rparr>) b))"

definition InitBibop :: bibop where
  "InitBibop = \<lparr>bb_l1 = fill (\<lambda>_. None) 0 BIBOP_L1_SZ None,
     UnmappedL2 = \<lparr>l2_tbl = fill (\<lambda>_. 0) 0 BIBOP_L2_SZ AID_UNMAPPED, l2_numMapped = 0\<rparr>\<rparr>"

text \<open>\<open>FreeBibop\<close>, as the level-1 indices of the level-2 tables that are freed.\<close>

definition FreeBibop :: "bibop \<Rightarrow> nat list" where
  "FreeBibop b = filter (\<lambda>i. bb_l1 b i \<noteq> None) [0..<BIBOP_L1_SZ]"

text \<open>The bounds of the level-2 loop for the level-1 index \<open>ix\<close>.\<close>

definition l2_start :: "nat \<Rightarrow> nat \<Rightarrow> nat \<Rightarrow> nat" where
  "l2_start topStart start ix = (if topStart < ix then 0 else BIBOP_INDEX_TO_L2_INDEX start)"

definition l2_end :: "nat \<Rightarrow> nat \<Rightarrow> nat \<Rightarrow> nat" where
  "l2_end topEnd endIx ix = (if ix < topEnd then BIBOP_L2_SZ else BIBOP_INDEX_TO_L2_INDEX endIx)"

definition unmark_l2 :: "nat \<Rightarrow> nat \<Rightarrow> nat \<Rightarrow> aid_t \<Rightarrow> bibop \<Rightarrow> bibop res" where
  "unmark_l2 ix lo hi aid b =
     (if BIBOP_L1_SZ \<le> ix then Inl (Fault ''BIBOP index out of range'')
      else (let t = l2_of b ix in
        Inr (set_l2 ix (t\<lparr>l2_tbl := fill (l2_tbl t) lo hi aid,
                         l2_numMapped := l2_numMapped t - (of_nat hi - of_nat lo)\<rparr>) b)))"

text \<open>
  The body of the other loop. A fresh table comes from \<open>malloc\<close>; all its entries are
  written before it is used (its initial contents are modelled as zeros).
\<close>

definition mark_l2 :: "nat \<Rightarrow> nat \<Rightarrow> nat \<Rightarrow> aid_t \<Rightarrow> bibop \<Rightarrow> bibop res" where
  "mark_l2 ix lo hi aid b =
     (if BIBOP_L1_SZ \<le> ix then Inl (Fault ''BIBOP index out of range'')
      else
        (let t = (case bb_l1 b ix of
              None \<Rightarrow> \<lparr>l2_tbl = fill (fill (\<lambda>_. 0) 0 lo AID_UNMAPPED) hi BIBOP_L2_SZ AID_UNMAPPED,
                       l2_numMapped = of_nat hi - of_nat lo\<rparr>
            | Some t \<Rightarrow> t\<lparr>l2_numMapped := l2_numMapped t + (of_nat hi - of_nat lo)\<rparr>)
         in Inr (b\<lparr>bb_l1 := (bb_l1 b)(ix := Some (t\<lparr>l2_tbl := fill (l2_tbl t) lo hi aid\<rparr>))\<rparr>)))"

definition MarkRegion :: "addr_t \<Rightarrow> addr_t \<Rightarrow> aid_t \<Rightarrow> bibop \<Rightarrow> bibop res" where
  "MarkRegion baseAddr szB aid b =
     (let start = BIBOP_ADDR_TO_INDEX baseAddr;
          npages = BIBOP_ADDR_TO_INDEX szB;
          endIx = start + npages;
          topStart = BIBOP_INDEX_TO_L1_INDEX start mod 2 ^ 32;
          topEnd = BIBOP_INDEX_TO_L1_INDEX endIx mod 2 ^ 32
      in rfold (\<lambda>ix. (if aid = AID_UNMAPPED then unmark_l2 else mark_l2) ix
                   (l2_start topStart start ix) (l2_end topEnd endIx ix) aid)
           [topStart..<Suc topEnd] b)"

text \<open>The 32-bit build: a flat table of 65536 entries, one for each page of 64 Kbytes.\<close>

definition MarkRegion32 :: "u32 \<Rightarrow> u32 \<Rightarrow> aid_t \<Rightarrow> (nat \<Rightarrow> aid_t) \<Rightarrow> (nat \<Rightarrow> aid_t) res" where
  "MarkRegion32 baseAddr szB aid b =
     (let start = unat (drop_bit 16 baseAddr); endIx = start + unat (drop_bit 16 szB) in
      if 65536 < endIx then Inl (Fault ''BIBOP index out of range'')
      else Inr (fill b start endIx aid))"

text \<open>
  The walk to the header page of a big-object region, which \<open>BO_GetDesc\<close>,
  \<open>BO_AddrToCodeObjTag\<close>, \<open>GetObjGen\<close> and \<open>MinorGC_ScanStoreList\<close> share: downwards
  from the page of an address inside the region.
\<close>

fun find_hdr :: "(nat \<Rightarrow> aid_t res) \<Rightarrow> nat \<Rightarrow> nat res" where
  "find_hdr look 0 =
     rbind (look 0) (\<lambda>aid. if BO_IS_HDR aid then Inr 0 else Inl (Fault ''BIBOP index out of range''))"
| "find_hdr look (Suc indx) =
     rbind (look (Suc indx)) (\<lambda>aid. if BO_IS_HDR aid then Inr (Suc indx) else find_hdr look indx)"

section \<open>The page map\<close>

definition page_map :: "bibop \<Rightarrow> nat \<Rightarrow> aid_t" where
  "page_map b ix = l2_tbl (l2_of b (ix div 16384)) (ix mod 16384)"

definition bibop_wf :: "bibop \<Rightarrow> bool" where
  "bibop_wf b \<longleftrightarrow> (\<forall>j < 16384. l2_tbl (UnmappedL2 b) j = AID_UNMAPPED)"

lemma INDEX_TO_PAGEID_map: "ix < 2 ^ 30 \<Longrightarrow> INDEX_TO_PAGEID b ix = Inr (page_map b ix)"
  by (simp add: INDEX_TO_PAGEID_def page_map_def BIBOP_INDEX_TO_L1_INDEX_def BIBOP_INDEX_TO_L2_INDEX_def div_less_iff_less_mult)

lemma set_l2_wf:
  assumes "bibop_wf b" "\<And>j. j < 16384 \<Longrightarrow> l2_tbl t j = (if bb_l1 b i = None then AID_UNMAPPED else l2_tbl t j)"
  shows "bibop_wf (set_l2 i t b)"
  using assms by (auto simp: bibop_wf_def set_l2_def split: option.splits)

text \<open>What one iteration of either loop does to the pages.\<close>

definition in_slice :: "nat \<Rightarrow> nat \<Rightarrow> nat \<Rightarrow> nat \<Rightarrow> bool" where
  "in_slice ix lo hi p \<longleftrightarrow> p div 16384 = ix \<and> lo \<le> p mod 16384 \<and> p mod 16384 < hi"

lemma unmark_l2_pages:
  assumes "bibop_wf b" "ix < 65536"
  shows "\<exists>b'. unmark_l2 ix lo hi AID_UNMAPPED b = Inr b' \<and> bibop_wf b'
    \<and> page_map b' = (\<lambda>p. if in_slice ix lo hi p then AID_UNMAPPED else page_map b p)"
proof (cases "bb_l1 b ix")
  case None
  with assms show ?thesis
    by (auto simp: unmark_l2_def Let_def l2_of_def set_l2_def bibop_wf_def page_map_def in_slice_def
        fun_eq_iff split: option.splits)
next
  case (Some t)
  with assms show ?thesis
    by (auto simp: unmark_l2_def Let_def l2_of_def set_l2_def bibop_wf_def page_map_def in_slice_def
        fun_eq_iff split: option.splits)
qed

lemma mark_l2_pages:
  assumes "bibop_wf b" "ix < 65536" "lo \<le> hi" "hi \<le> 16384"
  shows "\<exists>b'. mark_l2 ix lo hi aid b = Inr b' \<and> bibop_wf b'
    \<and> page_map b' = (\<lambda>p. if in_slice ix lo hi p then aid else page_map b p)"
  using assms
  by (cases "bb_l1 b ix") (auto simp: mark_l2_def Let_def l2_of_def bibop_wf_def page_map_def
      in_slice_def fun_eq_iff split: option.splits)

lemma slices:
  assumes "start \<le> endIx"
  shows "(\<exists>ix \<in> {start div 16384..endIx div 16384}.
      in_slice ix (l2_start (start div 16384) start ix) (l2_end (endIx div 16384) endIx ix) p)
    \<longleftrightarrow> start \<le> p \<and> p < endIx"
proof -
  have "in_slice (p div 16384) (l2_start (start div 16384) start (p div 16384))
      (l2_end (endIx div 16384) endIx (p div 16384)) p
      \<and> start div 16384 \<le> p div 16384 \<and> p div 16384 \<le> endIx div 16384 \<longleftrightarrow> start \<le> p \<and> p < endIx"
    using mult_div_mod_eq [of 16384 start] mult_div_mod_eq [of 16384 endIx] mult_div_mod_eq [of 16384 p]
      mod_less_divisor [of 16384 p] mod_less_divisor [of 16384 start] mod_less_divisor [of 16384 endIx]
    unfolding in_slice_def l2_start_def l2_end_def BIBOP_INDEX_TO_L2_INDEX_def
    by (auto; linarith)
  then show ?thesis by (auto simp: in_slice_def)
qed

lemma rfold_pages:
  assumes "\<And>ix b. ix \<in> set ixs \<Longrightarrow> bibop_wf b \<Longrightarrow>
      \<exists>b'. f ix b = Inr b' \<and> bibop_wf b' \<and> page_map b' = (\<lambda>p. if S ix p then aid else page_map b p)"
    and "bibop_wf b"
  shows "\<exists>b'. rfold f ixs b = Inr b' \<and> bibop_wf b'
    \<and> page_map b' = (\<lambda>p. if \<exists>ix \<in> set ixs. S ix p then aid else page_map b p)"
  using assms
proof (induction ixs arbitrary: b)
  case (Cons i ixs)
  from Cons.prems obtain b1 where b1: "f i b = Inr b1" "bibop_wf b1"
    "page_map b1 = (\<lambda>p. if S i p then aid else page_map b p)" by fastforce
  from Cons.IH [OF _ b1(2)] Cons.prems(1) obtain b2 where b2: "rfold f ixs b1 = Inr b2" "bibop_wf b2"
    "page_map b2 = (\<lambda>p. if \<exists>ix \<in> set ixs. S ix p then aid else page_map b1 p)" by auto
  have "page_map b2 = (\<lambda>p. if \<exists>ix \<in> set (i # ixs). S ix p then aid else page_map b p)"
    unfolding b2(3) b1(3) by auto
  with b1 b2 show ?case by auto
qed simp

lemma MarkRegion_pages:
  assumes "bibop_wf b" "BIBOP_ADDR_TO_INDEX base + BIBOP_ADDR_TO_INDEX sz < 2 ^ 30"
  shows "\<exists>b'. MarkRegion base sz aid b = Inr b' \<and> bibop_wf b'
    \<and> page_map b' = (\<lambda>p. if BIBOP_ADDR_TO_INDEX base \<le> p
          \<and> p < BIBOP_ADDR_TO_INDEX base + BIBOP_ADDR_TO_INDEX sz then aid else page_map b p)"
proof -
  define st where "st = BIBOP_ADDR_TO_INDEX base"
  define en where "en = st + BIBOP_ADDR_TO_INDEX sz"
  have le: "st \<le> en" "en < 2 ^ 30" using assms(2) by (auto simp: st_def en_def)
  then have top: "en div 16384 < 65536" "st div 16384 \<le> en div 16384"
    by (auto simp: div_less_iff_less_mult div_le_mono)
  define lo where "lo = l2_start (st div 16384) st"
  define hi where "hi = l2_end (en div 16384) en"
  have bounds: "lo ix \<le> hi ix \<and> hi ix \<le> 16384" if "ix \<in> {st div 16384..en div 16384}" for ix
    using that le mult_div_mod_eq [of 16384 st] mult_div_mod_eq [of 16384 en]
      mod_less_divisor [of 16384 st] mod_less_divisor [of 16384 en]
    unfolding lo_def hi_def l2_start_def l2_end_def BIBOP_INDEX_TO_L2_INDEX_def by (auto; linarith)
  let ?f = "\<lambda>ix. (if aid = AID_UNMAPPED then unmark_l2 else mark_l2) ix (lo ix) (hi ix) aid"
  have "\<exists>b'. rfold ?f [st div 16384..<Suc (en div 16384)] b = Inr b' \<and> bibop_wf b'
    \<and> page_map b' = (\<lambda>p. if \<exists>ix \<in> set [st div 16384..<Suc (en div 16384)]. in_slice ix (lo ix) (hi ix) p
        then aid else page_map b p)"
  proof (rule rfold_pages [OF _ assms(1)])
    fix ix c assume ix: "ix \<in> set [st div 16384..<Suc (en div 16384)]" and c: "bibop_wf c"
    then show "\<exists>b'. ?f ix c = Inr b' \<and> bibop_wf b'
        \<and> page_map b' = (\<lambda>p. if in_slice ix (lo ix) (hi ix) p then aid else page_map c p)"
      using unmark_l2_pages [OF c, of ix] mark_l2_pages [OF c, of ix "lo ix" "hi ix" aid] bounds [of ix] top
      by auto
  qed
  moreover have "MarkRegion base sz aid b = rfold ?f [st div 16384..<Suc (en div 16384)] b"
    using top by (simp add: MarkRegion_def Let_def st_def [symmetric] en_def [symmetric] lo_def hi_def
        BIBOP_INDEX_TO_L1_INDEX_def)
  moreover have "(\<exists>ix \<in> set [st div 16384..<Suc (en div 16384)]. in_slice ix (lo ix) (hi ix) p)
      \<longleftrightarrow> st \<le> p \<and> p < en" for p
    using slices [OF le(1), of p] by (simp only: lo_def hi_def set_upt atLeastLessThanSuc_atLeastAtMost)
  ultimately show ?thesis by (simp add: st_def en_def)
qed

section \<open>The interface of a page table\<close>

locale page_table =
  fixes look :: "'b \<Rightarrow> nat \<Rightarrow> aid_t res"
    and mark :: "nat \<Rightarrow> nat \<Rightarrow> aid_t \<Rightarrow> 'b \<Rightarrow> 'b res"      \<comment> \<open>first page, number of pages\<close>
    and pages :: "'b \<Rightarrow> nat \<Rightarrow> aid_t"
    and invar :: "'b \<Rightarrow> bool"
    and lim :: nat
  assumes look_pages: "invar b \<Longrightarrow> p < lim \<Longrightarrow> look b p = Inr (pages b p)"
    and mark_pages: "invar b \<Longrightarrow> s + n < lim \<Longrightarrow> \<exists>b'. mark s n aid b = Inr b' \<and> invar b'
          \<and> pages b' = (\<lambda>p. if s \<le> p \<and> p < s + n then aid else pages b p)"
begin

lemma mark_look:
  assumes "invar b" "s + n < lim" "p < lim"
  shows "\<exists>b'. mark s n aid b = Inr b' \<and> invar b'
    \<and> look b' p = (if s \<le> p \<and> p < s + n then Inr aid else look b p)"
  using mark_pages [OF assms(1,2), of aid] assms by (auto simp: look_pages)

text \<open>Releasing a region that was unmapped before it was mapped restores the page map.\<close>

lemma mark_unmark:
  assumes "invar b" "s + n < lim" "\<And>p. s \<le> p \<Longrightarrow> p < s + n \<Longrightarrow> pages b p = free"
  shows "\<exists>b1 b2. mark s n aid b = Inr b1 \<and> mark s n free b1 = Inr b2 \<and> invar b2 \<and> pages b2 = pages b"
proof -
  from mark_pages [OF assms(1,2), of aid] obtain b1 where
    b1: "mark s n aid b = Inr b1" "invar b1" "pages b1 = (\<lambda>p. if s \<le> p \<and> p < s + n then aid else pages b p)" by auto
  from mark_pages [OF b1(2) assms(2), of free] obtain b2 where
    b2: "mark s n free b1 = Inr b2" "invar b2" "pages b2 = (\<lambda>p. if s \<le> p \<and> p < s + n then free else pages b1 p)" by auto
  have "pages b2 = pages b" using assms(3) by (auto simp: b1(3) b2(3) fun_eq_iff)
  with b1 b2 show ?thesis by blast
qed

lemma find_hdr_down:
  assumes "invar b" "s \<le> p" "p < lim" "BO_IS_HDR (pages b s)"
    and "\<And>q. s < q \<Longrightarrow> q \<le> p \<Longrightarrow> \<not> BO_IS_HDR (pages b q)"
  shows "find_hdr (look b) p = Inr s"
  using assms(2-5)
proof (induction p)
  case 0
  then show ?case using look_pages [OF assms(1), of 0] by simp
next
  case (Suc p)
  show ?case
  proof (cases "s = Suc p")
    case True
    then show ?thesis using Suc.prems look_pages [OF assms(1), of "Suc p"] by simp
  next
    case False
    then show ?thesis using Suc look_pages [OF assms(1), of "Suc p"] by simp
  qed
qed

text \<open>
  A region of \<open>n\<close> pages marked as a big-object region of generation \<open>g\<close> with its header
  page: from each of its pages the walk finds the header.
\<close>

lemma find_hdr_region:
  assumes "invar b" "s + n < lim" "s \<le> p" "p < s + n" "g < 16"
  shows "\<exists>b1 b2. mark s n (AID_BIGOBJ g) b = Inr b1 \<and> mark s 1 (AID_BIGOBJ_HDR g) b1 = Inr b2
    \<and> invar b2 \<and> find_hdr (look b2) p = Inr s"
proof -
  from mark_pages [OF assms(1,2), of "AID_BIGOBJ g"] obtain b1 where
    b1: "mark s n (AID_BIGOBJ g) b = Inr b1" "invar b1"
      "pages b1 = (\<lambda>p. if s \<le> p \<and> p < s + n then AID_BIGOBJ g else pages b p)" by auto
  have "s + 1 < lim" using assms by linarith
  from mark_pages [OF b1(2) this, of "AID_BIGOBJ_HDR g"] obtain b2 where
    b2: "mark s 1 (AID_BIGOBJ_HDR g) b1 = Inr b2" "invar b2"
      "pages b2 = (\<lambda>p. if s \<le> p \<and> p < s + 1 then AID_BIGOBJ_HDR g else pages b1 p)" by auto
  have hdr: "BO_IS_HDR (AID_BIGOBJ_HDR g)" "\<not> BO_IS_HDR (AID_BIGOBJ g)"
    using assms(5) by (simp_all add: BO_IS_HDR_def AID_BIGOBJ_HDR_def AID_BIGOBJ_def EXTRACT_MAKE_AID)
  have "find_hdr (look b2) p = Inr s"
    by (rule find_hdr_down [OF b2(2)]) (use assms hdr in \<open>auto simp: b2(3) b1(3)\<close>)
  with b1 b2 show ?thesis by blast
qed

end

lemma INDEX_ADDR_INDEX: "i < 2 ^ 46 \<Longrightarrow> BIBOP_ADDR_TO_INDEX (BIBOP_INDEX_TO_ADDR i) = i"
proof -
  assume i: "i < 2 ^ 46"
  have "drop_bit 18 (push_bit 18 (of_nat i :: addr_t)) = of_nat i"
  proof (rule bit_word_eqI)
    fix n assume n: "n < LENGTH(64)"
    have "(of_nat i :: addr_t) < 2 ^ 46" using i by (simp add: word_less_nat_alt unat_of_nat)
    from bit_less [OF this, of n]
    show "bit (drop_bit 18 (push_bit 18 (of_nat i :: addr_t))) n \<longleftrightarrow> bit (of_nat i :: addr_t) n"
      unfolding bit_drop_bit_eq comp_def bit_push_bit_iff by auto
  qed
  then show ?thesis using i by (simp add: BIBOP_ADDR_TO_INDEX_def BIBOP_INDEX_TO_ADDR_def unat_of_nat)
qed

interpretation bb: page_table INDEX_TO_PAGEID
  "\<lambda>s n. MarkRegion (BIBOP_INDEX_TO_ADDR s) (BIBOP_INDEX_TO_ADDR n)" page_map bibop_wf "2 ^ 30"
proof
  fix b s n aid
  assume "bibop_wf b" and lim: "s + n < (2 :: nat) ^ 30"
  then have "BIBOP_ADDR_TO_INDEX (BIBOP_INDEX_TO_ADDR s) = s" "BIBOP_ADDR_TO_INDEX (BIBOP_INDEX_TO_ADDR n) = n"
    by (auto intro!: INDEX_ADDR_INDEX)
  with MarkRegion_pages [OF \<open>bibop_wf b\<close>, of "BIBOP_INDEX_TO_ADDR s" "BIBOP_INDEX_TO_ADDR n" aid] lim
  show "\<exists>b'. MarkRegion (BIBOP_INDEX_TO_ADDR s) (BIBOP_INDEX_TO_ADDR n) aid b = Inr b' \<and> bibop_wf b'
      \<and> page_map b' = (\<lambda>p. if s \<le> p \<and> p < s + n then aid else page_map b p)" by simp
qed (simp add: INDEX_TO_PAGEID_map)

interpretation bb32: page_table "\<lambda>b p. if p < 65536 then Inr (b p) else Inl (Fault ''BIBOP index out of range'')"
  "\<lambda>s n. MarkRegion32 (push_bit 16 (of_nat s)) (push_bit 16 (of_nat n))" "\<lambda>b. b" "\<lambda>_. True" 65536
proof
  fix b :: "nat \<Rightarrow> aid_t" and s n :: nat and aid :: aid_t
  assume lim: "s + n < 65536"
  have "unat (drop_bit 16 (push_bit 16 (of_nat i :: u32))) = i" if "i < 65536" for i
  proof -
    have "drop_bit 16 (push_bit 16 (of_nat i :: u32)) = of_nat i"
    proof (rule bit_word_eqI)
      fix m assume m: "m < LENGTH(32)"
      have "(of_nat i :: u32) < 2 ^ 16" using that by (simp add: word_less_nat_alt unat_of_nat)
      from bit_less [OF this, of m]
      show "bit (drop_bit 16 (push_bit 16 (of_nat i :: u32))) m \<longleftrightarrow> bit (of_nat i :: u32) m"
        unfolding bit_drop_bit_eq comp_def bit_push_bit_iff by auto
    qed
    then show ?thesis using that by (simp add: unat_of_nat)
  qed
  moreover have "fill b s (s + n) aid = (\<lambda>p. if s \<le> p \<and> p < s + n then aid else b p)"
    by (simp add: fun_eq_iff)
  ultimately show "\<exists>b'. MarkRegion32 (push_bit 16 (of_nat s)) (push_bit 16 (of_nat n)) aid b = Inr b' \<and> True
      \<and> b' = (\<lambda>p. if s \<le> p \<and> p < s + n then aid else b p)"
    using lim by (simp add: MarkRegion32_def Let_def)
qed simp

section \<open>Properties\<close>

lemma InitBibop_ok: "bibop_wf InitBibop \<and> page_map InitBibop p = AID_UNMAPPED"
  by (simp add: bibop_wf_def InitBibop_def page_map_def l2_of_def)

text \<open>C33. \<open>MarkRegion\<close> sets the identifiers of exactly the pages of its region, for regions that lie
  below the last page of the 48-bit address space and however many level-2 tables they
  cross: every page of the region has the new identifier and every other page keeps its own,
  read through either table layout; and releasing a fresh region restores the map.\<close>

theorem MarkRegion_exact:
  assumes "bibop_wf b" and "s + n < 2 ^ 30" and "p < 2 ^ 30"
  shows "\<exists>b'. MarkRegion (BIBOP_INDEX_TO_ADDR s) (BIBOP_INDEX_TO_ADDR n) aid b = Inr b' \<and> bibop_wf b'
      \<and> INDEX_TO_PAGEID b' p = (if s \<le> p \<and> p < s + n then Inr aid else INDEX_TO_PAGEID b p)
      \<and> ((\<forall>q. s \<le> q \<and> q < s + n \<longrightarrow> page_map b q = AID_UNMAPPED) \<longrightarrow>
         (\<exists>b2. MarkRegion (BIBOP_INDEX_TO_ADDR s) (BIBOP_INDEX_TO_ADDR n) AID_UNMAPPED b' = Inr b2
              \<and> page_map b2 = page_map b))"
proof -
  from bb.mark_look [OF assms] obtain b' where
    b': "MarkRegion (BIBOP_INDEX_TO_ADDR s) (BIBOP_INDEX_TO_ADDR n) aid b = Inr b'" "bibop_wf b'"
      "INDEX_TO_PAGEID b' p = (if s \<le> p \<and> p < s + n then Inr aid else INDEX_TO_PAGEID b p)" by blast
  with bb.mark_unmark [OF assms(1,2), of AID_UNMAPPED aid] show ?thesis by fastforce
qed

theorem MarkRegion_exact_witness:
  "\<exists>b'. MarkRegion (BIBOP_INDEX_TO_ADDR 16000) (BIBOP_INDEX_TO_ADDR 1000) (MAKE_AID 1 OBJC_record 0) InitBibop = Inr b'
      \<and> INDEX_TO_PAGEID b' 16384 = Inr (MAKE_AID 1 OBJC_record 0)"
  using MarkRegion_exact [OF conjunct1 [OF InitBibop_ok], of 16000 1000 16384 "MAKE_AID 1 OBJC_record 0"] by auto

text \<open>C34. From every page of a big-object region the downward walk finds the region's header page,
  in as many steps as the region has pages before it, whatever the neighbouring pages
  hold.\<close>

theorem find_hdr_finds_header:
  assumes "bibop_wf b" "s + n < 2 ^ 30" "s \<le> p" "p < s + n" "g < 16"
  shows "\<exists>b1 b2. MarkRegion (BIBOP_INDEX_TO_ADDR s) (BIBOP_INDEX_TO_ADDR n) (AID_BIGOBJ g) b = Inr b1
    \<and> MarkRegion (BIBOP_INDEX_TO_ADDR s) (BIBOP_INDEX_TO_ADDR 1) (AID_BIGOBJ_HDR g) b1 = Inr b2
    \<and> find_hdr (INDEX_TO_PAGEID b2) p = Inr s"
  using bb.find_hdr_region [OF assms] by blast

theorem find_hdr_finds_header_witness:
  "\<exists>b1 b2. MarkRegion (BIBOP_INDEX_TO_ADDR 100) (BIBOP_INDEX_TO_ADDR 8) (AID_BIGOBJ 2) InitBibop = Inr b1
    \<and> MarkRegion (BIBOP_INDEX_TO_ADDR 100) (BIBOP_INDEX_TO_ADDR 1) (AID_BIGOBJ_HDR 2) b1 = Inr b2
    \<and> find_hdr (INDEX_TO_PAGEID b2) 105 = Inr 100"
  using find_hdr_finds_header [OF conjunct1 [OF InitBibop_ok], of 100 8 105 2] by simp

text \<open>
  Two limits of the code. A region that ends at the top of the 48-bit address space makes
  \<open>MarkRegion\<close> read past the level-1 table; and marking mapped pages again, as
  \<open>BO_Alloc\<close> does when a region gets a younger object, counts them a second time in
  \<open>numMapped\<close>.
\<close>

lemma MarkRegion_top: "MarkRegion (BIBOP_INDEX_TO_ADDR (2 ^ 30 - 1)) (BIBOP_INDEX_TO_ADDR 1) aid b
   = Inl (Fault ''BIBOP index out of range'')"
  by (simp add: MarkRegion_def Let_def INDEX_ADDR_INDEX [of "2 ^ 30 - 1", simplified] INDEX_ADDR_INDEX [of 1, simplified]
      BIBOP_INDEX_TO_L1_INDEX_def unmark_l2_def mark_l2_def)

lemma mark_l2_recount:
  assumes "mark_l2 ix 0 n a b = Inr b1" "mark_l2 ix 0 n a' b1 = Inr b2" "bb_l1 b ix = None"
  shows "l2_numMapped (l2_of b2 ix) = of_nat n + of_nat n"
  using assms by (auto simp: mark_l2_def l2_of_def Let_def split: if_splits)

end
