(* ===== verification/Heap_State.thy ===== *)
theory Heap_State
  imports Memory_Sys Bibop
begin

text \<open>
  The state of the heap: the structures of \<open>gc/heap.h\<close> and \<open>gc/card-map.h\<close>, word-addressed
  memory, and the accessors the collector's theories share. C objects that are reached through
  pointers live in stores indexed by numbers, with 0 for NIL: big-object descriptors and
  regions. Generations and arenas are reached by position: \<open>gen[i]\<close> is position \<open>i\<close>, an
  arena pointer is a pair of positions. All word accesses of the modelled code are to aligned
  addresses, so memory maps the address of an aligned word to its contents.
\<close>

section \<open>Structures\<close>

record arena =
  a_id :: aid_t
  a_nextw :: addr_t
  a_tospBase :: addr_t
  a_tospSizeB :: addr_t
  a_tospTop :: addr_t
  a_sweep_nextw :: addr_t
  a_frspBase :: addr_t
  a_frspSizeB :: addr_t
  a_frspTop :: addr_t
  a_oldTop :: addr_t
  a_nextGen :: nat                \<comment> \<open>position of the generation of the arena to promote to\<close>
  a_needsRepair :: bool
  a_reqSizeB :: addr_t
  a_maxSizeB :: addr_t

record card_map =
  cm_baseAddr :: addr_t
  cm_numCards :: nat
  cm_mapSzB :: nat
  cm_map :: "nat \<Rightarrow> byte_t"        \<comment> \<open>as many bytes as \<open>mapSzB\<close> leaves room for\<close>

record generation =
  g_genNum :: nat
  g_numGCs :: int
  g_lastPrevGC :: int
  g_ratio :: int
  g_arena :: "arena list"
  g_bigObjs :: nat
  g_toObj :: "mem_obj option"
  g_fromObj :: "mem_obj option"
  g_cacheObj :: "mem_obj option"
  g_dirty :: "card_map option"

record bigobj_desc =
  bd_obj :: addr_t
  bd_sizeB :: addr_t
  bd_objc :: nat
  bd_state :: nat
  bd_gen :: nat
  bd_region :: nat
  bd_prev :: nat
  bd_next :: nat

abbreviation (input) BO_FREE :: nat where "BO_FREE \<equiv> 0"
abbreviation (input) BO_YOUNG :: nat where "BO_YOUNG \<equiv> 1"
abbreviation (input) BO_FORWARD :: nat where "BO_FORWARD \<equiv> 2"
abbreviation (input) BO_OLD :: nat where "BO_OLD \<equiv> 3"
abbreviation (input) BO_PROMOTE :: nat where "BO_PROMOTE \<equiv> 4"

record bigobj_region =
  br_firstPage :: addr_t
  br_nPages :: nat
  br_nFree :: int
  br_minGen :: nat
  br_memObj :: mem_obj
  br_next :: nat
  br_objMap :: "nat list"         \<comment> \<open>descriptor of each page\<close>

record heap =
  h_allocBase :: addr_t
  h_allocSzB :: addr_t
  h_baseObj :: mem_obj
  h_numGens :: nat
  h_cacheGen :: int
  h_numMinorGCs :: int
  h_gen :: "generation list"
  h_numBORegions :: int
  h_bigRegions :: nat
  h_freeBigObjs :: nat
  h_weakList :: addr_t
  h_numAlloc :: word_t
  h_numAlloc1 :: word_t
  h_numCopied :: "nat \<Rightarrow> nat \<Rightarrow> word_t"
  h_numGCsAtReset :: "nat \<Rightarrow> int"

text \<open>
  The state the collector works on: memory, the BIBOP, the heap, the memory system, the stores
  of big-object descriptors and regions with the next unused number, and the three allocation
  registers of the ML state. The ML state's other registers are words of memory, so that a root
  is an address.
\<close>

type_synonym memory = "addr_t \<Rightarrow> word_t"

record rt =
  rt_mem :: memory
  rt_bibop :: bibop
  rt_heap :: heap
  rt_ms :: mem_sys
  rt_desc :: "nat \<Rightarrow> bigobj_desc option"
  rt_region :: "nat \<Rightarrow> bigobj_region option"
  rt_fresh :: nat
  ml_allocPtr :: addr_t
  ml_limitPtr :: addr_t
  ml_storePtr :: word_t

section \<open>Words of memory\<close>

text \<open>The address of \<open>p[i]\<close> for a pointer to words.\<close>

definition at_ix :: "addr_t \<Rightarrow> nat \<Rightarrow> addr_t" where
  "at_ix p i = p + 8 * of_nat i"

lemma at_ix_0 [simp]: "at_ix p 0 = p"
  by (simp add: at_ix_def)

lemma at_ix_at_ix: "at_ix (at_ix p i) j = at_ix p (i + j)"
  by (simp add: at_ix_def algebra_simps)

lemma at_ix_Suc: "at_ix p (Suc i) = at_ix (p + 8) i"
  by (simp add: at_ix_def algebra_simps)

lemma unat_at_ix:
  assumes "unat p + 8 * i < 2 ^ 64"
  shows "unat (at_ix p i) = unat p + 8 * i"
proof -
  have "i < 2 ^ 64" using assms by simp
  moreover have "unat (8 * of_nat i :: addr_t) = 8 * i"
    using assms by (simp add: unat_word_ariths(2) unat_of_nat)
  ultimately show ?thesis using assms by (simp add: at_ix_def unat_word_ariths(1))
qed

text \<open>Writing consecutive words, and the copying loop \<open>COPYLOOP\<close>.\<close>

fun put_words :: "addr_t \<Rightarrow> word_t list \<Rightarrow> memory \<Rightarrow> memory" where
  "put_words p [] m = m"
| "put_words p (w # ws) m = put_words (p + 8) ws (m(p := w))"

definition Copy :: "addr_t \<Rightarrow> addr_t \<Rightarrow> nat \<Rightarrow> memory \<Rightarrow> memory" where
  "Copy src dst len m = fold (\<lambda>i m. m(at_ix dst i := m (at_ix src i))) [0..<len] m"

section \<open>Accessors\<close>

definition get_gen :: "nat \<Rightarrow> rt \<Rightarrow> generation" where
  "get_gen g s = h_gen (rt_heap s) ! g"

definition upd_gen :: "nat \<Rightarrow> (generation \<Rightarrow> generation) \<Rightarrow> rt \<Rightarrow> rt" where
  "upd_gen g f s = s\<lparr>rt_heap := (rt_heap s)\<lparr>h_gen := (h_gen (rt_heap s))[g := f (get_gen g s)]\<rparr>\<rparr>"

definition get_arena :: "nat \<Rightarrow> nat \<Rightarrow> rt \<Rightarrow> arena" where
  "get_arena g j s = g_arena (get_gen g s) ! j"

definition upd_arena :: "nat \<Rightarrow> nat \<Rightarrow> (arena \<Rightarrow> arena) \<Rightarrow> rt \<Rightarrow> rt" where
  "upd_arena g j f = upd_gen g (\<lambda>gn. gn\<lparr>g_arena := (g_arena gn)[j := f (g_arena gn ! j)]\<rparr>)"

definition upd_heap :: "(heap \<Rightarrow> heap) \<Rightarrow> rt \<Rightarrow> rt" where
  "upd_heap f s = s\<lparr>rt_heap := f (rt_heap s)\<rparr>"

definition upd_mem :: "(memory \<Rightarrow> memory) \<Rightarrow> rt \<Rightarrow> rt" where
  "upd_mem f s = s\<lparr>rt_mem := f (rt_mem s)\<rparr>"

definition put_bibop :: "(bibop \<Rightarrow> bibop res) \<Rightarrow> rt \<Rightarrow> rt res" where
  "put_bibop f s = rbind (f (rt_bibop s)) (\<lambda>b. Inr (s\<lparr>rt_bibop := b\<rparr>))"

definition get_desc :: "nat \<Rightarrow> rt \<Rightarrow> bigobj_desc res" where
  "get_desc d s = (case rt_desc s d of None \<Rightarrow> Inl (Fault ''dangling big-object descriptor'') | Some x \<Rightarrow> Inr x)"

definition get_region :: "nat \<Rightarrow> rt \<Rightarrow> bigobj_region res" where
  "get_region r s = (case rt_region s r of None \<Rightarrow> Inl (Fault ''dangling big-object region'') | Some x \<Rightarrow> Inr x)"

text \<open>Well-formed positions: 14 generations of 5 arenas.\<close>

definition gens_ok :: "rt \<Rightarrow> bool" where
  "gens_ok s \<longleftrightarrow> length (h_gen (rt_heap s)) = MAX_NUM_GENS
     \<and> (\<forall>g < MAX_NUM_GENS. length (g_arena (get_gen g s)) = NUM_ARENAS)"

section \<open>Macros of heap.h\<close>

definition isACTIVE :: "arena \<Rightarrow> bool" where "isACTIVE a \<longleftrightarrow> 0 < a_tospSizeB a"
definition NEEDS_SWEEPING :: "arena \<Rightarrow> bool" where "NEEDS_SWEEPING a \<longleftrightarrow> a_sweep_nextw a < a_nextw a"
definition AVAIL_SPACE :: "arena \<Rightarrow> addr_t" where "AVAIL_SPACE a = a_tospTop a - a_nextw a"
definition USED_SPACE :: "arena \<Rightarrow> addr_t" where "USED_SPACE a = a_nextw a - a_tospBase a"
definition isOLDER :: "arena \<Rightarrow> addr_t \<Rightarrow> bool" where "isOLDER a addr \<longleftrightarrow> addr < a_oldTop a"

definition FLIP_ARENA :: "arena \<Rightarrow> arena" where
  "FLIP_ARENA a = a\<lparr>a_frspBase := a_tospBase a, a_frspSizeB := a_tospSizeB a, a_frspTop := a_nextw a\<rparr>"

abbreviation (input) HEAP_BUF_SZB :: addr_t where "HEAP_BUF_SZB \<equiv> 9216"

definition HEAP_LIMIT :: "heap \<Rightarrow> addr_t" where
  "HEAP_LIMIT h = h_allocBase h + h_allocSzB h - HEAP_BUF_SZB"

definition FOLLOW_FWDOBJ :: "addr_t \<Rightarrow> memory \<Rightarrow> addr_t" where "FOLLOW_FWDOBJ hdr m = m hdr"
definition FOLLOW_FWDPAIR :: "word_t \<Rightarrow> addr_t" where "FOLLOW_FWDPAIR desc = desc AND NOT 3"
definition MAKE_PAIR_FP :: "addr_t \<Rightarrow> word_t" where "MAKE_PAIR_FP newAddr = newAddr OR 2"

section \<open>Card maps\<close>

abbreviation (input) CARD_CLEAN :: byte_t where "CARD_CLEAN \<equiv> 0xff"

definition CARD_INDEX :: "card_map \<Rightarrow> addr_t \<Rightarrow> nat" where
  "CARD_INDEX cm addr = unat (drop_bit 8 (addr - cm_baseAddr cm))"

definition MARK_CARD :: "card_map \<Rightarrow> addr_t \<Rightarrow> nat \<Rightarrow> card_map res" where
  "MARK_CARD cm addr gen =
     (let i = CARD_INDEX cm addr in
      if cm_numCards cm \<le> i then Inl (Fault ''card index out of range'')
      else if int gen < uint (cm_map cm i) then Inr (cm\<lparr>cm_map := (cm_map cm)(i := of_nat gen)\<rparr>)
      else Inr cm)"

definition isDIRTY :: "card_map \<Rightarrow> nat \<Rightarrow> nat \<Rightarrow> bool" where
  "isDIRTY cm indx maxGen \<longleftrightarrow> uint (cm_map cm indx) \<le> int maxGen"

section \<open>Lemmas on the accessors\<close>

lemma gens_okD: "gens_ok s \<Longrightarrow> g < 14 \<Longrightarrow> g < length (h_gen (rt_heap s)) \<and> length (g_arena (h_gen (rt_heap s) ! g)) = 5"
  by (simp add: gens_ok_def get_gen_def)

lemma get_gen_upd_gen: "gens_ok s \<Longrightarrow> g < 14 \<Longrightarrow> get_gen g' (upd_gen g f s) = (if g' = g then f (get_gen g s) else get_gen g' s)"
  by (auto simp: get_gen_def upd_gen_def dest: gens_okD)

lemma get_arena_upd_arena:
  "gens_ok s \<Longrightarrow> g < 14 \<Longrightarrow> j < 5 \<Longrightarrow>
   get_arena g' j' (upd_arena g j f s) = (if g' = g \<and> j' = j then f (get_arena g j s) else get_arena g' j' s)"
  using gens_okD [of s g] by (simp add: get_arena_def upd_arena_def get_gen_upd_gen) (simp add: get_gen_def)

lemma gens_ok_upd_arena: "gens_ok s \<Longrightarrow> g < 14 \<Longrightarrow> gens_ok (upd_arena g j f s)"
  using get_gen_upd_gen [of s g _ "\<lambda>gn. gn\<lparr>g_arena := (g_arena gn)[j := f (g_arena gn ! j)]\<rparr>"]
  by (auto simp: gens_ok_def upd_arena_def) (auto simp: upd_gen_def)

lemma rt_mem_upd_arena [simp]:
  "rt_mem (upd_arena g j f s) = rt_mem s" "rt_bibop (upd_arena g j f s) = rt_bibop s"
  "rt_ms (upd_arena g j f s) = rt_ms s" "ml_allocPtr (upd_arena g j f s) = ml_allocPtr s"
  "ml_storePtr (upd_arena g j f s) = ml_storePtr s"
  by (simp_all add: upd_arena_def upd_gen_def)

lemma get_arena_upd_mem [simp]: "get_arena g j (upd_mem f s) = get_arena g j s"
  "rt_mem (upd_mem f s) = f (rt_mem s)" "gens_ok (upd_mem f s) = gens_ok s" "rt_heap (upd_mem f s) = rt_heap s"
  by (simp_all add: get_arena_def get_gen_def upd_mem_def gens_ok_def)

lemma heap_upd_arena [simp]:
  "h_allocBase (rt_heap (upd_arena g j f s)) = h_allocBase (rt_heap s)"
  "h_allocSzB (rt_heap (upd_arena g j f s)) = h_allocSzB (rt_heap s)"
  "h_weakList (rt_heap (upd_arena g j f s)) = h_weakList (rt_heap s)"
  "h_numGens (rt_heap (upd_arena g j f s)) = h_numGens (rt_heap s)"
  by (simp_all add: upd_arena_def upd_gen_def)

end
