(* ===== verification/ML_Alloc.thy ===== *)
theory ML_Alloc
  imports Heap_State
begin

text \<open>
  The inline allocators of \<open>include/ml-objects.h\<close>: an object is written at the allocation
  pointer, descriptor first, and the allocation pointer is advanced past it. A \<open>double\<close> is
  represented by its bits.
\<close>

section \<open>Operations\<close>

definition ML_AllocWrite :: "nat \<Rightarrow> word_t \<Rightarrow> rt \<Rightarrow> rt" where
  "ML_AllocWrite i x s = upd_mem (\<lambda>m. m(at_ix (ml_allocPtr s) i := x)) s"

definition ML_Alloc :: "nat \<Rightarrow> rt \<Rightarrow> word_t \<times> rt" where
  "ML_Alloc n s = (ml_allocPtr s + 8, s\<lparr>ml_allocPtr := at_ix (ml_allocPtr s) (n + 1)\<rparr>)"

text \<open>\<open>p[0] = desc; p[1] = a; ...\<close> for \<open>p = msp->ml_allocPtr\<close>, then \<open>ML_Alloc\<close>.\<close>

definition alloc_obj :: "word_t \<Rightarrow> word_t list \<Rightarrow> rt \<Rightarrow> word_t \<times> rt" where
  "alloc_obj desc ws s = ML_Alloc (length ws) (upd_mem (put_words (ml_allocPtr s) (desc # ws)) s)"

definition ML_RefAlloc :: "word_t \<Rightarrow> rt \<Rightarrow> word_t \<times> rt" where
  "ML_RefAlloc a = alloc_obj DESC_ref [a]"
definition ML_Alloc1 :: "word_t \<Rightarrow> rt \<Rightarrow> word_t \<times> rt" where
  "ML_Alloc1 a = alloc_obj (MAKE_DESC 1 DTAG_record) [a]"
definition ML_Alloc2 :: "word_t \<Rightarrow> word_t \<Rightarrow> rt \<Rightarrow> word_t \<times> rt" where
  "ML_Alloc2 a b = alloc_obj (MAKE_DESC 2 DTAG_record) [a, b]"
definition ML_Alloc3 :: "word_t \<Rightarrow> word_t \<Rightarrow> word_t \<Rightarrow> rt \<Rightarrow> word_t \<times> rt" where
  "ML_Alloc3 a b c = alloc_obj (MAKE_DESC 3 DTAG_record) [a, b, c]"
definition ML_Alloc4 :: "word_t \<Rightarrow> word_t \<Rightarrow> word_t \<Rightarrow> word_t \<Rightarrow> rt \<Rightarrow> word_t \<times> rt" where
  "ML_Alloc4 a b c d = alloc_obj (MAKE_DESC 4 DTAG_record) [a, b, c, d]"
definition ML_Alloc5 :: "word_t \<Rightarrow> word_t \<Rightarrow> word_t \<Rightarrow> word_t \<Rightarrow> word_t \<Rightarrow> rt \<Rightarrow> word_t \<times> rt" where
  "ML_Alloc5 a b c d e = alloc_obj (MAKE_DESC 5 DTAG_record) [a, b, c, d, e]"
definition ML_Alloc6 :: "word_t \<Rightarrow> word_t \<Rightarrow> word_t \<Rightarrow> word_t \<Rightarrow> word_t \<Rightarrow> word_t \<Rightarrow> rt \<Rightarrow> word_t \<times> rt" where
  "ML_Alloc6 a b c d e f = alloc_obj (MAKE_DESC 6 DTAG_record) [a, b, c, d, e, f]"

definition ML_AllocSeqHdr :: "word_t \<Rightarrow> word_t \<Rightarrow> word_t \<Rightarrow> rt \<Rightarrow> word_t \<times> rt" where
  "ML_AllocSeqHdr desc data len = alloc_obj desc [data, INT_CtoML len]"
definition ML_AllocReal64 :: "word_t \<Rightarrow> rt \<Rightarrow> word_t \<times> rt" where
  "ML_AllocReal64 d = alloc_obj DESC_reald [d]"
definition ML_AllocWord :: "word_t \<Rightarrow> rt \<Rightarrow> word_t \<times> rt" where
  "ML_AllocWord w = alloc_obj (MAKE_DESC 1 DTAG_raw) [w]"
definition ML_AllocInt64 :: "word_t \<Rightarrow> rt \<Rightarrow> word_t \<times> rt" where
  "ML_AllocInt64 n = alloc_obj DESC_word64 [n]"
definition ML_AllocWord64 :: "word_t \<Rightarrow> rt \<Rightarrow> word_t \<times> rt" where
  "ML_AllocWord64 w = alloc_obj DESC_word64 [w]"

definition WORD64_MLtoC :: "word_t \<Rightarrow> rt \<Rightarrow> word_t" where "WORD64_MLtoC n s = rt_mem s n"
definition INT64_MLtoC :: "word_t \<Rightarrow> rt \<Rightarrow> int" where "INT64_MLtoC n s = sint (rt_mem s n)"

text \<open>\<open>sec\<close> and \<open>usec\<close> are \<open>int\<close>s, widened to 64 bits.\<close>

definition ML_AllocNanoseconds :: "int \<Rightarrow> int \<Rightarrow> rt \<Rightarrow> word_t \<times> rt" where
  "ML_AllocNanoseconds sec usec = ML_AllocWord64 (1000000000 * of_int sec + 1000 * of_int usec)"

text \<open>A store-list entry is a bare pair of the address and the rest of the list.\<close>

definition ML_RecordUpdate :: "addr_t \<Rightarrow> rt \<Rightarrow> rt" where
  "ML_RecordUpdate addr s =
     (upd_mem (put_words (ml_allocPtr s) [addr, ml_storePtr s]) s)\<lparr>
        ml_storePtr := ml_allocPtr s, ml_allocPtr := ml_allocPtr s + 16\<rparr>"

section \<open>Bytes\<close>

definition byte_at :: "addr_t \<Rightarrow> memory \<Rightarrow> byte_t" where
  "byte_at a m = ucast (drop_bit (8 * unat (a AND 7)) (m (a AND NOT 7)))"

definition put_byte :: "addr_t \<Rightarrow> byte_t \<Rightarrow> memory \<Rightarrow> memory" where
  "put_byte a b m =
     (let k = 8 * unat (a AND 7); p = a AND NOT 7
      in m(p := (m p AND NOT (push_bit k 0xff)) OR push_bit k (ucast b)))"

fun put_bytes :: "addr_t \<Rightarrow> byte_t list \<Rightarrow> memory \<Rightarrow> memory" where
  "put_bytes a [] m = m"
| "put_bytes a (b # bs) m = put_bytes (a + 1) bs (put_byte a b m)"

definition BYTES_TO_WORDS :: "word_t \<Rightarrow> word_t" where
  "BYTES_TO_WORDS n = drop_bit 3 (n + 7)"

end
