(* ===== verification/Big_Objects.thy ===== *)
theory Big_Objects
  imports ML_Alloc
begin

text \<open>
  Big-object regions: \<open>gc/big-objects.c\<close>, the list operations of \<open>gc/heap.h\<close> and
  \<open>GetObjGen\<close> of \<open>gc/obj-info.c\<close>. A region is a run of pages of 1 Kbyte, each owned by a
  descriptor; free descriptors form a doubly linked list with a header. Pointers to
  descriptors and regions are numbers in the stores of the state. \<open>mmap\<close> is the operating
  system's answer as a function of the state of the address space.
\<close>

abbreviation (input) BIGOBJ_PAGE_SZB :: addr_t where "BIGOBJ_PAGE_SZB \<equiv> 1024"
abbreviation (input) MIN_BOREGION_SZB :: addr_t where "MIN_BOREGION_SZB \<equiv> 0x40000"

section \<open>Descriptors and lists\<close>

definition put_desc :: "nat \<Rightarrow> bigobj_desc \<Rightarrow> rt \<Rightarrow> rt" where
  "put_desc d x s = s\<lparr>rt_desc := (rt_desc s)(d \<mapsto> x)\<rparr>"

definition upd_desc :: "nat \<Rightarrow> (bigobj_desc \<Rightarrow> bigobj_desc) \<Rightarrow> rt \<Rightarrow> rt res" where
  "upd_desc d f s = rbind (get_desc d s) (\<lambda>x. Inr (put_desc d (f x) s))"

definition upd_region :: "nat \<Rightarrow> (bigobj_region \<Rightarrow> bigobj_region) \<Rightarrow> rt \<Rightarrow> rt res" where
  "upd_region r f s = rbind (get_region r s) (\<lambda>x. Inr (s\<lparr>rt_region := (rt_region s)(r \<mapsto> f x)\<rparr>))"

definition RemoveBODesc :: "nat \<Rightarrow> rt \<Rightarrow> rt res" where
  "RemoveBODesc dp s =
     rbind (get_desc dp s) (\<lambda>x.
       let p = bd_prev x; n = bd_next x in
       rbind (upd_desc p (\<lambda>y. y\<lparr>bd_next := n\<rparr>) s) (\<lambda>s.
       upd_desc n (\<lambda>y. y\<lparr>bd_prev := p\<rparr>) s))"

definition AddBODesc :: "nat \<Rightarrow> nat \<Rightarrow> rt \<Rightarrow> rt res" where
  "AddBODesc hdr dp s =
     rbind (get_desc hdr s) (\<lambda>h.
       let n = bd_next h in
       rbind (upd_desc dp (\<lambda>y. y\<lparr>bd_next := n, bd_prev := hdr\<rparr>) s) (\<lambda>s.
       rbind (upd_desc n (\<lambda>y. y\<lparr>bd_prev := dp\<rparr>) s) (\<lambda>s.
       upd_desc hdr (\<lambda>y. y\<lparr>bd_next := dp\<rparr>) s)))"

definition ADDR_TO_BOPAGE :: "bigobj_region \<Rightarrow> addr_t \<Rightarrow> nat" where
  "ADDR_TO_BOPAGE r a = unat (drop_bit 10 (a - br_firstPage r))"

definition ADDR_TO_BODESC :: "bigobj_region \<Rightarrow> addr_t \<Rightarrow> nat res" where
  "ADDR_TO_BODESC r a =
     (let i = ADDR_TO_BOPAGE r a in
      if length (br_objMap r) \<le> i then Inl (Fault ''page index out of range'') else Inr (br_objMap r ! i))"

definition BO_ROUNDED_SZB :: "bigobj_desc \<Rightarrow> addr_t" where
  "BO_ROUNDED_SZB d = ROUNDUP (bd_sizeB d) BIGOBJ_PAGE_SZB"

definition BO_NUM_BOPAGES :: "bigobj_desc \<Rightarrow> nat" where
  "BO_NUM_BOPAGES d = unat (drop_bit 10 (BO_ROUNDED_SZB d))"

definition BO_IS_FROM_SPACE :: "bigobj_desc \<Rightarrow> bool" where "BO_IS_FROM_SPACE d \<longleftrightarrow> odd (bd_state d)"
definition BO_IS_FREE :: "bigobj_desc \<Rightarrow> bool" where "BO_IS_FREE d \<longleftrightarrow> bd_state d = BO_FREE"

text \<open>\<open>for (i = lo; i < hi; i++) region->objMap[i] = d\<close>\<close>

definition map_pages :: "nat \<Rightarrow> nat \<Rightarrow> nat \<Rightarrow> bigobj_region \<Rightarrow> bigobj_region" where
  "map_pages lo hi d r = r\<lparr>br_objMap := fold (\<lambda>i xs. xs[i := d]) [lo..<hi] (br_objMap r)\<rparr>"

definition set_pages :: "nat \<Rightarrow> nat \<Rightarrow> nat \<Rightarrow> nat \<Rightarrow> rt \<Rightarrow> rt res" where
  "set_pages r lo hi d s =
     rbind (get_region r s) (\<lambda>x.
       if lo < hi \<and> length (br_objMap x) < hi then Inl (Fault ''page index out of range'')
       else upd_region r (map_pages lo hi d) s)"

section \<open>Allocation\<close>

text \<open>
  \<open>BO_AllocRegion\<close>. The page count and the sizes computed from it are \<open>int\<close>s; the
  region pointer stored in the first word of the region is the number of the region.
\<close>

definition BO_AllocRegion :: "(mem_sys \<Rightarrow> addr_t \<Rightarrow> addr_t option) \<Rightarrow> addr_t \<Rightarrow> rt \<Rightarrow> (nat \<times> rt) res" where
  "BO_AllocRegion mmap reqSzB0 s =
     (let reqSzB = (if reqSzB0 < MIN_BOREGION_SZB then MIN_BOREGION_SZB else reqSzB0);
          npages = unat (drop_bit 10 (ROUNDUP reqSzB BIGOBJ_PAGE_SZB))
      in if INT_MAX < int ((npages + 1) * 1024) then Inl (Fault ''signed overflow'')
      else case MEM_AllocMemObj (mmap (rt_ms s)) (of_nat ((npages + 1) * 1024)) (rt_ms s) of
        None \<Rightarrow> Inl (Die ''unable to allocate memory object for bigobject region'')
      | Some (memObj, ms) \<Rightarrow>
          (let region = rt_fresh s; desc = rt_fresh s + 1;
               firstPage = mo_base memObj + BIGOBJ_PAGE_SZB;
               r = \<lparr>br_firstPage = firstPage, br_nPages = npages, br_nFree = int npages,
                    br_minGen = MAX_NUM_GENS, br_memObj = memObj, br_next = h_bigRegions (rt_heap s),
                    br_objMap = replicate npages desc\<rparr>;
               d = \<lparr>bd_obj = firstPage, bd_sizeB = of_nat (npages * 1024), bd_objc = 0, bd_state = BO_FREE, bd_gen = 0,
                    bd_region = region, bd_prev = 0, bd_next = 0\<rparr>
           in Inr (desc, s\<lparr>rt_ms := ms, rt_fresh := rt_fresh s + 2,
                rt_mem := (rt_mem s)(mo_base memObj := of_nat region),
                rt_region := (rt_region s)(region \<mapsto> r), rt_desc := (rt_desc s)(desc \<mapsto> d),
                rt_heap := (rt_heap s)\<lparr>h_bigRegions := region, h_numBORegions := h_numBORegions (rt_heap s) + 1\<rparr>\<rparr>)))"

text \<open>The first-fit search along the free list, with fuel.\<close>

fun first_fit :: "nat \<Rightarrow> nat \<Rightarrow> nat \<Rightarrow> addr_t \<Rightarrow> rt \<Rightarrow> nat res" where
  "first_fit 0 dp hdr totSzB s = Inl NoFuel"
| "first_fit (Suc fuel) dp hdr totSzB s =
     (if dp = hdr then Inr hdr
      else rbind (get_desc dp s) (\<lambda>x.
        if bd_sizeB x < totSzB then first_fit fuel (bd_next x) hdr totSzB s else Inr dp))"

text \<open>
  Splitting a free descriptor \<open>dp\<close>: a new descriptor takes the first pages, \<open>dp\<close> keeps
  the rest. When the region is new, \<open>dp\<close> is added to the free list.
\<close>

definition split_desc :: "nat \<Rightarrow> addr_t \<Rightarrow> bool \<Rightarrow> rt \<Rightarrow> (nat \<times> rt) res" where
  "split_desc dp totSzB addFree s =
     rbind (get_desc dp s) (\<lambda>x.
       let newDesc = rt_fresh s;
           y = \<lparr>bd_obj = bd_obj x, bd_sizeB = 0, bd_objc = 0, bd_state = 0, bd_gen = 0, bd_region = bd_region x,
                bd_prev = 0, bd_next = 0\<rparr>;
           s1 = put_desc dp (x\<lparr>bd_obj := bd_obj x + totSzB, bd_sizeB := bd_sizeB x - totSzB\<rparr>)
                  (put_desc newDesc y (s\<lparr>rt_fresh := rt_fresh s + 1\<rparr>))
       in rbind (if addFree then AddBODesc (h_freeBigObjs (rt_heap s1)) dp s1 else Inr s1) (\<lambda>s2.
          rbind (get_region (bd_region x) s2) (\<lambda>r.
          let firstPage = ADDR_TO_BOPAGE r (bd_obj x); npages = unat (drop_bit 10 totSzB) in
          rbind (set_pages (bd_region x) firstPage (firstPage + npages) newDesc s2) (\<lambda>s3.
          Inr (newDesc, s3)))))"

definition BO_Alloc :: "(mem_sys \<Rightarrow> addr_t \<Rightarrow> addr_t option) \<Rightarrow> nat \<Rightarrow> nat \<Rightarrow> addr_t \<Rightarrow> rt \<Rightarrow> (nat \<times> rt) res" where
  "BO_Alloc mmap fuel gen objSzB s =
     (let totSzB = ROUNDUP objSzB BIGOBJ_PAGE_SZB; npages = unat (drop_bit 10 totSzB);
          hdr = h_freeBigObjs (rt_heap s)
      in rbind (get_desc hdr s) (\<lambda>h.
         rbind (first_fit fuel (bd_next h) hdr totSzB s) (\<lambda>dp.
         rbind (if dp = hdr then
                  rbind (BO_AllocRegion mmap totSzB s) (\<lambda>(dp, s).
                  rbind (get_desc dp s) (\<lambda>x.
                  if bd_sizeB x = totSzB then Inr (dp, s) else split_desc dp totSzB True s))
                else
                  rbind (get_desc dp s) (\<lambda>x.
                  if bd_sizeB x = totSzB then rbind (RemoveBODesc dp s) (\<lambda>s. Inr (dp, s))
                  else split_desc dp totSzB False s)) (\<lambda>(newDesc, s).
         rbind (upd_desc newDesc (\<lambda>x. x\<lparr>bd_sizeB := objSzB, bd_state := BO_YOUNG, bd_gen := gen\<rparr>) s) (\<lambda>s.
         rbind (get_desc newDesc s) (\<lambda>x.
         rbind (upd_region (bd_region x) (\<lambda>r. r\<lparr>br_nFree := br_nFree r - int npages\<rparr>) s) (\<lambda>s.
         rbind (get_region (bd_region x) s) (\<lambda>r.
         rbind (if gen < br_minGen r then
                  rbind (upd_region (bd_region x) (\<lambda>r. r\<lparr>br_minGen := gen\<rparr>) s) (\<lambda>s.
                  rbind (put_bibop (MarkRegion (mo_base (br_memObj r)) (mo_sizeB (br_memObj r)) (AID_BIGOBJ gen)) s) (\<lambda>s.
                  put_bibop (BIBOP_UPDATE (BIBOP_ADDR_TO_INDEX (mo_base (br_memObj r))) (AID_BIGOBJ_HDR gen)) s))
                else Inr s) (\<lambda>s.
         Inr (newDesc, s))))))))))"

section \<open>Freeing\<close>

text \<open>\<open>BO_Free\<close>: coalesce with the free neighbours, then add to the free list.\<close>

definition coalesce_prev :: "nat \<Rightarrow> nat \<Rightarrow> nat \<Rightarrow> addr_t \<Rightarrow> rt \<Rightarrow> (addr_t \<times> rt) res" where
  "coalesce_prev desc region firstPage totSzB s =
     rbind (get_region region s) (\<lambda>r.
       if 0 < firstPage then
         rbind (if length (br_objMap r) < firstPage then Inl (Fault ''page index out of range'') else Inr (br_objMap r ! (firstPage - 1))) (\<lambda>dp.
         rbind (get_desc dp s) (\<lambda>x.
         if BO_IS_FREE x then
           rbind (RemoveBODesc dp s) (\<lambda>s.
           rbind (set_pages region (ADDR_TO_BOPAGE r (bd_obj x)) firstPage desc s) (\<lambda>s.
           rbind (upd_desc desc (\<lambda>y. y\<lparr>bd_obj := bd_obj x\<rparr>) s) (\<lambda>s.
           Inr (totSzB + bd_sizeB x, s\<lparr>rt_desc := (rt_desc s)(dp := None)\<rparr>))))
         else Inr (totSzB, s)))
       else Inr (totSzB, s))"

definition coalesce_next :: "nat \<Rightarrow> nat \<Rightarrow> nat \<Rightarrow> addr_t \<Rightarrow> rt \<Rightarrow> (addr_t \<times> rt) res" where
  "coalesce_next desc region lastPage totSzB s =
     rbind (get_region region s) (\<lambda>r.
       if lastPage < br_nPages r then
         rbind (if length (br_objMap r) \<le> lastPage then Inl (Fault ''page index out of range'') else Inr (br_objMap r ! lastPage)) (\<lambda>dp.
         rbind (get_desc dp s) (\<lambda>x.
         if BO_IS_FREE x then
           rbind (RemoveBODesc dp s) (\<lambda>s.
           rbind (set_pages region lastPage (lastPage + unat (drop_bit 10 (bd_sizeB x))) desc s) (\<lambda>s.
           Inr (totSzB + bd_sizeB x, s\<lparr>rt_desc := (rt_desc s)(dp := None)\<rparr>)))
         else Inr (totSzB, s)))
       else Inr (totSzB, s))"

definition BO_Free :: "nat \<Rightarrow> rt \<Rightarrow> rt res" where
  "BO_Free desc s =
     rbind (get_desc desc s) (\<lambda>x.
     let region = bd_region x; totSzB = ROUNDUP (bd_sizeB x) BIGOBJ_PAGE_SZB in
     rbind (get_region region s) (\<lambda>r.
     let firstPage = ADDR_TO_BOPAGE r (bd_obj x); lastPage = firstPage + unat (drop_bit 10 totSzB) in
     rbind (coalesce_prev desc region firstPage totSzB s) (\<lambda>(totSzB, s).
     rbind (coalesce_next desc region lastPage totSzB s) (\<lambda>(totSzB, s).
     rbind (upd_desc desc (\<lambda>y. y\<lparr>bd_sizeB := totSzB, bd_state := BO_FREE\<rparr>) s) (\<lambda>s.
     rbind (upd_region region (\<lambda>r. r\<lparr>br_nFree := br_nFree r + int (lastPage - firstPage)\<rparr>) s) (\<lambda>s.
     AddBODesc (h_freeBigObjs (rt_heap s)) desc s))))))"

section \<open>From addresses to descriptors\<close>

definition BO_GetDesc :: "addr_t \<Rightarrow> rt \<Rightarrow> nat res" where
  "BO_GetDesc addr s =
     rbind (find_hdr (INDEX_TO_PAGEID (rt_bibop s)) (BIBOP_ADDR_TO_INDEX addr)) (\<lambda>indx.
     rbind (get_region (unat (rt_mem s (BIBOP_INDEX_TO_ADDR indx))) s) (\<lambda>r.
     ADDR_TO_BODESC r addr))"

text \<open>The last byte of a code object gives the length of its tag in words.\<close>

definition BO_GetCodeObjTag :: "bigobj_desc \<Rightarrow> memory \<Rightarrow> addr_t" where
  "BO_GetCodeObjTag bdp m =
     (let lastByte = bd_obj bdp + bd_sizeB bdp - 1; kx = ucast (byte_at lastByte m) * 8
      in lastByte - kx + 1)"

definition BO_AddrToCodeObjTag :: "addr_t \<Rightarrow> rt \<Rightarrow> addr_t option res" where
  "BO_AddrToCodeObjTag pc s =
     rbind (ADDR_TO_PAGEID (rt_bibop s) pc) (\<lambda>aid.
       if IS_BIGOBJ_AID aid then
         rbind (find_hdr (INDEX_TO_PAGEID (rt_bibop s)) (BIBOP_ADDR_TO_INDEX pc)) (\<lambda>indx.
         rbind (get_region (unat (rt_mem s (BIBOP_INDEX_TO_ADDR indx))) s) (\<lambda>r.
         rbind (ADDR_TO_BODESC r pc) (\<lambda>d.
         rbind (get_desc d s) (\<lambda>x. Inr (Some (BO_GetCodeObjTag x (rt_mem s)))))))
       else Inr None)"

text \<open>
  \<open>GetObjGen\<close> takes the first page of a region to be the region header itself, although the
  header was moved out of the region and the page holds a pointer to it: the descriptor is read
  from whatever follows in the region, which the model leaves undefined.
\<close>

definition GetObjGen :: "word_t \<Rightarrow> rt \<Rightarrow> int res" where
  "GetObjGen obj s =
     (if isBOXED obj then
        rbind (ADDR_TO_PAGEID (rt_bibop s) obj) (\<lambda>aid.
          if IS_BIGOBJ_AID aid then
            rbind (find_hdr (INDEX_TO_PAGEID (rt_bibop s)) (BIBOP_ADDR_TO_INDEX obj)) (\<lambda>_.
            Inl (Fault ''region header read from the region''))
          else if aid = AID_NEW then Inr 0
          else if aid = AID_UNMAPPED then Inr (- 1)
          else Inr (int (EXTRACT_GEN aid)))
      else Inr (- 1))"

section \<open>The doubly linked free list\<close>

definition nx :: "rt \<Rightarrow> nat \<Rightarrow> nat option" where "nx s d = map_option bd_next (rt_desc s d)"
definition pv :: "rt \<Rightarrow> nat \<Rightarrow> nat option" where "pv s d = map_option bd_prev (rt_desc s d)"

text \<open>\<open>dseg n v p xs q\<close>: following \<open>next\<close> from \<open>p\<close> visits \<open>xs\<close> and ends at \<open>q\<close>, and
  the \<open>prev\<close> links go the other way.\<close>

fun dseg :: "(nat \<Rightarrow> nat option) \<Rightarrow> (nat \<Rightarrow> nat option) \<Rightarrow> nat \<Rightarrow> nat list \<Rightarrow> nat \<Rightarrow> bool" where
  "dseg n v p [] q \<longleftrightarrow> n p = Some q \<and> v q = Some p"
| "dseg n v p (x # xs) q \<longleftrightarrow> n p = Some x \<and> v x = Some p \<and> dseg n v x xs q"

definition free_list :: "rt \<Rightarrow> nat list \<Rightarrow> bool" where
  "free_list s xs \<longleftrightarrow> dseg (nx s) (pv s) (h_freeBigObjs (rt_heap s)) xs (h_freeBigObjs (rt_heap s))
     \<and> distinct (h_freeBigObjs (rt_heap s) # xs)"

lemma dseg_cong:
  "\<forall>a \<in> set (p # xs). n' a = n a \<Longrightarrow> \<forall>a \<in> set (xs @ [q]). v' a = v a \<Longrightarrow> dseg n' v' p xs q = dseg n v p xs q"
  by (induction xs arbitrary: p) auto

lemma dseg_ends:
  "dseg n v p (xs @ d # ys) q \<Longrightarrow> v d = Some (last (p # xs)) \<and> n d = Some (hd (ys @ [q]))
     \<and> (\<forall>a \<in> set (p # xs @ d # ys). n a \<noteq> None) \<and> (\<forall>a \<in> set (xs @ d # ys @ [q]). v a \<noteq> None)"
proof (induction xs arbitrary: p)
  case Nil
  have "dseg n v d ys q \<Longrightarrow> (\<forall>a \<in> set (d # ys). n a \<noteq> None) \<and> (\<forall>a \<in> set (ys @ [q]). v a \<noteq> None)" for d
    by (induction ys arbitrary: d) auto
  with Nil show ?case by (cases ys) auto
qed auto

lemma dseg_remove:
  assumes "dseg n v p (xs @ d # ys) q" "distinct (p # xs @ d # ys)" "q \<notin> set (xs @ d # ys)"
  shows "dseg (n(last (p # xs) := n d)) (v(hd (ys @ [q]) := v d)) p (xs @ ys) q"
  using assms
proof (induction xs arbitrary: p)
  case Nil
  show ?case
  proof (cases ys)
    case (Cons y ys')
    with Nil have "dseg (n(p := n d)) (v(y := v d)) y ys' q = dseg n v y ys' q"
      by (intro dseg_cong) auto
    with Nil Cons show ?thesis by (simp add: fun_upd_def)
  qed (use Nil in auto)
next
  case (Cons x xs)
  from Cons.prems have "dseg (n(last (x # xs) := n d)) (v(hd (ys @ [q]) := v d)) x (xs @ ys) q"
    by (intro Cons.IH) auto
  moreover have "p \<noteq> last (x # xs)" using Cons.prems(2) by (auto dest: last_in_set split: if_splits)
  moreover have "x \<noteq> hd (ys @ [q])" using Cons.prems(2,3) by (cases ys) auto
  ultimately show ?case using Cons.prems(1) by (simp add: fun_upd_def split: if_splits)
qed

lemma nx_put [simp]: "nx (put_desc d x s) = (nx s)(d := Some (bd_next x))" "pv (put_desc d x s) = (pv s)(d := Some (bd_prev x))"
  "rt_heap (put_desc d x s) = rt_heap s" "rt_region (put_desc d x s) = rt_region s" "rt_desc (put_desc d x s) = (rt_desc s)(d \<mapsto> x)"
  by (auto simp: nx_def pv_def put_desc_def fun_eq_iff)

text \<open>\<open>same_objs s s'\<close>: the two states differ in descriptor links only.\<close>

definition same_objs :: "rt \<Rightarrow> rt \<Rightarrow> bool" where
  "same_objs s s' \<longleftrightarrow> s' = s\<lparr>rt_desc := rt_desc s'\<rparr> \<and>
     (\<forall>d. map_option (\<lambda>x. x\<lparr>bd_prev := 0, bd_next := 0\<rparr>) (rt_desc s' d)
        = map_option (\<lambda>x. x\<lparr>bd_prev := 0, bd_next := 0\<rparr>) (rt_desc s d))"

lemma same_objs_put:
  "rt_desc s d = Some x \<Longrightarrow> y\<lparr>bd_prev := 0, bd_next := 0\<rparr> = x\<lparr>bd_prev := 0, bd_next := 0\<rparr> \<Longrightarrow> same_objs s (put_desc d y s)"
  by (auto simp: same_objs_def put_desc_def)

lemma same_objs_trans: "same_objs s s1 \<Longrightarrow> same_objs s1 s2 \<Longrightarrow> same_objs s s2"
  unfolding same_objs_def by (metis rt.surjective rt.update_convs(5))

lemma same_objs_desc:
  "same_objs s s' \<Longrightarrow> rt_desc s d = Some x \<Longrightarrow> \<exists>y. rt_desc s' d = Some y \<and> bd_obj y = bd_obj x \<and> bd_sizeB y = bd_sizeB x
     \<and> bd_state y = bd_state x \<and> bd_gen y = bd_gen x \<and> bd_region y = bd_region x"
  unfolding same_objs_def
  by (drule conjunct2, drule spec [of _ d], cases "rt_desc s' d") (auto, (metis bigobj_desc.simps bigobj_desc.surjective bigobj_desc.update_convs)+)

lemma RemoveBODesc_free_list:
  assumes "free_list s (xs @ d # ys)"
  shows "\<exists>s'. RemoveBODesc d s = Inr s' \<and> free_list s' (xs @ ys) \<and> same_objs s s'"
proof -
  let ?h = "h_freeBigObjs (rt_heap s)"
  have seg: "dseg (nx s) (pv s) ?h (xs @ d # ys) ?h" and dist: "distinct (?h # xs @ d # ys)"
    using assms by (auto simp: free_list_def)
  define p where "p = last (?h # xs)"
  define q where "q = hd (ys @ [?h])"
  note ends = dseg_ends [OF seg, folded p_def q_def]
  then obtain x where x: "rt_desc s d = Some x" "bd_prev x = p" "bd_next x = q" by (auto simp: nx_def pv_def)
  have "p \<in> set (?h # xs @ d # ys)" "q \<in> set (xs @ d # ys @ [?h])"
    using last_in_set [of "?h # xs"] hd_in_set [of "ys @ [?h]"] by (auto simp: p_def q_def)
  with ends have "nx s p \<noteq> None" "pv s q \<noteq> None" by blast+
  then obtain a b where ab: "rt_desc s p = Some a" "rt_desc s q = Some b"
    unfolding nx_def pv_def by (metis not_None_eq option.map_disc_iff)
  have "p \<noteq> d" "q \<noteq> d" using dist last_in_set [of "?h # xs"] hd_in_set [of "ys @ [?h]"] by (auto simp: p_def q_def)
  define s1 where "s1 = put_desc p (a\<lparr>bd_next := q\<rparr>) s"
  define b1 where "b1 = the (rt_desc s1 q)"
  define s2 where "s2 = put_desc q (b1\<lparr>bd_prev := p\<rparr>) s1"
  have b1: "rt_desc s1 q = Some b1" using ab by (auto simp: s1_def b1_def)
  have res: "RemoveBODesc d s = Inr s2"
    using x ab b1 by (simp add: RemoveBODesc_def get_desc_def upd_desc_def s1_def [symmetric] s2_def Let_def)
  have "nx s2 = (nx s)(p := Some q)" "pv s2 = (pv s)(q := Some p)"
    using ab b1 by (auto simp: s2_def s1_def nx_def pv_def fun_eq_iff split: if_splits)
  moreover have "nx s d = Some q" "pv s d = Some p" using ends by auto
  ultimately have "dseg (nx s2) (pv s2) ?h (xs @ ys) ?h"
    using dseg_remove [OF seg dist] dist by (simp add: p_def q_def)
  moreover have "same_objs s s2"
    unfolding s2_def by (rule same_objs_trans [OF _ same_objs_put [OF b1]])
      (use same_objs_put [OF ab(1), of "a\<lparr>bd_next := q\<rparr>"] in \<open>simp_all add: s1_def\<close>)
  moreover have "rt_heap s2 = rt_heap s" by (simp add: s2_def s1_def)
  ultimately show ?thesis using res dist by (auto simp: free_list_def)
qed

lemma AddBODesc_free_list:
  assumes "free_list s xs" "rt_desc s d = Some x" "d \<notin> set (h_freeBigObjs (rt_heap s) # xs)"
  shows "\<exists>s'. AddBODesc (h_freeBigObjs (rt_heap s)) d s = Inr s' \<and> free_list s' (d # xs) \<and> same_objs s s'"
proof -
  let ?h = "h_freeBigObjs (rt_heap s)"
  have seg: "dseg (nx s) (pv s) ?h xs ?h" and dist: "distinct (?h # xs)"
    using assms by (auto simp: free_list_def)
  define q where "q = hd (xs @ [?h])"
  have q: "nx s ?h = Some q" "pv s q = Some ?h" "q \<in> set (?h # xs)"
    using seg by (cases xs; auto simp: q_def)+
  then obtain h b where hb: "rt_desc s ?h = Some h" "bd_next h = q" "rt_desc s q = Some b"
    by (auto simp: nx_def pv_def)
  have "q \<noteq> d" "?h \<noteq> d" using q(3) assms(3) by auto
  define s1 where "s1 = put_desc d (x\<lparr>bd_next := q, bd_prev := ?h\<rparr>) s"
  define s2 where "s2 = put_desc q (b\<lparr>bd_prev := d\<rparr>) s1"
  define h2 where "h2 = the (rt_desc s2 ?h)"
  define s3 where "s3 = put_desc ?h (h2\<lparr>bd_next := d\<rparr>) s2"
  have h2: "rt_desc s2 ?h = Some h2" "rt_desc s1 q = Some b"
    using hb \<open>q \<noteq> d\<close> \<open>?h \<noteq> d\<close> by (auto simp: s2_def s1_def h2_def)
  have res: "AddBODesc ?h d s = Inr s3"
    using hb assms(2) h2 \<open>q \<noteq> d\<close> \<open>?h \<noteq> d\<close> by (simp add: AddBODesc_def get_desc_def upd_desc_def s1_def [symmetric]
        s2_def [symmetric] s3_def Let_def)
  have n3: "nx s3 = (nx s)(d := Some q, ?h := Some d)"
    using hb h2 \<open>q \<noteq> d\<close> \<open>?h \<noteq> d\<close> by (auto simp: s3_def s2_def s1_def fun_eq_iff) (auto simp: nx_def)
  have v3: "pv s3 = (pv s)(d := Some ?h, q := Some d)"
    using hb h2 \<open>q \<noteq> d\<close> \<open>?h \<noteq> d\<close> by (auto simp: s3_def s2_def s1_def fun_eq_iff split: if_splits) (auto simp: pv_def)
  have "dseg (nx s3) (pv s3) d xs ?h"
  proof (cases xs)
    case Nil
    then show ?thesis using n3 v3 \<open>?h \<noteq> d\<close> by (auto simp: q_def)
  next
    case (Cons y ys)
    then have "dseg (nx s3) (pv s3) y ys ?h = dseg (nx s) (pv s) y ys ?h"
      using n3 v3 dist assms(3) by (intro dseg_cong) (auto simp: q_def)
    with Cons seg n3 v3 assms(3) dist show ?thesis by (auto simp: q_def)
  qed
  then have "dseg (nx s3) (pv s3) ?h (d # xs) ?h" using n3 v3 \<open>q \<noteq> d\<close> by auto
  moreover have "same_objs s s1" "same_objs s1 s2" "same_objs s2 s3"
    unfolding s1_def s2_def s3_def
    using same_objs_put [OF assms(2)] same_objs_put [OF h2(2)] same_objs_put [OF h2(1)]
    by (simp_all add: s1_def s2_def)
  then have "same_objs s s3" by (blast intro: same_objs_trans)
  moreover have "rt_heap s3 = rt_heap s" by (simp add: s3_def s2_def s1_def)
  ultimately show ?thesis using res dist assms(3) by (auto simp: free_list_def)
qed

end
