(* ===== verification/GC_Util.thy ===== *)
theory GC_Util
  imports Big_Objects
begin

text \<open>
  The collector's utility routines of \<open>gc/gc-util.c\<close>: allocating and freeing the to-space of
  a generation, its dirty vector, and the scan of weak pointers (\<open>MarkRegion\<close> is in theory
  Bibop). The heap monitor is not part of the modelled build.
\<close>

section \<open>NewGeneration and FreeGeneration\<close>

text \<open>One arena: it gets its share of the memory object starting at \<open>p\<close>.\<close>

definition new_arena :: "nat \<Rightarrow> nat \<Rightarrow> addr_t \<times> rt \<Rightarrow> (addr_t \<times> rt) res" where
  "new_arena g i = (\<lambda>(p, s).
     let ap = get_arena g i s in
     if isACTIVE ap then
       (let p' = p + a_tospSizeB ap in
        rbind (put_bibop (MarkRegion p (a_tospSizeB ap) (a_id ap))
                 (upd_arena g i (\<lambda>a. a\<lparr>a_tospBase := p, a_nextw := p, a_sweep_nextw := p, a_tospTop := p'\<rparr>) s))
          (\<lambda>s. Inr (p', s)))
     else Inr (p, upd_arena g i (\<lambda>a. a\<lparr>a_tospBase := 0, a_frspBase := 0, a_nextw := 0,
                                     a_sweep_nextw := 0, a_tospTop := 0\<rparr>) s))"

text \<open>The first two words of pair space are not used.\<close>

definition init_pair_arena :: "nat \<Rightarrow> rt \<Rightarrow> rt" where
  "init_pair_arena g s =
     (let ap = get_arena g PAIR_INDX s in
      if isACTIVE ap then
        upd_arena g PAIR_INDX (\<lambda>a. a\<lparr>a_nextw := a_nextw ap + 16, a_sweep_nextw := a_nextw ap + 16\<rparr>)
          (upd_mem (put_words (a_nextw ap) [ML_unit, ML_unit]) s)
      else s)"

definition gen_size :: "generation \<Rightarrow> addr_t" where
  "gen_size gn = fold (\<lambda>i tot. if isACTIVE (g_arena gn ! i) then tot + a_tospSizeB (g_arena gn ! i) else tot) [0..<NUM_ARENAS] 0"

text \<open>The result says whether it is \<open>SUCCESS\<close>.\<close>

definition NewGeneration :: "(mem_sys \<Rightarrow> addr_t \<Rightarrow> addr_t option) \<Rightarrow> nat \<Rightarrow> rt \<Rightarrow> (bool \<times> rt) res" where
  "NewGeneration mmap g s =
     (let tot_sz = gen_size (get_gen g s);
          obj = (case g_cacheObj (get_gen g s) of
              Some c \<Rightarrow> if tot_sz \<le> mo_sizeB c then Some (c, upd_gen g (\<lambda>gn. gn\<lparr>g_cacheObj := None\<rparr>) s) else None
            | None \<Rightarrow> None);
          memobj = (case obj of
              Some x \<Rightarrow> Some x
            | None \<Rightarrow> map_option (\<lambda>(o1, ms). (o1, s\<lparr>rt_ms := ms\<rparr>)) (MEM_AllocMemObj (mmap (rt_ms s)) tot_sz (rt_ms s)))
      in case memobj of
        None \<Rightarrow> Inr (False, s)
      | Some (memobj, s) \<Rightarrow>
          rbind (rfold (new_arena g) [0..<NUM_ARENAS]
                   (mo_base memobj, upd_gen g (\<lambda>gn. gn\<lparr>g_toObj := Some memobj\<rparr>) s)) (\<lambda>(p, s).
          Inr (True, init_pair_arena g s)))"

definition free_from_arena :: "nat \<Rightarrow> nat \<Rightarrow> rt \<Rightarrow> rt res" where
  "free_from_arena g i s =
     (let ap = get_arena g i s in
      if a_frspBase ap \<noteq> 0 then
        rbind (put_bibop (MarkRegion (a_frspBase ap) (a_frspSizeB ap) AID_UNMAPPED) s) (\<lambda>s.
        Inr (upd_arena g i (\<lambda>a. a\<lparr>a_frspBase := 0, a_frspSizeB := 0, a_frspTop := 0\<rparr>) s))
      else Inr s)"

definition free_memobj :: "mem_obj \<Rightarrow> rt \<Rightarrow> rt res" where
  "free_memobj o1 s = rbind (MEM_FreeMemObj (Some o1) (rt_ms s)) (\<lambda>ms. Inr (s\<lparr>rt_ms := ms\<rparr>))"

definition FreeGeneration :: "nat \<Rightarrow> rt \<Rightarrow> rt res" where
  "FreeGeneration g s =
     (let gn = get_gen g s in
      case g_fromObj gn of
        None \<Rightarrow> Inr s
      | Some from \<Rightarrow>
          rbind (if int g < h_cacheGen (rt_heap s) then
                (case g_cacheObj gn of
                   Some cache \<Rightarrow>
                     if mo_sizeB from < mo_sizeB cache then free_memobj from s
                     else rbind (free_memobj cache s) (\<lambda>s. Inr (upd_gen g (\<lambda>gn. gn\<lparr>g_cacheObj := Some from\<rparr>) s))
                 | None \<Rightarrow> Inr (upd_gen g (\<lambda>gn. gn\<lparr>g_cacheObj := Some from\<rparr>) s))
              else free_memobj from s) (\<lambda>s.
          rfold (free_from_arena g) [0..<NUM_ARENAS] (upd_gen g (\<lambda>gn. gn\<lparr>g_fromObj := None\<rparr>) s)))"

section \<open>NewDirtyVector\<close>

text \<open>\<open>sizeof(card_map_t)\<close> is 32 bytes, of which 8 belong to the map.\<close>

definition CARD_MAP_SZ :: "nat \<Rightarrow> nat" where
  "CARD_MAP_SZ n = 32 + ((n + 7) div 8) * 8 - 8"

definition NewDirtyVector :: "nat \<Rightarrow> rt \<Rightarrow> rt" where
  "NewDirtyVector g s =
     (let ap = get_arena g ARRAY_INDX s;
          vecSz = unat (a_tospSizeB ap) div 256;
          allocSzB = CARD_MAP_SZ vecSz;
          fresh = \<lparr>cm_baseAddr = 0, cm_numCards = 0, cm_mapSzB = allocSzB, cm_map = (\<lambda>_. 0)\<rparr>;
          dirty = (case g_dirty (get_gen g s) of
              None \<Rightarrow> fresh
            | Some d \<Rightarrow> if cm_mapSzB d < allocSzB then fresh else d)
      in upd_gen g (\<lambda>gn. gn\<lparr>g_dirty := Some (dirty\<lparr>cm_baseAddr := a_tospBase ap, cm_numCards := vecSz,
           cm_map := fill (cm_map dirty) 0 (allocSzB - 24) CARD_CLEAN\<rparr>)\<rparr>) s)"

section \<open>Copying an object\<close>

text \<open>\<open>len\<close> is a \<open>Word_t\<close>; the copying loop takes it as an \<open>int\<close>.\<close>

definition copy_len :: "word_t \<Rightarrow> nat" where
  "copy_len len = nat (sint (ucast len :: u32))"

text \<open>The common end of \<open>MinorGC_ForwardObj\<close> and \<open>MajorGC_ForwardObj\<close>: copy the object to
  an arena of generation \<open>g\<close> and leave a forward pointer.\<close>

definition fwd_copy :: "nat \<Rightarrow> nat \<Rightarrow> word_t \<Rightarrow> word_t \<Rightarrow> addr_t \<Rightarrow> rt \<Rightarrow> (word_t \<times> rt) res" where
  "fwd_copy g ix len desc obj s =
     (let new_obj = a_nextw (get_arena g ix s);
          s1 = upd_arena g ix (\<lambda>a. a\<lparr>a_nextw := new_obj + 8 * (len + 1)\<rparr>) s;
          new_obj1 = new_obj + 8;
          s2 = upd_mem (\<lambda>m. (Copy obj new_obj1 (copy_len len) (m(new_obj := desc)))
                 (obj - 8 := DESC_forwarded, obj := new_obj1)) s1
      in Inr (new_obj1, s2))"

section \<open>ScanWeakPtrs\<close>

text \<open>
  One weak pointer. The object classes that the switch does not list (mixed objects among them)
  leave the pointer as the collector threaded it.
\<close>

definition scan_weak :: "addr_t \<Rightarrow> rt \<Rightarrow> rt res" where
  "scan_weak p s =
     (let m = rt_mem s; obj = UNMARK_PTR (m (p + 8)) in
      rbind (ADDR_TO_PAGEID (rt_bibop s) obj) (\<lambda>aid.
        let objc = EXTRACT_OBJC aid in
        if objc \<in> {OBJC_new, OBJC_record, OBJC_string, OBJC_array} then
          (if m (obj - 8) = DESC_forwarded
           then Inr (upd_mem (put_words p [DESC_weak, FOLLOW_FWDOBJ obj m]) s)
           else Inr (upd_mem (put_words p [DESC_null_weak, ML_unit]) s))
        else if objc = OBJC_pair then
          (if isDESC (m obj)
           then Inr (upd_mem (put_words p [DESC_weak, FOLLOW_FWDPAIR (m obj)]) s)
           else Inr (upd_mem (put_words p [DESC_null_weak, ML_unit]) s))
        else if objc = OBJC_bigobj then Inl (Die ''weak big object'')
        else Inr s))"

fun scan_weak_list :: "nat \<Rightarrow> addr_t \<Rightarrow> rt \<Rightarrow> rt res" where
  "scan_weak_list fuel p s =
     (if p = 0 then Inr s
      else case fuel of
        0 \<Rightarrow> Inl NoFuel
      | Suc fuel \<Rightarrow>
          (let q = UNMARK_PTR (rt_mem s p) in rbind (scan_weak p s) (scan_weak_list fuel q)))"

declare scan_weak_list.simps [simp del]

definition ScanWeakPtrs :: "nat \<Rightarrow> rt \<Rightarrow> rt res" where
  "ScanWeakPtrs fuel s =
     rbind (scan_weak_list fuel (h_weakList (rt_heap s)) s) (\<lambda>s.
     Inr (upd_heap (\<lambda>h. h\<lparr>h_weakList := 0\<rparr>) s))"

end
