(* ===== verification/Minor_GC.thy ===== *)
theory Minor_GC
  imports GC_Util
begin

text \<open>
  Minor collections, \<open>gc/minor-gc.c\<close>: forwarding an object from the allocation space to the
  first generation, the scan of roots and of the store list, and the Cheney sweep of the first
  generation's to-space. Roots are addresses of words. Every loop whose number of iterations
  depends on the contents of the heap has fuel.
\<close>

section \<open>Forwarding\<close>

definition fwd_pair :: "addr_t \<Rightarrow> rt \<Rightarrow> (word_t \<times> rt) res" where
  "fwd_pair obj s =
     (let new_obj = a_nextw (get_arena 0 PAIR_INDX s);
          s1 = upd_arena 0 PAIR_INDX (\<lambda>a. a\<lparr>a_nextw := new_obj + 16\<rparr>) s;
          s2 = upd_mem (\<lambda>m. let m1 = m(new_obj := m obj); m2 = m1(new_obj + 8 := m1 (obj + 8))
                 in m2(obj - 8 := DESC_forwarded, obj := new_obj)) s1
      in Inr (new_obj, s2))"

definition MinorGC_FwdSpecial :: "addr_t \<Rightarrow> word_t \<Rightarrow> rt \<Rightarrow> (word_t \<times> rt) res" where
  "MinorGC_FwdSpecial obj desc s0 =
     (let new_obj = a_nextw (get_arena 0 ARRAY_INDX s0);
          s = upd_arena 0 ARRAY_INDX (\<lambda>a. a\<lparr>a_nextw := new_obj + 16\<rparr>) s0;
          v = rt_mem s obj;
          finish = (\<lambda>s. Inr (new_obj + 8, upd_mem (\<lambda>m. m(obj - 8 := DESC_forwarded, obj := new_obj + 8)) s));
          put = (\<lambda>d w s. upd_mem (put_words new_obj [d, w]) s)
      in if GET_LEN desc = 0 \<or> GET_LEN desc = 1 then finish (put desc v s)
      else if GET_LEN desc = 2 then
        (if \<not> isBOXED v then finish (put DESC_weak v s)
         else rbind (ADDR_TO_PAGEID (rt_bibop s) v) (\<lambda>aid.
           if aid = AID_NEW then
             (if rt_mem s (v - 8) = DESC_forwarded then finish (put DESC_weak v s)
              else finish (upd_heap (\<lambda>h. h\<lparr>h_weakList := new_obj\<rparr>)
                     (put (MARK_PTR (h_weakList (rt_heap s))) (MARK_PTR v) s)))
           else finish (put DESC_weak v s)))
      else Inl (Die ''strange/unexpected special object''))"

definition MinorGC_ForwardObj :: "word_t \<Rightarrow> rt \<Rightarrow> (word_t \<times> rt) res" where
  "MinorGC_ForwardObj obj s =
     (let desc = rt_mem s (obj - 8); tag = GET_TAG desc in
      if tag = DTAG_record then
        (if GET_LEN desc = 2 then fwd_pair obj s else fwd_copy 0 RECORD_INDX (GET_LEN desc) desc obj s)
      else if tag = DTAG_vec_hdr \<or> tag = DTAG_arr_hdr then fwd_copy 0 MIXED_INDX 2 desc obj s
      else if tag = DTAG_arr_data then fwd_copy 0 ARRAY_INDX (GET_LEN desc) desc obj s
      else if tag = DTAG_mixed then fwd_copy 0 MIXED_INDX (MIXED_GET_LEN desc) desc obj s
      else if tag = DTAG_raw then fwd_copy 0 STRING_INDX (GET_LEN desc) desc obj s
      else if tag = DTAG_special then MinorGC_FwdSpecial obj desc s
      else if tag = DTAG_forward then Inr (FOLLOW_FWDOBJ obj (rt_mem s), s)
      else Inl (Die ''bad object tag''))"

definition in_alloc :: "heap \<Rightarrow> word_t \<Rightarrow> bool" where
  "in_alloc h w \<longleftrightarrow> isBOXED w \<and> w - h_allocBase h < h_allocSzB h"

definition MinorGC_CheckWord :: "addr_t \<Rightarrow> rt \<Rightarrow> rt res" where
  "MinorGC_CheckWord p s =
     (let w = rt_mem s p in
      if in_alloc (rt_heap s) w then
        rbind (MinorGC_ForwardObj w s) (\<lambda>(v, s). Inr (upd_mem (\<lambda>m. m(p := v)) s))
      else Inr s)"

section \<open>Sweeping\<close>

text \<open>The words from \<open>p\<close> up to \<open>q\<close>.\<close>

definition words_between :: "addr_t \<Rightarrow> addr_t \<Rightarrow> addr_t list" where
  "words_between p q = map (at_ix p) [0..<(unat q - unat p + 7) div 8]"

fun sweep_arena :: "nat \<Rightarrow> nat \<Rightarrow> addr_t \<Rightarrow> rt \<Rightarrow> rt res" where
  "sweep_arena 0 ix p s = Inl NoFuel"
| "sweep_arena (Suc fuel) ix p s =
     (let q = a_nextw (get_arena 0 ix s) in
      rbind (rfold MinorGC_CheckWord (words_between p q) s) (\<lambda>s.
        if q \<noteq> a_nextw (get_arena 0 ix s) then sweep_arena fuel ix q s
        else Inr (upd_arena 0 ix (\<lambda>a. a\<lparr>a_sweep_nextw := q\<rparr>) s)))"

definition MinorGC_SweepToSpArena :: "nat \<Rightarrow> nat \<Rightarrow> bool \<times> rt \<Rightarrow> (bool \<times> rt) res" where
  "MinorGC_SweepToSpArena fuel ix = (\<lambda>(swept, s).
     let ap = get_arena 0 ix s in
     if NEEDS_SWEEPING ap then rbind (sweep_arena fuel ix (a_sweep_nextw ap) s) (\<lambda>s. Inr (True, s))
     else Inr (swept, s))"

text \<open>The length of a mixed object and of its pointer part, by its descriptor.\<close>

definition mixed_lens :: "word_t \<Rightarrow> (word_t \<times> word_t) res" where
  "mixed_lens hdr =
     (let tag = GET_TAG hdr in
      if tag = DTAG_vec_hdr \<or> tag = DTAG_arr_hdr then Inr (2, 1)
      else if tag = DTAG_mixed then Inr (MIXED_GET_LEN hdr, MIXED_GET_PTRLEN hdr)
      else Inl (Die ''invalid header tag in mixed arena''))"

fun sweep_mixed :: "nat \<Rightarrow> addr_t \<Rightarrow> rt \<Rightarrow> rt res" where
  "sweep_mixed 0 p s = Inl NoFuel"
| "sweep_mixed (Suc fuel) p s =
     rbind (mixed_lens (rt_mem s p)) (\<lambda>(objLen, ptrLen).
     rbind (rfold MinorGC_CheckWord (map (at_ix (p + 8)) [0..<unat ptrLen]) s) (\<lambda>s.
     let p' = p + 8 + 8 * objLen in
     if p' < a_nextw (get_arena 0 MIXED_INDX s) then sweep_mixed fuel p' s
     else Inr (upd_arena 0 MIXED_INDX (\<lambda>a. a\<lparr>a_sweep_nextw := p'\<rparr>) s)))"

definition MinorGC_SweepMixed :: "nat \<Rightarrow> bool \<times> rt \<Rightarrow> (bool \<times> rt) res" where
  "MinorGC_SweepMixed fuel = (\<lambda>(swept, s).
     let ap = get_arena 0 MIXED_INDX s in
     if NEEDS_SWEEPING ap then rbind (sweep_mixed fuel (a_sweep_nextw ap) s) (\<lambda>s. Inr (True, s))
     else Inr (swept, s))"

text \<open>One round over the record, pair, array and mixed arenas; the rounds end when one finds nothing.\<close>

definition sweep_round :: "nat \<Rightarrow> rt \<Rightarrow> (bool \<times> rt) res" where
  "sweep_round fuel s =
     rbind (MinorGC_SweepToSpArena fuel RECORD_INDX (False, s)) (\<lambda>x.
     rbind (MinorGC_SweepToSpArena fuel PAIR_INDX x) (\<lambda>x.
     rbind (MinorGC_SweepToSpArena fuel ARRAY_INDX x)
       (MinorGC_SweepMixed fuel)))"

fun sweep_rounds :: "nat \<Rightarrow> nat \<Rightarrow> rt \<Rightarrow> rt res" where
  "sweep_rounds 0 fuel s = Inl NoFuel"
| "sweep_rounds (Suc n) fuel s =
     rbind (sweep_round fuel s) (\<lambda>(swept, s). if swept then sweep_rounds n fuel s else Inr s)"

definition MinorGC_SweepToSpace :: "nat \<Rightarrow> rt \<Rightarrow> rt res" where
  "MinorGC_SweepToSpace fuel = sweep_rounds fuel fuel"

section \<open>The store list\<close>

definition mark_dirty :: "nat \<Rightarrow> addr_t \<Rightarrow> nat \<Rightarrow> rt \<Rightarrow> rt res" where
  "mark_dirty srcGen addr dstGen s =
     (case g_dirty (get_gen (srcGen - 1) s) of
        None \<Rightarrow> Inl (Fault ''no card map'')
      | Some cm \<Rightarrow> rbind (MARK_CARD cm addr dstGen) (\<lambda>cm.
          Inr (upd_gen (srcGen - 1) (\<lambda>gn. gn\<lparr>g_dirty := Some cm\<rparr>) s)))"

text \<open>
  One entry. For a big object of a younger generation the code reads the region header from
  the region's first page, as \<open>GetObjGen\<close> does, which the model leaves undefined.
\<close>

definition scan_store :: "addr_t \<Rightarrow> rt \<Rightarrow> rt res" where
  "scan_store addr s =
     (let w = rt_mem s addr in
      if isBOXED w then
        rbind (ADDR_TO_PAGEID (rt_bibop s) addr) (\<lambda>srcId.
        if srcId \<noteq> AID_NEW \<and> srcId \<noteq> AID_UNMAPPED then
          rbind (ADDR_TO_PAGEID (rt_bibop s) w) (\<lambda>dstId.
          let srcGen = EXTRACT_GEN srcId; dstGen = EXTRACT_GEN dstId in
          if IS_BIGOBJ_AID dstId then
            (if srcGen \<le> dstGen then Inr s
             else rbind (find_hdr (INDEX_TO_PAGEID (rt_bibop s)) (BIBOP_ADDR_TO_INDEX w)) (\<lambda>_.
               Inl (Fault ''region header read from the region'')))
          else if dstGen = 0 then
            rbind (MinorGC_ForwardObj w s) (\<lambda>(v, s).
            let s1 = upd_mem (\<lambda>m. m(addr := v)) s in
            if 1 < srcGen then mark_dirty srcGen addr 1 s1 else Inr s1)
          else if dstGen < srcGen then mark_dirty srcGen addr dstGen s
          else Inr s)
        else Inr s)
      else Inr s)"

fun MinorGC_ScanStoreList :: "nat \<Rightarrow> word_t \<Rightarrow> rt \<Rightarrow> rt res" where
  "MinorGC_ScanStoreList 0 stl s = Inl NoFuel"
| "MinorGC_ScanStoreList (Suc fuel) stl s =
     (let addr = rt_mem s stl; tl = rt_mem s (stl + 8) in
      rbind (scan_store addr s) (\<lambda>s. if tl \<noteq> ML_unit then MinorGC_ScanStoreList fuel tl s else Inr s))"

section \<open>The collection\<close>

definition count_copied :: "(nat \<Rightarrow> addr_t) \<Rightarrow> nat \<Rightarrow> rt \<Rightarrow> rt" where
  "count_copied gen1Top i s =
     upd_heap (\<lambda>h. h\<lparr>h_numCopied := (h_numCopied h)(0 := (h_numCopied h 0)(i :=
       h_numCopied h 0 i + (a_nextw (get_arena 0 i s) - gen1Top i)))\<rparr>) s"

definition MinorGC :: "nat \<Rightarrow> addr_t list \<Rightarrow> rt \<Rightarrow> rt res" where
  "MinorGC fuel roots s0 =
     (let nb = ml_allocPtr s0 - h_allocBase (rt_heap s0);
          gen1Top = (\<lambda>i. a_nextw (get_arena 0 i s0));
          s = upd_heap (\<lambda>h. h\<lparr>h_numAlloc := h_numAlloc h + nb\<rparr>) s0
      in rbind (rfold MinorGC_CheckWord roots s) (\<lambda>s.
         rbind (if ml_storePtr s \<noteq> ML_unit then
                  rbind (MinorGC_ScanStoreList fuel (ml_storePtr s) s) (\<lambda>s. Inr (s\<lparr>ml_storePtr := ML_unit\<rparr>))
                else Inr s) (\<lambda>s.
         rbind (MinorGC_SweepToSpace fuel s) (\<lambda>s.
         let s = upd_heap (\<lambda>h. h\<lparr>h_numMinorGCs := h_numMinorGCs h + 1\<rparr>) s in
         rbind (if h_weakList (rt_heap s) \<noteq> 0 then ScanWeakPtrs fuel s else Inr s) (\<lambda>s.
         Inr (fold (count_copied gen1Top) [0..<NUM_ARENAS] s))))))"

end
