(* ===== verification/Flip.thy ===== *)
theory Flip
  imports GC_Util
begin

text \<open>
  \<open>Flip\<close> of \<open>gc/flip.c\<close>: which generations a major collection flips, and how large their
  new to-spaces are. \<open>prevOldSz\<close> and \<open>minSize\<close> are the two local arrays of the function;
  \<open>mmap\<close> is the operating system's answer as a function of the state of the address space.
\<close>

section \<open>Operations\<close>

text \<open>The space left in an arena, none when it is not active.\<close>

definition avail :: "arena \<Rightarrow> addr_t" where
  "avail ap = (if isACTIVE ap then AVAIL_SPACE ap else 0)"

text \<open>
  The size of the new to-space. \<open>thisMinSz / numGCs\<close> divides an \<open>Addr_t\<close> by an \<open>int\<close>, which
  is converted to \<open>Addr_t\<close>; division by zero is undefined.
\<close>

definition new_size :: "nat \<Rightarrow> int \<Rightarrow> int \<Rightarrow> addr_t \<Rightarrow> addr_t \<Rightarrow> addr_t \<Rightarrow> addr_t \<Rightarrow> (addr_t \<times> addr_t) res" where
  "new_size j ratio numGCs prevOld thisMinSz reqSizeB maxSizeB =
     (let minSz0 = prevOld + thisMinSz + reqSizeB;
          minSz = (if j = PAIR_INDX then minSz0 + 16 else minSz0)
      in if numGCs = 0 then Inl (Fault ''division by zero'')
      else let newSz = prevOld + reqSizeB + of_int ratio * (thisMinSz div of_int numGCs);
               newSz = (if newSz < minSz then minSz else newSz);
               newSz = (if maxSizeB < newSz then (if maxSizeB < minSz then minSz else maxSizeB) else newSz)
           in Inr (minSz, newSz))"

text \<open>One arena of a generation that is flipped: the inner loop.\<close>

definition flip_arena ::
  "nat \<Rightarrow> int \<Rightarrow> nat \<Rightarrow> (nat \<Rightarrow> addr_t) \<times> (nat \<Rightarrow> addr_t) \<times> rt \<Rightarrow> ((nat \<Rightarrow> addr_t) \<times> (nat \<Rightarrow> addr_t) \<times> rt) res" where
  "flip_arena g numGCs j = (\<lambda>(prevOld, minSize, s).
     let ap0 = get_arena g j s;
         ap = (if isACTIVE ap0 then FLIP_ARENA ap0 else ap0\<lparr>a_frspSizeB := 0\<rparr>);
         thisMinSz = (if isACTIVE ap0 then a_frspTop ap - a_oldTop ap else 0)
     in if \<not> isACTIVE ap0 \<and> a_reqSizeB ap = 0 \<and> prevOld j = 0 then
          Inr (prevOld, minSize(j := 0), upd_arena g j (\<lambda>_. ap) s)
        else rbind (new_size j (g_ratio (get_gen g s)) numGCs (prevOld j) thisMinSz (a_reqSizeB ap) (a_maxSizeB ap))
          (\<lambda>(minSz, newSz).
          let ap' = (if 0 < newSz then ap\<lparr>a_tospSizeB := RND_MEMOBJ_SZB newSz\<rparr>
                     else ap\<lparr>a_nextw := 0, a_sweep_nextw := 0, a_tospTop := 0, a_tospSizeB := 0\<rparr>);
              old = (if 0 < a_frspSizeB ap' then a_oldTop ap' - a_frspBase ap' else 0)
          in Inr (prevOld(j := old), minSize(j := minSz), upd_arena g j (\<lambda>_. ap') s)))"

text \<open>One generation; the result has the number of collections of this generation.\<close>

definition flip_gen ::
  "(mem_sys \<Rightarrow> addr_t \<Rightarrow> addr_t option) \<Rightarrow> nat \<Rightarrow> int \<Rightarrow> (nat \<Rightarrow> addr_t) \<Rightarrow> rt \<Rightarrow> (int \<times> (nat \<Rightarrow> addr_t) \<times> rt) res" where
  "flip_gen mmap g prevGC prevOld s =
     rbind (rfold (flip_arena g (prevGC - g_lastPrevGC (get_gen g s))) [0..<NUM_ARENAS] (prevOld, \<lambda>_. 0, s))
       (\<lambda>(prevOld, minSize, s).
       let s = upd_gen g (\<lambda>gn. gn\<lparr>g_lastPrevGC := prevGC, g_numGCs := g_numGCs gn + 1, g_fromObj := g_toObj gn\<rparr>) s in
       rbind (NewGeneration mmap g s) (\<lambda>(ok, s).
       rbind (if ok then Inr s
              else let s = fold (\<lambda>j. upd_arena g j (\<lambda>a. a\<lparr>a_tospSizeB := RND_MEMOBJ_SZB (minSize j)\<rparr>)) [0..<NUM_ARENAS] s in
                rbind (NewGeneration mmap g s) (\<lambda>(ok, s).
                if ok then Inr s else Inl (Die ''unable to allocate minimum size''))) (\<lambda>s.
       Inr (g_numGCs (get_gen g s), prevOld,
            if isACTIVE (get_arena g ARRAY_INDX s) then NewDirtyVector g s else s))))"

fun flip_gens ::
  "(mem_sys \<Rightarrow> addr_t \<Rightarrow> addr_t option) \<Rightarrow> nat \<Rightarrow> nat list \<Rightarrow> int \<Rightarrow> (nat \<Rightarrow> addr_t) \<Rightarrow> rt \<Rightarrow> (nat \<times> rt) res" where
  "flip_gens mmap min_gc_level [] prevGC prevOld s = Inr (h_numGens (rt_heap s), s)"
| "flip_gens mmap min_gc_level (i # is) prevGC prevOld s =
     (if min_gc_level \<le> i \<and> list_all (\<lambda>j. prevOld j \<le> avail (get_arena i j s)) [0..<NUM_ARENAS]
      then Inr (i, s)
      else rbind (flip_gen mmap i prevGC prevOld s) (\<lambda>(prevGC, prevOld, s).
           flip_gens mmap min_gc_level is prevGC prevOld s))"

definition Flip :: "(mem_sys \<Rightarrow> addr_t \<Rightarrow> addr_t option) \<Rightarrow> nat \<Rightarrow> rt \<Rightarrow> (nat \<times> rt) res" where
  "Flip mmap min_gc_level s =
     flip_gens mmap min_gc_level [0..<h_numGens (rt_heap s)] (h_numMinorGCs (rt_heap s))
       (\<lambda>_. h_allocSzB (rt_heap s)) s"

end
