(* ===== verification/Major_GC.thy ===== *)
theory Major_GC
  imports Minor_GC Flip "HOL-Library.Signed_Division"
begin

text \<open>
  Major collections, \<open>gc/major-gc.c\<close>: forwarding an object of a collected generation, the scan
  of roots and dirty cards, the sweep of the to-spaces, reclaiming from-space and big objects,
  relabelling big-object regions, and trimming the heap. An arena pointer is a pair of the
  position of a generation and the index of the arena. \<open>maxGen\<close> is the oldest generation
  being collected.
\<close>

section \<open>Forwarding\<close>

text \<open>The generation an object is copied to: older objects are promoted.\<close>

definition target_gen :: "nat \<Rightarrow> nat \<Rightarrow> addr_t \<Rightarrow> rt \<Rightarrow> nat" where
  "target_gen g j obj s =
     (let ap = get_arena g j s in if isOLDER ap obj then a_nextGen ap else g)"

text \<open>The result is the number of the object's descriptor.\<close>

definition MajorGC_ForwardBigObj :: "nat \<Rightarrow> addr_t \<Rightarrow> rt \<Rightarrow> (nat \<times> rt) res" where
  "MajorGC_ForwardBigObj maxGen obj s =
     rbind (BO_GetDesc obj s) (\<lambda>dp.
     rbind (get_desc dp s) (\<lambda>x.
     if bd_gen x \<le> maxGen \<and> BO_IS_FROM_SPACE x then
       Inr (dp, put_desc dp (x\<lparr>bd_state := (if bd_state x = BO_YOUNG then BO_FORWARD else BO_PROMOTE)\<rparr>) s)
     else Inr (dp, s)))"

text \<open>
  For a weak reference to a from-space object of a class that the inner switch does not list
  (a mixed object), nothing is written and the forward pointer is the address of the
  descriptor.
\<close>

definition MajorGC_FwdSpecial :: "aid_t \<Rightarrow> addr_t \<Rightarrow> aid_t \<Rightarrow> word_t \<Rightarrow> rt \<Rightarrow> (word_t \<times> rt) res" where
  "MajorGC_FwdSpecial maxAid obj aid desc s0 =
     (let g0 = EXTRACT_GEN aid - 1;
          g = target_gen g0 ARRAY_INDX obj s0;
          new_obj = a_nextw (get_arena g ARRAY_INDX s0);
          s = upd_arena g ARRAY_INDX (\<lambda>a. a\<lparr>a_nextw := new_obj + 16\<rparr>) s0;
          v = rt_mem s obj;
          finish = (\<lambda>p s. Inr (p, upd_mem (\<lambda>m. m(obj - 8 := DESC_forwarded, obj := p)) s));
          put = (\<lambda>d w s. finish (new_obj + 8) (upd_mem (put_words new_obj [d, w]) s));
          thread = (upd_heap (\<lambda>h. h\<lparr>h_weakList := new_obj\<rparr>)
                     (upd_mem (put_words new_obj [MARK_PTR (h_weakList (rt_heap s)), MARK_PTR v]) s))
      in if GET_LEN desc = 0 \<or> GET_LEN desc = 1 \<or> GET_LEN desc = 3 then put desc v s
      else if GET_LEN desc = 2 then
        (if \<not> isBOXED v then put DESC_weak v s
         else rbind (ADDR_TO_PAGEID (rt_bibop s) v) (\<lambda>vid.
           if IS_FROM_SPACE vid maxAid then
             (let objc = EXTRACT_OBJC vid in
              if objc \<in> {OBJC_record, OBJC_string, OBJC_array} then
                (if rt_mem s (v - 8) = DESC_forwarded then put DESC_weak v s else finish (new_obj + 8) thread)
              else if objc = OBJC_pair then
                (if isDESC (rt_mem s v) then put DESC_weak v s else finish (new_obj + 8) thread)
              else if objc = OBJC_bigobj then Inl (Die ''weak big object'')
              else finish new_obj s)
           else put DESC_weak v s))
      else Inl (Die ''strange/unexpected special object''))"

definition MajorGC_ForwardObj :: "aid_t \<Rightarrow> word_t \<Rightarrow> aid_t \<Rightarrow> rt \<Rightarrow> (word_t \<times> rt) res" where
  "MajorGC_ForwardObj maxAid obj aid s =
     (let objc = EXTRACT_OBJC aid; g = EXTRACT_GEN aid - 1; m = rt_mem s; desc = m (obj - 8); tag = GET_TAG desc;
          copy = (\<lambda>j len. fwd_copy (target_gen g j obj s) j len desc obj s);
          follow = Inr (FOLLOW_FWDOBJ obj m, s)
      in if objc = OBJC_record \<or> objc = OBJC_mixed then
           (if tag = DTAG_forward then follow
            else if tag = DTAG_record then copy (objc - 1) (GET_LEN desc)
            else if tag = DTAG_vec_hdr \<or> tag = DTAG_arr_hdr then copy (objc - 1) 2
            else if tag = DTAG_mixed then copy (objc - 1) (MIXED_GET_LEN desc)
            else Inl (Die ''bad record tag''))
         else if objc = OBJC_pair then
           (let w = m obj in
            if isDESC w then Inr (FOLLOW_FWDPAIR w, s)
            else let g' = target_gen g PAIR_INDX obj s;
                     new_obj = a_nextw (get_arena g' PAIR_INDX s)
                 in Inr (new_obj,
                      upd_mem (\<lambda>m. let m1 = m(new_obj := w); m2 = m1(new_obj + 8 := m1 (obj + 8))
                                    in m2(obj := MAKE_PAIR_FP new_obj))
                        (upd_arena g' PAIR_INDX (\<lambda>a. a\<lparr>a_nextw := new_obj + 16\<rparr>) s)))
         else if objc = OBJC_string then
           (if tag = DTAG_forward then follow
            else if tag = DTAG_raw then copy STRING_INDX (GET_LEN desc)
            else Inl (Die ''bad string tag''))
         else if objc = OBJC_array then
           (if tag = DTAG_forward then follow
            else if tag = DTAG_arr_data then copy ARRAY_INDX (GET_LEN desc)
            else if tag = DTAG_special then MajorGC_FwdSpecial maxAid obj aid desc s
            else Inl (Die ''bad array tag''))
         else if objc = OBJC_bigobj then
           rbind (MajorGC_ForwardBigObj (EXTRACT_GEN maxAid) obj s) (\<lambda>(_, s). Inr (obj, s))
         else Inl (Die ''unknown object class''))"

definition MajorGC_CheckWord :: "aid_t \<Rightarrow> addr_t \<Rightarrow> rt \<Rightarrow> rt res" where
  "MajorGC_CheckWord maxAid p s =
     (let w = rt_mem s p in
      if isBOXED w then
        rbind (ADDR_TO_PAGEID (rt_bibop s) w) (\<lambda>aid.
          if IS_FROM_SPACE aid maxAid then
            rbind (MajorGC_ForwardObj maxAid w aid s) (\<lambda>(v, s). Inr (upd_mem (\<lambda>m. m(p := v)) s))
          else Inr s)
      else Inr s)"

section \<open>Roots and dirty cards\<close>

text \<open>
  A word of an array card: as \<open>MajorGC_CheckWord\<close>, with the youngest generation referred to
  collected in \<open>mark\<close>. The loops of \<open>MajorGC_ScanRoots\<close> and \<open>MajorGC_SweepToSpArrays\<close>
  share it.
\<close>

definition card_word :: "nat \<Rightarrow> addr_t \<Rightarrow> nat \<times> rt \<Rightarrow> (nat \<times> rt) res" where
  "card_word maxGen p = (\<lambda>(mark, s).
     let w = rt_mem s p; maxAid = MAKE_MAX_AID maxGen in
     if isBOXED w then
       rbind (ADDR_TO_PAGEID (rt_bibop s) w) (\<lambda>aid.
         if IS_FROM_SPACE aid maxAid then
           rbind (if IS_BIGOBJ_AID aid then
                    rbind (MajorGC_ForwardBigObj maxGen w s) (\<lambda>(dp, s).
                    rbind (get_desc dp s) (\<lambda>x. Inr (bd_gen x, s)))
                  else
                    rbind (MajorGC_ForwardObj maxAid w aid s) (\<lambda>(v, s).
                    let s = upd_mem (\<lambda>m. m(p := v)) s in
                    rbind (ADDR_TO_PAGEID (rt_bibop s) v) (\<lambda>aid. Inr (EXTRACT_GEN aid, s)))) (\<lambda>(targetGen, s).
           Inr (min mark targetGen, s))
         else Inr (mark, s))
     else Inr (mark, s))"

text \<open>One card of generation position \<open>i\<close>; above the high-water mark nothing is swept.\<close>

definition scan_card :: "nat \<Rightarrow> nat \<Rightarrow> addr_t \<Rightarrow> nat \<Rightarrow> rt \<Rightarrow> rt res" where
  "scan_card maxGen i maxSweep cd s =
     (case g_dirty (get_gen i s) of
        None \<Rightarrow> Inl (Fault ''no card map'')
      | Some cm \<Rightarrow>
          if isDIRTY cm cd maxGen then
            (let p = cm_baseAddr cm + 256 * of_nat cd; q0 = p + 256;
                 q = (if maxSweep < q0 then maxSweep else q0)
             in rbind (rfold (card_word maxGen) (words_between p q) (i + 1, s)) (\<lambda>(mark, s).
                let put = (\<lambda>v. upd_gen i (\<lambda>gn. gn\<lparr>g_dirty := map_option (\<lambda>cm. cm\<lparr>cm_map := (cm_map cm)(cd := v)\<rparr>) (g_dirty gn)\<rparr>) s)
                in if mark \<le> i then Inr (put (of_nat mark))
                   else if i = maxGen then Inr (put CARD_CLEAN)
                   else Inr s))
          else Inr s)"

definition scan_gen_cards :: "nat \<Rightarrow> nat \<Rightarrow> rt \<Rightarrow> rt res" where
  "scan_gen_cards maxGen i s =
     (if isACTIVE (get_arena i ARRAY_INDX s) then
        (case g_dirty (get_gen i s) of
           None \<Rightarrow> Inr s
         | Some cm \<Rightarrow> rfold (scan_card maxGen i (a_sweep_nextw (get_arena i ARRAY_INDX s))) [0..<cm_numCards cm] s)
      else Inr s)"

definition MajorGC_ScanRoots :: "addr_t list \<Rightarrow> nat \<Rightarrow> rt \<Rightarrow> rt res" where
  "MajorGC_ScanRoots roots maxGen s =
     rbind (rfold (MajorGC_CheckWord (MAKE_MAX_AID maxGen)) roots s) (\<lambda>s.
     rfold (scan_gen_cards maxGen) [maxGen..<h_numGens (rt_heap s)] s)"

section \<open>Sweeping\<close>

fun major_sweep :: "nat \<Rightarrow> aid_t \<Rightarrow> nat \<Rightarrow> nat \<Rightarrow> addr_t \<Rightarrow> rt \<Rightarrow> rt res" where
  "major_sweep 0 maxAid g ix p s = Inl NoFuel"
| "major_sweep (Suc fuel) maxAid g ix p s =
     (let q = a_nextw (get_arena g ix s) in
      rbind (rfold (MajorGC_CheckWord maxAid) (words_between p q) s) (\<lambda>s.
        if q \<noteq> a_nextw (get_arena g ix s) then major_sweep fuel maxAid g ix q s
        else Inr (upd_arena g ix (\<lambda>a. a\<lparr>a_sweep_nextw := q\<rparr>) s)))"

definition SweepToSpArena :: "nat \<Rightarrow> aid_t \<Rightarrow> nat \<Rightarrow> nat \<Rightarrow> bool \<times> rt \<Rightarrow> (bool \<times> rt) res" where
  "SweepToSpArena fuel maxAid g ix = (\<lambda>(swept, s).
     let ap = get_arena g ix s in
     if isACTIVE ap \<and> a_sweep_nextw ap < a_nextw ap
     then rbind (major_sweep fuel maxAid g ix (a_sweep_nextw ap) s) (\<lambda>s. Inr (True, s))
     else Inr (swept, s))"

fun major_sweep_mixed :: "nat \<Rightarrow> aid_t \<Rightarrow> nat \<Rightarrow> addr_t \<Rightarrow> rt \<Rightarrow> rt res" where
  "major_sweep_mixed 0 maxAid g p s = Inl NoFuel"
| "major_sweep_mixed (Suc fuel) maxAid g p s =
     rbind (mixed_lens (rt_mem s p)) (\<lambda>(objLen, ptrLen).
     rbind (rfold (MajorGC_CheckWord maxAid) (map (at_ix (p + 8)) [0..<unat ptrLen]) s) (\<lambda>s.
     let p' = p + 8 + 8 * objLen in
     if p' < a_nextw (get_arena g MIXED_INDX s) then major_sweep_mixed fuel maxAid g p' s
     else Inr (upd_arena g MIXED_INDX (\<lambda>a. a\<lparr>a_sweep_nextw := p'\<rparr>) s)))"

text \<open>The mixed arena is swept without asking whether it is active.\<close>

definition SweepToSpMixed :: "nat \<Rightarrow> aid_t \<Rightarrow> nat \<Rightarrow> bool \<times> rt \<Rightarrow> (bool \<times> rt) res" where
  "SweepToSpMixed fuel maxAid g = (\<lambda>(swept, s).
     let ap = get_arena g MIXED_INDX s in
     if a_sweep_nextw ap < a_nextw ap
     then rbind (major_sweep_mixed fuel maxAid g (a_sweep_nextw ap) s) (\<lambda>s. Inr (True, s))
     else Inr (swept, s))"

text \<open>One array card at a time: \<open>thisGen\<close> is the number of the generation at position \<open>g\<close>.\<close>

definition CARD_mark :: "card_map \<Rightarrow> addr_t \<Rightarrow> nat res" where
  "CARD_mark cm addr = (let i = CARD_INDEX cm addr in
     if cm_numCards cm \<le> i then Inl (Fault ''card index out of range'') else Inr (unat (cm_map cm i)))"

fun sweep_cards :: "nat \<Rightarrow> nat \<Rightarrow> nat \<Rightarrow> addr_t \<Rightarrow> rt \<Rightarrow> rt res" where
  "sweep_cards fuel maxGen g p s =
     (let ap = get_arena g ARRAY_INDX s; thisGen = EXTRACT_GEN (a_id ap) in
      if \<not> p < a_nextw ap then Inr (upd_arena g ARRAY_INDX (\<lambda>a. a\<lparr>a_sweep_nextw := p\<rparr>) s)
      else case fuel of
        0 \<Rightarrow> Inl NoFuel
      | Suc fuel \<Rightarrow>
          (let stop0 = (p + 256) AND NOT 255;
               stop = (if a_nextw ap < stop0 then a_nextw ap else stop0)
           in case g_dirty (get_gen g s) of
                None \<Rightarrow> Inl (Fault ''no card map'')
              | Some cm \<Rightarrow>
                  rbind (CARD_mark cm p) (\<lambda>mark0.
                  rbind (rfold (card_word maxGen) (words_between p stop) (mark0, s)) (\<lambda>(mark, s).
                  rbind (if mark < thisGen then mark_dirty (g + 1) p mark s else Inr s) (\<lambda>s.
                  sweep_cards fuel maxGen g stop s)))))"

declare sweep_cards.simps [simp del]

definition MajorGC_SweepToSpArrays :: "nat \<Rightarrow> nat \<Rightarrow> nat \<Rightarrow> bool \<times> rt \<Rightarrow> (bool \<times> rt) res" where
  "MajorGC_SweepToSpArrays fuel maxGen g = (\<lambda>(swept, s).
     let ap = get_arena g ARRAY_INDX s in
     if isACTIVE ap \<and> a_sweep_nextw ap \<noteq> a_nextw ap
     then rbind (sweep_cards fuel maxGen g (a_sweep_nextw ap) s) (\<lambda>s. Inr (True, s))
     else Inr (swept, s))"

definition major_sweep_gen :: "nat \<Rightarrow> nat \<Rightarrow> nat \<Rightarrow> bool \<times> rt \<Rightarrow> (bool \<times> rt) res" where
  "major_sweep_gen fuel maxGen g x =
     (let maxAid = MAKE_MAX_AID maxGen in
      rbind (SweepToSpArena fuel maxAid g RECORD_INDX x) (\<lambda>x.
      rbind (SweepToSpArena fuel maxAid g PAIR_INDX x) (\<lambda>x.
      rbind (SweepToSpMixed fuel maxAid g x)
        (MajorGC_SweepToSpArrays fuel maxGen g))))"

fun major_sweep_rounds :: "nat \<Rightarrow> nat \<Rightarrow> nat \<Rightarrow> nat \<Rightarrow> rt \<Rightarrow> rt res" where
  "major_sweep_rounds 0 fuel maxGen maxSweptGen s = Inl NoFuel"
| "major_sweep_rounds (Suc n) fuel maxGen maxSweptGen s =
     rbind (rfold (major_sweep_gen fuel maxGen) [0..<maxSweptGen] (False, s)) (\<lambda>(swept, s).
     if swept then major_sweep_rounds n fuel maxGen maxSweptGen s else Inr s)"

definition MajorGC_SweepToSpace :: "nat \<Rightarrow> nat \<Rightarrow> nat \<Rightarrow> rt \<Rightarrow> rt res" where
  "MajorGC_SweepToSpace fuel = major_sweep_rounds fuel fuel"

section \<open>Reclaiming from-space\<close>

text \<open>
  The loop over the big objects of a generation: unmarked objects are freed, the others go to
  the list of their own generation or of the next one. \<open>gen\<close> of a descriptor is a byte.
\<close>

fun reclaim_bigobjs :: "nat \<Rightarrow> nat \<Rightarrow> nat \<Rightarrow> nat \<Rightarrow> nat \<times> nat \<Rightarrow> rt \<Rightarrow> ((nat \<times> nat) \<times> rt) res" where
  "reclaim_bigobjs fuel forwardState promoteState dp fp s =
     (if dp = 0 then Inr (fp, s)
      else case fuel of
        0 \<Rightarrow> Inl NoFuel
      | Suc fuel \<Rightarrow>
          rbind (get_desc dp s) (\<lambda>x.
          let (forward, promote) = fp in
          if bd_state x = BO_YOUNG \<or> bd_state x = BO_OLD then
            rbind (BO_Free dp s) (reclaim_bigobjs fuel forwardState promoteState (bd_next x) fp)
          else if bd_state x = BO_FORWARD then
            reclaim_bigobjs fuel forwardState promoteState (bd_next x) (dp, promote)
              (put_desc dp (x\<lparr>bd_state := forwardState, bd_next := forward\<rparr>) s)
          else if bd_state x = BO_PROMOTE then
            reclaim_bigobjs fuel forwardState promoteState (bd_next x) (forward, dp)
              (put_desc dp (x\<lparr>bd_state := promoteState, bd_next := promote, bd_gen := (bd_gen x + 1) mod 256\<rparr>) s)
          else Inl (Die ''strange bigobject state'')))"

declare reclaim_bigobjs.simps [simp del]

text \<open>Generation number \<open>i\<close>, at position \<open>i - 1\<close>.\<close>

definition reclaim_gen :: "nat \<Rightarrow> nat \<Rightarrow> nat \<Rightarrow> rt \<Rightarrow> rt res" where
  "reclaim_gen fuel maxGen i s =
     rbind (FreeGeneration (i - 1) s) (\<lambda>s.
     let n = h_numGens (rt_heap s);
         promoteGen = (if i \<noteq> n then i else i - 1);
         forwardState = (if i \<noteq> n then BO_OLD else BO_YOUNG);
         promoteState = (if i \<noteq> n \<and> \<not> (i = maxGen \<or> i = n - 1) then BO_OLD else BO_YOUNG)
     in rbind (reclaim_bigobjs fuel forwardState promoteState (g_bigObjs (get_gen (i - 1) s))
                 (0, g_bigObjs (get_gen promoteGen s)) s) (\<lambda>((forward, promote), s).
        Inr (upd_gen (i - 1) (\<lambda>gn. gn\<lparr>g_bigObjs := forward\<rparr>)
              (upd_gen promoteGen (\<lambda>gn. gn\<lparr>g_bigObjs := promote\<rparr>) s))))"

text \<open>The minimum generation of the objects of a region, and relabelling when it changed.\<close>

fun region_min :: "nat \<Rightarrow> bigobj_region \<Rightarrow> nat \<Rightarrow> nat \<Rightarrow> rt \<Rightarrow> nat res" where
  "region_min fuel r i mn s =
     (if \<not> i < br_nPages r then Inr mn
      else case fuel of
        0 \<Rightarrow> Inl NoFuel
      | Suc fuel \<Rightarrow>
          (if length (br_objMap r) \<le> i then Inl (Fault ''page index out of range'')
           else rbind (get_desc (br_objMap r ! i) s) (\<lambda>x.
             region_min fuel r (i + BO_NUM_BOPAGES x)
               (if \<not> BO_IS_FREE x \<and> bd_gen x < mn then bd_gen x else mn) s)))"

declare region_min.simps [simp del]

definition relabel_region :: "nat \<Rightarrow> nat \<Rightarrow> nat \<Rightarrow> rt \<Rightarrow> rt res" where
  "relabel_region fuel maxGen rp s =
     rbind (get_region rp s) (\<lambda>r.
       if br_minGen r \<le> maxGen then
         rbind (region_min fuel r 0 MAX_NUM_GENS s) (\<lambda>mn.
           if br_minGen r \<noteq> mn then
             rbind (upd_region rp (\<lambda>r. r\<lparr>br_minGen := mn\<rparr>) s) (\<lambda>s.
             let mObj = br_memObj r in
             rbind (put_bibop (MarkRegion (mo_base mObj) (mo_sizeB mObj) (AID_BIGOBJ mn)) s)
               (put_bibop (BIBOP_UPDATE (BIBOP_ADDR_TO_INDEX (mo_base mObj)) (AID_BIGOBJ_HDR mn))))
           else Inr s)
       else Inr s)"

fun relabel_regions :: "nat \<Rightarrow> nat \<Rightarrow> nat \<Rightarrow> rt \<Rightarrow> rt res" where
  "relabel_regions fuel maxGen rp s =
     (if rp = 0 then Inr s
      else case fuel of
        0 \<Rightarrow> Inl NoFuel
      | Suc fuel' \<Rightarrow>
          rbind (relabel_region fuel maxGen rp s) (\<lambda>s.
          rbind (get_region rp s) (\<lambda>r. relabel_regions fuel' maxGen (br_next r) s)))"

declare relabel_regions.simps [simp del]

section \<open>Bookkeeping\<close>

text \<open>The top of the older part of the collected generations.\<close>

definition set_oldTop :: "nat \<Rightarrow> rt \<Rightarrow> rt" where
  "set_oldTop i s =
     fold (\<lambda>j. upd_arena i j (\<lambda>a. a\<lparr>a_oldTop :=
         (if isACTIVE a then (if i = h_numGens (rt_heap s) - 1 then a_tospBase a else a_nextw a) else 0)\<rparr>))
       [0..<NUM_ARENAS] s"

definition add_copied :: "nat \<Rightarrow> nat \<Rightarrow> word_t \<Rightarrow> rt \<Rightarrow> rt" where
  "add_copied i j n = upd_heap (\<lambda>h. h\<lparr>h_numCopied := (h_numCopied h)(i := (h_numCopied h i)(j := h_numCopied h i j + n))\<rparr>)"

text \<open>
  For the oldest swept generation the count is a difference of pointers to words, so it counts
  words and not bytes; for the collected generations it counts bytes.
\<close>

definition count_swept :: "nat \<Rightarrow> (nat \<Rightarrow> addr_t) \<Rightarrow> rt \<Rightarrow> rt" where
  "count_swept i tospTop s =
     fold (\<lambda>j s. add_copied i j (of_int (sint (a_nextw (get_arena i j s) - tospTop j) sdiv 8)) s) [0..<NUM_ARENAS] s"

definition count_collected :: "nat \<Rightarrow> rt \<Rightarrow> rt" where
  "count_collected i s =
     fold (\<lambda>j s. let ap = get_arena i j s in
        if isACTIVE ap then add_copied i j (a_nextw ap - a_tospBase ap) s else s) [0..<NUM_ARENAS] s"

definition trim_arena :: "nat \<Rightarrow> nat \<Rightarrow> rt \<Rightarrow> rt" where
  "trim_arena i j s =
     (let ap = get_arena i j s in
      if isACTIVE ap \<and> a_maxSizeB ap < a_tospSizeB ap then
        (let minSzB = (if i = 0 then h_allocSzB (rt_heap s) else a_tospSizeB (get_arena (i - 1) j s))
                        + (USED_SPACE ap + a_reqSizeB ap);
             newSzB = (if minSzB < a_maxSizeB ap then a_maxSizeB ap
                       else min (RND_MEMOBJ_SZB minSzB) (a_tospSizeB ap))
         in upd_arena i j (\<lambda>a. a\<lparr>a_tospSizeB := newSzB, a_tospTop := a_tospBase a + newSzB\<rparr>) s)
      else s)"

definition TrimHeap :: "nat \<Rightarrow> rt \<Rightarrow> rt" where
  "TrimHeap maxCollectedGen s =
     fold (\<lambda>i. fold (trim_arena i) [0..<NUM_ARENAS]) [0..<maxCollectedGen] s"

section \<open>The collection\<close>

text \<open>
  \<open>MajorGC\<close> without its timers, which act on other state. The result has the oldest generation
  collected.
\<close>

definition MajorGC :: "(mem_sys \<Rightarrow> addr_t \<Rightarrow> addr_t option) \<Rightarrow> nat \<Rightarrow> bool \<Rightarrow> addr_t list \<Rightarrow> nat \<Rightarrow> rt \<Rightarrow> (nat \<times> rt) res" where
  "MajorGC mmap fuel UnlimitedHeap roots level s =
     rbind (Flip mmap level s) (\<lambda>(maxGen, s).
     let maxSweptGen = (if maxGen < h_numGens (rt_heap s) then maxGen + 1 else maxGen);
         tospTop = (\<lambda>j. a_nextw (get_arena (maxSweptGen - 1) j s))
     in rbind (MajorGC_ScanRoots roots maxGen s) (\<lambda>s.
        rbind (MajorGC_SweepToSpace fuel maxGen maxSweptGen s) (\<lambda>s.
        rbind (if h_weakList (rt_heap s) \<noteq> 0 then ScanWeakPtrs fuel s else Inr s) (\<lambda>s.
        rbind (rfold (reclaim_gen fuel maxGen) (rev [1..<maxGen + 1]) s) (\<lambda>s.
        rbind (relabel_regions fuel maxGen (h_bigRegions (rt_heap s)) s) (\<lambda>s.
        let s = fold set_oldTop [0..<maxGen] s;
            s = (if maxSweptGen \<noteq> maxGen then count_swept (maxSweptGen - 1) tospTop s else s);
            s = fold count_collected [0..<maxGen] s
        in Inr (maxGen, if UnlimitedHeap then s else TrimHeap maxGen s)))))))"

end
