(* ===== verification/Timers.thy ===== *)
theory Timers
  imports RT_Prelude "HOL-Library.Signed_Division"
begin

text \<open>
  CPU-time accounting: the latched clock of \<open>kernel/unix-timers.c\<close> and the garbage-collection
  timers of \<open>kernel/timers.c\<close>. \<open>getrusage\<close> is the operating system's: the times it reports
  are an argument of each call. Every result of the code's \<open>int\<close> arithmetic
  is checked against the range of \<open>int\<close>; outside it the operation is a \<open>Fault\<close>.
\<close>

record time_t =
  seconds :: int
  uSeconds :: int

definition micro :: "time_t \<Rightarrow> int" where
  "micro t = seconds t * 1000000 + uSeconds t"

definition time_norm :: "time_t \<Rightarrow> bool" where
  "time_norm t \<longleftrightarrow> 0 \<le> uSeconds t \<and> uSeconds t < 1000000"

section \<open>unix-timers.c\<close>

record latches =
  lastU :: time_t
  lastS :: time_t

definition InitTimers :: latches where
  "InitTimers = \<lparr>lastU = \<lparr>seconds = 0, uSeconds = 0\<rparr>, lastS = \<lparr>seconds = 0, uSeconds = 0\<rparr>\<rparr>"

text \<open>\<open>SET_TIME\<close> followed by the two comparisons with the latched value.\<close>

definition latch :: "time_t \<Rightarrow> time_t \<Rightarrow> time_t" where
  "latch prev raw =
     (let t = (if seconds raw < seconds prev then raw\<lparr>seconds := seconds prev\<rparr> else raw)
      in if seconds t = seconds prev \<and> uSeconds t < uSeconds prev
         then t\<lparr>uSeconds := uSeconds prev\<rparr> else t)"

text \<open>
  \<open>GetCPUTime\<close> with both pointers given, as the timers below call it: the user and the system
  time, and the new latches. \<open>ru_utime\<close> and \<open>ru_stime\<close> are what \<open>getrusage\<close> returned.
\<close>

definition GetCPUTime :: "time_t \<Rightarrow> time_t \<Rightarrow> latches \<Rightarrow> time_t \<times> time_t \<times> latches" where
  "GetCPUTime ru_utime ru_stime l =
     (let usrT = latch (lastU l) ru_utime;
          sysT = latch (lastS l) ru_stime
      in (usrT, sysT, l\<lparr>lastU := usrT, lastS := sysT\<rparr>))"

section \<open>timers.c\<close>

record gc_timers =
  vp_gcUsrTime0 :: time_t
  vp_gcSysTime0 :: time_t
  vp_gcUsrTime :: time_t
  vp_gcSysTime :: time_t

definition ResetTimers :: "gc_timers \<Rightarrow> gc_timers" where
  "ResetTimers v = v\<lparr>vp_gcUsrTime := \<lparr>seconds = 0, uSeconds = 0\<rparr>,
                     vp_gcSysTime := \<lparr>seconds = 0, uSeconds = 0\<rparr>\<rparr>"

definition StartGCTimer :: "time_t \<Rightarrow> time_t \<Rightarrow> gc_timers \<times> latches \<Rightarrow> gc_timers \<times> latches" where
  "StartGCTimer ru_u ru_s = (\<lambda>(v, l).
     let (u, s, l') = GetCPUTime ru_u ru_s l in (v\<lparr>vp_gcUsrTime0 := u, vp_gcSysTime0 := s\<rparr>, l'))"

text \<open>The carry code that \<open>StopGCTimer\<close> repeats for each difference and each sum.\<close>

definition carry :: "int \<Rightarrow> int \<Rightarrow> (int \<times> int) res" where
  "carry sec usec =
     (if usec < 0 then
        rbind (chk_int (sec - 1)) (\<lambda>s. rbind (chk_int (usec + 1000000)) (\<lambda>u. Inr (s, u)))
      else if usec > 1000000 then
        rbind (chk_int (sec + 1)) (\<lambda>s. rbind (chk_int (usec - 1000000)) (\<lambda>u. Inr (s, u)))
      else Inr (sec, usec))"

definition time_diff :: "time_t \<Rightarrow> time_t \<Rightarrow> (int \<times> int) res" where
  "time_diff t t0 =
     rbind (chk_int (seconds t - seconds t0)) (\<lambda>sec.
     rbind (chk_int (uSeconds t - uSeconds t0)) (\<lambda>usec. carry sec usec))"

definition time_accum :: "time_t \<Rightarrow> int \<times> int \<Rightarrow> time_t res" where
  "time_accum t d =
     rbind (chk_int (seconds t + fst d)) (\<lambda>sec.
     rbind (chk_int (uSeconds t + snd d)) (\<lambda>usec.
     rbind (carry sec usec) (\<lambda>(sec, usec). Inr \<lparr>seconds = sec, uSeconds = usec\<rparr>)))"

text \<open>What \<open>*time\<close> is set to, \<open>usec/1000 + sec*1000\<close>: an \<open>int\<close> although \<open>*time\<close> is a \<open>long\<close>.\<close>

definition time_ms :: "int \<times> int \<Rightarrow> int res" where
  "time_ms d = rbind (chk_int (fst d * 1000)) (\<lambda>ms. chk_int (snd d sdiv 1000 + ms))"

text \<open>
  \<open>want\<close> says that the argument \<open>time\<close> is not \<open>NIL\<close>; then the first component of the result is
  what \<open>*time\<close> is set to, the user time in milliseconds.
\<close>

definition StopGCTimer ::
  "bool \<Rightarrow> time_t \<Rightarrow> time_t \<Rightarrow> gc_timers \<times> latches \<Rightarrow> (int option \<times> gc_timers \<times> latches) res" where
  "StopGCTimer want ru_u ru_s = (\<lambda>(v, l).
     let (ut, st, l') = GetCPUTime ru_u ru_s l
     in rbind (time_diff ut (vp_gcUsrTime0 v)) (\<lambda>du.
        rbind (if want then rbind (time_ms du) (\<lambda>ms. Inr (Some ms)) else Inr None) (\<lambda>time.
        rbind (time_accum (vp_gcUsrTime v) du) (\<lambda>usr.
        rbind (time_diff st (vp_gcSysTime0 v)) (\<lambda>ds.
        rbind (time_accum (vp_gcSysTime v) ds) (\<lambda>sys.
        Inr (time, v\<lparr>vp_gcUsrTime := usr, vp_gcSysTime := sys\<rparr>, l')))))))"

section \<open>The clock interface\<close>

text \<open>The samples of successive calls, each made in the state the one before it leaves.\<close>

primrec samples :: "('r \<Rightarrow> 'c \<Rightarrow> 't) \<Rightarrow> ('r \<Rightarrow> 'c \<Rightarrow> 'c) \<Rightarrow> 'r list \<Rightarrow> 'c \<Rightarrow> 't list" where
  "samples sample tick [] c = []"
| "samples sample tick (r # rs) c = sample r c # samples sample tick rs (tick r c)"

text \<open>
  What the timers rely on: a sampling function over a clock state whose samples are
  normalised and never run backwards.
\<close>

locale clock =
  fixes sample :: "'r \<Rightarrow> 'c \<Rightarrow> time_t"
    and tick :: "'r \<Rightarrow> 'c \<Rightarrow> 'c"
    and now :: "'c \<Rightarrow> time_t"
    and ok :: "'r \<Rightarrow> bool"
    and invar :: "'c \<Rightarrow> bool"
  assumes now_tick: "invar c \<Longrightarrow> ok r \<Longrightarrow> now (tick r c) = sample r c"
    and sample_mono: "invar c \<Longrightarrow> ok r \<Longrightarrow> micro (now c) \<le> micro (sample r c)"
    and sample_norm: "invar c \<Longrightarrow> ok r \<Longrightarrow> time_norm (sample r c)"
    and invar_tick: "invar c \<Longrightarrow> ok r \<Longrightarrow> invar (tick r c)"
begin

lemma samples_sorted:
  "invar c \<Longrightarrow> \<forall>r \<in> set rs. ok r \<Longrightarrow> sorted (map micro (now c # samples sample tick rs c))"
proof (induction rs arbitrary: c)
  case (Cons r rs)
  then have "sorted (map micro (now (tick r c) # samples sample tick rs (tick r c)))"
    by (simp add: invar_tick)
  then have "sorted (map micro (sample r c # samples sample tick rs (tick r c)))"
    using Cons.prems by (simp add: now_tick)
  moreover have "micro (now c) \<le> micro (sample r c)" using Cons.prems by (simp add: sample_mono)
  ultimately show ?case by auto
qed simp

end

lemma latch_norm: "time_norm prev \<Longrightarrow> time_norm raw \<Longrightarrow> time_norm (latch prev raw)"
  by (auto simp: latch_def time_norm_def Let_def)

lemma latch_mono:
  assumes "time_norm prev" "time_norm raw"
  shows "micro prev \<le> micro (latch prev raw)"
proof (cases "seconds raw \<le> seconds prev")
  case True
  then show ?thesis using assms by (auto simp: latch_def micro_def time_norm_def Let_def)
next
  case False
  then have "(seconds prev + 1) * 1000000 \<le> seconds raw * 1000000" by simp
  with False assms show ?thesis by (simp add: latch_def micro_def time_norm_def)
qed

text \<open>Each of the two latched clocks of \<open>GetCPUTime\<close> meets the interface.\<close>

interpretation usr: clock
  "\<lambda>(u, s) l. fst (GetCPUTime u s l)" "\<lambda>(u, s) l. snd (snd (GetCPUTime u s l))" lastU
  "\<lambda>(u, s). time_norm u" "\<lambda>l. time_norm (lastU l)"
  by unfold_locales (auto simp: GetCPUTime_def Let_def latch_norm latch_mono)

interpretation sys: clock
  "\<lambda>(u, s) l. fst (snd (GetCPUTime u s l))" "\<lambda>(u, s) l. snd (snd (GetCPUTime u s l))" lastS
  "\<lambda>(u, s). time_norm s" "\<lambda>l. time_norm (lastS l)"
  by unfold_locales (auto simp: GetCPUTime_def Let_def latch_norm latch_mono)

section \<open>Properties\<close>




lemma micro_split:
  fixes s u :: int
  assumes "0 \<le> u" "u < 1000000"
  shows "(s * 1000000 + u) div 1000000 = s" "(s * 1000000 + u) mod 1000000 = u"
  using assms by simp_all


lemma micro_less_max:
  fixes s u :: int
  assumes "s * 1000000 + u < 2147483648000000" "0 \<le> u"
  shows "s \<le> INT_MAX" "1000000 \<le> u \<Longrightarrow> s + 1 \<le> INT_MAX"
proof -
  have less: "x \<le> INT_MAX" if "x * 1000000 < 2147483648 * 1000000" for x :: int
    using that by (subst (asm) mult_less_cancel_right) simp
  have "s * 1000000 < 2147483648 * 1000000" using assms by simp
  then show "s \<le> INT_MAX" by (rule less)
  show "s + 1 \<le> INT_MAX" if "1000000 \<le> u"
  proof (rule less)
    show "(s + 1) * 1000000 < 2147483648 * 1000000" using assms that by simp
  qed
qed

lemma micro_ms:
  fixes s u :: int
  shows "(s * 1000000 + u) div 1000 = u div 1000 + s * 1000"
proof -
  have "s * 1000000 + u = u + s * 1000 * 1000" by simp
  then show ?thesis by (metis div_mult_self1 zero_neq_numeral add.commute)
qed





subsection \<open>The timers of the collector\<close>

text \<open>A time that fits its two \<open>Int32_t\<close> fields; a cumulative time may hold one million
  microseconds.\<close>

definition time_ok :: "time_t \<Rightarrow> bool" where
  "time_ok t \<longleftrightarrow> time_norm t \<and> 0 \<le> seconds t \<and> seconds t \<le> INT_MAX"

definition accum_ok :: "time_t \<Rightarrow> bool" where
  "accum_ok t \<longleftrightarrow> 0 \<le> seconds t \<and> seconds t \<le> INT_MAX \<and> 0 \<le> uSeconds t \<and> uSeconds t \<le> 1000000"

lemma latch_ok: "time_ok prev \<Longrightarrow> time_ok raw \<Longrightarrow> time_ok (latch prev raw)"
  by (auto simp: time_ok_def time_norm_def latch_def Let_def)

lemma time_diff_ok:
  assumes "time_ok t" "time_ok t0" "micro t0 \<le> micro t"
  shows "time_diff t t0 = Inr ((micro t - micro t0) div 1000000, (micro t - micro t0) mod 1000000)"
proof -
  let ?s = "seconds t - seconds t0" and ?u = "uSeconds t - uSeconds t0"
  have m: "micro t - micro t0 = ?s * 1000000 + ?u" by (simp add: micro_def)
  have b: "- 1000000 < ?u" "?u < 1000000" "?s \<le> INT_MAX" "- INT_MAX \<le> ?s"
    using assms by (auto simp: time_ok_def time_norm_def)
  show ?thesis
  proof (cases "?u < 0")
    case True
    have eq: "?s * 1000000 + ?u = (?s - 1) * 1000000 + (?u + 1000000)" by simp
    have "micro t - micro t0 = (?s - 1) * 1000000 + (?u + 1000000)" using m eq by simp
    then have dm: "(micro t - micro t0) div 1000000 = ?s - 1" "(micro t - micro t0) mod 1000000 = ?u + 1000000"
      using micro_split [of "?u + 1000000" "?s - 1"] True b by simp_all
    from True b show ?thesis unfolding dm by (simp add: time_diff_def carry_def chk_int_def in_int_def)
  next
    case False
    then have dm: "(micro t - micro t0) div 1000000 = ?s" "(micro t - micro t0) mod 1000000 = ?u"
      using micro_split [of ?u ?s] b unfolding m by simp_all
    from False b show ?thesis unfolding dm by (simp add: time_diff_def carry_def chk_int_def in_int_def)
  qed
qed

lemma time_accum_ok:
  assumes "accum_ok t" "0 \<le> d" "micro t + d < 2147483648 * 1000000"
  shows "\<exists>t'. time_accum t (d div 1000000, d mod 1000000) = Inr t' \<and> accum_ok t' \<and> micro t' = micro t + d
    \<and> (uSeconds t' = 1000000 \<longleftrightarrow> uSeconds t + d mod 1000000 = 1000000)"
proof -
  define s u where "s = d div 1000000" and "u = d mod 1000000"
  have d: "d = s * 1000000 + u" "0 \<le> u" "u < 1000000" "0 \<le> s"
    using assms(2) by (simp_all add: s_def u_def)
  have t: "0 \<le> seconds t" "0 \<le> uSeconds t" "uSeconds t \<le> 1000000"
    using assms(1) by (auto simp: accum_ok_def)
  have b: "(seconds t + s) * 1000000 + (uSeconds t + u) < 2147483648000000"
    using assms(3) by (simp add: d(1) micro_def)
  have b1: "seconds t + s \<le> INT_MAX" using micro_less_max(1) [OF b] t d by simp
  show ?thesis
  proof (cases "uSeconds t + u > 1000000")
    case True
    then have "seconds t + s + 1 \<le> INT_MAX" using micro_less_max(2) [OF b] t d by simp
    with True t d b1 show ?thesis unfolding s_def [symmetric] u_def [symmetric]
      by (simp add: time_accum_def carry_def chk_int_def in_int_def accum_ok_def micro_def)
  next
    case False
    with t d b1 show ?thesis unfolding s_def [symmetric] u_def [symmetric]
      by (simp add: time_accum_def carry_def chk_int_def in_int_def accum_ok_def micro_def)
  qed
qed

lemma time_ms_value:
  assumes "0 \<le> d"
  shows "time_ms (d div 1000000, d mod 1000000) =
    (if d div 1000 \<le> INT_MAX then Inr (d div 1000) else Inl (Fault ''signed overflow''))"
proof -
  define s u where "s = d div 1000000" and "u = d mod 1000000"
  have d: "d = s * 1000000 + u" "0 \<le> u" "u < 1000000" "0 \<le> s"
    using assms by (simp_all add: s_def u_def)
  have "d div 1000 = u div 1000 + s * 1000" unfolding d(1) by (rule micro_ms)
  moreover have "u sdiv 1000 = u div 1000" using d by (simp add: signed_divide_int_def sgn_if)
  moreover have "0 \<le> u div 1000" using d by simp
  ultimately show ?thesis unfolding s_def [symmetric] u_def [symmetric] using d
    by (auto simp: time_ms_def chk_int_def in_int_def)
qed

text \<open>C20. Bracketing a collection with \<open>StartGCTimer\<close> and \<open>StopGCTimer\<close>: the elapsed user and
  system times are never negative, because the clock is latched. As long as the cumulative times
  stay below \<open>2^31\<close> seconds and the milliseconds, when they are asked for, fit an \<open>int\<close>, exactly the
  elapsed times are added, and the reported number of milliseconds is the elapsed user time. The
  microsecond fields stay between 0 and 1000000, and hold 1000000 exactly when the microseconds add
  up to it, since the code's comparison is strict. Elapsed milliseconds above \<open>INT_MAX\<close>, about 24
  days, that are asked for overflow.\<close>

theorem gc_timer_accounting:
  assumes reports: "time_ok ru" "time_ok rs" "time_ok ru'" "time_ok rs'"
    and latches: "time_ok (lastU l)" "time_ok (lastS l)"
    and accums: "accum_ok (vp_gcUsrTime v)" "accum_ok (vp_gcSysTime v)"
    and start: "StartGCTimer ru rs (v, l) = (v1, l1)"
    and again: "GetCPUTime ru' rs' l1 = (tu, ts, l2)"
    and du: "du = micro tu - micro (lastU l1)" and ds: "ds = micro ts - micro (lastS l1)"
  shows "micro (lastU l) \<le> micro (lastU l1) \<and> micro (lastS l) \<le> micro (lastS l1) \<and> 0 \<le> du \<and> 0 \<le> ds
    \<and> ((want \<longrightarrow> du div 1000 \<le> INT_MAX)
       \<and> micro (vp_gcUsrTime v) + du < 2147483648 * 1000000
       \<and> micro (vp_gcSysTime v) + ds < 2147483648 * 1000000 \<longrightarrow>
       (\<exists>v2. StopGCTimer want ru' rs' (v1, l1) =
               Inr (if want then Some (du div 1000) else None, v2, l2)
           \<and> micro (vp_gcUsrTime v2) = micro (vp_gcUsrTime v) + du
           \<and> micro (vp_gcSysTime v2) = micro (vp_gcSysTime v) + ds
           \<and> accum_ok (vp_gcUsrTime v2) \<and> accum_ok (vp_gcSysTime v2)
           \<and> (uSeconds (vp_gcUsrTime v2) = 1000000 \<longleftrightarrow>
                uSeconds (vp_gcUsrTime v) + du mod 1000000 = 1000000)
           \<and> (uSeconds (vp_gcSysTime v2) = 1000000 \<longleftrightarrow>
                uSeconds (vp_gcSysTime v) + ds mod 1000000 = 1000000)))
    \<and> (want \<and> INT_MAX < du div 1000 \<longrightarrow>
         StopGCTimer want ru' rs' (v1, l1) = Inl (Fault ''signed overflow''))"
proof -
  from start have v1: "vp_gcUsrTime0 v1 = lastU l1" "vp_gcSysTime0 v1 = lastS l1"
      "vp_gcUsrTime v1 = vp_gcUsrTime v" "vp_gcSysTime v1 = vp_gcSysTime v"
    and l1: "lastU l1 = latch (lastU l) ru" "lastS l1 = latch (lastS l) rs"
    by (auto simp: StartGCTimer_def GetCPUTime_def Let_def)
  from again have t2: "tu = latch (lastU l1) ru'" "ts = latch (lastS l1) rs'"
    by (auto simp: GetCPUTime_def Let_def)
  have ok: "time_ok (lastU l1)" "time_ok (lastS l1)" "time_ok tu" "time_ok ts"
    using reports latches by (simp_all add: l1 t2 latch_ok)
  have mono: "micro (lastU l) \<le> micro (lastU l1)" "micro (lastS l) \<le> micro (lastS l1)" "0 \<le> du" "0 \<le> ds"
    using reports latches ok unfolding du ds t2 by (auto simp: l1 time_ok_def intro!: latch_mono)
  have diffs: "time_diff tu (lastU l1) = Inr (du div 1000000, du mod 1000000)"
      "time_diff ts (lastS l1) = Inr (ds div 1000000, ds mod 1000000)"
    using mono ok by (simp_all add: du ds time_diff_ok)
  note stop = StopGCTimer_def again v1 diffs time_ms_value [OF mono(3)]
  have "\<exists>v2. StopGCTimer want ru' rs' (v1, l1) = Inr (if want then Some (du div 1000) else None, v2, l2)
           \<and> micro (vp_gcUsrTime v2) = micro (vp_gcUsrTime v) + du
           \<and> micro (vp_gcSysTime v2) = micro (vp_gcSysTime v) + ds
           \<and> accum_ok (vp_gcUsrTime v2) \<and> accum_ok (vp_gcSysTime v2)
           \<and> (uSeconds (vp_gcUsrTime v2) = 1000000 \<longleftrightarrow>
                uSeconds (vp_gcUsrTime v) + du mod 1000000 = 1000000)
           \<and> (uSeconds (vp_gcSysTime v2) = 1000000 \<longleftrightarrow>
                uSeconds (vp_gcSysTime v) + ds mod 1000000 = 1000000)"
    if "want \<longrightarrow> du div 1000 \<le> INT_MAX"
      and u: "micro (vp_gcUsrTime v) + du < 2147483648 * 1000000"
      and s: "micro (vp_gcSysTime v) + ds < 2147483648 * 1000000"
  proof -
    obtain tu' ts' where "time_accum (vp_gcUsrTime v) (du div 1000000, du mod 1000000) = Inr tu'"
        "accum_ok tu'" "micro tu' = micro (vp_gcUsrTime v) + du"
        "uSeconds tu' = 1000000 \<longleftrightarrow> uSeconds (vp_gcUsrTime v) + du mod 1000000 = 1000000"
      and "time_accum (vp_gcSysTime v) (ds div 1000000, ds mod 1000000) = Inr ts'"
        "accum_ok ts'" "micro ts' = micro (vp_gcSysTime v) + ds"
        "uSeconds ts' = 1000000 \<longleftrightarrow> uSeconds (vp_gcSysTime v) + ds mod 1000000 = 1000000"
      using time_accum_ok [OF accums(1) mono(3) u] time_accum_ok [OF accums(2) mono(4) s] by blast
    with that(1) show ?thesis by (cases want) (simp_all add: stop)
  qed
  moreover have "StopGCTimer want ru' rs' (v1, l1) = Inl (Fault ''signed overflow'')"
    if "want" "INT_MAX < du div 1000" using that by (simp add: stop)
  ultimately show ?thesis using mono by blast
qed

theorem gc_timer_accounting_witness:
  "let t = (\<lambda>s u. \<lparr>seconds = s, uSeconds = u\<rparr>);
       v = \<lparr>vp_gcUsrTime0 = t 0 0, vp_gcSysTime0 = t 0 0, vp_gcUsrTime = t 1 700000, vp_gcSysTime = t 0 0\<rparr>;
       (v1, l1) = StartGCTimer (t 5 900000) (t 2 0) (v, InitTimers)
   in (\<exists>v2 l2. StopGCTimer True (t 7 100000) (t 1 0) (v1, l1) = Inr (Some 1200, v2, l2)
         \<and> micro (vp_gcUsrTime v2) = 2900000 \<and> micro (vp_gcSysTime v2) = 0)
    \<and> StopGCTimer True (t 2147490 0) (t 1 0) (v1, l1) = Inl (Fault ''signed overflow'')"
proof -
  let ?t = "\<lambda>s u. \<lparr>seconds = s, uSeconds = u\<rparr> :: time_t"
  let ?v = "\<lparr>vp_gcUsrTime0 = ?t 0 0, vp_gcSysTime0 = ?t 0 0, vp_gcUsrTime = ?t 1 700000, vp_gcSysTime = ?t 0 0\<rparr>"
  let ?l1 = "\<lparr>lastU = ?t 5 900000, lastS = ?t 2 0\<rparr>"
  let ?v1 = "?v\<lparr>vp_gcUsrTime0 := ?t 5 900000, vp_gcSysTime0 := ?t 2 0\<rparr>"
  have 1: "StartGCTimer (?t 5 900000) (?t 2 0) (?v, InitTimers) = (?v1, ?l1)"
    by (simp add: StartGCTimer_def GetCPUTime_def latch_def InitTimers_def Let_def)
  have 2: "GetCPUTime (?t 7 100000) (?t 1 0) ?l1 = (?t 7 100000, ?t 2 0, \<lparr>lastU = ?t 7 100000, lastS = ?t 2 0\<rparr>)"
   and 3: "GetCPUTime (?t 2147490 0) (?t 1 0) ?l1 = (?t 2147490 0, ?t 2 0, \<lparr>lastU = ?t 2147490 0, lastS = ?t 2 0\<rparr>)"
    by (simp_all add: GetCPUTime_def latch_def Let_def)
  have "\<exists>v2 l2. StopGCTimer True (?t 7 100000) (?t 1 0) (?v1, ?l1) = Inr (Some 1200, v2, l2)
         \<and> micro (vp_gcUsrTime v2) = 2900000 \<and> micro (vp_gcSysTime v2) = 0"
    using gc_timer_accounting [OF _ _ _ _ _ _ _ _ 1 2 refl refl, of True]
    by (simp add: time_ok_def accum_ok_def time_norm_def InitTimers_def micro_def) blast
  moreover have "StopGCTimer True (?t 2147490 0) (?t 1 0) (?v1, ?l1) = Inl (Fault ''signed overflow'')"
    using gc_timer_accounting [OF _ _ _ _ _ _ _ _ 1 3 refl refl, of True]
    by (simp add: time_ok_def accum_ok_def time_norm_def InitTimers_def micro_def)
  ultimately show ?thesis by (simp only: Let_def 1 prod.case simp_thms)
qed

end
