(* ===== verification/Signals.thy ===== *)
theory Signals
  imports Timers
begin

text \<open>
  Signals: the state of the virtual processor (\<open>include/vproc-state.h\<close>), recording a signal
  (\<open>CSigHandler\<close> of \<open>mach-dep/unix-signal.c\<close>, \<open>GCSignal\<close> of \<open>mach-dep/signal-util.c\<close>) and
  choosing the next one to handle (\<open>ChooseSignal\<close>). The signal numbers come from the generated
  header \<open>system-signals.h\<close>; they are the parameter \<open>sigconf\<close>.
\<close>

section \<open>State\<close>

record sigconf =
  MIN_SYSTEM_SIG :: nat
  MAX_SYSTEM_SIG :: nat
  RUNSIG_GC :: nat
  SIGMAP_SZ :: nat

text \<open>What \<open>config/gen-unix-signals.c\<close> makes of the signals of the system.\<close>

definition sigconf_ok :: "sigconf \<Rightarrow> bool" where
  "sigconf_ok c \<longleftrightarrow> MIN_SYSTEM_SIG c \<le> MAX_SYSTEM_SIG c
     \<and> RUNSIG_GC c = MAX_SYSTEM_SIG c + 1 \<and> SIGMAP_SZ c = MAX_SYSTEM_SIG c + 2"

record sig_count =
  nReceived :: word_t
  nHandled :: word_t

abbreviation (input) ML_SIG_IGNORE :: int where "ML_SIG_IGNORE \<equiv> 0"
abbreviation (input) ML_SIG_DEFAULT :: int where "ML_SIG_DEFAULT \<equiv> 1"
abbreviation (input) ML_SIG_ENABLED :: int where "ML_SIG_ENABLED \<equiv> 2"

record vproc =
  vp_inMLFlag :: bool
  vp_handlerPending :: bool
  vp_inSigHandler :: bool
  vp_totalSigCount :: sig_count
  vp_sigCounts :: "nat \<Rightarrow> sig_count"
  vp_sigCode :: nat
  vp_sigCount :: int
  vp_nextPendingSig :: nat
  vp_gcSigState :: int
  vp_gcSigThreshold :: int
  vp_timers :: gc_timers
  vp_limitPtrMask :: addr_t

section \<open>Operations\<close>

text \<open>\<open>sigCounts[sig].nReceived++; totalSigCount.nReceived++\<close>\<close>

definition receive :: "nat \<Rightarrow> vproc \<Rightarrow> vproc" where
  "receive sig v = v\<lparr>
     vp_sigCounts := (vp_sigCounts v)(sig := (vp_sigCounts v sig)\<lparr>nReceived := nReceived (vp_sigCounts v sig) + 1\<rparr>),
     vp_totalSigCount := (vp_totalSigCount v)\<lparr>nReceived := nReceived (vp_totalSigCount v) + 1\<rparr>\<rparr>"

text \<open>
  The handler also zeroes the limit pointer of the interrupted ML code, so that ML enters the
  run-time system at its next heap check; the result says whether it does.
\<close>

definition CSigHandler :: "nat \<Rightarrow> vproc \<Rightarrow> vproc \<times> bool" where
  "CSigHandler sig v0 =
     (let v = (receive sig v0)\<lparr>vp_limitPtrMask := 0\<rparr> in
      if vp_inMLFlag v \<and> \<not> vp_handlerPending v \<and> \<not> vp_inSigHandler v
      then (v\<lparr>vp_handlerPending := True\<rparr>, True) else (v, False))"

definition GCSignal :: "sigconf \<Rightarrow> int \<Rightarrow> vproc \<Rightarrow> vproc" where
  "GCSignal c nGen v =
     (if vp_gcSigState v \<noteq> ML_SIG_ENABLED \<or> nGen < vp_gcSigThreshold v then v
      else if vp_inSigHandler v \<and> vp_sigCode v = RUNSIG_GC c then v
      else let v = receive (RUNSIG_GC c) v in
        if vp_inMLFlag v \<and> \<not> vp_handlerPending v \<and> \<not> vp_inSigHandler v
        then v\<lparr>vp_handlerPending := True\<rparr> else v)"

text \<open>The number of signals received and not handled; \<open>delta\<close> is an \<open>int\<close>.\<close>

definition sig_delta :: "sig_count \<Rightarrow> int" where
  "sig_delta sc = sint (ucast (nReceived sc - nHandled sc) :: u32)"

definition next_sig :: "sigconf \<Rightarrow> nat \<Rightarrow> nat" where
  "next_sig c i = (if i + 1 = SIGMAP_SZ c then MIN_SYSTEM_SIG c else i + 1)"

text \<open>The search, with fuel, and \<open>ChooseSignal\<close>; an index past the table is undefined.\<close>

fun search_sig :: "nat \<Rightarrow> sigconf \<Rightarrow> nat \<Rightarrow> vproc \<Rightarrow> (nat \<times> int) res" where
  "search_sig 0 c i v = Inl NoFuel"
| "search_sig (Suc fuel) c i v =
     (let i = next_sig c i in
      if SIGMAP_SZ c \<le> i then Inl (Fault ''signal number out of range'')
      else let delta = sig_delta (vp_sigCounts v i) in
        if delta = 0 then search_sig fuel c i v else Inr (i, delta))"

definition ChooseSignal :: "nat \<Rightarrow> sigconf \<Rightarrow> vproc \<Rightarrow> vproc res" where
  "ChooseSignal fuel c v =
     rbind (search_sig fuel c (vp_nextPendingSig v) v) (\<lambda>(i, delta).
     Inr (v\<lparr>vp_nextPendingSig := i, vp_sigCode := i, vp_sigCount := delta,
       vp_sigCounts := (vp_sigCounts v)(i := (vp_sigCounts v i)\<lparr>nHandled := nHandled (vp_sigCounts v i) + of_int delta\<rparr>),
       vp_totalSigCount := (vp_totalSigCount v)\<lparr>nHandled := nHandled (vp_totalSigCount v) + of_int delta\<rparr>\<rparr>))"

text \<open>
  The disposition of the system's signals is the operating system's state: \<open>handlers\<close> maps a
  signal to \<open>ML_SIG_IGNORE\<close>, \<open>ML_SIG_DEFAULT\<close> or \<open>ML_SIG_ENABLED\<close>.
\<close>

definition IS_SYSTEM_SIG :: "sigconf \<Rightarrow> int \<Rightarrow> bool" where
  "IS_SYSTEM_SIG c s \<longleftrightarrow> s \<le> int (MAX_SYSTEM_SIG c)"

definition SetSignalState :: "sigconf \<Rightarrow> int \<Rightarrow> int \<Rightarrow> vproc \<times> (int \<Rightarrow> int) \<Rightarrow> (vproc \<times> (int \<Rightarrow> int)) res" where
  "SetSignalState c sigNum sigState = (\<lambda>(v, handlers).
     if sigNum = int (RUNSIG_GC c) then Inr (v\<lparr>vp_gcSigState := sigState\<rparr>, handlers)
     else if IS_SYSTEM_SIG c sigNum then
       (if sigState \<in> {ML_SIG_IGNORE, ML_SIG_DEFAULT, ML_SIG_ENABLED} then Inr (v, handlers(sigNum := sigState))
        else Inl (Die ''bogus signal state''))
     else Inl (Die ''SetSignalState: unknown signal''))"

definition GetSignalState :: "sigconf \<Rightarrow> int \<Rightarrow> vproc \<times> (int \<Rightarrow> int) \<Rightarrow> int res" where
  "GetSignalState c sigNum = (\<lambda>(v, handlers).
     if sigNum = int (RUNSIG_GC c) then Inr (vp_gcSigState v)
     else if IS_SYSTEM_SIG c sigNum then Inr (handlers sigNum)
     else Inl (Die ''GetSignalState: unknown signal''))"

end
