(* ===== verification/VM.thy ===== *)
theory VM
  imports Major_GC Signals
begin

text \<open>
  The state of the whole run-time system and the operations on it. The ML state vector
  (\<open>include/ml-state.h\<close>) is a struct in memory: its registers are words at fixed offsets from
  its address \<open>msp\<close>, so that they can be roots; the allocation, limit and store pointers are
  fields of the collector's state. Addresses that the linker assigns are the parameter
  \<open>globals\<close>; what the operating system answers, and the fuel of the loops, are the
  parameter \<open>env\<close>.
\<close>

section \<open>State\<close>

record globals =
  G_msp :: addr_t                     \<comment> \<open>the ML state vector\<close>
  G_ProfCurrent :: addr_t
  G_MLSignalHandler :: addr_t
  G_PervStruct :: addr_t
  G_RunTimeCompUnit :: addr_t
  G_OverflowId :: addr_t
  G_DivId :: addr_t
  G_SysErrId :: addr_t
  G_string0 :: addr_t
  G_vector0 :: addr_t
  G_handle :: addr_t                  \<comment> \<open>\<open>handle_v + 1\<close>\<close>
  G_return_c :: addr_t
  G_sigh_return_c :: addr_t
  G_sigh_resume :: addr_t
  G_root :: addr_t                    \<comment> \<open>the stack slot of a C local that is passed as a root\<close>
  G_runvec :: "addr_t list"           \<comment> \<open>\<open>array_v + 1\<close> and the other assembly closures, in order\<close>

record env =
  env_mmap :: "mem_sys \<Rightarrow> addr_t \<Rightarrow> addr_t option"
  env_rusage :: "nat \<Rightarrow> time_t \<times> time_t"
  env_sig :: sigconf
  env_fuel :: nat

record vm =
  vm_rt :: rt
  vm_vproc :: vproc
  vm_latches :: latches
  vm_rusages :: nat                   \<comment> \<open>number of calls of \<open>getrusage\<close> so far\<close>
  vm_CRoots :: "addr_t list"
  vm_UnlimitedHeap :: bool
  vm_faultPC :: addr_t

abbreviation (input) ml_exnCont :: "addr_t \<Rightarrow> addr_t" where "ml_exnCont msp \<equiv> msp + 40"
abbreviation (input) ml_varReg :: "addr_t \<Rightarrow> addr_t" where "ml_varReg msp \<equiv> msp + 48"
abbreviation (input) ml_linkReg :: "addr_t \<Rightarrow> addr_t" where "ml_linkReg msp \<equiv> msp + 56"
abbreviation (input) ml_closure :: "addr_t \<Rightarrow> addr_t" where "ml_closure msp \<equiv> msp + 64"
abbreviation (input) ml_cont :: "addr_t \<Rightarrow> addr_t" where "ml_cont msp \<equiv> msp + 72"
abbreviation (input) ml_calleeSave0 :: "addr_t \<Rightarrow> addr_t" where "ml_calleeSave0 msp \<equiv> msp + 80"
abbreviation (input) ml_calleeSave1 :: "addr_t \<Rightarrow> addr_t" where "ml_calleeSave1 msp \<equiv> msp + 88"
abbreviation (input) ml_calleeSave2 :: "addr_t \<Rightarrow> addr_t" where "ml_calleeSave2 msp \<equiv> msp + 96"
abbreviation (input) ml_arg :: "addr_t \<Rightarrow> addr_t" where "ml_arg msp \<equiv> msp + 104"
abbreviation (input) ml_pc :: "addr_t \<Rightarrow> addr_t" where "ml_pc msp \<equiv> msp + 112"

section \<open>Operations on the state\<close>

type_synonym 'a vmop = "vm \<Rightarrow> ('a \<times> vm) res"

definition vret :: "'a \<Rightarrow> 'a vmop" where "vret x s = Inr (x, s)"
definition vbind :: "'a vmop \<Rightarrow> ('a \<Rightarrow> 'b vmop) \<Rightarrow> 'b vmop" where
  "vbind m f s = rbind (m s) (\<lambda>(x, s). f x s)"
definition vthen :: "unit vmop \<Rightarrow> 'b vmop \<Rightarrow> 'b vmop" where
  "vthen m k s = rbind (m s) (\<lambda>(_, s). k s)"
definition vfail :: "rt_error \<Rightarrow> 'a vmop" where "vfail e s = Inl e"

text \<open>Running an operation of the collector.\<close>

definition lift_rt :: "(rt \<Rightarrow> ('a \<times> rt) res) \<Rightarrow> 'a vmop" where
  "lift_rt f s = rbind (f (vm_rt s)) (\<lambda>(x, r). Inr (x, s\<lparr>vm_rt := r\<rparr>))"
definition do_rt :: "(rt \<Rightarrow> rt res) \<Rightarrow> unit vmop" where
  "do_rt f s = rbind (f (vm_rt s)) (\<lambda>r. Inr ((), s\<lparr>vm_rt := r\<rparr>))"
definition upd_rt :: "(rt \<Rightarrow> rt) \<Rightarrow> unit vmop" where
  "upd_rt f s = Inr ((), s\<lparr>vm_rt := f (vm_rt s)\<rparr>)"
definition read_rt :: "(rt \<Rightarrow> 'a) \<Rightarrow> 'a vmop" where
  "read_rt f s = Inr (f (vm_rt s), s)"
definition upd_vproc :: "(vproc \<Rightarrow> vproc) \<Rightarrow> unit vmop" where
  "upd_vproc f s = Inr ((), s\<lparr>vm_vproc := f (vm_vproc s)\<rparr>)"

text \<open>Reading and writing a word of memory.\<close>

definition ld :: "addr_t \<Rightarrow> word_t vmop" where "ld a = read_rt (\<lambda>r. rt_mem r a)"
definition st :: "addr_t \<Rightarrow> word_t \<Rightarrow> unit vmop" where "st a w = upd_rt (upd_mem (\<lambda>m. m(a := w)))"

text \<open>\<open>REC_SEL\<close>, \<open>DEREF\<close> and \<open>ASSIGN\<close>.\<close>

definition REC_SEL :: "word_t \<Rightarrow> nat \<Rightarrow> word_t vmop" where "REC_SEL p i = ld (at_ix p i)"
definition ASSIGN :: "word_t \<Rightarrow> word_t \<Rightarrow> unit vmop" where "ASSIGN r x = st r x"

fun vmap :: "('a \<Rightarrow> unit vmop) \<Rightarrow> 'a list \<Rightarrow> unit vmop" where
  "vmap f [] s = Inr ((), s)"
| "vmap f (x # xs) s = rbind (f x s) (\<lambda>(_, s). vmap f xs s)"

section \<open>Rules\<close>

lemmas vm_defs = vret_def vbind_def vthen_def vfail_def lift_rt_def do_rt_def upd_rt_def read_rt_def
  upd_vproc_def ld_def st_def REC_SEL_def ASSIGN_def

section \<open>ml-state.h\<close>

definition SETUP_RETURN :: "globals \<Rightarrow> unit vmop" where
  "SETUP_RETURN G =
     vthen (st (ml_closure (G_msp G)) ML_unit)
       (vbind (ld (ml_cont (G_msp G))) (st (ml_pc (G_msp G))))"

definition SETUP_THROW :: "globals \<Rightarrow> word_t \<Rightarrow> word_t \<Rightarrow> unit vmop" where
  "SETUP_THROW G kont val =
     vthen (st (ml_closure (G_msp G)) kont)
       (vthen (st (ml_cont (G_msp G)) ML_unit)
       (vbind (REC_SEL kont 0) (\<lambda>code.
        vthen (st (ml_linkReg (G_msp G)) code)
       (vthen (st (ml_pc (G_msp G)) code)
       (vthen (st (ml_exnCont (G_msp G)) ML_unit)
       (st (ml_arg (G_msp G)) val))))))"

end
