(* ===== verification/Call_GC.thy ===== *)
theory Call_GC
  imports VM
begin

text \<open>
  The interface between the collector and the rest of the run-time system, \<open>gc/call-gc.c\<close>.
  Gathering the roots, the minor collection, the decision to do a major one, resetting the
  allocation space, and the GC signal. \<open>MajorGC\<close> with its timers is here too.
\<close>

section \<open>Operations\<close>

abbreviation (input) NUM_GC_ROOTS :: nat where "NUM_GC_ROOTS \<equiv> 34"
abbreviation (input) PROF_RUNTIME :: word_t where "PROF_RUNTIME \<equiv> 1"
abbreviation (input) PROF_MINOR_GC :: word_t where "PROF_MINOR_GC \<equiv> 3"
abbreviation (input) PROF_MAJOR_GC :: word_t where "PROF_MAJOR_GC \<equiv> 5"
abbreviation (input) PROF_OTHER :: word_t where "PROF_OTHER \<equiv> 7"

definition start_timer :: "env \<Rightarrow> unit vmop" where
  "start_timer E s =
     (let (u, t) = env_rusage E (vm_rusages s);
          (tm, l) = StartGCTimer u t (vp_timers (vm_vproc s), vm_latches s)
      in Inr ((), s\<lparr>vm_vproc := (vm_vproc s)\<lparr>vp_timers := tm\<rparr>, vm_latches := l, vm_rusages := vm_rusages s + 1\<rparr>))"

text \<open>The time is asked for only when the messages of the collector are on, which print it; they are
  not modelled.\<close>

definition stop_timer :: "env \<Rightarrow> unit vmop" where
  "stop_timer E s =
     (let (u, t) = env_rusage E (vm_rusages s)
      in rbind (StopGCTimer False u t (vp_timers (vm_vproc s), vm_latches s)) (\<lambda>(_, tm, l).
         Inr ((), s\<lparr>vm_vproc := (vm_vproc s)\<lparr>vp_timers := tm\<rparr>, vm_latches := l,
                     vm_rusages := vm_rusages s + 1\<rparr>)))"

text \<open>\<open>TrimHeap\<close> comes after the timer is stopped and does not change it.\<close>

definition timed_MajorGC :: "env \<Rightarrow> addr_t list \<Rightarrow> nat \<Rightarrow> unit vmop" where
  "timed_MajorGC E roots level =
     vthen (start_timer E) (\<lambda>s.
     vthen (do_rt (\<lambda>r. rbind (MajorGC (env_mmap E) (env_fuel E) (vm_UnlimitedHeap s) roots level r) (\<lambda>(_, r). Inr r)))
       (stop_timer E) s)"

text \<open>The ML registers that are roots of every collection, in the order of the root array.\<close>

definition reg_roots :: "addr_t \<Rightarrow> addr_t list" where
  "reg_roots msp = [ml_arg msp, ml_cont msp, ml_closure msp, ml_exnCont msp, ml_varReg msp,
     ml_calleeSave0 msp, ml_calleeSave1 msp, ml_calleeSave2 msp]"

text \<open>The check for a major collection, when none is asked for: a first-generation arena is full.\<close>

definition gc_level :: "int \<Rightarrow> rt \<Rightarrow> int" where
  "gc_level level r =
     (if level = 0 \<and> list_ex (\<lambda>i. let ap = get_arena 0 i r in isACTIVE ap \<and> AVAIL_SPACE ap < h_allocSzB (rt_heap r)) [0..<NUM_ARENAS]
      then 1 else level)"

definition reset_alloc :: "rt \<Rightarrow> rt" where
  "reset_alloc r = r\<lparr>ml_allocPtr := h_allocBase (rt_heap r), ml_limitPtr := HEAP_LIMIT (rt_heap r)\<rparr>"

text \<open>The body that \<open>InvokeGC\<close> and \<open>InvokeGCWithRoots\<close> share; they differ in the roots.\<close>

definition invoke :: "env \<Rightarrow> globals \<Rightarrow> int \<Rightarrow> addr_t list \<Rightarrow> addr_t list \<Rightarrow> unit vmop" where
  "invoke E G level0 roots majorRoots =
     (if NUM_GC_ROOTS < length roots + 1 then vfail (Fault ''roots array overflow'')
      else vthen (ASSIGN (G_ProfCurrent G) PROF_MINOR_GC)
       (vthen (do_rt (MinorGC (env_fuel E) roots))
       (vbind (read_rt (gc_level level0)) (\<lambda>level.
        vthen (if 0 < level then
                 vthen (ASSIGN (G_ProfCurrent G) PROF_MAJOR_GC)
                   (if NUM_GC_ROOTS < length majorRoots + 1 then vfail (Fault ''roots array overflow'')
                    else timed_MajorGC E majorRoots (nat level))
               else vret ())
       (vthen (upd_rt reset_alloc)
       (vthen (upd_vproc (GCSignal (env_sig E) level))
       (ASSIGN (G_ProfCurrent G) PROF_RUNTIME)))))))"

definition InvokeGC :: "env \<Rightarrow> globals \<Rightarrow> int \<Rightarrow> unit vmop" where
  "InvokeGC E G level s =
     (let roots = vm_CRoots s @ ml_linkReg (G_msp G) # reg_roots (G_msp G) in invoke E G level roots roots s)"

definition InvokeGCWithRoots :: "env \<Rightarrow> globals \<Rightarrow> int \<Rightarrow> addr_t list \<Rightarrow> unit vmop" where
  "InvokeGCWithRoots E G level extra s =
     (let roots = extra @ vm_CRoots s @ reg_roots (G_msp G)
      in invoke E G level roots (roots @ [ml_linkReg (G_msp G), ml_pc (G_msp G)]) s)"

definition NeedGC :: "word_t \<Rightarrow> rt \<Rightarrow> bool" where
  "NeedGC nbytes r \<longleftrightarrow> HEAP_LIMIT (rt_heap r) \<le> ml_allocPtr r + nbytes"

text \<open>The comparison with the available space is as the code has it.\<close>

definition StringArenaNeedsGC :: "word_t \<Rightarrow> rt \<Rightarrow> nat \<times> rt" where
  "StringArenaNeedsGC nbytes r =
     (if 512 < BYTES_TO_WORDS nbytes then
        (let ap = get_arena 0 STRING_INDX r in
         if \<not> isACTIVE ap \<or> nbytes \<le> AVAIL_SPACE ap
         then (2, upd_arena 0 STRING_INDX (\<lambda>a. a\<lparr>a_reqSizeB := nbytes\<rparr>) r) else (0, r))
      else if NeedGC nbytes r then (1, r) else (0, r))"

end
