(* ===== verification/ML_Objects.thy ===== *)
theory ML_Objects
  imports Call_GC
begin

text \<open>
  Allocating ML objects from C, \<open>gc/ml-objects.c\<close>, and the record operations of
  \<open>gc/record-ops.c\<close>. Small objects go to the allocation space, larger ones to the first
  generation, after a collection if it lacks the room. A C string is the list of its bytes
  without the terminating NUL; the bytes of an uninitialised object keep the contents of the
  memory.
\<close>

section \<open>Raw objects\<close>

abbreviation (input) SMALL_OBJ_SZW :: word_t where "SMALL_OBJ_SZW \<equiv> 512"

definition gen1 :: "nat \<Rightarrow> arena vmop" where "gen1 ix = read_rt (get_arena 0 ix)"

text \<open>
  \<open>*(ap->nextw++) = desc; res = ap->nextw; ap->nextw += nwords\<close> in an arena of the first
  generation, with the count of bytes; for the arenas that are swept the sweep pointer follows.
\<close>

definition alloc_gen1 :: "nat \<Rightarrow> bool \<Rightarrow> word_t \<Rightarrow> word_t \<Rightarrow> word_t vmop" where
  "alloc_gen1 ix swept desc nwords =
     lift_rt (\<lambda>r.
       let p = a_nextw (get_arena 0 ix r); q = p + 8 + 8 * nwords;
           r1 = upd_arena 0 ix (\<lambda>a. a\<lparr>a_nextw := q, a_sweep_nextw := (if swept then q else a_sweep_nextw a)\<rparr>)
                  (upd_mem (\<lambda>m. m(p := desc)) r)
       in Inr (p + 8, upd_heap (\<lambda>h. h\<lparr>h_numAlloc1 := h_numAlloc1 h + 8 * (nwords + 1)\<rparr>) r1))"

definition set_req :: "nat \<Rightarrow> (addr_t \<Rightarrow> addr_t) \<Rightarrow> unit vmop" where
  "set_req ix f = upd_rt (upd_arena 0 ix (\<lambda>a. a\<lparr>a_reqSizeB := f (a_reqSizeB a)\<rparr>))"

text \<open>\<open>IFGC\<close>\<close>

definition IFGC :: "arena \<Rightarrow> addr_t \<Rightarrow> bool" where
  "IFGC ap szb \<longleftrightarrow> \<not> isACTIVE ap \<or> AVAIL_SPACE ap \<le> szb"

definition small_obj :: "word_t \<Rightarrow> word_t \<Rightarrow> word_t vmop" where
  "small_obj desc nwords = lift_rt (\<lambda>r. Inr (ML_Alloc (unat nwords) (ML_AllocWrite 0 desc r)))"

definition ML_AllocRaw :: "env \<Rightarrow> globals \<Rightarrow> word_t \<Rightarrow> word_t vmop" where
  "ML_AllocRaw E G nwords =
     (let desc = MAKE_DESC nwords DTAG_raw; szb = 8 * (nwords + 1) in
      if SMALL_OBJ_SZW < nwords then
        vbind (gen1 STRING_INDX) (\<lambda>ap.
        vbind (read_rt (\<lambda>r. h_allocSzB (rt_heap r))) (\<lambda>allocSzB.
        vthen (if IFGC ap (szb + allocSzB) then
                 vthen (set_req STRING_INDX (\<lambda>x. x + szb))
                   (vthen (InvokeGC E G 1) (set_req STRING_INDX (\<lambda>_. 0)))
               else vret ())
        (alloc_gen1 STRING_INDX False desc nwords)))
      else small_obj desc nwords)"

text \<open>\<open>oldNWords\<close> is an \<open>int\<close>; it is compared with a \<open>Word_t\<close> after conversion.\<close>

definition ML_ShrinkRaw :: "word_t \<Rightarrow> word_t \<Rightarrow> rt \<Rightarrow> rt" where
  "ML_ShrinkRaw v nWords r =
     (let oldNWords = (scast (ucast (GET_LEN (rt_mem r (v - 8))) :: u32) :: word_t) in
      if nWords = oldNWords then r
      else let r1 = (if sint oldNWords > 512
             then upd_arena 0 STRING_INDX (\<lambda>a. a\<lparr>a_nextw := a_nextw a - 8 * (oldNWords - nWords)\<rparr>) r
             else r\<lparr>ml_allocPtr := ml_allocPtr r - 8 * (oldNWords - nWords)\<rparr>)
           in upd_mem (\<lambda>m. m(v - 8 := MAKE_DESC nWords DTAG_raw)) r1)"

text \<open>On a 64-bit machine a double is one word, and this is \<open>ML_AllocRaw\<close> again.\<close>

definition ML_AllocRaw64 :: "env \<Rightarrow> globals \<Rightarrow> word_t \<Rightarrow> word_t vmop" where
  "ML_AllocRaw64 E G nelems =
     (let nwords = nelems * 1; desc = MAKE_DESC nwords DTAG_raw; szb = 8 * (nwords + 1) in
      if SMALL_OBJ_SZW < nwords then
        vbind (gen1 STRING_INDX) (\<lambda>ap.
        vbind (read_rt (\<lambda>r. h_allocSzB (rt_heap r))) (\<lambda>allocSzB.
        vthen (if IFGC ap (szb + allocSzB) then
                 vthen (set_req STRING_INDX (\<lambda>x. x + szb))
                   (vthen (InvokeGC E G 1) (set_req STRING_INDX (\<lambda>_. 0)))
               else vret ())
        (alloc_gen1 STRING_INDX False desc nwords)))
      else small_obj desc nwords)"

section \<open>Strings and monomorphic arrays\<close>

definition seq_hdr :: "word_t \<Rightarrow> word_t \<Rightarrow> word_t \<Rightarrow> word_t vmop" where
  "seq_hdr desc data len = lift_rt (\<lambda>r. Inr (ML_AllocSeqHdr desc data len r))"

text \<open>\<open>len\<close> is an \<open>int\<close>; \<open>None\<close> is the NIL pointer.\<close>

definition ML_CString :: "env \<Rightarrow> globals \<Rightarrow> byte_t list option \<Rightarrow> word_t vmop" where
  "ML_CString E G v =
     (case v of
        None \<Rightarrow> vret (G_string0 G)
      | Some bs \<Rightarrow>
          if INT_MAX < int (length bs) + 1 then vfail (Fault ''signed overflow'')
          else if length bs = 0 then vret (G_string0 G)
          else let n = BYTES_TO_WORDS (of_nat (length bs) + 1) in
            vbind (ML_AllocRaw E G n) (\<lambda>res.
            vthen (st (res + 8 * (n - 1)) 0)
            (vthen (upd_rt (upd_mem (put_bytes res (bs @ [0]))))
            (seq_hdr DESC_string res (of_nat (length bs))))))"

definition cons :: "word_t \<Rightarrow> word_t \<Rightarrow> word_t vmop" where
  "cons a b = lift_rt (\<lambda>r. Inr (ML_Alloc2 a b r))"

text \<open>The space that \<open>ML_CStringList\<close> asks for: the headers of the strings are not in it.\<close>

definition list_space :: "byte_t list list \<Rightarrow> word_t" where
  "list_space strs = fold (\<lambda>s nbytes.
       let nwords = BYTES_TO_WORDS (of_nat (length s) + 1) in
       if 0 < length s \<and> nwords \<le> SMALL_OBJ_SZW then nbytes + 8 * (nwords + 1) else nbytes)
     strs (of_nat (length strs) * 24)"

fun cons_strings :: "env \<Rightarrow> globals \<Rightarrow> byte_t list list \<Rightarrow> word_t \<Rightarrow> word_t vmop" where
  "cons_strings E G [] p s = Inr (p, s)"
| "cons_strings E G (b # bs) p s =
     vbind (ML_CString E G (Some b)) (\<lambda>x. vbind (cons x p) (cons_strings E G bs)) s"

definition ML_CStringList :: "env \<Rightarrow> globals \<Rightarrow> byte_t list list \<Rightarrow> word_t vmop" where
  "ML_CStringList E G strs =
     vbind (read_rt (NeedGC (list_space strs))) (\<lambda>gc.
     vthen (if gc then InvokeGC E G 0 else vret ())
       (cons_strings E G (rev strs) ML_unit))"

definition ML_AllocString :: "env \<Rightarrow> globals \<Rightarrow> word_t \<Rightarrow> word_t vmop" where
  "ML_AllocString E G len =
     (let nwords = BYTES_TO_WORDS (len + 1) in
      vbind (ML_AllocRaw E G nwords) (\<lambda>res.
      vthen (st (res + 8 * (nwords - 1)) 0)
        (seq_hdr DESC_string res len)))"

definition ML_AllocBytearray :: "env \<Rightarrow> globals \<Rightarrow> word_t \<Rightarrow> word_t vmop" where
  "ML_AllocBytearray E G len =
     (let nwords = BYTES_TO_WORDS len in
      vbind (ML_AllocRaw E G nwords) (\<lambda>res.
      vthen (st (res + 8 * (nwords - 1)) 0)
        (seq_hdr DESC_word8arr res len)))"

definition ML_AllocRealdarray :: "env \<Rightarrow> globals \<Rightarrow> word_t \<Rightarrow> word_t vmop" where
  "ML_AllocRealdarray E G len = vbind (ML_AllocRaw64 E G len) (\<lambda>res. seq_hdr DESC_real64arr res len)"

section \<open>Code objects\<close>

text \<open>The address of the object; the code is the list of its bytes.\<close>

definition ML_AllocCode :: "env \<Rightarrow> byte_t list \<Rightarrow> word_t vmop" where
  "ML_AllocCode E code =
     lift_rt (\<lambda>r.
       let allocGen = (if h_numGens (rt_heap r) < 2 then h_numGens (rt_heap r) else 2) in
       rbind (BO_Alloc (env_mmap E) (env_fuel E) allocGen (of_nat (length code)) r) (\<lambda>(dp, r).
       rbind (upd_desc dp (\<lambda>x. x\<lparr>bd_next := g_bigObjs (get_gen (allocGen - 1) r), bd_objc := 0\<rparr>) r) (\<lambda>r.
       rbind (get_desc dp r) (\<lambda>x.
       Inr (bd_obj x, upd_mem (put_bytes (bd_obj x) code) (upd_gen (allocGen - 1) (\<lambda>gn. gn\<lparr>g_bigObjs := dp\<rparr>) r))))))"

section \<open>Polymorphic arrays and vectors\<close>

text \<open>\<open>i\<close> is an \<open>int\<close>, compared with a \<open>Word_t\<close>: the loop is exact for lengths below \<open>2^31\<close>.\<close>

definition fill_words :: "addr_t \<Rightarrow> word_t \<Rightarrow> word_t \<Rightarrow> unit vmop" where
  "fill_words p len v =
     (if 2 ^ 31 \<le> len then vfail (Fault ''signed overflow'')
      else upd_rt (upd_mem (put_words p (replicate (unat len) v))))"

definition ML_AllocArrayData :: "env \<Rightarrow> globals \<Rightarrow> word_t \<Rightarrow> word_t \<Rightarrow> word_t vmop" where
  "ML_AllocArrayData E G len initVal =
     (let desc = MAKE_DESC len DTAG_arr_data; szb = 8 * (len + 1) in
      vbind (if SMALL_OBJ_SZW < len then
               vbind (gen1 ARRAY_INDX) (\<lambda>ap.
               vbind (read_rt (\<lambda>r. h_allocSzB (rt_heap r))) (\<lambda>allocSzB.
               let gcLevel = (if \<not> isACTIVE ap \<or> AVAIL_SPACE ap \<le> szb + allocSzB then 1
                              else if isBOXED initVal then 0 else - 1) in
               vbind (if 0 \<le> gcLevel then
                        vthen (st (G_root G) initVal)
                       (vthen (set_req ARRAY_INDX (\<lambda>x. x + szb))
                       (vthen (InvokeGCWithRoots E G gcLevel [G_root G])
                       (vbind (ld (G_root G)) (\<lambda>v.
                        vthen (set_req ARRAY_INDX (\<lambda>_. 0)) (vret v)))))
                      else vret initVal) (\<lambda>v.
               vbind (alloc_gen1 ARRAY_INDX True desc len) (\<lambda>res. vret (res, v)))))
             else vbind (small_obj desc len) (\<lambda>res. vret (res, initVal))) (\<lambda>(res, v).
      vthen (fill_words res len v) (vret res)))"

definition ML_AllocArray :: "env \<Rightarrow> globals \<Rightarrow> word_t \<Rightarrow> word_t \<Rightarrow> word_t vmop" where
  "ML_AllocArray E G len initVal =
     vbind (ML_AllocArrayData E G len initVal) (\<lambda>res. seq_hdr DESC_polyarr res len)"

text \<open>The loop that copies the elements of a list, with fuel.\<close>

fun copy_list :: "nat \<Rightarrow> addr_t \<Rightarrow> word_t \<Rightarrow> memory \<Rightarrow> memory res" where
  "copy_list fuel p l m =
     (if l = ML_unit then Inr m
      else case fuel of
        0 \<Rightarrow> Inl NoFuel
      | Suc fuel \<Rightarrow> (let m1 = m(p := m l) in copy_list fuel (p + 8) (m1 (l + 8)) m1))"

declare copy_list.simps [simp del]

definition ML_AllocVector :: "env \<Rightarrow> globals \<Rightarrow> word_t \<Rightarrow> word_t \<Rightarrow> word_t vmop" where
  "ML_AllocVector E G len initVal =
     (let desc = MAKE_DESC len DTAG_vec_data; szb = 8 * (len + 1) in
      vbind (if SMALL_OBJ_SZW < len then
               vbind (gen1 RECORD_INDX) (\<lambda>ap.
               vbind (read_rt (\<lambda>r. h_allocSzB (rt_heap r))) (\<lambda>allocSzB.
               let gcLevel = (if \<not> isACTIVE ap \<or> AVAIL_SPACE ap \<le> szb + allocSzB then 1 else 0) in
               vthen (st (G_root G) initVal)
              (vthen (set_req RECORD_INDX (\<lambda>x. x + szb))
              (vthen (InvokeGCWithRoots E G gcLevel [G_root G])
              (vbind (ld (G_root G)) (\<lambda>v.
               vthen (set_req RECORD_INDX (\<lambda>_. 0))
              (vbind (alloc_gen1 RECORD_INDX True desc len) (\<lambda>res. vret (res, v)))))))))
             else vbind (small_obj desc len) (\<lambda>res. vret (res, initVal))) (\<lambda>(res, v).
      vthen (do_rt (\<lambda>r. rbind (copy_list (env_fuel E) res v (rt_mem r)) (\<lambda>m. Inr (upd_mem (\<lambda>_. m) r))))
        (seq_hdr DESC_polyvec res len)))"

section \<open>System constants\<close>

type_synonym sysconst_tbl = "(int \<times> byte_t list) list"

definition INT_ml :: "int \<Rightarrow> word_t" where "INT_ml i = of_int (2 * i + 1)"

text \<open>\<open>"<UNKNOWN>"\<close>\<close>

definition unknown_name :: "byte_t list" where
  "unknown_name = [0x3c, 0x55, 0x4e, 0x4b, 0x4e, 0x4f, 0x57, 0x4e, 0x3e]"

definition ML_SysConst :: "env \<Rightarrow> globals \<Rightarrow> sysconst_tbl \<Rightarrow> int \<Rightarrow> word_t vmop" where
  "ML_SysConst E G tbl k =
     (case find (\<lambda>c. fst c = k) tbl of
        Some c \<Rightarrow> vbind (ML_CString E G (Some (snd c))) (\<lambda>name. cons (INT_ml k) name)
      | None \<Rightarrow> vbind (ML_CString E G (Some unknown_name)) (\<lambda>name. cons (INT_ml (- 1)) name))"

text \<open>The required space adds a number of words to a number of bytes, as the code has it.\<close>

definition const_space :: "byte_t list \<Rightarrow> word_t" where
  "const_space name = (4 + 3 + 3) * 8 + BYTES_TO_WORDS (of_nat (length name) + 1)"

fun const_list :: "env \<Rightarrow> globals \<Rightarrow> sysconst_tbl \<Rightarrow> word_t \<Rightarrow> word_t \<Rightarrow> word_t vmop" where
  "const_list E G [] availSpace l s = Inr (l, s)"
| "const_list E G (c # cs) availSpace l s =
     (let reqSpace = const_space (snd c) in
      vbind (if availSpace \<le> reqSpace then
               vthen (st (G_root G) l)
              (vthen (InvokeGCWithRoots E G 0 [G_root G])
              (vbind (ld (G_root G)) (\<lambda>l.
               vbind (read_rt (\<lambda>r. ml_limitPtr r - ml_allocPtr r)) (\<lambda>a. vret (l, a)))))
             else vret (l, availSpace)) (\<lambda>(l, availSpace).
      vbind (ML_CString E G (Some (snd c))) (\<lambda>name.
      vbind (cons (INT_ml (fst c)) name) (\<lambda>sysConst.
      vbind (cons sysConst l) (\<lambda>l.
      const_list E G cs (availSpace - reqSpace) l)))) s)"

definition ML_SysConstList :: "env \<Rightarrow> globals \<Rightarrow> sysconst_tbl \<Rightarrow> word_t vmop" where
  "ML_SysConstList E G tbl =
     vbind (read_rt (\<lambda>r. ml_limitPtr r - ml_allocPtr r)) (\<lambda>availSpace.
     const_list E G (rev tbl) availSpace ML_unit)"

section \<open>C data\<close>

definition ML_AllocCData :: "env \<Rightarrow> globals \<Rightarrow> word_t \<Rightarrow> word_t vmop" where
  "ML_AllocCData E G nbytes = ML_AllocRaw64 E G (drop_bit 3 (nbytes + 7))"

definition ML_CData :: "env \<Rightarrow> globals \<Rightarrow> byte_t list \<Rightarrow> word_t vmop" where
  "ML_CData E G data =
     (if length data = 0 then vret ML_unit
      else vbind (ML_AllocRaw64 E G (drop_bit 3 (of_nat (length data) + 7))) (\<lambda>obj.
        vthen (upd_rt (upd_mem (put_bytes obj data))) (vret obj)))"

section \<open>Operations on records\<close>

text \<open>The length of a record, or \<open>-1\<close>. The length is an \<open>int\<close>.\<close>

definition GetLen :: "word_t \<Rightarrow> rt \<Rightarrow> int res" where
  "GetLen p r =
     (if \<not> isBOXED p then Inr (- 1)
      else rbind (ADDR_TO_PAGEID (rt_bibop r) p) (\<lambda>aid.
        let objc = EXTRACT_OBJC aid; d = rt_mem r (p - 8) in
        if objc = OBJC_new \<or> objc = OBJC_record then
          (if GET_TAG d = DTAG_record then Inr (sint (ucast (GET_LEN d) :: u32)) else Inr (- 1))
        else if objc = OBJC_pair then Inr 2
        else Inr (- 1)))"

text \<open>The words are written one at a time, each read from memory when it is written.\<close>

definition copy_fields :: "word_t \<Rightarrow> nat \<Rightarrow> nat \<Rightarrow> rt \<Rightarrow> rt" where
  "copy_fields p l j0 r = fold (\<lambda>i r. ML_AllocWrite (j0 + i) (rt_mem r (at_ix p i)) r) [0..<l] r"

definition RecordConcat :: "word_t \<Rightarrow> word_t \<Rightarrow> rt \<Rightarrow> (word_t \<times> rt) res" where
  "RecordConcat r1 r2 r =
     rbind (GetLen r1 r) (\<lambda>l1.
     rbind (GetLen r2 r) (\<lambda>l2.
     if 0 < l1 \<and> 0 < l2 then
       (if INT_MAX < l1 + l2 then Inl (Fault ''signed overflow'')
        else let n = nat (l1 + l2);
                 ra = ML_AllocWrite 0 (MAKE_DESC (of_nat n) DTAG_record) r;
                 rb = copy_fields r1 (nat l1) 1 ra;
                 rc = copy_fields r2 (nat l2) (1 + nat l1) rb
             in Inr (ML_Alloc n rc))
     else Inr (ML_unit, r)))"

end
