(* ===== verification/Options.thy ===== *)
theory Options
  imports RT_Prelude
begin

text \<open>
  Command-line processing: \<open>isRuntimeOption\<close> and \<open>GetSzOption\<close> of \<open>kernel/ml-options.c\<close>,
  \<open>ParseHeapParams\<close> of \<open>gc/init-gc.c\<close> and \<open>ParseOptions\<close> of \<open>kernel/main.c\<close>.
  A C string is the list of its characters before the terminating NUL; a \<open>char *\<close> into it is
  an offset, and reading beyond the NUL is a \<open>Fault\<close>. The text of error messages is not
  modelled; the flags and results they accompany are.
\<close>

section \<open>C strings and the library functions used on them\<close>

definition char_at :: "string \<Rightarrow> nat \<Rightarrow> char res" where
  "char_at s i =
     (if i < length s then Inr (s ! i)
      else if i = length s then Inr (CHR 0x00)
      else Inl (Fault ''read past the end of a C string''))"

definition isdigit :: "char \<Rightarrow> bool" where
  "isdigit c \<longleftrightarrow> 48 \<le> (of_char c :: nat) \<and> (of_char c :: nat) \<le> 57"

definition isspace :: "char \<Rightarrow> bool" where
  "isspace c \<longleftrightarrow> (of_char c :: nat) = 32 \<or> (9 \<le> (of_char c :: nat) \<and> (of_char c :: nat) \<le> 13)"

definition digit_val :: "char \<Rightarrow> int" where
  "digit_val c = int (of_char c) - 48"

definition digits_val :: "string \<Rightarrow> int" where
  "digits_val ds = foldl (\<lambda>n d. 10 * n + digit_val d) 0 ds"

text \<open>\<open>atoi\<close> of the C library: blanks, an optional sign, then digits.\<close>

definition atoi :: "string \<Rightarrow> int res" where
  "atoi s =
     (let t = dropWhile isspace s in
      case t of
        [] \<Rightarrow> Inr 0
      | c # cs \<Rightarrow>
          if c = CHR ''-'' then chk_int (- digits_val (takeWhile isdigit cs))
          else if c = CHR ''+'' then chk_int (digits_val (takeWhile isdigit cs))
          else chk_int (digits_val (takeWhile isdigit t)))"

section \<open>ml-options.c\<close>

text \<open>
  The copying loop of \<open>isRuntimeOption\<close>: the option characters and how far \<open>cp\<close> has
  moved when it stops. It steps over the \<open>=\<close>, but over the terminating NUL as well.
\<close>

fun copy_option :: "string \<Rightarrow> string \<times> nat" where
  "copy_option [] = ([], 1)"
| "copy_option (c # cs) =
     (if c = CHR ''='' then ([], 1)
      else let (opt, n) = copy_option cs in (c # opt, Suc n))"

text \<open>The result is the option name and the offset that \<open>*arg\<close> is set to.\<close>

definition isRuntimeOption :: "string \<Rightarrow> (string \<times> nat) option" where
  "isRuntimeOption cmdLineArg =
     (if take 4 cmdLineArg = ''@SML''
      then let (opt, n) = copy_option (drop 4 cmdLineArg) in Some (opt, 4 + n)
      else None)"

definition GetSzOption :: "int \<Rightarrow> string \<Rightarrow> int res" where
  "GetSzOption scale sz =
     (let p = dropWhile isdigit sz in
      if p = sz then Inr (- 1)
      else
        (let go = (\<lambda>scale. rbind (atoi sz) (\<lambda>n. chk_int (scale * n))) in
         case p of
           [] \<Rightarrow> go scale
         | c # _ \<Rightarrow>
             if c = CHR ''k'' \<or> c = CHR ''K'' then go 1024
             else if c = CHR ''m'' \<or> c = CHR ''M'' then go (1024 * 1024)
             else Inr (- 1)))"

section \<open>ParseHeapParams\<close>

record heap_params =
  hp_allocSz :: int      \<comment> \<open>0: use the default\<close>
  hp_numGens :: int      \<comment> \<open>-1: use the default\<close>
  hp_cacheGen :: int

abbreviation (input) MAX_OPT_LEN :: nat where "MAX_OPT_LEN \<equiv> 64"
abbreviation (input) MIN_ALLOC_SZB :: int where "MIN_ALLOC_SZB \<equiv> 128 * 1024"
abbreviation (input) MAX_NGENS :: int where "MAX_NGENS \<equiv> 14"

definition at_least :: "int \<Rightarrow> int \<Rightarrow> int" where
  "at_least lo n = (if n < lo then lo else n)"

definition clamp :: "int \<Rightarrow> int \<Rightarrow> int \<Rightarrow> int" where
  "clamp lo hi n = (if n < lo then lo else if n > hi then hi else n)"

text \<open>
  One iteration of the loop over \<open>argv\<close> on the state \<open>(params, errFlg, UnlimitedHeap)\<close>.
  The first component of the result says whether the iteration was left by the \<open>continue\<close>
  of \<open>CHECK\<close>, which skips the test of \<open>errFlg\<close> at the end of the loop body.
\<close>

type_synonym heap_opt_state = "heap_params \<times> bool \<times> bool"

fun heap_option :: "string \<Rightarrow> heap_opt_state \<Rightarrow> (bool \<times> heap_opt_state) res" where
  "heap_option arg (params, errFlg, ul) =
     (case isRuntimeOption arg of
        None \<Rightarrow> Inr (False, params, errFlg, ul)
      | Some (opt, optionArg) \<Rightarrow>
          if MAX_OPT_LEN \<le> length opt then Inl (Fault ''option buffer overflow'')
          else
          (let check = (\<lambda>k. rbind (char_at arg optionArg) (\<lambda>c.
                 if c = CHR 0x00 then Inr (True, params, True, ul)
                 else rbind (k (drop optionArg arg)) (\<lambda>s. Inr (False, s))))
           in
           if opt = ''alloc'' then check (\<lambda>v. rbind (GetSzOption 1024 v) (\<lambda>allocSz.
             Inr (params\<lparr>hp_allocSz := at_least MIN_ALLOC_SZB allocSz\<rparr>,
                  errFlg \<or> allocSz < 0, ul)))
           else if opt = ''ngens'' then check (\<lambda>v. rbind (atoi v) (\<lambda>n.
             Inr (params\<lparr>hp_numGens := clamp 1 MAX_NGENS n\<rparr>, errFlg, ul)))
           else if opt = ''vmcache'' then check (\<lambda>v. rbind (atoi v) (\<lambda>n.
             Inr (params\<lparr>hp_cacheGen := clamp 0 MAX_NGENS n\<rparr>, errFlg, ul)))
           else if opt = ''unlimited-heap'' then Inr (False, params, errFlg, True)
           else Inr (False, params, errFlg, ul)))"

text \<open>The loop. \<open>Inr (None, _)\<close> is the NIL result.\<close>

fun parse_heap_loop :: "string list \<Rightarrow> heap_opt_state \<Rightarrow> (heap_params option \<times> bool) res" where
  "parse_heap_loop [] (params, errFlg, ul) = Inr (Some params, ul)"
| "parse_heap_loop (arg # argv) st =
     rbind (heap_option arg st) (\<lambda>(continued, params, errFlg, ul).
       if \<not> continued \<and> errFlg then Inr (None, ul)
       else parse_heap_loop argv (params, errFlg, ul))"

definition ParseHeapParams :: "string list \<Rightarrow> bool \<Rightarrow> (heap_params option \<times> bool) res" where
  "ParseHeapParams argv ul =
     parse_heap_loop argv (\<lparr>hp_allocSz = 0, hp_numGens = - 1, hp_cacheGen = - 1\<rparr>, False, ul)"

section \<open>ParseOptions\<close>

record options =
  isBoot :: bool
  BootFrom :: "string option"
  LoadImage :: "string option"
  MLCmdName :: "string option"
  SilentLoad :: bool
  DumpObjectStrings :: bool
  GCMessages :: bool
  UnlimitedHeap :: bool
  DebugF :: "string option"        \<comment> \<open>the file opened by \<open>@SMLdebug\<close>; \<open>None\<close> is stderr\<close>
  CmdLineArgs :: "string list"
  opt_errFlg :: bool

definition init_options :: options where
  "init_options = \<lparr>isBoot = False, BootFrom = None, LoadImage = None, MLCmdName = None,
     SilentLoad = True, DumpObjectStrings = False, GCMessages = False, UnlimitedHeap = False,
     DebugF = None, CmdLineArgs = [], opt_errFlg = False\<rparr>"

text \<open>
  One iteration. \<open>fopen\<close> is the C library's, a parameter: whether a file can be opened for
  writing. When it fails the code passes the first character of the argument to a
  \<open>%s\<close> conversion (\<open>*(argv[-1])\<close>), which dereferences a character code as a pointer.
\<close>

definition parse_option :: "(string \<Rightarrow> bool) \<Rightarrow> string \<Rightarrow> options \<Rightarrow> options res" where
  "parse_option fopen arg st =
     (case isRuntimeOption arg of
        None \<Rightarrow> Inr (st\<lparr>CmdLineArgs := CmdLineArgs st @ [arg]\<rparr>)
      | Some (opt, optionArg) \<Rightarrow>
          if MAX_OPT_LEN \<le> length opt then Inl (Fault ''option buffer overflow'')
          else
          (let check = (\<lambda>k. rbind (char_at arg optionArg) (\<lambda>c.
                 if c = CHR 0x00 then Inr (st\<lparr>opt_errFlg := True\<rparr>) else k (drop optionArg arg)))
           in
           if opt = ''boot'' then check (\<lambda>v. Inr (st\<lparr>isBoot := True, BootFrom := Some v\<rparr>))
           else if opt = ''load'' then check (\<lambda>v. Inr (st\<lparr>LoadImage := Some v\<rparr>))
           else if opt = ''cmdname'' then check (\<lambda>v. Inr (st\<lparr>MLCmdName := Some v\<rparr>))
           else if opt = ''quiet'' then Inr (st\<lparr>SilentLoad := True\<rparr>)
           else if opt = ''verbose'' then Inr (st\<lparr>SilentLoad := False\<rparr>)
           else if opt = ''objects'' then Inr (st\<lparr>DumpObjectStrings := True\<rparr>)
           else if opt = ''gcmessages'' then Inr (st\<lparr>GCMessages := True\<rparr>)
           else if opt = ''debug'' then check (\<lambda>v.
             if fopen v then Inr (st\<lparr>DebugF := Some v\<rparr>)
             else Inl (Fault ''%s applied to a character''))
           else Inr st))"

definition ParseOptions :: "(string \<Rightarrow> bool) \<Rightarrow> string list \<Rightarrow> options \<Rightarrow> (heap_params option \<times> options) res" where
  "ParseOptions fopen argv st =
     rbind (ParseHeapParams argv (UnlimitedHeap st)) (\<lambda>(hp, ul).
       let st1 = st\<lparr>UnlimitedHeap := ul, opt_errFlg := (hp = None), CmdLineArgs := [],
                    MLCmdName := (case argv of [] \<Rightarrow> None | a # _ \<Rightarrow> Some a)\<rparr>
       in rbind (rfold (parse_option fopen) (tl argv) st1) (\<lambda>st2.
            if opt_errFlg st2 then Inl (Exited 1) else Inr (hp, st2)))"

section \<open>Properties\<close>

lemma copy_option_eq: "CHR ''='' \<notin> set opt \<Longrightarrow> copy_option (opt @ CHR ''='' # v) = (opt, length opt + 1)"
  by (induction opt) auto

lemma copy_option_noeq: "CHR ''='' \<notin> set opt \<Longrightarrow> copy_option opt = (opt, length opt + 1)"
  by (induction opt) auto

lemma isRuntimeOption_value:
  assumes "CHR ''='' \<notin> set opt"
  shows "isRuntimeOption (''@SML'' @ opt @ ''='' @ v) = Some (opt, 5 + length opt)"
  using assms copy_option_eq [of opt v] by (simp add: isRuntimeOption_def)

lemma drop_option_value: "drop (5 + length opt) (''@SML'' @ opt @ ''='' @ v) = v"
proof -
  have "drop (length xs) (xs @ v) = v" for xs by simp
  from this [of "''@SML'' @ opt @ ''=''"] show ?thesis by (simp add: eval_nat_numeral)
qed

lemma isRuntimeOption_no_value:
  assumes "CHR ''='' \<notin> set opt"
  shows "isRuntimeOption (''@SML'' @ opt) = Some (opt, length (''@SML'' @ opt) + 1)"
  using assms copy_option_noeq [of opt] by (simp add: isRuntimeOption_def)

text \<open>C15. \<open>isRuntimeOption\<close> splits an argument \<open>@SMLopt=val\<close> into its option and value for
  every option name without \<open>=\<close>; without a value part the argument pointer it returns is
  one past the terminating NUL, so that the first character read through it is out of bounds;
  and an argument that does not start with \<open>@SML\<close> is not a run-time option.\<close>

theorem isRuntimeOption_split:
  assumes "CHR ''='' \<notin> set opt" and "take 4 s \<noteq> ''@SML''"
  shows "(\<exists>n. isRuntimeOption (''@SML'' @ opt @ ''='' @ v) = Some (opt, n)
              \<and> drop n (''@SML'' @ opt @ ''='' @ v) = v)
       \<and> (\<exists>n. isRuntimeOption (''@SML'' @ opt) = Some (opt, n)
              \<and> char_at (''@SML'' @ opt) n = Inl (Fault ''read past the end of a C string''))
       \<and> isRuntimeOption s = None"
proof (intro conjI)
  show "\<exists>n. isRuntimeOption (''@SML'' @ opt @ ''='' @ v) = Some (opt, n)
             \<and> drop n (''@SML'' @ opt @ ''='' @ v) = v"
    using isRuntimeOption_value [OF assms(1)] drop_option_value by blast
  show "\<exists>n. isRuntimeOption (''@SML'' @ opt) = Some (opt, n)
             \<and> char_at (''@SML'' @ opt) n = Inl (Fault ''read past the end of a C string'')"
    using isRuntimeOption_no_value [OF assms(1)] by (auto simp: char_at_def)
  show "isRuntimeOption s = None"
    using assms(2) by (simp add: isRuntimeOption_def)
qed

theorem isRuntimeOption_split_witness:
  "(\<exists>n. isRuntimeOption ''@SMLload=a.img'' = Some (''load'', n) \<and> drop n ''@SMLload=a.img'' = ''a.img'')
   \<and> (\<exists>n. isRuntimeOption ''@SMLload'' = Some (''load'', n)
          \<and> char_at ''@SMLload'' n = Inl (Fault ''read past the end of a C string''))
   \<and> isRuntimeOption ''-v'' = None"
  using isRuntimeOption_split [of "''load''" "''-v''" "''a.img''"] by simp


subsection \<open>Size options\<close>

text \<open>Decimal notation, the reference for \<open>atoi\<close> and \<open>GetSzOption\<close>.\<close>

fun show_nat :: "nat \<Rightarrow> string" where
  "show_nat n = (if n < 10 then [char_of (48 + n)] else show_nat (n div 10) @ [char_of (48 + n mod 10)])"

declare show_nat.simps [simp del]

lemma digits_val_snoc: "digits_val (ds @ [c]) = 10 * digits_val ds + digit_val c"
  by (simp add: digits_val_def)

lemma digit_char: "n < 10 \<Longrightarrow> isdigit (char_of (48 + n :: nat)) \<and> digit_val (char_of (48 + n)) = int n"
  by (simp add: isdigit_def digit_val_def of_char_of)

lemma digits_val_show_nat: "digits_val (show_nat n) = int n"
proof (induction n rule: show_nat.induct)
  case (1 n)
  show ?case
  proof (cases "n < 10")
    case True
    then show ?thesis
      by (subst show_nat.simps) (simp add: digits_val_def digit_char)
  next
    case False
    then show ?thesis
      using 1 digit_char [of "n mod 10"]
      by (subst show_nat.simps) (simp add: digits_val_snoc zdiv_int zmod_int)
  qed
qed

lemma show_nat_digits: "c \<in> set (show_nat n) \<Longrightarrow> isdigit c"
proof (induction n rule: show_nat.induct)
  case (1 n)
  show ?case
  proof (cases "n < 10")
    case True
    with "1.prems" show ?thesis
      by (subst (asm) show_nat.simps) (simp add: digit_char)
  next
    case False
    with 1 digit_char [of "n mod 10"] show ?thesis
      by (subst (asm) (2) show_nat.simps) auto
  qed
qed

lemma show_nat_Cons: obtains c cs where "show_nat n = c # cs" "isdigit c"
proof -
  have "show_nat n \<noteq> []" by (subst show_nat.simps) simp
  then obtain c cs where "show_nat n = c # cs" by (cases "show_nat n") auto
  with show_nat_digits [of c n] that show ?thesis by auto
qed

lemma isdigit_not_space [simp]:
  "isdigit c \<Longrightarrow> \<not> isspace c \<and> c \<noteq> CHR ''-'' \<and> c \<noteq> CHR ''+''"
  by (auto simp: isdigit_def isspace_def)

lemma atoi_show_nat:
  assumes "rest = [] \<or> \<not> isdigit (hd rest)"
  shows "atoi (show_nat n @ rest) = chk_int (int n)"
proof -
  obtain c cs where c: "show_nat n = c # cs" "isdigit c" by (rule show_nat_Cons)
  have "takeWhile isdigit (show_nat n @ rest) = show_nat n"
    using assms show_nat_digits [of _ n] by (cases rest) (auto simp: takeWhile_append)
  then show ?thesis
    using c digits_val_show_nat [of n] by (simp add: atoi_def)
qed

lemma GetSzOption_show_nat:
  assumes "rest = [] \<or> \<not> isdigit (hd rest)"
  shows "GetSzOption scale (show_nat n @ rest) =
    (case rest of
       [] \<Rightarrow> rbind (chk_int (int n)) (\<lambda>n. chk_int (scale * n))
     | c # _ \<Rightarrow>
         if c = CHR ''k'' \<or> c = CHR ''K'' then rbind (chk_int (int n)) (\<lambda>n. chk_int (1024 * n))
         else if c = CHR ''m'' \<or> c = CHR ''M'' then rbind (chk_int (int n)) (\<lambda>n. chk_int (1024 * 1024 * n))
         else Inr (- 1))"
proof -
  obtain d ds where d: "show_nat n = d # ds" by (rule show_nat_Cons)
  have "dropWhile isdigit (show_nat n @ rest) = rest"
    using assms show_nat_digits [of _ n] by (cases rest) (auto simp: dropWhile_append)
  moreover have "rest \<noteq> show_nat n @ rest" using d by auto
  ultimately show ?thesis
    using atoi_show_nat [OF assms, of n]
    by (simp add: GetSzOption_def Let_def del: dropWhile_eq_Nil_conv split: list.split)
qed

text \<open>C16. A size option. A decimal numeral alone denotes the number times the default scale; followed
  by \<open>k\<close> or \<open>K\<close> the number times 1024, by \<open>m\<close> or \<open>M\<close> the number times 1024*1024, whatever text
  comes after the letter. A number or a product that does not fit an \<open>int\<close> is undefined behaviour (as
  for \<open>@SMLalloc=2048m\<close>). A numeral followed by any other character, and text without a leading
  digit, are rejected with \<open>-1\<close>.\<close>

theorem GetSzOption_numeral:
  assumes "0 < scale"
  shows "GetSzOption scale (show_nat n) =
           (if scale * int n \<le> INT_MAX then Inr (scale * int n) else Inl (Fault ''signed overflow''))
       \<and> (\<forall>c tail. c \<in> {CHR ''k'', CHR ''K''} \<longrightarrow> GetSzOption scale (show_nat n @ c # tail) =
           (if 1024 * int n \<le> INT_MAX then Inr (1024 * int n) else Inl (Fault ''signed overflow'')))
       \<and> (\<forall>c tail. c \<in> {CHR ''m'', CHR ''M''} \<longrightarrow> GetSzOption scale (show_nat n @ c # tail) =
           (if 1024 * 1024 * int n \<le> INT_MAX then Inr (1024 * 1024 * int n) else Inl (Fault ''signed overflow'')))
       \<and> (\<forall>c tail. \<not> isdigit c \<and> c \<notin> {CHR ''k'', CHR ''K'', CHR ''m'', CHR ''M''} \<longrightarrow>
           GetSzOption scale (show_nat n @ c # tail) = Inr (- 1))
       \<and> (\<forall>s. s = [] \<or> \<not> isdigit (hd s) \<longrightarrow> GetSzOption scale s = Inr (- 1))"
proof (intro conjI allI impI)
  have chk: "rbind (chk_int (int n)) (\<lambda>n. chk_int (m * n)) =
      (if m * int n \<le> INT_MAX then Inr (m * int n) else Inl (Fault ''signed overflow''))" if "0 < m" for m
  proof -
    have "0 \<le> m * int n" "int n \<le> m * int n" using that mult_le_mono1 [of 1 "nat m" n] by (auto simp: mult_le_cancel_right1)
    then show ?thesis by (auto simp: chk_int_def in_int_def)
  qed
  show "GetSzOption scale (show_nat n) =
      (if scale * int n \<le> INT_MAX then Inr (scale * int n) else Inl (Fault ''signed overflow''))"
    using GetSzOption_show_nat [of "[]" scale n] chk [OF assms] by simp
  fix c tail
  have *: "GetSzOption scale (show_nat n @ c # tail) =
      (if c = CHR ''k'' \<or> c = CHR ''K'' then rbind (chk_int (int n)) (\<lambda>n. chk_int (1024 * n))
       else if c = CHR ''m'' \<or> c = CHR ''M'' then rbind (chk_int (int n)) (\<lambda>n. chk_int (1024 * 1024 * n))
       else Inr (- 1))" if "\<not> isdigit c"
    using GetSzOption_show_nat [of "c # tail" scale n] that by simp
  show "GetSzOption scale (show_nat n @ c # tail) =
      (if 1024 * int n \<le> INT_MAX then Inr (1024 * int n) else Inl (Fault ''signed overflow''))"
    if "c \<in> {CHR ''k'', CHR ''K''}"
  proof -
    have "\<not> isdigit c" using that by (auto simp: isdigit_def)
    from * [OF this] that chk [of 1024] show ?thesis by auto
  qed
  show "GetSzOption scale (show_nat n @ c # tail) =
      (if 1024 * 1024 * int n \<le> INT_MAX then Inr (1024 * 1024 * int n) else Inl (Fault ''signed overflow''))"
    if "c \<in> {CHR ''m'', CHR ''M''}"
  proof -
    have "\<not> isdigit c" using that by (auto simp: isdigit_def)
    from * [OF this] that chk [of "1024 * 1024"] show ?thesis by auto
  qed
  show "GetSzOption scale (show_nat n @ c # tail) = Inr (- 1)"
    if "\<not> isdigit c \<and> c \<notin> {CHR ''k'', CHR ''K'', CHR ''m'', CHR ''M''}"
    using * that by auto
next
  fix s :: string
  assume "s = [] \<or> \<not> isdigit (hd s)"
  then show "GetSzOption scale s = Inr (- 1)" by (cases s) (auto simp: GetSzOption_def)
qed

theorem GetSzOption_numeral_witness:
  "GetSzOption 1024 (show_nat 256) = Inr 262144
   \<and> GetSzOption 1024 (show_nat 3 @ ''M'') = Inr 3145728
   \<and> GetSzOption 1024 (show_nat 2048 @ ''m'') = Inl (Fault ''signed overflow'')"
  using GetSzOption_numeral [of 1024 256] GetSzOption_numeral [of 1024 3] GetSzOption_numeral [of 1024 2048] by simp

subsection \<open>Heap parameters\<close>

definition hp_ok :: "heap_params \<Rightarrow> bool" where
  "hp_ok p \<longleftrightarrow> (hp_allocSz p = 0 \<or> MIN_ALLOC_SZB \<le> hp_allocSz p)
      \<and> (hp_numGens p = - 1 \<or> (1 \<le> hp_numGens p \<and> hp_numGens p \<le> MAX_NGENS))
      \<and> (hp_cacheGen p = - 1 \<or> (0 \<le> hp_cacheGen p \<and> hp_cacheGen p \<le> MAX_NGENS))"

lemma hp_ok_updates:
  "hp_ok p \<Longrightarrow> hp_ok (p\<lparr>hp_allocSz := at_least 131072 z\<rparr>)"
  "hp_ok p \<Longrightarrow> hp_ok (p\<lparr>hp_numGens := clamp 1 14 n\<rparr>)"
  "hp_ok p \<Longrightarrow> hp_ok (p\<lparr>hp_cacheGen := clamp 0 14 n\<rparr>)"
  by (auto simp: hp_ok_def clamp_def at_least_def)

lemma heap_option_ok:
  "heap_option arg (p, e, ul) = Inr (k, q, e', ul') \<Longrightarrow> hp_ok p \<Longrightarrow> hp_ok q"
  by (auto simp: hp_ok_updates Let_def split: option.splits if_splits)

lemma parse_heap_loop_ok:
  "parse_heap_loop argv (p, e, ul) = Inr (Some q, ul') \<Longrightarrow> hp_ok p \<Longrightarrow> hp_ok q"
proof (induction argv arbitrary: p e ul)
  case (Cons arg argv)
  from Cons.prems(1) obtain k p' e' u' where
    step: "heap_option arg (p, e, ul) = Inr (k, p', e', u')"
    and rest: "parse_heap_loop argv (p', e', u') = Inr (Some q, ul')"
    by (auto simp del: heap_option.simps split: prod.splits if_splits)
  from Cons.IH [OF rest heap_option_ok [OF step Cons.prems(2)]] show ?case .
qed simp

text \<open>C17. Whatever the command line, the heap parameters that \<open>ParseHeapParams\<close> returns are
  either left at their default marks or lie in the supported ranges: an allocation area of at
  least \<open>MIN_ALLOC_SZB\<close>, between 1 and \<open>MAX_NGENS\<close> generations, a cached generation
  between 0 and \<open>MAX_NGENS\<close>.\<close>

theorem ParseHeapParams_ok:
  assumes "ParseHeapParams argv ul = Inr (Some p, ul')"
  shows "hp_ok p"
  using assms parse_heap_loop_ok unfolding ParseHeapParams_def by (auto simp: hp_ok_def)

theorem ParseHeapParams_ok_witness:
  "ParseHeapParams [''sml'', ''@SMLngens=99'', ''@SMLalloc=1k''] False
     = Inr (Some \<lparr>hp_allocSz = 131072, hp_numGens = 14, hp_cacheGen = - 1\<rparr>, False)
   \<and> hp_ok \<lparr>hp_allocSz = 131072, hp_numGens = 14, hp_cacheGen = - 1\<rparr>"
proof -
  have *: "ParseHeapParams [''sml'', ''@SMLngens=99'', ''@SMLalloc=1k''] False
     = Inr (Some \<lparr>hp_allocSz = 131072, hp_numGens = 14, hp_cacheGen = - 1\<rparr>, False)"
    by (simp add: ParseHeapParams_def isRuntimeOption_def char_at_def GetSzOption_def atoi_def
      isdigit_def isspace_def digits_val_def digit_val_def chk_int_def in_int_def clamp_def at_least_def)
  from * ParseHeapParams_ok [OF *] show ?thesis by simp
qed

text \<open>An option without its value. The argument is a C string, so it has no NUL character.\<close>

definition no_value :: "string \<Rightarrow> bool" where
  "no_value arg \<longleftrightarrow> arg \<in> {''@SMLalloc='', ''@SMLngens='', ''@SMLvmcache=''}"

lemma heap_option_no_value: "no_value arg \<Longrightarrow> heap_option arg (p, e, ul) = Inr (True, p, True, ul)"
  by (auto simp: no_value_def isRuntimeOption_def char_at_def)

lemma copy_option_end:
  "copy_option s = (opt, n) \<Longrightarrow> n = length s \<Longrightarrow> s = opt @ ''=''"
proof (induction s arbitrary: opt n)
  case (Cons c s)
  obtain opt' m where s: "copy_option s = (opt', m)" by fastforce
  with Cons show ?case by (cases "c = CHR ''=''") auto
qed simp

lemma isRuntimeOption_end:
  assumes "isRuntimeOption arg = Some (opt, length arg)"
  shows "arg = ''@SML'' @ opt @ ''=''"
proof -
  from assms obtain n where t: "take 4 arg = ''@SML''" and n: "copy_option (drop 4 arg) = (opt, n)" "4 + n = length arg"
    by (auto simp: isRuntimeOption_def split: if_splits prod.splits)
  then have "n = length (drop 4 arg)" by simp
  from copy_option_end [OF n(1) this] t show ?thesis by (metis append_take_drop_id)
qed

lemma heap_option_value:
  assumes "\<not> no_value arg" "CHR 0x00 \<notin> set arg" "heap_option arg (p, True, ul) = Inr (k, q, e, ul')"
  shows "\<not> k \<and> e"
proof (cases "isRuntimeOption arg")
  case None
  then show ?thesis using assms(3) by simp
next
  case (Some x)
  obtain opt n where x: "x = (opt, n)" by (cases x)
  have "arg ! n \<noteq> CHR 0x00" if "n < length arg" using assms(2) that nth_mem by metis
  moreover have "n = length arg \<Longrightarrow> opt \<notin> {''alloc'', ''ngens'', ''vmcache''}"
    using isRuntimeOption_end [of arg opt] Some x assms(1) by (auto simp: no_value_def)
  ultimately show ?thesis using assms(3) Some x by (auto simp: char_at_def Let_def split: if_splits)
qed

text \<open>C18. An option whose value is missing is an error that \<open>ParseHeapParams\<close> notices late: the
  \<open>continue\<close> of \<open>CHECK\<close> leaves the iteration before \<open>errFlg\<close> is tested. So if the arguments from
  some point on are all options without a value, the parameters are returned as if nothing had
  happened, however many there are; and the first argument after them that is anything else makes
  the result NIL, whether it is an option or not, unless processing it is undefined behaviour.\<close>

theorem ParseHeapParams_missing_value:
  assumes "list_all no_value ms" and "\<not> no_value arg" "CHR 0x00 \<notin> set arg"
  shows "parse_heap_loop ms (p, e, ul) = Inr (Some p, ul)
       \<and> (ms \<noteq> [] \<longrightarrow> parse_heap_loop (ms @ arg # argv) (p, e, ul) =
            rbind (heap_option arg (p, True, ul)) (\<lambda>(_, _, _, ul'). Inr (None, ul')))"
proof -
  have skip: "parse_heap_loop (ms @ argv) (p, e, ul) = parse_heap_loop argv (p, e \<or> ms \<noteq> [], ul)"
    if "list_all no_value ms" for ms argv e
    using that
  proof (induction ms arbitrary: e)
    case (Cons m ms)
    then show ?case by (simp add: heap_option_no_value del: heap_option.simps)
  qed simp
  have arg: "parse_heap_loop (arg # argv) (p, True, ul) =
      rbind (heap_option arg (p, True, ul)) (\<lambda>(_, _, _, ul'). Inr (None, ul'))"
  proof (cases "heap_option arg (p, True, ul)")
    case (Inr x)
    obtain k q e ul' where x: "x = (k, q, e, ul')" by (cases x)
    from heap_option_value [OF assms(2,3) Inr [unfolded x]] show ?thesis by (simp add: Inr x del: heap_option.simps)
  qed (simp del: heap_option.simps)
  from skip [OF assms(1), of "[]"] skip [OF assms(1), of "arg # argv"] arg show ?thesis
    by (cases "ms = []") (simp_all del: heap_option.simps parse_heap_loop.simps(2))
qed

theorem ParseHeapParams_missing_value_witness:
  "let p = \<lparr>hp_allocSz = 0, hp_numGens = - 1, hp_cacheGen = - 1\<rparr> in
   parse_heap_loop [''@SMLalloc='', ''@SMLngens=''] (p, False, False) = Inr (Some p, False)
   \<and> parse_heap_loop [''@SMLalloc='', ''@SMLngens='', ''x''] (p, False, False) = Inr (None, False)"
proof -
  let ?p = "\<lparr>hp_allocSz = 0, hp_numGens = - 1, hp_cacheGen = - 1\<rparr>" and ?ms = "[''@SMLalloc='', ''@SMLngens='']"
  have x: "heap_option ''x'' (?p, True, False) = Inr (False, ?p, True, False)" by (simp add: isRuntimeOption_def)
  have "parse_heap_loop ?ms (?p, False, False) = Inr (Some ?p, False)
      \<and> parse_heap_loop (?ms @ [''x'']) (?p, False, False) = Inr (None, False)"
    using ParseHeapParams_missing_value [of ?ms "''x''" ?p False False "[]"] unfolding x by (simp add: no_value_def del: parse_heap_loop.simps(2))
  then show ?thesis unfolding Let_def append.simps .
qed

subsection \<open>The rest of the command line\<close>

lemma parse_option_args:
  assumes "parse_option fopen arg st = Inr st'"
  shows "CmdLineArgs st' = CmdLineArgs st @ (if isRuntimeOption arg = None then [arg] else [])"
  using assms by (auto simp: parse_option_def Let_def split: option.splits if_splits prod.splits)

lemma parse_options_args:
  "rfold (parse_option fopen) args st = Inr st' \<Longrightarrow>
   CmdLineArgs st' = CmdLineArgs st @ filter (\<lambda>a. isRuntimeOption a = None) args"
proof (induction args arbitrary: st)
  case (Cons a args)
  then obtain st1 where st1: "parse_option fopen a st = Inr st1"
    and "rfold (parse_option fopen) args st1 = Inr st'" by auto
  with Cons.IH [of st1] parse_option_args [OF st1] show ?case by simp
qed simp

text \<open>C19. The arguments handed to the ML program are exactly the command-line arguments after
  the command name that are not run-time options, in their original order, and start-up goes on
  only when no option was in error.\<close>

theorem ParseOptions_args:
  assumes "ParseOptions fopen (cmd # args) st = Inr (hp, st')"
  shows "CmdLineArgs st' = filter (\<lambda>a. isRuntimeOption a = None) args
       \<and> \<not> opt_errFlg st' \<and> hp \<noteq> None"
proof -
  from assms obtain ul where hp: "ParseHeapParams (cmd # args) (UnlimitedHeap st) = Inr (hp, ul)"
    and fold: "rfold (parse_option fopen) args
      (st\<lparr>UnlimitedHeap := ul, opt_errFlg := (hp = None), CmdLineArgs := [], MLCmdName := Some cmd\<rparr>) = Inr st'"
    and err: "\<not> opt_errFlg st'"
    by (auto simp: ParseOptions_def Let_def split: if_splits)
  have "opt_errFlg s \<Longrightarrow> parse_option fopen a s = Inr t \<Longrightarrow> opt_errFlg t" for a s t
    by (auto simp: parse_option_def Let_def split: option.splits if_splits prod.splits)
  then have "rfold (parse_option fopen) as s = Inr t \<Longrightarrow> opt_errFlg s \<Longrightarrow> opt_errFlg t" for as s t
    using rfold_inv [where P = opt_errFlg and f = "parse_option fopen"] by blast
  with fold err have "hp \<noteq> None" by fastforce
  with parse_options_args [OF fold] err show ?thesis by simp
qed

theorem ParseOptions_args_witness:
  "\<exists>st'. ParseOptions (\<lambda>_. True) [''sml'', ''a'', ''@SMLquiet'', ''b''] init_options
      = Inr (Some \<lparr>hp_allocSz = 0, hp_numGens = - 1, hp_cacheGen = - 1\<rparr>, st')
    \<and> CmdLineArgs st' = filter (\<lambda>a. isRuntimeOption a = None) [''a'', ''@SMLquiet'', ''b'']"
proof -
  have *: "ParseOptions (\<lambda>_. True) [''sml'', ''a'', ''@SMLquiet'', ''b''] init_options
      = Inr (Some \<lparr>hp_allocSz = 0, hp_numGens = - 1, hp_cacheGen = - 1\<rparr>,
          init_options\<lparr>UnlimitedHeap := False, opt_errFlg := False, CmdLineArgs := [''a'', ''b''],
            MLCmdName := Some ''sml'', SilentLoad := True\<rparr>)"
    by (simp add: ParseOptions_def ParseHeapParams_def isRuntimeOption_def parse_option_def init_options_def)
  from * ParseOptions_args [OF *] show ?thesis by blast
qed

end
