(* ===== verification/Init_GC.thy ===== *)
theory Init_GC
  imports ML_Objects Options
begin

text \<open>
  Creating and freeing the heap and its statistics, \<open>gc/init-gc.c\<close>. The fields of an arena
  that \<open>InitHeap\<close> does not set keep what \<open>malloc\<close> returned: the parameter \<open>junk\<close>.
\<close>

section \<open>InitHeap\<close>

text \<open>\<open>DfltRatios\<close> lists 7 values for 14 generations; the others are 0.\<close>

definition DfltRatios :: "nat \<Rightarrow> int" where
  "DfltRatios i = (if i = 0 then 20 else if i = 1 then 10 else if i < 7 then 5 else 0)"

definition init_params :: "heap_params \<Rightarrow> heap_params" where
  "init_params p = p\<lparr>hp_allocSz := (if hp_allocSz p = 0 then 512 * 1024 else hp_allocSz p),
     hp_numGens := (if hp_numGens p < 0 then 5 else hp_numGens p),
     hp_cacheGen := (if hp_cacheGen p < 0 then 2 else hp_cacheGen p)\<rparr>"

text \<open>
  The soft maximum size of the arenas of each generation: \<open>max_sz\<close> is an \<open>int\<close>, the size of
  the allocation space an \<open>Addr_t\<close>.
\<close>

fun max_sz :: "addr_t \<Rightarrow> nat \<Rightarrow> int res" where
  "max_sz allocSz 0 = Inr (sint (ucast (6 * allocSz) :: u32))"
| "max_sz allocSz (Suc i) =
     rbind (max_sz allocSz i) (\<lambda>m.
     if INT_MAX < 5 * m \<or> 5 * m < INT_MIN then Inl (Fault ''signed overflow'')
     else Inr (min ((5 * m) sdiv 2) (64 * 1024 * 1024)))"

text \<open>Arenas promote to the next generation, the oldest to itself.\<close>

definition init_arena :: "arena \<Rightarrow> nat \<Rightarrow> nat \<Rightarrow> nat \<Rightarrow> int \<Rightarrow> arena" where
  "init_arena junk numGens i j mx =
     junk\<lparr>a_tospSizeB := 0, a_reqSizeB := 0, a_maxSizeB := of_int mx, a_id := MAKE_AID (i + 1) (j + 1) 0,
       a_nextGen := (if i < numGens then (if i = numGens - 1 then i else i + 1) else a_nextGen junk)\<rparr>"

definition init_gen :: "(nat \<Rightarrow> nat \<Rightarrow> arena) \<Rightarrow> heap_params \<Rightarrow> nat \<Rightarrow> generation list \<Rightarrow> generation list res" where
  "init_gen junk p i gens =
     rbind (max_sz (of_int (hp_allocSz p)) i) (\<lambda>mx.
     Inr (gens @ [\<lparr>g_genNum = i + 1, g_numGCs = 0, g_lastPrevGC = 0, g_ratio = DfltRatios i,
       g_arena = map (\<lambda>j. init_arena (junk i j) (nat (hp_numGens p)) i j mx) [0..<NUM_ARENAS],
       g_bigObjs = 0, g_toObj = None, g_fromObj = None, g_cacheObj = None, g_dirty = None\<rparr>]))"

definition ResetGCStats :: "heap \<Rightarrow> heap" where
  "ResetGCStats h = h\<lparr>
     h_numGCsAtReset := (\<lambda>k. if k = 0 then h_numMinorGCs h
        else if k - 1 < h_numGens h then g_numGCs (h_gen h ! (k - 1)) else h_numGCsAtReset h k),
     h_numAlloc := 0, h_numAlloc1 := 0,
     h_numCopied := (\<lambda>i j. if i < h_numGens h \<and> j < NUM_ARENAS then 0 else h_numCopied h i j)\<rparr>"

text \<open>The first generation's to-space, when there is no heap image to load.\<close>

definition boot_gen :: "env \<Rightarrow> rt \<Rightarrow> rt res" where
  "boot_gen E s =
     (let s1 = fold (\<lambda>j. upd_arena 0 j (\<lambda>a. a\<lparr>a_tospSizeB := RND_MEMOBJ_SZB (2 * h_allocSzB (rt_heap s))\<rparr>)) [0..<NUM_ARENAS] s
      in rbind (NewGeneration (env_mmap E) 0 s1) (\<lambda>(ok, s).
         if \<not> ok then Inl (Die ''unable to allocate initial first generation space'')
         else Inr (fold (\<lambda>j. upd_arena 0 j (\<lambda>a. a\<lparr>a_oldTop := a_tospBase a\<rparr>)) [0..<NUM_ARENAS] s)))"

definition InitHeap :: "env \<Rightarrow> u32 \<Rightarrow> (nat \<Rightarrow> nat \<Rightarrow> arena) \<Rightarrow> bool \<Rightarrow> heap_params \<Rightarrow> rt \<Rightarrow> rt res" where
  "InitHeap E pageSize junk boot p0 s0 =
     (let p = init_params p0; allocSz = (of_int (hp_allocSz p) :: addr_t) in
      rbind (InitMemory (env_fuel E) pageSize (rt_ms s0)) (\<lambda>ms.
      case MEM_AllocMemObj (env_mmap E ms) allocSz ms of
        None \<Rightarrow> Inl (Die ''unable to allocate memory object for allocation spaces'')
      | Some (baseObj, ms) \<Rightarrow>
          rbind (rfold (init_gen junk p) [0..<MAX_NUM_GENS] []) (\<lambda>gens.
          let hdr = rt_fresh s0;
              h = \<lparr>h_allocBase = mo_base baseObj, h_allocSzB = allocSz, h_baseObj = baseObj,
                   h_numGens = nat (hp_numGens p), h_cacheGen = hp_cacheGen p, h_numMinorGCs = 0, h_gen = gens,
                   h_numBORegions = 0, h_bigRegions = 0, h_freeBigObjs = hdr, h_weakList = 0,
                   h_numAlloc = 0, h_numAlloc1 = 0, h_numCopied = (\<lambda>_ _. 0), h_numGCsAtReset = (\<lambda>_. 0)\<rparr>;
              d = \<lparr>bd_obj = 0, bd_sizeB = 0, bd_objc = 0, bd_state = BO_FREE, bd_gen = 0, bd_region = 0,
                   bd_prev = hdr, bd_next = hdr\<rparr>
          in rbind (MarkRegion (mo_base baseObj) (mo_sizeB baseObj) AID_NEW InitBibop) (\<lambda>bb.
             let s = s0\<lparr>rt_ms := ms, rt_bibop := bb, rt_heap := ResetGCStats h, rt_fresh := hdr + 1,
                        rt_desc := (rt_desc s0)(hdr \<mapsto> d)\<rparr>
             in rbind (if boot then boot_gen E s else Inr s) (\<lambda>s.
                Inr (s\<lparr>ml_allocPtr := h_allocBase (rt_heap s), ml_limitPtr := HEAP_LIMIT (rt_heap s)\<rparr>))))))"

text \<open>
  \<open>FreeHeap\<close> frees C structures only: the result is the list of what is passed to \<open>FREE\<close>:
  arenas and generations by position, the header of the free list, and the level-2 tables.
\<close>

datatype freed = Freed_arena nat nat | Freed_gen nat | Freed_boHdr nat | Freed_heap | Freed_l2 nat | Freed_bibop

definition FreeHeap :: "rt \<Rightarrow> freed list" where
  "FreeHeap s = concat (map (\<lambda>i. map (Freed_arena i) [0..<NUM_ARENAS] @ [Freed_gen i]) [0..<MAX_NUM_GENS])
     @ [Freed_boHdr (h_freeBigObjs (rt_heap s)), Freed_heap]
     @ map Freed_l2 (FreeBibop (rt_bibop s)) @ [Freed_bibop]"

section \<open>Statistics\<close>

record gc_stats =
  allocCnt :: word_t
  allocFirstCnt :: word_t
  promoteCnt :: "nat \<Rightarrow> word_t"
  numGCs :: "nat \<Rightarrow> int"
  bytesPerCnt :: nat

definition ROUND_COUNT :: "word_t \<Rightarrow> word_t" where "ROUND_COUNT c = drop_bit 3 (c + 7)"

definition GetGCStats :: "rt \<Rightarrow> gc_stats" where
  "GetGCStats s =
     (let h = rt_heap s; n = h_numGens h in
      \<lparr>allocCnt = ROUND_COUNT (h_numAlloc h + (ml_allocPtr s - h_allocBase h)),
       allocFirstCnt = ROUND_COUNT (h_numAlloc1 h),
       promoteCnt = (\<lambda>i. if i < n then ROUND_COUNT (\<Sum>j \<leftarrow> [0..<NUM_ARENAS]. h_numCopied h i j) else 0),
       numGCs = (\<lambda>k. if k = 0 then h_numMinorGCs h - h_numGCsAtReset h 0
          else if k - 1 < n then g_numGCs (h_gen h ! (k - 1)) - h_numGCsAtReset h k else 0),
       bytesPerCnt = 8\<rparr>)"

end
