(* ===== verification/Run_ML.thy ===== *)
theory Run_ML
  imports Init_GC
begin

text \<open>
  The ML state and the dispatch loop: \<open>kernel/ml-state.c\<close>, the ML-state part of
  \<open>mach-dep/signal-util.c\<close>, \<open>AllocGlobals\<close> of \<open>kernel/globals.c\<close>, and \<open>kernel/run-ml.c\<close>.
  Running ML code (the assembly routine \<open>restoreregs\<close> and the code it enters), calling a C
  function of the libraries and looking one up are the parameters \<open>ext\<close>.
\<close>

section \<open>ml-state.c\<close>

record ext =
  restoreregs :: "int vmop"
  call_cfunc :: "addr_t \<Rightarrow> word_t \<Rightarrow> word_t vmop"
  BindCFun :: "word_t \<Rightarrow> word_t \<Rightarrow> word_t vmop"

definition InitMLState :: "unit vmop" where
  "InitMLState = upd_rt (\<lambda>r. r\<lparr>ml_storePtr := ML_unit\<rparr>)"

definition all_regs :: "addr_t \<Rightarrow> addr_t list" where
  "all_regs msp = [ml_arg msp, ml_cont msp, ml_closure msp, ml_linkReg msp, ml_pc msp, ml_exnCont msp,
     ml_varReg msp, ml_calleeSave0 msp, ml_calleeSave1 msp, ml_calleeSave2 msp]"

text \<open>The four time values are what \<open>malloc\<close> returned.\<close>

definition init_vproc :: "sigconf \<Rightarrow> gc_timers \<Rightarrow> vproc \<Rightarrow> vproc" where
  "init_vproc c junk v = v\<lparr>vp_inMLFlag := False, vp_handlerPending := False, vp_inSigHandler := False,
     vp_totalSigCount := \<lparr>nReceived = 0, nHandled = 0\<rparr>, vp_sigCode := 0, vp_sigCount := 0,
     vp_nextPendingSig := MIN_SYSTEM_SIG c, vp_gcSigState := ML_SIG_IGNORE, vp_gcSigThreshold := 1,
     vp_timers := junk,
     vp_sigCounts := fill (vp_sigCounts v) 0 (SIGMAP_SZ c) \<lparr>nReceived = 0, nHandled = 0\<rparr>\<rparr>"

definition InitVProcState :: "env \<Rightarrow> globals \<Rightarrow> gc_timers \<Rightarrow> unit vmop" where
  "InitVProcState E G junk =
     vthen (upd_vproc (init_vproc (env_sig E) junk))
    (vthen InitMLState
    (vmap (\<lambda>a. st a ML_unit) (all_regs (G_msp G))))"

definition AllocMLState ::
  "env \<Rightarrow> globals \<Rightarrow> u32 \<Rightarrow> (nat \<Rightarrow> nat \<Rightarrow> arena) \<Rightarrow> gc_timers \<Rightarrow> bool \<Rightarrow> heap_params \<Rightarrow> unit vmop" where
  "AllocMLState E G pageSize junk junkT boot params =
     vthen (do_rt (InitHeap E pageSize junk boot params))
    (vthen (InitVProcState E G junkT)
    (upd_vproc (\<lambda>v. v\<lparr>vp_timers := ResetTimers (vp_timers v)\<rparr>)))"

text \<open>What \<open>FreeMLState\<close> frees besides the state vectors themselves.\<close>

definition FreeMLState :: "vm \<Rightarrow> freed list" where
  "FreeMLState s = FreeHeap (vm_rt s)"

text \<open>The values are passed by reference, as a list of addresses. \<open>n\<close> is an \<open>int\<close>.\<close>

definition SaveCState :: "globals \<Rightarrow> addr_t list \<Rightarrow> unit vmop" where
  "SaveCState G vps =
     (let n = length vps in
      vbind (lift_rt (\<lambda>r.
          let r1 = ML_AllocWrite 0 (MAKE_DESC (of_nat n) DTAG_arr_data) r;
              r2 = fold (\<lambda>i r. ML_AllocWrite (i + 1) (rt_mem r (vps ! i)) r) [0..<n] r1
          in Inr (ML_Alloc n r2))) (\<lambda>obj.
      vthen (st (ml_calleeSave0 (G_msp G)) obj)
        (st (ml_cont (G_msp G)) (G_return_c G))))"

text \<open>Taking more arguments than were passed is undefined.\<close>

definition RestoreCState :: "globals \<Rightarrow> addr_t list \<Rightarrow> unit vmop" where
  "RestoreCState G vps =
     vbind (ld (ml_calleeSave0 (G_msp G))) (\<lambda>savedState.
     vbind (ld (savedState - 8)) (\<lambda>d.
     let n = nat (sint (ucast (GET_LEN d) :: u32)) in
     if length vps < n then vfail (Fault ''missing argument'')
     else vmap (\<lambda>i. vbind (REC_SEL savedState i) (st (vps ! i))) [0..<n]))"

section \<open>Resumption continuations\<close>

definition MakeResumeCont :: "globals \<Rightarrow> addr_t \<Rightarrow> word_t vmop" where
  "MakeResumeCont G resume =
     lift_rt (\<lambda>r.
       let m = rt_mem r; msp = G_msp G;
           ws = [resume, m (ml_arg msp), m (ml_cont msp), m (ml_closure msp), m (ml_linkReg msp), m (ml_pc msp),
                 m (ml_exnCont msp), m (ml_calleeSave0 msp), m (ml_calleeSave1 msp), m (ml_calleeSave2 msp)]
       in Inr (alloc_obj (MAKE_DESC 10 DTAG_record) ws r))"

definition MakeHandlerArg :: "globals \<Rightarrow> addr_t \<Rightarrow> word_t vmop" where
  "MakeHandlerArg G resume =
     vbind (MakeResumeCont G resume) (\<lambda>k s.
     lift_rt (\<lambda>r. Inr (ML_Alloc3 (INT_ml (int (vp_sigCode (vm_vproc s)))) (INT_ml (vp_sigCount (vm_vproc s))) k r)) s)"

definition LoadResumeState :: "globals \<Rightarrow> unit vmop" where
  "LoadResumeState G =
     (let msp = G_msp G in
      vbind (ld (ml_closure msp)) (\<lambda>c.
      vmap (\<lambda>(reg, i). vbind (REC_SEL c i) (st reg))
        [(ml_arg msp, 1), (ml_cont msp, 2), (ml_closure msp, 3), (ml_linkReg msp, 4), (ml_pc msp, 5),
         (ml_exnCont msp, 6), (ml_calleeSave0 msp, 7), (ml_calleeSave1 msp, 8), (ml_calleeSave2 msp, 9)]))"

section \<open>Signal masks\<close>

text \<open>
  The mask is the operating system's state, here the set of masked signals; \<open>sigInfo\<close> is the
  generated table of the system's signals. The list of \<open>SetSignalMask\<close> is walked with fuel.
\<close>

fun mask_list :: "nat \<Rightarrow> word_t \<Rightarrow> memory \<Rightarrow> int set \<Rightarrow> int set res" where
  "mask_list fuel l m msk =
     (if l = ML_unit then Inr msk
      else case fuel of
        0 \<Rightarrow> Inl NoFuel
      | Suc fuel \<Rightarrow>
          (let sig = sint (ucast (INT_MLtoC (m (m l))) :: u32) in mask_list fuel (m (l + 8)) m (insert sig msk)))"

declare mask_list.simps [simp del]

definition SetSignalMask :: "env \<Rightarrow> sysconst_tbl \<Rightarrow> word_t \<Rightarrow> rt \<Rightarrow> int set res" where
  "SetSignalMask E sigInfo sigList r =
     (if sigList = ML_unit then Inr {}
      else let l = rt_mem r sigList in
        if l = ML_unit then Inr (fst ` set sigInfo)
        else mask_list (env_fuel E) l (rt_mem r) {})"

fun mask_sigs :: "env \<Rightarrow> globals \<Rightarrow> sysconst_tbl \<Rightarrow> word_t \<Rightarrow> word_t vmop" where
  "mask_sigs E G [] l s = Inr (l, s)"
| "mask_sigs E G (c # cs) l s =
     vbind (ML_CString E G (Some (snd c))) (\<lambda>name.
     vbind (cons (INT_ml (fst c)) name) (\<lambda>sig.
     vbind (cons sig l) (mask_sigs E G cs))) s"

definition GetSignalMask :: "env \<Rightarrow> globals \<Rightarrow> sysconst_tbl \<Rightarrow> int set \<Rightarrow> word_t vmop" where
  "GetSignalMask E G sigInfo msk =
     (let masked = filter (\<lambda>c. fst c \<in> msk) sigInfo in
      if length masked = 0 then vret ML_unit
      else vbind (if length masked = length sigInfo then vret ML_unit else mask_sigs E G masked ML_unit)
        (\<lambda>l. lift_rt (\<lambda>r. Inr (ML_Alloc1 l r))))"

section \<open>AllocGlobals\<close>

text \<open>\<open>G_runvec\<close> lists the nine closures that are not deprecated.\<close>

definition AllocGlobals :: "globals \<Rightarrow> unit vmop" where
  "AllocGlobals G =
     (let v = (\<lambda>i. G_runvec G ! i) in
      vbind (lift_rt (\<lambda>r. Inr (alloc_obj (MAKE_DESC 12 DTAG_record)
        [v 0, v 1, v 2, v 3, v 4, v 5, v 6, v 7, ML_unit, v 8, ML_unit, ML_unit] r))) (\<lambda>RunVec.
      vbind (lift_rt (\<lambda>r. Inr (alloc_obj (MAKE_DESC 12 DTAG_record)
        [RunVec, G_DivId G, G_OverflowId G, G_SysErrId G, G_ProfCurrent G, ML_unit, ML_unit, ML_unit, ML_unit,
         G_PervStruct G, G_MLSignalHandler G, G_vector0 G] r))) (\<lambda>CStruct.
      vbind (lift_rt (\<lambda>r. Inr (ML_Alloc1 CStruct r))) (st (G_RunTimeCompUnit G)))))"

section \<open>run-ml.c\<close>

definition RaiseMLExn :: "globals \<Rightarrow> word_t \<Rightarrow> unit vmop" where
  "RaiseMLExn G exn =
     (let msp = G_msp G in
      vbind (ld (ml_exnCont msp)) (\<lambda>kont.
      vthen (st (ml_arg msp) exn)
     (vthen (st (ml_closure msp) kont)
     (vthen (st (ml_cont msp) ML_unit)
     (vbind (REC_SEL kont 0) (\<lambda>code.
      vthen (st (ml_linkReg msp) code) (st (ml_pc msp) code)))))))"

text \<open>At most \<open>n\<close> bytes of the C string at \<open>a\<close>.\<close>

fun cstring_at :: "nat \<Rightarrow> addr_t \<Rightarrow> memory \<Rightarrow> byte_t list" where
  "cstring_at 0 a m = []"
| "cstring_at (Suc n) a m = (if byte_at a m = 0 then [] else byte_at a m # cstring_at n (a + 1) m)"

text \<open>\<open>"<file %.184s>"\<close> and \<open>"<unknown file>"\<close>\<close>

definition file_loc :: "byte_t list \<Rightarrow> byte_t list" where
  "file_loc name = [0x3c, 0x66, 0x69, 0x6c, 0x65, 0x20] @ name @ [0x3e]"

definition unknown_file :: "byte_t list" where
  "unknown_file = [0x3c, 0x75, 0x6e, 0x6b, 0x6e, 0x6f, 0x77, 0x6e, 0x20, 0x66, 0x69, 0x6c, 0x65, 0x3e]"

text \<open>Raising \<open>Overflow\<close> for the code at \<open>pc\<close>: the bodies of two requests.\<close>

definition raise_overflow :: "env \<Rightarrow> globals \<Rightarrow> addr_t \<Rightarrow> unit vmop" where
  "raise_overflow E G pc =
     vbind (lift_rt (\<lambda>r. rbind (BO_AddrToCodeObjTag pc r) (\<lambda>x. Inr (x, r)))) (\<lambda>tag.
     vbind (read_rt (\<lambda>r. case tag of Some a \<Rightarrow> file_loc (cstring_at 184 a (rt_mem r)) | None \<Rightarrow> unknown_file)) (\<lambda>buf.
     vbind (ML_CString E G (Some buf)) (\<lambda>loc.
     vbind (cons loc ML_unit) (\<lambda>traceStk.
     vbind (lift_rt (\<lambda>r. Inr (ML_Alloc3 (G_OverflowId G) ML_unit traceStk r)))
       (RaiseMLExn G)))))"

text \<open>
  \<open>UncaughtExn\<close>: the message is built in a buffer of 1024 bytes, which a long string value or
  location overflows; otherwise the run-time system dies. \<open>%.*s\<close> takes an \<open>int\<close>, and a
  negative precision is none.
\<close>

fun digits :: "nat \<Rightarrow> nat" where
  "digits n = (if n < 10 then 1 else Suc (digits (n div 10)))"

declare digits.simps [simp del]

definition seq_text :: "nat \<Rightarrow> word_t \<Rightarrow> memory \<Rightarrow> nat" where
  "seq_text fuel p m =
     (let prec = sint (ucast (INT_MLtoC (m (p + 8))) :: u32) in
      length (cstring_at (if prec < 0 then fuel else nat prec) (m p) m))"

fun last_trace :: "nat \<Rightarrow> word_t \<Rightarrow> memory \<Rightarrow> word_t res" where
  "last_trace 0 l m = Inl NoFuel"
| "last_trace (Suc fuel) l m = (if m (l + 8) = ML_unit then Inr l else last_trace fuel (m (l + 8)) m)"

definition UncaughtExn :: "env \<Rightarrow> word_t \<Rightarrow> rt \<Rightarrow> rt_error" where
  "UncaughtExn E e r =
     (let m = rt_mem r; fuel = env_fuel E; val = m (e + 8); traceBack = m (e + 16);
          i = sint val div 2;
          n1 = (if isUNBOXED val then (if i < 0 then 1 else 0) + digits (nat \<bar>i\<bar>) + 1
                else if m (val - 8) = DESC_string then seq_text fuel val m + 2 else 9)
      in if 1024 < n1 + 1 then Fault ''buffer overflow''
      else if traceBack = ML_unit then Die ''Uncaught exception''
      else case last_trace fuel traceBack m of
          Inl e \<Rightarrow> e
        | Inr l \<Rightarrow> if 1024 < n1 + 11 + seq_text fuel (m l) m + 1 then Fault ''buffer overflow''
                   else Die ''Uncaught exception'')"

abbreviation (input) REQ_GC :: int where "REQ_GC \<equiv> 0"
abbreviation (input) REQ_RETURN :: int where "REQ_RETURN \<equiv> 1"
abbreviation (input) REQ_EXN :: int where "REQ_EXN \<equiv> 2"
abbreviation (input) REQ_FAULT :: int where "REQ_FAULT \<equiv> 3"
abbreviation (input) REQ_BIND_CFUN :: int where "REQ_BIND_CFUN \<equiv> 4"
abbreviation (input) REQ_CALLC :: int where "REQ_CALLC \<equiv> 5"
abbreviation (input) REQ_ALLOC_STRING :: int where "REQ_ALLOC_STRING \<equiv> 6"
abbreviation (input) REQ_ALLOC_BYTEARRAY :: int where "REQ_ALLOC_BYTEARRAY \<equiv> 7"
abbreviation (input) REQ_ALLOC_REALDARRAY :: int where "REQ_ALLOC_REALDARRAY \<equiv> 8"
abbreviation (input) REQ_ALLOC_ARRAY :: int where "REQ_ALLOC_ARRAY \<equiv> 9"
abbreviation (input) REQ_ALLOC_VECTOR :: int where "REQ_ALLOC_VECTOR \<equiv> 10"
abbreviation (input) REQ_SIG_RETURN :: int where "REQ_SIG_RETURN \<equiv> 11"
abbreviation (input) REQ_SIG_RESUME :: int where "REQ_SIG_RESUME \<equiv> 12"
abbreviation (input) REQ_RAISE_OVERFLOW :: int where "REQ_RAISE_OVERFLOW \<equiv> 13"

text \<open>A \<open>REQ_GC\<close> request: a pending signal handler is invoked, otherwise it is a collection.\<close>

definition invoke_handler :: "env \<Rightarrow> globals \<Rightarrow> unit vmop" where
  "invoke_handler E G =
     (let msp = G_msp G in
      vbind (read_rt (NeedGC (1024 * 8))) (\<lambda>gc.
      vthen (if gc then InvokeGC E G 0 else vret ())
     (vthen (\<lambda>s. rbind (ChooseSignal (env_fuel E) (env_sig E) (vm_vproc s)) (\<lambda>v. Inr ((), s\<lparr>vm_vproc := v\<rparr>)))
     (vbind (MakeHandlerArg G (G_sigh_resume G)) (\<lambda>arg.
      vthen (st (ml_arg msp) arg)
     (vthen (st (ml_cont msp) (G_sigh_return_c G))
     (vthen (st (ml_exnCont msp) (G_handle G))
     (vbind (ld (G_MLSignalHandler G)) (\<lambda>closure.
      vthen (st (ml_closure msp) closure)
     (vbind (REC_SEL closure 0) (\<lambda>code.
      vthen (st (ml_linkReg msp) code)
     (vthen (st (ml_pc msp) code)
     (upd_vproc (\<lambda>v. v\<lparr>vp_inSigHandler := True, vp_handlerPending := False\<rparr>))))))))))))))"

text \<open>Storing the result of an allocation request and returning to ML.\<close>

definition alloc_request :: "globals \<Rightarrow> word_t vmop \<Rightarrow> unit vmop" where
  "alloc_request G alloc =
     vbind alloc (\<lambda>v. vthen (st (ml_arg (G_msp G)) v) (SETUP_RETURN G))"

text \<open>\<open>REQ_CALLC\<close>: with \<open>INDIRECT_CFUNC\<close> the function is found through a binding.\<close>

definition callc_request :: "env \<Rightarrow> globals \<Rightarrow> ext \<Rightarrow> unit vmop" where
  "callc_request E G X =
     (let msp = G_msp G in
      vthen (SETUP_RETURN G)
     (vbind (read_rt (NeedGC (8 * 1024))) (\<lambda>gc.
      vthen (if gc then InvokeGC E G 0 else vret ())
     (vbind (ld (ml_arg msp)) (\<lambda>a.
      vbind (REC_SEL a 0) (\<lambda>b.
      vbind (ld (b + 8)) (\<lambda>f.
      vbind (REC_SEL a 1) (\<lambda>arg.
      vbind (call_cfunc X f arg) (st (ml_arg msp))))))))))"

text \<open>One request; the result says whether \<open>RunML\<close> returns.\<close>

definition dispatch :: "env \<Rightarrow> globals \<Rightarrow> ext \<Rightarrow> int \<Rightarrow> bool vmop" where
  "dispatch E G X request =
     (let msp = G_msp G;
          continue = (\<lambda>f. vthen f (vret False));
          arg = ld (ml_arg msp)
      in if request = REQ_GC then
           (\<lambda>s. if vp_handlerPending (vm_vproc s) then continue (invoke_handler E G) s
                else continue (InvokeGC E G 0) s)
         else if request = REQ_RETURN then vthen (InvokeGC E G 0) (vret True)
         else if request = REQ_EXN then vbind arg (\<lambda>e s. Inl (UncaughtExn E e (vm_rt s)))
         else if request = REQ_FAULT then (\<lambda>s. continue (raise_overflow E G (vm_faultPC s)) s)
         else if request = REQ_RAISE_OVERFLOW then vbind (ld (ml_pc msp)) (\<lambda>pc. continue (raise_overflow E G pc))
         else if request = REQ_BIND_CFUN then
           vbind arg (\<lambda>a. vbind (REC_SEL a 0) (\<lambda>x. vbind (REC_SEL a 1) (\<lambda>y.
           vbind (ld x) (\<lambda>modName. vbind (ld y) (\<lambda>funName.
           continue (alloc_request G (BindCFun X modName funName)))))))
         else if request = REQ_CALLC then continue (callc_request E G X)
         else if request = REQ_ALLOC_STRING then
           vbind arg (\<lambda>a. continue (alloc_request G (ML_AllocString E G (INT_MLtoC a))))
         else if request = REQ_ALLOC_BYTEARRAY then
           vbind arg (\<lambda>a. continue (alloc_request G (ML_AllocBytearray E G (INT_MLtoC a))))
         else if request = REQ_ALLOC_REALDARRAY then
           vbind arg (\<lambda>a. continue (alloc_request G (ML_AllocRealdarray E G (INT_MLtoC a))))
         else if request = REQ_ALLOC_ARRAY then
           vbind arg (\<lambda>a. vbind (REC_SEL a 0) (\<lambda>n. vbind (REC_SEL a 1) (\<lambda>v.
           continue (alloc_request G (ML_AllocArray E G (INT_MLtoC n) v)))))
         else if request = REQ_ALLOC_VECTOR then
           vbind arg (\<lambda>a. vbind (REC_SEL a 0) (\<lambda>n. vbind (REC_SEL a 1) (\<lambda>v.
           continue (alloc_request G (ML_AllocVector E G (INT_MLtoC n) v)))))
         else if request = REQ_SIG_RETURN then
           vbind arg (\<lambda>k. continue (vthen (SETUP_THROW G k ML_unit) (upd_vproc (\<lambda>v. v\<lparr>vp_inSigHandler := False\<rparr>))))
         else if request = REQ_SIG_RESUME then continue (LoadResumeState G)
         else vfail (Die ''unknown request code''))"

fun run_loop :: "nat \<Rightarrow> env \<Rightarrow> globals \<Rightarrow> ext \<Rightarrow> word_t \<Rightarrow> unit vmop" where
  "run_loop 0 E G X prevProfIndex s = Inl NoFuel"
| "run_loop (Suc n) E G X prevProfIndex s =
     vthen (ASSIGN (G_ProfCurrent G) prevProfIndex)
    (vbind (restoreregs X) (\<lambda>request.
     vbind (ld (G_ProfCurrent G)) (\<lambda>prev.
     vthen (ASSIGN (G_ProfCurrent G) PROF_RUNTIME)
    (vbind (dispatch E G X request) (\<lambda>done.
     if done then vret () else run_loop n E G X prev))))) s"

definition RunML :: "nat \<Rightarrow> env \<Rightarrow> globals \<Rightarrow> ext \<Rightarrow> unit vmop" where
  "RunML n E G X = run_loop n E G X PROF_OTHER"

definition ApplyMLFn :: "nat \<Rightarrow> env \<Rightarrow> globals \<Rightarrow> ext \<Rightarrow> word_t \<Rightarrow> word_t \<Rightarrow> bool \<Rightarrow> word_t vmop" where
  "ApplyMLFn n E G X f arg useCont =
     (let msp = G_msp G in
      vthen InitMLState
     (vthen (st (ml_exnCont msp) (G_handle G))
     (vthen (st (ml_varReg msp) ML_unit)
     (vthen (st (ml_arg msp) arg)
     (vthen (if useCont then vret () else st (ml_cont msp) (G_return_c G))
     (vthen (st (ml_closure msp) f)
     (vbind (REC_SEL f 0) (\<lambda>code.
      vthen (st (ml_linkReg msp) code)
     (vthen (st (ml_pc msp) code)
     (vthen (RunML n E G X)
     (ld (ml_arg msp))))))))))))"

end
