(* ===== verification/Signal_Machine.thy ===== *)
theory Signal_Machine
  imports Run_ML
begin

text \<open>
  Signals as a state machine: the handler of the operating system's signals, the collector's
  signal, the check on entering ML, the start and the end of the ML signal handler. The
  invariant relates the counters and the pending flag; choosing a signal is round robin.
\<close>

section \<open>Pending signals\<close>

abbreviation sigs :: "sigconf \<Rightarrow> nat set" where "sigs c \<equiv> {MIN_SYSTEM_SIG c..<SIGMAP_SZ c}"

definition pending :: "vproc \<Rightarrow> nat \<Rightarrow> nat" where
  "pending v i = unat (nReceived (vp_sigCounts v i) - nHandled (vp_sigCounts v i))"

definition total_pending :: "vproc \<Rightarrow> nat" where
  "total_pending v = unat (nReceived (vp_totalSigCount v) - nHandled (vp_totalSigCount v))"

text \<open>The distance from \<open>a\<close> to \<open>i\<close> in the cyclic order of the search.\<close>

definition cdist :: "sigconf \<Rightarrow> nat \<Rightarrow> nat \<Rightarrow> nat" where
  "cdist c a i = (if a < i then i - a else i + (SIGMAP_SZ c - MIN_SYSTEM_SIG c) - a)"

lemma sint_ucast_small: "unat w < 2 ^ 31 \<Longrightarrow> sint (ucast w :: u32) = int (unat (w :: word_t))"
proof -
  assume w: "unat w < 2 ^ 31"
  then have "int (unat w) < 2 ^ 31" by (metis of_nat_less_iff of_nat_numeral of_nat_power)
  moreover have "- (2 ^ 31) \<le> uint w" by (rule order_trans [of _ 0]) simp_all
  ultimately show ?thesis
    using signed_take_bit_int_eq_self [of 31 "uint w"] by (simp add: sint_uint unsigned_ucast_eq take_bit_int_eq_self)
qed

lemma sig_delta_pending: "pending v i < 2 ^ 31 \<Longrightarrow> sig_delta (vp_sigCounts v i) = int (pending v i)"
  unfolding sig_delta_def pending_def by (rule sint_ucast_small)

lemma next_sig_range: "sigconf_ok c \<Longrightarrow> a \<in> sigs c \<Longrightarrow> next_sig c a \<in> sigs c"
  by (auto simp: next_sig_def sigconf_ok_def)

lemma cdist_pos: "sigconf_ok c \<Longrightarrow> a \<in> sigs c \<Longrightarrow> i \<in> sigs c \<Longrightarrow> 0 < cdist c a i \<and> cdist c a i \<le> SIGMAP_SZ c - MIN_SYSTEM_SIG c"
  by (auto simp: cdist_def)

lemma cdist_next: "sigconf_ok c \<Longrightarrow> a \<in> sigs c \<Longrightarrow> i \<in> sigs c \<Longrightarrow> next_sig c a \<noteq> i \<Longrightarrow> cdist c a i = Suc (cdist c (next_sig c a) i)"
  by (auto simp: cdist_def next_sig_def sigconf_ok_def)

lemma search_sig_finds:
  assumes ok: "sigconf_ok c" and small: "\<And>j. j \<in> sigs c \<Longrightarrow> pending v j < 2 ^ 31" and i: "i \<in> sigs c" "pending v i \<noteq> 0"
    and "a \<in> sigs c" "cdist c a i \<le> fuel"
  shows "\<exists>j. search_sig fuel c a v = Inr (j, int (pending v j)) \<and> j \<in> sigs c \<and> pending v j \<noteq> 0 \<and> (j = i \<or> cdist c j i < cdist c a i)"
  using assms(5,6)
proof (induction fuel arbitrary: a)
  case 0
  then show ?case using cdist_pos [OF ok 0(1) i(1)] by simp
next
  case (Suc fuel)
  let ?a = "next_sig c a"
  have a: "?a \<in> sigs c" by (rule next_sig_range [OF ok Suc.prems(1)])
  then have d: "sig_delta (vp_sigCounts v ?a) = int (pending v ?a)" by (intro sig_delta_pending small)
  show ?case
  proof (cases "pending v ?a = 0")
    case True
    then have ne: "?a \<noteq> i" using i(2) by auto
    have e: "cdist c a i = Suc (cdist c ?a i)" by (rule cdist_next [OF ok Suc.prems(1) i(1) ne])
    from Suc.IH [OF a] Suc.prems(2) e obtain j where
      "search_sig fuel c ?a v = Inr (j, int (pending v j))" "j \<in> sigs c" "pending v j \<noteq> 0" "j = i \<or> cdist c j i < cdist c ?a i" by auto
    then show ?thesis using a d True e by (auto simp: Let_def)
  next
    case False
    then have "search_sig (Suc fuel) c a v = Inr (?a, int (pending v ?a))" using a d by (simp add: Let_def)
    moreover have "?a = i \<or> cdist c ?a i < cdist c a i" using cdist_next [OF ok Suc.prems(1) i(1)] by (metis lessI)
    ultimately show ?thesis using a False by auto
  qed
qed

section \<open>The state machine\<close>

text \<open>
  Entering ML: the part of the assembly routine \<open>restoreregs\<close> that deals with signals. Leaving
  it clears the flag.
\<close>

definition enter_ml :: "vproc \<Rightarrow> vproc" where
  "enter_ml v0 = (let v = v0\<lparr>vp_inMLFlag := True\<rparr> in
     if nReceived (vp_totalSigCount v) \<noteq> nHandled (vp_totalSigCount v) \<and> \<not> vp_inSigHandler v
     then v\<lparr>vp_handlerPending := True\<rparr> else v)"

definition leave_ml :: "vproc \<Rightarrow> vproc" where "leave_ml v = v\<lparr>vp_inMLFlag := False\<rparr>"

text \<open>The part of a \<open>REQ_GC\<close> request that concerns the virtual processor.\<close>

definition start_handler :: "nat \<Rightarrow> sigconf \<Rightarrow> vproc \<Rightarrow> vproc res" where
  "start_handler fuel c v = rbind (ChooseSignal fuel c v) (\<lambda>v. Inr (v\<lparr>vp_inSigHandler := True, vp_handlerPending := False\<rparr>))"

text \<open>
  Events: a signal arrives at any time, the rest happens in the order of the dispatch loop.
  Counters are compared as words, so fewer than \<open>2^31 - 1\<close> signals may be outstanding. The ML
  library sets the state of a signal (\<open>sigtbl\<close> functions, which call \<open>SetSignalState\<close>), which for
  \<open>RUNSIG_GC\<close> enables the signal of the collector, and the threshold of that signal (\<open>gc-ctl.c\<close>).
\<close>

datatype sig_event = Arrive nat | SetState int int | Threshold int | Collect int | Enter | Leave | Handle nat | Finish

inductive sig_step :: "nat \<Rightarrow> sigconf \<Rightarrow> vproc \<Rightarrow> sig_event \<Rightarrow> vproc \<Rightarrow> bool" for fuel c where
  arrive: "MIN_SYSTEM_SIG c \<le> sig \<Longrightarrow> sig \<le> MAX_SYSTEM_SIG c \<Longrightarrow> total_pending v < 2 ^ 31 - 1 \<Longrightarrow>
    sig_step fuel c v (Arrive sig) (fst (CSigHandler sig v))"
| set_state: "\<not> vp_inMLFlag v \<Longrightarrow> SetSignalState c sigNum sigState (v, handlers) = Inr (v', handlers') \<Longrightarrow>
    sig_step fuel c v (SetState sigNum sigState) v'"
| threshold: "\<not> vp_inMLFlag v \<Longrightarrow> sig_step fuel c v (Threshold n) (v\<lparr>vp_gcSigThreshold := max 0 n\<rparr>)"
| collect: "\<not> vp_inMLFlag v \<Longrightarrow> total_pending v < 2 ^ 31 - 1 \<Longrightarrow> sig_step fuel c v (Collect n) (GCSignal c n v)"
| enter: "\<not> vp_inMLFlag v \<Longrightarrow> sig_step fuel c v Enter (enter_ml v)"
| leave: "vp_inMLFlag v \<Longrightarrow> sig_step fuel c v Leave (leave_ml v)"
| handle: "\<not> vp_inMLFlag v \<Longrightarrow> vp_handlerPending v \<Longrightarrow> start_handler fuel c v = Inr v' \<Longrightarrow> sig_step fuel c v (Handle (vp_sigCode v')) v'"
| finish: "\<not> vp_inMLFlag v \<Longrightarrow> vp_inSigHandler v \<Longrightarrow> sig_step fuel c v Finish (v\<lparr>vp_inSigHandler := False\<rparr>)"

inductive_cases sig_stepE: "sig_step fuel c v e v'"

inductive sig_run :: "nat \<Rightarrow> sigconf \<Rightarrow> vproc \<Rightarrow> sig_event list \<Rightarrow> vproc \<Rightarrow> bool" for fuel c where
  run_nil: "sig_run fuel c v [] v"
| run_step: "sig_run fuel c v es v' \<Longrightarrow> sig_step fuel c v' e v'' \<Longrightarrow> sig_run fuel c v (es @ [e]) v''"

section \<open>The invariant\<close>

lemma pending_flags [simp]:
  "total_pending (v\<lparr>vp_handlerPending := b\<rparr>) = total_pending v" "pending (v\<lparr>vp_handlerPending := b\<rparr>) = pending v"
  "total_pending (v\<lparr>vp_inSigHandler := b\<rparr>) = total_pending v" "pending (v\<lparr>vp_inSigHandler := b\<rparr>) = pending v"
  "total_pending (v\<lparr>vp_inMLFlag := b\<rparr>) = total_pending v" "pending (v\<lparr>vp_inMLFlag := b\<rparr>) = pending v"
  "total_pending (v\<lparr>vp_limitPtrMask := m\<rparr>) = total_pending v" "pending (v\<lparr>vp_limitPtrMask := m\<rparr>) = pending v"
  "total_pending (v\<lparr>vp_gcSigState := x\<rparr>) = total_pending v" "pending (v\<lparr>vp_gcSigState := x\<rparr>) = pending v"
  "total_pending (v\<lparr>vp_gcSigThreshold := x\<rparr>) = total_pending v" "pending (v\<lparr>vp_gcSigThreshold := x\<rparr>) = pending v"
  by (simp_all add: total_pending_def pending_def fun_eq_iff)

lemma receive_flags [simp]: "vp_nextPendingSig (receive sig v) = vp_nextPendingSig v" "vp_handlerPending (receive sig v) = vp_handlerPending v"
  "vp_inSigHandler (receive sig v) = vp_inSigHandler v" "vp_inMLFlag (receive sig v) = vp_inMLFlag v"
  by (simp_all add: receive_def)

definition sig_inv :: "sigconf \<Rightarrow> vproc \<Rightarrow> bool" where
  "sig_inv c v \<longleftrightarrow> vp_nextPendingSig v \<in> sigs c
     \<and> total_pending v = (\<Sum>i\<in>sigs c. pending v i) \<and> total_pending v < 2 ^ 31
     \<and> (vp_handlerPending v \<longrightarrow> \<not> vp_inSigHandler v \<and> total_pending v \<noteq> 0)
     \<and> (vp_inMLFlag v \<and> \<not> vp_inSigHandler v \<and> total_pending v \<noteq> 0 \<longrightarrow> vp_handlerPending v)"

lemma pending_le: "sig_inv c v \<Longrightarrow> i \<in> sigs c \<Longrightarrow> pending v i \<le> total_pending v"
  unfolding sig_inv_def using member_le_sum [of i "sigs c" "pending v"] by simp

lemma init_inv: "sigconf_ok c \<Longrightarrow> sig_inv c (init_vproc c junk v)"
  by (auto simp: sig_inv_def init_vproc_def total_pending_def pending_def sigconf_ok_def)

lemma succ_small: "unat (a - b) < 2 ^ 31 - 1 \<Longrightarrow> unat (a + 1 - b :: word_t) = unat (a - b) + 1"
proof -
  assume s: "unat (a - b) < 2 ^ 31 - 1"
  have e: "a + 1 - b = (a - b) + 1" by (simp only: diff_add_eq)
  show ?thesis unfolding e using s by (subst unat_word_ariths(1)) simp
qed

lemma receive_inv:
  assumes "sig_inv c v" "sig \<in> sigs c" "total_pending v < 2 ^ 31 - 1"
  shows "total_pending (receive sig v) = total_pending v + 1" "pending (receive sig v) = (pending v)(sig := pending v sig + 1)"
    "(\<Sum>i\<in>sigs c. pending (receive sig v) i) = (\<Sum>i\<in>sigs c. pending v i) + 1"
proof -
  show "total_pending (receive sig v) = total_pending v + 1"
    using assms(3) by (simp add: total_pending_def receive_def succ_small)
  have "pending v sig < 2 ^ 31 - 1" using pending_le [OF assms(1,2)] assms(3) by simp
  then show p: "pending (receive sig v) = (pending v)(sig := pending v sig + 1)"
    by (auto simp: fun_eq_iff pending_def receive_def succ_small)
  show "(\<Sum>i\<in>sigs c. pending (receive sig v) i) = (\<Sum>i\<in>sigs c. pending v i) + 1"
    using assms(2) unfolding p by (simp add: sum.remove [of "sigs c" sig])
qed

lemma arrive_inv:
  assumes "sig_inv c v" "sig \<in> sigs c" "total_pending v < 2 ^ 31 - 1"
  shows "sig_inv c (let v = receive sig v in if vp_inMLFlag v \<and> \<not> vp_handlerPending v \<and> \<not> vp_inSigHandler v then v\<lparr>vp_handlerPending := True\<rparr> else v)"
  using assms receive_inv(1,3) [OF assms] by (auto simp: sig_inv_def Let_def)

lemma sig_inv_mask: "sig_inv c (v\<lparr>vp_limitPtrMask := m\<rparr>) = sig_inv c v"
  by (simp add: sig_inv_def)

lemma CSigHandler_inv:
  assumes "sig_inv c v" "sig \<in> sigs c" "total_pending v < 2 ^ 31 - 1"
  shows "sig_inv c (fst (CSigHandler sig v))"
proof -
  have e: "v\<lparr>vp_limitPtrMask := 0, vp_handlerPending := True\<rparr> = (v\<lparr>vp_handlerPending := True\<rparr>)\<lparr>vp_limitPtrMask := 0\<rparr>" for v :: vproc by simp
  show ?thesis using arrive_inv [OF assms] by (auto simp: CSigHandler_def Let_def sig_inv_mask e split: if_splits)
qed

lemma GCSignal_inv:
  assumes "sigconf_ok c" "sig_inv c v" "total_pending v < 2 ^ 31 - 1"
  shows "sig_inv c (GCSignal c n v)"
proof -
  have "RUNSIG_GC c \<in> sigs c" using assms(1) by (simp add: sigconf_ok_def)
  then show ?thesis using arrive_inv [OF assms(2) _ assms(3), of "RUNSIG_GC c"] assms(2) by (simp add: GCSignal_def Let_def)
qed

text \<open>Setting the state of a signal changes at most the state of the collector's one.\<close>

lemma SetSignalState_vproc: "SetSignalState c g q (v, h) = Inr (v', h') \<Longrightarrow> \<exists>x. v' = v\<lparr>vp_gcSigState := x\<rparr>"
  by (auto simp: SetSignalState_def split: if_splits intro: exI [of _ "vp_gcSigState v"])

lemma sig_inv_gcSig [simp]: "sig_inv c (v\<lparr>vp_gcSigState := x\<rparr>) = sig_inv c v" "sig_inv c (v\<lparr>vp_gcSigThreshold := y\<rparr>) = sig_inv c v"
  by (simp_all add: sig_inv_def)

text \<open>What receiving a signal does, from the system or from the collector.\<close>

definition gc_signal_on :: "sigconf \<Rightarrow> int \<Rightarrow> vproc \<Rightarrow> bool" where
  "gc_signal_on c n v \<longleftrightarrow> vp_gcSigState v = ML_SIG_ENABLED \<and> vp_gcSigThreshold v \<le> n
     \<and> \<not> (vp_inSigHandler v \<and> vp_sigCode v = RUNSIG_GC c)"

lemma GCSignal_counts:
  assumes "sigconf_ok c" "sig_inv c v" "total_pending v < 2 ^ 31 - 1"
  shows "pending (GCSignal c n v) = (if gc_signal_on c n v then (pending v)(RUNSIG_GC c := pending v (RUNSIG_GC c) + 1) else pending v)"
    "total_pending (GCSignal c n v) = total_pending v + (if gc_signal_on c n v then 1 else 0)"
proof -
  have "RUNSIG_GC c \<in> sigs c" using assms(1) by (simp add: sigconf_ok_def)
  note r = receive_inv [OF assms(2) this assms(3)]
  show "pending (GCSignal c n v) = (if gc_signal_on c n v then (pending v)(RUNSIG_GC c := pending v (RUNSIG_GC c) + 1) else pending v)"
    "total_pending (GCSignal c n v) = total_pending v + (if gc_signal_on c n v then 1 else 0)"
    using r(1,2) by (auto simp: GCSignal_def gc_signal_on_def Let_def)
qed

lemma GCSignal_off: "\<not> gc_signal_on c n v \<Longrightarrow> GCSignal c n v = v"
  by (auto simp: GCSignal_def gc_signal_on_def)

lemma CSigHandler_counts:
  assumes "sig_inv c v" "sig \<in> sigs c" "total_pending v < 2 ^ 31 - 1"
  shows "pending (fst (CSigHandler sig v)) = (pending v)(sig := pending v sig + 1)"
    "total_pending (fst (CSigHandler sig v)) = total_pending v + 1"
    "vp_handlerPending (fst (CSigHandler sig v)) = (vp_handlerPending v \<or> vp_inMLFlag v \<and> \<not> vp_inSigHandler v)"
  using receive_inv(1,2) [OF assms] by (auto simp: CSigHandler_def Let_def)

text \<open>Choosing a signal: the first pending one in cyclic order, with its whole count.\<close>

lemma sub_add_self: "unat (r - (h + (r - h)) :: word_t) = 0" by simp

lemma ChooseSignal_spec:
  assumes ok: "sigconf_ok c" and inv: "sig_inv c v" and i: "i \<in> sigs c" "pending v i \<noteq> 0" and fuel: "SIGMAP_SZ c \<le> fuel"
  shows "\<exists>v' j. ChooseSignal fuel c v = Inr v' \<and> vp_sigCode v' = j \<and> vp_nextPendingSig v' = j \<and> j \<in> sigs c \<and> pending v j \<noteq> 0
    \<and> vp_sigCount v' = int (pending v j) \<and> pending v' = (pending v)(j := 0) \<and> total_pending v' = total_pending v - pending v j
    \<and> (j = i \<or> cdist c j i < cdist c (vp_nextPendingSig v) i)
    \<and> vp_inMLFlag v' = vp_inMLFlag v \<and> vp_handlerPending v' = vp_handlerPending v \<and> vp_inSigHandler v' = vp_inSigHandler v"
proof -
  from inv have I: "vp_nextPendingSig v \<in> sigs c" "total_pending v < 2 ^ 31" by (simp_all add: sig_inv_def)
  have small: "pending v j < 2 ^ 31" if "j \<in> sigs c" for j using pending_le [OF inv that] I(2) by simp
  have "cdist c (vp_nextPendingSig v) i \<le> fuel" using cdist_pos [OF ok I(1) i(1)] fuel by linarith
  from search_sig_finds [OF ok small i I(1) this] obtain j where
    j: "search_sig fuel c (vp_nextPendingSig v) v = Inr (j, int (pending v j))" "j \<in> sigs c" "pending v j \<noteq> 0"
      "j = i \<or> cdist c j i < cdist c (vp_nextPendingSig v) i" by blast
  have le: "pending v j \<le> total_pending v" by (rule pending_le [OF inv j(2)])
  let ?d = "of_int (int (pending v j)) :: word_t"
  have d: "?d = nReceived (vp_sigCounts v j) - nHandled (vp_sigCounts v j)" by (simp add: pending_def)
  have "total_pending (v\<lparr>vp_totalSigCount := (vp_totalSigCount v)\<lparr>nHandled := nHandled (vp_totalSigCount v) + ?d\<rparr>\<rparr>) = total_pending v - pending v j"
  proof -
    define T where "T = nReceived (vp_totalSigCount v) - nHandled (vp_totalSigCount v)"
    have dT: "unat ?d = pending v j" by (simp add: pending_def)
    have T: "unat T = total_pending v" by (simp add: T_def total_pending_def)
    have "total_pending (v\<lparr>vp_totalSigCount := (vp_totalSigCount v)\<lparr>nHandled := nHandled (vp_totalSigCount v) + ?d\<rparr>\<rparr>)
        = unat (nReceived (vp_totalSigCount v) - (nHandled (vp_totalSigCount v) + ?d))" by (simp add: total_pending_def)
    also have "\<dots> = unat (T - ?d)" by (simp only: T_def diff_diff_eq)
    also have "\<dots> = unat T - unat ?d" using le by (intro unat_sub) (simp only: word_le_nat_alt dT T)
    finally show ?thesis by (simp only: dT T)
  qed
  note tot = this
  let ?v = "v\<lparr>vp_nextPendingSig := j, vp_sigCode := j, vp_sigCount := int (pending v j),
       vp_sigCounts := (vp_sigCounts v)(j := (vp_sigCounts v j)\<lparr>nHandled := nHandled (vp_sigCounts v j) + ?d\<rparr>),
       vp_totalSigCount := (vp_totalSigCount v)\<lparr>nHandled := nHandled (vp_totalSigCount v) + ?d\<rparr>\<rparr>"
  have "ChooseSignal fuel c v = Inr ?v" unfolding ChooseSignal_def j(1) by simp
  moreover have "pending ?v = (pending v)(j := 0)" unfolding d by (auto simp: fun_eq_iff pending_def)
  moreover have "total_pending ?v = total_pending v - pending v j" using tot by (simp add: total_pending_def)
  ultimately show ?thesis using j(2-4) by (intro exI [of _ ?v] exI [of _ j]) simp
qed

lemma pending_exists: "sig_inv c v \<Longrightarrow> total_pending v \<noteq> 0 \<Longrightarrow> \<exists>i \<in> sigs c. pending v i \<noteq> 0"
  by (auto simp: sig_inv_def)

lemma start_handler_spec:
  assumes ok: "sigconf_ok c" and inv: "sig_inv c v" and i: "i \<in> sigs c" "pending v i \<noteq> 0" and fuel: "SIGMAP_SZ c \<le> fuel"
  shows "\<exists>v' j. start_handler fuel c v = Inr v' \<and> sig_inv c v' \<and> vp_sigCode v' = j \<and> vp_nextPendingSig v' = j \<and> j \<in> sigs c
    \<and> pending v j \<noteq> 0 \<and> vp_sigCount v' = int (pending v j) \<and> pending v' = (pending v)(j := 0)
    \<and> (j = i \<or> cdist c j i < cdist c (vp_nextPendingSig v) i) \<and> vp_inSigHandler v' \<and> \<not> vp_handlerPending v'"
proof -
  from ChooseSignal_spec [OF assms] obtain v1 j where
    1: "ChooseSignal fuel c v = Inr v1" "vp_sigCode v1 = j" "vp_nextPendingSig v1 = j" "j \<in> sigs c" "pending v j \<noteq> 0"
      "vp_sigCount v1 = int (pending v j)" "pending v1 = (pending v)(j := 0)" "total_pending v1 = total_pending v - pending v j"
      "j = i \<or> cdist c j i < cdist c (vp_nextPendingSig v) i" by blast
  have "(\<Sum>k\<in>sigs c. pending v k) = pending v j + (\<Sum>k\<in>sigs c - {j}. pending v k)" using 1(4) by (simp add: sum.remove)
  moreover have "(\<Sum>k\<in>sigs c. pending v1 k) = (\<Sum>k\<in>sigs c - {j}. pending v k)" using 1(4) unfolding 1(7) by (simp add: sum.remove)
  ultimately have "sig_inv c (v1\<lparr>vp_inSigHandler := True, vp_handlerPending := False\<rparr>)"
    using inv 1(3,4,8) by (auto simp: sig_inv_def)
  then show ?thesis using 1 unfolding start_handler_def
    by (intro exI [of _ "v1\<lparr>vp_inSigHandler := True, vp_handlerPending := False\<rparr>"] exI [of _ j]) simp
qed

lemma sig_step_inv:
  assumes ok: "sigconf_ok c" and "sig_step fuel c v e v'" "sig_inv c v" "SIGMAP_SZ c \<le> fuel"
  shows "sig_inv c v'"
  using assms(2-4)
proof cases
  case (arrive sig)
  then have "sig \<in> sigs c" using ok by (simp add: sigconf_ok_def)
  then show ?thesis using arrive assms(3) by (auto intro: CSigHandler_inv)
next
  case handle
  then have "total_pending v \<noteq> 0" using assms(3) unfolding sig_inv_def by blast
  then obtain i where "i \<in> sigs c" "pending v i \<noteq> 0" using pending_exists [OF assms(3)] by blast
  from start_handler_spec [OF ok assms(3) this assms(4)] handle show ?thesis by auto
next
  case enter
  moreover have "nReceived (vp_totalSigCount v) = nHandled (vp_totalSigCount v) \<longleftrightarrow> total_pending v = 0"
    by (simp add: total_pending_def unat_eq_0)
  ultimately show ?thesis using assms(3) by (auto simp: enter_ml_def sig_inv_def Let_def)
next
  case leave
  then show ?thesis using assms(3) by (auto simp: leave_ml_def sig_inv_def simp del: sum_eq_0_iff)
next
  case finish
  then show ?thesis using assms(3) by (auto simp: sig_inv_def)
next
  case set_state
  with SetSignalState_vproc [OF set_state(3)] assms(3) show ?thesis by auto
qed (use assms ok in \<open>auto intro: GCSignal_inv\<close>)

lemma sig_run_inv: "sig_run fuel c v es v' \<Longrightarrow> sigconf_ok c \<Longrightarrow> sig_inv c v \<Longrightarrow> SIGMAP_SZ c \<le> fuel \<Longrightarrow> sig_inv c v'"
  by (induction rule: sig_run.induct) (auto intro: sig_step_inv)


section \<open>Fairness\<close>

definition is_handle :: "sig_event \<Rightarrow> bool" where "is_handle e \<longleftrightarrow> (\<exists>i. e = Handle i)"

lemma receive_pending_ne: "sig_inv c v \<Longrightarrow> sig \<in> sigs c \<Longrightarrow> total_pending v < 2 ^ 31 - 1 \<Longrightarrow> pending v i \<noteq> 0 \<Longrightarrow> pending (receive sig v) i \<noteq> 0"
  using receive_inv(2) [of c v sig] by simp

lemma sig_step_waits:
  assumes ok: "sigconf_ok c" and st: "sig_step fuel c v e v'" and inv: "sig_inv c v" and fuel: "SIGMAP_SZ c \<le> fuel"
    and i: "i \<in> sigs c" "pending v i \<noteq> 0" "e \<noteq> Handle i"
  shows "pending v' i \<noteq> 0 \<and> cdist c (vp_nextPendingSig v') i + (if is_handle e then 1 else 0) \<le> cdist c (vp_nextPendingSig v) i"
  using st
proof cases
  case (arrive sig)
  then have "sig \<in> sigs c" using ok by (simp add: sigconf_ok_def)
  then show ?thesis using arrive receive_pending_ne [OF inv _ _ i(2)] by (simp add: CSigHandler_def Let_def is_handle_def)
next
  case (collect n)
  have "RUNSIG_GC c \<in> sigs c" using ok by (simp add: sigconf_ok_def)
  then show ?thesis using collect receive_pending_ne [OF inv _ _ i(2)] i(2) by (simp add: GCSignal_def Let_def is_handle_def)
next
  case handle
  from start_handler_spec [OF ok inv i(1,2) fuel] handle i(3) show ?thesis using i(2) by (auto simp: is_handle_def)
next
  case set_state
  with SetSignalState_vproc [OF set_state(3)] i show ?thesis by (auto simp: is_handle_def)
qed (use i in \<open>auto simp: is_handle_def enter_ml_def leave_ml_def Let_def\<close>)

lemma sig_run_waits:
  assumes "sig_run fuel c v es v'" "sigconf_ok c" "sig_inv c v" "SIGMAP_SZ c \<le> fuel" "i \<in> sigs c" "pending v i \<noteq> 0" "Handle i \<notin> set es"
  shows "pending v' i \<noteq> 0 \<and> cdist c (vp_nextPendingSig v') i + length (filter is_handle es) \<le> cdist c (vp_nextPendingSig v) i"
  using assms
proof (induction rule: sig_run.induct)
  case (run_step v es v' e v'')
  then have 1: "pending v' i \<noteq> 0 \<and> cdist c (vp_nextPendingSig v') i + length (filter is_handle es) \<le> cdist c (vp_nextPendingSig v) i" by simp
  have "sig_inv c v'" using run_step.hyps(1) run_step.prems by (auto intro: sig_run_inv)
  from sig_step_waits [OF run_step.prems(1) run_step.hyps(2) this run_step.prems(3,4)] 1 run_step.prems(6)
  show ?case by (auto split: if_splits)
qed simp

section \<open>Properties\<close>

text \<open>C4. In every state that signals, the ML library's settings of the collector's signal,
  collections and the dispatch loop can reach from the initial one, with fewer than \<open>2^31\<close>
  signals outstanding: the total counters agree with the counters of the signals. A system
  signal adds one occurrence of its own; a collection adds one of the collector's signal exactly
  when that signal is enabled, the generations collected reach the threshold and its own handler
  is not running. ML code that is not a signal handler has the pending flag set if a signal is
  pending; and if the flag is set, the search of \<open>ChooseSignal\<close> ends, chooses a pending signal,
  reports exactly the number of its occurrences and marks all of them handled.\<close>

theorem signal_dispatch:
  assumes "sigconf_ok c" "SIGMAP_SZ c \<le> fuel" "sig_run fuel c (init_vproc c junk v0) es v"
  shows "total_pending v = (\<Sum>i\<in>sigs c. pending v i)
    \<and> (vp_inMLFlag v \<and> \<not> vp_inSigHandler v \<and> total_pending v \<noteq> 0 \<longrightarrow> vp_handlerPending v)
    \<and> (total_pending v < 2 ^ 31 - 1 \<longrightarrow>
         (\<forall>sig. MIN_SYSTEM_SIG c \<le> sig \<and> sig \<le> MAX_SYSTEM_SIG c \<longrightarrow>
            pending (fst (CSigHandler sig v)) = (pending v)(sig := pending v sig + 1)
          \<and> total_pending (fst (CSigHandler sig v)) = total_pending v + 1
          \<and> vp_handlerPending (fst (CSigHandler sig v)) =
              (vp_handlerPending v \<or> vp_inMLFlag v \<and> \<not> vp_inSigHandler v))
       \<and> (\<forall>n. if vp_gcSigState v = ML_SIG_ENABLED \<and> vp_gcSigThreshold v \<le> n
                 \<and> \<not> (vp_inSigHandler v \<and> vp_sigCode v = RUNSIG_GC c)
              then pending (GCSignal c n v) = (pending v)(RUNSIG_GC c := pending v (RUNSIG_GC c) + 1)
                 \<and> total_pending (GCSignal c n v) = total_pending v + 1
              else GCSignal c n v = v))
    \<and> (vp_handlerPending v \<longrightarrow> (\<exists>v' j. start_handler fuel c v = Inr v' \<and> j \<in> sigs c \<and> pending v j \<noteq> 0
         \<and> vp_sigCode v' = j \<and> vp_sigCount v' = int (pending v j) \<and> pending v' = (pending v)(j := 0)
         \<and> vp_inSigHandler v' \<and> \<not> vp_handlerPending v'))"
proof -
  have inv: "sig_inv c v" by (rule sig_run_inv [OF assms(3,1) init_inv [OF assms(1)] assms(2)])
  have "\<exists>v' j. start_handler fuel c v = Inr v' \<and> j \<in> sigs c \<and> pending v j \<noteq> 0
         \<and> vp_sigCode v' = j \<and> vp_sigCount v' = int (pending v j) \<and> pending v' = (pending v)(j := 0)
         \<and> vp_inSigHandler v' \<and> \<not> vp_handlerPending v'" if "vp_handlerPending v"
  proof -
    have "total_pending v \<noteq> 0" using that inv unfolding sig_inv_def by blast
    then obtain i where "i \<in> sigs c" "pending v i \<noteq> 0" using pending_exists [OF inv] by blast
    from start_handler_spec [OF assms(1) inv this assms(2)] show ?thesis by blast
  qed
  moreover have "\<forall>sig. MIN_SYSTEM_SIG c \<le> sig \<and> sig \<le> MAX_SYSTEM_SIG c \<longrightarrow>
            pending (fst (CSigHandler sig v)) = (pending v)(sig := pending v sig + 1)
          \<and> total_pending (fst (CSigHandler sig v)) = total_pending v + 1
          \<and> vp_handlerPending (fst (CSigHandler sig v)) =
              (vp_handlerPending v \<or> vp_inMLFlag v \<and> \<not> vp_inSigHandler v)"
    if "total_pending v < 2 ^ 31 - 1"
    using CSigHandler_counts [OF inv _ that] assms(1) by (auto simp: sigconf_ok_def)
  moreover have "\<forall>n. if vp_gcSigState v = ML_SIG_ENABLED \<and> vp_gcSigThreshold v \<le> n
                 \<and> \<not> (vp_inSigHandler v \<and> vp_sigCode v = RUNSIG_GC c)
              then pending (GCSignal c n v) = (pending v)(RUNSIG_GC c := pending v (RUNSIG_GC c) + 1)
                 \<and> total_pending (GCSignal c n v) = total_pending v + 1
              else GCSignal c n v = v" if "total_pending v < 2 ^ 31 - 1"
    unfolding gc_signal_on_def [symmetric] using GCSignal_counts [OF assms(1) inv that] GCSignal_off by simp
  ultimately show ?thesis using inv unfolding sig_inv_def by blast
qed

text \<open>C5. No signal starves, the collector's own included: while a pending signal waits, fewer handlers of other signals are
  started than there are signals.\<close>

theorem signal_fairness:
  assumes "sigconf_ok c" "SIGMAP_SZ c \<le> fuel" "sig_run fuel c (init_vproc c junk v0) es0 v"
    and "i \<in> sigs c" "pending v i \<noteq> 0" "sig_run fuel c v es v'" "Handle i \<notin> set es"
  shows "length (filter is_handle es) < SIGMAP_SZ c - MIN_SYSTEM_SIG c"
proof -
  have inv: "sig_inv c v" by (rule sig_run_inv [OF assms(3,1) init_inv [OF assms(1)] assms(2)])
  have inv': "sig_inv c v'" by (rule sig_run_inv [OF assms(6,1) inv assms(2)])
  have n: "vp_nextPendingSig v \<in> sigs c" "vp_nextPendingSig v' \<in> sigs c" using inv inv' by (simp_all add: sig_inv_def)
  from sig_run_waits [OF assms(6,1) inv assms(2,4,5,7)] cdist_pos [OF assms(1) n(1) assms(4)] cdist_pos [OF assms(1) n(2) assms(4)]
  show ?thesis by linarith
qed


section \<open>Witnesses\<close>

text \<open>Two system signals and the collection signal; signals 2 and 1 arrive in ML code.\<close>

definition ex_conf :: sigconf where
  "ex_conf = \<lparr>MIN_SYSTEM_SIG = 1, MAX_SYSTEM_SIG = 2, RUNSIG_GC = 3, SIGMAP_SZ = 4\<rparr>"

definition ex_timers :: gc_timers where
  "ex_timers = (let z = \<lparr>seconds = 0, uSeconds = 0\<rparr> in \<lparr>vp_gcUsrTime0 = z, vp_gcSysTime0 = z, vp_gcUsrTime = z, vp_gcSysTime = z\<rparr>)"

definition ex_vproc0 :: vproc where
  "ex_vproc0 = \<lparr>vp_inMLFlag = True, vp_handlerPending = True, vp_inSigHandler = True, vp_totalSigCount = \<lparr>nReceived = 7, nHandled = 0\<rparr>,
     vp_sigCounts = (\<lambda>_. \<lparr>nReceived = 1, nHandled = 0\<rparr>), vp_sigCode = 0, vp_sigCount = 0, vp_nextPendingSig = 0, vp_gcSigState = 0,
     vp_gcSigThreshold = 0, vp_timers = ex_timers, vp_limitPtrMask = 1\<rparr>"

definition ex_start :: vproc where "ex_start = init_vproc ex_conf ex_timers ex_vproc0"

definition ex_signals :: vproc where
  "ex_signals = leave_ml (fst (CSigHandler 1 (fst (CSigHandler 2 (enter_ml ex_start)))))"

lemmas ex_sig_defs = ex_signals_def ex_start_def init_vproc_def ex_vproc0_def ex_conf_def enter_ml_def leave_ml_def
  CSigHandler_def receive_def total_pending_def pending_def

lemma ex_sig_run: "sig_run 4 ex_conf ex_start [Enter, Arrive 2, Arrive 1, Leave] ex_signals"
proof -
  let ?a = "enter_ml ex_start"
  let ?b = "fst (CSigHandler 2 ?a)"
  let ?c = "fst (CSigHandler 1 ?b)"
  have "sig_run 4 ex_conf ex_start ([] @ [Enter]) ?a"
    by (rule run_step [OF run_nil enter]) (simp add: ex_sig_defs)
  then have "sig_run 4 ex_conf ex_start (([] @ [Enter]) @ [Arrive 2]) ?b"
    by (rule run_step [OF _ arrive]) (simp_all add: ex_sig_defs)
  then have "sig_run 4 ex_conf ex_start ((([] @ [Enter]) @ [Arrive 2]) @ [Arrive 1]) ?c"
    by (rule run_step [OF _ arrive]) (simp_all add: ex_sig_defs)
  then have "sig_run 4 ex_conf ex_start (((([] @ [Enter]) @ [Arrive 2]) @ [Arrive 1]) @ [Leave]) (leave_ml ?c)"
    by (rule run_step [OF _ leave]) (simp add: ex_sig_defs)
  then show ?thesis by (simp add: ex_signals_def)
qed

lemma ex_sig_ok: "sigconf_ok ex_conf" "SIGMAP_SZ ex_conf \<le> 4" "vp_handlerPending ex_signals" "pending ex_signals 1 = 1" "\<not> vp_inMLFlag ex_signals"
  by (simp_all add: sigconf_ok_def ex_sig_defs)

text \<open>In this run the collector's signal is enabled and pending too, from before ML is entered.\<close>

definition ex_gc_start :: vproc where
  "ex_gc_start = GCSignal ex_conf 1 (ex_start\<lparr>vp_gcSigState := ML_SIG_ENABLED, vp_gcSigThreshold := 0\<rparr>)"

definition ex_gc_signals :: vproc where
  "ex_gc_signals = leave_ml (fst (CSigHandler 1 (fst (CSigHandler 2 (enter_ml ex_gc_start)))))"

lemmas ex_gc_defs = ex_gc_signals_def ex_gc_start_def GCSignal_def SetSignalState_def ex_sig_defs

lemma ex_gc_run: "sig_run 4 ex_conf ex_start [SetState 3 2, Threshold (- 5), Collect 1, Enter, Arrive 2, Arrive 1, Leave] ex_gc_signals"
proof -
  let ?s = "ex_start\<lparr>vp_gcSigState := ML_SIG_ENABLED\<rparr>"
  let ?t = "?s\<lparr>vp_gcSigThreshold := max 0 (- 5)\<rparr>"
  have t: "ex_gc_start = GCSignal ex_conf 1 ?t" by (simp add: ex_gc_start_def)
  have "SetSignalState ex_conf 3 2 (ex_start, h) = Inr (?s, h)" for h by (simp add: SetSignalState_def ex_conf_def)
  then have "sig_run 4 ex_conf ex_start ([] @ [SetState 3 2]) ?s"
    by (intro run_step [OF run_nil set_state]) (simp_all add: ex_sig_defs)
  then have "sig_run 4 ex_conf ex_start ([SetState 3 2] @ [Threshold (- 5)]) ?t"
    by (intro run_step [OF _ threshold]) (simp_all add: ex_sig_defs)
  then have "sig_run 4 ex_conf ex_start ([SetState 3 2, Threshold (- 5)] @ [Collect 1]) ex_gc_start"
    unfolding t by (intro run_step [OF _ collect]) (simp_all add: ex_sig_defs)
  then have "sig_run 4 ex_conf ex_start ([SetState 3 2, Threshold (- 5), Collect 1] @ [Enter]) (enter_ml ex_gc_start)"
    by (intro run_step [OF _ enter]) (simp_all add: ex_gc_defs Let_def)
  then have "sig_run 4 ex_conf ex_start ([SetState 3 2, Threshold (- 5), Collect 1, Enter] @ [Arrive 2]) (fst (CSigHandler 2 (enter_ml ex_gc_start)))"
    by (intro run_step [OF _ arrive]) (simp_all add: ex_gc_defs Let_def)
  then have "sig_run 4 ex_conf ex_start ([SetState 3 2, Threshold (- 5), Collect 1, Enter, Arrive 2] @ [Arrive 1])
      (fst (CSigHandler 1 (fst (CSigHandler 2 (enter_ml ex_gc_start)))))"
    by (intro run_step [OF _ arrive]) (simp_all add: ex_gc_defs Let_def)
  then have "sig_run 4 ex_conf ex_start ([SetState 3 2, Threshold (- 5), Collect 1, Enter, Arrive 2, Arrive 1] @ [Leave]) ex_gc_signals"
    unfolding ex_gc_signals_def by (intro run_step [OF _ leave]) (simp_all add: ex_gc_defs Let_def)
  then show ?thesis by simp
qed

lemma ex_gc_ok: "vp_handlerPending ex_gc_signals" "\<not> vp_inMLFlag ex_gc_signals" "pending ex_gc_signals 3 = 1" "pending ex_gc_signals 2 = 1"
    "total_pending ex_gc_signals = 3" "vp_nextPendingSig ex_gc_signals = 1" "vp_gcSigState ex_gc_signals = ML_SIG_ENABLED"
    "vp_gcSigThreshold ex_gc_signals = 0" "\<not> vp_inSigHandler ex_gc_signals"
  by (simp_all add: ex_gc_defs Let_def)

theorem signal_dispatch_witness:
  "(\<exists>v' j. start_handler 4 ex_conf ex_gc_signals = Inr v' \<and> vp_sigCode v' = j \<and> pending ex_gc_signals j \<noteq> 0 \<and> pending v' j = 0)
   \<and> pending (GCSignal ex_conf 0 ex_gc_signals) 3 = 2 \<and> total_pending (GCSignal ex_conf 0 ex_gc_signals) = 4"
proof -
  have c: "RUNSIG_GC ex_conf = 3" by (simp add: ex_conf_def)
  note th = signal_dispatch [OF ex_sig_ok(1,2) ex_gc_run [unfolded ex_start_def]]
  from th ex_gc_ok(1) have "\<exists>v' j. start_handler 4 ex_conf ex_gc_signals = Inr v' \<and> vp_sigCode v' = j \<and> pending ex_gc_signals j \<noteq> 0 \<and> pending v' j = 0"
    by auto
  moreover from th have "\<forall>n. if 0 \<le> n
      then pending (GCSignal ex_conf n ex_gc_signals) = (pending ex_gc_signals)(3 := pending ex_gc_signals 3 + 1)
        \<and> total_pending (GCSignal ex_conf n ex_gc_signals) = total_pending ex_gc_signals + 1
      else GCSignal ex_conf n ex_gc_signals = ex_gc_signals"
    by (simp add: ex_gc_ok c)
  from this [rule_format, of 0] have "pending (GCSignal ex_conf 0 ex_gc_signals) 3 = 2 \<and> total_pending (GCSignal ex_conf 0 ex_gc_signals) = 4"
    by (simp add: ex_gc_ok)
  ultimately show ?thesis by blast
qed

lemma ex_handle2: "\<exists>v'. start_handler 4 ex_conf ex_gc_signals = Inr v' \<and> vp_sigCode v' = 2"
proof -
  have d: "sig_delta (vp_sigCounts ex_gc_signals 2) = 1" using sig_delta_pending [of ex_gc_signals 2] by (simp add: ex_gc_ok)
  have n: "next_sig ex_conf 1 = 2" "\<not> SIGMAP_SZ ex_conf \<le> 2" by (simp_all add: next_sig_def ex_conf_def)
  have "search_sig (Suc 3) ex_conf 1 ex_gc_signals = Inr (2, 1)" unfolding search_sig.simps n Let_def using d n(2) by simp
  moreover have "4 = Suc 3" by simp
  ultimately have "search_sig 4 ex_conf (vp_nextPendingSig ex_gc_signals) ex_gc_signals = Inr (2, 1)" using ex_gc_ok(6) by metis
  then show ?thesis by (simp add: start_handler_def ChooseSignal_def)
qed

text \<open>The collector's signal waits while signal 2 is handled.\<close>

theorem signal_fairness_witness:
  "\<exists>v' es. sig_run 4 ex_conf ex_gc_signals es v' \<and> length (filter is_handle es) = 1 \<and> length (filter is_handle es) < 4 - 1"
proof -
  from ex_handle2 obtain v' where v': "start_handler 4 ex_conf ex_gc_signals = Inr v'" "vp_sigCode v' = 2" by blast
  have r: "sig_run 4 ex_conf ex_gc_signals ([] @ [Handle (vp_sigCode v')]) v'"
    by (rule run_step [OF run_nil handle [OF ex_gc_ok(2,1) v'(1)]])
  have "3 \<in> sigs ex_conf" "pending ex_gc_signals 3 \<noteq> 0" "Handle 3 \<notin> set ([] @ [Handle (vp_sigCode v')])"
    using v'(2) by (simp_all add: ex_conf_def ex_gc_ok)
  from signal_fairness [OF ex_sig_ok(1,2) ex_gc_run [unfolded ex_start_def] this(1,2) r this(3)]
  have "length (filter is_handle ([] @ [Handle (vp_sigCode v')])) < SIGMAP_SZ ex_conf - MIN_SYSTEM_SIG ex_conf" .
  then show ?thesis using r by (intro exI [of _ v'] exI [of _ "[] @ [Handle (vp_sigCode v')]"]) (simp add: is_handle_def ex_conf_def)
qed

end
