(* ===== verification/Minor_Forward.thy ===== *)
theory Minor_Forward
  imports Minor_GC
begin

text \<open>
  Forwarding in a minor collection, proved against a ghost description of the collection: the
  memory before it, the set of live objects of the allocation space, and for each arena the
  list of the objects copied to it. The invariant says where every copy is, that unforwarded
  objects are intact, that forwarded ones hold the address of their copy, and that every cell
  outside the allocation space holds its original word, relocated exactly if it was scanned.
  Copying one object, scanning one cell and scanning a list of cells keep it.
\<close>

section \<open>Words of memory\<close>

lemma at_ix_inj: "a < 2 ^ 61 \<Longrightarrow> b < 2 ^ 61 \<Longrightarrow> at_ix p a = at_ix p b \<longleftrightarrow> a = b"
proof
  assume ab: "a < 2 ^ 61" "b < 2 ^ 61" and "at_ix p a = at_ix p b"
  then have "(of_nat (8 * a) :: addr_t) = of_nat (8 * b)" by (simp add: at_ix_def)
  then have "unat (of_nat (8 * a) :: addr_t) = unat (of_nat (8 * b) :: addr_t)" by simp
  with ab show "a = b" by (simp only: unat_of_nat) simp
qed simp

lemma put_words_snoc: "put_words p (ws @ [w]) m = (put_words p ws m)(at_ix p (length ws) := w)"
  by (induction ws arbitrary: p m) (simp_all add: at_ix_Suc)

lemma put_words_out: "(\<And>k. k < length ws \<Longrightarrow> c \<noteq> at_ix p k) \<Longrightarrow> put_words p ws m c = m c"
  by (induction ws rule: rev_induct) (simp_all add: put_words_snoc)

lemma put_words_in: "length ws \<le> 2 ^ 61 \<Longrightarrow> k < length ws \<Longrightarrow> put_words p ws m (at_ix p k) = ws ! k"
proof (induction ws rule: rev_induct)
  case (snoc w ws)
  then show ?case by (cases "k = length ws") (auto simp: put_words_snoc nth_append at_ix_inj)
qed simp

lemma Copy_put_words:
  assumes "\<And>j k. j < len \<Longrightarrow> k < len \<Longrightarrow> at_ix src j \<noteq> at_ix dst k"
  shows "Copy src dst len m = put_words dst (map (\<lambda>j. m (at_ix src j)) [0..<len]) m"
  using assms
proof (induction len)
  case (Suc n)
  have "put_words dst (map (\<lambda>j. m (at_ix src j)) [0..<n]) m (at_ix src n) = m (at_ix src n)"
    using Suc.prems by (intro put_words_out) simp
  with Suc show ?case by (simp add: Copy_def put_words_snoc)
qed (simp add: Copy_def)

lemma dvd_unat_add: "8 dvd unat a \<Longrightarrow> 8 dvd unat b \<Longrightarrow> 8 dvd unat (a + b :: addr_t)"
  by (simp add: unat_word_ariths(1) dvd_mod)

lemma dvd_at_ix: "8 dvd unat p \<Longrightarrow> 8 dvd unat (at_ix p k)"
  unfolding at_ix_def by (rule dvd_unat_add) (simp_all add: unat_word_ariths(2) dvd_mod)

lemma dvd_sub8: "8 dvd unat p \<Longrightarrow> 8 dvd unat (p - 8 :: addr_t)"
  by (auto simp: unat_sub_if' word_le_nat_alt intro!: dvd_diff_nat)

lemma copy_len_small: "unat w < 2 ^ 31 \<Longrightarrow> copy_len w = unat w"
proof -
  assume w: "unat w < 2 ^ 31"
  then have "int (unat w) < int (2 ^ 31)" by (simp only: of_nat_less_iff)
  then have "uint w < 2 ^ 31" by simp
  moreover have "- (2 ^ 31) \<le> uint w" by (rule order_trans [of _ 0]) simp_all
  ultimately have "sint (ucast w :: u32) = uint w"
    using signed_take_bit_int_eq_self [of 31 "uint w"] by (simp add: sint_uint unsigned_ucast_eq take_bit_int_eq_self)
  then show ?thesis by (simp add: copy_len_def nat_uint_eq)
qed

section \<open>Objects\<close>

text \<open>
  What a descriptor says of an object: the length in words, the number of leading words that
  are swept, whether the copy is a pair, the arena it is copied to.
\<close>

definition ob_len :: "word_t \<Rightarrow> nat" where
  "ob_len d = (let t = GET_TAG d in
     if t = DTAG_vec_hdr \<or> t = DTAG_arr_hdr then 2
     else if t = DTAG_mixed then unat (MIXED_GET_LEN d) else unat (GET_LEN d))"

definition ob_ptrs :: "word_t \<Rightarrow> nat" where
  "ob_ptrs d = (let t = GET_TAG d in
     if t = DTAG_vec_hdr \<or> t = DTAG_arr_hdr then 1
     else if t = DTAG_mixed then unat (MIXED_GET_PTRLEN d)
     else if t = DTAG_raw then 0 else unat (GET_LEN d))"

definition ob_pair :: "word_t \<Rightarrow> bool" where
  "ob_pair d \<longleftrightarrow> GET_TAG d = DTAG_record \<and> GET_LEN d = 2"

definition ob_arena :: "word_t \<Rightarrow> nat" where
  "ob_arena d = (let t = GET_TAG d in
     if t = DTAG_record then (if GET_LEN d = 2 then PAIR_INDX else RECORD_INDX)
     else if t = DTAG_arr_data then ARRAY_INDX
     else if t = DTAG_raw then STRING_INDX else MIXED_INDX)"

text \<open>Descriptors of the objects considered: no special objects, at least one word.\<close>

definition ob_ok :: "word_t \<Rightarrow> bool" where
  "ob_ok d \<longleftrightarrow> isDESC d
     \<and> GET_TAG d \<in> {DTAG_record, DTAG_vec_hdr, DTAG_arr_hdr, DTAG_arr_data, DTAG_raw, DTAG_mixed}
     \<and> 1 \<le> ob_len d \<and> ob_len d < 2 ^ 31 \<and> ob_ptrs d \<le> ob_len d"

lemma ob_arena_less: "ob_arena d < NUM_ARENAS"
  by (simp add: ob_arena_def Let_def)

lemma isDESC_not_BOXED: "isDESC d \<Longrightarrow> \<not> isBOXED d"
  by (auto simp: low_bits)

section \<open>The setting of a collection\<close>

text \<open>
  The memory before the collection, the allocation space, the arenas of the first generation
  before the collection, a set of live objects of the allocation space, and the words outside
  the heap space to be filled that the collection starts from.
\<close>

record mgc =
  mg_m :: memory
  mg_base :: addr_t
  mg_size :: addr_t
  mg_arena :: "nat \<Rightarrow> arena"
  mg_R :: "addr_t set"
  mg_X :: "addr_t set"

definition nur :: "mgc \<Rightarrow> addr_t \<Rightarrow> bool" where
  "nur G a \<longleftrightarrow> a - mg_base G < mg_size G"

definition nptr :: "mgc \<Rightarrow> word_t \<Rightarrow> bool" where
  "nptr G w \<longleftrightarrow> isBOXED w \<and> nur G w"

definition dsc :: "mgc \<Rightarrow> addr_t \<Rightarrow> word_t" where "dsc G p = mg_m G (p - 8)"

definition cells :: "mgc \<Rightarrow> addr_t \<Rightarrow> addr_t set" where
  "cells G p = at_ix (p - 8) ` {..ob_len (dsc G p)}"

definition nx0 :: "mgc \<Rightarrow> nat \<Rightarrow> addr_t" where "nx0 G i = a_nextw (mg_arena G i)"

text \<open>The part of an arena that the collection may fill: as much as the allocation space holds.\<close>

definition room :: "mgc \<Rightarrow> nat \<Rightarrow> addr_t set" where "room G i = addr_range (nx0 G i) (mg_size G)"

definition mgc_ok :: "mgc \<Rightarrow> bool" where
  "mgc_ok G \<longleftrightarrow>
     8 dvd unat (mg_base G) \<and> 8 dvd unat (mg_size G) \<and> unat (mg_base G) + unat (mg_size G) < 2 ^ 64
   \<and> (\<forall>p\<in>mg_R G. nptr G p \<and> 8 dvd unat p \<and> ob_ok (dsc G p) \<and> cells G p \<subseteq> Collect (nur G))
   \<and> (\<forall>p\<in>mg_R G. \<forall>q\<in>mg_R G. p \<noteq> q \<longrightarrow> cells G p \<inter> cells G q = {})
   \<and> (\<forall>p\<in>mg_R G. \<forall>j < ob_ptrs (dsc G p). nptr G (mg_m G (at_ix p j)) \<longrightarrow> mg_m G (at_ix p j) \<in> mg_R G)
   \<and> (\<forall>i < NUM_ARENAS. unat (nx0 G i) + unat (mg_size G) < 2 ^ 64 \<and> room G i \<inter> Collect (nur G) = {})
   \<and> (\<forall>i < NUM_ARENAS. \<forall>j < NUM_ARENAS. i \<noteq> j \<longrightarrow> room G i \<inter> room G j = {})"

lemma okR: "mgc_ok G \<Longrightarrow> p \<in> mg_R G \<Longrightarrow> nptr G p \<and> 8 dvd unat p \<and> ob_ok (dsc G p) \<and> cells G p \<subseteq> Collect (nur G)"
  by (simp add: mgc_ok_def)

lemma ok_disjoint: "mgc_ok G \<Longrightarrow> p \<in> mg_R G \<Longrightarrow> q \<in> mg_R G \<Longrightarrow> p \<noteq> q \<Longrightarrow> cells G p \<inter> cells G q = {}"
  by (simp add: mgc_ok_def)

lemma ok_closed:
  "mgc_ok G \<Longrightarrow> p \<in> mg_R G \<Longrightarrow> j < ob_ptrs (dsc G p) \<Longrightarrow> nptr G (mg_m G (at_ix p j)) \<Longrightarrow> mg_m G (at_ix p j) \<in> mg_R G"
  by (simp add: mgc_ok_def)

lemma ok_room:
  "mgc_ok G \<Longrightarrow> i < NUM_ARENAS \<Longrightarrow> unat (nx0 G i) + unat (mg_size G) < 2 ^ 64 \<and> room G i \<inter> Collect (nur G) = {}"
  by (simp add: mgc_ok_def)

lemma ok_rooms: "mgc_ok G \<Longrightarrow> i < NUM_ARENAS \<Longrightarrow> j < NUM_ARENAS \<Longrightarrow> i \<noteq> j \<Longrightarrow> room G i \<inter> room G j = {}"
  by (simp add: mgc_ok_def)

text \<open>The block of words that a copy occupies; pairs are copied without their descriptor.\<close>

definition skip :: "mgc \<Rightarrow> addr_t \<Rightarrow> nat" where "skip G p = (if ob_pair (dsc G p) then 0 else 1)"

definition blk :: "mgc \<Rightarrow> addr_t \<Rightarrow> word_t list" where
  "blk G p = (if ob_pair (dsc G p) then [] else [dsc G p]) @ map (\<lambda>j. mg_m G (at_ix p j)) [0..<ob_len (dsc G p)]"

lemma length_blk: "length (blk G p) = skip G p + ob_len (dsc G p)"
  by (simp add: blk_def skip_def)

lemma nur_iff: "mgc_ok G \<Longrightarrow> nur G c \<longleftrightarrow> unat (mg_base G) \<le> unat c \<and> unat c < unat (mg_base G) + unat (mg_size G)"
proof -
  assume "mgc_ok G"
  then have b: "unat (mg_base G) + unat (mg_size G) < 2 ^ 64" by (simp add: mgc_ok_def)
  show ?thesis
  proof (cases "mg_base G \<le> c")
    case True
    then show ?thesis by (auto simp: nur_def word_less_nat_alt word_le_nat_alt unat_sub)
  next
    case False
    then have "unat (c - mg_base G) = 2 ^ 64 + unat c - unat (mg_base G)"
      by (simp add: unat_sub_if' word_le_nat_alt)
    with False b show ?thesis by (simp add: nur_def word_less_nat_alt word_le_nat_alt)
  qed
qed

lemma card_cells: "ob_ok (dsc G p) \<Longrightarrow> card (cells G p) = ob_len (dsc G p) + 1"
proof -
  assume "ob_ok (dsc G p)"
  then have "inj_on (at_ix (p - 8)) {..ob_len (dsc G p)}"
    by (auto simp: inj_on_def at_ix_inj ob_ok_def)
  then show ?thesis by (simp add: cells_def card_image)
qed

lemma cells_words: "mgc_ok G \<Longrightarrow> p \<in> mg_R G \<Longrightarrow> cells G p \<subseteq> at_ix (mg_base G) ` {..<unat (mg_size G) div 8}"
proof
  fix c assume ok: "mgc_ok G" and p: "p \<in> mg_R G" and c: "c \<in> cells G p"
  from ok p c have n: "nur G c" and d: "8 dvd unat p" by (auto simp: mgc_ok_def)
  from c dvd_sub8 [OF d] have dc: "8 dvd unat c" by (auto simp: cells_def dvd_at_ix)
  let ?k = "(unat c - unat (mg_base G)) div 8"
  from ok have b: "8 dvd unat (mg_base G)" "8 dvd unat (mg_size G)" by (simp_all add: mgc_ok_def)
  from n ok have r: "unat (mg_base G) \<le> unat c" "unat c < unat (mg_base G) + unat (mg_size G)" by (simp_all add: nur_iff)
  have k: "8 * ?k = unat c - unat (mg_base G)" using dc b by (simp add: dvd_diff_nat)
  have "unat (at_ix (mg_base G) ?k) = unat c" using k r unsigned_less [of c, where 'a = nat] by (subst unat_at_ix) auto
  then have "c = at_ix (mg_base G) ?k" by (simp add: word_unat_eq_iff)
  moreover have "?k < unat (mg_size G) div 8" using k r b(2) by (auto elim!: dvdE)
  ultimately show "c \<in> at_ix (mg_base G) ` {..<unat (mg_size G) div 8}" by blast
qed

lemma blks_fit:
  assumes ok: "mgc_ok G" and xs: "distinct xs" "set xs \<subseteq> mg_R G"
  shows "length (concat (map (blk G) xs)) \<le> unat (mg_size G) div 8"
proof -
  have "length (concat (map (blk G) xs)) = (\<Sum>p\<leftarrow>xs. length (blk G p))"
    by (simp add: length_concat comp_def)
  also have "\<dots> = (\<Sum>p\<in>set xs. length (blk G p))" using xs(1) by (simp add: sum_list_distinct_conv_sum_set)
  also have "\<dots> \<le> (\<Sum>p\<in>set xs. card (cells G p))"
    using ok xs(2) by (intro sum_mono) (auto simp: length_blk skip_def card_cells mgc_ok_def)
  also have "\<dots> = card (\<Union>p\<in>set xs. cells G p)"
  proof (rule card_UN_disjoint [symmetric])
    show "\<forall>i\<in>set xs. \<forall>j\<in>set xs. i \<noteq> j \<longrightarrow> cells G i \<inter> cells G j = {}"
      using ok_disjoint [OF ok] xs(2) by (meson subsetD)
  qed (simp_all add: cells_def)
  also have "\<dots> \<le> card (at_ix (mg_base G) ` {..<unat (mg_size G) div 8})"
    by (rule card_mono) (use ok xs(2) cells_words in blast)+
  also have "\<dots> \<le> unat (mg_size G) div 8" by (rule order_trans [OF card_image_le]) simp_all
  finally show ?thesis .
qed

section \<open>The layout of the copies\<close>

text \<open>
  Ghost state: \<open>L i\<close> is the list of the objects copied to arena \<open>i\<close> so far, in order. It
  determines the words written to the arena and the address of each copy.
\<close>

type_synonym layout = "nat \<Rightarrow> addr_t list"

definition ar :: "mgc \<Rightarrow> addr_t \<Rightarrow> nat" where "ar G p = ob_arena (dsc G p)"

definition wds :: "mgc \<Rightarrow> layout \<Rightarrow> nat \<Rightarrow> word_t list" where "wds G L i = concat (map (blk G) (L i))"

fun off :: "mgc \<Rightarrow> addr_t list \<Rightarrow> addr_t \<Rightarrow> nat" where
  "off G [] p = 0"
| "off G (x # xs) p = (if x = p then skip G p else length (blk G x) + off G xs p)"

definition fwd :: "mgc \<Rightarrow> layout \<Rightarrow> addr_t set" where "fwd G L = {p. p \<in> set (L (ar G p))}"

definition faddr :: "mgc \<Rightarrow> layout \<Rightarrow> addr_t \<Rightarrow> addr_t" where
  "faddr G L p = at_ix (nx0 G (ar G p)) (off G (L (ar G p)) p)"

text \<open>Relocation of a word.\<close>

definition rl :: "mgc \<Rightarrow> layout \<Rightarrow> word_t \<Rightarrow> word_t" where
  "rl G L w = (if nptr G w then faddr G L w else w)"

definition acells :: "mgc \<Rightarrow> layout \<Rightarrow> addr_t set" where
  "acells G L = (\<Union>i<NUM_ARENAS. at_ix (nx0 G i) ` {..<length (wds G L i)})"

definition rooms :: "mgc \<Rightarrow> addr_t set" where "rooms G = (\<Union>i<NUM_ARENAS. room G i)"

definition lay_ok :: "mgc \<Rightarrow> layout \<Rightarrow> bool" where
  "lay_ok G L \<longleftrightarrow> (\<forall>i < NUM_ARENAS. distinct (L i) \<and> (\<forall>p \<in> set (L i). p \<in> mg_R G \<and> ar G p = i))"

lemma off_append [simp]: "p \<in> set xs \<Longrightarrow> off G (xs @ ys) p = off G xs p"
  by (induction xs) auto

lemma off_new: "p \<notin> set xs \<Longrightarrow> off G (xs @ p # ys) p = length (concat (map (blk G) xs)) + skip G p"
  by (induction xs) auto

lemma off_nth:
  assumes "p \<in> set xs" "j < ob_len (dsc G p)"
  shows "off G xs p + j < length (concat (map (blk G) xs)) \<and> concat (map (blk G) xs) ! (off G xs p + j) = mg_m G (at_ix p j)"
  using assms(1)
proof (induction xs)
  case (Cons x xs)
  show ?case
  proof (cases "x = p")
    case True
    then show ?thesis using assms(2) by (auto simp: blk_def skip_def nth_append)
  next
    case False
    with Cons have "off G xs p + j < length (concat (map (blk G) xs))"
      "concat (map (blk G) xs) ! (off G xs p + j) = mg_m G (at_ix p j)" by auto
    with False show ?thesis by (simp add: nth_append add.assoc)
  qed
qed simp

lemma off_desc:
  assumes "p \<in> set xs" "\<not> ob_pair (dsc G p)"
  shows "\<exists>k. off G xs p = Suc k \<and> k < length (concat (map (blk G) xs)) \<and> concat (map (blk G) xs) ! k = dsc G p"
  using assms(1)
proof (induction xs)
  case (Cons x xs)
  show ?case
  proof (cases "x = p")
    case True
    then show ?thesis using assms(2) by (auto simp: blk_def skip_def nth_append)
  next
    case False
    with Cons obtain k where "off G xs p = Suc k" "k < length (concat (map (blk G) xs))"
      "concat (map (blk G) xs) ! k = dsc G p" by auto
    with False show ?thesis by (auto simp: nth_append intro!: exI [of _ "length (blk G x) + k"])
  qed
qed simp

lemma wds_fit: "mgc_ok G \<Longrightarrow> lay_ok G L \<Longrightarrow> i < NUM_ARENAS \<Longrightarrow> length (wds G L i) \<le> unat (mg_size G) div 8"
  unfolding wds_def by (rule blks_fit) (auto simp: lay_ok_def)

lemma size_small: "unat (mg_size G) div 8 < 2 ^ 61"
  using unsigned_less [of "mg_size G", where 'a = nat] by (simp add: less_mult_imp_div_less)

lemma cell_in_room:
  assumes "mgc_ok G" "i < NUM_ARENAS" "k < unat (mg_size G) div 8"
  shows "at_ix (nx0 G i) k \<in> room G i"
proof -
  from ok_room [OF assms(1,2)] have r: "unat (nx0 G i) + unat (mg_size G) < 2 ^ 64" by simp
  have "8 * k < unat (mg_size G)" using assms(3) by linarith
  with r show ?thesis by (simp add: room_def addr_range_def unat_at_ix)
qed

lemma cell_eq:
  assumes "mgc_ok G" "i < NUM_ARENAS" "j < NUM_ARENAS" "k < unat (mg_size G) div 8" "l < unat (mg_size G) div 8"
  shows "at_ix (nx0 G i) k = at_ix (nx0 G j) l \<longleftrightarrow> i = j \<and> k = l"
proof (cases "i = j")
  case True
  then show ?thesis using assms(4,5) size_small [of G] by (simp add: at_ix_inj)
next
  case False
  then have "room G i \<inter> room G j = {}" using assms by (simp add: ok_rooms)
  moreover have "at_ix (nx0 G i) k \<in> room G i" "at_ix (nx0 G j) l \<in> room G j"
    using assms by (simp_all add: cell_in_room)
  ultimately show ?thesis using False by auto
qed

lemma room_not_nur: "mgc_ok G \<Longrightarrow> i < NUM_ARENAS \<Longrightarrow> c \<in> room G i \<Longrightarrow> \<not> nur G c"
  using ok_room [of G i] by auto

section \<open>Copying one object\<close>

text \<open>The effect of copying the object at \<open>p\<close> to arena \<open>i\<close>, whose block of words is \<open>ws\<close>.\<close>

definition copied :: "addr_t \<Rightarrow> nat \<Rightarrow> nat \<Rightarrow> word_t list \<Rightarrow> rt \<Rightarrow> word_t \<times> rt" where
  "copied p i sk ws s =
     (let nw = a_nextw (get_arena 0 i s) in
      (at_ix nw sk, upd_mem (\<lambda>m. (put_words nw ws m)(p - 8 := DESC_forwarded, p := at_ix nw sk))
         (upd_arena 0 i (\<lambda>a. a\<lparr>a_nextw := at_ix nw (length ws)\<rparr>) s)))"

lemma fwd_pair_copied:
  assumes "p + 8 \<noteq> a_nextw (get_arena 0 PAIR_INDX s)"
  shows "fwd_pair p s = Inr (copied p PAIR_INDX 0 [rt_mem s p, rt_mem s (p + 8)] s)"
  using assms by (simp add: fwd_pair_def copied_def Let_def at_ix_def upd_mem_def)

lemma fwd_copy_copied:
  assumes len: "unat len < 2 ^ 31" and nw: "nw = a_nextw (get_arena 0 i s)"
    and dis: "\<And>j k. j < unat len \<Longrightarrow> k \<le> unat len \<Longrightarrow> at_ix p j \<noteq> at_ix nw k"
  shows "fwd_copy 0 i len d p s = Inr (copied p i 1 (d # map (\<lambda>j. rt_mem s (at_ix p j)) [0..<unat len]) s)"
proof -
  let ?m = "rt_mem s"
  have d1: "at_ix p j \<noteq> at_ix (nw + 8) k" if "j < unat len" "k < unat len" for j k
    using dis [of j "Suc k"] that by (simp add: at_ix_Suc)
  have d2: "at_ix p j \<noteq> nw" if "j < unat len" for j using dis [of j 0] that by simp
  have "Copy p (nw + 8) (copy_len len) (?m(nw := d)) = put_words nw (d # map (\<lambda>j. ?m (at_ix p j)) [0..<unat len]) ?m"
  proof -
    have "map (\<lambda>j. (?m(nw := d)) (at_ix p j)) [0..<unat len] = map (\<lambda>j. ?m (at_ix p j)) [0..<unat len]"
      using d2 by simp
    then show ?thesis using len by (simp only: copy_len_small Copy_put_words [OF d1] put_words.simps)
  qed
  moreover have "nw + 8 * (len + 1) = at_ix nw (Suc (unat len))"
    by (simp add: at_ix_def algebra_simps)
  ultimately show ?thesis using nw
    by (simp add: fwd_copy_def copied_def Let_def upd_mem_def at_ix_Suc)
qed

lemma GET_TAG_forwarded: "GET_TAG DESC_forwarded = DTAG_forward"
  by (simp add: DESC_forwarded_def GET_TAG_MAKE_DESC)

text \<open>Forwarding an object that is still in place.\<close>

lemma ForwardObj_new:
  assumes ok: "ob_ok d" and d: "rt_mem s (p - 8) = d" and i: "i = ob_arena d"
    and nw: "nw = a_nextw (get_arena 0 i s)"
    and dis: "\<And>j k. j < ob_len d \<Longrightarrow> k < (if ob_pair d then 0 else 1) + ob_len d \<Longrightarrow> at_ix p j \<noteq> at_ix nw k"
  shows "MinorGC_ForwardObj p s = Inr (copied p i (if ob_pair d then 0 else 1)
     ((if ob_pair d then [] else [d]) @ map (\<lambda>j. rt_mem s (at_ix p j)) [0..<ob_len d]) s)"
proof -
  have l: "ob_len d < 2 ^ 31" using ok by (simp add: ob_ok_def)
  from ok consider "GET_TAG d = DTAG_record" "GET_LEN d = 2" | "GET_TAG d = DTAG_record" "GET_LEN d \<noteq> 2"
    | "GET_TAG d = DTAG_vec_hdr \<or> GET_TAG d = DTAG_arr_hdr" | "GET_TAG d = DTAG_arr_data"
    | "GET_TAG d = DTAG_raw" | "GET_TAG d = DTAG_mixed" by (auto simp: ob_ok_def)
  then show ?thesis
  proof cases
    case 1
    then have e: "ob_len d = 2" "i = PAIR_INDX" "ob_pair d" by (simp_all add: ob_len_def i ob_arena_def ob_pair_def)
    have "p + 8 \<noteq> nw" using dis [of 1 0] e by (simp add: at_ix_def)
    then have "fwd_pair p s = Inr (copied p PAIR_INDX 0 [rt_mem s p, rt_mem s (p + 8)] s)"
      using nw e by (intro fwd_pair_copied) simp
    moreover have "[0..<ob_len d] = [0, 1]" by (simp add: e upt_rec)
    ultimately show ?thesis using 1 e by (simp add: MinorGC_ForwardObj_def d Let_def at_ix_def)
  next
    case 2
    then have e: "ob_len d = unat (GET_LEN d)" "i = RECORD_INDX" "\<not> ob_pair d"
      by (simp_all add: ob_len_def i ob_arena_def ob_pair_def)
    show ?thesis using 2 e l fwd_copy_copied [of "GET_LEN d" nw i s p d] nw dis
      by (simp add: MinorGC_ForwardObj_def d Let_def)
  next
    case 3
    then have e: "ob_len d = unat (2 :: word_t)" "i = MIXED_INDX" "\<not> ob_pair d"
      by (auto simp: ob_len_def i ob_arena_def ob_pair_def)
    show ?thesis using 3 e l fwd_copy_copied [of 2 nw i s p d] nw dis
      by (auto simp: MinorGC_ForwardObj_def d Let_def)
  next
    case 4
    then have e: "ob_len d = unat (GET_LEN d)" "i = ARRAY_INDX" "\<not> ob_pair d"
      by (simp_all add: ob_len_def i ob_arena_def ob_pair_def)
    show ?thesis using 4 e l fwd_copy_copied [of "GET_LEN d" nw i s p d] nw dis
      by (simp add: MinorGC_ForwardObj_def d Let_def)
  next
    case 5
    then have e: "ob_len d = unat (GET_LEN d)" "i = STRING_INDX" "\<not> ob_pair d"
      by (simp_all add: ob_len_def i ob_arena_def ob_pair_def)
    show ?thesis using 5 e l fwd_copy_copied [of "GET_LEN d" nw i s p d] nw dis
      by (simp add: MinorGC_ForwardObj_def d Let_def)
  next
    case 6
    then have e: "ob_len d = unat (MIXED_GET_LEN d)" "i = MIXED_INDX" "\<not> ob_pair d"
      by (simp_all add: ob_len_def i ob_arena_def ob_pair_def)
    show ?thesis using 6 e l fwd_copy_copied [of "MIXED_GET_LEN d" nw i s p d] nw dis
      by (simp add: MinorGC_ForwardObj_def d Let_def)
  qed
qed

section \<open>The invariant\<close>

text \<open>
  \<open>org\<close> is the memory without relocation: the original contents, and in the arenas the words
  that were copied. \<open>C\<close> is the set of cells that have been scanned. Outside the allocation
  space every cell holds its original word, relocated if it was scanned.
\<close>

definition heap_inv :: "mgc \<Rightarrow> layout \<Rightarrow> rt \<Rightarrow> bool" where
  "heap_inv G L s \<longleftrightarrow> gens_ok s \<and> h_allocBase (rt_heap s) = mg_base G \<and> h_allocSzB (rt_heap s) = mg_size G
     \<and> (\<forall>i < NUM_ARENAS. get_arena 0 i s = (mg_arena G i)\<lparr>a_nextw := at_ix (nx0 G i) (length (wds G L i)),
          a_sweep_nextw := a_sweep_nextw (get_arena 0 i s)\<rparr>)"

definition org_inv :: "mgc \<Rightarrow> layout \<Rightarrow> memory \<Rightarrow> bool" where
  "org_inv G L org \<longleftrightarrow> (\<forall>c. c \<notin> acells G L \<longrightarrow> org c = mg_m G c)
     \<and> (\<forall>i < NUM_ARENAS. \<forall>k < length (wds G L i). org (at_ix (nx0 G i) k) = wds G L i ! k)"

definition scan_inv :: "mgc \<Rightarrow> layout \<Rightarrow> memory \<Rightarrow> addr_t set \<Rightarrow> bool" where
  "scan_inv G L org C \<longleftrightarrow> (\<forall>c\<in>C. \<not> nur G c \<and> (c \<in> rooms G \<longrightarrow> c \<in> acells G L) \<and> (nptr G (org c) \<longrightarrow> org c \<in> fwd G L))"

definition mem_inv :: "mgc \<Rightarrow> layout \<Rightarrow> memory \<Rightarrow> addr_t set \<Rightarrow> memory \<Rightarrow> bool" where
  "mem_inv G L org C m \<longleftrightarrow>
     (\<forall>p \<in> mg_R G - fwd G L. \<forall>c \<in> cells G p. m c = mg_m G c)
   \<and> (\<forall>p \<in> fwd G L. m (p - 8) = DESC_forwarded \<and> m p = faddr G L p)
   \<and> (\<forall>c. \<not> nur G c \<longrightarrow> m c = (if c \<in> C then rl G L (org c) else org c))
   \<and> (\<forall>c. nur G c \<and> (\<forall>p \<in> mg_R G. c \<notin> cells G p) \<longrightarrow> m c = mg_m G c)"

definition ginv :: "mgc \<Rightarrow> layout \<Rightarrow> memory \<Rightarrow> addr_t set \<Rightarrow> rt \<Rightarrow> bool" where
  "ginv G L org C s \<longleftrightarrow> lay_ok G L \<and> heap_inv G L s \<and> org_inv G L org \<and> scan_inv G L org C \<and> mem_inv G L org C (rt_mem s)"

text \<open>What forwarding leaves alone.\<close>

definition hstats :: "heap \<Rightarrow> int \<times> word_t \<times> (nat \<Rightarrow> nat \<Rightarrow> word_t)" where
  "hstats h = (h_numMinorGCs h, h_numAlloc h, h_numCopied h)"

lemma hstats_upd_arena [simp]: "hstats (rt_heap (upd_arena g j f s)) = hstats (rt_heap s)"
  by (simp add: hstats_def upd_arena_def upd_gen_def)

definition frame :: "rt \<Rightarrow> rt \<Rightarrow> bool" where
  "frame s s' \<longleftrightarrow> rt_bibop s' = rt_bibop s \<and> ml_storePtr s' = ml_storePtr s
     \<and> h_weakList (rt_heap s') = h_weakList (rt_heap s)
     \<and> hstats (rt_heap s') = hstats (rt_heap s) \<and> (\<forall>g i. 0 < g \<longrightarrow> get_arena g i s' = get_arena g i s)
     \<and> (\<forall>i < NUM_ARENAS. a_sweep_nextw (get_arena 0 i s') = a_sweep_nextw (get_arena 0 i s))
     \<and> (\<forall>g < MAX_NUM_GENS. g_dirty (get_gen g s') = g_dirty (get_gen g s))"

lemma frame_refl: "frame s s" by (simp add: frame_def)

lemma frame_trans: "frame s t \<Longrightarrow> frame t u \<Longrightarrow> frame s u" by (simp add: frame_def)

text \<open>Adding an object to the layout.\<close>

definition lay_add :: "mgc \<Rightarrow> addr_t \<Rightarrow> layout \<Rightarrow> layout" where
  "lay_add G p L = L(ar G p := L (ar G p) @ [p])"

definition ext :: "layout \<Rightarrow> layout \<Rightarrow> bool" where "ext L L' \<longleftrightarrow> (\<forall>i. \<exists>ys. L' i = L i @ ys)"

lemma ext_refl: "ext L L" by (simp add: ext_def)

lemma ext_trans: "ext L L' \<Longrightarrow> ext L' L'' \<Longrightarrow> ext L L''"
  unfolding ext_def by (metis append_assoc)

lemma ext_add: "ext L (lay_add G p L)" by (auto simp: ext_def lay_add_def)

lemma ext_fwd: "ext L L' \<Longrightarrow> fwd G L \<subseteq> fwd G L'"
proof
  fix p assume e: "ext L L'" and p: "p \<in> fwd G L"
  from e obtain ys where "L' (ar G p) = L (ar G p) @ ys" unfolding ext_def by blast
  with p show "p \<in> fwd G L'" by (simp add: fwd_def)
qed

lemma ext_faddr: "ext L L' \<Longrightarrow> p \<in> fwd G L \<Longrightarrow> faddr G L' p = faddr G L p"
proof -
  assume e: "ext L L'" and p: "p \<in> fwd G L"
  from e obtain ys where "L' (ar G p) = L (ar G p) @ ys" unfolding ext_def by blast
  with p show ?thesis by (simp add: fwd_def faddr_def)
qed

lemma ext_wds: "ext L L' \<Longrightarrow> \<exists>ws. wds G L' i = wds G L i @ ws"
proof -
  assume "ext L L'"
  then obtain ys where "L' i = L i @ ys" unfolding ext_def by blast
  then show ?thesis by (simp add: wds_def)
qed

lemma wds_add: "wds G (lay_add G p L) i = wds G L i @ (if i = ar G p then blk G p else [])"
  by (simp add: wds_def lay_add_def)

lemma fwd_add: "fwd G (lay_add G p L) = insert p (fwd G L)"
  by (auto simp: fwd_def lay_add_def)

lemma faddr_add: "p \<notin> fwd G L \<Longrightarrow> faddr G (lay_add G p L) p = at_ix (nx0 G (ar G p)) (length (wds G L (ar G p)) + skip G p)"
  by (simp add: faddr_def lay_add_def fwd_def off_new wds_def)

lemma lay_ok_add: "lay_ok G L \<Longrightarrow> p \<in> mg_R G \<Longrightarrow> p \<notin> fwd G L \<Longrightarrow> lay_ok G (lay_add G p L)"
  by (auto simp: lay_ok_def lay_add_def fwd_def)

lemma ar_less: "ar G p < NUM_ARENAS" by (simp add: ar_def ob_arena_less)

lemma fwd_in_R: "lay_ok G L \<Longrightarrow> fwd G L \<subseteq> mg_R G"
proof
  fix p assume "lay_ok G L" "p \<in> fwd G L"
  then show "p \<in> mg_R G" using ar_less [of G p] unfolding lay_ok_def fwd_def by blast
qed

section \<open>Forwarding preserves the invariant\<close>

definition ltop :: "mgc \<Rightarrow> layout \<Rightarrow> addr_t \<Rightarrow> addr_t" where
  "ltop G L p = at_ix (nx0 G (ar G p)) (length (wds G L (ar G p)))"

lemma add_cells:
  assumes ok: "mgc_ok G" "lay_ok G L" and p: "p \<in> mg_R G" "p \<notin> fwd G L" and k: "k < length (blk G p)"
  shows "at_ix (ltop G L p) k = at_ix (nx0 G (ar G p)) (length (wds G L (ar G p)) + k)"
    and "length (wds G L (ar G p)) + k < unat (mg_size G) div 8"
    and "at_ix (ltop G L p) k \<in> room G (ar G p)" and "\<not> nur G (at_ix (ltop G L p) k)"
    and "at_ix (ltop G L p) k \<notin> acells G L"
proof -
  show e: "at_ix (ltop G L p) k = at_ix (nx0 G (ar G p)) (length (wds G L (ar G p)) + k)"
    by (simp add: ltop_def at_ix_at_ix)
  have "length (wds G (lay_add G p L) (ar G p)) \<le> unat (mg_size G) div 8"
    using ok p by (intro wds_fit lay_ok_add) (simp_all add: ar_less)
  with k show b: "length (wds G L (ar G p)) + k < unat (mg_size G) div 8" by (simp add: wds_add)
  show r: "at_ix (ltop G L p) k \<in> room G (ar G p)" unfolding e by (rule cell_in_room [OF ok(1) ar_less b])
  show "\<not> nur G (at_ix (ltop G L p) k)" by (rule room_not_nur [OF ok(1) ar_less r])
  show "at_ix (ltop G L p) k \<notin> acells G L"
  proof
    assume "at_ix (ltop G L p) k \<in> acells G L"
    then obtain i l where i: "i < NUM_ARENAS" "l < length (wds G L i)" "at_ix (ltop G L p) k = at_ix (nx0 G i) l"
      by (auto simp: acells_def)
    moreover have "l < unat (mg_size G) div 8" using wds_fit [OF ok i(1)] i(2) by simp
    ultimately have "ar G p = i \<and> length (wds G L (ar G p)) + k = l"
      using cell_eq [OF ok(1) ar_less i(1) b] e by auto
    with i(2) show False by auto
  qed
qed

lemma acells_I: "i < NUM_ARENAS \<Longrightarrow> k < length (wds G L i) \<Longrightarrow> at_ix (nx0 G i) k \<in> acells G L"
  by (auto simp: acells_def)

lemma acells_mono: "ext L L' \<Longrightarrow> acells G L \<subseteq> acells G L'"
proof
  fix c assume e: "ext L L'" and "c \<in> acells G L"
  then obtain i k where i: "i < NUM_ARENAS" "k < length (wds G L i)" "c = at_ix (nx0 G i) k" by (auto simp: acells_def)
  from ext_wds [OF e] obtain ws where "wds G L' i = wds G L i @ ws" by blast
  with i show "c \<in> acells G L'" by (auto simp: acells_def intro!: bexI [of _ i])
qed

lemma acells_add:
  "c \<in> acells G (lay_add G p L) \<Longrightarrow> c \<notin> acells G L \<Longrightarrow> \<exists>k < length (blk G p). c = at_ix (ltop G L p) k"
proof -
  assume "c \<in> acells G (lay_add G p L)" and n: "c \<notin> acells G L"
  then obtain i k where i: "i < NUM_ARENAS" "k < length (wds G (lay_add G p L) i)" "c = at_ix (nx0 G i) k"
    by (auto simp: acells_def)
  have "\<not> k < length (wds G L i)" using i n by (auto simp: acells_def)
  with i(2) have "i = ar G p" "k - length (wds G L i) < length (blk G p)" "length (wds G L i) \<le> k"
    by (auto simp: wds_add split: if_splits)
  with i(3) show ?thesis
    by (intro exI [of _ "k - length (wds G L i)"]) (simp add: ltop_def at_ix_at_ix)
qed

lemma blk_small: "ob_ok (dsc G p) \<Longrightarrow> length (blk G p) \<le> 2 ^ 61"
  by (simp add: length_blk skip_def ob_ok_def)

lemma org_inv_add:
  assumes ok: "mgc_ok G" "lay_ok G L" and p: "p \<in> mg_R G" "p \<notin> fwd G L" and o: "org_inv G L org"
  shows "org_inv G (lay_add G p L) (put_words (ltop G L p) (blk G p) org)"
proof -
  note ac = add_cells [OF ok p]
  have out: "put_words (ltop G L p) (blk G p) org c = org c" if "\<And>k. k < length (blk G p) \<Longrightarrow> c \<noteq> at_ix (ltop G L p) k" for c
    using that by (rule put_words_out)
  have "put_words (ltop G L p) (blk G p) org c = mg_m G c" if c: "c \<notin> acells G (lay_add G p L)" for c
  proof -
    have "c \<noteq> at_ix (ltop G L p) k" if k: "k < length (blk G p)" for k
    proof -
      have "at_ix (ltop G L p) k \<in> acells G (lay_add G p L)"
        unfolding ac(1) [OF k] using k by (intro acells_I ar_less) (simp add: wds_add)
      with c show ?thesis by blast
    qed
    moreover have "c \<notin> acells G L" using c acells_mono [OF ext_add] by blast
    ultimately show ?thesis using o by (simp add: out org_inv_def)
  qed
  moreover have "put_words (ltop G L p) (blk G p) org (at_ix (nx0 G i) k) = wds G (lay_add G p L) i ! k"
    if i: "i < NUM_ARENAS" "k < length (wds G (lay_add G p L) i)" for i k
  proof (cases "k < length (wds G L i)")
    case True
    then have "at_ix (nx0 G i) k \<in> acells G L" using i by (auto simp: acells_def)
    with ac(5) have "put_words (ltop G L p) (blk G p) org (at_ix (nx0 G i) k) = org (at_ix (nx0 G i) k)"
      by (intro out) metis
    with o i True show ?thesis by (simp add: org_inv_def wds_add nth_append)
  next
    case False
    with i(2) have e: "i = ar G p" "k - length (wds G L i) < length (blk G p)" by (auto simp: wds_add split: if_splits)
    have "at_ix (nx0 G i) k = at_ix (ltop G L p) (k - length (wds G L i))"
      using False e by (simp add: ltop_def at_ix_at_ix)
    moreover have "ob_ok (dsc G p)" using okR [OF ok(1) p(1)] by simp
    note put_words_in [OF blk_small [OF this] e(2), of "ltop G L p" org]
    ultimately show ?thesis using e(1) False by (simp add: wds_add nth_append)
  qed
  ultimately show ?thesis by (simp add: org_inv_def)
qed

lemma scan_inv_add:
  assumes ok: "mgc_ok G" "lay_ok G L" and p: "p \<in> mg_R G" "p \<notin> fwd G L" and C: "scan_inv G L org C"
  shows "scan_inv G (lay_add G p L) (put_words (ltop G L p) (blk G p) org) C"
    and "\<And>c. c \<in> C \<Longrightarrow> put_words (ltop G L p) (blk G p) org c = org c"
proof -
  show o: "put_words (ltop G L p) (blk G p) org c = org c" if c: "c \<in> C" for c
  proof (rule put_words_out)
    fix k assume k: "k < length (blk G p)"
    have "at_ix (ltop G L p) k \<in> rooms G" using add_cells(3) [OF ok p k] ar_less [of G p] by (auto simp: rooms_def)
    then show "c \<noteq> at_ix (ltop G L p) k" using C c add_cells(5) [OF ok p k] by (auto simp: scan_inv_def)
  qed
  have "acells G L \<subseteq> acells G (lay_add G p L)" by (rule acells_mono [OF ext_add])
  then show "scan_inv G (lay_add G p L) (put_words (ltop G L p) (blk G p) org) C"
    using C o unfolding scan_inv_def fwd_add by auto
qed


lemma cells_mem: "p - 8 \<in> cells G p" "k < ob_len (dsc G p) \<Longrightarrow> at_ix p k \<in> cells G p"
proof -
  show "p - 8 \<in> cells G p" by (auto simp: cells_def intro!: image_eqI [of _ _ 0])
  show "at_ix p k \<in> cells G p" if "k < ob_len (dsc G p)"
    using that by (auto simp: cells_def at_ix_Suc intro!: image_eqI [of _ _ "Suc k"])
qed

lemma cells_head: "ob_ok (dsc G p) \<Longrightarrow> p \<in> cells G p"
  using cells_mem(2) [of 0 G p] by (simp add: ob_ok_def)

lemma mem_inv_add:
  assumes ok: "mgc_ok G" "lay_ok G L" and p: "p \<in> mg_R G" "p \<notin> fwd G L"
    and C: "scan_inv G L org C" and m: "mem_inv G L org C m"
  shows "mem_inv G (lay_add G p L) (put_words (ltop G L p) (blk G p) org) C
    ((put_words (ltop G L p) (blk G p) m)(p - 8 := DESC_forwarded, p := at_ix (ltop G L p) (skip G p)))"
    (is "mem_inv G ?L ?org C ?m")
proof -
  note ac = add_cells [OF ok p]
  have okp: "ob_ok (dsc G p)" "cells G p \<subseteq> Collect (nur G)" using okR [OF ok(1) p(1)] by auto
  have cp: "p - 8 \<in> cells G p" "p \<in> cells G p" using cells_mem(1) cells_head [OF okp(1)] by auto
  have nur_put: "put_words (ltop G L p) (blk G p) m c = m c" if "nur G c" for c
    using that ac(4) by (intro put_words_out) metis
  have same: "?m c = m c" if "nur G c" "c \<notin> cells G p" for c
    using that cp nur_put by auto
  have cells_other: "?m c = m c" if "q \<in> mg_R G" "q \<noteq> p" "c \<in> cells G q" for q c
    using that okR [OF ok(1) that(1)] ok_disjoint [OF ok(1) p(1) that(1)] by (intro same) auto
  have "\<forall>q \<in> mg_R G - fwd G ?L. \<forall>c \<in> cells G q. ?m c = mg_m G c"
    using m cells_other unfolding mem_inv_def fwd_add by (metis Diff_iff insert_iff)
  moreover have "?m (q - 8) = DESC_forwarded \<and> ?m q = faddr G ?L q" if q: "q \<in> fwd G ?L" for q
  proof (cases "q = p")
    case True
    then show ?thesis using faddr_add [OF p(2)] by (simp add: ltop_def at_ix_at_ix)
  next
    case False
    with q have f: "q \<in> fwd G L" by (simp add: fwd_add)
    then have R: "q \<in> mg_R G" using fwd_in_R [OF ok(2)] by blast
    then have "q - 8 \<in> cells G q" "q \<in> cells G q" using cells_mem(1) cells_head okR [OF ok(1) R] by auto
    with cells_other [OF R False] have "?m (q - 8) = m (q - 8)" "?m q = m q" by blast+
    with m f show ?thesis by (simp add: mem_inv_def ext_faddr [OF ext_add])
  qed
  moreover have "?m c = (if c \<in> C then rl G ?L (?org c) else ?org c)" if c: "\<not> nur G c" for c
  proof -
    have "c \<noteq> p - 8" "c \<noteq> p" using c okp(2) cp by auto
    then have mc: "?m c = put_words (ltop G L p) (blk G p) m c" by simp
    show ?thesis
    proof (cases "\<exists>k < length (blk G p). c = at_ix (ltop G L p) k")
      case True
      then obtain k where k: "k < length (blk G p)" "c = at_ix (ltop G L p) k" by blast
      have "c \<in> rooms G" using ac(3) [OF k(1)] k(2) ar_less [of G p] by (auto simp: rooms_def)
      then have "c \<notin> C" using C ac(5) [OF k(1)] k(2) by (auto simp: scan_inv_def)
      then show ?thesis unfolding mc using k by (simp only: put_words_in [OF blk_small [OF okp(1)] k(1)] if_False)
    next
      case False
      then have "put_words (ltop G L p) (blk G p) m c = m c" "?org c = org c" by (auto intro!: put_words_out)
      moreover have "rl G ?L (org c) = rl G L (org c)" if "c \<in> C"
        using C that by (auto simp: rl_def scan_inv_def ext_faddr [OF ext_add])
      ultimately show ?thesis unfolding mc using m c by (auto simp: mem_inv_def)
    qed
  qed
  moreover have "?m c = mg_m G c" if c: "nur G c" "\<forall>q \<in> mg_R G. c \<notin> cells G q" for c
    using same [OF c(1)] c p(1) m by (simp add: mem_inv_def)
  ultimately show ?thesis unfolding mem_inv_def by blast
qed

lemma upd_mem_fields [simp]:
  "rt_bibop (upd_mem f s) = rt_bibop s" "ml_storePtr (upd_mem f s) = ml_storePtr s" "get_gen g (upd_mem f s) = get_gen g s"
  by (simp_all add: upd_mem_def get_gen_def)

lemma g_dirty_upd_arena: "gens_ok s \<Longrightarrow> g' < 14 \<Longrightarrow> g_dirty (get_gen g (upd_arena g' j f s)) = g_dirty (get_gen g s)"
  by (simp add: upd_arena_def get_gen_upd_gen)

lemma arena_nextw_upd:
  "a = x\<lparr>a_nextw := n, a_sweep_nextw := a_sweep_nextw a\<rparr> \<Longrightarrow> a\<lparr>a_nextw := n'\<rparr> = x\<lparr>a_nextw := n', a_sweep_nextw := a_sweep_nextw a\<rparr>"
  by (cases a, cases x) simp

lemma heap_inv_add:
  assumes "heap_inv G L s"
  shows "heap_inv G (lay_add G p L) (upd_mem f (upd_arena 0 (ar G p) (\<lambda>a. a\<lparr>a_nextw := at_ix (ltop G L p) (length (blk G p))\<rparr>) s))"
    and "frame s (upd_mem f (upd_arena 0 (ar G p) (\<lambda>a. a\<lparr>a_nextw := at_ix (ltop G L p) (length (blk G p))\<rparr>) s))"
proof -
  have g: "gens_ok s" using assms by (simp add: heap_inv_def)
  note ga = get_arena_upd_arena [OF g _ ar_less, of 0]
  have "(get_arena 0 i s)\<lparr>a_nextw := n'\<rparr> = (mg_arena G i)\<lparr>a_nextw := n', a_sweep_nextw := a_sweep_nextw (get_arena 0 i s)\<rparr>"
    if "i < NUM_ARENAS" for i n'
    using assms that by (intro arena_nextw_upd [where n = "at_ix (nx0 G i) (length (wds G L i))"]) (simp add: heap_inv_def)
  with ar_less [of G p] show "heap_inv G (lay_add G p L) (upd_mem f (upd_arena 0 (ar G p) (\<lambda>a. a\<lparr>a_nextw := at_ix (ltop G L p) (length (blk G p))\<rparr>) s))"
    using assms by (auto simp: heap_inv_def gens_ok_upd_arena ga wds_add ltop_def at_ix_at_ix)
  show "frame s (upd_mem f (upd_arena 0 (ar G p) (\<lambda>a. a\<lparr>a_nextw := at_ix (ltop G L p) (length (blk G p))\<rparr>) s))"
    using g by (simp add: frame_def ga g_dirty_upd_arena)
qed


lemma forward_step:
  assumes ok: "mgc_ok G" and inv: "ginv G L org C s" and p: "p \<in> mg_R G"
  shows "\<exists>s' L' org'. MinorGC_ForwardObj p s = Inr (faddr G L' p, s') \<and> p \<in> fwd G L'
    \<and> ginv G L' org' C s' \<and> ext L L' \<and> frame s s' \<and> (\<forall>c. c \<notin> acells G L' \<or> c \<in> acells G L \<longrightarrow> org' c = org c)"
proof -
  from inv have l: "lay_ok G L" "heap_inv G L s" "org_inv G L org" "scan_inv G L org C" "mem_inv G L org C (rt_mem s)"
    by (simp_all add: ginv_def)
  show ?thesis
  proof (cases "p \<in> fwd G L")
    case True
    then have "rt_mem s (p - 8) = DESC_forwarded" "rt_mem s p = faddr G L p" using l(5) by (simp_all add: mem_inv_def)
    then have "MinorGC_ForwardObj p s = Inr (faddr G L p, s)"
      by (simp add: MinorGC_ForwardObj_def GET_TAG_forwarded FOLLOW_FWDOBJ_def)
    with True inv show ?thesis by (intro exI [of _ s] exI [of _ L] exI [of _ org]) (simp add: ext_refl frame_refl)
  next
    case False
    note ac = add_cells [OF ok l(1) p False]
    have R: "ob_ok (dsc G p)" "cells G p \<subseteq> Collect (nur G)" using okR [OF ok p] by auto
    have mc: "rt_mem s c = mg_m G c" if "c \<in> cells G p" for c using l(5) p False that by (simp add: mem_inv_def)
    have d: "rt_mem s (p - 8) = dsc G p" using mc [OF cells_mem(1)] by (simp add: dsc_def)
    have nw: "ltop G L p = a_nextw (get_arena 0 (ar G p) s)"
    proof -
      have "get_arena 0 (ar G p) s = (mg_arena G (ar G p))\<lparr>a_nextw := at_ix (nx0 G (ar G p)) (length (wds G L (ar G p))),
        a_sweep_nextw := a_sweep_nextw (get_arena 0 (ar G p) s)\<rparr>" using l(2) ar_less [of G p] by (simp add: heap_inv_def)
      then have "a_nextw (get_arena 0 (ar G p) s) = a_nextw \<dots>" by (rule arg_cong)
      then show ?thesis by (simp add: ltop_def)
    qed
    have dis: "at_ix p j \<noteq> at_ix (ltop G L p) k" if "j < ob_len (dsc G p)" "k < skip G p + ob_len (dsc G p)" for j k
    proof -
      have "nur G (at_ix p j)" using R(2) cells_mem(2) [OF that(1)] by blast
      then show ?thesis using ac(4) [of k] that(2) by (auto simp: length_blk)
    qed
    have "MinorGC_ForwardObj p s = Inr (copied p (ar G p) (skip G p) (blk G p) s)"
    proof -
      have "map (\<lambda>j. rt_mem s (at_ix p j)) [0..<ob_len (dsc G p)] = map (\<lambda>j. mg_m G (at_ix p j)) [0..<ob_len (dsc G p)]"
        using mc cells_mem(2) by simp
      then have "blk G p = (if ob_pair (dsc G p) then [] else [dsc G p]) @ map (\<lambda>j. rt_mem s (at_ix p j)) [0..<ob_len (dsc G p)]"
        by (simp only: blk_def)
      moreover have "MinorGC_ForwardObj p s = Inr (copied p (ar G p) (skip G p) ((if ob_pair (dsc G p) then [] else [dsc G p])
          @ map (\<lambda>j. rt_mem s (at_ix p j)) [0..<ob_len (dsc G p)]) s)"
        unfolding skip_def by (rule ForwardObj_new [OF R(1) d _ nw]) (use dis in \<open>auto simp: ar_def skip_def\<close>)
      ultimately show ?thesis by simp
    qed
    also have "copied p (ar G p) (skip G p) (blk G p) s = (faddr G (lay_add G p L) p,
      upd_mem (\<lambda>m. (put_words (ltop G L p) (blk G p) m)(p - 8 := DESC_forwarded, p := at_ix (ltop G L p) (skip G p)))
        (upd_arena 0 (ar G p) (\<lambda>a. a\<lparr>a_nextw := at_ix (ltop G L p) (length (blk G p))\<rparr>) s))"
      (is "_ = (_, ?s)") unfolding copied_def Let_def nw [symmetric] faddr_add [OF False] by (simp add: ltop_def at_ix_at_ix)
    finally have f: "MinorGC_ForwardObj p s = Inr (faddr G (lay_add G p L) p, ?s)" .
    have rm: "rt_mem ?s = (put_words (ltop G L p) (blk G p) (rt_mem s))(p - 8 := DESC_forwarded, p := at_ix (ltop G L p) (skip G p))"
      by (simp only: get_arena_upd_mem(2) rt_mem_upd_arena(1))
    have "ginv G (lay_add G p L) (put_words (ltop G L p) (blk G p) org) C ?s"
      unfolding ginv_def rm
      by (intro conjI lay_ok_add [OF l(1) p False] heap_inv_add(1) [OF l(2)] org_inv_add [OF ok l(1) p False l(3)]
        scan_inv_add(1) [OF ok l(1) p False l(4)] mem_inv_add [OF ok l(1) p False l(4,5)])
    moreover have "put_words (ltop G L p) (blk G p) org c = org c" if "c \<notin> acells G (lay_add G p L) \<or> c \<in> acells G L" for c
    proof (rule put_words_out)
      fix k assume k: "k < length (blk G p)"
      have "at_ix (ltop G L p) k \<in> acells G (lay_add G p L)"
        unfolding ac(1) [OF k] using k by (intro acells_I ar_less) (simp add: wds_add)
      with that ac(5) [OF k] show "c \<noteq> at_ix (ltop G L p) k" by blast
    qed
    ultimately show ?thesis using f heap_inv_add(2) [OF l(2)] ext_add
      by (intro exI [of _ ?s] exI [of _ "lay_add G p L"] exI [of _ "put_words (ltop G L p) (blk G p) org"]) (simp add: fwd_add)
  qed
qed


text \<open>Scanning a cell.\<close>

lemma heap_inv_cong: "heap_inv G L (upd_mem f s) = heap_inv G L s"
  by (simp add: heap_inv_def)

lemma in_alloc_nptr: "heap_inv G L s \<Longrightarrow> in_alloc (rt_heap s) w = nptr G w"
  by (simp add: in_alloc_def nptr_def nur_def heap_inv_def)

lemma faddr_not_nur:
  assumes "mgc_ok G" "lay_ok G L" "p \<in> fwd G L"
  shows "\<not> nur G (faddr G L p)" and "0 < ob_len (dsc G p) \<Longrightarrow> faddr G L p \<in> acells G L"
proof -
  have p: "p \<in> mg_R G" "p \<in> set (L (ar G p))" using assms fwd_in_R by (auto simp: fwd_def)
  then have "0 < ob_len (dsc G p)" using okR [OF assms(1) p(1)] by (simp add: ob_ok_def)
  from off_nth [OF p(2) this] have o: "off G (L (ar G p)) p < length (wds G L (ar G p))" by (simp add: wds_def)
  then show "faddr G L p \<in> acells G L" by (simp add: faddr_def acells_I ar_less)
  have "off G (L (ar G p)) p < unat (mg_size G) div 8"
    using o wds_fit [OF assms(1,2) ar_less [of G p]] by simp
  then show "\<not> nur G (faddr G L p)"
    unfolding faddr_def by (rule room_not_nur [OF assms(1) ar_less cell_in_room [OF assms(1) ar_less]])
qed

lemma set_cell:
  assumes ok: "mgc_ok G" and inv: "ginv G L org C s" and p: "\<not> nur G p" "p \<in> rooms G \<longrightarrow> p \<in> acells G L"
    and o: "nptr G (org p) \<longrightarrow> org p \<in> fwd G L" and v: "v = rl G L (org p)"
  shows "ginv G L org (insert p C) (upd_mem (\<lambda>m. m(p := v)) s)"
proof -
  from inv have m: "mem_inv G L org C (rt_mem s)" "lay_ok G L" by (simp_all add: ginv_def)
  let ?m = "(rt_mem s)(p := v)"
  have n: "c \<noteq> p" if "q \<in> mg_R G" "c \<in> cells G q" for q c using okR [OF ok that(1)] that(2) p(1) by auto
  have nq: "q \<noteq> p" "q - 8 \<noteq> p" if "q \<in> fwd G L" for q
  proof -
    have R: "q \<in> mg_R G" using fwd_in_R [OF m(2)] that by blast
    then show "q \<noteq> p" "q - 8 \<noteq> p" using n [OF R cells_head] n [OF R cells_mem(1)] okR [OF ok R] by auto
  qed
  have "mem_inv G L org (insert p C) ?m"
    unfolding mem_inv_def
  proof (intro conjI ballI allI impI)
    show "?m c = mg_m G c" if "q \<in> mg_R G - fwd G L" "c \<in> cells G q" for q c
      using that m(1) n [of q c] by (auto simp: mem_inv_def)
    show "?m (q - 8) = DESC_forwarded" "?m q = faddr G L q" if "q \<in> fwd G L" for q
      using that m(1) nq [OF that] by (simp_all add: mem_inv_def)
    show "?m c = (if c \<in> insert p C then rl G L (org c) else org c)" if "\<not> nur G c" for c
      using that m(1) v by (simp add: mem_inv_def)
    show "?m c = mg_m G c" if "nur G c \<and> (\<forall>q\<in>mg_R G. c \<notin> cells G q)" for c
      using that m(1) p(1) by (auto simp: mem_inv_def)
  qed
  with inv p o show ?thesis by (simp add: ginv_def scan_inv_def heap_inv_cong fun_upd_def)
qed

lemma acells_sub_rooms: "mgc_ok G \<Longrightarrow> lay_ok G L \<Longrightarrow> acells G L \<subseteq> rooms G"
proof
  fix c assume ok: "mgc_ok G" "lay_ok G L" and "c \<in> acells G L"
  then obtain i k where i: "i < NUM_ARENAS" "k < length (wds G L i)" "c = at_ix (nx0 G i) k" by (auto simp: acells_def)
  then have "k < unat (mg_size G) div 8" using wds_fit [OF ok i(1)] by simp
  with i show "c \<in> rooms G" using cell_in_room [OF ok(1) i(1)] by (auto simp: rooms_def)
qed

lemma rl_fixed: "\<not> nptr G w \<Longrightarrow> rl G L w = w"
  by (simp add: rl_def)

lemma CheckWord_step:
  assumes ok: "mgc_ok G" and inv: "ginv G L org C s" and p: "\<not> nur G p" "p \<in> rooms G \<longrightarrow> p \<in> acells G L"
    and o: "nptr G (org p) \<longrightarrow> org p \<in> mg_R G"
  shows "\<exists>s' L' org'. MinorGC_CheckWord p s = Inr s' \<and> ginv G L' org' (insert p C) s' \<and> ext L L' \<and> frame s s'
    \<and> (\<forall>c. c \<notin> acells G L' \<or> c \<in> acells G L \<longrightarrow> org' c = org c)"
proof -
  from inv have l: "lay_ok G L" "heap_inv G L s" "scan_inv G L org C" "mem_inv G L org C (rt_mem s)" by (simp_all add: ginv_def)
  have mp: "rt_mem s p = (if p \<in> C then rl G L (org p) else org p)" using l(4) p by (simp add: mem_inv_def)
  have Cp: "nptr G (org p) \<longrightarrow> org p \<in> fwd G L" if "p \<in> C" using l(3) that by (simp add: scan_inv_def)
  show ?thesis
  proof (cases "nptr G (rt_mem s p)")
    case False
    then have "MinorGC_CheckWord p s = Inr s" by (simp add: MinorGC_CheckWord_def in_alloc_nptr [OF l(2)])
    moreover have "ginv G L org (insert p C) (upd_mem (\<lambda>m. m(p := rt_mem s p)) s)"
    proof (rule set_cell [OF ok inv p])
      show "nptr G (org p) \<longrightarrow> org p \<in> fwd G L" using False mp Cp by (auto split: if_splits)
      show "rt_mem s p = rl G L (org p)" using False mp by (auto simp: rl_fixed split: if_splits)
    qed
    moreover have "upd_mem (\<lambda>m. m(p := rt_mem s p)) s = s" by (simp add: upd_mem_def)
    ultimately show ?thesis by (metis ext_refl frame_refl)
  next
    case True
    have nC: "p \<notin> C"
    proof
      assume "p \<in> C"
      then show False using True mp Cp faddr_not_nur(1) [OF ok l(1)] by (auto simp: rl_def nptr_def split: if_splits)
    qed
    then have w: "rt_mem s p = org p" using mp by simp
    with True o have R: "org p \<in> mg_R G" by simp
    from forward_step [OF ok inv R] obtain s' L' org' where f: "MinorGC_ForwardObj (org p) s = Inr (faddr G L' (org p), s')"
      "org p \<in> fwd G L'" "ginv G L' org' C s'" "ext L L'" "frame s s'"
      "\<forall>c. c \<notin> acells G L' \<or> c \<in> acells G L \<longrightarrow> org' c = org c" by blast
    have op: "org' p = org p"
      using f(6) p(2) acells_sub_rooms [OF ok, of L'] f(3) by (auto simp: ginv_def)
    have "ginv G L' org' (insert p C) (upd_mem (\<lambda>m. m(p := faddr G L' (org p))) s')"
      using set_cell [OF ok f(3) p(1)] p(2) acells_mono [OF f(4)] f(2) op True w by (auto simp: rl_def)
    moreover have "MinorGC_CheckWord p s = Inr (upd_mem (\<lambda>m. m(p := faddr G L' (org p))) s')"
      using True w f(1) by (simp add: MinorGC_CheckWord_def in_alloc_nptr [OF l(2)])
    moreover have "frame s (upd_mem (\<lambda>m. m(p := faddr G L' (org p))) s')" using f(5) by (simp add: frame_def)
    ultimately show ?thesis using f(4,6) by blast
  qed
qed

section \<open>Scanning a list of cells\<close>

text \<open>The copied words only grow.\<close>

definition adv :: "mgc \<Rightarrow> layout \<Rightarrow> memory \<Rightarrow> layout \<Rightarrow> memory \<Rightarrow> bool" where
  "adv G L org L' org' \<longleftrightarrow> ext L L' \<and> (\<forall>c. c \<notin> acells G L' \<or> c \<in> acells G L \<longrightarrow> org' c = org c)"

lemma adv_refl: "adv G L org L org" by (simp add: adv_def ext_refl)

lemma adv_trans: "adv G L org L' org' \<Longrightarrow> adv G L' org' L'' org'' \<Longrightarrow> adv G L org L'' org''"
  unfolding adv_def using ext_trans acells_mono by (metis subsetD)

definition scannable :: "mgc \<Rightarrow> layout \<Rightarrow> memory \<Rightarrow> addr_t \<Rightarrow> bool" where
  "scannable G L org p \<longleftrightarrow> \<not> nur G p \<and> (p \<in> rooms G \<longrightarrow> p \<in> acells G L) \<and> (nptr G (org p) \<longrightarrow> org p \<in> mg_R G)"

lemma adv_org:
  "mgc_ok G \<Longrightarrow> lay_ok G L' \<Longrightarrow> adv G L org L' org' \<Longrightarrow> p \<in> rooms G \<longrightarrow> p \<in> acells G L \<Longrightarrow> org' p = org p"
  using acells_sub_rooms [of G L'] unfolding adv_def by blast

lemma scannable_adv: "mgc_ok G \<Longrightarrow> lay_ok G L' \<Longrightarrow> adv G L org L' org' \<Longrightarrow> scannable G L org p \<Longrightarrow> scannable G L' org' p"
  using adv_org [of G L' L org org' p] acells_mono [of L L' G] unfolding scannable_def adv_def by auto

lemma scan_cells:
  assumes ok: "mgc_ok G" and "ginv G L org C s" and "\<forall>p \<in> set ps. scannable G L org p"
  shows "\<exists>s' L' org'. rfold MinorGC_CheckWord ps s = Inr s' \<and> ginv G L' org' (C \<union> set ps) s' \<and> adv G L org L' org' \<and> frame s s'"
  using assms(2,3)
proof (induction ps arbitrary: L org C s)
  case Nil
  then show ?case by (auto intro: adv_refl frame_refl)
next
  case (Cons p ps)
  then have "\<not> nur G p" "p \<in> rooms G \<longrightarrow> p \<in> acells G L" "nptr G (org p) \<longrightarrow> org p \<in> mg_R G"
    by (simp_all add: scannable_def)
  from CheckWord_step [OF ok Cons.prems(1) this] obtain s1 L1 org1 where
    1: "MinorGC_CheckWord p s = Inr s1" "ginv G L1 org1 (insert p C) s1" "adv G L org L1 org1" "frame s s1"
    unfolding adv_def by blast
  have "\<forall>q \<in> set ps. scannable G L1 org1 q"
    using Cons.prems(2) 1(2) scannable_adv [OF ok _ 1(3)] by (simp add: ginv_def)
  from Cons.IH [OF 1(2) this] obtain s' L' org' where
    2: "rfold MinorGC_CheckWord ps s1 = Inr s'" "ginv G L' org' (insert p C \<union> set ps) s'" "adv G L1 org1 L' org'" "frame s1 s'" by blast
  have "C \<union> set (p # ps) = insert p C \<union> set ps" by auto
  with 1 2 show ?case by (auto intro: adv_trans frame_trans)
qed

section \<open>Sweeping the record, pair and array arenas\<close>

lemma wds_ptr:
  assumes ok: "mgc_ok G" "lay_ok G L" and i: "i \<in> {RECORD_INDX, PAIR_INDX, ARRAY_INDX}" and w: "w \<in> set (wds G L i)" "nptr G w"
  shows "w \<in> mg_R G"
proof -
  from w(1) obtain p where p: "p \<in> set (L i)" "w \<in> set (blk G p)" by (auto simp: wds_def)
  have i5: "i < NUM_ARENAS" using i by auto
  then have R: "p \<in> mg_R G" "ar G p = i" using ok(2) p(1) unfolding lay_ok_def by blast+
  have "ob_ok (dsc G p)" using okR [OF ok(1) R(1)] by simp
  then have nb: "\<not> isBOXED (dsc G p)" and all: "ob_ptrs (dsc G p) = ob_len (dsc G p)"
    using i R(2) by (auto simp: ob_ok_def isDESC_not_BOXED ar_def ob_arena_def ob_ptrs_def ob_len_def Let_def split: if_splits)
  from p(2) nb w(2) obtain j where "j < ob_len (dsc G p)" "w = mg_m G (at_ix p j)"
    by (auto simp: blk_def nptr_def split: if_splits)
  with all w(2) show ?thesis using ok_closed [OF ok(1) R(1), of j] by simp
qed

lemma cell_scannable:
  assumes ok: "mgc_ok G" "lay_ok G L" "org_inv G L org" and i: "i \<in> {RECORD_INDX, PAIR_INDX, ARRAY_INDX}" and k: "k < length (wds G L i)"
  shows "scannable G L org (at_ix (nx0 G i) k)"
proof -
  have i5: "i < NUM_ARENAS" using i by auto
  have "k < unat (mg_size G) div 8" using k wds_fit [OF ok(1,2) i5] by simp
  then have "\<not> nur G (at_ix (nx0 G i) k)" by (rule room_not_nur [OF ok(1) i5 cell_in_room [OF ok(1) i5]])
  moreover have "org (at_ix (nx0 G i) k) = wds G L i ! k" using ok(3) i5 k by (simp add: org_inv_def)
  moreover have "nptr G (wds G L i ! k) \<longrightarrow> wds G L i ! k \<in> mg_R G" using wds_ptr [OF ok(1,2) i] k by simp
  ultimately show ?thesis using acells_I [OF i5 k] by (simp add: scannable_def)
qed

lemma arena_nextw:
  assumes "heap_inv G L s" "i < NUM_ARENAS"
  shows "a_nextw (get_arena 0 i s) = at_ix (nx0 G i) (length (wds G L i))"
proof -
  have "get_arena 0 i s = (mg_arena G i)\<lparr>a_nextw := at_ix (nx0 G i) (length (wds G L i)), a_sweep_nextw := a_sweep_nextw (get_arena 0 i s)\<rparr>"
    using assms by (simp add: heap_inv_def)
  then have "a_nextw (get_arena 0 i s) = a_nextw \<dots>" by (rule arg_cong)
  then show ?thesis by simp
qed

lemma unat_cell:
  assumes "mgc_ok G" "i < NUM_ARENAS" "k \<le> unat (mg_size G) div 8"
  shows "unat (at_ix (nx0 G i) k) = unat (nx0 G i) + 8 * k"
proof (rule unat_at_ix)
  have "8 * k \<le> unat (mg_size G)" using assms(3) by linarith
  then show "unat (nx0 G i) + 8 * k < 2 ^ 64" using ok_room [OF assms(1,2)] by simp
qed

lemma cell_less:
  assumes "mgc_ok G" "i < NUM_ARENAS" "k \<le> unat (mg_size G) div 8" "l \<le> unat (mg_size G) div 8"
  shows "at_ix (nx0 G i) k < at_ix (nx0 G i) l \<longleftrightarrow> k < l"
  using assms by (simp add: word_less_nat_alt unat_cell)

lemma words_between_cells:
  assumes "mgc_ok G" "i < NUM_ARENAS" "k \<le> l" "l \<le> unat (mg_size G) div 8"
  shows "words_between (at_ix (nx0 G i) k) (at_ix (nx0 G i) l) = map (at_ix (nx0 G i)) [k..<l]"
proof -
  have "unat (at_ix (nx0 G i) l) - unat (at_ix (nx0 G i) k) = 8 * (l - k)"
    using assms by (simp add: unat_cell)
  moreover have "(8 * (l - k) + 7) div 8 = l - k" by simp
  ultimately have "words_between (at_ix (nx0 G i) k) (at_ix (nx0 G i) l) = map (\<lambda>j. at_ix (nx0 G i) (k + j)) [0..<l - k]"
    by (simp add: words_between_def at_ix_at_ix)
  also have "\<dots> = map (at_ix (nx0 G i)) (map (\<lambda>j. k + j) [0..<l - k])" by simp
  also have "map (\<lambda>j. k + j) [0..<l - k] = [k..<l]" using assms(3) by (intro nth_equalityI) simp_all
  finally show ?thesis .
qed

end
