(* ===== verification/Minor_Sweep.thy ===== *)
theory Minor_Sweep
  imports Minor_Forward
begin

text \<open>
  The Cheney sweep of a minor collection. Each word of a copied block carries a flag that says
  whether the sweep scans it; an arena is swept up to a word when every flagged word below it
  has been scanned. Sweeping an arena, a round and the rounds keep the invariant of theory
  Minor_Forward, scan flagged words only, and end with every arena swept; the number of swept
  words grows in every round, so fuel larger than the allocation space is enough.
\<close>

section \<open>The cells a sweep scans\<close>

text \<open>One flag per word of a block: the words that a sweep of its arena scans.\<close>

definition bfl :: "mgc \<Rightarrow> addr_t \<Rightarrow> bool list" where
  "bfl G p = (if ob_pair (dsc G p) then [] else [ar G p = RECORD_INDX \<or> ar G p = ARRAY_INDX])
     @ map (\<lambda>j. j < ob_ptrs (dsc G p)) [0..<ob_len (dsc G p)]"

definition flg :: "mgc \<Rightarrow> layout \<Rightarrow> nat \<Rightarrow> bool list" where "flg G L i = concat (map (bfl G) (L i))"

definition fcells :: "mgc \<Rightarrow> layout \<Rightarrow> nat \<Rightarrow> addr_t set" where
  "fcells G L i = {at_ix (nx0 G i) k | k. k < length (flg G L i) \<and> flg G L i ! k}"

lemma length_bfl: "length (bfl G p) = length (blk G p)"
  by (simp add: bfl_def blk_def)

lemma length_bfls: "length (concat (map (bfl G) xs)) = length (concat (map (blk G) xs))"
  by (induction xs) (simp_all add: length_bfl)

lemma length_flg: "length (flg G L i) = length (wds G L i)"
  by (simp add: flg_def wds_def length_bfls)

lemma bfl_nth:
  assumes "j < ob_len (dsc G p)" shows "bfl G p ! (skip G p + j) \<longleftrightarrow> j < ob_ptrs (dsc G p)"
  using assms by (simp add: bfl_def skip_def nth_append)

lemma off_flag:
  assumes "p \<in> set xs" "j < ob_len (dsc G p)"
  shows "concat (map (bfl G) xs) ! (off G xs p + j) \<longleftrightarrow> j < ob_ptrs (dsc G p)"
  using assms(1)
proof (induction xs)
  case (Cons x xs)
  show ?case
  proof (cases "x = p")
    case True
    then show ?thesis using assms(2) by (simp add: nth_append length_bfl length_blk bfl_nth)
  next
    case False
    with Cons show ?thesis by (simp add: nth_append length_bfl add.assoc)
  qed
qed simp

lemma ext_flg: "ext L L' \<Longrightarrow> \<exists>fs. flg G L' i = flg G L i @ fs"
proof -
  assume "ext L L'"
  then obtain ys where "L' i = L i @ ys" unfolding ext_def by blast
  then show ?thesis by (simp add: flg_def)
qed

lemma ext_fcells: "ext L L' \<Longrightarrow> fcells G L i \<subseteq> fcells G L' i"
proof -
  assume "ext L L'"
  from ext_flg [OF this] obtain fs where "flg G L' i = flg G L i @ fs" by blast
  then show ?thesis by (fastforce simp: fcells_def nth_append)
qed

text \<open>The arenas swept word by word have every flag set.\<close>

abbreviation plain :: "nat \<Rightarrow> bool" where "plain i \<equiv> i = RECORD_INDX \<or> i = PAIR_INDX \<or> i = ARRAY_INDX"

lemma flg_plain: "lay_ok G L \<Longrightarrow> mgc_ok G \<Longrightarrow> plain i \<Longrightarrow> set (flg G L i) \<subseteq> {True}"
proof
  fix b assume ok: "lay_ok G L" "mgc_ok G" and i: "plain i" and b: "b \<in> set (flg G L i)"
  from i have i5: "i < NUM_ARENAS" by auto
  from b obtain p where p: "p \<in> set (L i)" "b \<in> set (bfl G p)" by (auto simp: flg_def)
  from ok(1) i5 p(1) have R: "p \<in> mg_R G" "ar G p = i" unfolding lay_ok_def by blast+
  have "ob_ok (dsc G p)" using okR [OF ok(2) R(1)] by simp
  then have "ob_ptrs (dsc G p) = ob_len (dsc G p)"
    using i R(2) by (auto simp: ob_ok_def ar_def ob_arena_def ob_ptrs_def ob_len_def Let_def split: if_splits)
  then show "b \<in> {True}" using p(2) i R(2) by (auto simp: bfl_def ar_def ob_pair_def ob_arena_def Let_def split: if_splits)
qed

lemma fcells_plain: "lay_ok G L \<Longrightarrow> mgc_ok G \<Longrightarrow> plain i \<Longrightarrow> fcells G L i = at_ix (nx0 G i) ` {..<length (wds G L i)}"
  using flg_plain [of G L i] nth_mem [of _ "flg G L i"] by (fastforce simp: fcells_def length_flg)

lemma lay_okD: "lay_ok G L \<Longrightarrow> i < NUM_ARENAS \<Longrightarrow> p \<in> set (L i) \<Longrightarrow> p \<in> mg_R G \<and> ar G p = i"
  by (simp add: lay_ok_def)

section \<open>The state of a sweep\<close>

text \<open>Scanned cells are words the collection starts from or are flagged; the first \<open>k\<close> words of an arena are swept.\<close>

definition only_flagged :: "mgc \<Rightarrow> layout \<Rightarrow> addr_t set \<Rightarrow> bool" where
  "only_flagged G L C \<longleftrightarrow> C \<subseteq> mg_X G \<union> (\<Union>i<NUM_ARENAS. fcells G L i)"

definition swept_to :: "mgc \<Rightarrow> layout \<Rightarrow> addr_t set \<Rightarrow> nat \<Rightarrow> nat \<Rightarrow> bool" where
  "swept_to G L C i k \<longleftrightarrow> k \<le> length (wds G L i) \<and> (\<forall>j<k. flg G L i ! j \<longrightarrow> at_ix (nx0 G i) j \<in> C)"

lemma only_flagged_ext: "only_flagged G L C \<Longrightarrow> ext L L' \<Longrightarrow> only_flagged G L' C"
  using ext_fcells [of L L' G] unfolding only_flagged_def by blast

lemma only_flagged_Un: "only_flagged G L C \<Longrightarrow> D \<subseteq> (\<Union>i<NUM_ARENAS. fcells G L i) \<Longrightarrow> only_flagged G L (C \<union> D)"
  unfolding only_flagged_def by blast

lemma swept_to_ext:
  assumes "swept_to G L C i k" "ext L L'" "C \<subseteq> C'" shows "swept_to G L' C' i k"
proof -
  from ext_flg [OF assms(2)] obtain fs where f: "flg G L' i = flg G L i @ fs" by blast
  have "length (flg G L i) = length (wds G L i)" "length (flg G L' i) = length (wds G L' i)" by (simp_all add: length_flg)
  with assms(1,3) f show ?thesis by (auto simp: swept_to_def nth_append)
qed

text \<open>What the sweeps need of the state, and how it develops.\<close>

definition sgi :: "mgc \<Rightarrow> layout \<Rightarrow> memory \<Rightarrow> addr_t set \<Rightarrow> rt \<Rightarrow> bool" where
  "sgi G L org C s \<longleftrightarrow> ginv G L org C s \<and> only_flagged G L C"

lemma sgiD: "sgi G L org C s \<Longrightarrow> ginv G L org C s" "sgi G L org C s \<Longrightarrow> lay_ok G L"
  "sgi G L org C s \<Longrightarrow> heap_inv G L s" "sgi G L org C s \<Longrightarrow> org_inv G L org"
  "sgi G L org C s \<Longrightarrow> only_flagged G L C"
  by (simp_all add: sgi_def ginv_def)

lemma heap_inv_sweep:
  assumes "heap_inv G L s" "i < NUM_ARENAS" shows "heap_inv G L (upd_arena 0 i (\<lambda>a. a\<lparr>a_sweep_nextw := v\<rparr>) s)"
proof -
  from assms(1) have ok: "gens_ok s" by (simp add: heap_inv_def)
  have "get_arena 0 j (upd_arena 0 i (\<lambda>a. a\<lparr>a_sweep_nextw := v\<rparr>) s) =
      (mg_arena G j)\<lparr>a_nextw := at_ix (nx0 G j) (length (wds G L j)),
        a_sweep_nextw := a_sweep_nextw (get_arena 0 j (upd_arena 0 i (\<lambda>a. a\<lparr>a_sweep_nextw := v\<rparr>) s))\<rparr>"
    if "j < NUM_ARENAS" for j
  proof -
    have e: "get_arena 0 j s = (mg_arena G j)\<lparr>a_nextw := at_ix (nx0 G j) (length (wds G L j)),
        a_sweep_nextw := a_sweep_nextw (get_arena 0 j s)\<rparr>" using assms(1) that by (simp add: heap_inv_def)
    have u: "get_arena 0 j (upd_arena 0 i (\<lambda>a. a\<lparr>a_sweep_nextw := v\<rparr>) s) =
        (if j = i then (get_arena 0 j s)\<lparr>a_sweep_nextw := v\<rparr> else get_arena 0 j s)"
      using assms(2) by (simp add: get_arena_upd_arena [OF ok])
    show ?thesis unfolding u by (subst (1 2) e) simp
  qed
  with assms(1) show ?thesis by (simp add: heap_inv_def gens_ok_upd_arena)
qed

lemma sgi_sweep:
  "sgi G L org C s \<Longrightarrow> i < NUM_ARENAS \<Longrightarrow> sgi G L org C (upd_arena 0 i (\<lambda>a. a\<lparr>a_sweep_nextw := v\<rparr>) s)"
  using heap_inv_sweep [of G L s i v] by (simp add: sgi_def ginv_def)

lemma scan_flagged:
  assumes ok: "mgc_ok G" and inv: "sgi G L org C s" and ps: "set ps \<subseteq> fcells G L i" "i < NUM_ARENAS"
    and sc: "\<forall>p \<in> set ps. scannable G L org p"
  shows "\<exists>s' L' org'. rfold MinorGC_CheckWord ps s = Inr s' \<and> sgi G L' org' (C \<union> set ps) s' \<and> adv G L org L' org' \<and> frame s s'"
proof -
  from scan_cells [OF ok sgiD(1) [OF inv] sc] obtain s' L' org' where
    f: "rfold MinorGC_CheckWord ps s = Inr s'" "ginv G L' org' (C \<union> set ps) s'" "adv G L org L' org'" "frame s s'" by blast
  have "only_flagged G L' (C \<union> set ps)"
    using only_flagged_ext [OF only_flagged_Un [OF sgiD(5) [OF inv]], of "set ps" L'] ps f(3) unfolding adv_def by blast
  with f show ?thesis by (auto simp: sgi_def)
qed

section \<open>Sweeping the record, pair and array arenas\<close>

lemma sweep_arena_correct:
  assumes ok: "mgc_ok G" and i: "plain i"
    and "sgi G L org C s" "swept_to G L C i k" "unat (mg_size G) div 8 - k < fuel"
  shows "\<exists>s' L' org' C'. sweep_arena fuel i (at_ix (nx0 G i) k) s =
       Inr (upd_arena 0 i (\<lambda>a. a\<lparr>a_sweep_nextw := at_ix (nx0 G i) (length (wds G L' i))\<rparr>) s')
     \<and> sgi G L' org' C' s' \<and> adv G L org L' org' \<and> frame s s' \<and> C \<subseteq> C' \<and> swept_to G L' C' i (length (wds G L' i))"
  using assms(3-5)
proof (induction fuel arbitrary: k L org C s)
  case (Suc fuel)
  from i have i5: "i < NUM_ARENAS" by auto
  let ?l = "length (wds G L i)" and ?ps = "map (at_ix (nx0 G i)) [k..<length (wds G L i)]"
  note inv = sgiD [OF Suc.prems(1)]
  have l: "?l \<le> unat (mg_size G) div 8" by (rule wds_fit [OF ok inv(2) i5])
  have k: "k \<le> ?l" using Suc.prems(2) by (simp add: swept_to_def)
  have q: "a_nextw (get_arena 0 i s) = at_ix (nx0 G i) ?l" by (rule arena_nextw [OF inv(3) i5])
  have wb: "words_between (at_ix (nx0 G i) k) (at_ix (nx0 G i) ?l) = ?ps"
    by (rule words_between_cells [OF ok i5 k l])
  have ps: "set ?ps \<subseteq> fcells G L i" using fcells_plain [OF inv(2) ok i] by auto
  have sc: "\<forall>p \<in> set ?ps. scannable G L org p" using cell_scannable [OF ok inv(2,4), of i] i by auto
  from scan_flagged [OF ok Suc.prems(1) ps i5 sc] obtain s1 L1 org1 where
    f: "rfold MinorGC_CheckWord ?ps s = Inr s1" "sgi G L1 org1 (C \<union> set ?ps) s1" "adv G L org L1 org1" "frame s s1" by blast
  let ?C = "C \<union> set ?ps" and ?l1 = "length (wds G L1 i)"
  note inv1 = sgiD [OF f(2)]
  have l1: "?l1 \<le> unat (mg_size G) div 8" by (rule wds_fit [OF ok inv1(2) i5])
  have q1: "a_nextw (get_arena 0 i s1) = at_ix (nx0 G i) ?l1" by (rule arena_nextw [OF inv1(3) i5])
  have sw: "swept_to G L1 ?C i ?l"
  proof -
    have "at_ix (nx0 G i) j \<in> ?C" if "j < ?l" "flg G L i ! j" for j
      using Suc.prems(2) that by (cases "j < k") (simp_all add: swept_to_def)
    then have "swept_to G L ?C i ?l" by (simp add: swept_to_def)
    then show ?thesis using f(3) by (auto simp: adv_def intro: swept_to_ext)
  qed
  have eq: "at_ix (nx0 G i) ?l = at_ix (nx0 G i) ?l1 \<longleftrightarrow> ?l = ?l1"
    using l l1 size_small [of G] by (intro at_ix_inj) simp_all
  show ?case
  proof (cases "?l = ?l1")
    case True
    then have "sweep_arena (Suc fuel) i (at_ix (nx0 G i) k) s =
      Inr (upd_arena 0 i (\<lambda>a. a\<lparr>a_sweep_nextw := at_ix (nx0 G i) ?l1\<rparr>) s1)"
      unfolding sweep_arena.simps Let_def q wb f(1) rbind.simps q1 by simp
    then show ?thesis using True f sw by (intro exI [of _ s1] exI [of _ L1] exI [of _ org1] exI [of _ ?C]) simp
  next
    case False
    have "?l \<noteq> k"
    proof
      assume "?l = k"
      then have "s1 = s" using f(1) by simp
      then have "at_ix (nx0 G i) ?l = at_ix (nx0 G i) ?l1" using q q1 by simp
      with False eq show False by simp
    qed
    then have "unat (mg_size G) div 8 - ?l < fuel" using k l Suc.prems(3) by linarith
    from Suc.IH [OF f(2) sw this] obtain s' L' org' C' where
      r: "sweep_arena fuel i (at_ix (nx0 G i) ?l) s1 =
          Inr (upd_arena 0 i (\<lambda>a. a\<lparr>a_sweep_nextw := at_ix (nx0 G i) (length (wds G L' i))\<rparr>) s')"
        "sgi G L' org' C' s'" "adv G L1 org1 L' org'" "frame s1 s'" "?C \<subseteq> C'" "swept_to G L' C' i (length (wds G L' i))" by blast
    have "sweep_arena (Suc fuel) i (at_ix (nx0 G i) k) s =
        Inr (upd_arena 0 i (\<lambda>a. a\<lparr>a_sweep_nextw := at_ix (nx0 G i) (length (wds G L' i))\<rparr>) s')"
      unfolding sweep_arena.simps Let_def q wb f(1) rbind.simps q1 using False eq r(1) by simp
    moreover have "adv G L org L' org'" "frame s s'" "C \<subseteq> C'"
      using adv_trans [OF f(3) r(3)] frame_trans [OF f(4) r(4)] r(5) by auto
    ultimately show ?thesis using r(2,6) by blast
  qed
qed simp


section \<open>Sweeping the mixed arena\<close>

lemma mixed_object:
  assumes ok: "mgc_ok G" and x: "x \<in> mg_R G" "ar G x = MIXED_INDX"
  shows "\<not> ob_pair (dsc G x)" "\<not> nptr G (dsc G x)"
    "\<exists>l p. mixed_lens (dsc G x) = Inr (l, p) \<and> unat l = ob_len (dsc G x) \<and> unat p = ob_ptrs (dsc G x)"
proof -
  have o: "ob_ok (dsc G x)" using okR [OF ok x(1)] by simp
  then have "isDESC (dsc G x)" by (simp add: ob_ok_def)
  then show "\<not> nptr G (dsc G x)" using isDESC_not_BOXED by (simp add: nptr_def)
  from o x(2) have t: "GET_TAG (dsc G x) \<in> {DTAG_vec_hdr, DTAG_arr_hdr, DTAG_mixed}"
    by (auto simp: ob_ok_def ar_def ob_arena_def Let_def split: if_splits)
  then show "\<not> ob_pair (dsc G x)" by (auto simp: ob_pair_def)
  from t show "\<exists>l p. mixed_lens (dsc G x) = Inr (l, p) \<and> unat l = ob_len (dsc G x) \<and> unat p = ob_ptrs (dsc G x)"
    by (auto simp: mixed_lens_def ob_len_def ob_ptrs_def)
qed

text \<open>The block of one object of the mixed arena, at word \<open>k\<close>.\<close>

lemma mixed_block:
  assumes ok: "mgc_ok G" and inv: "sgi G L org C s" and L: "L MIXED_INDX = pre @ x # post"
    and k: "k = length (concat (map (blk G) pre))"
  shows "x \<in> mg_R G" "ar G x = MIXED_INDX" "rt_mem s (at_ix (nx0 G MIXED_INDX) k) = dsc G x"
    "k + length (blk G x) \<le> length (wds G L MIXED_INDX)"
    "j < ob_len (dsc G x) \<Longrightarrow> org (at_ix (nx0 G MIXED_INDX) (k + 1 + j)) = mg_m G (at_ix x j)"
    "j < ob_len (dsc G x) \<Longrightarrow> flg G L MIXED_INDX ! (k + 1 + j) = (j < ob_ptrs (dsc G x))"
    "\<not> flg G L MIXED_INDX ! k"
proof -
  note I = sgiD [OF inv]
  show x: "x \<in> mg_R G" "ar G x = MIXED_INDX" using lay_okD [OF I(2), of MIXED_INDX x] L by auto
  note mo = mixed_object [OF ok x]
  have w: "wds G L MIXED_INDX = concat (map (blk G) pre) @ blk G x @ concat (map (blk G) post)" by (simp add: wds_def L)
  then show le: "k + length (blk G x) \<le> length (wds G L MIXED_INDX)" by (simp add: k)
  have b: "length (blk G x) = Suc (ob_len (dsc G x))" "blk G x ! 0 = dsc G x"
    "\<And>j. j < ob_len (dsc G x) \<Longrightarrow> blk G x ! Suc j = mg_m G (at_ix x j)" using mo(1) by (simp_all add: blk_def)
  have o: "org (at_ix (nx0 G MIXED_INDX) (k + j)) = blk G x ! j" if "j < length (blk G x)" for j
    using I(4) le that by (simp add: org_inv_def w k nth_append)
  show "j < ob_len (dsc G x) \<Longrightarrow> org (at_ix (nx0 G MIXED_INDX) (k + 1 + j)) = mg_m G (at_ix x j)"
    using o [of "Suc j"] b by simp
  have "k < length (wds G L MIXED_INDX)" using le b by simp
  then have "k < unat (mg_size G) div 8" using wds_fit [OF ok I(2), of MIXED_INDX] by simp
  then have "\<not> nur G (at_ix (nx0 G MIXED_INDX) k)" by (intro room_not_nur [OF ok _ cell_in_room [OF ok]]) simp_all
  moreover have "rl G L (dsc G x) = dsc G x" using mo(2) by (rule rl_fixed)
  moreover have "org (at_ix (nx0 G MIXED_INDX) k) = dsc G x" using o [of 0] b by simp
  moreover have "mem_inv G L org C (rt_mem s)" using I(1) by (simp add: ginv_def)
  ultimately show "rt_mem s (at_ix (nx0 G MIXED_INDX) k) = dsc G x" by (simp add: mem_inv_def)
  have f: "flg G L MIXED_INDX = concat (map (bfl G) pre) @ bfl G x @ concat (map (bfl G) post)" by (simp add: flg_def L)
  have kf: "k = length (concat (map (bfl G) pre))" by (simp add: k length_bfls)
  have fl: "flg G L MIXED_INDX ! (k + j) = bfl G x ! j" if "j < length (blk G x)" for j
    using that unfolding f kf by (simp add: nth_append length_bfl)
  show "j < ob_len (dsc G x) \<Longrightarrow> flg G L MIXED_INDX ! (k + 1 + j) = (j < ob_ptrs (dsc G x))"
    using fl [of "Suc j"] b bfl_nth [of j G x] mo(1) by (simp add: skip_def)
  show "\<not> flg G L MIXED_INDX ! k" using fl [of 0] b mo(1) x(2) by (simp add: bfl_def)
qed

lemma sweep_mixed_correct:
  assumes ok: "mgc_ok G"
    and "sgi G L org C s" "swept_to G L C MIXED_INDX k" "L MIXED_INDX = pre @ x # post"
      "k = length (concat (map (blk G) pre))" "unat (mg_size G) div 8 - k < fuel"
  shows "\<exists>s' L' org' C'. sweep_mixed fuel (at_ix (nx0 G MIXED_INDX) k) s =
       Inr (upd_arena 0 MIXED_INDX (\<lambda>a. a\<lparr>a_sweep_nextw := at_ix (nx0 G MIXED_INDX) (length (wds G L' MIXED_INDX))\<rparr>) s')
     \<and> sgi G L' org' C' s' \<and> adv G L org L' org' \<and> frame s s' \<and> C \<subseteq> C' \<and> swept_to G L' C' MIXED_INDX (length (wds G L' MIXED_INDX))"
  using assms(2-6)
proof (induction fuel arbitrary: k pre x post L org C s)
  case (Suc fuel)
  let ?N = "nx0 G MIXED_INDX" and ?d = "dsc G x"
  note I = sgiD [OF Suc.prems(1)] and mb = mixed_block [OF ok Suc.prems(1,3,4)]
  note mo = mixed_object [OF ok mb(1,2)]
  from mo(3) obtain l p where lp: "mixed_lens ?d = Inr (l, p)" "unat l = ob_len ?d" "unat p = ob_ptrs ?d" by blast
  have ob: "ob_ok ?d" using okR [OF ok mb(1)] by simp
  then have pl: "ob_ptrs ?d \<le> ob_len ?d" by (simp add: ob_ok_def)
  have bl: "length (blk G x) = 1 + ob_len ?d" using mo(1) by (simp add: length_blk skip_def)
  let ?ps = "map (\<lambda>j. at_ix ?N (k + 1 + j)) [0..<ob_ptrs ?d]" and ?k = "k + length (blk G x)"
  have wl: "length (wds G L MIXED_INDX) \<le> unat (mg_size G) div 8" using wds_fit [OF ok I(2)] by simp
  have e: "map (at_ix (at_ix ?N k + 8)) [0..<unat p] = ?ps"
    using at_ix_at_ix [of ?N k 1] by (simp add: lp(3) at_ix_at_ix at_ix_def [of _ 1]) (simp add: at_ix_def algebra_simps)
  have p': "at_ix ?N k + 8 + 8 * l = at_ix ?N ?k" by (simp add: at_ix_def bl algebra_simps flip: lp(2))
  have ps: "set ?ps \<subseteq> fcells G L MIXED_INDX"
  proof
    fix c assume "c \<in> set ?ps"
    then obtain j where j: "j < ob_ptrs ?d" "c = at_ix ?N (k + 1 + j)" by auto
    then have "k + 1 + j < length (flg G L MIXED_INDX)" using mb(4) bl pl by (simp add: length_flg)
    with j show "c \<in> fcells G L MIXED_INDX" using mb(6) [of j] pl by (auto simp: fcells_def)
  qed
  have sc: "\<forall>c \<in> set ?ps. scannable G L org c"
  proof
    fix c assume "c \<in> set ?ps"
    then obtain j where j: "j < ob_ptrs ?d" "c = at_ix ?N (k + 1 + j)" by auto
    have kw: "k + 1 + j < length (wds G L MIXED_INDX)" using j mb(4) bl pl by simp
    then have "\<not> nur G c" unfolding j(2) using wl by (intro room_not_nur [OF ok _ cell_in_room [OF ok]]) simp_all
    moreover have "c \<in> acells G L" unfolding j(2) using kw by (intro acells_I) simp_all
    moreover have "org c = mg_m G (at_ix x j)" using mb(5) [of j] j pl by simp
    ultimately show "scannable G L org c" using ok_closed [OF ok mb(1) j(1)] by (simp add: scannable_def)
  qed
  from scan_flagged [OF ok Suc.prems(1) ps _ sc] obtain s1 L1 org1 where
    f: "rfold MinorGC_CheckWord ?ps s = Inr s1" "sgi G L1 org1 (C \<union> set ?ps) s1" "adv G L org L1 org1" "frame s s1" by auto
  let ?C = "C \<union> set ?ps" and ?l1 = "length (wds G L1 MIXED_INDX)"
  note I1 = sgiD [OF f(2)]
  have l1: "?l1 \<le> unat (mg_size G) div 8" using wds_fit [OF ok I1(2)] by simp
  have q1: "a_nextw (get_arena 0 MIXED_INDX s1) = at_ix ?N ?l1" by (rule arena_nextw [OF I1(3)]) simp
  have sw0: "swept_to G L ?C MIXED_INDX ?k"
    unfolding swept_to_def
  proof (intro conjI allI impI mb(4))
    fix j assume j: "j < ?k" "flg G L MIXED_INDX ! j"
    consider "j < k" | "j = k" | i where "j = k + 1 + i" "i < ob_len ?d"
      using j(1) bl by (metis add_diff_inverse_nat less_Suc_eq linorder_less_linear not_less_eq add.commute plus_1_eq_Suc add_less_cancel_left add.assoc)
    then show "at_ix ?N j \<in> ?C"
    proof cases
      case 1
      then show ?thesis using Suc.prems(2) j(2) by (simp add: swept_to_def)
    next
      case 2
      then show ?thesis using j(2) mb(7) by simp
    next
      case 3
      then show ?thesis using j(2) mb(6) [of i] by auto
    qed
  qed
  then have sw: "swept_to G L1 ?C MIXED_INDX ?k" using f(3) by (auto simp: adv_def intro: swept_to_ext)
  from f(3) obtain ys where "L1 MIXED_INDX = L MIXED_INDX @ ys" unfolding adv_def ext_def by blast
  then have L1: "L1 MIXED_INDX = (pre @ [x]) @ post @ ys" using Suc.prems(3) by simp
  have k': "?k = length (concat (map (blk G) (pre @ [x])))" by (simp add: Suc.prems(4))
  have kl: "?k \<le> ?l1" using sw by (simp add: swept_to_def)
  have lt: "at_ix ?N ?k < at_ix ?N ?l1 \<longleftrightarrow> ?k < ?l1" using cell_less [OF ok, of MIXED_INDX ?k ?l1] kl l1 by simp
  have unf: "sweep_mixed (Suc fuel) (at_ix ?N k) s =
      (if ?k < ?l1 then sweep_mixed fuel (at_ix ?N ?k) s1
       else Inr (upd_arena 0 MIXED_INDX (\<lambda>a. a\<lparr>a_sweep_nextw := at_ix ?N ?k\<rparr>) s1))"
    unfolding sweep_mixed.simps mb(3) lp(1) rbind.simps case_prod_conv e f(1) Let_def p' q1 lt by simp
  show ?case
  proof (cases "?k < ?l1")
    case False
    then have "?k = ?l1" using kl by simp
    then show ?thesis using unf f sw by (intro exI [of _ s1] exI [of _ L1] exI [of _ org1] exI [of _ ?C]) simp
  next
    case True
    then obtain x' post' where L1': "L1 MIXED_INDX = (pre @ [x]) @ x' # post'"
      using L1 k' by (cases "post @ ys") (auto simp: wds_def)
    have "unat (mg_size G) div 8 - ?k < fuel" using True l1 Suc.prems(5) bl by linarith
    from Suc.IH [OF f(2) sw L1' k' this] obtain s' L' org' C' where
      r: "sweep_mixed fuel (at_ix ?N ?k) s1 = Inr (upd_arena 0 MIXED_INDX (\<lambda>a. a\<lparr>a_sweep_nextw := at_ix ?N (length (wds G L' MIXED_INDX))\<rparr>) s')"
        "sgi G L' org' C' s'" "adv G L1 org1 L' org'" "frame s1 s'" "?C \<subseteq> C'" "swept_to G L' C' MIXED_INDX (length (wds G L' MIXED_INDX))" by blast
    have "sweep_mixed (Suc fuel) (at_ix ?N k) s = Inr (upd_arena 0 MIXED_INDX (\<lambda>a. a\<lparr>a_sweep_nextw := at_ix ?N (length (wds G L' MIXED_INDX))\<rparr>) s')"
      using unf r(1) True by simp
    moreover have "adv G L org L' org'" "frame s s'" "C \<subseteq> C'"
      using adv_trans [OF f(3) r(3)] frame_trans [OF f(4) r(4)] r(5) by auto
    ultimately show ?thesis using r(2,6) by blast
  qed
qed simp


section \<open>Rounds\<close>

abbreviation sweepable :: "nat \<Rightarrow> bool" where "sweepable i \<equiv> plain i \<or> i = MIXED_INDX"

text \<open>\<open>K i\<close> is the number of words of arena \<open>i\<close> that are swept; in the mixed arena it is a
  boundary between objects.\<close>

definition rinv :: "mgc \<Rightarrow> layout \<Rightarrow> memory \<Rightarrow> addr_t set \<Rightarrow> (nat \<Rightarrow> nat) \<Rightarrow> rt \<Rightarrow> bool" where
  "rinv G L org C K s \<longleftrightarrow> sgi G L org C s
     \<and> (\<forall>i. sweepable i \<longrightarrow> swept_to G L C i (K i) \<and> a_sweep_nextw (get_arena 0 i s) = at_ix (nx0 G i) (K i))
     \<and> (\<exists>pre post. L MIXED_INDX = pre @ post \<and> K MIXED_INDX = length (concat (map (blk G) pre)))"

definition gframe :: "rt \<Rightarrow> rt \<Rightarrow> bool" where
  "gframe s s' \<longleftrightarrow> rt_bibop s' = rt_bibop s \<and> ml_storePtr s' = ml_storePtr s
     \<and> h_weakList (rt_heap s') = h_weakList (rt_heap s)
     \<and> hstats (rt_heap s') = hstats (rt_heap s) \<and> (\<forall>g i. 0 < g \<longrightarrow> get_arena g i s' = get_arena g i s)
     \<and> (\<forall>g < MAX_NUM_GENS. g_dirty (get_gen g s') = g_dirty (get_gen g s))"

lemma gframe_refl: "gframe s s" by (simp add: gframe_def)

lemma gframe_trans: "gframe s t \<Longrightarrow> gframe t u \<Longrightarrow> gframe s u" by (simp add: gframe_def)

lemma rinvD: "rinv G L org C K s \<Longrightarrow> sgi G L org C s"
  "rinv G L org C K s \<Longrightarrow> sweepable i \<Longrightarrow> swept_to G L C i (K i)"
  "rinv G L org C K s \<Longrightarrow> sweepable i \<Longrightarrow> a_sweep_nextw (get_arena 0 i s) = at_ix (nx0 G i) (K i)"
  "rinv G L org C K s \<Longrightarrow> \<exists>pre post. L MIXED_INDX = pre @ post \<and> K MIXED_INDX = length (concat (map (blk G) pre))"
  unfolding rinv_def by blast+

lemma rinv_bound: "mgc_ok G \<Longrightarrow> rinv G L org C K s \<Longrightarrow> sweepable i \<Longrightarrow> K i \<le> length (wds G L i) \<and> length (wds G L i) \<le> unat (mg_size G) div 8"
  using rinvD(2) [of G L org C K s i] wds_fit [of G L i] sgiD(2) [OF rinvD(1), of G L org C K s] by (auto simp: swept_to_def)

lemma needs_sweeping:
  assumes ok: "mgc_ok G" and inv: "rinv G L org C K s" and i: "sweepable i"
  shows "NEEDS_SWEEPING (get_arena 0 i s) \<longleftrightarrow> K i < length (wds G L i)"
proof -
  have i5: "i < NUM_ARENAS" using i by auto
  show ?thesis using rinv_bound [OF assms] cell_less [OF ok i5, of "K i" "length (wds G L i)"]
    arena_nextw [OF sgiD(3) [OF rinvD(1) [OF inv]] i5] rinvD(3) [OF inv i] by (simp add: NEEDS_SWEEPING_def)
qed

text \<open>After an arena has been swept to its end.\<close>

lemma rinv_swept:
  assumes inv: "rinv G L org C K s" and i: "sweepable i"
    and r: "sgi G L' org' C' s'" "adv G L org L' org'" "frame s s'" "C \<subseteq> C'" "swept_to G L' C' i (length (wds G L' i))"
  defines "t \<equiv> upd_arena 0 i (\<lambda>a. a\<lparr>a_sweep_nextw := at_ix (nx0 G i) (length (wds G L' i))\<rparr>) s'"
  shows "rinv G L' org' C' (K(i := length (wds G L' i))) t" "gframe s t"
proof -
  let ?K = "K(i := length (wds G L' i))"
  from i have i5: "i < NUM_ARENAS" by auto
  have ok: "gens_ok s'" using sgiD(3) [OF r(1)] by (simp add: heap_inv_def)
  have e: "ext L L'" using r(2) by (simp add: adv_def)
  have ar: "a_sweep_nextw (get_arena 0 j t) = (if j = i then at_ix (nx0 G i) (length (wds G L' i)) else a_sweep_nextw (get_arena 0 j s'))" for j
    using i5 by (simp add: t_def get_arena_upd_arena [OF ok])
  have "swept_to G L' C' j (?K j) \<and> a_sweep_nextw (get_arena 0 j t) = at_ix (nx0 G j) (?K j)" if j: "sweepable j" for j
  proof (cases "j = i")
    case True
    then show ?thesis using r(5) ar by simp
  next
    case False
    have "j < NUM_ARENAS" using j by auto
    then have "a_sweep_nextw (get_arena 0 j s') = at_ix (nx0 G j) (K j)" using r(3) rinvD(3) [OF inv j] by (simp add: frame_def)
    with False show ?thesis using swept_to_ext [OF rinvD(2) [OF inv j] e r(4)] ar by simp
  qed
  moreover have "\<exists>pre post. L' MIXED_INDX = pre @ post \<and> ?K MIXED_INDX = length (concat (map (blk G) pre))"
  proof (cases "i = MIXED_INDX")
    case True
    then show ?thesis by (intro exI [of _ "L' MIXED_INDX"] exI [of _ "[]"]) (simp add: wds_def)
  next
    case False
    from rinvD(4) [OF inv] obtain pre post where "L MIXED_INDX = pre @ post" "K MIXED_INDX = length (concat (map (blk G) pre))" by blast
    moreover obtain ys where "L' MIXED_INDX = L MIXED_INDX @ ys" using e unfolding ext_def by blast
    ultimately show ?thesis using False by (intro exI [of _ pre] exI [of _ "post @ ys"]) simp
  qed
  ultimately show "rinv G L' org' C' ?K t" using sgi_sweep [OF r(1) i5] by (simp add: rinv_def t_def)
  show "gframe s t" using r(3) ok i5 by (simp add: gframe_def frame_def t_def g_dirty_upd_arena get_arena_upd_arena)
qed

text \<open>One arena of a round: either there is nothing to sweep, or it is swept to its end.\<close>

definition sweep_part :: "nat \<Rightarrow> nat \<Rightarrow> bool \<times> rt \<Rightarrow> (bool \<times> rt) res" where
  "sweep_part fuel i = (if i = MIXED_INDX then MinorGC_SweepMixed fuel else MinorGC_SweepToSpArena fuel i)"

definition progress :: "mgc \<Rightarrow> layout \<Rightarrow> memory \<Rightarrow> addr_t set \<Rightarrow> (nat \<Rightarrow> nat) \<Rightarrow> rt \<Rightarrow> layout \<Rightarrow> memory \<Rightarrow> addr_t set \<Rightarrow> (nat \<Rightarrow> nat) \<Rightarrow> rt \<Rightarrow> bool" where
  "progress G L org C K s L' org' C' K' s' \<longleftrightarrow>
     rinv G L' org' C' K' s' \<and> adv G L org L' org' \<and> gframe s s' \<and> C \<subseteq> C' \<and> (\<forall>j. K j \<le> K' j)"

lemma sweep_part_correct:
  assumes ok: "mgc_ok G" and inv: "rinv G L org C K s" and i: "sweepable i" and fuel: "unat (mg_size G) div 8 < fuel"
  shows "(K i = length (wds G L i) \<and> sweep_part fuel i (b, s) = Inr (b, s)) \<or>
    (\<exists>s' L' org' C' K'. sweep_part fuel i (b, s) = Inr (True, s') \<and> progress G L org C K s L' org' C' K' s' \<and> K i < K' i)"
proof (cases "K i < length (wds G L i)")
  case False
  then have "K i = length (wds G L i)" using rinv_bound [OF ok inv i] by simp
  moreover have "sweep_part fuel i (b, s) = Inr (b, s)"
    using needs_sweeping [OF ok inv i] False by (auto simp: sweep_part_def MinorGC_SweepMixed_def MinorGC_SweepToSpArena_def Let_def)
  ultimately show ?thesis by simp
next
  case True
  let ?r = "\<lambda>r. \<exists>s' L' org' C'. r = Inr (upd_arena 0 i (\<lambda>a. a\<lparr>a_sweep_nextw := at_ix (nx0 G i) (length (wds G L' i))\<rparr>) s')
     \<and> sgi G L' org' C' s' \<and> adv G L org L' org' \<and> frame s s' \<and> C \<subseteq> C' \<and> swept_to G L' C' i (length (wds G L' i))"
  have fl: "unat (mg_size G) div 8 - K i < fuel" using fuel by linarith
  note sg = rinvD(1) [OF inv] and sw = rinvD(2) [OF inv i]
  have "\<exists>r. ?r r \<and> sweep_part fuel i (b, s) = rbind r (\<lambda>s. Inr (True, s))"
  proof (cases "i = MIXED_INDX")
    case mixed: True
    from rinvD(4) [OF inv] obtain pre post where L: "L MIXED_INDX = pre @ post" "K MIXED_INDX = length (concat (map (blk G) pre))" by blast
    with True mixed obtain x post' where L': "L MIXED_INDX = pre @ x # post'" by (cases post) (auto simp: wds_def)
    have "?r (sweep_mixed fuel (at_ix (nx0 G i) (K i)) s)"
      using sweep_mixed_correct [OF ok sg _ L' L(2)] sw fl mixed by simp
    moreover have "sweep_part fuel i (b, s) = rbind (sweep_mixed fuel (at_ix (nx0 G i) (K i)) s) (\<lambda>s. Inr (True, s))"
      using needs_sweeping [OF ok inv i] rinvD(3) [OF inv i] True mixed by (simp add: sweep_part_def MinorGC_SweepMixed_def Let_def)
    ultimately show ?thesis by blast
  next
    case False
    then have pl: "plain i" using i by simp
    have "?r (sweep_arena fuel i (at_ix (nx0 G i) (K i)) s)" by (rule sweep_arena_correct [OF ok pl sg sw fl])
    moreover have "sweep_part fuel i (b, s) = rbind (sweep_arena fuel i (at_ix (nx0 G i) (K i)) s) (\<lambda>s. Inr (True, s))"
      using needs_sweeping [OF ok inv i] rinvD(3) [OF inv i] True False by (simp add: sweep_part_def MinorGC_SweepToSpArena_def Let_def)
    ultimately show ?thesis by blast
  qed
  then obtain s' L' org' C' where r: "sweep_part fuel i (b, s) =
      Inr (True, upd_arena 0 i (\<lambda>a. a\<lparr>a_sweep_nextw := at_ix (nx0 G i) (length (wds G L' i))\<rparr>) s')" (is "_ = Inr (True, ?t)")
    "sgi G L' org' C' s'" "adv G L org L' org'" "frame s s'" "C \<subseteq> C'" "swept_to G L' C' i (length (wds G L' i))" by auto
  have "length (wds G L i) \<le> length (wds G L' i)" using ext_wds [of L L' G i] r(3) by (auto simp: adv_def)
  then have "K i < length (wds G L' i)" using True by simp
  then have "progress G L org C K s L' org' C' (K(i := length (wds G L' i))) ?t \<and> K i < (K(i := length (wds G L' i))) i"
    using rinv_swept [OF inv i r(2-6)] r(3,5) by (simp add: progress_def)
  with r(1) show ?thesis by blast
qed


text \<open>A round sweeps something, or leaves the state as it is because every arena is swept.\<close>

definition total :: "(nat \<Rightarrow> nat) \<Rightarrow> nat" where "total K = K RECORD_INDX + K PAIR_INDX + K ARRAY_INDX + K MIXED_INDX"

lemma total_mono: "(\<forall>j. K j \<le> K' j) \<Longrightarrow> total K \<le> total K'"
  unfolding total_def by (intro add_mono) simp_all

lemma total_strict: "(\<forall>j. K j \<le> K' j) \<Longrightarrow> sweepable i \<Longrightarrow> K i < K' i \<Longrightarrow> total K < total K'"
  unfolding total_def by (elim disjE; hypsubst) (meson add_less_le_mono add_le_less_mono add_mono)+

lemma progress_refl: "rinv G L org C K s \<Longrightarrow> progress G L org C K s L org C K s"
  by (simp add: progress_def adv_refl gframe_refl)

lemma progress_trans:
  "progress G L org C K s L1 org1 C1 K1 s1 \<Longrightarrow> progress G L1 org1 C1 K1 s1 L' org' C' K' s' \<Longrightarrow> progress G L org C K s L' org' C' K' s'"
  unfolding progress_def using adv_trans gframe_trans order_trans by (metis (no_types, lifting))

text \<open>The state after some of the arenas of a round: \<open>b\<close> says whether one of them was swept.\<close>

definition part_done :: "mgc \<Rightarrow> layout \<Rightarrow> memory \<Rightarrow> addr_t set \<Rightarrow> (nat \<Rightarrow> nat) \<Rightarrow> rt \<Rightarrow> nat list \<Rightarrow> (bool \<times> rt) res \<Rightarrow> bool" where
  "part_done G L org C K s is r \<longleftrightarrow>
     (r = Inr (False, s) \<and> (\<forall>i \<in> set is. K i = length (wds G L i)))
   \<or> (\<exists>s' L' org' C' K'. r = Inr (True, s') \<and> progress G L org C K s L' org' C' K' s' \<and> total K < total K')"

lemma part_done_step:
  assumes ok: "mgc_ok G" and inv: "rinv G L org C K s" and i: "sweepable i" and fuel: "unat (mg_size G) div 8 < fuel"
    and r: "part_done G L org C K s is r"
  shows "part_done G L org C K s (i # is) (rbind r (sweep_part fuel i))"
  using r unfolding part_done_def
proof (elim disjE exE conjE)
  assume a: "r = Inr (False, s)" "\<forall>i\<in>set is. K i = length (wds G L i)"
  have st: "total K < total K'" if "progress G L org C K s L' org' C' K' s'" "K i < K' i" for s' L' org' C' K'
    using that total_strict [OF _ i] by (simp add: progress_def)
  from a sweep_part_correct [OF ok inv i fuel, of False]
  show "rbind r (sweep_part fuel i) = Inr (False, s) \<and> (\<forall>i \<in> set (i # is). K i = length (wds G L i)) \<or>
     (\<exists>s' L' org' C' K'. rbind r (sweep_part fuel i) = Inr (True, s') \<and> progress G L org C K s L' org' C' K' s' \<and> total K < total K')"
    by (elim disjE exE conjE) (simp, use st in \<open>simp, blast\<close>)
next
  fix s1 L1 org1 C1 K1
  assume a: "r = Inr (True, s1)" "progress G L org C K s L1 org1 C1 K1 s1" "total K < total K1"
  then have inv1: "rinv G L1 org1 C1 K1 s1" by (simp add: progress_def)
  have "\<exists>s' L' org' C' K'. sweep_part fuel i (True, s1) = Inr (True, s') \<and> progress G L1 org1 C1 K1 s1 L' org' C' K' s'"
    using sweep_part_correct [OF ok inv1 i fuel, of True] progress_refl [OF inv1] by blast
  then obtain s' L' org' C' K' where b: "sweep_part fuel i (True, s1) = Inr (True, s')" "progress G L1 org1 C1 K1 s1 L' org' C' K' s'" by blast
  have "total K1 \<le> total K'" using b(2) by (intro total_mono) (simp add: progress_def)
  then have "total K < total K'" using a(3) by simp
  moreover have "rbind r (sweep_part fuel i) = Inr (True, s')" using a(1) b(1) by simp
  ultimately show "rbind r (sweep_part fuel i) = Inr (False, s) \<and> (\<forall>i \<in> set (i # is). K i = length (wds G L i)) \<or>
     (\<exists>s' L' org' C' K'. rbind r (sweep_part fuel i) = Inr (True, s') \<and> progress G L org C K s L' org' C' K' s' \<and> total K < total K')"
    using progress_trans [OF a(2) b(2)] by blast
qed

lemma sweep_round_parts:
  "sweep_round fuel s = rbind (rbind (rbind (rbind (Inr (False, s)) (sweep_part fuel RECORD_INDX)) (sweep_part fuel PAIR_INDX))
     (sweep_part fuel ARRAY_INDX)) (sweep_part fuel MIXED_INDX)"
  unfolding sweep_round_def by (simp add: sweep_part_def rbind_assoc)

lemma sweep_round_correct:
  assumes "mgc_ok G" "rinv G L org C K s" "unat (mg_size G) div 8 < fuel"
  shows "part_done G L org C K s [MIXED_INDX, ARRAY_INDX, PAIR_INDX, RECORD_INDX] (sweep_round fuel s)"
proof -
  have "part_done G L org C K s [] (Inr (False, s))" by (simp add: part_done_def)
  then show ?thesis unfolding sweep_round_parts by (intro part_done_step [OF assms(1,2) _ assms(3)]) simp_all
qed

lemma total_bound: "mgc_ok G \<Longrightarrow> rinv G L org C K s \<Longrightarrow> total K \<le> 4 * (unat (mg_size G) div 8)"
  using rinv_bound [of G L org C K s RECORD_INDX] rinv_bound [of G L org C K s PAIR_INDX]
    rinv_bound [of G L org C K s ARRAY_INDX] rinv_bound [of G L org C K s MIXED_INDX] unfolding total_def by simp

definition all_swept :: "mgc \<Rightarrow> layout \<Rightarrow> (nat \<Rightarrow> nat) \<Rightarrow> bool" where
  "all_swept G L K \<longleftrightarrow> (\<forall>i. sweepable i \<longrightarrow> K i = length (wds G L i))"

lemma sweep_rounds_correct:
  assumes ok: "mgc_ok G" and fuel: "unat (mg_size G) div 8 < fuel"
    and "rinv G L org C K s" "4 * (unat (mg_size G) div 8) - total K < n"
  shows "\<exists>s' L' org' C' K'. sweep_rounds n fuel s = Inr s' \<and> progress G L org C K s L' org' C' K' s' \<and> all_swept G L' K'"
  using assms(3,4)
proof (induction n arbitrary: L org C K s)
  case (Suc n)
  from sweep_round_correct [OF ok Suc.prems(1) fuel] show ?case unfolding part_done_def
  proof (elim disjE exE conjE)
    assume a: "sweep_round fuel s = Inr (False, s)" "\<forall>i\<in>set [MIXED_INDX, ARRAY_INDX, PAIR_INDX, RECORD_INDX]. K i = length (wds G L i)"
    have "all_swept G L K" unfolding all_swept_def using a(2) by auto
    then show ?thesis using a(1) progress_refl [OF Suc.prems(1)] by auto
  next
    fix s1 L1 org1 C1 K1
    assume a: "sweep_round fuel s = Inr (True, s1)" "progress G L org C K s L1 org1 C1 K1 s1" "total K < total K1"
    have inv1: "rinv G L1 org1 C1 K1 s1" using a(2) by (simp add: progress_def)
    have "4 * (unat (mg_size G) div 8) - total K1 < n"
      using Suc.prems(2) a(3) total_bound [OF ok inv1] by linarith
    from Suc.IH [OF inv1 this] obtain s' L' org' C' K' where
      "sweep_rounds n fuel s1 = Inr s'" "progress G L1 org1 C1 K1 s1 L' org' C' K' s'" "all_swept G L' K'" by blast
    moreover from this have "progress G L org C K s L' org' C' K' s'" by (blast intro: progress_trans [OF a(2)])
    moreover have "sweep_rounds (Suc n) fuel s = sweep_rounds n fuel s1" using a(1) by simp
    ultimately show ?thesis by metis
  qed
qed simp

lemma SweepToSpace_correct:
  assumes "mgc_ok G" "unat (mg_size G) < fuel" "rinv G L org C K s"
  shows "\<exists>s' L' org' C' K'. MinorGC_SweepToSpace fuel s = Inr s' \<and> progress G L org C K s L' org' C' K' s' \<and> all_swept G L' K'"
proof -
  have "unat (mg_size G) div 8 < fuel" "4 * (unat (mg_size G) div 8) - total K < fuel" using assms(2) by linarith+
  then show ?thesis unfolding MinorGC_SweepToSpace_def using sweep_rounds_correct [OF assms(1) _ assms(3)] by blast
qed

end
