(* ===== verification/Minor_Store.thy ===== *)
theory Minor_Store
  imports Minor_Sweep
begin

text \<open>
  The store list of a minor collection: scanning an entry forwards the object it points to, or
  marks the card of the word, and keeps the invariant of theory Minor_Forward; cards only become
  dirtier, and afterwards every entry that points to a younger generation is remembered.
\<close>

section \<open>Pages and cards\<close>

text \<open>The page table of a collection: the allocation space is new space, and the space the
  collection may fill belongs to arenas of the first generation, whose allocation pointers are
  aligned.\<close>

definition pages_ok :: "mgc \<Rightarrow> bibop \<Rightarrow> bool" where
  "pages_ok G b \<longleftrightarrow> (\<forall>i < NUM_ARENAS. 8 dvd unat (nx0 G i)) \<and> (\<forall>c. nur G c \<longrightarrow> ADDR_TO_PAGEID b c = Inr AID_NEW)
     \<and> (\<forall>c \<in> rooms G. \<exists>d. ADDR_TO_PAGEID b c = Inr d \<and> \<not> IS_BIGOBJ_AID d \<and> EXTRACT_GEN d = 1)"

definition has_card :: "rt \<Rightarrow> nat \<Rightarrow> addr_t \<Rightarrow> bool" where
  "has_card s g a \<longleftrightarrow> (\<exists>cm. g_dirty (get_gen g s) = Some cm \<and> CARD_INDEX cm a < cm_numCards cm)"

text \<open>A store-list entry: a word of the allocation space, or a word of an older object with a
  card. A big object that it points to is not younger than the object that holds the word; for
  those the code reads the region header from the wrong place.\<close>

definition entry_ok :: "mgc \<Rightarrow> rt \<Rightarrow> addr_t \<Rightarrow> bool" where
  "entry_ok G s a \<longleftrightarrow> nur G a \<or>
     (a \<notin> rooms G \<and> (nptr G (mg_m G a) \<longrightarrow> mg_m G a \<in> mg_R G)
      \<and> (\<exists>d. ADDR_TO_PAGEID (rt_bibop s) a = Inr d \<and> d \<noteq> AID_NEW \<and> d \<noteq> AID_UNMAPPED
          \<and> EXTRACT_GEN d \<le> MAX_NUM_GENS \<and> (1 < EXTRACT_GEN d \<longrightarrow> has_card s (EXTRACT_GEN d - 1) a)
          \<and> (isBOXED (mg_m G a) \<and> \<not> nur G (mg_m G a) \<longrightarrow>
              (\<exists>d'. ADDR_TO_PAGEID (rt_bibop s) (mg_m G a) = Inr d' \<and> EXTRACT_GEN d' \<noteq> 0
                 \<and> (IS_BIGOBJ_AID d' \<longrightarrow> EXTRACT_GEN d \<le> EXTRACT_GEN d')))))"

text \<open>What the scan of the store list leaves alone; cards only become dirtier.\<close>

definition dirtier :: "card_map option \<Rightarrow> card_map option \<Rightarrow> bool" where
  "dirtier x y \<longleftrightarrow> (case x of None \<Rightarrow> y = None
     | Some cm \<Rightarrow> (\<exists>f. y = Some (cm\<lparr>cm_map := f\<rparr>) \<and> (\<forall>i. f i \<le> cm_map cm i)))"

definition sframe :: "rt \<Rightarrow> rt \<Rightarrow> bool" where
  "sframe s s' \<longleftrightarrow> rt_bibop s' = rt_bibop s \<and> ml_storePtr s' = ml_storePtr s
     \<and> h_weakList (rt_heap s') = h_weakList (rt_heap s)
     \<and> hstats (rt_heap s') = hstats (rt_heap s) \<and> (\<forall>g i. 0 < g \<longrightarrow> get_arena g i s' = get_arena g i s)
     \<and> (\<forall>i < NUM_ARENAS. a_sweep_nextw (get_arena 0 i s') = a_sweep_nextw (get_arena 0 i s))
     \<and> (\<forall>g < MAX_NUM_GENS. dirtier (g_dirty (get_gen g s)) (g_dirty (get_gen g s')))"

lemma dirtier_refl: "dirtier x x"
proof (cases x)
  case (Some cm)
  then show ?thesis by (auto simp: dirtier_def intro!: exI [of _ "cm_map cm"])
qed (simp add: dirtier_def)

lemma dirtier_trans: "dirtier x y \<Longrightarrow> dirtier y z \<Longrightarrow> dirtier x z"
proof (cases x)
  case (Some cm)
  assume "dirtier x y" "dirtier y z"
  with Some obtain f g where "y = Some (cm\<lparr>cm_map := f\<rparr>)" "\<forall>i. f i \<le> cm_map cm i" "z = Some (cm\<lparr>cm_map := g\<rparr>)" "\<forall>i. g i \<le> f i"
    by (auto simp: dirtier_def)
  with Some show ?thesis by (auto simp: dirtier_def intro!: exI [of _ g] intro: order_trans)
qed (simp add: dirtier_def)

lemma sframe_refl: "sframe s s" by (simp add: sframe_def dirtier_refl)

lemma sframe_trans: "sframe s t \<Longrightarrow> sframe t u \<Longrightarrow> sframe s u"
  unfolding sframe_def by (simp, blast intro: dirtier_trans)

lemma frame_sframe: "frame s s' \<Longrightarrow> sframe s s'" by (simp add: frame_def sframe_def dirtier_refl)

lemma has_card_sframe: "sframe s s' \<Longrightarrow> g < MAX_NUM_GENS \<Longrightarrow> has_card s g a \<Longrightarrow> has_card s' g a"
  by (fastforce simp: sframe_def has_card_def dirtier_def CARD_INDEX_def)

lemma entry_ok_sframe: "sframe s s' \<Longrightarrow> entry_ok G s a \<Longrightarrow> entry_ok G s' a"
proof -
  assume f: "sframe s s'" and e: "entry_ok G s a"
  have b: "rt_bibop s' = rt_bibop s" using f by (simp add: sframe_def)
  have "has_card s' (EXTRACT_GEN d - 1) a" if "has_card s (EXTRACT_GEN d - 1) a" "EXTRACT_GEN d \<le> MAX_NUM_GENS" for d
    using has_card_sframe [OF f _ that(1)] that(2) by simp
  with e show ?thesis unfolding entry_ok_def b by blast
qed

text \<open>Marking a card.\<close>

definition card_at :: "rt \<Rightarrow> nat \<Rightarrow> addr_t \<Rightarrow> byte_t" where
  "card_at s g a = (case g_dirty (get_gen g s) of None \<Rightarrow> CARD_CLEAN | Some cm \<Rightarrow> cm_map cm (CARD_INDEX cm a))"

lemma mark_dirty_correct:
  assumes inv: "ginv G L org C s" and c: "has_card s (g - 1) a" and g: "1 < g" "g \<le> MAX_NUM_GENS" "d < 256"
  shows "\<exists>s'. mark_dirty g a d s = Inr s' \<and> ginv G L org C s' \<and> sframe s s' \<and> unat (card_at s' (g - 1) a) \<le> d"
proof -
  from c obtain cm where cm: "g_dirty (get_gen (g - 1) s) = Some cm" "CARD_INDEX cm a < cm_numCards cm" by (auto simp: has_card_def)
  have ok: "gens_ok s" using inv by (simp add: ginv_def heap_inv_def)
  define i where "i = CARD_INDEX cm a"
  define f where "f = (if int d < uint (cm_map cm i) then (cm_map cm)(i := of_nat d) else cm_map cm)"
  have lt: "int d < uint (cm_map cm i) \<longleftrightarrow> d < unat (cm_map cm i)" unfolding uint_nat by (rule of_nat_less_iff)
  have od: "unat (of_nat d :: byte_t) = d" using g(3) by (simp add: unat_of_nat)
  have fi: "unat (f i) \<le> d" unfolding f_def lt using od by simp
  have fle: "\<forall>j. f j \<le> cm_map cm j" unfolding f_def lt using od by (auto simp: word_le_nat_alt)
  define s' where "s' = upd_gen (g - 1) (\<lambda>gn. gn\<lparr>g_dirty := Some (cm\<lparr>cm_map := f\<rparr>)\<rparr>) s"
  have gg: "get_gen h s' = (if h = g - 1 then (get_gen h s)\<lparr>g_dirty := Some (cm\<lparr>cm_map := f\<rparr>)\<rparr> else get_gen h s)" for h
    using g by (simp add: s'_def get_gen_upd_gen [OF ok])
  have r: "mark_dirty g a d s = Inr s'"
    using cm by (auto simp: mark_dirty_def MARK_CARD_def Let_def s'_def f_def i_def)
  have ga: "get_arena h j s' = get_arena h j s" for h j by (simp add: get_arena_def gg)
  have "gens_ok s'" using ok unfolding gens_ok_def gg by (simp add: s'_def upd_gen_def)
  moreover have "rt_mem s' = rt_mem s" "h_allocBase (rt_heap s') = h_allocBase (rt_heap s)" "h_allocSzB (rt_heap s') = h_allocSzB (rt_heap s)"
    by (simp_all add: s'_def upd_gen_def)
  ultimately have "ginv G L org C s'" using inv by (simp add: ginv_def heap_inv_def ga)
  moreover have "sframe s s'"
    unfolding sframe_def
  proof (intro conjI allI impI)
    fix h show "dirtier (g_dirty (get_gen h s)) (g_dirty (get_gen h s'))"
      using cm(1) fle by (cases "h = g - 1") (auto simp: gg dirtier_refl, auto simp: dirtier_def)
  qed (simp_all add: ga, simp_all add: s'_def upd_gen_def hstats_def)
  moreover have "unat (card_at s' (g - 1) a) \<le> d" using fi by (simp add: card_at_def gg i_def CARD_INDEX_def)
  ultimately show ?thesis using r by blast
qed


section \<open>One entry\<close>

text \<open>The generation, after the collection, of the small object that a word points to.\<close>

definition target_of :: "mgc \<Rightarrow> bibop \<Rightarrow> word_t \<Rightarrow> nat" where
  "target_of G b w = (if nur G w then 1 else
     case ADDR_TO_PAGEID b w of Inr d \<Rightarrow> if IS_BIGOBJ_AID d then MAX_NUM_GENS else EXTRACT_GEN d | Inl _ \<Rightarrow> MAX_NUM_GENS)"

text \<open>A word of a generation above 1 that points to a younger generation has a card that says so.\<close>

definition remembered :: "mgc \<Rightarrow> rt \<Rightarrow> addr_t \<Rightarrow> bool" where
  "remembered G s a \<longleftrightarrow> (\<forall>d. \<not> nur G a \<and> ADDR_TO_PAGEID (rt_bibop s) a = Inr d \<and> isBOXED (mg_m G a)
     \<and> target_of G (rt_bibop s) (mg_m G a) < EXTRACT_GEN d \<and> EXTRACT_GEN d \<le> MAX_NUM_GENS \<and> 1 < EXTRACT_GEN d
     \<longrightarrow> unat (card_at s (EXTRACT_GEN d - 1) a) \<le> target_of G (rt_bibop s) (mg_m G a))"

lemma card_at_sframe: "sframe s s' \<Longrightarrow> g < MAX_NUM_GENS \<Longrightarrow> card_at s' g a \<le> card_at s g a"
  by (fastforce simp: sframe_def card_at_def dirtier_def CARD_INDEX_def split: option.splits)

lemma remembered_sframe: "sframe s s' \<Longrightarrow> remembered G s a \<Longrightarrow> remembered G s' a"
proof -
  assume f: "sframe s s'" and r: "remembered G s a"
  have b: "rt_bibop s' = rt_bibop s" using f by (simp add: sframe_def)
  have "unat (card_at s' (EXTRACT_GEN d - 1) a) \<le> unat (card_at s (EXTRACT_GEN d - 1) a)"
    if "EXTRACT_GEN d \<le> MAX_NUM_GENS" "1 < EXTRACT_GEN d" for d
    using card_at_sframe [OF f, of "EXTRACT_GEN d - 1" a] that by (simp add: word_le_nat_alt)
  with r show ?thesis unfolding remembered_def b by (meson order_trans)
qed

lemma AID_NEW_gen: "EXTRACT_GEN AID_NEW = 0" "\<not> IS_BIGOBJ_AID AID_NEW"
  using EXTRACT_MAKE_AID [of 0 0 0] by (simp_all add: AID_NEW_def IS_BIGOBJ_AID_def)

lemma cell_done:
  assumes ok: "mgc_ok G" and inv: "ginv G L org C s" and p: "\<not> nur G p" "p \<in> rooms G \<longrightarrow> p \<in> acells G L" and n: "\<not> nptr G (rt_mem s p)"
  shows "ginv G L org (insert p C) s"
proof -
  from inv have l: "scan_inv G L org C" "mem_inv G L org C (rt_mem s)" by (simp_all add: ginv_def)
  have mp: "rt_mem s p = (if p \<in> C then rl G L (org p) else org p)" using l(2) p by (simp add: mem_inv_def)
  have "ginv G L org (insert p C) (upd_mem (\<lambda>m. m(p := rt_mem s p)) s)"
  proof (rule set_cell [OF ok inv p])
    show "nptr G (org p) \<longrightarrow> org p \<in> fwd G L" using n mp l(1) by (auto simp: scan_inv_def split: if_splits)
    show "rt_mem s p = rl G L (org p)" using n mp by (auto simp: rl_fixed split: if_splits)
  qed
  moreover have "upd_mem (\<lambda>m. m(p := rt_mem s p)) s = s" by (simp add: upd_mem_def)
  ultimately show ?thesis by simp
qed

lemma org_outside: "mgc_ok G \<Longrightarrow> ginv G L org C s \<Longrightarrow> p \<notin> rooms G \<Longrightarrow> org p = mg_m G p"
  using acells_sub_rooms [of G L] by (auto simp: ginv_def org_inv_def)

text \<open>A cell that holds no pointer into the allocation space: a card may be marked.\<close>

lemma scan_store_old:
  assumes inv: "ginv G L org C s" and pg: "ADDR_TO_PAGEID (rt_bibop s) a = Inr d" "d \<noteq> AID_NEW" "d \<noteq> AID_UNMAPPED" "EXTRACT_GEN d \<le> MAX_NUM_GENS"
    and hc: "1 < EXTRACT_GEN d \<Longrightarrow> has_card s (EXTRACT_GEN d - 1) a" and w: "isBOXED (rt_mem s a)"
    and pw: "ADDR_TO_PAGEID (rt_bibop s) (rt_mem s a) = Inr d'" "EXTRACT_GEN d' \<noteq> 0" "IS_BIGOBJ_AID d' \<Longrightarrow> EXTRACT_GEN d \<le> EXTRACT_GEN d'"
  shows "\<exists>s'. scan_store a s = Inr s' \<and> ginv G L org C s' \<and> sframe s s'
    \<and> (EXTRACT_GEN d' < EXTRACT_GEN d \<longrightarrow> unat (card_at s' (EXTRACT_GEN d - 1) a) \<le> EXTRACT_GEN d')"
proof (cases "EXTRACT_GEN d' < EXTRACT_GEN d")
  case True
  then have "\<not> IS_BIGOBJ_AID d'" using pw(3) by auto
  then have e: "scan_store a s = mark_dirty (EXTRACT_GEN d) a (EXTRACT_GEN d') s"
    using w pg pw True by (simp add: scan_store_def Let_def)
  have "1 < EXTRACT_GEN d" "EXTRACT_GEN d' < 256" using True pw(2) pg(4) by auto
  from mark_dirty_correct [OF inv hc [OF this(1)] this(1) pg(4) this(2)] show ?thesis unfolding e by blast
next
  case False
  then have "scan_store a s = Inr s" using w pg pw by (simp add: scan_store_def Let_def)
  then show ?thesis using False inv by (auto intro: sframe_refl)
qed

lemma aligned_boxed: "8 dvd unat w \<Longrightarrow> isBOXED (w :: word_t)"
proof -
  assume "8 dvd unat w"
  then obtain k where k: "unat w = 8 * k" by (elim dvdE)
  have "bit w n \<longleftrightarrow> bit (unat w) n" if "n < 64" for n using that by (simp add: bit_unsigned_iff)
  from this [of 0] this [of 1] have "bit w 0 = bit (8 * k) 0" "bit w 1 = bit (8 * k) 1" by (simp_all add: k)
  then show ?thesis unfolding low_bits by (simp only:) (simp add: bit_iff_odd)
qed

lemma faddr_room:
  assumes "mgc_ok G" "lay_ok G L" "p \<in> fwd G L"
  shows "faddr G L p \<in> rooms G"
proof -
  have "p \<in> mg_R G" using assms fwd_in_R by blast
  then have "0 < ob_len (dsc G p)" using okR [OF assms(1), of p] by (simp add: ob_ok_def)
  then show ?thesis using faddr_not_nur(2) [OF assms] acells_sub_rooms [OF assms(1,2)] by blast
qed

lemma pages_faddr:
  assumes pages: "pages_ok G b" and ok: "mgc_ok G" "lay_ok G L" and p: "p \<in> fwd G L"
  shows "isBOXED (faddr G L p)" "\<exists>d. ADDR_TO_PAGEID b (faddr G L p) = Inr d \<and> \<not> IS_BIGOBJ_AID d \<and> EXTRACT_GEN d = 1"
proof -
  have "8 dvd unat (nx0 G (ar G p))" using pages ar_less [of G p] by (simp add: pages_ok_def)
  then show "isBOXED (faddr G L p)" unfolding faddr_def by (intro aligned_boxed dvd_at_ix)
  show "\<exists>d. ADDR_TO_PAGEID b (faddr G L p) = Inr d \<and> \<not> IS_BIGOBJ_AID d \<and> EXTRACT_GEN d = 1"
    using pages faddr_room [OF ok p] unfolding pages_ok_def by blast
qed

text \<open>A cell outside the allocation space that points into it: the object is forwarded.\<close>

lemma scan_store_new:
  assumes ok: "mgc_ok G" and inv: "ginv G L org C s" and pages: "pages_ok G (rt_bibop s)"
    and a: "\<not> nur G a" "a \<notin> rooms G" "a \<notin> C" "nptr G (mg_m G a)" "mg_m G a \<in> mg_R G"
    and pg: "ADDR_TO_PAGEID (rt_bibop s) a = Inr d" "d \<noteq> AID_NEW" "d \<noteq> AID_UNMAPPED" "EXTRACT_GEN d \<le> MAX_NUM_GENS"
    and hc: "1 < EXTRACT_GEN d \<Longrightarrow> has_card s (EXTRACT_GEN d - 1) a"
  shows "\<exists>s' L' org'. scan_store a s = Inr s' \<and> ginv G L' org' (insert a C) s' \<and> adv G L org L' org' \<and> sframe s s'
    \<and> (1 < EXTRACT_GEN d \<longrightarrow> unat (card_at s' (EXTRACT_GEN d - 1) a) \<le> 1)"
proof -
  have w: "rt_mem s a = mg_m G a"
    using inv a(1,3) org_outside [OF ok inv a(2)] by (simp add: ginv_def mem_inv_def)
  from forward_step [OF ok inv a(5)] obtain s1 L1 org1 where f: "MinorGC_ForwardObj (mg_m G a) s = Inr (faddr G L1 (mg_m G a), s1)"
    "mg_m G a \<in> fwd G L1" "ginv G L1 org1 C s1" "ext L L1" "frame s s1"
    "\<forall>c. c \<notin> acells G L1 \<or> c \<in> acells G L \<longrightarrow> org1 c = org c" by blast
  let ?s = "upd_mem (\<lambda>m. m(a := faddr G L1 (mg_m G a))) s1"
  have inv1: "ginv G L1 org1 (insert a C) ?s"
    using set_cell [OF ok f(3) a(1)] a(2,4) f(2) org_outside [OF ok f(3) a(2)] by (simp add: rl_def)
  have fr: "sframe s ?s" using frame_sframe [OF f(5)] by (simp add: sframe_def)
  have ad: "adv G L org L1 org1" using f(4,6) by (simp add: adv_def)
  have new: "ADDR_TO_PAGEID (rt_bibop s) (mg_m G a) = Inr AID_NEW" "isBOXED (mg_m G a)"
    using pages a(4) by (simp_all add: pages_ok_def nptr_def)
  have e: "scan_store a s = (if 1 < EXTRACT_GEN d then mark_dirty (EXTRACT_GEN d) a 1 ?s else Inr ?s)"
    using new pg f(1) by (simp add: scan_store_def w Let_def AID_NEW_gen)
  show ?thesis
  proof (cases "1 < EXTRACT_GEN d")
    case True
    have "has_card ?s (EXTRACT_GEN d - 1) a" using has_card_sframe [OF fr _ hc [OF True]] pg(4) True by simp
    from mark_dirty_correct [OF inv1 this True pg(4), of 1] obtain s' where
      "mark_dirty (EXTRACT_GEN d) a 1 ?s = Inr s'" "ginv G L1 org1 (insert a C) s'" "sframe ?s s'"
      "unat (card_at s' (EXTRACT_GEN d - 1) a) \<le> 1" by auto
    then show ?thesis using e True ad sframe_trans [OF fr] by auto
  next
    case False
    then show ?thesis using e inv1 ad fr by auto
  qed
qed

lemma scan_store_step:
  assumes ok: "mgc_ok G" and inv: "ginv G L org C s" and pages: "pages_ok G (rt_bibop s)" and e: "entry_ok G s a"
  shows "\<exists>s' L' org'. scan_store a s = Inr s' \<and> ginv G L' org' (if nur G a then C else insert a C) s' \<and> adv G L org L' org'
    \<and> sframe s s' \<and> remembered G s' a"
proof (cases "nur G a")
  case True
  then have "scan_store a s = Inr s" using pages by (simp add: scan_store_def pages_ok_def Let_def)
  then show ?thesis using True inv adv_refl [of G L org] sframe_refl [of s] by (auto simp: remembered_def)
next
  case False
  from inv have l: "lay_ok G L" "scan_inv G L org C" "mem_inv G L org C (rt_mem s)" by (simp_all add: ginv_def)
  from e False obtain d where a: "a \<notin> rooms G" "nptr G (mg_m G a) \<longrightarrow> mg_m G a \<in> mg_R G"
    and d: "ADDR_TO_PAGEID (rt_bibop s) a = Inr d" "d \<noteq> AID_NEW" "d \<noteq> AID_UNMAPPED" "EXTRACT_GEN d \<le> MAX_NUM_GENS"
    and hc: "1 < EXTRACT_GEN d \<Longrightarrow> has_card s (EXTRACT_GEN d - 1) a"
    and old: "isBOXED (mg_m G a) \<and> \<not> nur G (mg_m G a) \<longrightarrow>
              (\<exists>d'. ADDR_TO_PAGEID (rt_bibop s) (mg_m G a) = Inr d' \<and> EXTRACT_GEN d' \<noteq> 0
                 \<and> (IS_BIGOBJ_AID d' \<longrightarrow> EXTRACT_GEN d \<le> EXTRACT_GEN d'))"
    unfolding entry_ok_def by blast
  let ?w = "mg_m G a"
  have ma: "rt_mem s a = (if a \<in> C then rl G L ?w else ?w)"
    using l(3) False org_outside [OF ok inv a(1)] by (simp add: mem_inv_def)
  have Ca: "nptr G ?w \<longrightarrow> ?w \<in> fwd G L" if "a \<in> C" using l(2) that org_outside [OF ok inv a(1)] by (auto simp: scan_inv_def)
  have rem: "remembered G s' a" if "sframe s s'" "isBOXED ?w \<longrightarrow> target_of G (rt_bibop s) ?w < EXTRACT_GEN d \<longrightarrow> 1 < EXTRACT_GEN d \<longrightarrow>
        unat (card_at s' (EXTRACT_GEN d - 1) a) \<le> target_of G (rt_bibop s) ?w" for s'
    using that d(1) by (simp add: remembered_def sframe_def)
  consider "a \<notin> C" "nptr G ?w" | "a \<in> C" "nptr G ?w" | "\<not> nptr G ?w" "isBOXED ?w" | "\<not> isBOXED ?w" by blast
  then show ?thesis
  proof cases
    case 1
    with a(2) have "?w \<in> mg_R G" by simp
    from scan_store_new [OF ok inv pages False a(1) 1 this d hc] obtain s' L' org' where
      r: "scan_store a s = Inr s'" "ginv G L' org' (insert a C) s'" "adv G L org L' org'" "sframe s s'"
        "1 < EXTRACT_GEN d \<longrightarrow> unat (card_at s' (EXTRACT_GEN d - 1) a) \<le> 1" by blast
    moreover have "remembered G s' a" using 1 r(5) by (intro rem r(4)) (simp add: target_of_def nptr_def)
    ultimately show ?thesis using False by auto
  next
    case 2
    then have f: "?w \<in> fwd G L" "rt_mem s a = faddr G L ?w" using Ca ma by (simp_all add: rl_def)
    from pages_faddr [OF pages ok l(1) f(1)] obtain d' where
      b: "isBOXED (rt_mem s a)" "ADDR_TO_PAGEID (rt_bibop s) (rt_mem s a) = Inr d'" "\<not> IS_BIGOBJ_AID d'" "EXTRACT_GEN d' = 1" unfolding f(2) by blast
    from scan_store_old [OF inv d hc b(1,2)] b(3,4) obtain s' where
      r: "scan_store a s = Inr s'" "ginv G L org C s'" "sframe s s'" "1 < EXTRACT_GEN d \<longrightarrow> unat (card_at s' (EXTRACT_GEN d - 1) a) \<le> 1" by auto
    moreover have "remembered G s' a" using 2 r(4) by (intro rem r(3)) (simp add: target_of_def nptr_def)
    moreover have "insert a C = C" using 2 by blast
    ultimately show ?thesis using False adv_refl [of G L org] by auto
  next
    case 3
    then have w: "rt_mem s a = ?w" using ma by (simp add: rl_fixed)
    have nn: "\<not> nur G ?w" using 3 by (simp add: nptr_def)
    from old 3(2) nn obtain d' where b: "ADDR_TO_PAGEID (rt_bibop s) (rt_mem s a) = Inr d'" "EXTRACT_GEN d' \<noteq> 0"
      "IS_BIGOBJ_AID d' \<longrightarrow> EXTRACT_GEN d \<le> EXTRACT_GEN d'" unfolding w by blast
    have inv': "ginv G L org (insert a C) s" using cell_done [OF ok inv False] a(1) 3(1) w by simp
    have "isBOXED (rt_mem s a)" using 3(2) w by simp
    from scan_store_old [OF inv' d hc this b(1,2)] b(3) obtain s' where
      r: "scan_store a s = Inr s'" "ginv G L org (insert a C) s'" "sframe s s'"
      "EXTRACT_GEN d' < EXTRACT_GEN d \<longrightarrow> unat (card_at s' (EXTRACT_GEN d - 1) a) \<le> EXTRACT_GEN d'" by auto
    moreover have "remembered G s' a" using r(4) b(1,3) d(4) nn w by (intro rem r(3)) (auto simp: target_of_def)
    ultimately show ?thesis using False adv_refl [of G L org] by auto
  next
    case 4
    then have n: "\<not> nptr G ?w" by (simp add: nptr_def)
    then have w: "rt_mem s a = ?w" using ma by (simp add: rl_fixed)
    have "ginv G L org (insert a C) s" using cell_done [OF ok inv False] a(1) n w by simp
    moreover have "scan_store a s = Inr s" using 4 w by (simp add: scan_store_def)
    moreover have "remembered G s a" using 4 by (simp add: remembered_def)
    ultimately show ?thesis using False adv_refl [of G L org] sframe_refl [of s] by auto
  qed
qed

section \<open>The list\<close>

text \<open>The store list \<open>as\<close> at \<open>n\<close>: its nodes are words of the allocation space outside the live objects.\<close>

definition free_cell :: "mgc \<Rightarrow> addr_t \<Rightarrow> bool" where
  "free_cell G c \<longleftrightarrow> nur G c \<and> (\<forall>p \<in> mg_R G. c \<notin> cells G p)"

fun stl_list :: "mgc \<Rightarrow> word_t \<Rightarrow> addr_t list \<Rightarrow> bool" where
  "stl_list G n [] \<longleftrightarrow> n = ML_unit"
| "stl_list G n (a # as) \<longleftrightarrow> n \<noteq> ML_unit \<and> free_cell G n \<and> free_cell G (n + 8) \<and> mg_m G n = a \<and> stl_list G (mg_m G (n + 8)) as"

definition old_entries :: "mgc \<Rightarrow> addr_t list \<Rightarrow> addr_t set" where "old_entries G as = {a \<in> set as. \<not> nur G a}"

lemma free_cell_mem: "ginv G L org C s \<Longrightarrow> free_cell G c \<Longrightarrow> rt_mem s c = mg_m G c"
  by (simp add: ginv_def mem_inv_def free_cell_def)

lemma scan_store_list:
  assumes ok: "mgc_ok G" and "stl_list G n as" "as \<noteq> []" "length as \<le> fuel" "ginv G L org C s" "pages_ok G (rt_bibop s)"
    "\<forall>a \<in> set as. entry_ok G s a"
  shows "\<exists>s' L' org'. MinorGC_ScanStoreList fuel n s = Inr s' \<and> ginv G L' org' (C \<union> old_entries G as) s' \<and> adv G L org L' org'
    \<and> sframe s s' \<and> (\<forall>a \<in> set as. remembered G s' a)"
  using assms(2-)
proof (induction as arbitrary: n fuel L org C s)
  case (Cons a as)
  from Cons.prems(3) obtain fuel' where fuel: "fuel = Suc fuel'" "length as \<le> fuel'" by (cases fuel) auto
  have n: "rt_mem s n = a" "rt_mem s (n + 8) = mg_m G (n + 8)"
    using Cons.prems(1) free_cell_mem [OF Cons.prems(4)] by auto
  have "entry_ok G s a" using Cons.prems(6) by simp
  from scan_store_step [OF ok Cons.prems(4,5) this] obtain s1 L1 org1 where
    1: "scan_store a s = Inr s1" "ginv G L1 org1 (if nur G a then C else insert a C) s1" "adv G L org L1 org1" "sframe s s1" "remembered G s1 a" by blast
  let ?C = "if nur G a then C else insert a C"
  have C: "C \<union> old_entries G (a # as) = ?C \<union> old_entries G as" by (auto simp: old_entries_def)
  show ?case
  proof (cases "as = []")
    case True
    then have "MinorGC_ScanStoreList fuel n s = Inr s1" using Cons.prems(1) 1(1) n fuel(1) by simp
    moreover have "old_entries G as = {}" using True by (simp add: old_entries_def)
    moreover have "\<forall>b \<in> set (a # as). remembered G s1 b" using True 1(5) by simp
    ultimately show ?thesis unfolding C using 1(2-4) by (metis Un_empty_right)
  next
    case False
    have "pages_ok G (rt_bibop s1)" "\<forall>b \<in> set as. entry_ok G s1 b"
      using Cons.prems(5,6) 1(4) entry_ok_sframe [OF 1(4)] by (simp_all add: sframe_def)
    moreover have "stl_list G (mg_m G (n + 8)) as" using Cons.prems(1) by simp
    ultimately obtain s' L' org' where 2: "MinorGC_ScanStoreList fuel' (mg_m G (n + 8)) s1 = Inr s'"
      "ginv G L' org' (?C \<union> old_entries G as) s'" "adv G L1 org1 L' org'" "sframe s1 s'" "\<forall>b \<in> set as. remembered G s' b"
      using Cons.IH [OF _ False fuel(2) 1(2)] by blast
    have "mg_m G (n + 8) \<noteq> ML_unit" using Cons.prems(1) False by (cases as) auto
    then have "MinorGC_ScanStoreList fuel n s = Inr s'" using 1(1) 2(1) n fuel(1) by simp
    moreover have "\<forall>b \<in> set (a # as). remembered G s' b" using 2(5) remembered_sframe [OF 2(4) 1(5)] by simp
    ultimately show ?thesis unfolding C using 2(2) adv_trans [OF 1(3) 2(3)] sframe_trans [OF 1(4) 2(4)] by metis
  qed
qed simp

end
