(* ===== verification/Minor_Correct.thy ===== *)
theory Minor_Correct
  imports Minor_Store
begin

text \<open>
  The correctness theorem of minor collections: the collection copies exactly the live objects
  of the allocation space, none of them a special object, to the first generation. The precondition and the postcondition are
  stated over the state before and after; the proof runs the ghost invariant of the theories
  Minor_Forward, Minor_Sweep and Minor_Store from the roots to the end of the sweep, with the
  set of objects restricted to the live ones.
\<close>

section \<open>Live objects\<close>

text \<open>The objects of the allocation space that can be reached from a set of words.\<close>

inductive_set live :: "mgc \<Rightarrow> word_t set \<Rightarrow> addr_t set" for G :: mgc and S :: "word_t set" where
  live_root: "w \<in> S \<Longrightarrow> nptr G w \<Longrightarrow> w \<in> live G S"
| live_field: "p \<in> live G S \<Longrightarrow> j < ob_ptrs (dsc G p) \<Longrightarrow> nptr G (mg_m G (at_ix p j)) \<Longrightarrow> mg_m G (at_ix p j) \<in> live G S"

text \<open>The description of a collection that starts in state \<open>s\<close>.\<close>

definition mgc_of :: "rt \<Rightarrow> addr_t set \<Rightarrow> addr_t set \<Rightarrow> mgc" where
  "mgc_of s R X = \<lparr>mg_m = rt_mem s, mg_base = h_allocBase (rt_heap s), mg_size = h_allocSzB (rt_heap s),
     mg_arena = (\<lambda>i. get_arena 0 i s), mg_R = R, mg_X = X\<rparr>"

lemma mgc_of_R:
  "nur (mgc_of s R X) = nur (mgc_of s R' X')" "nptr (mgc_of s R X) = nptr (mgc_of s R' X')" "dsc (mgc_of s R X) = dsc (mgc_of s R' X')"
  "cells (mgc_of s R X) = cells (mgc_of s R' X')" "nx0 (mgc_of s R X) = nx0 (mgc_of s R' X')" "room (mgc_of s R X) = room (mgc_of s R' X')"
  "rooms (mgc_of s R X) = rooms (mgc_of s R' X')" "pages_ok (mgc_of s R X) = pages_ok (mgc_of s R' X')"
  by (simp_all add: fun_eq_iff nur_def nptr_def dsc_def cells_def nx0_def room_def rooms_def pages_ok_def mgc_of_def)

lemma mgc_of_sel [simp]: "mg_m (mgc_of s R X) = rt_mem s" "mg_base (mgc_of s R X) = h_allocBase (rt_heap s)"
  "mg_size (mgc_of s R X) = h_allocSzB (rt_heap s)" "mg_arena (mgc_of s R X) = (\<lambda>i. get_arena 0 i s)" "mg_R (mgc_of s R X) = R" "mg_X (mgc_of s R X) = X"
  by (simp_all add: mgc_of_def)

lemma live_sub:
  assumes "mgc_ok G" "\<And>w. w \<in> S \<Longrightarrow> nptr G w \<Longrightarrow> w \<in> mg_R G" "p \<in> live G S"
  shows "p \<in> mg_R G"
  using assms(3) by induction (auto intro: assms(2) ok_closed [OF assms(1)])

lemma live_mgc_of: "live (mgc_of s R X) S = live (mgc_of s R' X') S"
proof -
  have "p \<in> live (mgc_of s R' X') S" if "p \<in> live (mgc_of s R X) S" for p R R' X X'
    using that
  proof induction
    case (live_root w)
    then show ?case using mgc_of_R(2) [of s R X R' X'] by (auto intro: live.live_root)
  next
    case (live_field p j)
    then show ?case using live.live_field [of p "mgc_of s R' X'" S j] mgc_of_R(2,3) [of s R X R' X'] by simp
  qed
  then show ?thesis by blast
qed

text \<open>Restricting a well-formed description to the live objects.\<close>

lemma mgc_ok_live:
  assumes ok: "mgc_ok (mgc_of s R X)" and S: "\<And>w. w \<in> S \<Longrightarrow> nptr (mgc_of s R X) w \<Longrightarrow> w \<in> R"
  shows "mgc_ok (mgc_of s (live (mgc_of s R X) S) Y)" (is "mgc_ok ?G")
proof -
  let ?H = "mgc_of s R X"
  have sub: "p \<in> R" if "p \<in> live ?H S" for p using live_sub [OF ok _ that] S by simp
  have e: "nptr ?G = nptr ?H" "nur ?G = nur ?H" "dsc ?G = dsc ?H" "cells ?G = cells ?H" "nx0 ?G = nx0 ?H" "room ?G = room ?H"
    by (rule mgc_of_R)+
  show ?thesis
    unfolding mgc_ok_def e mgc_of_sel
  proof (intro conjI ballI allI impI)
    fix p j assume "p \<in> live ?H S" "j < ob_ptrs (dsc ?H p)" "nptr ?H (rt_mem s (at_ix p j))"
    then show "rt_mem s (at_ix p j) \<in> live ?H S" using live.live_field [of p ?H S j] by simp
  next
    fix p q assume "p \<in> live ?H S" "q \<in> live ?H S" "p \<noteq> q"
    then show "cells ?H p \<inter> cells ?H q = {}" using ok_disjoint [OF ok] sub by simp
  next
    fix p assume "p \<in> live ?H S"
    then show "nptr ?H p" "8 dvd unat p" "ob_ok (dsc ?H p)" "cells ?H p \<subseteq> Collect (nur ?H)" using okR [OF ok] sub by simp_all
  qed (use ok in \<open>simp_all add: mgc_ok_def\<close>)
qed

section \<open>The start and the end of the sweep\<close>

abbreviation empty_lay :: layout where "empty_lay \<equiv> \<lambda>_. []"

lemma start_inv:
  assumes "gens_ok s" "mgc_ok (mgc_of s R X)"
  shows "ginv (mgc_of s R X) empty_lay (rt_mem s) {} s"
  using assms by (simp add: ginv_def lay_ok_def heap_inv_def org_inv_def scan_inv_def mem_inv_def wds_def acells_def fwd_def nx0_def)

text \<open>The contents of the copies once every arena is swept.\<close>

lemma swept_copy:
  assumes ok: "mgc_ok G" and inv: "rinv G L org C K s" and all: "all_swept G L K"
    and X: "mg_X G \<inter> rooms G = {}" and p: "p \<in> fwd G L" and j: "j < ob_len (dsc G p)"
  defines "c \<equiv> at_ix (faddr G L p) j"
  shows "org c = mg_m G (at_ix p j)" "c \<in> C \<longleftrightarrow> j < ob_ptrs (dsc G p)" "\<not> nur G c"
proof -
  let ?i = "ar G p" and ?k = "off G (L (ar G p)) p + j"
  note I = sgiD [OF rinvD(1) [OF inv]]
  have pL: "p \<in> set (L ?i)" using p by (simp add: fwd_def)
  note o = off_nth [OF pL j] and fl = off_flag [OF pL j]
  have c: "c = at_ix (nx0 G ?i) ?k" by (simp add: c_def faddr_def at_ix_at_ix)
  have kw: "?k < length (wds G L ?i)" using o by (simp add: wds_def)
  show "org c = mg_m G (at_ix p j)" using I(4) kw o ar_less [of G p] by (simp add: c org_inv_def wds_def)
  have kb: "?k < unat (mg_size G) div 8" using kw wds_fit [OF ok I(2) ar_less [of G p]] by simp
  have room: "c \<in> room G ?i" unfolding c by (rule cell_in_room [OF ok ar_less kb])
  then show "\<not> nur G c" by (rule room_not_nur [OF ok ar_less])
  show "c \<in> C \<longleftrightarrow> j < ob_ptrs (dsc G p)"
  proof
    assume "c \<in> C"
    moreover have "c \<in> rooms G" using room ar_less [of G p] by (auto simp: rooms_def)
    ultimately obtain i where i: "i < NUM_ARENAS" "c \<in> fcells G L i" using I(5) X by (auto simp: only_flagged_def)
    from i(2) obtain k where k: "c = at_ix (nx0 G i) k" "k < length (flg G L i)" "flg G L i ! k" by (auto simp: fcells_def)
    then have "k < unat (mg_size G) div 8" using wds_fit [OF ok I(2) i(1)] by (simp add: length_flg)
    moreover have "at_ix (nx0 G i) k = at_ix (nx0 G ?i) ?k" using k(1) c by simp
    ultimately have "i = ?i" "k = ?k" using cell_eq [OF ok i(1) ar_less [of G p] _ kb, of k] by blast+
    with k(3) fl show "j < ob_ptrs (dsc G p)" by (simp add: flg_def)
  next
    assume jp: "j < ob_ptrs (dsc G p)"
    have "?i \<noteq> STRING_INDX"
      using jp okR [OF ok subsetD [OF fwd_in_R [OF I(2)] p]]
      by (auto simp: ar_def ob_arena_def ob_ptrs_def Let_def ob_ok_def split: if_splits)
    then have sw: "sweepable ?i" using ar_less [of G p] by (auto simp: ar_def ob_arena_def Let_def split: if_splits)
    have "K ?i = length (wds G L ?i)" using all sw unfolding all_swept_def by blast
    then show "c \<in> C" using rinvD(2) [OF inv sw] kw fl jp by (simp add: swept_to_def c flg_def)
  qed
qed

lemma live_forwarded:
  assumes ok: "mgc_ok G" and inv: "rinv G L org C K s" and all: "all_swept G L K"
    and X: "mg_X G \<inter> rooms G = {}" and roots: "mg_X G \<subseteq> C"
  shows "live G (mg_m G ` mg_X G) \<subseteq> fwd G L"
proof
  have sc: "scan_inv G L org C" using sgiD(1) [OF rinvD(1) [OF inv]] by (simp add: ginv_def)
  have org: "org r = mg_m G r" if "r \<in> mg_X G" for r
    using org_outside [OF ok sgiD(1) [OF rinvD(1) [OF inv]]] X that by blast
  fix p assume "p \<in> live G (mg_m G ` mg_X G)"
  then show "p \<in> fwd G L"
  proof induction
    case (live_root w)
    then show ?case using roots sc org by (fastforce simp: scan_inv_def)
  next
    case (live_field p j)
    have "ob_ptrs (dsc G p) \<le> ob_len (dsc G p)"
      using okR [OF ok subsetD [OF fwd_in_R live_field.IH]] sgiD(2) [OF rinvD(1) [OF inv]] by (simp add: ob_ok_def)
    then have j: "j < ob_len (dsc G p)" using live_field.hyps(2) by simp
    note c = swept_copy [OF ok inv all X live_field.IH j]
    have "at_ix (faddr G L p) j \<in> C" using c(2) live_field.hyps(2) by simp
    then show ?case using sc c(1) live_field.hyps(3) unfolding scan_inv_def by metis
  qed
qed


section \<open>Copies do not overlap\<close>

text \<open>Label every word of the copied blocks with its object and its position in the block.\<close>

definition blabels :: "mgc \<Rightarrow> addr_t \<Rightarrow> (addr_t \<times> nat) list" where
  "blabels G p = map (Pair p) [0..<length (blk G p)]"

lemma off_label:
  assumes "p \<in> set xs" "j < ob_len (dsc G p)"
  shows "concat (map (blabels G) xs) ! (off G xs p + j) = (p, skip G p + j)"
  using assms(1)
proof (induction xs)
  case (Cons x xs)
  show ?case
  proof (cases "x = p")
    case True
    then show ?thesis using assms(2) by (simp add: nth_append blabels_def length_blk)
  next
    case False
    with Cons show ?thesis by (simp add: nth_append blabels_def add.assoc)
  qed
qed simp

lemma copies_disjoint:
  assumes ok: "mgc_ok G" "lay_ok G L" and p: "p \<in> fwd G L" "i < ob_len (dsc G p)" and q: "q \<in> fwd G L" "j < ob_len (dsc G q)"
    and eq: "at_ix (faddr G L p) i = at_ix (faddr G L q) j"
  shows "p = q \<and> i = j"
proof -
  let ?k = "off G (L (ar G p)) p + i" and ?l = "off G (L (ar G q)) q + j"
  have pL: "p \<in> set (L (ar G p))" "q \<in> set (L (ar G q))" using p q by (simp_all add: fwd_def)
  have "?k < length (wds G L (ar G p))" "?l < length (wds G L (ar G q))"
    using off_nth [OF pL(1) p(2)] off_nth [OF pL(2) q(2)] by (simp_all add: wds_def)
  then have b: "?k < unat (mg_size G) div 8" "?l < unat (mg_size G) div 8"
    using wds_fit [OF ok ar_less [of G p]] wds_fit [OF ok ar_less [of G q]] by linarith+
  have "at_ix (nx0 G (ar G p)) ?k = at_ix (nx0 G (ar G q)) ?l" using eq by (simp only: faddr_def at_ix_at_ix)
  then have e: "ar G p = ar G q \<and> ?k = ?l" by (rule iffD1 [OF cell_eq [OF ok(1) ar_less ar_less b]])
  have "(p, skip G p + i) = (q, skip G q + j)"
    using off_label [OF pL(1) p(2)] off_label [OF pL(2) q(2)] e by metis
  then show ?thesis by auto
qed

lemma copy_range:
  assumes ok: "mgc_ok G" "lay_ok G L" and p: "p \<in> fwd G L" "j < ob_len (dsc G p)"
  shows "unat (nx0 G (ar G p)) \<le> unat (at_ix (faddr G L p) j)"
    "unat (at_ix (faddr G L p) j) < unat (at_ix (nx0 G (ar G p)) (length (wds G L (ar G p))))"
proof -
  have pL: "p \<in> set (L (ar G p))" using p by (simp add: fwd_def)
  let ?k = "off G (L (ar G p)) p + j"
  have c: "at_ix (faddr G L p) j = at_ix (nx0 G (ar G p)) ?k" by (simp add: faddr_def at_ix_at_ix)
  have k: "?k < length (wds G L (ar G p))" using off_nth [OF pL p(2)] by (simp add: wds_def)
  moreover have "length (wds G L (ar G p)) \<le> unat (mg_size G) div 8" by (rule wds_fit [OF ok ar_less])
  ultimately have u: "unat (at_ix (nx0 G (ar G p)) ?k) = unat (nx0 G (ar G p)) + 8 * ?k"
    "unat (at_ix (nx0 G (ar G p)) (length (wds G L (ar G p)))) = unat (nx0 G (ar G p)) + 8 * length (wds G L (ar G p))"
    by (simp_all add: unat_cell [OF ok(1) ar_less])
  show "unat (nx0 G (ar G p)) \<le> unat (at_ix (faddr G L p) j)"
    "unat (at_ix (faddr G L p) j) < unat (at_ix (nx0 G (ar G p)) (length (wds G L (ar G p))))"
    using k unfolding c u by simp_all
qed

lemma acells_range:
  assumes ok: "mgc_ok G" "lay_ok G L" and c: "c \<in> acells G L"
  shows "\<exists>i < NUM_ARENAS. unat (nx0 G i) \<le> unat c \<and> unat c < unat (at_ix (nx0 G i) (length (wds G L i)))"
proof -
  from c obtain i k where i: "i < NUM_ARENAS" "k < length (wds G L i)" "c = at_ix (nx0 G i) k" by (auto simp: acells_def)
  have "length (wds G L i) \<le> unat (mg_size G) div 8" by (rule wds_fit [OF ok i(1)])
  then have "unat c = unat (nx0 G i) + 8 * k" "unat (at_ix (nx0 G i) (length (wds G L i))) = unat (nx0 G i) + 8 * length (wds G L i)"
    using i by (simp_all add: unat_cell [OF ok(1)])
  then show ?thesis using i(1,2) by auto
qed

text \<open>Every word of the copied blocks belongs to the copy of one object.\<close>

lemma word_of_copy:
  assumes "distinct xs" "k < length (concat (map (blk G) xs))"
  shows "\<exists>p \<in> set xs. \<not> ob_pair (dsc G p) \<and> off G xs p = Suc k \<or> (\<exists>j < ob_len (dsc G p). k = off G xs p + j)"
  using assms
proof (induction xs arbitrary: k)
  case (Cons x xs)
  show ?case
  proof (cases "k < length (blk G x)")
    case True
    then have k: "k < skip G x + ob_len (dsc G x)" by (simp add: length_blk)
    show ?thesis
    proof (cases "k < skip G x")
      case True
      then have "\<not> ob_pair (dsc G x)" "off G (x # xs) x = Suc k" by (auto simp: skip_def split: if_splits)
      then show ?thesis by (intro bexI [of _ x]) simp_all
    next
      case False
      with k have "k - skip G x < ob_len (dsc G x)" "k = off G (x # xs) x + (k - skip G x)" by auto
      then show ?thesis by (intro bexI [of _ x]) (auto simp del: off.simps)
    qed
  next
    case False
    let ?k = "k - length (blk G x)"
    have "?k < length (concat (map (blk G) xs))" using Cons.prems(2) False by simp
    with Cons.IH [of ?k] Cons.prems(1) obtain p where
      p: "p \<in> set xs" "\<not> ob_pair (dsc G p) \<and> off G xs p = Suc ?k \<or> (\<exists>j < ob_len (dsc G p). ?k = off G xs p + j)" by auto
    have "off G (x # xs) p = length (blk G x) + off G xs p" using p(1) Cons.prems(1) by auto
    with p False show ?thesis by (intro bexI [of _ p]) (auto simp del: off.simps)
  qed
qed simp

lemma length_wds_sum:
  assumes "lay_ok G L" "i < NUM_ARENAS"
  shows "length (wds G L i) = (\<Sum>p\<in>set (L i). skip G p + ob_len (dsc G p))"
proof -
  have "distinct (L i)" using assms by (simp add: lay_ok_def)
  then show ?thesis by (simp add: wds_def length_concat comp_def length_blk sum_list_distinct_conv_sum_set)
qed

lemma arena_only_copies:
  assumes ok: "mgc_ok G" "lay_ok G L" and i: "i < NUM_ARENAS"
  shows "8 * length (wds G L i) \<le> unat (mg_size G)" "set (L i) = {p \<in> fwd G L. ar G p = i}"
    "k < length (wds G L i) \<Longrightarrow> \<exists>p \<in> set (L i). \<not> ob_pair (dsc G p) \<and> at_ix (nx0 G i) k = faddr G L p - 8
        \<or> (\<exists>j < ob_len (dsc G p). at_ix (nx0 G i) k = at_ix (faddr G L p) j)"
proof -
  show "8 * length (wds G L i) \<le> unat (mg_size G)" using wds_fit [OF ok i] by simp
  show "set (L i) = {p \<in> fwd G L. ar G p = i}" using ok(2) i by (auto simp: fwd_def lay_ok_def)
  assume "k < length (wds G L i)"
  then have k: "k < length (concat (map (blk G) (L i)))" by (simp add: wds_def)
  have "distinct (L i)" using ok(2) i by (simp add: lay_ok_def)
  from word_of_copy [OF this k] obtain p where
    p: "p \<in> set (L i)" "\<not> ob_pair (dsc G p) \<and> off G (L i) p = Suc k \<or> (\<exists>j < ob_len (dsc G p). k = off G (L i) p + j)" by blast
  have F: "faddr G L p = at_ix (nx0 G i) (off G (L i) p)" using ok(2) i p(1) by (simp add: faddr_def lay_ok_def)
  have "at_ix a (Suc k) - 8 = at_ix a k" for a by (simp add: at_ix_def algebra_simps)
  then show "\<exists>p \<in> set (L i). \<not> ob_pair (dsc G p) \<and> at_ix (nx0 G i) k = faddr G L p - 8
        \<or> (\<exists>j < ob_len (dsc G p). at_ix (nx0 G i) k = at_ix (faddr G L p) j)"
    using p F by (intro bexI [of _ p]) (auto simp: at_ix_at_ix)
qed

section \<open>The collection\<close>

lemma upd_heap_fields [simp]: "rt_mem (upd_heap f s) = rt_mem s" "rt_bibop (upd_heap f s) = rt_bibop s"
  "ml_storePtr (upd_heap f s) = ml_storePtr s" "rt_heap (upd_heap f s) = f (rt_heap s)" "ml_allocPtr (upd_heap f s) = ml_allocPtr s"
  by (simp_all add: upd_heap_def)

lemma get_gen_upd_heap: "h_gen (f (rt_heap s)) = h_gen (rt_heap s) \<Longrightarrow> get_gen g (upd_heap f s) = get_gen g s"
  "h_gen (f (rt_heap s)) = h_gen (rt_heap s) \<Longrightarrow> get_arena g i (upd_heap f s) = get_arena g i s"
  "h_gen (f (rt_heap s)) = h_gen (rt_heap s) \<Longrightarrow> gens_ok (upd_heap f s) = gens_ok s"
  by (simp_all add: get_gen_def get_arena_def gens_ok_def)

lemma get_gen_storePtr [simp]: "get_gen g (s\<lparr>ml_storePtr := v\<rparr>) = get_gen g s" "get_arena g i (s\<lparr>ml_storePtr := v\<rparr>) = get_arena g i s"
  "gens_ok (s\<lparr>ml_storePtr := v\<rparr>) = gens_ok s"
  by (simp_all add: get_gen_def get_arena_def gens_ok_def)

lemma ginv_upd_heap:
  assumes "h_gen (f (rt_heap s)) = h_gen (rt_heap s)" "h_allocBase (f (rt_heap s)) = h_allocBase (rt_heap s)"
    "h_allocSzB (f (rt_heap s)) = h_allocSzB (rt_heap s)"
  shows "ginv G L org C (upd_heap f s) = ginv G L org C s"
  using assms by (simp add: ginv_def heap_inv_def get_gen_upd_heap)

lemma ginv_storePtr: "ginv G L org C (s\<lparr>ml_storePtr := v\<rparr>) = ginv G L org C s"
  by (simp add: ginv_def heap_inv_def)

definition with_copied :: "nat \<Rightarrow> (nat \<Rightarrow> addr_t) \<Rightarrow> rt \<Rightarrow> heap \<Rightarrow> heap" where
  "with_copied n old s h = h\<lparr>h_numCopied := (h_numCopied h)(0 := (\<lambda>i.
     if i < n then h_numCopied h 0 i + (a_nextw (get_arena 0 i s) - old i) else h_numCopied h 0 i))\<rparr>"

lemma with_copied_sel [simp]: "h_gen (with_copied n old s h) = h_gen h" "h_allocBase (with_copied n old s h) = h_allocBase h"
  "h_allocSzB (with_copied n old s h) = h_allocSzB h" "h_numMinorGCs (with_copied n old s h) = h_numMinorGCs h"
  "h_numAlloc (with_copied n old s h) = h_numAlloc h"
  by (simp_all add: with_copied_def)

lemma fold_count_copied: "fold (count_copied old) [0..<n] s = upd_heap (with_copied n old s) s"
proof (induction n)
  case 0
  then show ?case by (simp add: upd_heap_def with_copied_def)
next
  case (Suc n)
  have "(\<lambda>i. if i < n then h i + d i else h i)(n := h n + d n) = (\<lambda>i. if i < Suc n then h i + d i else h i)"
    for h d :: "nat \<Rightarrow> word_t" by (auto simp: fun_eq_iff less_Suc_eq)
  from this [of "h_numCopied (rt_heap s) 0" "\<lambda>i. a_nextw (get_arena 0 i s) - old i"]
  have "count_copied old n (upd_heap (with_copied n old s) s) = upd_heap (with_copied (Suc n) old s) s"
    by (simp add: count_copied_def get_gen_upd_heap) (simp add: upd_heap_def with_copied_def)
  then show ?case by (simp add: Suc.IH)
qed


text \<open>
  What a collection needs: objects \<open>R\<close> of the allocation space, laid out without overlap and
  closed under pointers; space for all of them in every arena of the first generation, swept;
  roots outside both; a store list; no weak pointers.
\<close>

definition minor_pre :: "addr_t set \<Rightarrow> addr_t list \<Rightarrow> addr_t list \<Rightarrow> rt \<Rightarrow> bool" where
  "minor_pre R roots entries s \<longleftrightarrow> (let G = mgc_of s R {} in
     gens_ok s \<and> mgc_ok G \<and> pages_ok G (rt_bibop s) \<and> h_weakList (rt_heap s) = 0
   \<and> (\<forall>i < NUM_ARENAS. i \<noteq> STRING_INDX \<longrightarrow> a_sweep_nextw (get_arena 0 i s) = a_nextw (get_arena 0 i s))
   \<and> (\<forall>r \<in> set roots. \<not> nur G r \<and> r \<notin> rooms G \<and> (nptr G (rt_mem s r) \<longrightarrow> rt_mem s r \<in> R))
   \<and> stl_list G (ml_storePtr s) entries \<and> (\<forall>a \<in> set entries. entry_ok G s a))"

text \<open>The words the collection starts from, and the objects that are live.\<close>

definition minor_roots :: "addr_t list \<Rightarrow> addr_t list \<Rightarrow> rt \<Rightarrow> addr_t set" where
  "minor_roots roots entries s = set roots \<union> {a \<in> set entries. \<not> nur (mgc_of s {} {}) a}"

definition minor_live :: "addr_t list \<Rightarrow> addr_t list \<Rightarrow> rt \<Rightarrow> addr_t set" where
  "minor_live roots entries s = live (mgc_of s {} {}) (rt_mem s ` minor_roots roots entries s)"

text \<open>Relocation of a word by a map of the live objects.\<close>

definition reloc :: "rt \<Rightarrow> (addr_t \<Rightarrow> addr_t) \<Rightarrow> word_t \<Rightarrow> word_t" where
  "reloc s F w = (if nptr (mgc_of s {} {}) w then F w else w)"

text \<open>The object at \<open>p\<close> in \<open>s\<close> has the copy \<open>F p\<close> in \<open>s'\<close>.\<close>

definition is_copy :: "(addr_t \<Rightarrow> addr_t) \<Rightarrow> rt \<Rightarrow> rt \<Rightarrow> addr_t \<Rightarrow> bool" where
  "is_copy F s s' p \<longleftrightarrow> (let d = rt_mem s (p - 8) in
     (ob_pair d \<or> rt_mem s' (F p - 8) = d)
   \<and> (\<forall>j < ob_len d. rt_mem s' (at_ix (F p) j) =
        (if j < ob_ptrs d then reloc s F (rt_mem s (at_ix p j)) else rt_mem s (at_ix p j)))
   \<and> (\<forall>j < ob_len d. a_nextw (get_arena 0 (ob_arena d) s) \<le> at_ix (F p) j
        \<and> at_ix (F p) j < a_nextw (get_arena 0 (ob_arena d) s')))"

text \<open>
  Nothing else is copied: the words an arena gained are as many as its live objects have, and each
  of them is the descriptor or a word of the copy of one of them.
\<close>

definition ob_words :: "word_t \<Rightarrow> nat" where
  "ob_words d = (if ob_pair d then 0 else 1) + ob_len d"

definition live_of :: "addr_t list \<Rightarrow> addr_t list \<Rightarrow> rt \<Rightarrow> nat \<Rightarrow> addr_t set" where
  "live_of roots entries s i = {p \<in> minor_live roots entries s. ob_arena (rt_mem s (p - 8)) = i}"

definition only_copies :: "addr_t list \<Rightarrow> addr_t list \<Rightarrow> (addr_t \<Rightarrow> addr_t) \<Rightarrow> rt \<Rightarrow> rt \<Rightarrow> nat \<Rightarrow> bool" where
  "only_copies roots entries F s s' i \<longleftrightarrow>
     (let P = live_of roots entries s i; n = (\<Sum>p\<in>P. ob_words (rt_mem s (p - 8))); nw = a_nextw (get_arena 0 i s) in
      finite P \<and> 8 * n \<le> unat (h_allocSzB (rt_heap s)) \<and> a_nextw (get_arena 0 i s') = at_ix nw n
    \<and> (\<forall>k < n. \<exists>p \<in> P. \<not> ob_pair (rt_mem s (p - 8)) \<and> at_ix nw k = F p - 8
                        \<or> (\<exists>j < ob_len (rt_mem s (p - 8)). at_ix nw k = at_ix (F p) j)))"

definition minor_post :: "addr_t list \<Rightarrow> addr_t list \<Rightarrow> (addr_t \<Rightarrow> addr_t) \<Rightarrow> rt \<Rightarrow> rt \<Rightarrow> bool" where
  "minor_post roots entries F s s' \<longleftrightarrow>
     (\<forall>p \<in> minor_live roots entries s. is_copy F s s' p)
   \<and> (\<forall>i < NUM_ARENAS. only_copies roots entries F s s' i)
   \<and> (\<forall>p \<in> minor_live roots entries s. \<forall>q \<in> minor_live roots entries s.
        \<forall>i < ob_len (rt_mem s (p - 8)). \<forall>j < ob_len (rt_mem s (q - 8)). at_ix (F p) i = at_ix (F q) j \<longrightarrow> p = q \<and> i = j)
   \<and> (\<forall>x \<in> minor_roots roots entries s. rt_mem s' x = reloc s F (rt_mem s x))
   \<and> (\<forall>c. \<not> nur (mgc_of s {} {}) c \<and> c \<notin> minor_roots roots entries s
        \<and> (\<forall>i < NUM_ARENAS. \<not> (a_nextw (get_arena 0 i s) \<le> c \<and> c < a_nextw (get_arena 0 i s'))) \<longrightarrow> rt_mem s' c = rt_mem s c)
   \<and> (\<forall>i < NUM_ARENAS. i \<noteq> STRING_INDX \<longrightarrow> a_sweep_nextw (get_arena 0 i s') = a_nextw (get_arena 0 i s'))
   \<and> (\<forall>a \<in> set entries. remembered (mgc_of s {} {}) s' a)
   \<and> (\<forall>g i. 0 < g \<longrightarrow> get_arena g i s' = get_arena g i s)
   \<and> rt_bibop s' = rt_bibop s \<and> ml_storePtr s' = ML_unit
   \<and> h_numMinorGCs (rt_heap s') = h_numMinorGCs (rt_heap s) + 1
   \<and> h_numAlloc (rt_heap s') = h_numAlloc (rt_heap s) + (ml_allocPtr s - h_allocBase (rt_heap s))
   \<and> (\<forall>i < NUM_ARENAS. h_numCopied (rt_heap s') 0 i = h_numCopied (rt_heap s) 0 i + (a_nextw (get_arena 0 i s') - a_nextw (get_arena 0 i s)))"


text \<open>Running the collection: the state before the counters are updated.\<close>

definition minor_end :: "rt \<Rightarrow> rt \<Rightarrow> rt" where
  "minor_end s t = (let u = upd_heap (\<lambda>h. h\<lparr>h_numMinorGCs := h_numMinorGCs h + 1\<rparr>) t in
     upd_heap (with_copied NUM_ARENAS (\<lambda>i. a_nextw (get_arena 0 i s)) u) u)"

lemma remembered_gframe: "gframe s s' \<Longrightarrow> remembered G s a \<Longrightarrow> remembered G s' a"
proof -
  assume f: "gframe s s'" and r: "remembered G s a"
  have "card_at s' (EXTRACT_GEN d - 1) a = card_at s (EXTRACT_GEN d - 1) a" if "EXTRACT_GEN d \<le> MAX_NUM_GENS" "1 < EXTRACT_GEN d" for d
  proof -
    have "EXTRACT_GEN d - 1 < MAX_NUM_GENS" using that by simp
    then show ?thesis using f by (simp add: card_at_def gframe_def)
  qed
  moreover have "rt_bibop s' = rt_bibop s" using f by (simp add: gframe_def)
  ultimately show ?thesis using r unfolding remembered_def by metis
qed

lemma stl_list_mono:
  assumes "\<And>c. free_cell G c \<Longrightarrow> free_cell H c" "mg_m H = mg_m G"
  shows "stl_list G n as \<Longrightarrow> stl_list H n as"
  using assms by (induction as arbitrary: n) auto

text \<open>The description of the collection restricted to the live objects.\<close>

definition live_mgc :: "addr_t list \<Rightarrow> addr_t list \<Rightarrow> rt \<Rightarrow> mgc" where
  "live_mgc roots entries s = mgc_of s (minor_live roots entries s) (minor_roots roots entries s)"

lemma minor_preD:
  assumes "minor_pre R roots entries s"
  shows "gens_ok s" "mgc_ok (mgc_of s R {})" "pages_ok (mgc_of s R {}) (rt_bibop s)" "h_weakList (rt_heap s) = 0"
    "\<And>i. i < NUM_ARENAS \<Longrightarrow> i \<noteq> STRING_INDX \<Longrightarrow> a_sweep_nextw (get_arena 0 i s) = a_nextw (get_arena 0 i s)"
    "\<And>r. r \<in> set roots \<Longrightarrow> \<not> nur (mgc_of s R {}) r \<and> r \<notin> rooms (mgc_of s R {}) \<and> (nptr (mgc_of s R {}) (rt_mem s r) \<longrightarrow> rt_mem s r \<in> R)"
    "stl_list (mgc_of s R {}) (ml_storePtr s) entries" "\<And>a. a \<in> set entries \<Longrightarrow> entry_ok (mgc_of s R {}) s a"
  using assms unfolding minor_pre_def Let_def by blast+

lemma live_setting:
  assumes pre: "minor_pre R roots entries s" and G: "G = live_mgc roots entries s"
  shows "mgc_ok G" "pages_ok G (rt_bibop s)" "mg_X G \<inter> rooms G = {}" "\<forall>x \<in> mg_X G. \<not> nur G x"
    "\<forall>r \<in> set roots. scannable G empty_lay (rt_mem s) r"
    "stl_list G (ml_storePtr s) entries" "\<forall>a \<in> set entries. entry_ok G s a" "mg_X G = set roots \<union> old_entries G entries"
proof -
  let ?H = "mgc_of s R {}" and ?X = "minor_roots roots entries s"
  note P = minor_preD [OF pre]
  have e: "nptr G = nptr ?H" "nur G = nur ?H" "dsc G = dsc ?H" "cells G = cells ?H" "rooms G = rooms ?H" "pages_ok G = pages_ok ?H"
    unfolding G live_mgc_def by (rule mgc_of_R)+
  have sel [simp]: "mg_m G = rt_mem s" "mg_R G = minor_live roots entries s" "mg_X G = ?X" by (simp_all add: G live_mgc_def)
  have e0: "nur (mgc_of s {} {}) = nur ?H" by (rule mgc_of_R)
  have X: "?X = set roots \<union> {a \<in> set entries. \<not> nur ?H a}" by (simp add: minor_roots_def e0)
  have lv: "minor_live roots entries s = live ?H (rt_mem s ` ?X)" unfolding minor_live_def by (rule live_mgc_of)
  have X1: "x \<notin> rooms ?H \<and> \<not> nur ?H x \<and> (nptr ?H (rt_mem s x) \<longrightarrow> rt_mem s x \<in> R)" if "x \<in> ?X" for x
    using that P(6) P(8) unfolding X by (auto simp: entry_ok_def)
  have S: "w \<in> R" if "w \<in> rt_mem s ` ?X" "nptr ?H w" for w using that X1 by auto
  show "mgc_ok G" unfolding G live_mgc_def lv by (rule mgc_ok_live [OF P(2) S])
  show "pages_ok G (rt_bibop s)" using P(3) by (simp add: e)
  show "mg_X G \<inter> rooms G = {}" "\<forall>x \<in> mg_X G. \<not> nur G x" using X1 by (auto simp: e)
  have in_lv: "rt_mem s x \<in> minor_live roots entries s" if "x \<in> ?X" "nptr ?H (rt_mem s x)" for x
    unfolding lv using that by (intro live.live_root) auto
  show "\<forall>r \<in> set roots. scannable G empty_lay (rt_mem s) r"
    using X1 in_lv by (auto simp: scannable_def e X)
  show "mg_X G = set roots \<union> old_entries G entries" by (simp add: X old_entries_def e)
  have "minor_live roots entries s \<subseteq> R" using live_sub [OF P(2), of "rt_mem s ` ?X"] S unfolding lv by auto
  then have fc: "free_cell ?H c \<Longrightarrow> free_cell G c" for c by (auto simp: free_cell_def e)
  show "stl_list G (ml_storePtr s) entries" by (rule stl_list_mono [OF fc _ P(7)]) simp_all
  show "\<forall>a \<in> set entries. entry_ok G s a"
  proof
    fix a assume a: "a \<in> set entries"
    have "nur ?H a \<or> a \<in> ?X" using a by (auto simp: X)
    then show "entry_ok G s a" using P(8) [OF a] in_lv [of a] unfolding entry_ok_def e sel mgc_of_sel by blast
  qed
qed

text \<open>The scan of the store list, if there is one.\<close>

lemma store_list_part:
  assumes ok: "mgc_ok G" and inv: "ginv G L org C s" and pages: "pages_ok G (rt_bibop s)"
    and stl: "stl_list G (ml_storePtr s) as" and e: "\<forall>a \<in> set as. entry_ok G s a" and fuel: "length as \<le> fuel"
  shows "\<exists>s' L' org'. (if ml_storePtr s \<noteq> ML_unit then
        rbind (MinorGC_ScanStoreList fuel (ml_storePtr s) s) (\<lambda>s. Inr (s\<lparr>ml_storePtr := ML_unit\<rparr>)) else Inr s) = Inr (s'\<lparr>ml_storePtr := ML_unit\<rparr>)
    \<and> ginv G L' org' (C \<union> old_entries G as) s' \<and> sframe s s' \<and> (\<forall>a \<in> set as. remembered G s' a)"
proof (cases "as = []")
  case True
  then have "ml_storePtr s = ML_unit" using stl by simp
  moreover from this have "s\<lparr>ml_storePtr := ML_unit\<rparr> = s" by simp
  ultimately show ?thesis using inv True by (intro exI [of _ s] exI [of _ L] exI [of _ org]) (simp add: old_entries_def sframe_refl)
next
  case False
  then have "ml_storePtr s \<noteq> ML_unit" using stl by (cases as) auto
  moreover from scan_store_list [OF ok stl False fuel inv pages e] obtain s' L' org' where
    "MinorGC_ScanStoreList fuel (ml_storePtr s) s = Inr s'" "ginv G L' org' (C \<union> old_entries G as) s'" "sframe s s'" "\<forall>a \<in> set as. remembered G s' a" by blast
  ultimately show ?thesis by (intro exI [of _ s'] exI [of _ L'] exI [of _ org']) simp
qed

lemma rinv_start:
  assumes "ginv G L org C s" "C \<subseteq> mg_X G"
    "\<And>i. sweepable i \<Longrightarrow> a_sweep_nextw (get_arena 0 i s) = nx0 G i"
  shows "rinv G L org C (\<lambda>_. 0) s"
  unfolding rinv_def sgi_def only_flagged_def
proof (intro conjI allI impI)
  fix i assume "sweepable i"
  then show "a_sweep_nextw (get_arena 0 i s) = at_ix (nx0 G i) 0" using assms(3) by simp
  show "swept_to G L C i 0" by (simp add: swept_to_def)
next
  show "\<exists>pre post. L MIXED_INDX = pre @ post \<and> 0 = length (concat (map (blk G) pre))" by (intro exI [of _ "[]"] exI [of _ "L MIXED_INDX"]) simp
qed (use assms in auto)

lemma MinorGC_run:
  assumes pre: "minor_pre R roots entries s" and fuel: "unat (h_allocSzB (rt_heap s)) < fuel" "length entries \<le> fuel"
    and G: "G = live_mgc roots entries s"
  shows "\<exists>t L org C K. MinorGC fuel roots s = Inr (minor_end s t) \<and> mg_X G \<subseteq> C
    \<and> rinv G L org C K t \<and> all_swept G L K \<and> rt_bibop t = rt_bibop s \<and> ml_storePtr t = ML_unit
    \<and> (\<forall>a \<in> set entries. remembered G t a)
    \<and> (\<forall>g i. 0 < g \<longrightarrow> get_arena g i t = get_arena g i s)
    \<and> hstats (rt_heap t) = (h_numMinorGCs (rt_heap s), h_numAlloc (rt_heap s) + (ml_allocPtr s - h_allocBase (rt_heap s)), h_numCopied (rt_heap s))"
proof -
  note P = minor_preD [OF pre] and Q = live_setting [OF pre G]
  let ?nb = "ml_allocPtr s - h_allocBase (rt_heap s)"
  define s1 where "s1 = upd_heap (\<lambda>h. h\<lparr>h_numAlloc := h_numAlloc h + ?nb\<rparr>) s"
  have "ginv G empty_lay (rt_mem s) {} s" using start_inv [OF P(1)] Q(1) by (simp add: G live_mgc_def)
  then have g1: "ginv G empty_lay (rt_mem s) {} s1" unfolding s1_def by (subst ginv_upd_heap) simp_all
  have f1: "rt_bibop s1 = rt_bibop s" "ml_storePtr s1 = ml_storePtr s" "h_weakList (rt_heap s1) = h_weakList (rt_heap s)"
    "\<And>g i. get_arena g i s1 = get_arena g i s"
    "hstats (rt_heap s1) = (h_numMinorGCs (rt_heap s), h_numAlloc (rt_heap s) + ?nb, h_numCopied (rt_heap s))"
    by (simp_all add: s1_def get_gen_upd_heap hstats_def)
  from scan_cells [OF Q(1) g1 Q(5)] obtain s2 L2 org2 where
    2: "rfold MinorGC_CheckWord roots s1 = Inr s2" "ginv G L2 org2 ({} \<union> set roots) s2" "frame s1 s2" by blast
  note f2 = frame_sframe [OF 2(3)]
  have e2: "\<forall>a \<in> set entries. entry_ok G s2 a"
  proof
    fix a assume "a \<in> set entries"
    then have "entry_ok G s a" using Q(7) by blast
    then have "entry_ok G s1 a" unfolding entry_ok_def has_card_def by (simp add: f1(1), simp add: s1_def get_gen_upd_heap)
    then show "entry_ok G s2 a" by (rule entry_ok_sframe [OF f2])
  qed
  have b2: "rt_bibop s2 = rt_bibop s" "ml_storePtr s2 = ml_storePtr s" using f2 f1 by (simp_all add: sframe_def)
  from store_list_part [OF Q(1) 2(2), of entries fuel] Q(2,6) e2 fuel(2) obtain s3 L3 org3 where
    3: "(if ml_storePtr s2 \<noteq> ML_unit then rbind (MinorGC_ScanStoreList fuel (ml_storePtr s2) s2) (\<lambda>s. Inr (s\<lparr>ml_storePtr := ML_unit\<rparr>))
         else Inr s2) = Inr (s3\<lparr>ml_storePtr := ML_unit\<rparr>)"
      "ginv G L3 org3 (({} \<union> set roots) \<union> old_entries G entries) s3" "sframe s2 s3" "\<forall>a \<in> set entries. remembered G s3 a"
    unfolding b2 by auto
  let ?s3 = "s3\<lparr>ml_storePtr := ML_unit\<rparr>"
  have f3: "sframe s1 s3" by (rule sframe_trans [OF f2 3(3)])
  have C3: "({} \<union> set roots) \<union> old_entries G entries = mg_X G" using Q(8) by simp
  have r3: "rinv G L3 org3 (mg_X G) (\<lambda>_. 0) ?s3"
  proof (rule rinv_start)
    show "ginv G L3 org3 (mg_X G) ?s3" using 3(2) unfolding C3 ginv_storePtr .
    fix i assume i: "sweepable i"
    then have "i < NUM_ARENAS" "i \<noteq> STRING_INDX" by auto
    then show "a_sweep_nextw (get_arena 0 i ?s3) = nx0 G i"
      using f3 P(5) [of i] f1(4) by (simp add: sframe_def nx0_def G live_mgc_def)
  qed simp
  have "unat (mg_size G) < fuel" using fuel(1) by (simp add: G live_mgc_def)
  from SweepToSpace_correct [OF Q(1) this r3] obtain s4 L4 org4 C4 K4 where
    4: "MinorGC_SweepToSpace fuel ?s3 = Inr s4" "progress G L3 org3 (mg_X G) (\<lambda>_. 0) ?s3 L4 org4 C4 K4 s4" "all_swept G L4 K4" by blast
  have f4: "gframe ?s3 s4" "rinv G L4 org4 C4 K4 s4" "mg_X G \<subseteq> C4" using 4(2) by (simp_all add: progress_def)
  have w: "h_weakList (rt_heap s4) = 0" using f4(1) f3 f1(3) P(4) by (simp add: gframe_def sframe_def)
  have "MinorGC fuel roots s = Inr (minor_end s s4)"
    using 2(1) 3(1) 4(1) w unfolding MinorGC_def Let_def s1_def [symmetric]
    by (simp add: minor_end_def Let_def fold_count_copied)
  moreover have "\<forall>a \<in> set entries. remembered G s4 a"
  proof
    fix a assume "a \<in> set entries"
    then have "remembered G s3 a" using 3(4) by blast
    then have "remembered G ?s3 a" by (simp add: remembered_def card_at_def)
    then show "remembered G s4 a" by (rule remembered_gframe [OF f4(1)])
  qed
  moreover have "rt_bibop s4 = rt_bibop s" "ml_storePtr s4 = ML_unit" "hstats (rt_heap s4) = hstats (rt_heap s1)"
    "\<forall>g i. 0 < g \<longrightarrow> get_arena g i s4 = get_arena g i s"
    using f4(1) f3 f1 by (simp_all add: gframe_def sframe_def)
  ultimately show ?thesis using f4(2,3) 4(3) f1(5) by metis
qed


section \<open>Correctness\<close>

lemma swept_desc:
  assumes ok: "mgc_ok G" and inv: "rinv G L org C K s" and p: "p \<in> fwd G L" and np: "\<not> ob_pair (dsc G p)"
  shows "rt_mem s (faddr G L p - 8) = dsc G p"
proof -
  note I = sgiD [OF rinvD(1) [OF inv]]
  have pL: "p \<in> set (L (ar G p))" using p by (simp add: fwd_def)
  from off_desc [OF pL np] obtain k where k: "off G (L (ar G p)) p = Suc k" "k < length (wds G L (ar G p))" "wds G L (ar G p) ! k = dsc G p"
    unfolding wds_def by blast
  have c: "faddr G L p - 8 = at_ix (nx0 G (ar G p)) k" by (simp add: faddr_def k(1) at_ix_def algebra_simps)
  have "k < unat (mg_size G) div 8" using k(2) wds_fit [OF ok I(2) ar_less [of G p]] by simp
  then have "\<not> nur G (at_ix (nx0 G (ar G p)) k)" by (rule room_not_nur [OF ok ar_less cell_in_room [OF ok ar_less]])
  moreover have "org (at_ix (nx0 G (ar G p)) k) = dsc G p" using I(4) k(2,3) ar_less [of G p] by (simp add: org_inv_def)
  moreover have "rl G L (dsc G p) = dsc G p"
    using okR [OF ok subsetD [OF fwd_in_R [OF I(2)] p]] isDESC_not_BOXED by (intro rl_fixed) (simp add: nptr_def ob_ok_def)
  moreover have "mem_inv G L org C (rt_mem s)" using I(1) by (simp add: ginv_def)
  ultimately show ?thesis unfolding c by (simp add: mem_inv_def)
qed

lemma minor_end_sel: "rt_mem (minor_end s t) = rt_mem t" "rt_bibop (minor_end s t) = rt_bibop t" "ml_storePtr (minor_end s t) = ml_storePtr t"
  "get_arena g i (minor_end s t) = get_arena g i t" "get_gen g (minor_end s t) = get_gen g t"
  "h_numMinorGCs (rt_heap (minor_end s t)) = h_numMinorGCs (rt_heap t) + 1"
  "h_numAlloc (rt_heap (minor_end s t)) = h_numAlloc (rt_heap t)"
  "i < NUM_ARENAS \<Longrightarrow> h_numCopied (rt_heap (minor_end s t)) 0 i = h_numCopied (rt_heap t) 0 i + (a_nextw (get_arena 0 i t) - a_nextw (get_arena 0 i s))"
  by (simp_all add: minor_end_def Let_def get_gen_upd_heap) (simp add: with_copied_def get_gen_upd_heap)

lemma fcells_acells: "i < NUM_ARENAS \<Longrightarrow> fcells G L i \<subseteq> acells G L"
  by (auto simp: fcells_def length_flg intro: acells_I)

lemma minor_unchanged:
  assumes ok: "mgc_ok G" and inv: "rinv G L org C K t" and c: "\<not> nur G c" "c \<notin> mg_X G" "c \<notin> acells G L"
  shows "rt_mem t c = mg_m G c"
proof -
  note I = sgiD [OF rinvD(1) [OF inv]]
  have "c \<notin> C" using I(5) c(2,3) fcells_acells unfolding only_flagged_def by blast
  moreover have "mem_inv G L org C (rt_mem t)" using I(1) by (simp add: ginv_def)
  moreover have "org c = mg_m G c" using I(4) c(3) by (simp add: org_inv_def)
  ultimately show ?thesis using c(1) by (simp add: mem_inv_def)
qed

lemma MinorGC_collects:
  assumes pre: "minor_pre R roots entries s" and fuel: "unat (h_allocSzB (rt_heap s)) < fuel" "length entries \<le> fuel"
  shows "\<exists>s' F. MinorGC fuel roots s = Inr s' \<and> minor_post roots entries F s s'"
proof -
  define G where "G = live_mgc roots entries s"
  note Q = live_setting [OF pre G_def]
  from MinorGC_run [OF pre fuel G_def] obtain t L org C K where
    r: "MinorGC fuel roots s = Inr (minor_end s t)" and X: "mg_X G \<subseteq> C"
    and inv: "rinv G L org C K t" and all: "all_swept G L K" and t: "rt_bibop t = rt_bibop s" "ml_storePtr t = ML_unit"
      "\<forall>a \<in> set entries. remembered G t a" "\<forall>g i. 0 < g \<longrightarrow> get_arena g i t = get_arena g i s"
      "hstats (rt_heap t) = (h_numMinorGCs (rt_heap s), h_numAlloc (rt_heap s) + (ml_allocPtr s - h_allocBase (rt_heap s)), h_numCopied (rt_heap s))" by blast
  note I = sgiD [OF rinvD(1) [OF inv]]
  let ?F = "faddr G L" and ?lv = "minor_live roots entries s" and ?X = "minor_roots roots entries s"
  have sel [simp]: "mg_m G = rt_mem s" "mg_R G = ?lv" "mg_X G = ?X" by (simp_all add: G_def live_mgc_def)
  have e: "nptr G = nptr (mgc_of s {} {})" "nur G = nur (mgc_of s {} {})" unfolding G_def live_mgc_def by (rule mgc_of_R)+
  have d: "dsc G p = rt_mem s (p - 8)" for p by (simp add: dsc_def)
  have rl: "rl G L w = reloc s ?F w" for w by (simp add: rl_def reloc_def e)
  have "live G (mg_m G ` mg_X G) = ?lv" unfolding minor_live_def sel unfolding G_def live_mgc_def by (rule live_mgc_of)
  then have fw: "fwd G L = ?lv" using live_forwarded [OF Q(1) inv all Q(3) X] fwd_in_R [OF I(2)] by auto
  have nw: "a_nextw (get_arena 0 i t) = at_ix (nx0 G i) (length (wds G L i))" if "i < NUM_ARENAS" for i by (rule arena_nextw [OF I(3) that])
  have nx: "nx0 G i = a_nextw (get_arena 0 i s)" for i by (simp add: G_def live_mgc_def nx0_def)
  have mi: "mem_inv G L org C (rt_mem t)" using I(1) by (simp add: ginv_def)
  have m: "rt_mem t c = (if c \<in> C then reloc s ?F (org c) else org c)" if "\<not> nur G c" for c using mi that by (simp add: mem_inv_def rl)
  have copy: "is_copy ?F s (minor_end s t) p" if p: "p \<in> ?lv" for p
  proof -
    have pf: "p \<in> fwd G L" using p fw by simp
    have ar: "ob_arena (rt_mem s (p - 8)) = ar G p" by (simp add: ar_def d)
    have "rt_mem t (at_ix (?F p) j) = (if j < ob_ptrs (dsc G p) then reloc s ?F (rt_mem s (at_ix p j)) else rt_mem s (at_ix p j))"
      if j: "j < ob_len (dsc G p)" for j
      using swept_copy [OF Q(1) inv all Q(3) pf j] m by simp
    moreover have "ob_pair (dsc G p) \<or> rt_mem t (?F p - 8) = dsc G p" using swept_desc [OF Q(1) inv pf] by blast
    moreover have "a_nextw (get_arena 0 (ar G p) s) \<le> at_ix (?F p) j \<and> at_ix (?F p) j < a_nextw (get_arena 0 (ar G p) t)"
      if j: "j < ob_len (dsc G p)" for j
      using copy_range [OF Q(1) I(2) pf j] by (simp add: word_le_nat_alt word_less_nat_alt nw ar_less nx)
    ultimately show ?thesis unfolding is_copy_def Let_def minor_end_sel ar by (simp add: d)
  qed
  have only: "only_copies roots entries ?F s (minor_end s t) i" if i: "i < NUM_ARENAS" for i
  proof -
    note ac = arena_only_copies [OF Q(1) I(2) i]
    have P: "live_of roots entries s i = set (L i)" unfolding ac(2) fw by (simp add: live_of_def ar_def d)
    have n: "(\<Sum>p\<in>set (L i). ob_words (rt_mem s (p - 8))) = length (wds G L i)"
      unfolding length_wds_sum [OF I(2) i] by (intro sum.cong refl) (simp add: ob_words_def skip_def d)
    have sz: "mg_size G = h_allocSzB (rt_heap s)" by (simp add: G_def live_mgc_def)
    show ?thesis unfolding only_copies_def Let_def P n minor_end_sel nw [OF i]
      using ac(1) ac(3) by (simp add: sz nx d)
  qed
  have sep: "at_ix (?F p) i = at_ix (?F q) j \<longrightarrow> p = q \<and> i = j"
    if "p \<in> ?lv" "q \<in> ?lv" "i < ob_len (rt_mem s (p - 8))" "j < ob_len (rt_mem s (q - 8))" for p q i j
    using copies_disjoint [OF Q(1) I(2), of p i q j] that unfolding fw d by blast
  have roots: "rt_mem t x = reloc s ?F (rt_mem s x)" if x: "x \<in> ?X" for x
  proof -
    have "org x = rt_mem s x" using org_outside [OF Q(1) I(1), of x] Q(3) x by auto
    then show ?thesis using m [of x] Q(4) X x by auto
  qed
  have out: "rt_mem t c = rt_mem s c" if c: "\<not> nur (mgc_of s {} {}) c \<and> c \<notin> ?X \<and>
      (\<forall>i < NUM_ARENAS. \<not> (a_nextw (get_arena 0 i s) \<le> c \<and> c < a_nextw (get_arena 0 i (minor_end s t))))" for c
  proof -
    have "c \<notin> acells G L" using c acells_range [OF Q(1) I(2), of c] by (auto simp: word_le_nat_alt word_less_nat_alt nw nx minor_end_sel)
    then show ?thesis using minor_unchanged [OF Q(1) inv, of c] c by (simp add: e)
  qed
  have swp: "a_sweep_nextw (get_arena 0 i t) = a_nextw (get_arena 0 i t)" if i: "i < NUM_ARENAS" "i \<noteq> STRING_INDX" for i
  proof -
    have "sweepable i" using i by auto
    moreover from this have "K i = length (wds G L i)" using all unfolding all_swept_def by blast
    ultimately show ?thesis using rinvD(3) [OF inv, of i] nw [OF i(1)] by simp
  qed
  have rem: "remembered (mgc_of s {} {}) (minor_end s t) a" if "a \<in> set entries" for a
    using t(3) that by (simp add: remembered_def minor_end_sel card_at_def e target_of_def)
  have "minor_post roots entries ?F s (minor_end s t)"
    unfolding minor_post_def using copy only sep roots out swp rem t by (simp add: minor_end_sel hstats_def)
  then show ?thesis using r by blast
qed

section \<open>An example heap\<close>

text \<open>A small heap: a pair that points to a raw object, reached from a root and from a word of
  generation 3 on the store list.\<close>

definition ex_mem :: memory where
  "ex_mem = (\<lambda>_. 1)(0x10 := 0x40008, 0x40000 := DESC_pair, 0x40008 := 0x40020, 0x40010 := 7,
     0x40018 := DESC_word64, 0x40020 := 0x40008, 0x40028 := 0xc0000, 0x40030 := ML_unit, 0xc0000 := 0x40020)"

definition ex_bibop :: bibop where
  "ex_bibop = \<lparr>bb_l1 = (\<lambda>_. None), UnmappedL2 = \<lparr>l2_tbl = (\<lambda>i. if i = 1 then AID_NEW else if i = 2 then MAKE_AID 1 1 0
     else if i = 3 then MAKE_AID 3 4 0 else AID_UNMAPPED), l2_numMapped = 3\<rparr>\<rparr>"

definition ex_arena :: "nat \<Rightarrow> arena" where
  "ex_arena i = (let b = 0x80000 + 0x1000 * of_nat i in
     \<lparr>a_id = MAKE_AID 1 (i + 1) 0, a_nextw = b, a_tospBase = b, a_tospSizeB = 0x1000, a_tospTop = b + 0x1000, a_sweep_nextw = b,
      a_frspBase = 0, a_frspSizeB = 0, a_frspTop = 0, a_oldTop = b, a_nextGen = 1, a_needsRepair = False, a_reqSizeB = 0, a_maxSizeB = 0\<rparr>)"

definition ex_gen :: generation where
  "ex_gen = \<lparr>g_genNum = 1, g_numGCs = 0, g_lastPrevGC = 0, g_ratio = 1, g_arena = map ex_arena [0..<NUM_ARENAS], g_bigObjs = 0,
     g_toObj = None, g_fromObj = None, g_cacheObj = None,
     g_dirty = Some \<lparr>cm_baseAddr = 0xc0000, cm_numCards = 4, cm_mapSzB = 32, cm_map = (\<lambda>_. CARD_CLEAN)\<rparr>\<rparr>"

definition ex_heap :: heap where
  "ex_heap = \<lparr>h_allocBase = 0x40000, h_allocSzB = 0x40, h_baseObj = \<lparr>mo_base = 0x40000, mo_sizeB = 0x40000\<rparr>, h_numGens = 3, h_cacheGen = 2,
     h_numMinorGCs = 0, h_gen = replicate MAX_NUM_GENS ex_gen, h_numBORegions = 0, h_bigRegions = 0, h_freeBigObjs = 0, h_weakList = 0,
     h_numAlloc = 0, h_numAlloc1 = 0, h_numCopied = (\<lambda>_ _. 0), h_numGCsAtReset = (\<lambda>_. 0)\<rparr>"

definition ex_rt :: rt where
  "ex_rt = \<lparr>rt_mem = ex_mem, rt_bibop = ex_bibop, rt_heap = ex_heap, rt_ms = \<lparr>ms_PageSize = 4096, ms_PageShift = 12, ms_VMSizeB = 0, ms_mapped = {}, ms_munmap = (\<lambda>_ _ _. True)\<rparr>,
     rt_desc = Map.empty, rt_region = Map.empty, rt_fresh = 1, ml_allocPtr = 0x40038, ml_limitPtr = 0x40040, ml_storePtr = 0x40028\<rparr>"

abbreviation exG :: mgc where "exG \<equiv> mgc_of ex_rt {0x40008, 0x40020} {}"

lemma ex_sel: "h_allocBase (rt_heap ex_rt) = 0x40000" "h_allocSzB (rt_heap ex_rt) = 0x40" "rt_mem ex_rt = ex_mem" "rt_bibop ex_rt = ex_bibop"
  "h_weakList (rt_heap ex_rt) = 0" "ml_storePtr ex_rt = 0x40028" "g < 14 \<Longrightarrow> get_gen g ex_rt = ex_gen"
  by (simp_all add: ex_rt_def ex_heap_def get_gen_def)

lemma ex_gens_ok: "gens_ok ex_rt"
  by (simp add: gens_ok_def ex_sel ex_gen_def) (simp add: ex_rt_def ex_heap_def)

lemma ex_arena_at: "i < 5 \<Longrightarrow> get_arena 0 i ex_rt = ex_arena i"
  by (simp add: get_arena_def ex_sel ex_gen_def)

lemma ex_nx0: "i < 5 \<Longrightarrow> unat (nx0 exG i) = 0x80000 + 0x1000 * i"
proof -
  assume i: "i < 5"
  then have "nx0 exG i = of_nat (0x80000 + 0x1000 * i)" by (simp add: nx0_def ex_arena_at ex_arena_def Let_def)
  then show ?thesis using i by (simp only: unat_of_nat) simp
qed

lemma ex_desc: "dsc exG 0x40008 = DESC_pair" "dsc exG 0x40020 = DESC_word64"
  by (simp_all add: dsc_def ex_sel ex_mem_def)

lemma ex_ob: "ob_len DESC_pair = 2" "ob_ptrs DESC_pair = 2" "ob_len DESC_word64 = 1" "ob_ptrs DESC_word64 = 0" "ob_ok DESC_pair" "ob_ok DESC_word64"
  using desc_kind [of 2 0] desc_kind [of 1 4]
  by (simp_all add: ob_len_def ob_ptrs_def ob_ok_def DESC_pair_def DESC_word64_def GET_LEN_MAKE_DESC GET_TAG_MAKE_DESC)

lemma ex_at_ix: "at_ix p 0 = p" "at_ix p 1 = p + 8" "at_ix p 2 = p + 16"
  by (simp_all add: at_ix_def)

lemma ex_cells: "cells exG 0x40008 = {0x40000, 0x40008, 0x40010}" "cells exG 0x40020 = {0x40018, 0x40020}"
proof -
  have "{..2::nat} = {0, 1, 2}" "{..1::nat} = {0, 1}" by auto
  then show "cells exG 0x40008 = {0x40000, 0x40008, 0x40010}" "cells exG 0x40020 = {0x40018, 0x40020}"
    by (simp_all add: cells_def ex_desc ex_ob at_ix_def)
qed

lemma ex_nur: "nur exG c \<longleftrightarrow> c - 0x40000 < 0x40"
  by (simp add: nur_def ex_sel)

lemma ex_mgc_ok: "mgc_ok exG"
  unfolding mgc_ok_def
proof (intro conjI)
  show "\<forall>i<5. unat (nx0 exG i) + unat (mg_size exG) < 2 ^ 64 \<and> room exG i \<inter> Collect (nur exG) = {}"
  proof (intro allI impI conjI)
    fix i :: nat assume i: "i < 5"
    then show "unat (nx0 exG i) + unat (mg_size exG) < 2 ^ 64" by (simp add: ex_nx0 ex_sel)
    have "\<not> nur exG c" if "c \<in> room exG i" for c
    proof -
      from that have "0x80000 \<le> unat c" using i by (simp add: room_def addr_range_def ex_nx0 ex_sel)
      then have "unat (c - 0x40000) = unat c - 0x40000" by (subst unat_sub) (simp_all add: word_le_nat_alt)
      then show ?thesis using \<open>0x80000 \<le> unat c\<close> by (simp add: ex_nur word_less_nat_alt)
    qed
    then show "room exG i \<inter> Collect (nur exG) = {}" by blast
  qed
  show "\<forall>i<5. \<forall>j<5. i \<noteq> j \<longrightarrow> room exG i \<inter> room exG j = {}"
  proof (intro allI impI)
    fix i j :: nat assume ij: "i < 5" "j < 5" "i \<noteq> j"
    have r: "c \<in> room exG k \<longleftrightarrow> 0x80000 + 0x1000 * k \<le> unat c \<and> unat c < 0x80000 + 0x1000 * k + 0x40" if "k < 5" for c k
      using that by (simp add: room_def addr_range_def ex_nx0 ex_sel)
    have "\<not> (c \<in> room exG i \<and> c \<in> room exG j)" for c unfolding r [OF ij(1)] r [OF ij(2)] using ij(3) by linarith
    then show "room exG i \<inter> room exG j = {}" by blast
  qed
  show "8 dvd unat (mg_base exG)" "8 dvd unat (mg_size exG)" "unat (mg_base exG) + unat (mg_size exG) < 2 ^ 64" by (simp_all add: ex_sel)
  show "\<forall>p\<in>mg_R exG. nptr exG p \<and> 8 dvd unat p \<and> ob_ok (dsc exG p) \<and> cells exG p \<subseteq> Collect (nur exG)"
    by (simp add: nptr_def ex_nur ex_desc ex_ob ex_cells isBOXED_def)
  show "\<forall>p\<in>mg_R exG. \<forall>q\<in>mg_R exG. p \<noteq> q \<longrightarrow> cells exG p \<inter> cells exG q = {}" by (simp add: ex_cells)
  show "\<forall>p\<in>mg_R exG. \<forall>j<ob_ptrs (dsc exG p). nptr exG (mg_m exG (at_ix p j)) \<longrightarrow> mg_m exG (at_ix p j) \<in> mg_R exG"
  proof -
    have "nptr exG (ex_mem (at_ix 0x40008 j)) \<longrightarrow> ex_mem (at_ix 0x40008 j) \<in> {0x40008, 0x40020}" if "j < 2" for j
    proof -
      have "j = 0 \<or> j = 1" using that by auto
      then show ?thesis by (elim disjE) (simp_all add: ex_mem_def at_ix_def nptr_def ex_nur)
    qed
    then show ?thesis by (simp add: ex_desc ex_ob ex_sel)
  qed
qed

lemma ex_page: "unat c div 2 ^ 18 < 2 ^ 14 \<Longrightarrow> ADDR_TO_PAGEID ex_bibop c = Inr (l2_tbl (UnmappedL2 ex_bibop) (unat c div 2 ^ 18))"
  by (simp add: ADDR_TO_PAGEID_def INDEX_TO_PAGEID_def BIBOP_ADDR_TO_INDEX_def BIBOP_INDEX_TO_L1_INDEX_def BIBOP_INDEX_TO_L2_INDEX_def
    l2_of_def ex_bibop_def drop_bit_eq_div unat_div)

lemma ex_pages_ok: "pages_ok exG ex_bibop"
  unfolding pages_ok_def
proof (intro conjI allI impI ballI)
  fix i :: nat assume "i < 5"
  then show "8 dvd unat (nx0 exG i)" by (simp add: ex_nx0)
next
  fix c assume "nur exG c"
  then have "unat c div 2 ^ 18 = 1" unfolding nur_iff [OF ex_mgc_ok] by (intro div_nat_eqI) (simp_all add: ex_sel)
  then show "ADDR_TO_PAGEID ex_bibop c = Inr AID_NEW" by (subst ex_page) (simp_all add: ex_bibop_def)
next
  fix c assume "c \<in> rooms exG"
  then obtain i where i: "i < 5" "c \<in> room exG i" by (auto simp: rooms_def)
  then have "0x80000 + 0x1000 * i \<le> unat c" "unat c < 0x80000 + 0x1000 * i + 0x40" by (simp_all add: room_def addr_range_def ex_nx0 ex_sel)
  with i(1) have "unat c div 2 ^ 18 = 2" by (intro div_nat_eqI) simp_all
  then have "ADDR_TO_PAGEID ex_bibop c = Inr (MAKE_AID 1 1 0)" by (subst ex_page) (simp_all add: ex_bibop_def)
  then show "\<exists>d. ADDR_TO_PAGEID ex_bibop c = Inr d \<and> \<not> IS_BIGOBJ_AID d \<and> EXTRACT_GEN d = 1"
    by (simp add: IS_BIGOBJ_AID_def EXTRACT_MAKE_AID)
qed

lemma ex_not_room: "unat c < 0x80000 \<or> 0x90000 < unat c \<Longrightarrow> c \<notin> rooms exG"
  by (auto simp: rooms_def room_def addr_range_def ex_nx0 ex_sel)

lemma ex_entry: "entry_ok exG ex_rt 0xc0000"
proof -
  have "ADDR_TO_PAGEID ex_bibop 0xc0000 = Inr (MAKE_AID 3 4 0)" by (subst ex_page) (simp_all add: ex_bibop_def)
  moreover have "MAKE_AID 3 4 0 \<noteq> AID_NEW" "MAKE_AID 3 4 0 \<noteq> AID_UNMAPPED"
    by (simp_all add: AID_NEW_def AID_UNMAPPED_def MAKE_AID_def)
  moreover have "(0xc0000 :: addr_t) \<notin> rooms exG" by (rule ex_not_room) simp
  moreover have "has_card ex_rt 2 0xc0000" by (simp add: has_card_def ex_sel ex_gen_def CARD_INDEX_def)
  moreover have "ex_mem 0xc0000 = 0x40020" by (simp add: ex_mem_def)
  ultimately show ?thesis
    unfolding entry_ok_def by (simp add: ex_sel EXTRACT_MAKE_AID ex_nur)
qed

lemma ex_pre: "minor_pre {0x40008, 0x40020} [0x10] [0xc0000] ex_rt"
  unfolding minor_pre_def Let_def
proof (intro conjI)
  show "gens_ok ex_rt" "mgc_ok exG" by (rule ex_gens_ok ex_mgc_ok)+
  show "pages_ok exG (rt_bibop ex_rt)" using ex_pages_ok by (simp add: ex_sel)
  show "h_weakList (rt_heap ex_rt) = 0" by (simp add: ex_sel)
  show "\<forall>i<5. i \<noteq> STRING_INDX \<longrightarrow> a_sweep_nextw (get_arena 0 i ex_rt) = a_nextw (get_arena 0 i ex_rt)"
    by (simp add: ex_arena_at ex_arena_def Let_def)
  have "(0x10 :: addr_t) \<notin> rooms exG" by (rule ex_not_room) simp
  moreover have "ex_mem 0x10 = 0x40008" by (simp add: ex_mem_def)
  ultimately show "\<forall>r\<in>set [0x10]. \<not> nur exG r \<and> r \<notin> rooms exG \<and> (nptr exG (rt_mem ex_rt r) \<longrightarrow> rt_mem ex_rt r \<in> {0x40008, 0x40020})"
    by (simp add: ex_nur ex_sel)
  show "stl_list exG (ml_storePtr ex_rt) [0xc0000]"
    by (simp add: ex_sel free_cell_def ex_nur ex_cells ex_mem_def ML_unit_def INT_CtoML_def)
  show "\<forall>a\<in>set [0xc0000]. entry_ok exG ex_rt a" using ex_entry by simp
qed

section \<open>The property\<close>

text \<open>C1. A minor collection of a well-formed allocation space without weak pointers, suspensions and
  other special objects returns, given fuel larger than the allocation space and the store list.
  It copies the objects that are live, that is reachable from the roots and the words of older
  objects on the store list, and nothing else: each has a copy in the arena of its class, between
  the old and the new end of the arena; copies do not overlap; an arena grows by exactly the words
  of its live objects, and each word it gains belongs to the copy of one of them. A copy has the
  descriptor of the object (pairs have none), its pointer fields are the object's relocated to
  the copies, its raw words are unchanged. Roots and store-list words are relocated, every other
  word outside the allocation space is unchanged, every arena is swept to its end, each word of
  the store list that points to a younger generation is recorded by its card, and the counters
  are updated.\<close>

theorem MinorGC_correct:
  assumes "minor_pre R roots entries s"
    and "unat (h_allocSzB (rt_heap s)) < fuel" "length entries \<le> fuel"
  shows "\<exists>s' F. MinorGC fuel roots s = Inr s' \<and> minor_post roots entries F s s'"
  using assms by (rule MinorGC_collects)

theorem MinorGC_correct_witness:
  "\<exists>s' F. MinorGC 100 [0x10] ex_rt = Inr s' \<and> minor_post [0x10] [0xc0000] F ex_rt s'"
  using MinorGC_correct [OF ex_pre, of 100] by (simp add: ex_sel)

end
