(* ===== verification/Alloc_Laws.thy ===== *)
theory Alloc_Laws
  imports Run_ML Minor_Correct
begin

text \<open>
  The interface of an allocator of ML objects as a locale: what an allocated object holds, that
  nothing else changes, that later allocations leave it alone; and its interpretation on the
  inline allocators of theory ML_Alloc.
\<close>

section \<open>The interface of an allocator\<close>

text \<open>
  Allocating an object of given descriptor and fields returns its address. \<open>block s n\<close> is the
  set of words that an object of \<open>n\<close> fields allocated in state \<open>s\<close> occupies.
\<close>

locale allocator =
  fixes alloc :: "word_t \<Rightarrow> word_t list \<Rightarrow> 's \<Rightarrow> addr_t \<times> 's"
    and mem :: "'s \<Rightarrow> memory"
    and block :: "'s \<Rightarrow> nat \<Rightarrow> addr_t set"
    and fits :: "'s \<Rightarrow> nat \<Rightarrow> bool"
  assumes alloc_block: "fits s (length ws) \<Longrightarrow> alloc d ws s = (p, s') \<Longrightarrow> block s (length ws) = insert (p - 8) (at_ix p ` {..<length ws})"
    and alloc_desc: "fits s (length ws) \<Longrightarrow> alloc d ws s = (p, s') \<Longrightarrow> mem s' (p - 8) = d"
    and alloc_field: "fits s (length ws) \<Longrightarrow> alloc d ws s = (p, s') \<Longrightarrow> j < length ws \<Longrightarrow> mem s' (at_ix p j) = ws ! j"
    and alloc_frame: "fits s (length ws) \<Longrightarrow> alloc d ws s = (p, s') \<Longrightarrow> c \<notin> block s (length ws) \<Longrightarrow> mem s' c = mem s c"
    and alloc_next: "fits s (length ws + 1 + n) \<Longrightarrow> alloc d ws s = (p, s') \<Longrightarrow> fits s' n \<and> block s (length ws) \<inter> block s' n = {}"
    and fits_mono: "fits s n \<Longrightarrow> m \<le> n \<Longrightarrow> fits s m"
begin

text \<open>An object stays intact when another one is allocated after it.\<close>

lemma alloc_twice:
  assumes "fits s (length ws + 1 + length vs)" "alloc d ws s = (p, s1)" "alloc e vs s1 = (q, s2)"
  shows "mem s2 (p - 8) = d" "j < length ws \<Longrightarrow> mem s2 (at_ix p j) = ws ! j"
    and "mem s2 (q - 8) = e" "j < length vs \<Longrightarrow> mem s2 (at_ix q j) = vs ! j"
    and "c \<notin> block s (length ws) \<Longrightarrow> c \<notin> block s1 (length vs) \<Longrightarrow> mem s2 c = mem s c"
proof -
  have f: "fits s (length ws)" by (rule fits_mono [OF assms(1)]) simp
  from alloc_next [OF assms(1,2)] have f1: "fits s1 (length vs)" and dis: "block s (length ws) \<inter> block s1 (length vs) = {}" by simp_all
  have keep: "mem s2 c = mem s1 c" if "c \<in> block s (length ws)" for c
    using that dis by (intro alloc_frame [OF f1 assms(3)]) blast
  show "mem s2 (p - 8) = d" using keep alloc_block [OF f assms(2)] alloc_desc [OF f assms(2)] by simp
  show "j < length ws \<Longrightarrow> mem s2 (at_ix p j) = ws ! j" using keep alloc_block [OF f assms(2)] alloc_field [OF f assms(2)] by simp
  show "mem s2 (q - 8) = e" "j < length vs \<Longrightarrow> mem s2 (at_ix q j) = vs ! j"
    using alloc_desc [OF f1 assms(3)] alloc_field [OF f1 assms(3)] by simp_all
  show "c \<notin> block s (length ws) \<Longrightarrow> c \<notin> block s1 (length vs) \<Longrightarrow> mem s2 c = mem s c"
    using alloc_frame [OF f assms(2)] alloc_frame [OF f1 assms(3)] by simp
qed

end

section \<open>The inline allocators\<close>

definition alloc_fits :: "rt \<Rightarrow> nat \<Rightarrow> bool" where
  "alloc_fits s n \<longleftrightarrow> unat (ml_allocPtr s) + 8 * (n + 1) < 2 ^ 64"

definition alloc_block :: "rt \<Rightarrow> nat \<Rightarrow> addr_t set" where
  "alloc_block s n = at_ix (ml_allocPtr s) ` {..n}"

lemma put_words_nth:
  assumes "unat p + 8 * length ws < 2 ^ 64"
  shows "j < length ws \<Longrightarrow> put_words p ws m (at_ix p j) = ws ! j"
  using assms by (intro put_words_in) simp_all

lemma alloc_obj_eq: "alloc_obj d ws s = (p, s') \<longleftrightarrow> p = ml_allocPtr s + 8
    \<and> s' = (upd_mem (put_words (ml_allocPtr s) (d # ws)) s)\<lparr>ml_allocPtr := at_ix (ml_allocPtr s) (length ws + 1)\<rparr>"
  by (auto simp: alloc_obj_def ML_Alloc_def upd_mem_def)

interpretation ia: allocator alloc_obj rt_mem alloc_block alloc_fits
proof
  fix s :: rt and ws d p s' j c n m
  {
    assume f: "alloc_fits s (length ws)" and a: "alloc_obj d ws s = (p, s')"
    then have p: "p = ml_allocPtr s + 8" and m: "rt_mem s' = put_words (ml_allocPtr s) (d # ws) (rt_mem s)"
      by (auto simp: alloc_obj_eq upd_mem_def)
    have ix: "at_ix p j = at_ix (ml_allocPtr s) (Suc j)" for j by (simp add: p at_ix_Suc)
    have nth: "k < length (d # ws) \<Longrightarrow> rt_mem s' (at_ix (ml_allocPtr s) k) = (d # ws) ! k" for k
      unfolding m using f by (intro put_words_nth) (simp_all add: alloc_fits_def)
    show "alloc_block s (length ws) = insert (p - 8) (at_ix p ` {..<length ws})"
    proof -
      have "{..length ws} = insert 0 (Suc ` {..<length ws})" by (simp add: image_Suc_lessThan) auto
      then show ?thesis unfolding alloc_block_def by (simp add: image_image ix) (simp add: p)
    qed
    show "rt_mem s' (p - 8) = d" using nth [of 0] by (simp add: p)
    show "j < length ws \<Longrightarrow> rt_mem s' (at_ix p j) = ws ! j" using nth [of "Suc j"] by (simp add: ix)
    show "c \<notin> alloc_block s (length ws) \<Longrightarrow> rt_mem s' c = rt_mem s c"
      unfolding m alloc_block_def by (intro put_words_out) (auto simp: less_Suc_eq_le)
  }
  {
    assume f: "alloc_fits s (length ws + 1 + n)" and a: "alloc_obj d ws s = (p, s')"
    then have p: "ml_allocPtr s' = at_ix (ml_allocPtr s) (length ws + 1)" by (auto simp: alloc_obj_eq)
    have u: "unat (at_ix (ml_allocPtr s) (length ws + 1)) = unat (ml_allocPtr s) + 8 * (length ws + 1)"
      using f by (intro unat_at_ix) (simp add: alloc_fits_def)
    have "at_ix (ml_allocPtr s) k \<noteq> at_ix (ml_allocPtr s') l" if "k \<le> length ws" "l \<le> n" for k l
      using that f unfolding p at_ix_at_ix by (subst at_ix_inj) (simp_all add: alloc_fits_def)
    then have "alloc_block s (length ws) \<inter> alloc_block s' n = {}" unfolding alloc_block_def by fastforce
    moreover have "alloc_fits s' n" using f u unfolding alloc_fits_def p by simp
    ultimately show "alloc_fits s' n \<and> alloc_block s (length ws) \<inter> alloc_block s' n = {}" by simp
  }
  show "alloc_fits s n \<Longrightarrow> m \<le> n \<Longrightarrow> alloc_fits s m" by (simp add: alloc_fits_def)
qed

end
