(* ===== verification/C_State.thy ===== *)
theory C_State
  imports Alloc_Laws
begin

text \<open>
  Saving and restoring state in ML objects: resumption continuations of signal handlers and the
  saved state of C functions.
\<close>

section \<open>Loading registers from a record\<close>

definition load_mem :: "(addr_t \<times> nat) list \<Rightarrow> word_t \<Rightarrow> memory \<Rightarrow> memory" where
  "load_mem rs c m = (\<lambda>a. case map_of rs a of None \<Rightarrow> m a | Some i \<Rightarrow> m (at_ix c i))"

definition set_mem :: "memory \<Rightarrow> vm \<Rightarrow> vm" where "set_mem m s = s\<lparr>vm_rt := (vm_rt s)\<lparr>rt_mem := m\<rparr>\<rparr>"

lemma set_mem_simps [simp]: "rt_mem (vm_rt (set_mem m s)) = m" "set_mem m (set_mem m' s) = set_mem m s"
  "set_mem (rt_mem (vm_rt s)) s = s" "vm_vproc (set_mem m s) = vm_vproc s" "vm_rt (set_mem m s) = (vm_rt s)\<lparr>rt_mem := m\<rparr>"
  by (simp_all add: set_mem_def)

lemma st_set_mem: "st a w s = Inr ((), set_mem ((rt_mem (vm_rt s))(a := w)) s)"
  by (simp add: vm_defs set_mem_def upd_mem_def)

lemma ld_mem: "ld a s = Inr (rt_mem (vm_rt s) a, s)"
  by (simp add: vm_defs)

lemma load_regs:
  assumes "distinct (map fst rs)" "\<And>r i j. (r, i) \<in> set rs \<Longrightarrow> j \<in> snd ` set rs \<Longrightarrow> r \<noteq> at_ix c j"
  shows "vmap (\<lambda>(reg, i). vbind (REC_SEL c i) (st reg)) rs s = Inr ((), set_mem (load_mem rs c (rt_mem (vm_rt s))) s)"
  using assms
proof (induction rs arbitrary: s)
  case Nil
  then show ?case by (simp add: load_mem_def)
next
  case (Cons ri rs)
  obtain r i where ri: "ri = (r, i)" by (cases ri)
  let ?m = "rt_mem (vm_rt s)"
  let ?m1 = "?m(r := ?m (at_ix c i))"
  have r: "r \<noteq> at_ix c j" if "j \<in> snd ` set rs" for j using Cons.prems(2) [of r i j] that ri by auto
  have nr: "map_of rs r = None" using Cons.prems(1) ri by (auto simp: map_of_eq_None_iff)
  have "load_mem rs c ?m1 = load_mem (ri # rs) c ?m"
  proof
    fix a
    show "load_mem rs c ?m1 a = load_mem (ri # rs) c ?m a"
    proof (cases "map_of rs a")
      case (Some j)
      then have "j \<in> snd ` set rs" by (metis map_of_SomeD image_eqI snd_conv)
      then show ?thesis using Some r nr by (auto simp: load_mem_def ri)
    qed (simp add: load_mem_def ri)
  qed
  moreover have "vbind (REC_SEL c i) (st r) s = Inr ((), set_mem ?m1 s)"
    by (simp add: vbind_def REC_SEL_def ld_mem st_set_mem)
  moreover have "vmap (\<lambda>(reg, i). vbind (REC_SEL c i) (st reg)) rs (set_mem ?m1 s)
      = Inr ((), set_mem (load_mem rs c ?m1) (set_mem ?m1 s))"
  proof -
    have "distinct (map fst rs)" using Cons.prems(1) by simp
    moreover have "r \<noteq> at_ix c j" if "(r, i) \<in> set rs" "j \<in> snd ` set rs" for r i j
      using Cons.prems(2) [of r i j] that by auto
    ultimately show ?thesis using Cons.IH [of "set_mem ?m1 s"] by (simp add: fun_upd_def)
  qed
  ultimately show ?case by (simp add: ri)
qed

section \<open>Resumption continuations\<close>

text \<open>The registers of the ML state that a resumption continuation holds, with their fields.\<close>

definition resume_regs :: "addr_t \<Rightarrow> (addr_t \<times> nat) list" where
  "resume_regs msp = [(ml_arg msp, 1), (ml_cont msp, 2), (ml_closure msp, 3), (ml_linkReg msp, 4), (ml_pc msp, 5),
     (ml_exnCont msp, 6), (ml_calleeSave0 msp, 7), (ml_calleeSave1 msp, 8), (ml_calleeSave2 msp, 9)]"

lemma resume_regs_distinct: "distinct (map fst (resume_regs msp))"
  by (simp add: resume_regs_def)

lemma MakeResumeCont_alloc:
  assumes "alloc_fits (vm_rt s) 10" "MakeResumeCont G resume s = Inr (k, s1)"
  shows "rt_mem (vm_rt s1) (k - 8) = MAKE_DESC 10 DTAG_record" "rt_mem (vm_rt s1) k = resume"
    "(r, i) \<in> set (resume_regs (G_msp G)) \<Longrightarrow> rt_mem (vm_rt s1) (at_ix k i) = rt_mem (vm_rt s) r"
    "c \<notin> alloc_block (vm_rt s) 10 \<Longrightarrow> rt_mem (vm_rt s1) c = rt_mem (vm_rt s) c"
    "alloc_block (vm_rt s) 10 = insert (k - 8) (at_ix k ` {..<10})"
proof -
  let ?m = "rt_mem (vm_rt s)" and ?p = "G_msp G"
  define ws where "ws = [resume, ?m (ml_arg ?p), ?m (ml_cont ?p), ?m (ml_closure ?p), ?m (ml_linkReg ?p), ?m (ml_pc ?p),
                 ?m (ml_exnCont ?p), ?m (ml_calleeSave0 ?p), ?m (ml_calleeSave1 ?p), ?m (ml_calleeSave2 ?p)]"
  have l: "length ws = 10" by (simp add: ws_def)
  obtain q r1 where q: "alloc_obj (MAKE_DESC 10 DTAG_record) ws (vm_rt s) = (q, r1)" by fastforce
  have e: "k = q" "s1 = s\<lparr>vm_rt := r1\<rparr>" using assms(2) q by (simp_all add: MakeResumeCont_def lift_rt_def Let_def ws_def)
  have f: "alloc_fits (vm_rt s) (length ws)" using assms(1) l by simp
  show "rt_mem (vm_rt s1) (k - 8) = MAKE_DESC 10 DTAG_record" using ia.alloc_desc [OF f q] e by simp
  show "rt_mem (vm_rt s1) k = resume" using ia.alloc_field [OF f q, of 0] e by (simp add: ws_def)
  show "(r, i) \<in> set (resume_regs (G_msp G)) \<Longrightarrow> rt_mem (vm_rt s1) (at_ix k i) = rt_mem (vm_rt s) r"
    using ia.alloc_field [OF f q, of i] e by (auto simp: resume_regs_def ws_def numeral_eq_Suc)
  show "c \<notin> alloc_block (vm_rt s) 10 \<Longrightarrow> rt_mem (vm_rt s1) c = rt_mem (vm_rt s) c"
    using ia.alloc_frame [OF f q, of c] e l by simp
  show "alloc_block (vm_rt s) 10 = insert (k - 8) (at_ix k ` {..<10})" using ia.alloc_block [OF f q] e l by simp
qed

lemma LoadResumeState_regs:
  assumes c: "rt_mem (vm_rt s) (ml_closure (G_msp G)) = c"
    and dis: "\<And>r i j. (r, i) \<in> set (resume_regs (G_msp G)) \<Longrightarrow> j < 10 \<Longrightarrow> r \<noteq> at_ix c j"
  shows "LoadResumeState G s = Inr ((), set_mem (load_mem (resume_regs (G_msp G)) c (rt_mem (vm_rt s))) s)"
proof -
  have "snd ` set (resume_regs (G_msp G)) \<subseteq> {..<10}" by (auto simp: resume_regs_def)
  then have "vmap (\<lambda>(reg, i). vbind (REC_SEL c i) (st reg)) (resume_regs (G_msp G)) s =
      Inr ((), set_mem (load_mem (resume_regs (G_msp G)) c (rt_mem (vm_rt s))) s)"
    using dis by (intro load_regs resume_regs_distinct) auto
  then show ?thesis by (simp add: LoadResumeState_def vbind_def ld_mem c Let_def resume_regs_def)
qed

section \<open>Saved C state\<close>

text \<open>The words that \<open>SaveCState\<close> writes, one at a time.\<close>

lemma fold_AllocWrite:
  assumes "\<And>i. i < n \<Longrightarrow> vps ! i \<notin> alloc_block r n" "unat (ml_allocPtr r) + 8 * (n + 1) < 2 ^ 64"
  shows "fold (\<lambda>i r. ML_AllocWrite (i + 1) (rt_mem r (vps ! i)) r) [0..<n] (ML_AllocWrite 0 d r)
    = upd_mem (put_words (ml_allocPtr r) (d # map (\<lambda>i. rt_mem r (vps ! i)) [0..<n])) r"
proof -
  have "fold (\<lambda>i r. ML_AllocWrite (i + 1) (rt_mem r (vps ! i)) r) [0..<k] (ML_AllocWrite 0 d r)
    = upd_mem (put_words (ml_allocPtr r) (d # map (\<lambda>i. rt_mem r (vps ! i)) [0..<k])) r" if "k \<le> n" for k
    using that
  proof (induction k)
    case 0
    then show ?case by (simp add: ML_AllocWrite_def upd_mem_def fun_upd_def)
  next
    case (Suc k)
    let ?ws = "d # map (\<lambda>i. rt_mem r (vps ! i)) [0..<k]"
    let ?r = "upd_mem (put_words (ml_allocPtr r) ?ws) r"
    have "vps ! k \<noteq> at_ix (ml_allocPtr r) j" if "j < length ?ws" for j
      using assms(1) [of k] Suc.prems that by (auto simp: alloc_block_def)
    then have v: "rt_mem ?r (vps ! k) = rt_mem r (vps ! k)" by (simp only: get_arena_upd_mem(2), intro put_words_out)
    have p: "ml_allocPtr ?r = ml_allocPtr r" by (simp add: upd_mem_def)
    have "ML_AllocWrite (k + 1) (rt_mem ?r (vps ! k)) ?r = upd_mem (put_words (ml_allocPtr r) (?ws @ [rt_mem r (vps ! k)])) r"
      unfolding ML_AllocWrite_def v p put_words_snoc by (simp add: upd_mem_def)
    moreover have "fold (\<lambda>i r. ML_AllocWrite (i + 1) (rt_mem r (vps ! i)) r) [0..<k] (ML_AllocWrite 0 d r) = ?r"
      using Suc by (simp only: Suc_leD)
    ultimately show ?case by (simp del: put_words.simps)
  qed
  then show ?thesis by simp
qed

lemma SaveCState_saves:
  assumes n: "n = length vps" and fits: "alloc_fits (vm_rt s) n"
    and dis: "\<And>v. v \<in> set vps \<Longrightarrow> v \<notin> alloc_block (vm_rt s) n"
    and regs: "ml_calleeSave0 (G_msp G) \<notin> alloc_block (vm_rt s) n" "ml_cont (G_msp G) \<notin> alloc_block (vm_rt s) n"
  shows "\<exists>s' p. SaveCState G vps s = Inr ((), s') \<and> p = ml_allocPtr (vm_rt s) + 8
    \<and> rt_mem (vm_rt s') (ml_calleeSave0 (G_msp G)) = p \<and> rt_mem (vm_rt s') (ml_cont (G_msp G)) = G_return_c G
    \<and> rt_mem (vm_rt s') (p - 8) = MAKE_DESC (of_nat n) DTAG_arr_data
    \<and> (\<forall>i < n. rt_mem (vm_rt s') (at_ix p i) = rt_mem (vm_rt s) (vps ! i))"
proof -
  let ?r = "vm_rt s" and ?d = "MAKE_DESC (of_nat n) DTAG_arr_data"
  let ?ws = "map (\<lambda>i. rt_mem ?r (vps ! i)) [0..<n]"
  have v: "vps ! i \<notin> alloc_block ?r n" if "i < n" for i using dis n that by simp
  obtain p r1 where a: "alloc_obj ?d ?ws ?r = (p, r1)" by fastforce
  have e: "ML_Alloc n (fold (\<lambda>i r. ML_AllocWrite (i + 1) (rt_mem r (vps ! i)) r) [0..<n] (ML_AllocWrite 0 ?d ?r)) = (p, r1)"
    using fold_AllocWrite [OF v] fits a by (simp add: alloc_obj_def alloc_fits_def)
  have f: "alloc_fits ?r (length ?ws)" using fits by simp
  have pa: "p = ml_allocPtr ?r + 8" using a by (simp add: alloc_obj_eq)
  define m where "m = ((rt_mem r1)(ml_calleeSave0 (G_msp G) := p))(ml_cont (G_msp G) := G_return_c G)"
  have s': "SaveCState G vps s = Inr ((), set_mem m (s\<lparr>vm_rt := r1\<rparr>))"
    using e by (simp add: m_def SaveCState_def vbind_def lift_rt_def vthen_def st_set_mem Let_def flip: n)
  have out: "m c = rt_mem r1 c" if "c \<in> alloc_block ?r n" for c using regs that by (auto simp: m_def)
  have blk: "alloc_block ?r n = insert (p - 8) (at_ix p ` {..<n})" using ia.alloc_block [OF f a] by simp
  have "m (p - 8) = ?d" using out blk ia.alloc_desc [OF f a] by simp
  moreover have "\<forall>i < n. m (at_ix p i) = rt_mem ?r (vps ! i)" using out blk ia.alloc_field [OF f a] by simp
  moreover have "m (ml_calleeSave0 (G_msp G)) = p" "m (ml_cont (G_msp G)) = G_return_c G" by (simp_all add: m_def)
  ultimately show ?thesis using s' pa by (intro exI [of _ "set_mem m (s\<lparr>vm_rt := r1\<rparr>)"] exI [of _ p]) simp
qed

lemma RestoreCState_restores:
  assumes n: "n = length vps" "n < 2 ^ 31" and q: "rt_mem (vm_rt s) (ml_calleeSave0 (G_msp G)) = q"
    and d: "rt_mem (vm_rt s) (q - 8) = MAKE_DESC (of_nat n) DTAG_arr_data"
    and dist: "distinct vps" and dis: "\<And>v j. v \<in> set vps \<Longrightarrow> j < n \<Longrightarrow> v \<noteq> at_ix q j"
  shows "\<exists>s'. RestoreCState G vps s = Inr ((), s') \<and> (\<forall>i < n. rt_mem (vm_rt s') (vps ! i) = rt_mem (vm_rt s) (at_ix q i))
    \<and> (\<forall>a. a \<notin> set vps \<longrightarrow> rt_mem (vm_rt s') a = rt_mem (vm_rt s) a)"
proof -
  let ?rs = "zip vps [0..<n]"
  have un: "unat (of_nat n :: word_t) = n" using n(2) by (simp add: unat_of_nat)
  have "GET_LEN (MAKE_DESC (of_nat n) DTAG_arr_data) = of_nat n"
    using n(2) by (intro GET_LEN_MAKE_DESC) (simp_all add: word_less_nat_alt un)
  then have len: "nat (sint (ucast (GET_LEN (MAKE_DESC (of_nat n) DTAG_arr_data)) :: u32)) = n"
    using copy_len_small [of "of_nat n"] un n(2) by (simp add: copy_len_def)
  have vm: "vmap (\<lambda>i. vbind (REC_SEL q i) (st (vps ! i))) ks t = vmap (\<lambda>(reg, i). vbind (REC_SEL q i) (st reg)) (map (\<lambda>i. (vps ! i, i)) ks) t" for ks t
    by (induction ks arbitrary: t) (auto intro: rbind_cong)
  have z: "map (\<lambda>i. (vps ! i, i)) [0..<n] = ?rs" using n(1) by (intro nth_equalityI) simp_all
  have "vmap (\<lambda>(reg, i). vbind (REC_SEL q i) (st reg)) ?rs s = Inr ((), set_mem (load_mem ?rs q (rt_mem (vm_rt s))) s)"
    using dist dis n(1) by (intro load_regs) (simp, fastforce dest: set_zip_leftD set_zip_rightD)
  then have r: "RestoreCState G vps s = Inr ((), set_mem (load_mem ?rs q (rt_mem (vm_rt s))) s)"
    using len by (simp add: RestoreCState_def vbind_def ld_mem q d vm z Let_def flip: n(1))
  have "map_of ?rs (vps ! i) = Some i" if "i < n" for i
    using that dist n(1) by (simp add: map_of_zip_nth)
  moreover have "map_of ?rs a = None" if "a \<notin> set vps" for a using that by (auto simp: map_of_eq_None_iff dest: set_zip_leftD)
  ultimately show ?thesis using r by (intro exI [of _ "set_mem (load_mem ?rs q (rt_mem (vm_rt s))) s"]) (simp add: load_mem_def)
qed


section \<open>Properties\<close>

text \<open>C9. A resumption continuation made by \<open>MakeResumeCont\<close> holds the registers of the ML
  state: when it, or a copy of it, is thrown to later, \<open>LoadResumeState\<close> returns, gives the
  nine registers the values they had and changes nothing else.\<close>

theorem resume_roundtrip:
  assumes fits: "alloc_fits (vm_rt s) 10" and mk: "MakeResumeCont G resume s = Inr (k, s1)"
    and copy: "\<And>j. j < 10 \<Longrightarrow> rt_mem (vm_rt s2) (at_ix k' j) = rt_mem (vm_rt s1) (at_ix k j)"
    and k': "rt_mem (vm_rt s2) (ml_closure (G_msp G)) = k'"
    and dis: "\<And>r i j. (r, i) \<in> set (resume_regs (G_msp G)) \<Longrightarrow> j < 10 \<Longrightarrow> r \<noteq> at_ix k' j"
  shows "\<exists>s3. LoadResumeState G s2 = Inr ((), s3)
    \<and> (\<forall>r \<in> fst ` set (resume_regs (G_msp G)). rt_mem (vm_rt s3) r = rt_mem (vm_rt s) r)
    \<and> (\<forall>a. a \<notin> fst ` set (resume_regs (G_msp G)) \<longrightarrow> rt_mem (vm_rt s3) a = rt_mem (vm_rt s2) a)"
proof -
  let ?rs = "resume_regs (G_msp G)"
  have "load_mem ?rs k' (rt_mem (vm_rt s2)) r = rt_mem (vm_rt s) r" if r: "(r, i) \<in> set ?rs" for r i
  proof -
    have "map_of ?rs r = Some i" using r resume_regs_distinct by (simp add: map_of_eq_Some_iff)
    moreover have "i < 10" using r by (auto simp: resume_regs_def)
    ultimately show ?thesis using copy MakeResumeCont_alloc(3) [OF fits mk r] by (simp add: load_mem_def)
  qed
  moreover have "load_mem ?rs k' (rt_mem (vm_rt s2)) a = rt_mem (vm_rt s2) a" if "a \<notin> fst ` set ?rs" for a
    using that by (simp add: load_mem_def flip: map_of_eq_None_iff)
  moreover note LoadResumeState_regs [OF k' dis]
  ultimately show ?thesis by fastforce
qed


text \<open>C10. \<open>SaveCState\<close> stores the values of C variables in an ML array that \<open>ml_calleeSave[0]\<close>
  refers to and makes \<open>return_c\<close> the continuation; \<open>RestoreCState\<close>, applied when the register
  refers to the array or to a copy of it, gives as many variables the saved values, in order.\<close>

theorem C_state_roundtrip:
  assumes n: "n = length vps" "n = length vps'" "n < 2 ^ 31" and fits: "alloc_fits (vm_rt s) n"
    and dis: "\<And>v. v \<in> set vps \<Longrightarrow> v \<notin> alloc_block (vm_rt s) n"
    and regs: "ml_calleeSave0 (G_msp G) \<notin> alloc_block (vm_rt s) n" "ml_cont (G_msp G) \<notin> alloc_block (vm_rt s) n"
    and p: "p = ml_allocPtr (vm_rt s) + 8" and save: "SaveCState G vps s = Inr ((), s1)"
    and q: "rt_mem (vm_rt s2) (ml_calleeSave0 (G_msp G)) = q" "rt_mem (vm_rt s2) (q - 8) = rt_mem (vm_rt s1) (p - 8)"
    and copy: "\<And>j. j < n \<Longrightarrow> rt_mem (vm_rt s2) (at_ix q j) = rt_mem (vm_rt s1) (at_ix p j)"
    and dist: "distinct vps'" and dis': "\<And>v j. v \<in> set vps' \<Longrightarrow> j < n \<Longrightarrow> v \<noteq> at_ix q j"
  shows "rt_mem (vm_rt s1) (ml_calleeSave0 (G_msp G)) = p \<and> rt_mem (vm_rt s1) (ml_cont (G_msp G)) = G_return_c G
    \<and> (\<exists>s3. RestoreCState G vps' s2 = Inr ((), s3)
        \<and> (\<forall>i < n. rt_mem (vm_rt s3) (vps' ! i) = rt_mem (vm_rt s) (vps ! i))
        \<and> (\<forall>a. a \<notin> set vps' \<longrightarrow> rt_mem (vm_rt s3) a = rt_mem (vm_rt s2) a))"
proof -
  from SaveCState_saves [OF n(1) fits dis regs] save p have
    1: "rt_mem (vm_rt s1) (ml_calleeSave0 (G_msp G)) = p" "rt_mem (vm_rt s1) (ml_cont (G_msp G)) = G_return_c G"
      "rt_mem (vm_rt s1) (p - 8) = MAKE_DESC (of_nat n) DTAG_arr_data" "\<forall>i < n. rt_mem (vm_rt s1) (at_ix p i) = rt_mem (vm_rt s) (vps ! i)" by auto
  have "rt_mem (vm_rt s2) (q - 8) = MAKE_DESC (of_nat n) DTAG_arr_data" using q(2) 1(3) by simp
  from RestoreCState_restores [OF n(2,3) q(1) this dist dis'] 1 copy show ?thesis by auto
qed


section \<open>Witnesses\<close>

definition ex_globals :: globals where
  "ex_globals = \<lparr>G_msp = 0x1000, G_ProfCurrent = 0x2000, G_MLSignalHandler = 0x2008, G_PervStruct = 0x2010, G_RunTimeCompUnit = 0x2018,
     G_OverflowId = 0x2020, G_DivId = 0x2028, G_SysErrId = 0x2030, G_string0 = 0x2038, G_vector0 = 0x2040, G_handle = 0x2048,
     G_return_c = 0x2050, G_sigh_return_c = 0x2058, G_sigh_resume = 0x2060, G_root = 0x2068, G_runvec = []\<rparr>"

definition ex_vproc :: vproc where
  "ex_vproc = (let z = \<lparr>seconds = 0, uSeconds = 0\<rparr> in
     \<lparr>vp_inMLFlag = False, vp_handlerPending = False, vp_inSigHandler = False, vp_totalSigCount = \<lparr>nReceived = 0, nHandled = 0\<rparr>,
      vp_sigCounts = (\<lambda>_. \<lparr>nReceived = 0, nHandled = 0\<rparr>), vp_sigCode = 0, vp_sigCount = 0, vp_nextPendingSig = 1, vp_gcSigState = 0,
      vp_gcSigThreshold = 1, vp_timers = \<lparr>vp_gcUsrTime0 = z, vp_gcSysTime0 = z, vp_gcUsrTime = z, vp_gcSysTime = z\<rparr>, vp_limitPtrMask = 1\<rparr>)"

definition ex_vm :: vm where
  "ex_vm = \<lparr>vm_rt = ex_rt, vm_vproc = ex_vproc, vm_latches = \<lparr>lastU = \<lparr>seconds = 0, uSeconds = 0\<rparr>, lastS = \<lparr>seconds = 0, uSeconds = 0\<rparr>\<rparr>,
     vm_rusages = 0, vm_CRoots = [], vm_UnlimitedHeap = False, vm_faultPC = 0\<rparr>"

lemma ex_vm_alloc: "ml_allocPtr (vm_rt ex_vm) = 0x40038" "G_msp ex_globals = 0x1000" "n < 1000 \<Longrightarrow> alloc_fits (vm_rt ex_vm) n"
  by (simp_all add: ex_vm_def ex_rt_def ex_globals_def alloc_fits_def)

lemma low_not_at_ix: "unat a < 0x40000 \<Longrightarrow> j < 1000 \<Longrightarrow> 0x40000 \<le> unat p \<Longrightarrow> unat p < 0x80000 \<Longrightarrow> a \<noteq> at_ix p j"
proof
  assume a: "unat a < 0x40000" "j < 1000" "0x40000 \<le> unat p" "unat p < 0x80000" "a = at_ix p j"
  then have "unat a = unat p + 8 * j" using unat_at_ix [of p j] by simp
  with a show False by simp
qed

lemma ex_vm_block: "unat a < 0x40000 \<Longrightarrow> n < 1000 \<Longrightarrow> a \<notin> alloc_block (vm_rt ex_vm) n"
proof
  assume a: "unat a < 0x40000" "n < 1000" "a \<in> alloc_block (vm_rt ex_vm) n"
  then obtain j where "j \<le> n" "a = at_ix 0x40038 j" by (auto simp: alloc_block_def ex_vm_alloc)
  then show False using low_not_at_ix [of a j "0x40038"] a(1,2) by simp
qed

lemma ex_regs: "(r, i) \<in> set (resume_regs 0x1000) \<Longrightarrow> unat r < 0x40000"
  by (auto simp: resume_regs_def)

theorem resume_roundtrip_witness:
  "\<exists>k s1 s3. MakeResumeCont ex_globals 0x2060 ex_vm = Inr (k, s1)
    \<and> LoadResumeState ex_globals (set_mem ((rt_mem (vm_rt s1))(ml_closure 0x1000 := k, ml_arg 0x1000 := 5)) s1) = Inr ((), s3)
    \<and> rt_mem (vm_rt s3) (ml_arg 0x1000) = rt_mem (vm_rt ex_vm) (ml_arg 0x1000)"
proof -
  obtain k s1 where mk: "MakeResumeCont ex_globals 0x2060 ex_vm = Inr (k, s1)" by (cases "MakeResumeCont ex_globals 0x2060 ex_vm") (auto simp: MakeResumeCont_def lift_rt_def Let_def split: prod.splits)
  then have k: "k = 0x40040" by (auto simp: MakeResumeCont_def lift_rt_def Let_def alloc_obj_eq ex_vm_alloc split: prod.splits)
  let ?m = "(rt_mem (vm_rt s1))(ml_closure 0x1000 := k, ml_arg 0x1000 := 5)"
  have copy: "?m (at_ix k j) = rt_mem (vm_rt s1) (at_ix k j)" if "j < 10" for j
    using low_not_at_ix [of "0x1040" j k] low_not_at_ix [of "0x1068" j k] that by (auto simp: k)
  have dis: "r \<noteq> at_ix k j" if "(r, i) \<in> set (resume_regs (G_msp ex_globals))" "j < 10" for r i j
    using ex_regs that low_not_at_ix [of r j k] by (simp add: ex_vm_alloc k)
  from resume_roundtrip [OF _ mk, of "set_mem ?m s1" k] copy dis
  obtain s3 where "LoadResumeState ex_globals (set_mem ?m s1) = Inr ((), s3)"
    "\<forall>r \<in> fst ` set (resume_regs 0x1000). rt_mem (vm_rt s3) r = rt_mem (vm_rt ex_vm) r" by (auto simp: ex_vm_alloc)
  moreover have "ml_arg 0x1000 \<in> fst ` set (resume_regs 0x1000)" by (simp add: resume_regs_def)
  ultimately show ?thesis using mk by blast
qed

theorem C_state_roundtrip_witness:
  "\<exists>s1 s3. SaveCState ex_globals [0x3000, 0x3008] ex_vm = Inr ((), s1) \<and> RestoreCState ex_globals [0x4000, 0x4008] s1 = Inr ((), s3)
    \<and> rt_mem (vm_rt s3) 0x4008 = rt_mem (vm_rt ex_vm) 0x3008"
proof -
  have f: "alloc_fits (vm_rt ex_vm) 2" by (simp add: ex_vm_alloc)
  have d: "v \<notin> alloc_block (vm_rt ex_vm) 2" if "v \<in> set [0x3000, 0x3008, 0x1050, 0x1048]" for v using that by (intro ex_vm_block) auto
  from SaveCState_saves [of 2 "[0x3000, 0x3008]" ex_vm ex_globals] f d obtain s1 where
    s1: "SaveCState ex_globals [0x3000, 0x3008] ex_vm = Inr ((), s1)" "rt_mem (vm_rt s1) (ml_calleeSave0 0x1000) = 0x40040"
    by (auto simp: ex_vm_alloc)
  have d': "v \<noteq> at_ix 0x40040 j" if "v \<in> set [0x4000, 0x4008]" "j < 2" for v j using that by (intro low_not_at_ix) auto
  from C_state_roundtrip [of 2 "[0x3000, 0x3008]" "[0x4000, 0x4008]" ex_vm ex_globals "0x40040" s1 s1 "0x40040"] f d d' s1
  obtain s3 where "RestoreCState ex_globals [0x4000, 0x4008] s1 = Inr ((), s3)"
    "\<forall>i < 2. rt_mem (vm_rt s3) ([0x4000, 0x4008] ! i) = rt_mem (vm_rt ex_vm) ([0x3000, 0x3008] ! i)" by (auto simp: ex_vm_alloc)
  then have "rt_mem (vm_rt s3) 0x4008 = rt_mem (vm_rt ex_vm) 0x3008" by (auto dest: spec [of _ 1])
  then show ?thesis using s1(1) \<open>RestoreCState ex_globals [0x4000, 0x4008] s1 = Inr ((), s3)\<close> by blast
qed

end
