(* ===== verification/Handler.thy ===== *)
theory Handler
  imports Signal_Machine C_State
begin

text \<open>
  The composition of signals, allocation and the dispatch loop: what a \<open>REQ_GC\<close> request does
  when a signal handler is pending.
\<close>

section \<open>Invoking the ML signal handler\<close>

text \<open>The records that are allocated for the handler.\<close>

definition resume_words :: "addr_t \<Rightarrow> word_t \<Rightarrow> memory \<Rightarrow> word_t list" where
  "resume_words msp resume m = [resume, m (ml_arg msp), m (ml_cont msp), m (ml_closure msp), m (ml_linkReg msp), m (ml_pc msp),
     m (ml_exnCont msp), m (ml_calleeSave0 msp), m (ml_calleeSave1 msp), m (ml_calleeSave2 msp)]"

lemma resume_words_nth: "(r, i) \<in> set (resume_regs msp) \<Longrightarrow> i < 10 \<and> resume_words msp resume m ! i = m r"
  by (auto simp: resume_regs_def resume_words_def numeral_eq_Suc)

definition handler_arg :: "vproc \<Rightarrow> word_t \<Rightarrow> word_t list" where
  "handler_arg v k = [INT_ml (int (vp_sigCode v)), INT_ml (vp_sigCount v), k]"

lemma MakeHandlerArg_allocs:
  assumes fits: "alloc_fits (vm_rt s) 14"
  shows "\<exists>arg k s'. MakeHandlerArg G resume s = Inr (arg, s') \<and> vm_vproc s' = vm_vproc s
    \<and> (\<forall>j < 3. rt_mem (vm_rt s') (at_ix arg j) = handler_arg (vm_vproc s) k ! j)
    \<and> (\<forall>j < 10. rt_mem (vm_rt s') (at_ix k j) = resume_words (G_msp G) resume (rt_mem (vm_rt s)) ! j)
    \<and> (\<forall>c. c \<notin> alloc_block (vm_rt s) 14 \<longrightarrow> rt_mem (vm_rt s') c = rt_mem (vm_rt s) c)
    \<and> at_ix arg ` {..<3} \<union> at_ix k ` {..<10} \<subseteq> alloc_block (vm_rt s) 14"
proof -
  let ?ws = "resume_words (G_msp G) resume (rt_mem (vm_rt s))"
  obtain k r1 where a1: "alloc_obj (MAKE_DESC 10 DTAG_record) ?ws (vm_rt s) = (k, r1)" by fastforce
  let ?vs = "handler_arg (vm_vproc s) k"
  obtain arg r2 where a2: "alloc_obj (MAKE_DESC 3 DTAG_record) ?vs r1 = (arg, r2)" by fastforce
  have l: "length ?ws = 10" "length ?vs = 3" by (simp_all add: resume_words_def handler_arg_def)
  have f: "alloc_fits (vm_rt s) (length ?ws + 1 + length ?vs)" using fits l by simp
  have f1: "alloc_fits (vm_rt s) (length ?ws)" by (rule ia.fits_mono [OF f]) simp
  have f2: "alloc_fits r1 (length ?vs)" using ia.alloc_next [OF f a1] by simp
  have run: "MakeHandlerArg G resume s = Inr (arg, s\<lparr>vm_rt := r2\<rparr>)"
    using a1 a2 by (simp add: MakeHandlerArg_def vbind_def MakeResumeCont_def lift_rt_def Let_def resume_words_def handler_arg_def ML_Alloc3_def)
  have p1: "ml_allocPtr r1 = at_ix (ml_allocPtr (vm_rt s)) 11" using a1 l(1) by (simp add: alloc_obj_eq)
  have b: "alloc_block (vm_rt s) 10 \<subseteq> alloc_block (vm_rt s) 14" "alloc_block r1 3 \<subseteq> alloc_block (vm_rt s) 14"
    by (auto simp: alloc_block_def p1 at_ix_at_ix)
  have "at_ix k ` {..<10} \<subseteq> alloc_block (vm_rt s) 10" "at_ix arg ` {..<3} \<subseteq> alloc_block r1 3"
    using ia.alloc_block [OF f1 a1] ia.alloc_block [OF f2 a2] l by auto
  with b have sub: "at_ix arg ` {..<3} \<union> at_ix k ` {..<10} \<subseteq> alloc_block (vm_rt s) 14" by blast
  note tw = ia.alloc_twice [OF f a1 a2]
  have "rt_mem r2 c = rt_mem (vm_rt s) c" if "c \<notin> alloc_block (vm_rt s) 14" for c using tw(5) [of c] that b l by auto
  then show ?thesis using run tw(2,4) l sub by (intro exI [of _ arg] exI [of _ k] exI [of _ "s\<lparr>vm_rt := r2\<rparr>"]) simp
qed

text \<open>The words that matter when the ML handler is invoked, and the words the code writes.\<close>

definition handler_writes :: "addr_t \<Rightarrow> addr_t set" where
  "handler_writes msp = {ml_arg msp, ml_cont msp, ml_exnCont msp, ml_closure msp, ml_linkReg msp, ml_pc msp}"

lemma invoke_handler_correct:
  assumes ng: "\<not> NeedGC (1024 * 8) (vm_rt s)" and st: "start_handler (env_fuel E) (env_sig E) (vm_vproc s) = Inr v'"
    and fits: "alloc_fits (vm_rt s) 14"
    and dis: "\<And>r. r \<in> handler_writes (G_msp G) \<Longrightarrow> r \<notin> alloc_block (vm_rt s) 14"
    and h: "G_MLSignalHandler G \<notin> alloc_block (vm_rt s) 14" "G_MLSignalHandler G \<notin> handler_writes (G_msp G)"
    and clos: "closure = rt_mem (vm_rt s) (G_MLSignalHandler G)" "closure \<notin> alloc_block (vm_rt s) 14" "closure \<notin> handler_writes (G_msp G)"
  shows "\<exists>s' arg k. invoke_handler E G s = Inr ((), s') \<and> vm_vproc s' = v'
    \<and> rt_mem (vm_rt s') (ml_arg (G_msp G)) = arg
    \<and> (\<forall>j < 3. rt_mem (vm_rt s') (at_ix arg j) = handler_arg v' k ! j)
    \<and> (\<forall>j < 10. rt_mem (vm_rt s') (at_ix k j) = resume_words (G_msp G) (G_sigh_resume G) (rt_mem (vm_rt s)) ! j)
    \<and> rt_mem (vm_rt s') (ml_cont (G_msp G)) = G_sigh_return_c G \<and> rt_mem (vm_rt s') (ml_exnCont (G_msp G)) = G_handle G
    \<and> rt_mem (vm_rt s') (ml_closure (G_msp G)) = closure
    \<and> rt_mem (vm_rt s') (ml_pc (G_msp G)) = rt_mem (vm_rt s) closure \<and> rt_mem (vm_rt s') (ml_linkReg (G_msp G)) = rt_mem (vm_rt s) closure
    \<and> (\<forall>c. c \<notin> alloc_block (vm_rt s) 14 \<and> c \<notin> handler_writes (G_msp G) \<longrightarrow> rt_mem (vm_rt s') c = rt_mem (vm_rt s) c)"
proof -
  let ?p = "G_msp G"
  from st obtain v1 where v1: "ChooseSignal (env_fuel E) (env_sig E) (vm_vproc s) = Inr v1"
    "v' = v1\<lparr>vp_inSigHandler := True, vp_handlerPending := False\<rparr>" by (auto simp: start_handler_def)
  let ?s1 = "s\<lparr>vm_vproc := v1\<rparr>"
  from MakeHandlerArg_allocs [of ?s1 G "G_sigh_resume G"] fits obtain arg k s2 where
    2: "MakeHandlerArg G (G_sigh_resume G) ?s1 = Inr (arg, s2)" "vm_vproc s2 = v1"
      "\<forall>j < 3. rt_mem (vm_rt s2) (at_ix arg j) = handler_arg v1 k ! j"
      "\<forall>j < 10. rt_mem (vm_rt s2) (at_ix k j) = resume_words ?p (G_sigh_resume G) (rt_mem (vm_rt s)) ! j"
      "\<forall>c. c \<notin> alloc_block (vm_rt s) 14 \<longrightarrow> rt_mem (vm_rt s2) c = rt_mem (vm_rt s) c"
      "at_ix arg ` {..<3} \<union> at_ix k ` {..<10} \<subseteq> alloc_block (vm_rt s) 14" by auto
  define m where "m = (rt_mem (vm_rt s2))(ml_arg ?p := arg, ml_cont ?p := G_sigh_return_c G, ml_exnCont ?p := G_handle G,
    ml_closure ?p := closure, ml_linkReg ?p := rt_mem (vm_rt s) closure, ml_pc ?p := rt_mem (vm_rt s) closure)"
  have c2: "rt_mem (vm_rt s2) (G_MLSignalHandler G) = closure" "rt_mem (vm_rt s2) closure = rt_mem (vm_rt s) closure"
    using 2(5) h(1) clos by simp_all
  have run: "invoke_handler E G s = Inr ((), (set_mem m s2)\<lparr>vm_vproc := v'\<rparr>)"
  proof -
    have e: "(set_mem m s2)\<lparr>vm_vproc := v1\<lparr>vp_inSigHandler := True, vp_handlerPending := False\<rparr>\<rparr> = (set_mem m s2)\<lparr>vm_vproc := v'\<rparr>"
      by (simp add: v1(2))
    have n: "G_MLSignalHandler G \<noteq> ml_arg ?p" "G_MLSignalHandler G \<noteq> ml_cont ?p" "G_MLSignalHandler G \<noteq> ml_exnCont ?p"
      "closure \<noteq> ml_arg ?p" "closure \<noteq> ml_cont ?p" "closure \<noteq> ml_exnCont ?p" "closure \<noteq> ml_closure ?p"
      using h(2) clos(3) by (auto simp: handler_writes_def)
    have "invoke_handler E G s = Inr ((), (set_mem m s2)\<lparr>vm_vproc := v1\<lparr>vp_inSigHandler := True, vp_handlerPending := False\<rparr>\<rparr>)"
      using ng v1(1) 2(1)
      by (simp add: invoke_handler_def vbind_def read_rt_def vthen_def vret_def st_set_mem ld_mem REC_SEL_def upd_vproc_def Let_def n c2 2(2) m_def)
    then show ?thesis by (simp add: v1(2))
  qed
  have out: "m c = rt_mem (vm_rt s2) c" if "c \<notin> handler_writes ?p" for c using that by (simp add: m_def handler_writes_def)
  have blk: "c \<notin> handler_writes ?p" if "c \<in> alloc_block (vm_rt s) 14" for c using dis that by blast
  have a: "handler_arg v' k = handler_arg v1 k" by (simp add: handler_arg_def v1(2))
  have in2: "at_ix arg j \<notin> handler_writes ?p" if "j < 3" for j using blk 2(6) that by blast
  have in10: "at_ix k j \<notin> handler_writes ?p" if "j < 10" for j using blk 2(6) that by blast
  have regs: "m (ml_arg ?p) = arg" "m (ml_cont ?p) = G_sigh_return_c G" "m (ml_exnCont ?p) = G_handle G" "m (ml_closure ?p) = closure"
    "m (ml_pc ?p) = rt_mem (vm_rt s) closure" "m (ml_linkReg ?p) = rt_mem (vm_rt s) closure" by (simp_all add: m_def)
  show ?thesis
    using run regs out in2 in10 2(3,4,5) a
    by (intro exI [of _ "(set_mem m s2)\<lparr>vm_vproc := v'\<rparr>"] exI [of _ arg] exI [of _ k]) simp
qed


section \<open>Property\<close>

text \<open>C3. A \<open>REQ_GC\<close> request with a pending handler and enough free space invokes the ML handler:
  it returns to the dispatch loop with the handler's closure, code and continuations in the
  registers and a record of a pending signal, its number of occurrences and a resumption
  continuation as the argument. The continuation holds the registers of the interrupted
  code, the occurrences are no longer pending, and no other word is changed outside the
  allocation space.\<close>

theorem handler_invocation:
  assumes sig: "sigconf_ok (env_sig E)" "SIGMAP_SZ (env_sig E) \<le> env_fuel E" "sig_inv (env_sig E) (vm_vproc s)" "vp_handlerPending (vm_vproc s)"
    and ng: "\<not> NeedGC (1024 * 8) (vm_rt s)" and fits: "alloc_fits (vm_rt s) 14"
    and dis: "\<And>r. r \<in> insert (G_MLSignalHandler G) (insert closure (handler_writes (G_msp G))) \<Longrightarrow> r \<notin> alloc_block (vm_rt s) 14"
    and clos: "closure = rt_mem (vm_rt s) (G_MLSignalHandler G)" "{closure, G_MLSignalHandler G} \<inter> handler_writes (G_msp G) = {}"
  shows "\<exists>s' j arg k. let m = rt_mem (vm_rt s); m' = rt_mem (vm_rt s'); p = G_msp G in
    dispatch E G X REQ_GC s = Inr (False, s') \<and> j \<in> sigs (env_sig E) \<and> pending (vm_vproc s) j \<noteq> 0
    \<and> pending (vm_vproc s') = (pending (vm_vproc s))(j := 0) \<and> vp_inSigHandler (vm_vproc s') \<and> \<not> vp_handlerPending (vm_vproc s')
    \<and> m' (ml_arg p) = arg \<and> m' arg = INT_ml (int j) \<and> m' (at_ix arg 1) = INT_ml (int (pending (vm_vproc s) j)) \<and> m' (at_ix arg 2) = k
    \<and> m' k = G_sigh_resume G \<and> (\<forall>(r, i) \<in> set (resume_regs p). m' (at_ix k i) = m r)
    \<and> m' (ml_cont p) = G_sigh_return_c G \<and> m' (ml_exnCont p) = G_handle G
    \<and> m' (ml_closure p) = closure \<and> m' (ml_pc p) = m closure \<and> m' (ml_linkReg p) = m closure
    \<and> (\<forall>c. c \<notin> alloc_block (vm_rt s) 14 \<union> handler_writes p \<longrightarrow> m' c = m c)"
proof -
  let ?c = "env_sig E" and ?v = "vm_vproc s" and ?p = "G_msp G" and ?m = "rt_mem (vm_rt s)"
  have "total_pending ?v \<noteq> 0" using sig(3,4) unfolding sig_inv_def by blast
  then obtain i where "i \<in> sigs ?c" "pending ?v i \<noteq> 0" using pending_exists [OF sig(3)] by blast
  from start_handler_spec [OF sig(1,3) this sig(2)] obtain v' where
    v': "start_handler (env_fuel E) ?c ?v = Inr v'" "vp_sigCode v' \<in> sigs ?c" "pending ?v (vp_sigCode v') \<noteq> 0"
      "vp_sigCount v' = int (pending ?v (vp_sigCode v'))" "pending v' = (pending ?v)(vp_sigCode v' := 0)" "vp_inSigHandler v'" "\<not> vp_handlerPending v'"
    by blast
  have side: "\<And>r. r \<in> handler_writes ?p \<Longrightarrow> r \<notin> alloc_block (vm_rt s) 14" "G_MLSignalHandler G \<notin> alloc_block (vm_rt s) 14"
    "G_MLSignalHandler G \<notin> handler_writes ?p" "closure \<notin> alloc_block (vm_rt s) 14" "closure \<notin> handler_writes ?p" using dis clos(2) by auto
  from invoke_handler_correct [OF ng v'(1) fits side(1-3) clos(1) side(4,5)] obtain s' arg k where
    r: "invoke_handler E G s = Inr ((), s')" "vm_vproc s' = v'" "rt_mem (vm_rt s') (ml_arg ?p) = arg"
      "\<forall>j < 3. rt_mem (vm_rt s') (at_ix arg j) = handler_arg v' k ! j"
      "\<forall>j < 10. rt_mem (vm_rt s') (at_ix k j) = resume_words ?p (G_sigh_resume G) ?m ! j"
      "rt_mem (vm_rt s') (ml_cont ?p) = G_sigh_return_c G" "rt_mem (vm_rt s') (ml_exnCont ?p) = G_handle G"
      "rt_mem (vm_rt s') (ml_closure ?p) = closure" "rt_mem (vm_rt s') (ml_pc ?p) = ?m closure" "rt_mem (vm_rt s') (ml_linkReg ?p) = ?m closure"
      "\<forall>c. c \<notin> alloc_block (vm_rt s) 14 \<and> c \<notin> handler_writes ?p \<longrightarrow> rt_mem (vm_rt s') c = ?m c"
    by blast
  have d: "dispatch E G X REQ_GC s = Inr (False, s')" using r(1) sig(4) by (simp add: dispatch_def Let_def vthen_def vret_def)
  have a: "rt_mem (vm_rt s') arg = INT_ml (int (vp_sigCode v'))" "rt_mem (vm_rt s') (at_ix arg 1) = INT_ml (vp_sigCount v')" "rt_mem (vm_rt s') (at_ix arg 2) = k"
    using r(4) [rule_format, of 0] r(4) [rule_format, of 1] r(4) [rule_format, of 2] by (simp_all add: handler_arg_def)
  have k: "rt_mem (vm_rt s') k = G_sigh_resume G" using r(5) [rule_format, of 0] by (simp add: resume_words_def)
  have rr: "\<forall>(r, i) \<in> set (resume_regs ?p). rt_mem (vm_rt s') (at_ix k i) = ?m r" using r(5) resume_words_nth by auto
  show ?thesis unfolding Let_def
    using d a k rr r(2,3,6-11) v'(2-7) by (intro exI [of _ s'] exI [of _ "vp_sigCode v'"] exI [of _ arg] exI [of _ k]) simp
qed

section \<open>Witness\<close>

text \<open>An interrupted state with signals 1 and 2 pending and an allocation space of a quarter megabyte.\<close>

definition ex_env :: env where
  "ex_env = \<lparr>env_mmap = (\<lambda>_ _. None), env_rusage = (\<lambda>_. (\<lparr>seconds = 0, uSeconds = 0\<rparr>, \<lparr>seconds = 0, uSeconds = 0\<rparr>)), env_sig = ex_conf, env_fuel = 100\<rparr>"

definition ex_ext :: ext where
  "ex_ext = \<lparr>restoreregs = vret 0, call_cfunc = (\<lambda>_ _. vret 1), BindCFun = (\<lambda>_ _. vret 1)\<rparr>"

definition ex_interrupted :: vm where
  "ex_interrupted = ex_vm\<lparr>vm_vproc := ex_signals, vm_rt := ex_rt\<lparr>rt_heap := ex_heap\<lparr>h_allocSzB := 0x40000\<rparr>\<rparr>\<rparr>"

lemma ex_interrupted_sel: "vm_vproc ex_interrupted = ex_signals" "ml_allocPtr (vm_rt ex_interrupted) = ml_allocPtr (vm_rt ex_vm)"
  "rt_mem (vm_rt ex_interrupted) = ex_mem" "alloc_block (vm_rt ex_interrupted) n = alloc_block (vm_rt ex_vm) n"
  by (simp_all add: ex_interrupted_def ex_vm_def ex_rt_def alloc_block_def)

theorem handler_invocation_witness:
  "\<exists>s' j arg k. dispatch ex_env ex_globals ex_ext REQ_GC ex_interrupted = Inr (False, s') \<and> pending ex_signals j \<noteq> 0
    \<and> rt_mem (vm_rt s') (ml_arg 0x1000) = arg \<and> rt_mem (vm_rt s') arg = INT_ml (int j)
    \<and> rt_mem (vm_rt s') (at_ix arg 2) = k \<and> rt_mem (vm_rt s') k = 0x2060"
proof -
  have inv: "sig_inv ex_conf ex_signals"
    by (rule sig_run_inv [OF ex_sig_run [unfolded ex_start_def] ex_sig_ok(1) init_inv [OF ex_sig_ok(1)] ex_sig_ok(2)])
  have ng: "\<not> NeedGC (1024 * 8) (vm_rt ex_interrupted)"
    by (simp add: NeedGC_def ex_interrupted_def ex_rt_def ex_heap_def HEAP_LIMIT_def)
  have fits: "alloc_fits (vm_rt ex_interrupted) 14" by (simp add: alloc_fits_def ex_interrupted_sel ex_vm_alloc)
  have low: "r \<notin> alloc_block (vm_rt ex_interrupted) 14" if "r \<in> insert (G_MLSignalHandler ex_globals) (insert 1 (handler_writes (G_msp ex_globals)))" for r
    using that ex_vm_block [of r 14] by (auto simp: ex_interrupted_sel ex_globals_def handler_writes_def)
  have "1 = rt_mem (vm_rt ex_interrupted) (G_MLSignalHandler ex_globals)" "{1, G_MLSignalHandler ex_globals} \<inter> handler_writes (G_msp ex_globals) = {}"
    by (simp_all add: ex_interrupted_sel ex_globals_def ex_mem_def handler_writes_def)
  from handler_invocation [of ex_env ex_interrupted, OF _ _ _ _ ng fits low this, of ex_ext] inv ex_sig_ok
  show ?thesis by (auto simp: ex_env_def ex_interrupted_sel ex_conf_def Let_def ex_vm_alloc) (auto simp: ex_globals_def)
qed

end
