(* ===== verification/Literals_V1.thy ===== *)
theory Literals_V1
  imports ML_Objects
begin

text \<open>
  The first version of the literal machine, \<open>gc/old-literals.c\<close>, which the run-time system keeps
  for old object files. The code and the stack, an ML list, are reached through local variables
  that are roots. Counts are 32-bit integers; negative ones, which no compiler emits, are left
  undefined.
\<close>

section \<open>Reading the code\<close>

text \<open>The addresses of C locals that are passed to the collector as roots.\<close>

record lit_slots =
  sl_code :: addr_t
  sl_root :: addr_t
  sl_stk :: addr_t
  sl_saved :: addr_t

definition bytes_at :: "addr_t \<Rightarrow> nat \<Rightarrow> memory \<Rightarrow> byte_t list" where
  "bytes_at a n m = map (\<lambda>i. byte_at (a + of_nat i) m) [0..<n]"

text \<open>The number whose bytes are in a union, on a little-endian machine.\<close>

fun le_nat :: "byte_t list \<Rightarrow> nat" where
  "le_nat [] = 0"
| "le_nat (b # bs) = unat b + 256 * le_nat bs"

definition code_bytes :: "lit_slots \<Rightarrow> nat \<Rightarrow> nat \<Rightarrow> byte_t list vmop" where
  "code_bytes L pc n = read_rt (\<lambda>r. bytes_at (rt_mem r (sl_code L) + of_nat pc) n (rt_mem r))"

definition GET32 :: "lit_slots \<Rightarrow> nat \<Rightarrow> int vmop" where
  "GET32 L pc = vbind (code_bytes L pc 4) (\<lambda>bs. vret (sint (of_nat (le_nat (rev bs)) :: u32)))"

definition GetDouble :: "lit_slots \<Rightarrow> nat \<Rightarrow> word_t vmop" where
  "GetDouble L pc = vbind (code_bytes L pc 8) (\<lambda>bs. vret (of_nat (le_nat (rev bs))))"

section \<open>The stack\<close>

definition lit_cons :: "lit_slots \<Rightarrow> word_t \<Rightarrow> unit vmop" where
  "lit_cons L x = vbind (ld (sl_stk L)) (\<lambda>stk. vbind (cons x stk) (st (sl_stk L)))"

text \<open>\<open>for (j = n; j > 0; j--) { ML_AllocWrite(msp, j, LIST_hd(stk)); stk = LIST_tl(stk); }\<close>\<close>

fun write_fields :: "lit_slots \<Rightarrow> nat \<Rightarrow> unit vmop" where
  "write_fields L 0 s = Inr ((), s)"
| "write_fields L (Suc k) s =
     vbind (ld (sl_stk L)) (\<lambda>l.
     vbind (ld l) (\<lambda>x.
     vthen (upd_rt (ML_AllocWrite (Suc k) x))
    (vbind (ld (l + 8)) (\<lambda>tl.
     vthen (st (sl_stk L) tl) (write_fields L k))))) s"

definition list_fields :: "lit_slots \<Rightarrow> word_t \<Rightarrow> nat \<Rightarrow> word_t vmop" where
  "list_fields L desc n =
     vthen (upd_rt (ML_AllocWrite 0 desc))
    (vthen (write_fields L n)
    (lift_rt (\<lambda>r. Inr (ML_Alloc n r))))"

definition avail32 :: "rt \<Rightarrow> int" where
  "avail32 r = sint (ucast (ml_limitPtr r - ml_allocPtr r) :: u32)"

section \<open>Instructions\<close>

definition V1_GC :: "env \<Rightarrow> globals \<Rightarrow> lit_slots \<Rightarrow> unit vmop" where
  "V1_GC E G L = InvokeGCWithRoots E G 0 [sl_code L, sl_stk L]"

text \<open>\<open>GC_CHECK\<close>; a request that is not a 32-bit number overflows.\<close>

definition V1_check :: "env \<Rightarrow> globals \<Rightarrow> lit_slots \<Rightarrow> int \<Rightarrow> int \<Rightarrow> unit vmop" where
  "V1_check E G L spaceReq availSpace =
     (if INT_MAX < spaceReq then vfail (Fault ''signed overflow'')
      else if availSpace < spaceReq then V1_GC E G L else vret ())"

text \<open>A 32-bit number at index \<open>j\<close> of the allocation area, in units of 4 bytes.\<close>

definition ML_AllocWrite32 :: "nat \<Rightarrow> int \<Rightarrow> rt \<Rightarrow> rt" where
  "ML_AllocWrite32 j x r =
     upd_mem (put_bytes (ml_allocPtr r + 4 * of_nat j) (map (\<lambda>k. of_int (x div 256 ^ k)) [0..<4])) r"

fun write_raw32 :: "lit_slots \<Rightarrow> nat \<Rightarrow> nat list \<Rightarrow> nat vmop" where
  "write_raw32 L pc [] s = Inr (pc, s)"
| "write_raw32 L pc (j # js) s =
     vbind (GET32 L pc) (\<lambda>i. vthen (upd_rt (ML_AllocWrite32 j i)) (write_raw32 L (pc + 4) js)) s"

fun write_doubles :: "lit_slots \<Rightarrow> nat \<Rightarrow> word_t \<Rightarrow> nat list \<Rightarrow> nat vmop" where
  "write_doubles L pc res [] s = Inr (pc, s)"
| "write_doubles L pc res (j # js) s =
     vbind (GetDouble L pc) (\<lambda>d. vthen (st (at_ix res j) d) (write_doubles L (pc + 8) res js)) s"

fun nth_tail :: "nat \<Rightarrow> word_t \<Rightarrow> memory \<Rightarrow> word_t" where
  "nth_tail 0 l m = l"
| "nth_tail (Suc n) l m = nth_tail n (m (l + 8)) m"

text \<open>
  The words that the object has are as many as the count of 32-bit elements says, and the
  first element is not read; \<open>RAW64L\<close> makes an object of twice as many words as it has
  elements. Both are sized for a 32-bit machine.
\<close>

definition V1_raw32 :: "env \<Rightarrow> globals \<Rightarrow> lit_slots \<Rightarrow> nat \<Rightarrow> nat \<Rightarrow> int \<Rightarrow> nat vmop" where
  "V1_raw32 E G L n pc av =
     vthen (V1_check E G L (24 + 8 + 4 * int n) av)
    (vthen (upd_rt (ML_AllocWrite 0 (MAKE_DESC (of_nat n) DTAG_raw)))
    (vbind (write_raw32 L pc [2..<n + 1]) (\<lambda>pc.
     vbind (lift_rt (\<lambda>r. Inr (ML_Alloc n r))) (\<lambda>res.
     vthen (lit_cons L res) (vret pc)))))"

definition V1_raw64 :: "env \<Rightarrow> globals \<Rightarrow> lit_slots \<Rightarrow> nat \<Rightarrow> nat \<Rightarrow> int \<Rightarrow> nat vmop" where
  "V1_raw64 E G L n pc av =
     vthen (V1_check E G L (24 + 16 + 8 * int n) av)
    (vthen (upd_rt (ML_AllocWrite 0 (MAKE_DESC (of_nat (2 * n)) DTAG_raw)))
    (vbind (lift_rt (\<lambda>r. Inr (ML_Alloc (2 * n) r))) (\<lambda>res.
     vbind (write_doubles L pc res [0..<n]) (\<lambda>pc.
     vthen (lit_cons L res) (vret pc)))))"

definition V1_string :: "env \<Rightarrow> globals \<Rightarrow> lit_slots \<Rightarrow> nat \<Rightarrow> nat \<Rightarrow> int \<Rightarrow> nat vmop" where
  "V1_string E G L n pc av =
     (if n = 0 then vthen (lit_cons L (G_string0 G)) (vret pc)
      else let j = (n + 8) div 8 in
       vthen (V1_check E G L (8 * (int j + 1 + 3)) av)
      (vthen (upd_rt (\<lambda>r. ML_AllocWrite j 0 (ML_AllocWrite 0 (MAKE_DESC (of_nat j) DTAG_raw) r)))
      (vbind (lift_rt (\<lambda>r. Inr (ML_Alloc j r))) (\<lambda>data.
       vbind (code_bytes L pc n) (\<lambda>bs.
       vthen (upd_rt (upd_mem (put_bytes data bs)))
      (vbind (seq_hdr DESC_string data (of_nat n)) (\<lambda>res.
       vthen (lit_cons L res) (vret (pc + n)))))))))"

definition V1_vector :: "env \<Rightarrow> globals \<Rightarrow> lit_slots \<Rightarrow> nat \<Rightarrow> nat \<Rightarrow> int \<Rightarrow> nat vmop" where
  "V1_vector E G L n pc av =
     (if n = 0 then vthen (lit_cons L (G_vector0 G)) (vret pc)
      else vthen (V1_check E G L (8 * (int n + 1 + 3)) av)
       (vbind (list_fields L (MAKE_DESC (of_nat n) DTAG_vec_data) n) (\<lambda>data.
        vbind (seq_hdr DESC_polyvec data (of_nat n)) (\<lambda>res.
        vthen (lit_cons L res) (vret pc)))))"

definition V1_record :: "env \<Rightarrow> globals \<Rightarrow> lit_slots \<Rightarrow> nat \<Rightarrow> nat \<Rightarrow> int \<Rightarrow> nat vmop" where
  "V1_record E G L n pc av =
     (if n = 0 then vthen (lit_cons L ML_unit) (vret pc)
      else vthen (V1_check E G L (8 * (int n + 1)) av)
       (vbind (list_fields L (MAKE_DESC (of_nat n) DTAG_record) n) (\<lambda>res.
        vthen (lit_cons L res) (vret pc))))"

text \<open>The opcodes with a count: \<open>n = GET32(lits); pc += 4\<close>.\<close>

definition V1_counted :: "lit_slots \<Rightarrow> nat \<Rightarrow> (nat \<Rightarrow> nat \<Rightarrow> 'a vmop) \<Rightarrow> 'a vmop" where
  "V1_counted L pc f = vbind (GET32 L pc) (\<lambda>n.
     if n < 0 then vfail (Fault ''negative count'') else f (nat n) (pc + 4))"

definition V1_step :: "env \<Rightarrow> globals \<Rightarrow> lit_slots \<Rightarrow> int \<Rightarrow> nat \<Rightarrow> (word_t option \<times> nat) vmop" where
  "V1_step E G L av pc0 =
     vbind (code_bytes L pc0 1) (\<lambda>b.
     let opc = unat (hd b); pc = pc0 + 1; continue = (\<lambda>f. vbind f (\<lambda>pc. vret (None, pc))) in
     if opc = 0x01 then
       continue (vbind (GET32 L pc) (\<lambda>i. vbind (lift_rt (\<lambda>r. rbind (INT32_CtoML i) (\<lambda>w. Inr (w, r)))) (\<lambda>w.
         vthen (lit_cons L w) (vret (pc + 4)))))
     else if opc = 0x02 then
       continue (vbind (GET32 L pc) (\<lambda>i. vbind (lift_rt (\<lambda>r. rbind (INT32_CtoML i) (\<lambda>w. Inr (w, r)))) (\<lambda>w.
         vthen (lit_cons L w) (vret (pc + 4)))))
     else if opc = 0x03 then continue (V1_counted L pc (\<lambda>n pc. V1_raw32 E G L n pc av))
     else if opc = 0x04 then
       continue (vbind (GetDouble L pc) (\<lambda>d. vbind (lift_rt (\<lambda>r. Inr (ML_AllocReal64 d r))) (\<lambda>res.
         vthen (lit_cons L res) (vret (pc + 8)))))
     else if opc = 0x05 then continue (V1_counted L pc (\<lambda>n pc. V1_raw64 E G L n pc av))
     else if opc = 0x06 then continue (V1_counted L pc (\<lambda>n pc. V1_string E G L n pc av))
     else if opc = 0x07 then
       continue (V1_counted L pc (\<lambda>n pc. vbind (ld (sl_stk L)) (\<lambda>stk.
         vbind (read_rt (\<lambda>r. rt_mem r (nth_tail n stk (rt_mem r)))) (\<lambda>x. vthen (lit_cons L x) (vret pc)))))
     else if opc = 0x08 then continue (V1_counted L pc (\<lambda>n pc. V1_vector E G L n pc av))
     else if opc = 0x09 then continue (V1_counted L pc (\<lambda>n pc. V1_record E G L n pc av))
     else if opc = 0xff then vbind (ld (sl_stk L)) (\<lambda>stk. vbind (ld stk) (\<lambda>v. vret (Some v, pc)))
     else vfail (Die ''bogus literal opcode''))"

section \<open>The loop\<close>

definition V1_space :: "env \<Rightarrow> globals \<Rightarrow> lit_slots \<Rightarrow> int vmop" where
  "V1_space E G L =
     vbind (read_rt avail32) (\<lambda>a.
     if a < 1024 then
       vbind (read_rt (NeedGC (64 * 1024))) (\<lambda>gc.
       vthen (if gc then V1_GC E G L else vret ()) (read_rt avail32))
     else vret a)"

fun V1_loop :: "nat \<Rightarrow> env \<Rightarrow> globals \<Rightarrow> lit_slots \<Rightarrow> nat \<Rightarrow> word_t vmop" where
  "V1_loop 0 E G L pc s = Inl NoFuel"
| "V1_loop (Suc fuel) E G L pc s =
     vbind (V1_space E G L) (\<lambda>av.
     vbind (V1_step E G L av pc) (\<lambda>(r, pc).
     case r of Some v \<Rightarrow> vret v | None \<Rightarrow> V1_loop fuel E G L pc)) s"

definition BuildLiteralsV1 :: "env \<Rightarrow> globals \<Rightarrow> lit_slots \<Rightarrow> addr_t \<Rightarrow> nat \<Rightarrow> int \<Rightarrow> word_t vmop" where
  "BuildLiteralsV1 E G L lits pc len =
     (if len \<le> 0 then vret ML_nil
      else vthen (st (sl_code L) lits)
       (vthen (st (sl_stk L) ML_nil)
       (V1_loop (env_fuel E) E G L pc)))"

end
