(* ===== verification/Literals_V2.thy ===== *)
theory Literals_V2
  imports Literals_V1
begin

text \<open>
  The second version of the literal machine, \<open>gc/build-literals-v2.c\<close>: a table gives the
  operation and the kind of argument of an opcode; the stack is an ML list and the save area an
  ML array.
\<close>

section \<open>The instruction table\<close>

datatype oper = I_UNUSED | I_INT | I_INT32 | I_INT64 | I_BIGINT | I_IVEC | I_IVEC8 | I_IVEC16 | I_IVEC32 | I_IVEC64 | I_REAL32 | I_REAL64
  | I_RVEC32 | I_RVEC64 | I_STR8 | I_RECORD | I_VECTOR | I_RAW | I_RAW32 | I_RAW64 | I_CONCAT | I_SAVE | I_LOAD | I_RETURN | I_INVALID

datatype arg_kind = NO_ARG | IMMED_ARG | I8_ARG | U8_ARG | I16_ARG | U16_ARG | I32_ARG | U32_ARG | I64_ARG | INT_ARG

type_synonym instr_info = "oper \<times> arg_kind \<times> int"

definition InstrInfo_used :: "instr_info list" where
  "InstrInfo_used =
     map (\<lambda>i. (I_INT, IMMED_ARG, i)) [0, 1, 2, 3, 4, 5, 6, 7, 8, 9, 10, - 1, - 2, - 3, - 4, - 5]
     @ [(I_INT, I8_ARG, 0), (I_INT, I16_ARG, 0), (I_INT, I32_ARG, 0), (I_INT, I64_ARG, 0),
        (I_INVALID, NO_ARG, 0), (I_INVALID, NO_ARG, 0), (I_INVALID, NO_ARG, 0),
        (I_INT64, I8_ARG, 0), (I_INT64, I16_ARG, 0), (I_INT64, I32_ARG, 0), (I_INT64, I64_ARG, 0),
        (I_BIGINT, U32_ARG, 0), (I_IVEC, U8_ARG, 0), (I_IVEC, U32_ARG, 0), (I_IVEC8, U8_ARG, 0), (I_IVEC8, U32_ARG, 0),
        (I_IVEC16, U8_ARG, 0), (I_IVEC16, U32_ARG, 0), (I_IVEC32, U8_ARG, 0), (I_IVEC32, U32_ARG, 0),
        (I_IVEC64, U8_ARG, 0), (I_IVEC64, U32_ARG, 0), (I_REAL32, NO_ARG, 0), (I_REAL64, NO_ARG, 0),
        (I_RVEC32, U8_ARG, 0), (I_RVEC32, U32_ARG, 0), (I_RVEC64, U8_ARG, 0), (I_RVEC64, U32_ARG, 0),
        (I_STR8, U8_ARG, 0), (I_STR8, INT_ARG, 0), (I_UNUSED, NO_ARG, 0), (I_UNUSED, NO_ARG, 0)]
     @ map (\<lambda>i. (I_RECORD, IMMED_ARG, i)) [1, 2, 3, 4, 5, 6, 7]
     @ [(I_RECORD, U8_ARG, 0), (I_RECORD, U32_ARG, 0), (I_VECTOR, U8_ARG, 0), (I_VECTOR, U32_ARG, 0),
        (I_RAW, IMMED_ARG, 1), (I_RAW, IMMED_ARG, 2), (I_RAW, U8_ARG, 0), (I_RAW, U32_ARG, 0),
        (I_RAW32, U8_ARG, 0), (I_RAW32, U32_ARG, 0), (I_RAW64, U8_ARG, 0), (I_RAW64, U32_ARG, 0),
        (I_CONCAT, U16_ARG, 0), (I_SAVE, U8_ARG, 0), (I_SAVE, U16_ARG, 0), (I_LOAD, U8_ARG, 0), (I_LOAD, U16_ARG, 0)]"

definition InstrInfo_unused :: "instr_info list" where
  "InstrInfo_unused = replicate 183 (I_UNUSED, NO_ARG, 0) @ [(I_RETURN, NO_ARG, 0)]"

definition InstrInfo :: "nat \<Rightarrow> instr_info" where
  "InstrInfo opc = (InstrInfo_used @ InstrInfo_unused) ! opc"

section \<open>Arguments\<close>

text \<open>The big-endian number of \<open>n\<close> bytes at \<open>pc\<close>.\<close>

definition GetArg :: "lit_slots \<Rightarrow> nat \<Rightarrow> nat \<Rightarrow> nat vmop" where
  "GetArg L pc n = vbind (code_bytes L pc n) (\<lambda>bs. vret (le_nat (rev bs)))"

text \<open>The 64 bits of the argument are a union of a signed and an unsigned number.\<close>

definition fetch_arg :: "lit_slots \<Rightarrow> instr_info \<Rightarrow> nat \<Rightarrow> (word_t \<times> nat) vmop" where
  "fetch_arg L info pc =
     (let (_, kind, immed) = info in
      case kind of
        NO_ARG \<Rightarrow> vret (0, pc)
      | IMMED_ARG \<Rightarrow> vret (of_int immed, pc)
      | I8_ARG \<Rightarrow> vbind (GetArg L pc 1) (\<lambda>n. vret (scast (of_nat n :: byte_t), pc + 1))
      | U8_ARG \<Rightarrow> vbind (GetArg L pc 1) (\<lambda>n. vret (of_nat n, pc + 1))
      | I16_ARG \<Rightarrow> vbind (GetArg L pc 2) (\<lambda>n. vret (scast (of_nat n :: u16), pc + 2))
      | U16_ARG \<Rightarrow> vbind (GetArg L pc 2) (\<lambda>n. vret (of_nat n, pc + 2))
      | I32_ARG \<Rightarrow> vbind (GetArg L pc 4) (\<lambda>n. vret (scast (of_nat n :: u32), pc + 4))
      | U32_ARG \<Rightarrow> vbind (GetArg L pc 4) (\<lambda>n. vret (of_nat n, pc + 4))
      | I64_ARG \<Rightarrow> vbind (GetArg L pc 8) (\<lambda>n. vret (of_nat n, pc + 8))
      | INT_ARG \<Rightarrow> vbind (GetArg L pc 8) (\<lambda>n. vret (of_nat n, pc + 8)))"

section \<open>Instructions\<close>

text \<open>An instruction returns the program counter and the space that it counts as available.\<close>

type_synonym v2op = "(nat \<times> int) vmop"

definition V2_GC :: "env \<Rightarrow> globals \<Rightarrow> lit_slots \<Rightarrow> unit vmop" where
  "V2_GC E G L = InvokeGCWithRoots E G 0 [sl_code L, sl_stk L, sl_saved L]"

definition V2_check :: "env \<Rightarrow> globals \<Rightarrow> lit_slots \<Rightarrow> int \<Rightarrow> int \<Rightarrow> int vmop" where
  "V2_check E G L spaceReq availSpace =
     (if INT_MAX < spaceReq then vfail (Fault ''request too large'')
      else if availSpace < spaceReq then
        vthen (V2_GC E G L) (read_rt (\<lambda>r. sint (ucast (ml_limitPtr r - ml_allocPtr r - 24) :: u32)))
      else vret (availSpace - spaceReq))"

definition V2_string :: "env \<Rightarrow> globals \<Rightarrow> lit_slots \<Rightarrow> word_t \<Rightarrow> nat \<Rightarrow> int \<Rightarrow> v2op" where
  "V2_string E G L arg pc availSpace =
     (if arg = 0 then vthen (lit_cons L (G_string0 G)) (vret (pc, availSpace))
      else let n = unat arg; ui = (n + 8) div 8; spaceReq = 8 * (int ui + 1 + 3) in
       vbind (V2_check E G L spaceReq availSpace) (\<lambda>av.
       vthen (upd_rt (\<lambda>r. ML_AllocWrite ui 0 (ML_AllocWrite 0 (MAKE_DESC (of_nat ui) DTAG_raw) r)))
      (vbind (lift_rt (\<lambda>r. Inr (ML_Alloc ui r))) (\<lambda>data.
       vbind (code_bytes L pc n) (\<lambda>bs.
       vthen (upd_rt (upd_mem (put_bytes data bs)))
      (vbind (seq_hdr DESC_string data arg) (\<lambda>res.
       vthen (lit_cons L res) (vret (pc + n, av - spaceReq)))))))))"

definition V2_record :: "env \<Rightarrow> globals \<Rightarrow> lit_slots \<Rightarrow> word_t \<Rightarrow> nat \<Rightarrow> int \<Rightarrow> v2op" where
  "V2_record E G L arg pc availSpace =
     (if arg = 0 then vthen (lit_cons L ML_unit) (vret (pc, availSpace))
      else let n = unat arg; spaceReq = 8 * (int n + 1) in
       vbind (V2_check E G L spaceReq availSpace) (\<lambda>av.
       vbind (list_fields L (MAKE_DESC arg DTAG_record) n) (\<lambda>res.
       vthen (lit_cons L res) (vret (pc, av - spaceReq)))))"

definition V2_vector :: "env \<Rightarrow> globals \<Rightarrow> lit_slots \<Rightarrow> word_t \<Rightarrow> nat \<Rightarrow> int \<Rightarrow> v2op" where
  "V2_vector E G L arg pc availSpace =
     (if arg = 0 then vthen (lit_cons L (G_vector0 G)) (vret (pc, availSpace))
      else let n = unat arg; spaceReq = 8 * (int n + (1 + 3)) in
       vbind (V2_check E G L spaceReq availSpace) (\<lambda>av.
       vbind (list_fields L (MAKE_DESC arg DTAG_vec_data) n) (\<lambda>data.
       vbind (seq_hdr DESC_polyvec data arg) (\<lambda>res.
       vthen (lit_cons L res) (vret (pc, av - spaceReq))))))"

fun write_raw :: "lit_slots \<Rightarrow> nat \<Rightarrow> nat list \<Rightarrow> nat vmop" where
  "write_raw L pc [] s = Inr (pc, s)"
| "write_raw L pc (i # is) s =
     vbind (GetArg L pc 8) (\<lambda>n. vthen (upd_rt (ML_AllocWrite i (of_nat n))) (write_raw L (pc + 8) is)) s"

definition V2_raw :: "env \<Rightarrow> globals \<Rightarrow> lit_slots \<Rightarrow> word_t \<Rightarrow> nat \<Rightarrow> int \<Rightarrow> v2op" where
  "V2_raw E G L arg pc availSpace =
     (let n = unat arg; spaceReq = 8 * int n + 8 in
      vbind (V2_check E G L spaceReq availSpace) (\<lambda>av.
      vthen (upd_rt (ML_AllocWrite 0 (MAKE_DESC arg DTAG_raw)))
     (vbind (write_raw L pc [1..<n + 1]) (\<lambda>pc.
      vbind (lift_rt (\<lambda>r. Inr (ML_Alloc n r))) (\<lambda>res.
      vthen (lit_cons L res) (vret (pc, av - spaceReq)))))))"

definition V2_raw64 :: "env \<Rightarrow> globals \<Rightarrow> lit_slots \<Rightarrow> word_t \<Rightarrow> nat \<Rightarrow> int \<Rightarrow> v2op" where
  "V2_raw64 E G L arg pc availSpace =
     (let n = unat arg; spaceReq = 8 * (int n + 1) in
      vbind (V2_check E G L spaceReq availSpace) (\<lambda>av.
      vthen (upd_rt (ML_AllocWrite 0 (MAKE_DESC arg DTAG_raw)))
     (vbind (lift_rt (\<lambda>r. Inr (ML_Alloc n r))) (\<lambda>res.
      vbind (write_doubles L pc res [0..<n]) (\<lambda>pc.
      vthen (lit_cons L res) (vret (pc, av - spaceReq)))))))"

text \<open>Storing into the save area records the update.\<close>

definition V2_save :: "lit_slots \<Rightarrow> word_t \<Rightarrow> unit vmop" where
  "V2_save L arg =
     vbind (ld (sl_saved L)) (\<lambda>saved.
     vbind (ld (sl_stk L)) (\<lambda>stk.
     vbind (ld stk) (\<lambda>x.
     let loc = saved + 8 * arg in
     vthen (st loc x) (upd_rt (ML_RecordUpdate loc)))))"

text \<open>The value of \<open>REAL64\<close> is allocated and not pushed.\<close>

definition V2_oper :: "env \<Rightarrow> globals \<Rightarrow> lit_slots \<Rightarrow> oper \<Rightarrow> word_t \<Rightarrow> nat \<Rightarrow> int \<Rightarrow> v2op" where
  "V2_oper E G L op arg pc av =
     (case op of
        I_UNUSED \<Rightarrow> vret (pc, av)
      | I_CONCAT \<Rightarrow> vret (pc, av)
      | I_INT \<Rightarrow> vthen (lit_cons L (INT_CtoML arg)) (vret (pc, av))
      | I_INT64 \<Rightarrow> vbind (lift_rt (\<lambda>r. Inr (ML_AllocWord64 arg r))) (\<lambda>res. vthen (lit_cons L res) (vret (pc, av - 16)))
      | I_REAL64 \<Rightarrow> vbind (GetDouble L pc) (\<lambda>d. vbind (lift_rt (\<lambda>r. Inr (ML_AllocReal64 d r))) (\<lambda>_. vret (pc + 8, av - 16)))
      | I_STR8 \<Rightarrow> V2_string E G L arg pc av
      | I_RECORD \<Rightarrow> V2_record E G L arg pc av
      | I_VECTOR \<Rightarrow> V2_vector E G L arg pc av
      | I_RAW \<Rightarrow> V2_raw E G L arg pc av
      | I_RAW64 \<Rightarrow> V2_raw64 E G L arg pc av
      | I_SAVE \<Rightarrow> vthen (V2_save L arg) (vret (pc, av))
      | I_LOAD \<Rightarrow> vbind (ld (sl_saved L)) (\<lambda>saved. vbind (ld (saved + 8 * arg)) (\<lambda>x. vthen (lit_cons L x) (vret (pc, av))))
      | I_INT32 \<Rightarrow> vfail (Die ''BuildLiteralsV2: bogus literal opcode'')
      | I_INVALID \<Rightarrow> vfail (Die ''BuildLiteralsV2: bogus literal opcode'')
      | _ \<Rightarrow> vfail (Die ''not supported yet''))"

section \<open>The loop\<close>

definition V2_space :: "env \<Rightarrow> globals \<Rightarrow> lit_slots \<Rightarrow> int \<Rightarrow> int vmop" where
  "V2_space E G L av =
     vbind (if av < 512 * 8 then
              vbind (read_rt (NeedGC (64 * 1024))) (\<lambda>gc.
              vthen (if gc then V2_GC E G L else vret ()) (read_rt avail32))
            else vret av) (\<lambda>av. vret (av - 24))"

fun V2_loop :: "nat \<Rightarrow> env \<Rightarrow> globals \<Rightarrow> lit_slots \<Rightarrow> nat \<Rightarrow> int \<Rightarrow> word_t vmop" where
  "V2_loop 0 E G L pc av s = Inl NoFuel"
| "V2_loop (Suc fuel) E G L pc av s =
     vbind (V2_space E G L av) (\<lambda>av.
     vbind (GetArg L pc 1) (\<lambda>opc.
     let info = InstrInfo opc in
     vbind (fetch_arg L info (pc + 1)) (\<lambda>(arg, pc).
     if fst info = I_RETURN then vbind (ld (sl_stk L)) ld
     else vbind (V2_oper E G L (fst info) arg pc av) (\<lambda>(pc, av). V2_loop fuel E G L pc av)))) s"

definition BuildLiteralsV2 :: "env \<Rightarrow> globals \<Rightarrow> lit_slots \<Rightarrow> addr_t \<Rightarrow> nat \<Rightarrow> word_t vmop" where
  "BuildLiteralsV2 E G L code pc =
     vthen (st (sl_code L) code)
    (vbind (GetArg L pc 4) (\<lambda>wordSz.
     vbind (GetArg L (pc + 4) 4) (\<lambda>maxSaved.
     if wordSz \<noteq> 64 then vfail (Die ''expected word size = 64'')
     else vbind (if 0 < maxSaved then ML_AllocArrayData E G (of_nat maxSaved) ML_nil else vret ML_nil) (\<lambda>saved.
       vthen (st (sl_saved L) saved)
      (vthen (st (sl_stk L) ML_nil)
      (vbind (read_rt avail32) (V2_loop (env_fuel E) E G L (pc + 8))))))))"

end
