(* ===== verification/Literals.thy ===== *)
theory Literals
  imports Literals_V2
begin

text \<open>
  Literal vectors, \<open>gc/build-literals-v3.c\<close>: an interpreter of a bytecode that the compiler
  emits, which builds the heap objects of the literals of a compilation unit. The code is in
  memory and may move when the interpreter collects, so it is reached through a local variable
  that is a root. The stack and the save area are C arrays.
\<close>

section \<open>State\<close>

datatype vkind = VK_TAGINT | VK_RAWINT | VK_REAL32 | VK_REAL64 | VK_OBJ

text \<open>
  The 64 bits of an item are a union. The stack is a list with its bottom first, so that
  \<open>tos\<close> is its length minus one.
\<close>

type_synonym stk_item = "vkind \<times> word_t"

record lit_state =
  ls_pc :: nat
  ls_stk :: "stk_item list"
  ls_saved :: "word_t list"
  ls_maxDepth :: int
  ls_maxSaved :: int

type_synonym 'a litop = "lit_state \<Rightarrow> vm \<Rightarrow> ('a \<times> lit_state \<times> vm) res"

definition lret :: "'a \<Rightarrow> 'a litop" where "lret x t s = Inr (x, t, s)"
definition lbind :: "'a litop \<Rightarrow> ('a \<Rightarrow> 'b litop) \<Rightarrow> 'b litop" where
  "lbind m f t s = rbind (m t s) (\<lambda>(x, t, s). f x t s)"
definition lthen :: "unit litop \<Rightarrow> 'b litop \<Rightarrow> 'b litop" where "lthen m k = lbind m (\<lambda>_. k)"
definition lvm :: "'a vmop \<Rightarrow> 'a litop" where "lvm f t s = rbind (f s) (\<lambda>(x, s). Inr (x, t, s))"
definition lfail :: "rt_error \<Rightarrow> 'a litop" where "lfail e t s = Inl e"

lemmas lit_defs = lret_def lbind_def lthen_def lvm_def lfail_def

section \<open>Garbage collection\<close>

text \<open>
  The roots are copied to a record and back. A negative size of the save area would make the
  code write below the record.
\<close>

definition lit_roots :: "lit_state \<Rightarrow> word_t list" where
  "lit_roots t = ls_saved t @ map (\<lambda>(k, w). if k = VK_OBJ then w else ML_unit) (ls_stk t)"

definition restore_item :: "word_t \<Rightarrow> memory \<Rightarrow> nat \<Rightarrow> stk_item \<Rightarrow> stk_item" where
  "restore_item p m i x = (if fst x = VK_OBJ then (VK_OBJ, m (at_ix p i)) else x)"

definition lit_GC :: "env \<Rightarrow> globals \<Rightarrow> lit_slots \<Rightarrow> int \<Rightarrow> unit litop" where
  "lit_GC E G L gcLevel t s =
     (let n = length (ls_saved t); nRoots = n + length (ls_stk t) in
      if ls_maxSaved t < 0 then Inl (Fault ''negative save area'')
      else rbind (vbind (lift_rt (\<lambda>r. Inr (alloc_obj (MAKE_DESC (of_nat nRoots) DTAG_record) (lit_roots t) r))) (\<lambda>rootObj.
             vthen (st (sl_root L) rootObj)
            (vthen (InvokeGCWithRoots E G gcLevel [sl_code L, sl_root L])
            (ld (sl_root L)))) s) (\<lambda>(p, s).
        let m = rt_mem (vm_rt s) in
        Inr ((), t\<lparr>ls_saved := map (\<lambda>i. m (at_ix p i)) [0..<n],
                  ls_stk := map (\<lambda>i. restore_item p m (n + i) (ls_stk t ! i)) [0..<length (ls_stk t)]\<rparr>, s)))"

definition CheckGC :: "env \<Rightarrow> globals \<Rightarrow> lit_slots \<Rightarrow> addr_t \<Rightarrow> unit litop" where
  "CheckGC E G L reqSpace t s =
     (if ml_limitPtr (vm_rt s) - ml_allocPtr (vm_rt s) < reqSpace then lit_GC E G L 0 t s else Inr ((), t, s))"

section \<open>Arguments\<close>

text \<open>The byte \<open>code[pc++]\<close>. There is no check against the size of the code.\<close>

definition code_byte :: "lit_slots \<Rightarrow> byte_t litop" where
  "code_byte L t s = (let m = rt_mem (vm_rt s) in
     Inr (byte_at (m (sl_code L) + of_nat (ls_pc t)) m, t\<lparr>ls_pc := ls_pc t + 1\<rparr>, s))"

text \<open>\<open>GetBytes\<close> on a little-endian machine reverses the bytes, which a union then reads as a number.\<close>

fun GetBytes :: "lit_slots \<Rightarrow> nat \<Rightarrow> byte_t list litop" where
  "GetBytes L 0 t s = Inr ([], t, s)"
| "GetBytes L (Suc n) t s = lbind (code_byte L) (\<lambda>b. lbind (GetBytes L n) (\<lambda>bs. lret (bs @ [b]))) t s"

definition GetI8Arg :: "lit_slots \<Rightarrow> int litop" where "GetI8Arg L = lbind (code_byte L) (\<lambda>b. lret (sint b))"
definition GetU8Arg :: "lit_slots \<Rightarrow> int litop" where "GetU8Arg L = lbind (code_byte L) (\<lambda>b. lret (uint b))"
definition GetI16Arg :: "lit_slots \<Rightarrow> int litop" where
  "GetI16Arg L = lbind (GetBytes L 2) (\<lambda>bs. lret (sint (of_nat (le_nat bs) :: u16)))"
definition GetU16Arg :: "lit_slots \<Rightarrow> int litop" where
  "GetU16Arg L = lbind (GetBytes L 2) (\<lambda>bs. lret (uint (of_nat (le_nat bs) :: u16)))"
definition GetI32Arg :: "lit_slots \<Rightarrow> int litop" where
  "GetI32Arg L = lbind (GetBytes L 4) (\<lambda>bs. lret (sint (of_nat (le_nat bs) :: u32)))"
definition GetU32Arg :: "lit_slots \<Rightarrow> u32 litop" where
  "GetU32Arg L = lbind (GetBytes L 4) (\<lambda>bs. lret (of_nat (le_nat bs) :: u32))"
definition GetI64Arg :: "lit_slots \<Rightarrow> int litop" where
  "GetI64Arg L = lbind (GetBytes L 8) (\<lambda>bs. lret (sint (of_nat (le_nat bs) :: word_t)))"
definition GetR32Arg :: "lit_slots \<Rightarrow> u32 litop" where
  "GetR32Arg L = lbind (GetBytes L 4) (\<lambda>bs. lret (of_nat (le_nat bs)))"
definition GetR64Arg :: "lit_slots \<Rightarrow> word_t litop" where
  "GetR64Arg L = lbind (GetBytes L 8) (\<lambda>bs. lret (of_nat (le_nat bs)))"

text \<open>
  The conversion of a \<open>float\<close> to a \<open>double\<close>, on their bits: the exponent is biased by 1023
  instead of 127, a subnormal number is normalised, a NaN is made quiet.
\<close>

function normalise :: "nat \<Rightarrow> nat \<Rightarrow> nat \<times> nat" where
  "normalise e f = (if f = 0 \<or> 2 ^ 23 \<le> f then (e, f) else normalise (e - 1) (2 * f))"
  by pat_completeness auto
termination by (relation "measure (\<lambda>(e, f). 2 ^ 23 - f)") auto

definition float_to_double :: "u32 \<Rightarrow> word_t" where
  "float_to_double w =
     (let sgn = drop_bit 31 w; e = unat (take_bit 8 (drop_bit 23 w)); f = unat (take_bit 23 w);
          (e', f') = (if e = 255 then (2047, if f = 0 then 0 else f mod 2 ^ 22 + 2 ^ 22)
                      else if e = 0 then (if f = 0 then (0, 0) else let (k, g) = normalise 897 f in (k, g - 2 ^ 23))
                      else (e + 896, f))
      in push_bit 63 (ucast sgn) OR push_bit 52 (of_nat e') OR push_bit 29 (of_nat f'))"

section \<open>Pushing\<close>

text \<open>Writing past the stack is undefined.\<close>

definition push_item :: "vkind \<Rightarrow> word_t \<Rightarrow> unit litop" where
  "push_item k w t s =
     (if ls_maxDepth t \<le> int (length (ls_stk t)) then Inl (Fault ''literal stack overflow'')
      else Inr ((), t\<lparr>ls_stk := ls_stk t @ [(k, w)]\<rparr>, s))"

definition PushTaggedInt :: "int \<Rightarrow> unit litop" where "PushTaggedInt n = push_item VK_TAGINT (INT_ml n)"
definition PushRawInt64 :: "int \<Rightarrow> unit litop" where "PushRawInt64 n = push_item VK_RAWINT (of_int n)"
definition PushReal32 :: "u32 \<Rightarrow> unit litop" where "PushReal32 f = push_item VK_REAL32 (float_to_double f)"
definition PushReal64 :: "word_t \<Rightarrow> unit litop" where "PushReal64 d = push_item VK_REAL64 d"
definition PushMLValue :: "word_t \<Rightarrow> unit litop" where "PushMLValue v = push_item VK_OBJ v"

text \<open>
  The upper \<open>sz\<close> items of the stack are the fields of a new object. Reading below the stack is
  undefined. \<open>sz\<close> comes from a byte or a 16-bit number.
\<close>

definition pop_fields :: "nat \<Rightarrow> word_t list litop" where
  "pop_fields sz t s =
     (let k = length (ls_stk t) in
      if k < sz then Inl (Fault ''literal stack underflow'')
      else Inr (map snd (drop (k - sz) (ls_stk t)), t\<lparr>ls_stk := take (k - sz) (ls_stk t)\<rparr>, s))"

definition alloc_fields :: "word_t \<Rightarrow> nat \<Rightarrow> word_t litop" where
  "alloc_fields desc sz = lbind (pop_fields sz) (\<lambda>ws. lvm (lift_rt (\<lambda>r. Inr (alloc_obj desc ws r))))"

definition PushRecord :: "env \<Rightarrow> globals \<Rightarrow> lit_slots \<Rightarrow> nat \<Rightarrow> unit litop" where
  "PushRecord E G L sz =
     lthen (CheckGC E G L (8 * (of_nat sz + 1)))
       (lbind (alloc_fields (MAKE_DESC (of_nat sz) DTAG_record) sz) PushMLValue)"

definition PushRawRecord :: "env \<Rightarrow> globals \<Rightarrow> lit_slots \<Rightarrow> nat \<Rightarrow> unit litop" where
  "PushRawRecord E G L sz =
     lthen (CheckGC E G L (8 * (of_nat sz + 1)))
       (lbind (alloc_fields (MAKE_DESC (of_nat sz) DTAG_raw) sz) PushMLValue)"

definition PushMixedRecord :: "env \<Rightarrow> globals \<Rightarrow> lit_slots \<Rightarrow> nat \<Rightarrow> nat \<Rightarrow> unit litop" where
  "PushMixedRecord E G L ptrLen rawLen =
     (let sz = ptrLen + rawLen in
      lthen (CheckGC E G L (8 * (of_nat sz + 1)))
        (lbind (alloc_fields (MAKE_MIXED_DESC (of_nat ptrLen) (of_nat rawLen)) sz) PushMLValue))"

text \<open>
  \<open>len\<close> is an \<open>int\<close>; \<open>len + 8\<close> overflows for the largest ones, and \<open>memcpy\<close> with a negative
  one is undefined.
\<close>

definition string_data :: "env \<Rightarrow> globals \<Rightarrow> lit_slots \<Rightarrow> word_t \<Rightarrow> word_t litop" where
  "string_data E G L szw =
     (let desc = MAKE_DESC szw DTAG_raw in
      if SMALL_OBJ_SZW < szw then
        (let szb = 8 * (szw + 1) in
         lbind (lvm (gen1 STRING_INDX)) (\<lambda>ap.
         lthen (if IFGC ap szb then
                  lthen (lvm (set_req STRING_INDX (\<lambda>x. x + szb)))
                    (lthen (lit_GC E G L 1) (lvm (set_req STRING_INDX (\<lambda>_. 0))))
                else lret ())
           (lvm (alloc_gen1 STRING_INDX False desc szw))))
      else lthen (CheckGC E G L (8 * (szw + 1 + 3))) (lvm (small_obj desc szw)))"

definition PushString :: "env \<Rightarrow> globals \<Rightarrow> lit_slots \<Rightarrow> int \<Rightarrow> unit litop" where
  "PushString E G L len =
     (if len < 0 then lfail (Fault ''negative length'')
      else if INT_MAX < len + 8 then lfail (Fault ''signed overflow'')
      else let n = nat len; szw = BYTES_TO_WORDS (of_nat n + 1) in
        lbind (string_data E G L szw) (\<lambda>data.
        lthen (lvm (st (data + 8 * (szw - 1)) 0))
       (lthen (\<lambda>t. lvm (upd_rt (upd_mem (\<lambda>m. put_bytes data (bytes_at (m (sl_code L) + of_nat (ls_pc t)) n m) m))) t)
       (lthen (\<lambda>t s. Inr ((), t\<lparr>ls_pc := ls_pc t + n\<rparr>, s))
       (lbind (lvm (seq_hdr DESC_string data (of_nat n))) PushMLValue)))))"

definition PushVector :: "env \<Rightarrow> globals \<Rightarrow> lit_slots \<Rightarrow> nat \<Rightarrow> unit litop" where
  "PushVector E G L len =
     (if 512 < len then lfail (Die ''VEC unimplemented'')
      else lthen (CheckGC E G L (8 * (of_nat len + 1 + 3)))
        (lbind (alloc_fields (MAKE_DESC (of_nat len) DTAG_vec_data) len) (\<lambda>data.
         lbind (lvm (seq_hdr DESC_polyvec data (of_nat len))) PushMLValue)))"

section \<open>Instructions\<close>

text \<open>Opcodes are below 256. The operand of an instruction follows the opcode.\<close>

definition op_small_int :: "int \<Rightarrow> unit litop" where
  "op_small_int opc =
     (if opc < 0x20 then PushTaggedInt opc
      else if opc < 0x40 then PushTaggedInt (opc - 64)
      else if opc < 0x60 then PushRawInt64 (opc - 64)
      else PushRawInt64 (opc - 128))"

definition op_number :: "lit_slots \<Rightarrow> int \<Rightarrow> unit litop" where
  "op_number L opc =
     (if opc = 0x80 then lbind (GetI8Arg L) PushTaggedInt
      else if opc = 0x81 then lbind (GetI16Arg L) PushTaggedInt
      else if opc = 0x82 then lbind (GetI32Arg L) PushTaggedInt
      else if opc = 0x83 then lbind (GetI64Arg L) PushTaggedInt
      else if opc = 0x84 then lbind (GetR32Arg L) PushReal32
      else if opc = 0x85 then lbind (GetR64Arg L) PushReal64
      else lfail (Die ''BIGINT -- reserved for future use''))"

definition op_string :: "env \<Rightarrow> globals \<Rightarrow> lit_slots \<Rightarrow> int \<Rightarrow> unit litop" where
  "op_string E G L opc =
     (if opc = 0x88 then PushMLValue (G_string0 G)
      else if opc = 0x89 then lbind (GetU8Arg L) (PushString E G L)
      else if opc = 0x8A then lbind (GetU16Arg L) (PushString E G L)
      else if opc = 0x8B then lbind (GetU32Arg L) (\<lambda>n. PushString E G L (sint n))
      else lfail (Die ''UTF8 -- reserved for future use''))"

definition op_rawint :: "lit_slots \<Rightarrow> int \<Rightarrow> unit litop" where
  "op_rawint L opc =
     (if opc \<in> {0x90, 0x94, 0x95, 0x98, 0x99, 0x9A} then lfail (Die ''RAWINT -- reserved for future use'')
      else if opc = 0x9C then lbind (GetI8Arg L) PushRawInt64
      else if opc = 0x9D then lbind (GetI16Arg L) PushRawInt64
      else if opc = 0x9E then lbind (GetI32Arg L) PushRawInt64
      else if opc = 0x9F then lbind (GetI64Arg L) PushRawInt64
      else lfail (Die ''bogus literal opcode''))"

definition op_record :: "env \<Rightarrow> globals \<Rightarrow> lit_slots \<Rightarrow> int \<Rightarrow> unit litop" where
  "op_record E G L opc =
     (if opc \<le> 0xAD then PushRecord E G L (nat (opc mod 16) + 1)
      else if opc = 0xAE then lbind (GetU8Arg L) (\<lambda>n. PushRecord E G L (nat n))
      else if opc = 0xAF then lbind (GetU16Arg L) (\<lambda>n. PushRecord E G L (nat n))
      else if opc \<le> 0xBD then PushRawRecord E G L (nat (opc mod 16) + 1)
      else if opc = 0xBE then lbind (GetU8Arg L) (\<lambda>n. PushRawRecord E G L (nat n))
      else if opc = 0xBF then lbind (GetU16Arg L) (\<lambda>n. PushRawRecord E G L (nat n))
      else if opc = 0xC0 then lbind (GetU8Arg L) (\<lambda>p. lbind (GetU8Arg L) (\<lambda>r. PushMixedRecord E G L (nat p) (nat r)))
      else if opc = 0xC1 then lbind (GetU16Arg L) (\<lambda>p. lbind (GetU16Arg L) (\<lambda>r. PushMixedRecord E G L (nat p) (nat r)))
      else lfail (Die ''bogus literal opcode''))"

definition op_vector :: "env \<Rightarrow> globals \<Rightarrow> lit_slots \<Rightarrow> int \<Rightarrow> unit litop" where
  "op_vector E G L opc =
     (if opc = 0xC8 then PushMLValue (G_vector0 G)
      else if opc = 0xC9 then lbind (GetU8Arg L) (\<lambda>n. PushVector E G L (nat n))
      else if opc = 0xCA then lbind (GetU16Arg L) (\<lambda>n. PushVector E G L (nat n))
      else if 0xD8 \<le> opc \<and> opc \<le> 0xE3 then lfail (Die ''RAWVEC -- reserved for future use'')
      else lfail (Die ''bogus literal opcode''))"

definition lit_store :: "nat \<Rightarrow> unit litop" where
  "lit_store slot t s =
     (if ls_stk t = [] then Inl (Fault ''literal stack underflow'')
      else if length (ls_saved t) \<le> slot then Inl (Fault ''slot out of range'')
      else Inr ((), t\<lparr>ls_saved := (ls_saved t)[slot := snd (last (ls_stk t))]\<rparr>, s))"

definition lit_load :: "nat \<Rightarrow> unit litop" where
  "lit_load slot t s =
     (if length (ls_saved t) \<le> slot then Inl (Fault ''slot out of range'')
      else PushMLValue (ls_saved t ! slot) t s)"

definition op_slot :: "lit_slots \<Rightarrow> int \<Rightarrow> unit litop" where
  "op_slot L opc =
     (if opc \<le> 0xEE then lit_store (nat (opc mod 8))
      else if opc = 0xEF then lbind (GetU16Arg L) (\<lambda>n. lit_store (nat n))
      else if opc \<le> 0xF6 then lit_load (nat (opc mod 8))
      else lbind (GetU16Arg L) (\<lambda>n. lit_load (nat n)))"

text \<open>The result of \<open>RETURN\<close> is the item on top of the stack.\<close>

definition lit_return :: "word_t option litop" where
  "lit_return t s =
     (if ls_stk t = [] then Inl (Fault ''literal stack underflow'') else Inr (Some (snd (last (ls_stk t))), t, s))"

definition lit_step :: "env \<Rightarrow> globals \<Rightarrow> lit_slots \<Rightarrow> word_t option litop" where
  "lit_step E G L =
     lbind (code_byte L) (\<lambda>b.
     let opc = uint b; continue = (\<lambda>f. lthen f (lret None)) in
     if opc \<le> 0x7F then continue (op_small_int opc)
     else if opc \<le> 0x87 then continue (op_number L opc)
     else if opc \<le> 0x8F then continue (op_string E G L opc)
     else if opc \<le> 0x9F then continue (op_rawint L opc)
     else if opc \<le> 0xC7 then continue (op_record E G L opc)
     else if opc \<le> 0xE7 then continue (op_vector E G L opc)
     else if opc \<le> 0xF7 then continue (op_slot L opc)
     else if opc \<le> 0xFE then lfail (Die ''CONCAT -- reserved for future use'')
     else lit_return)"

fun lit_loop :: "nat \<Rightarrow> env \<Rightarrow> globals \<Rightarrow> lit_slots \<Rightarrow> word_t litop" where
  "lit_loop 0 E G L t s = Inl NoFuel"
| "lit_loop (Suc fuel) E G L t s =
     lbind (lit_step E G L) (\<lambda>r. case r of Some v \<Rightarrow> lret v | None \<Rightarrow> lit_loop fuel E G L) t s"

section \<open>BuildLiterals\<close>

abbreviation (input) V1_MAGIC :: u32 where "V1_MAGIC \<equiv> 0x19981022"
abbreviation (input) V2_MAGIC :: u32 where "V2_MAGIC \<equiv> 0x20190921"
abbreviation (input) V3_MAGIC :: u32 where "V3_MAGIC \<equiv> 0x20260912"

definition init_lit :: "int \<Rightarrow> int \<Rightarrow> nat \<Rightarrow> lit_state" where
  "init_lit maxDepth maxSaved pc =
     \<lparr>ls_pc = pc, ls_stk = [], ls_saved = replicate (nat maxSaved) ML_unit, ls_maxDepth = maxDepth, ls_maxSaved = maxSaved\<rparr>"

text \<open>The rest of the header and the interpreter of version 3.\<close>

definition BuildLiteralsV3 :: "env \<Rightarrow> globals \<Rightarrow> lit_slots \<Rightarrow> int \<Rightarrow> word_t litop" where
  "BuildLiteralsV3 E G L maxDepth =
     lbind (GetU32Arg L) (\<lambda>wordSz.
     if wordSz \<noteq> 64 then lfail (Die ''expected word size = 64'')
     else lbind (GetU32Arg L) (\<lambda>maxSaved t.
       lit_loop (env_fuel E) E G L (init_lit maxDepth (sint maxSaved) (ls_pc t))))"

text \<open>\<open>len\<close> is an \<open>int\<close> that is compared with a \<open>size_t\<close>.\<close>

definition BuildLiterals :: "env \<Rightarrow> globals \<Rightarrow> lit_slots \<Rightarrow> addr_t \<Rightarrow> int \<Rightarrow> word_t vmop" where
  "BuildLiterals E G L code len s =
     (if (of_int len :: word_t) < 17 then Inr (ML_unit, s)
      else rbind (lthen (lvm (st (sl_code L) code))
        (lbind (GetU32Arg L) (\<lambda>magic.
         lbind (GetU32Arg L) (\<lambda>maxDepth t.
         if magic = V1_MAGIC then lvm (BuildLiteralsV1 E G L code (ls_pc t) len) t
         else if magic = V2_MAGIC then lvm (BuildLiteralsV2 E G L code (ls_pc t)) t
         else if magic \<noteq> V3_MAGIC then lfail (Die ''bogus literal magic number'') t
         else BuildLiteralsV3 E G L (sint maxDepth) t))) (init_lit 0 0 0) s) (\<lambda>(v, _, s). Inr (v, s)))"

end
