(* ===== verification/Byte_Mem.thy ===== *)
theory Byte_Mem
  imports Alloc_Laws Literals
begin

text \<open>
  Laws of the byte view of the word-addressed memory: a byte that is written is read back, the
  others keep their values, and so for sequences of bytes.
\<close>

section \<open>One byte\<close>

text \<open>The word that a byte is in, and its place there.\<close>

definition wbase :: "addr_t \<Rightarrow> addr_t" where "wbase a = a AND NOT 7"
definition boff :: "addr_t \<Rightarrow> nat" where "boff a = unat (a AND 7)"

lemma unat_wbase: "unat (wbase a) = unat a div 8 * 8"
proof -
  have "wbase a = a AND NOT (mask 3)" by (simp add: wbase_def mask_eq_exp_minus_1)
  then show ?thesis by (simp only: unat_and_not_mask) simp
qed

lemma boff_mod: "boff a = unat a mod 8"
proof -
  have "a AND 7 = take_bit 3 a" by (simp only: take_bit_eq_mask mask_eq_exp_minus_1) simp
  then have "boff a = take_bit 3 (unat a)" by (simp only: boff_def unsigned_take_bit_eq)
  then show ?thesis by (simp add: take_bit_eq_mod)
qed

lemma boff_less: "boff a < 8" by (simp add: boff_mod)

lemma addr_eqI: "wbase a = wbase c \<Longrightarrow> boff a = boff c \<Longrightarrow> a = c"
proof (rule word_unat_eq_iff [THEN iffD2])
  assume "wbase a = wbase c" "boff a = boff c"
  then have "unat a div 8 * 8 = unat c div 8 * 8" "unat a mod 8 = unat c mod 8" by (metis unat_wbase, simp only: boff_mod)
  then show "unat a = unat c" by (metis div_mult_mod_eq)
qed

lemma byte_at_eq: "byte_at a m = ucast (drop_bit (8 * boff a) (m (wbase a)))"
  unfolding byte_at_def wbase_def boff_def ..

lemma put_byte_eq: "put_byte a b m = m(wbase a := (m (wbase a) AND NOT (push_bit (8 * boff a) 0xff)) OR push_bit (8 * boff a) (ucast b))"
  unfolding put_byte_def wbase_def boff_def Let_def ..

lemma byte_at_bit: "bit (byte_at a m) n \<longleftrightarrow> n < 8 \<and> bit (m (wbase a)) (8 * boff a + n)"
  unfolding byte_at_eq bit_ucast_iff bit_drop_bit_eq comp_def by simp

lemma bit_ff: "bit (0xff :: word_t) i \<longleftrightarrow> i < 8"
proof -
  have "(0xff :: word_t) = mask 8" by (simp add: mask_eq_exp_minus_1)
  then show ?thesis by (simp only: bit_mask_iff) auto
qed

lemma put_byte_bit: "bit (put_byte a b m (wbase a)) n \<longleftrightarrow>
    (if 8 * boff a \<le> n \<and> n < 8 * boff a + 8 then bit b (n - 8 * boff a) else bit (m (wbase a)) n)"
proof -
  define k where "k = 8 * boff a"
  have k: "k \<le> 56" using boff_less [of a] by (simp add: k_def)
  have w: "n < 64" if "bit (m (wbase a)) n" using that bit_imp_le_length by force
  have l: "n - k < 8" if "bit b (n - k)" using that bit_imp_le_length by force
  show ?thesis
    unfolding put_byte_eq fun_upd_same bit_or_iff bit_and_iff bit_not_iff bit_push_bit_iff bit_ff bit_ucast_iff k_def [symmetric]
    using k w l by (cases "n < 64"; cases "k \<le> n") (auto simp: possible_bit_def)
qed

lemma byte_at_put_byte: "byte_at c (put_byte a b m) = (if c = a then b else byte_at c m)"
proof (cases "wbase c = wbase a")
  case True
  show ?thesis
  proof (rule bit_word_eqI)
    fix n assume n: "n < LENGTH(8)"
    have "c = a \<longleftrightarrow> boff c = boff a" using True addr_eqI by metis
    then have "8 * boff a \<le> 8 * boff c + n \<and> 8 * boff c + n < 8 * boff a + 8 \<longleftrightarrow> c = a" using n by auto
    then show "bit (byte_at c (put_byte a b m)) n = bit (if c = a then b else byte_at c m) n"
      unfolding byte_at_bit True put_byte_bit using n True by (auto simp: byte_at_bit)
  qed
next
  case False
  then have "put_byte a b m (wbase c) = m (wbase c)" by (simp add: put_byte_eq)
  then show ?thesis using False by (auto simp: byte_at_eq)
qed

lemma put_byte_out: "w \<noteq> wbase a \<Longrightarrow> put_byte a b m w = m w"
  by (simp add: put_byte_eq)

section \<open>Sequences of bytes\<close>

lemma bytes_at_length [simp]: "length (bytes_at a n m) = n"
  by (simp add: bytes_at_def)

lemma bytes_at_nth: "i < n \<Longrightarrow> bytes_at a n m ! i = byte_at (a + of_nat i) m"
  by (simp add: bytes_at_def)

lemma byte_at_put_bytes_out: "(\<And>i. i < length bs \<Longrightarrow> c \<noteq> a + of_nat i) \<Longrightarrow> byte_at c (put_bytes a bs m) = byte_at c m"
proof (induction bs arbitrary: a m)
  case (Cons b bs)
  have "c \<noteq> a + 1 + of_nat i" if "i < length bs" for i using Cons.prems [of "Suc i"] that by (simp add: add.assoc)
  moreover have "c \<noteq> a" using Cons.prems [of 0] by simp
  ultimately show ?case using Cons.IH by (simp add: byte_at_put_byte)
qed simp

lemma byte_at_put_bytes_in:
  "length bs < 2 ^ 64 \<Longrightarrow> i < length bs \<Longrightarrow> byte_at (a + of_nat i) (put_bytes a bs m) = bs ! i"
proof (induction bs arbitrary: a m i)
  case (Cons b bs)
  show ?case
  proof (cases i)
    case 0
    have "a \<noteq> a + 1 + of_nat j" if "j < length bs" for j
    proof -
      have "Suc j < 2 ^ 64" using that Cons.prems(1) by simp
      then have "unat (of_nat (Suc j) :: addr_t) \<noteq> 0" by (simp only: unat_of_nat) simp
      then have "(of_nat (Suc j) :: addr_t) \<noteq> 0" by (metis unat_0)
      then show ?thesis by (simp add: add.assoc)
    qed
    then show ?thesis using 0 byte_at_put_bytes_out [of bs a "a + 1"] by (simp add: byte_at_put_byte)
  next
    case (Suc j)
    then show ?thesis using Cons.IH [of j "a + 1"] Cons.prems by (simp add: add.assoc)
  qed
qed simp

lemma bytes_at_put_bytes: "length bs < 2 ^ 64 \<Longrightarrow> bytes_at a (length bs) (put_bytes a bs m) = bs"
  by (intro nth_equalityI) (simp_all add: bytes_at_nth byte_at_put_bytes_in)

lemma put_bytes_out: "(\<And>i. i < length bs \<Longrightarrow> w \<noteq> wbase (a + of_nat i)) \<Longrightarrow> put_bytes a bs m w = m w"
proof (induction bs arbitrary: a m)
  case (Cons b bs)
  have "w \<noteq> wbase (a + 1 + of_nat i)" if "i < length bs" for i using Cons.prems [of "Suc i"] that by (simp add: add.assoc)
  moreover have "w \<noteq> wbase a" using Cons.prems [of 0] by simp
  ultimately show ?case using Cons.IH by (simp add: put_byte_out)
qed simp

lemma byte_at_cong: "m (wbase a) = m' (wbase a) \<Longrightarrow> byte_at a m = byte_at a m'"
  by (simp add: byte_at_eq)

lemma bytes_at_cong: "(\<And>i. i < n \<Longrightarrow> m (wbase (a + of_nat i)) = m' (wbase (a + of_nat i))) \<Longrightarrow> bytes_at a n m = bytes_at a n m'"
  by (auto simp: bytes_at_def intro!: byte_at_cong)

text \<open>The word that holds byte \<open>i\<close> of an aligned block.\<close>

lemma aligned_byte:
  assumes "unat p mod 8 = 0" "unat p + i < 2 ^ 64"
  shows "wbase (p + of_nat i) = at_ix p (i div 8)" "boff (p + of_nat i) = i mod 8"
proof -
  obtain k where k: "unat p = 8 * k" using assms(1) by (metis dvd_eq_mod_eq_0 dvd_def)
  have "i < 2 ^ 64" using assms(2) by linarith
  then have "unat (of_nat i :: addr_t) = i" by (simp add: unat_of_nat)
  then have "unat (p + of_nat i) = (unat p + i) mod 2 ^ 64" by (simp only: unat_word_ariths(1)) simp
  then have u: "unat (p + of_nat i) = unat p + i" using mod_less [OF assms(2)] by (rule trans)
  have "unat (wbase (p + of_nat i)) = (unat p + i) div 8 * 8" unfolding unat_wbase u ..
  also have "\<dots> = unat p + 8 * (i div 8)" unfolding k by simp
  also have "\<dots> = unat (at_ix p (i div 8))" using assms(2) by (subst unat_at_ix) simp_all
  finally show "wbase (p + of_nat i) = at_ix p (i div 8)" by (simp only: word_unat_eq_iff)
  show "boff (p + of_nat i) = i mod 8" unfolding boff_mod u k by simp
qed

lemma word_of_nat_inj_64: "a < 2 ^ 64 \<Longrightarrow> b < 2 ^ 64 \<Longrightarrow> (of_nat a :: addr_t) = of_nat b \<Longrightarrow> a = b"
  by (simp add: word_unat_eq_iff unat_of_nat)

lemma bytes_at_Suc: "bytes_at a (Suc n) m = bytes_at a n m @ [byte_at (a + of_nat n) m]"
  by (simp add: bytes_at_def)

lemma at_ix_inj_below:
  assumes b: "unat p + 8 * n < 2 ^ 64" and i: "i < n" "j < n" and e: "at_ix p i = at_ix p j"
  shows "i = j"
proof -
  have "unat (at_ix p k) = unat p + 8 * k" if "k < n" for k
  proof (rule unat_at_ix, rule le_less_trans [OF _ b])
   show "unat p + 8 * k \<le> unat p + 8 * n" using that by simp
  qed
  from this [OF i(1)] this [OF i(2)] e have "unat p + 8 * i = unat p + 8 * j" by (simp only:)
  then show ?thesis by simp
qed

lemma bytes_at_add: "bytes_at a (n + k) m = bytes_at a n m @ bytes_at (a + of_nat n) k m"
  by (rule nth_equalityI) (auto simp: bytes_at_nth nth_append add.assoc simp flip: of_nat_add)

end
