(* ===== verification/Literal_Code.thy ===== *)
theory Literal_Code
  imports Literals
begin

text \<open>
  The producer of the literal bytecode, \<open>compiler/CPS/main/literal-bytecode.sml\<close>, and a
  reference semantics of its instructions: a machine on trees of literals without a heap. The
  run-time interpreter has to agree with both.
\<close>

section \<open>Instructions and their encoding\<close>

text \<open>
  The constructors of \<open>LiteralBytecode.t\<close>. A real literal is given by the bits of its double,
  which \<open>Real64ToBits\<close> computes.
\<close>

datatype instr = INT63 int | RAWINT64 int | STR8 "byte_t list" | REAL64 word_t | RECORD nat | RAWBLOCK nat
  | MIXED nat nat | VEC nat | SAVE nat | LOAD nat | RETURN

text \<open>\<open>add{Large,U,}Int{8,16,32,64}\<close>: the low bytes of a number, most significant first.\<close>

fun be_bytes :: "nat \<Rightarrow> int \<Rightarrow> byte_t list" where
  "be_bytes 0 n = []"
| "be_bytes (Suc k) n = of_int (n div 256 ^ k) # be_bytes k n"

text \<open>\<open>encINT63\<close> and \<open>encINT64\<close> choose the shortest form.\<close>

definition enc_int :: "(int \<Rightarrow> byte_t) \<Rightarrow> (int \<Rightarrow> byte_t) \<Rightarrow> byte_t list \<Rightarrow> int \<Rightarrow> byte_t list" where
  "enc_int small neg ops n =
     (if 0 \<le> n \<and> n \<le> 31 then [small n]
      else if n < 0 \<and> - 32 \<le> n then [neg n]
      else if - 128 \<le> n \<and> n \<le> 127 then ops ! 0 # be_bytes 1 n
      else if - 32768 \<le> n \<and> n \<le> 32767 then ops ! 1 # be_bytes 2 n
      else if - 2147483648 \<le> n \<and> n \<le> 2147483647 then ops ! 2 # be_bytes 4 n
      else ops ! 3 # be_bytes 8 n)"

definition encINT63 :: "int \<Rightarrow> byte_t list" where
  "encINT63 = enc_int (\<lambda>n. of_int n) (\<lambda>n. of_int (0x40 + n)) [0x80, 0x81, 0x82, 0x83]"
definition encINT64 :: "int \<Rightarrow> byte_t list" where
  "encINT64 = enc_int (\<lambda>n. of_int (n + 0x40)) (\<lambda>n. of_int (0x80 + n)) [0x9C, 0x9D, 0x9E, 0x9F]"

definition encREAL64 :: "word_t \<Rightarrow> byte_t list" where "encREAL64 r = 0x85 # be_bytes 8 (uint r)"

definition encSTR8 :: "byte_t list \<Rightarrow> byte_t list" where
  "encSTR8 s =
     (let len = length s in
      if s = [] then [0x88]
      else (if len \<le> 255 then 0x89 # be_bytes 1 (int len)
            else if len < 65535 then 0x8A # be_bytes 2 (int len)
            else 0x8B # be_bytes 4 (int len)) @ s)"

text \<open>\<open>encRECORD\<close> and \<open>encRAW\<close>; \<open>None\<close> is a call of \<open>bug\<close>.\<close>

definition enc_len :: "int \<Rightarrow> byte_t \<Rightarrow> byte_t \<Rightarrow> nat \<Rightarrow> byte_t list option" where
  "enc_len base opb oph len =
     (if len \<le> 14 then Some [of_int (base + int len)]
      else if len \<le> 255 then Some (opb # be_bytes 1 (int len))
      else if len \<le> 65535 then Some (oph # be_bytes 2 (int len))
      else None)"

definition encRECORD :: "nat \<Rightarrow> byte_t list option" where "encRECORD = enc_len 0x9F 0xAE 0xAF"
definition encRAW :: "nat \<Rightarrow> byte_t list option" where "encRAW = enc_len 0xAF 0xBE 0xBF"

definition encMIXED :: "nat \<Rightarrow> nat \<Rightarrow> byte_t list option" where
  "encMIXED ptrLen rawLen =
     (if ptrLen \<le> 255 \<and> rawLen \<le> 255 then Some (0xC0 # be_bytes 1 (int ptrLen) @ be_bytes 1 (int rawLen))
      else if ptrLen \<le> 65535 \<and> rawLen \<le> 65535 then Some (0xC1 # be_bytes 2 (int ptrLen) @ be_bytes 2 (int rawLen))
      else None)"

definition encVEC :: "nat \<Rightarrow> byte_t list option" where
  "encVEC len =
     (if len = 0 then Some [0xC8]
      else if len \<le> 255 then Some (0xC9 # be_bytes 1 (int len))
      else if len \<le> 65535 then Some (0xCA # be_bytes 2 (int len))
      else None)"

definition enc_slot :: "int \<Rightarrow> byte_t \<Rightarrow> nat \<Rightarrow> byte_t list" where
  "enc_slot base oph slot = (if slot \<le> 6 then [of_int (base + int slot)] else oph # be_bytes 2 (int slot))"

fun enc :: "instr \<Rightarrow> byte_t list option" where
  "enc (INT63 n) = Some (encINT63 n)"
| "enc (RAWINT64 n) = Some (encINT64 n)"
| "enc (REAL64 r) = Some (encREAL64 r)"
| "enc (STR8 s) = Some (encSTR8 s)"
| "enc (RECORD n) = encRECORD n"
| "enc (RAWBLOCK n) = encRAW n"
| "enc (MIXED p r) = encMIXED p r"
| "enc (VEC n) = encVEC n"
| "enc (SAVE i) = Some (enc_slot 0xE8 0xEF i)"
| "enc (LOAD i) = Some (enc_slot 0xF0 0xF7 i)"
| "enc RETURN = Some [0xff]"

fun enc_list :: "instr list \<Rightarrow> byte_t list option" where
  "enc_list [] = Some []"
| "enc_list (i # is) = (case enc i of None \<Rightarrow> None | Some bs \<Rightarrow> (case enc_list is of None \<Rightarrow> None | Some cs \<Rightarrow> Some (bs @ cs)))"

definition headerToBytes :: "int \<Rightarrow> int \<Rightarrow> byte_t list" where
  "headerToBytes maxDepth maxSaved = be_bytes 4 0x20260912 @ be_bytes 4 maxDepth @ be_bytes 4 64 @ be_bytes 4 maxSaved"

section \<open>Analysis of a program\<close>

text \<open>
  The first pass of \<open>analyse\<close>: it types the stack, with its top first, and computes the
  number of instructions and the maximal depth. \<open>None\<close> is a call of \<open>bug\<close>. The table maps a slot to the type of its value; slots are
  written once. The depth is not taken into account after an instruction that builds a record
  or vector, which is right if it has fields.
\<close>

datatype ty = TAG | RAW | PTR

fun isUniform :: "ty \<Rightarrow> bool" where "isUniform RAW = False" | "isUniform _ = True"
fun isRaw :: "ty \<Rightarrow> bool" where "isRaw PTR = False" | "isRaw _ = True"

fun popn :: "(ty \<Rightarrow> bool) \<Rightarrow> nat \<Rightarrow> ty list \<Rightarrow> ty list option" where
  "popn P 0 stk = Some stk"
| "popn P (Suc n) [] = None"
| "popn P (Suc n) (t # stk) = (if P t then popn P n stk else None)"

fun pass1 :: "instr list \<Rightarrow> ty list \<Rightarrow> (nat \<rightharpoonup> ty) \<Rightarrow> nat \<Rightarrow> nat option" where
  "pass1 [] stk tbl maxD = None"
| "pass1 (opc # code) stk tbl maxD =
     (let push = (\<lambda>t. pass1 code (t # stk) tbl (max (length stk + 1) maxD));
          make = (\<lambda>r. case r of None \<Rightarrow> None | Some stk' \<Rightarrow> pass1 code (PTR # stk') tbl maxD)
      in case opc of
        INT63 _ \<Rightarrow> push TAG
      | RAWINT64 _ \<Rightarrow> push RAW
      | STR8 _ \<Rightarrow> push PTR
      | REAL64 _ \<Rightarrow> push RAW
      | RECORD n \<Rightarrow> make (popn isUniform n stk)
      | RAWBLOCK n \<Rightarrow> make (popn isRaw n stk)
      | MIXED p r \<Rightarrow> make (case popn isRaw r stk of None \<Rightarrow> None | Some stk' \<Rightarrow> popn isUniform p stk')
      | VEC n \<Rightarrow> make (popn isUniform n stk)
      | SAVE i \<Rightarrow> (case stk of [] \<Rightarrow> None
          | t # _ \<Rightarrow> (case tbl i of Some _ \<Rightarrow> None | None \<Rightarrow> pass1 code stk (tbl(i \<mapsto> t)) maxD))
      | LOAD i \<Rightarrow> (case tbl i of None \<Rightarrow> None | Some t \<Rightarrow> push t)
      | RETURN \<Rightarrow> if code = [] \<and> stk = [PTR] then Some maxD else None)"

section \<open>The reference machine\<close>

text \<open>Literals as trees, and the items on the stack: values of ML and raw bits.\<close>

datatype lit = LInt int | LStr "byte_t list" | LRecord "lit list" | LRaw "word_t list" | LMixed "lit list" "word_t list" | LVector "lit list"

datatype mc_item = Uniform lit | Bits word_t

fun uniform :: "mc_item \<Rightarrow> lit option" where "uniform (Uniform l) = Some l" | "uniform (Bits w) = None"
fun bits :: "mc_item \<Rightarrow> word_t option" where
  "bits (Bits w) = Some w" | "bits (Uniform (LInt n)) = Some (INT_ml n)" | "bits (Uniform _) = None"

fun opts :: "'a option list \<Rightarrow> 'a list option" where
  "opts [] = Some []"
| "opts (None # xs) = None"
| "opts (Some x # xs) = (case opts xs of None \<Rightarrow> None | Some ys \<Rightarrow> Some (x # ys))"

record machine =
  mc_stk :: "mc_item list"          \<comment> \<open>bottom first\<close>
  mc_saved :: "nat \<rightharpoonup> mc_item"

definition mc_push :: "mc_item \<Rightarrow> machine \<Rightarrow> machine" where "mc_push x M = M\<lparr>mc_stk := mc_stk M @ [x]\<rparr>"

text \<open>Replacing the upper \<open>n\<close> items by what \<open>f\<close> makes of them.\<close>

definition mc_make :: "nat \<Rightarrow> (mc_item list \<Rightarrow> lit option) \<Rightarrow> machine \<Rightarrow> machine option" where
  "mc_make n f M =
     (let k = length (mc_stk M) - n in
      if length (mc_stk M) < n then None
      else case f (drop k (mc_stk M)) of None \<Rightarrow> None
        | Some l \<Rightarrow> Some (M\<lparr>mc_stk := take k (mc_stk M) @ [Uniform l]\<rparr>))"

definition mixed_lit :: "nat \<Rightarrow> mc_item list \<Rightarrow> lit option" where
  "mixed_lit p xs =
     (case (opts (map uniform (take p xs)), opts (map bits (drop p xs))) of
        (Some ls, Some ws) \<Rightarrow> Some (LMixed ls ws) | _ \<Rightarrow> None)"

fun mc_exec :: "instr \<Rightarrow> machine \<Rightarrow> machine option" where
  "mc_exec (INT63 n) M = Some (mc_push (Uniform (LInt n)) M)"
| "mc_exec (RAWINT64 n) M = Some (mc_push (Bits (of_int n)) M)"
| "mc_exec (STR8 s) M = Some (mc_push (Uniform (LStr s)) M)"
| "mc_exec (REAL64 r) M = Some (mc_push (Bits r) M)"
| "mc_exec (RECORD n) M = mc_make n (\<lambda>xs. map_option LRecord (opts (map uniform xs))) M"
| "mc_exec (RAWBLOCK n) M = mc_make n (\<lambda>xs. map_option LRaw (opts (map bits xs))) M"
| "mc_exec (MIXED p r) M = mc_make (p + r) (mixed_lit p) M"
| "mc_exec (VEC n) M = mc_make n (\<lambda>xs. map_option LVector (opts (map uniform xs))) M"
| "mc_exec (SAVE i) M = (if mc_stk M = [] then None else Some (M\<lparr>mc_saved := (mc_saved M)(i \<mapsto> last (mc_stk M))\<rparr>))"
| "mc_exec (LOAD i) M = (case mc_saved M i of None \<Rightarrow> None | Some x \<Rightarrow> Some (mc_push x M))"
| "mc_exec RETURN M = None"

text \<open>The result, with the maximal depth of the stack.\<close>

fun mc_run :: "instr list \<Rightarrow> machine \<Rightarrow> (lit \<times> nat) option" where
  "mc_run [] M = None"
| "mc_run (i # is) M =
     (if i = RETURN then (case mc_stk M of [Uniform l] \<Rightarrow> if is = [] then Some (l, 1) else None | _ \<Rightarrow> None)
      else case mc_exec i M of None \<Rightarrow> None
        | Some M' \<Rightarrow> (case mc_run is M' of None \<Rightarrow> None | Some (l, d) \<Rightarrow> Some (l, max (length (mc_stk M')) d)))"

definition mc_init :: machine where "mc_init = \<lparr>mc_stk = [], mc_saved = Map.empty\<rparr>"

section \<open>Soundness of the analysis\<close>

fun item_ty :: "mc_item \<Rightarrow> ty" where
  "item_ty (Bits w) = RAW" | "item_ty (Uniform (LInt n)) = TAG" | "item_ty (Uniform l) = PTR"

definition typed :: "ty list \<Rightarrow> (nat \<rightharpoonup> ty) \<Rightarrow> machine \<Rightarrow> bool" where
  "typed stk tbl M \<longleftrightarrow> stk = map item_ty (rev (mc_stk M)) \<and> tbl = (\<lambda>i. map_option item_ty (mc_saved M i))"

lemma opts_Some: "opts (map f xs) = Some ys \<longleftrightarrow> list_all2 (\<lambda>x y. f x = Some y) xs ys"
proof (induction xs arbitrary: ys)
  case (Cons x xs)
  show ?case
  proof (cases ys)
    case (Cons y zs)
    then show ?thesis using Cons.IH [of zs] by (cases "f x"; cases "opts (map f xs)") auto
  qed (cases "f x"; cases "opts (map f xs)"; auto)
qed auto

lemma opts_ex: "(\<And>x. x \<in> set xs \<Longrightarrow> f x \<noteq> None) \<Longrightarrow> \<exists>ys. opts (map f xs) = Some ys"
proof (induction xs)
  case (Cons x xs)
  then obtain y ys where "f x = Some y" "opts (map f xs) = Some ys" by fastforce
  then show ?case by simp
qed simp

lemma isUniform_item: "isUniform (item_ty x) \<longleftrightarrow> uniform x \<noteq> None"
  by (cases x rule: item_ty.cases) auto

lemma isRaw_item: "isRaw (item_ty x) \<longleftrightarrow> bits x \<noteq> None"
  by (cases x rule: item_ty.cases) auto

lemma popn_Some: "popn P n stk = Some stk' \<longleftrightarrow> n \<le> length stk \<and> stk' = drop n stk \<and> (\<forall>t \<in> set (take n stk). P t)"
  by (induction P n stk rule: popn.induct) auto

text \<open>Popping \<open>n\<close> types off the list is dropping the upper \<open>n\<close> items.\<close>

lemma typed_pop:
  assumes "typed stk tbl M" "popn P n stk = Some stk'"
  shows "n \<le> length (mc_stk M)" "stk' = map item_ty (rev (take (length (mc_stk M) - n) (mc_stk M)))"
    "\<forall>x \<in> set (drop (length (mc_stk M) - n) (mc_stk M)). P (item_ty x)"
  using assms by (auto simp: typed_def popn_Some drop_rev take_rev drop_map take_map)

lemma typed_make:
  assumes ty: "typed stk tbl M" and n: "n \<le> length (mc_stk M)" and f: "f (drop (length (mc_stk M) - n) (mc_stk M)) = Some l"
    and l: "item_ty (Uniform l) = PTR" and stk': "stk' = map item_ty (rev (take (length (mc_stk M) - n) (mc_stk M)))"
  shows "\<exists>M'. mc_make n f M = Some M' \<and> typed (PTR # stk') tbl M'"
  using assms by (auto simp: mc_make_def typed_def Let_def)

definition nonempty :: "instr \<Rightarrow> bool" where
  "nonempty i = (case i of RECORD n \<Rightarrow> 0 < n | RAWBLOCK n \<Rightarrow> 0 < n | VEC n \<Rightarrow> 0 < n | MIXED p r \<Rightarrow> 0 < p + r | _ \<Rightarrow> True)"

lemma exec_typed:
  assumes ty: "typed stk tbl M" and opc: "opc \<noteq> RETURN" "nonempty opc" and p: "pass1 (opc # code) stk tbl maxD = Some D" and d: "length stk \<le> maxD"
  shows "\<exists>M' stk' tbl' maxD'. mc_exec opc M = Some M' \<and> typed stk' tbl' M' \<and> pass1 code stk' tbl' maxD' = Some D
    \<and> length stk' \<le> maxD' \<and> maxD \<le> maxD'"
proof -
  have push: "\<exists>M' stk' tbl' maxD'. Some (mc_push x M) = Some M' \<and> typed stk' tbl' M' \<and> pass1 code stk' tbl' maxD' = Some D
    \<and> length stk' \<le> maxD' \<and> maxD \<le> maxD'" if "pass1 code (item_ty x # stk) tbl (max (length stk + 1) maxD) = Some D" for x
    using that ty by (intro exI [of _ "mc_push x M"] exI conjI) (auto simp: typed_def mc_push_def)
  have make: "\<exists>M' stk' tbl' maxD'. mc_make n f M = Some M' \<and> typed stk' tbl' M' \<and> pass1 code stk' tbl' maxD' = Some D
    \<and> length stk' \<le> maxD' \<and> maxD \<le> maxD'"
    if "pass1 code (PTR # stk') tbl maxD = Some D" "0 < n" "n \<le> length (mc_stk M)" "stk' = map item_ty (rev (take (length (mc_stk M) - n) (mc_stk M)))"
      "f (drop (length (mc_stk M) - n) (mc_stk M)) = Some l" "item_ty (Uniform l) = PTR" for n f l stk'
  proof -
    from typed_make [where n = n and f = f, OF ty that(3,5,6,4)] obtain M' where "mc_make n f M = Some M'" "typed (PTR # stk') tbl M'" by blast
    moreover have "length (PTR # stk') \<le> maxD" using that(2,3,4) d ty by (auto simp: typed_def)
    ultimately show ?thesis using that(1) by blast
  qed
  have uni: "\<exists>ls. opts (map uniform xs) = Some ls" if "\<forall>x \<in> set xs. isUniform (item_ty x)" for xs
    using that by (intro opts_ex) (simp add: isUniform_item)
  have raw: "\<exists>ws. opts (map bits xs) = Some ws" if "\<forall>x \<in> set xs. isRaw (item_ty x)" for xs
    using that by (intro opts_ex) (simp add: isRaw_item)
  show ?thesis
  proof (cases opc)
    case (RECORD n)
    with p obtain stk' where s: "popn isUniform n stk = Some stk'" "pass1 code (PTR # stk') tbl maxD = Some D" by (auto split: option.splits)
    note t = typed_pop [OF ty s(1)]
    from uni [OF t(3)] obtain ls where "opts (map uniform (drop (length (mc_stk M) - n) (mc_stk M))) = Some ls" by blast
    then show ?thesis using RECORD opc(2) make [OF s(2) _ t(1,2), of "\<lambda>xs. map_option LRecord (opts (map uniform xs))" "LRecord ls"] by (simp add: nonempty_def)
  next
    case (VEC n)
    with p obtain stk' where s: "popn isUniform n stk = Some stk'" "pass1 code (PTR # stk') tbl maxD = Some D" by (auto split: option.splits)
    note t = typed_pop [OF ty s(1)]
    from uni [OF t(3)] obtain ls where "opts (map uniform (drop (length (mc_stk M) - n) (mc_stk M))) = Some ls" by blast
    then show ?thesis using VEC opc(2) make [OF s(2) _ t(1,2), of "\<lambda>xs. map_option LVector (opts (map uniform xs))" "LVector ls"] by (simp add: nonempty_def)
  next
    case (RAWBLOCK n)
    with p obtain stk' where s: "popn isRaw n stk = Some stk'" "pass1 code (PTR # stk') tbl maxD = Some D" by (auto split: option.splits)
    note t = typed_pop [OF ty s(1)]
    from raw [OF t(3)] obtain ws where "opts (map bits (drop (length (mc_stk M) - n) (mc_stk M))) = Some ws" by blast
    then show ?thesis using RAWBLOCK opc(2) make [OF s(2) _ t(1,2), of "\<lambda>xs. map_option LRaw (opts (map bits xs))" "LRaw ws"] by (simp add: nonempty_def)
  next
    case (MIXED q r)
    with p obtain stk1 stk' where s: "popn isRaw r stk = Some stk1" "popn isUniform q stk1 = Some stk'" "pass1 code (PTR # stk') tbl maxD = Some D"
      by (auto split: option.splits)
    let ?k = "length (mc_stk M)" and ?xs = "drop (length (mc_stk M) - (q + r)) (mc_stk M)"
    note t = typed_pop [OF ty s(1)]
    have ty1: "typed stk1 tbl (M\<lparr>mc_stk := take (?k - r) (mc_stk M)\<rparr>)" using t(2) ty by (simp add: typed_def)
    note t1 = typed_pop [OF ty1 s(2)]
    have n: "q + r \<le> ?k" using t(1) t1(1) by simp
    have e: "take q ?xs = drop (?k - r - q) (take (?k - r) (mc_stk M))" "drop q ?xs = drop (?k - r) (mc_stk M)"
      using n by (simp_all add: take_drop min_def add.commute)
    have "stk' = map item_ty (rev (take (?k - (q + r)) (mc_stk M)))" using t1(2) n by (simp add: add.commute)
    moreover have "\<exists>ls. opts (map uniform (take q ?xs)) = Some ls" unfolding e using t1(3) n by (intro uni) simp
    moreover have "\<exists>ws. opts (map bits (drop q ?xs)) = Some ws" unfolding e using t(3) by (rule raw)
    ultimately show ?thesis using MIXED opc(2) make [OF s(3) _ n] by (auto simp: nonempty_def mixed_lit_def)
  next
    case (SAVE i)
    with p obtain t ts where s: "stk = t # ts" "tbl i = None" "pass1 code stk (tbl(i \<mapsto> t)) maxD = Some D" by (auto split: list.splits option.splits)
    then have "mc_stk M \<noteq> []" "t = item_ty (last (mc_stk M))" using ty by (auto simp: typed_def hd_rev simp flip: hd_map)
    then show ?thesis using SAVE s ty d by (intro exI [of _ "M\<lparr>mc_saved := (mc_saved M)(i \<mapsto> last (mc_stk M))\<rparr>"] exI conjI) (auto simp: typed_def)
  next
    case (LOAD i)
    with p obtain t where s: "tbl i = Some t" "pass1 code (t # stk) tbl (max (length stk + 1) maxD) = Some D" by (auto split: option.splits)
    then obtain x where "mc_saved M i = Some x" "t = item_ty x" using ty by (auto simp: typed_def)
    then show ?thesis using LOAD s push by simp
  qed (use p opc push in auto)
qed

lemma run_typed:
  assumes "pass1 code stk tbl maxD = Some D" "typed stk tbl M" "length stk \<le> maxD" "\<forall>i \<in> set code. nonempty i"
  shows "\<exists>l d. mc_run code M = Some (l, d) \<and> d \<le> D \<and> maxD \<le> D"
  using assms
proof (induction code arbitrary: stk tbl maxD M)
  case (Cons opc code)
  show ?case
  proof (cases "opc = RETURN")
    case True
    with Cons.prems obtain x where "code = []" "stk = [PTR]" "D = maxD" "mc_stk M = [x]" "item_ty x = PTR"
      by (auto simp: typed_def split: if_splits)
    then show ?thesis using True Cons.prems(3) by (cases x rule: item_ty.cases) auto
  next
    case False
    then obtain M' stk' tbl' maxD' where "mc_exec opc M = Some M'" "typed stk' tbl' M'" "pass1 code stk' tbl' maxD' = Some D"
      "length stk' \<le> maxD'" "maxD \<le> maxD'" using exec_typed [OF Cons.prems(2) _ _ Cons.prems(1,3)] Cons.prems(4) by auto
    moreover have "length (mc_stk M') = length stk'" using \<open>typed stk' tbl' M'\<close> by (simp add: typed_def)
    ultimately show ?thesis using False Cons.IH [of stk' tbl' maxD' M'] Cons.prems(4) by fastforce
  qed
qed simp

section \<open>Property\<close>

text \<open>C11. The analysis of a literal program is sound if no record, vector or block of the program is
  empty: an accepted program runs on the reference machine to a literal, and its stack never
  has more items than the computed depth. With an empty vector the depth can be too small: the
  program of a record that holds an empty vector needs one item and is given none.\<close>

theorem literal_types:
  assumes "\<forall>i \<in> set code. nonempty i" "pass1 code [] Map.empty 0 = Some D"
  shows "(\<exists>l d. mc_run code mc_init = Some (l, d) \<and> d \<le> D)
    \<and> pass1 [VEC 0, RECORD 1, RETURN] [] Map.empty 0 = Some 0
    \<and> mc_run [VEC 0, RECORD 1, RETURN] mc_init = Some (LRecord [LVector []], 1)"
proof -
  have "typed [] Map.empty mc_init" by (simp add: typed_def mc_init_def)
  from run_typed [OF assms(2) this] assms(1) show ?thesis
    by (auto simp: numeral_eq_Suc mc_init_def mc_make_def)
qed

text \<open>A record of a shared string, a number and a mixed record that shares the string.\<close>

definition ex_literals :: "instr list" where
  "ex_literals = [STR8 [97, 98, 99], SAVE 0, INT63 1000, LOAD 0, RAWINT64 (- 7), MIXED 1 1, RECORD 3, RETURN]"

theorem literal_types_witness:
  "pass1 ex_literals [] Map.empty 0 = Some 4 \<and> (\<exists>l d. mc_run ex_literals mc_init = Some (l, d) \<and> d \<le> 4)"
proof -
  have p: "pass1 ex_literals [] Map.empty 0 = Some 4" by (simp add: ex_literals_def numeral_eq_Suc)
  moreover have "\<forall>i \<in> set ex_literals. nonempty i" by (simp add: ex_literals_def nonempty_def)
  ultimately show ?thesis using literal_types [of ex_literals 4] by blast
qed

end
