(* ===== verification/Literal_Decode.thy ===== *)
theory Literal_Decode
  imports Byte_Mem Literal_Code
begin

text \<open>
  The interpreter reads what the encoder writes: the first step of the interpreter on the bytes
  of an instruction is the operation of that instruction, with the program counter past it.
\<close>

section \<open>Reading the code\<close>

definition holds_code :: "lit_slots \<Rightarrow> byte_t list \<Rightarrow> vm \<Rightarrow> bool" where
  "holds_code L prog s \<longleftrightarrow> bytes_at (rt_mem (vm_rt s) (sl_code L)) (length prog) (rt_mem (vm_rt s)) = prog"

lemma code_byte_eq:
  assumes "holds_code L prog s" "drop (ls_pc t) prog = b # rest"
  shows "code_byte L t s = Inr (b, t\<lparr>ls_pc := ls_pc t + 1\<rparr>, s)"
proof -
  have l: "ls_pc t < length prog" using assms(2) by (metis drop_all leI list.distinct(1))
  then have "byte_at (rt_mem (vm_rt s) (sl_code L) + of_nat (ls_pc t)) (rt_mem (vm_rt s)) = prog ! ls_pc t"
    using assms(1) bytes_at_nth by (metis holds_code_def)
  moreover have "prog ! ls_pc t = b" using assms(2) l by (metis nth_via_drop)
  ultimately show ?thesis by (simp add: code_byte_def Let_def)
qed

lemma drop_next: "drop n xs = ys @ zs \<Longrightarrow> drop (n + length ys) xs = zs"
  by (metis add.commute append_eq_conv_conj drop_drop)

lemma GetBytes_eq:
  assumes "holds_code L prog s" "drop (ls_pc t) prog = bs @ rest"
  shows "GetBytes L (length bs) t s = Inr (rev bs, t\<lparr>ls_pc := ls_pc t + length bs\<rparr>, s)"
  using assms(2)
proof (induction bs arbitrary: t)
  case (Cons b bs)
  let ?t = "t\<lparr>ls_pc := ls_pc t + 1\<rparr>"
  have "drop (ls_pc ?t) prog = bs @ rest" using Cons.prems drop_next [of "ls_pc t" prog "[b]" "bs @ rest"] by simp
  from Cons.IH [OF this] code_byte_eq [OF assms(1)] Cons.prems show ?case by (simp add: lit_defs)
qed simp

section \<open>Numbers\<close>

lemma be_bytes_length [simp]: "length (be_bytes k n) = k"
  by (induction k) auto

lemma le_nat_append: "le_nat (xs @ ys) = le_nat xs + 256 ^ length xs * le_nat ys"
  by (induction xs) (simp_all add: algebra_simps)

lemma le_nat_be: "le_nat (rev (be_bytes k n)) = nat (n mod 256 ^ k)"
proof (induction k)
  case (Suc k)
  have b: "unat (of_int (n div 256 ^ k) :: byte_t) = nat (n div 256 ^ k mod 256)" by (simp add: unat_eq_nat_uint uint_word_of_int_eq take_bit_eq_mod)
  have "n mod 256 ^ Suc k = n mod 256 ^ k + 256 ^ k * (n div 256 ^ k mod 256)"
    by (simp add: zmod_zmult2_eq mult.commute [of 256] add.commute)
  then have "nat (n mod 256 ^ Suc k) = nat (n mod 256 ^ k) + 256 ^ k * nat (n div 256 ^ k mod 256)"
    by (simp add: nat_add_distrib nat_mult_distrib nat_power_eq)
  then show ?case using Suc by (simp add: le_nat_append b)
qed simp

lemma of_le_nat: "LENGTH('a::len) = 8 * k \<Longrightarrow> (of_nat (le_nat (rev (be_bytes k n))) :: 'a word) = of_int n"
proof -
  assume l: "LENGTH('a) = 8 * k"
  have "(256 :: int) ^ k = 2 ^ LENGTH('a)" unfolding l power_mult by simp
  then have "(of_int (n mod 256 ^ k) :: 'a word) = of_int n" by (simp add: word_of_int_eq_iff take_bit_eq_mod)
  then show ?thesis unfolding le_nat_be by (simp add: of_nat_nat)
qed

lemma sint_word_of_int: "LENGTH('a::len) = Suc k \<Longrightarrow> - (2 ^ k) \<le> n \<Longrightarrow> n < 2 ^ k \<Longrightarrow> sint (word_of_int n :: 'a word) = n"
  by (simp add: sint_sbintrunc' signed_take_bit_int_eq_self)

lemma get_args:
  assumes c: "holds_code L prog s"
  shows "drop (ls_pc t) prog = be_bytes 1 n @ rest \<Longrightarrow> - 128 \<le> n \<Longrightarrow> n < 128 \<Longrightarrow> GetI8Arg L t s = Inr (n, t\<lparr>ls_pc := ls_pc t + 1\<rparr>, s)"
    "drop (ls_pc t) prog = be_bytes 1 n @ rest \<Longrightarrow> 0 \<le> n \<Longrightarrow> n < 256 \<Longrightarrow> GetU8Arg L t s = Inr (n, t\<lparr>ls_pc := ls_pc t + 1\<rparr>, s)"
    "drop (ls_pc t) prog = be_bytes 2 n @ rest \<Longrightarrow> - 32768 \<le> n \<Longrightarrow> n < 32768 \<Longrightarrow> GetI16Arg L t s = Inr (n, t\<lparr>ls_pc := ls_pc t + 2\<rparr>, s)"
    "drop (ls_pc t) prog = be_bytes 2 n @ rest \<Longrightarrow> 0 \<le> n \<Longrightarrow> n < 65536 \<Longrightarrow> GetU16Arg L t s = Inr (n, t\<lparr>ls_pc := ls_pc t + 2\<rparr>, s)"
    "drop (ls_pc t) prog = be_bytes 4 n @ rest \<Longrightarrow> - 2147483648 \<le> n \<Longrightarrow> n < 2147483648 \<Longrightarrow> GetI32Arg L t s = Inr (n, t\<lparr>ls_pc := ls_pc t + 4\<rparr>, s)"
    "drop (ls_pc t) prog = be_bytes 4 n @ rest \<Longrightarrow> GetU32Arg L t s = Inr (word_of_int n, t\<lparr>ls_pc := ls_pc t + 4\<rparr>, s)"
    "drop (ls_pc t) prog = be_bytes 8 n @ rest \<Longrightarrow> - (2 ^ 63) \<le> n \<Longrightarrow> n < 2 ^ 63 \<Longrightarrow> GetI64Arg L t s = Inr (n, t\<lparr>ls_pc := ls_pc t + 8\<rparr>, s)"
    "drop (ls_pc t) prog = be_bytes 8 n @ rest \<Longrightarrow> GetR64Arg L t s = Inr (word_of_int n, t\<lparr>ls_pc := ls_pc t + 8\<rparr>, s)"
proof -
  have g: "drop (ls_pc t) prog = be_bytes k n @ rest \<Longrightarrow> GetBytes L k t s = Inr (rev (be_bytes k n), t\<lparr>ls_pc := ls_pc t + k\<rparr>, s)" for k
    using GetBytes_eq [OF c, of t "be_bytes k n" rest] by simp
  have one: "drop (ls_pc t) prog = be_bytes 1 n @ rest \<Longrightarrow> code_byte L t s = Inr (word_of_int n, t\<lparr>ls_pc := ls_pc t + 1\<rparr>, s)"
    using code_byte_eq [OF c, of t "word_of_int n" rest] by (simp add: numeral_eq_Suc)
  show "drop (ls_pc t) prog = be_bytes 1 n @ rest \<Longrightarrow> - 128 \<le> n \<Longrightarrow> n < 128 \<Longrightarrow> GetI8Arg L t s = Inr (n, t\<lparr>ls_pc := ls_pc t + 1\<rparr>, s)"
    using one sint_word_of_int [of 7 n, where 'a = 8] by (simp add: GetI8Arg_def lit_defs)
  show "drop (ls_pc t) prog = be_bytes 1 n @ rest \<Longrightarrow> 0 \<le> n \<Longrightarrow> n < 256 \<Longrightarrow> GetU8Arg L t s = Inr (n, t\<lparr>ls_pc := ls_pc t + 1\<rparr>, s)"
    using one by (simp add: GetU8Arg_def lit_defs uint_word_of_int_eq take_bit_int_eq_self)
  show "drop (ls_pc t) prog = be_bytes 2 n @ rest \<Longrightarrow> - 32768 \<le> n \<Longrightarrow> n < 32768 \<Longrightarrow> GetI16Arg L t s = Inr (n, t\<lparr>ls_pc := ls_pc t + 2\<rparr>, s)"
    using g [of 2] sint_word_of_int [of 15 n, where 'a = 16] by (simp add: GetI16Arg_def lit_defs of_le_nat del: be_bytes.simps)
  show "drop (ls_pc t) prog = be_bytes 2 n @ rest \<Longrightarrow> 0 \<le> n \<Longrightarrow> n < 65536 \<Longrightarrow> GetU16Arg L t s = Inr (n, t\<lparr>ls_pc := ls_pc t + 2\<rparr>, s)"
    using g [of 2] by (simp add: GetU16Arg_def lit_defs of_le_nat uint_word_of_int_eq take_bit_int_eq_self)
  show "drop (ls_pc t) prog = be_bytes 4 n @ rest \<Longrightarrow> - 2147483648 \<le> n \<Longrightarrow> n < 2147483648 \<Longrightarrow> GetI32Arg L t s = Inr (n, t\<lparr>ls_pc := ls_pc t + 4\<rparr>, s)"
    using g [of 4] sint_word_of_int [of 31 n, where 'a = 32] by (simp add: GetI32Arg_def lit_defs of_le_nat)
  show "drop (ls_pc t) prog = be_bytes 4 n @ rest \<Longrightarrow> GetU32Arg L t s = Inr (word_of_int n, t\<lparr>ls_pc := ls_pc t + 4\<rparr>, s)"
    using g [of 4] by (simp add: GetU32Arg_def lit_defs of_le_nat)
  show "drop (ls_pc t) prog = be_bytes 8 n @ rest \<Longrightarrow> - (2 ^ 63) \<le> n \<Longrightarrow> n < 2 ^ 63 \<Longrightarrow> GetI64Arg L t s = Inr (n, t\<lparr>ls_pc := ls_pc t + 8\<rparr>, s)"
    using g [of 8] sint_word_of_int [of 63 n, where 'a = 64] by (simp add: GetI64Arg_def lit_defs of_le_nat)
  show "drop (ls_pc t) prog = be_bytes 8 n @ rest \<Longrightarrow> GetR64Arg L t s = Inr (word_of_int n, t\<lparr>ls_pc := ls_pc t + 8\<rparr>, s)"
    using g [of 8] by (simp add: GetR64Arg_def lit_defs of_le_nat)
qed

section \<open>Instructions\<close>

text \<open>The operation of an instruction, and the instructions that the interpreter supports.\<close>

fun lit_op :: "env \<Rightarrow> globals \<Rightarrow> lit_slots \<Rightarrow> instr \<Rightarrow> unit litop" where
  "lit_op E G L (INT63 n) = PushTaggedInt n"
| "lit_op E G L (RAWINT64 n) = PushRawInt64 n"
| "lit_op E G L (STR8 s) = (if s = [] then PushMLValue (G_string0 G) else PushString E G L (int (length s)))"
| "lit_op E G L (REAL64 r) = PushReal64 r"
| "lit_op E G L (RECORD n) = PushRecord E G L n"
| "lit_op E G L (RAWBLOCK n) = PushRawRecord E G L n"
| "lit_op E G L (MIXED p r) = PushMixedRecord E G L p r"
| "lit_op E G L (VEC n) = (if n = 0 then PushMLValue (G_vector0 G) else PushVector E G L n)"
| "lit_op E G L (SAVE i) = lit_store i"
| "lit_op E G L (LOAD i) = lit_load i"
| "lit_op E G L RETURN = lret ()"

definition in_range :: "instr \<Rightarrow> bool" where
  "in_range i = (case i of INT63 n \<Rightarrow> - (2 ^ 62) \<le> n \<and> n < 2 ^ 62 | RAWINT64 n \<Rightarrow> - (2 ^ 63) \<le> n \<and> n < 2 ^ 63
     | STR8 s \<Rightarrow> length s \<le> 4095 | RECORD n \<Rightarrow> 0 < n | RAWBLOCK n \<Rightarrow> 0 < n | VEC n \<Rightarrow> n \<le> 512
     | SAVE i \<Rightarrow> i \<le> 65535 | LOAD i \<Rightarrow> i \<le> 65535 | _ \<Rightarrow> True)"

fun operand :: "instr \<Rightarrow> byte_t list" where "operand (STR8 s) = s" | "operand i = []"

lemma step_opcode:
  assumes "holds_code L prog s" "drop (ls_pc t) prog = b # rest" "uint b = opc"
  shows "lit_step E G L t s = (let continue = (\<lambda>f. lthen f (lret None)) in
     if opc \<le> 0x7F then continue (op_small_int opc)
     else if opc \<le> 0x87 then continue (op_number L opc)
     else if opc \<le> 0x8F then continue (op_string E G L opc)
     else if opc \<le> 0x9F then continue (op_rawint L opc)
     else if opc \<le> 0xC7 then continue (op_record E G L opc)
     else if opc \<le> 0xE7 then continue (op_vector E G L opc)
     else if opc \<le> 0xF7 then continue (op_slot L opc)
     else if opc \<le> 0xFE then lfail (Die ''CONCAT -- reserved for future use'')
     else lit_return) (t\<lparr>ls_pc := ls_pc t + 1\<rparr>) s"
  unfolding lit_step_def lbind_def code_byte_eq [OF assms(1,2)] by (simp add: Let_def assms(3))

lemma step_operand:
  assumes c: "holds_code L prog s" and d: "drop (ls_pc t) prog = b # arg @ rest"
    and step: "lit_step E G L t s = lthen (lbind get f) (lret None) (t\<lparr>ls_pc := ls_pc t + 1\<rparr>) s"
    and get: "\<And>u. ls_pc u = ls_pc t + 1 \<Longrightarrow> drop (ls_pc u) prog = arg @ rest \<Longrightarrow> get u s = Inr (x, u\<lparr>ls_pc := ls_pc u + length arg\<rparr>, s)"
  shows "lit_step E G L t s = lthen (f x) (lret None) (t\<lparr>ls_pc := ls_pc t + length (b # arg)\<rparr>) s"
proof -
  have "drop (ls_pc t + 1) prog = arg @ rest" using d drop_next [of "ls_pc t" prog "[b]"] by simp
  with get [of "t\<lparr>ls_pc := ls_pc t + 1\<rparr>"] step show ?thesis by (simp add: lit_defs)
qed

lemma enc_int_cases:
  obtains "0 \<le> n" "n \<le> 31" "enc_int f g ops n = [f n]" | "- 32 \<le> n" "n < 0" "enc_int f g ops n = [g n]"
  | "- 128 \<le> n" "n < 128" "enc_int f g ops n = ops ! 0 # be_bytes 1 n"
  | "- 32768 \<le> n" "n < 32768" "enc_int f g ops n = ops ! 1 # be_bytes 2 n"
  | "- 2147483648 \<le> n" "n < 2147483648" "enc_int f g ops n = ops ! 2 # be_bytes 4 n"
  | "enc_int f g ops n = ops ! 3 # be_bytes 8 n"
  unfolding enc_int_def by (smt (verit) not_le)

lemma uint_small: "0 \<le> n \<Longrightarrow> n < 256 \<Longrightarrow> uint (of_int n :: byte_t) = n"
  by (simp add: uint_word_of_int_eq take_bit_int_eq_self)

lemma step_enc_int:
  assumes c: "holds_code L prog s" and d: "drop (ls_pc t) prog = enc_int f g [o8, o16, o32, o64] n @ rest" and r: "- (2 ^ 63) \<le> n" "n < 2 ^ 63"
    and big: "\<And>b get arg. (b, get) \<in> {(o8, GetI8Arg L), (o16, GetI16Arg L), (o32, GetI32Arg L), (o64, GetI64Arg L)} \<Longrightarrow>
      drop (ls_pc t) prog = b # arg \<Longrightarrow> lit_step E G L t s = lthen (lbind get P) (lret None) (t\<lparr>ls_pc := ls_pc t + 1\<rparr>) s"
    and small: "\<And>b. 0 \<le> n \<and> n \<le> 31 \<and> b = f n \<or> - 32 \<le> n \<and> n < 0 \<and> b = g n \<Longrightarrow>
      drop (ls_pc t) prog = b # rest \<Longrightarrow> lit_step E G L t s = lthen (P n) (lret None) (t\<lparr>ls_pc := ls_pc t + 1\<rparr>) s"
  shows "lit_step E G L t s = lthen (P n) (lret None) (t\<lparr>ls_pc := ls_pc t + length (enc_int f g [o8, o16, o32, o64] n)\<rparr>) s"
proof (cases rule: enc_int_cases [of n f g "[o8, o16, o32, o64]"])
  case 1
  then show ?thesis using d small [of "f n"] by simp
next
  case 2
  then show ?thesis using d small [of "g n"] by simp
next
  case 3
  then have e: "drop (ls_pc t) prog = o8 # be_bytes 1 n @ rest" using d by simp
  from step_operand [OF c e big [OF _ e, of "GetI8Arg L"]] get_args(1) [OF c] 3 show ?thesis by simp
next
  case 4
  then have e: "drop (ls_pc t) prog = o16 # be_bytes 2 n @ rest" using d by simp
  from step_operand [OF c e big [OF _ e, of "GetI16Arg L"]] get_args(3) [OF c] 4 show ?thesis by simp
next
  case 5
  then have e: "drop (ls_pc t) prog = o32 # be_bytes 4 n @ rest" using d by simp
  from step_operand [OF c e big [OF _ e, of "GetI32Arg L"]] get_args(5) [OF c] 5 show ?thesis by simp
next
  case 6
  then have e: "drop (ls_pc t) prog = o64 # be_bytes 8 n @ rest" using d by simp
  from step_operand [OF c e big [OF _ e, of "GetI64Arg L"]] get_args(7) [OF c] r 6 show ?thesis by simp
qed

lemma step_INT63:
  assumes c: "holds_code L prog s" and d: "drop (ls_pc t) prog = encINT63 n @ rest" and r: "- (2 ^ 63) \<le> n" "n < 2 ^ 63"
  shows "lit_step E G L t s = lthen (PushTaggedInt n) (lret None) (t\<lparr>ls_pc := ls_pc t + length (encINT63 n)\<rparr>) s"
  unfolding encINT63_def
proof (rule step_enc_int [OF c d [unfolded encINT63_def] r])
  show "lit_step E G L t s = lthen (lbind get PushTaggedInt) (lret None) (t\<lparr>ls_pc := ls_pc t + 1\<rparr>) s"
    if "(b, get) \<in> {(0x80, GetI8Arg L), (0x81, GetI16Arg L), (0x82, GetI32Arg L), (0x83, GetI64Arg L)}" "drop (ls_pc t) prog = b # arg" for b get arg
    using step_opcode [OF c that(2)] that(1) by (auto simp: op_number_def)
  show "lit_step E G L t s = lthen (PushTaggedInt n) (lret None) (t\<lparr>ls_pc := ls_pc t + 1\<rparr>) s"
    if "0 \<le> n \<and> n \<le> 31 \<and> b = of_int n \<or> - 32 \<le> n \<and> n < 0 \<and> b = of_int (0x40 + n)" "drop (ls_pc t) prog = b # rest" for b
    using step_opcode [OF c that(2)] that(1) uint_small [of n] uint_small [of "0x40 + n"] by (auto simp: op_small_int_def)
qed

lemma step_RAWINT64:
  assumes c: "holds_code L prog s" and d: "drop (ls_pc t) prog = encINT64 n @ rest" and r: "- (2 ^ 63) \<le> n" "n < 2 ^ 63"
  shows "lit_step E G L t s = lthen (PushRawInt64 n) (lret None) (t\<lparr>ls_pc := ls_pc t + length (encINT64 n)\<rparr>) s"
  unfolding encINT64_def
proof (rule step_enc_int [OF c d [unfolded encINT64_def] r])
  show "lit_step E G L t s = lthen (lbind get PushRawInt64) (lret None) (t\<lparr>ls_pc := ls_pc t + 1\<rparr>) s"
    if "(b, get) \<in> {(0x9C, GetI8Arg L), (0x9D, GetI16Arg L), (0x9E, GetI32Arg L), (0x9F, GetI64Arg L)}" "drop (ls_pc t) prog = b # arg" for b get arg
    using step_opcode [OF c that(2)] that(1) by (auto simp: op_rawint_def)
  show "lit_step E G L t s = lthen (PushRawInt64 n) (lret None) (t\<lparr>ls_pc := ls_pc t + 1\<rparr>) s"
    if "0 \<le> n \<and> n \<le> 31 \<and> b = of_int (n + 0x40) \<or> - 32 \<le> n \<and> n < 0 \<and> b = of_int (0x80 + n)" "drop (ls_pc t) prog = b # rest" for b
    using step_opcode [OF c that(2)] that(1) uint_small [of "n + 0x40"] uint_small [of "0x80 + n"] by (auto simp: op_small_int_def)
qed

lemma step_REAL64:
  assumes c: "holds_code L prog s" and d: "drop (ls_pc t) prog = encREAL64 r @ rest"
  shows "lit_step E G L t s = lthen (PushReal64 r) (lret None) (t\<lparr>ls_pc := ls_pc t + length (encREAL64 r)\<rparr>) s"
proof -
  have e: "drop (ls_pc t) prog = 0x85 # be_bytes 8 (uint r) @ rest" using d by (simp add: encREAL64_def)
  have "lit_step E G L t s = lthen (lbind (GetR64Arg L) PushReal64) (lret None) (t\<lparr>ls_pc := ls_pc t + 1\<rparr>) s"
    using step_opcode [OF c e, of "0x85"] by (simp add: op_number_def)
  from step_operand [OF c e this, of r] get_args(8) [OF c] show ?thesis unfolding encREAL64_def by simp
qed

text \<open>Instructions with a count in a byte or in two.\<close>

lemma step_u8:
  assumes c: "holds_code L prog s" and e: "drop (ls_pc t) prog = b # be_bytes 1 (int n) @ rest" and n: "n \<le> 255"
    and step: "lit_step E G L t s = lthen (lbind (GetU8Arg L) (\<lambda>i. f (nat i))) (lret None) (t\<lparr>ls_pc := ls_pc t + 1\<rparr>) s"
  shows "lit_step E G L t s = lthen (f n) (lret None) (t\<lparr>ls_pc := ls_pc t + length (b # be_bytes 1 (int n))\<rparr>) s"
proof -
  have "GetU8Arg L u s = Inr (int n, u\<lparr>ls_pc := ls_pc u + length (be_bytes 1 (int n))\<rparr>, s)" if "drop (ls_pc u) prog = be_bytes 1 (int n) @ rest" for u
    using get_args(2) [OF c that] n by (simp del: be_bytes.simps)
  from step_operand [OF c e step this] show ?thesis by simp
qed

lemma step_u16:
  assumes c: "holds_code L prog s" and e: "drop (ls_pc t) prog = b # be_bytes 2 (int n) @ rest" and n: "n \<le> 65535"
    and step: "lit_step E G L t s = lthen (lbind (GetU16Arg L) (\<lambda>i. f (nat i))) (lret None) (t\<lparr>ls_pc := ls_pc t + 1\<rparr>) s"
  shows "lit_step E G L t s = lthen (f n) (lret None) (t\<lparr>ls_pc := ls_pc t + length (b # be_bytes 2 (int n))\<rparr>) s"
  using step_operand [OF c e step, of "int n"] get_args(4) [OF c] n by simp

lemma step_enc_len:
  assumes c: "holds_code L prog s" and d: "drop (ls_pc t) prog = bs @ rest" and bs: "enc_len base opb oph n = Some bs" and n: "0 < n"
    and small: "\<And>b. n \<le> 14 \<Longrightarrow> b = of_int (base + int n) \<Longrightarrow> drop (ls_pc t) prog = b # rest \<Longrightarrow> lit_step E G L t s = lthen (P n) (lret None) (t\<lparr>ls_pc := ls_pc t + 1\<rparr>) s"
    and u8: "\<And>arg. drop (ls_pc t) prog = opb # arg \<Longrightarrow> lit_step E G L t s = lthen (lbind (GetU8Arg L) (\<lambda>i. P (nat i))) (lret None) (t\<lparr>ls_pc := ls_pc t + 1\<rparr>) s"
    and u16: "\<And>arg. drop (ls_pc t) prog = oph # arg \<Longrightarrow> lit_step E G L t s = lthen (lbind (GetU16Arg L) (\<lambda>i. P (nat i))) (lret None) (t\<lparr>ls_pc := ls_pc t + 1\<rparr>) s"
  shows "lit_step E G L t s = lthen (P n) (lret None) (t\<lparr>ls_pc := ls_pc t + length bs\<rparr>) s"
proof -
  consider "n \<le> 14" "bs = [of_int (base + int n)]" | "n \<le> 255" "bs = opb # be_bytes 1 (int n)" | "n \<le> 65535" "bs = oph # be_bytes 2 (int n)"
    using bs by (auto simp: enc_len_def split: if_splits)
  then show ?thesis
  proof cases
    case 1
    then show ?thesis using small d by simp
  next
    case 2
    then have e: "drop (ls_pc t) prog = opb # be_bytes 1 (int n) @ rest" using d by simp
    show ?thesis unfolding 2(2) by (rule step_u8 [OF c e 2(1) u8 [OF e]])
  next
    case 3
    then have e: "drop (ls_pc t) prog = oph # be_bytes 2 (int n) @ rest" using d by simp
    show ?thesis unfolding 3(2) by (rule step_u16 [OF c e 3(1) u16 [OF e]])
  qed
qed

lemma step_RECORD:
  assumes c: "holds_code L prog s" and d: "drop (ls_pc t) prog = bs @ rest" and bs: "encRECORD n = Some bs" and n: "0 < n"
  shows "lit_step E G L t s = lthen (PushRecord E G L n) (lret None) (t\<lparr>ls_pc := ls_pc t + length bs\<rparr>) s"
proof (rule step_enc_len [OF c d bs [unfolded encRECORD_def] n])
  show "lit_step E G L t s = lthen (PushRecord E G L n) (lret None) (t\<lparr>ls_pc := ls_pc t + 1\<rparr>) s"
    if b: "n \<le> 14" "b = of_int (0x9F + int n)" "drop (ls_pc t) prog = b # rest" for b
  proof -
    have u: "uint b = 0x9F + int n" unfolding b(2) using b(1) by (intro uint_small) simp_all
    have "nat ((0x9F + int n) mod 16) + 1 = n" using b(1) n by (auto simp: numeral_eq_Suc le_Suc_eq)
    then show ?thesis using step_opcode [OF c b(3) u] b(1) n by (simp add: op_record_def)
  qed
qed (use step_opcode [OF c, of t "0xAE" _ "0xAE" E G] step_opcode [OF c, of t "0xAF" _ "0xAF" E G] in \<open>simp_all add: op_record_def\<close>)

lemma step_RAWBLOCK:
  assumes c: "holds_code L prog s" and d: "drop (ls_pc t) prog = bs @ rest" and bs: "encRAW n = Some bs" and n: "0 < n"
  shows "lit_step E G L t s = lthen (PushRawRecord E G L n) (lret None) (t\<lparr>ls_pc := ls_pc t + length bs\<rparr>) s"
proof (rule step_enc_len [OF c d bs [unfolded encRAW_def] n])
  show "lit_step E G L t s = lthen (PushRawRecord E G L n) (lret None) (t\<lparr>ls_pc := ls_pc t + 1\<rparr>) s"
    if b: "n \<le> 14" "b = of_int (0xAF + int n)" "drop (ls_pc t) prog = b # rest" for b
  proof -
    have u: "uint b = 0xAF + int n" unfolding b(2) using b(1) by (intro uint_small) simp_all
    have "nat ((0xAF + int n) mod 16) + 1 = n" using b(1) n by (auto simp: numeral_eq_Suc le_Suc_eq)
    then show ?thesis using step_opcode [OF c b(3) u] b(1) n by (simp add: op_record_def)
  qed
qed (use step_opcode [OF c, of t "0xBE" _ "0xBE" E G] step_opcode [OF c, of t "0xBF" _ "0xBF" E G] in \<open>simp_all add: op_record_def\<close>)

lemma step_MIXED:
  assumes c: "holds_code L prog s" and d: "drop (ls_pc t) prog = bs @ rest" and bs: "encMIXED p r = Some bs"
  shows "lit_step E G L t s = lthen (PushMixedRecord E G L p r) (lret None) (t\<lparr>ls_pc := ls_pc t + length bs\<rparr>) s"
proof -
  have two: ?thesis if k: "bs = b # be_bytes k (int p) @ be_bytes k (int r)" and
      get: "\<And>u n ys. drop (ls_pc u) prog = be_bytes k (int n) @ ys \<Longrightarrow> n = p \<or> n = r \<Longrightarrow> get u s = Inr (int n, u\<lparr>ls_pc := ls_pc u + k\<rparr>, s)" and
      step: "lit_step E G L t s = lthen (lbind get (\<lambda>p. lbind get (\<lambda>r. PushMixedRecord E G L (nat p) (nat r)))) (lret None) (t\<lparr>ls_pc := ls_pc t + 1\<rparr>) s"
    for b k get
  proof -
    have e: "drop (ls_pc t + 1) prog = be_bytes k (int p) @ be_bytes k (int r) @ rest" using d drop_next [of "ls_pc t" prog "[b]"] by (simp add: k)
    then have e2: "drop (ls_pc t + 1 + k) prog = be_bytes k (int r) @ rest" using drop_next [of "ls_pc t + 1" prog "be_bytes k (int p)"] by simp
    have 1: "get (t\<lparr>ls_pc := ls_pc t + 1\<rparr>) s = Inr (int p, t\<lparr>ls_pc := ls_pc t + 1 + k\<rparr>, s)" using get [of "t\<lparr>ls_pc := ls_pc t + 1\<rparr>" p] e by simp
    have 2: "get (t\<lparr>ls_pc := ls_pc t + 1 + k\<rparr>) s = Inr (int r, t\<lparr>ls_pc := ls_pc t + 1 + k + k\<rparr>, s)" using get [of "t\<lparr>ls_pc := ls_pc t + 1 + k\<rparr>" r] e2 by simp
    show ?thesis using 1 2 by (simp add: step lit_defs k add.assoc)
  qed
  consider "p \<le> 255" "r \<le> 255" "bs = 0xC0 # be_bytes 1 (int p) @ be_bytes 1 (int r)" | "p \<le> 65535" "r \<le> 65535" "bs = 0xC1 # be_bytes 2 (int p) @ be_bytes 2 (int r)"
    using bs by (auto simp: encMIXED_def split: if_splits)
  then show ?thesis
  proof cases
    case 1
    from d have d1: "drop (ls_pc t) prog = 0xC0 # be_bytes 1 (int p) @ be_bytes 1 (int r) @ rest" unfolding 1(3) by simp
    show ?thesis
    proof (rule two [OF 1(3)])
      show "GetU8Arg L u s = Inr (int n, u\<lparr>ls_pc := ls_pc u + 1\<rparr>, s)" if "drop (ls_pc u) prog = be_bytes 1 (int n) @ ys" "n = p \<or> n = r" for u n ys
        using get_args(2) [OF c that(1)] that(2) 1(1,2) by (auto simp del: be_bytes.simps)
    qed (use step_opcode [OF c d1, of "0xC0"] in \<open>simp add: op_record_def del: be_bytes.simps\<close>)
  next
    case 2
    from d have d1: "drop (ls_pc t) prog = 0xC1 # be_bytes 2 (int p) @ be_bytes 2 (int r) @ rest" unfolding 2(3) by simp
    show ?thesis
    proof (rule two [OF 2(3)])
      show "GetU16Arg L u s = Inr (int n, u\<lparr>ls_pc := ls_pc u + 2\<rparr>, s)" if "drop (ls_pc u) prog = be_bytes 2 (int n) @ ys" "n = p \<or> n = r" for u n ys
        using get_args(4) [OF c that(1)] that(2) 2(1,2) by auto
    qed (use step_opcode [OF c d1, of "0xC1"] in \<open>simp add: op_record_def\<close>)
  qed
qed

lemma step_VEC:
  assumes c: "holds_code L prog s" and d: "drop (ls_pc t) prog = bs @ rest" and bs: "encVEC n = Some bs"
  shows "lit_step E G L t s = lthen (if n = 0 then PushMLValue (G_vector0 G) else PushVector E G L n) (lret None) (t\<lparr>ls_pc := ls_pc t + length bs\<rparr>) s"
proof -
  consider "n = 0" "bs = [0xC8]" | "0 < n" "n \<le> 255" "bs = 0xC9 # be_bytes 1 (int n)" | "0 < n" "n \<le> 65535" "bs = 0xCA # be_bytes 2 (int n)"
    using bs by (auto simp: encVEC_def split: if_splits)
  then show ?thesis
  proof cases
    case 1
    then show ?thesis using step_opcode [OF c, of t "0xC8" rest "0xC8"] d by (simp add: op_vector_def)
  next
    case 2
    then have e: "drop (ls_pc t) prog = 0xC9 # be_bytes 1 (int n) @ rest" using d by simp
    have "lit_step E G L t s = lthen (lbind (GetU8Arg L) (\<lambda>i. PushVector E G L (nat i))) (lret None) (t\<lparr>ls_pc := ls_pc t + 1\<rparr>) s"
      using step_opcode [OF c e, of "0xC9"] by (simp add: op_vector_def)
    from step_u8 [OF c e 2(2) this] show ?thesis using 2 by simp
  next
    case 3
    then have e: "drop (ls_pc t) prog = 0xCA # be_bytes 2 (int n) @ rest" using d by simp
    have "lit_step E G L t s = lthen (lbind (GetU16Arg L) (\<lambda>i. PushVector E G L (nat i))) (lret None) (t\<lparr>ls_pc := ls_pc t + 1\<rparr>) s"
      using step_opcode [OF c e, of "0xCA"] by (simp add: op_vector_def)
    from step_u16 [OF c e 3(2) this] show ?thesis using 3 by simp
  qed
qed

lemma step_slot:
  assumes c: "holds_code L prog s" and d: "drop (ls_pc t) prog = enc_slot base oph n @ rest" and n: "n \<le> 65535"
    and small: "\<And>b. n \<le> 6 \<Longrightarrow> b = of_int (base + int n) \<Longrightarrow> drop (ls_pc t) prog = b # rest \<Longrightarrow> lit_step E G L t s = lthen (P n) (lret None) (t\<lparr>ls_pc := ls_pc t + 1\<rparr>) s"
    and u16: "\<And>arg. drop (ls_pc t) prog = oph # arg \<Longrightarrow> lit_step E G L t s = lthen (lbind (GetU16Arg L) (\<lambda>i. P (nat i))) (lret None) (t\<lparr>ls_pc := ls_pc t + 1\<rparr>) s"
  shows "lit_step E G L t s = lthen (P n) (lret None) (t\<lparr>ls_pc := ls_pc t + length (enc_slot base oph n)\<rparr>) s"
proof (cases "n \<le> 6")
  case True
  then show ?thesis using small d by (simp add: enc_slot_def)
next
  case False
  then have e: "drop (ls_pc t) prog = oph # be_bytes 2 (int n) @ rest" using d by (simp add: enc_slot_def)
  from step_u16 [OF c e n u16 [OF e]] show ?thesis using False by (simp add: enc_slot_def)
qed

lemma step_SAVE:
  assumes c: "holds_code L prog s" and d: "drop (ls_pc t) prog = enc_slot 0xE8 0xEF n @ rest" and n: "n \<le> 65535"
  shows "lit_step E G L t s = lthen (lit_store n) (lret None) (t\<lparr>ls_pc := ls_pc t + length (enc_slot 0xE8 0xEF n)\<rparr>) s"
proof (rule step_slot [OF c d n])
  show "lit_step E G L t s = lthen (lit_store n) (lret None) (t\<lparr>ls_pc := ls_pc t + 1\<rparr>) s"
    if b: "n \<le> 6" "b = of_int (0xE8 + int n)" "drop (ls_pc t) prog = b # rest" for b
  proof -
    have u: "uint b = 0xE8 + int n" unfolding b(2) using b(1) by (intro uint_small) simp_all
    have "nat ((0xE8 + int n) mod 8) = n" using b(1) by (auto simp: numeral_eq_Suc le_Suc_eq)
    then show ?thesis using step_opcode [OF c b(3) u] b(1) by (simp add: op_slot_def)
  qed
qed (use step_opcode [OF c, of t "0xEF" _ "0xEF" E G] in \<open>simp add: op_slot_def\<close>)

lemma step_LOAD:
  assumes c: "holds_code L prog s" and d: "drop (ls_pc t) prog = enc_slot 0xF0 0xF7 n @ rest" and n: "n \<le> 65535"
  shows "lit_step E G L t s = lthen (lit_load n) (lret None) (t\<lparr>ls_pc := ls_pc t + length (enc_slot 0xF0 0xF7 n)\<rparr>) s"
proof (rule step_slot [OF c d n])
  show "lit_step E G L t s = lthen (lit_load n) (lret None) (t\<lparr>ls_pc := ls_pc t + 1\<rparr>) s"
    if b: "n \<le> 6" "b = of_int (0xF0 + int n)" "drop (ls_pc t) prog = b # rest" for b
  proof -
    have u: "uint b = 0xF0 + int n" unfolding b(2) using b(1) by (intro uint_small) simp_all
    have "nat ((0xF0 + int n) mod 8) = n" using b(1) by (auto simp: numeral_eq_Suc le_Suc_eq)
    then show ?thesis using step_opcode [OF c b(3) u] b(1) by (simp add: op_slot_def)
  qed
qed (use step_opcode [OF c, of t "0xF7" _ "0xF7" E G] in \<open>simp add: op_slot_def\<close>)

lemma step_STR8:
  assumes c: "holds_code L prog s" and d: "drop (ls_pc t) prog = encSTR8 str @ rest" and n: "length str \<le> 4095"
  shows "lit_step E G L t s = lthen (lit_op E G L (STR8 str)) (lret None) (t\<lparr>ls_pc := ls_pc t + (length (encSTR8 str) - length str)\<rparr>) s
    \<and> drop (ls_pc t + (length (encSTR8 str) - length str)) prog = str @ rest"
proof -
  let ?n = "length str"
  consider "str = []" "encSTR8 str = [0x88]" | "str \<noteq> []" "?n \<le> 255" "encSTR8 str = (0x89 # be_bytes 1 (int ?n)) @ str"
    | "str \<noteq> []" "?n \<le> 65535" "encSTR8 str = (0x8A # be_bytes 2 (int ?n)) @ str"
    using n by (cases "str = []"; cases "?n \<le> 255") (auto simp: encSTR8_def Let_def)
  then show ?thesis
  proof cases
    case 1
    then show ?thesis using step_opcode [OF c, of t "0x88" rest "0x88"] d drop_next [of "ls_pc t" prog "[0x88]" rest] by (simp add: op_string_def)
  next
    case 2
    then have e: "drop (ls_pc t) prog = 0x89 # be_bytes 1 (int ?n) @ str @ rest" using d by simp
    have "lit_step E G L t s = lthen (lbind (GetU8Arg L) (\<lambda>i. PushString E G L (int (nat i)))) (lret None) (t\<lparr>ls_pc := ls_pc t + 1\<rparr>) s"
      using step_opcode [OF c e, of "0x89" E G] step_operand [OF c e, of E G "GetU8Arg L" "PushString E G L"]
      by (auto simp: op_string_def lit_defs GetU8Arg_def intro!: rbind_cong)
    from step_u8 [OF c e 2(2) this] show ?thesis using 2 drop_next [of "ls_pc t" prog "0x89 # be_bytes 1 (int ?n)" "str @ rest"] e by simp
  next
    case 3
    then have e: "drop (ls_pc t) prog = 0x8A # be_bytes 2 (int ?n) @ str @ rest" using d by simp
    have "lit_step E G L t s = lthen (lbind (GetU16Arg L) (\<lambda>i. PushString E G L (int (nat i)))) (lret None) (t\<lparr>ls_pc := ls_pc t + 1\<rparr>) s"
      using step_opcode [OF c e, of "0x8A" E G] by (auto simp: op_string_def lit_defs GetU16Arg_def intro!: rbind_cong)
    from step_u16 [OF c e 3(2) this] show ?thesis using 3 drop_next [of "ls_pc t" prog "0x8A # be_bytes 2 (int ?n)" "str @ rest"] e by simp
  qed
qed

text \<open>All instructions together: the step is the operation, with the counter at the operand.\<close>

lemma step_decodes:
  assumes c: "holds_code L prog s" and d: "drop (ls_pc t) prog = bs @ rest" and bs: "enc i = Some bs" and r: "in_range i" "i \<noteq> RETURN"
  shows "\<exists>k. lit_step E G L t s = lthen (lit_op E G L i) (lret None) (t\<lparr>ls_pc := ls_pc t + k\<rparr>) s
    \<and> k + length (operand i) = length bs \<and> drop (ls_pc t + k) prog = operand i @ rest"
proof -
  have plain: ?thesis if "operand i = []" "lit_step E G L t s = lthen (lit_op E G L i) (lret None) (t\<lparr>ls_pc := ls_pc t + length bs\<rparr>) s"
    using that drop_next [OF d] by (intro exI [of _ "length bs"]) simp
  show ?thesis
  proof (cases i)
    case (STR8 x)
    with bs d have d': "drop (ls_pc t) prog = encSTR8 x @ rest" by simp
    have "length x \<le> length (encSTR8 x)" by (simp add: encSTR8_def Let_def)
    then show ?thesis using STR8 step_STR8 [OF c d', of E G] r(1) bs by (intro exI [of _ "length (encSTR8 x) - length x"]) (simp add: in_range_def)
  next
    case (INT63 n)
    then show ?thesis using step_INT63 [OF c, of t n rest E G] d bs r(1) by (intro plain) (simp_all add: in_range_def)
  next
    case (RAWINT64 n)
    then show ?thesis using step_RAWINT64 [OF c, of t n rest E G] d bs r(1) by (intro plain) (simp_all add: in_range_def)
  next
    case (REAL64 x)
    then show ?thesis using step_REAL64 [OF c, of t x rest E G] d bs by (intro plain) simp_all
  next
    case (RECORD n)
    then show ?thesis using step_RECORD [OF c d, of n E G] bs r(1) by (intro plain) (simp_all add: in_range_def)
  next
    case (RAWBLOCK n)
    then show ?thesis using step_RAWBLOCK [OF c d, of n E G] bs r(1) by (intro plain) (simp_all add: in_range_def)
  next
    case (MIXED p q)
    then show ?thesis using step_MIXED [OF c d, of p q E G] bs by (intro plain) simp_all
  next
    case (VEC n)
    then show ?thesis using step_VEC [OF c d, of n E G] bs by (intro plain) simp_all
  next
    case (SAVE n)
    then show ?thesis using step_SAVE [OF c, of t n rest E G] d bs r(1) by (intro plain) (simp_all add: in_range_def)
  next
    case (LOAD n)
    then show ?thesis using step_LOAD [OF c, of t n rest E G] d bs r(1) by (intro plain) (simp_all add: in_range_def)
  qed (use r in simp)
qed

end
