(* ===== verification/Literal_Sim.thy ===== *)
theory Literal_Sim
  imports Literal_Decode
begin

text \<open>
  The interpreter of literals builds what the reference machine computes: a representation of
  literals in the heap, its preservation by allocation, and the simulation of the machine.
\<close>

section \<open>Literals in the heap\<close>

text \<open>An object with its descriptor and \<open>n\<close> fields in the set \<open>A\<close> of words.\<close>

definition obj_at :: "memory \<Rightarrow> addr_t set \<Rightarrow> word_t \<Rightarrow> word_t \<Rightarrow> nat \<Rightarrow> bool" where
  "obj_at m A v d n \<longleftrightarrow> m (v - 8) = d \<and> v - 8 \<in> A \<and> (\<forall>j < n. at_ix v j \<in> A)"

text \<open>The data of a string: its bytes and a NUL.\<close>

definition str_data :: "memory \<Rightarrow> addr_t set \<Rightarrow> word_t \<Rightarrow> byte_t list \<Rightarrow> bool" where
  "str_data m A p bs \<longleftrightarrow> (let n = length bs div 8 + 1 in
     obj_at m A p (MAKE_DESC (of_nat n) DTAG_raw) n \<and> unat p mod 8 = 0 \<and> unat p + 8 * n < 2 ^ 64
     \<and> bytes_at p (length bs + 1) m = bs @ [0])"

inductive lit_rep :: "globals \<Rightarrow> memory \<Rightarrow> addr_t set \<Rightarrow> word_t \<Rightarrow> lit \<Rightarrow> bool" for G m A where
  rep_int: "lit_rep G m A (INT_ml n) (LInt n)"
| rep_str0: "lit_rep G m A (G_string0 G) (LStr [])"
| rep_str: "bs \<noteq> [] \<Longrightarrow> obj_at m A v DESC_string 2 \<Longrightarrow> m (at_ix v 1) = INT_ml (int (length bs)) \<Longrightarrow> str_data m A (m v) bs \<Longrightarrow>
    lit_rep G m A v (LStr bs)"
| rep_rec: "obj_at m A v (MAKE_DESC (of_nat (length ls)) DTAG_record) (length ls) \<Longrightarrow>
    (\<And>i. i < length ls \<Longrightarrow> lit_rep G m A (m (at_ix v i)) (ls ! i)) \<Longrightarrow> lit_rep G m A v (LRecord ls)"
| rep_raw: "obj_at m A v (MAKE_DESC (of_nat (length ws)) DTAG_raw) (length ws) \<Longrightarrow>
    (\<And>i. i < length ws \<Longrightarrow> m (at_ix v i) = ws ! i) \<Longrightarrow> lit_rep G m A v (LRaw ws)"
| rep_mixed: "obj_at m A v (MAKE_MIXED_DESC (of_nat (length ls)) (of_nat (length ws))) (length ls + length ws) \<Longrightarrow>
    (\<And>i. i < length ls \<Longrightarrow> lit_rep G m A (m (at_ix v i)) (ls ! i)) \<Longrightarrow>
    (\<And>i. i < length ws \<Longrightarrow> m (at_ix v (length ls + i)) = ws ! i) \<Longrightarrow> lit_rep G m A v (LMixed ls ws)"
| rep_vec0: "lit_rep G m A (G_vector0 G) (LVector [])"
| rep_vec: "ls \<noteq> [] \<Longrightarrow> obj_at m A v DESC_polyvec 2 \<Longrightarrow> m (at_ix v 1) = INT_ml (int (length ls)) \<Longrightarrow>
    obj_at m A (m v) (MAKE_DESC (of_nat (length ls)) DTAG_vec_data) (length ls) \<Longrightarrow>
    (\<And>i. i < length ls \<Longrightarrow> lit_rep G m A (m (at_ix (m v) i)) (ls ! i)) \<Longrightarrow> lit_rep G m A v (LVector ls)"

lemma obj_at_frame: "obj_at m A v d n \<Longrightarrow> (\<And>c. c \<in> A \<Longrightarrow> m' c = m c) \<Longrightarrow> A \<subseteq> A' \<Longrightarrow> obj_at m' A' v d n"
  by (auto simp: obj_at_def)

lemma obj_at_field: "obj_at m A v d n \<Longrightarrow> j < n \<Longrightarrow> (\<And>c. c \<in> A \<Longrightarrow> m' c = m c) \<Longrightarrow> m' (at_ix v j) = m (at_ix v j)"
  by (simp add: obj_at_def)

lemma less_mult_div_Suc: "n < 8 * (n div 8 + 1)" for n :: nat
  by (metis Suc_eq_plus1 dividend_less_div_times mult.commute mult_Suc_right zero_less_numeral add.commute)

lemma str_data_frame:
  assumes s: "str_data m A p bs" and m: "\<And>c. c \<in> A \<Longrightarrow> m' c = m c" and sub: "A \<subseteq> A'"
  shows "str_data m' A' p bs"
proof -
  let ?n = "length bs div 8 + 1"
  from s have p: "obj_at m A p (MAKE_DESC (of_nat ?n) DTAG_raw) ?n" "unat p mod 8 = 0" "unat p + 8 * ?n < 2 ^ 64"
    "bytes_at p (length bs + 1) m = bs @ [0]" by (simp_all add: str_data_def Let_def)
  have "m' (wbase (p + of_nat i)) = m (wbase (p + of_nat i))" if "i < length bs + 1" for i
  proof -
    have i: "i < 8 * ?n" using that less_mult_div_Suc [of "length bs"] by simp
    then have "i div 8 < ?n" by (simp add: less_mult_imp_div_less mult.commute)
    moreover have "unat p + i < 2 ^ 64" using p(3) i by linarith
    ultimately show ?thesis using aligned_byte(1) [OF p(2)] obj_at_field [OF p(1) _ m] by simp
  qed
  then have "bytes_at p (length bs + 1) m' = bytes_at p (length bs + 1) m" by (rule bytes_at_cong)
  then show ?thesis using p obj_at_frame [OF p(1) m sub] by (simp add: str_data_def Let_def)
qed

lemma lit_rep_frame:
  assumes "lit_rep G m A v l" and m: "\<And>c. c \<in> A \<Longrightarrow> m' c = m c" and sub: "A \<subseteq> A'"
  shows "lit_rep G m' A' v l"
proof -
  note fr = obj_at_frame [OF _ m sub] and fd = obj_at_field [OF _ _ m]
  show ?thesis
    using assms(1)
  proof (induction rule: lit_rep.induct)
    case (rep_str bs v)
    have "m' v = m v" "m' (at_ix v 1) = m (at_ix v 1)" using fd [OF rep_str(2), of 0] fd [OF rep_str(2), of 1] by simp_all
    then show ?case using rep_str(1,3) fr [OF rep_str(2)] str_data_frame [OF rep_str(4) m sub] lit_rep.rep_str by metis
  next
    case (rep_rec v ls)
    have "lit_rep G m' A' (m' (at_ix v i)) (ls ! i)" if "i < length ls" for i using fd [OF rep_rec(1) that] rep_rec(3) [OF that] by simp
    then show ?case using lit_rep.rep_rec fr [OF rep_rec(1)] by metis
  next
    case (rep_raw v ws)
    have "m' (at_ix v i) = ws ! i" if "i < length ws" for i using fd [OF rep_raw(1) that] rep_raw(2) [OF that] by simp
    then show ?case using lit_rep.rep_raw fr [OF rep_raw(1)] by metis
  next
    case (rep_mixed v ls ws)
    have "lit_rep G m' A' (m' (at_ix v i)) (ls ! i)" if "i < length ls" for i using fd [OF rep_mixed(1), of i] rep_mixed(4) [OF that] that by simp
    moreover have "m' (at_ix v (length ls + i)) = ws ! i" if "i < length ws" for i using fd [OF rep_mixed(1), of "length ls + i"] rep_mixed(3) [OF that] that by simp
    ultimately show ?case using lit_rep.rep_mixed fr [OF rep_mixed(1)] by metis
  next
    case (rep_vec ls v)
    have e: "m' v = m v" "m' (at_ix v 1) = m (at_ix v 1)" using fd [OF rep_vec(2), of 0] fd [OF rep_vec(2), of 1] by simp_all
    have "lit_rep G m' A' (m' (at_ix (m' v) i)) (ls ! i)" if "i < length ls" for i using fd [OF rep_vec(4) that] rep_vec(6) [OF that] e(1) by simp
    moreover have "m' (at_ix v 1) = INT_ml (int (length ls))" "obj_at m' A' (m' v) (MAKE_DESC (of_nat (length ls)) DTAG_vec_data) (length ls)"
      using e rep_vec(3) fr [OF rep_vec(4)] by simp_all
    ultimately show ?case using lit_rep.rep_vec [OF rep_vec(1) fr [OF rep_vec(2)]] by metis
  qed (rule lit_rep.intros)+
qed

section \<open>Free space\<close>

text \<open>
  The next \<open>k\<close> words of the allocation space are free: they hold neither an object of the
  literals built so far nor the code nor the variable that refers to it.
\<close>

definition free_space :: "lit_slots \<Rightarrow> byte_t list \<Rightarrow> nat \<Rightarrow> addr_t set \<Rightarrow> rt \<Rightarrow> bool" where
  "free_space L prog k A r \<longleftrightarrow> unat (ml_allocPtr r) mod 8 = 0 \<and> unat (ml_allocPtr r) + 8 * k \<le> unat (ml_limitPtr r)
     \<and> (\<forall>j < k. let c = at_ix (ml_allocPtr r) j in c \<notin> A \<and> c \<noteq> sl_code L
         \<and> (\<forall>i < length prog. c \<noteq> wbase (rt_mem r (sl_code L) + of_nat i)))"

definition lit_heap :: "lit_slots \<Rightarrow> byte_t list \<Rightarrow> nat \<Rightarrow> addr_t set \<Rightarrow> vm \<Rightarrow> bool" where
  "lit_heap L prog k A s \<longleftrightarrow> holds_code L prog s \<and> free_space L prog k A (vm_rt s)"

text \<open>A block of \<open>n\<close> free words has been written and the allocation pointer moved past it.\<close>

definition used :: "nat \<Rightarrow> rt \<Rightarrow> rt \<Rightarrow> bool" where
  "used n r r' \<longleftrightarrow> ml_allocPtr r' = at_ix (ml_allocPtr r) n \<and> ml_limitPtr r' = ml_limitPtr r
     \<and> (\<forall>c. (\<forall>j < n. c \<noteq> at_ix (ml_allocPtr r) j) \<longrightarrow> rt_mem r' c = rt_mem r c)"

abbreviation (input) block :: "nat \<Rightarrow> vm \<Rightarrow> addr_t set" where "block n s \<equiv> at_ix (ml_allocPtr (vm_rt s)) ` {..<n}"

lemma used_refl: "used 0 r r" by (simp add: used_def)

lemma used_trans: "used n r r' \<Longrightarrow> used k r' r'' \<Longrightarrow> used (n + k) r r''"
proof -
  assume u: "used n r r'" "used k r' r''"
  have "rt_mem r'' c = rt_mem r c" if c: "\<forall>j < n + k. c \<noteq> at_ix (ml_allocPtr r) j" for c
  proof -
    have "\<forall>j < k. c \<noteq> at_ix (ml_allocPtr r') j" using u(1) c by (simp add: used_def at_ix_at_ix)
    moreover have "\<forall>j < n. c \<noteq> at_ix (ml_allocPtr r) j" using c by simp
    ultimately show ?thesis using u by (simp add: used_def)
  qed
  then show ?thesis using u by (simp add: used_def at_ix_at_ix)
qed

lemma lit_heap_alloc:
  assumes h: "lit_heap L prog k A s" and n: "n \<le> k" and u: "used n (vm_rt s) r"
  shows "lit_heap L prog (k - n) (A \<union> block n s) (s\<lparr>vm_rt := r\<rparr>)"
    and "\<And>c. c \<in> A \<Longrightarrow> rt_mem r c = rt_mem (vm_rt s) c"
proof -
  have r: "ml_allocPtr r = at_ix (ml_allocPtr (vm_rt s)) n" "ml_limitPtr r = ml_limitPtr (vm_rt s)"
    and m: "\<And>c. (\<And>j. j < n \<Longrightarrow> c \<noteq> at_ix (ml_allocPtr (vm_rt s)) j) \<Longrightarrow> rt_mem r c = rt_mem (vm_rt s) c"
    using u by (simp_all add: used_def)
  let ?p = "ml_allocPtr (vm_rt s)" and ?m = "rt_mem (vm_rt s)"
  from h have c: "holds_code L prog s" and al: "unat ?p mod 8 = 0" "unat ?p + 8 * k \<le> unat (ml_limitPtr (vm_rt s))"
    and f: "\<And>j. j < k \<Longrightarrow> at_ix ?p j \<notin> A \<and> at_ix ?p j \<noteq> sl_code L \<and> (\<forall>i < length prog. at_ix ?p j \<noteq> wbase (?m (sl_code L) + of_nat i))"
    by (auto simp: lit_heap_def free_space_def Let_def)
  have "unat (ml_limitPtr (vm_rt s)) < 2 ^ LENGTH(64)" by (rule unsigned_less)
  then have lim: "unat ?p + 8 * k < 2 ^ 64" using al(2) by simp
  have sl: "rt_mem r (sl_code L) = ?m (sl_code L)" using f n by (intro m) (metis less_le_trans)
  have "rt_mem r (wbase (?m (sl_code L) + of_nat i)) = ?m (wbase (?m (sl_code L) + of_nat i))" if "i < length prog" for i
    using f n that by (intro m) (metis less_le_trans)
  then have "bytes_at (?m (sl_code L)) (length prog) (rt_mem r) = bytes_at (?m (sl_code L)) (length prog) ?m" by (rule bytes_at_cong)
  then have code: "holds_code L prog (s\<lparr>vm_rt := r\<rparr>)" using c by (simp add: holds_code_def sl)
  have u: "unat (at_ix ?p n) = unat ?p + 8 * n" using lim n by (intro unat_at_ix) linarith
  have dis: "at_ix (at_ix ?p n) j \<notin> at_ix ?p ` {..<n}" if "j < k - n" for j
  proof
    assume "at_ix (at_ix ?p n) j \<in> at_ix ?p ` {..<n}"
    then obtain i where i: "i < n" "at_ix ?p (n + j) = at_ix ?p i" by (auto simp: at_ix_at_ix)
    have "unat (at_ix ?p (n + j)) = unat ?p + 8 * (n + j)" 
      by (rule unat_at_ix, rule le_less_trans [OF _ lim]) (use that in simp)
    moreover have "unat (at_ix ?p i) = unat ?p + 8 * i" using lim n i(1) by (intro unat_at_ix) linarith
    ultimately show False using i by simp
  qed
  have "free_space L prog (k - n) (A \<union> at_ix ?p ` {..<n}) r"
    unfolding free_space_def Let_def r sl
  proof (intro conjI allI impI)
    show "unat (at_ix ?p n) mod 8 = 0" "unat (at_ix ?p n) + 8 * (k - n) \<le> unat (ml_limitPtr (vm_rt s))" using u al n by simp_all
    fix j assume j: "j < k - n"
    then have "n + j < k" by simp
    from f [OF this] show "at_ix (at_ix ?p n) j \<noteq> sl_code L" "\<And>i. i < length prog \<Longrightarrow> at_ix (at_ix ?p n) j \<noteq> wbase (?m (sl_code L) + of_nat i)"
      by (simp_all add: at_ix_at_ix)
    from f [OF \<open>n + j < k\<close>] dis [OF j] show "at_ix (at_ix ?p n) j \<notin> A \<union> at_ix ?p ` {..<n}" by (simp add: at_ix_at_ix)
  qed
  then show "lit_heap L prog (k - n) (A \<union> at_ix ?p ` {..<n}) (s\<lparr>vm_rt := r\<rparr>)" using code by (simp add: lit_heap_def)
  show "rt_mem r c = ?m c" if "c \<in> A" for c using f n that by (intro m) (metis less_le_trans)
qed

lemma lit_heap_room: "lit_heap L prog k A s \<Longrightarrow> unat (ml_allocPtr (vm_rt s)) + 8 * k < 2 ^ 64"
proof -
  assume h: "lit_heap L prog k A s"
  have "unat (ml_limitPtr (vm_rt s)) < 2 ^ LENGTH(64)" by (rule unsigned_less)
  then show ?thesis using h by (simp add: lit_heap_def free_space_def)
qed

lemma CheckGC_room:
  assumes h: "lit_heap L prog k A s" and n: "n \<le> k" and w: "w = 8 * of_nat n"
  shows "CheckGC E G L w t s = Inr ((), t, s)"
proof -
  let ?r = "vm_rt s"
  have le: "unat (ml_allocPtr ?r) + 8 * k \<le> unat (ml_limitPtr ?r)" using h by (simp add: lit_heap_def free_space_def)
  have "8 * n < 2 ^ 64" using lit_heap_room [OF h] n by simp
  then have "unat w = 8 * n" unfolding w by (simp add: unat_word_ariths(2) unat_of_nat)
  moreover have "unat (ml_limitPtr ?r - ml_allocPtr ?r) = unat (ml_limitPtr ?r) - unat (ml_allocPtr ?r)"
    using le by (intro unat_sub) (simp add: word_le_nat_alt)
  ultimately have "\<not> ml_limitPtr ?r - ml_allocPtr ?r < w" using le n by (simp add: word_less_nat_alt)
  then show ?thesis by (simp add: CheckGC_def)
qed

lemma alloc_used:
  assumes h: "lit_heap L prog k A s" and n: "length ws + 1 \<le> k" and a: "alloc_obj d ws (vm_rt s) = (p, r)"
  shows "used (length ws + 1) (vm_rt s) r" "obj_at (rt_mem r) (A \<union> block (length ws + 1) s) p d (length ws)"
    "j < length ws \<Longrightarrow> rt_mem r (at_ix p j) = ws ! j" "p = ml_allocPtr (vm_rt s) + 8"
proof -
  have f: "alloc_fits (vm_rt s) (length ws)" using lit_heap_room [OF h] n by (simp add: alloc_fits_def)
  have b: "alloc_block (vm_rt s) (length ws) = block (length ws + 1) s" by (simp add: alloc_block_def lessThan_Suc_atMost)
  show "used (length ws + 1) (vm_rt s) r"
  proof -
    have "rt_mem r c = rt_mem (vm_rt s) c" if "\<forall>j < length ws + 1. c \<noteq> at_ix (ml_allocPtr (vm_rt s)) j" for c
      using that by (intro ia.alloc_frame [OF f a]) (auto simp: b)
    then show ?thesis using a by (simp add: used_def alloc_obj_eq upd_mem_def)
  qed
  show "obj_at (rt_mem r) (A \<union> block (length ws + 1) s) p d (length ws)"
    using ia.alloc_block [OF f a] ia.alloc_desc [OF f a] unfolding obj_at_def b by blast
  show "j < length ws \<Longrightarrow> rt_mem r (at_ix p j) = ws ! j" by (rule ia.alloc_field [OF f a])
  show "p = ml_allocPtr (vm_rt s) + 8" using a by (simp add: alloc_obj_eq)
qed

section \<open>Simulation\<close>

definition item_rep :: "globals \<Rightarrow> memory \<Rightarrow> addr_t set \<Rightarrow> word_t \<Rightarrow> mc_item \<Rightarrow> bool" where
  "item_rep G m A w x = (case x of Uniform l \<Rightarrow> lit_rep G m A w l | Bits b \<Rightarrow> w = b)"

definition sim :: "globals \<Rightarrow> lit_slots \<Rightarrow> byte_t list \<Rightarrow> nat \<Rightarrow> addr_t set \<Rightarrow> lit_state \<Rightarrow> vm \<Rightarrow> machine \<Rightarrow> bool" where
  "sim G L prog k A t s M \<longleftrightarrow> lit_heap L prog k A s \<and> list_all2 (item_rep G (rt_mem (vm_rt s)) A) (map snd (ls_stk t)) (mc_stk M)
     \<and> (\<forall>i x. mc_saved M i = Some x \<longrightarrow> i < length (ls_saved t) \<and> item_rep G (rt_mem (vm_rt s)) A (ls_saved t ! i) x)"

lemma item_rep_frame: "item_rep G m A w x \<Longrightarrow> (\<And>c. c \<in> A \<Longrightarrow> m' c = m c) \<Longrightarrow> A \<subseteq> A' \<Longrightarrow> item_rep G m' A' w x"
  by (cases x) (auto simp: item_rep_def intro: lit_rep_frame)

lemma sim_alloc:
  assumes "sim G L prog k A t s M" "n \<le> k" "used n (vm_rt s) r"
  shows "sim G L prog (k - n) (A \<union> block n s) t (s\<lparr>vm_rt := r\<rparr>) M"
proof -
  from assms(1) have h: "lit_heap L prog k A s" by (simp add: sim_def)
  note a = lit_heap_alloc [OF h assms(2,3)]
  have "item_rep G (rt_mem r) (A \<union> block n s) w x" if "item_rep G (rt_mem (vm_rt s)) A w x" for w x
    by (rule item_rep_frame [OF that]) (use a(2) in auto)
  then show ?thesis using assms(1) a(1) by (auto simp: sim_def intro: list_all2_mono)
qed

lemma sim_push:
  assumes "sim G L prog k A t s M" "item_rep G (rt_mem (vm_rt s)) A w x"
  shows "sim G L prog k A (t\<lparr>ls_stk := ls_stk t @ [(kd, w)]\<rparr>) s (mc_push x M)"
  using assms by (auto simp: sim_def mc_push_def intro: list_all2_appendI)

lemma push_item_ok: "int (length (ls_stk t)) < ls_maxDepth t \<Longrightarrow> push_item kd w t s = Inr ((), t\<lparr>ls_stk := ls_stk t @ [(kd, w)]\<rparr>, s)"
  by (simp add: push_item_def)

text \<open>The upper \<open>n\<close> items become the fields of an object.\<close>

definition cut :: "nat \<Rightarrow> 'a list \<Rightarrow> 'a list" where "cut n xs = take (length xs - n) xs"
definition tip :: "nat \<Rightarrow> 'a list \<Rightarrow> 'a list" where "tip n xs = drop (length xs - n) xs"

lemma tip_length: "n \<le> length xs \<Longrightarrow> length (tip n xs) = n" by (simp add: tip_def)

lemma sim_tip:
  assumes "sim G L prog k A t s M" "n \<le> length (mc_stk M)"
  shows "list_all2 (item_rep G (rt_mem (vm_rt s)) A) (map snd (tip n (ls_stk t))) (tip n (mc_stk M))"
    "sim G L prog k A (t\<lparr>ls_stk := cut n (ls_stk t)\<rparr>) s (M\<lparr>mc_stk := cut n (mc_stk M)\<rparr>)" "length (ls_stk t) = length (mc_stk M)"
proof -
  from assms(1) have l: "list_all2 (item_rep G (rt_mem (vm_rt s)) A) (map snd (ls_stk t)) (mc_stk M)" by (simp add: sim_def)
  then show len: "length (ls_stk t) = length (mc_stk M)" by (auto dest: list_all2_lengthD)
  show "list_all2 (item_rep G (rt_mem (vm_rt s)) A) (map snd (tip n (ls_stk t))) (tip n (mc_stk M))"
    using l by (simp add: tip_def len flip: drop_map)
  show "sim G L prog k A (t\<lparr>ls_stk := cut n (ls_stk t)\<rparr>) s (M\<lparr>mc_stk := cut n (mc_stk M)\<rparr>)"
    using assms(1) l by (simp add: sim_def cut_def len flip: take_map)
qed

lemma make_object:
  assumes sm: "sim G L prog k A t s M" and n: "n \<le> length (mc_stk M)" "n + 1 \<le> k"
  shows "\<exists>p r. alloc_fields d n t s = Inr (p, t\<lparr>ls_stk := cut n (ls_stk t)\<rparr>, s\<lparr>vm_rt := r\<rparr>) \<and> used (n + 1) (vm_rt s) r
    \<and> sim G L prog (k - (n + 1)) (A \<union> block (n + 1) s) (t\<lparr>ls_stk := cut n (ls_stk t)\<rparr>) (s\<lparr>vm_rt := r\<rparr>) (M\<lparr>mc_stk := cut n (mc_stk M)\<rparr>)
    \<and> obj_at (rt_mem r) (A \<union> block (n + 1) s) p d n
    \<and> (\<forall>i < n. item_rep G (rt_mem r) (A \<union> block (n + 1) s) (rt_mem r (at_ix p i)) (tip n (mc_stk M) ! i))"
proof -
  let ?ws = "map snd (tip n (ls_stk t))"
  note tp = sim_tip [OF sm n(1)]
  obtain p r where a: "alloc_obj d ?ws (vm_rt s) = (p, r)" by fastforce
  have l: "length ?ws = n" using tp(3) n(1) by (simp add: tip_length)
  from sm have h: "lit_heap L prog k A s" by (simp add: sim_def)
  note u = alloc_used [OF h _ a, unfolded l, OF n(2)]
  have s': "sim G L prog (k - (n + 1)) (A \<union> block (n + 1) s) (t\<lparr>ls_stk := cut n (ls_stk t)\<rparr>) (s\<lparr>vm_rt := r\<rparr>) (M\<lparr>mc_stk := cut n (mc_stk M)\<rparr>)"
    by (rule sim_alloc [OF tp(2) n(2) u(1)])
  have "item_rep G (rt_mem r) (A \<union> block (n + 1) s) (rt_mem r (at_ix p i)) (tip n (mc_stk M) ! i)" if "i < n" for i
  proof -
    have "item_rep G (rt_mem (vm_rt s)) A (?ws ! i) (tip n (mc_stk M) ! i)" using list_all2_nthD [OF tp(1)] that l by (metis length_map)
    then have "item_rep G (rt_mem r) (A \<union> block (n + 1) s) (?ws ! i) (tip n (mc_stk M) ! i)"
      by (rule item_rep_frame) (use lit_heap_alloc(2) [OF h n(2) u(1)] in auto)
    then show ?thesis using u(3) [OF that] by simp
  qed
  moreover have "alloc_fields d n t s = Inr (p, t\<lparr>ls_stk := cut n (ls_stk t)\<rparr>, s\<lparr>vm_rt := r\<rparr>)"
    using a tp(3) n(1) by (simp add: alloc_fields_def pop_fields_def lit_defs lift_rt_def cut_def tip_def Let_def)
  ultimately show ?thesis using u(1,2) s' by blast
qed

section \<open>Operations\<close>

text \<open>The words that an instruction allocates.\<close>

fun words :: "instr \<Rightarrow> nat" where
  "words (STR8 s) = (if s = [] then 0 else length s div 8 + 1 + 1 + 3)"
| "words (RECORD n) = n + 1"
| "words (RAWBLOCK n) = n + 1"
| "words (MIXED p r) = p + r + 1"
| "words (VEC n) = (if n = 0 then 0 else n + 1 + 3)"
| "words _ = 0"

text \<open>An operation that allocates \<open>n\<close> words, reads \<open>c\<close> bytes and leads to machine state \<open>M'\<close>.\<close>

definition runs :: "globals \<Rightarrow> lit_slots \<Rightarrow> byte_t list \<Rightarrow> nat \<Rightarrow> addr_t set \<Rightarrow> nat \<Rightarrow> nat \<Rightarrow> unit litop \<Rightarrow> lit_state \<Rightarrow> vm \<Rightarrow> machine \<Rightarrow> bool" where
  "runs G L prog k A n c op t s M' \<longleftrightarrow> (\<exists>t' s'. op t s = Inr ((), t', s') \<and> sim G L prog (k - n) (A \<union> block n s) t' s' M'
     \<and> used n (vm_rt s) (vm_rt s') \<and> ls_pc t' = ls_pc t + c \<and> ls_maxDepth t' = ls_maxDepth t \<and> length (ls_saved t') = length (ls_saved t))"

lemma runs_push:
  assumes sm: "sim G L prog k A t s M" and w: "item_rep G (rt_mem (vm_rt s)) A w x" and d: "int (length (mc_stk (mc_push x M))) \<le> ls_maxDepth t"
  shows "runs G L prog k A 0 0 (push_item kd w) t s (mc_push x M)"
proof -
  have "length (ls_stk t) = length (mc_stk M)" by (rule sim_tip(3) [OF sm, of 0]) simp
  then have "push_item kd w t s = Inr ((), t\<lparr>ls_stk := ls_stk t @ [(kd, w)]\<rparr>, s)" using d by (intro push_item_ok) (simp add: mc_push_def)
  then show ?thesis using sim_push [OF sm w] used_refl by (auto simp: runs_def)
qed

lemma make_depth:
  assumes "mc_make n f M = Some M'"
  shows "n \<le> length (mc_stk M)" "\<exists>l. f (tip n (mc_stk M)) = Some l \<and> M' = mc_push (Uniform l) (M\<lparr>mc_stk := cut n (mc_stk M)\<rparr>)"
  using assms by (auto simp: mc_make_def mc_push_def cut_def tip_def Let_def split: if_splits option.splits)

lemma runs_make:
  assumes sm: "sim G L prog k A t s M" and mk: "mc_make n f M = Some M'" and k: "n + 1 \<le> k" and d: "int (length (mc_stk M')) \<le> ls_maxDepth t"
    and op: "op = lthen (CheckGC E G L (8 * (of_nat n + 1))) (lbind (alloc_fields desc n) PushMLValue)"
    and rep: "\<And>m A p xs l. obj_at m A p desc n \<Longrightarrow> length xs = n \<Longrightarrow> (\<forall>i < n. item_rep G m A (m (at_ix p i)) (xs ! i)) \<Longrightarrow> f xs = Some l \<Longrightarrow> lit_rep G m A p l"
  shows "runs G L prog k A (n + 1) 0 op t s M'"
proof -
  note n = make_depth(1) [OF mk]
  obtain l where l: "f (tip n (mc_stk M)) = Some l" "M' = mc_push (Uniform l) (M\<lparr>mc_stk := cut n (mc_stk M)\<rparr>)" using make_depth(2) [OF mk] by blast
  from make_object [OF sm n k] obtain p r where
    a: "alloc_fields desc n t s = Inr (p, t\<lparr>ls_stk := cut n (ls_stk t)\<rparr>, s\<lparr>vm_rt := r\<rparr>)" "used (n + 1) (vm_rt s) r"
      "sim G L prog (k - (n + 1)) (A \<union> block (n + 1) s) (t\<lparr>ls_stk := cut n (ls_stk t)\<rparr>) (s\<lparr>vm_rt := r\<rparr>) (M\<lparr>mc_stk := cut n (mc_stk M)\<rparr>)"
      "obj_at (rt_mem r) (A \<union> block (n + 1) s) p desc n"
      "\<forall>i < n. item_rep G (rt_mem r) (A \<union> block (n + 1) s) (rt_mem r (at_ix p i)) (tip n (mc_stk M) ! i)" by blast
  have "lit_rep G (rt_mem r) (A \<union> block (n + 1) s) p l" by (rule rep [OF a(4) _ a(5) l(1)]) (simp add: tip_length n)
  then have "runs G L prog (k - (n + 1)) (A \<union> block (n + 1) s) 0 0 (PushMLValue p) (t\<lparr>ls_stk := cut n (ls_stk t)\<rparr>) (s\<lparr>vm_rt := r\<rparr>) M'"
    unfolding l(2) PushMLValue_def using d l(2) by (intro runs_push [OF a(3)]) (simp_all add: item_rep_def)
  then obtain t' s' where p: "PushMLValue p (t\<lparr>ls_stk := cut n (ls_stk t)\<rparr>) (s\<lparr>vm_rt := r\<rparr>) = Inr ((), t', s')"
    "sim G L prog (k - (n + 1)) (A \<union> block (n + 1) s) t' s' M'" "used 0 r (vm_rt s')" "ls_pc t' = ls_pc t" "ls_maxDepth t' = ls_maxDepth t" "length (ls_saved t') = length (ls_saved t)"
    by (auto simp: runs_def)
  from sm have h: "lit_heap L prog k A s" by (simp add: sim_def)
  have "op t s = Inr ((), t', s')" using a(1) p(1) CheckGC_room [OF h k, of "8 * (of_nat n + 1)" E G t] by (simp add: op lit_defs)
  then show ?thesis using p used_trans [OF a(2) p(3)] by (auto simp: runs_def)
qed

lemma uniform_fields:
  assumes "opts (map uniform xs) = Some ls" "\<forall>i < length xs. item_rep G m A (m (at_ix p i)) (xs ! i)"
  shows "length ls = length xs" "i < length ls \<Longrightarrow> lit_rep G m A (m (at_ix p i)) (ls ! i)"
proof -
  have l: "list_all2 (\<lambda>x y. uniform x = Some y) xs ls" using assms(1) by (simp add: opts_Some)
  then show len: "length ls = length xs" by (auto dest: list_all2_lengthD)
  assume i: "i < length ls"
  then have "uniform (xs ! i) = Some (ls ! i)" using list_all2_nthD [OF l] len by simp
  then have "xs ! i = Uniform (ls ! i)" by (cases "xs ! i") auto
  then show "lit_rep G m A (m (at_ix p i)) (ls ! i)" using assms(2) i len by (auto simp: item_rep_def)
qed

lemma bits_fields:
  assumes "opts (map bits xs) = Some ws" "\<forall>i < length xs. item_rep G m A (m (at_ix p (b + i))) (xs ! i)"
  shows "length ws = length xs" "i < length ws \<Longrightarrow> m (at_ix p (b + i)) = ws ! i"
proof -
  have l: "list_all2 (\<lambda>x y. bits x = Some y) xs ws" using assms(1) by (simp add: opts_Some)
  then show len: "length ws = length xs" by (auto dest: list_all2_lengthD)
  assume i: "i < length ws"
  then have "bits (xs ! i) = Some (ws ! i)" using list_all2_nthD [OF l] len by simp
  moreover have "item_rep G m A (m (at_ix p (b + i))) (xs ! i)" using assms(2) i len by simp
  ultimately show "m (at_ix p (b + i)) = ws ! i" by (cases "xs ! i" rule: bits.cases) (auto simp: item_rep_def elim: lit_rep.cases)
qed

lemma runs_RECORD:
  assumes "sim G L prog k A t s M" "mc_exec (RECORD n) M = Some M'" "n + 1 \<le> k" "int (length (mc_stk M')) \<le> ls_maxDepth t"
  shows "runs G L prog k A (n + 1) 0 (PushRecord E G L n) t s M'"
  using assms
proof (intro runs_make [OF assms(1), where f = "\<lambda>xs. map_option LRecord (opts (map uniform xs))" and desc = "MAKE_DESC (of_nat n) DTAG_record"])
  fix m A p xs l
  assume o: "obj_at m A p (MAKE_DESC (of_nat n) DTAG_record) n" "length xs = n" "\<forall>i < n. item_rep G m A (m (at_ix p i)) (xs ! i)"
    "map_option LRecord (opts (map uniform xs)) = Some l"
  then obtain ls where ls: "opts (map uniform xs) = Some ls" "l = LRecord ls" by auto
  show "lit_rep G m A p l" unfolding ls(2) using uniform_fields [OF ls(1)] o by (intro lit_rep.rep_rec) auto
qed (simp_all add: PushRecord_def)

lemma runs_RAWBLOCK:
  assumes "sim G L prog k A t s M" "mc_exec (RAWBLOCK n) M = Some M'" "n + 1 \<le> k" "int (length (mc_stk M')) \<le> ls_maxDepth t"
  shows "runs G L prog k A (n + 1) 0 (PushRawRecord E G L n) t s M'"
  using assms
proof (intro runs_make [OF assms(1), where f = "\<lambda>xs. map_option LRaw (opts (map bits xs))" and desc = "MAKE_DESC (of_nat n) DTAG_raw"])
  fix m A p xs l
  assume o: "obj_at m A p (MAKE_DESC (of_nat n) DTAG_raw) n" "length xs = n" "\<forall>i < n. item_rep G m A (m (at_ix p i)) (xs ! i)"
    "map_option LRaw (opts (map bits xs)) = Some l"
  then obtain ws where ws: "opts (map bits xs) = Some ws" "l = LRaw ws" by auto
  show "lit_rep G m A p l" unfolding ws(2) using bits_fields [OF ws(1), of G m A p 0] o by (intro lit_rep.rep_raw) auto
qed (simp_all add: PushRawRecord_def)

lemma runs_MIXED:
  assumes "sim G L prog k A t s M" "mc_exec (MIXED q r) M = Some M'" "q + r + 1 \<le> k" "int (length (mc_stk M')) \<le> ls_maxDepth t"
  shows "runs G L prog k A (q + r + 1) 0 (PushMixedRecord E G L q r) t s M'"
  using assms
proof (intro runs_make [OF assms(1), where f = "mixed_lit q" and desc = "MAKE_MIXED_DESC (of_nat q) (of_nat r)"])
  fix m A p xs l
  assume o: "obj_at m A p (MAKE_MIXED_DESC (of_nat q) (of_nat r)) (q + r)" "length xs = q + r"
    "\<forall>i < q + r. item_rep G m A (m (at_ix p i)) (xs ! i)" "mixed_lit q xs = Some l"
  then obtain ls ws where lw: "opts (map uniform (take q xs)) = Some ls" "opts (map bits (drop q xs)) = Some ws" "l = LMixed ls ws"
    by (auto simp: mixed_lit_def split: option.splits)
  have 1: "\<forall>i < length (take q xs). item_rep G m A (m (at_ix p i)) (take q xs ! i)" using o by simp
  have 2: "\<forall>i < length (drop q xs). item_rep G m A (m (at_ix p (q + i))) (drop q xs ! i)" using o by simp
  note u = uniform_fields [OF lw(1) 1] and b = bits_fields [OF lw(2) 2]
  have len: "length ls = q" "length ws = r" using u(1) b(1) o(2) by simp_all
  show "lit_rep G m A p l" unfolding lw(3) using u(2) b(2) o(1) by (intro lit_rep.rep_mixed) (simp_all add: len)
qed (simp_all add: PushMixedRecord_def)

text \<open>Composition: an allocation, then an operation.\<close>

lemma block_add: "used n (vm_rt s) (vm_rt s1) \<Longrightarrow> block n s \<union> block n' s1 = block (n + n') s"
proof -
  assume u: "used n (vm_rt s) (vm_rt s1)"
  have "{..<n + n'} = {..<n} \<union> (\<lambda>j. n + j) ` {..<n'}"
    by (simp add: lessThan_atLeast0 image_add_atLeastLessThan ivl_disj_un_two(3) add.commute)
  then show ?thesis using u by (simp add: used_def image_Un image_image at_ix_at_ix)
qed

lemma runs_after:
  assumes u: "used n (vm_rt s) (vm_rt s1)" and op: "op t s = op' t1 s1"
    and t: "ls_pc t1 = ls_pc t + c" "ls_maxDepth t1 = ls_maxDepth t" "length (ls_saved t1) = length (ls_saved t)"
    and r: "runs G L prog (k - n) (A \<union> block n s) n' c' op' t1 s1 M'"
  shows "runs G L prog k A (n + n') (c + c') op t s M'"
proof -
  from r obtain t' s' where r': "op' t1 s1 = Inr ((), t', s')" "sim G L prog (k - n - n') (A \<union> block n s \<union> block n' s1) t' s' M'"
    "used n' (vm_rt s1) (vm_rt s')" "ls_pc t' = ls_pc t1 + c'" "ls_maxDepth t' = ls_maxDepth t1" "length (ls_saved t') = length (ls_saved t1)"
    unfolding runs_def by blast
  have "A \<union> block n s \<union> block n' s1 = A \<union> block (n + n') s" using block_add [OF u, of n'] by blast
  then have "sim G L prog (k - (n + n')) (A \<union> block (n + n') s) t' s' M'" using r'(2) by (simp add: diff_diff_left)
  moreover have "op t s = Inr ((), t', s')" "ls_pc t' = ls_pc t + (c + c')" "ls_maxDepth t' = ls_maxDepth t" "length (ls_saved t') = length (ls_saved t)"
    using r'(1,4,5,6) t op by simp_all
  ultimately show ?thesis using used_trans [OF u r'(3)] unfolding runs_def by blast
qed

lemma runs_header:
  assumes sm: "sim G L prog k A t s M" and k: "3 \<le> k" and d: "int (length (mc_stk M)) < ls_maxDepth t"
    and rep: "\<And>m A' v. obj_at m A' v desc 2 \<Longrightarrow> m v = data \<Longrightarrow> m (at_ix v 1) = INT_ml (int n) \<Longrightarrow> (\<And>c. c \<in> A \<Longrightarrow> m c = rt_mem (vm_rt s) c) \<Longrightarrow>
      A \<subseteq> A' \<Longrightarrow> lit_rep G m A' v l"
  shows "runs G L prog k A 3 0 (lbind (lvm (seq_hdr desc data (of_nat n))) PushMLValue) t s (mc_push (Uniform l) M)"
proof -
  let ?ws = "[data, INT_ml (int n)]"
  have hdr: "ML_AllocSeqHdr desc data (of_nat n) = alloc_obj desc ?ws" by (simp add: ML_AllocSeqHdr_def INT_CtoML_def INT_ml_def fun_eq_iff)
  obtain v r where a: "alloc_obj desc ?ws (vm_rt s) = (v, r)" by fastforce
  from sm have h: "lit_heap L prog k A s" by (simp add: sim_def)
  have k': "length ?ws + 1 \<le> k" using k by simp
  note u = alloc_used [OF h k' a]
  have u3: "used 3 (vm_rt s) (vm_rt (s\<lparr>vm_rt := r\<rparr>))" using u(1) by (simp add: numeral_3_eq_3)
  have "lit_rep G (rt_mem r) (A \<union> block 3 s) v l"
    using u(2) u(3) [of 0] u(3) [of 1] lit_heap_alloc(2) [OF h k' u(1)] by (intro rep) (simp_all add: numeral_3_eq_3 numeral_2_eq_2)
  moreover have "sim G L prog (k - 3) (A \<union> block 3 s) t (s\<lparr>vm_rt := r\<rparr>) M" using sim_alloc [OF sm k' u(1)] by (simp add: numeral_3_eq_3)
  ultimately have "runs G L prog (k - 3) (A \<union> block 3 s) 0 0 (PushMLValue v) t (s\<lparr>vm_rt := r\<rparr>) (mc_push (Uniform l) M)"
    unfolding PushMLValue_def using d by (intro runs_push) (simp_all add: item_rep_def mc_push_def)
  from runs_after [OF u3 _ _ _ _ this, of "lbind (lvm (seq_hdr desc data (of_nat n))) PushMLValue" t 0] a show ?thesis
    by (simp add: lit_defs seq_hdr_def lift_rt_def hdr)
qed

lemma runs_VEC:
  assumes sm: "sim G L prog k A t s M" and ex: "mc_exec (VEC n) M = Some M'" and n0: "0 < n" "n \<le> 512" and k: "n + 1 + 3 \<le> k"
    and d: "int (length (mc_stk M')) \<le> ls_maxDepth t"
  shows "runs G L prog k A (n + 1 + 3) 0 (PushVector E G L n) t s M'"
proof -
  let ?d = "MAKE_DESC (of_nat n) DTAG_vec_data" and ?t = "t\<lparr>ls_stk := cut n (ls_stk t)\<rparr>" and ?A = "A \<union> block (n + 1) s"
  from ex have mk: "mc_make n (\<lambda>xs. map_option LVector (opts (map uniform xs))) M = Some M'" by simp
  note n = make_depth(1) [OF mk]
  obtain ls where l: "opts (map uniform (tip n (mc_stk M))) = Some ls" "M' = mc_push (Uniform (LVector ls)) (M\<lparr>mc_stk := cut n (mc_stk M)\<rparr>)"
    using make_depth(2) [OF mk] by auto
  have n1: "n + 1 \<le> k" using k by simp
  from make_object [OF sm n n1, of ?d] obtain p r where
    a: "alloc_fields ?d n t s = Inr (p, ?t, s\<lparr>vm_rt := r\<rparr>)" "used (n + 1) (vm_rt s) r"
      "sim G L prog (k - (n + 1)) ?A ?t (s\<lparr>vm_rt := r\<rparr>) (M\<lparr>mc_stk := cut n (mc_stk M)\<rparr>)"
      "obj_at (rt_mem r) ?A p ?d n" "\<forall>i < n. item_rep G (rt_mem r) ?A (rt_mem r (at_ix p i)) (tip n (mc_stk M) ! i)" by blast
  have len: "length (tip n (mc_stk M)) = n" by (rule tip_length [OF n])
  have fields: "length ls = n" "\<And>i. i < n \<Longrightarrow> lit_rep G (rt_mem r) ?A (rt_mem r (at_ix p i)) (ls ! i)"
    using uniform_fields [OF l(1), of G "rt_mem r" ?A p] a(5) len by simp_all
  have "runs G L prog (k - (n + 1)) ?A 3 0 (lbind (lvm (seq_hdr DESC_polyvec p (of_nat n))) PushMLValue) ?t (s\<lparr>vm_rt := r\<rparr>) M'"
    unfolding l(2)
  proof (rule runs_header [OF a(3)])
    show "3 \<le> k - (n + 1)" using k by simp
    show "int (length (mc_stk (M\<lparr>mc_stk := cut n (mc_stk M)\<rparr>))) < ls_maxDepth ?t" using d l(2) by (simp add: mc_push_def)
    fix m A' v
    assume v: "obj_at m A' v DESC_polyvec 2" "m v = p" "m (at_ix v 1) = INT_ml (int n)" and fr: "\<And>c. c \<in> ?A \<Longrightarrow> m c = rt_mem (vm_rt (s\<lparr>vm_rt := r\<rparr>)) c" and sub: "?A \<subseteq> A'"
    have fr': "\<And>c. c \<in> ?A \<Longrightarrow> m c = rt_mem r c" using fr by simp
    have "lit_rep G m A' (m (at_ix p i)) (ls ! i)" if "i < length ls" for i
      using lit_rep_frame [OF fields(2) fr' sub, of i] obj_at_field [OF a(4) _ fr', of i] that fields(1) by simp
    then show "lit_rep G m A' v (LVector ls)"
      using v fields(1) n0(1) obj_at_frame [OF a(4) fr' sub] by (intro lit_rep.rep_vec) auto
  qed
  moreover from sm have h: "lit_heap L prog k A s" by (simp add: sim_def)
  have "PushVector E G L n t s = lbind (lvm (seq_hdr DESC_polyvec p (of_nat n))) PushMLValue ?t (s\<lparr>vm_rt := r\<rparr>)"
    using a(1) n0(2) CheckGC_room [OF h k, of "8 * (of_nat n + 1 + 3)" E G t] by (simp add: PushVector_def lit_defs)
  moreover have "used (n + 1) (vm_rt s) (vm_rt (s\<lparr>vm_rt := r\<rparr>))" using a(2) by simp
  ultimately show ?thesis using runs_after [of "n + 1" s "s\<lparr>vm_rt := r\<rparr>" "PushVector E G L n" t _ ?t 0 G L prog k A 3 0 M'] by simp
qed

lemma runs_SAVE:
  assumes sm: "sim G L prog k A t s M" and ex: "mc_exec (SAVE i) M = Some M'" and i: "i < length (ls_saved t)"
  shows "runs G L prog k A 0 0 (lit_store i) t s M'"
proof -
  from ex have M': "mc_stk M \<noteq> []" "M' = M\<lparr>mc_saved := (mc_saved M)(i \<mapsto> last (mc_stk M))\<rparr>" by (auto split: if_splits)
  have l: "list_all2 (item_rep G (rt_mem (vm_rt s)) A) (map snd (ls_stk t)) (mc_stk M)" using sm by (simp add: sim_def)
  then have len: "length (ls_stk t) = length (mc_stk M)" by (auto dest: list_all2_lengthD)
  then have ne: "ls_stk t \<noteq> []" using M'(1) by auto
  have "item_rep G (rt_mem (vm_rt s)) A (last (map snd (ls_stk t))) (last (mc_stk M))"
    using list_all2_nthD [OF l, of "length (mc_stk M) - 1"] M'(1) ne len by (simp add: last_conv_nth)
  then have it: "item_rep G (rt_mem (vm_rt s)) A (snd (last (ls_stk t))) (last (mc_stk M))" using ne by (simp add: last_map)
  let ?t = "t\<lparr>ls_saved := (ls_saved t)[i := snd (last (ls_stk t))]\<rparr>"
  have "lit_store i t s = Inr ((), ?t, s)" using ne i by (simp add: lit_store_def)
  moreover have "sim G L prog k A ?t s M'" using sm it i by (auto simp: sim_def M'(2) nth_list_update)
  ultimately show ?thesis using used_refl by (auto simp: runs_def)
qed

lemma runs_LOAD:
  assumes sm: "sim G L prog k A t s M" and ex: "mc_exec (LOAD i) M = Some M'" and d: "int (length (mc_stk M')) \<le> ls_maxDepth t"
  shows "runs G L prog k A 0 0 (lit_load i) t s M'"
proof -
  from ex obtain x where x: "mc_saved M i = Some x" "M' = mc_push x M" by (auto split: option.splits)
  then have i: "i < length (ls_saved t)" "item_rep G (rt_mem (vm_rt s)) A (ls_saved t ! i) x" using sm by (auto simp: sim_def)
  from runs_push [OF sm i(2), of VK_OBJ] d x(2) have "runs G L prog k A 0 0 (PushMLValue (ls_saved t ! i)) t s M'" by (simp add: PushMLValue_def)
  then show ?thesis using i(1) by (auto simp: runs_def lit_load_def)
qed

section \<open>Strings\<close>

lemma bytes_to_words: "n < 2 ^ 32 \<Longrightarrow> BYTES_TO_WORDS (of_nat n + 1) = of_nat (n div 8 + 1)"
proof (rule word_unat_eq_iff [THEN iffD2])
  assume n: "n < 2 ^ 32"
  then have "unat (of_nat n + 1 + 7 :: word_t) = n + 8" by (simp add: unat_word_ariths(1) unat_of_nat)
  moreover have "unat (drop_bit 3 w) = unat w div 8" for w :: word_t by (simp add: drop_bit_eq_div unat_div)
  ultimately have "unat (BYTES_TO_WORDS (of_nat n + 1)) = n div 8 + 1" by (simp add: BYTES_TO_WORDS_def)
  moreover have "n div 8 + 1 < 2 ^ 64" using n by simp
  then have "unat (of_nat (n div 8 + 1) :: word_t) = n div 8 + 1" by (simp only: unat_of_nat) simp
  ultimately show "unat (BYTES_TO_WORDS (of_nat n + 1)) = unat (of_nat (n div 8 + 1) :: word_t)" by (simp only:)
qed

text \<open>The memory of a string's data: descriptor, the last word zero, then the bytes.\<close>

definition str_mem :: "addr_t \<Rightarrow> byte_t list \<Rightarrow> memory \<Rightarrow> memory" where
  "str_mem p bs m = (let n = length bs div 8 + 1 in
     put_bytes (p + 8) bs (m(p := MAKE_DESC (of_nat n) DTAG_raw, at_ix p n := 0)))"

lemma str_mem_ok:
  assumes p: "unat p mod 8 = 0" "unat p + 8 * (length bs div 8 + 2) < 2 ^ 64"
  shows "\<And>c. (\<And>j. j < length bs div 8 + 2 \<Longrightarrow> c \<noteq> at_ix p j) \<Longrightarrow> str_mem p bs m c = m c"
    "(\<And>j. j < length bs div 8 + 2 \<Longrightarrow> at_ix p j \<in> A) \<Longrightarrow> str_data (str_mem p bs m) A (p + 8) bs"
proof -
  define d where "d = length bs div 8"
  have bd: "length bs < 8 * (d + 1)" unfolding d_def by (rule less_mult_div_Suc)
  have pd: "unat p + 8 * (d + 2) < 2 ^ 64" using p(2) by (simp only: d_def)
  let ?n = "length bs div 8 + 1"
  let ?m = "m(p := MAKE_DESC (of_nat ?n) DTAG_raw, at_ix p ?n := 0)"
  have q: "p + 8 = at_ix p 1" by (simp add: at_ix_def)
  have uq: "unat (p + 8) = unat p + 8" unfolding q using p(2) by (subst unat_at_ix) simp_all
  have al: "unat (p + 8) mod 8 = 0" using p(1) uq by simp
  have w: "wbase (p + 8 + of_nat i) = at_ix p (1 + i div 8)" if "i \<le> length bs" for i
  proof -
    have "unat (p + 8) + i < 2 ^ 64" by (rule le_less_trans [OF _ pd]) (use uq bd that in simp)
    from aligned_byte(1) [OF al this] show ?thesis by (simp add: q at_ix_at_ix)
  qed
  have out: "str_mem p bs m c = ?m c" if "\<And>i. i < length bs \<Longrightarrow> c \<noteq> at_ix p (1 + i div 8)" for c
    unfolding str_mem_def Let_def using w that by (intro put_bytes_out) simp
  have lt: "1 + i div 8 < length bs div 8 + 2" if "i < length bs" for i using div_le_mono [of i "length bs" 8] that by simp
  show "str_mem p bs m c = m c" if c: "\<And>j. j < length bs div 8 + 2 \<Longrightarrow> c \<noteq> at_ix p j" for c
  proof -
    have "c \<noteq> p" "c \<noteq> at_ix p ?n" using c [of 0] c [of ?n] by simp_all
    then show ?thesis using out [of c] c lt by simp
  qed
  assume A: "\<And>j. j < length bs div 8 + 2 \<Longrightarrow> at_ix p j \<in> A"
  have inj: "at_ix p i \<noteq> at_ix p j" if "i \<noteq> j" "i < length bs div 8 + 2" "j < length bs div 8 + 2" for i j
    using at_ix_inj_below [OF p(2) that(2,3)] that(1) by blast
  have p0: "p \<noteq> at_ix p j" if "0 < j" "j < length bs div 8 + 2" for j using inj [of 0 j] that by simp
  have "str_mem p bs m p = ?m p" using p0 lt by (intro out) simp
  also have "\<dots> = MAKE_DESC (of_nat ?n) DTAG_raw" using p0 [of ?n] by simp
  finally have desc: "str_mem p bs m (p + 8 - 8) = MAKE_DESC (of_nat ?n) DTAG_raw" by simp
  have len: "length bs < 2 ^ 64" by (rule le_less_trans [OF _ pd]) (use bd in simp)
  have b1: "bytes_at (p + 8) (length bs) (str_mem p bs m) = bs" unfolding str_mem_def Let_def by (rule bytes_at_put_bytes [OF len])
  have "p + 8 + of_nat (length bs) \<noteq> p + 8 + of_nat i" if "i < length bs" for i
  proof -
    have "(of_nat (length bs) :: addr_t) \<noteq> of_nat i" 
    proof
      assume "(of_nat (length bs) :: addr_t) = of_nat i"
      from word_of_nat_inj_64 [OF len order_less_trans [OF that len] this] that show False by simp
    qed
    then show ?thesis by simp
  qed
  then have "byte_at (p + 8 + of_nat (length bs)) (str_mem p bs m) = byte_at (p + 8 + of_nat (length bs)) ?m"
    unfolding str_mem_def Let_def by (rule byte_at_put_bytes_out)
  also have "\<dots> = 0" using w [of "length bs"] by (simp add: byte_at_eq)
  finally have b2: "bytes_at (p + 8) (length bs + 1) (str_mem p bs m) = bs @ [0]" using b1 by (simp add: bytes_at_Suc)
  have "obj_at (str_mem p bs m) A (p + 8) (MAKE_DESC (of_nat ?n) DTAG_raw) ?n"
    unfolding obj_at_def using desc A [of 0] A [of "Suc _"] by (simp add: at_ix_Suc)
  then show "str_data (str_mem p bs m) A (p + 8) bs" unfolding str_data_def Let_def using al uq p(2) b2 by simp
qed

lemma str_mem_words:
  assumes "length bs < 2 ^ 32"
  shows "at_ix p (length bs div 8 + 1) = p + 8 + 8 * (BYTES_TO_WORDS (of_nat (length bs) + 1) - 1)"
  unfolding bytes_to_words [OF assms] by (simp add: at_ix_def)

lemma code_bytes_eq:
  assumes "holds_code L prog s" "drop pc prog = bs @ rest"
  shows "bytes_at (rt_mem (vm_rt s) (sl_code L) + of_nat pc) (length bs) (rt_mem (vm_rt s)) = bs"
proof (rule nth_equalityI)
  fix i assume "i < length (bytes_at (rt_mem (vm_rt s) (sl_code L) + of_nat pc) (length bs) (rt_mem (vm_rt s)))"
  then have i: "i < length bs" by simp
  have l: "pc + length bs \<le> length prog" using arg_cong [OF assms(2), of length] i by simp
  have "prog ! (pc + i) = (bs @ rest) ! i" using l i by (simp flip: assms(2))
  moreover have "bytes_at (rt_mem (vm_rt s) (sl_code L)) (length prog) (rt_mem (vm_rt s)) ! (pc + i) = prog ! (pc + i)"
    using assms(1) by (simp add: holds_code_def)
  ultimately show "bytes_at (rt_mem (vm_rt s) (sl_code L) + of_nat pc) (length bs) (rt_mem (vm_rt s)) ! i = bs ! i"
    using l i by (simp add: bytes_at_nth nth_append add.assoc)
qed simp

text \<open>The data of a small string: allocated, its last word cleared, the bytes copied from the code.\<close>

lemma string_small:
  assumes h: "lit_heap L prog k A s" and n: "n = length bs div 8" and len: "length bs \<le> 4095" and k: "n + 1 + 1 + 3 \<le> k"
    and c: "drop (ls_pc t) prog = bs @ rest"
  defines "p \<equiv> ml_allocPtr (vm_rt s)" and "szw \<equiv> BYTES_TO_WORDS (of_nat (length bs) + 1)"
  shows "string_data E G L szw t s = Inr (p + 8, t, s\<lparr>vm_rt := (vm_rt s)\<lparr>rt_mem := (rt_mem (vm_rt s))(p := MAKE_DESC szw DTAG_raw), ml_allocPtr := at_ix p (n + 2)\<rparr>\<rparr>)"
    "(let m = (rt_mem (vm_rt s))(p := MAKE_DESC szw DTAG_raw, p + 8 + 8 * (szw - 1) := 0) in
      put_bytes (p + 8) (bytes_at (m (sl_code L) + of_nat (ls_pc t)) (length bs) m) m) = str_mem p bs (rt_mem (vm_rt s))"
proof -
  have len32: "length bs < 2 ^ 32" using len by simp
  have szw: "szw = of_nat (n + 1)" unfolding szw_def n by (rule bytes_to_words [OF len32])
  have n512: "n + 1 \<le> 512" using len unfolding n by simp
  then have u: "unat szw = n + 1" unfolding szw by (subst unat_of_nat) simp
  then have "\<not> SMALL_OBJ_SZW < szw" using n512 by (simp add: word_less_nat_alt)
  then show "string_data E G L szw t s = Inr (p + 8, t, s\<lparr>vm_rt := (vm_rt s)\<lparr>rt_mem := (rt_mem (vm_rt s))(p := MAKE_DESC szw DTAG_raw), ml_allocPtr := at_ix p (n + 2)\<rparr>\<rparr>)"
    using CheckGC_room [OF h k, of "8 * (szw + 1 + 3)" E G t] u
    by (simp add: string_data_def Let_def lit_defs small_obj_def lift_rt_def ML_Alloc_def ML_AllocWrite_def upd_mem_def p_def szw)
  let ?m = "(rt_mem (vm_rt s))(p := MAKE_DESC szw DTAG_raw, p + 8 + 8 * (szw - 1) := 0)"
  have e: "p + 8 + 8 * (szw - 1) = at_ix p (n + 1)" unfolding n szw_def by (rule str_mem_words [OF len32, symmetric])
  have "?m c = rt_mem (vm_rt s) c" if "\<forall>j < n + 2. c \<noteq> at_ix p j" for c
    unfolding e using that [rule_format, of 0] that [rule_format, of "n + 1"] by simp
  then have "used (n + 2) (vm_rt s) ((vm_rt s)\<lparr>rt_mem := ?m, ml_allocPtr := at_ix p (n + 2)\<rparr>)" by (simp add: used_def p_def)
  from lit_heap_alloc(1) [OF h _ this] k have "holds_code L prog (s\<lparr>vm_rt := (vm_rt s)\<lparr>rt_mem := ?m, ml_allocPtr := at_ix p (n + 2)\<rparr>\<rparr>)"
    by (simp add: lit_heap_def)
  from code_bytes_eq [OF this c] have "bytes_at (?m (sl_code L) + of_nat (ls_pc t)) (length bs) ?m = bs" by simp
  then show "(let m = ?m in put_bytes (p + 8) (bytes_at (m (sl_code L) + of_nat (ls_pc t)) (length bs) m) m) = str_mem p bs (rt_mem (vm_rt s))"
    unfolding Let_def str_mem_def e by (simp add: szw n)
qed

lemma runs_STR8:
  assumes sm: "sim G L prog k A t s M" and ne: "bs \<noteq> []" and len: "length bs \<le> 4095" and k: "length bs div 8 + 1 + 1 + 3 \<le> k"
    and d: "int (length (mc_stk M)) < ls_maxDepth t" and c: "drop (ls_pc t) prog = bs @ rest"
  shows "runs G L prog k A (length bs div 8 + 1 + 1 + 3) (length bs) (PushString E G L (int (length bs))) t s (mc_push (Uniform (LStr bs)) M)"
proof -
  define n where "n = length bs div 8"
  let ?p = "ml_allocPtr (vm_rt s)" and ?m = "rt_mem (vm_rt s)" and ?A = "A \<union> block (n + 2) s" and ?t = "t\<lparr>ls_pc := ls_pc t + length bs\<rparr>"
  let ?r = "(vm_rt s)\<lparr>ml_allocPtr := at_ix ?p (n + 2), rt_mem := str_mem ?p bs ?m\<rparr>"
  from sm have h: "lit_heap L prog k A s" by (simp add: sim_def)
  have k': "n + 2 \<le> k" using k by (simp add: n_def)
  have al: "unat ?p mod 8 = 0" using h by (simp add: lit_heap_def free_space_def)
  have "unat ?p + 8 * (n + 2) < 2 ^ 64" by (rule le_less_trans [OF _ lit_heap_room [OF h]]) (use k' in simp)
  note ok = str_mem_ok [OF al this [unfolded n_def], folded n_def]
  have u: "used (n + 2) (vm_rt s) ?r" using ok(1) by (simp add: used_def)
  have dat: "str_data (rt_mem ?r) ?A (?p + 8) bs" using ok(2) [of ?A] by simp
  have sm1: "sim G L prog (k - (n + 2)) ?A ?t (s\<lparr>vm_rt := ?r\<rparr>) M" using sim_alloc [OF sm k' u] by (simp add: sim_def)
  have "runs G L prog (k - (n + 2)) ?A 3 0 (lbind (lvm (seq_hdr DESC_string (?p + 8) (of_nat (length bs)))) PushMLValue) ?t (s\<lparr>vm_rt := ?r\<rparr>) (mc_push (Uniform (LStr bs)) M)"
  proof (rule runs_header [OF sm1])
    show "3 \<le> k - (n + 2)" using k by (simp add: n_def)
    show "int (length (mc_stk M)) < ls_maxDepth ?t" using d by simp
    fix m A' v
    assume v: "obj_at m A' v DESC_string 2" "m v = ?p + 8" "m (at_ix v 1) = INT_ml (int (length bs))"
      and fr: "\<And>c. c \<in> ?A \<Longrightarrow> m c = rt_mem (vm_rt (s\<lparr>vm_rt := ?r\<rparr>)) c" and sub: "?A \<subseteq> A'"
    have "str_data m A' (?p + 8) bs" by (rule str_data_frame [OF dat _ sub]) (use fr in simp)
    then show "lit_rep G m A' v (LStr bs)" using v ne by (intro lit_rep.rep_str) simp_all
  qed
  moreover have "PushString E G L (int (length bs)) t s
    = lbind (lvm (seq_hdr DESC_string (?p + 8) (of_nat (length bs)))) PushMLValue ?t (s\<lparr>vm_rt := ?r\<rparr>)"
    using string_small(1) [OF h n_def len k [folded n_def] c, of E G] string_small(2) [OF h n_def len k [folded n_def] c, unfolded Let_def] len
    by (simp add: PushString_def lit_defs Let_def st_def upd_rt_def upd_mem_def del: fun_upd_apply)
  moreover have "used (n + 2) (vm_rt s) (vm_rt (s\<lparr>vm_rt := ?r\<rparr>))" using u by simp
  ultimately show ?thesis using runs_after [of "n + 2" s "s\<lparr>vm_rt := ?r\<rparr>" "PushString E G L (int (length bs))" t _ ?t "length bs" G L prog k A 3 0 "mc_push (Uniform (LStr bs)) M"]
    by (simp add: n_def)
qed

end
