(* ===== verification/Literal_Correct.thy ===== *)
theory Literal_Correct
  imports Literal_Sim Handler
begin

text \<open>
  The interpreter of literals as a whole: the simulation of one operation, of the loop and of
  \<open>BuildLiterals\<close>, from the header that the compiler writes to the value that is returned.
\<close>

section \<open>The interpreter\<close>

lemma runs_op:
  assumes sm: "sim G L prog k A t s M" and ex: "mc_exec i M = Some M'" and r: "in_range i" and k: "words i \<le> k"
    and d: "int (length (mc_stk M')) \<le> ls_maxDepth t" and sl: "\<And>j. i = SAVE j \<Longrightarrow> j < length (ls_saved t)"
    and c: "drop (ls_pc t) prog = operand i @ rest"
  shows "runs G L prog k A (words i) (length (operand i)) (lit_op E G L i) t s M'"
proof (cases i)
  case (INT63 n)
  then show ?thesis using ex d runs_push [OF sm, of "INT_ml n" "Uniform (LInt n)" VK_TAGINT] by (auto simp: PushTaggedInt_def item_rep_def lit_rep.rep_int)
next
  case (RAWINT64 n)
  then show ?thesis using ex d runs_push [OF sm, of "of_int n" "Bits (of_int n)" VK_RAWINT] by (auto simp: PushRawInt64_def item_rep_def)
next
  case (REAL64 x)
  then show ?thesis using ex d runs_push [OF sm, of x "Bits x" VK_REAL64] by (auto simp: PushReal64_def item_rep_def)
next
  case (STR8 bs)
  show ?thesis
  proof (cases "bs = []")
    case True
    then show ?thesis using STR8 ex d runs_push [OF sm, of "G_string0 G" "Uniform (LStr [])" VK_OBJ] by (auto simp: PushMLValue_def item_rep_def lit_rep.rep_str0)
  next
    case False
    have "int (length (mc_stk M)) < ls_maxDepth t" using STR8 ex d by (auto simp: mc_push_def)
    then show ?thesis using STR8 False ex r k c runs_STR8 [OF sm False, of rest E] by (auto simp: in_range_def)
  qed
next
  case (VEC n)
  show ?thesis
  proof (cases "n = 0")
    case True
    then have "M' = mc_push (Uniform (LVector [])) M" using VEC ex by (auto simp: mc_make_def mc_push_def)
    then show ?thesis using VEC True d runs_push [OF sm, of "G_vector0 G" "Uniform (LVector [])" VK_OBJ] by (auto simp: PushMLValue_def item_rep_def lit_rep.rep_vec0)
  next
    case False
    then show ?thesis using VEC ex r k d runs_VEC [OF sm, of n M' E] by (auto simp: in_range_def)
  qed
next
  case (RECORD n)
  then show ?thesis using ex k d runs_RECORD [OF sm, of n M' E] by simp
next
  case (RAWBLOCK n)
  then show ?thesis using ex k d runs_RAWBLOCK [OF sm, of n M' E] by simp
next
  case (MIXED p q)
  then show ?thesis using ex k d runs_MIXED [OF sm, of p q M' E] by simp
next
  case (SAVE n)
  then show ?thesis using ex sl runs_SAVE [OF sm, of n M'] by simp
next
  case (LOAD n)
  then show ?thesis using ex d runs_LOAD [OF sm, of n M'] by simp
qed (use ex in simp)

definition slots_below :: "nat \<Rightarrow> instr list \<Rightarrow> bool" where
  "slots_below n code \<longleftrightarrow> (\<forall>i \<in> set code. case i of SAVE j \<Rightarrow> j < n | _ \<Rightarrow> True)"

definition code_words :: "instr list \<Rightarrow> nat" where "code_words code = sum_list (map words code)"

lemma loop_return:
  assumes sm: "sim G L prog k A t s M" and c: "drop (ls_pc t) prog = 0xff # rest" and st: "mc_stk M = [Uniform l]"
  shows "\<exists>v t'. lit_loop (Suc fuel) E G L t s = Inr (v, t', s) \<and> lit_rep G (rt_mem (vm_rt s)) A v l"
proof -
  have h: "holds_code L prog s" using sm by (simp add: sim_def lit_heap_def)
  have "list_all2 (item_rep G (rt_mem (vm_rt s)) A) (map snd (ls_stk t)) [Uniform l]" using sm st by (simp add: sim_def)
  then obtain x where x: "ls_stk t = [x]" "item_rep G (rt_mem (vm_rt s)) A (snd x) (Uniform l)" by (auto simp: list_all2_Cons2)
  have "lit_step E G L t s = lit_return (t\<lparr>ls_pc := ls_pc t + 1\<rparr>) s" using step_opcode [OF h c, of 255 E G] by simp
  also have "\<dots> = Inr (Some (snd x), t\<lparr>ls_pc := ls_pc t + 1\<rparr>, s)" using x(1) by (simp add: lit_return_def)
  finally show ?thesis using x(2) by (simp add: lit_defs item_rep_def)
qed

lemma lit_loop_runs:
  assumes "sim G L prog k A t s M" "enc_list code = Some cs" "drop (ls_pc t) prog = cs @ rest" "mc_run code M = Some (l, d)"
    "int d \<le> ls_maxDepth t" "\<forall>i \<in> set code. in_range i" "slots_below (length (ls_saved t)) code" "code_words code \<le> k" "length code \<le> fuel"
  shows "\<exists>v t' s'. lit_loop fuel E G L t s = Inr (v, t', s') \<and> lit_rep G (rt_mem (vm_rt s')) (A \<union> block (code_words code) s) v l
    \<and> used (code_words code) (vm_rt s) (vm_rt s')"
  using assms
proof (induction code arbitrary: k A t s M cs d fuel)
  case (Cons i code)
  note sm = Cons.prems(1)
  from Cons.prems(9) obtain f where f: "fuel = Suc f" by (cases fuel) auto
  from Cons.prems(2) obtain bs ds where e: "enc i = Some bs" "enc_list code = Some ds" "cs = bs @ ds" by (auto split: option.splits)
  show ?case
  proof (cases "i = RETURN")
    case True
    with Cons.prems(4) have m: "mc_stk M = [Uniform l]" "code = []" by (auto split: list.splits mc_item.splits if_splits)
    have "drop (ls_pc t) prog = 0xff # ds @ rest" using Cons.prems(3) e True by simp
    from loop_return [OF sm this m(1), of f E] show ?thesis using True m(2) f used_refl by (auto simp: code_words_def)
  next
    case False
    with Cons.prems(4) obtain M' d' where m: "mc_exec i M = Some M'" "mc_run code M' = Some (l, d')" "d = max (length (mc_stk M')) d'"
      by (auto split: option.splits)
    have h: "holds_code L prog s" using sm by (simp add: sim_def lit_heap_def)
    have dr: "drop (ls_pc t) prog = bs @ ds @ rest" using Cons.prems(3) e(3) by simp
    from step_decodes [OF h dr e(1) _ False, of E G] Cons.prems(6) obtain q where
      q: "lit_step E G L t s = lthen (lit_op E G L i) (lret None) (t\<lparr>ls_pc := ls_pc t + q\<rparr>) s" "q + length (operand i) = length bs"
        "drop (ls_pc t + q) prog = operand i @ ds @ rest" by auto
    let ?t = "t\<lparr>ls_pc := ls_pc t + q\<rparr>"
    have sm': "sim G L prog k A ?t s M" using sm by (simp add: sim_def)
    have w: "code_words (i # code) = words i + code_words code" by (simp add: code_words_def)
    have "runs G L prog k A (words i) (length (operand i)) (lit_op E G L i) ?t s M'"
    proof (rule runs_op [OF sm' m(1)])
      show "in_range i" "words i \<le> k" "int (length (mc_stk M')) \<le> ls_maxDepth ?t" "drop (ls_pc ?t) prog = operand i @ ds @ rest"
        using Cons.prems(5,6,8) m(3) q(3) by (simp_all add: w)
      show "j < length (ls_saved ?t)" if "i = SAVE j" for j using Cons.prems(7) that by (simp add: slots_below_def)
    qed
    then obtain t' s' where r: "lit_op E G L i ?t s = Inr ((), t', s')" "sim G L prog (k - words i) (A \<union> block (words i) s) t' s' M'"
      "used (words i) (vm_rt s) (vm_rt s')" "ls_pc t' = ls_pc t + q + length (operand i)" "ls_maxDepth t' = ls_maxDepth t" "length (ls_saved t') = length (ls_saved t)"
      by (auto simp: runs_def)
    have "drop (ls_pc t') prog = ds @ rest" using drop_next [OF dr] r(4) q(2) by (simp add: add.assoc)
    moreover have "int d' \<le> ls_maxDepth t'" "\<forall>i \<in> set code. in_range i" "slots_below (length (ls_saved t')) code" "code_words code \<le> k - words i" "length code \<le> f"
      using Cons.prems(5-9) m(3) r(5,6) f by (simp_all add: w slots_below_def)
    ultimately obtain v t'' s'' where IH: "lit_loop f E G L t' s' = Inr (v, t'', s'')" "used (code_words code) (vm_rt s') (vm_rt s'')"
      "lit_rep G (rt_mem (vm_rt s'')) (A \<union> block (words i) s \<union> block (code_words code) s') v l"
      using Cons.IH [OF r(2) e(2) _ m(2), of f] by blast
    have "A \<union> block (words i) s \<union> block (code_words code) s' = A \<union> block (code_words (i # code)) s"
      unfolding w Un_assoc using block_add [OF r(3), of "code_words code"] by simp
    moreover have "lit_loop fuel E G L t s = Inr (v, t'', s'')" unfolding f using q(1) r(1) IH(1) by (simp add: lit_defs)
    ultimately show ?thesis using IH(2,3) used_trans [OF r(3) IH(2)] w by auto
  qed
qed simp

section \<open>BuildLiterals\<close>

lemma sim_init:
  assumes "lit_heap L prog k {} s"
  shows "sim G L prog k {} (init_lit d n pc) s mc_init"
  using assms by (simp add: sim_def init_lit_def mc_init_def)

lemma enc_nonempty: "enc i = Some bs \<Longrightarrow> bs \<noteq> []"
  by (cases i) (auto simp: encINT63_def encINT64_def enc_int_def encREAL64_def encSTR8_def Let_def encRECORD_def encRAW_def enc_len_def
      encMIXED_def encVEC_def enc_slot_def split: if_splits)

lemma header_length: "length (headerToBytes D S) = 16" by (simp add: headerToBytes_def)

lemma BuildLiterals_V3:
  assumes h: "lit_heap L (headerToBytes D S @ cs) k {} (s\<lparr>vm_rt := upd_mem (\<lambda>m. m(sl_code L := code)) (vm_rt s)\<rparr>)"
    and cs: "cs \<noteq> []" and len: "length cs < 2 ^ 30" and D: "0 \<le> D" "D < 2 ^ 31" and S: "0 \<le> S" "S < 2 ^ 31"
  shows "BuildLiterals E G L code (int (length (headerToBytes D S @ cs))) s =
    rbind (lit_loop (env_fuel E) E G L (init_lit D S 16) (s\<lparr>vm_rt := upd_mem (\<lambda>m. m(sl_code L := code)) (vm_rt s)\<rparr>)) (\<lambda>(v, _, s). Inr (v, s))"
proof -
  let ?prog = "headerToBytes D S @ cs" and ?s = "s\<lparr>vm_rt := upd_mem (\<lambda>m. m(sl_code L := code)) (vm_rt s)\<rparr>"
  from h have c: "holds_code L ?prog ?s" by (simp add: lit_heap_def)
  have l: "17 \<le> length ?prog" "length ?prog < 2 ^ 31" using cs len by (auto simp: header_length Suc_le_eq)
  then have "unat (of_nat (length ?prog) :: word_t) = length ?prog" by (subst unat_of_nat) simp
  then have "\<not> (of_nat (length ?prog) :: word_t) < 17" using l(1) by (simp only: word_less_nat_alt) simp
  then have nlt: "\<not> (of_int (int (length ?prog)) :: word_t) < 17" by simp
  note get = get_args(6) [OF c]
  have p: "?prog = be_bytes 4 0x20260912 @ be_bytes 4 D @ be_bytes 4 64 @ be_bytes 4 S @ cs" by (simp add: headerToBytes_def)
  have d1: "drop 0 ?prog = be_bytes 4 0x20260912 @ be_bytes 4 D @ be_bytes 4 64 @ be_bytes 4 S @ cs" using p by simp
  have d2: "drop 4 ?prog = be_bytes 4 D @ be_bytes 4 64 @ be_bytes 4 S @ cs" using drop_next [OF d1] by simp
  have d3: "drop 8 ?prog = be_bytes 4 64 @ be_bytes 4 S @ cs" using drop_next [OF d2] by simp
  have d4: "drop 12 ?prog = be_bytes 4 S @ cs" using drop_next [OF d3] by simp
  have g: "drop (ls_pc t) ?prog = be_bytes 4 n @ xs \<Longrightarrow> GetU32Arg L t ?s = Inr (word_of_int n, t\<lparr>ls_pc := ls_pc t + 4\<rparr>, ?s)" for t n xs
    by (rule get_args(6) [OF c])
  have s: "sint (word_of_int D :: u32) = D" "sint (word_of_int S :: u32) = S" using sint_word_of_int [of 31, where 'a = 32] D S by auto
  let ?t = "init_lit 0 0"
  have t: "(?t n)\<lparr>ls_pc := m\<rparr> = ?t m" "ls_pc (?t n) = n" for n m by (simp_all add: init_lit_def)
  have r: "GetU32Arg L (?t 0) ?s = Inr (0x20260912, ?t 4, ?s)" "GetU32Arg L (?t 4) ?s = Inr (word_of_int D, ?t 8, ?s)"
    "GetU32Arg L (?t 8) ?s = Inr (64, ?t 12, ?s)" "GetU32Arg L (?t 12) ?s = Inr (word_of_int S, ?t 16, ?s)"
    using g [of "?t 0"] g [of "?t 4"] g [of "?t 8"] g [of "?t 12"] d1 d2 d3 d4 by (simp_all add: t)
  have st: "lvm (st (sl_code L) code) t s = Inr ((), t, ?s)" for t by (simp add: lit_defs st_def upd_rt_def)
  show ?thesis unfolding BuildLiterals_def using nlt by (simp add: lbind_def lthen_def st r s t BuildLiteralsV3_def lret_def lfail_def)
qed

text \<open>C2. The interpreter builds what the compiler meant: let a program run on the reference
  machine to a literal with a stack of depth \<open>d\<close>, let its bytes follow a header with a maximal
  depth of at least \<open>d\<close> and enough slots, and let the allocation space have room for the words
  of its objects. Then \<open>BuildLiterals\<close> returns a value that represents the literal, all of whose
  objects are in the new block, and nothing changes outside the block and the variable for the code.\<close>

theorem BuildLiterals_correct:
  assumes run: "mc_run prog mc_init = Some (l, d)" and enc: "enc_list prog = Some cs"
    and r: "\<forall>i \<in> set prog. in_range i" "slots_below (nat S) prog" "length prog \<le> env_fuel E"
    and b: "int d \<le> D" "D < 2 ^ 31" "0 \<le> S" "S < 2 ^ 31" "length cs < 2 ^ 30"
    and h: "lit_heap L (headerToBytes D S @ cs) (code_words prog) {} (s\<lparr>vm_rt := upd_mem (\<lambda>m. m(sl_code L := code)) (vm_rt s)\<rparr>)"
  shows "\<exists>v s'. BuildLiterals E G L code (int (16 + length cs)) s = Inr (v, s')
    \<and> lit_rep G (rt_mem (vm_rt s')) (block (code_words prog) s) v l
    \<and> used (code_words prog) (upd_mem (\<lambda>m. m(sl_code L := code)) (vm_rt s)) (vm_rt s')"
proof -
  let ?prog = "headerToBytes D S @ cs" and ?s = "s\<lparr>vm_rt := upd_mem (\<lambda>m. m(sl_code L := code)) (vm_rt s)\<rparr>"
  from run obtain i ps where "prog = i # ps" by (cases prog) auto
  with enc have cs: "cs \<noteq> []" using enc_nonempty by (auto split: option.splits)
  have "drop (ls_pc (init_lit D S 16)) ?prog = cs @ []" using drop_next [of 0 ?prog "headerToBytes D S" cs] header_length by (simp add: init_lit_def)
  moreover have "int d \<le> ls_maxDepth (init_lit D S 16)" "slots_below (length (ls_saved (init_lit D S 16))) prog" using b(1) r(2) by (simp_all add: init_lit_def)
  ultimately obtain v t' s' where o: "lit_loop (env_fuel E) E G L (init_lit D S 16) ?s = Inr (v, t', s')"
    "lit_rep G (rt_mem (vm_rt s')) ({} \<union> block (code_words prog) ?s) v l" "used (code_words prog) (vm_rt ?s) (vm_rt s')"
    using lit_loop_runs [OF sim_init [OF h] enc _ run, of D S 16 "[]" "env_fuel E"] r b by blast
  have "BuildLiterals E G L code (int (length ?prog)) s = Inr (v, s')" using BuildLiterals_V3 [OF h cs b(5) _ b(2,3,4), of E G] b(1) o(1) by simp
  moreover have "int (length ?prog) = int (16 + length cs)" by (simp add: header_length)
  moreover have "block (code_words prog) ?s = block (code_words prog) s" by (simp add: upd_mem_def)
  ultimately show ?thesis using o(2,3) by auto
qed

text \<open>The bytes of \<open>ex_literals\<close> at address \<open>0x3000\<close> and a larger allocation space.\<close>

definition ex_code :: "byte_t list" where
  "ex_code = [0x89, 3, 97, 98, 99, 0xE8, 0x81, 3, 0xE8, 0xF0, 0x79, 0xC0, 1, 1, 0xA2, 0xff]"

definition ex_slots :: lit_slots where "ex_slots = \<lparr>sl_code = 0x2070, sl_root = 0x2078, sl_stk = 0x2080, sl_saved = 0x2088\<rparr>"

definition ex_load :: vm where
  "ex_load = ex_vm\<lparr>vm_rt := ex_rt\<lparr>rt_mem := put_bytes 0x3000 (headerToBytes 4 1 @ ex_code) ex_mem, ml_limitPtr := 0x7f000\<rparr>\<rparr>"

lemma ex_code_enc: "enc_list ex_literals = Some ex_code"
  by code_simp

lemma ex_run: "mc_run ex_literals mc_init = Some (LRecord [LStr [97, 98, 99], LInt 1000, LMixed [LStr [97, 98, 99]] [- 7]], 4)"
  by (simp add: ex_literals_def mc_init_def mc_push_def mc_make_def mixed_lit_def)

lemma ex_low: "i < 32 \<Longrightarrow> unat (wbase (0x3000 + of_nat i)) < 0x40000" "i < 32 \<Longrightarrow> wbase (0x3000 + of_nat i) \<noteq> 0x2070"
proof -
  assume i: "i < 32"
  have e: "wbase (0x3000 + of_nat i) = at_ix 0x3000 (i div 8)" by (rule aligned_byte(1)) (use i in simp_all)
  have "unat (at_ix 0x3000 (i div 8)) = 0x3000 + 8 * (i div 8)" by (subst unat_at_ix) (use i in simp_all)
  then have u: "unat (wbase (0x3000 + of_nat i)) = 0x3000 + 8 * (i div 8)" using e by simp
  then show "unat (wbase (0x3000 + of_nat i)) < 0x40000" using i by simp
  show "wbase (0x3000 + of_nat i) \<noteq> 0x2070"
  proof
    assume "wbase (0x3000 + of_nat i) = 0x2070"
    with u show False by simp
  qed
qed

lemma ex_load_heap:
  "lit_heap ex_slots (headerToBytes 4 1 @ ex_code) 12 {} (ex_load\<lparr>vm_rt := upd_mem (\<lambda>m. m(sl_code ex_slots := 0x3000)) (vm_rt ex_load)\<rparr>)"
proof -
  let ?bs = "headerToBytes 4 1 @ ex_code" and ?m = "put_bytes 0x3000 (headerToBytes 4 1 @ ex_code) ex_mem"
  have l: "length ?bs = 32" by (simp add: header_length ex_code_def)
  have "bytes_at 0x3000 32 (?m(0x2070 := 0x3000)) = bytes_at 0x3000 32 ?m" by (rule bytes_at_cong) (use ex_low(2) in simp)
  also have "\<dots> = ?bs" using bytes_at_put_bytes [of ?bs "0x3000" ex_mem] l by simp
  finally have c: "bytes_at 0x3000 (length ?bs) (?m(0x2070 := 0x3000)) = ?bs" using l by (simp only:)
  have "at_ix 0x40038 j \<noteq> 0x2070" if "j < 12" for j using low_not_at_ix [of "0x2070" j "0x40038"] that by simp
  moreover have "at_ix 0x40038 j \<noteq> wbase (0x3000 + of_nat i)" if "j < 12" "i < 32" for i j
    using low_not_at_ix [OF ex_low(1) [OF that(2)], of j "0x40038"] that(1) by simp
  ultimately have "free_space ex_slots ?bs 12 {} (upd_mem (\<lambda>m. m(sl_code ex_slots := 0x3000)) (vm_rt ex_load))"
    unfolding free_space_def Let_def l by (simp add: ex_load_def ex_slots_def upd_mem_def ex_rt_def)
  moreover have "holds_code ex_slots ?bs (ex_load\<lparr>vm_rt := upd_mem (\<lambda>m. m(sl_code ex_slots := 0x3000)) (vm_rt ex_load)\<rparr>)"
    using c by (simp add: holds_code_def ex_load_def ex_slots_def upd_mem_def)
  ultimately show ?thesis by (simp add: lit_heap_def)
qed

theorem BuildLiterals_correct_witness:
  "\<exists>v s'. BuildLiterals ex_env ex_globals ex_slots 0x3000 32 ex_load = Inr (v, s')
    \<and> lit_rep ex_globals (rt_mem (vm_rt s')) (block 12 ex_load) v (LRecord [LStr [97, 98, 99], LInt 1000, LMixed [LStr [97, 98, 99]] [- 7]])"
proof -
  have w: "code_words ex_literals = 12" by (simp add: code_words_def ex_literals_def)
  have r: "\<forall>i \<in> set ex_literals. in_range i" "slots_below (nat 1) ex_literals" "length ex_literals \<le> env_fuel ex_env"
    by (simp_all add: ex_literals_def in_range_def slots_below_def ex_env_def)
  have l: "length ex_code = 16" by (simp add: ex_code_def)
  from BuildLiterals_correct [OF ex_run ex_code_enc r _ _ _ _ _ ex_load_heap [folded w], where G = ex_globals] show ?thesis unfolding l w by auto
qed

end
