(* ===== verification/Writer.thy ===== *)
theory Writer
  imports Byte_Mem
begin

text \<open>
  The abstract output devices for heap data, \<open>gc/writer.h\<close>, and their two implementations: on
  ANSI C streams (\<open>gc/writer.c\<close>) and on regions of memory (\<open>gc/mem-writer.c\<close>). A writer is a
  structure of functions on its state, as in the source. The locale \<open>writer\<close> states what the
  clients rely on, and both implementations meet it.
\<close>

section \<open>Numbers as bytes\<close>

text \<open>The bytes of a number in memory, on the little-endian machine.\<close>

definition le_bytes :: "nat \<Rightarrow> word_t \<Rightarrow> byte_t list" where
  "le_bytes k w = map (\<lambda>i. ucast (drop_bit (8 * i) w)) [0..<k]"

section \<open>Streams\<close>

text \<open>
  A stream of the C library without its buffer: the contents of the file, the position, and
  the number of bytes that the device can hold. Writing past the end fills the gap with zeros;
  on a full device \<open>fwrite\<close> writes fewer bytes than asked for.
\<close>

record FILE_t =
  f_data :: "byte_t list"
  f_pos :: nat
  f_cap :: nat

definition overwrite :: "nat \<Rightarrow> byte_t list \<Rightarrow> byte_t list \<Rightarrow> byte_t list" where
  "overwrite p bs d = take p (d @ replicate (p - length d) 0) @ bs @ drop (p + length bs) d"

definition fwrite :: "byte_t list \<Rightarrow> FILE_t \<Rightarrow> nat \<times> FILE_t" where
  "fwrite bs f = (let n = min (length bs) (f_cap f - f_pos f) in
     (n, if n = 0 then f else f\<lparr>f_data := overwrite (f_pos f) (take n bs) (f_data f), f_pos := f_pos f + n\<rparr>))"

definition fread :: "nat \<Rightarrow> FILE_t \<Rightarrow> byte_t list \<times> FILE_t" where
  "fread n f = (let bs = take n (drop (f_pos f) (f_data f)) in (bs, f\<lparr>f_pos := f_pos f + length bs\<rparr>))"

text \<open>\<open>fseek\<close> with \<open>SEEK_SET\<close>: \<open>None\<close> is a failure.\<close>

definition fseek :: "int \<Rightarrow> FILE_t \<Rightarrow> FILE_t option" where
  "fseek offset f = (if offset < 0 then None else Some (f\<lparr>f_pos := nat offset\<rparr>))"

section \<open>Writers\<close>

record 's writer_t =
  errFlg :: "'s \<Rightarrow> bool"
  putWord :: "word_t \<Rightarrow> 's \<Rightarrow> 's"
  wr_write :: "byte_t list \<Rightarrow> 's \<Rightarrow> 's"
  flush :: "'s \<Rightarrow> 's"
  tell :: "'s \<Rightarrow> int res"
  seek :: "int \<Rightarrow> 's \<Rightarrow> 's res"

text \<open>\<open>writer.c\<close>: the state is the error flag and the stream. \<open>fflush\<close> has no effect on a stream without a buffer.\<close>

record file_wr =
  fw_err :: bool
  fw_file :: FILE_t

definition WR_OpenFile :: "FILE_t option \<Rightarrow> file_wr option" where
  "WR_OpenFile f = map_option (\<lambda>f. \<lparr>fw_err = False, fw_file = f\<rparr>) f"

definition file_Put :: "word_t \<Rightarrow> file_wr \<Rightarrow> file_wr" where
  "file_Put w wr = (let (n, f) = fwrite (le_bytes 8 w) (fw_file wr) in
     \<lparr>fw_err = fw_err wr \<or> n \<noteq> 8, fw_file = f\<rparr>)"

definition file_Write :: "byte_t list \<Rightarrow> file_wr \<Rightarrow> file_wr" where
  "file_Write bs wr = (let (n, f) = fwrite bs (fw_file wr) in
     \<lparr>fw_err = fw_err wr \<or> n \<noteq> length bs, fw_file = f\<rparr>)"

definition file_Flush :: "file_wr \<Rightarrow> file_wr" where "file_Flush wr = wr"

definition file_Tell :: "file_wr \<Rightarrow> int res" where "file_Tell wr = Inr (int (f_pos (fw_file wr)))"

definition file_Seek :: "int \<Rightarrow> file_wr \<Rightarrow> file_wr res" where
  "file_Seek offset wr = (case fseek offset (fw_file wr) of
     None \<Rightarrow> Inr (wr\<lparr>fw_err := True\<rparr>) | Some f \<Rightarrow> Inr (wr\<lparr>fw_file := f\<rparr>))"

definition file_writer :: "file_wr writer_t" where
  "file_writer = \<lparr>errFlg = fw_err, putWord = file_Put, wr_write = file_Write, flush = file_Flush,
     tell = file_Tell, seek = file_Seek\<rparr>"

text \<open>
  \<open>mem-writer.c\<close>: the state is the error flag, the buffer and the memory. Only assertions, which
  the modelled build does not have, compare the position with the end of the region.
\<close>

record wr_buffer =
  mw_err :: bool
  mw_base :: addr_t
  mw_next :: addr_t
  mw_top :: addr_t
  mw_mem :: memory

definition WR_OpenMem :: "addr_t \<Rightarrow> addr_t \<Rightarrow> memory \<Rightarrow> wr_buffer" where
  "WR_OpenMem data len m = \<lparr>mw_err = False, mw_base = data, mw_next = data, mw_top = data + len, mw_mem = m\<rparr>"

definition mem_Put :: "word_t \<Rightarrow> wr_buffer \<Rightarrow> wr_buffer" where
  "mem_Put w wr = wr\<lparr>mw_mem := put_bytes (mw_next wr) (le_bytes 8 w) (mw_mem wr), mw_next := mw_next wr + 8\<rparr>"

definition mem_Write :: "byte_t list \<Rightarrow> wr_buffer \<Rightarrow> wr_buffer" where
  "mem_Write bs wr = (if mw_err wr then wr
     else wr\<lparr>mw_mem := put_bytes (mw_next wr) bs (mw_mem wr), mw_next := mw_next wr + of_nat (length bs)\<rparr>)"

definition mem_Flush :: "wr_buffer \<Rightarrow> wr_buffer" where "mem_Flush wr = wr"

definition mem_Tell :: "wr_buffer \<Rightarrow> int res" where
  "mem_Tell wr = Inl (Die ''Tell not supported on memory writers'')"

definition mem_Seek :: "int \<Rightarrow> wr_buffer \<Rightarrow> wr_buffer res" where
  "mem_Seek offset wr = Inl (Die ''Tell not supported on memory writers'')"

definition mem_writer :: "wr_buffer writer_t" where
  "mem_writer = \<lparr>errFlg = mw_err, putWord = mem_Put, wr_write = mem_Write, flush = mem_Flush,
     tell = mem_Tell, seek = mem_Seek\<rparr>"

section \<open>What a client relies on\<close>

text \<open>
  A state with room for \<open>n\<close> more bytes accepts them without an error, appending them to the
  output; a word is written as its eight bytes.
\<close>

locale writer =
  fixes W :: "'s writer_t" and out :: "'s \<Rightarrow> byte_t list" and room :: "nat \<Rightarrow> 's \<Rightarrow> bool"
  assumes write_output: "room n s \<Longrightarrow> length bs \<le> n \<Longrightarrow> out (wr_write W bs s) = out s @ bs"
    and write_room: "room n s \<Longrightarrow> length bs \<le> n \<Longrightarrow> room (n - length bs) (wr_write W bs s)"
    and put_write: "room n s \<Longrightarrow> 8 \<le> n \<Longrightarrow> putWord W w s = wr_write W (le_bytes 8 w) s"
    and room_ok: "room n s \<Longrightarrow> \<not> errFlg W s"
begin

text \<open>A sequence of writes appends the concatenation.\<close>

lemma writes_output:
  "room n s \<Longrightarrow> length (concat bss) \<le> n \<Longrightarrow>
    out (fold (wr_write W) bss s) = out s @ concat bss \<and> room (n - length (concat bss)) (fold (wr_write W) bss s)"
proof (induction bss arbitrary: n s)
  case (Cons bs bss)
  have "length bs \<le> n" "length (concat bss) \<le> n - length bs" using Cons.prems(2) by simp_all
  then show ?case using Cons.IH [OF write_room [OF Cons.prems(1)]] write_output [OF Cons.prems(1)] by (simp add: diff_diff_left)
qed simp

lemma puts_output:
  "room n s \<Longrightarrow> 8 * length ws \<le> n \<Longrightarrow>
    out (fold (putWord W) ws s) = out s @ concat (map (le_bytes 8) ws) \<and> room (n - 8 * length ws) (fold (putWord W) ws s)"
proof (induction ws arbitrary: n s)
  case (Cons w ws)
  have l: "length (le_bytes 8 w) = 8" by (simp add: le_bytes_def)
  have w: "putWord W w s = wr_write W (le_bytes 8 w) s" "room (n - 8) (putWord W w s)"
    using put_write [OF Cons.prems(1)] write_room [OF Cons.prems(1), of "le_bytes 8 w"] l Cons.prems(2) by simp_all
  show ?case using Cons.IH [OF w(2)] Cons.prems(2) write_output [OF Cons.prems(1), of "le_bytes 8 w"] w(1) l by (simp add: diff_diff_left)
qed simp

end

section \<open>The implementations\<close>

lemma length_le_bytes [simp]: "length (le_bytes k w) = k" by (simp add: le_bytes_def)

text \<open>A stream at the end of its file.\<close>

definition file_room :: "nat \<Rightarrow> file_wr \<Rightarrow> bool" where
  "file_room n wr \<longleftrightarrow> \<not> fw_err wr \<and> f_pos (fw_file wr) = length (f_data (fw_file wr)) \<and> f_pos (fw_file wr) + n \<le> f_cap (fw_file wr)"

lemma fwrite_all: "f_pos f + length bs \<le> f_cap f \<Longrightarrow>
  fwrite bs f = (length bs, if bs = [] then f else f\<lparr>f_data := overwrite (f_pos f) bs (f_data f), f_pos := f_pos f + length bs\<rparr>)"
  by (auto simp: fwrite_def Let_def min_def)

lemma file_write_end: "file_room n wr \<Longrightarrow> length bs \<le> n \<Longrightarrow>
  file_Write bs wr = \<lparr>fw_err = False, fw_file = (fw_file wr)\<lparr>f_data := f_data (fw_file wr) @ bs, f_pos := f_pos (fw_file wr) + length bs\<rparr>\<rparr>"
  by (auto simp: file_room_def file_Write_def fwrite_all overwrite_def)

interpretation fw: writer file_writer "\<lambda>wr. f_data (fw_file wr)" file_room
proof
  fix n s bs w
  assume r: "file_room n s"
  show "length bs \<le> n \<Longrightarrow> f_data (fw_file (wr_write file_writer bs s)) = f_data (fw_file s) @ bs"
    using file_write_end [OF r, of bs] by (simp add: file_writer_def)
  show "length bs \<le> n \<Longrightarrow> file_room (n - length bs) (wr_write file_writer bs s)"
    using file_write_end [OF r, of bs] r by (simp add: file_writer_def file_room_def)
  show "putWord file_writer w s = wr_write file_writer (le_bytes 8 w) s" by (simp add: file_writer_def file_Put_def file_Write_def)
  show "\<not> errFlg file_writer s" using r by (simp add: file_writer_def file_room_def)
qed

text \<open>A region of memory that does not wrap around.\<close>

definition mem_room :: "nat \<Rightarrow> wr_buffer \<Rightarrow> bool" where
  "mem_room n wr \<longleftrightarrow> \<not> mw_err wr \<and> unat (mw_base wr) \<le> unat (mw_next wr) \<and> unat (mw_next wr) + n \<le> unat (mw_top wr)"

definition mem_output :: "wr_buffer \<Rightarrow> byte_t list" where
  "mem_output wr = bytes_at (mw_base wr) (unat (mw_next wr) - unat (mw_base wr)) (mw_mem wr)"

lemma mem_write_end:
  assumes r: "mem_room n wr" and l: "length bs \<le> n"
  shows "mem_output (mem_Write bs wr) = mem_output wr @ bs" "mem_room (n - length bs) (mem_Write bs wr)"
proof -
  let ?b = "mw_base wr" and ?x = "mw_next wr"
  define k where "k = unat ?x - unat ?b"
  have lt: "unat (mw_top wr) < 2 ^ 64" using unsigned_less [of "mw_top wr"] by simp
  have b: "unat ?b + k = unat ?x" "\<not> mw_err wr" "unat ?x + n \<le> unat (mw_top wr)" using r by (simp_all add: mem_room_def k_def)
  have "(of_nat (unat ?b + k) :: addr_t) = of_nat (unat ?x)" using b(1) by (simp only:)
  then have x: "?x = ?b + of_nat k" by simp
  have "unat (of_nat (length bs) :: addr_t) = length bs" using l b(3) lt by (simp add: unat_of_nat)
  then have u: "unat (?x + of_nat (length bs)) = unat ?x + length bs" using l b(3) lt by (simp add: unat_word_ariths(1))
  then show "mem_room (n - length bs) (mem_Write bs wr)" using r l by (simp add: mem_room_def mem_Write_def)
  have w: "mem_output (mem_Write bs wr) = bytes_at ?b (k + length bs) (put_bytes ?x bs (mw_mem wr))"
    using u b by (simp add: mem_output_def mem_Write_def k_def)
  have "byte_at (?b + of_nat i) (put_bytes ?x bs (mw_mem wr)) = byte_at (?b + of_nat i) (mw_mem wr)" if "i < k" for i
  proof (rule byte_at_put_bytes_out)
    fix j assume j: "j < length bs"
    have kj: "k + j < 2 ^ 64" by (rule le_less_trans [OF _ lt]) (use that j l b in simp)
    have i: "i < 2 ^ 64" by (rule le_less_trans [OF _ kj]) (use that in simp)
    have "(of_nat i :: addr_t) \<noteq> of_nat (k + j)"
    proof
      assume "(of_nat i :: addr_t) = of_nat (k + j)"
      from word_of_nat_inj_64 [OF i kj this] that show False by simp
    qed
    then show "?b + of_nat i \<noteq> ?x + of_nat j" unfolding x by (simp add: add.assoc)
  qed
  then have "bytes_at ?b k (put_bytes ?x bs (mw_mem wr)) = bytes_at ?b k (mw_mem wr)" by (simp add: bytes_at_def)
  moreover have "bytes_at ?x (length bs) (put_bytes ?x bs (mw_mem wr)) = bs" using l b(3) lt by (intro bytes_at_put_bytes) linarith
  moreover have "mem_output wr = bytes_at ?b k (mw_mem wr)" by (simp add: mem_output_def k_def)
  ultimately show "mem_output (mem_Write bs wr) = mem_output wr @ bs" unfolding w bytes_at_add x [symmetric] by (simp only:)
qed

interpretation mw: writer mem_writer mem_output mem_room
proof
  fix n s bs w
  assume r: "mem_room n s"
  show "length bs \<le> n \<Longrightarrow> mem_output (wr_write mem_writer bs s) = mem_output s @ bs" "length bs \<le> n \<Longrightarrow> mem_room (n - length bs) (wr_write mem_writer bs s)"
    using mem_write_end [OF r, of bs] by (simp_all add: mem_writer_def)
  show "putWord mem_writer w s = wr_write mem_writer (le_bytes 8 w) s" using r by (simp add: mem_writer_def mem_Put_def mem_Write_def mem_room_def)
  show "\<not> errFlg mem_writer s" using r by (simp add: mem_writer_def mem_room_def)
qed

end
