(* ===== verification/Buckets.thy ===== *)
theory Buckets
  imports RT_Prelude
begin

text \<open>
  Chained hash tables, as the address tables, the registry of C symbols and the export tables
  of the run-time system use them: an array of buckets, each a linked list of items that grows
  at its head. The operations below are the loops those files have in common; the locale
  \<open>bucket_table\<close> derives what a client may rely on from two facts about the index
  function, and each client interprets it with its own item type and index macro.
\<close>

type_synonym 'i buckets = "'i list list"

text \<open>\<open>item->next = tbl[n]; tbl[n] = item\<close>\<close>

definition bkt_ins :: "nat \<Rightarrow> 'i \<Rightarrow> 'i buckets \<Rightarrow> 'i buckets" where
  "bkt_ins n x t = t[n := x # t ! n]"

text \<open>The walk along one bucket to the first item with the given key.\<close>

definition bkt_find :: "('i \<Rightarrow> bool) \<Rightarrow> nat \<Rightarrow> 'i buckets \<Rightarrow> 'i option" where
  "bkt_find p n t = find p (t ! n)"

text \<open>
  Moving every item to a new table: bucket by bucket, each item to the head of its new bucket.
\<close>

definition bkt_rehash :: "('i \<Rightarrow> nat) \<Rightarrow> nat \<Rightarrow> 'i buckets \<Rightarrow> 'i buckets" where
  "bkt_rehash ix newSz t =
     fold (\<lambda>b u. fold (\<lambda>x u. bkt_ins (ix x) x u) b u) t (replicate newSz [])"

lemma length_bkt_ins [simp]: "length (bkt_ins n x t) = length t"
  by (simp add: bkt_ins_def)

lemma concat_bkt_ins: "n < length t \<Longrightarrow> mset (concat (bkt_ins n x t)) = add_mset x (mset (concat t))"
proof (induction t arbitrary: n)
  case (Cons b t)
  then show ?case by (cases n) (auto simp: bkt_ins_def)
qed simp

lemma set_concat_bkt_ins: "n < length t \<Longrightarrow> set (concat (bkt_ins n x t)) = insert x (set (concat t))"
  using concat_bkt_ins [of n t x] by (metis set_mset_add_mset_insert set_mset_mset)

lemma bkt_rehash_concat:
  "bkt_rehash ix newSz t = fold (\<lambda>x u. bkt_ins (ix x) x u) (concat t) (replicate newSz [])"
proof -
  have "fold (\<lambda>b u. fold f b u) t u = fold f (concat t) u" for f :: "'a \<Rightarrow> 'b \<Rightarrow> 'b" and t u
    by (induction t arbitrary: u) simp_all
  then show ?thesis by (simp add: bkt_rehash_def)
qed

lemma length_fold_bkt_ins [simp]: "length (fold (\<lambda>x u. bkt_ins (ix x) x u) xs t) = length t"
  by (induction xs arbitrary: t) auto

lemma length_bkt_rehash [simp]: "length (bkt_rehash ix newSz t) = newSz"
  by (simp add: bkt_rehash_concat)

lemma map_of_find:
  assumes "distinct (map fst xs)" and "\<And>p. r = Some p \<longleftrightarrow> p \<in> set xs \<and> fst p = a"
  shows "map_option snd r = map_of xs a"
proof (cases r)
  case None
  with assms(2) have "a \<notin> fst ` set xs" by auto
  with None show ?thesis by (simp add: map_of_eq_None_iff [symmetric])
next
  case (Some p)
  with assms(2) [of p] have "(a, snd p) \<in> set xs" by (cases p) auto
  with Some assms(1) show ?thesis by simp
qed

lemma sorted_concat:
  fixes f :: "'i \<Rightarrow> nat"
  assumes "\<forall>n < length t. \<forall>x \<in> set (t ! n). f x = k + n"
  shows "sorted (map f (concat t))"
  using assms
proof (induction t arbitrary: k)
  case (Cons b t)
  have b: "\<forall>x \<in> set b. f x = k" using Cons.prems by (metis add.right_neutral length_greater_0_conv list.distinct(1) nth_Cons_0)
  have t: "\<forall>n < length t. \<forall>x \<in> set (t ! n). f x = Suc k + n"
    using Cons.prems by (metis add_Suc_shift length_Cons not_less_eq nth_Cons_Suc)
  have "map f b = replicate (length b) k" using b by (simp add: map_replicate_const [symmetric])
  moreover have "k \<le> f x" if "x \<in> set (concat t)" for x
  proof -
    from that obtain c where "c \<in> set t" "x \<in> set c" by auto
    then obtain n where "n < length t" "x \<in> set (t ! n)" by (metis in_set_conv_nth)
    with t show ?thesis by auto
  qed
  ultimately show ?case using Cons.IH [OF t] by (auto simp: sorted_append)
qed simp

locale bucket_table =
  fixes key :: "'i \<Rightarrow> 'k"
    and idx :: "'k \<Rightarrow> nat \<Rightarrow> nat"      \<comment> \<open>bucket of a key in a table of the given size\<close>
  assumes idx_bound: "0 < sz \<Longrightarrow> idx k sz < sz"
begin

definition placed :: "'i buckets \<Rightarrow> bool" where
  "placed t \<longleftrightarrow> (\<forall>n < length t. \<forall>x \<in> set (t ! n). idx (key x) (length t) = n)"

definition unique :: "'i buckets \<Rightarrow> bool" where
  "unique t \<longleftrightarrow> distinct (map key (concat t))"

definition bok :: "'i buckets \<Rightarrow> bool" where
  "bok t \<longleftrightarrow> placed t \<and> unique t"

lemma bok_replicate: "bok (replicate sz [])"
  by (simp add: bok_def placed_def unique_def)

lemma find_placed:
  assumes "placed t" "0 < length t"
  shows "bkt_find (\<lambda>x. key x = k) (idx k (length t)) t = None
     \<longleftrightarrow> k \<notin> key ` set (concat t)"
proof -
  have "x \<in> set (t ! idx k (length t))" if "x \<in> set (concat t)" "key x = k" for x
  proof -
    from that(1) obtain n where "n < length t" "x \<in> set (t ! n)"
      by (auto simp: in_set_conv_nth [of _ t])
    with that(2) assms(1) show ?thesis by (auto simp: placed_def)
  qed
  moreover have "x \<in> set (concat t)" if "x \<in> set (t ! idx k (length t))" for x
    using that idx_bound [OF assms(2)] by auto
  ultimately show ?thesis by (auto simp: bkt_find_def find_None_iff)
qed

lemma find_Some:
  assumes "bkt_find (\<lambda>x. key x = k) (idx k (length t)) t = Some x" "0 < length t"
  shows "x \<in> set (concat t) \<and> key x = k"
proof -
  from assms(1) have "x \<in> set (t ! idx k (length t))" "key x = k"
    by (auto simp: bkt_find_def find_Some_iff)
  with idx_bound [OF assms(2), of k] show ?thesis by auto
qed

lemma unique_key: "unique t \<Longrightarrow> x \<in> set (concat t) \<Longrightarrow> y \<in> set (concat t) \<Longrightarrow> key x = key y \<Longrightarrow> x = y"
  unfolding unique_def by (metis distinct_map inj_onD)

text \<open>The lookup law: a walk finds exactly the item of the table that has the key.\<close>

lemma find_iff:
  assumes "bok t" "0 < length t"
  shows "bkt_find (\<lambda>x. key x = k) (idx k (length t)) t = Some x
     \<longleftrightarrow> x \<in> set (concat t) \<and> key x = k"
proof
  assume x: "x \<in> set (concat t) \<and> key x = k"
  with find_placed [of t k] assms obtain y
    where y: "bkt_find (\<lambda>x. key x = k) (idx k (length t)) t = Some y"
    by (auto simp: bok_def)
  with find_Some [OF y] x assms unique_key [of t x y] show
    "bkt_find (\<lambda>x. key x = k) (idx k (length t)) t = Some x"
    by (simp add: bok_def)
qed (rule find_Some [OF _ assms(2)])

lemma placed_ins: "placed t \<Longrightarrow> placed (bkt_ins (idx (key x) (length t)) x t)"
  by (cases "idx (key x) (length t) < length t") (auto simp: placed_def bkt_ins_def nth_list_update)

lemma bok_ins:
  assumes "bok t" "0 < length t" "key x \<notin> key ` set (concat t)"
  shows "bok (bkt_ins (idx (key x) (length t)) x t)"
proof -
  have "mset (map key (concat (bkt_ins (idx (key x) (length t)) x t)))
      = mset (map key (x # concat t))"
    using concat_bkt_ins [OF idx_bound [OF assms(2)], of "key x" x] by simp
  then have "unique (bkt_ins (idx (key x) (length t)) x t) \<longleftrightarrow> distinct (map key (x # concat t))"
    unfolding unique_def by (metis mset_eq_imp_distinct_iff)
  then show ?thesis using assms placed_ins by (auto simp: bok_def unique_def)
qed

lemma set_ins:
  "0 < length t \<Longrightarrow> set (concat (bkt_ins (idx (key x) (length t)) x t)) = insert x (set (concat t))"
  by (rule set_concat_bkt_ins) (rule idx_bound)

text \<open>Growing keeps the items and puts each in the bucket of the new size.\<close>

lemma fold_ins:
  "placed u \<Longrightarrow> 0 < length u \<Longrightarrow>
   placed (fold (\<lambda>x u. bkt_ins (idx (key x) (length u)) x u) xs u)
   \<and> mset (concat (fold (\<lambda>x u. bkt_ins (idx (key x) (length u)) x u) xs u)) = mset xs + mset (concat u)"
proof (induction xs arbitrary: u)
  case (Cons x xs)
  from Cons.IH [OF placed_ins [OF Cons.prems(1), of x]] Cons.prems show ?case
    by (simp add: concat_bkt_ins idx_bound)
qed simp

lemma rehash_ok:
  assumes "unique t" "0 < newSz"
  defines "u \<equiv> bkt_rehash (\<lambda>x. idx (key x) newSz) newSz t"
  shows "bok u \<and> set (concat u) = set (concat t)"
proof -
  have eq: "fold (\<lambda>x u. bkt_ins (idx (key x) newSz) x u) xs v
      = fold (\<lambda>x u. bkt_ins (idx (key x) (length u)) x u) xs v" if "length v = newSz" for xs v
    using that by (induction xs arbitrary: v) auto
  have "placed u \<and> mset (concat u) = mset (concat t)"
    using fold_ins [of "replicate newSz []" "concat t"] assms(2)
    by (simp add: u_def bkt_rehash_concat eq placed_def)
  moreover from this have "distinct (map key (concat u)) = distinct (map key (concat t))"
    by (metis mset_eq_imp_distinct_iff mset_map)
  ultimately show ?thesis
    using assms(1) mset_eq_setD [of "concat u" "concat t"] by (simp add: bok_def unique_def)
qed

end

end
