(* ===== verification/C_Globals.thy ===== *)
theory C_Globals
  imports Buckets Tags "HOL-Library.Signed_Division"
begin

text \<open>
  The registry of C symbols of \<open>gc/c-globals-tbl.c\<close>: the global symbol and address
  tables, which share their items, and the export tables that number the symbols a heap image
  refers to. Linked items are never modified apart from their \<open>next\<close> pointers, so a bucket
  is the list of its items. A \<open>char\<close> is signed, and the sizes are far below \<open>2^31\<close>.
\<close>

section \<open>Hashing\<close>

definition schar :: "char \<Rightarrow> int" where
  "schar c = sint (of_char c :: byte_t)"

text \<open>
  The body of the loop of \<open>HASH_STRING\<close>: the sum is computed in \<open>unsigned\<close> arithmetic and
  stored in an \<open>int\<close>; the division truncates.
\<close>

definition hash_step :: "int \<Rightarrow> char \<Rightarrow> int" where
  "hash_step h c =
     (let n = sint (word_of_int (128 * h + schar c) :: u32) in n - 8388593 * (n sdiv 8388593))"

definition HASH_STRING :: "string \<Rightarrow> int" where
  "HASH_STRING name = foldl hash_step 0 name"

definition STRHASH_INDEX :: "int \<Rightarrow> nat \<Rightarrow> nat" where
  "STRHASH_INDEX h sz = nat (h AND (int sz - 1))"

definition ADDRHASH_INDEX :: "word_t \<Rightarrow> nat \<Rightarrow> nat" where
  "ADDRHASH_INDEX a sz = unat (drop_bit 3 a AND (of_nat sz - 1))"

section \<open>The registry\<close>

record item =
  it_addr :: word_t
  it_name :: string
  it_stringHash :: int

record registry =
  SymbolTable :: "item buckets"
  AddrTable :: "item buckets"
  TableSize :: nat
  NumSymbols :: nat

definition empty_registry :: registry where
  "empty_registry = \<lparr>SymbolTable = [], AddrTable = [], TableSize = 0, NumSymbols = 0\<rparr>"

text \<open>Doubling both tables when they are full.\<close>

definition grow_registry :: "registry \<Rightarrow> registry" where
  "grow_registry r =
     (if TableSize r = NumSymbols r then
        (let newTblSz = (if TableSize r \<noteq> 0 then 2 * TableSize r else 64) in
         r\<lparr>SymbolTable := bkt_rehash (\<lambda>it. STRHASH_INDEX (it_stringHash it) newTblSz) newTblSz (SymbolTable r),
           AddrTable := bkt_rehash (\<lambda>it. ADDRHASH_INDEX (it_addr it) newTblSz) newTblSz (AddrTable r),
           TableSize := newTblSz\<rparr>)
      else r)"

definition RecordCSymbol :: "string \<Rightarrow> word_t \<Rightarrow> registry \<Rightarrow> registry res" where
  "RecordCSymbol name addr r0 =
     (let r = grow_registry r0;
          hash = HASH_STRING name;
          it = \<lparr>it_addr = addr, it_name = name, it_stringHash = hash\<rparr>;
          n = STRHASH_INDEX hash (TableSize r);
          m = ADDRHASH_INDEX addr (TableSize r)
      in case bkt_find (\<lambda>p. it_stringHash p = hash \<and> name = it_name p) n (SymbolTable r) of
        Some p \<Rightarrow>
          if it_addr p \<noteq> addr then Inl (Die ''global C symbol defined twice'') else Inr r
      | None \<Rightarrow>
          (let r1 = r\<lparr>SymbolTable := bkt_ins n it (SymbolTable r)\<rparr> in
           case bkt_find (\<lambda>p. it_addr p = addr) m (AddrTable r1) of
             Some p \<Rightarrow>
               if it_stringHash p \<noteq> hash \<or> name \<noteq> it_name p then Inl (Die ''address defined twice'')
               else Inr r1
           | None \<Rightarrow> Inr (r1\<lparr>AddrTable := bkt_ins m it (AddrTable r1), NumSymbols := NumSymbols r1 + 1\<rparr>)))"

definition AddrToCSymbol :: "word_t \<Rightarrow> registry \<Rightarrow> string option res" where
  "AddrToCSymbol addr r =
     (let n = ADDRHASH_INDEX addr (TableSize r) in
      if length (AddrTable r) \<le> n then Inl (Fault ''bucket index out of range'')
      else Inr (map_option it_name (bkt_find (\<lambda>q. it_addr q = addr) n (AddrTable r))))"

text \<open>An unknown name gives \<open>ML_unit\<close>.\<close>

definition ImportCSymbol :: "string \<Rightarrow> registry \<Rightarrow> word_t res" where
  "ImportCSymbol name r =
     (let hash = HASH_STRING name; n = STRHASH_INDEX hash (TableSize r) in
      if length (SymbolTable r) \<le> n then Inl (Fault ''bucket index out of range'')
      else Inr (case bkt_find (\<lambda>p. it_stringHash p = hash \<and> name = it_name p) n (SymbolTable r) of
          Some p \<Rightarrow> it_addr p
        | None \<Rightarrow> ML_unit))"

section \<open>Export tables\<close>

record export_table =
  et_table :: "(item \<times> nat) buckets"
  et_tableSize :: nat
  et_numItems :: nat
  et_itemMap :: "item option list"      \<comment> \<open>\<open>None\<close>: not yet written; its length is \<open>itemMapSize\<close>\<close>

definition NewExportTbl :: export_table where
  "NewExportTbl = \<lparr>et_table = [], et_tableSize = 0, et_numItems = 0, et_itemMap = []\<rparr>"

definition GrowTable :: "export_table \<Rightarrow> export_table" where
  "GrowTable tbl =
     (let newTblSz = (if et_tableSize tbl \<noteq> 0 then 2 * et_tableSize tbl else 32) in
      tbl\<lparr>et_table := bkt_rehash (\<lambda>q. ADDRHASH_INDEX (it_addr (fst q)) newTblSz) newTblSz (et_table tbl),
          et_tableSize := newTblSz\<rparr>)"

definition MAKE_EXTERN :: "nat \<Rightarrow> word_t" where
  "MAKE_EXTERN index = MAKE_DESC (of_nat index) DTAG_extern"

text \<open>Growing the item map: the new entries are uninitialised.\<close>

definition grow_itemMap :: "item option list \<Rightarrow> item option list" where
  "grow_itemMap im = im @ replicate ((if length im = 0 then 64 else 2 * length im) - length im) None"

definition ExportCSymbol :: "registry \<Rightarrow> word_t \<Rightarrow> export_table \<Rightarrow> (word_t \<times> export_table) res" where
  "ExportCSymbol r addr tbl0 =
     (let tbl = (if et_tableSize tbl0 \<le> et_numItems tbl0 then GrowTable tbl0 else tbl0);
          h = ADDRHASH_INDEX addr (et_tableSize tbl)
      in case bkt_find (\<lambda>p. it_addr (fst p) = addr) h (et_table tbl) of
        Some p \<Rightarrow> Inr (MAKE_EXTERN (snd p), tbl)
      | None \<Rightarrow>
          (let n = ADDRHASH_INDEX addr (TableSize r) in
           if length (AddrTable r) \<le> n then Inl (Fault ''bucket index out of range'')
           else case bkt_find (\<lambda>q. it_addr q = addr) n (AddrTable r) of
             None \<Rightarrow> Inr (ML_unit, tbl)
           | Some q \<Rightarrow>
               (let index = et_numItems tbl;
                    im = (if length (et_itemMap tbl) \<le> index then grow_itemMap (et_itemMap tbl) else et_itemMap tbl)
                in Inr (MAKE_EXTERN index,
                        tbl\<lparr>et_numItems := index + 1, et_itemMap := im[index := Some q],
                            et_table := bkt_ins h (q, index) (et_table tbl)\<rparr>))))"

definition AddrOfCSymbol :: "export_table \<Rightarrow> word_t \<Rightarrow> word_t res" where
  "AddrOfCSymbol tbl xref =
     (let index = sint (ucast (GET_LEN xref) :: u32) in
      if int (et_numItems tbl) \<le> index then Inl (Die ''bad external object index'')
      else if index < 0 then Inl (Fault ''negative index'')
      else case et_itemMap tbl ! nat index of
        None \<Rightarrow> Inl (Fault ''uninitialised item'')
      | Some q \<Rightarrow> Inr (it_addr q))"

definition ExportedSymbols :: "export_table \<Rightarrow> string list res" where
  "ExportedSymbols tbl =
     rfold (\<lambda>i ep. case et_itemMap tbl ! i of
         None \<Rightarrow> Inl (Fault ''uninitialised item'')
       | Some q \<Rightarrow> Inr (ep @ [it_name q])) [0..<et_numItems tbl] []"

text \<open>\<open>FreeExportTbl\<close>, as the sequence of its \<open>FREE\<close> calls: the references of every bucket, the
  item map when there is one, the bucket array and the table itself.\<close>

datatype export_freed = FreedRef nat | FreedItemMap | FreedTable | FreedExportTbl

definition FreeExportTbl :: "export_table \<Rightarrow> export_freed list" where
  "FreeExportTbl tbl =
     concat (map (\<lambda>i. map (\<lambda>p. FreedRef (snd p)) (et_table tbl ! i)) [0..<et_tableSize tbl])
     @ (if et_itemMap tbl \<noteq> [] then [FreedItemMap] else []) @ [FreedTable, FreedExportTbl]"

definition ExportTableSz :: "export_table \<Rightarrow> addr_t res" where
  "ExportTableSz tbl =
     rbind (rfold (\<lambda>i nbytes. case et_itemMap tbl ! i of
         None \<Rightarrow> Inl (Fault ''uninitialised item'')
       | Some q \<Rightarrow> Inr (nbytes + (of_nat (length (it_name q)) + 1))) [0..<et_numItems tbl] 0)
       (\<lambda>nbytes. Inr (ROUNDUP nbytes 8))"

section \<open>The three tables meet the bucket interface\<close>

definition str_idx :: "int \<times> string \<Rightarrow> nat \<Rightarrow> nat" where
  "str_idx k sz = STRHASH_INDEX (fst k) sz"

definition str_key :: "item \<Rightarrow> int \<times> string" where
  "str_key it = (it_stringHash it, it_name it)"

lemma STRHASH_bound: "0 < sz \<Longrightarrow> STRHASH_INDEX h sz < sz"
proof -
  assume "0 < sz"
  then have "h AND (int sz - 1) \<le> int sz - 1" by (intro AND_upper2) auto
  moreover have "0 \<le> h AND (int sz - 1)" using \<open>0 < sz\<close> by simp
  ultimately show ?thesis using \<open>0 < sz\<close> by (simp add: STRHASH_INDEX_def nat_less_iff)
qed

lemma ADDRHASH_bound: "0 < sz \<Longrightarrow> ADDRHASH_INDEX a sz < sz"
  using unat_and_mask_less [of sz "drop_bit 3 a"] by (simp add: ADDRHASH_INDEX_def)

interpretation st: bucket_table str_key str_idx
  by unfold_locales (simp add: str_idx_def STRHASH_bound)

interpretation ad: bucket_table it_addr ADDRHASH_INDEX
  by unfold_locales (rule ADDRHASH_bound)

interpretation ex: bucket_table "\<lambda>q :: item \<times> nat. it_addr (fst q)" ADDRHASH_INDEX
  by unfold_locales (rule ADDRHASH_bound)

section \<open>The hash function stays in range\<close>

lemma trunc_rem_bounds: "0 < b \<Longrightarrow> - b < n - b * (n sdiv b) \<and> n - b * (n sdiv b) < b" for n b :: int
  using smod_int_range [of b n] by (auto simp: minus_mult_sdiv_eq_smod)

lemma schar_bounds: "- 128 \<le> schar c \<and> schar c < 128"
  using sint_ge [of "of_char c :: byte_t"] sint_lt [of "of_char c :: byte_t"] by (simp add: schar_def)

lemma hash_step_exact:
  assumes "\<bar>h\<bar> < 8388593"
  shows "hash_step h c = (128 * h + schar c) smod 8388593 \<and> \<bar>hash_step h c\<bar> < 8388593"
proof -
  have "sint (word_of_int (128 * h + schar c) :: u32) = 128 * h + schar c"
    using assms schar_bounds [of c] signed_take_bit_int_eq_self [of 31 "128 * h + schar c"]
    by (simp add: signed_of_int abs_less_iff del: of_int_add of_int_mult)
  then have "hash_step h c = 128 * h + schar c - 8388593 * ((128 * h + schar c) sdiv 8388593)"
    by (simp add: hash_step_def Let_def)
  with trunc_rem_bounds [of 8388593 "128 * h + schar c"] show ?thesis
    by (auto simp: minus_mult_sdiv_eq_smod)
qed

declare set_concat [simp del] length_greater_0_conv [simp del]

section \<open>The registry refines a set of name/address pairs\<close>

abbreviation reg_items :: "registry \<Rightarrow> item set" where
  "reg_items r \<equiv> set (concat (AddrTable r))"

definition reg_wf :: "registry \<Rightarrow> bool" where
  "reg_wf r \<longleftrightarrow> st.bok (SymbolTable r) \<and> ad.bok (AddrTable r)
     \<and> length (SymbolTable r) = TableSize r \<and> length (AddrTable r) = TableSize r
     \<and> set (concat (SymbolTable r)) = reg_items r
     \<and> NumSymbols r = card (reg_items r) \<and> NumSymbols r \<le> TableSize r
     \<and> (\<forall>it \<in> reg_items r. it_stringHash it = HASH_STRING (it_name it))"

definition syms :: "registry \<Rightarrow> (string \<times> word_t) set" where
  "syms r = (\<lambda>it. (it_name it, it_addr it)) ` reg_items r"

definition mk_item :: "string \<Rightarrow> word_t \<Rightarrow> item" where
  "mk_item name addr = \<lparr>it_addr = addr, it_name = name, it_stringHash = HASH_STRING name\<rparr>"

lemma mk_item_in: "reg_wf r \<Longrightarrow> mk_item name addr \<in> reg_items r \<longleftrightarrow> (name, addr) \<in> syms r"
proof
  assume wf: "reg_wf r" and "(name, addr) \<in> syms r"
  then obtain it where it: "it \<in> reg_items r" "it_name it = name" "it_addr it = addr"
    by (auto simp: syms_def)
  with wf have "it_stringHash it = HASH_STRING name" unfolding reg_wf_def by blast
  with it have "it = mk_item name addr" by (simp add: mk_item_def)
  with it show "mk_item name addr \<in> reg_items r" by simp
qed (force simp: syms_def mk_item_def image_iff)

lemma reg_unique:
  assumes "reg_wf r" "p \<in> reg_items r" "q \<in> reg_items r" "it_name p = it_name q \<or> it_addr p = it_addr q"
  shows "p = q"
  using assms(4)
proof
  assume "it_name p = it_name q"
  with assms have "str_key p = str_key q" by (simp add: reg_wf_def str_key_def)
  with assms show ?thesis
    using st.unique_key [of "SymbolTable r" p q] by (simp add: reg_wf_def st.bok_def)
next
  assume "it_addr p = it_addr q"
  with assms show ?thesis
    using ad.unique_key [of "AddrTable r" p q] by (simp add: reg_wf_def ad.bok_def)
qed

lemma find_str:
  assumes "reg_wf r" "0 < TableSize r"
  shows "bkt_find (\<lambda>p. it_stringHash p = HASH_STRING name \<and> name = it_name p)
      (STRHASH_INDEX (HASH_STRING name) (TableSize r)) (SymbolTable r) = Some p
    \<longleftrightarrow> p \<in> reg_items r \<and> it_name p = name"
proof -
  have "(\<lambda>p. it_stringHash p = HASH_STRING name \<and> name = it_name p)
      = (\<lambda>p. str_key p = (HASH_STRING name, name))"
    by (auto simp: str_key_def)
  then show ?thesis
    using st.find_iff [of "SymbolTable r" "(HASH_STRING name, name)" p] assms
    by (auto simp: reg_wf_def str_idx_def str_key_def)
qed

lemma find_str_None:
  assumes "reg_wf r" "0 < TableSize r" "name \<notin> fst ` syms r"
  shows "bkt_find (\<lambda>p. it_stringHash p = HASH_STRING name \<and> name = it_name p)
      (STRHASH_INDEX (HASH_STRING name) (TableSize r)) (SymbolTable r) = None"
proof -
  have "it_name p \<noteq> name" if "p \<in> reg_items r" for p
    using that assms(3) by (auto simp: syms_def image_image)
  with find_str [OF assms(1,2), of name] show ?thesis by (metis not_Some_eq)
qed

lemma find_addr:
  assumes "reg_wf r" "0 < TableSize r"
  shows "bkt_find (\<lambda>q. it_addr q = addr) (ADDRHASH_INDEX addr (TableSize r)) (AddrTable r) = Some p
    \<longleftrightarrow> p \<in> reg_items r \<and> it_addr p = addr"
  using ad.find_iff [of "AddrTable r" addr p] assms by (simp add: reg_wf_def)

lemma grow_ok:
  assumes "reg_wf r"
  shows "reg_wf (grow_registry r) \<and> reg_items (grow_registry r) = reg_items r
       \<and> NumSymbols (grow_registry r) = NumSymbols r
       \<and> NumSymbols (grow_registry r) < TableSize (grow_registry r)"
proof (cases "TableSize r = NumSymbols r")
  case True
  define n where "n = (if TableSize r \<noteq> 0 then 2 * TableSize r else 64)"
  have n: "0 < n" "NumSymbols r < n" using True by (auto simp: n_def)
  have "st.unique (SymbolTable r)" "ad.unique (AddrTable r)"
    using assms by (auto simp: reg_wf_def st.bok_def ad.bok_def)
  with st.rehash_ok [OF _ n(1), of "SymbolTable r"] ad.rehash_ok [OF _ n(1), of "AddrTable r"]
  have "st.bok (bkt_rehash (\<lambda>it. STRHASH_INDEX (it_stringHash it) n) n (SymbolTable r))
      \<and> set (concat (bkt_rehash (\<lambda>it. STRHASH_INDEX (it_stringHash it) n) n (SymbolTable r))) = set (concat (SymbolTable r))"
    "ad.bok (bkt_rehash (\<lambda>it. ADDRHASH_INDEX (it_addr it) n) n (AddrTable r))
      \<and> set (concat (bkt_rehash (\<lambda>it. ADDRHASH_INDEX (it_addr it) n) n (AddrTable r))) = reg_items r"
    by (simp_all add: str_idx_def str_key_def)
  moreover have "grow_registry r = r\<lparr>
      SymbolTable := bkt_rehash (\<lambda>it. STRHASH_INDEX (it_stringHash it) n) n (SymbolTable r),
      AddrTable := bkt_rehash (\<lambda>it. ADDRHASH_INDEX (it_addr it) n) n (AddrTable r), TableSize := n\<rparr>"
    unfolding grow_registry_def n_def Let_def using True by simp
  ultimately show ?thesis
    using assms n(2) by (simp add: reg_wf_def)
next
  case False
  then show ?thesis using assms by (simp add: grow_registry_def reg_wf_def)
qed

lemma syms_grow: "reg_wf r \<Longrightarrow> syms (grow_registry r) = syms r"
  using grow_ok [of r] by (simp add: syms_def)

text \<open>A pair fits when it repeats a registered pair or shares neither name nor address with one.\<close>

definition fits :: "string \<Rightarrow> word_t \<Rightarrow> (string \<times> word_t) set \<Rightarrow> bool" where
  "fits name addr S \<longleftrightarrow> (\<forall>(n, a) \<in> S. n = name \<longleftrightarrow> a = addr)"

lemma RecordCSymbol_fits:
  assumes wf0: "reg_wf r0" and "fits name addr (syms r0)"
  shows "\<exists>r'. RecordCSymbol name addr r0 = Inr r' \<and> reg_wf r' \<and> syms r' = insert (name, addr) (syms r0)"
proof -
  define r where "r = grow_registry r0"
  have wf: "reg_wf r" and sz: "NumSymbols r < TableSize r" and sy: "syms r = syms r0"
    using grow_ok [OF wf0] syms_grow [OF wf0] by (auto simp: r_def)
  have fits: "fits name addr (syms r)" using assms(2) sy by simp
  have sz0: "0 < TableSize r" using sz by simp
  show ?thesis
  proof (cases "(name, addr) \<in> syms r")
    case True
    then have "mk_item name addr \<in> reg_items r" using mk_item_in [OF wf] by simp
    with find_str [OF wf sz0, of name "mk_item name addr"]
    have "RecordCSymbol name addr r0 = Inr r"
      by (simp add: RecordCSymbol_def r_def [symmetric] mk_item_def)
    then show ?thesis using wf True sy by (auto simp: insert_absorb)
  next
    case False
    with fits have no: "it_name p \<noteq> name \<and> it_addr p \<noteq> addr" if "p \<in> reg_items r" for p
      using that by (auto simp: fits_def syms_def)
    let ?it = "mk_item name addr"
    let ?r = "r\<lparr>SymbolTable := bkt_ins (STRHASH_INDEX (HASH_STRING name) (TableSize r)) ?it (SymbolTable r),
      AddrTable := bkt_ins (ADDRHASH_INDEX addr (TableSize r)) ?it (AddrTable r), NumSymbols := NumSymbols r + 1\<rparr>"
    have "bkt_find (\<lambda>p. it_stringHash p = HASH_STRING name \<and> name = it_name p)
      (STRHASH_INDEX (HASH_STRING name) (TableSize r)) (SymbolTable r) = None"
      using find_str [OF wf sz0, of name] no by (metis not_Some_eq)
    moreover have "bkt_find (\<lambda>q. it_addr q = addr) (ADDRHASH_INDEX addr (TableSize r)) (AddrTable r) = None"
      using find_addr [OF wf sz0, of addr] no by (metis not_Some_eq)
    ultimately have rec: "RecordCSymbol name addr r0 = Inr ?r"
      by (simp add: RecordCSymbol_def r_def [symmetric] mk_item_def Let_def)
    have notin: "str_key ?it \<notin> str_key ` reg_items r" "it_addr ?it \<notin> it_addr ` reg_items r"
      using no by (auto simp: str_key_def mk_item_def)
    have ss: "st.bok (bkt_ins (STRHASH_INDEX (HASH_STRING name) (TableSize r)) ?it (SymbolTable r))"
      using st.bok_ins [of "SymbolTable r" ?it] wf sz0 notin
      by (simp add: reg_wf_def str_idx_def str_key_def mk_item_def)
    have sa: "ad.bok (bkt_ins (ADDRHASH_INDEX addr (TableSize r)) ?it (AddrTable r))"
      using ad.bok_ins [of "AddrTable r" ?it] wf sz0 notin
      by (simp add: reg_wf_def mk_item_def)
    have "set (concat (SymbolTable ?r)) = insert ?it (reg_items r)" "reg_items ?r = insert ?it (reg_items r)"
      using set_concat_bkt_ins [of _ "SymbolTable r" ?it] set_concat_bkt_ins [of _ "AddrTable r" ?it] wf
        STRHASH_bound [OF sz0] ADDRHASH_bound [OF sz0]
      by (simp_all add: reg_wf_def)
    moreover have "?it \<notin> reg_items r" using no [of ?it] by (auto simp: mk_item_def)
    ultimately have "reg_wf ?r \<and> syms ?r = insert (name, addr) (syms r)"
      using wf ss sa sz by (simp add: reg_wf_def syms_def mk_item_def)
    with rec sy show ?thesis by auto
  qed
qed

lemma RecordCSymbol_clash:
  assumes wf0: "reg_wf r0" and "\<not> fits name addr (syms r0)"
  shows "\<exists>msg. RecordCSymbol name addr r0 = Inl (Die msg)"
proof -
  define r where "r = grow_registry r0"
  have wf: "reg_wf r" and sz0: "0 < TableSize r" and sy: "syms r = syms r0"
    using grow_ok [OF wf0] syms_grow [OF wf0] by (auto simp: r_def)
  show ?thesis
  proof (cases "\<exists>a. (name, a) \<in> syms r")
    case True
    then obtain a where a: "(name, a) \<in> syms r" by auto
    then obtain p where p: "p \<in> reg_items r" "it_name p = name" "it_addr p = a"
      by (auto simp: syms_def)
    have "a \<noteq> addr"
    proof
      assume "a = addr"
      have uniq: "q = p" if "q \<in> reg_items r" "it_name q = name \<or> it_addr q = addr" for q
        using reg_unique [OF wf that(1) p(1)] that(2) p \<open>a = addr\<close> by auto
      have "it_name q = name \<longleftrightarrow> it_addr q = addr" if "q \<in> reg_items r" for q
        using uniq [OF that] p \<open>a = addr\<close> by metis
      then have "fits name addr (syms r)" unfolding fits_def syms_def by blast
      with assms(2) sy show False by simp
    qed
    with p find_str [OF wf sz0, of name p] show ?thesis
      by (auto simp: RecordCSymbol_def r_def [symmetric] Let_def)
  next
    case False
    with assms(2) sy obtain n where n: "n \<noteq> name" "(n, addr) \<in> syms r"
      by (auto simp: fits_def)
    then obtain p where p: "p \<in> reg_items r" "it_name p = n" "it_addr p = addr"
      by (auto simp: syms_def)
    have "bkt_find (\<lambda>p. it_stringHash p = HASH_STRING name \<and> name = it_name p)
      (STRHASH_INDEX (HASH_STRING name) (TableSize r)) (SymbolTable r) = None"
      using False by (intro find_str_None wf sz0) auto
    with p n find_addr [OF wf sz0, of addr p] show ?thesis
      by (simp add: RecordCSymbol_def r_def [symmetric] Let_def)
  qed
qed

lemma syms_TableSize: "reg_wf r \<Longrightarrow> x \<in> syms r \<Longrightarrow> 0 < TableSize r"
  by (cases "AddrTable r") (auto simp: reg_wf_def syms_def)

lemma ImportCSymbol_syms:
  assumes "reg_wf r" "0 < TableSize r"
  shows "(name, addr) \<in> syms r \<Longrightarrow> ImportCSymbol name r = Inr addr"
    and "name \<notin> fst ` syms r \<Longrightarrow> ImportCSymbol name r = Inr ML_unit"
proof -
  have len: "\<not> length (SymbolTable r) \<le> STRHASH_INDEX (HASH_STRING name) (TableSize r)"
    using assms STRHASH_bound by (simp add: reg_wf_def not_le)
  show "ImportCSymbol name r = Inr addr" if "(name, addr) \<in> syms r"
  proof -
    from that obtain p where "p \<in> reg_items r" "it_name p = name" "it_addr p = addr"
      by (auto simp: syms_def)
    with len find_str [OF assms, of name p] show ?thesis by (simp add: ImportCSymbol_def Let_def)
  qed
  show "ImportCSymbol name r = Inr ML_unit" if "name \<notin> fst ` syms r"
  proof -
    have "bkt_find (\<lambda>p. it_stringHash p = HASH_STRING name \<and> name = it_name p)
      (STRHASH_INDEX (HASH_STRING name) (TableSize r)) (SymbolTable r) = None"
      using find_str_None [OF assms that] .
    with len show ?thesis by (simp add: ImportCSymbol_def Let_def)
  qed
qed

lemma AddrToCSymbol_syms:
  assumes "reg_wf r" "(name, addr) \<in> syms r"
  shows "AddrToCSymbol addr r = Inr (Some name)"
proof -
  have sz: "0 < TableSize r" using assms by (rule syms_TableSize)
  then have "\<not> length (AddrTable r) \<le> ADDRHASH_INDEX addr (TableSize r)"
    using assms(1) ADDRHASH_bound by (simp add: reg_wf_def not_le)
  moreover from assms(2) obtain p where "p \<in> reg_items r" "it_name p = name" "it_addr p = addr"
    by (auto simp: syms_def)
  ultimately show ?thesis
    using find_addr [OF assms(1) sz, of addr p] by (simp add: AddrToCSymbol_def Let_def)
qed

text \<open>
  The interface of a registry: the names and addresses it holds, what registering does to them,
  and what its two lookups return.
\<close>

locale symbol_registry =
  fixes record_sym :: "'n \<Rightarrow> 'a \<Rightarrow> 'r \<Rightarrow> 'r res"
    and import_sym :: "'n \<Rightarrow> 'r \<Rightarrow> 'a res"
    and name_of :: "'a \<Rightarrow> 'r \<Rightarrow> 'n option res"
    and pairs :: "'r \<Rightarrow> ('n \<times> 'a) set"
    and invar :: "'r \<Rightarrow> bool"
  assumes record_fits: "invar r \<Longrightarrow> (\<forall>(n', a') \<in> pairs r. n' = n \<longleftrightarrow> a' = a) \<Longrightarrow>
        \<exists>r'. record_sym n a r = Inr r' \<and> invar r' \<and> pairs r' = insert (n, a) (pairs r)"
    and record_clash: "invar r \<Longrightarrow> \<not> (\<forall>(n', a') \<in> pairs r. n' = n \<longleftrightarrow> a' = a) \<Longrightarrow>
        \<exists>msg. record_sym n a r = Inl (Die msg)"
    and import_pairs: "invar r \<Longrightarrow> (n, a) \<in> pairs r \<Longrightarrow> import_sym n r = Inr a"
    and name_pairs: "invar r \<Longrightarrow> (n, a) \<in> pairs r \<Longrightarrow> name_of a r = Inr (Some n)"
begin

definition bij_list :: "('n \<times> 'a) list \<Rightarrow> bool" where
  "bij_list ps \<longleftrightarrow> (\<forall>(n, a) \<in> set ps. \<forall>(n', a') \<in> set ps. n = n' \<longleftrightarrow> a = a')"

lemma record_all:
  assumes "invar r" and "\<forall>(n, a) \<in> set ps. \<forall>(n', a') \<in> set ps \<union> pairs r. n' = n \<longleftrightarrow> a' = a"
  shows "\<exists>r'. rfold (\<lambda>(n, a). record_sym n a) ps r = Inr r' \<and> invar r' \<and> pairs r' = set ps \<union> pairs r"
  using assms
proof (induction ps arbitrary: r)
  case (Cons p ps)
  obtain n a where p: "p = (n, a)" by fastforce
  from Cons.prems p have "\<forall>(n', a') \<in> pairs r. n' = n \<longleftrightarrow> a' = a" by auto
  from record_fits [OF Cons.prems(1) this] obtain r1
    where r1: "record_sym n a r = Inr r1" "invar r1" "pairs r1 = insert (n, a) (pairs r)" by auto
  from Cons.prems(2) p r1(3)
  have "\<forall>(n, a) \<in> set ps. \<forall>(n', a') \<in> set ps \<union> pairs r1. n' = n \<longleftrightarrow> a' = a" by fastforce
  from Cons.IH [OF r1(2) this] r1 p show ?case by auto
qed simp

lemma record_then_import:
  assumes "invar r" "pairs r = {}" "bij_list ps" "(n, a) \<in> set ps"
  shows "\<exists>r'. rfold (\<lambda>(n, a). record_sym n a) ps r = Inr r' \<and> import_sym n r' = Inr a
          \<and> name_of a r' = Inr (Some n)"
proof -
  from assms(2,3) have "\<forall>(n, a) \<in> set ps. \<forall>(n', a') \<in> set ps \<union> pairs r. n' = n \<longleftrightarrow> a' = a"
    by (fastforce simp: bij_list_def)
  from record_all [OF assms(1) this] obtain r' where
    "rfold (\<lambda>(n, a). record_sym n a) ps r = Inr r'" "invar r'" "pairs r' = set ps \<union> pairs r" by auto
  with assms(4) show ?thesis by (auto intro: import_pairs name_pairs)
qed

end

interpretation csym: symbol_registry RecordCSymbol ImportCSymbol AddrToCSymbol syms reg_wf
  using RecordCSymbol_fits RecordCSymbol_clash
  by unfold_locales
    (auto simp: fits_def AddrToCSymbol_syms intro: ImportCSymbol_syms syms_TableSize)

section \<open>Export tables\<close>

abbreviation ex_items :: "export_table \<Rightarrow> (item \<times> nat) set" where
  "ex_items t \<equiv> set (concat (et_table t))"

definition ex_wf :: "registry \<Rightarrow> export_table \<Rightarrow> bool" where
  "ex_wf r t \<longleftrightarrow> ex.bok (et_table t) \<and> length (et_table t) = et_tableSize t
     \<and> et_numItems t \<le> et_tableSize t \<and> et_numItems t \<le> length (et_itemMap t)
     \<and> (\<forall>i < et_numItems t. \<exists>q. et_itemMap t ! i = Some q \<and> q \<in> reg_items r)
     \<and> (\<forall>q i. (q, i) \<in> ex_items t \<longleftrightarrow> i < et_numItems t \<and> et_itemMap t ! i = Some q)"

text \<open>The exported items, by number.\<close>

definition exports :: "export_table \<Rightarrow> item list" where
  "exports t = map the (take (et_numItems t) (et_itemMap t))"

lemma ex_wf_new: "ex_wf r NewExportTbl"
  by (simp add: ex_wf_def NewExportTbl_def ex.bok_def ex.placed_def ex.unique_def)

lemma ex_wf_grow:
  assumes "ex_wf r t"
  shows "ex_wf r (GrowTable t) \<and> et_numItems (GrowTable t) = et_numItems t
       \<and> et_itemMap (GrowTable t) = et_itemMap t \<and> et_tableSize t < et_tableSize (GrowTable t)"
proof -
  define n where "n = (if et_tableSize t \<noteq> 0 then 2 * et_tableSize t else 32)"
  have n: "0 < n" "et_tableSize t < n" by (auto simp: n_def)
  have "GrowTable t = t\<lparr>et_table := bkt_rehash (\<lambda>q. ADDRHASH_INDEX (it_addr (fst q)) n) n (et_table t),
      et_tableSize := n\<rparr>"
    by (simp add: GrowTable_def n_def Let_def)
  moreover have "ex.unique (et_table t)" using assms by (simp add: ex_wf_def ex.bok_def)
  ultimately show ?thesis
    using ex.rehash_ok [OF _ n(1), of "et_table t"] assms n by (simp add: ex_wf_def)
qed

lemma find_ex:
  assumes "ex_wf r t" "0 < et_tableSize t"
  shows "bkt_find (\<lambda>p. it_addr (fst p) = addr) (ADDRHASH_INDEX addr (et_tableSize t)) (et_table t) = Some p
    \<longleftrightarrow> p \<in> ex_items t \<and> it_addr (fst p) = addr"
  using ex.find_iff [of "et_table t" addr p] assms by (simp add: ex_wf_def)

lemma AddrOfCSymbol_extern:
  assumes "i < 2 ^ 31" "i < et_numItems t" "et_itemMap t ! i = Some q"
  shows "AddrOfCSymbol t (MAKE_EXTERN i) = Inr (it_addr q)"
proof -
  have i: "(of_nat i :: word_t) < 2 ^ 57"
    using assms(1) by (simp add: word_less_nat_alt unat_of_nat)
  have "ucast (GET_LEN (MAKE_EXTERN i)) = (of_nat i :: u32)"
    using i assms(1) by (simp add: MAKE_EXTERN_def GET_LEN_MAKE_DESC unsigned_of_nat take_bit_nat_eq_self)
  moreover have "sint (of_nat i :: u32) = int i"
    using assms(1) signed_take_bit_int_eq_self [of 31 "int i"] by (simp add: signed_of_nat)
  ultimately show ?thesis using assms by (simp add: AddrOfCSymbol_def Let_def)
qed

lemma itemMap_grow_nth:
  "i < n \<Longrightarrow> n \<le> length im \<Longrightarrow> (if length im \<le> n then grow_itemMap im else im)[n := x] ! i = im ! i"
  by (simp add: grow_itemMap_def nth_append)

lemma itemMap_grow_length: "n \<le> length im \<Longrightarrow> n < length ((if length im \<le> n then grow_itemMap im else im)[n := x])"
  by (auto simp: grow_itemMap_def)

lemma exports_nth: "ex_wf r t \<Longrightarrow> i < et_numItems t \<Longrightarrow> et_itemMap t ! i = Some (exports t ! i)"
  unfolding ex_wf_def exports_def by fastforce

lemma length_exports: "ex_wf r t \<Longrightarrow> length (exports t) = et_numItems t"
  by (simp add: ex_wf_def exports_def)

text \<open>Adding an item that is not in the table yet.\<close>

lemma ex_wf_add:
  assumes wf: "ex_wf r t" and sz: "et_numItems t < et_tableSize t" and q: "q \<in> reg_items r"
    and new: "it_addr q \<notin> (\<lambda>p. it_addr (fst p)) ` ex_items t"
  defines "n \<equiv> et_numItems t" and "im \<equiv> et_itemMap t"
  defines "t' \<equiv> t\<lparr>et_numItems := n + 1,
      et_itemMap := (if length im \<le> n then grow_itemMap im else im)[n := Some q],
      et_table := bkt_ins (ADDRHASH_INDEX (it_addr q) (et_tableSize t)) (q, n) (et_table t)\<rparr>"
  shows "ex_wf r t' \<and> exports t' = exports t @ [q]"
proof -
  have len: "length (et_table t) = et_tableSize t" "n \<le> length im" using wf by (auto simp: ex_wf_def n_def im_def)
  have nth_n: "et_itemMap t' ! n = Some q" using itemMap_grow_length [OF len(2)] by (simp add: t'_def)
  have nth_i: "et_itemMap t' ! i = im ! i" if "i < n" for i
    using itemMap_grow_nth [OF that len(2)] by (simp add: t'_def)
  have items: "ex_items t' = insert (q, n) (ex_items t)"
    using set_concat_bkt_ins [of _ "et_table t"] ADDRHASH_bound [of "et_tableSize t"] sz len
    by (simp add: t'_def)
  have "ex.bok (et_table t')"
    using ex.bok_ins [of "et_table t" "(q, n)"] wf sz new len by (simp add: t'_def ex_wf_def)
  moreover have "(p, i) \<in> ex_items t' \<longleftrightarrow> i < n + 1 \<and> et_itemMap t' ! i = Some p" for p i
  proof (cases "i < n")
    case True
    then show ?thesis using wf nth_i items by (auto simp: ex_wf_def n_def im_def)
  next
    case False
    then have "(p, i) \<notin> ex_items t" using wf by (auto simp: ex_wf_def n_def)
    then show ?thesis using False nth_n items by (cases "i = n") auto
  qed
  moreover have "\<exists>p. et_itemMap t' ! i = Some p \<and> p \<in> reg_items r" if "i < n + 1" for i
    using wf that nth_i nth_n q by (cases "i = n") (auto simp: ex_wf_def n_def im_def)
  moreover have "n + 1 \<le> length (et_itemMap t')"
    using itemMap_grow_length [OF len(2), of "Some q"] by (simp add: t'_def)
  moreover have "et_numItems t' = n + 1" "et_tableSize t' = et_tableSize t" "length (et_table t') = et_tableSize t"
    using len by (auto simp: t'_def)
  ultimately have wf': "ex_wf r t'" using sz by (simp add: ex_wf_def n_def)
  have "exports t' ! i = (exports t @ [q]) ! i" if "i < n + 1" for i
    using that wf wf' nth_i nth_n exports_nth [OF wf', of i] exports_nth [OF wf, of i]
      length_exports [OF wf] \<open>et_numItems t' = n + 1\<close>
    by (cases "i = n") (auto simp: nth_append n_def im_def)
  then have "exports t' = exports t @ [q]"
    using length_exports [OF wf] length_exports [OF wf'] \<open>et_numItems t' = n + 1\<close>
    by (auto intro!: nth_equalityI simp: n_def)
  with wf' show ?thesis ..
qed

lemma ExportCSymbol_ok:
  assumes wf: "reg_wf r" and t0: "ex_wf r t0" and reg: "(name, addr) \<in> syms r"
  shows "\<exists>i t ys. ExportCSymbol r addr t0 = Inr (MAKE_EXTERN i, t) \<and> ex_wf r t
    \<and> exports t = exports t0 @ ys \<and> length ys \<le> 1 \<and> i < et_numItems t \<and> exports t ! i = mk_item name addr"
proof -
  define t where "t = (if et_tableSize t0 \<le> et_numItems t0 then GrowTable t0 else t0)"
  have t: "ex_wf r t" "et_numItems t < et_tableSize t" "exports t = exports t0"
    using t0 ex_wf_grow [OF t0] by (auto simp: t_def exports_def ex_wf_def)
  have q: "mk_item name addr \<in> reg_items r" using mk_item_in [OF wf] reg by simp
  have pos: "0 < et_tableSize t" using t(2) by simp
  show ?thesis
  proof (cases "addr \<in> (\<lambda>p. it_addr (fst p)) ` ex_items t")
    case True
    then obtain p i where p: "(p, i) \<in> ex_items t" "it_addr p = addr" by auto
    with t(1) have i: "i < et_numItems t" "et_itemMap t ! i = Some p" by (auto simp: ex_wf_def)
    with t(1) have "p \<in> reg_items r" by (fastforce simp: ex_wf_def)
    with q p have "p = mk_item name addr" using reg_unique [OF wf, of p] by (simp add: mk_item_def)
    moreover have "ExportCSymbol r addr t0 = Inr (MAKE_EXTERN i, t)"
      using find_ex [OF t(1) pos, of addr "(p, i)"] p by (simp add: ExportCSymbol_def t_def [symmetric] Let_def)
    ultimately show ?thesis using t i exports_nth [OF t(1) i(1)] by auto
  next
    case False
    then have "bkt_find (\<lambda>p. it_addr (fst p) = addr) (ADDRHASH_INDEX addr (et_tableSize t)) (et_table t) = None"
      using find_ex [OF t(1) pos, of addr] by (metis (mono_tags, lifting) image_eqI not_Some_eq)
    moreover have "bkt_find (\<lambda>q. it_addr q = addr) (ADDRHASH_INDEX addr (TableSize r)) (AddrTable r)
        = Some (mk_item name addr)"
      using find_addr [OF wf syms_TableSize [OF wf reg], of addr "mk_item name addr"] q
      by (simp add: mk_item_def)
    moreover have "\<not> length (AddrTable r) \<le> ADDRHASH_INDEX addr (TableSize r)"
      using wf ADDRHASH_bound [OF syms_TableSize [OF wf reg]] by (simp add: reg_wf_def not_le)
    ultimately have "ExportCSymbol r addr t0 = Inr (MAKE_EXTERN (et_numItems t), t\<lparr>et_numItems := et_numItems t + 1,
        et_itemMap := (if length (et_itemMap t) \<le> et_numItems t then grow_itemMap (et_itemMap t)
          else et_itemMap t)[et_numItems t := Some (mk_item name addr)],
        et_table := bkt_ins (ADDRHASH_INDEX addr (et_tableSize t)) (mk_item name addr, et_numItems t) (et_table t)\<rparr>)"
      by (simp add: ExportCSymbol_def t_def [symmetric] Let_def)
    moreover have "it_addr (mk_item name addr) = addr" by (simp add: mk_item_def)
    ultimately show ?thesis
      using ex_wf_add [OF t(1,2) q] False t(3) length_exports [OF t(1)]
      by (auto simp: nth_append)
  qed
qed

lemma ExportedSymbols_exports:
  assumes "ex_wf r t"
  shows "ExportedSymbols t = Inr (map it_name (exports t))"
proof -
  let ?f = "\<lambda>i ep. case et_itemMap t ! i of None \<Rightarrow> Inl (Fault ''uninitialised item'') | Some q \<Rightarrow> Inr (ep @ [it_name q])"
  have "n \<le> et_numItems t \<Longrightarrow> rfold ?f [0..<n] [] = Inr (map it_name (take n (exports t)))" for n
  proof (induction n)
    case (Suc n)
    then show ?case
      using exports_nth [OF assms, of n] length_exports [OF assms] by (simp add: rfold_append take_Suc_conv_app_nth)
  qed simp
  from this [of "et_numItems t"] show ?thesis
    using length_exports [OF assms] by (simp add: ExportedSymbols_def)
qed

text \<open>Exporting the external references of a heap image, one after the other.\<close>

definition export_all :: "registry \<Rightarrow> word_t list \<Rightarrow> (word_t list \<times> export_table) \<Rightarrow> (word_t list \<times> export_table) res" where
  "export_all r = rfold (\<lambda>a (xs, t). rbind (ExportCSymbol r a t) (\<lambda>(x, t'). Inr (xs @ [x], t')))"

text \<open>\<open>xref_of t x a\<close>: the reference \<open>x\<close> is the number of an exported item with address \<open>a\<close>.\<close>

definition xref_of :: "item list \<Rightarrow> word_t \<Rightarrow> word_t \<Rightarrow> bool" where
  "xref_of es x a \<longleftrightarrow> (\<exists>i < length es. x = MAKE_EXTERN i \<and> it_addr (es ! i) = a)"

lemma xref_of_append: "xref_of es x a \<Longrightarrow> xref_of (es @ ys) x a"
  unfolding xref_of_def by (metis length_append nth_append trans_less_add1)

lemma export_all_ok:
  assumes wf: "reg_wf r"
  shows "ex_wf r t \<Longrightarrow> set addrs \<subseteq> snd ` syms r \<Longrightarrow> list_all2 (xref_of (exports t)) xs as \<Longrightarrow>
    \<exists>ys t'. export_all r addrs (xs, t) = Inr (ys, t') \<and> ex_wf r t'
      \<and> list_all2 (xref_of (exports t')) ys (as @ addrs) \<and> et_numItems t' \<le> et_numItems t + length addrs"
proof (induction addrs arbitrary: xs t as)
  case (Cons a addrs)
  then obtain name where "(name, a) \<in> syms r" by auto
  from ExportCSymbol_ok [OF wf Cons.prems(1) this] obtain i t1 zs where
    t1: "ExportCSymbol r a t = Inr (MAKE_EXTERN i, t1)" "ex_wf r t1" "exports t1 = exports t @ zs"
      "length zs \<le> 1" "i < et_numItems t1" "exports t1 ! i = mk_item name a" by blast
  have n: "et_numItems t1 \<le> et_numItems t + 1"
    using length_exports [OF t1(2)] length_exports [OF Cons.prems(1)] t1(3,4) by simp
  have "xref_of (exports t1) (MAKE_EXTERN i) a"
    using t1(5,6) length_exports [OF t1(2)] by (auto simp: xref_of_def mk_item_def)
  moreover have "list_all2 (xref_of (exports t1)) xs as"
    using Cons.prems(3) by (rule list_all2_mono) (simp add: t1(3) xref_of_append)
  ultimately have "list_all2 (xref_of (exports t1)) (xs @ [MAKE_EXTERN i]) (as @ [a])"
    by (intro list_all2_appendI) auto
  from Cons.IH [OF t1(2) _ this] Cons.prems(2) n t1(1) show ?case
    by (fastforce simp: export_all_def)
qed (simp add: export_all_def)

section \<open>Properties\<close>

text \<open>C29. The string hash never leaves the range of an \<open>int\<close>: for every name, signed
  characters included, it is the exact polynomial remainder, its absolute value is below
  8388593, and the bucket index computed from it is within the table.\<close>

theorem HASH_STRING_in_range:
  assumes "0 < sz"
  shows "HASH_STRING name = foldl (\<lambda>h c. (128 * h + schar c) smod 8388593) 0 name
       \<and> \<bar>HASH_STRING name\<bar> < 8388593 \<and> STRHASH_INDEX (HASH_STRING name) sz < sz"
proof -
  have "\<bar>h\<bar> < 8388593 \<Longrightarrow> foldl hash_step h name = foldl (\<lambda>h c. (128 * h + schar c) smod 8388593) h name
      \<and> \<bar>foldl hash_step h name\<bar> < 8388593" for h
  proof (induction name arbitrary: h)
    case (Cons c name)
    from hash_step_exact [OF Cons.prems, of c] Cons.IH [of "hash_step h c"] show ?case
      by (simp only: foldl_Cons) metis
  qed simp
  moreover have "\<bar>0 :: int\<bar> < 8388593" by simp
  ultimately show ?thesis
    using STRHASH_bound [OF assms] unfolding HASH_STRING_def by blast
qed

theorem HASH_STRING_in_range_witness:
  "\<bar>HASH_STRING ''ml_putc''\<bar> < 8388593 \<and> STRHASH_INDEX (HASH_STRING ''ml_putc'') 64 < 64"
  using HASH_STRING_in_range [of 64 "''ml_putc''", OF zero_less_numeral] by blast

text \<open>C30. The registry is a bijection: registering any list of name/address pairs in which no name
  and no address is used twice with different partners succeeds, however often the tables
  have to be doubled; afterwards every name imports its address and every address gives its
  name; and a later pair that reuses a name or an address with a different partner makes the
  run-time system die.\<close>

theorem RecordCSymbol_bijection:
  assumes "csym.bij_list ps" "(n, a) \<in> set ps" "n \<noteq> n'" "a \<noteq> a'"
  shows "\<exists>r. rfold (\<lambda>(n, a). RecordCSymbol n a) ps empty_registry = Inr r
           \<and> ImportCSymbol n r = Inr a \<and> AddrToCSymbol a r = Inr (Some n)
           \<and> (\<exists>msg. RecordCSymbol n a' r = Inl (Die msg)) \<and> (\<exists>msg. RecordCSymbol n' a r = Inl (Die msg))"
proof -
  have wf: "reg_wf empty_registry" "syms empty_registry = {}"
    by (auto simp: empty_registry_def reg_wf_def syms_def st.bok_def ad.bok_def st.placed_def
        ad.placed_def st.unique_def ad.unique_def)
  from assms(1) have "\<forall>(n, a) \<in> set ps. \<forall>(n', a') \<in> set ps \<union> syms empty_registry. n' = n \<longleftrightarrow> a' = a"
    by (fastforce simp: csym.bij_list_def wf)
  from csym.record_all [OF wf(1) this] obtain r where
    r: "rfold (\<lambda>(n, a). RecordCSymbol n a) ps empty_registry = Inr r" "reg_wf r" "syms r = set ps"
    by (auto simp: wf)
  have "(n, a) \<in> syms r" using assms(2) r(3) by simp
  with r(1,2) assms(3,4) show ?thesis
    by (intro exI [of _ r] conjI csym.import_pairs csym.name_pairs csym.record_clash) auto
qed

theorem RecordCSymbol_bijection_witness:
  "\<exists>r. rfold (\<lambda>(n, a). RecordCSymbol n a) [(''div'', 0x1000), (''overflow'', 0x1008)] empty_registry = Inr r
     \<and> ImportCSymbol ''div'' r = Inr 0x1000"
  using RecordCSymbol_bijection [of "[(''div'', 0x1000), (''overflow'', 0x1008)]" "''div''" "0x1000" "''x''" "0"]
  by (auto simp: csym.bij_list_def)

text \<open>C31. External references survive a heap image. Exporting any sequence of registered
  addresses (at most \<open>2^31\<close> of them) gives one reference each; reading a reference back from
  the table gives the exported address, also after all the later exports have grown the
  tables; and looking up the name exported under its number in the registry of the process
  that loads the image gives that address again.\<close>

theorem ExportCSymbol_roundtrip:
  assumes "reg_wf r" "set addrs \<subseteq> snd ` syms r" "length addrs \<le> 2 ^ 31"
  shows "\<exists>xs t names. export_all r addrs ([], NewExportTbl) = Inr (xs, t) \<and> length xs = length addrs
     \<and> ExportedSymbols t = Inr names
     \<and> (\<forall>k < length addrs. AddrOfCSymbol t (xs ! k) = Inr (addrs ! k)
          \<and> ImportCSymbol (names ! unat (GET_LEN (xs ! k))) r = Inr (addrs ! k))"
proof -
  from export_all_ok [OF assms(1) ex_wf_new assms(2), of "[]" "[]"] obtain xs t where
    t: "export_all r addrs ([], NewExportTbl) = Inr (xs, t)" "ex_wf r t"
      "list_all2 (xref_of (exports t)) xs addrs" "et_numItems t \<le> length addrs"
    by (auto simp: NewExportTbl_def)
  have "AddrOfCSymbol t (xs ! k) = Inr (addrs ! k)
      \<and> ImportCSymbol (map it_name (exports t) ! unat (GET_LEN (xs ! k))) r = Inr (addrs ! k)"
    if k: "k < length addrs" for k
  proof -
    from list_all2_nthD2 [OF t(3) k] obtain i where
      i: "i < et_numItems t" "xs ! k = MAKE_EXTERN i" "it_addr (exports t ! i) = addrs ! k"
      using length_exports [OF t(2)] by (auto simp: xref_of_def)
    have b: "i < 2 ^ 31" using i(1) t(4) assms(3) by linarith
    have "unat (GET_LEN (xs ! k)) = i"
      using b by (simp add: i(2) MAKE_EXTERN_def GET_LEN_MAKE_DESC word_less_nat_alt unat_of_nat)
    moreover have "exports t ! i \<in> reg_items r"
      using t(2) i(1) exports_nth [OF t(2) i(1)] by (force simp: ex_wf_def)
    then have "(it_name (exports t ! i), addrs ! k) \<in> syms r" using i(3) by (auto simp: syms_def)
    ultimately show ?thesis
      using AddrOfCSymbol_extern [OF b i(1) exports_nth [OF t(2) i(1)]] i length_exports [OF t(2)]
        csym.import_pairs [OF assms(1)] by simp
  qed
  with t ExportedSymbols_exports [OF t(2)] list_all2_lengthD [OF t(3)] show ?thesis by blast
qed

lemma example_registry:
  "\<exists>r. reg_wf r \<and> syms r = {(''div'', 0x1000), (''overflow'', 0x1008)}"
proof -
  have wf: "reg_wf empty_registry" "syms empty_registry = {}"
    by (auto simp: empty_registry_def reg_wf_def syms_def st.bok_def ad.bok_def st.placed_def
        ad.placed_def st.unique_def ad.unique_def)
  then show ?thesis
    using csym.record_all [of empty_registry "[(''div'', 0x1000), (''overflow'', 0x1008)]"] by auto
qed

theorem ExportCSymbol_roundtrip_witness:
  "\<exists>r xs t names. export_all r [0x1008, 0x1000, 0x1008] ([], NewExportTbl) = Inr (xs, t)
     \<and> ExportedSymbols t = Inr names \<and> AddrOfCSymbol t (xs ! 2) = Inr 0x1008"
proof -
  obtain r where r: "reg_wf r" "syms r = {(''div'', 0x1000), (''overflow'', 0x1008)}"
    using example_registry by blast
  from ExportCSymbol_roundtrip [OF r(1), of "[0x1008, 0x1000, 0x1008]"] r(2) obtain xs t names where
    e: "export_all r [0x1008, 0x1000, 0x1008] ([], NewExportTbl) = Inr (xs, t)" "ExportedSymbols t = Inr names"
    "\<forall>k < 3. AddrOfCSymbol t (xs ! k) = Inr ([0x1008, 0x1000, 0x1008] ! k)" by auto
  from e(3) have "AddrOfCSymbol t (xs ! 2) = Inr 0x1008" by auto
  with e show ?thesis by blast
qed

declare set_concat [simp] length_greater_0_conv [simp]

end
