(* ===== verification/Heap_IO.thy ===== *)
theory Heap_IO
  imports Writer C_Globals
begin

text \<open>
  Reading and writing heap images: the structures of \<open>gc/ml-heap-image.h\<close> as sequences of bytes,
  \<open>gc/heap-out-util.c\<close>, the input sources of \<open>gc/heap-input.h\<close> and \<open>gc/heap-in-util.c\<close>.
\<close>

section \<open>Structures\<close>

definition u32_bytes :: "u32 \<Rightarrow> byte_t list" where "u32_bytes w = le_bytes 4 (ucast w)"
definition word_bytes :: "word_t \<Rightarrow> byte_t list" where "word_bytes w = le_bytes 8 w"

abbreviation (input) ORDER :: u32 where "ORDER \<equiv> 0x00112233"
abbreviation (input) IMAGE_MAGIC :: u32 where "IMAGE_MAGIC \<equiv> 0x08192026"
abbreviation (input) BLAST_MAGIC :: u32 where "BLAST_MAGIC \<equiv> 0x08192026"
abbreviation (input) EXPORT_HEAP_IMAGE :: u32 where "EXPORT_HEAP_IMAGE \<equiv> 1"
abbreviation (input) EXPORT_FN_IMAGE :: u32 where "EXPORT_FN_IMAGE \<equiv> 2"
abbreviation (input) BLAST_IMAGE :: u32 where "BLAST_IMAGE \<equiv> 3"
abbreviation (input) BLAST_UNBOXED :: u32 where "BLAST_UNBOXED \<equiv> 4"

text \<open>\<open>ml_image_hdr_t\<close>: three 32-bit numbers and two fields of 12 characters, without padding.\<close>

record ml_image_hdr =
  ih_byteOrder :: u32
  ih_magic :: u32
  ih_kind :: u32
  ih_arch :: "byte_t list"
  ih_opsys :: "byte_t list"

definition image_hdr_bytes :: "ml_image_hdr \<Rightarrow> byte_t list" where
  "image_hdr_bytes h = u32_bytes (ih_byteOrder h) @ u32_bytes (ih_magic h) @ u32_bytes (ih_kind h) @ ih_arch h @ ih_opsys h"

definition get_u32 :: "nat \<Rightarrow> byte_t list \<Rightarrow> u32" where "get_u32 i bs = of_nat (le_nat (take 4 (drop i bs)))"
definition get_word :: "nat \<Rightarrow> byte_t list \<Rightarrow> word_t" where "get_word i bs = of_nat (le_nat (take 8 (drop i bs)))"

definition image_hdr_of :: "byte_t list \<Rightarrow> ml_image_hdr" where
  "image_hdr_of bs = \<lparr>ih_byteOrder = get_u32 0 bs, ih_magic = get_u32 4 bs, ih_kind = get_u32 8 bs,
     ih_arch = take 12 (drop 12 bs), ih_opsys = take 12 (drop 24 bs)\<rparr>"

section \<open>Writing: heap-out-util.c\<close>

text \<open>The bytes of a C string without its terminator, and \<open>strncpy\<close>.\<close>

definition cbytes :: "string \<Rightarrow> byte_t list" where "cbytes s = map (\<lambda>c. of_nat (of_char c)) s"
definition cchars :: "byte_t list \<Rightarrow> string" where "cchars bs = map (\<lambda>b. char_of (unat b)) bs"

definition strncpy :: "nat \<Rightarrow> byte_t list \<Rightarrow> byte_t list" where
  "strncpy n s = take n s @ replicate (n - length s) 0"

definition image_hdr :: "u32 \<Rightarrow> ml_image_hdr" where
  "image_hdr kind = \<lparr>ih_byteOrder = ORDER,
     ih_magic = (if kind = EXPORT_HEAP_IMAGE \<or> kind = EXPORT_FN_IMAGE then IMAGE_MAGIC else BLAST_MAGIC),
     ih_kind = kind, ih_arch = strncpy 12 (cbytes ''amd64''), ih_opsys = strncpy 12 (cbytes ''linux'')\<rparr>"

definition HeapIO_WriteImageHeader :: "'s writer_t \<Rightarrow> u32 \<Rightarrow> 's \<Rightarrow> bool \<times> 's" where
  "HeapIO_WriteImageHeader W kind s = (let s = wr_write W (image_hdr_bytes (image_hdr kind)) s in (\<not> errFlg W s, s))"

text \<open>The result is the number of bytes written, or \<open>-1\<close>.\<close>

definition HeapIO_WriteExterns :: "'s writer_t \<Rightarrow> export_table \<Rightarrow> 's \<Rightarrow> (addr_t \<times> 's) res" where
  "HeapIO_WriteExterns W tbl s =
     rbind (ExportedSymbols tbl) (\<lambda>externs.
     let strSize0 = fold (\<lambda>n sz. sz + (of_nat (length n) + 1)) externs (0 :: addr_t);
         padSzB = ROUNDUP strSize0 8 - strSize0;
         strSize = strSize0 + padSzB;
         s1 = wr_write W (u32_bytes (of_nat (length externs)) @ u32_bytes (ucast strSize)) s;
         s2 = fold (\<lambda>n. wr_write W (cbytes n @ [0])) externs s1;
         s3 = (if padSzB \<noteq> 0 then wr_write W (replicate (unat padSzB) 0) s2 else s2)
     in Inr (if errFlg W s3 then - 1 else 8 + strSize, s3))"

section \<open>Reading: heap-in-util.c\<close>

text \<open>
  An input source is a buffer in memory, then a stream if there is one. \<open>ReadBlock\<close> compares
  the number of bytes of a read with the number that are still missing after it; a stream
  whose read is short is at its end.
\<close>

record inbuf =
  ib_needsSwap :: bool
  ib_file :: "FILE_t option"
  ib_base :: addr_t
  ib_buf :: addr_t
  ib_nbytes :: addr_t

function ReadBlock :: "nat \<Rightarrow> FILE_t \<Rightarrow> (bool \<times> byte_t list) \<times> FILE_t" where
  "ReadBlock len f =
     (if len = 0 then ((True, []), f)
      else if length (fst (fread len f)) < len - length (fst (fread len f)) then ((False, fst (fread len f)), snd (fread len f))
      else let ((ok, bs), g) = ReadBlock (len - length (fst (fread len f))) (snd (fread len f)) in ((ok, fst (fread len f) @ bs), g))"
  by pat_completeness auto
termination by (relation "measure fst") auto

declare ReadBlock.simps [simp del]

definition HeapIO_Seek :: "int \<Rightarrow> inbuf \<Rightarrow> bool \<times> inbuf" where
  "HeapIO_Seek offset bp =
     (case ib_file bp of
        None \<Rightarrow>
          (let newPos = ib_base bp + of_int offset in
           if ib_buf bp + ib_nbytes bp \<le> newPos then (False, bp)
           else (True, bp\<lparr>ib_nbytes := ib_nbytes bp - (newPos - ib_buf bp), ib_buf := newPos\<rparr>))
      | Some f \<Rightarrow> (case fseek offset f of None \<Rightarrow> (False, bp) | Some f \<Rightarrow> (True, bp\<lparr>ib_file := Some f, ib_nbytes := 0\<rparr>)))"

text \<open>The status and the bytes that were copied.\<close>

definition HeapIO_ReadBlock :: "memory \<Rightarrow> nat \<Rightarrow> inbuf \<Rightarrow> ((bool \<times> byte_t list) \<times> inbuf) res" where
  "HeapIO_ReadBlock m len bp =
     (let swap = (\<lambda>r. if ib_needsSwap bp then Inl (Die ''byte-swapping not implemented yet'') else Inr r) in
      if len \<le> unat (ib_nbytes bp) then
        swap ((True, bytes_at (ib_buf bp) len m), bp\<lparr>ib_nbytes := ib_nbytes bp - of_nat len, ib_buf := ib_buf bp + of_nat len\<rparr>)
      else case ib_file bp of
        Some f \<Rightarrow>
          (let n = unat (ib_nbytes bp); ((ok, bs), f) = ReadBlock (len - n) f in
           swap ((ok, bytes_at (ib_buf bp) n m @ bs), bp\<lparr>ib_file := Some f, ib_nbytes := 0\<rparr>))
      | None \<Rightarrow> Inr ((False, []), bp))"

text \<open>
  The names in the table, each with its terminator, are looked up one after the other. The
  results of the reads are not tested: after a failure the header or the names are whatever was
  in memory.
\<close>

fun import_names :: "registry \<Rightarrow> nat \<Rightarrow> byte_t list \<Rightarrow> word_t list res" where
  "import_names r 0 bs = Inr []"
| "import_names r (Suc n) bs =
     (if 0 \<notin> set bs then Inl (Fault ''string table overrun'')
      else rbind (ImportCSymbol (cchars (takeWhile (\<lambda>b. b \<noteq> 0) bs)) r) (\<lambda>a.
        if a = ML_unit then Inl (Die ''Run-time system does not provide the symbol'')
        else rbind (import_names r n (tl (dropWhile (\<lambda>b. b \<noteq> 0) bs))) (\<lambda>as. Inr (a # as))))"

definition HeapIO_ReadExterns :: "registry \<Rightarrow> memory \<Rightarrow> inbuf \<Rightarrow> (word_t list \<times> inbuf) res" where
  "HeapIO_ReadExterns r m bp =
     rbind (HeapIO_ReadBlock m 8 bp) (\<lambda>((ok, hdr), bp).
     if \<not> ok then Inl (Fault ''uninitialised header'')
     else rbind (HeapIO_ReadBlock m (unat (get_u32 4 hdr)) bp) (\<lambda>((ok, buf), bp).
       if \<not> ok then Inl (Fault ''uninitialised names'')
       else rbind (import_names r (unat (get_u32 0 hdr)) buf) (\<lambda>externs. Inr (externs, bp))))"

section \<open>Numbers\<close>

lemma le_nat_le_bytes: "le_nat (le_bytes k w) = unat w mod 256 ^ k"
proof (induction k arbitrary: w)
  case (Suc k)
  have "le_bytes (Suc k) w = ucast w # le_bytes k (drop_bit 8 w)"
    unfolding le_bytes_def upt_conv_Cons [OF zero_less_Suc] map_Suc_upt [symmetric] by (simp add: drop_bit_drop_bit comp_def add.commute del: upt_Suc map_upt_Suc)
  moreover have "unat (ucast w :: byte_t) = unat w mod 256" by (simp add: unsigned_ucast_eq take_bit_eq_mod)
  moreover have "unat (drop_bit 8 w) = unat w div 256" by (simp add: drop_bit_eq_div unat_div)
  ultimately show ?case using Suc by (simp add: mod_mult2_eq)
qed (simp add: le_bytes_def)

lemma get_u32_bytes: "length xs = i \<Longrightarrow> get_u32 i (xs @ u32_bytes w @ ys) = w"
proof -
  assume i: "length xs = i"
  have w: "unat w < 2 ^ 32" using unsigned_less [of w] by simp
  then have "unat w < 2 ^ 64" by simp
  then have "unat (ucast w :: word_t) = unat w" by (simp add: unsigned_ucast_eq take_bit_nat_eq_self)
  moreover note w
  ultimately show ?thesis using i by (simp add: get_u32_def u32_bytes_def le_nat_le_bytes)
qed

lemma get_word_bytes: "length xs = i \<Longrightarrow> get_word i (xs @ word_bytes w @ ys) = w"
proof -
  assume i: "length xs = i"
  have "unat w < 2 ^ 64" using unsigned_less [of w] by simp
  then show ?thesis using i by (simp add: get_word_def word_bytes_def le_nat_le_bytes)
qed

section \<open>What is left to read\<close>

definition remaining :: "memory \<Rightarrow> inbuf \<Rightarrow> byte_t list" where
  "remaining m bp = bytes_at (ib_buf bp) (unat (ib_nbytes bp)) m
     @ (case ib_file bp of None \<Rightarrow> [] | Some f \<Rightarrow> drop (f_pos f) (f_data f))"

lemma ReadBlock_all: "len \<le> length (drop (f_pos f) (f_data f)) \<Longrightarrow>
  ReadBlock len f = ((True, take len (drop (f_pos f) (f_data f))), f\<lparr>f_pos := f_pos f + len\<rparr>)"
proof -
  assume l: "len \<le> length (drop (f_pos f) (f_data f))"
  have z: "ReadBlock 0 g = ((True, []), g)" for g by (subst ReadBlock.simps) simp
  have "length (fst (fread len f)) = len" "snd (fread len f) = f\<lparr>f_pos := f_pos f + len\<rparr>" "fst (fread len f) = take len (drop (f_pos f) (f_data f))"
    using l by (simp_all add: fread_def Let_def min_def)
  then show ?thesis by (subst ReadBlock.simps) (simp add: z)
qed

lemma ReadBlock_short: "length (drop (f_pos f) (f_data f)) < len \<Longrightarrow> \<exists>bs g. ReadBlock len f = ((False, bs), g)"
proof (induction len f rule: ReadBlock.induct)
  case (1 len f)
  let ?n = "length (drop (f_pos f) (f_data f))"
  have n: "length (fst (fread len f)) = ?n" "f_pos (snd (fread len f)) = f_pos f + ?n" "f_data (snd (fread len f)) = f_data f"
    using 1(2) by (simp_all add: fread_def Let_def min_def)
  show ?case
  proof (cases "?n < len - ?n")
    case True
    then show ?thesis using n 1(2) by (subst ReadBlock.simps) auto
  next
    case False
    have "length (drop (f_pos (snd (fread len f))) (f_data (snd (fread len f)))) < len - length (fst (fread len f))" using n 1(2) by simp
    then obtain bs g where "ReadBlock (len - length (fst (fread len f))) (snd (fread len f)) = ((False, bs), g)"
      using 1(1) n False 1(2) by fastforce
    then show ?thesis using n False 1(2) by (subst ReadBlock.simps) auto
  qed
qed

lemma HeapIO_ReadBlock_ok:
  assumes "len \<le> length (remaining m bp)" "\<not> ib_needsSwap bp"
  shows "\<exists>bp'. HeapIO_ReadBlock m len bp = Inr ((True, take len (remaining m bp)), bp') \<and> remaining m bp' = drop len (remaining m bp) \<and> \<not> ib_needsSwap bp'"
proof (cases "len \<le> unat (ib_nbytes bp)")
  case True
  have "unat (ib_nbytes bp) < 2 ^ 64" using unsigned_less [of "ib_nbytes bp"] by simp
  then have "len < 2 ^ 64" by (rule le_less_trans [OF True])
  then have l: "unat (of_nat len :: addr_t) = len" by (simp add: unat_of_nat)
  then have u: "unat (ib_nbytes bp - of_nat len) = unat (ib_nbytes bp) - len" using True by (simp add: unat_sub word_le_nat_alt)
  obtain k where k: "unat (ib_nbytes bp) = len + k" using True le_Suc_ex by blast
  let ?bp = "bp\<lparr>ib_nbytes := ib_nbytes bp - of_nat len, ib_buf := ib_buf bp + of_nat len\<rparr>"
  have "bytes_at (ib_buf bp) (len + k) m = bytes_at (ib_buf bp) len m @ bytes_at (ib_buf bp + of_nat len) k m" by (rule bytes_at_add)
  then have "remaining m bp = bytes_at (ib_buf bp) len m @ remaining m ?bp" using u k by (simp add: remaining_def)
  moreover have "HeapIO_ReadBlock m len bp = Inr ((True, bytes_at (ib_buf bp) len m), ?bp)" using True assms(2) by (simp add: HeapIO_ReadBlock_def)
  ultimately show ?thesis using assms(2) by (intro exI [of _ ?bp]) simp
next
  case False
  let ?n = "unat (ib_nbytes bp)"
  obtain f where f: "ib_file bp = Some f" using assms(1) False by (cases "ib_file bp") (auto simp: remaining_def)
  have "len - ?n \<le> length (drop (f_pos f) (f_data f))" using assms(1) f by (simp add: remaining_def)
  note r = ReadBlock_all [OF this]
  let ?bp = "bp\<lparr>ib_file := Some (f\<lparr>f_pos := f_pos f + (len - ?n)\<rparr>), ib_nbytes := 0\<rparr>"
  have "HeapIO_ReadBlock m len bp = Inr ((True, bytes_at (ib_buf bp) ?n m @ take (len - ?n) (drop (f_pos f) (f_data f))), ?bp)"
    using False f r assms(2) by (simp add: HeapIO_ReadBlock_def Let_def)
  then show ?thesis using False f assms(2) by (intro exI [of _ ?bp]) (simp add: remaining_def bytes_at_def add.commute)
qed

lemma HeapIO_ReadBlock_short:
  assumes "length (remaining m bp) < len" "\<not> ib_needsSwap bp"
  shows "\<exists>bs bp'. HeapIO_ReadBlock m len bp = Inr ((False, bs), bp')"
proof (cases "ib_file bp")
  case None
  then show ?thesis using assms by (simp add: HeapIO_ReadBlock_def remaining_def)
next
  case (Some f)
  have "length (drop (f_pos f) (f_data f)) < len - unat (ib_nbytes bp)" using assms(1) Some by (simp add: remaining_def)
  from ReadBlock_short [OF this] obtain bs g where "ReadBlock (len - unat (ib_nbytes bp)) f = ((False, bs), g)" by blast
  then show ?thesis using assms Some by (auto simp: HeapIO_ReadBlock_def remaining_def)
qed

end
