(* ===== verification/IO_Correct.thy ===== *)
theory IO_Correct
  imports Heap_IO
begin

text \<open>
  Heap images are read back as they were written: the image header and the table of external
  symbols, through any writer that meets its interface and any input source.
\<close>

section \<open>Characters\<close>

lemma cchars_cbytes: "cchars (cbytes s) = s"
proof -
  have "char_of (unat (of_nat (of_char c) :: byte_t)) = c" for c :: char
  proof -
    have "(of_char c :: nat) < 256" by simp
    then show ?thesis by (simp add: unat_of_nat)
  qed
  then show ?thesis by (simp add: cchars_def cbytes_def comp_def)
qed

lemma cbytes_no_nul: "CHR 0x00 \<notin> set s \<Longrightarrow> 0 \<notin> set (cbytes s)"
proof
  assume s: "CHR 0x00 \<notin> set s" "0 \<in> set (cbytes s)"
  then obtain c where c: "c \<in> set s" "(of_nat (of_char c) :: byte_t) = 0" by (auto simp: cbytes_def)
  have "unat (of_nat (of_char c) :: byte_t) = of_char c" by (simp add: unat_of_nat)
  then have "(of_char c :: nat) = 0" using c(2) by simp
  then have "of_char c = (of_char (CHR 0x00) :: nat)" by simp
  then have "c = CHR 0x00" by (simp only: of_char_eq_iff)
  with c(1) s(1) show False by simp
qed

section \<open>The table of external symbols\<close>

definition name_bytes :: "string list \<Rightarrow> byte_t list" where "name_bytes names = concat (map (\<lambda>n. cbytes n @ [0]) names)"

definition pad :: "nat \<Rightarrow> nat" where "pad n = (n + 7) div 8 * 8 - n"

definition extern_bytes :: "string list \<Rightarrow> byte_t list" where
  "extern_bytes names = (let n = length (name_bytes names) in
     u32_bytes (of_nat (length names)) @ u32_bytes (of_nat (n + pad n)) @ name_bytes names @ replicate (pad n) 0)"

lemma pad_le: "n + pad n = (n + 7) div 8 * 8" "pad n < 8"
  unfolding pad_def by presburger+

lemma str_size: "fold (\<lambda>n sz. sz + (of_nat (length n) + 1)) names (of_nat k :: addr_t) = of_nat (k + length (name_bytes names))"
proof (induction names arbitrary: k)
  case (Cons n names)
  have "fold (\<lambda>n sz. sz + (of_nat (length n) + 1)) (n # names) (of_nat k :: addr_t)
      = fold (\<lambda>n sz. sz + (of_nat (length n) + 1)) names (of_nat (k + (length n + 1)))" by (simp add: ac_simps)
  also have "\<dots> = of_nat (k + (length n + 1) + length (name_bytes names))" by (rule Cons.IH)
  also have "k + (length n + 1) + length (name_bytes names) = k + length (name_bytes (n # names))" by (simp add: name_bytes_def cbytes_def)
  finally show ?case .
qed (simp add: name_bytes_def)

lemma ucast_of_nat_32: "n < 2 ^ 32 \<Longrightarrow> (ucast (of_nat n :: addr_t) :: u32) = of_nat n"
proof -
  assume n: "n < 2 ^ 32"
  have "unat (of_nat n :: addr_t) = n" "unat (of_nat n :: u32) = n" using n by (subst unat_of_nat, simp)+
  then show ?thesis using take_bit_nat_eq_self [OF n] by (simp add: word_unat_eq_iff unsigned_ucast_eq)
qed

lemma str_pad:
  assumes "n < 2 ^ 32"
  shows "unat (ROUNDUP (of_nat n) 8 - of_nat n) = pad n" "ROUNDUP (of_nat n) 8 = of_nat (n + pad n)"
proof -
  have n: "unat (of_nat n :: addr_t) = n" using assms by (subst unat_of_nat) simp
  have "unat (of_nat n :: addr_t) + 2 ^ 3 \<le> 2 ^ 64" using n assms by simp
  from ROUNDUP_pow2 [OF this] have r: "unat (ROUNDUP (of_nat n) 8) = n + pad n" by (simp add: n pad_le)
  then have "of_nat n \<le> ROUNDUP (of_nat n) 8" by (simp add: word_le_nat_alt n)
  then show "unat (ROUNDUP (of_nat n) 8 - of_nat n) = pad n" by (simp add: unat_sub r n)
  have "unat (of_nat (n + pad n) :: addr_t) = n + pad n" using assms pad_le(2) [of n] by (subst unat_of_nat) simp
  then show "ROUNDUP (of_nat n) 8 = of_nat (n + pad n)" using r by (simp add: word_unat_eq_iff)
qed

lemma length_extern_bytes: "length (extern_bytes names) = 8 + (length (name_bytes names) + pad (length (name_bytes names)))"
  by (simp add: extern_bytes_def Let_def u32_bytes_def)

context writer
begin

lemma WriteImageHeader_out:
  assumes "room n s" "length (image_hdr_bytes (image_hdr kind)) \<le> n"
  shows "\<exists>s'. HeapIO_WriteImageHeader W kind s = (True, s') \<and> out s' = out s @ image_hdr_bytes (image_hdr kind)
    \<and> room (n - length (image_hdr_bytes (image_hdr kind))) s'"
  using write_output [OF assms] write_room [OF assms] room_ok by (auto simp: HeapIO_WriteImageHeader_def Let_def)

lemma WriteExterns_out:
  assumes x: "ExportedSymbols tbl = Inr names" and r: "room k s" and l: "length (extern_bytes names) \<le> k" and sz: "length (name_bytes names) < 2 ^ 31"
  shows "\<exists>s'. HeapIO_WriteExterns W tbl s = Inr (of_nat (length (extern_bytes names)), s') \<and> out s' = out s @ extern_bytes names
    \<and> room (k - length (extern_bytes names)) s'"
proof -
  define n where "n = length (name_bytes names)"
  have n: "n < 2 ^ 32" using sz by (simp add: n_def)
  note p = str_pad [OF n]
  let ?hdr = "u32_bytes (of_nat (length names)) @ u32_bytes (of_nat (n + pad n))"
  let ?bss = "?hdr # map (\<lambda>n. cbytes n @ [0]) names @ (if pad n = 0 then [] else [replicate (pad n) 0])"
  have c: "concat ?bss = extern_bytes names" by (simp add: extern_bytes_def Let_def name_bytes_def n_def)
  have z: "ROUNDUP (of_nat n) 8 - of_nat n = (0 :: addr_t) \<longleftrightarrow> pad n = 0" using p(1) by (metis unat_eq_0)
  have sum: "fold (\<lambda>n sz. sz + (of_nat (length n) + 1)) names 0 = (of_nat n :: addr_t)" using str_size [of names 0] by (simp add: n_def)
  have tot: "of_nat n + (ROUNDUP (of_nat n) 8 - of_nat n) = (of_nat (n + pad n) :: addr_t)" using p(2) by simp
  have "n + pad n < 2 ^ 32" using sz pad_le(2) [of n] by (simp add: n_def)
  then have u: "(ucast (of_nat (n + pad n) :: addr_t) :: u32) = of_nat (n + pad n)" by (rule ucast_of_nat_32)
  have "HeapIO_WriteExterns W tbl s = Inr (if errFlg W (fold (wr_write W) ?bss s) then - 1 else 8 + of_nat (n + pad n), fold (wr_write W) ?bss s)"
    unfolding HeapIO_WriteExterns_def x rbind.simps Let_def sum z tot p(1) u by (cases "pad n = 0") (simp_all add: fold_map comp_def)
  moreover have "out (fold (wr_write W) ?bss s) = out s @ extern_bytes names \<and> room (k - length (extern_bytes names)) (fold (wr_write W) ?bss s)"
    using writes_output [OF r, of ?bss] l unfolding c by simp
  ultimately show ?thesis using room_ok by (auto simp: length_extern_bytes n_def)
qed

end

lemma import_names_ok:
  assumes "list_all2 (\<lambda>n a. ImportCSymbol n r = Inr a \<and> a \<noteq> ML_unit) names as" "\<forall>n \<in> set names. CHR 0x00 \<notin> set n"
  shows "import_names r (length names) (name_bytes names @ rest) = Inr as"
  using assms
proof (induction names as rule: list_all2_induct)
  case (Cons n names a as)
  have z: "0 \<notin> set (cbytes n)" using Cons.prems by (simp add: cbytes_no_nul)
  then have z': "\<And>b. b \<in> set (cbytes n) \<Longrightarrow> b \<noteq> 0" by blast
  have "takeWhile (\<lambda>b. b \<noteq> 0) (name_bytes (n # names) @ rest) = cbytes n" "dropWhile (\<lambda>b. b \<noteq> 0) (name_bytes (n # names) @ rest) = 0 # name_bytes names @ rest"
    using takeWhile_append2 [of "cbytes n" "\<lambda>b. b \<noteq> 0", OF z'] dropWhile_append2 [of "cbytes n" "\<lambda>b. b \<noteq> 0", OF z'] by (simp_all add: name_bytes_def)
  moreover have "0 \<in> set (name_bytes (n # names) @ rest)" by (simp add: name_bytes_def)
  ultimately show ?case using Cons by (simp add: cchars_cbytes)
qed simp

lemma ReadExterns_ok:
  assumes imp: "list_all2 (\<lambda>n a. ImportCSymbol n r = Inr a \<and> a \<noteq> ML_unit) names as" "\<forall>n \<in> set names. CHR 0x00 \<notin> set n"
    and rem: "remaining m bp = extern_bytes names @ rest" "\<not> ib_needsSwap bp"
    and sz: "length names < 2 ^ 32" "length (name_bytes names) < 2 ^ 31"
  shows "\<exists>bp'. HeapIO_ReadExterns r m bp = Inr (as, bp') \<and> remaining m bp' = rest \<and> \<not> ib_needsSwap bp'"
proof -
  let ?n = "length (name_bytes names)"
  let ?hdr = "u32_bytes (of_nat (length names)) @ u32_bytes (of_nat (?n + pad ?n))" and ?tbl = "name_bytes names @ replicate (pad ?n) 0"
  have e: "remaining m bp = ?hdr @ ?tbl @ rest" using rem(1) by (simp add: extern_bytes_def Let_def)
  have h8: "length ?hdr = 8" by (simp add: u32_bytes_def)
  from HeapIO_ReadBlock_ok [of 8 m bp] e h8 rem(2) obtain b1 where
    b1: "HeapIO_ReadBlock m 8 bp = Inr ((True, ?hdr), b1)" "remaining m b1 = ?tbl @ rest" "\<not> ib_needsSwap b1" by auto
  have "get_u32 0 ?hdr = of_nat (length names)" using get_u32_bytes [of "[]" 0] by simp
  then have g0: "unat (get_u32 0 ?hdr) = length names" using sz(1) by (simp add: unat_of_nat)
  have "get_u32 4 ?hdr = of_nat (?n + pad ?n)" using get_u32_bytes [of "u32_bytes (of_nat (length names))" 4 _ "[]"] by (simp add: u32_bytes_def)
  moreover have "?n + pad ?n < 2 ^ 32" using sz(2) pad_le(2) [of ?n] by simp
  then have "unat (of_nat (?n + pad ?n) :: u32) = ?n + pad ?n" by (subst unat_of_nat) simp
  ultimately have g4: "unat (get_u32 4 ?hdr) = length ?tbl" by (simp only: length_append length_replicate)
  from HeapIO_ReadBlock_ok [of "length ?tbl" m b1] b1 obtain b2 where
    b2: "HeapIO_ReadBlock m (length ?tbl) b1 = Inr ((True, ?tbl), b2)" "remaining m b2 = rest" "\<not> ib_needsSwap b2" by auto
  show ?thesis unfolding HeapIO_ReadExterns_def using b1(1) b2 g0 g4 import_names_ok [OF imp, of "replicate (pad ?n) 0"] by simp
qed

section \<open>The image header\<close>

lemma image_hdr_of_bytes: "length (ih_arch h) = 12 \<Longrightarrow> length (ih_opsys h) = 12 \<Longrightarrow> image_hdr_of (image_hdr_bytes h) = h"
proof -
  assume l: "length (ih_arch h) = 12" "length (ih_opsys h) = 12"
  have u: "length (u32_bytes w) = 4" for w by (simp add: u32_bytes_def)
  have "get_u32 0 (image_hdr_bytes h) = ih_byteOrder h" using get_u32_bytes [of "[]" 0] by (simp add: image_hdr_bytes_def)
  moreover have "get_u32 4 (image_hdr_bytes h) = ih_magic h" using get_u32_bytes [of "u32_bytes (ih_byteOrder h)" 4] by (simp add: image_hdr_bytes_def u)
  moreover have "get_u32 8 (image_hdr_bytes h) = ih_kind h"
    using get_u32_bytes [of "u32_bytes (ih_byteOrder h) @ u32_bytes (ih_magic h)" 8] by (simp add: image_hdr_bytes_def u)
  moreover have "take 12 (drop 12 (image_hdr_bytes h)) = ih_arch h" "take 12 (drop 24 (image_hdr_bytes h)) = ih_opsys h"
    using l by (simp_all add: image_hdr_bytes_def u)
  ultimately show ?thesis by (simp add: image_hdr_of_def)
qed

lemma image_hdr_ok: "length (image_hdr_bytes (image_hdr kind)) = 36" "image_hdr_of (image_hdr_bytes (image_hdr kind)) = image_hdr kind"
proof -
  have l: "length (ih_arch (image_hdr kind)) = 12" "length (ih_opsys (image_hdr kind)) = 12" by (simp_all add: image_hdr_def strncpy_def cbytes_def)
  then show "length (image_hdr_bytes (image_hdr kind)) = 36" by (simp add: image_hdr_bytes_def u32_bytes_def)
  show "image_hdr_of (image_hdr_bytes (image_hdr kind)) = image_hdr kind" by (rule image_hdr_of_bytes [OF l])
qed

section \<open>Property\<close>

lemma name_bytes_bound: "\<forall>n \<in> set names. length n < 256 \<Longrightarrow> length (name_bytes names) \<le> 256 * length names"
  by (induction names) (auto simp: name_bytes_def cbytes_def)

text \<open>C35. What the header and the symbol table of a heap image say is read back as it was
  written. For every writer that meets its interface: exporting registered addresses, then
  writing the image header and the table of symbols succeeds, and from any input source whose
  next bytes are those that were written the header is read back and the table gives, at the
  number of each exported reference, the address that the symbol has in the reading process.
  The source is then at the byte behind the table.\<close>

theorem image_roundtrip:
  assumes W: "writer W out rom" and rm: "rom (60 + 256 * length addrs) s" and num: "length addrs < 2 ^ 22"
    and r: "reg_wf r" "set addrs \<subseteq> snd ` syms r" "\<forall>(n, a) \<in> syms r. CHR 0x00 \<notin> set n \<and> length n < 256"
    and r': "reg_wf r'" "\<forall>(n, a) \<in> syms r. (n, f a) \<in> syms r' \<and> f a \<noteq> ML_unit"
  shows "\<exists>xs t s1 k s2. export_all r addrs ([], NewExportTbl) = Inr (xs, t)
    \<and> HeapIO_WriteImageHeader W kind s = (True, s1) \<and> HeapIO_WriteExterns W t s1 = Inr (k, s2)
    \<and> (\<forall>m bp rest. remaining m bp = drop (length (out s)) (out s2) @ rest \<and> \<not> ib_needsSwap bp \<longrightarrow>
        (\<exists>bs b1 externs b2. HeapIO_ReadBlock m 36 bp = Inr ((True, bs), b1) \<and> image_hdr_of bs = image_hdr kind
          \<and> HeapIO_ReadExterns r' m b1 = Inr (externs, b2) \<and> remaining m b2 = rest
          \<and> (\<forall>i < length addrs. externs ! unat (GET_LEN (xs ! i)) = f (addrs ! i))))"
proof -
  from export_all_ok [OF r(1) ex_wf_new r(2), of "[]" "[]"] obtain xs t where
    t: "export_all r addrs ([], NewExportTbl) = Inr (xs, t)" "ex_wf r t" "list_all2 (xref_of (exports t)) xs addrs" "et_numItems t \<le> length addrs"
    by (auto simp: NewExportTbl_def)
  define names where "names = map it_name (exports t)"
  have ln: "length names = et_numItems t" using length_exports [OF t(2)] by (simp add: names_def)
  have sym: "(it_name (exports t ! i), it_addr (exports t ! i)) \<in> syms r" if "i < et_numItems t" for i
  proof -
    have "exports t ! i \<in> reg_items r" using t(2) that exports_nth [OF t(2) that] by (force simp: ex_wf_def)
    then show ?thesis by (auto simp: syms_def)
  qed
  have nm: "\<forall>n \<in> set names. CHR 0x00 \<notin> set n \<and> length n < 256"
  proof
    fix n assume "n \<in> set names"
    then obtain i where "i < et_numItems t" "n = it_name (exports t ! i)" using ln by (auto simp: names_def in_set_conv_nth)
    then show "CHR 0x00 \<notin> set n \<and> length n < 256" using r(3) sym by blast
  qed
  have sz: "length (name_bytes names) \<le> 256 * length addrs" using name_bytes_bound [of names] nm ln t(4) by simp
  then have sz': "length (name_bytes names) < 2 ^ 31" using num by simp
  have le: "length (extern_bytes names) \<le> 24 + 256 * length addrs" using sz pad_le(2) [of "length (name_bytes names)"] by (simp add: length_extern_bytes)
  from writer.WriteImageHeader_out [OF W rm, of kind] obtain s1 where
    s1: "HeapIO_WriteImageHeader W kind s = (True, s1)" "out s1 = out s @ image_hdr_bytes (image_hdr kind)" "rom (24 + 256 * length addrs) s1"
    by (auto simp: image_hdr_ok)
  have x: "ExportedSymbols t = Inr names" using ExportedSymbols_exports [OF t(2)] by (simp add: names_def)
  from writer.WriteExterns_out [OF W x s1(3) le sz'] obtain k s2 where
    s2: "HeapIO_WriteExterns W t s1 = Inr (k, s2)" "out s2 = out s1 @ extern_bytes names" by blast
  let ?as = "map (\<lambda>it. f (it_addr it)) (exports t)"
  have imp: "list_all2 (\<lambda>n a. ImportCSymbol n r' = Inr a \<and> a \<noteq> ML_unit) names ?as"
    unfolding list_all2_conv_all_nth using r'(2) sym ln csym.import_pairs [OF r'(1)] by (auto simp: names_def dest!: bspec)
  have at: "?as ! unat (GET_LEN (xs ! i)) = f (addrs ! i)" if i: "i < length addrs" for i
  proof -
    from list_all2_nthD2 [OF t(3) i] obtain j where j: "j < et_numItems t" "xs ! i = MAKE_EXTERN j" "it_addr (exports t ! j) = addrs ! i"
      using length_exports [OF t(2)] by (auto simp: xref_of_def)
    have "j < 2 ^ 31" using j(1) t(4) num by simp
    then have "unat (GET_LEN (xs ! i)) = j" by (simp add: j(2) MAKE_EXTERN_def GET_LEN_MAKE_DESC word_less_nat_alt unat_of_nat)
    then show ?thesis using j length_exports [OF t(2)] by simp
  qed
  have "\<exists>bs b1 externs b2. HeapIO_ReadBlock m 36 bp = Inr ((True, bs), b1) \<and> image_hdr_of bs = image_hdr kind
      \<and> HeapIO_ReadExterns r' m b1 = Inr (externs, b2) \<and> remaining m b2 = rest
      \<and> (\<forall>i < length addrs. externs ! unat (GET_LEN (xs ! i)) = f (addrs ! i))"
    if rem: "remaining m bp = drop (length (out s)) (out s2) @ rest" and sw: "\<not> ib_needsSwap bp" for m bp rest
  proof -
    have e: "remaining m bp = image_hdr_bytes (image_hdr kind) @ extern_bytes names @ rest" using rem s1(2) s2(2) by simp
    from HeapIO_ReadBlock_ok [of 36 m bp] e sw image_hdr_ok(1) [of kind] obtain b1 where
      b1: "HeapIO_ReadBlock m 36 bp = Inr ((True, image_hdr_bytes (image_hdr kind)), b1)" "remaining m b1 = extern_bytes names @ rest" "\<not> ib_needsSwap b1"
      by auto
    have "length names < 2 ^ 32" using ln t(4) num by simp
    from ReadExterns_ok [OF imp _ b1(2,3) this sz'] nm obtain b2 where "HeapIO_ReadExterns r' m b1 = Inr (?as, b2)" "remaining m b2 = rest" by auto
    then show ?thesis using b1(1) image_hdr_ok(2) [of kind] at by blast
  qed
  then show ?thesis using t(1) s1(1) s2(1) by blast
qed

text \<open>A file that is read back in a process where the symbols have other addresses.\<close>

theorem image_roundtrip_witness:
  "\<exists>r r' xs t s1 k s2 bs b1 externs b2. export_all r [0x1008, 0x1000] ([], NewExportTbl) = Inr (xs, t)
    \<and> HeapIO_WriteImageHeader file_writer EXPORT_HEAP_IMAGE \<lparr>fw_err = False, fw_file = \<lparr>f_data = [], f_pos = 0, f_cap = 10000\<rparr>\<rparr> = (True, s1)
    \<and> HeapIO_WriteExterns file_writer t s1 = Inr (k, s2)
    \<and> HeapIO_ReadBlock (\<lambda>_. 0) 36 \<lparr>ib_needsSwap = False, ib_file = Some ((fw_file s2)\<lparr>f_pos := 0\<rparr>), ib_base = 0, ib_buf = 0, ib_nbytes = 0\<rparr> = Inr ((True, bs), b1)
    \<and> ih_kind (image_hdr_of bs) = EXPORT_HEAP_IMAGE \<and> HeapIO_ReadExterns r' (\<lambda>_. 0) b1 = Inr (externs, b2)
    \<and> externs ! unat (GET_LEN (xs ! 0)) = 0x5008"
proof -
  let ?s = "\<lparr>fw_err = False, fw_file = \<lparr>f_data = [], f_pos = 0, f_cap = 10000\<rparr>\<rparr>"
  obtain r where r: "reg_wf r" "syms r = {(''div'', 0x1000), (''overflow'', 0x1008)}" using example_registry by blast
  have wf: "reg_wf empty_registry" "syms empty_registry = {}"
    by (auto simp: empty_registry_def reg_wf_def syms_def st.bok_def ad.bok_def st.placed_def ad.placed_def st.unique_def ad.unique_def)
  then obtain r' where r': "reg_wf r'" "syms r' = {(''div'', 0x5000), (''overflow'', 0x5008)}"
    using csym.record_all [of empty_registry "[(''div'', 0x5000), (''overflow'', 0x5008)]"] by auto
  have "file_room (60 + 256 * length [0x1008 :: word_t, 0x1000]) ?s" by (simp add: file_room_def)
  note rm = this
  have p: "set [0x1008 :: word_t, 0x1000] \<subseteq> snd ` syms r" "\<forall>(n, a) \<in> syms r. CHR 0x00 \<notin> set n \<and> length n < 256"
    "\<forall>(n, a) \<in> syms r. (n, a + 0x4000) \<in> syms r' \<and> a + 0x4000 \<noteq> ML_unit" by (auto simp: r(2) r'(2) ML_unit_def INT_CtoML_def)
  have num: "length [0x1008 :: word_t, 0x1000] < 2 ^ 22" by simp
  from image_roundtrip [OF fw.writer_axioms rm num r(1) p(1,2) r'(1) p(3), of EXPORT_HEAP_IMAGE] obtain xs t s1 k s2 where
    e: "export_all r [0x1008, 0x1000] ([], NewExportTbl) = Inr (xs, t)" "HeapIO_WriteImageHeader file_writer EXPORT_HEAP_IMAGE ?s = (True, s1)"
      "HeapIO_WriteExterns file_writer t s1 = Inr (k, s2)"
      "\<forall>m bp rest. remaining m bp = drop (length (f_data (fw_file ?s))) (f_data (fw_file s2)) @ rest \<and> \<not> ib_needsSwap bp \<longrightarrow>
        (\<exists>bs b1 externs b2. HeapIO_ReadBlock m 36 bp = Inr ((True, bs), b1) \<and> image_hdr_of bs = image_hdr EXPORT_HEAP_IMAGE
          \<and> HeapIO_ReadExterns r' m b1 = Inr (externs, b2) \<and> remaining m b2 = rest
          \<and> (\<forall>i < length [0x1008 :: word_t, 0x1000]. externs ! unat (GET_LEN (xs ! i)) = [0x1008, 0x1000] ! i + 0x4000))"
    by blast
  let ?bp = "\<lparr>ib_needsSwap = False, ib_file = Some ((fw_file s2)\<lparr>f_pos := 0\<rparr>), ib_base = 0, ib_buf = 0, ib_nbytes = 0\<rparr>"
  have "remaining (\<lambda>_. 0) ?bp = drop (length (f_data (fw_file ?s))) (f_data (fw_file s2)) @ [] \<and> \<not> ib_needsSwap ?bp" by (simp add: remaining_def bytes_at_def)
  with e(4) obtain bs b1 externs b2 where f: "HeapIO_ReadBlock (\<lambda>_. 0) 36 ?bp = Inr ((True, bs), b1)" "image_hdr_of bs = image_hdr EXPORT_HEAP_IMAGE"
    "HeapIO_ReadExterns r' (\<lambda>_. 0) b1 = Inr (externs, b2)" "\<forall>i < length [0x1008 :: word_t, 0x1000]. externs ! unat (GET_LEN (xs ! i)) = [0x1008, 0x1000] ! i + 0x4000" by blast
  have "externs ! unat (GET_LEN (xs ! 0)) = 0x5008" using f(4) by auto
  moreover have "ih_kind (image_hdr_of bs) = EXPORT_HEAP_IMAGE" using f(2) by (simp add: image_hdr_def)
  ultimately show ?thesis using e(1-3) f(1,3) by blast
qed

end
