(* ===== verification/Export_Heap.thy ===== *)
theory Export_Heap
  imports Heap_IO Run_ML
begin

text \<open>
  Exporting the heap, \<open>gc/export-heap.c\<close>, with the structures of \<open>gc/ml-heap-image.h\<close> that it
  writes. References to addresses outside the heap are replaced by descriptors that number the
  entries of an export table; when the program goes on running they are put back. Lists of
  regions and descriptors are followed with fuel.
\<close>

section \<open>Structures of the image\<close>

record ml_heap_hdr =
  hh_numVProcs :: u32
  hh_numGens :: u32
  hh_numArenas :: u32
  hh_numBOKinds :: u32
  hh_numBORegions :: u32
  hh_cacheGen :: u32
  hh_allocSzB :: addr_t
  hh_pervStruct :: word_t
  hh_runTimeCompUnit :: word_t

definition heap_hdr_bytes :: "ml_heap_hdr \<Rightarrow> byte_t list" where
  "heap_hdr_bytes h = u32_bytes (hh_numVProcs h) @ u32_bytes (hh_numGens h) @ u32_bytes (hh_numArenas h)
     @ u32_bytes (hh_numBOKinds h) @ u32_bytes (hh_numBORegions h) @ u32_bytes (hh_cacheGen h)
     @ word_bytes (hh_allocSzB h) @ word_bytes (hh_pervStruct h) @ word_bytes (hh_runTimeCompUnit h)"

text \<open>\<open>ml_vproc_image_t\<close>: the signal handler and nine registers, in the order of the structure.\<close>

record ml_vproc_image =
  vi_sigHandler :: word_t
  vi_stdArg :: word_t
  vi_stdCont :: word_t
  vi_stdClos :: word_t
  vi_pc :: word_t
  vi_exnCont :: word_t
  vi_varReg :: word_t
  vi_calleeSave0 :: word_t
  vi_calleeSave1 :: word_t
  vi_calleeSave2 :: word_t

definition vproc_image_bytes :: "ml_vproc_image \<Rightarrow> byte_t list" where
  "vproc_image_bytes v = concat (map word_bytes [vi_sigHandler v, vi_stdArg v, vi_stdCont v, vi_stdClos v, vi_pc v,
     vi_exnCont v, vi_varReg v, vi_calleeSave0 v, vi_calleeSave1 v, vi_calleeSave2 v])"

text \<open>An arena header has 40 bytes; the union of its additional information has 24.\<close>

datatype arena_info = Info_o (io_baseAddr: addr_t) (io_sizeB: addr_t) (io_roundedSzB: addr_t) | Info_bo (ib_numBigObjs: u32) (ib_numBOPages: u32)

record heap_arena_hdr =
  ah_gen :: u32
  ah_objKind :: u32
  ah_offset :: addr_t
  ah_info :: arena_info

fun arena_info_bytes :: "arena_info \<Rightarrow> byte_t list" where
  "arena_info_bytes (Info_o baseAddr sizeB roundedSzB) = word_bytes baseAddr @ word_bytes sizeB @ word_bytes roundedSzB"
| "arena_info_bytes (Info_bo numBigObjs numBOPages) = u32_bytes numBigObjs @ u32_bytes numBOPages @ replicate 16 0"

definition arena_hdr_bytes :: "heap_arena_hdr \<Rightarrow> byte_t list" where
  "arena_hdr_bytes h = u32_bytes (ah_gen h) @ u32_bytes (ah_objKind h) @ word_bytes (ah_offset h) @ arena_info_bytes (ah_info h)"

record bo_region_info =
  bi_baseAddr :: addr_t
  bi_sizeB :: addr_t

definition region_info_bytes :: "bo_region_info \<Rightarrow> byte_t list" where
  "region_info_bytes h = word_bytes (bi_baseAddr h) @ word_bytes (bi_sizeB h)"

record bigobj_hdr =
  bh_gen :: u32
  bh_objKind :: u32
  bh_baseAddr :: addr_t
  bh_sizeB :: addr_t

definition bigobj_hdr_bytes :: "bigobj_hdr \<Rightarrow> byte_t list" where
  "bigobj_hdr_bytes h = u32_bytes (bh_gen h) @ u32_bytes (bh_objKind h) @ word_bytes (bh_baseAddr h) @ word_bytes (bh_sizeB h)"

section \<open>External references\<close>

definition isEXTERN :: "bibop \<Rightarrow> word_t \<Rightarrow> bool res" where
  "isEXTERN b w = (if isBOXED w then rbind (ADDR_TO_PAGEID b w) (\<lambda>aid. Inr (aid = AID_UNMAPPED)) else Inr False)"

definition isEXTERNTAG :: "word_t \<Rightarrow> bool" where "isEXTERNTAG w \<longleftrightarrow> isDESC w \<and> GET_TAG w = DTAG_extern"

definition SAVE_REG :: "registry \<Rightarrow> bibop \<Rightarrow> word_t \<Rightarrow> export_table \<Rightarrow> (word_t \<times> export_table) res" where
  "SAVE_REG r b w tbl = rbind (isEXTERN b w) (\<lambda>x. if x then ExportCSymbol r w tbl else Inr (w, tbl))"

section \<open>Loops over an arena\<close>

text \<open>The words from \<open>tospBase\<close> up to \<open>nextw\<close>.\<close>

definition arena_words :: "arena \<Rightarrow> addr_t list" where
  "arena_words ap = map (at_ix (a_tospBase ap)) [0..<(unat (a_nextw ap) - unat (a_tospBase ap) + 7) div 8]"

text \<open>
  The objects of a mixed arena: the length of an object and of its pointer part are found from
  its descriptor, and \<open>f\<close> is applied to the address of each word of the pointer part. A pointer
  that leaves the address space is an undefined result.
\<close>

definition obj_lens :: "word_t \<Rightarrow> (nat \<times> nat) option" where
  "obj_lens hdr =
     (if GET_TAG hdr = DTAG_vec_hdr \<or> GET_TAG hdr = DTAG_arr_hdr then Some (2, 1)
      else if GET_TAG hdr = DTAG_mixed then Some (unat (MIXED_GET_LEN hdr), unat (MIXED_GET_PTRLEN hdr))
      else None)"

function mixed_loop :: "('s \<Rightarrow> memory) \<Rightarrow> (addr_t \<Rightarrow> 's \<Rightarrow> 's res) \<Rightarrow> addr_t \<Rightarrow> addr_t \<Rightarrow> 's \<Rightarrow> 's res" where
  "mixed_loop mem f p q s =
     (if p < q then
        (case obj_lens (mem s p) of
           None \<Rightarrow> Inl (Die ''invalid header tag in mixed arena'')
         | Some (objLen, ptrLen) \<Rightarrow>
             if 2 ^ 64 \<le> unat p + 8 + 8 * objLen then Inl (Fault ''pointer overflow'')
             else rbind (rfold (\<lambda>j. f (at_ix (p + 8) j)) [0..<ptrLen] s) (mixed_loop mem f (at_ix (p + 8) objLen) q))
      else Inr s)"
  by pat_completeness auto
termination
proof (relation "measure (\<lambda>(_, _, p, q, _). unat q - unat p)", goal_cases)
  case (2 mem f p q s x objLen ptrLen s')
  have "unat (p + 8) = unat p + 8" using 2(4) by (intro unat_add_lem [THEN iffD1, of p 8, simplified]) simp
  moreover have "unat (at_ix (p + 8) objLen) = unat (p + 8) + 8 * objLen" using 2(4) \<open>unat (p + 8) = unat p + 8\<close> by (intro unat_at_ix) simp
  ultimately show ?case using 2(1) by (simp add: word_less_nat_alt)
qed simp

declare mixed_loop.simps [simp del]

section \<open>ScanHeap\<close>

definition patch_word :: "registry \<Rightarrow> addr_t \<Rightarrow> bool \<times> export_table \<times> rt \<Rightarrow> (bool \<times> export_table \<times> rt) res" where
  "patch_word r a = (\<lambda>(needsRepair, tbl, s).
     rbind (isEXTERN (rt_bibop s) (rt_mem s a)) (\<lambda>x.
     if x then rbind (ExportCSymbol r (rt_mem s a) tbl) (\<lambda>(w, tbl). Inr (True, tbl, upd_mem (\<lambda>m. m(a := w)) s))
     else Inr (needsRepair, tbl, s)))"

definition PatchArena :: "registry \<Rightarrow> nat \<Rightarrow> nat \<Rightarrow> export_table \<times> rt \<Rightarrow> (export_table \<times> rt) res" where
  "PatchArena r i indx = (\<lambda>(tbl, s).
     rbind (rfold (patch_word r) (arena_words (get_arena i indx s)) (False, tbl, s)) (\<lambda>(needsRepair, tbl, s).
     Inr (tbl, upd_arena i indx (\<lambda>ap. ap\<lparr>a_needsRepair := needsRepair\<rparr>) s)))"

text \<open>The mixed arena: whether it needs repair is computed and not stored.\<close>

definition patch_mixed :: "registry \<Rightarrow> nat \<Rightarrow> export_table \<times> rt \<Rightarrow> (export_table \<times> rt) res" where
  "patch_mixed r i = (\<lambda>(tbl, s).
     let ap = get_arena i MIXED_INDX s in
     rbind (mixed_loop (\<lambda>(_, _, s). rt_mem s) (patch_word r) (a_tospBase ap) (a_nextw ap) (False, tbl, s)) (\<lambda>(_, tbl, s).
     Inr (tbl, s)))"

definition scan_gen :: "registry \<Rightarrow> nat \<Rightarrow> export_table \<times> rt \<Rightarrow> (export_table \<times> rt) res" where
  "scan_gen r i x =
     rbind (PatchArena r i RECORD_INDX x) (\<lambda>x.
     rbind (PatchArena r i PAIR_INDX x) (\<lambda>x.
     rbind (PatchArena r i ARRAY_INDX x) (patch_mixed r i)))"

definition ScanHeap :: "registry \<Rightarrow> rt \<Rightarrow> (export_table \<times> rt) res" where
  "ScanHeap r s = rfold (scan_gen r) [0..<h_numGens (rt_heap s)] (NewExportTbl, s)"

section \<open>RepairHeap\<close>

definition repair_extern :: "export_table \<Rightarrow> addr_t \<Rightarrow> rt \<Rightarrow> rt res" where
  "repair_extern tbl a s =
     (if isEXTERNTAG (rt_mem s a)
      then rbind (AddrOfCSymbol tbl (rt_mem s a)) (\<lambda>w. Inr (upd_mem (\<lambda>m. m(a := w)) s))
      else Inr s)"

definition RepairArena :: "export_table \<Rightarrow> nat \<Rightarrow> nat \<Rightarrow> rt \<Rightarrow> rt res" where
  "RepairArena tbl i indx s =
     rbind (if a_needsRepair (get_arena i indx s) then rfold (repair_extern tbl) (arena_words (get_arena i indx s)) s else Inr s) (\<lambda>s.
     Inr (upd_arena i indx (\<lambda>ap. ap\<lparr>a_needsRepair := False\<rparr>) s))"

definition repair_mixed :: "export_table \<Rightarrow> nat \<Rightarrow> rt \<Rightarrow> rt res" where
  "repair_mixed tbl i s =
     (let ap = get_arena i MIXED_INDX s in
      if a_needsRepair ap then mixed_loop rt_mem (repair_extern tbl) (a_tospBase ap) (a_nextw ap) s else Inr s)"

definition repair_gen :: "export_table \<Rightarrow> nat \<Rightarrow> rt \<Rightarrow> rt res" where
  "repair_gen tbl i s =
     rbind (RepairArena tbl i RECORD_INDX s) (\<lambda>s.
     rbind (RepairArena tbl i PAIR_INDX s) (\<lambda>s.
     rbind (RepairArena tbl i ARRAY_INDX s) (repair_mixed tbl i)))"

definition RepairHeap :: "export_table \<Rightarrow> rt \<Rightarrow> rt res" where
  "RepairHeap tbl s = rfold (repair_gen tbl) [0..<h_numGens (rt_heap s)] s"

section \<open>WriteHeap\<close>

fun region_list :: "nat \<Rightarrow> nat \<Rightarrow> rt \<Rightarrow> bigobj_region list res" where
  "region_list 0 rp s = (if rp = 0 then Inr [] else Inl NoFuel)"
| "region_list (Suc fuel) rp s =
     (if rp = 0 then Inr [] else rbind (get_region rp s) (\<lambda>r. rbind (region_list fuel (br_next r) s) (\<lambda>rs. Inr (r # rs))))"

fun desc_list :: "nat \<Rightarrow> nat \<Rightarrow> rt \<Rightarrow> bigobj_desc list res" where
  "desc_list 0 dp s = (if dp = 0 then Inr [] else Inl NoFuel)"
| "desc_list (Suc fuel) dp s =
     (if dp = 0 then Inr [] else rbind (get_desc dp s) (\<lambda>d. rbind (desc_list fuel (bd_next d) s) (\<lambda>ds. Inr (d # ds))))"

text \<open>A loop that is left when a write fails.\<close>

fun wloop :: "('i \<Rightarrow> 's \<Rightarrow> (bool \<times> 's) res) \<Rightarrow> 'i list \<Rightarrow> 's \<Rightarrow> (bool \<times> 's) res" where
  "wloop f [] s = Inr (True, s)"
| "wloop f (x # xs) s = rbind (f x s) (\<lambda>(ok, s). if ok then wloop f xs s else Inr (False, s))"

definition wr_try :: "'s writer_t \<Rightarrow> byte_t list \<Rightarrow> 's \<Rightarrow> (bool \<times> 's) res" where
  "wr_try W bs w = (let w = wr_write W bs w in Inr (\<not> errFlg W w, w))"

text \<open>
  The headers of the small-object arenas of generation \<open>i\<close> with the file position at which
  each arena starts, and the header of its big objects. The number of pages is an \<open>int\<close> and
  so is the number of bytes computed from it.
\<close>

definition arena_hdr :: "addr_t \<Rightarrow> nat \<Rightarrow> nat \<Rightarrow> arena \<Rightarrow> addr_t \<Rightarrow> heap_arena_hdr" where
  "arena_hdr pagesize i j ap offset =
     \<lparr>ah_gen = of_nat i, ah_objKind = of_nat j, ah_offset = offset,
      ah_info = Info_o (a_tospBase ap) (a_nextw ap - a_tospBase ap) (ROUNDUP (a_nextw ap - a_tospBase ap) pagesize)\<rparr>"

definition bo_pages :: "bigobj_desc list \<Rightarrow> nat" where
  "bo_pages ds = sum_list (map BO_NUM_BOPAGES ds)"

definition gen_hdrs :: "addr_t \<Rightarrow> nat \<Rightarrow> rt \<Rightarrow> nat \<Rightarrow> heap_arena_hdr list \<times> addr_t \<Rightarrow> (heap_arena_hdr list \<times> addr_t) res" where
  "gen_hdrs pagesize fuel s i = (\<lambda>(hdrs, offset).
     let (hdrs, offset) = fold (\<lambda>j (hdrs, offset).
            let p = arena_hdr pagesize i j (get_arena i j s) offset in (hdrs @ [p], offset + io_roundedSzB (ah_info p)))
          [0..<NUM_ARENAS] (hdrs, offset)
     in rbind (desc_list fuel (g_bigObjs (get_gen i s)) s) (\<lambda>ds.
        if INT_MAX < int (bo_pages ds) * 1024 then Inl (Fault ''signed overflow'')
        else Inr (hdrs @ [\<lparr>ah_gen = of_nat i, ah_objKind = 0, ah_offset = offset,
                           ah_info = Info_bo (of_nat (length ds)) (of_nat (bo_pages ds))\<rparr>],
                  offset + (of_nat (24 * length ds) + of_nat (bo_pages ds * 1024)))))"

definition write_arena :: "'s writer_t \<Rightarrow> memory \<Rightarrow> heap_arena_hdr \<Rightarrow> 's \<Rightarrow> (bool \<times> 's) res" where
  "write_arena W m p w =
     (if 0 < io_sizeB (ah_info p) then
        rbind (seek W (sint (ah_offset p)) w) (wr_try W (bytes_at (io_baseAddr (ah_info p)) (unat (io_sizeB (ah_info p))) m))
      else Inr (True, w))"

text \<open>The big objects are written where the position is: at the end of the last arena with data.\<close>

definition write_bigobjs :: "'s writer_t \<Rightarrow> nat \<Rightarrow> rt \<Rightarrow> nat \<Rightarrow> 's \<Rightarrow> (bool \<times> 's) res" where
  "write_bigobjs W fuel s i w =
     rbind (desc_list fuel (g_bigObjs (get_gen i s)) s) (\<lambda>ds.
     if ds = [] then Inr (True, w)
     else rbind (wr_try W (concat (map (\<lambda>d. bigobj_hdr_bytes \<lparr>bh_gen = of_nat (bd_gen d), bh_objKind = 0,
              bh_baseAddr = bd_obj d, bh_sizeB = bd_sizeB d\<rparr>) ds)) w) (\<lambda>(ok, w).
       if ok then wloop (\<lambda>d. wr_try W (bytes_at (bd_obj d) (unat (BO_ROUNDED_SZB d)) (rt_mem s))) ds w
       else Inr (False, w)))"

definition WriteHeap :: "'s writer_t \<Rightarrow> addr_t \<Rightarrow> nat \<Rightarrow> rt \<Rightarrow> 's \<Rightarrow> (bool \<times> 's) res" where
  "WriteHeap W pagesize fuel s w =
     (let numGens = h_numGens (rt_heap s) in
      rbind (region_list fuel (h_bigRegions (rt_heap s)) s) (\<lambda>rs.
      if int (length rs) \<noteq> h_numBORegions (rt_heap s) then Inl (Fault ''region descriptors'')
      else rbind (wr_try W (concat (map (\<lambda>r. region_info_bytes \<lparr>bi_baseAddr = mo_base (br_memObj r), bi_sizeB = mo_sizeB (br_memObj r)\<rparr>) rs)) w) (\<lambda>(ok, w).
      if \<not> ok then Inr (False, w)
      else rbind (tell W w) (\<lambda>pos.
      rbind (rfold (gen_hdrs pagesize fuel s) [0..<numGens] ([], ROUNDUP (of_int pos + of_nat (numGens * 240)) pagesize)) (\<lambda>(arenaHdrs, _).
      rbind (wr_try W (concat (map arena_hdr_bytes arenaHdrs)) w) (\<lambda>(ok, w).
      if \<not> ok then Inr (False, w)
      else wloop (\<lambda>i w. rbind (wloop (\<lambda>j. write_arena W (rt_mem s) (arenaHdrs ! (6 * i + j))) [0..<NUM_ARENAS] w) (\<lambda>(ok, w).
             if ok then write_bigobjs W fuel s i w else Inr (False, w))) [0..<numGens] w))))))"

section \<open>ExportImage\<close>

text \<open>
  What follows the collections. The result is the status and the stream. When the first headers
  cannot be written the heap is not repaired. The result of \<open>HeapIO_WriteExterns\<close> is compared
  with \<open>FAILURE\<close>, which is 0, although an error is reported as -1.
\<close>

definition save_regs :: "registry \<Rightarrow> bibop \<Rightarrow> word_t list \<Rightarrow> export_table \<Rightarrow> (word_t list \<times> export_table) res" where
  "save_regs r b ws tbl =
     rfold (\<lambda>w (vs, tbl). rbind (SAVE_REG r b w tbl) (\<lambda>(v, tbl). Inr (vs @ [v], tbl))) ws ([], tbl)"

definition heap_hdr :: "rt \<Rightarrow> word_t \<Rightarrow> word_t \<Rightarrow> ml_heap_hdr" where
  "heap_hdr s pervStruct runTimeCompUnit =
     \<lparr>hh_numVProcs = 1, hh_numGens = of_nat (h_numGens (rt_heap s)), hh_numArenas = of_nat NUM_ARENAS, hh_numBOKinds = 1,
      hh_numBORegions = of_int (h_numBORegions (rt_heap s)), hh_cacheGen = of_int (h_cacheGen (rt_heap s)),
      hh_allocSzB = h_allocSzB (rt_heap s), hh_pervStruct = pervStruct, hh_runTimeCompUnit = runTimeCompUnit\<rparr>"

definition image_regs :: "globals \<Rightarrow> memory \<Rightarrow> word_t list" where
  "image_regs G m = map m [G_MLSignalHandler G, ml_arg (G_msp G), ml_cont (G_msp G), ml_closure (G_msp G), ml_pc (G_msp G),
     ml_exnCont (G_msp G), ml_varReg (G_msp G), ml_calleeSave0 (G_msp G), ml_calleeSave1 (G_msp G), ml_calleeSave2 (G_msp G)]"

definition write_state :: "registry \<Rightarrow> globals \<Rightarrow> addr_t \<Rightarrow> nat \<Rightarrow> export_table \<times> rt \<Rightarrow> file_wr \<Rightarrow> ((bool \<times> export_table) \<times> file_wr) res" where
  "write_state r G pagesize fuel = (\<lambda>(tbl, s) wr.
     rbind (save_regs r (rt_bibop s) (image_regs G (rt_mem s)) tbl) (\<lambda>(regs, tbl).
     rbind (HeapIO_WriteExterns file_writer tbl wr) (\<lambda>(n, wr).
     if n = 0 then Inr ((False, tbl), wr)
     else let wr = file_Write (concat (map word_bytes regs)) wr in
       if fw_err wr then Inr ((False, tbl), wr)
       else rbind (WriteHeap file_writer pagesize fuel s wr) (\<lambda>(ok, wr). Inr ((ok, tbl), wr)))))"

definition write_image :: "registry \<Rightarrow> globals \<Rightarrow> addr_t \<Rightarrow> nat \<Rightarrow> u32 \<Rightarrow> file_wr \<Rightarrow> rt \<Rightarrow> ((bool \<times> FILE_t) \<times> rt) res" where
  "write_image r G pagesize fuel kind wr s =
     rbind (ScanHeap r s) (\<lambda>(tbl, s).
     rbind (save_regs r (rt_bibop s) [rt_mem s (G_PervStruct G), rt_mem s (G_RunTimeCompUnit G)] tbl) (\<lambda>(regs, tbl).
     let wr = file_Write (heap_hdr_bytes (heap_hdr s (regs ! 0) (regs ! 1))) (snd (HeapIO_WriteImageHeader file_writer kind wr)) in
     if fw_err wr then Inr ((False, fw_file wr), s)
     else rbind (write_state r G pagesize fuel (tbl, s) wr) (\<lambda>((ok, tbl), wr).
       rbind (if kind \<noteq> EXPORT_FN_IMAGE then RepairHeap tbl s else Inr s) (\<lambda>s.
       Inr ((ok, fw_file wr), s)))))"

definition ExportImage :: "env \<Rightarrow> globals \<Rightarrow> registry \<Rightarrow> addr_t \<Rightarrow> u32 \<Rightarrow> FILE_t option \<Rightarrow> (bool \<times> FILE_t option) vmop" where
  "ExportImage E G r pagesize kind f =
     (case WR_OpenFile f of
        None \<Rightarrow> vret (False, None)
      | Some wr \<Rightarrow>
          vthen (InvokeGC E G 0)
         (vthen (InvokeGC E G 14)
         (vbind (lift_rt (write_image r G pagesize (env_fuel E) kind wr)) (\<lambda>(ok, f). vret (ok, Some f)))))"

definition ExportHeapImage :: "env \<Rightarrow> globals \<Rightarrow> registry \<Rightarrow> addr_t \<Rightarrow> FILE_t option \<Rightarrow> (bool \<times> FILE_t option) vmop" where
  "ExportHeapImage E G r pagesize f = ExportImage E G r pagesize EXPORT_HEAP_IMAGE f"

definition ExportFnImage :: "env \<Rightarrow> globals \<Rightarrow> registry \<Rightarrow> addr_t \<Rightarrow> word_t \<Rightarrow> FILE_t option \<Rightarrow> (bool \<times> FILE_t option) vmop" where
  "ExportFnImage E G r pagesize funct f =
     vthen (st (ml_arg (G_msp G)) funct)
    (vthen (vmap (\<lambda>a. st a ML_unit) [ml_cont (G_msp G), ml_closure (G_msp G), ml_linkReg (G_msp G), ml_exnCont (G_msp G),
       ml_varReg (G_msp G), ml_calleeSave0 (G_msp G), ml_calleeSave1 (G_msp G), ml_calleeSave2 (G_msp G)])
    (ExportImage E G r pagesize EXPORT_FN_IMAGE f))"

end
