(* ===== verification/Export_Repair.thy ===== *)
theory Export_Repair
  imports Export_Heap Minor_Correct
begin

text \<open>
  Marking the external references of the heap for an export and repairing the running heap
  afterwards. The loops over arenas are folds over lists of addresses, and the invariant
  relates the memory to the one before the export.
\<close>

section \<open>The objects of a mixed arena\<close>

text \<open>The header addresses with the lengths, and the addresses of the pointer parts.\<close>

function mixed_objs :: "memory \<Rightarrow> addr_t \<Rightarrow> addr_t \<Rightarrow> (addr_t \<times> nat) list option" where
  "mixed_objs m p q =
     (if p < q then
        (case obj_lens (m p) of
           None \<Rightarrow> None
         | Some (objLen, ptrLen) \<Rightarrow>
             if 2 ^ 64 \<le> unat p + 8 + 8 * objLen then None
             else map_option ((#) (p, ptrLen)) (mixed_objs m (at_ix (p + 8) objLen) q))
      else Some [])"
  by pat_completeness auto
termination
proof (relation "measure (\<lambda>(_, p, q). unat q - unat p)", goal_cases)
  case (2 m p q x objLen ptrLen)
  have "unat (p + 8) = unat p + 8" using 2(4) by (intro unat_add_lem [THEN iffD1, of p 8, simplified]) simp
  moreover have "unat (at_ix (p + 8) objLen) = unat (p + 8) + 8 * objLen" using 2(4) \<open>unat (p + 8) = unat p + 8\<close> by (intro unat_at_ix) simp
  ultimately show ?case using 2(1) by (simp add: word_less_nat_alt)
qed simp

declare mixed_objs.simps [simp del]

definition ptr_part :: "addr_t \<times> nat \<Rightarrow> addr_t list" where
  "ptr_part x = map (at_ix (fst x + 8)) [0..<snd x]"

definition mixed_ptrs :: "memory \<Rightarrow> addr_t \<Rightarrow> addr_t \<Rightarrow> addr_t list" where
  "mixed_ptrs m p q = (case mixed_objs m p q of None \<Rightarrow> [] | Some xs \<Rightarrow> concat (map ptr_part xs))"

lemma rfold_map: "rfold f (map h xs) s = rfold (\<lambda>x. f (h x)) xs s"
  by (induction xs arbitrary: s) (auto intro!: rbind_cong)

text \<open>If the body keeps the headers, the loop is a fold over the pointer parts.\<close>

lemma mixed_loop_rfold:
  assumes "mixed_objs m p q = Some xs" "P s"
    and hdr: "\<And>s h n. P s \<Longrightarrow> (h, n) \<in> set xs \<Longrightarrow> mem s h = m h"
    and keep: "\<And>s s' a. P s \<Longrightarrow> a \<in> set (concat (map ptr_part xs)) \<Longrightarrow> f a s = Inr s' \<Longrightarrow> P s'"
  shows "mixed_loop mem f p q s = rfold f (concat (map ptr_part xs)) s"
  using assms
proof (induction m p q arbitrary: xs s rule: mixed_objs.induct)
  case (1 m p q)
  show ?case
  proof (cases "p < q")
    case False
    then show ?thesis using 1(2) by (simp add: mixed_objs.simps [of m p q] mixed_loop.simps [of mem f p q])
  next
    case True
    with 1(2) obtain objLen ptrLen where l: "obj_lens (m p) = Some (objLen, ptrLen)" "\<not> 2 ^ 64 \<le> unat p + 8 + 8 * objLen"
      by (auto simp: mixed_objs.simps [of m p q] split: option.splits if_splits prod.splits)
    with 1(2) True obtain ys where ys: "mixed_objs m (at_ix (p + 8) objLen) q = Some ys" "xs = (p, ptrLen) # ys"
      by (auto simp: mixed_objs.simps [of m p q])
    have "mem s p = m p" using 1(3,4) ys(2) by auto
    with True l have e: "mixed_loop mem f p q s = rbind (rfold (\<lambda>j. f (at_ix (p + 8) j)) [0..<ptrLen] s) (mixed_loop mem f (at_ix (p + 8) objLen) q)"
      by (subst mixed_loop.simps) simp
    have "mixed_loop mem f (at_ix (p + 8) objLen) q s' = rfold f (concat (map ptr_part ys)) s'" if "rfold f (ptr_part (p, ptrLen)) s = Inr s'" for s'
    proof (rule 1(1) [OF True l(1) refl l(2) ys(1)])
      show "P s'" by (rule rfold_inv [where P = P, OF that 1(3)]) (use 1(5) ys(2) in auto)
      show "P s'" if "P s" "a \<in> set (concat (map ptr_part ys))" "f a s = Inr s'" for s s' a by (rule 1(5) [OF that(1) _ that(3)]) (use that(2) ys(2) in auto)
    qed (use 1(4) ys(2) in auto)
    moreover have h: "rfold (\<lambda>j. f (at_ix (p + 8) j)) [0..<ptrLen] s = rfold f (ptr_part (p, ptrLen)) s" by (simp add: ptr_part_def rfold_map)
    ultimately show ?thesis unfolding e h ys(2) list.map concat.simps rfold_append by (intro rbind_cong) auto
  qed
qed

section \<open>Words\<close>

definition outside :: "bibop \<Rightarrow> word_t \<Rightarrow> bool" where "outside b w \<longleftrightarrow> isBOXED w \<and> ADDR_TO_PAGEID b w = Inr AID_UNMAPPED"

text \<open>A word that can be exported: a pointer is in the range of the BIBOP, a pointer to the
  outside is registered, and no word looks like an external reference.\<close>

definition word_ok :: "registry \<Rightarrow> bibop \<Rightarrow> word_t \<Rightarrow> bool" where
  "word_ok r b w \<longleftrightarrow> (isBOXED w \<longrightarrow> (\<exists>aid. ADDR_TO_PAGEID b w = Inr aid)) \<and> (outside b w \<longrightarrow> w \<in> snd ` syms r) \<and> \<not> isEXTERNTAG w"

lemma MAKE_EXTERN_desc: "isDESC (MAKE_EXTERN i)" "\<not> isBOXED (MAKE_EXTERN i)" "isEXTERNTAG (MAKE_EXTERN i)"
proof -
  show d: "isDESC (MAKE_EXTERN i)" unfolding MAKE_EXTERN_def by (rule desc_kind)
  then show "\<not> isBOXED (MAKE_EXTERN i)" by (simp add: low_bits)
  have "GET_TAG (MAKE_EXTERN i) = DTAG_extern" unfolding MAKE_EXTERN_def by (rule GET_TAG_MAKE_DESC) simp
  with d show "isEXTERNTAG (MAKE_EXTERN i)" by (simp add: isEXTERNTAG_def)
qed

lemma xref_of_desc: "xref_of es x a \<Longrightarrow> \<not> isBOXED x \<and> isEXTERNTAG x"
  using MAKE_EXTERN_desc by (auto simp: xref_of_def)

lemma isEXTERN_ok: "word_ok r b w \<Longrightarrow> isEXTERN b w = Inr (outside b w)"
  by (auto simp: isEXTERN_def word_ok_def outside_def)

lemma isEXTERN_desc: "\<not> isBOXED w \<Longrightarrow> isEXTERN b w = Inr False"
  by (simp add: isEXTERN_def)

section \<open>Scanning\<close>

text \<open>The memory \<open>m\<close> is \<open>m0\<close> with references in place of the external pointers at the addresses in \<open>A\<close>.\<close>

definition patched :: "bibop \<Rightarrow> item list \<Rightarrow> addr_t set \<Rightarrow> memory \<Rightarrow> memory \<Rightarrow> bool" where
  "patched b es A m0 m \<longleftrightarrow> (\<forall>a. if a \<in> A \<and> outside b (m0 a) then xref_of es (m a) (m0 a) else m a = m0 a)"

lemma patched_at: "patched b es A m0 m \<Longrightarrow> a \<in> A \<Longrightarrow> outside b (m0 a) \<Longrightarrow> xref_of es (m a) (m0 a)"
  "patched b es A m0 m \<Longrightarrow> a \<notin> A \<or> \<not> outside b (m0 a) \<Longrightarrow> m a = m0 a"
  unfolding patched_def by metis+

lemma patched_mono: "patched b es A m0 m \<Longrightarrow> patched b (es @ ys) A m0 m"
  unfolding patched_def by (metis xref_of_append)

lemma patched_add:
  "patched b es A m0 m \<Longrightarrow> outside b (m0 a) \<Longrightarrow> xref_of es x (m0 a) \<Longrightarrow> patched b es (insert a A) m0 (m(a := x))"
  unfolding patched_def by simp

lemma patched_skip: "patched b es A m0 m \<Longrightarrow> a \<in> A \<or> \<not> outside b (m0 a) \<Longrightarrow> patched b es (insert a A) m0 m"
  unfolding patched_def by (metis insert_iff)

text \<open>The state of the scan: the table is well-formed, and the memory is patched at the addresses visited so far.\<close>

definition scanned :: "registry \<Rightarrow> rt \<Rightarrow> addr_t set \<Rightarrow> export_table \<Rightarrow> rt \<Rightarrow> bool" where
  "scanned r s0 A tbl s \<longleftrightarrow> ex_wf r tbl \<and> patched (rt_bibop s0) (exports tbl) A (rt_mem s0) (rt_mem s) \<and> rt_bibop s = rt_bibop s0"

lemma patch_word_ok:
  assumes wf: "reg_wf r" and sc: "scanned r s0 A tbl s" and w: "word_ok r (rt_bibop s0) (rt_mem s0 a)"
  shows "\<exists>tbl' m ys. patch_word r a (nr, tbl, s) = Inr (nr \<or> (a \<notin> A \<and> outside (rt_bibop s0) (rt_mem s0 a)), tbl', upd_mem (\<lambda>_. m) s)
    \<and> scanned r s0 (insert a A) tbl' (upd_mem (\<lambda>_. m) s) \<and> exports tbl' = exports tbl @ ys"
proof (cases "a \<notin> A \<and> outside (rt_bibop s0) (rt_mem s0 a)")
  case True
  have m: "rt_mem s a = rt_mem s0 a" "rt_bibop s = rt_bibop s0" using sc True patched_at(2) by (auto simp: scanned_def)
  from w True obtain name where "(name, rt_mem s0 a) \<in> syms r" by (auto simp: word_ok_def)
  with ExportCSymbol_ok [OF wf _ this] sc obtain i t ys where
    t: "ExportCSymbol r (rt_mem s0 a) tbl = Inr (MAKE_EXTERN i, t)" "ex_wf r t" "exports t = exports tbl @ ys" "i < et_numItems t"
      "exports t ! i = mk_item name (rt_mem s0 a)" unfolding scanned_def by metis
  have x: "xref_of (exports t) (MAKE_EXTERN i) (rt_mem s0 a)" using t length_exports [OF t(2)] by (auto simp: xref_of_def mk_item_def)
  have "patched (rt_bibop s0) (exports t) A (rt_mem s0) (rt_mem s)" using sc patched_mono t(3) by (simp add: scanned_def)
  note p = patched_add [OF this _ x]
  have "patch_word r a (nr, tbl, s) = Inr (True, t, upd_mem (\<lambda>_. (rt_mem s)(a := MAKE_EXTERN i)) s)"
    using m t(1) isEXTERN_ok [OF w] True by (simp add: patch_word_def upd_mem_def)
  moreover have "scanned r s0 (insert a A) t (upd_mem (\<lambda>_. (rt_mem s)(a := MAKE_EXTERN i)) s)"
    using p True t(2) m by (simp add: scanned_def upd_mem_def)
  ultimately show ?thesis using t(3) True by fastforce
next
  case False
  have "isEXTERN (rt_bibop s) (rt_mem s a) = Inr False"
  proof (cases "outside (rt_bibop s0) (rt_mem s0 a)")
    case True
    then have "xref_of (exports tbl) (rt_mem s a) (rt_mem s0 a)" using False sc patched_at(1) by (auto simp: scanned_def)
    then show ?thesis using xref_of_desc isEXTERN_desc by blast
  next
    case False
    then have "rt_mem s a = rt_mem s0 a" "rt_bibop s = rt_bibop s0" using sc patched_at(2) by (auto simp: scanned_def)
    then show ?thesis using isEXTERN_ok [OF w] False by simp
  qed
  then have "patch_word r a (nr, tbl, s) = Inr (nr, tbl, upd_mem (\<lambda>_. rt_mem s) s)" by (simp add: patch_word_def upd_mem_def)
  moreover have "scanned r s0 (insert a A) tbl (upd_mem (\<lambda>_. rt_mem s) s)" using sc patched_skip False by (fastforce simp: scanned_def upd_mem_def)
  ultimately show ?thesis using False by auto
qed

lemma patch_words_ok:
  assumes wf: "reg_wf r"
  shows "scanned r s0 A tbl s \<Longrightarrow> \<forall>a \<in> set xs. word_ok r (rt_bibop s0) (rt_mem s0 a) \<Longrightarrow>
    \<exists>tbl' m ys. rfold (patch_word r) xs (nr, tbl, s) = Inr (nr \<or> (\<exists>a \<in> set xs - A. outside (rt_bibop s0) (rt_mem s0 a)), tbl', upd_mem (\<lambda>_. m) s)
      \<and> scanned r s0 (A \<union> set xs) tbl' (upd_mem (\<lambda>_. m) s) \<and> exports tbl' = exports tbl @ ys"
proof (induction xs arbitrary: A tbl s nr)
  case Nil
  then show ?case by (intro exI [of _ tbl] exI [of _ "rt_mem s"]) (simp add: upd_mem_def)
next
  case (Cons a xs)
  from patch_word_ok [OF wf Cons.prems(1), of a nr] Cons.prems(2) obtain t1 m1 ys1 where
    1: "patch_word r a (nr, tbl, s) = Inr (nr \<or> (a \<notin> A \<and> outside (rt_bibop s0) (rt_mem s0 a)), t1, upd_mem (\<lambda>_. m1) s)"
      "scanned r s0 (insert a A) t1 (upd_mem (\<lambda>_. m1) s)" "exports t1 = exports tbl @ ys1" by auto
  from Cons.IH [OF 1(2), of "nr \<or> (a \<notin> A \<and> outside (rt_bibop s0) (rt_mem s0 a))"] Cons.prems(2) obtain t2 m2 ys2 where
    2: "rfold (patch_word r) xs (nr \<or> (a \<notin> A \<and> outside (rt_bibop s0) (rt_mem s0 a)), t1, upd_mem (\<lambda>_. m1) s)
          = Inr ((nr \<or> (a \<notin> A \<and> outside (rt_bibop s0) (rt_mem s0 a))) \<or> (\<exists>a \<in> set xs - insert a A. outside (rt_bibop s0) (rt_mem s0 a)), t2, upd_mem (\<lambda>_. m2) (upd_mem (\<lambda>_. m1) s))"
      "scanned r s0 (insert a A \<union> set xs) t2 (upd_mem (\<lambda>_. m2) (upd_mem (\<lambda>_. m1) s))" "exports t2 = exports t1 @ ys2" by auto
  have u: "upd_mem (\<lambda>_. m2) (upd_mem (\<lambda>_. m1) s) = upd_mem (\<lambda>_. m2) s" by (simp add: upd_mem_def)
  have f: "((nr \<or> (a \<notin> A \<and> outside (rt_bibop s0) (rt_mem s0 a))) \<or> (\<exists>a \<in> set xs - insert a A. outside (rt_bibop s0) (rt_mem s0 a)))
    = (nr \<or> (\<exists>a \<in> set (a # xs) - A. outside (rt_bibop s0) (rt_mem s0 a)))" by auto
  show ?case using 1 2 unfolding u f by auto
qed

section \<open>Arenas\<close>

text \<open>The addresses that are scanned in an arena, and whether there is an external pointer among them.\<close>

definition mixed_of :: "rt \<Rightarrow> nat \<Rightarrow> (addr_t \<times> nat) list option" where
  "mixed_of s g = mixed_objs (rt_mem s) (a_tospBase (get_arena g MIXED_INDX s)) (a_nextw (get_arena g MIXED_INDX s))"

definition zone :: "rt \<Rightarrow> nat \<Rightarrow> nat \<Rightarrow> addr_t list" where
  "zone s g j = (if j = MIXED_INDX then concat (map ptr_part (the (mixed_of s g))) else arena_words (get_arena g j s))"

definition has_ext :: "rt \<Rightarrow> nat \<Rightarrow> nat \<Rightarrow> bool" where
  "has_ext s g j \<longleftrightarrow> (\<exists>a \<in> set (zone s g j). outside (rt_bibop s) (rt_mem s a))"

text \<open>
  A heap that can be exported: the mixed arenas are sequences of objects, the words that are
  scanned can be exported, and no word is scanned as part of two arenas.
\<close>

definition exportable :: "registry \<Rightarrow> rt \<Rightarrow> bool" where
  "exportable r s \<longleftrightarrow> gens_ok s \<and> h_numGens (rt_heap s) \<le> MAX_NUM_GENS
     \<and> (\<forall>g < h_numGens (rt_heap s). \<exists>xs. mixed_of s g = Some xs \<and> (\<forall>(h, n) \<in> set xs. \<not> isBOXED (rt_mem s h)))
     \<and> (\<forall>g < h_numGens (rt_heap s). \<forall>j < NUM_ARENAS. j \<noteq> STRING_INDX \<longrightarrow> (\<forall>a \<in> set (zone s g j). word_ok r (rt_bibop s) (rt_mem s a)))
     \<and> (\<forall>g < h_numGens (rt_heap s). \<forall>j < NUM_ARENAS. \<forall>g' < h_numGens (rt_heap s). \<forall>j' < NUM_ARENAS.
          (g, j) \<noteq> (g', j') \<longrightarrow> j \<noteq> STRING_INDX \<longrightarrow> j' \<noteq> STRING_INDX \<longrightarrow> set (zone s g j) \<inter> set (zone s g' j') = {})"

text \<open>Only the flags \<open>needsRepair\<close> differ: \<open>F\<close> gives their values.\<close>

definition arenas_flags :: "rt \<Rightarrow> (nat \<Rightarrow> nat \<Rightarrow> bool) \<Rightarrow> rt \<Rightarrow> bool" where
  "arenas_flags s0 F s \<longleftrightarrow> gens_ok s \<and> h_numGens (rt_heap s) = h_numGens (rt_heap s0)
     \<and> (\<forall>g < 14. \<forall>j < 5. get_arena g j s = (get_arena g j s0)\<lparr>a_needsRepair := F g j\<rparr>)"

lemma arenas_flags_upd_mem: "arenas_flags s0 F s \<Longrightarrow> arenas_flags s0 F (upd_mem f s)"
  by (simp add: arenas_flags_def)

lemma arenas_flags_set:
  "arenas_flags s0 F s \<Longrightarrow> g < 14 \<Longrightarrow> j < 5 \<Longrightarrow> arenas_flags s0 (F(g := (F g)(j := x))) (upd_arena g j (\<lambda>ap. ap\<lparr>a_needsRepair := x\<rparr>) s)"
  by (auto simp: arenas_flags_def gens_ok_upd_arena get_arena_upd_arena)

lemma arenas_flags_words: "arenas_flags s0 F s \<Longrightarrow> g < 14 \<Longrightarrow> j < 5 \<Longrightarrow> arena_words (get_arena g j s) = arena_words (get_arena g j s0)"
  "arenas_flags s0 F s \<Longrightarrow> g < 14 \<Longrightarrow> j < 5 \<Longrightarrow> a_needsRepair (get_arena g j s) = F g j"
  "arenas_flags s0 F s \<Longrightarrow> g < 14 \<Longrightarrow> j < 5 \<Longrightarrow> a_tospBase (get_arena g j s) = a_tospBase (get_arena g j s0)"
  "arenas_flags s0 F s \<Longrightarrow> g < 14 \<Longrightarrow> j < 5 \<Longrightarrow> a_nextw (get_arena g j s) = a_nextw (get_arena g j s0)"
  by (simp_all add: arenas_flags_def arena_words_def)

section \<open>ScanHeap\<close>

lemma PatchArena_ok:
  assumes wf: "reg_wf r" and sc: "scanned r s0 A tbl s" and fl: "arenas_flags s0 F s" and i: "i < 14" "j < 5" "j \<noteq> MIXED_INDX"
    and ok: "\<forall>a \<in> set (zone s0 i j). word_ok r (rt_bibop s0) (rt_mem s0 a)" and new: "set (zone s0 i j) \<inter> A = {}"
  shows "\<exists>tbl' s'. PatchArena r i j (tbl, s) = Inr (tbl', s') \<and> scanned r s0 (A \<union> set (zone s0 i j)) tbl' s'
    \<and> arenas_flags s0 (F(i := (F i)(j := has_ext s0 i j))) s'"
proof -
  have z: "zone s0 i j = arena_words (get_arena i j s)" using arenas_flags_words(1) [OF fl i(1,2)] i(3) by (simp add: zone_def)
  from patch_words_ok [OF wf sc ok, of False] obtain tbl' m where
    m: "rfold (patch_word r) (zone s0 i j) (False, tbl, s) = Inr (\<exists>a \<in> set (zone s0 i j) - A. outside (rt_bibop s0) (rt_mem s0 a), tbl', upd_mem (\<lambda>_. m) s)"
      "scanned r s0 (A \<union> set (zone s0 i j)) tbl' (upd_mem (\<lambda>_. m) s)" by auto
  have "(\<exists>a \<in> set (zone s0 i j) - A. outside (rt_bibop s0) (rt_mem s0 a)) = has_ext s0 i j" using new by (auto simp: has_ext_def)
  with m(1) have "PatchArena r i j (tbl, s) = Inr (tbl', upd_arena i j (\<lambda>ap. ap\<lparr>a_needsRepair := has_ext s0 i j\<rparr>) (upd_mem (\<lambda>_. m) s))"
    by (simp add: PatchArena_def z)
  moreover note arenas_flags_set [OF arenas_flags_upd_mem [OF fl] i(1,2), of "has_ext s0 i j"]
  ultimately show ?thesis using m(2) by (auto simp: scanned_def)
qed

lemma patch_mixed_ok:
  assumes wf: "reg_wf r" and sc: "scanned r s0 A tbl s" and fl: "arenas_flags s0 F s" and i: "i < 14"
    and ok: "\<forall>a \<in> set (zone s0 i MIXED_INDX). word_ok r (rt_bibop s0) (rt_mem s0 a)"
    and xs: "mixed_of s0 i = Some xs" "\<forall>(h, n) \<in> set xs. \<not> isBOXED (rt_mem s0 h)"
  shows "\<exists>tbl' s'. patch_mixed r i (tbl, s) = Inr (tbl', s') \<and> scanned r s0 (A \<union> set (zone s0 i MIXED_INDX)) tbl' s' \<and> arenas_flags s0 F s'"
proof -
  let ?ap = "get_arena i MIXED_INDX s0"
  let ?P = "\<lambda>(_, tbl, s). \<exists>A. scanned r s0 A tbl s"
  have z: "zone s0 i MIXED_INDX = concat (map ptr_part xs)" by (simp add: zone_def xs(1))
  have hd: "rt_mem s h = rt_mem s0 h" if "scanned r s0 A tbl s" "(h, n) \<in> set xs" for s h n A tbl
  proof -
    have "\<not> outside (rt_bibop s0) (rt_mem s0 h)" using xs(2) that(2) by (auto simp: outside_def)
    then show ?thesis using that(1) patched_at(2) by (auto simp: scanned_def)
  qed
  have "mixed_loop (\<lambda>(_, _, s). rt_mem s) (patch_word r) (a_tospBase ?ap) (a_nextw ?ap) (False, tbl, s) = rfold (patch_word r) (concat (map ptr_part xs)) (False, tbl, s)"
  proof (rule mixed_loop_rfold [where P = ?P])
    show "mixed_objs (rt_mem s0) (a_tospBase ?ap) (a_nextw ?ap) = Some xs" using xs(1) by (simp add: mixed_of_def)
    show "?P x'" if "?P x" "a \<in> set (concat (map ptr_part xs))" "patch_word r a x = Inr x'" for x x' a
    proof -
      obtain nr t u where x: "x = (nr, t, u)" by (cases x)
      with that(1) obtain A where "scanned r s0 A t u" by auto
      from patch_word_ok [OF wf this, of a nr] ok that(2,3) z x show ?thesis by auto
    qed
  qed (use sc hd in auto)
  then have e: "patch_mixed r i (tbl, s) = rbind (rfold (patch_word r) (zone s0 i MIXED_INDX) (False, tbl, s)) (\<lambda>(_, tbl, s). Inr (tbl, s))"
    using arenas_flags_words(3,4) [OF fl i, of MIXED_INDX] by (simp add: patch_mixed_def z)
  from patch_words_ok [OF wf sc ok, of False] obtain tbl' m where
    "rfold (patch_word r) (zone s0 i MIXED_INDX) (False, tbl, s) = Inr (\<exists>a \<in> set (zone s0 i MIXED_INDX) - A. outside (rt_bibop s0) (rt_mem s0 a), tbl', upd_mem (\<lambda>_. m) s)"
    "scanned r s0 (A \<union> set (zone s0 i MIXED_INDX)) tbl' (upd_mem (\<lambda>_. m) s)" by auto
  then show ?thesis using e arenas_flags_upd_mem [OF fl] by auto
qed

text \<open>The zones of a generation, in the order of the scan.\<close>

definition gen_zone :: "rt \<Rightarrow> nat \<Rightarrow> addr_t set" where
  "gen_zone s g = set (zone s g RECORD_INDX) \<union> set (zone s g PAIR_INDX) \<union> set (zone s g ARRAY_INDX) \<union> set (zone s g MIXED_INDX)"

definition scan_flags :: "rt \<Rightarrow> nat \<Rightarrow> nat \<Rightarrow> nat \<Rightarrow> bool" where
  "scan_flags s n g j = (if g < n \<and> (j = RECORD_INDX \<or> j = PAIR_INDX \<or> j = ARRAY_INDX) then has_ext s g j else a_needsRepair (get_arena g j s))"

lemma exportableD:
  assumes "exportable r s" "g < h_numGens (rt_heap s)"
  shows "g < 14" and "j < 5 \<Longrightarrow> j \<noteq> STRING_INDX \<Longrightarrow> \<forall>a \<in> set (zone s g j). word_ok r (rt_bibop s) (rt_mem s a)"
    and "\<exists>xs. mixed_of s g = Some xs \<and> (\<forall>(h, n) \<in> set xs. \<not> isBOXED (rt_mem s h))"
    and "g' < h_numGens (rt_heap s) \<Longrightarrow> j < 5 \<Longrightarrow> j' < 5 \<Longrightarrow> (g, j) \<noteq> (g', j') \<Longrightarrow> j \<noteq> STRING_INDX \<Longrightarrow> j' \<noteq> STRING_INDX
      \<Longrightarrow> set (zone s g j) \<inter> set (zone s g' j') = {}"
  using assms unfolding exportable_def by (simp, blast+)

lemma zone_gen_disjoint:
  assumes "exportable r s" "g < h_numGens (rt_heap s)" "n \<le> g" "j < 5" "j \<noteq> STRING_INDX"
  shows "set (zone s g j) \<inter> (\<Union>g' < n. gen_zone s g') = {}"
proof -
  have "set (zone s g j) \<inter> set (zone s g' j') = {}" if "g' < n" "j' < 5" "j' \<noteq> STRING_INDX" for g' j'
    using exportableD(4) [OF assms(1,2), of g' j j'] assms that by auto
  from this [of _ 0] this [of _ 1] this [of _ 4] this [of _ 2] show ?thesis by (fastforce simp: gen_zone_def)
qed

lemma scan_flags_Suc:
  "(let F = scan_flags s i; F = F(i := (F i)(0 := has_ext s i 0)); F = F(i := (F i)(1 := has_ext s i 1)) in F(i := (F i)(4 := has_ext s i 4)))
   = scan_flags s (Suc i)"
  by (auto simp: scan_flags_def fun_eq_iff Let_def less_Suc_eq)

lemma scan_gen_ok:
  assumes wf: "reg_wf r" and x: "exportable r s0" and i: "i < h_numGens (rt_heap s0)"
    and sc: "scanned r s0 (\<Union>g < i. gen_zone s0 g) tbl s" and fl: "arenas_flags s0 (scan_flags s0 i) s"
  shows "\<exists>tbl' s'. scan_gen r i (tbl, s) = Inr (tbl', s') \<and> scanned r s0 (\<Union>g < Suc i. gen_zone s0 g) tbl' s' \<and> arenas_flags s0 (scan_flags s0 (Suc i)) s'"
proof -
  note i14 = exportableD(1) [OF x i]
  note ok = exportableD(2) [OF x i]
  note dj = zone_gen_disjoint [OF x i order_refl]
  note nd = exportableD(4) [OF x i i]
  from PatchArena_ok [OF wf sc fl i14, of 0] ok [of 0] dj [of 0] obtain t1 s1 where
    1: "PatchArena r i 0 (tbl, s) = Inr (t1, s1)" "scanned r s0 ((\<Union>g < i. gen_zone s0 g) \<union> set (zone s0 i 0)) t1 s1"
      "arenas_flags s0 ((scan_flags s0 i)(i := (scan_flags s0 i i)(0 := has_ext s0 i 0))) s1" by auto
  have "set (zone s0 i 1) \<inter> ((\<Union>g < i. gen_zone s0 g) \<union> set (zone s0 i 0)) = {}" using dj [of 1] nd [of 1 0] by auto
  from PatchArena_ok [OF wf 1(2,3) i14, of 1] ok [of 1] this obtain t2 s2 where
    2: "PatchArena r i 1 (t1, s1) = Inr (t2, s2)" "scanned r s0 ((\<Union>g < i. gen_zone s0 g) \<union> set (zone s0 i 0) \<union> set (zone s0 i 1)) t2 s2"
      "arenas_flags s0 (let F = scan_flags s0 i; F = F(i := (F i)(0 := has_ext s0 i 0)) in F(i := (F i)(1 := has_ext s0 i 1))) s2" by (auto simp: Let_def)
  have "set (zone s0 i 4) \<inter> ((\<Union>g < i. gen_zone s0 g) \<union> set (zone s0 i 0) \<union> set (zone s0 i 1)) = {}" using dj [of 4] nd [of 4 0] nd [of 4 1] by auto
  from PatchArena_ok [OF wf 2(2,3) i14, of 4] ok [of 4] this obtain t3 s3 where
    3: "PatchArena r i 4 (t2, s2) = Inr (t3, s3)" "scanned r s0 ((\<Union>g < i. gen_zone s0 g) \<union> set (zone s0 i 0) \<union> set (zone s0 i 1) \<union> set (zone s0 i 4)) t3 s3"
      "arenas_flags s0 (scan_flags s0 (Suc i)) s3" unfolding scan_flags_Suc [symmetric] Let_def by auto
  from exportableD(3) [OF x i] obtain xs where xs: "mixed_of s0 i = Some xs" "\<forall>(h, n) \<in> set xs. \<not> isBOXED (rt_mem s0 h)" by auto
  from patch_mixed_ok [OF wf 3(2,3) i14 _ xs] ok [of 2] obtain t4 s4 where
    4: "patch_mixed r i (t3, s3) = Inr (t4, s4)" "scanned r s0 ((\<Union>g < i. gen_zone s0 g) \<union> set (zone s0 i 0) \<union> set (zone s0 i 1) \<union> set (zone s0 i 4) \<union> set (zone s0 i 2)) t4 s4"
      "arenas_flags s0 (scan_flags s0 (Suc i)) s4" by auto
  have "(\<Union>g < i. gen_zone s0 g) \<union> set (zone s0 i 0) \<union> set (zone s0 i 1) \<union> set (zone s0 i 4) \<union> set (zone s0 i 2) = (\<Union>g < Suc i. gen_zone s0 g)"
    by (auto simp: gen_zone_def less_Suc_eq)
  then show ?thesis using 1(1) 2(1) 3(1) 4 by (auto simp: scan_gen_def)
qed

lemma ScanHeap_ok:
  assumes wf: "reg_wf r" and x: "exportable r s"
  defines "n \<equiv> h_numGens (rt_heap s)"
  shows "\<exists>tbl s'. ScanHeap r s = Inr (tbl, s') \<and> scanned r s (\<Union>g < n. gen_zone s g) tbl s' \<and> arenas_flags s (scan_flags s n) s'"
proof -
  have "k \<le> n \<Longrightarrow> \<exists>tbl s'. rfold (scan_gen r) [0..<k] (NewExportTbl, s) = Inr (tbl, s')
      \<and> scanned r s (\<Union>g < k. gen_zone s g) tbl s' \<and> arenas_flags s (scan_flags s k) s'" for k
  proof (induction k)
    case 0
    have "scanned r s {} NewExportTbl s" by (simp add: scanned_def ex_wf_new patched_def)
    moreover have "arenas_flags s (scan_flags s 0) s" using x by (simp add: arenas_flags_def scan_flags_def exportable_def)
    ultimately show ?case by simp
  next
    case (Suc k)
    then obtain tbl s' where "rfold (scan_gen r) [0..<k] (NewExportTbl, s) = Inr (tbl, s')"
      "scanned r s (\<Union>g < k. gen_zone s g) tbl s'" "arenas_flags s (scan_flags s k) s'" by auto
    with scan_gen_ok [OF wf x, of k tbl s'] Suc.prems show ?case by (auto simp: n_def rfold_append)
  qed
  from this [of n] show ?thesis by (simp add: ScanHeap_def n_def)
qed

section \<open>RepairHeap\<close>

lemma exports_bound: "ex_wf r t \<Longrightarrow> reg_wf r \<Longrightarrow> et_numItems t \<le> card (syms r)"
proof -
  assume wf: "ex_wf r t" and rwf: "reg_wf r"
  have inj: "i = j" if "i < et_numItems t" "j < et_numItems t" "it_addr (exports t ! i) = it_addr (exports t ! j)" for i j
  proof -
    have "(exports t ! i, i) \<in> ex_items t" "(exports t ! j, j) \<in> ex_items t" using wf exports_nth [OF wf] that by (auto simp: ex_wf_def)
    moreover have "inj_on (\<lambda>p. it_addr (fst p)) (ex_items t)" using wf by (simp add: ex_wf_def ex.bok_def ex.unique_def distinct_map)
    ultimately have "(exports t ! i, i) = (exports t ! j, j)" using that(3) inj_onD [of "\<lambda>p. it_addr (fst p)" "ex_items t" "(exports t ! i, i)" "(exports t ! j, j)"] by simp
    then show ?thesis by simp
  qed
  have "distinct (map it_addr (exports t))" using inj length_exports [OF wf] by (auto simp: distinct_conv_nth)
  then have "et_numItems t = card (set (map it_addr (exports t)))" using length_exports [OF wf] distinct_card [of "map it_addr (exports t)"] by simp
  moreover have "set (map it_addr (exports t)) \<subseteq> snd ` syms r"
  proof
    fix a assume "a \<in> set (map it_addr (exports t))"
    then obtain i where i: "i < et_numItems t" "a = it_addr (exports t ! i)" using length_exports [OF wf] by (auto simp: in_set_conv_nth)
    then have "exports t ! i \<in> reg_items r" using wf exports_nth [OF wf i(1)] by (force simp: ex_wf_def)
    then show "a \<in> snd ` syms r" using i(2) by (force simp: syms_def)
  qed
  moreover have "finite (syms r)" by (simp add: syms_def)
  ultimately have "et_numItems t \<le> card (snd ` syms r)" by (simp add: card_mono)
  also have "\<dots> \<le> card (syms r)" using \<open>finite (syms r)\<close> by (rule card_image_le)
  finally show ?thesis .
qed

lemma repair_extern_ok:
  assumes wf: "reg_wf r" and c: "card (syms r) < 2 ^ 31" and t: "ex_wf r tbl" and p: "patched b (exports tbl) A m0 (rt_mem s)" and w: "\<not> isEXTERNTAG (m0 a)"
  shows "\<exists>m. repair_extern tbl a s = Inr (upd_mem (\<lambda>_. m) s) \<and> patched b (exports tbl) (A - {a}) m0 m"
proof (cases "a \<in> A \<and> outside b (m0 a)")
  case True
  then obtain i where i: "i < length (exports tbl)" "rt_mem s a = MAKE_EXTERN i" "it_addr (exports tbl ! i) = m0 a"
    using patched_at(1) [OF p] by (auto simp: xref_of_def)
  have n: "i < et_numItems tbl" "i < 2 ^ 31" using i(1) length_exports [OF t] exports_bound [OF t wf] c by auto
  have "AddrOfCSymbol tbl (rt_mem s a) = Inr (m0 a)" using AddrOfCSymbol_extern [OF n(2,1) exports_nth [OF t n(1)]] i by simp
  then have "repair_extern tbl a s = Inr (upd_mem (\<lambda>_. (rt_mem s)(a := m0 a)) s)"
    using i(2) MAKE_EXTERN_desc(3) by (simp add: repair_extern_def upd_mem_def)
  moreover have "patched b (exports tbl) (A - {a}) m0 ((rt_mem s)(a := m0 a))" using p by (simp add: patched_def)
  ultimately show ?thesis by blast
next
  case False
  then have "rt_mem s a = m0 a" using patched_at(2) [OF p] by blast
  with w have "repair_extern tbl a s = Inr (upd_mem (\<lambda>_. rt_mem s) s)" by (simp add: repair_extern_def upd_mem_def)
  moreover have "patched b (exports tbl) (A - {a}) m0 (rt_mem s)" using p False unfolding patched_def by (metis Diff_iff singletonD)
  ultimately show ?thesis by blast
qed

lemma repair_externs_ok:
  assumes "reg_wf r" "card (syms r) < 2 ^ 31" "ex_wf r tbl"
  shows "patched b (exports tbl) A m0 (rt_mem s) \<Longrightarrow> \<forall>a \<in> set xs. \<not> isEXTERNTAG (m0 a) \<Longrightarrow>
    \<exists>m. rfold (repair_extern tbl) xs s = Inr (upd_mem (\<lambda>_. m) s) \<and> patched b (exports tbl) (A - set xs) m0 m"
proof (induction xs arbitrary: A s)
  case Nil
  then show ?case by (intro exI [of _ "rt_mem s"]) (simp add: upd_mem_def)
next
  case (Cons a xs)
  from repair_extern_ok [OF assms Cons.prems(1), of a] Cons.prems(2) obtain m where
    m: "repair_extern tbl a s = Inr (upd_mem (\<lambda>_. m) s)" "patched b (exports tbl) (A - {a}) m0 (rt_mem (upd_mem (\<lambda>_. m) s))" by (auto simp: upd_mem_def)
  from Cons.IH [OF m(2)] Cons.prems(2) obtain m' where
    "rfold (repair_extern tbl) xs (upd_mem (\<lambda>_. m) s) = Inr (upd_mem (\<lambda>_. m') (upd_mem (\<lambda>_. m) s))" "patched b (exports tbl) (A - {a} - set xs) m0 m'" by auto
  moreover have "upd_mem (\<lambda>_. m') (upd_mem (\<lambda>_. m) s) = upd_mem (\<lambda>_. m') s" by (simp add: upd_mem_def)
  moreover have "A - {a} - set xs = A - set (a # xs)" by auto
  ultimately show ?case using m(1) by auto
qed

lemma patched_no_ext: "patched b es A m0 m \<Longrightarrow> \<forall>a \<in> X. \<not> outside b (m0 a) \<Longrightarrow> patched b es (A - X) m0 m"
  unfolding patched_def by (metis Diff_iff)

text \<open>The state of the repair: what is still replaced is at the addresses in \<open>A\<close>.\<close>

definition repaired :: "export_table \<Rightarrow> rt \<Rightarrow> addr_t set \<Rightarrow> rt \<Rightarrow> bool" where
  "repaired tbl s0 A s \<longleftrightarrow> patched (rt_bibop s0) (exports tbl) A (rt_mem s0) (rt_mem s)"

lemma RepairArena_ok:
  assumes wf: "reg_wf r" "card (syms r) < 2 ^ 31" "ex_wf r tbl" and rp: "repaired tbl s0 A s" and fl: "arenas_flags s0 F s"
    and i: "i < 14" "j < 5" "j \<noteq> MIXED_INDX" and F: "F i j = has_ext s0 i j"
    and ok: "\<forall>a \<in> set (zone s0 i j). word_ok r (rt_bibop s0) (rt_mem s0 a)"
  shows "\<exists>s'. RepairArena tbl i j s = Inr s' \<and> repaired tbl s0 (A - set (zone s0 i j)) s' \<and> arenas_flags s0 (F(i := (F i)(j := False))) s'"
proof -
  have z: "arena_words (get_arena i j s) = zone s0 i j" "a_needsRepair (get_arena i j s) = has_ext s0 i j"
    using arenas_flags_words(1,2) [OF fl i(1,2)] i(3) F by (simp_all add: zone_def)
  have "\<exists>m. (if has_ext s0 i j then rfold (repair_extern tbl) (zone s0 i j) s else Inr s) = Inr (upd_mem (\<lambda>_. m) s) \<and> repaired tbl s0 (A - set (zone s0 i j)) (upd_mem (\<lambda>_. m) s)"
  proof (cases "has_ext s0 i j")
    case True
    have "\<forall>a \<in> set (zone s0 i j). \<not> isEXTERNTAG (rt_mem s0 a)" using ok by (auto simp: word_ok_def)
    from repair_externs_ok [OF wf, of _ A _ s, OF _ this] rp show ?thesis using True by (auto simp: repaired_def upd_mem_def)
  next
    case False
    then show ?thesis using rp patched_no_ext by (intro exI [of _ "rt_mem s"]) (auto simp: repaired_def has_ext_def upd_mem_def)
  qed
  then obtain m where m: "(if has_ext s0 i j then rfold (repair_extern tbl) (zone s0 i j) s else Inr s) = Inr (upd_mem (\<lambda>_. m) s)"
    "repaired tbl s0 (A - set (zone s0 i j)) (upd_mem (\<lambda>_. m) s)" by blast
  from m(1) have "RepairArena tbl i j s = Inr (upd_arena i j (\<lambda>ap. ap\<lparr>a_needsRepair := False\<rparr>) (upd_mem (\<lambda>_. m) s))" by (simp only: RepairArena_def z rbind.simps)
  then show ?thesis using m(2) arenas_flags_set [OF arenas_flags_upd_mem [OF fl] i(1,2)] by (auto simp: repaired_def)
qed

lemma repair_mixed_ok:
  assumes wf: "reg_wf r" "card (syms r) < 2 ^ 31" "ex_wf r tbl" and rp: "repaired tbl s0 A s" and fl: "arenas_flags s0 F s" and i: "i < 14"
    and ok: "\<forall>a \<in> set (zone s0 i MIXED_INDX). word_ok r (rt_bibop s0) (rt_mem s0 a)"
    and xs: "mixed_of s0 i = Some xs" "\<forall>(h, n) \<in> set xs. \<not> isBOXED (rt_mem s0 h)"
  shows "\<exists>s'. repair_mixed tbl i s = Inr s' \<and> repaired tbl s0 (if F i MIXED_INDX then A - set (zone s0 i MIXED_INDX) else A) s' \<and> arenas_flags s0 F s'"
proof (cases "F i MIXED_INDX")
  case False
  then show ?thesis using rp fl arenas_flags_words(2) [OF fl i, of MIXED_INDX] by (auto simp: repair_mixed_def)
next
  case True
  let ?ap = "get_arena i MIXED_INDX s0"
  have z: "zone s0 i MIXED_INDX = concat (map ptr_part xs)" by (simp add: zone_def xs(1))
  have ne: "\<forall>a \<in> set (zone s0 i MIXED_INDX). \<not> isEXTERNTAG (rt_mem s0 a)" using ok by (auto simp: word_ok_def)
  have "mixed_loop rt_mem (repair_extern tbl) (a_tospBase ?ap) (a_nextw ?ap) s = rfold (repair_extern tbl) (concat (map ptr_part xs)) s"
  proof (rule mixed_loop_rfold [where P = "\<lambda>s. \<exists>A. repaired tbl s0 A s"])
    show "mixed_objs (rt_mem s0) (a_tospBase ?ap) (a_nextw ?ap) = Some xs" using xs(1) by (simp add: mixed_of_def)
    show "rt_mem s h = rt_mem s0 h" if "\<exists>A. repaired tbl s0 A s" "(h, n) \<in> set xs" for s h n
    proof -
      have "\<not> outside (rt_bibop s0) (rt_mem s0 h)" using xs(2) that(2) by (auto simp: outside_def)
      then show ?thesis using that(1) patched_at(2) by (auto simp: repaired_def)
    qed
    show "\<exists>A. repaired tbl s0 A s'" if "\<exists>A. repaired tbl s0 A s" "a \<in> set (concat (map ptr_part xs))" "repair_extern tbl a s = Inr s'" for s s' a
    proof -
      from that(1) obtain A where "patched (rt_bibop s0) (exports tbl) A (rt_mem s0) (rt_mem s)" by (auto simp: repaired_def)
      from repair_extern_ok [OF wf this] ne that(2,3) z show ?thesis by (fastforce simp: repaired_def upd_mem_def)
    qed
  qed (use rp in auto)
  then have e: "repair_mixed tbl i s = rfold (repair_extern tbl) (zone s0 i MIXED_INDX) s"
    using arenas_flags_words(2-4) [OF fl i, of MIXED_INDX] True by (simp add: repair_mixed_def z)
  from repair_externs_ok [OF wf, of "rt_bibop s0" A "rt_mem s0" s, OF _ ne] rp obtain m where
    "rfold (repair_extern tbl) (zone s0 i MIXED_INDX) s = Inr (upd_mem (\<lambda>_. m) s)" "patched (rt_bibop s0) (exports tbl) (A - set (zone s0 i MIXED_INDX)) (rt_mem s0) m"
    by (auto simp: repaired_def)
  then show ?thesis using e True arenas_flags_upd_mem [OF fl] by (auto simp: repaired_def upd_mem_def)
qed

text \<open>The mixed arenas whose flag is not set keep their references.\<close>

definition lost :: "rt \<Rightarrow> nat \<Rightarrow> addr_t set" where
  "lost s g = (if a_needsRepair (get_arena g MIXED_INDX s) then {} else set (zone s g MIXED_INDX))"

definition repair_flags :: "rt \<Rightarrow> nat \<Rightarrow> nat \<Rightarrow> nat \<Rightarrow> nat \<Rightarrow> bool" where
  "repair_flags s n k g j = (if g < k \<and> (j = RECORD_INDX \<or> j = PAIR_INDX \<or> j = ARRAY_INDX) then False else scan_flags s n g j)"

lemma repair_flags_Suc:
  "(let F = repair_flags s n i; F = F(i := (F i)(0 := False)); F = F(i := (F i)(1 := False)) in F(i := (F i)(4 := False))) = repair_flags s n (Suc i)"
  by (auto simp: repair_flags_def fun_eq_iff Let_def less_Suc_eq)

lemma repair_gen_ok:
  assumes wf: "reg_wf r" "card (syms r) < 2 ^ 31" "ex_wf r tbl" and x: "exportable r s0" and i: "i < n" and n: "n = h_numGens (rt_heap s0)"
    and rp: "repaired tbl s0 A s" and fl: "arenas_flags s0 (repair_flags s0 n i) s"
  shows "\<exists>s'. repair_gen tbl i s = Inr s' \<and> repaired tbl s0 (A - (gen_zone s0 i - lost s0 i)) s' \<and> arenas_flags s0 (repair_flags s0 n (Suc i)) s'"
proof -
  have i': "i < h_numGens (rt_heap s0)" using i n by simp
  note i14 = exportableD(1) [OF x i']
  note ok = exportableD(2) [OF x i']
  let ?F = "repair_flags s0 n i"
  have F: "?F i j = has_ext s0 i j" if "j = 0 \<or> j = 1 \<or> j = 4" for j using that i by (auto simp: repair_flags_def scan_flags_def)
  from RepairArena_ok [OF wf rp fl i14, of 0] ok [of 0] F [of 0] obtain s1 where
    1: "RepairArena tbl i 0 s = Inr s1" "repaired tbl s0 (A - set (zone s0 i 0)) s1" "arenas_flags s0 (?F(i := (?F i)(0 := False))) s1" by auto
  from RepairArena_ok [OF wf 1(2,3) i14, of 1] ok [of 1] F [of 1] obtain s2 where
    2: "RepairArena tbl i 1 s1 = Inr s2" "repaired tbl s0 (A - set (zone s0 i 0) - set (zone s0 i 1)) s2"
      "arenas_flags s0 (let F = ?F; F = F(i := (F i)(0 := False)) in F(i := (F i)(1 := False))) s2" by (auto simp: Let_def)
  from RepairArena_ok [OF wf 2(2,3) i14, of 4] ok [of 4] F [of 4] obtain s3 where
    3: "RepairArena tbl i 4 s2 = Inr s3" "repaired tbl s0 (A - set (zone s0 i 0) - set (zone s0 i 1) - set (zone s0 i 4)) s3"
      "arenas_flags s0 (repair_flags s0 n (Suc i)) s3" unfolding repair_flags_Suc [symmetric] Let_def by auto
  from exportableD(3) [OF x i'] obtain xs where xs: "mixed_of s0 i = Some xs" "\<forall>(h, n) \<in> set xs. \<not> isBOXED (rt_mem s0 h)" by auto
  have m: "repair_flags s0 n (Suc i) i 2 = a_needsRepair (get_arena i 2 s0)" by (simp add: repair_flags_def scan_flags_def)
  let ?A = "A - set (zone s0 i 0) - set (zone s0 i 1) - set (zone s0 i 4)"
  from repair_mixed_ok [OF wf 3(2,3) i14 _ xs] ok [of 2] m obtain s4 where
    4: "repair_mixed tbl i s3 = Inr s4" "repaired tbl s0 (if a_needsRepair (get_arena i 2 s0) then ?A - set (zone s0 i 2) else ?A) s4"
      "arenas_flags s0 (repair_flags s0 n (Suc i)) s4" by auto
  have "set (zone s0 i 2) \<inter> set (zone s0 i j) = {}" if "j = 0 \<or> j = 1 \<or> j = 4" for j using exportableD(4) [OF x i' i', of 2 j] that by auto
  then have "(if a_needsRepair (get_arena i 2 s0) then ?A - set (zone s0 i 2) else ?A) = A - (gen_zone s0 i - lost s0 i)"
    by (auto simp: gen_zone_def lost_def)
  then show ?thesis using 1(1) 2(1) 3(1) 4 by (auto simp: repair_gen_def)
qed

lemma RepairHeap_ok:
  assumes wf: "reg_wf r" "card (syms r) < 2 ^ 31" "ex_wf r tbl" and x: "exportable r s0" and n: "n = h_numGens (rt_heap s0)"
    and rp: "repaired tbl s0 (\<Union>g < n. gen_zone s0 g) s" and fl: "arenas_flags s0 (scan_flags s0 n) s"
  shows "\<exists>s'. RepairHeap tbl s = Inr s' \<and> repaired tbl s0 (\<Union>g < n. lost s0 g) s'"
proof -
  have "k \<le> n \<Longrightarrow> \<exists>s'. rfold (repair_gen tbl) [0..<k] s = Inr s' \<and> repaired tbl s0 ((\<Union>g < n. gen_zone s0 g) - (\<Union>g < k. gen_zone s0 g - lost s0 g)) s'
      \<and> arenas_flags s0 (repair_flags s0 n k) s'" for k
  proof (induction k)
    case 0
    have "repair_flags s0 n 0 = scan_flags s0 n" by (simp add: repair_flags_def fun_eq_iff)
    then show ?case using rp fl by simp
  next
    case (Suc k)
    then obtain s' where s': "rfold (repair_gen tbl) [0..<k] s = Inr s'"
      "repaired tbl s0 ((\<Union>g < n. gen_zone s0 g) - (\<Union>g < k. gen_zone s0 g - lost s0 g)) s'" "arenas_flags s0 (repair_flags s0 n k) s'" by auto
    have "(\<Union>g < n. gen_zone s0 g) - (\<Union>g < k. gen_zone s0 g - lost s0 g) - (gen_zone s0 k - lost s0 k) = (\<Union>g < n. gen_zone s0 g) - (\<Union>g < Suc k. gen_zone s0 g - lost s0 g)"
      by (auto simp: less_Suc_eq)
    with repair_gen_ok [OF wf x _ n s'(2,3)] Suc.prems s'(1) show ?case by (auto simp: rfold_append)
  qed
  from this [of n] obtain s' where s': "rfold (repair_gen tbl) [0..<n] s = Inr s'"
    "repaired tbl s0 ((\<Union>g < n. gen_zone s0 g) - (\<Union>g < n. gen_zone s0 g - lost s0 g)) s'" by auto
  have d: "gen_zone s0 g \<inter> gen_zone s0 g' = {}" if "g < n" "g' < g" for g g'
  proof -
    have z: "set (zone s0 g j) \<inter> gen_zone s0 g' = {}" if "j < 5" "j \<noteq> STRING_INDX" for j
      using zone_gen_disjoint [OF x, of g g j] that \<open>g < n\<close> \<open>g' < g\<close> n by blast
    show ?thesis using z [of 0] z [of 1] z [of 4] z [of 2] unfolding gen_zone_def [of s0 g] by (simp add: Int_Un_distrib2)
  qed
  have l: "lost s0 g \<subseteq> gen_zone s0 g" for g by (auto simp: lost_def gen_zone_def)
  have e: "g = g'" if "g < n" "g' < n" "a \<in> gen_zone s0 g" "a \<in> gen_zone s0 g'" for g g' a
    using d [of g g'] d [of g' g] that by (cases g g' rule: linorder_cases) auto
  have "(\<Union>g < n. gen_zone s0 g) - (\<Union>g < n. gen_zone s0 g - lost s0 g) = (\<Union>g < n. lost s0 g)" (is "?L = ?R")
  proof (intro set_eqI iffI)
    fix a assume "a \<in> ?R"
    then obtain g where g: "g < n" "a \<in> lost s0 g" by blast
    then have "a \<in> gen_zone s0 g" using l by blast
    moreover have "a \<in> lost s0 g'" if "g' < n" "a \<in> gen_zone s0 g'" for g' using e [OF g(1) that(1) _ that(2)] \<open>a \<in> gen_zone s0 g\<close> g(2) by simp
    ultimately show "a \<in> ?L" using g(1) by blast
  qed blast
  then show ?thesis using s' fl n by (auto simp: RepairHeap_def arenas_flags_def)
qed

section \<open>Property\<close>

text \<open>C36. Exporting leaves the running heap as it was, except in mixed arenas. For a heap
  whose external pointers are registered, \<open>ScanHeap\<close> returns with a heap in which no scanned
  word points out of the heap. With the table that it made, or an extension of it (the
  registers are exported later), \<open>RepairHeap\<close> returns and restores every word of memory, except
  the external pointers in those mixed arenas whose flag \<open>needsRepair\<close> is not set: \<open>ScanHeap\<close> does
  not set it, and there the references of the image remain in the running heap.\<close>

theorem export_repair:
  assumes wf: "reg_wf r" "card (syms r) < 2 ^ 31" and x: "exportable r s"
  shows "\<exists>tbl s1. ScanHeap r s = Inr (tbl, s1) \<and> ex_wf r tbl
    \<and> (\<forall>g < h_numGens (rt_heap s). \<forall>a \<in> gen_zone s g. \<not> outside (rt_bibop s) (rt_mem s1 a))
    \<and> (\<forall>tbl' ys. ex_wf r tbl' \<and> exports tbl' = exports tbl @ ys \<longrightarrow>
        (\<exists>s2. RepairHeap tbl' s1 = Inr s2 \<and>
          (\<forall>a. if (\<exists>g < h_numGens (rt_heap s). a \<in> lost s g) \<and> outside (rt_bibop s) (rt_mem s a)
               then isEXTERNTAG (rt_mem s2 a) else rt_mem s2 a = rt_mem s a)))"
proof -
  let ?n = "h_numGens (rt_heap s)"
  from ScanHeap_ok [OF wf(1) x] obtain tbl s1 where
    1: "ScanHeap r s = Inr (tbl, s1)" "scanned r s (\<Union>g < ?n. gen_zone s g) tbl s1" "arenas_flags s (scan_flags s ?n) s1" by blast
  have "\<not> outside (rt_bibop s) (rt_mem s1 a)" if "g < ?n" "a \<in> gen_zone s g" for g a
  proof (cases "outside (rt_bibop s) (rt_mem s a)")
    case True
    then have "xref_of (exports tbl) (rt_mem s1 a) (rt_mem s a)" using 1(2) that patched_at(1) by (fastforce simp: scanned_def)
    then show ?thesis using xref_of_desc by (auto simp: outside_def)
  next
    case False
    then have "rt_mem s1 a = rt_mem s a" using 1(2) patched_at(2) unfolding scanned_def by blast
    then show ?thesis using False by simp
  qed
  moreover have "\<exists>s2. RepairHeap tbl' s1 = Inr s2 \<and> (\<forall>a. if (\<exists>g < ?n. a \<in> lost s g) \<and> outside (rt_bibop s) (rt_mem s a)
      then isEXTERNTAG (rt_mem s2 a) else rt_mem s2 a = rt_mem s a)" if t: "ex_wf r tbl'" "exports tbl' = exports tbl @ ys" for tbl' ys
  proof -
    have "repaired tbl' s (\<Union>g < ?n. gen_zone s g) s1" using 1(2) patched_mono t(2) by (simp add: scanned_def repaired_def)
    from RepairHeap_ok [OF wf t(1) x refl this 1(3)] obtain s2 where
      2: "RepairHeap tbl' s1 = Inr s2" "patched (rt_bibop s) (exports tbl') (\<Union>g < ?n. lost s g) (rt_mem s) (rt_mem s2)" by (auto simp: repaired_def)
    have "if (\<exists>g < ?n. a \<in> lost s g) \<and> outside (rt_bibop s) (rt_mem s a) then isEXTERNTAG (rt_mem s2 a) else rt_mem s2 a = rt_mem s a" for a
      using patched_at [OF 2(2), of a] xref_of_desc by auto
    then show ?thesis using 2(1) by blast
  qed
  moreover have "ex_wf r tbl" using 1(2) by (simp add: scanned_def)
  ultimately show ?thesis using 1(1) by blast
qed

text \<open>A generation with a reference and a mixed object that both point to the outside: the second is not restored.\<close>

definition exp_mem :: memory where
  "exp_mem = (\<lambda>_. 1)(0x80000 := MAKE_DESC 1 DTAG_record, 0x80008 := 0x1008, 0x82000 := MAKE_MIXED_DESC 1 1, 0x82008 := 0x1000)"

definition exp_rt :: rt where
  "exp_rt = ex_rt\<lparr>rt_mem := exp_mem, rt_heap := ex_heap\<lparr>h_numGens := 1, h_gen := replicate MAX_NUM_GENS
     (ex_gen\<lparr>g_arena := [(ex_arena 0)\<lparr>a_nextw := 0x80010\<rparr>, ex_arena 1, (ex_arena 2)\<lparr>a_nextw := 0x82018\<rparr>, ex_arena 3, ex_arena 4]\<rparr>)\<rparr>\<rparr>"

lemma exp_arenas:
  "get_arena 0 0 exp_rt = (ex_arena 0)\<lparr>a_nextw := 0x80010\<rparr>" "get_arena 0 1 exp_rt = ex_arena 1"
  "get_arena 0 2 exp_rt = (ex_arena 2)\<lparr>a_nextw := 0x82018\<rparr>" "get_arena 0 4 exp_rt = ex_arena 4"
  "h_numGens (rt_heap exp_rt) = 1" "rt_mem exp_rt = exp_mem" "rt_bibop exp_rt = ex_bibop" "gens_ok exp_rt"
  by (simp_all add: exp_rt_def get_arena_def get_gen_def gens_ok_def ex_sel)

lemma exp_mixed: "mixed_of exp_rt 0 = Some [(0x82000, 1)]"
proof -
  have m: "obj_lens (exp_mem 0x82000) = Some (2, 1)"
    by (simp add: exp_mem_def obj_lens_def MAKE_MIXED_DESC_def GET_TAG_def MIXED_GET_LEN_def MIXED_GET_PTRLEN_def MAKE_TAG_def)
  have "mixed_objs exp_mem 0x82018 0x82018 = Some []" by (subst mixed_objs.simps) simp
  then have "mixed_objs exp_mem 0x82000 0x82018 = Some [(0x82000, 1)]" using m by (subst mixed_objs.simps) (simp add: at_ix_def)
  then show ?thesis by (simp add: mixed_of_def exp_arenas ex_arena_def Let_def)
qed

lemma exp_zones: "zone exp_rt 0 0 = [0x80000, 0x80008]" "zone exp_rt 0 1 = []" "zone exp_rt 0 4 = []" "zone exp_rt 0 2 = [0x82008]"
proof -
  have u: "[0..<2] = [0, 1 :: nat]" by (simp add: numeral_2_eq_2)
  show "zone exp_rt 0 0 = [0x80000, 0x80008]" "zone exp_rt 0 1 = []" "zone exp_rt 0 4 = []" "zone exp_rt 0 2 = [0x82008]"
    using exp_arenas(2) by (simp_all add: zone_def exp_mixed ptr_part_def arena_words_def exp_arenas ex_arena_def Let_def at_ix_def u)
qed

theorem export_repair_witness:
  "\<exists>r tbl s1 s2. ScanHeap r exp_rt = Inr (tbl, s1) \<and> RepairHeap tbl s1 = Inr s2
    \<and> rt_mem exp_rt 0x80008 = 0x1008 \<and> rt_mem s2 0x80008 = 0x1008 \<and> rt_mem exp_rt 0x82008 = 0x1000 \<and> isEXTERNTAG (rt_mem s2 0x82008)"
proof -
  obtain r where r: "reg_wf r" "syms r = {(''div'', 0x1000), (''overflow'', 0x1008)}" using example_registry by blast
  have d: "isDESC (MAKE_DESC 1 0)" "GET_TAG (MAKE_DESC 1 0) = 0" by (rule desc_kind, rule GET_TAG_MAKE_DESC) simp
  have nb: "\<not> isBOXED (MAKE_DESC 1 0)" using d(1) by (simp add: low_bits)
  have pg: "ADDR_TO_PAGEID ex_bibop 0x1008 = Inr AID_UNMAPPED" "ADDR_TO_PAGEID ex_bibop 0x1000 = Inr AID_UNMAPPED"
    by (simp_all add: ADDR_TO_PAGEID_def INDEX_TO_PAGEID_def BIBOP_ADDR_TO_INDEX_def BIBOP_INDEX_TO_L1_INDEX_def BIBOP_INDEX_TO_L2_INDEX_def l2_of_def ex_bibop_def)
  have e: "outside ex_bibop 0x1008" "outside ex_bibop 0x1000" by (simp_all add: outside_def pg isBOXED_def)
  have w: "word_ok r ex_bibop 0x1008" "word_ok r ex_bibop 0x1000" "word_ok r ex_bibop (MAKE_DESC 1 0)"
    using d nb by (auto simp: word_ok_def e pg r(2) isEXTERNTAG_def isDESC_def outside_def)
  have hdr: "\<not> isBOXED (MAKE_MIXED_DESC 1 1)" by (simp add: MAKE_MIXED_DESC_def isBOXED_def MAKE_TAG_def)
  have z: "\<forall>a \<in> set (zone exp_rt 0 j). word_ok r ex_bibop (exp_mem a)" if "j < 5" "j \<noteq> 3" for j
  proof -
    have "j = 0 \<or> j = 1 \<or> j = 2 \<or> j = 4" using that by auto
    then show ?thesis using w exp_zones by (elim disjE) (simp_all add: exp_mem_def)
  qed
  have dj: "set (zone exp_rt 0 j) \<inter> set (zone exp_rt 0 j') = {}" if "j < 5" "j' < 5" "j \<noteq> j'" "j \<noteq> 3" "j' \<noteq> 3" for j j'
  proof -
    have "j = 0 \<or> j = 1 \<or> j = 2 \<or> j = 4" "j' = 0 \<or> j' = 1 \<or> j' = 2 \<or> j' = 4" using that by auto
    then show ?thesis using that(3) exp_zones by (elim disjE) simp_all
  qed
  have "\<exists>xs. mixed_of exp_rt 0 = Some xs \<and> (\<forall>(h, n) \<in> set xs. \<not> isBOXED (exp_mem h))" by (simp add: exp_mixed exp_mem_def hdr)
  then have x: "exportable r exp_rt" using z dj by (simp add: exportable_def exp_arenas)
  have c: "card (syms r) < 2 ^ 31" by (simp add: r(2))
  from export_repair [OF r(1) c x] obtain tbl s1 where
    1: "ScanHeap r exp_rt = Inr (tbl, s1)" "ex_wf r tbl"
      "\<forall>tbl' ys. ex_wf r tbl' \<and> exports tbl' = exports tbl @ ys \<longrightarrow>
        (\<exists>s2. RepairHeap tbl' s1 = Inr s2 \<and>
          (\<forall>a. if (\<exists>g < h_numGens (rt_heap exp_rt). a \<in> lost exp_rt g) \<and> outside (rt_bibop exp_rt) (rt_mem exp_rt a)
               then isEXTERNTAG (rt_mem s2 a) else rt_mem s2 a = rt_mem exp_rt a))" by blast
  from 1(2,3) obtain s2 where 2: "RepairHeap tbl s1 = Inr s2"
    "\<forall>a. if (\<exists>g < h_numGens (rt_heap exp_rt). a \<in> lost exp_rt g) \<and> outside (rt_bibop exp_rt) (rt_mem exp_rt a)
         then isEXTERNTAG (rt_mem s2 a) else rt_mem s2 a = rt_mem exp_rt a" by (metis append_Nil2)
  have l: "lost exp_rt 0 = {0x82008}" by (simp add: lost_def exp_arenas exp_zones ex_arena_def Let_def)
  have m: "exp_mem 0x80008 = 0x1008" "exp_mem 0x82008 = 0x1000" by (simp_all add: exp_mem_def)
  have "rt_mem s2 0x80008 = 0x1008" using spec [OF 2(2), of "0x80008"] by (simp add: exp_arenas l m)
  moreover have "isEXTERNTAG (rt_mem s2 0x82008)" using spec [OF 2(2), of "0x82008"] by (simp add: exp_arenas l m e)
  ultimately show ?thesis using 1(1) 2(1) m by (auto simp: exp_arenas)
qed

end
