(* ===== verification/Addr_Hash.thy ===== *)
theory Addr_Hash
  imports Buckets
begin

text \<open>
  The address hash tables of \<open>gc/addr-hash.c\<close>, which map addresses to objects. The
  table grows only in its buckets; its number of buckets is a power of two fixed when it is
  made. Objects are values of a type parameter; allocation of table storage does not fail, and
  a table holds fewer than \<open>2^31\<close> items, so that \<open>numItems\<close> is a \<open>nat\<close>.
\<close>

record 'o addr_tbl =
  at_ignoreBits :: nat
  at_size :: nat
  at_numItems :: nat
  at_mask :: addr_t
  at_buckets :: "(addr_t \<times> 'o) buckets"

definition AddrHash :: "'o addr_tbl \<Rightarrow> addr_t \<Rightarrow> nat" where
  "AddrHash tbl addr = unat (drop_bit (at_ignoreBits tbl) addr AND at_mask tbl)"

text \<open>
  The loop that doubles \<open>nBuckets\<close>, an \<open>unsigned int\<close>, while it is below \<open>size\<close>
  (converted to unsigned by the comparison), with fuel.
\<close>

fun double_buckets :: "nat \<Rightarrow> u32 \<Rightarrow> u32 \<Rightarrow> u32 res" where
  "double_buckets 0 nBuckets sz = Inl NoFuel"
| "double_buckets (Suc fuel) nBuckets sz =
     (if nBuckets < sz then double_buckets fuel (push_bit 1 nBuckets) sz else Inr nBuckets)"

text \<open>
  \<open>size\<close> is an \<open>int\<close>. The index of the loop that clears the buckets is an \<open>int\<close> too, which
  overflows when there are \<open>2^31\<close> of them.
\<close>

definition MakeAddrTbl :: "nat \<Rightarrow> nat \<Rightarrow> int \<Rightarrow> 'o addr_tbl res" where
  "MakeAddrTbl fuel ignoreBits sz =
     rbind (double_buckets fuel 16 (word_of_int sz)) (\<lambda>nBuckets.
       if 0x80000000 \<le> nBuckets then Inl (Fault ''signed overflow'')
       else Inr \<lparr>at_ignoreBits = ignoreBits, at_size = unat nBuckets, at_numItems = 0,
            at_mask = ucast (nBuckets - 1), at_buckets = replicate (unat nBuckets) []\<rparr>)"

definition AddrTblInsert :: "'o addr_tbl \<Rightarrow> addr_t \<Rightarrow> 'o \<Rightarrow> 'o addr_tbl res" where
  "AddrTblInsert tbl addr obj =
     (let h = AddrHash tbl addr in
      if length (at_buckets tbl) \<le> h then Inl (Fault ''bucket index out of range'')
      else case bkt_find (\<lambda>p. fst p = addr) h (at_buckets tbl) of
        None \<Rightarrow> Inr (tbl\<lparr>at_buckets := bkt_ins h (addr, obj) (at_buckets tbl),
                       at_numItems := at_numItems tbl + 1\<rparr>)
      | Some p \<Rightarrow>
          if snd p \<noteq> obj then Inl (Die ''AddrTblInsert: address mapped to multiple objects'')
          else Inr tbl)"

definition AddrTblLookup :: "'o addr_tbl \<Rightarrow> addr_t \<Rightarrow> 'o option res" where
  "AddrTblLookup tbl addr =
     (let h = AddrHash tbl addr in
      if length (at_buckets tbl) \<le> h then Inl (Fault ''bucket index out of range'')
      else Inr (map_option snd (bkt_find (\<lambda>p. fst p = addr) h (at_buckets tbl))))"

text \<open>\<open>clos\<close> is the state that the applied function updates.\<close>

definition AddrTblApply :: "'o addr_tbl \<Rightarrow> (addr_t \<Rightarrow> 'o \<Rightarrow> 'c \<Rightarrow> 'c) \<Rightarrow> 'c \<Rightarrow> 'c" where
  "AddrTblApply tbl f clos =
     fold (\<lambda>i c. fold (\<lambda>(addr, obj) c. f addr obj c) (at_buckets tbl ! i) c) [0..<at_size tbl] clos"

text \<open>\<open>FreeAddrTbl\<close>, as the sequence of its \<open>FREE\<close> calls.\<close>

datatype 'o freed = FreedObj 'o | FreedItem addr_t | FreedBuckets | FreedTbl

definition FreeAddrTbl :: "'o addr_tbl \<Rightarrow> bool \<Rightarrow> 'o freed list" where
  "FreeAddrTbl tbl freeObjs =
     concat (map (\<lambda>i. concat (map (\<lambda>(addr, obj).
         (if freeObjs then [FreedObj obj] else []) @ [FreedItem addr]) (at_buckets tbl ! i)))
       [0..<at_size tbl]) @ [FreedBuckets, FreedTbl]"

section \<open>The table is a finite map\<close>

definition addr_idx :: "nat \<Rightarrow> addr_t \<Rightarrow> nat \<Rightarrow> nat" where
  "addr_idx ignoreBits addr sz = unat (drop_bit ignoreBits addr AND of_nat (sz - 1))"

interpretation at: bucket_table fst "addr_idx ignoreBits"
  by unfold_locales (unfold addr_idx_def, rule unat_and_mask_less)

definition at_wf :: "'o addr_tbl \<Rightarrow> bool" where
  "at_wf tbl \<longleftrightarrow> at.bok (at_ignoreBits tbl) (at_buckets tbl) \<and> 0 < at_size tbl
     \<and> length (at_buckets tbl) = at_size tbl \<and> at_mask tbl = of_nat (at_size tbl - 1)
     \<and> at_numItems tbl = length (concat (at_buckets tbl))"

definition at_map :: "'o addr_tbl \<Rightarrow> addr_t \<Rightarrow> 'o option" where
  "at_map tbl a = map_of (concat (at_buckets tbl)) a"

lemma AddrHash_idx: "at_wf tbl \<Longrightarrow> AddrHash tbl a = addr_idx (at_ignoreBits tbl) a (length (at_buckets tbl))"
  by (simp add: AddrHash_def addr_idx_def at_wf_def)

lemma AddrHash_bound: "at_wf tbl \<Longrightarrow> AddrHash tbl a < length (at_buckets tbl)"
  using at.idx_bound [of "at_size tbl" "at_ignoreBits tbl" a]
  by (simp add: AddrHash_idx) (auto simp: at_wf_def)

lemma at_find:
  assumes "at_wf tbl"
  shows "map_option snd (bkt_find (\<lambda>p. fst p = a) (AddrHash tbl a) (at_buckets tbl)) = at_map tbl a"
proof -
  have ok: "at.bok (at_ignoreBits tbl) (at_buckets tbl)" and len: "0 < length (at_buckets tbl)"
    using assms by (auto simp: at_wf_def)
  have d: "distinct (map fst (concat (at_buckets tbl)))"
    using ok by (simp add: at.bok_def at.unique_def)
  have "bkt_find (\<lambda>p. fst p = a) (AddrHash tbl a) (at_buckets tbl) = Some p
      \<longleftrightarrow> p \<in> set (concat (at_buckets tbl)) \<and> fst p = a" for p
    using at.find_iff [OF ok len] by (simp only: AddrHash_idx [OF assms])
  from map_of_find [OF d this] show ?thesis by (simp add: at_map_def)
qed

lemma AddrTblLookup_map: "at_wf tbl \<Longrightarrow> AddrTblLookup tbl a = Inr (at_map tbl a)"
  using AddrHash_bound [of tbl a] at_find [of tbl a] by (simp add: AddrTblLookup_def)

lemma at_map_ins:
  assumes "at_wf tbl" "at_map tbl a = None"
  shows "map_of (concat (bkt_ins (AddrHash tbl a) (a, obj) (at_buckets tbl))) = (at_map tbl)(a \<mapsto> obj)"
proof -
  have m: "mset (concat (bkt_ins (AddrHash tbl a) (a, obj) (at_buckets tbl)))
      = mset ((a, obj) # concat (at_buckets tbl))"
    using concat_bkt_ins [OF AddrHash_bound [OF assms(1)]] by simp
  have d: "distinct (map fst ((a, obj) # concat (at_buckets tbl)))"
    using assms by (auto simp: at_wf_def at.bok_def at.unique_def at_map_def map_of_eq_None_iff)
  then have "distinct (map fst (concat (bkt_ins (AddrHash tbl a) (a, obj) (at_buckets tbl))))"
    using m by (metis mset_eq_imp_distinct_iff mset_map)
  with d m have "map_of (concat (bkt_ins (AddrHash tbl a) (a, obj) (at_buckets tbl)))
      = map_of ((a, obj) # concat (at_buckets tbl))"
    by (metis map_of_inject_set mset_eq_setD)
  then show ?thesis by (simp add: at_map_def fun_eq_iff)
qed

lemma AddrTblInsert_map:
  assumes "at_wf tbl"
  shows "AddrTblInsert tbl a obj =
    (case at_map tbl a of
       None \<Rightarrow> Inr (tbl\<lparr>at_buckets := bkt_ins (AddrHash tbl a) (a, obj) (at_buckets tbl),
                      at_numItems := at_numItems tbl + 1\<rparr>)
     | Some obj' \<Rightarrow> if obj' \<noteq> obj then Inl (Die ''AddrTblInsert: address mapped to multiple objects'')
                     else Inr tbl)"
  using AddrHash_bound [OF assms, of a] at_find [OF assms, of a, symmetric]
  by (cases "bkt_find (\<lambda>p. fst p = a) (AddrHash tbl a) (at_buckets tbl)")
    (auto simp: AddrTblInsert_def Let_def)

lemma at_wf_ins:
  assumes "at_wf tbl" "at_map tbl a = None"
  shows "at_wf (tbl\<lparr>at_buckets := bkt_ins (AddrHash tbl a) (a, obj) (at_buckets tbl),
                   at_numItems := at_numItems tbl + 1\<rparr>)"
proof -
  have "mset (concat (bkt_ins (AddrHash tbl a) (a, obj) (at_buckets tbl)))
      = mset ((a, obj) # concat (at_buckets tbl))"
    using concat_bkt_ins [OF AddrHash_bound [OF assms(1)]] by simp
  from mset_eq_length [OF this]
  have "length (concat (bkt_ins (AddrHash tbl a) (a, obj) (at_buckets tbl)))
      = Suc (length (concat (at_buckets tbl)))" by simp
  moreover have "a \<notin> fst ` set (concat (at_buckets tbl))"
    using assms(2) by (simp add: at_map_def map_of_eq_None_iff)
  ultimately show ?thesis
    using assms(1) at.bok_ins [of "at_ignoreBits tbl" "at_buckets tbl" "(a, obj)"]
    by (simp add: at_wf_def AddrHash_idx [OF assms(1)])
qed

section \<open>The interface of an address map\<close>

text \<open>
  What the code that relocates addresses relies on: an insertion either fails or adds one
  binding, and lookups read the bindings.
\<close>

locale address_map =
  fixes lookup :: "'t \<Rightarrow> 'a \<Rightarrow> 'o option res"
    and insert_obj :: "'t \<Rightarrow> 'a \<Rightarrow> 'o \<Rightarrow> 't res"
    and mp :: "'t \<Rightarrow> 'a \<Rightarrow> 'o option"
    and invar :: "'t \<Rightarrow> bool"
  assumes lookup_mp: "invar t \<Longrightarrow> lookup t a = Inr (mp t a)"
    and insert_new: "invar t \<Longrightarrow> mp t a \<in> {None, Some x} \<Longrightarrow>
          \<exists>u. insert_obj t a x = Inr u \<and> invar u \<and> mp u = (mp t)(a \<mapsto> x)"
    and insert_clash: "invar t \<Longrightarrow> mp t a = Some y \<Longrightarrow> y \<noteq> x \<Longrightarrow> \<exists>e. insert_obj t a x = Inl e"
begin

lemma insert_all:
  assumes "invar t" and "\<forall>(a, x) \<in> set ps. m a = Some x" and "mp t \<subseteq>\<^sub>m m"
  shows "\<exists>u. rfold (\<lambda>(a, x) t. insert_obj t a x) ps t = Inr u \<and> invar u \<and> mp u \<subseteq>\<^sub>m m
           \<and> dom (mp u) = dom (mp t) \<union> fst ` set ps"
  using assms
proof (induction ps arbitrary: t)
  case (Cons p ps)
  obtain a x where p: "p = (a, x)" by fastforce
  with Cons.prems have "mp t a \<in> {None, Some x}"
    by (cases "mp t a") (auto simp: map_le_def dom_def)
  from insert_new [OF Cons.prems(1) this] obtain u
    where u: "insert_obj t a x = Inr u" "invar u" "mp u = (mp t)(a \<mapsto> x)" by auto
  have "mp u \<subseteq>\<^sub>m m" using Cons.prems p u(3) by (auto simp: map_le_def)
  from Cons.IH [OF u(2) _ this] Cons.prems(2) obtain v
    where "rfold (\<lambda>(a, x) t. insert_obj t a x) ps u = Inr v" "invar v" "mp v \<subseteq>\<^sub>m m"
      "dom (mp v) = dom (mp u) \<union> fst ` set ps" by auto
  with u p show ?case by auto
qed auto

lemma lookup_after_insert_all:
  assumes "invar t" "mp t = Map.empty" "\<forall>(a, x) \<in> set ps. m a = Some x" "(a, x) \<in> set ps"
  shows "\<exists>u. rfold (\<lambda>(a, x) t. insert_obj t a x) ps t = Inr u \<and> lookup u a = Inr (Some x)
           \<and> (\<forall>b. b \<notin> fst ` set ps \<longrightarrow> lookup u b = Inr None)"
proof -
  from insert_all [OF assms(1,3)] assms(2) obtain u
    where u: "rfold (\<lambda>(a, x) t. insert_obj t a x) ps t = Inr u" "invar u" "mp u \<subseteq>\<^sub>m m"
      "dom (mp u) = fst ` set ps" by auto
  have "mp u a = m a" using u(3,4) assms(4) by (force simp: map_le_def)
  moreover have "m a = Some x" using assms(3,4) by auto
  ultimately have "lookup u a = Inr (Some x)" using u(2) by (simp add: lookup_mp)
  moreover have "lookup u b = Inr None" if "b \<notin> fst ` set ps" for b
    using that u(2,4) by (simp add: lookup_mp) (metis domIff)
  ultimately show ?thesis using u(1) by blast
qed

end

interpretation at_tbl: address_map AddrTblLookup AddrTblInsert at_map at_wf
proof
  fix t :: "'o addr_tbl" and a x
  assume wf: "at_wf t" and mp: "at_map t a \<in> {None, Some x}"
  show "\<exists>u. AddrTblInsert t a x = Inr u \<and> at_wf u \<and> at_map u = (at_map t)(a \<mapsto> x)"
  proof (cases "at_map t a")
    case None
    with wf at_map_ins [OF wf None] at_wf_ins [OF wf None] show ?thesis
      by (auto simp: AddrTblInsert_map at_map_def)
  next
    case (Some y)
    with mp wf show ?thesis by (auto simp: AddrTblInsert_map fun_eq_iff)
  qed
qed (auto simp: AddrTblLookup_map AddrTblInsert_map)

section \<open>Properties\<close>

lemma double_buckets_ok:
  assumes "k \<le> 31" "sz \<le> 2 ^ 31" "32 - k \<le> fuel" "k = 4 \<or> 2 ^ (k - 1) < unat sz" "4 \<le> k"
  shows "\<exists>j \<le> 31. double_buckets fuel (2 ^ k) sz = Inr (2 ^ j) \<and> 4 \<le> j \<and> unat sz \<le> 2 ^ j
           \<and> (j = 4 \<or> 2 ^ (j - 1) < unat sz)"
  using assms
proof (induction fuel arbitrary: k)
  case (Suc fuel)
  show ?case
  proof (cases "(2 ^ k :: u32) < sz")
    case True
    then have "k \<noteq> 31" using Suc.prems(2) by auto
    moreover have "push_bit 1 (2 ^ k) = (2 ^ Suc k :: u32)" by (simp add: push_bit_eq_mult)
    moreover have "2 ^ k < unat sz"
      using True Suc.prems(1) by (simp add: word_less_nat_alt unat_2p)
    ultimately show ?thesis
      using Suc.IH [of "Suc k"] Suc.prems True by (simp add: mult.commute)
  next
    case False
    then have "unat sz \<le> 2 ^ k"
      using Suc.prems(1) by (simp add: word_less_nat_alt unat_2p)
    with False Suc.prems show ?thesis by auto
  qed
qed simp

lemma double_buckets_diverges:
  assumes "2 ^ 31 < sz"
  shows "double_buckets fuel (2 ^ k) sz = Inl NoFuel"
proof (induction fuel arbitrary: k)
  case (Suc fuel)
  have "unat (2 ^ k :: u32) \<le> 2 ^ 31"
  proof (cases "k < 32")
    case True
    then have "(2 :: nat) ^ k \<le> 2 ^ 31" by (intro power_increasing) auto
    with True show ?thesis by (simp add: unat_2p)
  next
    case False
    then show ?thesis by (simp add: unat_2p_large)
  qed
  moreover have "2 ^ 31 < unat sz" using assms by (simp add: word_less_nat_alt)
  ultimately have "(2 ^ k :: u32) < sz" by (simp add: word_less_nat_alt)
  moreover have "push_bit 1 (2 ^ k) = (2 ^ Suc k :: u32)" by (simp add: push_bit_eq_mult)
  ultimately show ?case using Suc.IH [of "Suc k"] by (simp add: mult.commute)
qed simp

lemma word_of_int_u32:
  fixes n :: int
  shows "0 \<le> n \<Longrightarrow> n \<le> INT_MAX \<Longrightarrow> unat (word_of_int n :: u32) = nat n"
    and "n < 0 \<Longrightarrow> INT_MIN \<le> n \<Longrightarrow> unat (word_of_int n :: u32) = nat (n + 2 ^ 32)"
proof -
  show "unat (word_of_int n :: u32) = nat n" if "0 \<le> n" "n \<le> INT_MAX"
    using that by (simp add: unat_eq_nat_uint uint_word_of_int)
  show "unat (word_of_int n :: u32) = nat (n + 2 ^ 32)" if "n < 0" "INT_MIN \<le> n"
  proof -
    have "n mod 2 ^ 32 = (n + 2 ^ 32) mod 2 ^ 32" by simp
    also have "\<dots> = n + 2 ^ 32" using that by (intro mod_pos_pos_trivial) auto
    finally show ?thesis by (simp add: unat_eq_nat_uint uint_word_of_int)
  qed
qed

lemma double_buckets_top:
  assumes "2 ^ 30 < unat sz" "sz \<le> 2 ^ 31" "28 \<le> fuel"
  shows "double_buckets fuel 16 sz = Inr 0x80000000"
proof -
  from double_buckets_ok [of 4 sz fuel] assms obtain j where
    j: "double_buckets fuel 16 sz = Inr (2 ^ j)" "j \<le> 31" "unat sz \<le> 2 ^ j" by auto
  have "\<not> j \<le> 30"
  proof
    assume "j \<le> 30"
    then have "(2 :: nat) ^ j \<le> 2 ^ 30" by (intro power_increasing) auto
    with j(3) assms(1) show False by simp
  qed
  with j(2) have "j = 31" by simp
  with j(1) show ?thesis by simp
qed

text \<open>C22. For every size from 0 to \<open>2^30\<close>, \<open>MakeAddrTbl\<close> ends, within 28 doublings, with an
  empty well-formed table whose number of buckets is a power of two, at least 16, at least
  \<open>size\<close> and less than twice that. For a larger size, and for the least \<open>int\<close>, the doubling ends
  at \<open>2^31\<close> buckets, more than an \<open>int\<close> can count, and the loop index overflows. For every other
  negative size the doubling loop never ends.\<close>

theorem MakeAddrTbl_buckets:
  "(0 \<le> sz \<and> sz \<le> 2 ^ 30 \<and> 28 \<le> fuel \<longrightarrow>
      (\<exists>tbl :: 'o addr_tbl. \<exists>j. MakeAddrTbl fuel ignoreBits sz = Inr tbl \<and> at_wf tbl
         \<and> at_map tbl = Map.empty \<and> at_ignoreBits tbl = ignoreBits
         \<and> at_size tbl = 2 ^ j \<and> 16 \<le> at_size tbl
         \<and> nat sz \<le> at_size tbl \<and> (at_size tbl = 16 \<or> at_size tbl < 2 * nat sz)))
   \<and> ((2 ^ 30 < sz \<and> sz \<le> INT_MAX \<or> sz = INT_MIN) \<and> 28 \<le> fuel \<longrightarrow>
        MakeAddrTbl fuel ignoreBits sz = (Inl (Fault ''signed overflow'') :: 'o addr_tbl res))
   \<and> (INT_MIN < sz \<and> sz < 0 \<longrightarrow> MakeAddrTbl fuel ignoreBits sz = (Inl NoFuel :: 'o addr_tbl res))"
proof (intro conjI impI)
  let ?w = "word_of_int sz :: u32"
  assume sz: "0 \<le> sz \<and> sz \<le> 2 ^ 30 \<and> 28 \<le> fuel"
  then have w: "unat ?w = nat sz" by (intro word_of_int_u32) auto
  with sz have "unat ?w \<le> 2 ^ 30" by auto
  then have "?w \<le> 2 ^ 31" by (simp add: word_le_nat_alt)
  from double_buckets_ok [of 4 ?w fuel, OF _ this] sz obtain j where
    j: "double_buckets fuel 16 ?w = Inr (2 ^ j)" "j \<le> 31" "4 \<le> j" "nat sz \<le> 2 ^ j"
      "j = 4 \<or> 2 ^ (j - 1) < nat sz" by (auto simp: w)
  then have u: "unat (2 ^ j :: u32) = 2 ^ j" by (simp add: unat_2p)
  have "j \<noteq> 31" using j(5) sz by auto
  then have "(2 :: nat) ^ j \<le> 2 ^ 30" using j(2) by (intro power_increasing) auto
  then have small: "\<not> 0x80000000 \<le> (2 ^ j :: u32)" by (simp add: word_le_nat_alt u)
  let ?tbl = "\<lparr>at_ignoreBits = ignoreBits, at_size = 2 ^ j, at_numItems = 0,
    at_mask = ucast (2 ^ j - 1 :: u32), at_buckets = replicate (2 ^ j) []\<rparr> :: 'o addr_tbl"
  have pos: "(1 :: u32) \<le> 2 ^ j" by (simp add: word_le_nat_alt u)
  have "unat (2 ^ j - 1 :: u32) = 2 ^ j - 1" using pos by (simp add: unat_sub u)
  then have "(ucast (2 ^ j - 1 :: u32) :: addr_t) = of_nat (2 ^ j - 1)"
    by (metis of_nat_unat)
  moreover have "2 ^ 4 \<le> (2 :: nat) ^ j" using j(3) by (intro power_increasing) auto
  moreover have "(2 :: nat) ^ j = 2 * 2 ^ (j - 1)" using j(3) by (cases j) auto
  ultimately have "at_wf ?tbl" "16 \<le> at_size ?tbl" "at_size ?tbl = 16 \<or> at_size ?tbl < 2 * nat sz"
    "MakeAddrTbl fuel ignoreBits sz = Inr ?tbl" "at_size ?tbl = 2 ^ j" "at_map ?tbl = Map.empty"
    "at_ignoreBits ?tbl = ignoreBits"
    using j small by (auto simp: MakeAddrTbl_def at_wf_def at_map_def at.bok_replicate u fun_eq_iff)
  with j(4) show "\<exists>tbl :: 'o addr_tbl. \<exists>j. MakeAddrTbl fuel ignoreBits sz = Inr tbl \<and> at_wf tbl
         \<and> at_map tbl = Map.empty \<and> at_ignoreBits tbl = ignoreBits
         \<and> at_size tbl = 2 ^ j \<and> 16 \<le> at_size tbl
         \<and> nat sz \<le> at_size tbl \<and> (at_size tbl = 16 \<or> at_size tbl < 2 * nat sz)"
    by metis
next
  let ?w = "word_of_int sz :: u32"
  assume sz: "(2 ^ 30 < sz \<and> sz \<le> INT_MAX \<or> sz = INT_MIN) \<and> 28 \<le> fuel"
  then have "unat ?w = (if sz = INT_MIN then 2 ^ 31 else nat sz)"
    by (cases "sz = INT_MIN") (simp_all add: word_of_int_u32)
  with sz have "2 ^ 30 < unat ?w" "unat ?w \<le> 2 ^ 31" by auto
  with double_buckets_top [of ?w fuel] sz
  show "MakeAddrTbl fuel ignoreBits sz = (Inl (Fault ''signed overflow'') :: 'o addr_tbl res)"
    by (simp add: MakeAddrTbl_def word_le_nat_alt)
next
  let ?w = "word_of_int sz :: u32"
  assume sz: "INT_MIN < sz \<and> sz < 0"
  then have "unat ?w = nat (sz + 2 ^ 32)" by (intro word_of_int_u32) auto
  with sz have "2 ^ 31 < unat ?w" by auto
  then have "2 ^ 31 < ?w" by (simp add: word_less_nat_alt)
  from double_buckets_diverges [OF this, of fuel 4]
  show "MakeAddrTbl fuel ignoreBits sz = (Inl NoFuel :: 'o addr_tbl res)"
    by (simp add: MakeAddrTbl_def)
qed

theorem MakeAddrTbl_buckets_witness:
  "(\<exists>tbl :: nat addr_tbl. \<exists>j. MakeAddrTbl 28 3 100 = Inr tbl \<and> at_size tbl = 2 ^ j \<and> 100 \<le> at_size tbl)
   \<and> MakeAddrTbl 28 3 1073741825 = (Inl (Fault ''signed overflow'') :: nat addr_tbl res)
   \<and> MakeAddrTbl 500 3 (- 1) = (Inl NoFuel :: nat addr_tbl res)"
  using MakeAddrTbl_buckets [where 'o = nat and sz = 100 and ignoreBits = 3 and fuel = 28]
    MakeAddrTbl_buckets [where 'o = nat and sz = 1073741825 and ignoreBits = 3 and fuel = 28]
    MakeAddrTbl_buckets [where 'o = nat and sz = "- 1" and ignoreBits = 3 and fuel = 500]
  by auto

text \<open>C23. The table is a map from addresses to objects: entering any list of address/object pairs
  that gives no address two objects succeeds on a fresh table, afterwards each of these
  addresses is mapped to its object and every other address to nothing; a pair that
  contradicts the table makes the run-time system die.\<close>

theorem AddrTbl_is_map:
  assumes "at_wf tbl" "at_map tbl = Map.empty"
    and "\<forall>(a, x) \<in> set ps. m a = Some x" and "(a, x) \<in> set ps"
  shows "\<exists>u. rfold (\<lambda>(a, x) t. AddrTblInsert t a x) ps tbl = Inr u
           \<and> AddrTblLookup u a = Inr (Some x)
           \<and> (\<forall>b. b \<notin> fst ` set ps \<longrightarrow> AddrTblLookup u b = Inr None)
           \<and> at_numItems u = card (fst ` set ps)
           \<and> (\<forall>y. y \<noteq> x \<longrightarrow> AddrTblInsert u a y = Inl (Die ''AddrTblInsert: address mapped to multiple objects''))"
proof -
  from at_tbl.insert_all [OF assms(1,3)] assms(2) obtain u where
    u: "rfold (\<lambda>(a, x) t. AddrTblInsert t a x) ps tbl = Inr u" "at_wf u" "at_map u \<subseteq>\<^sub>m m"
      "dom (at_map u) = fst ` set ps" by auto
  from at_tbl.lookup_after_insert_all [OF assms] u(1) have
    l: "AddrTblLookup u a = Inr (Some x)" "\<forall>b. b \<notin> fst ` set ps \<longrightarrow> AddrTblLookup u b = Inr None"
    by auto
  have "at_numItems u = length (map fst (concat (at_buckets u)))" using u(2) by (simp add: at_wf_def)
  also have "\<dots> = card (set (map fst (concat (at_buckets u))))"
    using u(2) unfolding at_wf_def at.bok_def at.unique_def by (metis distinct_card)
  also have "set (map fst (concat (at_buckets u))) = dom (at_map u)"
    unfolding at_map_def by (metis dom_map_of_conv_image_fst set_map)
  finally have "at_numItems u = card (fst ` set ps)" using u(4) by simp
  moreover have "at_map u a = Some x" using l(1) u(2) by (simp add: AddrTblLookup_map)
  ultimately show ?thesis using u(1,2) l by (simp add: AddrTblInsert_map)
qed

lemma AddrTbl_example_wf:
  "at_wf \<lparr>at_ignoreBits = 3, at_size = 16, at_numItems = 0, at_mask = 15, at_buckets = replicate 16 []\<rparr>"
  by (simp add: at_wf_def at.bok_replicate del: replicate.simps)

theorem AddrTbl_is_map_witness:
  "\<exists>u. rfold (\<lambda>(a, x) t. AddrTblInsert t a x) [(0x1000, ''a''), (0x1100, ''b''), (0x1000, ''a'')]
        \<lparr>at_ignoreBits = 3, at_size = 16, at_numItems = 0, at_mask = 15, at_buckets = replicate 16 []\<rparr> = Inr u
      \<and> AddrTblLookup u 0x1100 = Inr (Some ''b'')"
  using AddrTbl_is_map [OF AddrTbl_example_wf, where ps = "[(0x1000, ''a''), (0x1100, ''b''), (0x1000, ''a'')]"
      and m = "[0x1000 \<mapsto> ''a'', 0x1100 \<mapsto> ''b'']" and a = "0x1100" and x = "''b''"]
  by (auto simp: at_map_def fun_eq_iff)

lemma map_nth_buckets: "at_wf tbl \<Longrightarrow> map (\<lambda>i. g (at_buckets tbl ! i)) [0..<at_size tbl] = map g (at_buckets tbl)"
  by (simp add: at_wf_def list_eq_iff_nth_eq)

lemma AddrTblApply_fold:
  assumes "at_wf tbl"
  shows "AddrTblApply tbl f clos = fold (\<lambda>(a, x). f a x) (concat (at_buckets tbl)) clos"
proof -
  have "fold (\<lambda>i. h (at_buckets tbl ! i)) [0..<at_size tbl] clos = fold h (at_buckets tbl) clos" for h
    using map_nth_buckets [OF assms, of "\<lambda>x. x"] fold_map [of h "(!) (at_buckets tbl)" "[0..<at_size tbl]"]
    by (simp add: comp_def)
  moreover have "fold (fold g) bs c = fold g (concat bs) c" for g :: "addr_t \<times> 'a \<Rightarrow> 'b \<Rightarrow> 'b" and bs c
    by (induction bs arbitrary: c) simp_all
  ultimately show ?thesis unfolding AddrTblApply_def by simp
qed

lemma FreeAddrTbl_concat:
  "at_wf tbl \<Longrightarrow> FreeAddrTbl tbl freeObjs =
     concat (map (\<lambda>(a, x). (if freeObjs then [FreedObj x] else []) @ [FreedItem a]) (concat (at_buckets tbl)))
       @ [FreedBuckets, FreedTbl]"
proof -
  have c: "concat (map (\<lambda>b. concat (map h b)) bs) = concat (map h (concat bs))"
    for h :: "addr_t \<times> 'a \<Rightarrow> 'a freed list" and bs
    by (induction bs) simp_all
  assume "at_wf tbl"
  then show ?thesis unfolding FreeAddrTbl_def by (subst map_nth_buckets) (simp_all only: c)
qed

lemma distinct_frees:
  assumes "distinct (map fst ps)"
  shows "distinct (concat (map (\<lambda>(a, x). (if freeObjs then [FreedObj x] else []) @ [FreedItem a]) ps)
           @ [FreedBuckets, FreedTbl]) \<longleftrightarrow> (freeObjs \<longrightarrow> distinct (map snd ps))"
proof -
  let ?fr = "\<lambda>(a, x). (if freeObjs then [FreedObj x] else []) @ [FreedItem a]"
  have set_fr: "set (concat (map ?fr qs)) =
      (if freeObjs then FreedObj ` snd ` set qs else {}) \<union> FreedItem ` fst ` set qs" for qs
    by (induction qs) auto
  have "distinct (concat (map ?fr ps)) \<longleftrightarrow> (freeObjs \<longrightarrow> distinct (map snd ps))"
    using assms
  proof (induction ps)
    case (Cons p ps)
    have "distinct (concat (map ?fr (p # ps))) \<longleftrightarrow>
        distinct (?fr p) \<and> distinct (concat (map ?fr ps)) \<and> set (?fr p) \<inter> set (concat (map ?fr ps)) = {}"
      by (simp only: list.map concat.simps distinct_append)
    also have "\<dots> \<longleftrightarrow> (freeObjs \<longrightarrow> distinct (map snd (p # ps)))"
    proof (cases p)
      case (Pair a x)
      have a: "FreedItem a \<notin> FreedItem ` fst ` set ps" using Cons.prems Pair by (simp add: inj_image_mem_iff inj_on_def)
      have x: "FreedObj x \<in> FreedObj ` snd ` set ps \<longleftrightarrow> x \<in> snd ` set ps" by (simp add: inj_image_mem_iff inj_on_def)
      have IH: "distinct (concat (map ?fr ps)) \<longleftrightarrow> (freeObjs \<longrightarrow> distinct (map snd ps))" using Cons by simp
      show ?thesis unfolding IH set_fr using a x by (cases freeObjs) (auto simp: Pair)
    qed
    finally show ?case .
  qed simp
  then show ?thesis by (simp only: distinct_append set_fr) auto
qed

lemma distinct_snd_iff:
  assumes "distinct (map fst ps)"
  shows "distinct (map snd ps) \<longleftrightarrow> inj_on (map_of ps) (dom (map_of ps))"
  using assms
proof (induction ps)
  case (Cons p ps)
  obtain a x where p: "p = (a, x)" by fastforce
  with Cons.prems have d: "distinct (map fst ps)" and a: "a \<notin> fst ` set ps" by auto
  have dom: "dom (map_of ps) = fst ` set ps" by (simp add: dom_map_of_conv_image_fst)
  have "inj_on (map_of ((a, x) # ps)) (insert a (fst ` set ps)) \<longleftrightarrow>
        inj_on (map_of ps) (fst ` set ps) \<and> Some x \<notin> map_of ps ` fst ` set ps"
  proof -
    have eq: "map_of ((a, x) # ps) b = map_of ps b" if "b \<in> fst ` set ps" for b using a that by auto
    have "map_of ((a, x) # ps) ` fst ` set ps = map_of ps ` fst ` set ps" by (intro image_cong refl eq)
    moreover have "inj_on (map_of ((a, x) # ps)) (fst ` set ps) = inj_on (map_of ps) (fst ` set ps)"
      by (intro inj_on_cong eq)
    moreover have "fst ` set ps - {a} = fst ` set ps" using a by blast
    moreover have "map_of ((a, x) # ps) a = Some x" by simp
    ultimately show ?thesis by (simp only: inj_on_insert)
  qed
  moreover have "Some x \<in> map_of ps ` fst ` set ps \<longleftrightarrow> x \<in> snd ` set ps"
    using d by (force simp: image_iff)
  moreover have "dom (map_of ((a, x) # ps)) = insert a (fst ` set ps)"
    by (simp only: dom_map_of_conv_image_fst) simp
  moreover have "distinct (map snd ((a, x) # ps)) \<longleftrightarrow> x \<notin> snd ` set ps \<and> distinct (map snd ps)" by simp
  ultimately show ?case using Cons.IH [OF d] unfolding p dom by (simp only:) blast
qed simp

text \<open>C24. \<open>AddrTblApply\<close> applies the function to every binding of the table exactly once, bucket
  by bucket, and \<open>FreeAddrTbl\<close> frees the items in the same order, each after its object when
  the objects are freed too, then the bucket array and the table. Nothing is freed twice unless
  the objects are freed and two addresses have the same one.\<close>

theorem AddrTbl_traversals:
  fixes tbl :: "'o addr_tbl" and f :: "addr_t \<Rightarrow> 'o \<Rightarrow> 'c \<Rightarrow> 'c"
  assumes "at_wf tbl"
  shows "\<exists>ps. distinct (map fst ps) \<and> map_of ps = at_map tbl \<and> length ps = at_numItems tbl
     \<and> sorted (map (\<lambda>p. AddrHash tbl (fst p)) ps)
     \<and> AddrTblApply tbl f clos = fold (\<lambda>(a, x). f a x) ps clos
     \<and> FreeAddrTbl tbl freeObjs =
         concat (map (\<lambda>(a, x). (if freeObjs then [FreedObj x] else []) @ [FreedItem a]) ps)
           @ [FreedBuckets, FreedTbl]
     \<and> (distinct (FreeAddrTbl tbl freeObjs) \<longleftrightarrow>
          \<not> freeObjs \<or> inj_on (at_map tbl) (dom (at_map tbl)))"
proof (intro exI conjI)
  let ?ps = "concat (at_buckets tbl)"
  show d: "distinct (map fst ?ps)" using assms by (simp add: at_wf_def at.bok_def at.unique_def)
  show m: "map_of ?ps = at_map tbl" by (simp add: at_map_def fun_eq_iff)
  show "length ?ps = at_numItems tbl" using assms by (simp add: at_wf_def)
  have "AddrHash tbl (fst x) = 0 + n" if "n < length (at_buckets tbl)" "x \<in> set (at_buckets tbl ! n)" for n x
  proof -
    have "at.placed (at_ignoreBits tbl) (at_buckets tbl)" using assms unfolding at_wf_def at.bok_def by blast
    with that show ?thesis unfolding AddrHash_idx [OF assms] at.placed_def by simp
  qed
  then show "sorted (map (\<lambda>p. AddrHash tbl (fst p)) ?ps)" by (intro sorted_concat [where k = 0]) blast
  show "AddrTblApply tbl f clos = fold (\<lambda>(a, x). f a x) ?ps clos" by (rule AddrTblApply_fold [OF assms])
  show "FreeAddrTbl tbl freeObjs = concat (map (\<lambda>(a, x). (if freeObjs then [FreedObj x] else []) @ [FreedItem a]) ?ps)
      @ [FreedBuckets, FreedTbl]" by (rule FreeAddrTbl_concat [OF assms])
  show "distinct (FreeAddrTbl tbl freeObjs) \<longleftrightarrow> \<not> freeObjs \<or> inj_on (at_map tbl) (dom (at_map tbl))"
    unfolding FreeAddrTbl_concat [OF assms] distinct_frees [OF d] distinct_snd_iff [OF d] m by blast
qed

lemma replicate_16: "replicate 16 x = [x, x, x, x, x, x, x, x, x, x, x, x, x, x, x, x]"
  by (simp add: numeral_eq_Suc)

theorem AddrTbl_traversals_witness:
  "\<exists>u. rfold (\<lambda>(a, x) t. AddrTblInsert t a x) [(0x1000, ''a''), (0x1008, ''c''), (0x1080, ''b'')]
        \<lparr>at_ignoreBits = 3, at_size = 16, at_numItems = 0, at_mask = 15, at_buckets = replicate 16 []\<rparr> = Inr u
      \<and> AddrTblApply u (\<lambda>a x c. c @ [x]) [] = [''b'', ''a'', ''c'']
      \<and> FreeAddrTbl u True = [FreedObj ''b'', FreedItem 0x1080, FreedObj ''a'', FreedItem 0x1000,
                               FreedObj ''c'', FreedItem 0x1008, FreedBuckets, FreedTbl]
      \<and> inj_on (at_map u) (dom (at_map u))"
proof -
  let ?t = "\<lparr>at_ignoreBits = 3, at_size = 16, at_numItems = 0, at_mask = 15, at_buckets = replicate 16 []\<rparr> :: string addr_tbl"
  let ?ps = "[(0x1000, ''a''), (0x1008, ''c''), (0x1080, ''b'')] :: (addr_t \<times> string) list"
  let ?u = "\<lparr>at_ignoreBits = 3, at_size = 16, at_numItems = 3, at_mask = 15,
     at_buckets = [[(0x1080, ''b''), (0x1000, ''a'')], [(0x1008, ''c'')], [], [], [], [], [], [], [], [], [], [], [], [], [], []]\<rparr> :: string addr_tbl"
  have u: "rfold (\<lambda>(a, x) t. AddrTblInsert t a x) ?ps ?t = Inr ?u"
    unfolding replicate_16 by (simp add: AddrTblInsert_def AddrHash_def bkt_find_def bkt_ins_def Let_def)
  have "\<exists>u. rfold (\<lambda>(a, x) t. AddrTblInsert t a x) ?ps ?t = Inr u \<and> at_wf u \<and> at_map u \<subseteq>\<^sub>m map_of ?ps
      \<and> dom (at_map u) = dom (at_map ?t) \<union> fst ` set ?ps"
    by (rule at_tbl.insert_all [OF AddrTbl_example_wf]) (auto simp: at_map_def map_le_def)
  with u have wf: "at_wf ?u" by auto
  have a: "AddrTblApply ?u (\<lambda>a x c. c @ [x]) [] = [''b'', ''a'', ''c'']"
    and f: "FreeAddrTbl ?u True = [FreedObj ''b'', FreedItem 0x1080, FreedObj ''a'', FreedItem 0x1000,
                               FreedObj ''c'', FreedItem 0x1008, FreedBuckets, FreedTbl]"
    unfolding AddrTblApply_fold [OF wf] FreeAddrTbl_concat [OF wf] by simp_all
  have "distinct (FreeAddrTbl ?u True)" unfolding f by simp
  with AddrTbl_traversals [OF wf, where freeObjs = True and f = "\<lambda>a x c. c @ [x]" and clos = "[]"]
  have "inj_on (at_map ?u) (dom (at_map ?u))" by blast
  with u a f show ?thesis by blast
qed

end
