(* ===== verification/Import_Heap.thy ===== *)
theory Import_Heap
  imports Export_Heap Addr_Hash
begin

text \<open>
  Importing a heap image: \<open>gc/import-heap.c\<close> and \<open>kernel/qualify-name.c\<close>. The arenas of the
  image are read to new addresses, and every pointer is moved by the distance between the old
  and the new address of what it points to. The old address space is described by a BIBOP of its
  own, a table of offsets for each arena, and relocation information for each page of the
  big-object regions. The release of this information at the end has no effect on the state.
\<close>

section \<open>Names of images\<close>

text \<open>\<open>SUFFIX\<close> is the name of the architecture and of the system; \<open>midLen\<close> counts its terminator.\<close>

definition image_suffix :: string where "image_suffix = ''amd64-linux''"

definition QualifyImageName :: "string \<Rightarrow> bool \<times> string" where
  "QualifyImageName buf =
     (let len = length buf; midLen = length image_suffix + 1 in
      if midLen + 1 < len \<and> buf ! (len - midLen) = CHR ''.'' \<and> drop (len - (midLen - 1)) buf = image_suffix
      then (False, buf) else (True, buf @ ''.'' @ image_suffix))"

section \<open>Reading structures\<close>

definition heap_hdr_of :: "byte_t list \<Rightarrow> ml_heap_hdr" where
  "heap_hdr_of bs = \<lparr>hh_numVProcs = get_u32 0 bs, hh_numGens = get_u32 4 bs, hh_numArenas = get_u32 8 bs, hh_numBOKinds = get_u32 12 bs,
     hh_numBORegions = get_u32 16 bs, hh_cacheGen = get_u32 20 bs, hh_allocSzB = get_word 24 bs,
     hh_pervStruct = get_word 32 bs, hh_runTimeCompUnit = get_word 40 bs\<rparr>"

definition vproc_image_of :: "byte_t list \<Rightarrow> ml_vproc_image" where
  "vproc_image_of bs = \<lparr>vi_sigHandler = get_word 0 bs, vi_stdArg = get_word 8 bs, vi_stdCont = get_word 16 bs, vi_stdClos = get_word 24 bs,
     vi_pc = get_word 32 bs, vi_exnCont = get_word 40 bs, vi_varReg = get_word 48 bs,
     vi_calleeSave0 = get_word 56 bs, vi_calleeSave1 = get_word 64 bs, vi_calleeSave2 = get_word 72 bs\<rparr>"

text \<open>The union of an arena header is read according to the position of the header.\<close>

definition arena_hdr_of :: "bool \<Rightarrow> byte_t list \<Rightarrow> heap_arena_hdr" where
  "arena_hdr_of bo bs = \<lparr>ah_gen = get_u32 0 bs, ah_objKind = get_u32 4 bs, ah_offset = get_word 8 bs,
     ah_info = (if bo then Info_bo (get_u32 16 bs) (get_u32 20 bs) else Info_o (get_word 16 bs) (get_word 24 bs) (get_word 32 bs))\<rparr>"

definition region_info_of :: "byte_t list \<Rightarrow> bo_region_info" where
  "region_info_of bs = \<lparr>bi_baseAddr = get_word 0 bs, bi_sizeB = get_word 8 bs\<rparr>"

definition bigobj_hdr_of :: "byte_t list \<Rightarrow> bigobj_hdr" where
  "bigobj_hdr_of bs = \<lparr>bh_gen = get_u32 0 bs, bh_objKind = get_u32 4 bs, bh_baseAddr = get_word 8 bs, bh_sizeB = get_word 16 bs\<rparr>"

text \<open>Element \<open>i\<close> of an array of structures of \<open>n\<close> bytes.\<close>

definition elem :: "nat \<Rightarrow> nat \<Rightarrow> byte_t list \<Rightarrow> byte_t list" where
  "elem n i bs = take n (drop (n * i) bs)"

section \<open>Relocation information\<close>

record bo_reloc =
  rl_oldAddr :: addr_t
  rl_newObj :: nat

record bo_region_reloc =
  rr_firstPage :: addr_t
  rr_nPages :: nat
  rr_objMap :: "bo_reloc option list"

text \<open>
  What \<open>ReadHeap\<close> works on: the run-time system, the input, the BIBOP of the old address space,
  the table from the addresses of old regions to positions in \<open>boRelocInfo\<close>, and the offsets
  (\<open>None\<close>: not initialised).
\<close>

record imp =
  im_rt :: rt
  im_bp :: inbuf
  im_bibop :: bibop
  im_tbl :: "nat addr_tbl"
  im_relocs :: "bo_region_reloc list"
  im_offset :: "nat \<Rightarrow> nat \<Rightarrow> addr_t option"

definition im_read :: "string \<Rightarrow> nat \<Rightarrow> imp \<Rightarrow> (byte_t list \<times> imp) res" where
  "im_read msg len I =
     rbind (HeapIO_ReadBlock (rt_mem (im_rt I)) len (im_bp I)) (\<lambda>((ok, bs), bp).
     if ok then Inr (bs, I\<lparr>im_bp := bp\<rparr>) else Inl (Die msg))"

text \<open>Reading into memory.\<close>

definition im_load :: "string \<Rightarrow> addr_t \<Rightarrow> nat \<Rightarrow> imp \<Rightarrow> imp res" where
  "im_load msg a len I =
     rbind (im_read msg len I) (\<lambda>(bs, I). Inr (I\<lparr>im_rt := upd_mem (put_bytes a bs) (im_rt I)\<rparr>))"

definition on_rt :: "(rt \<Rightarrow> rt res) \<Rightarrow> imp \<Rightarrow> imp res" where
  "on_rt f I = rbind (f (im_rt I)) (\<lambda>s. Inr (I\<lparr>im_rt := s\<rparr>))"

definition on_bibop :: "(bibop \<Rightarrow> bibop res) \<Rightarrow> imp \<Rightarrow> imp res" where
  "on_bibop f I = rbind (f (im_bibop I)) (\<lambda>b. Inr (I\<lparr>im_bibop := b\<rparr>))"

section \<open>The regions of the old address space\<close>

definition import_region :: "bo_region_info \<Rightarrow> imp \<Rightarrow> imp res" where
  "import_region h I =
     rbind (on_bibop (MarkRegion (bi_baseAddr h) (RND_MEMOBJ_SZB (bi_sizeB h)) (AID_BIGOBJ MAX_NUM_GENS)) I) (\<lambda>I.
     rbind (on_bibop (BIBOP_UPDATE (BIBOP_ADDR_TO_INDEX (bi_baseAddr h)) (AID_BIGOBJ_HDR MAX_NUM_GENS)) I) (\<lambda>I.
     let firstPage = bi_baseAddr h + BIGOBJ_PAGE_SZB;
         nPages = nat (sint (ucast (drop_bit 10 (bi_sizeB h - (firstPage - bi_baseAddr h))) :: u32));
         i = length (im_relocs I)
     in rbind (AddrTblInsert (im_tbl I) (bi_baseAddr h) i) (\<lambda>tbl.
        Inr (I\<lparr>im_tbl := tbl, im_relocs := im_relocs I @ [\<lparr>rr_firstPage = firstPage, rr_nPages = nPages, rr_objMap = replicate nPages None\<rparr>]\<rparr>))))"

definition LookupBORegion :: "nat addr_tbl \<Rightarrow> nat \<Rightarrow> nat option res" where
  "LookupBORegion tbl indx = AddrTblLookup tbl (BIBOP_INDEX_TO_ADDR indx)"

section \<open>AllocBODesc\<close>

text \<open>\<open>totSzB\<close>, \<open>firstPage\<close> and \<open>npages\<close> are \<open>int\<close>s. The free area \<open>fd\<close> is given to the object whole or is split.\<close>

definition reloc_pages :: "nat \<Rightarrow> bo_reloc \<Rightarrow> bo_region_reloc \<Rightarrow> nat \<Rightarrow> bo_region_reloc res" where
  "reloc_pages npages x rr firstPage =
     (if 0 < npages \<and> length (rr_objMap rr) < firstPage + npages then Inl (Fault ''page index out of range'')
      else Inr (rr\<lparr>rr_objMap := fold (\<lambda>i xs. xs[firstPage + i := Some x]) [0..<npages] (rr_objMap rr)\<rparr>))"

definition AllocBODesc :: "nat \<Rightarrow> bigobj_hdr \<Rightarrow> nat \<Rightarrow> imp \<Rightarrow> (nat \<times> imp) res" where
  "AllocBODesc fd objHdr ri I =
     (let s = im_rt I; totSzB = sint (ucast (ROUNDUP (bh_sizeB objHdr) BIGOBJ_PAGE_SZB) :: u32); npages = nat (totSzB div 1024) in
      rbind (get_desc fd s) (\<lambda>x.
      rbind (if bd_sizeB x = of_int totSzB then Inr (fd, s)
             else
               let newObj = rt_fresh s;
                   y = \<lparr>bd_obj = bd_obj x, bd_sizeB = 0, bd_objc = 0, bd_state = 0, bd_gen = 0, bd_region = bd_region x, bd_prev = 0, bd_next = 0\<rparr>;
                   s1 = put_desc fd (x\<lparr>bd_obj := bd_obj x + of_int totSzB, bd_sizeB := bd_sizeB x - of_int totSzB\<rparr>)
                          (put_desc newObj y (s\<lparr>rt_fresh := rt_fresh s + 1\<rparr>))
               in rbind (get_region (bd_region x) s1) (\<lambda>r.
                  rbind (set_pages (bd_region x) (ADDR_TO_BOPAGE r (bd_obj x)) (ADDR_TO_BOPAGE r (bd_obj x) + npages) newObj s1) (\<lambda>s2.
                  Inr (newObj, s2)))) (\<lambda>(newObj, s).
      rbind (upd_desc newObj (\<lambda>y. y\<lparr>bd_sizeB := bh_sizeB objHdr, bd_state := BO_YOUNG, bd_gen := unat (bh_gen objHdr), bd_objc := unat (bh_objKind objHdr)\<rparr>) s) (\<lambda>s.
      rbind (upd_region (bd_region x) (\<lambda>r. r\<lparr>br_nFree := br_nFree r - int npages\<rparr>) s) (\<lambda>s.
      let rr = im_relocs I ! ri; firstPage = unat (drop_bit 10 (bh_baseAddr objHdr - rr_firstPage rr)) in
      rbind (reloc_pages npages \<lparr>rl_oldAddr = bh_baseAddr objHdr, rl_newObj = newObj\<rparr> rr firstPage) (\<lambda>rr.
      Inr (newObj, I\<lparr>im_rt := s, im_relocs := (im_relocs I)[ri := rr]\<rparr>)))))))"

section \<open>Reading a generation\<close>

text \<open>The space for arena \<open>j\<close> of generation \<open>i\<close>, and the pages that it had in the old address space.\<close>

definition import_arena_size :: "nat \<Rightarrow> heap_arena_hdr list \<Rightarrow> nat \<Rightarrow> (nat \<Rightarrow> addr_t) \<times> imp \<Rightarrow> ((nat \<Rightarrow> addr_t) \<times> imp) res" where
  "import_arena_size i arenaHdrs j = (\<lambda>(prevSzB, I).
     let q = ah_info (arenaHdrs ! (6 * i + j)); sz0 = io_sizeB q + prevSzB j;
         sz = (if j = PAIR_INDX \<and> 0 < sz0 then sz0 + 16 else sz0)
     in rbind (on_bibop (MarkRegion (io_baseAddr q) (RND_MEMOBJ_SZB (io_sizeB q)) (a_id (get_arena i j (im_rt I)))) I) (\<lambda>I.
        Inr (prevSzB(j := io_sizeB q), I\<lparr>im_rt := upd_arena i j (\<lambda>ap. ap\<lparr>a_tospSizeB := RND_MEMOBJ_SZB sz\<rparr>) (im_rt I)\<rparr>)))"

definition import_arena :: "nat \<Rightarrow> heap_arena_hdr list \<Rightarrow> nat \<Rightarrow> imp \<Rightarrow> imp res" where
  "import_arena i arenaHdrs j I =
     (let h = arenaHdrs ! (6 * i + j); p = ah_info h; ap = get_arena i j (im_rt I) in
      if 0 < io_sizeB p then
        (let I1 = I\<lparr>im_offset := (im_offset I)(i := (im_offset I i)(j := Some (a_tospBase ap - io_baseAddr p)))\<rparr>;
             (ok, bp) = HeapIO_Seek (sint (ah_offset h)) (im_bp I1)
         in if \<not> ok then Inl (Die ''failure to seek on heap image'')
            else rbind (im_load ''failure to read heap data'' (a_tospBase ap) (unat (io_sizeB p)) (I1\<lparr>im_bp := bp\<rparr>)) (\<lambda>I.
              Inr (I\<lparr>im_rt := upd_arena i j (\<lambda>ap. ap\<lparr>a_nextw := a_tospBase ap + io_sizeB p, a_oldTop := a_tospBase ap\<rparr>) (im_rt I)\<rparr>)))
      else if isACTIVE ap then Inr (I\<lparr>im_rt := upd_arena i j (\<lambda>ap. ap\<lparr>a_oldTop := a_tospBase ap\<rparr>) (im_rt I)\<rparr>)
      else Inr I)"

text \<open>One big object: the region that it was in is found in the old address space.\<close>

definition import_bigobj :: "nat \<Rightarrow> nat \<Rightarrow> bigobj_hdr \<Rightarrow> nat \<times> imp \<Rightarrow> (nat \<times> imp) res" where
  "import_bigobj i fd h = (\<lambda>(_, I).
     rbind (find_hdr (INDEX_TO_PAGEID (im_bibop I)) (BIBOP_ADDR_TO_INDEX (bh_baseAddr h))) (\<lambda>indx.
     rbind (LookupBORegion (im_tbl I) indx) (\<lambda>ri.
     case ri of
       None \<Rightarrow> Inl (Fault ''null pointer'')
     | Some ri \<Rightarrow>
         rbind (AllocBODesc fd h ri I) (\<lambda>(bdp, I).
         rbind (on_rt (upd_desc bdp (\<lambda>d. d\<lparr>bd_next := g_bigObjs (get_gen i (im_rt I))\<rparr>)) I) (\<lambda>I.
         Inr (bdp, I\<lparr>im_rt := upd_gen i (\<lambda>gn. gn\<lparr>g_bigObjs := bdp\<rparr>) (im_rt I)\<rparr>))))))"

text \<open>\<open>numBOPages << BIGOBJ_PAGE_SHIFT\<close> is computed in 32 bits, the size of the headers is an \<open>int\<close>.\<close>

definition import_bigobjs :: "(mem_sys \<Rightarrow> addr_t \<Rightarrow> addr_t option) \<Rightarrow> nat \<Rightarrow> heap_arena_hdr list \<Rightarrow> imp \<Rightarrow> imp res" where
  "import_bigobjs mmap i arenaHdrs I =
     (let p = ah_info (arenaHdrs ! (6 * i + 5)) in
      if 0 < ib_numBOPages p then
        let totSizeB = ucast (push_bit 10 (ib_numBOPages p)) :: addr_t in
        rbind (BO_AllocRegion mmap totSizeB (im_rt I)) (\<lambda>(freeObj, s).
        rbind (get_desc freeObj s) (\<lambda>x.
        rbind (upd_region (bd_region x) (\<lambda>r. r\<lparr>br_minGen := i + 1\<rparr>) s) (\<lambda>s.
        rbind (get_region (bd_region x) s) (\<lambda>r.
        rbind (put_bibop (MarkRegion (mo_base (br_memObj r)) (mo_sizeB (br_memObj r)) (AID_BIGOBJ (i + 1))) s) (\<lambda>s.
        rbind (put_bibop (BIBOP_UPDATE (BIBOP_ADDR_TO_INDEX (mo_base (br_memObj r))) (AID_BIGOBJ_HDR (i + 1))) s) (\<lambda>s.
        rbind (im_read ''failure to read big-object headers'' (24 * unat (ib_numBigObjs p)) (I\<lparr>im_rt := s\<rparr>)) (\<lambda>(boHdrs, I).
        rbind (im_load ''failure to read big-object data'' (bd_obj x) (unat totSizeB) I) (\<lambda>I.
        rbind (rfold (\<lambda>k. import_bigobj i freeObj (bigobj_hdr_of (elem 24 k boHdrs))) [0..<unat (ib_numBigObjs p)] (freeObj, I)) (\<lambda>(bdp, I).
        if freeObj \<noteq> bdp then on_rt (AddBODesc (h_freeBigObjs (rt_heap (im_rt I))) freeObj) I else Inr I)))))))))
      else Inr I)"

definition import_gen :: "(mem_sys \<Rightarrow> addr_t \<Rightarrow> addr_t option) \<Rightarrow> heap_arena_hdr list \<Rightarrow> nat \<Rightarrow> (nat \<Rightarrow> addr_t) \<times> imp \<Rightarrow> ((nat \<Rightarrow> addr_t) \<times> imp) res" where
  "import_gen mmap arenaHdrs i x =
     rbind (rfold (import_arena_size i arenaHdrs) [0..<NUM_ARENAS] x) (\<lambda>(prevSzB, I).
     rbind (NewGeneration mmap i (im_rt I)) (\<lambda>(ok, s).
     if \<not> ok then Inl (Die ''unable to allocated space for generation'')
     else
       let I = I\<lparr>im_rt := (if isACTIVE (get_arena i ARRAY_INDX s) then NewDirtyVector i s else s)\<rparr> in
       rbind (rfold (import_arena i arenaHdrs) [0..<NUM_ARENAS] I) (\<lambda>I.
       rbind (import_bigobjs mmap i arenaHdrs I) (\<lambda>I. Inr (prevSzB, I)))))"

section \<open>Repairing the heap\<close>

definition find_hdr_from :: "(nat \<Rightarrow> aid_t res) \<Rightarrow> aid_t \<Rightarrow> nat \<Rightarrow> nat res" where
  "find_hdr_from look aid indx =
     (if BO_IS_HDR aid then Inr indx
      else case indx of 0 \<Rightarrow> Inl (Fault ''BIBOP index out of range'') | Suc k \<Rightarrow> find_hdr look k)"

definition AddrToRelocInfo :: "imp \<Rightarrow> aid_t \<Rightarrow> addr_t \<Rightarrow> bo_reloc res" where
  "AddrToRelocInfo I aid oldObj =
     rbind (find_hdr_from (INDEX_TO_PAGEID (im_bibop I)) aid (BIBOP_ADDR_TO_INDEX oldObj)) (\<lambda>indx.
     rbind (LookupBORegion (im_tbl I) indx) (\<lambda>ri.
     case ri of
       None \<Rightarrow> Inl (Die ''unable to map big-object'')
     | Some ri \<Rightarrow>
         let rr = im_relocs I ! ri; k = unat (drop_bit 10 (oldObj - rr_firstPage rr)) in
         if length (rr_objMap rr) \<le> k then Inl (Fault ''page index out of range'')
         else case rr_objMap rr ! k of None \<Rightarrow> Inl (Fault ''null pointer'') | Some x \<Rightarrow> Inr x))"

text \<open>A pointer in the new address space, with the position of the generation it points to.\<close>

definition repair_ptr :: "imp \<Rightarrow> addr_t \<Rightarrow> (addr_t \<times> int) res" where
  "repair_ptr I obj =
     rbind (ADDR_TO_PAGEID (im_bibop I) obj) (\<lambda>aid.
     if IS_BIGOBJ_AID aid then
       rbind (AddrToRelocInfo I aid obj) (\<lambda>dp.
       rbind (get_desc (rl_newObj dp) (im_rt I)) (\<lambda>d. Inr ((obj - rl_oldAddr dp) + bd_obj d, int (bd_gen d) - 1)))
     else if EXTRACT_GEN aid = 0 \<or> EXTRACT_OBJC aid = 0 \<or> MAX_NUM_GENS < EXTRACT_GEN aid \<or> NUM_ARENAS < EXTRACT_OBJC aid
     then Inl (Fault ''offset table index'')
     else case im_offset I (EXTRACT_GEN aid - 1) (EXTRACT_OBJC aid - 1) of
         None \<Rightarrow> Inl (Fault ''uninitialised offset'')
       | Some d \<Rightarrow> Inr (obj + d, int (EXTRACT_GEN aid) - 1))"

definition extern_at :: "word_t list \<Rightarrow> word_t \<Rightarrow> word_t res" where
  "extern_at externs w =
     (if length externs \<le> unat (GET_LEN w) then Inl (Fault ''extern index'') else Inr (externs ! unat (GET_LEN w)))"

definition RepairWord :: "imp \<Rightarrow> word_t list \<Rightarrow> word_t \<Rightarrow> word_t res" where
  "RepairWord I externs w =
     (if isBOXED w then rbind (repair_ptr I w) (\<lambda>(v, _). Inr v)
      else if isEXTERNTAG w then extern_at externs w
      else Inr w)"

text \<open>A word of an arena; in an array a pointer to a younger generation marks its card.\<close>

definition mark_array_card :: "nat \<Rightarrow> nat \<Rightarrow> addr_t \<Rightarrow> int \<Rightarrow> rt \<Rightarrow> rt res" where
  "mark_array_card i indx p gg s =
     (if indx = ARRAY_INDX \<and> gg < int i then
        (case g_dirty (get_gen i s) of
           None \<Rightarrow> Inl (Fault ''no card map'')
         | Some cm \<Rightarrow> rbind (MARK_CARD cm p (nat (gg + 1))) (\<lambda>cm. Inr (upd_gen i (\<lambda>gn. gn\<lparr>g_dirty := Some cm\<rparr>) s)))
      else Inr s)"

definition repair_arena_word :: "word_t list \<Rightarrow> nat \<Rightarrow> nat \<Rightarrow> addr_t \<Rightarrow> imp \<Rightarrow> imp res" where
  "repair_arena_word externs i indx p I =
     (let w = rt_mem (im_rt I) p; put = (\<lambda>v I. I\<lparr>im_rt := upd_mem (\<lambda>m. m(p := v)) (im_rt I)\<rparr>) in
      if isBOXED w then
        rbind (repair_ptr I w) (\<lambda>(v, gg). on_rt (mark_array_card i indx p gg) (put v I))
      else if isEXTERNTAG w then rbind (extern_at externs w) (\<lambda>v. Inr (put v I))
      else Inr I)"

definition repair_mixed_word :: "word_t list \<Rightarrow> addr_t \<Rightarrow> imp \<Rightarrow> imp res" where
  "repair_mixed_word externs p I =
     (let w = rt_mem (im_rt I) p; put = (\<lambda>v I. I\<lparr>im_rt := upd_mem (\<lambda>m. m(p := v)) (im_rt I)\<rparr>) in
      if isBOXED w then rbind (repair_ptr I w) (\<lambda>(v, _). Inr (put v I))
      else if isEXTERNTAG w then rbind (extern_at externs w) (\<lambda>v. Inr (put v I))
      else Inr I)"

definition import_repair_arena :: "word_t list \<Rightarrow> nat \<Rightarrow> nat \<Rightarrow> imp \<Rightarrow> imp res" where
  "import_repair_arena externs i indx I =
     rfold (repair_arena_word externs i indx) (arena_words (get_arena i indx (im_rt I))) I"

definition import_repair_mixed :: "word_t list \<Rightarrow> nat \<Rightarrow> imp \<Rightarrow> imp res" where
  "import_repair_mixed externs i I =
     (let ap = get_arena i MIXED_INDX (im_rt I) in
      mixed_loop (\<lambda>I. rt_mem (im_rt I)) (repair_mixed_word externs) (a_tospBase ap) (a_nextw ap) I)"

definition import_repair_gen :: "word_t list \<Rightarrow> nat \<Rightarrow> imp \<Rightarrow> imp res" where
  "import_repair_gen externs i I =
     rbind (import_repair_arena externs i RECORD_INDX I) (\<lambda>I.
     rbind (import_repair_arena externs i PAIR_INDX I) (\<lambda>I.
     rbind (import_repair_arena externs i ARRAY_INDX I) (import_repair_mixed externs i)))"

definition ImportRepairHeap :: "word_t list \<Rightarrow> imp \<Rightarrow> imp res" where
  "ImportRepairHeap externs I = rfold (import_repair_gen externs) [0..<h_numGens (rt_heap (im_rt I))] I"

section \<open>ReadHeap\<close>

definition repair_root :: "word_t list \<Rightarrow> addr_t \<Rightarrow> imp \<Rightarrow> imp res" where
  "repair_root externs a I =
     rbind (RepairWord I externs (rt_mem (im_rt I) a)) (\<lambda>v. Inr (I\<lparr>im_rt := upd_mem (\<lambda>m. m(a := v)) (im_rt I)\<rparr>))"

definition import_roots :: "globals \<Rightarrow> addr_t list" where
  "import_roots G = [G_PervStruct G, G_RunTimeCompUnit G, G_MLSignalHandler G, ml_arg (G_msp G), ml_cont (G_msp G), ml_closure (G_msp G),
     ml_pc (G_msp G), ml_linkReg (G_msp G), ml_exnCont (G_msp G), ml_varReg (G_msp G),
     ml_calleeSave0 (G_msp G), ml_calleeSave1 (G_msp G), ml_calleeSave2 (G_msp G)]"

definition reset_sweep :: "rt \<Rightarrow> rt" where
  "reset_sweep s = fold (\<lambda>i. fold (\<lambda>j s. if isACTIVE (get_arena i j s) then upd_arena i j (\<lambda>ap. ap\<lparr>a_sweep_nextw := a_nextw ap\<rparr>) s else s)
     [0..<NUM_ARENAS]) [0..<h_numGens (rt_heap s)] s"

definition read_regions :: "nat \<Rightarrow> nat \<Rightarrow> rt \<Rightarrow> inbuf \<Rightarrow> imp res" where
  "read_regions fuel n s bp =
     rbind (MakeAddrTbl fuel 19 (sint (of_nat n :: u32))) (\<lambda>tbl.
     rbind (im_read ''failure to read big-object region info'' (16 * n)
        \<lparr>im_rt = s, im_bp = bp, im_bibop = InitBibop, im_tbl = tbl, im_relocs = [], im_offset = (\<lambda>_ _. None)\<rparr>) (\<lambda>(boRgnHdr, I).
     rfold (\<lambda>i. import_region (region_info_of (elem 16 i boRgnHdr))) [0..<n] I))"

definition ReadHeap :: "env \<Rightarrow> globals \<Rightarrow> ml_heap_hdr \<Rightarrow> word_t list \<Rightarrow> inbuf \<Rightarrow> rt \<Rightarrow> (inbuf \<times> rt) res" where
  "ReadHeap E G hdr externs bp s =
     rbind (read_regions (env_fuel E) (unat (hh_numBORegions hdr)) s bp) (\<lambda>I.
     rbind (im_read ''failure to read arena info'' (unat (hh_numGens hdr) * 240) I) (\<lambda>(bs, I).
     if MAX_NUM_GENS < unat (hh_numGens hdr) then Inl (Fault ''generation index'')
     else
       let arenaHdrs = map (\<lambda>k. arena_hdr_of (k mod 6 = 5) (elem 40 k bs)) [0..<unat (hh_numGens hdr) * 6] in
       rbind (rfold (import_gen (env_mmap E) arenaHdrs) [0..<unat (hh_numGens hdr)] (\<lambda>_. h_allocSzB (rt_heap (im_rt I)), I)) (\<lambda>(_, I).
       rbind (ImportRepairHeap externs I) (\<lambda>I.
       rbind (rfold (repair_root externs) (import_roots G) I) (\<lambda>I.
       Inr (im_bp I, reset_sweep (im_rt I)))))))"

section \<open>ImportHeapImage\<close>

text \<open>
  The input: a file of the given name, or of the name with the extension (\<open>fopen\<close> is the file
  system), or the image in the memory of a stand-alone program (its address and length).
\<close>

definition open_image :: "(string \<Rightarrow> FILE_t option) \<Rightarrow> addr_t \<times> addr_t \<Rightarrow> string option \<Rightarrow> inbuf res" where
  "open_image fopen mimage fname =
     (let inb = (\<lambda>f. \<lparr>ib_needsSwap = False, ib_file = Some f, ib_base = 0, ib_buf = 0, ib_nbytes = 0\<rparr>) in
      case fname of
        Some name \<Rightarrow>
          (case fopen name of
             Some f \<Rightarrow> Inr (inb f)
           | None \<Rightarrow>
               if 1024 < length name + 1 then Inl (Fault ''buffer overflow'')
               else let (q, buf) = QualifyImageName name in
                 if 1024 < length buf + 1 then Inl (Fault ''buffer overflow'')
                 else case (if q then fopen buf else None) of Some f \<Rightarrow> Inr (inb f) | None \<Rightarrow> Inl (Die ''unable to open heap image''))
      | None \<Rightarrow>
          if snd mimage = 0 then Inl (Die ''missing in-memory heap image'')
          else Inr \<lparr>ib_needsSwap = False, ib_file = None, ib_base = fst mimage, ib_buf = fst mimage, ib_nbytes = snd mimage\<rparr>)"

text \<open>
  The parameters of the command line and of the image. The number of generations, an \<open>int\<close>, is
  compared with an unsigned number: the value -1 of an option that is not given is then the
  largest number, so it is not replaced.
\<close>

definition image_params :: "ml_heap_hdr \<Rightarrow> heap_params \<Rightarrow> heap_params" where
  "image_params h p = p\<lparr>hp_allocSz := (if hp_allocSz p = 0 then uint (hh_allocSzB h) else hp_allocSz p),
     hp_numGens := (if (of_int (hp_numGens p) :: u32) < hh_numGens h then sint (hh_numGens h) else hp_numGens p),
     hp_cacheGen := (if hp_cacheGen p < 0 then sint (hh_cacheGen h) else hp_cacheGen p)\<rparr>"

definition read_hdr :: "string \<Rightarrow> nat \<Rightarrow> inbuf \<Rightarrow> (byte_t list \<times> inbuf) vmop" where
  "read_hdr msg len bp = (\<lambda>s.
     rbind (HeapIO_ReadBlock (rt_mem (vm_rt s)) len bp) (\<lambda>((ok, bs), bp).
     if ok then Inr ((bs, bp), s) else Inl (Die msg)))"

text \<open>Setting up the call of an exported function on the name and the arguments of the command.\<close>

definition start_function :: "env \<Rightarrow> globals \<Rightarrow> byte_t list \<Rightarrow> byte_t list list \<Rightarrow> unit vmop" where
  "start_function E G cmdname args =
     vbind (ld (ml_arg (G_msp G))) (\<lambda>funct.
     vthen (st (ml_exnCont (G_msp G)) (G_handle G))
    (vthen (st (ml_varReg (G_msp G)) ML_unit)
    (vthen (st (ml_cont (G_msp G)) (G_return_c G))
    (vthen (st (ml_closure (G_msp G)) funct)
    (vbind (REC_SEL funct 0) (\<lambda>code.
     vthen (st (ml_linkReg (G_msp G)) code)
    (vthen (st (ml_pc (G_msp G)) code)
    (vbind (ML_CString E G (Some cmdname)) (\<lambda>cmdName.
     vbind (ML_CStringList E G args) (\<lambda>as.
     vbind (lift_rt (\<lambda>r. Inr (ML_Alloc2 cmdName as r))) (st (ml_arg (G_msp G)))))))))))))"

definition ImportHeapImage ::
  "env \<Rightarrow> globals \<Rightarrow> registry \<Rightarrow> u32 \<Rightarrow> (nat \<Rightarrow> nat \<Rightarrow> arena) \<Rightarrow> gc_timers \<Rightarrow> (string \<Rightarrow> FILE_t option) \<Rightarrow> addr_t \<times> addr_t
    \<Rightarrow> byte_t list \<Rightarrow> byte_t list list \<Rightarrow> string option \<Rightarrow> heap_params \<Rightarrow> unit vmop" where
  "ImportHeapImage E G r pageSize junk junkT fopen mimage cmdname args fname params = (\<lambda>s.
     rbind (open_image fopen mimage fname) (\<lambda>bp.
     vbind (read_hdr ''failure reading image header'' 36 bp) (\<lambda>(bs, bp).
     let imHdr = image_hdr_of bs in
     if ih_byteOrder imHdr \<noteq> ORDER then vfail (Die ''incorrect byte order in heap image'')
     else if ih_magic imHdr \<noteq> IMAGE_MAGIC then vfail (Die ''bad magic number in heap image'')
     else if ih_kind imHdr \<noteq> EXPORT_HEAP_IMAGE \<and> ih_kind imHdr \<noteq> EXPORT_FN_IMAGE then vfail (Die ''bad image kind in heap image'')
     else
       vbind (read_hdr ''failure reading heap header'' 48 bp) (\<lambda>(bs, bp).
       let heapHdr = heap_hdr_of bs in
       vthen (AllocMLState E G pageSize junk junkT False (image_params heapHdr params))
      (vthen (st (G_PervStruct G) (hh_pervStruct heapHdr))
      (vthen (st (G_RunTimeCompUnit G) (hh_runTimeCompUnit heapHdr))
      (vbind (\<lambda>s. rbind (HeapIO_ReadExterns r (rt_mem (vm_rt s)) bp) (\<lambda>x. Inr (x, s))) (\<lambda>(externs, bp).
       vbind (read_hdr ''failure reading vproc header'' 80 bp) (\<lambda>(bs, bp).
       let image = vproc_image_of bs in
       vthen (ASSIGN (G_MLSignalHandler G) (vi_sigHandler image))
      (vthen (st (ml_arg (G_msp G)) (vi_stdArg image))
      (if ih_kind imHdr = EXPORT_HEAP_IMAGE then
         vthen (vmap (\<lambda>(a, w). st a w) [(ml_cont (G_msp G), vi_stdCont image), (ml_closure (G_msp G), vi_stdClos image),
           (ml_pc (G_msp G), vi_pc image), (ml_exnCont (G_msp G), vi_exnCont image), (ml_varReg (G_msp G), vi_varReg image),
           (ml_calleeSave0 (G_msp G), vi_calleeSave0 image), (ml_calleeSave1 (G_msp G), vi_calleeSave1 image), (ml_calleeSave2 (G_msp G), vi_calleeSave2 image)])
        (do_rt (\<lambda>r. rbind (ReadHeap E G heapHdr externs bp r) (\<lambda>(_, r). Inr r)))
       else
         vthen (do_rt (\<lambda>r. rbind (ReadHeap E G heapHdr externs bp r) (\<lambda>(_, r). Inr r)))
        (start_function E G cmdname args)))))))))) s))"

end
