(* ===== verification/Import_Checks.thy ===== *)
theory Import_Checks
  imports Import_Heap
begin

text \<open>
  What is decided before a heap image is read: the name of the file, the rejection of input that
  is not an image of this machine, and the parameters of the heap.
\<close>

lemma QualifyImageName_eq:
  "QualifyImageName name = (if 13 < length name \<and> name ! (length name - 12) = CHR ''.'' \<and> drop (length name - 11) name = ''amd64-linux''
     then (False, name) else (True, name @ ''.amd64-linux''))"
proof -
  have "length image_suffix = 11" by (simp add: image_suffix_def)
  then show ?thesis by (simp add: QualifyImageName_def Let_def) (simp add: image_suffix_def)
qed

lemma QualifyImageName_cases:
  "QualifyImageName name = (False, name) \<and> 13 < length name \<and> (\<exists>base. name = base @ ''.amd64-linux'')
   \<or> QualifyImageName name = (True, name @ ''.amd64-linux'')"
proof (cases "13 < length name \<and> name ! (length name - 12) = CHR ''.'' \<and> drop (length name - 11) name = ''amd64-linux''")
  case True
  have "name = take (length name - 12) name @ name ! (length name - 12) # drop (Suc (length name - 12)) name"
    by (rule id_take_nth_drop) (use True in linarith)
  moreover have "Suc (length name - 12) = length name - 11" using True by linarith
  ultimately have "name = take (length name - 12) name @ ''.amd64-linux''" using True by simp
  then show ?thesis using True unfolding QualifyImageName_eq by auto
next
  case False
  then show ?thesis unfolding QualifyImageName_eq by auto
qed

text \<open>\<open>QualifyImageName\<close> leaves a name alone that has the extension of the machine and the system
  after at least two characters, and appends the extension to every other name; so a name of less
  than two characters gets it a second time.\<close>

lemma QualifyImageName_once:
  "QualifyImageName name =
     (if \<exists>base. 2 \<le> length base \<and> name = base @ ''.amd64-linux'' then (False, name)
      else (True, name @ ''.amd64-linux''))"
  "QualifyImageName (snd (QualifyImageName name)) =
     (if length name < 2 then (True, name @ ''.amd64-linux.amd64-linux'') else (False, snd (QualifyImageName name)))"
proof -
  show eq: "QualifyImageName name =
     (if \<exists>base. 2 \<le> length base \<and> name = base @ ''.amd64-linux'' then (False, name)
      else (True, name @ ''.amd64-linux''))" for name
    using QualifyImageName_cases [of name] by (auto simp: QualifyImageName_eq nth_append)
  show "QualifyImageName (snd (QualifyImageName name)) =
     (if length name < 2 then (True, name @ ''.amd64-linux.amd64-linux'') else (False, snd (QualifyImageName name)))"
    using QualifyImageName_cases [of name]
  proof (elim disjE conjE)
    assume "QualifyImageName name = (True, name @ ''.amd64-linux'')"
    moreover have "QualifyImageName (name @ ''.amd64-linux'')
        = (if length name < 2 then (True, name @ ''.amd64-linux.amd64-linux'') else (False, name @ ''.amd64-linux''))"
      by (simp add: QualifyImageName_eq nth_append)
    ultimately show ?thesis by simp
  qed auto
qed

text \<open>C39. What is not an image is refused: when the input has fewer bytes than an image header, or
  its header has the byte order of another machine, another version or the kind of a blasted
  object, the import dies, whatever the state of the run-time system.\<close>

theorem ImportHeapImage_refuses:
  assumes bp: "open_image fopen mimage fname = Inr bp"
    and bad: "length (remaining (rt_mem (vm_rt s)) bp) < 36 \<or> ih_byteOrder h \<noteq> ORDER \<or> ih_magic h \<noteq> IMAGE_MAGIC
       \<or> ih_kind h \<notin> {EXPORT_HEAP_IMAGE, EXPORT_FN_IMAGE}"
    and h: "h = image_hdr_of (take 36 (remaining (rt_mem (vm_rt s)) bp))"
  shows "\<exists>msg. ImportHeapImage E G r pageSize junk junkT fopen mimage cmdname args fname params s = Inl (Die msg)"
proof -
  have sw: "\<not> ib_needsSwap bp" using bp by (auto simp: open_image_def Let_def split: option.splits if_splits prod.splits)
  show ?thesis
  proof (cases "length (remaining (rt_mem (vm_rt s)) bp) < 36")
    case True
    from HeapIO_ReadBlock_short [OF True sw] show ?thesis
      by (auto simp: ImportHeapImage_def bp vbind_def read_hdr_def)
  next
    case False
    then obtain bp' where "HeapIO_ReadBlock (rt_mem (vm_rt s)) 36 bp = Inr ((True, take 36 (remaining (rt_mem (vm_rt s)) bp)), bp')"
      using HeapIO_ReadBlock_ok [of 36 "rt_mem (vm_rt s)" bp] sw by auto
    then show ?thesis using bad False
      by (auto simp: ImportHeapImage_def bp vbind_def read_hdr_def vfail_def h [symmetric] Let_def)
  qed
qed

theorem ImportHeapImage_refuses_witness:
  "\<forall>E G r junk junkT params s. \<exists>msg. ImportHeapImage E G r 4096 junk junkT (\<lambda>_. Some \<lparr>f_data = cbytes ''#!/bin/sh'', f_pos = 0, f_cap = 10\<rparr>) (0, 0) [] []
     (Some ''sml'') params s = Inl (Die msg)"
  by (intro allI, rule ImportHeapImage_refuses [of _ _ _ "\<lparr>ib_needsSwap = False, ib_file = Some \<lparr>f_data = cbytes ''#!/bin/sh'', f_pos = 0, f_cap = 10\<rparr>, ib_base = 0, ib_buf = 0, ib_nbytes = 0\<rparr>", OF _ _ refl])
    (simp_all add: open_image_def remaining_def bytes_at_def cbytes_def)

text \<open>C40. The number of generations of the new heap: a number given on the command line is raised
  to that of the image; but when none is given, the heap has the default of five generations
  whatever the image has, because the missing value -1 is compared as an unsigned number.\<close>

theorem image_params_numGens:
  assumes "hh_numGens h < 2 ^ 31" "- 1 \<le> hp_numGens p" "hp_numGens p < 2 ^ 31"
  shows "hp_numGens (init_params (image_params h p)) = (if hp_numGens p = - 1 then 5 else max (hp_numGens p) (uint (hh_numGens h)))"
proof (cases "hp_numGens p = - 1")
  case True
  moreover have "\<not> (- 1 :: u32) < hh_numGens h" by (rule word_order.extremum_strict)
  ultimately show ?thesis by (simp add: image_params_def init_params_def)
next
  case False
  then have n: "0 \<le> hp_numGens p" using assms(2) by linarith
  have u: "uint (of_int (hp_numGens p) :: u32) = hp_numGens p" using n assms(3) by (simp add: take_bit_int_eq_self uint_word_of_int)
  have s: "sint (hh_numGens h) = uint (hh_numGens h)"
  proof -
    have "- (2 ^ 31) \<le> uint (hh_numGens h)" by (rule order_trans [OF _ uint_ge_0]) simp
    then show ?thesis using assms(1) signed_take_bit_int_eq_self [of 31 "uint (hh_numGens h)"] by (simp add: sint_uint word_less_def)
  qed
  show ?thesis using n False unfolding image_params_def init_params_def by (simp add: word_less_def u s max_def)
qed

theorem image_params_numGens_witness:
  "\<exists>h. uint (hh_numGens h) = 7
     \<and> hp_numGens (init_params (image_params h \<lparr>hp_allocSz = 0, hp_numGens = - 1, hp_cacheGen = - 1\<rparr>)) = 5
     \<and> hp_numGens (init_params (image_params h \<lparr>hp_allocSz = 0, hp_numGens = 6, hp_cacheGen = - 1\<rparr>)) = 7"
proof -
  let ?h = "\<lparr>hh_numVProcs = 1, hh_numGens = 7, hh_numArenas = 5, hh_numBOKinds = 1, hh_numBORegions = 0, hh_cacheGen = 2,
    hh_allocSzB = 0, hh_pervStruct = 1, hh_runTimeCompUnit = 1\<rparr>"
  show ?thesis
    using image_params_numGens [of ?h "\<lparr>hp_allocSz = 0, hp_numGens = - 1, hp_cacheGen = - 1\<rparr>"]
      image_params_numGens [of ?h "\<lparr>hp_allocSz = 0, hp_numGens = 6, hp_cacheGen = - 1\<rparr>"]
    by (intro exI [of _ ?h]) simp
qed

end
