(* ===== verification/Gen_Space.thy ===== *)
theory Gen_Space
  imports Flip
begin

text \<open>
  The space of a generation: \<open>NewGeneration\<close> divides a memory object among the arenas, and
  \<open>Flip\<close> makes it large enough for what a major collection may copy.
\<close>

section \<open>Pages\<close>

definition pg :: "addr_t \<Rightarrow> nat" where "pg a = unat a div 2 ^ 18"

lemma pg_index: "BIBOP_ADDR_TO_INDEX a = pg a"
  by (simp add: BIBOP_ADDR_TO_INDEX_def pg_def drop_bit_eq_div unat_div)

definition paged :: "addr_t \<Rightarrow> bool" where "paged a \<longleftrightarrow> unat a mod 2 ^ 18 = 0"

lemma paged_unat: "paged a \<Longrightarrow> unat a = pg a * 2 ^ 18"
  by (simp add: paged_def pg_def) (metis mod_0 mult.commute mult_div_mod_eq add.right_neutral)

lemma unat_add_less: "unat a + unat b < 2 ^ 64 \<Longrightarrow> unat (a + b :: addr_t) = unat a + unat b"
  by (simp add: unat_word_ariths(1))

lemma paged_add: "paged a \<Longrightarrow> paged b \<Longrightarrow> unat a + unat b < 2 ^ 64 \<Longrightarrow> paged (a + b) \<and> pg (a + b) = pg a + pg b"
proof -
  assume a: "paged a" "paged b" "unat a + unat b < 2 ^ 64"
  have "unat (a + b) = (pg a + pg b) * 2 ^ 18" using paged_unat [OF a(1)] paged_unat [OF a(2)] unat_add_less [OF a(3)] by (simp add: add_mult_distrib)
  then show ?thesis by (simp add: paged_def pg_def [of "a + b"])
qed

lemma pg_less: "unat a < 2 ^ 48 \<Longrightarrow> pg a < 2 ^ 30"
  by (simp add: pg_def)

text \<open>The pages of a region.\<close>

definition region_pages :: "addr_t \<Rightarrow> addr_t \<Rightarrow> nat set" where "region_pages a n = {pg a..<pg a + pg n}"

lemma MarkRegion_region:
  assumes "bibop_wf b" "unat base + unat sz < 2 ^ 48"
  shows "\<exists>b'. MarkRegion base sz aid b = Inr b' \<and> bibop_wf b' \<and> page_map b' = (\<lambda>p. if p \<in> region_pages base sz then aid else page_map b p)"
proof -
  have "pg base + pg sz \<le> (unat base + unat sz) div 2 ^ 18" by (simp add: pg_def)
  also have "\<dots> < 2 ^ 30" using assms(2) by simp
  finally show ?thesis using MarkRegion_pages [OF assms(1), of base sz aid] by (simp add: pg_index region_pages_def)
qed

lemma range_pages:
  assumes "paged a" "paged n" "x \<in> addr_range a n"
  shows "pg x \<in> region_pages a n"
proof -
  have "pg a * 2 ^ 18 \<le> unat x" "unat x < (pg a + pg n) * 2 ^ 18" using assms paged_unat by (auto simp: addr_range_def algebra_simps)
  then show ?thesis by (simp add: region_pages_def pg_def [of x] less_eq_div_iff_mult_less_eq div_less_iff_less_mult)
qed

section \<open>NewGeneration\<close>

definition laid :: "addr_t \<Rightarrow> arena \<Rightarrow> arena" where
  "laid p a = (if isACTIVE a then a\<lparr>a_tospBase := p, a_nextw := p, a_sweep_nextw := p, a_tospTop := p + a_tospSizeB a\<rparr>
     else a\<lparr>a_tospBase := 0, a_frspBase := 0, a_nextw := 0, a_sweep_nextw := 0, a_tospTop := 0\<rparr>)"

text \<open>The place of arena \<open>j\<close> in the memory object.\<close>

definition place :: "addr_t \<Rightarrow> arena list \<Rightarrow> nat \<Rightarrow> addr_t" where
  "place p as j = p + sum_list (map a_tospSizeB (take j as))"

lemma place_0 [simp]: "place p as 0 = p" by (simp add: place_def)

lemma place_Suc: "j < length as \<Longrightarrow> place p as (Suc j) = place p as j + a_tospSizeB (as ! j)"
  by (simp add: place_def take_Suc_conv_app_nth)

definition arena_total :: "arena list \<Rightarrow> nat" where "arena_total as = sum_list (map (\<lambda>a. unat (a_tospSizeB a)) as)"

definition sizes_ok :: "addr_t \<Rightarrow> arena list \<Rightarrow> bool" where
  "sizes_ok p as \<longleftrightarrow> paged p \<and> (\<forall>a \<in> set as. paged (a_tospSizeB a)) \<and> unat p + arena_total as < 2 ^ 48"

lemma arena_total_take: "j \<le> length as \<Longrightarrow> arena_total (take j as) \<le> arena_total as"
  by (metis append_take_drop_id arena_total_def le_add1 map_append sum_list.append)

lemma place_ok:
  assumes ok: "sizes_ok p as"
  shows "j \<le> length as \<Longrightarrow> paged (place p as j) \<and> unat (place p as j) = unat p + arena_total (take j as)"
proof (induction j)
  case (Suc j)
  then have j: "j < length as" by simp
  have t: "arena_total (take (Suc j) as) = arena_total (take j as) + unat (a_tospSizeB (as ! j))"
    using j by (simp add: arena_total_def take_Suc_conv_app_nth)
  have "unat p + arena_total (take (Suc j) as) < 2 ^ 48" using ok arena_total_take [OF Suc.prems] by (auto simp: sizes_ok_def)
  then have "unat (place p as j) + unat (a_tospSizeB (as ! j)) < 2 ^ 64" using Suc j t by simp
  moreover have "paged (a_tospSizeB (as ! j))" using ok j by (simp add: sizes_ok_def)
  ultimately show ?case using Suc j t paged_add unat_add_less by (simp add: place_Suc)
qed (use ok in \<open>simp add: sizes_ok_def arena_total_def\<close>)

lemma place_end:
  assumes "sizes_ok p as" "j < length as"
  shows "unat (place p as j) + unat (a_tospSizeB (as ! j)) \<le> unat p + arena_total as"
proof -
  have "arena_total (take (Suc j) as) = arena_total (take j as) + unat (a_tospSizeB (as ! j))"
    using assms(2) by (simp add: arena_total_def take_Suc_conv_app_nth)
  moreover have "arena_total (take (Suc j) as) \<le> arena_total as" using assms(2) by (intro arena_total_take) simp
  ultimately show ?thesis using place_ok [OF assms(1), of j] assms(2) by simp
qed

lemma place_mono:
  assumes "sizes_ok p as" "i < j" "j \<le> length as"
  shows "unat (place p as i) + unat (a_tospSizeB (as ! i)) \<le> unat (place p as j)"
proof -
  have "arena_total (take (Suc i) (take j as)) \<le> arena_total (take j as)" using assms(2,3) by (intro arena_total_take) simp
  then have "arena_total (take (Suc i) as) \<le> arena_total (take j as)" using assms(2) by (simp add: min_def)
  moreover have "arena_total (take (Suc i) as) = arena_total (take i as) + unat (a_tospSizeB (as ! i))"
    using assms by (simp add: arena_total_def take_Suc_conv_app_nth)
  ultimately show ?thesis using place_ok [OF assms(1), of i] place_ok [OF assms(1), of j] assms(2,3) by simp
qed

lemma place_disjoint:
  assumes "sizes_ok p as" "i < j" "j < length as"
  shows "region_pages (place p as i) (a_tospSizeB (as ! i)) \<inter> region_pages (place p as j) (a_tospSizeB (as ! j)) = {}"
proof -
  have p: "paged (place p as i)" "paged (place p as j)" "paged (a_tospSizeB (as ! i))" using assms place_ok [OF assms(1)] by (auto simp: sizes_ok_def)
  have "(pg (place p as i) + pg (a_tospSizeB (as ! i))) * 2 ^ 18 \<le> pg (place p as j) * 2 ^ 18"
    using place_mono [OF assms(1,2)] assms(3) p paged_unat by (simp add: add_mult_distrib)
  then show ?thesis by (auto simp: region_pages_def)
qed

text \<open>The loop over the arenas.\<close>

definition lay :: "addr_t \<Rightarrow> nat \<Rightarrow> arena list \<Rightarrow> arena list" where
  "lay p k as = map (\<lambda>j. if j < k then laid (place p as j) (as ! j) else as ! j) [0..<length as]"

lemma lay_0: "lay p 0 as = as" by (simp add: lay_def map_nth)

lemma lay_Suc: "k < length as \<Longrightarrow> lay p (Suc k) as = (lay p k as)[k := laid (place p as k) (lay p k as ! k)]"
  by (rule nth_equalityI) (auto simp: lay_def nth_list_update less_Suc_eq)

lemma lay_nth: "j < length as \<Longrightarrow> lay p k as ! j = (if j < k then laid (place p as j) (as ! j) else as ! j)"
  by (simp add: lay_def)

lemma length_lay [simp]: "length (lay p k as) = length as" by (simp add: lay_def)

definition set_arenas :: "nat \<Rightarrow> arena list \<Rightarrow> rt \<Rightarrow> rt" where
  "set_arenas g as = upd_gen g (\<lambda>gn. gn\<lparr>g_arena := as\<rparr>)"

lemma get_arena_set_arenas: "gens_ok s \<Longrightarrow> g < 14 \<Longrightarrow> get_arena g' j (set_arenas g as s) = (if g' = g then as ! j else get_arena g' j s)"
  by (simp add: get_arena_def set_arenas_def get_gen_upd_gen)

lemma upd_arena_set_arenas:
  "gens_ok s \<Longrightarrow> g < 14 \<Longrightarrow> upd_arena g j f (set_arenas g as s) = set_arenas g (as[j := f (as ! j)]) s"
  using gens_okD [of s g] by (simp add: upd_arena_def set_arenas_def upd_gen_def get_gen_def)

lemma set_arenas_self: "gens_ok s \<Longrightarrow> g < 14 \<Longrightarrow> set_arenas g (g_arena (get_gen g s)) s = s"
  by (simp add: set_arenas_def upd_gen_def get_gen_def)

lemma gens_ok_bibop [simp]: "gens_ok (s\<lparr>rt_bibop := b\<rparr>) = gens_ok s" "get_gen g (s\<lparr>rt_bibop := b\<rparr>) = get_gen g s"
  by (simp_all add: gens_ok_def get_gen_def)

lemma set_arenas_bibop: "(set_arenas g as s)\<lparr>rt_bibop := b\<rparr> = set_arenas g as (s\<lparr>rt_bibop := b\<rparr>)" "rt_bibop (set_arenas g as s) = rt_bibop s"
  by (simp_all add: set_arenas_def upd_gen_def get_gen_def)

lemma new_arenas_ok:
  assumes s: "gens_ok s" "g < 14" "bibop_wf (rt_bibop s)" and as: "as = g_arena (get_gen g s)" and ok: "sizes_ok p as"
  shows "k \<le> 5 \<Longrightarrow> \<exists>b. rfold (new_arena g) [0..<k] (p, s) = Inr (place p as k, set_arenas g (lay p k as) (s\<lparr>rt_bibop := b\<rparr>)) \<and> bibop_wf b
    \<and> (\<forall>j < k. \<forall>q \<in> region_pages (place p as j) (a_tospSizeB (as ! j)). page_map b q = a_id (as ! j))
    \<and> (\<forall>q. (\<forall>j < k. q \<notin> region_pages (place p as j) (a_tospSizeB (as ! j))) \<longrightarrow> page_map b q = page_map (rt_bibop s) q)"
proof (induction k)
  case 0
  have "rt_bibop s = rt_bibop s" ..
  then show ?case using s set_arenas_self [OF s(1,2)] by (intro exI [of _ "rt_bibop s"]) (simp add: lay_0 as)
next
  case (Suc k)
  have l: "length as = 5" using s(1,2) by (simp add: as gens_ok_def)
  then have k: "k < length as" "k < 5" using Suc.prems by auto
  from Suc obtain b where b: "rfold (new_arena g) [0..<k] (p, s) = Inr (place p as k, set_arenas g (lay p k as) (s\<lparr>rt_bibop := b\<rparr>))" "bibop_wf b"
    "\<forall>j < k. \<forall>q \<in> region_pages (place p as j) (a_tospSizeB (as ! j)). page_map b q = a_id (as ! j)"
    "\<forall>q. (\<forall>j < k. q \<notin> region_pages (place p as j) (a_tospSizeB (as ! j))) \<longrightarrow> page_map b q = page_map (rt_bibop s) q" by auto
  let ?s = "set_arenas g (lay p k as) (s\<lparr>rt_bibop := b\<rparr>)"
  let ?a = "as ! k"
  have ga: "get_arena g k ?s = ?a" using s(1,2) k(1) by (simp add: get_arena_set_arenas lay_nth)
  have up: "upd_arena g k f ?s = set_arenas g ((lay p k as)[k := f ?a]) (s\<lparr>rt_bibop := b\<rparr>)" for f
    using s(1,2) k(1) by (simp add: upd_arena_set_arenas lay_nth)
  have ls: "(lay p k as)[k := laid (place p as k) ?a] = lay p (Suc k) as" using lay_Suc [OF k(1)] k(1) by (simp add: lay_nth)
  show ?case
  proof (cases "isACTIVE ?a")
    case True
    have "unat (place p as k) + unat (a_tospSizeB ?a) < 2 ^ 48" using place_end [OF ok k(1)] ok by (simp add: sizes_ok_def)
    from MarkRegion_region [OF b(2) this, of "a_id ?a"] obtain b' where
      b': "MarkRegion (place p as k) (a_tospSizeB ?a) (a_id ?a) b = Inr b'" "bibop_wf b'"
        "page_map b' = (\<lambda>q. if q \<in> region_pages (place p as k) (a_tospSizeB ?a) then a_id ?a else page_map b q)" by blast
    have "new_arena g k (place p as k, ?s) = Inr (place p as (Suc k), set_arenas g (lay p (Suc k) as) (s\<lparr>rt_bibop := b'\<rparr>))"
      using True b'(1) ls k(1) by (simp add: new_arena_def Let_def ga up put_bibop_def set_arenas_bibop laid_def place_Suc)
    moreover have "page_map b' q = a_id (as ! j)" if "j < Suc k" "q \<in> region_pages (place p as j) (a_tospSizeB (as ! j))" for j q
    proof (cases "j = k")
      case False
      then have "q \<notin> region_pages (place p as k) (a_tospSizeB ?a)" using that place_disjoint [OF ok, of j k] k(1) by auto
      then show ?thesis using False that b(3) b'(3) by auto
    qed (use that b'(3) in auto)
    moreover have "page_map b' q = page_map (rt_bibop s) q" if "\<forall>j < Suc k. q \<notin> region_pages (place p as j) (a_tospSizeB (as ! j))" for q
      using that b(4) b'(3) by auto
    ultimately show ?thesis using b(1) b'(2) by (intro exI [of _ b']) (simp add: rfold_append)
  next
    case False
    then have z: "a_tospSizeB ?a = 0" by (simp add: isACTIVE_def word_gt_0)
    have "new_arena g k (place p as k, ?s) = Inr (place p as (Suc k), set_arenas g (lay p (Suc k) as) (s\<lparr>rt_bibop := b\<rparr>))"
      using False ls k(1) z by (simp add: new_arena_def Let_def ga up laid_def place_Suc)
    moreover have "region_pages (place p as k) (a_tospSizeB ?a) = {}" by (simp add: z region_pages_def pg_def)
    ultimately show ?thesis using b by (auto simp: rfold_append less_Suc_eq)
  qed
qed

text \<open>What the operating system promises about the memory it maps, and the size of a generation.\<close>

definition mem_ok :: "(mem_sys \<Rightarrow> addr_t \<Rightarrow> addr_t option) \<Rightarrow> mem_sys \<Rightarrow> bool" where
  "mem_ok mmap ms \<longleftrightarrow> mmap_ok (mmap ms) ms \<and> (\<forall>n a. mmap ms n = Some a \<longrightarrow> unat a + unat n < 2 ^ 48)"

definition obj_ok :: "mem_obj \<Rightarrow> bool" where
  "obj_ok c \<longleftrightarrow> paged (mo_base c) \<and> unat (mo_base c) + unat (mo_sizeB c) < 2 ^ 48"

lemma MapMemory_bound:
  assumes ok: "mem_ok mmap ms" and m: "MapMemory (mmap ms) n ms = Some (obj, ms')" and n: "0 < unat n" "unat n + 2 ^ 18 < 2 ^ 64"
  shows "unat (mo_base obj) + unat n < 2 ^ 48"
proof -
  have "mmap_ok (mmap ms) ms" using ok by (simp add: mem_ok_def)
  from MapMemory_spec [OF this m n(2)] obtain addr where sp: "unat (mo_base obj) + unat n < 2 ^ 64"
    and a: "mmap ms (n + BIBOP_PAGE_SZB) = Some addr"
    and sub: "addr_range (mo_base obj) n \<subseteq> addr_range addr (n + BIBOP_PAGE_SZB)" by blast
  define x where "x = mo_base obj + (n - 1)"
  have ux: "unat x = unat (mo_base obj) + (unat n - 1)"
  proof -
    have "unat (n - 1) = unat n - 1" using n(1) by (subst unat_sub) (auto simp: word_le_nat_alt)
    then show ?thesis using sp n(1) unfolding x_def by (subst unat_add_less) auto
  qed
  then have "x \<in> addr_range (mo_base obj) n" using n(1) by (simp add: addr_range_def)
  then have "x \<in> addr_range addr (n + BIBOP_PAGE_SZB)" using sub by blast
  moreover have "unat addr + unat (n + BIBOP_PAGE_SZB) < 2 ^ 48" using ok a by (auto simp: mem_ok_def)
  ultimately show ?thesis using ux n(1) by (auto simp: addr_range_def)
qed

lemma MEM_AllocMemObj_bound:
  assumes ok: "mem_ok mmap ms" and m: "MEM_AllocMemObj (mmap ms) szb ms = Some (obj, ms')" and sz: "unat szb + 2 ^ 19 < 2 ^ 64"
  shows "obj_ok obj" "unat szb \<le> unat (mo_sizeB obj)" "addr_range (mo_base obj) (mo_sizeB obj) \<inter> ms_mapped ms = {}"
    "ms_mapped ms \<union> addr_range (mo_base obj) (mo_sizeB obj) \<subseteq> ms_mapped ms'" "paged (mo_sizeB obj)"
proof -
  have "mmap_ok (mmap ms) ms" using ok by (simp add: mem_ok_def)
  note al = MEM_AllocMemObj_spec [OF this m sz]
  show "unat szb \<le> unat (mo_sizeB obj)" "addr_range (mo_base obj) (mo_sizeB obj) \<inter> ms_mapped ms = {}"
    "paged (mo_sizeB obj)" using al by (auto simp: paged_def)
  from al obtain M where "ms_mapped ms' = M" "ms_mapped ms \<union> addr_range (mo_base obj) (mo_sizeB obj) \<subseteq> M" by fastforce
  then show "ms_mapped ms \<union> addr_range (mo_base obj) (mo_sizeB obj) \<subseteq> ms_mapped ms'" by simp
  define n where "n = (if szb \<le> BIBOP_PAGE_SZB then BIBOP_PAGE_SZB else RND_MEMOBJ_SZB szb)"
  from m obtain ms1 where m1: "MapMemory (mmap ms) n ms = Some (obj, ms1)" by (auto simp: MEM_AllocMemObj_def n_def [symmetric] Let_def split: option.splits)
  have "unat (RND_MEMOBJ_SZB szb) = (unat szb + (2 ^ 18 - 1)) div 2 ^ 18 * 2 ^ 18" using sz by (intro RND_MEMOBJ_page) simp
  then have n: "0 < unat n" "unat n + 2 ^ 18 < 2 ^ 64" using sz by (auto simp: n_def word_le_nat_alt split: if_splits)
  have "mo_sizeB obj = n" using m1 by (auto simp: MapMemory_def Let_def split: option.splits if_splits)
  then show "obj_ok obj" using MapMemory_bound [OF ok m1 n] al by (simp add: obj_ok_def paged_def)
qed

lemma inactive_size: "\<not> isACTIVE a \<Longrightarrow> a_tospSizeB a = 0"
  by (simp add: isACTIVE_def word_gt_0)

lemma gen_size_sum:
  assumes "length (g_arena gn) = 5"
  shows "gen_size gn = sum_list (map a_tospSizeB (g_arena gn))"
proof -
  have "fold (\<lambda>i tot. if isACTIVE (g_arena gn ! i) then tot + a_tospSizeB (g_arena gn ! i) else tot) [0..<k] 0
      = sum_list (map a_tospSizeB (take k (g_arena gn)))" if "k \<le> 5" for k
    using that assms by (induction k) (auto simp: take_Suc_conv_app_nth inactive_size)
  from this [of 5] assms show ?thesis by (simp add: gen_size_def)
qed

lemma unat_sum_sizes: "arena_total as < 2 ^ 64 \<Longrightarrow> unat (sum_list (map a_tospSizeB as)) = arena_total as"
  by (induction as) (auto simp: arena_total_def unat_add_less)

text \<open>
  A generation whose arenas have sizes and that may have a cached memory object, with a page
  table and a memory system that work.
\<close>

definition gen_ready :: "(mem_sys \<Rightarrow> addr_t \<Rightarrow> addr_t option) \<Rightarrow> nat \<Rightarrow> rt \<Rightarrow> bool" where
  "gen_ready mmap g s \<longleftrightarrow> gens_ok s \<and> g < MAX_NUM_GENS \<and> bibop_wf (rt_bibop s) \<and> mem_ok mmap (rt_ms s)
     \<and> (\<forall>a \<in> set (g_arena (get_gen g s)). paged (a_tospSizeB a)) \<and> arena_total (g_arena (get_gen g s)) < 2 ^ 47
     \<and> (\<forall>c. g_cacheObj (get_gen g s) = Some c \<longrightarrow> obj_ok c)"

definition new_gen :: "nat \<Rightarrow> mem_obj \<Rightarrow> mem_obj option \<Rightarrow> mem_sys \<Rightarrow> bibop \<Rightarrow> rt \<Rightarrow> rt" where
  "new_gen g obj cache ms b s =
     init_pair_arena g (set_arenas g (lay (mo_base obj) 5 (g_arena (get_gen g s)))
       ((upd_gen g (\<lambda>gn. gn\<lparr>g_cacheObj := cache, g_toObj := Some obj\<rparr>) (s\<lparr>rt_ms := ms\<rparr>))\<lparr>rt_bibop := b\<rparr>))"

lemma gens_ok_upd_gen: "gens_ok s \<Longrightarrow> g < 14 \<Longrightarrow> (\<And>gn. g_arena (F gn) = g_arena gn) \<Longrightarrow> gens_ok (upd_gen g F s)"
  using get_gen_upd_gen [of s g _ F] by (auto simp: gens_ok_def) (auto simp: upd_gen_def)

text \<open>The two ways to get a memory object for the generation.\<close>

lemma NewGeneration_ok:
  assumes r: "gen_ready mmap g s"
  defines "as \<equiv> g_arena (get_gen g s)"
  shows "NewGeneration mmap g s = Inr (False, s) \<or> (\<exists>obj cache ms b. NewGeneration mmap g s = Inr (True, new_gen g obj cache ms b s)
    \<and> obj_ok obj \<and> sizes_ok (mo_base obj) as \<and> arena_total as \<le> unat (mo_sizeB obj)
    \<and> (g_cacheObj (get_gen g s) = Some obj \<and> cache = None \<and> ms = rt_ms s
       \<or> cache = g_cacheObj (get_gen g s) \<and> addr_range (mo_base obj) (mo_sizeB obj) \<inter> ms_mapped (rt_ms s) = {}
           \<and> ms_mapped (rt_ms s) \<union> addr_range (mo_base obj) (mo_sizeB obj) \<subseteq> ms_mapped ms)
    \<and> bibop_wf b \<and> (\<forall>j < 5. \<forall>q \<in> region_pages (place (mo_base obj) as j) (a_tospSizeB (as ! j)). page_map b q = a_id (as ! j))
    \<and> (\<forall>q. (\<forall>j < 5. q \<notin> region_pages (place (mo_base obj) as j) (a_tospSizeB (as ! j))) \<longrightarrow> page_map b q = page_map (rt_bibop s) q))"
proof -
  have s: "gens_ok s" "g < 14" "bibop_wf (rt_bibop s)" and m: "mem_ok mmap (rt_ms s)" and sz: "\<forall>a \<in> set as. paged (a_tospSizeB a)" "arena_total as < 2 ^ 47"
    and c: "\<forall>c. g_cacheObj (get_gen g s) = Some c \<longrightarrow> obj_ok c" using r by (auto simp: gen_ready_def as_def)
  have l: "length as = 5" using s(1,2) by (simp add: as_def gens_ok_def)
  let ?t = "gen_size (get_gen g s)"
  have t: "unat ?t = arena_total as" using gen_size_sum [of "get_gen g s"] unat_sum_sizes [of as] l sz(2) by (simp add: as_def)
  text \<open>The layout, once there is a memory object.\<close>
  have layout: "\<exists>b. rbind (rfold (new_arena g) [0..<NUM_ARENAS] (mo_base obj, upd_gen g (\<lambda>gn. gn\<lparr>g_toObj := Some obj\<rparr>) s1)) (\<lambda>(p, s). Inr (True, init_pair_arena g s))
        = Inr (True, new_gen g obj cache ms b s) \<and> sizes_ok (mo_base obj) as \<and> bibop_wf b
      \<and> (\<forall>j < 5. \<forall>q \<in> region_pages (place (mo_base obj) as j) (a_tospSizeB (as ! j)). page_map b q = a_id (as ! j))
      \<and> (\<forall>q. (\<forall>j < 5. q \<notin> region_pages (place (mo_base obj) as j) (a_tospSizeB (as ! j))) \<longrightarrow> page_map b q = page_map (rt_bibop s) q)"
    if o: "obj_ok obj" "arena_total as \<le> unat (mo_sizeB obj)" and s1: "s1 = upd_gen g (\<lambda>gn. gn\<lparr>g_cacheObj := cache\<rparr>) (s\<lparr>rt_ms := ms\<rparr>)" for obj s1 cache ms
  proof -
    have sok: "sizes_ok (mo_base obj) as" using o sz(1) by (simp add: sizes_ok_def obj_ok_def)
    let ?u = "upd_gen g (\<lambda>gn. gn\<lparr>g_toObj := Some obj\<rparr>) s1"
    have u: "gens_ok ?u" "bibop_wf (rt_bibop ?u)" "as = g_arena (get_gen g ?u)" "rt_bibop ?u = rt_bibop s"
      using s gens_okD [OF s(1,2)] unfolding s1 as_def by (simp_all add: gens_ok_def upd_gen_def get_gen_def nth_list_update)
    from new_arenas_ok [OF u(1) s(2) u(2,3) sok, of 5] u(4) obtain b where
      b: "rfold (new_arena g) [0..<5] (mo_base obj, ?u) = Inr (place (mo_base obj) as 5, set_arenas g (lay (mo_base obj) 5 as) (?u\<lparr>rt_bibop := b\<rparr>))" "bibop_wf b"
        "\<forall>j < 5. \<forall>q \<in> region_pages (place (mo_base obj) as j) (a_tospSizeB (as ! j)). page_map b q = a_id (as ! j)"
        "\<forall>q. (\<forall>j < 5. q \<notin> region_pages (place (mo_base obj) as j) (a_tospSizeB (as ! j))) \<longrightarrow> page_map b q = page_map (rt_bibop s) q" by auto
    have "?u\<lparr>rt_bibop := b\<rparr> = (upd_gen g (\<lambda>gn. gn\<lparr>g_cacheObj := cache, g_toObj := Some obj\<rparr>) (s\<lparr>rt_ms := ms\<rparr>))\<lparr>rt_bibop := b\<rparr>"
      using gens_okD [OF s(1,2)] by (simp add: s1 upd_gen_def get_gen_def)
    then show ?thesis using b sok by (intro exI [of _ b]) (simp add: new_gen_def as_def)
  qed
  show ?thesis
  proof (cases "\<exists>c. g_cacheObj (get_gen g s) = Some c \<and> ?t \<le> mo_sizeB c")
    case True
    then obtain c0 where c0: "g_cacheObj (get_gen g s) = Some c0" "?t \<le> mo_sizeB c0" by blast
    have e: "upd_gen g (\<lambda>gn. gn\<lparr>g_cacheObj := None\<rparr>) s = upd_gen g (\<lambda>gn. gn\<lparr>g_cacheObj := None\<rparr>) (s\<lparr>rt_ms := rt_ms s\<rparr>)" by simp
    from layout [of c0 _ None "rt_ms s", OF _ _ e] c c0 t obtain b where "NewGeneration mmap g s = Inr (True, new_gen g c0 None (rt_ms s) b s)"
      "sizes_ok (mo_base c0) as" "bibop_wf b" "\<forall>j < 5. \<forall>q \<in> region_pages (place (mo_base c0) as j) (a_tospSizeB (as ! j)). page_map b q = a_id (as ! j)"
      "\<forall>q. (\<forall>j < 5. q \<notin> region_pages (place (mo_base c0) as j) (a_tospSizeB (as ! j))) \<longrightarrow> page_map b q = page_map (rt_bibop s) q"
      by (auto simp: NewGeneration_def Let_def word_le_nat_alt)
    then show ?thesis using c0 c t by (auto simp: word_le_nat_alt)
  next
    case False
    then have nc: "(case g_cacheObj (get_gen g s) of Some c \<Rightarrow> if ?t \<le> mo_sizeB c then Some (c, upd_gen g (\<lambda>gn. gn\<lparr>g_cacheObj := None\<rparr>) s) else None | None \<Rightarrow> None) = None"
      by (auto split: option.splits)
    show ?thesis
    proof (cases "MEM_AllocMemObj (mmap (rt_ms s)) ?t (rt_ms s)")
      case None
      then show ?thesis using nc by (simp add: NewGeneration_def Let_def)
    next
      case (Some x)
      then obtain obj ms where x: "MEM_AllocMemObj (mmap (rt_ms s)) ?t (rt_ms s) = Some (obj, ms)" by (cases x) auto
      have "unat ?t + 2 ^ 19 < 2 ^ 64" using t sz(2) by simp
      note al = MEM_AllocMemObj_bound [OF m x this]
      have e: "s\<lparr>rt_ms := ms\<rparr> = upd_gen g (\<lambda>gn. gn\<lparr>g_cacheObj := g_cacheObj (get_gen g s)\<rparr>) (s\<lparr>rt_ms := ms\<rparr>)"
        using gens_okD [OF s(1,2)] by (simp add: upd_gen_def get_gen_def)
      from layout [OF al(1) _ e] al(2) t obtain b where "NewGeneration mmap g s = Inr (True, new_gen g obj (g_cacheObj (get_gen g s)) ms b s)"
        "sizes_ok (mo_base obj) as" "bibop_wf b" "\<forall>j < 5. \<forall>q \<in> region_pages (place (mo_base obj) as j) (a_tospSizeB (as ! j)). page_map b q = a_id (as ! j)"
        "\<forall>q. (\<forall>j < 5. q \<notin> region_pages (place (mo_base obj) as j) (a_tospSizeB (as ! j))) \<longrightarrow> page_map b q = page_map (rt_bibop s) q"
        using nc x by (auto simp: NewGeneration_def Let_def)
      then show ?thesis using al t by (intro disjI2 exI [of _ obj] exI [of _ "g_cacheObj (get_gen g s)"] exI [of _ ms] exI [of _ b]) simp
    qed
  qed
qed

section \<open>The new state\<close>

definition new_arena_of :: "addr_t \<Rightarrow> arena list \<Rightarrow> nat \<Rightarrow> arena" where
  "new_arena_of p as j = (let a = laid (place p as j) (as ! j) in
     if j = PAIR_INDX \<and> isACTIVE (as ! j) then a\<lparr>a_nextw := place p as j + 16, a_sweep_nextw := place p as j + 16\<rparr> else a)"

lemma get_gen_upd_gen_same: "gens_ok s \<Longrightarrow> g < 14 \<Longrightarrow> get_gen g' (upd_gen g F s) = (if g' = g then F (get_gen g s) else get_gen g' s)"
  by (rule get_gen_upd_gen)

lemma rt_upd_gen [simp]: "rt_mem (upd_gen g F s) = rt_mem s" "rt_bibop (upd_gen g F s) = rt_bibop s" "rt_ms (upd_gen g F s) = rt_ms s"
  "rt_desc (upd_gen g F s) = rt_desc s" "rt_region (upd_gen g F s) = rt_region s" "rt_fresh (upd_gen g F s) = rt_fresh s"
  "h_numGens (rt_heap (upd_gen g F s)) = h_numGens (rt_heap s)" "h_allocSzB (rt_heap (upd_gen g F s)) = h_allocSzB (rt_heap s)"
  "h_numMinorGCs (rt_heap (upd_gen g F s)) = h_numMinorGCs (rt_heap s)" "h_bigRegions (rt_heap (upd_gen g F s)) = h_bigRegions (rt_heap s)"
  "h_numBORegions (rt_heap (upd_gen g F s)) = h_numBORegions (rt_heap s)" "h_freeBigObjs (rt_heap (upd_gen g F s)) = h_freeBigObjs (rt_heap s)"
  "h_allocBase (rt_heap (upd_gen g F s)) = h_allocBase (rt_heap s)"
  by (simp_all add: upd_gen_def)

definition same_rest :: "rt \<Rightarrow> rt \<Rightarrow> bool" where
  "same_rest s t \<longleftrightarrow> rt_desc t = rt_desc s \<and> rt_region t = rt_region s \<and> rt_fresh t = rt_fresh s
     \<and> h_numGens (rt_heap t) = h_numGens (rt_heap s) \<and> h_allocSzB (rt_heap t) = h_allocSzB (rt_heap s) \<and> h_allocBase (rt_heap t) = h_allocBase (rt_heap s)
     \<and> h_numMinorGCs (rt_heap t) = h_numMinorGCs (rt_heap s) \<and> h_bigRegions (rt_heap t) = h_bigRegions (rt_heap s)
     \<and> h_numBORegions (rt_heap t) = h_numBORegions (rt_heap s) \<and> h_freeBigObjs (rt_heap t) = h_freeBigObjs (rt_heap s)"

lemma new_gen_sel:
  assumes s: "gens_ok s" "g < 14"
  defines "as \<equiv> g_arena (get_gen g s)"
  shows "gens_ok (new_gen g obj cache ms b s)"
    and "j < 5 \<Longrightarrow> get_arena g j (new_gen g obj cache ms b s) = new_arena_of (mo_base obj) as j"
    and "g' \<noteq> g \<Longrightarrow> get_gen g' (new_gen g obj cache ms b s) = get_gen g' s"
    and "rt_bibop (new_gen g obj cache ms b s) = b" "rt_ms (new_gen g obj cache ms b s) = ms"
    and "rt_mem (new_gen g obj cache ms b s) = (if isACTIVE (as ! 1) then put_words (place (mo_base obj) as 1) [ML_unit, ML_unit] (rt_mem s) else rt_mem s)"
    and "\<exists>xs. get_gen g (new_gen g obj cache ms b s) = (get_gen g s)\<lparr>g_cacheObj := cache, g_toObj := Some obj, g_arena := xs\<rparr>"
    and "same_rest s (new_gen g obj cache ms b s)"
proof -
  let ?F = "\<lambda>gn. gn\<lparr>g_cacheObj := cache, g_toObj := Some obj\<rparr>"
  let ?s1 = "(upd_gen g ?F (s\<lparr>rt_ms := ms\<rparr>))\<lparr>rt_bibop := b\<rparr>"
  let ?s2 = "set_arenas g (lay (mo_base obj) 5 as) ?s1"
  have sm: "gens_ok (s\<lparr>rt_ms := ms\<rparr>)" using s(1) by (simp add: gens_ok_def get_gen_def)
  have g1: "gens_ok ?s1" using gens_ok_upd_gen [OF sm s(2), of ?F] by simp
  have l: "length as = 5" using s by (simp add: as_def gens_ok_def)
  have gg: "get_gen k ?s2 = (if k = g then (get_gen g s)\<lparr>g_cacheObj := cache, g_toObj := Some obj, g_arena := lay (mo_base obj) 5 as\<rparr> else get_gen k s)" for k
    using get_gen_upd_gen [OF g1 s(2), of k] get_gen_upd_gen [OF sm s(2), of k ?F] get_gen_upd_gen [OF sm s(2), of g ?F]
    by (auto simp: set_arenas_def get_gen_def)
  have g2: "gens_ok ?s2" using g1 s gg l unfolding gens_ok_def by (auto simp: set_arenas_def upd_gen_def)
  have ga: "get_arena g j ?s2 = laid (place (mo_base obj) as j) (as ! j)" if "j < 5" for j
    using that l gg [of g] by (simp add: get_arena_def lay_nth)
  have act: "isACTIVE (get_arena g 1 ?s2) = isACTIVE (as ! 1)" using ga [of 1] by (simp add: laid_def isACTIVE_def)
  have nw: "isACTIVE (as ! 1) \<Longrightarrow> a_nextw (get_arena g 1 ?s2) = place (mo_base obj) as 1" using ga [of 1] by (simp add: laid_def)
  let ?P = "upd_mem (put_words (place (mo_base obj) as 1) [ML_unit, ML_unit]) ?s2"
  let ?U = "\<lambda>a. a\<lparr>a_nextw := place (mo_base obj) as 1 + 16, a_sweep_nextw := place (mo_base obj) as 1 + 16\<rparr>"
  have gP: "gens_ok ?P" "get_arena g j ?P = get_arena g j ?s2" "get_gen k ?P = get_gen k ?s2" for j k using g2 by (simp_all add: gens_ok_def get_gen_def get_arena_def upd_mem_def)
  have e: "new_gen g obj cache ms b s = (if isACTIVE (as ! 1) then upd_arena g 1 ?U ?P else ?s2)"
    using act nw by (simp add: new_gen_def init_pair_arena_def Let_def as_def)
  show "gens_ok (new_gen g obj cache ms b s)" using e g2 gens_ok_upd_arena [OF gP(1) s(2)] by simp
  show "get_arena g j (new_gen g obj cache ms b s) = new_arena_of (mo_base obj) as j" if "j < 5"
    using e ga [OF that] get_arena_upd_arena [OF gP(1) s(2), of 1 g j ?U] gP(2) ga [of 1] unfolding new_arena_of_def Let_def
    by (cases "j = 1") auto
  show "get_gen g' (new_gen g obj cache ms b s) = get_gen g' s" if "g' \<noteq> g"
    using that e gg [of g'] gP(3) get_gen_upd_gen [OF gP(1) s(2), of g'] by (simp add: upd_arena_def)
  show "rt_bibop (new_gen g obj cache ms b s) = b" "rt_ms (new_gen g obj cache ms b s) = ms" by (simp_all add: e set_arenas_def upd_mem_def)
  show "rt_mem (new_gen g obj cache ms b s) = (if isACTIVE (as ! 1) then put_words (place (mo_base obj) as 1) [ML_unit, ML_unit] (rt_mem s) else rt_mem s)"
    by (simp add: e set_arenas_def fun_upd_def)
  show "\<exists>xs. get_gen g (new_gen g obj cache ms b s) = (get_gen g s)\<lparr>g_cacheObj := cache, g_toObj := Some obj, g_arena := xs\<rparr>"
    using e gg [of g] gP(3) get_gen_upd_gen [OF gP(1) s(2), of g] by (simp add: upd_arena_def) blast
  show "same_rest s (new_gen g obj cache ms b s)" by (simp add: e same_rest_def set_arenas_def upd_mem_def upd_arena_def)
qed

section \<open>The layout of a new generation\<close>

lemma put_words_outside: "x \<notin> {p, p + 8} \<Longrightarrow> put_words p [a, b] m x = m x"
  by auto

lemma new_arena_of_sel:
  "a_tospBase (new_arena_of p as j) = (if isACTIVE (as ! j) then place p as j else 0)"
  "a_tospSizeB (new_arena_of p as j) = a_tospSizeB (as ! j)"
  "a_tospTop (new_arena_of p as j) = (if isACTIVE (as ! j) then place p as j + a_tospSizeB (as ! j) else 0)"
  "a_nextw (new_arena_of p as j) = (if isACTIVE (as ! j) then place p as j + (if j = PAIR_INDX then 16 else 0) else 0)"
  "a_sweep_nextw (new_arena_of p as j) = (if isACTIVE (as ! j) then place p as j + (if j = PAIR_INDX then 16 else 0) else 0)"
  "a_id (new_arena_of p as j) = a_id (as ! j)"
  by (simp_all add: new_arena_of_def laid_def Let_def)

lemma ADDR_TO_PAGEID_pg: "unat x < 2 ^ 48 \<Longrightarrow> ADDR_TO_PAGEID b x = Inr (page_map b (pg x))"
  by (simp add: ADDR_TO_PAGEID_def pg_index INDEX_TO_PAGEID_map [OF pg_less])

text \<open>What \<open>NewGeneration\<close> makes of generation \<open>g\<close>.\<close>

definition layout_ok :: "nat \<Rightarrow> rt \<Rightarrow> rt \<Rightarrow> bool" where
  "layout_ok g s t \<longleftrightarrow> (\<forall>j < NUM_ARENAS. let a = get_arena g j s; b = get_arena g j t in
     if isACTIVE a then
       paged (a_tospBase b) \<and> a_tospTop b = a_tospBase b + a_tospSizeB a \<and> unat (a_tospBase b) + unat (a_tospSizeB a) < 2 ^ 48
       \<and> a_nextw b = a_tospBase b + (if j = PAIR_INDX then 16 else 0) \<and> a_sweep_nextw b = a_nextw b
       \<and> (\<forall>x \<in> addr_range (a_tospBase b) (a_tospSizeB a). ADDR_TO_PAGEID (rt_bibop t) x = Inr (a_id a))
       \<and> (\<forall>i < j. isACTIVE (get_arena g i s) \<longrightarrow> addr_range (a_tospBase (get_arena g i t)) (a_tospSizeB (get_arena g i s)) \<inter> addr_range (a_tospBase b) (a_tospSizeB a) = {})
     else a_tospBase b = 0 \<and> a_tospTop b = 0 \<and> a_nextw b = 0 \<and> a_sweep_nextw b = 0)
   \<and> (\<forall>x. (\<forall>j < NUM_ARENAS. x \<notin> addr_range (a_tospBase (get_arena g j t)) (a_tospSizeB (get_arena g j s))) \<longrightarrow> unat x < 2 ^ 48 \<longrightarrow>
        ADDR_TO_PAGEID (rt_bibop t) x = ADDR_TO_PAGEID (rt_bibop s) x)
   \<and> (\<forall>x. rt_mem t x \<noteq> rt_mem s x \<longrightarrow> isACTIVE (get_arena g PAIR_INDX s) \<and> x \<in> {a_tospBase (get_arena g PAIR_INDX t), a_tospBase (get_arena g PAIR_INDX t) + 8})"

lemma range_pages_iff:
  assumes "paged a" "paged n"
  shows "pg x \<in> region_pages a n \<longleftrightarrow> x \<in> addr_range a n"
proof
  assume "pg x \<in> region_pages a n"
  then have "pg a * 2 ^ 18 \<le> pg x * 2 ^ 18" "(pg x + 1) * 2 ^ 18 \<le> (pg a + pg n) * 2 ^ 18" unfolding region_pages_def by (simp_all del: mult_le_cancel2 add: mult_le_mono1)
  moreover have "pg x * 2 ^ 18 \<le> unat x" "unat x < (pg x + 1) * 2 ^ 18" by (simp_all add: pg_def dividend_less_div_times)
  ultimately show "x \<in> addr_range a n" using paged_unat [OF assms(1)] paged_unat [OF assms(2)] by (simp add: addr_range_def algebra_simps)
qed (rule range_pages [OF assms])

lemma new_gen_layout:
  assumes s: "gens_ok s" "g < 14" and as: "as = g_arena (get_gen g s)" and sok: "sizes_ok (mo_base obj) as"
    and b: "\<forall>j < 5. \<forall>q \<in> region_pages (place (mo_base obj) as j) (a_tospSizeB (as ! j)). page_map b q = a_id (as ! j)"
      "\<forall>q. (\<forall>j < 5. q \<notin> region_pages (place (mo_base obj) as j) (a_tospSizeB (as ! j))) \<longrightarrow> page_map b q = page_map (rt_bibop s) q"
  shows "layout_ok g s (new_gen g obj cache ms b s)"
proof -
  let ?t = "new_gen g obj cache ms b s" and ?p = "mo_base obj"
  note sel = new_gen_sel [OF s, where obj = obj and cache = cache and ms = ms and b = b, folded as]
  have l: "length as = 5" using s by (simp add: as gens_ok_def)
  have a: "get_arena g j s = as ! j" for j by (simp add: get_arena_def as)
  have pl: "paged (place ?p as j)" "paged (a_tospSizeB (as ! j))" "unat (place ?p as j) + unat (a_tospSizeB (as ! j)) < 2 ^ 48" if "j < 5" for j
    using place_ok [OF sok, of j] place_end [OF sok, of j] that l sok by (auto simp: sizes_ok_def)
  have rg: "a_tospSizeB (as ! j) = 0 \<or> isACTIVE (as ! j)" for j using inactive_size by blast
  have ar: "addr_range (a_tospBase (get_arena g j ?t)) (a_tospSizeB (as ! j)) = {x. pg x \<in> region_pages (place ?p as j) (a_tospSizeB (as ! j))}" if "j < 5" for j
  proof (cases "isACTIVE (as ! j)")
    case True
    then show ?thesis using range_pages_iff [OF pl(1,2) [OF that]] by (auto simp: sel(2) [OF that] new_arena_of_sel)
  next
    case False
    then show ?thesis using inactive_size [OF False] by (simp add: region_pages_def addr_range_def pg_def)
  qed
  have dj: "addr_range (a_tospBase (get_arena g i ?t)) (a_tospSizeB (as ! i)) \<inter> addr_range (a_tospBase (get_arena g j ?t)) (a_tospSizeB (as ! j)) = {}"
    if "i < j" "j < 5" for i j
    using that place_disjoint [OF sok, of i j] l ar [of i] ar [of j] by auto
  have lt: "unat x < 2 ^ 48" if "x \<in> addr_range (a_tospBase (get_arena g j ?t)) (a_tospSizeB (as ! j))" "j < 5" for x j
    using that pl(3) [of j] rg [of j] by (auto simp: addr_range_def sel(2) new_arena_of_sel)
  have id: "ADDR_TO_PAGEID b x = Inr (a_id (as ! j))" if "x \<in> addr_range (a_tospBase (get_arena g j ?t)) (a_tospSizeB (as ! j))" "j < 5" for x j
    using ADDR_TO_PAGEID_pg [OF lt [OF that]] b(1) that ar [of j] by auto
  have out: "ADDR_TO_PAGEID b x = ADDR_TO_PAGEID (rt_bibop s) x"
    if "\<forall>j < 5. x \<notin> addr_range (a_tospBase (get_arena g j ?t)) (a_tospSizeB (as ! j))" "unat x < 2 ^ 48" for x
    using that(1) b(2) ar ADDR_TO_PAGEID_pg [OF that(2)] by auto
  show ?thesis unfolding layout_ok_def Let_def a sel(4) 
  proof (intro conjI allI impI)
    fix j :: nat assume j: "j < 5"
    show "if isACTIVE (as ! j) then paged (a_tospBase (get_arena g j ?t)) \<and> a_tospTop (get_arena g j ?t) = a_tospBase (get_arena g j ?t) + a_tospSizeB (as ! j)
        \<and> unat (a_tospBase (get_arena g j ?t)) + unat (a_tospSizeB (as ! j)) < 2 ^ 48
        \<and> a_nextw (get_arena g j ?t) = a_tospBase (get_arena g j ?t) + (if j = 1 then 16 else 0) \<and> a_sweep_nextw (get_arena g j ?t) = a_nextw (get_arena g j ?t)
        \<and> (\<forall>x \<in> addr_range (a_tospBase (get_arena g j ?t)) (a_tospSizeB (as ! j)). ADDR_TO_PAGEID b x = Inr (a_id (as ! j)))
        \<and> (\<forall>i < j. isACTIVE (as ! i) \<longrightarrow> addr_range (a_tospBase (get_arena g i ?t)) (a_tospSizeB (as ! i)) \<inter> addr_range (a_tospBase (get_arena g j ?t)) (a_tospSizeB (as ! j)) = {})
      else a_tospBase (get_arena g j ?t) = 0 \<and> a_tospTop (get_arena g j ?t) = 0 \<and> a_nextw (get_arena g j ?t) = 0 \<and> a_sweep_nextw (get_arena g j ?t) = 0"
      using pl [OF j] dj [OF _ j] id [OF _ j] by (cases "isACTIVE (as ! j)") (simp_all add: sel(2) [OF j] new_arena_of_sel)
  next
    fix x assume "rt_mem ?t x \<noteq> rt_mem s x"
    then have "isACTIVE (as ! 1) \<and> x \<in> {place ?p as 1, place ?p as 1 + 8}" using put_words_outside [of x "place ?p as 1" ML_unit ML_unit] by (auto simp: sel(6) split: if_splits)
    then show "isACTIVE (as ! 1)" "x \<in> {a_tospBase (get_arena g 1 ?t), a_tospBase (get_arena g 1 ?t) + 8}" by (simp_all add: sel(2) new_arena_of_sel)
  qed (use out in blast)
qed

text \<open>What the callers of \<open>NewGeneration\<close> use.\<close>

definition gen_made :: "nat \<Rightarrow> rt \<Rightarrow> rt \<Rightarrow> bool" where
  "gen_made g s t \<longleftrightarrow> layout_ok g s t \<and> same_rest s t \<and> gens_ok t \<and> bibop_wf (rt_bibop t)
    \<and> (\<forall>g'. g' \<noteq> g \<longrightarrow> get_gen g' t = get_gen g' s) \<and> (\<forall>c. g_cacheObj (get_gen g t) = Some c \<longrightarrow> obj_ok c)
    \<and> (\<exists>xs c o1. get_gen g t = (get_gen g s)\<lparr>g_cacheObj := c, g_toObj := o1, g_arena := xs\<rparr>)
    \<and> (\<forall>j < 5. \<exists>p. get_arena g j t = new_arena_of p (g_arena (get_gen g s)) j)"

lemma NewGeneration_made:
  assumes "gen_ready mmap g s"
  shows "NewGeneration mmap g s = Inr (False, s) \<or> (\<exists>t. NewGeneration mmap g s = Inr (True, t) \<and> gen_made g s t)"
proof -
  have s: "gens_ok s" "g < 14" "\<forall>c. g_cacheObj (get_gen g s) = Some c \<longrightarrow> obj_ok c" using assms by (auto simp: gen_ready_def)
  have "gen_made g s (new_gen g obj cache ms b s)"
    if o: "sizes_ok (mo_base obj) (g_arena (get_gen g s))" "cache = None \<or> cache = g_cacheObj (get_gen g s)" "bibop_wf b"
      and b: "\<forall>j < 5. \<forall>q \<in> region_pages (place (mo_base obj) (g_arena (get_gen g s)) j) (a_tospSizeB (g_arena (get_gen g s) ! j)). page_map b q = a_id (g_arena (get_gen g s) ! j)"
        "\<forall>q. (\<forall>j < 5. q \<notin> region_pages (place (mo_base obj) (g_arena (get_gen g s)) j) (a_tospSizeB (g_arena (get_gen g s) ! j))) \<longrightarrow> page_map b q = page_map (rt_bibop s) q"
    for obj cache ms b
  proof -
    let ?t = "new_gen g obj cache ms b s"
    note sel = new_gen_sel [OF s(1,2), where obj = obj and cache = cache and ms = ms and b = b]
    from sel(7) obtain xs where xs: "get_gen g ?t = (get_gen g s)\<lparr>g_cacheObj := cache, g_toObj := Some obj, g_arena := xs\<rparr>" by blast
    have 1: "\<exists>xs c o1. get_gen g ?t = (get_gen g s)\<lparr>g_cacheObj := c, g_toObj := o1, g_arena := xs\<rparr>" using xs by blast
    have 2: "\<forall>c. g_cacheObj (get_gen g ?t) = Some c \<longrightarrow> obj_ok c" using xs o(2) s(3) by auto
    have 3: "layout_ok g s ?t" by (rule new_gen_layout [OF s(1,2) refl o(1) b])
    have 4: "bibop_wf (rt_bibop ?t)" using sel(4) o(3) by simp
    have 5: "\<forall>j < 5. \<exists>p. get_arena g j ?t = new_arena_of p (g_arena (get_gen g s)) j" using sel(2) by blast
    have 6: "\<forall>g'. g' \<noteq> g \<longrightarrow> get_gen g' ?t = get_gen g' s" using sel(3) by blast
    show ?thesis unfolding gen_made_def
      by (rule conjI [OF 3 conjI [OF sel(8) conjI [OF sel(1) conjI [OF 4 conjI [OF 6 conjI [OF 2 conjI [OF 1 5]]]]]]])
  qed
  note made = this
  from NewGeneration_ok [OF assms] show ?thesis
  proof (elim disjE exE conjE)
    fix obj cache ms b
    assume *: "NewGeneration mmap g s = Inr (True, new_gen g obj cache ms b s)" "sizes_ok (mo_base obj) (g_arena (get_gen g s))" "bibop_wf b"
      "\<forall>j < 5. \<forall>q \<in> region_pages (place (mo_base obj) (g_arena (get_gen g s)) j) (a_tospSizeB (g_arena (get_gen g s) ! j)). page_map b q = a_id (g_arena (get_gen g s) ! j)"
      "\<forall>q. (\<forall>j < 5. q \<notin> region_pages (place (mo_base obj) (g_arena (get_gen g s)) j) (a_tospSizeB (g_arena (get_gen g s) ! j))) \<longrightarrow> page_map b q = page_map (rt_bibop s) q"
    note m = made [OF *(2) _ *(3-5)]
    show ?thesis if "cache = None" using m [of cache ms] that *(1) by blast
    show ?thesis if "cache = g_cacheObj (get_gen g s)" using m [of cache ms] that *(1) by blast
  qed simp
qed

text \<open>C14. \<open>NewGeneration\<close> never fails in an undefined way: without memory it reports it and leaves
  the state as it was; otherwise the active arenas lie one after the other in page-aligned,
  disjoint regions of their sizes, every address of an arena's region is mapped to the arena's
  identifier and no other address changes its identifier, allocation starts at the base, two
  words above it in pair space, inactive arenas have no space, and of memory only the two
  unused words of pair space are written.\<close>

theorem NewGeneration_layout:
  assumes "gen_ready mmap g s"
  shows "NewGeneration mmap g s = Inr (False, s) \<or> (\<exists>t. NewGeneration mmap g s = Inr (True, t) \<and> layout_ok g s t \<and> same_rest s t)"
  using NewGeneration_made [OF assms] unfolding gen_made_def by blast

end
