(* ===== verification/Flip_Space.thy ===== *)
theory Flip_Space
  imports Gen_Space Minor_Correct
begin

text \<open>
  \<open>Flip\<close> gives each generation that it flips enough space for everything that a major
  collection may copy there, and the generation that receives the oldest objects of the last one
  has enough space without a flip.
\<close>

section \<open>What may be copied\<close>

text \<open>The old objects of an arena, which are promoted; the young ones, which stay.\<close>

definition old_szb :: "nat \<Rightarrow> nat \<Rightarrow> rt \<Rightarrow> addr_t" where
  "old_szb g j s = (let ap = get_arena g j s in if isACTIVE ap then a_oldTop ap - a_tospBase ap else 0)"

definition young_szb :: "nat \<Rightarrow> nat \<Rightarrow> rt \<Rightarrow> addr_t" where
  "young_szb g j s = (let ap = get_arena g j s in if isACTIVE ap then a_nextw ap - a_oldTop ap else 0)"

text \<open>What the previous generation may promote; the first generation gets all of the allocation space.\<close>

fun carried_szb :: "nat \<Rightarrow> nat \<Rightarrow> rt \<Rightarrow> addr_t" where
  "carried_szb 0 j s = h_allocSzB (rt_heap s)"
| "carried_szb (Suc g) j s = old_szb g j s"

definition flip_need :: "nat \<Rightarrow> nat \<Rightarrow> rt \<Rightarrow> nat" where
  "flip_need g j s = unat (carried_szb g j s) + unat (young_szb g j s) + unat (a_reqSizeB (get_arena g j s))"

definition arena_bounded :: "arena \<Rightarrow> bool" where
  "arena_bounded ap \<longleftrightarrow> a_reqSizeB ap < 2 ^ 38 \<and> a_maxSizeB ap < 2 ^ 38
     \<and> (isACTIVE ap \<longrightarrow> a_oldTop ap - a_tospBase ap < 2 ^ 38 \<and> a_nextw ap - a_oldTop ap < 2 ^ 38)"

text \<open>A size that is enough for \<open>n\<close> bytes.\<close>

definition fits :: "nat \<Rightarrow> nat \<Rightarrow> addr_t \<Rightarrow> bool" where
  "fits j n sz \<longleftrightarrow> paged sz \<and> unat sz < 2 ^ 41 \<and> (sz = 0 \<and> n = 0 \<or> n + (if j = PAIR_INDX then 16 else 0) \<le> unat sz)"

lemma RND_fits:
  assumes "n + (if j = PAIR_INDX then 16 else 0) \<le> unat sz" "unat sz < 2 ^ 40"
  shows "fits j n (RND_MEMOBJ_SZB sz)"
proof -
  have r: "unat (RND_MEMOBJ_SZB sz) = (unat sz + (2 ^ 18 - 1)) div 2 ^ 18 * 2 ^ 18" using assms(2) by (intro RND_MEMOBJ_page) simp
  then have "unat sz \<le> unat (RND_MEMOBJ_SZB sz)" "unat (RND_MEMOBJ_SZB sz) \<le> unat sz + 2 ^ 18" by auto
  then show ?thesis using assms r by (simp add: fits_def paged_def)
qed

lemma new_size_ok:
  assumes n: "numGCs \<noteq> 0" and b: "unat prevOld < 2 ^ 38" "unat thisMin < 2 ^ 38" "unat req < 2 ^ 38" "unat mx < 2 ^ 38"
  shows "\<exists>minSz newSz. new_size j ratio numGCs prevOld thisMin req mx = Inr (minSz, newSz)
    \<and> unat minSz = unat prevOld + unat thisMin + unat req + (if j = PAIR_INDX then 16 else 0)
    \<and> unat minSz \<le> unat newSz \<and> unat minSz < 2 ^ 40 \<and> unat newSz < 2 ^ 40"
proof -
  let ?m = "if j = PAIR_INDX then prevOld + thisMin + req + 16 else prevOld + thisMin + req"
  have m: "unat ?m = unat prevOld + unat thisMin + unat req + (if j = PAIR_INDX then 16 else 0)"
  proof -
    have 1: "unat (prevOld + thisMin) = unat prevOld + unat thisMin" using b by (intro unat_add_less) simp
    have 2: "unat (prevOld + thisMin + req) = unat prevOld + unat thisMin + unat req" using b 1 by (subst unat_add_less) auto
    then have "unat (prevOld + thisMin + req + 16) = unat prevOld + unat thisMin + unat req + 16" using b by (subst unat_add_less) auto
    then show ?thesis using 2 by simp
  qed
  have lt: "unat ?m < 2 ^ 40" using m b by simp
  let ?n = "prevOld + req + of_int ratio * (thisMin div of_int numGCs)"
  let ?n1 = "if ?n < ?m then ?m else ?n"
  let ?n2 = "if mx < ?n1 then (if mx < ?m then ?m else mx) else ?n1"
  have "?m \<le> ?n2" by (auto simp: not_less)
  then have "unat ?m \<le> unat ?n2" by (simp add: word_le_nat_alt)
  moreover have "?n2 \<le> ?m \<or> ?n2 \<le> mx" by (auto simp: not_less)
  then have "unat ?n2 < 2 ^ 40" using lt b(4) by (auto simp: word_le_nat_alt)
  moreover have "new_size j ratio numGCs prevOld thisMin req mx = Inr (?m, ?n2)" using n by (simp add: new_size_def Let_def)
  ultimately show ?thesis using m lt by blast
qed

section \<open>One generation\<close>

lemma fits_0: "fits j 0 0" by (simp add: fits_def paged_def)

lemma RND_0: "RND_MEMOBJ_SZB 0 = 0" by (simp add: RND_MEMOBJ_SZB_def ROUNDUP_def)

definition arena_need :: "addr_t \<Rightarrow> arena \<Rightarrow> nat" where
  "arena_need prevOld ap = unat prevOld + unat (if isACTIVE ap then a_nextw ap - a_oldTop ap else 0) + unat (a_reqSizeB ap)"

definition arena_old :: "arena \<Rightarrow> addr_t" where "arena_old ap = (if isACTIVE ap then a_oldTop ap - a_tospBase ap else 0)"

lemma flip_arena_ok:
  assumes n: "numGCs \<noteq> 0" and b: "arena_bounded (get_arena g j s)" "prevOld j < 2 ^ 38"
  shows "\<exists>m a. flip_arena g numGCs j (prevOld, minSize, s) = Inr (prevOld(j := arena_old (get_arena g j s)), minSize(j := m), upd_arena g j (\<lambda>_. a) s)
    \<and> fits j (arena_need (prevOld j) (get_arena g j s)) (a_tospSizeB a) \<and> fits j (arena_need (prevOld j) (get_arena g j s)) (RND_MEMOBJ_SZB m)"
proof -
  let ?ap = "get_arena g j s"
  let ?f = "if isACTIVE ?ap then FLIP_ARENA ?ap else ?ap\<lparr>a_frspSizeB := 0\<rparr>"
  let ?y = "if isACTIVE ?ap then a_nextw ?ap - a_oldTop ?ap else 0"
  have y: "(if isACTIVE ?ap then a_frspTop ?f - a_oldTop ?f else 0) = ?y" "a_reqSizeB ?f = a_reqSizeB ?ap" "a_maxSizeB ?f = a_maxSizeB ?ap"
    by (simp_all add: FLIP_ARENA_def)
  show ?thesis
  proof (cases "\<not> isACTIVE ?ap \<and> a_reqSizeB ?ap = 0 \<and> prevOld j = 0")
    case True
    then have "flip_arena g numGCs j (prevOld, minSize, s) = Inr (prevOld(j := arena_old ?ap), minSize(j := 0), upd_arena g j (\<lambda>_. ?f) s)"
      by (auto simp: flip_arena_def Let_def arena_old_def fun_eq_iff)
    moreover have "arena_need (prevOld j) ?ap = 0" "a_tospSizeB ?f = 0" using True inactive_size [of ?ap] by (simp_all add: arena_need_def)
    ultimately show ?thesis using fits_0 RND_0 by (intro exI [of _ 0] exI [of _ ?f]) (simp only: simp_thms)
  next
    case False
    have bd: "unat (prevOld j) < 2 ^ 38" "unat ?y < 2 ^ 38" "unat (a_reqSizeB ?ap) < 2 ^ 38" "unat (a_maxSizeB ?ap) < 2 ^ 38"
      using b by (auto simp: arena_bounded_def word_less_nat_alt)
    from new_size_ok [OF n bd, of j "g_ratio (get_gen g s)"] obtain minSz newSz where
      ns: "new_size j (g_ratio (get_gen g s)) numGCs (prevOld j) ?y (a_reqSizeB ?ap) (a_maxSizeB ?ap) = Inr (minSz, newSz)"
        "unat minSz = arena_need (prevOld j) ?ap + (if j = PAIR_INDX then 16 else 0)" "unat minSz \<le> unat newSz" "unat minSz < 2 ^ 40" "unat newSz < 2 ^ 40"
      by (auto simp: arena_need_def)
    let ?a = "if 0 < newSz then ?f\<lparr>a_tospSizeB := RND_MEMOBJ_SZB newSz\<rparr> else ?f\<lparr>a_nextw := 0, a_sweep_nextw := 0, a_tospTop := 0, a_tospSizeB := 0\<rparr>"
    have "flip_arena g numGCs j (prevOld, minSize, s) = Inr (prevOld(j := arena_old ?ap), minSize(j := minSz), upd_arena g j (\<lambda>_. ?a) s)"
    proof (cases "isACTIVE ?ap")
      case True
      then have "0 < a_tospSizeB ?ap" by (simp add: isACTIVE_def)
      with True ns(1) show ?thesis by (simp add: flip_arena_def Let_def FLIP_ARENA_def arena_old_def)
    next
      case no: False
      with False have "\<not> (a_reqSizeB ?ap = 0 \<and> prevOld j = 0)" by simp
      with no ns(1) show ?thesis by (auto simp: flip_arena_def Let_def arena_old_def)
    qed
    moreover have "fits j (arena_need (prevOld j) ?ap) (a_tospSizeB ?a)"
    proof (cases "0 < newSz")
      case True
      have "fits j (arena_need (prevOld j) ?ap) (RND_MEMOBJ_SZB newSz)" by (rule RND_fits) (use ns in auto)
      then show ?thesis using True by simp
    next
      case False
      then have "unat newSz = 0" by (simp add: word_gt_0)
      then show ?thesis using ns False by (simp add: fits_def paged_def)
    qed
    moreover have "fits j (arena_need (prevOld j) ?ap) (RND_MEMOBJ_SZB minSz)" by (rule RND_fits) (use ns in auto)
    ultimately show ?thesis by blast
  qed
qed

lemma flip_arenas_ok:
  assumes s: "gens_ok s" "g < 14" and n: "numGCs \<noteq> 0" and b: "\<forall>j < 5. arena_bounded (get_arena g j s)" "\<forall>j < 5. prevOld j < 2 ^ 38"
  shows "k \<le> 5 \<Longrightarrow> \<exists>minSize xs. rfold (flip_arena g numGCs) [0..<k] (prevOld, \<lambda>_. 0, s)
      = Inr (\<lambda>j. if j < k then arena_old (get_arena g j s) else prevOld j, minSize, set_arenas g xs s) \<and> length xs = 5
    \<and> (\<forall>j < k. fits j (arena_need (prevOld j) (get_arena g j s)) (a_tospSizeB (xs ! j)) \<and> fits j (arena_need (prevOld j) (get_arena g j s)) (RND_MEMOBJ_SZB (minSize j)))
    \<and> (\<forall>j < 5. k \<le> j \<longrightarrow> xs ! j = get_arena g j s)"
proof (induction k)
  case 0
  have "length (g_arena (get_gen g s)) = 5" using s by (simp add: gens_ok_def)
  then show ?case using set_arenas_self [OF s] by (intro exI [of _ "\<lambda>_. 0"] exI [of _ "g_arena (get_gen g s)"]) (simp add: get_arena_def)
next
  case (Suc k)
  then obtain minSize xs where x: "rfold (flip_arena g numGCs) [0..<k] (prevOld, \<lambda>_. 0, s)
      = Inr (\<lambda>j. if j < k then arena_old (get_arena g j s) else prevOld j, minSize, set_arenas g xs s)" "length xs = 5"
    "\<forall>j < k. fits j (arena_need (prevOld j) (get_arena g j s)) (a_tospSizeB (xs ! j)) \<and> fits j (arena_need (prevOld j) (get_arena g j s)) (RND_MEMOBJ_SZB (minSize j))"
    "\<forall>j < 5. k \<le> j \<longrightarrow> xs ! j = get_arena g j s" by auto
  have k: "k < 5" using Suc.prems by simp
  let ?po = "\<lambda>j. if j < k then arena_old (get_arena g j s) else prevOld j"
  have ga: "get_arena g k (set_arenas g xs s) = get_arena g k s" using get_arena_set_arenas [OF s, of g k xs] x(4) k by simp
  from flip_arena_ok [OF n, of g k "set_arenas g xs s" ?po minSize] b k ga obtain m a where
    m: "flip_arena g numGCs k (?po, minSize, set_arenas g xs s) = Inr (?po(k := arena_old (get_arena g k s)), minSize(k := m), upd_arena g k (\<lambda>_. a) (set_arenas g xs s))"
      "fits k (arena_need (prevOld k) (get_arena g k s)) (a_tospSizeB a)" "fits k (arena_need (prevOld k) (get_arena g k s)) (RND_MEMOBJ_SZB m)" by auto
  have "?po(k := arena_old (get_arena g k s)) = (\<lambda>j. if j < Suc k then arena_old (get_arena g j s) else prevOld j)" by (auto simp: fun_eq_iff less_Suc_eq)
  moreover have "upd_arena g k (\<lambda>_. a) (set_arenas g xs s) = set_arenas g (xs[k := a]) s" using upd_arena_set_arenas [OF s] by simp
  ultimately have "rfold (flip_arena g numGCs) [0..<Suc k] (prevOld, \<lambda>_. 0, s)
      = Inr (\<lambda>j. if j < Suc k then arena_old (get_arena g j s) else prevOld j, minSize(k := m), set_arenas g (xs[k := a]) s)"
    using x(1) m(1) by (simp add: rfold_append)
  moreover have "\<forall>j < Suc k. fits j (arena_need (prevOld j) (get_arena g j s)) (a_tospSizeB (xs[k := a] ! j))
      \<and> fits j (arena_need (prevOld j) (get_arena g j s)) (RND_MEMOBJ_SZB ((minSize(k := m)) j))"
    using x(2,3) m(2,3) k by (auto simp: nth_list_update less_Suc_eq)
  ultimately show ?case using x(2,4) by (intro exI [of _ "minSize(k := m)"] exI [of _ "xs[k := a]"]) auto
qed

lemma same_rest_upd_gen: "same_rest s (upd_gen g F s)" by (simp add: same_rest_def)
lemma same_rest_trans: "same_rest s t \<Longrightarrow> same_rest t u \<Longrightarrow> same_rest s u" by (simp add: same_rest_def)
lemma same_rest_refl: "same_rest s s" by (simp add: same_rest_def)

lemma avail_new:
  assumes "fits j n (a_tospSizeB (as ! j))"
  shows "n \<le> unat (avail (new_arena_of p as j))"
proof (cases "isACTIVE (as ! j)")
  case False
  then have "a_tospSizeB (as ! j) = 0" by (rule inactive_size)
  then show ?thesis using assms by (auto simp: fits_def)
next
  case True
  then have a: "isACTIVE (new_arena_of p as j)" by (simp add: isACTIVE_def new_arena_of_sel)
  let ?z = "a_tospSizeB (as ! j)"
  have "AVAIL_SPACE (new_arena_of p as j) = ?z - (if j = PAIR_INDX then 16 else 0)" using True by (simp add: AVAIL_SPACE_def new_arena_of_sel)
  moreover have f: "n + (if j = PAIR_INDX then 16 else 0) \<le> unat ?z" using assms True by (auto simp: fits_def isACTIVE_def)
  moreover have "j = PAIR_INDX \<Longrightarrow> unat (?z - 16) = unat ?z - 16" using f by (subst unat_sub) (auto simp: word_le_nat_alt)
  ultimately show ?thesis using a by (auto simp: avail_def split: if_splits)
qed

definition flip_ready :: "(mem_sys \<Rightarrow> addr_t \<Rightarrow> addr_t option) \<Rightarrow> nat \<Rightarrow> rt \<Rightarrow> bool" where
  "flip_ready mmap g s \<longleftrightarrow> gens_ok s \<and> g < MAX_NUM_GENS \<and> bibop_wf (rt_bibop s) \<and> (\<forall>ms. mem_ok mmap ms)
     \<and> (\<forall>j < NUM_ARENAS. arena_bounded (get_arena g j s)) \<and> (\<forall>c. g_cacheObj (get_gen g s) = Some c \<longrightarrow> obj_ok c)"

lemma gen_ready_sizes:
  assumes "gens_ok s" "g < 14" "bibop_wf (rt_bibop s)" "\<forall>ms. mem_ok mmap ms" "\<forall>c. g_cacheObj (get_gen g s) = Some c \<longrightarrow> obj_ok c"
    and f: "\<forall>j < 5. \<exists>n. fits j n (a_tospSizeB (get_arena g j s))"
  shows "gen_ready mmap g s"
proof -
  have l: "length (g_arena (get_gen g s)) = 5" using assms(1,2) by (simp add: gens_ok_def)
  have b: "paged (a_tospSizeB a) \<and> unat (a_tospSizeB a) < 2 ^ 41" if a: "a \<in> set (g_arena (get_gen g s))" for a
  proof -
    obtain j where "j < 5" "a = get_arena g j s" using a l by (auto simp: in_set_conv_nth get_arena_def)
    then show ?thesis using f by (auto simp: fits_def)
  qed
  have "sum_list (map (\<lambda>a. unat (a_tospSizeB a)) xs) \<le> length xs * 2 ^ 41" if "\<forall>a \<in> set xs. unat (a_tospSizeB a) < 2 ^ 41" for xs
    using that by (induction xs) auto
  from this [of "g_arena (get_gen g s)"] b l have "arena_total (g_arena (get_gen g s)) \<le> 5 * 2 ^ 41" by (simp add: arena_total_def)
  then show ?thesis using assms b by (simp add: gen_ready_def)
qed

lemma fold_sizes:
  assumes s: "gens_ok s" "g < 14" "length xs = 5"
  shows "k \<le> 5 \<Longrightarrow> fold (\<lambda>j. upd_arena g j (\<lambda>a. a\<lparr>a_tospSizeB := f j\<rparr>)) [0..<k] (set_arenas g xs s)
    = set_arenas g (map (\<lambda>j. if j < k then (xs ! j)\<lparr>a_tospSizeB := f j\<rparr> else xs ! j) [0..<5]) s"
proof (induction k)
  case 0
  have "map ((!) xs) [0..<5] = xs" using s(3) map_nth [of xs] by simp
  then show ?case by simp
next
  case (Suc k)
  let ?xs = "map (\<lambda>j. if j < k then (xs ! j)\<lparr>a_tospSizeB := f j\<rparr> else xs ! j) [0..<5]"
  have "?xs[k := (?xs ! k)\<lparr>a_tospSizeB := f k\<rparr>] = map (\<lambda>j. if j < Suc k then (xs ! j)\<lparr>a_tospSizeB := f j\<rparr> else xs ! j) [0..<5]"
    using Suc.prems by (intro nth_equalityI) (auto simp: nth_list_update less_Suc_eq)
  then show ?case using Suc upd_arena_set_arenas [OF s(1,2), of k _ ?xs] by simp
qed

lemma set_arenas_sel:
  assumes "gens_ok s" "g < 14" "length xs = 5"
  shows "gens_ok (set_arenas g xs s)" "get_gen g' (set_arenas g xs s) = (if g' = g then (get_gen g s)\<lparr>g_arena := xs\<rparr> else get_gen g' s)"
proof -
  show g: "get_gen g' (set_arenas g xs s) = (if g' = g then (get_gen g s)\<lparr>g_arena := xs\<rparr> else get_gen g' s)" for g'
    using get_gen_upd_gen [OF assms(1,2)] by (simp add: set_arenas_def)
  show "gens_ok (set_arenas g xs s)" using assms g by (simp add: gens_ok_def) (simp add: set_arenas_def upd_gen_def)
qed

lemma upd_gen_upd_gen:
  "gens_ok s \<Longrightarrow> g < 14 \<Longrightarrow> upd_gen g A (upd_gen g B s) = upd_gen g (\<lambda>gn. A (B gn)) s"
  using gens_okD [of s g] by (simp add: upd_gen_def get_gen_def)

lemma upd_arena_stamp:
  assumes "gens_ok u" "g < 14"
  shows "upd_arena g j h (upd_gen g (\<lambda>gn. gn\<lparr>g_lastPrevGC := p, g_numGCs := g_numGCs gn + 1, g_fromObj := g_toObj gn\<rparr>) u)
    = upd_gen g (\<lambda>gn. gn\<lparr>g_lastPrevGC := p, g_numGCs := g_numGCs gn + 1, g_fromObj := g_toObj gn\<rparr>) (upd_arena g j h u)"
proof -
  let ?F = "\<lambda>gn. gn\<lparr>g_lastPrevGC := p, g_numGCs := g_numGCs gn + 1, g_fromObj := g_toObj gn\<rparr>"
  let ?A = "\<lambda>gn. gn\<lparr>g_arena := (g_arena gn)[j := h (g_arena gn ! j)]\<rparr>"
  have "?A (?F gn) = ?F (?A gn)" for gn by (cases gn) simp
  then have "(\<lambda>gn. ?A (?F gn)) = (\<lambda>gn. ?F (?A gn))" by (rule ext)
  then show ?thesis unfolding upd_arena_def upd_gen_upd_gen [OF assms] by (rule arg_cong)
qed

lemma flip_gen_ok:
  assumes r: "flip_ready mmap g s" and n: "prevGC - g_lastPrevGC (get_gen g s) \<noteq> 0" and po: "\<forall>j < 5. prevOld j < 2 ^ 38"
  shows "(\<exists>msg. flip_gen mmap g prevGC prevOld s = Inl (Die msg)) \<or>
    (\<exists>po' t. flip_gen mmap g prevGC prevOld s = Inr (g_numGCs (get_gen g s) + 1, po', t) \<and> (\<forall>j < 5. po' j = arena_old (get_arena g j s))
      \<and> (\<forall>j < 5. arena_need (prevOld j) (get_arena g j s) \<le> unat (avail (get_arena g j t)))
      \<and> gens_ok t \<and> bibop_wf (rt_bibop t) \<and> same_rest s t \<and> (\<forall>g'. g' \<noteq> g \<longrightarrow> get_gen g' t = get_gen g' s))"
proof -
  have s: "gens_ok s" "g < 14" "bibop_wf (rt_bibop s)" "\<forall>ms. mem_ok mmap ms" "\<forall>j < 5. arena_bounded (get_arena g j s)"
    "\<forall>c. g_cacheObj (get_gen g s) = Some c \<longrightarrow> obj_ok c" using r by (auto simp: flip_ready_def)
  from flip_arenas_ok [OF s(1,2) n s(5) po, of 5] obtain minSize xs where
    x: "rfold (flip_arena g (prevGC - g_lastPrevGC (get_gen g s))) [0..<5] (prevOld, \<lambda>_. 0, s)
        = Inr (\<lambda>j. if j < 5 then arena_old (get_arena g j s) else prevOld j, minSize, set_arenas g xs s)" "length xs = 5"
      "\<forall>j < 5. fits j (arena_need (prevOld j) (get_arena g j s)) (a_tospSizeB (xs ! j)) \<and> fits j (arena_need (prevOld j) (get_arena g j s)) (RND_MEMOBJ_SZB (minSize j))"
    by auto
  let ?po = "\<lambda>j. if j < 5 then arena_old (get_arena g j s) else prevOld j"
  let ?F = "\<lambda>gn. gn\<lparr>g_lastPrevGC := prevGC, g_numGCs := g_numGCs gn + 1, g_fromObj := g_toObj gn\<rparr>"
  let ?s2 = "\<lambda>ys. upd_gen g ?F (set_arenas g ys s)"
  text \<open>A state whose arenas have enough space, and what \<open>NewGeneration\<close> makes of it.\<close>
  have st: "gens_ok (?s2 ys)" "\<forall>g'. g' \<noteq> g \<longrightarrow> get_gen g' (?s2 ys) = get_gen g' s" "get_gen g (?s2 ys) = ?F ((get_gen g s)\<lparr>g_arena := ys\<rparr>)"
    "same_rest s (?s2 ys)" "rt_bibop (?s2 ys) = rt_bibop s" if "length ys = 5" for ys
  proof -
    note a = set_arenas_sel [OF s(1,2) that]
    show "gens_ok (?s2 ys)" by (rule gens_ok_upd_gen [OF a(1) s(2)]) simp
    show "\<forall>g'. g' \<noteq> g \<longrightarrow> get_gen g' (?s2 ys) = get_gen g' s" "get_gen g (?s2 ys) = ?F ((get_gen g s)\<lparr>g_arena := ys\<rparr>)"
      using get_gen_upd_gen [OF a(1) s(2)] a(2) by auto
    show "same_rest s (?s2 ys)" "rt_bibop (?s2 ys) = rt_bibop s" by (auto simp: same_rest_def set_arenas_def)
  qed
  have rd: "gen_ready mmap g (?s2 ys)" if "length ys = 5" "\<forall>j < 5. fits j (arena_need (prevOld j) (get_arena g j s)) (a_tospSizeB (ys ! j))" for ys
    by (rule gen_ready_sizes) (use st [OF that(1)] s that in \<open>auto simp: get_arena_def\<close>)
  let ?D = "\<lambda>t. if isACTIVE (get_arena g ARRAY_INDX t) then NewDirtyVector g t else t"
  have fin: "g_numGCs (get_gen g t) = g_numGCs (get_gen g s) + 1 \<and> (\<forall>j < 5. arena_need (prevOld j) (get_arena g j s) \<le> unat (avail (get_arena g j (?D t))))
      \<and> gens_ok (?D t) \<and> bibop_wf (rt_bibop (?D t)) \<and> same_rest s (?D t) \<and> (\<forall>g'. g' \<noteq> g \<longrightarrow> get_gen g' (?D t) = get_gen g' s)"
    if ys: "length ys = 5" "\<forall>j < 5. fits j (arena_need (prevOld j) (get_arena g j s)) (a_tospSizeB (ys ! j))" and t: "gen_made g (?s2 ys) t" for ys t
  proof -
    note u = st [OF ys(1)]
    have m: "same_rest (?s2 ys) t" "gens_ok t" "bibop_wf (rt_bibop t)" "\<forall>g'. g' \<noteq> g \<longrightarrow> get_gen g' t = get_gen g' (?s2 ys)"
      "\<exists>xs c o1. get_gen g t = (get_gen g (?s2 ys))\<lparr>g_cacheObj := c, g_toObj := o1, g_arena := xs\<rparr>"
      "\<forall>j < 5. \<exists>p. get_arena g j t = new_arena_of p (g_arena (get_gen g (?s2 ys))) j"
      using t unfolding gen_made_def by blast+
    have ga: "get_arena g j (?D t) = get_arena g j t" for j
      using get_gen_upd_gen [OF m(2) s(2), of g] by (simp add: get_arena_def NewDirtyVector_def Let_def)
    have "arena_need (prevOld j) (get_arena g j s) \<le> unat (avail (get_arena g j (?D t)))" if "j < 5" for j
    proof -
      from m(6) that obtain p where "get_arena g j t = new_arena_of p ys j" using u(3) by auto
      then show ?thesis using avail_new [of j _ ys] ys(2) that ga by simp
    qed
    moreover have "g_numGCs (get_gen g t) = g_numGCs (get_gen g s) + 1" using m(5) u(3) by auto
    moreover have "gens_ok (?D t)" using gens_ok_upd_gen [OF m(2) s(2)] m(2) by (simp add: NewDirtyVector_def Let_def)
    moreover have "bibop_wf (rt_bibop (?D t))" "same_rest t (?D t)" using m(3) by (simp_all add: NewDirtyVector_def Let_def same_rest_upd_gen same_rest_refl)
    moreover have "\<forall>g'. g' \<noteq> g \<longrightarrow> get_gen g' (?D t) = get_gen g' s"
      using get_gen_upd_gen [OF m(2) s(2)] m(4) u(2) by (simp add: NewDirtyVector_def Let_def)
    ultimately show ?thesis using m(1) u(4) by (blast intro: same_rest_trans)
  qed
  let ?ys = "map (\<lambda>j. (xs ! j)\<lparr>a_tospSizeB := RND_MEMOBJ_SZB (minSize j)\<rparr>) [0..<5]"
  have e: "fold (\<lambda>j. upd_arena g j (\<lambda>a. a\<lparr>a_tospSizeB := RND_MEMOBJ_SZB (minSize j)\<rparr>)) [0..<5] (?s2 xs) = ?s2 ?ys"
  proof -
    have c: "upd_arena g j h (upd_gen g ?F u) = upd_gen g ?F (upd_arena g j h u)" if "gens_ok u" for j h u
      by (rule upd_arena_stamp [OF that s(2)])
    have "fold (\<lambda>j. upd_arena g j (\<lambda>a. a\<lparr>a_tospSizeB := f j\<rparr>)) js (upd_gen g ?F u) = upd_gen g ?F (fold (\<lambda>j. upd_arena g j (\<lambda>a. a\<lparr>a_tospSizeB := f j\<rparr>)) js u)"
      if "gens_ok u" for js f u
      using that by (induction js arbitrary: u) (auto simp: c gens_ok_upd_arena [OF _ s(2)])
    moreover have "map (\<lambda>j. if j < 5 then (xs ! j)\<lparr>a_tospSizeB := RND_MEMOBJ_SZB (minSize j)\<rparr> else xs ! j) [0..<5] = ?ys" by simp
    ultimately show ?thesis using fold_sizes [OF s(1,2) x(2), of 5 "\<lambda>j. RND_MEMOBJ_SZB (minSize j)"] set_arenas_sel(1) [OF s(1,2) x(2)] by (simp only: order_refl)
  qed
  have ys: "length ?ys = 5" "\<forall>j < 5. fits j (arena_need (prevOld j) (get_arena g j s)) (a_tospSizeB (?ys ! j))" using x(3) by auto
  have xs: "\<forall>j < 5. fits j (arena_need (prevOld j) (get_arena g j s)) (a_tospSizeB (xs ! j))" using x(3) by blast
  have fg: "flip_gen mmap g prevGC prevOld s = rbind (NewGeneration mmap g (?s2 xs)) (\<lambda>(ok, t).
      rbind (if ok then Inr t else rbind (NewGeneration mmap g (fold (\<lambda>j. upd_arena g j (\<lambda>a. a\<lparr>a_tospSizeB := RND_MEMOBJ_SZB (minSize j)\<rparr>)) [0..<5] t)) (\<lambda>(ok, t).
        if ok then Inr t else Inl (Die ''unable to allocate minimum size''))) (\<lambda>t. Inr (g_numGCs (get_gen g t), ?po, ?D t)))"
    unfolding flip_gen_def Let_def using x(1) by simp
  from NewGeneration_made [OF rd [OF x(2) xs]] consider (no) "NewGeneration mmap g (?s2 xs) = Inr (False, ?s2 xs)"
    | (yes) t where "NewGeneration mmap g (?s2 xs) = Inr (True, t)" "gen_made g (?s2 xs) t" by blast
  then show ?thesis
  proof cases
    case yes
    then show ?thesis using fg fin [OF x(2) xs yes(2)] by (intro disjI2 exI [of _ ?po] exI [of _ "?D t"]) simp
  next
    case no
    from NewGeneration_made [OF rd [OF ys]] consider "NewGeneration mmap g (?s2 ?ys) = Inr (False, ?s2 ?ys)"
      | t where "NewGeneration mmap g (?s2 ?ys) = Inr (True, t)" "gen_made g (?s2 ?ys) t" by blast
    then show ?thesis
    proof cases
      case 1
      then show ?thesis using fg no e by simp
    next
      case (2 t)
      then show ?thesis using fg no e fin [OF ys 2(2)] by (intro disjI2 exI [of _ ?po] exI [of _ "?D t"]) simp
    qed
  qed
qed


section \<open>All generations\<close>

definition carried_at :: "nat \<Rightarrow> (nat \<Rightarrow> addr_t) \<Rightarrow> rt \<Rightarrow> nat \<Rightarrow> nat \<Rightarrow> addr_t" where
  "carried_at i prevOld s g j = (if g = i then prevOld j else arena_old (get_arena (g - 1) j s))"

text \<open>What \<open>Flip\<close> leaves when it has started at generation \<open>i\<close>.\<close>

definition flipped :: "nat \<Rightarrow> nat \<Rightarrow> (nat \<Rightarrow> addr_t) \<Rightarrow> rt \<Rightarrow> nat \<Rightarrow> rt \<Rightarrow> bool" where
  "flipped min_gc_level i prevOld s n t \<longleftrightarrow> i \<le> n \<and> n \<le> h_numGens (rt_heap s) \<and> min min_gc_level (h_numGens (rt_heap s)) \<le> n
     \<and> (\<forall>g j. i \<le> g \<and> g < n \<and> j < 5 \<longrightarrow> arena_need (carried_at i prevOld s g j) (get_arena g j s) \<le> unat (avail (get_arena g j t)))
     \<and> (\<forall>j < 5. n < h_numGens (rt_heap s) \<longrightarrow> carried_at i prevOld s n j \<le> avail (get_arena n j t))
     \<and> (\<forall>g. g < i \<or> n \<le> g \<longrightarrow> get_gen g t = get_gen g s)"

lemma flip_ready_other:
  assumes "flip_ready mmap g s" "gens_ok t" "bibop_wf (rt_bibop t)" "get_gen g t = get_gen g s"
  shows "flip_ready mmap g t"
  using assms by (simp add: flip_ready_def get_arena_def)

lemma flipped_step:
  assumes t1: "\<forall>j < 5. po j = arena_old (get_arena i j s)" "\<forall>j < 5. arena_need (prevOld j) (get_arena i j s) \<le> unat (avail (get_arena i j t1))"
      "same_rest s t1" "\<forall>g'. g' \<noteq> i \<longrightarrow> get_gen g' t1 = get_gen g' s"
    and f: "flipped m (Suc i) po t1 n t"
  shows "flipped m i prevOld s n t"
proof -
  have N: "h_numGens (rt_heap t1) = h_numGens (rt_heap s)" using t1(3) by (simp add: same_rest_def)
  have n: "Suc i \<le> n" "n \<le> h_numGens (rt_heap s)" "min m (h_numGens (rt_heap s)) \<le> n" using f N by (simp_all add: flipped_def)
  have gi: "get_gen i t = get_gen i t1" using f by (simp add: flipped_def)
  have ga: "get_arena g j t1 = get_arena g j s" if "g \<noteq> i" for g j using t1(4) that by (simp add: get_arena_def)
  have c: "carried_at (Suc i) po t1 g j = carried_at i prevOld s g j" if "Suc i \<le> g" "j < 5" for g j
    using that t1(1) ga [of "g - 1" j] by (auto simp: carried_at_def)
  have "arena_need (carried_at i prevOld s g j) (get_arena g j s) \<le> unat (avail (get_arena g j t))" if g: "i \<le> g" "g < n" "j < 5" for g j
  proof (cases "g = i")
    case True
    then show ?thesis using t1(2) g gi by (simp add: carried_at_def get_arena_def)
  next
    case False
    then have "Suc i \<le> g" using g by simp
    then show ?thesis using f g c [of g j] ga [of g j] False unfolding flipped_def by metis
  qed
  moreover have "carried_at i prevOld s n j \<le> avail (get_arena n j t)" if "j < 5" "n < h_numGens (rt_heap s)" for j
    using f that n(1) c [of n j] N unfolding flipped_def by metis
  moreover have "get_gen g t = get_gen g s" if "g < i \<or> n \<le> g" for g
  proof -
    have "get_gen g t = get_gen g t1" using f that unfolding flipped_def by auto
    then show ?thesis using t1(4) that n(1) by auto
  qed
  ultimately show ?thesis using n unfolding flipped_def by auto
qed

lemma flip_gens_ok:
  assumes "i \<le> N" "N = h_numGens (rt_heap s)" "\<forall>g. i \<le> g \<and> g < N \<longrightarrow> flip_ready mmap g s" "\<forall>j < 5. prevOld j < 2 ^ 38"
    and "i < N \<Longrightarrow> prevGC - g_lastPrevGC (get_gen i s) \<noteq> 0"
    and "\<forall>g. i \<le> g \<and> Suc g < N \<longrightarrow> g_lastPrevGC (get_gen (Suc g) s) \<le> g_numGCs (get_gen g s)"
  shows "(\<exists>msg. flip_gens mmap m [i..<N] prevGC prevOld s = Inl (Die msg))
    \<or> (\<exists>n t. flip_gens mmap m [i..<N] prevGC prevOld s = Inr (n, t) \<and> flipped m i prevOld s n t)"
  using assms
proof (induction "N - i" arbitrary: i prevGC prevOld s)
  case 0
  then show ?case by (auto simp: flipped_def carried_at_def)
next
  case (Suc d)
  then have i: "i < N" by simp
  then have l: "[i..<N] = i # [Suc i..<N]" by (simp add: upt_conv_Cons)
  show ?case
  proof (cases "m \<le> i \<and> list_all (\<lambda>j. prevOld j \<le> avail (get_arena i j s)) [0..<NUM_ARENAS]")
    case True
    then have "flipped m i prevOld s i s" using i Suc.prems(2) by (simp add: flipped_def carried_at_def list_all_iff)
    then show ?thesis using True l by simp
  next
    case False
    then have fs: "flip_gens mmap m [i..<N] prevGC prevOld s = rbind (flip_gen mmap i prevGC prevOld s) (\<lambda>(prevGC, prevOld, s). flip_gens mmap m [Suc i..<N] prevGC prevOld s)"
      unfolding l flip_gens.simps by (rule if_not_P)
    have r: "flip_ready mmap i s" using Suc.prems(3) i by blast
    from flip_gen_ok [OF r Suc.prems(5) [OF i] Suc.prems(4)] show ?thesis
    proof (elim disjE exE conjE)
      fix msg assume "flip_gen mmap i prevGC prevOld s = Inl (Die msg)"
      then show ?thesis using fs by simp
    next
      fix po t1 assume t1: "flip_gen mmap i prevGC prevOld s = Inr (g_numGCs (get_gen i s) + 1, po, t1)" "\<forall>j < 5. po j = arena_old (get_arena i j s)"
        "\<forall>j < 5. arena_need (prevOld j) (get_arena i j s) \<le> unat (avail (get_arena i j t1))" "gens_ok t1" "bibop_wf (rt_bibop t1)"
        "same_rest s t1" "\<forall>g'. g' \<noteq> i \<longrightarrow> get_gen g' t1 = get_gen g' s"
      have e: "flip_gens mmap m [i..<N] prevGC prevOld s = flip_gens mmap m [Suc i..<N] (g_numGCs (get_gen i s) + 1) po t1" using fs t1(1) by simp
      have N: "N = h_numGens (rt_heap t1)" using Suc.prems(2) t1(6) by (simp add: same_rest_def)
      have rd: "\<forall>g. Suc i \<le> g \<and> g < N \<longrightarrow> flip_ready mmap g t1" 
      proof (intro allI impI)
        fix g assume g: "Suc i \<le> g \<and> g < N"
        then have "flip_ready mmap g s" "get_gen g t1 = get_gen g s" using Suc.prems(3) t1(7) by auto
        then show "flip_ready mmap g t1" using t1(4,5) by (blast intro: flip_ready_other)
      qed
      have b: "\<forall>j < 5. po j < 2 ^ 38" using t1(2) r by (auto simp: flip_ready_def arena_bounded_def arena_old_def)
      have p: "g_numGCs (get_gen i s) + 1 - g_lastPrevGC (get_gen (Suc i) t1) \<noteq> 0" if "Suc i < N"
      proof -
        have "g_lastPrevGC (get_gen (Suc i) s) \<le> g_numGCs (get_gen i s)" using Suc.prems(6) that by simp
        then show ?thesis using t1(7) by simp
      qed
      have q: "\<forall>g. Suc i \<le> g \<and> Suc g < N \<longrightarrow> g_lastPrevGC (get_gen (Suc g) t1) \<le> g_numGCs (get_gen g t1)" using Suc.prems(6) t1(7) by simp
      have d: "d = N - Suc i" using Suc.hyps(2) by simp
      from Suc.hyps(1) [OF d _ N rd b p q] i show ?thesis using e flipped_step [OF t1(2,3,6,7)] by auto
    qed
  qed
qed

text \<open>C12. \<open>Flip\<close> gives a major collection the space it needs. A generation can receive what the
  previous one promotes (all of the allocation space for the first), its own young objects
  and the space that an allocation requested. When the sizes are in range and the collection
  counters are in order, \<open>Flip\<close> either stops the program because memory is exhausted, or
  answers a number \<open>n\<close>, at least the requested level, of flipped generations: each of them has
  a new to-space in which all of that fits, arena by arena, and if there is a generation after
  them it can take what the last one promotes into the space it has left.\<close>

theorem Flip_space:
  assumes "\<forall>g < h_numGens (rt_heap s). flip_ready mmap g s" "h_numGens (rt_heap s) \<le> MAX_NUM_GENS"
    and "h_allocSzB (rt_heap s) < 2 ^ 38"
    and "0 < h_numGens (rt_heap s) \<Longrightarrow> g_lastPrevGC (get_gen 0 s) < h_numMinorGCs (rt_heap s)"
    and "\<forall>g. Suc g < h_numGens (rt_heap s) \<longrightarrow> g_lastPrevGC (get_gen (Suc g) s) \<le> g_numGCs (get_gen g s)"
  shows "(\<exists>msg. Flip mmap level s = Inl (Die msg))
    \<or> (\<exists>n t. Flip mmap level s = Inr (n, t) \<and> min level (h_numGens (rt_heap s)) \<le> n \<and> n \<le> h_numGens (rt_heap s)
        \<and> (\<forall>g < n. \<forall>j < NUM_ARENAS. flip_need g j s \<le> unat (avail (get_arena g j t)))
        \<and> (n < h_numGens (rt_heap s) \<longrightarrow> (\<forall>j < NUM_ARENAS. carried_szb n j s \<le> avail (get_arena n j t))))"
proof -
  let ?p = "\<lambda>_ :: nat. h_allocSzB (rt_heap s)"
  have c: "carried_at 0 ?p s g j = carried_szb g j s" for g j by (cases g) (simp_all add: carried_at_def arena_old_def old_szb_def Let_def)
  have n: "flip_need g j s = arena_need (carried_at 0 ?p s g j) (get_arena g j s)" for g j
    unfolding c by (simp add: flip_need_def arena_need_def young_szb_def Let_def)
  have "(\<exists>msg. Flip mmap level s = Inl (Die msg)) \<or> (\<exists>n t. Flip mmap level s = Inr (n, t) \<and> flipped level 0 ?p s n t)"
    unfolding Flip_def using assms by (intro flip_gens_ok) auto
  then show ?thesis unfolding n c [symmetric] by (auto simp: flipped_def)
qed

section \<open>An example\<close>

definition ex_mmap :: "mem_sys \<Rightarrow> addr_t \<Rightarrow> addr_t option" where
  "ex_mmap ms n = (if unat n < 2 ^ 46 \<and> addr_range 0x10000000000 n \<inter> ms_mapped ms = {} then Some 0x10000000000 else None)"

lemma ex_mmap_ok: "mem_ok ex_mmap ms"
  by (auto simp: mem_ok_def mmap_ok_def ex_mmap_def split: if_splits)

definition ex_flip :: rt where
  "ex_flip = ex_rt\<lparr>rt_bibop := InitBibop, rt_heap := ex_heap\<lparr>h_numGens := 2, h_numMinorGCs := 3, h_allocSzB := 0x40000,
     h_gen := replicate MAX_NUM_GENS (ex_gen\<lparr>g_lastPrevGC := 1, g_numGCs := 1,
       g_arena := map (\<lambda>i. (ex_arena i)\<lparr>a_tospSizeB := 0x40000, a_maxSizeB := 0x100000, a_nextw := a_tospBase (ex_arena i) + 0x100\<rparr>) [0..<NUM_ARENAS]\<rparr>)\<rparr>\<rparr>"

lemma ex_flip_gen: "g < 14 \<Longrightarrow> get_gen g ex_flip = ex_gen\<lparr>g_lastPrevGC := 1, g_numGCs := 1,
       g_arena := map (\<lambda>i. (ex_arena i)\<lparr>a_tospSizeB := 0x40000, a_maxSizeB := 0x100000, a_nextw := a_tospBase (ex_arena i) + 0x100\<rparr>) [0..<NUM_ARENAS]\<rparr>"
  by (simp add: ex_flip_def get_gen_def)

lemma ex_flip_ok: "gens_ok ex_flip" "bibop_wf (rt_bibop ex_flip)"
proof -
  show "gens_ok ex_flip" unfolding gens_ok_def using ex_flip_gen by (simp add: ex_flip_def)
  show "bibop_wf (rt_bibop ex_flip)" using InitBibop_ok by (simp add: ex_flip_def)
qed

lemma ex_flip_ready: "g < 14 \<Longrightarrow> flip_ready ex_mmap g ex_flip"
  unfolding flip_ready_def using ex_flip_ok ex_mmap_ok
  by (auto simp: arena_bounded_def get_arena_def ex_flip_gen ex_arena_def Let_def ex_gen_def)

theorem NewGeneration_layout_witness:
  "gen_ready ex_mmap 0 ex_flip \<and> (NewGeneration ex_mmap 0 ex_flip = Inr (False, ex_flip)
    \<or> (\<exists>t. NewGeneration ex_mmap 0 ex_flip = Inr (True, t) \<and> layout_ok 0 ex_flip t \<and> same_rest ex_flip t))"
proof -
  have "gen_ready ex_mmap 0 ex_flip" unfolding gen_ready_def using ex_flip_ok ex_mmap_ok
    by (auto simp: ex_flip_gen ex_arena_def Let_def ex_gen_def paged_def arena_total_def upt_conv_Cons)
  then show ?thesis using NewGeneration_layout by blast
qed

theorem Flip_space_witness:
  "(\<exists>msg. Flip ex_mmap 1 ex_flip = Inl (Die msg))
    \<or> (\<exists>n t. Flip ex_mmap 1 ex_flip = Inr (n, t) \<and> 1 \<le> n \<and> n \<le> 2 \<and> (\<forall>g < n. \<forall>j < NUM_ARENAS. flip_need g j ex_flip \<le> unat (avail (get_arena g j t))))"
proof -
  have h: "h_numGens (rt_heap ex_flip) = 2" "h_allocSzB (rt_heap ex_flip) = 0x40000" "h_numMinorGCs (rt_heap ex_flip) = 3" by (simp_all add: ex_flip_def)
  show ?thesis using Flip_space [of ex_flip ex_mmap 1] ex_flip_ready by (simp add: h ex_flip_gen) blast
qed

end
