(* ===== verification/Big_Inv.thy ===== *)
theory Big_Inv
  imports Flip_Space
begin

text \<open>
  The big-object regions as an allocator: the invariant that the descriptors of a region divide
  its pages, that free neighbours are always joined and that the free list holds exactly the free
  descriptors, which \<open>BO_Alloc\<close> and \<open>BO_Free\<close> keep.
\<close>

section \<open>A region as a list of segments\<close>

text \<open>A region is a list of descriptors with their numbers of pages.\<close>

type_synonym segs = "(nat \<times> nat) list"

definition tot :: "segs \<Rightarrow> nat" where "tot sg = sum_list (map snd sg)"
definition segs_map :: "segs \<Rightarrow> nat list" where "segs_map sg = concat (map (\<lambda>(d, n). replicate n d) sg)"

lemma tot_simps [simp]: "tot [] = 0" "tot ((d, n) # sg) = n + tot sg" "tot (xs @ ys) = tot xs + tot ys"
  by (simp_all add: tot_def)

lemma segs_map_simps [simp]: "segs_map [] = []" "segs_map ((d, n) # sg) = replicate n d @ segs_map sg" "segs_map (xs @ ys) = segs_map xs @ segs_map ys"
  by (simp_all add: segs_map_def)

lemma length_segs_map [simp]: "length (segs_map sg) = tot sg"
  by (induction sg) auto

lemma fold_fill: "fold (\<lambda>i xs. xs[i := d]) [length a..<length a + length b] (a @ b @ c) = a @ replicate (length b) d @ c"
proof (induction b arbitrary: a)
  case (Cons x b)
  have "[length a..<length a + length (x # b)] = length a # [Suc (length a)..<length a + length (x # b)]" by (rule upt_conv_Cons) simp
  then show ?case using Cons [of "a @ [d]"] by (simp del: upt_Suc)
qed simp

text \<open>The record of a descriptor for \<open>n\<close> pages from page \<open>p\<close> of region \<open>r\<close>.\<close>

definition desc_at :: "nat \<Rightarrow> addr_t \<Rightarrow> nat \<Rightarrow> nat \<Rightarrow> bigobj_desc \<Rightarrow> bool" where
  "desc_at r a p n x \<longleftrightarrow> bd_region x = r \<and> bd_obj x = a + of_nat (1024 * p) \<and> 0 < n
     \<and> (if BO_IS_FREE x then bd_sizeB x = of_nat (1024 * n) else unat (bd_sizeB x) \<le> 1024 * n \<and> 1024 * n < unat (bd_sizeB x) + 1024)"

type_synonym descs = "nat \<Rightarrow> bigobj_desc option"

fun segs_ok :: "descs \<Rightarrow> nat \<Rightarrow> addr_t \<Rightarrow> nat \<Rightarrow> segs \<Rightarrow> bool" where
  "segs_ok D r a p [] \<longleftrightarrow> True"
| "segs_ok D r a p ((d, n) # sg) \<longleftrightarrow> (\<exists>x. D d = Some x \<and> desc_at r a p n x) \<and> segs_ok D r a (p + n) sg"

definition isfree :: "descs \<Rightarrow> nat \<Rightarrow> bool" where "isfree D d \<longleftrightarrow> (\<exists>x. D d = Some x \<and> BO_IS_FREE x)"

definition coalesced :: "descs \<Rightarrow> segs \<Rightarrow> bool" where
  "coalesced D sg \<longleftrightarrow> successively (\<lambda>x y. \<not> (isfree D (fst x) \<and> isfree D (fst y))) sg"

definition free_pages :: "descs \<Rightarrow> segs \<Rightarrow> nat" where
  "free_pages D sg = sum_list (map (\<lambda>(d, n). if isfree D d then n else 0) sg)"

lemma segs_ok_append [simp]: "segs_ok D r a p (xs @ ys) \<longleftrightarrow> segs_ok D r a p xs \<and> segs_ok D r a (p + tot xs) ys"
  by (induction xs arbitrary: p) (auto simp: add.assoc)

lemma free_pages_simps [simp]: "free_pages D [] = 0" "free_pages D ((d, n) # sg) = (if isfree D d then n else 0) + free_pages D sg"
  "free_pages D (xs @ ys) = free_pages D xs + free_pages D ys"
  by (simp_all add: free_pages_def)

text \<open>Two stores of descriptors that agree on the descriptors of a region.\<close>

definition agree :: "descs \<Rightarrow> descs \<Rightarrow> nat \<Rightarrow> bool" where
  "agree D D' d \<longleftrightarrow> map_option (\<lambda>x. x\<lparr>bd_prev := 0, bd_next := 0\<rparr>) (D' d) = map_option (\<lambda>x. x\<lparr>bd_prev := 0, bd_next := 0\<rparr>) (D d)"

lemma agree_desc:
  assumes "agree D D' d" "D d = Some x"
  obtains y where "D' d = Some y" "bd_obj y = bd_obj x" "bd_sizeB y = bd_sizeB x" "bd_state y = bd_state x" "bd_gen y = bd_gen x" "bd_region y = bd_region x"
proof -
  from assms obtain y where y: "D' d = Some y" "y\<lparr>bd_prev := 0, bd_next := 0\<rparr> = x\<lparr>bd_prev := 0, bd_next := 0\<rparr>" by (auto simp: agree_def)
  then have "bd_obj y = bd_obj x" "bd_sizeB y = bd_sizeB x" "bd_state y = bd_state x" "bd_gen y = bd_gen x" "bd_region y = bd_region x"
    by (metis bigobj_desc.simps bigobj_desc.surjective bigobj_desc.update_convs)+
  with y(1) show thesis by (rule that)
qed

lemma agree_sym: "agree D D' d \<Longrightarrow> agree D' D d" by (simp add: agree_def)
lemma agree_trans: "agree D D' d \<Longrightarrow> agree D' D'' d \<Longrightarrow> agree D D'' d" by (simp add: agree_def)
lemma agree_refl: "D' d = D d \<Longrightarrow> agree D D' d" by (simp add: agree_def)

lemma agree_isfree: "agree D D' d \<Longrightarrow> isfree D' d = isfree D d"
proof -
  have "agree D D' d \<Longrightarrow> isfree D d \<Longrightarrow> isfree D' d" for D D' by (auto simp: isfree_def BO_IS_FREE_def elim!: agree_desc)
  then show "agree D D' d \<Longrightarrow> isfree D' d = isfree D d" using agree_sym by blast
qed

lemma desc_at_agree: "agree D D' d \<Longrightarrow> D d = Some x \<Longrightarrow> desc_at r a p n x \<Longrightarrow> \<exists>y. D' d = Some y \<and> desc_at r a p n y"
  by (erule (1) agree_desc) (simp add: desc_at_def BO_IS_FREE_def)

lemma segs_agree:
  assumes "\<forall>d \<in> fst ` set sg. agree D D' d"
  shows "segs_ok D r a p sg \<Longrightarrow> segs_ok D' r a p sg" "coalesced D' sg = coalesced D sg" "free_pages D' sg = free_pages D sg"
proof -
  show "segs_ok D r a p sg \<Longrightarrow> segs_ok D' r a p sg"
    using assms by (induction sg arbitrary: p) (auto dest: desc_at_agree)
  show "coalesced D' sg = coalesced D sg" unfolding coalesced_def
    by (rule successively_cong) (use assms agree_isfree in auto)
  have "(\<lambda>(d, n). if isfree D' d then n else 0) x = (\<lambda>(d, n). if isfree D d then n else (0 :: nat)) x" if "x \<in> set sg" for x
    using assms that agree_isfree [of D D' "fst x"] by (auto split: prod.splits)
  then show "free_pages D' sg = free_pages D sg" unfolding free_pages_def by (metis (no_types, lifting) map_eq_conv)
qed

lemma segs_ok_in: "segs_ok D r a p sg \<Longrightarrow> (d, n) \<in> set sg \<Longrightarrow> \<exists>x q. D d = Some x \<and> desc_at r a q n x \<and> p \<le> q \<and> q + n \<le> p + tot sg"
proof (induction sg arbitrary: p)
  case (Cons e sg)
  obtain e1 e2 where e: "e = (e1, e2)" by (cases e)
  show ?case
  proof (cases "(d, n) = e")
    case True
    then show ?thesis using Cons.prems(1) e by (intro exI [of _ "the (D d)"] exI [of _ p]) auto
  next
    case False
    then have "(d, n) \<in> set sg" using Cons.prems by simp
    with Cons e show ?thesis by fastforce
  qed
qed simp

section \<open>The invariant\<close>

definition region_shape :: "bigobj_region \<Rightarrow> segs \<Rightarrow> bool" where
  "region_shape R sg \<longleftrightarrow> br_objMap R = segs_map sg \<and> br_nPages R = tot sg \<and> distinct (map fst sg)
     \<and> br_firstPage R = mo_base (br_memObj R) + 1024 \<and> obj_ok (br_memObj R) \<and> paged (mo_sizeB (br_memObj R))
     \<and> 1024 * (tot sg + 1) \<le> unat (mo_sizeB (br_memObj R))"

definition marked :: "rt \<Rightarrow> nat \<Rightarrow> bigobj_region \<Rightarrow> bool" where
  "marked s r R \<longleftrightarrow> rt_mem s (mo_base (br_memObj R)) = of_nat r \<and> r < 2 ^ 64 \<and>
     (br_minGen R < MAX_NUM_GENS \<longrightarrow> (\<forall>p \<in> region_pages (mo_base (br_memObj R)) (mo_sizeB (br_memObj R)).
        page_map (rt_bibop s) p = (if p = pg (mo_base (br_memObj R)) then AID_BIGOBJ_HDR (br_minGen R) else AID_BIGOBJ (br_minGen R))))"

definition bo_range :: "bigobj_region \<Rightarrow> addr_t set" where
  "bo_range R = addr_range (mo_base (br_memObj R)) (mo_sizeB (br_memObj R))"

definition bo_common :: "(nat \<Rightarrow> segs) \<Rightarrow> rt \<Rightarrow> bool" where
  "bo_common SG s \<longleftrightarrow> bibop_wf (rt_bibop s) \<and> (\<forall>d. rt_desc s d \<noteq> None \<longrightarrow> d < rt_fresh s)
     \<and> (\<forall>r R. rt_region s r = Some R \<longrightarrow> region_shape R (SG r) \<and> r < rt_fresh s \<and> bo_range R \<subseteq> ms_mapped (rt_ms s)
          \<and> h_freeBigObjs (rt_heap s) \<notin> fst ` set (SG r) \<and> marked s r R)
     \<and> (\<forall>r R r' R'. rt_region s r = Some R \<longrightarrow> rt_region s r' = Some R' \<longrightarrow> r \<noteq> r' \<longrightarrow> bo_range R \<inter> bo_range R' = {})"

text \<open>The descriptors of a region that is in order.\<close>

definition region_descs :: "descs \<Rightarrow> nat \<Rightarrow> bigobj_region \<Rightarrow> segs \<Rightarrow> bool" where
  "region_descs D r R sg \<longleftrightarrow> segs_ok D r (br_firstPage R) 0 sg \<and> coalesced D sg \<and> br_nFree R = int (free_pages D sg) \<and> br_minGen R < MAX_NUM_GENS"

text \<open>The free descriptors of the regions, without \<open>h\<close>.\<close>

definition free_descs :: "(nat \<Rightarrow> segs) \<Rightarrow> rt \<Rightarrow> nat set" where
  "free_descs SG s = {d. \<exists>r R. rt_region s r = Some R \<and> d \<in> fst ` set (SG r) \<and> isfree (rt_desc s) d}"

definition bo_inv :: "(nat \<Rightarrow> segs) \<Rightarrow> nat list \<Rightarrow> rt \<Rightarrow> bool" where
  "bo_inv SG xs s \<longleftrightarrow> bo_common SG s \<and> free_list s xs \<and> set xs = free_descs SG s
     \<and> (\<forall>r R. rt_region s r = Some R \<longrightarrow> region_descs (rt_desc s) r R (SG r))"

text \<open>
  Inside an operation one descriptor \<open>h\<close> is held: it is not in the free list, and its size and
  state are not yet set. \<open>c\<close> of its \<open>n\<close> pages are counted as free.
\<close>

definition held :: "(nat \<Rightarrow> segs) \<Rightarrow> nat list \<Rightarrow> nat \<Rightarrow> nat \<Rightarrow> segs \<Rightarrow> nat \<Rightarrow> segs \<Rightarrow> nat \<Rightarrow> rt \<Rightarrow> bool" where
  "held SG xs h r pre n post c s \<longleftrightarrow> bo_common SG s \<and> free_list s xs \<and> set xs = free_descs SG s - {h}
     \<and> (\<forall>r' R. r' \<noteq> r \<longrightarrow> rt_region s r' = Some R \<longrightarrow> region_descs (rt_desc s) r' R (SG r') \<and> h \<notin> fst ` set (SG r'))
     \<and> SG r = pre @ (h, n) # post \<and> 0 < n
     \<and> (\<exists>R x. rt_region s r = Some R \<and> rt_desc s h = Some x \<and> bd_region x = r \<and> bd_obj x = br_firstPage R + of_nat (1024 * tot pre)
          \<and> segs_ok (rt_desc s) r (br_firstPage R) 0 pre \<and> segs_ok (rt_desc s) r (br_firstPage R) (tot pre + n) post
          \<and> coalesced (rt_desc s) pre \<and> coalesced (rt_desc s) post
          \<and> br_nFree R = int (free_pages (rt_desc s) pre + c + free_pages (rt_desc s) post))"

text \<open>The objects of the regions: where they are, their size, state and generation.\<close>

definition live :: "(nat \<Rightarrow> segs) \<Rightarrow> rt \<Rightarrow> nat \<Rightarrow> bool" where
  "live SG s d \<longleftrightarrow> (\<exists>r R. rt_region s r = Some R \<and> d \<in> fst ` set (SG r)) \<and> \<not> isfree (rt_desc s) d"

type_synonym bo_view = "nat \<Rightarrow> (addr_t \<times> addr_t \<times> nat \<times> nat) option"

definition bobj :: "(nat \<Rightarrow> segs) \<Rightarrow> rt \<Rightarrow> bo_view" where
  "bobj SG s d = (if live SG s d then map_option (\<lambda>x. (bd_obj x, bd_sizeB x, bd_state x, bd_gen x)) (rt_desc s d) else None)"

lemma bobj_agree:
  assumes "agree (rt_desc s) (rt_desc s') d" "(\<exists>r R. rt_region s r = Some R \<and> d \<in> fst ` set (SG r)) = (\<exists>r R. rt_region s' r = Some R \<and> d \<in> fst ` set (SG' r))"
  shows "bobj SG' s' d = bobj SG s d"
proof -
  have "live SG' s' d = live SG s d" unfolding live_def agree_isfree [OF assms(1)] assms(2) ..
  moreover have "map_option (\<lambda>x. (bd_obj x, bd_sizeB x, bd_state x, bd_gen x)) (rt_desc s' d) = map_option (\<lambda>x. (bd_obj x, bd_sizeB x, bd_state x, bd_gen x)) (rt_desc s d)"
  proof (cases "rt_desc s d")
    case None
    then show ?thesis using assms(1) by (simp add: agree_def)
  next
    case (Some x)
    show ?thesis by (rule agree_desc [OF assms(1) Some]) (simp add: Some)
  qed
  ultimately show ?thesis by (simp add: bobj_def)
qed

lemma same_objs_agree: "same_objs s s' \<Longrightarrow> agree (rt_desc s) (rt_desc s') d"
  by (simp add: same_objs_def agree_def)

lemma same_objs_fields:
  assumes "same_objs s s'"
  shows "rt_region s' = rt_region s" "rt_bibop s' = rt_bibop s" "rt_mem s' = rt_mem s" "rt_heap s' = rt_heap s" "rt_ms s' = rt_ms s" "rt_fresh s' = rt_fresh s"
proof -
  obtain D where "s' = s\<lparr>rt_desc := D\<rparr>" using assms unfolding same_objs_def by blast
  then show "rt_region s' = rt_region s" "rt_bibop s' = rt_bibop s" "rt_mem s' = rt_mem s" "rt_heap s' = rt_heap s" "rt_ms s' = rt_ms s" "rt_fresh s' = rt_fresh s" by simp_all
qed

lemma agree_None: "agree D D' d \<Longrightarrow> D' d = None \<longleftrightarrow> D d = None"
  by (cases "D d"; cases "D' d") (auto simp: agree_def)

lemma same_objs_common:
  assumes so: "same_objs s s'" and "bo_common SG s"
  shows "bo_common SG s'"
proof -
  note f = same_objs_fields [OF so]
  have "rt_desc s' d = None \<longleftrightarrow> rt_desc s d = None" for d by (rule agree_None [OF same_objs_agree [OF so]])
  then show ?thesis using assms(2) unfolding bo_common_def marked_def by (simp add: f)
qed

lemma same_objs_free_descs: "same_objs s s' \<Longrightarrow> free_descs SG s' = free_descs SG s"
  using same_objs_fields(1) agree_isfree [OF same_objs_agree] by (auto simp: free_descs_def)

lemma agree_descs: "\<forall>d \<in> fst ` set sg. agree D D' d \<Longrightarrow> region_descs D r R sg \<Longrightarrow> region_descs D' r R sg"
  by (simp add: region_descs_def segs_agree)

lemma bo_inv_region:
  assumes "bo_inv SG xs s" "rt_region s r = Some R"
  shows "region_shape R (SG r)" "region_descs (rt_desc s) r R (SG r)" "marked s r R" "r < rt_fresh s" "h_freeBigObjs (rt_heap s) \<notin> fst ` set (SG r)"
  using assms unfolding bo_inv_def bo_common_def by blast+

lemma bo_inv_in:
  assumes "bo_inv SG xs s" "rt_region s r = Some R" "(d, n) \<in> set (SG r)"
  obtains x q where "rt_desc s d = Some x" "desc_at r (br_firstPage R) q n x" "q + n \<le> tot (SG r)"
  using segs_ok_in [of "rt_desc s" r "br_firstPage R" 0 "SG r" d n] bo_inv_region(2) [OF assms(1,2)] assms(3) by (auto simp: region_descs_def)

lemma inv_held:
  assumes inv: "bo_inv SG xs s" and R: "rt_region s r = Some R" and sg: "SG r = pre @ (h, n) # post"
    and s': "same_objs s s'" "free_list s' ys" "set ys = set xs - {h}"
  shows "held SG ys h r pre n post (if isfree (rt_desc s) h then n else 0) s'"
proof -
  note f = same_objs_fields [OF s'(1)]
  have ag: "agree (rt_desc s) (rt_desc s') d" for d by (rule same_objs_agree [OF s'(1)])
  have "(h, n) \<in> set (SG r)" using sg by simp
  from bo_inv_in [OF inv R this] obtain x q where x: "rt_desc s h = Some x" "desc_at r (br_firstPage R) q n x" by blast
  have c: "bo_common SG s'" using same_objs_common [OF s'(1)] inv by (simp add: bo_inv_def)
  have fd: "set ys = free_descs SG s' - {h}" using s'(3) inv same_objs_free_descs [OF s'(1)] by (simp add: bo_inv_def)
  have d: "region_descs (rt_desc s') r R (SG r)" by (rule agree_descs [OF _ bo_inv_region(2) [OF inv R]]) (simp add: ag)
  have o: "region_descs (rt_desc s') r' R' (SG r') \<and> h \<notin> fst ` set (SG r')" if r': "r' \<noteq> r" "rt_region s' r' = Some R'" for r' R'
  proof
    have R': "rt_region s r' = Some R'" using r'(2) f by simp
    show "region_descs (rt_desc s') r' R' (SG r')" by (rule agree_descs [OF _ bo_inv_region(2) [OF inv R']]) (simp add: ag)
    show "h \<notin> fst ` set (SG r')"
    proof
      assume "h \<in> fst ` set (SG r')"
      then obtain m where "(h, m) \<in> set (SG r')" by auto
      from bo_inv_in [OF inv R' this] x r'(1) show False by (auto simp: desc_at_def)
    qed
  qed
  have fr: "isfree (rt_desc s') h = isfree (rt_desc s) h" by (rule agree_isfree [OF ag])
  obtain y where y: "rt_desc s' h = Some y" "desc_at r (br_firstPage R) (tot pre) n y"
    using d unfolding sg region_descs_def by auto
  have p: "segs_ok (rt_desc s') r (br_firstPage R) 0 pre" "segs_ok (rt_desc s') r (br_firstPage R) (tot pre + n) post"
    "coalesced (rt_desc s') pre" "coalesced (rt_desc s') post"
    using d unfolding sg region_descs_def coalesced_def by (auto simp: successively_append_iff successively_Cons)
  have nf: "br_nFree R = int (free_pages (rt_desc s') pre + (if isfree (rt_desc s) h then n else 0) + free_pages (rt_desc s') post)"
    using d fr unfolding sg region_descs_def by auto
  show ?thesis unfolding held_def using c s'(2) fd o sg R p nf y f(1) by (auto simp: desc_at_def)
qed

section \<open>Setting the held descriptor\<close>

lemma region_pages_disjoint:
  assumes "obj_ok a" "paged (mo_sizeB a)" "obj_ok b" "paged (mo_sizeB b)"
    and "addr_range (mo_base a) (mo_sizeB a) \<inter> addr_range (mo_base b) (mo_sizeB b) = {}"
  shows "region_pages (mo_base a) (mo_sizeB a) \<inter> region_pages (mo_base b) (mo_sizeB b) = {}"
proof -
  have p: "paged (mo_base a)" "paged (mo_base b)" using assms by (auto simp: obj_ok_def)
  have "False" if q: "q \<in> region_pages (mo_base a) (mo_sizeB a)" "q \<in> region_pages (mo_base b) (mo_sizeB b)" for q
  proof -
    let ?x = "of_nat (q * 2 ^ 18) :: addr_t"
    have "q < pg (mo_base a) + pg (mo_sizeB a)" using q(1) by (simp add: region_pages_def)
    then have "q * 2 ^ 18 < unat (mo_base a) + unat (mo_sizeB a)" using paged_unat [OF p(1)] paged_unat [OF assms(2)] by simp
    then have "q * 2 ^ 18 < 2 ^ 48" using assms(1) by (simp add: obj_ok_def)
    moreover have "unat ?x = (q * 2 ^ 18) mod 2 ^ 64" by (subst unat_of_nat) simp
    ultimately have "unat ?x = q * 2 ^ 18" by simp
    then have "pg ?x = q" by (simp add: pg_def)
    then have "?x \<in> addr_range (mo_base a) (mo_sizeB a)" "?x \<in> addr_range (mo_base b) (mo_sizeB b)"
      using q by (simp_all only: range_pages_iff [OF p(1) assms(2), symmetric] range_pages_iff [OF p(2) assms(4), symmetric])
    then show False using assms(5) by blast
  qed
  then show ?thesis by blast
qed

lemma free_list_links:
  assumes "free_list s xs" "nx s' = nx s" "pv s' = pv s" "rt_heap s' = rt_heap s"
  shows "free_list s' xs"
  using assms by (simp add: free_list_def)

lemma coalesced_join:
  "coalesced D pre \<Longrightarrow> coalesced D post
    \<Longrightarrow> (isfree D h \<Longrightarrow> (pre = [] \<or> \<not> isfree D (fst (last pre))) \<and> (post = [] \<or> \<not> isfree D (fst (hd post))))
    \<Longrightarrow> coalesced D (pre @ (h, n) # post)"
  by (auto simp: coalesced_def successively_append_iff successively_Cons)

text \<open>The state of the final assignments to the held descriptor and its region.\<close>

definition put_held :: "nat \<Rightarrow> bigobj_desc \<Rightarrow> nat \<Rightarrow> bigobj_region \<Rightarrow> bibop \<Rightarrow> rt \<Rightarrow> rt" where
  "put_held h x r R b s = s\<lparr>rt_bibop := b, rt_desc := (rt_desc s)(h \<mapsto> x), rt_region := (rt_region s)(r \<mapsto> R)\<rparr>"

lemma put_held_sel [simp]:
  "rt_desc (put_held h x r R b s) = (rt_desc s)(h \<mapsto> x)" "rt_region (put_held h x r R b s) = (rt_region s)(r \<mapsto> R)"
  "rt_bibop (put_held h x r R b s) = b" "rt_mem (put_held h x r R b s) = rt_mem s" "rt_heap (put_held h x r R b s) = rt_heap s"
  "rt_ms (put_held h x r R b s) = rt_ms s" "rt_fresh (put_held h x r R b s) = rt_fresh s"
  by (simp_all add: put_held_def)

lemma held_common:
  assumes c: "bo_common SG s" and R: "rt_region s r = Some R"
    and R': "br_objMap R' = br_objMap R" "br_nPages R' = br_nPages R" "br_firstPage R' = br_firstPage R" "br_memObj R' = br_memObj R"
    and b: "bibop_wf b" "marked (put_held h x' r R' b s) r R'"
      "\<forall>p. p \<notin> region_pages (mo_base (br_memObj R)) (mo_sizeB (br_memObj R)) \<longrightarrow> page_map b p = page_map (rt_bibop s) p"
    and h: "rt_desc s h \<noteq> None"
  shows "bo_common SG (put_held h x' r R' b s)"
proof -
  let ?s = "put_held h x' r R' b s"
  have cs: "region_shape Q (SG q)" "q < rt_fresh s" "bo_range Q \<subseteq> ms_mapped (rt_ms s)" "h_freeBigObjs (rt_heap s) \<notin> fst ` set (SG q)" "marked s q Q"
    if "rt_region s q = Some Q" for q Q using c that by (simp_all add: bo_common_def)
  have dj: "bo_range Q \<inter> bo_range Q' = {}" if "rt_region s q = Some Q" "rt_region s q' = Some Q'" "q \<noteq> q'" for q Q q' Q'
    using c that by (simp add: bo_common_def)
  have rng: "bo_range R' = bo_range R" using R' by (simp add: bo_range_def)
  have shp: "region_shape R' (SG r)" using cs(1) [OF R] R' by (simp add: region_shape_def)
  have mk: "marked ?s q Q" if q: "q \<noteq> r" "rt_region s q = Some Q" for q Q
  proof -
    have "region_pages (mo_base (br_memObj Q)) (mo_sizeB (br_memObj Q)) \<inter> region_pages (mo_base (br_memObj R)) (mo_sizeB (br_memObj R)) = {}"
      using cs(1) [OF q(2)] cs(1) [OF R] dj [OF q(2) R q(1)] by (intro region_pages_disjoint) (auto simp: region_shape_def bo_range_def)
    then show ?thesis using cs(5) [OF q(2)] b(3) unfolding marked_def by (auto simp: disjoint_iff)
  qed
  have 1: "region_shape Q (SG q) \<and> q < rt_fresh ?s \<and> bo_range Q \<subseteq> ms_mapped (rt_ms ?s) \<and> h_freeBigObjs (rt_heap ?s) \<notin> fst ` set (SG q) \<and> marked ?s q Q"
    if "rt_region ?s q = Some Q" for q Q
  proof (cases "q = r")
    case True
    then have "Q = R'" using that by simp
    then show ?thesis using True shp cs [OF R] rng b(2) by simp
  next
    case False
    then have "rt_region s q = Some Q" using that by simp
    then show ?thesis using cs mk False by simp
  qed
  have 2: "bo_range Q \<inter> bo_range Q' = {}" if q: "rt_region ?s q = Some Q" "rt_region ?s q' = Some Q'" "q \<noteq> q'" for q Q q' Q'
  proof -
    have "\<exists>P. rt_region s a = Some P \<and> bo_range A = bo_range P" if "rt_region ?s a = Some A" for a A
      using that R rng by (cases "a = r") auto
    from this [OF q(1)] this [OF q(2)] show ?thesis using dj q(3) by metis
  qed
  have 3: "\<forall>d. rt_desc ?s d \<noteq> None \<longrightarrow> d < rt_fresh ?s" using c h by (auto simp: bo_common_def)
  show ?thesis unfolding bo_common_def using 1 2 3 b(1) by auto
qed

lemma held_set:
  assumes hd: "held SG xs h r pre n post c s" and R: "rt_region s r = Some R" and x: "rt_desc s h = Some x"
    and x': "bd_next x' = bd_next x" "bd_prev x' = bd_prev x" "desc_at r (br_firstPage R) (tot pre) n x'"
    and R': "br_objMap R' = br_objMap R" "br_nPages R' = br_nPages R" "br_firstPage R' = br_firstPage R" "br_memObj R' = br_memObj R"
      "br_nFree R' = int (free_pages (rt_desc s) pre + (if BO_IS_FREE x' then n else 0) + free_pages (rt_desc s) post)" "br_minGen R' < MAX_NUM_GENS"
    and b: "bibop_wf b" "marked (put_held h x' r R' b s) r R'"
      "\<forall>p. p \<notin> region_pages (mo_base (br_memObj R)) (mo_sizeB (br_memObj R)) \<longrightarrow> page_map b p = page_map (rt_bibop s) p"
    and fr: "BO_IS_FREE x' \<Longrightarrow> (pre = [] \<or> \<not> isfree (rt_desc s) (fst (last pre))) \<and> (post = [] \<or> \<not> isfree (rt_desc s) (fst (hd post)))"
  shows "bo_common SG (put_held h x' r R' b s)" "free_list (put_held h x' r R' b s) xs"
    "\<forall>q Q. rt_region (put_held h x' r R' b s) q = Some Q \<longrightarrow> region_descs (rt_desc (put_held h x' r R' b s)) q Q (SG q)"
    "free_descs SG (put_held h x' r R' b s) = set xs \<union> (if BO_IS_FREE x' then {h} else {})" "h \<notin> set xs"
    "\<forall>d. d \<noteq> h \<longrightarrow> bobj SG (put_held h x' r R' b s) d = bobj SG s d"
    "bobj SG (put_held h x' r R' b s) h = (if BO_IS_FREE x' then None else Some (bd_obj x', bd_sizeB x', bd_state x', bd_gen x'))"
proof -
  let ?s = "put_held h x' r R' b s"
  have h: "bo_common SG s" "free_list s xs" "set xs = free_descs SG s - {h}" "SG r = pre @ (h, n) # post"
    "\<forall>q Q. q \<noteq> r \<longrightarrow> rt_region s q = Some Q \<longrightarrow> region_descs (rt_desc s) q Q (SG q) \<and> h \<notin> fst ` set (SG q)"
    "segs_ok (rt_desc s) r (br_firstPage R) 0 pre" "segs_ok (rt_desc s) r (br_firstPage R) (tot pre + n) post"
    "coalesced (rt_desc s) pre" "coalesced (rt_desc s) post"
    using hd R unfolding held_def by auto
  show "bo_common SG ?s" using held_common [OF h(1) R R'(1-4) b] x by simp
  have "nx ?s = nx s" "pv ?s = pv s" using x x'(1,2) by (auto simp: nx_def pv_def fun_eq_iff)
  then show "free_list ?s xs" by (rule free_list_links [OF h(2)]) simp
  have ag: "agree (rt_desc s) (rt_desc ?s) d" if "d \<noteq> h" for d using that by (simp add: agree_refl)
  have "distinct (map fst (SG r))" using h(1) R by (simp add: bo_common_def region_shape_def)
  then have nh: "h \<notin> fst ` set pre" "h \<notin> fst ` set post" using h(4) by auto
  then have agp: "\<forall>d \<in> fst ` set pre. agree (rt_desc s) (rt_desc ?s) d" "\<forall>d \<in> fst ` set post. agree (rt_desc s) (rt_desc ?s) d" using ag by metis+
  have fh: "isfree (rt_desc ?s) h = BO_IS_FREE x'" by (simp add: isfree_def)
  have fo: "isfree (rt_desc ?s) d = isfree (rt_desc s) d" if "d \<noteq> h" for d using that by (rule agree_isfree [OF ag])
  have rr: "region_descs (rt_desc ?s) r R' (SG r)"
  proof -
    note p = segs_agree [OF agp(1)] segs_agree [OF agp(2)]
    have "segs_ok (rt_desc ?s) r (br_firstPage R') 0 (SG r)"
      unfolding h(4) segs_ok_append segs_ok.simps R'(3) using p(1) [OF h(6)] p(4) [OF h(7)] x'(3) by simp
    moreover have "coalesced (rt_desc ?s) (SG r)" unfolding h(4)
    proof (rule coalesced_join)
      show "coalesced (rt_desc ?s) pre" "coalesced (rt_desc ?s) post" using p(2,5) h(8,9) by simp_all
      assume "isfree (rt_desc ?s) h"
      then have f: "(pre = [] \<or> \<not> isfree (rt_desc s) (fst (last pre))) \<and> (post = [] \<or> \<not> isfree (rt_desc s) (fst (hd post)))" using fr fh by simp
      have "pre \<noteq> [] \<Longrightarrow> fst (last pre) \<noteq> h" "post \<noteq> [] \<Longrightarrow> fst (hd post) \<noteq> h" using nh last_in_set hd_in_set by force+
      then show "(pre = [] \<or> \<not> isfree (rt_desc ?s) (fst (last pre))) \<and> (post = [] \<or> \<not> isfree (rt_desc ?s) (fst (hd post)))" using f fo by metis
    qed
    moreover have "free_pages (rt_desc ?s) (SG r) = free_pages (rt_desc s) pre + (if BO_IS_FREE x' then n else 0) + free_pages (rt_desc s) post"
      unfolding h(4) using p(3,6) fh by simp
    ultimately show ?thesis using R'(5,6) by (simp add: region_descs_def)
  qed
  show "\<forall>q Q. rt_region ?s q = Some Q \<longrightarrow> region_descs (rt_desc ?s) q Q (SG q)"
  proof (intro allI impI)
    fix q Q assume q: "rt_region ?s q = Some Q"
    show "region_descs (rt_desc ?s) q Q (SG q)"
    proof (cases "q = r")
      case True
      then show ?thesis using q rr by simp
    next
      case False
      then have "rt_region s q = Some Q" using q by simp
      with h(5) False have "region_descs (rt_desc s) q Q (SG q)" "h \<notin> fst ` set (SG q)" by auto
      then have "\<forall>d \<in> fst ` set (SG q). agree (rt_desc s) (rt_desc ?s) d" using ag by metis
      then show ?thesis by (rule agree_descs) fact
    qed
  qed
  have ex: "(\<exists>q Q. rt_region ?s q = Some Q \<and> d \<in> fst ` set (SG q)) = (\<exists>q Q. rt_region s q = Some Q \<and> d \<in> fst ` set (SG q))" for d
  proof -
    have "rt_region ?s q = None \<longleftrightarrow> rt_region s q = None" for q using R by simp
    then show ?thesis by (metis not_None_eq)
  qed
  have hin: "\<exists>q Q. rt_region s q = Some Q \<and> h \<in> fst ` set (SG q)" using R h(4) by force
  have "d \<in> free_descs SG ?s \<longleftrightarrow> d \<in> set xs \<union> (if BO_IS_FREE x' then {h} else {})" for d
  proof (cases "d = h")
    case True
    then show ?thesis using h(3) fh ex [of h] hin unfolding free_descs_def by auto
  next
    case False
    then show ?thesis using h(3) fo [OF False] ex [of d] unfolding free_descs_def by auto
  qed
  then show "free_descs SG ?s = set xs \<union> (if BO_IS_FREE x' then {h} else {})" by blast
  show "h \<notin> set xs" using h(3) by simp
  show "\<forall>d. d \<noteq> h \<longrightarrow> bobj SG ?s d = bobj SG s d" using bobj_agree [OF ag] ex by simp
  show "bobj SG ?s h = (if BO_IS_FREE x' then None else Some (bd_obj x', bd_sizeB x', bd_state x', bd_gen x'))"
    using ex [of h] hin fh by (simp add: bobj_def live_def)
qed

section \<open>The end of an allocation\<close>

lemma BIBOP_UPDATE_map:
  assumes "bibop_wf b" "p < 2 ^ 30" "page_map b p \<noteq> AID_UNMAPPED"
  shows "\<exists>b'. BIBOP_UPDATE p aid b = Inr b' \<and> bibop_wf b' \<and> page_map b' = (page_map b)(p := aid)"
proof -
  have i: "p div 16384 < 65536" using assms(2) by (simp add: less_mult_imp_div_less)
  have "bb_l1 b (p div 16384) \<noteq> None" using assms(1,3) by (cases "bb_l1 b (p div 16384)") (auto simp: page_map_def l2_of_def bibop_wf_def)
  then obtain t where t: "bb_l1 b (p div 16384) = Some t" by blast
  have eq: "q = p" if "q mod 16384 = p mod 16384" "q div 16384 = p div 16384" for q :: nat using that by (metis mult_div_mod_eq)
  let ?b = "set_l2 (p div 16384) (t\<lparr>l2_tbl := (l2_tbl t)(p mod 16384 := aid)\<rparr>) b"
  have "BIBOP_UPDATE p aid b = Inr ?b" using t i by (simp add: BIBOP_UPDATE_def BIBOP_INDEX_TO_L1_INDEX_def BIBOP_INDEX_TO_L2_INDEX_def l2_of_def Let_def)
  moreover have "bibop_wf ?b" using assms(1) t by (simp add: bibop_wf_def set_l2_def)
  moreover have "page_map ?b = (page_map b)(p := aid)" using t by (auto simp: page_map_def l2_of_def set_l2_def fun_eq_iff split: option.splits dest: eq)
  ultimately show ?thesis by blast
qed

lemma mark_region_pages:
  assumes "bibop_wf b" "obj_ok mo" "paged (mo_sizeB mo)" "0 < unat (mo_sizeB mo)" "g < 14"
  shows "\<exists>b1 b2. MarkRegion (mo_base mo) (mo_sizeB mo) (AID_BIGOBJ g) b = Inr b1 \<and> BIBOP_UPDATE (BIBOP_ADDR_TO_INDEX (mo_base mo)) (AID_BIGOBJ_HDR g) b1 = Inr b2
    \<and> bibop_wf b2 \<and> (\<forall>p \<in> region_pages (mo_base mo) (mo_sizeB mo). page_map b2 p = (if p = pg (mo_base mo) then AID_BIGOBJ_HDR g else AID_BIGOBJ g))
    \<and> (\<forall>p. p \<notin> region_pages (mo_base mo) (mo_sizeB mo) \<longrightarrow> page_map b2 p = page_map b p)"
proof -
  have lim: "unat (mo_base mo) + unat (mo_sizeB mo) < 2 ^ 48" "paged (mo_base mo)" using assms(2) by (simp_all add: obj_ok_def)
  from MarkRegion_region [OF assms(1) lim(1), of "AID_BIGOBJ g"] obtain b1 where
    b1: "MarkRegion (mo_base mo) (mo_sizeB mo) (AID_BIGOBJ g) b = Inr b1" "bibop_wf b1"
      "page_map b1 = (\<lambda>p. if p \<in> region_pages (mo_base mo) (mo_sizeB mo) then AID_BIGOBJ g else page_map b p)" by blast
  have "0 < pg (mo_sizeB mo)" using paged_unat [OF assms(3)] assms(4) by (cases "pg (mo_sizeB mo)") auto
  then have inr: "pg (mo_base mo) \<in> region_pages (mo_base mo) (mo_sizeB mo)" by (simp add: region_pages_def)
  have un: "AID_BIGOBJ g \<noteq> AID_UNMAPPED"
  proof
    assume "AID_BIGOBJ g = AID_UNMAPPED"
    then have "EXTRACT_GEN (AID_BIGOBJ g) = EXTRACT_GEN AID_UNMAPPED" by simp
    then show False using assms(5) by (simp add: AID_BIGOBJ_def EXTRACT_MAKE_AID) (simp add: EXTRACT_GEN_def AID_UNMAPPED_def)
  qed
  have "pg (mo_base mo) < 2 ^ 30" using lim by (intro pg_less) simp
  moreover have "page_map b1 (pg (mo_base mo)) \<noteq> AID_UNMAPPED" using inr b1(3) un by simp
  ultimately obtain b2 where b2: "BIBOP_UPDATE (pg (mo_base mo)) (AID_BIGOBJ_HDR g) b1 = Inr b2" "bibop_wf b2" "page_map b2 = (page_map b1)(pg (mo_base mo) := AID_BIGOBJ_HDR g)"
    using BIBOP_UPDATE_map [OF b1(2)] by blast
  show ?thesis using b1 b2 inr by (intro exI [of _ b1] exI [of _ b2]) (auto simp: pg_index)
qed

text \<open>The assignments after the descriptor was found, and that they establish the invariant.\<close>

definition alloc_end :: "nat \<Rightarrow> addr_t \<Rightarrow> nat \<Rightarrow> nat \<times> rt \<Rightarrow> (nat \<times> rt) res" where
  "alloc_end gen objSzB npages = (\<lambda>(newDesc, s).
     rbind (upd_desc newDesc (\<lambda>x. x\<lparr>bd_sizeB := objSzB, bd_state := BO_YOUNG, bd_gen := gen\<rparr>) s) (\<lambda>s.
     rbind (get_desc newDesc s) (\<lambda>x.
     rbind (upd_region (bd_region x) (\<lambda>r. r\<lparr>br_nFree := br_nFree r - int npages\<rparr>) s) (\<lambda>s.
     rbind (get_region (bd_region x) s) (\<lambda>r.
     rbind (if gen < br_minGen r then
              rbind (upd_region (bd_region x) (\<lambda>r. r\<lparr>br_minGen := gen\<rparr>) s) (\<lambda>s.
              rbind (put_bibop (MarkRegion (mo_base (br_memObj r)) (mo_sizeB (br_memObj r)) (AID_BIGOBJ gen)) s) (\<lambda>s.
              put_bibop (BIBOP_UPDATE (BIBOP_ADDR_TO_INDEX (mo_base (br_memObj r))) (AID_BIGOBJ_HDR gen)) s))
            else Inr s) (\<lambda>s.
     Inr (newDesc, s)))))))"

lemma held_region:
  assumes "held SG xs h r pre n post c s"
  obtains R x where "rt_region s r = Some R" "rt_desc s h = Some x" "bd_region x = r" "bd_obj x = br_firstPage R + of_nat (1024 * tot pre)"
    "br_nFree R = int (free_pages (rt_desc s) pre + c + free_pages (rt_desc s) post)" "0 < n" "SG r = pre @ (h, n) # post"
    "region_shape R (SG r)" "marked s r R" "bibop_wf (rt_bibop s)" "bo_common SG s"
  using assms unfolding held_def bo_common_def by blast

lemma alloc_end_ok:
  assumes hd: "held SG xs h r pre n post n s" and sz: "unat objSzB \<le> 1024 * n" "1024 * n < unat objSzB + 1024" and g: "gen < 14"
  shows "\<exists>s' a. alloc_end gen objSzB n (h, s) = Inr (h, s') \<and> bo_inv SG xs s'
    \<and> bobj SG s' = (bobj SG s)(h := Some (a, objSzB, BO_YOUNG, gen)) \<and> rt_fresh s' = rt_fresh s"
proof -
  from held_region [OF hd] obtain R x where
    R: "rt_region s r = Some R" and x: "rt_desc s h = Some x" "bd_region x = r" "bd_obj x = br_firstPage R + of_nat (1024 * tot pre)"
    and nf: "br_nFree R = int (free_pages (rt_desc s) pre + n + free_pages (rt_desc s) post)" and n: "0 < n"
    and sh: "region_shape R (SG r)" and mk: "marked s r R" and wf: "bibop_wf (rt_bibop s)" and "bo_common SG s" by metis
  let ?mo = "br_memObj R"
  let ?x = "x\<lparr>bd_sizeB := objSzB, bd_state := 1, bd_gen := gen\<rparr>"
  let ?m = "if gen < br_minGen R then gen else br_minGen R"
  let ?R = "R\<lparr>br_nFree := br_nFree R - int n, br_minGen := ?m\<rparr>"
  have d: "desc_at r (br_firstPage R) (tot pre) n ?x" using x sz n by (simp add: desc_at_def BO_IS_FREE_def)
  have Rf: "br_nFree ?R = int (free_pages (rt_desc s) pre + (if BO_IS_FREE ?x then n else 0) + free_pages (rt_desc s) post)" using nf by (simp add: BO_IS_FREE_def)
  have m14: "br_minGen ?R < 14" using g by auto
  have "\<exists>b. alloc_end gen objSzB n (h, s) = Inr (h, put_held h ?x r ?R b s) \<and> bibop_wf b \<and> marked (put_held h ?x r ?R b s) r ?R
    \<and> (\<forall>p. p \<notin> region_pages (mo_base ?mo) (mo_sizeB ?mo) \<longrightarrow> page_map b p = page_map (rt_bibop s) p)"
  proof (cases "gen < br_minGen R")
    case False
    then have e: "alloc_end gen objSzB n (h, s) = Inr (h, put_held h ?x r ?R (rt_bibop s) s)"
      using x R by (simp add: alloc_end_def upd_desc_def get_desc_def upd_region_def get_region_def put_desc_def put_held_def)
    have "marked (put_held h ?x r ?R (rt_bibop s) s) r ?R" using mk False by (simp add: marked_def)
    then show ?thesis using e wf by blast
  next
    case True
    have mo: "obj_ok ?mo" "paged (mo_sizeB ?mo)" "0 < unat (mo_sizeB ?mo)" using sh by (auto simp: region_shape_def)
    from mark_region_pages [OF wf mo g] obtain b1 b2 where
      b: "MarkRegion (mo_base ?mo) (mo_sizeB ?mo) (AID_BIGOBJ gen) (rt_bibop s) = Inr b1" "BIBOP_UPDATE (BIBOP_ADDR_TO_INDEX (mo_base ?mo)) (AID_BIGOBJ_HDR gen) b1 = Inr b2" "bibop_wf b2"
        "\<forall>p \<in> region_pages (mo_base ?mo) (mo_sizeB ?mo). page_map b2 p = (if p = pg (mo_base ?mo) then AID_BIGOBJ_HDR gen else AID_BIGOBJ gen)"
        "\<forall>p. p \<notin> region_pages (mo_base ?mo) (mo_sizeB ?mo) \<longrightarrow> page_map b2 p = page_map (rt_bibop s) p" by blast
    have e: "alloc_end gen objSzB n (h, s) = Inr (h, put_held h ?x r ?R b2 s)"
      using x R True b(1,2) by (simp add: alloc_end_def upd_desc_def get_desc_def upd_region_def get_region_def put_desc_def put_held_def put_bibop_def)
    have "marked (put_held h ?x r ?R b2 s) r ?R" using mk True b(4) g by (simp add: marked_def)
    then show ?thesis using e b(3,5) by blast
  qed
  then obtain b where b: "alloc_end gen objSzB n (h, s) = Inr (h, put_held h ?x r ?R b s)" "bibop_wf b" "marked (put_held h ?x r ?R b s) r ?R"
    "\<forall>p. p \<notin> region_pages (mo_base ?mo) (mo_sizeB ?mo) \<longrightarrow> page_map b p = page_map (rt_bibop s) p" by blast
  have nfree: "\<not> BO_IS_FREE ?x" by (simp add: BO_IS_FREE_def)
  note st = held_set [OF hd R x(1) _ _ d _ _ _ _ Rf m14 b(2,3,4), simplified nfree]
  have inv: "bo_inv SG xs (put_held h ?x r ?R b s)" unfolding bo_inv_def using st by simp
  have "bobj SG (put_held h ?x r ?R b s) = (bobj SG s)(h := Some (bd_obj x, objSzB, 1, gen))"
    using st(6,7) by (auto simp: fun_eq_iff)
  then show ?thesis using b(1) inv by (intro exI [of _ "put_held h ?x r ?R b s"] exI [of _ "bd_obj x"]) simp
qed

section \<open>The end of a deallocation\<close>

definition free_end :: "nat \<Rightarrow> nat \<Rightarrow> addr_t \<Rightarrow> nat \<Rightarrow> rt \<Rightarrow> rt res" where
  "free_end desc region totSzB m s =
     rbind (upd_desc desc (\<lambda>y. y\<lparr>bd_sizeB := totSzB, bd_state := BO_FREE\<rparr>) s) (\<lambda>s.
     rbind (upd_region region (\<lambda>r. r\<lparr>br_nFree := br_nFree r + int m\<rparr>) s) (\<lambda>s.
     AddBODesc (h_freeBigObjs (rt_heap s)) desc s))"

definition apart :: "descs \<Rightarrow> segs \<Rightarrow> segs \<Rightarrow> bool" where
  "apart D pre post \<longleftrightarrow> (pre = [] \<or> \<not> isfree D (fst (last pre))) \<and> (post = [] \<or> \<not> isfree D (fst (hd post)))"

lemma free_end_ok:
  assumes hd: "held SG xs h r pre n post c s" and n: "n = c + m" and t: "totSzB = of_nat (1024 * n)" and g: "rt_region s r = Some R" "br_minGen R < 14"
    and ap: "apart (rt_desc s) pre post"
  shows "\<exists>s'. free_end h r totSzB m s = Inr s' \<and> bo_inv SG (h # xs) s' \<and> bobj SG s' = (bobj SG s)(h := None) \<and> rt_fresh s' = rt_fresh s"
proof -
  obtain x where
    x: "rt_desc s h = Some x" "bd_region x = r" "bd_obj x = br_firstPage R + of_nat (1024 * tot pre)"
    and nf: "br_nFree R = int (free_pages (rt_desc s) pre + c + free_pages (rt_desc s) post)" and n0: "0 < n"
    and mk: "marked s r R" and wf: "bibop_wf (rt_bibop s)" and c: "bo_common SG s" and sg: "SG r = pre @ (h, n) # post"
    by (rule held_region [OF hd]) (use g(1) in simp)
  let ?x = "x\<lparr>bd_sizeB := totSzB, bd_state := 0\<rparr>"
  let ?R = "R\<lparr>br_nFree := br_nFree R + int m\<rparr>"
  let ?s = "put_held h ?x r ?R (rt_bibop s) s"
  have fr: "BO_IS_FREE ?x" by (simp add: BO_IS_FREE_def)
  have d: "desc_at r (br_firstPage R) (tot pre) n ?x" using x n0 t fr by (simp add: desc_at_def)
  have Rf: "br_nFree ?R = int (free_pages (rt_desc s) pre + (if BO_IS_FREE ?x then n else 0) + free_pages (rt_desc s) post)" using nf n fr by simp
  have m14: "br_minGen ?R < 14" using g(2) by simp
  have mk': "marked ?s r ?R" using mk by (simp add: marked_def)
  have apx: "BO_IS_FREE ?x \<Longrightarrow> (pre = [] \<or> \<not> isfree (rt_desc s) (fst (last pre))) \<and> (post = [] \<or> \<not> isfree (rt_desc s) (fst (hd post)))" using ap by (simp add: apart_def)
  note st = held_set [OF hd g(1) x(1) _ _ d _ _ _ _ Rf m14 wf mk' _ apx, simplified fr if_True, simplified]
  have "h_freeBigObjs (rt_heap s) \<notin> fst ` set (SG r)" using c g(1) by (simp add: bo_common_def)
  then have "h_freeBigObjs (rt_heap s) \<noteq> h" using sg by auto
  then have hx: "h \<notin> set (h_freeBigObjs (rt_heap ?s) # xs)" using st(5) by simp
  have dh: "rt_desc ?s h = Some ?x" by simp
  from AddBODesc_free_list [OF st(2) dh hx] obtain s' where
    s': "AddBODesc (h_freeBigObjs (rt_heap ?s)) h ?s = Inr s'" "free_list s' (h # xs)" "same_objs ?s s'" by blast
  note f = same_objs_fields [OF s'(3)]
  have ag: "agree (rt_desc ?s) (rt_desc s') e" for e by (rule same_objs_agree [OF s'(3)])
  have "bo_common SG s'" by (rule same_objs_common [OF s'(3) st(1)])
  moreover have "set (h # xs) = free_descs SG s'" using st(4) same_objs_free_descs [OF s'(3)] by simp
  moreover have "region_descs (rt_desc s') q Q (SG q)" if "rt_region s' q = Some Q" for q Q
  proof (rule agree_descs)
    have "rt_region ?s q = Some Q" using that f(1) by (simp only:)
    then show "region_descs (rt_desc ?s) q Q (SG q)" using st(3) [rule_format, of q Q] by (simp add: fun_upd_apply)
  qed (use ag in simp)
  ultimately have inv: "bo_inv SG (h # xs) s'" using s'(2) by (simp add: bo_inv_def)
  have "bobj SG s' e = bobj SG ?s e" for e by (rule bobj_agree [OF ag]) (simp only: f(1))
  then have "bobj SG s' = (bobj SG s)(h := None)" using st(6,7) by (auto simp: fun_eq_iff)
  moreover have "free_end h r totSzB m s = Inr s'"
  proof -
    have "?s = (put_desc h ?x s)\<lparr>rt_region := (rt_region s)(r \<mapsto> ?R)\<rparr>" by (simp add: put_held_def put_desc_def)
    then show ?thesis using s'(1) x(1) g(1) by (simp add: free_end_def upd_desc_def get_desc_def upd_region_def get_region_def put_desc_def put_held_def)
  qed
  ultimately show ?thesis using inv f(6) by auto
qed

section \<open>Joining with free neighbours\<close>

lemma bobj_cong:
  assumes "live SG' s' d = live SG s d" "live SG s d \<Longrightarrow> agree (rt_desc s) (rt_desc s') d"
  shows "bobj SG' s' d = bobj SG s d"
proof (cases "live SG s d")
  case True
  show ?thesis
  proof (cases "rt_desc s d")
    case None
    then show ?thesis using assms(2) [OF True] by (simp add: agree_def bobj_def)
  next
    case (Some x)
    show ?thesis by (rule agree_desc [OF assms(2) [OF True] Some]) (simp add: Some bobj_def assms(1))
  qed
qed (use assms(1) in \<open>simp add: bobj_def\<close>)

lemma in_one_region:
  assumes "segs_ok D r a p sg" "segs_ok D r' a' p' sg'" "d \<in> fst ` set sg" "d \<in> fst ` set sg'"
  shows "r = r'"
proof -
  from assms(3,4) obtain n n' where "(d, n) \<in> set sg" "(d, n') \<in> set sg'" by auto
  with segs_ok_in [OF assms(1)] segs_ok_in [OF assms(2)] show ?thesis by (fastforce simp: desc_at_def)
qed

lemma held_region_more:
  assumes "held SG xs h r pre n post c s" "rt_region s r = Some R"
  shows "segs_ok (rt_desc s) r (br_firstPage R) 0 pre" "segs_ok (rt_desc s) r (br_firstPage R) (tot pre + n) post"
    "coalesced (rt_desc s) pre" "coalesced (rt_desc s) post" "free_list s xs" "set xs = free_descs SG s - {h}"
    "rt_region s q = Some Q \<Longrightarrow> q \<noteq> r \<Longrightarrow> region_descs (rt_desc s) q Q (SG q)" "rt_region s q = Some Q \<Longrightarrow> q \<noteq> r \<Longrightarrow> h \<notin> fst ` set (SG q)"
  using assms unfolding held_def by auto

lemma held_absorb:
  assumes hd: "held SG xs h r pre n post c s" and R: "rt_region s r = Some R"
    and sg: "pre = pre' @ [(e, m)] \<and> post' = post \<or> pre' = pre \<and> post = (e, m) # post'" and e: "isfree (rt_desc s) e"
    and s1: "same_objs s s1" "free_list s1 ys" "set ys = set xs - {e}"
    and y: "rt_desc s1 h = Some y"
    and SG': "SG' = SG(r := pre' @ (h, m + n) # post')"
    and s2: "s2 = s1\<lparr>rt_region := (rt_region s1)(r \<mapsto> R\<lparr>br_objMap := segs_map (pre' @ (h, m + n) # post')\<rparr>),
      rt_desc := ((rt_desc s1)(h \<mapsto> y\<lparr>bd_obj := br_firstPage R + of_nat (1024 * tot pre')\<rparr>))(e := None)\<rparr>"
  shows "held SG' ys h r pre' (m + n) post' (c + m) s2" "\<forall>d. d \<noteq> h \<longrightarrow> bobj SG' s2 d = bobj SG s d"
proof -
  obtain x where x: "rt_desc s h = Some x" "bd_region x = r"
    and nf: "br_nFree R = int (free_pages (rt_desc s) pre + c + free_pages (rt_desc s) post)" and n0: "0 < n"
    and sh: "region_shape R (SG r)" and c: "bo_common SG s" and sgr: "SG r = pre @ (h, n) # post"
    by (rule held_region [OF hd]) (use R in simp)
  note hm = held_region_more [OF hd R]
  note f = same_objs_fields [OF s1(1)]
  have f2: "rt_region s2 = (rt_region s)(r \<mapsto> R\<lparr>br_objMap := segs_map (pre' @ (h, m + n) # post')\<rparr>)" "rt_bibop s2 = rt_bibop s" "rt_mem s2 = rt_mem s"
    "rt_heap s2 = rt_heap s" "rt_ms s2 = rt_ms s" "rt_fresh s2 = rt_fresh s"
    "rt_desc s2 = ((rt_desc s1)(h \<mapsto> y\<lparr>bd_obj := br_firstPage R + of_nat (1024 * tot pre')\<rparr>))(e := None)"
    by (simp_all add: s2 f)
  have dist: "distinct (map fst (SG r))" using sh by (simp add: region_shape_def)
  have ein: "(e, m) \<in> set (SG r)" "(e, m) \<in> set pre \<or> (e, m) \<in> set post" using sg sgr by auto
  have ne: "e \<noteq> h" "e \<notin> fst ` set pre'" "e \<notin> fst ` set post'" "h \<notin> fst ` set pre'" "h \<notin> fst ` set post'"
    using dist sgr sg by (auto simp: rev_image_eqI)
  have m0: "0 < m" and bre: "\<exists>z. rt_desc s e = Some z \<and> bd_region z = r"
    using segs_ok_in [OF hm(1), of e m] segs_ok_in [OF hm(2), of e m] ein(2) by (auto simp: desc_at_def)
  have eo: "e \<notin> fst ` set (SG q)" if q: "rt_region s q = Some Q" "q \<noteq> r" for q Q
  proof
    assume "e \<in> fst ` set (SG q)"
    then obtain k where "(e, k) \<in> set (SG q)" by auto
    with segs_ok_in [of "rt_desc s" q "br_firstPage Q" 0 "SG q" e k] hm(7) [OF q] bre q(2) show False by (auto simp: region_descs_def desc_at_def)
  qed
  have ag: "agree (rt_desc s) (rt_desc s2) d" if "d \<noteq> h" "d \<noteq> e" for d
  proof -
    have "rt_desc s2 d = rt_desc s1 d" using that f2(7) by simp
    then show ?thesis using same_objs_agree [OF s1(1), of d] by (simp add: agree_def)
  qed
  have agp: "\<forall>d \<in> fst ` set pre'. agree (rt_desc s) (rt_desc s2) d" "\<forall>d \<in> fst ` set post'. agree (rt_desc s) (rt_desc s2) d" using ag ne by metis+
  have sub: "fst ` set (SG r) = insert e (fst ` set (SG' r))" using sgr sg SG' by auto
  have eN: "e \<notin> fst ` set (SG' r)" using ne SG' by auto
  have tt: "tot (SG' r) = tot (SG r)" using sgr sg SG' by auto
  have hdr: "h_freeBigObjs (rt_heap s) \<notin> fst ` set (SG q)" if "rt_region s q = Some Q" for q Q using c that by (simp add: bo_common_def)
  have common: "bo_common SG' s2"
  proof -
    have shp: "region_shape (R\<lparr>br_objMap := segs_map (pre' @ (h, m + n) # post')\<rparr>) (SG' r)"
    proof -
      have "distinct (map fst (SG' r))" using dist sg sgr ne unfolding SG' fun_upd_same by (elim disjE conjE) simp_all
      then show ?thesis using sh tt by (simp add: region_shape_def SG')
    qed
    have 1: "region_shape Q (SG' q) \<and> q < rt_fresh s2 \<and> bo_range Q \<subseteq> ms_mapped (rt_ms s2) \<and> h_freeBigObjs (rt_heap s2) \<notin> fst ` set (SG' q) \<and> marked s2 q Q"
      if "rt_region s2 q = Some Q" for q Q
    proof (cases "q = r")
      case True
      then have Q: "Q = R\<lparr>br_objMap := segs_map (pre' @ (h, m + n) # post')\<rparr>" using that f2(1) by simp
      have "r < rt_fresh s" "bo_range R \<subseteq> ms_mapped (rt_ms s)" "marked s r R" using c R by (simp_all add: bo_common_def)
      then show ?thesis using True Q shp hdr [OF R] sub by (auto simp: f2 bo_range_def marked_def)
    next
      case False
      then have "rt_region s q = Some Q" using that f2(1) by simp
      then have "region_shape Q (SG q)" "q < rt_fresh s" "bo_range Q \<subseteq> ms_mapped (rt_ms s)" "h_freeBigObjs (rt_heap s) \<notin> fst ` set (SG q)" "marked s q Q"
        using c by (simp_all add: bo_common_def)
      then show ?thesis using False by (simp add: f2 SG' marked_def)
    qed
    have 2: "bo_range Q \<inter> bo_range Q' = {}" if q: "rt_region s2 q = Some Q" "rt_region s2 q' = Some Q'" "q \<noteq> q'" for q Q q' Q'
    proof -
      have "\<exists>P. rt_region s a = Some P \<and> bo_range A = bo_range P" if "rt_region s2 a = Some A" for a A
        using that R by (cases "a = r") (auto simp: f2 bo_range_def)
      from this [OF q(1)] this [OF q(2)] obtain P P' where "rt_region s q = Some P" "rt_region s q' = Some P'" "bo_range Q = bo_range P" "bo_range Q' = bo_range P'" by blast
      then show ?thesis using c q(3) by (simp add: bo_common_def)
    qed
    have "d < rt_fresh s2" if "rt_desc s2 d \<noteq> None" for d
    proof -
      have "rt_desc s1 d = None \<longleftrightarrow> rt_desc s d = None" by (rule agree_None [OF same_objs_agree [OF s1(1)]])
      then have "rt_desc s d \<noteq> None" using that y by (auto simp: f2(7) split: if_splits)
      then show ?thesis using c by (simp add: bo_common_def f2)
    qed
    moreover have "bibop_wf (rt_bibop s2)" using c by (simp add: bo_common_def f2)
    ultimately show ?thesis unfolding bo_common_def using 1 2 by auto
  qed
  have exd: "(\<exists>q Q. rt_region s2 q = Some Q \<and> d \<in> fst ` set (SG' q)) \<longleftrightarrow> d \<noteq> e \<and> (\<exists>q Q. rt_region s q = Some Q \<and> d \<in> fst ` set (SG q))" for d
  proof -
    have "(rt_region s2 q \<noteq> None \<and> d \<in> fst ` set (SG' q)) \<longleftrightarrow> (rt_region s q \<noteq> None \<and> d \<noteq> e \<and> d \<in> fst ` set (SG q))" for q
    proof (cases "q = r")
      case True
      then show ?thesis using sub eN R by (auto simp: f2)
    next
      case False
      then show ?thesis using eo [of q] by (auto simp: f2 SG')
    qed
    then show ?thesis by (metis not_None_eq)
  qed
  have fre: "isfree (rt_desc s2) d = isfree (rt_desc s) d" if "d \<noteq> h" "d \<noteq> e" for d by (rule agree_isfree [OF ag [OF that]])
  have "d \<in> free_descs SG' s2 \<longleftrightarrow> (\<exists>q Q. rt_region s2 q = Some Q \<and> d \<in> fst ` set (SG' q)) \<and> isfree (rt_desc s2) d"
    "d \<in> free_descs SG s \<longleftrightarrow> (\<exists>q Q. rt_region s q = Some Q \<and> d \<in> fst ` set (SG q)) \<and> isfree (rt_desc s) d" for d
    unfolding free_descs_def by auto
  then have fd: "set ys = free_descs SG' s2 - {h}" using s1(3) hm(6) exd fre by (auto simp del: split_paired_Ex)
  have fl: "free_list s2 ys"
  proof -
    have ey: "e \<notin> set (h_freeBigObjs (rt_heap s1) # ys)" using s1(3) hdr [OF R] sub f(4) by auto
    have lk: "nx s2 a = nx s1 a" "pv s2 a = pv s1 a" if "a \<noteq> e" for a using that y by (simp_all add: nx_def pv_def f2(7))
    have "nx s2 a = nx s1 a" "pv s2 a = pv s1 a" if "a \<in> set (h_freeBigObjs (rt_heap s1) # ys)" for a
    proof -
      have "a \<noteq> e" using that ey by metis
      then show "nx s2 a = nx s1 a" "pv s2 a = pv s1 a" by (rule lk)+
    qed
    then have "dseg (nx s2) (pv s2) (h_freeBigObjs (rt_heap s1)) ys (h_freeBigObjs (rt_heap s1))
        = dseg (nx s1) (pv s1) (h_freeBigObjs (rt_heap s1)) ys (h_freeBigObjs (rt_heap s1))"
      by (intro dseg_cong) simp_all
    then show ?thesis using s1(2) f(4) by (simp add: free_list_def f2)
  qed
  have "held SG' ys h r pre' (m + n) post' (c + m) s2"
    unfolding held_def
  proof (intro conjI)
    show "bo_common SG' s2" "free_list s2 ys" "set ys = free_descs SG' s2 - {h}" by fact+
    show "\<forall>q Q. q \<noteq> r \<longrightarrow> rt_region s2 q = Some Q \<longrightarrow> region_descs (rt_desc s2) q Q (SG' q) \<and> h \<notin> fst ` set (SG' q)"
    proof (intro allI impI)
      fix q Q assume q: "q \<noteq> r" "rt_region s2 q = Some Q"
      then have Q: "rt_region s q = Some Q" "SG' q = SG q" by (simp_all add: f2 SG')
      have hn: "h \<notin> fst ` set (SG q)" by (rule hm(8) [OF Q(1) q(1)])
      then have "\<forall>d \<in> fst ` set (SG q). agree (rt_desc s) (rt_desc s2) d" using eo [OF Q(1) q(1)] ag by metis
      then show "region_descs (rt_desc s2) q Q (SG' q) \<and> h \<notin> fst ` set (SG' q)" using agree_descs [OF _ hm(7) [OF Q(1) q(1)]] hn Q(2) by simp
    qed
    show "SG' r = pre' @ (h, m + n) # post'" by (simp add: SG')
    show "0 < m + n" using n0 by simp
    note p = segs_agree [OF agp(1)] segs_agree [OF agp(2)]
    have so: "segs_ok (rt_desc s) r (br_firstPage R) 0 pre'" "segs_ok (rt_desc s) r (br_firstPage R) (tot pre' + (m + n)) post'"
      "coalesced (rt_desc s) pre'" "coalesced (rt_desc s) post'"
      using sg hm(1-4) by (auto simp: coalesced_def successively_append_iff successively_Cons ac_simps)
    have fp: "free_pages (rt_desc s) pre + free_pages (rt_desc s) post = free_pages (rt_desc s) pre' + m + free_pages (rt_desc s) post'" using sg e by auto
    have br: "bd_region y = r" using agree_desc [OF same_objs_agree [OF s1(1)] x(1)] y x(2) by auto
    show "\<exists>Q z. rt_region s2 r = Some Q \<and> rt_desc s2 h = Some z \<and> bd_region z = r \<and> bd_obj z = br_firstPage Q + of_nat (1024 * tot pre')
          \<and> segs_ok (rt_desc s2) r (br_firstPage Q) 0 pre' \<and> segs_ok (rt_desc s2) r (br_firstPage Q) (tot pre' + (m + n)) post'
          \<and> coalesced (rt_desc s2) pre' \<and> coalesced (rt_desc s2) post'
          \<and> br_nFree Q = int (free_pages (rt_desc s2) pre' + (c + m) + free_pages (rt_desc s2) post')"
      using br ne(1) p(1) [OF so(1)] p(4) [OF so(2)] so(3,4) p(2,3,5,6) nf fp by (simp add: f2(1,7))
  qed
  then show "held SG' ys h r pre' (m + n) post' (c + m) s2" .
  show "\<forall>d. d \<noteq> h \<longrightarrow> bobj SG' s2 d = bobj SG s d"
  proof (intro allI impI)
    fix d assume d: "d \<noteq> h"
    have lv: "live SG' s2 d = live SG s d"
    proof (cases "d = e")
      case True
      then have "\<not> live SG' s2 d" unfolding live_def exd by simp
      moreover have "\<not> live SG s d" using e True by (simp add: live_def)
      ultimately show ?thesis by simp
    next
      case False
      then show ?thesis unfolding live_def exd using fre [OF d False] by simp
    qed
    show "bobj SG' s2 d = bobj SG s d"
    proof (rule bobj_cong [OF lv])
      assume "live SG s d"
      then have "d \<noteq> e" using e by (auto simp: live_def)
      then show "agree (rt_desc s) (rt_desc s2) d" by (rule ag [OF d])
    qed
  qed
qed

section \<open>Freeing\<close>

lemma unat_pages: "k < 2 ^ 48 \<Longrightarrow> unat (drop_bit 10 (of_nat (1024 * k) :: addr_t)) = k"
proof -
  assume k: "k < 2 ^ 48"
  have "unat (of_nat (1024 * k) :: addr_t) = (1024 * k) mod 2 ^ 64" by (subst unat_of_nat) simp
  then have "unat (of_nat (1024 * k) :: addr_t) = 1024 * k" using k by simp
  then show ?thesis unfolding drop_bit_eq_div unat_div by simp
qed

lemma shape_bound: "region_shape R sg \<Longrightarrow> tot sg < 2 ^ 38"
proof -
  assume a: "region_shape R sg"
  have "unat (mo_sizeB (br_memObj R)) < 2 ^ 48" using a by (auto simp: region_shape_def obj_ok_def)
  then have "1024 * (tot sg + 1) < 2 ^ 48" using a unfolding region_shape_def by linarith
  then show ?thesis by simp
qed

lemma bopage:
  assumes "region_shape R sg" "p \<le> tot sg"
  shows "ADDR_TO_BOPAGE R (br_firstPage R + of_nat (1024 * p)) = p"
proof -
  have "p < 2 ^ 48" using shape_bound [OF assms(1)] assms(2) by simp
  then show ?thesis using unat_pages [of p] by (simp add: ADDR_TO_BOPAGE_def)
qed

lemma round_pages:
  assumes "unat sz \<le> 1024 * n" "1024 * n < unat sz + 1024" "n < 2 ^ 38"
  shows "ROUNDUP sz BIGOBJ_PAGE_SZB = of_nat (1024 * n)"
proof -
  have "unat sz + 2 ^ 10 < 2 ^ 64" using assms by simp
  then have "unat (ROUNDUP sz (2 ^ 10)) = (unat sz + (2 ^ 10 - 1)) div 2 ^ 10 * 2 ^ 10" by (intro ROUNDUP_pow2) auto
  also have "(unat sz + (2 ^ 10 - 1)) div 2 ^ 10 = n" using assms by (intro div_nat_eqI) auto
  finally have "unat (ROUNDUP sz (2 ^ 10)) = 1024 * n" by simp
  then have "of_nat (unat (ROUNDUP sz (2 ^ 10))) = (of_nat (1024 * n) :: addr_t)" by (rule arg_cong)
  then show ?thesis by simp
qed

lemma set_pages_map:
  assumes "rt_region s r = Some R" "br_objMap R = a @ b @ c" "lo = length a" "hi = length a + length b"
  shows "set_pages r lo hi d s = Inr (s\<lparr>rt_region := (rt_region s)(r \<mapsto> R\<lparr>br_objMap := a @ replicate (length b) d @ c\<rparr>)\<rparr>)"
  using assms fold_fill [of d a b c] by (simp add: set_pages_def get_region_def upd_region_def map_pages_def)

lemma live_in:
  assumes "rt_region s r = Some R" "d \<in> fst ` set (SG r)" "rt_desc s d = Some x" "\<not> BO_IS_FREE x"
  shows "bobj SG s d \<noteq> None"
  using assms by (auto simp: bobj_def live_def isfree_def)

lemma bobj_not_free: "bobj SG s d \<noteq> None \<Longrightarrow> \<not> isfree (rt_desc s) d"
  by (auto simp: bobj_def live_def split: if_splits)

text \<open>Removing the free neighbour \<open>e\<close> from the free list.\<close>

lemma held_remove:
  assumes hd: "held SG xs h r pre n post c s" and R: "rt_region s r = Some R" and e: "e \<in> fst ` set pre \<or> e \<in> fst ` set post" "isfree (rt_desc s) e"
  shows "\<exists>s1 ys y. RemoveBODesc e s = Inr s1 \<and> free_list s1 ys \<and> same_objs s s1 \<and> set ys = set xs - {e} \<and> rt_desc s1 h = Some y
    \<and> bd_obj y = br_firstPage R + of_nat (1024 * tot pre)"
proof -
  obtain x where x: "rt_desc s h = Some x" "bd_obj x = br_firstPage R + of_nat (1024 * tot pre)" and sg: "SG r = pre @ (h, n) # post" and sh: "region_shape R (SG r)"
    by (rule held_region [OF hd]) (use R in simp)
  have "distinct (map fst (SG r))" using sh by (simp add: region_shape_def)
  then have "e \<noteq> h" using e(1) sg by auto
  moreover have "e \<in> fst ` set (SG r)" using e(1) sg by auto
  then have "e \<in> free_descs SG s" using R e(2) unfolding free_descs_def by blast
  ultimately have "e \<in> set xs" using held_region_more(6) [OF hd R] by blast
  then obtain as bs where xs: "xs = as @ e # bs" by (meson split_list)
  have fl: "free_list s (as @ e # bs)" using held_region_more(5) [OF hd R] xs by simp
  from RemoveBODesc_free_list [OF this] obtain s1 where s1: "RemoveBODesc e s = Inr s1" "free_list s1 (as @ bs)" "same_objs s s1" by blast
  moreover have "set (as @ bs) = set xs - {e}" using fl xs by (auto simp: free_list_def)
  moreover obtain y where "rt_desc s1 h = Some y" "bd_obj y = bd_obj x" by (rule agree_desc [OF same_objs_agree [OF s1(3)] x(1)])
  ultimately show ?thesis using x(2) by (intro exI [of _ s1] exI [of _ "as @ bs"] exI [of _ y]) simp
qed

lemma nth_segs_last: "0 < m \<Longrightarrow> (segs_map (a @ [(e, m)]) @ z) ! (tot a + m - 1) = e"
  by (cases m) (auto simp: nth_append nth_Cons')

lemma coalesce_prev_ok:
  assumes hd: "held SG xs h r pre n post c s" and R: "rt_region s r = Some R"
  shows "\<exists>SG' ys pre' m s' R'. coalesce_prev h r (tot pre) (of_nat (1024 * k)) s = Inr (of_nat (1024 * (k + m)), s')
    \<and> held SG' ys h r pre' (m + n) post (c + m) s' \<and> (pre' = [] \<or> bobj SG' s' (fst (last pre')) \<noteq> None) \<and> (\<forall>d. d \<noteq> h \<longrightarrow> bobj SG' s' d = bobj SG s d)
    \<and> tot pre' + m = tot pre \<and> rt_region s' r = Some R' \<and> br_minGen R' = br_minGen R \<and> br_nPages R' = br_nPages R \<and> rt_fresh s' = rt_fresh s
    \<and> rt_heap s' = rt_heap s"
proof -
  obtain x where x: "rt_desc s h = Some x" "bd_obj x = br_firstPage R + of_nat (1024 * tot pre)" and sg: "SG r = pre @ (h, n) # post" and sh: "region_shape R (SG r)" and n0: "0 < n"
    by (rule held_region [OF hd]) (use R in simp)
  have om: "br_objMap R = segs_map pre @ replicate n h @ segs_map post" using sh sg by (simp add: region_shape_def)
  have gr: "get_region r s = Inr R" using R by (simp add: get_region_def)
  note hm = held_region_more [OF hd R]
  show ?thesis
  proof (cases pre rule: rev_cases)
    case Nil
    then show ?thesis using hd R gr by (intro exI [of _ SG] exI [of _ xs] exI [of _ "[]"] exI [of _ 0] exI [of _ s] exI [of _ R]) (simp add: coalesce_prev_def)
  next
    case (snoc pre' em)
    obtain e m where em: "em = (e, m)" by (cases em)
    have "(e, m) \<in> set pre" using snoc em by simp
    from segs_ok_in [OF hm(1) this] obtain z where z: "rt_desc s e = Some z" "desc_at r (br_firstPage R) (tot pre') m z"
      using hm(1) snoc em by auto
    have m: "0 < m" using z(2) by (simp add: desc_at_def)
    have ix: "br_objMap R ! (tot pre - 1) = e" using nth_segs_last [OF m, of pre' e] om snoc em by simp
    have len: "\<not> length (br_objMap R) < tot pre" using om by simp
    have gd: "get_desc e s = Inr z" using z by (simp add: get_desc_def)
    have cp: "coalesce_prev h r (tot pre) T s = (if BO_IS_FREE z then
           rbind (RemoveBODesc e s) (\<lambda>s.
           rbind (set_pages r (ADDR_TO_BOPAGE R (bd_obj z)) (tot pre) h s) (\<lambda>s.
           rbind (upd_desc h (\<lambda>y. y\<lparr>bd_obj := bd_obj z\<rparr>) s) (\<lambda>s.
           Inr (T + bd_sizeB z, s\<lparr>rt_desc := (rt_desc s)(e := None)\<rparr>))))
         else Inr (T, s))" for T
    proof -
      have "0 < tot pre" using m snoc em by simp
      then show ?thesis using len by (simp add: coalesce_prev_def gr ix [unfolded One_nat_def] gd)
    qed
    show ?thesis
    proof (cases "BO_IS_FREE z")
      case False
      have "bobj SG s e \<noteq> None" by (rule live_in [OF R _ z(1) False]) (use sg snoc em in simp)
      then show ?thesis using hd R cp [of "of_nat (1024 * k)"] False snoc em
        by (intro exI [of _ SG] exI [of _ xs] exI [of _ pre] exI [of _ 0] exI [of _ s] exI [of _ R]) simp
    next
      case True
      have fe: "isfree (rt_desc s) e" using z True by (simp add: isfree_def)
      have ein: "e \<in> fst ` set pre \<or> e \<in> fst ` set post" using snoc em by simp
      from held_remove [OF hd R ein fe] obtain s1 ys y where
        s1: "RemoveBODesc e s = Inr s1" "free_list s1 ys" "same_objs s s1" "set ys = set xs - {e}" and y: "rt_desc s1 h = Some y" by blast
      note f = same_objs_fields [OF s1(3)]
      have zo: "bd_obj z = br_firstPage R + of_nat (1024 * tot pre')" "bd_sizeB z = of_nat (1024 * m)" using z(2) True by (simp_all add: desc_at_def)
      have pg: "ADDR_TO_BOPAGE R (bd_obj z) = tot pre'" unfolding zo(1) by (rule bopage [OF sh]) (use sg snoc em in simp)
      let ?R = "R\<lparr>br_objMap := segs_map (pre' @ (h, m + n) # post)\<rparr>"
      have sp: "set_pages r (tot pre') (tot pre) h s1 = Inr (s1\<lparr>rt_region := (rt_region s1)(r \<mapsto> ?R)\<rparr>)"
        using set_pages_map [of s1 r R "segs_map pre'" "replicate m e" "replicate n h @ segs_map post" "tot pre'" "tot pre" h] R f(1) om snoc em
        by (simp add: replicate_add)
      let ?s2 = "s1\<lparr>rt_region := (rt_region s1)(r \<mapsto> ?R), rt_desc := ((rt_desc s1)(h \<mapsto> y\<lparr>bd_obj := br_firstPage R + of_nat (1024 * tot pre')\<rparr>))(e := None)\<rparr>"
      have "coalesce_prev h r (tot pre) (of_nat (1024 * k)) s = Inr (of_nat (1024 * (k + m)), ?s2)"
        using cp True s1(1) sp pg y zo by (simp add: upd_desc_def get_desc_def put_desc_def distrib_left)
      moreover have cd: "pre = pre' @ [(e, m)] \<and> post = post \<or> pre' = pre \<and> post = (e, m) # post" using snoc em by simp
      note ab = held_absorb [OF hd R cd fe s1(3,2,4) y refl refl]
      moreover have "pre' = [] \<or> bobj (SG(r := pre' @ (h, m + n) # post)) ?s2 (fst (last pre')) \<noteq> None"
      proof (cases pre' rule: rev_cases)
        case (snoc pre'' d)
        have "\<not> isfree (rt_desc s) (fst d)" using hm(3) fe \<open>pre = pre' @ [em]\<close> em snoc by (simp add: coalesced_def successively_append_iff)
        moreover obtain w where "rt_desc s (fst d) = Some w" using hm(1) \<open>pre = pre' @ [em]\<close> snoc by (cases d) auto
        ultimately have "bobj SG s (fst d) \<noteq> None" by (intro live_in [OF R]) (use sg \<open>pre = pre' @ [em]\<close> snoc in \<open>auto simp: isfree_def\<close>)
        moreover have "fst d \<noteq> h" using sh sg \<open>pre = pre' @ [em]\<close> snoc by (auto simp: region_shape_def)
        ultimately show ?thesis using ab(2) snoc by simp
      qed simp
      ultimately show ?thesis using snoc em f
        by (intro exI [of _ "SG(r := pre' @ (h, m + n) # post)"] exI [of _ ys] exI [of _ pre'] exI [of _ m] exI [of _ ?s2] exI [of _ ?R]) simp
    qed
  qed
qed

lemma coalesce_next_ok:
  assumes hd: "held SG xs h r pre n post c s" and R: "rt_region s r = Some R"
    and pn: "pre = [] \<or> bobj SG s (fst (last pre)) \<noteq> None" and lp: "lp = tot pre + n"
  shows "\<exists>SG' ys post' m s' R'. coalesce_next h r lp (of_nat (1024 * k)) s = Inr (of_nat (1024 * (k + m)), s')
    \<and> held SG' ys h r pre (m + n) post' (c + m) s' \<and> apart (rt_desc s') pre post' \<and> (\<forall>d. d \<noteq> h \<longrightarrow> bobj SG' s' d = bobj SG s d)
    \<and> rt_region s' r = Some R' \<and> br_minGen R' = br_minGen R \<and> rt_fresh s' = rt_fresh s \<and> rt_heap s' = rt_heap s"
proof -
  obtain x where x: "rt_desc s h = Some x" "bd_obj x = br_firstPage R + of_nat (1024 * tot pre)" and sg: "SG r = pre @ (h, n) # post" and sh: "region_shape R (SG r)" and n0: "0 < n"
    by (rule held_region [OF hd]) (use R in simp)
  have om: "br_objMap R = segs_map pre @ replicate n h @ segs_map post" and np: "br_nPages R = tot pre + n + tot post" using sh sg by (simp_all add: region_shape_def)
  have gr: "get_region r s = Inr R" using R by (simp add: get_region_def)
  note hm = held_region_more [OF hd R]
  have dist: "distinct (map fst (SG r))" using sh by (simp add: region_shape_def)
  have lph: "pre \<noteq> [] \<Longrightarrow> fst (last pre) \<noteq> h" using dist sg last_in_set by force
  have pa: "pre = [] \<or> \<not> isfree (rt_desc s) (fst (last pre))" using pn bobj_not_free by blast
  show ?thesis
  proof (cases post)
    case Nil
    then have "coalesce_next h r lp T s = Inr (T, s)" for T using gr np lp by (simp add: coalesce_next_def)
    then show ?thesis using hd R pa Nil
      by (intro exI [of _ SG] exI [of _ xs] exI [of _ "[]"] exI [of _ 0] exI [of _ s] exI [of _ R]) (simp add: apart_def)
  next
    case (Cons em post')
    obtain e m where em: "em = (e, m)" by (cases em)
    have "(e, m) \<in> set post" using Cons em by simp
    then obtain z where z: "rt_desc s e = Some z" "desc_at r (br_firstPage R) (tot pre + n) m z" using hm(2) Cons em by auto
    have m: "0 < m" using z(2) by (simp add: desc_at_def)
    have ix: "br_objMap R ! lp = e" using m om Cons em lp by (simp add: nth_append)
    have gd: "get_desc e s = Inr z" using z by (simp add: get_desc_def)
    have cp: "coalesce_next h r lp T s = (if BO_IS_FREE z then
           rbind (RemoveBODesc e s) (\<lambda>s.
           rbind (set_pages r lp (lp + unat (drop_bit 10 (bd_sizeB z))) h s) (\<lambda>s.
           Inr (T + bd_sizeB z, s\<lparr>rt_desc := (rt_desc s)(e := None)\<rparr>)))
         else Inr (T, s))" for T
    proof -
      have "lp < br_nPages R" "\<not> length (br_objMap R) \<le> lp" using np om lp Cons em m by simp_all
      then show ?thesis by (simp add: coalesce_next_def gr ix gd)
    qed
    show ?thesis
    proof (cases "BO_IS_FREE z")
      case False
      then have "apart (rt_desc s) pre post" using z(1) pa Cons em by (simp add: apart_def isfree_def)
      then show ?thesis using hd R cp [of "of_nat (1024 * k)"] False
        by (intro exI [of _ SG] exI [of _ xs] exI [of _ post] exI [of _ 0] exI [of _ s] exI [of _ R]) simp
    next
      case True
      have fe: "isfree (rt_desc s) e" using z True by (simp add: isfree_def)
      have ein: "e \<in> fst ` set pre \<or> e \<in> fst ` set post" using Cons em by simp
      from held_remove [OF hd R ein fe] obtain s1 ys y where
        s1: "RemoveBODesc e s = Inr s1" "free_list s1 ys" "same_objs s s1" "set ys = set xs - {e}" and y: "rt_desc s1 h = Some y"
          "bd_obj y = br_firstPage R + of_nat (1024 * tot pre)" by blast
      note f = same_objs_fields [OF s1(3)]
      have zo: "bd_sizeB z = of_nat (1024 * m)" using z(2) True by (simp add: desc_at_def)
      have "m < 2 ^ 48" using shape_bound [OF sh] sg Cons em by simp
      then have up: "unat (drop_bit 10 (bd_sizeB z)) = m" unfolding zo by (rule unat_pages)
      let ?R = "R\<lparr>br_objMap := segs_map (pre @ (h, m + n) # post')\<rparr>"
      have sp: "set_pages r lp (lp + m) h s1 = Inr (s1\<lparr>rt_region := (rt_region s1)(r \<mapsto> ?R)\<rparr>)"
      proof -
        have "replicate (m + n) h = replicate n h @ replicate m h" by (simp add: replicate_add [symmetric] add.commute)
        then show ?thesis using set_pages_map [of s1 r R "segs_map pre @ replicate n h" "replicate m e" "segs_map post'" lp "lp + m" h] R f(1) om Cons em lp
          by simp
      qed
      let ?s2 = "s1\<lparr>rt_region := (rt_region s1)(r \<mapsto> ?R), rt_desc := ((rt_desc s1)(h \<mapsto> y\<lparr>bd_obj := br_firstPage R + of_nat (1024 * tot pre)\<rparr>))(e := None)\<rparr>"
      let ?SG = "SG(r := pre @ (h, m + n) # post')"
      have yy: "y\<lparr>bd_obj := br_firstPage R + of_nat (1024 * tot pre)\<rparr> = y" using y(2) by simp
      have yd: "(rt_desc s1)(h \<mapsto> y) = rt_desc s1" using y(1) by (simp add: fun_upd_idem)
      have cn: "coalesce_next h r lp (of_nat (1024 * k)) s = Inr (of_nat (1024 * (k + m)), ?s2)"
        unfolding yy yd using cp True s1(1) sp zo up by (simp add: distrib_left)
      have cd: "pre = pre @ [(e, m)] \<and> post' = post \<or> pre = pre \<and> post = (e, m) # post'" using Cons em by simp
      note ab = held_absorb [OF hd R cd fe s1(3,2,4) y(1) refl refl]
      have a1: "pre = [] \<or> \<not> isfree (rt_desc ?s2) (fst (last pre))"
      proof (cases "pre = []")
        case False
        then have "bobj ?SG ?s2 (fst (last pre)) \<noteq> None" using pn lph ab(2) by simp
        then show ?thesis using bobj_not_free by blast
      qed simp
      have a2: "post' = [] \<or> \<not> isfree (rt_desc ?s2) (fst (hd post'))"
      proof (cases post')
        case (Cons d ds)
        have "\<not> isfree (rt_desc s) (fst d)" using hm(4) fe \<open>post = em # post'\<close> em Cons by (simp add: coalesced_def)
        moreover obtain w where "rt_desc s (fst d) = Some w" using hm(2) \<open>post = em # post'\<close> em Cons by (cases d) auto
        ultimately have "bobj SG s (fst d) \<noteq> None" by (intro live_in [OF R]) (use sg \<open>post = em # post'\<close> Cons in \<open>auto simp: isfree_def\<close>)
        moreover have "fst d \<noteq> h" using dist sg \<open>post = em # post'\<close> Cons by auto
        ultimately have "bobj ?SG ?s2 (fst d) \<noteq> None" using ab(2) by simp
        then have "\<not> isfree (rt_desc ?s2) (fst d)" by (rule bobj_not_free)
        then show ?thesis unfolding Cons list.sel by (rule disjI2)
      qed simp
      have r2: "rt_region ?s2 r = Some ?R" "rt_fresh ?s2 = rt_fresh s" "rt_heap ?s2 = rt_heap s" using f by simp_all
      have "apart (rt_desc ?s2) pre post'" using a1 a2 unfolding apart_def by blast
      then show ?thesis using cn ab r2
        by (intro exI [of _ ?SG] exI [of _ ys] exI [of _ post'] exI [of _ m] exI [of _ ?s2] exI [of _ ?R]) simp
    qed
  qed
qed

lemma bobj_desc:
  assumes "bo_inv SG xs s" "bobj SG s h = Some v"
  obtains r R pre n post x where "rt_region s r = Some R" "SG r = pre @ (h, n) # post" "rt_desc s h = Some x" "desc_at r (br_firstPage R) (tot pre) n x"
    "\<not> BO_IS_FREE x" "v = (bd_obj x, bd_sizeB x, bd_state x, bd_gen x)"
proof -
  from assms(2) have l: "live SG s h" by (auto simp: bobj_def split: if_splits)
  then obtain r R n where R: "rt_region s r = Some R" "(h, n) \<in> set (SG r)" by (auto simp: live_def)
  then obtain pre post where sg: "SG r = pre @ (h, n) # post" by (meson split_list)
  from bo_inv_region(2) [OF assms(1) R(1)] sg obtain x where x: "rt_desc s h = Some x" "desc_at r (br_firstPage R) (tot pre) n x" by (auto simp: region_descs_def)
  have "\<not> BO_IS_FREE x" "v = (bd_obj x, bd_sizeB x, bd_state x, bd_gen x)" using l x(1) assms(2) by (auto simp: live_def isfree_def bobj_def)
  with R(1) sg x show thesis by (rule that)
qed

lemma BO_Free_ok:
  assumes inv: "bo_inv SG xs s" and h: "bobj SG s h = Some v"
  shows "\<exists>SG' xs' s'. BO_Free h s = Inr s' \<and> bo_inv SG' xs' s' \<and> bobj SG' s' = (bobj SG s)(h := None) \<and> rt_fresh s' = rt_fresh s"
proof -
  obtain r R pre n post x where R: "rt_region s r = Some R" and sg: "SG r = pre @ (h, n) # post" and x: "rt_desc s h = Some x" "desc_at r (br_firstPage R) (tot pre) n x" "\<not> BO_IS_FREE x"
    by (rule bobj_desc [OF inv h])
  have sh: "region_shape R (SG r)" and rd: "region_descs (rt_desc s) r R (SG r)" by (rule bo_inv_region [OF inv R])+
  have nf: "\<not> isfree (rt_desc s) h" using x by (simp add: isfree_def)
  have fl: "free_list s xs" using inv by (simp add: bo_inv_def)
  have "h \<notin> set xs" using inv nf by (auto simp: bo_inv_def free_descs_def)
  then have xh: "set xs = set xs - {h}" by simp
  have "same_objs s s" by (simp add: same_objs_def)
  from inv_held [OF inv R sg this fl xh] nf have hd: "held SG xs h r pre n post 0 s" by simp
  have sz: "unat (bd_sizeB x) \<le> 1024 * n" "1024 * n < unat (bd_sizeB x) + 1024" "bd_region x = r" "bd_obj x = br_firstPage R + of_nat (1024 * tot pre)"
    using x(2,3) by (simp_all add: desc_at_def)
  have n: "n < 2 ^ 38" using shape_bound [OF sh] sg by simp
  have rs: "ROUNDUP (bd_sizeB x) BIGOBJ_PAGE_SZB = of_nat (1024 * n)" by (rule round_pages [OF sz(1,2) n])
  have up: "unat (drop_bit 10 (of_nat (1024 * n) :: addr_t)) = n" using n by (intro unat_pages) simp
  have "int (unat (drop_bit 10 (of_nat (1024 * n) :: addr_t))) = uint (drop_bit 10 (of_nat (1024 * n) :: addr_t))" by simp
  then have upi: "uint (drop_bit 10 (of_nat (1024 * n) :: addr_t)) = int n" using up by (simp only:)
  have fp: "ADDR_TO_BOPAGE R (bd_obj x) = tot pre" unfolding sz(4) by (rule bopage [OF sh]) (simp add: sg)
  have gd: "get_desc h s = Inr x" "get_region r s = Inr R" using x(1) R by (simp_all add: get_desc_def get_region_def)
  have bf: "BO_Free h s = rbind (coalesce_prev h r (tot pre) (of_nat (1024 * n)) s) (\<lambda>(totSzB, s).
     rbind (coalesce_next h r (tot pre + n) totSzB s) (\<lambda>(totSzB, s). free_end h r totSzB n s))"
    unfolding BO_Free_def free_end_def by (simp add: gd sz(3) rs up upi fp Let_def del: of_nat_mult)
  from coalesce_prev_ok [OF hd R, of n] obtain SG1 ys1 pre1 m1 s1 R1 where
    1: "coalesce_prev h r (tot pre) (of_nat (1024 * n)) s = Inr (of_nat (1024 * (n + m1)), s1)" "held SG1 ys1 h r pre1 (m1 + n) post (0 + m1) s1"
      "pre1 = [] \<or> bobj SG1 s1 (fst (last pre1)) \<noteq> None" "\<forall>d. d \<noteq> h \<longrightarrow> bobj SG1 s1 d = bobj SG s d" "tot pre1 + m1 = tot pre"
      "rt_region s1 r = Some R1" "br_minGen R1 = br_minGen R" "rt_fresh s1 = rt_fresh s" by blast
  have lp: "tot pre + n = tot pre1 + (m1 + n)" using 1(5) by simp
  from coalesce_next_ok [OF 1(2,6,3) lp, of "n + m1"] obtain SG2 ys2 post2 m2 s2 R2 where
    2: "coalesce_next h r (tot pre + n) (of_nat (1024 * (n + m1))) s1 = Inr (of_nat (1024 * (n + m1 + m2)), s2)"
      "held SG2 ys2 h r pre1 (m2 + (m1 + n)) post2 (0 + m1 + m2) s2" "apart (rt_desc s2) pre1 post2" "\<forall>d. d \<noteq> h \<longrightarrow> bobj SG2 s2 d = bobj SG1 s1 d"
      "rt_region s2 r = Some R2" "br_minGen R2 = br_minGen R1" "rt_fresh s2 = rt_fresh s1" by blast
  have e: "m2 + (m1 + n) = 0 + m1 + m2 + n" "of_nat (1024 * (n + m1 + m2)) = (of_nat (1024 * (m2 + (m1 + n))) :: addr_t)" by (simp_all add: ac_simps)
  have g: "br_minGen R2 < 14" using 2(6) 1(7) rd by (simp add: region_descs_def)
  from free_end_ok [OF 2(2) e(1,2) 2(5) g 2(3)] obtain s' where
    s': "free_end h r (of_nat (1024 * (n + m1 + m2))) n s2 = Inr s'" "bo_inv SG2 (h # ys2) s'" "bobj SG2 s' = (bobj SG2 s2)(h := None)" "rt_fresh s' = rt_fresh s2" by blast
  have "BO_Free h s = Inr s'" using bf 1(1) 2(1) s'(1) by (simp del: of_nat_mult of_nat_add)
  moreover have "bobj SG2 s' = (bobj SG s)(h := None)" using s'(3) 1(4) 2(4) by (auto simp: fun_eq_iff)
  ultimately show ?thesis using s'(2,4) 1(8) 2(7) by (intro exI [of _ SG2] exI [of _ "h # ys2"] exI [of _ s']) simp
qed

section \<open>Finding space\<close>

lemma dseg_dom: "dseg n v p xs q \<Longrightarrow> a \<in> set (p # xs) \<Longrightarrow> n a \<noteq> None"
  by (induction xs arbitrary: p) auto

lemma dseg_dom_prev: "dseg n v p xs q \<Longrightarrow> a \<in> set (xs @ [q]) \<Longrightarrow> v a \<noteq> None"
  by (induction xs arbitrary: p) auto

lemma free_list_desc: "free_list s xs \<Longrightarrow> a \<in> set (h_freeBigObjs (rt_heap s) # xs) \<Longrightarrow> rt_desc s a \<noteq> None"
  using dseg_dom [of "nx s" "pv s" "h_freeBigObjs (rt_heap s)" xs "h_freeBigObjs (rt_heap s)" a] by (auto simp: free_list_def nx_def)

lemma first_fit_seg:
  assumes "dseg (nx s) (pv s) p ys hdr" "hdr \<notin> set ys" "length ys < fuel"
  shows "\<exists>dp. first_fit fuel (hd (ys @ [hdr])) hdr T s = Inr dp \<and> (dp = hdr \<or> dp \<in> set ys \<and> (\<exists>x. rt_desc s dp = Some x \<and> T \<le> bd_sizeB x))"
  using assms
proof (induction ys arbitrary: p fuel)
  case Nil
  then show ?case by (cases fuel) auto
next
  case (Cons y ys)
  then obtain f where f: "fuel = Suc f" "length ys < f" by (cases fuel) auto
  have seg: "dseg (nx s) (pv s) y ys hdr" using Cons.prems(1) by simp
  have "nx s y = Some (hd (ys @ [hdr]))" using seg by (cases ys) auto
  then obtain x where x: "rt_desc s y = Some x" "bd_next x = hd (ys @ [hdr])" by (auto simp: nx_def)
  show ?case
  proof (cases "bd_sizeB x < T")
    case True
    from Cons.IH [OF seg _ f(2)] Cons.prems(2) obtain dp where "first_fit f (hd (ys @ [hdr])) hdr T s = Inr dp"
      "dp = hdr \<or> dp \<in> set ys \<and> (\<exists>x. rt_desc s dp = Some x \<and> T \<le> bd_sizeB x)" by auto
    then show ?thesis using f(1) True x Cons.prems(2) by (auto simp: get_desc_def)
  next
    case False
    then show ?thesis using f(1) x Cons.prems(2) by (auto simp: get_desc_def)
  qed
qed

text \<open>The invariant, except that \<open>dp\<close> need not be in the free list and its region need not be marked.\<close>

definition descs_ok :: "descs \<Rightarrow> nat \<Rightarrow> bigobj_region \<Rightarrow> segs \<Rightarrow> bool" where
  "descs_ok D r R sg \<longleftrightarrow> segs_ok D r (br_firstPage R) 0 sg \<and> coalesced D sg \<and> br_nFree R = int (free_pages D sg)"

definition nearly :: "(nat \<Rightarrow> segs) \<Rightarrow> nat list \<Rightarrow> nat \<Rightarrow> nat \<Rightarrow> rt \<Rightarrow> bool" where
  "nearly SG xs dp r s \<longleftrightarrow> bo_common SG s \<and> free_list s xs \<and> set xs - {dp} = free_descs SG s - {dp}
     \<and> (\<forall>q Q. rt_region s q = Some Q \<longrightarrow> descs_ok (rt_desc s) q Q (SG q) \<and> (q \<noteq> r \<longrightarrow> br_minGen Q < MAX_NUM_GENS))"

lemma nearly_inv: "bo_inv SG xs s \<Longrightarrow> nearly SG xs dp r s"
  by (auto simp: nearly_def bo_inv_def region_descs_def descs_ok_def)

lemma nearly_held:
  assumes nr: "nearly SG xs h r s" and R: "rt_region s r = Some R" and sg: "SG r = pre @ (h, n) # post" and fr: "isfree (rt_desc s) h"
    and s': "same_objs s s'" "free_list s' ys" "set ys = set xs - {h}"
  shows "held SG ys h r pre n post n s'" "bobj SG s' = bobj SG s"
proof -
  note f = same_objs_fields [OF s'(1)]
  have ag: "agree (rt_desc s) (rt_desc s') d" for d by (rule same_objs_agree [OF s'(1)])
  have dk: "descs_ok (rt_desc s) q Q (SG q)" "q \<noteq> r \<Longrightarrow> br_minGen Q < 14" if "rt_region s q = Some Q" for q Q using nr that by (auto simp: nearly_def)
  have dk': "descs_ok (rt_desc s') q Q (SG q)" if "rt_region s q = Some Q" for q Q
    using dk(1) [OF that] segs_agree [of "SG q" "rt_desc s" "rt_desc s'"] ag by (simp add: descs_ok_def)
  have c: "bo_common SG s'" using same_objs_common [OF s'(1)] nr by (simp add: nearly_def)
  have fd: "set ys = free_descs SG s' - {h}" using s'(3) nr same_objs_free_descs [OF s'(1)] by (simp add: nearly_def)
  have hin: "h \<in> fst ` set (SG r)" using sg by simp
  have o: "region_descs (rt_desc s') q Q (SG q) \<and> h \<notin> fst ` set (SG q)" if q: "q \<noteq> r" "rt_region s' q = Some Q" for q Q
  proof
    have Q: "rt_region s q = Some Q" using q(2) f by simp
    show "region_descs (rt_desc s') q Q (SG q)" using dk' [OF Q] dk(2) [OF Q q(1)] by (simp add: descs_ok_def region_descs_def)
    have "segs_ok (rt_desc s) q (br_firstPage Q) 0 (SG q)" "segs_ok (rt_desc s) r (br_firstPage R) 0 (SG r)" using dk(1) [OF Q] dk(1) [OF R] by (simp_all add: descs_ok_def)
    then show "h \<notin> fst ` set (SG q)" using in_one_region hin q(1) by blast
  qed
  have d: "descs_ok (rt_desc s') r R (SG r)" by (rule dk' [OF R])
  have fr': "isfree (rt_desc s') h" using agree_isfree [OF ag] fr by simp
  obtain y where y: "rt_desc s' h = Some y" "desc_at r (br_firstPage R) (tot pre) n y" using d unfolding sg descs_ok_def by auto
  have p: "segs_ok (rt_desc s') r (br_firstPage R) 0 pre" "segs_ok (rt_desc s') r (br_firstPage R) (tot pre + n) post"
    "coalesced (rt_desc s') pre" "coalesced (rt_desc s') post"
    using d unfolding sg descs_ok_def coalesced_def by (auto simp: successively_append_iff successively_Cons)
  have nf: "br_nFree R = int (free_pages (rt_desc s') pre + n + free_pages (rt_desc s') post)"
    using d fr' unfolding sg descs_ok_def by auto
  show "held SG ys h r pre n post n s'" unfolding held_def using c s'(2) fd o sg R p nf y f(1) by (auto simp: desc_at_def)
  show "bobj SG s' = bobj SG s" by (rule ext, rule bobj_agree [OF ag]) (simp only: f(1))
qed

section \<open>Splitting a free descriptor\<close>

lemma segs_ok_dom: "segs_ok D r a p sg \<Longrightarrow> d \<in> fst ` set sg \<Longrightarrow> D d \<noteq> None"
  using segs_ok_in by fastforce

lemma held_split:
  assumes nr: "nearly SG xs dp r s" and R: "rt_region s r = Some R" and sg: "SG r = pre @ (dp, n) # post"
    and x: "rt_desc s dp = Some x" "BO_IS_FREE x" and k: "0 < k" "k < n"
    and y: "bd_obj y = bd_obj x" "bd_region y = bd_region x"
    and s1: "s1 = s\<lparr>rt_fresh := rt_fresh s + 1, rt_desc := (rt_desc s)(rt_fresh s \<mapsto> y, dp \<mapsto> x\<lparr>bd_obj := bd_obj x + of_nat (1024 * k), bd_sizeB := bd_sizeB x - of_nat (1024 * k)\<rparr>)\<rparr>"
    and s2: "same_objs s1 s2" "free_list s2 ys" "set ys = insert dp (set xs)"
    and SG': "SG' = SG(r := pre @ (rt_fresh s, k) # (dp, n - k) # post)"
    and s3: "s3 = s2\<lparr>rt_region := (rt_region s2)(r \<mapsto> R\<lparr>br_objMap := segs_map (pre @ (rt_fresh s, k) # (dp, n - k) # post)\<rparr>)\<rparr>"
  shows "held SG' ys (rt_fresh s) r pre k ((dp, n - k) # post) k s3" "\<forall>d. d \<noteq> rt_fresh s \<longrightarrow> bobj SG' s3 d = bobj SG s d"
proof -
  let ?new = "rt_fresh s"
  have cm: "bo_common SG s" "free_list s xs" "set xs - {dp} = free_descs SG s - {dp}" using nr by (simp_all add: nearly_def)
  have dk: "descs_ok (rt_desc s) q Q (SG q)" "q \<noteq> r \<Longrightarrow> br_minGen Q < 14" if "rt_region s q = Some Q" for q Q using nr that by (auto simp: nearly_def)
  have so: "segs_ok (rt_desc s) q (br_firstPage Q) 0 (SG q)" if "rt_region s q = Some Q" for q Q using dk(1) [OF that] by (simp add: descs_ok_def)
  have fN: "rt_desc s ?new = None" using cm(1) unfolding bo_common_def by blast
  have newSG: "?new \<notin> fst ` set (SG q)" if "rt_region s q = Some Q" for q Q using segs_ok_dom [OF so [OF that]] fN by blast
  note f = same_objs_fields [OF s2(1)]
  have f3: "rt_region s3 = (rt_region s)(r \<mapsto> R\<lparr>br_objMap := segs_map (pre @ (?new, k) # (dp, n - k) # post)\<rparr>)" "rt_bibop s3 = rt_bibop s" "rt_mem s3 = rt_mem s"
    "rt_heap s3 = rt_heap s" "rt_ms s3 = rt_ms s" "rt_fresh s3 = rt_fresh s + 1" "rt_desc s3 = rt_desc s2"
    by (simp_all add: s3 f s1)
  have dn: "dp \<noteq> ?new" using x fN by auto
  have ag1: "agree (rt_desc s1) (rt_desc s3) d" for d using same_objs_agree [OF s2(1), of d] f3(7) by simp
  have ag: "agree (rt_desc s) (rt_desc s3) d" if "d \<noteq> dp" "d \<noteq> ?new" for d
    by (rule agree_trans [OF _ ag1]) (use that in \<open>simp add: agree_def s1\<close>)
  have sh: "region_shape R (SG r)" using cm(1) R by (simp add: bo_common_def)
  have dist: "distinct (map fst (SG r))" using sh by (simp add: region_shape_def)
  have inr: "dp \<in> fst ` set (SG r)" using sg by simp
  have dpo: "dp \<notin> fst ` set (SG q)" if q: "rt_region s q = Some Q" "q \<noteq> r" for q Q
    using in_one_region [OF so [OF q(1)] so [OF R] _ inr] q(2) by blast
  have np: "dp \<notin> fst ` set pre" "dp \<notin> fst ` set post" "?new \<notin> fst ` set pre" "?new \<notin> fst ` set post"
    using dist newSG [OF R] sg by auto
  have sub: "fst ` set (SG' r) = insert ?new (fst ` set (SG r))" using sg by (auto simp: SG')
  have tt: "tot (SG' r) = tot (SG r)" using sg k by (simp add: SG')
  have d0: "desc_at r (br_firstPage R) (tot pre) n x" using so [OF R] x(1) unfolding sg by auto
  have xf: "bd_region x = r" "bd_obj x = br_firstPage R + of_nat (1024 * tot pre)" "bd_sizeB x = of_nat (1024 * n)" using d0 x(2) by (simp_all add: desc_at_def)
  obtain z where z: "rt_desc s3 dp = Some z" "bd_obj z = bd_obj x + of_nat (1024 * k)" "bd_sizeB z = bd_sizeB x - of_nat (1024 * k)" "bd_state z = bd_state x" "bd_region z = r"
  proof -
    have "rt_desc s1 dp = Some (x\<lparr>bd_obj := bd_obj x + of_nat (1024 * k), bd_sizeB := bd_sizeB x - of_nat (1024 * k)\<rparr>)" by (simp add: s1)
    from agree_desc [OF ag1 this] that xf(1) show thesis by auto
  qed
  have zf: "BO_IS_FREE z" using z(4) x(2) by (simp add: BO_IS_FREE_def)
  have sz: "bd_sizeB z = of_nat (1024 * (n - k))"
  proof -
    have "(of_nat (1024 * n) :: addr_t) = of_nat (1024 * (n - k)) + of_nat (1024 * k)" using k by (simp only: of_nat_add [symmetric] distrib_left [symmetric]) simp
    then show ?thesis using z(3) xf(3) by simp
  qed
  have dz: "desc_at r (br_firstPage R) (tot pre + k) (n - k) z" using z sz zf xf k by (simp add: desc_at_def distrib_left)
  obtain w where w: "rt_desc s3 ?new = Some w" "bd_obj w = bd_obj x" "bd_region w = r"
  proof -
    have "rt_desc s1 ?new = Some y" using dn by (simp add: s1)
    from agree_desc [OF ag1 this] that y xf(1) show thesis by auto
  qed
  have hdr: "h_freeBigObjs (rt_heap s) \<noteq> ?new" using free_list_desc [OF cm(2), of "h_freeBigObjs (rt_heap s)"] fN by auto
  have common: "bo_common SG' s3"
  proof -
    have dist': "distinct (map fst (SG' r))" using dist sg np dn unfolding SG' fun_upd_same by simp
    have shp: "region_shape (R\<lparr>br_objMap := segs_map (pre @ (?new, k) # (dp, n - k) # post)\<rparr>) (SG' r)"
      using sh tt dist' by (simp add: region_shape_def SG')
    have 1: "region_shape Q (SG' q) \<and> q < rt_fresh s3 \<and> bo_range Q \<subseteq> ms_mapped (rt_ms s3) \<and> h_freeBigObjs (rt_heap s3) \<notin> fst ` set (SG' q) \<and> marked s3 q Q"
      if "rt_region s3 q = Some Q" for q Q
    proof (cases "q = r")
      case True
      then have Q: "Q = R\<lparr>br_objMap := segs_map (pre @ (?new, k) # (dp, n - k) # post)\<rparr>" using that f3(1) by simp
      have "r < rt_fresh s" "bo_range R \<subseteq> ms_mapped (rt_ms s)" "marked s r R" "h_freeBigObjs (rt_heap s) \<notin> fst ` set (SG r)" using cm(1) R by (simp_all add: bo_common_def)
      then show ?thesis using True Q shp sub hdr by (auto simp: f3 bo_range_def marked_def)
    next
      case False
      then have "rt_region s q = Some Q" using that f3(1) by simp
      then have "region_shape Q (SG q)" "q < rt_fresh s" "bo_range Q \<subseteq> ms_mapped (rt_ms s)" "h_freeBigObjs (rt_heap s) \<notin> fst ` set (SG q)" "marked s q Q"
        using cm(1) by (simp_all add: bo_common_def)
      then show ?thesis using False by (simp add: f3 SG' marked_def)
    qed
    have 2: "bo_range Q \<inter> bo_range Q' = {}" if q: "rt_region s3 q = Some Q" "rt_region s3 q' = Some Q'" "q \<noteq> q'" for q Q q' Q'
    proof -
      have "\<exists>P. rt_region s a = Some P \<and> bo_range A = bo_range P" if "rt_region s3 a = Some A" for a A
        using that R by (cases "a = r") (auto simp: f3 bo_range_def)
      from this [OF q(1)] this [OF q(2)] obtain P P' where "rt_region s q = Some P" "rt_region s q' = Some P'" "bo_range Q = bo_range P" "bo_range Q' = bo_range P'" by blast
      then show ?thesis using cm(1) q(3) by (simp add: bo_common_def)
    qed
    have "d < rt_fresh s3" if "rt_desc s3 d \<noteq> None" for d
    proof -
      have "rt_desc s1 d \<noteq> None" using that agree_None [OF ag1] by simp
      then have "d = ?new \<or> rt_desc s d \<noteq> None" using x by (auto simp: s1 split: if_splits)
      then show ?thesis using cm(1) by (auto simp: bo_common_def f3)
    qed
    moreover have "bibop_wf (rt_bibop s3)" using cm(1) by (simp add: bo_common_def f3)
    ultimately show ?thesis unfolding bo_common_def using 1 2 by auto
  qed
  have exd: "(\<exists>q Q. rt_region s3 q = Some Q \<and> d \<in> fst ` set (SG' q)) \<longleftrightarrow> d = ?new \<or> (\<exists>q Q. rt_region s q = Some Q \<and> d \<in> fst ` set (SG q))" for d
  proof -
    have a: "(rt_region s3 q \<noteq> None \<and> d \<in> fst ` set (SG' q)) \<longleftrightarrow> (q = r \<and> d = ?new \<or> rt_region s q \<noteq> None \<and> d \<in> fst ` set (SG q))" for q
      using sub R by (cases "q = r") (auto simp: f3 SG')
    have b: "(\<exists>q Q. rt_region t q = Some Q \<and> d \<in> fst ` set (T q)) \<longleftrightarrow> (\<exists>q. rt_region t q \<noteq> None \<and> d \<in> fst ` set (T q))" for t and T :: "nat \<Rightarrow> segs" by auto
    show ?thesis unfolding b a by blast
  qed
  have fre: "isfree (rt_desc s3) d = isfree (rt_desc s) d" if "d \<noteq> ?new" for d
  proof (cases "d = dp")
    case True
    then show ?thesis using z(1) zf x by (simp add: isfree_def)
  qed (use that agree_isfree [OF ag] in simp)
  have fdd: "d \<in> free_descs SG' s3 \<longleftrightarrow> (\<exists>q Q. rt_region s3 q = Some Q \<and> d \<in> fst ` set (SG' q)) \<and> isfree (rt_desc s3) d"
    "d \<in> free_descs SG s \<longleftrightarrow> (\<exists>q Q. rt_region s q = Some Q \<and> d \<in> fst ` set (SG q)) \<and> isfree (rt_desc s) d" for d
    unfolding free_descs_def by auto
  have df: "dp \<in> free_descs SG s" unfolding fdd using R inr x by (auto simp: isfree_def)
  have ys: "set ys = free_descs SG s"
  proof -
    have "set ys = insert dp (set xs - {dp})" using s2(3) by simp
    also have "\<dots> = insert dp (free_descs SG s - {dp})" using cm(3) by simp
    finally show ?thesis using df by (simp add: insert_absorb)
  qed
  have newn: "?new \<notin> free_descs SG s" unfolding fdd
  proof (intro notI, elim conjE exE)
    fix q Q assume "rt_region s q = Some Q" "?new \<in> fst ` set (SG q)"
    then show False using newSG by blast
  qed
  have fd: "set ys = free_descs SG' s3 - {?new}"
  proof -
    have "d \<in> free_descs SG s \<longleftrightarrow> d \<in> free_descs SG' s3" if "d \<noteq> ?new" for d unfolding fdd exd fre [OF that] using that by (simp only: simp_thms)
    then have "d \<in> free_descs SG s \<longleftrightarrow> d \<in> free_descs SG' s3 - {?new}" for d using newn by (cases "d = ?new") simp_all
    then show ?thesis unfolding ys by (rule set_eqI)
  qed
  have fl: "free_list s3 ys"
  proof (rule free_list_links [OF s2(2)])
    show "nx s3 = nx s2" "pv s3 = pv s2" by (simp_all add: fun_eq_iff nx_def pv_def f3(7))
    show "rt_heap s3 = rt_heap s2" by (simp add: s3)
  qed
  have agp: "\<forall>d \<in> fst ` set pre. agree (rt_desc s) (rt_desc s3) d" "\<forall>d \<in> fst ` set post. agree (rt_desc s) (rt_desc s3) d" using ag np by metis+
  note p = segs_agree [OF agp(1)] segs_agree [OF agp(2)]
  have dr: "segs_ok (rt_desc s) r (br_firstPage R) 0 pre" "segs_ok (rt_desc s) r (br_firstPage R) (tot pre + n) post"
    "coalesced (rt_desc s) pre" "coalesced (rt_desc s) post" "post = [] \<or> \<not> isfree (rt_desc s) (fst (hd post))"
    "br_nFree R = int (free_pages (rt_desc s) pre + n + free_pages (rt_desc s) post)"
    using dk(1) [OF R] x unfolding sg descs_ok_def coalesced_def by (auto simp: successively_append_iff successively_Cons isfree_def)
  have cp: "coalesced (rt_desc s3) ((dp, n - k) # post)"
  proof -
    have "post \<noteq> [] \<Longrightarrow> fst (hd post) \<noteq> ?new" using np(4) by (cases post) auto
    then show ?thesis using p(5) dr(4,5) fre [of "fst (hd post)"] by (auto simp: coalesced_def successively_Cons)
  qed
  have fp: "free_pages (rt_desc s3) ((dp, n - k) # post) = n - k + free_pages (rt_desc s) post" using p(6) fre [OF dn] x by (simp add: isfree_def)
  have o: "region_descs (rt_desc s3) q Q (SG' q) \<and> ?new \<notin> fst ` set (SG' q)" if q: "q \<noteq> r" "rt_region s3 q = Some Q" for q Q
  proof -
    have Q: "rt_region s q = Some Q" "SG' q = SG q" using q by (simp_all add: f3 SG')
    have nn: "?new \<notin> fst ` set (SG q)" by (rule newSG [OF Q(1)])
    then have "\<forall>d \<in> fst ` set (SG q). agree (rt_desc s) (rt_desc s3) d" using dpo [OF Q(1) q(1)] ag by metis
    moreover have "region_descs (rt_desc s) q Q (SG q)" using dk [OF Q(1)] q(1) by (simp add: descs_ok_def region_descs_def)
    ultimately show ?thesis using agree_descs nn Q(2) by simp
  qed
  show "held SG' ys ?new r pre k ((dp, n - k) # post) k s3"
    unfolding held_def
  proof (intro conjI)
    show "bo_common SG' s3" "free_list s3 ys" "set ys = free_descs SG' s3 - {?new}" "0 < k" by fact+
    show "\<forall>q Q. q \<noteq> r \<longrightarrow> rt_region s3 q = Some Q \<longrightarrow> region_descs (rt_desc s3) q Q (SG' q) \<and> ?new \<notin> fst ` set (SG' q)" using o by blast
    show "SG' r = pre @ (?new, k) # (dp, n - k) # post" by (simp add: SG')
    show "\<exists>Q z. rt_region s3 r = Some Q \<and> rt_desc s3 ?new = Some z \<and> bd_region z = r \<and> bd_obj z = br_firstPage Q + of_nat (1024 * tot pre)
          \<and> segs_ok (rt_desc s3) r (br_firstPage Q) 0 pre \<and> segs_ok (rt_desc s3) r (br_firstPage Q) (tot pre + k) ((dp, n - k) # post)
          \<and> coalesced (rt_desc s3) pre \<and> coalesced (rt_desc s3) ((dp, n - k) # post)
          \<and> br_nFree Q = int (free_pages (rt_desc s3) pre + k + free_pages (rt_desc s3) ((dp, n - k) # post))"
      using w xf(2) p(1) [OF dr(1)] p(4) [OF dr(2)] z(1) dz p(2,3) dr(3,6) cp fp k by (simp add: f3(1))
  qed
  show "\<forall>d. d \<noteq> ?new \<longrightarrow> bobj SG' s3 d = bobj SG s d"
  proof (intro allI impI)
    fix d assume d: "d \<noteq> ?new"
    have lv: "live SG' s3 d = live SG s d" unfolding live_def exd using fre [OF d] d by simp
    show "bobj SG' s3 d = bobj SG s d"
    proof (rule bobj_cong [OF lv])
      assume "live SG s d"
      then have "d \<noteq> dp" using x by (auto simp: live_def isfree_def)
      then show "agree (rt_desc s) (rt_desc s3) d" using d by (rule ag)
    qed
  qed
qed

lemma split_desc_ok:
  assumes nr: "nearly SG xs dp r s" and R: "rt_region s r = Some R" and sg: "SG r = pre @ (dp, n) # post"
    and x: "rt_desc s dp = Some x" "BO_IS_FREE x" and k: "0 < k" "k < n"
  shows "\<exists>SG' ys post' s'. split_desc dp (of_nat (1024 * k)) (dp \<notin> set xs) s = Inr (rt_fresh s, s') \<and> held SG' ys (rt_fresh s) r pre k post' k s'
    \<and> (\<forall>d. d \<noteq> rt_fresh s \<longrightarrow> bobj SG' s' d = bobj SG s d) \<and> rt_fresh s' = rt_fresh s + 1"
proof -
  let ?new = "rt_fresh s"
  let ?y = "\<lparr>bd_obj = bd_obj x, bd_sizeB = 0, bd_objc = 0, bd_state = 0, bd_gen = 0, bd_region = bd_region x, bd_prev = 0, bd_next = 0\<rparr>"
  let ?x = "x\<lparr>bd_obj := bd_obj x + of_nat (1024 * k), bd_sizeB := bd_sizeB x - of_nat (1024 * k)\<rparr>"
  let ?s1 = "s\<lparr>rt_fresh := rt_fresh s + 1, rt_desc := (rt_desc s)(?new \<mapsto> ?y, dp \<mapsto> ?x)\<rparr>"
  have cm: "bo_common SG s" "free_list s xs" using nr by (simp_all add: nearly_def)
  have fN: "rt_desc s ?new = None" using cm(1) unfolding bo_common_def by blast
  have sh: "region_shape R (SG r)" and hs: "h_freeBigObjs (rt_heap s) \<notin> fst ` set (SG r)" using cm(1) R by (simp_all add: bo_common_def)
  have "segs_ok (rt_desc s) r (br_firstPage R) 0 (SG r)" using nr R by (simp add: nearly_def descs_ok_def)
  then have d0: "desc_at r (br_firstPage R) (tot pre) n x" using x(1) by (simp add: sg)
  have xf: "bd_region x = r" "bd_obj x = br_firstPage R + of_nat (1024 * tot pre)" using d0 by (simp_all add: desc_at_def)
  have fl1: "free_list ?s1 xs"
  proof -
    have "nx ?s1 a = nx s a" "pv ?s1 a = pv s a" if "a \<noteq> ?new" for a using that x(1) by (simp_all add: nx_def pv_def)
    moreover have "a \<noteq> ?new" if "a \<in> set (h_freeBigObjs (rt_heap s) # xs)" for a using free_list_desc [OF cm(2) that] fN by auto
    ultimately have "nx ?s1 a = nx s a" "pv ?s1 a = pv s a" if "a \<in> set (h_freeBigObjs (rt_heap s) # xs)" for a using that by simp_all
    then have "dseg (nx ?s1) (pv ?s1) (h_freeBigObjs (rt_heap s)) xs (h_freeBigObjs (rt_heap s)) = dseg (nx s) (pv s) (h_freeBigObjs (rt_heap s)) xs (h_freeBigObjs (rt_heap s))"
      by (intro dseg_cong) simp_all
    then show ?thesis using cm(2) by (simp add: free_list_def)
  qed
  have "\<exists>s2 ys. (if dp \<notin> set xs then AddBODesc (h_freeBigObjs (rt_heap ?s1)) dp ?s1 else Inr ?s1) = Inr s2 \<and> same_objs ?s1 s2 \<and> free_list s2 ys \<and> set ys = insert dp (set xs)"
  proof (cases "dp \<in> set xs")
    case True
    then show ?thesis using fl1 by (intro exI [of _ ?s1] exI [of _ xs]) (auto simp: same_objs_def)
  next
    case False
    have "dp \<notin> set (h_freeBigObjs (rt_heap ?s1) # xs)" using False hs sg by auto
    moreover have "rt_desc ?s1 dp = Some ?x" by simp
    ultimately obtain s2 where "AddBODesc (h_freeBigObjs (rt_heap ?s1)) dp ?s1 = Inr s2" "free_list s2 (dp # xs)" "same_objs ?s1 s2"
      using AddBODesc_free_list [OF fl1] by blast
    then show ?thesis using False by (intro exI [of _ s2] exI [of _ "dp # xs"]) simp
  qed
  then obtain s2 ys where s2: "(if dp \<notin> set xs then AddBODesc (h_freeBigObjs (rt_heap ?s1)) dp ?s1 else Inr ?s1) = Inr s2" "same_objs ?s1 s2" "free_list s2 ys" "set ys = insert dp (set xs)"
    by blast
  note f = same_objs_fields [OF s2(2)]
  let ?SG = "SG(r := pre @ (?new, k) # (dp, n - k) # post)"
  let ?s3 = "s2\<lparr>rt_region := (rt_region s2)(r \<mapsto> R\<lparr>br_objMap := segs_map (pre @ (?new, k) # (dp, n - k) # post)\<rparr>)\<rparr>"
  have om: "br_objMap R = segs_map pre @ replicate k dp @ replicate (n - k) dp @ segs_map post"
  proof -
    have "replicate n dp = replicate k dp @ replicate (n - k) dp" using k by (simp add: replicate_add [symmetric])
    then show ?thesis using sh sg by (simp add: region_shape_def)
  qed
  have pg: "ADDR_TO_BOPAGE R (bd_obj x) = tot pre" unfolding xf(2) by (rule bopage [OF sh]) (simp add: sg)
  have "n < 2 ^ 38" using shape_bound [OF sh] sg by simp
  then have up: "unat (drop_bit 10 (of_nat (1024 * k) :: addr_t)) = k" using k by (intro unat_pages) simp
  have r2: "rt_region s2 r = Some R" using f(1) R by simp
  have sp: "set_pages r (tot pre) (tot pre + k) ?new s2 = Inr ?s3"
    using set_pages_map [OF r2 om, of "tot pre" "tot pre + k" ?new] by simp
  have pd: "put_desc dp ?x (put_desc ?new ?y (s\<lparr>rt_fresh := rt_fresh s + 1\<rparr>)) = ?s1" by (simp add: put_desc_def)
  have "split_desc dp (of_nat (1024 * k)) (dp \<notin> set xs) s = Inr (?new, ?s3)"
    unfolding split_desc_def get_desc_def x(1) Let_def option.case rbind.simps pd s2(1)
    by (simp add: get_region_def xf(1) r2 pg up sp del: of_nat_mult)
  moreover note held_split [OF nr R sg x k _ _ refl s2(2-4) refl refl, of] f(6)
  ultimately show ?thesis by (intro exI [of _ ?SG] exI [of _ ys] exI [of _ "(dp, n - k) # post"] exI [of _ ?s3]) simp
qed

section \<open>A new region\<close>

lemma BO_AllocRegion_ok:
  assumes inv: "bo_inv SG xs s" and mm: "mem_ok mmap (rt_ms s)" and k: "k < 2 ^ 20" and fr: "rt_fresh s < 2 ^ 63"
  shows "(\<exists>msg. BO_AllocRegion mmap (of_nat (1024 * k)) s = Inl (Die msg)) \<or>
    (\<exists>SG' dp r R n s' x. BO_AllocRegion mmap (of_nat (1024 * k)) s = Inr (dp, s') \<and> nearly SG' xs dp r s' \<and> rt_region s' r = Some R \<and> SG' r = [(dp, n)]
      \<and> rt_desc s' dp = Some x \<and> BO_IS_FREE x \<and> bd_sizeB x = of_nat (1024 * n) \<and> k \<le> n \<and> dp \<notin> set xs \<and> bobj SG' s' = bobj SG s
      \<and> n < 2 ^ 21 \<and> bobj SG s dp = None \<and> rt_fresh s' = rt_fresh s + 2)"
proof -
  have cm: "bo_common SG s" "free_list s xs" "set xs = free_descs SG s" using inv by (simp_all add: bo_inv_def)
  define n where "n = max k 256"
  have n: "k \<le> n" "n < 2 ^ 21" "0 < n" using k by (auto simp: n_def)
  have uk: "unat (of_nat (1024 * k) :: addr_t) = 1024 * k" using k by (subst unat_of_nat) simp
  have rq: "(if (of_nat (1024 * k) :: addr_t) < MIN_BOREGION_SZB then MIN_BOREGION_SZB else of_nat (1024 * k)) = of_nat (1024 * n)"
    using uk by (auto simp: n_def word_less_nat_alt max_def)
  have un: "unat (of_nat (1024 * n) :: addr_t) = 1024 * n" using n by (subst unat_of_nat) simp
  have ro: "ROUNDUP (of_nat (1024 * n)) BIGOBJ_PAGE_SZB = of_nat (1024 * n)" using n un by (intro round_pages) auto
  have up: "unat (drop_bit 10 (of_nat (1024 * n) :: addr_t)) = n" using n by (intro unat_pages) simp
  have io: "\<not> INT_MAX < int ((n + 1) * 1024)"
  proof -
    have "n \<le> 2 ^ 20" using k by (simp add: n_def)
    then show ?thesis by simp
  qed
  let ?sz = "of_nat ((n + 1) * 1024) :: addr_t"
  have usz: "unat ?sz = (n + 1) * 1024" using n by (subst unat_of_nat) simp
  show ?thesis
  proof (cases "MEM_AllocMemObj (mmap (rt_ms s)) ?sz (rt_ms s)")
    case None
    then show ?thesis unfolding BO_AllocRegion_def Let_def rq ro up using io by simp
  next
    case (Some om)
    obtain mo ms where om: "om = (mo, ms)" by (cases om)
    have "unat ?sz + 2 ^ 19 < 2 ^ 64" unfolding usz using n by simp
    note al = MEM_AllocMemObj_bound [OF mm Some [unfolded om] this]
    let ?r = "rt_fresh s"
    let ?dp = "rt_fresh s + 1"
    let ?R = "\<lparr>br_firstPage = mo_base mo + BIGOBJ_PAGE_SZB, br_nPages = n, br_nFree = int n, br_minGen = MAX_NUM_GENS, br_memObj = mo,
      br_next = h_bigRegions (rt_heap s), br_objMap = replicate n ?dp\<rparr>"
    let ?d = "\<lparr>bd_obj = mo_base mo + BIGOBJ_PAGE_SZB, bd_sizeB = of_nat (n * 1024), bd_objc = 0, bd_state = BO_FREE, bd_gen = 0, bd_region = ?r, bd_prev = 0, bd_next = 0\<rparr>"
    let ?s = "s\<lparr>rt_ms := ms, rt_fresh := rt_fresh s + 2, rt_mem := (rt_mem s)(mo_base mo := of_nat ?r),
      rt_region := (rt_region s)(?r \<mapsto> ?R), rt_desc := (rt_desc s)(?dp \<mapsto> ?d),
      rt_heap := (rt_heap s)\<lparr>h_bigRegions := ?r, h_numBORegions := h_numBORegions (rt_heap s) + 1\<rparr>\<rparr>"
    let ?SG = "SG(?r := [(?dp, n)])"
    have res: "BO_AllocRegion mmap (of_nat (1024 * k)) s = Inr (?dp, ?s)"
      unfolding BO_AllocRegion_def Let_def rq ro up using io Some om by simp
    have old: "?r \<noteq> q" "q < ?r" "region_shape Q (SG q)" "bo_range Q \<subseteq> ms_mapped (rt_ms s)" "h_freeBigObjs (rt_heap s) \<notin> fst ` set (SG q)" "marked s q Q"
      if "rt_region s q = Some Q" for q Q using cm(1) that by (auto simp: bo_common_def)
    have dN: "rt_desc s d = None" if "?r \<le> d" for d using cm(1) that unfolding bo_common_def by (meson not_le)
    have rN: "rt_region s ?r = None" using old(1) by (cases "rt_region s ?r") auto
    have nr: "bo_range ?R = addr_range (mo_base mo) (mo_sizeB mo)" by (simp add: bo_range_def)
    have base_in: "mo_base (br_memObj Q) \<in> bo_range Q" if "region_shape Q sg" for Q sg
    proof -
      have "0 < unat (mo_sizeB (br_memObj Q))" using that by (auto simp: region_shape_def)
      then show ?thesis by (simp add: bo_range_def addr_range_def)
    qed
    have shp: "region_shape ?R [(?dp, n)]" using al(1,2,5) usz n by (simp add: region_shape_def)
    have nb: "mo_base (br_memObj Q) \<noteq> mo_base mo" if "rt_region s q = Some Q" for q Q
    proof -
      have "mo_base (br_memObj Q) \<in> ms_mapped (rt_ms s)" using base_in [OF old(3) [OF that]] old(4) [OF that] by blast
      moreover have "mo_base mo \<in> addr_range (mo_base mo) (mo_sizeB mo)" using base_in [OF shp] nr by simp
      ultimately show ?thesis using al(3) by auto
    qed
    have hn: "h_freeBigObjs (rt_heap s) \<noteq> ?dp" using free_list_desc [OF cm(2), of "h_freeBigObjs (rt_heap s)"] dN [of ?dp] by auto
    have common: "bo_common ?SG ?s"
    proof -
      have 1: "region_shape Q (?SG q) \<and> q < rt_fresh ?s \<and> bo_range Q \<subseteq> ms_mapped (rt_ms ?s) \<and> h_freeBigObjs (rt_heap ?s) \<notin> fst ` set (?SG q) \<and> marked ?s q Q"
        if q: "rt_region ?s q = Some Q" for q Q
      proof (cases "q = ?r")
        case True
        then have "Q = ?R" using q by simp
        then show ?thesis using True shp nr al(4) hn fr by (simp add: marked_def)
      next
        case False
        then have Q: "rt_region s q = Some Q" using q by simp
        then show ?thesis using False old(2-6) [OF Q] al(4) nb [OF Q] by (auto simp: marked_def)
      qed
      have 2: "bo_range Q \<inter> bo_range Q' = {}" if q: "rt_region ?s q = Some Q" "rt_region ?s q' = Some Q'" "q \<noteq> q'" for q Q q' Q'
      proof -
        have nw: "bo_range A \<inter> bo_range ?R = {}" if "rt_region s a = Some A" for a A using old(4) [OF that] al(3) nr by blast
        consider "q = ?r" | "q' = ?r" | "q \<noteq> ?r" "q' \<noteq> ?r" by blast
        then show ?thesis
        proof cases
          case 1
          then have "Q = ?R" "rt_region s q' = Some Q'" using q by simp_all
          then show ?thesis using nw by blast
        next
          case 2
          then have "Q' = ?R" "rt_region s q = Some Q" using q by simp_all
          then show ?thesis using nw by blast
        next
          case 3
          then have "rt_region s q = Some Q" "rt_region s q' = Some Q'" using q by simp_all
          then show ?thesis using cm(1) q(3) by (simp add: bo_common_def)
        qed
      qed
      have 3: "d < rt_fresh ?s" if "rt_desc ?s d \<noteq> None" for d
      proof (cases "d = ?dp")
        case False
        then have "rt_desc s d \<noteq> None" using that by simp
        then have "d < rt_fresh s" using cm(1) by (simp add: bo_common_def)
        then show ?thesis by simp
      qed simp
      show ?thesis unfolding bo_common_def using 1 2 3 cm(1) by (auto simp: bo_common_def)
    qed
    have fl: "free_list ?s xs"
    proof -
      have "nx ?s a = nx s a" "pv ?s a = pv s a" if "a \<in> set (h_freeBigObjs (rt_heap s) # xs)" for a
      proof -
        have "a \<noteq> ?dp" using free_list_desc [OF cm(2) that] dN [of ?dp] by auto
        then show "nx ?s a = nx s a" "pv ?s a = pv s a" by (simp_all add: nx_def pv_def)
      qed
      then have "dseg (nx ?s) (pv ?s) (h_freeBigObjs (rt_heap s)) xs (h_freeBigObjs (rt_heap s)) = dseg (nx s) (pv s) (h_freeBigObjs (rt_heap s)) xs (h_freeBigObjs (rt_heap s))"
        by (intro dseg_cong) simp_all
      then show ?thesis using cm(2) by (simp add: free_list_def)
    qed
    have dpx: "?dp \<notin> set xs" using free_list_desc [OF cm(2), of ?dp] dN [of ?dp] by auto
    have ag: "agree (rt_desc s) (rt_desc ?s) d" if "d \<noteq> ?dp" for d using that by (simp add: agree_refl)
    have dsg: "?dp \<notin> fst ` set (SG q)" if Q: "rt_region s q = Some Q" for q Q
      using segs_ok_dom [of "rt_desc s" q "br_firstPage Q" 0 "SG q" ?dp] bo_inv_region(2) [OF inv Q] dN [of ?dp] by (auto simp: region_descs_def)
    have dsc: "descs_ok (rt_desc ?s) q Q (?SG q) \<and> (q \<noteq> ?r \<longrightarrow> br_minGen Q < 14)" if q: "rt_region ?s q = Some Q" for q Q
    proof (cases "q = ?r")
      case True
      then have "Q = ?R" using q by simp
      moreover have "isfree (rt_desc ?s) ?dp" by (simp add: isfree_def BO_IS_FREE_def)
      ultimately show ?thesis using True n(3) by (simp add: descs_ok_def desc_at_def coalesced_def BO_IS_FREE_def mult.commute)
    next
      case False
      then have Q: "rt_region s q = Some Q" using q by simp
      have "\<forall>d \<in> fst ` set (SG q). agree (rt_desc s) (rt_desc ?s) d" using dsg [OF Q] ag by metis
      from agree_descs [OF this bo_inv_region(2) [OF inv Q]] show ?thesis using False by (simp add: region_descs_def descs_ok_def)
    qed
    have exd: "(\<exists>q Q. rt_region ?s q = Some Q \<and> d \<in> fst ` set (?SG q)) \<longleftrightarrow> (\<exists>q Q. rt_region s q = Some Q \<and> d \<in> fst ` set (SG q))" if "d \<noteq> ?dp" for d
    proof -
      have "(rt_region ?s q \<noteq> None \<and> d \<in> fst ` set (?SG q)) \<longleftrightarrow> (rt_region s q \<noteq> None \<and> d \<in> fst ` set (SG q))" for q
        using that rN by (cases "q = ?r") simp_all
      then show ?thesis by (metis not_None_eq)
    qed
    have fo: "isfree (rt_desc ?s) d = isfree (rt_desc s) d" if "d \<noteq> ?dp" for d by (rule agree_isfree [OF ag [OF that]])
    have fd: "set xs - {?dp} = free_descs ?SG ?s - {?dp}"
    proof (rule set_eqI)
      fix d
      have fdd: "d \<in> free_descs ?SG ?s \<longleftrightarrow> (\<exists>q Q. rt_region ?s q = Some Q \<and> d \<in> fst ` set (?SG q)) \<and> isfree (rt_desc ?s) d"
        "d \<in> free_descs SG s \<longleftrightarrow> (\<exists>q Q. rt_region s q = Some Q \<and> d \<in> fst ` set (SG q)) \<and> isfree (rt_desc s) d"
        unfolding free_descs_def by auto
      show "d \<in> set xs - {?dp} \<longleftrightarrow> d \<in> free_descs ?SG ?s - {?dp}"
      proof (cases "d = ?dp")
        case False
        have "d \<in> free_descs ?SG ?s \<longleftrightarrow> d \<in> free_descs SG s" unfolding fdd exd [OF False] fo [OF False] ..
        then show ?thesis using False cm(3) by simp
      qed simp
    qed
    have bs: "bobj ?SG ?s = bobj SG s"
    proof (rule ext)
      fix d
      show "bobj ?SG ?s d = bobj SG s d"
      proof (cases "d = ?dp")
        case True
        have "isfree (rt_desc ?s) ?dp" by (simp add: isfree_def BO_IS_FREE_def)
        then show ?thesis using True dN [of ?dp] by (simp add: bobj_def live_def)
      next
        case False
        show ?thesis by (rule bobj_agree [OF ag [OF False] exd [OF False, symmetric]])
      qed
    qed
    have "nearly ?SG xs ?dp ?r ?s" unfolding nearly_def using common fl fd dsc by blast
    moreover have "rt_region ?s ?r = Some ?R" "?SG ?r = [(?dp, n)]" "rt_desc ?s ?dp = Some ?d" "BO_IS_FREE ?d" "bd_sizeB ?d = of_nat (1024 * n)" "rt_fresh ?s = rt_fresh s + 2"
      by (simp_all add: BO_IS_FREE_def mult.commute)
    moreover have "bobj SG s ?dp = None" using dN [of ?dp] by (simp add: bobj_def)
    ultimately show ?thesis using res n(1,2) dpx bs
      by (intro disjI2 exI [of _ ?SG] exI [of _ ?dp] exI [of _ ?r] exI [of _ ?R] exI [of _ n] exI [of _ ?s] exI [of _ ?d] conjI)
  qed
qed

section \<open>Allocation\<close>

definition alloc_space :: "(mem_sys \<Rightarrow> addr_t \<Rightarrow> addr_t option) \<Rightarrow> nat \<Rightarrow> nat \<Rightarrow> addr_t \<Rightarrow> rt \<Rightarrow> (nat \<times> rt) res" where
  "alloc_space mmap dp hdr totSzB s =
     (if dp = hdr then
        rbind (BO_AllocRegion mmap totSzB s) (\<lambda>(dp, s).
        rbind (get_desc dp s) (\<lambda>x.
        if bd_sizeB x = totSzB then Inr (dp, s) else split_desc dp totSzB True s))
      else
        rbind (get_desc dp s) (\<lambda>x.
        if bd_sizeB x = totSzB then rbind (RemoveBODesc dp s) (\<lambda>s. Inr (dp, s))
        else split_desc dp totSzB False s))"

definition got_space :: "(nat \<Rightarrow> segs) \<Rightarrow> rt \<Rightarrow> nat \<Rightarrow> nat \<Rightarrow> rt \<Rightarrow> bool" where
  "got_space SG s k d s' \<longleftrightarrow> (\<exists>SG' ys r pre post. held SG' ys d r pre k post k s' \<and> bobj SG s d = None \<and> (\<forall>e. e \<noteq> d \<longrightarrow> bobj SG' s' e = bobj SG s e)
     \<and> rt_fresh s' \<le> rt_fresh s + 3)"

lemma desc_segs:
  assumes "descs_ok D r R sg" "(d, n) \<in> set sg" "D d = Some x" "BO_IS_FREE x"
  shows "bd_sizeB x = of_nat (1024 * n)"
  using segs_ok_in [of D r "br_firstPage R" 0 sg d n] assms by (auto simp: descs_ok_def desc_at_def)

lemma pages_word_less: "a < 2 ^ 48 \<Longrightarrow> b < 2 ^ 48 \<Longrightarrow> of_nat (1024 * a) \<le> (of_nat (1024 * b) :: addr_t) \<longleftrightarrow> a \<le> b"
proof -
  assume "a < 2 ^ 48" "b < 2 ^ 48"
  moreover have "unat (of_nat (1024 * c) :: addr_t) = 1024 * c" if "c < 2 ^ 48" for c
  proof -
    have "unat (of_nat (1024 * c) :: addr_t) = (1024 * c) mod 2 ^ 64" by (subst unat_of_nat) simp
    then show ?thesis using that by simp
  qed
  ultimately show ?thesis unfolding word_le_nat_alt by simp
qed

lemma pages_word_eq: "a < 2 ^ 48 \<Longrightarrow> b < 2 ^ 48 \<Longrightarrow> of_nat (1024 * a) = (of_nat (1024 * b) :: addr_t) \<longleftrightarrow> a = b"
  using pages_word_less [of a b] pages_word_less [of b a] by (metis order_antisym order_refl)

lemma alloc_space_ok:
  assumes inv: "bo_inv SG xs s" and mm: "mem_ok mmap (rt_ms s)" and k: "0 < k" "k < 2 ^ 20" and fr: "rt_fresh s < 2 ^ 63"
    and dp: "dp = h_freeBigObjs (rt_heap s) \<or> dp \<in> set xs \<and> (\<exists>x. rt_desc s dp = Some x \<and> of_nat (1024 * k) \<le> bd_sizeB x)"
  shows "(\<exists>msg. alloc_space mmap dp (h_freeBigObjs (rt_heap s)) (of_nat (1024 * k)) s = Inl (Die msg))
    \<or> (\<exists>d s'. alloc_space mmap dp (h_freeBigObjs (rt_heap s)) (of_nat (1024 * k)) s = Inr (d, s') \<and> got_space SG s k d s')"
proof -
  have cm: "bo_common SG s" "free_list s xs" "set xs = free_descs SG s" using inv by (simp_all add: bo_inv_def)
  have fN: "rt_desc s d = None" if "rt_fresh s \<le> d" for d using cm(1) that unfolding bo_common_def by (meson not_le)
  have bN: "bobj SG s d = None" if "rt_desc s d = None" for d using that by (simp add: bobj_def)
  show ?thesis
  proof (cases "dp = h_freeBigObjs (rt_heap s)")
    case True
    from BO_AllocRegion_ok [OF inv mm k(2) fr] show ?thesis
    proof (elim disjE exE conjE)
      fix msg assume "BO_AllocRegion mmap (of_nat (1024 * k)) s = Inl (Die msg)"
      then show ?thesis using True by (simp add: alloc_space_def)
    next
      fix SG' d r R n s' x
      assume a: "BO_AllocRegion mmap (of_nat (1024 * k)) s = Inr (d, s')" "nearly SG' xs d r s'" "rt_region s' r = Some R" "SG' r = [(d, n)]"
        "rt_desc s' d = Some x" "BO_IS_FREE x" "bd_sizeB x = of_nat (1024 * n)" "k \<le> n" "d \<notin> set xs" "bobj SG' s' = bobj SG s"
        "n < 2 ^ 21" "bobj SG s d = None" "rt_fresh s' = rt_fresh s + 2"
      have sgn: "SG' r = [] @ (d, n) # []" using a(4) by simp
      have eq: "bd_sizeB x = of_nat (1024 * k) \<longleftrightarrow> n = k" unfolding a(7) using a(11) k(2) by (intro pages_word_eq) simp_all
      have as: "alloc_space mmap dp (h_freeBigObjs (rt_heap s)) (of_nat (1024 * k)) s =
          (if n = k then Inr (d, s') else split_desc d (of_nat (1024 * k)) (d \<notin> set xs) s')"
        using True a(1,5,9) eq by (simp add: alloc_space_def get_desc_def del: of_nat_mult)
      show ?thesis
      proof (cases "n = k")
        case True
        have fl: "free_list s' xs" "set xs = set xs - {d}" using a(2,9) by (simp_all add: nearly_def)
        have "same_objs s' s'" by (simp add: same_objs_def)
        from nearly_held [OF a(2,3) sgn _ this fl] a(5,6) have "held SG' xs d r [] n [] n s'" by (simp add: isfree_def)
        then have "got_space SG s k d s'" unfolding got_space_def using True a(10,12,13) by (intro exI [of _ SG']) auto
        then show ?thesis using as True by simp
      next
        case False
        then have "k < n" using a(8) by simp
        from split_desc_ok [OF a(2,3) sgn a(5,6) k(1) this] obtain SG2 ys post' s2 where
          s2: "split_desc d (of_nat (1024 * k)) (d \<notin> set xs) s' = Inr (rt_fresh s', s2)" "held SG2 ys (rt_fresh s') r [] k post' k s2"
            "\<forall>e. e \<noteq> rt_fresh s' \<longrightarrow> bobj SG2 s2 e = bobj SG' s' e" "rt_fresh s2 = rt_fresh s' + 1" by blast
        have "bobj SG s (rt_fresh s') = None" using bN fN a(13) by simp
        then have "got_space SG s k (rt_fresh s') s2" unfolding got_space_def using s2(2-4) a(10,13) by (intro exI [of _ SG2]) auto
        then show ?thesis using as False s2(1) by simp
      qed
    qed
  next
    case False
    then obtain x where x: "dp \<in> set xs" "rt_desc s dp = Some x" "of_nat (1024 * k) \<le> bd_sizeB x" using dp by blast
    then obtain r R n where R: "rt_region s r = Some R" "(dp, n) \<in> set (SG r)" and fx: "isfree (rt_desc s) dp" using cm(3) by (auto simp: free_descs_def)
    then obtain pre post where sg: "SG r = pre @ (dp, n) # post" by (meson split_list)
    have xf: "BO_IS_FREE x" using fx x(2) by (simp add: isfree_def)
    have nr: "nearly SG xs dp r s" by (rule nearly_inv [OF inv])
    have "descs_ok (rt_desc s) r R (SG r)" using nr R(1) by (simp add: nearly_def)
    from desc_segs [OF this R(2) x(2) xf] have xs: "bd_sizeB x = of_nat (1024 * n)" .
    have "n \<le> tot (SG r)" by (simp add: sg)
    then have n48: "n < 2 ^ 48" using shape_bound [OF bo_inv_region(1) [OF inv R(1)]] by simp
    have kn: "k \<le> n" using x(3) pages_word_less [of k n] n48 k(2) unfolding xs by simp
    have eq: "bd_sizeB x = of_nat (1024 * k) \<longleftrightarrow> n = k" unfolding xs using n48 k(2) by (intro pages_word_eq) simp_all
    have as: "alloc_space mmap dp (h_freeBigObjs (rt_heap s)) (of_nat (1024 * k)) s =
        (if n = k then rbind (RemoveBODesc dp s) (\<lambda>s. Inr (dp, s)) else split_desc dp (of_nat (1024 * k)) (dp \<notin> set xs) s)"
      using False x(1,2) eq by (simp add: alloc_space_def get_desc_def del: of_nat_mult)
    show ?thesis
    proof (cases "n = k")
      case True
      obtain as bs where ab: "xs = as @ dp # bs" using x(1) by (meson split_list)
      have fl: "free_list s (as @ dp # bs)" using cm(2) ab by simp
      from RemoveBODesc_free_list [OF fl] obtain s1 where s1: "RemoveBODesc dp s = Inr s1" "free_list s1 (as @ bs)" "same_objs s s1" by blast
      have ys: "set (as @ bs) = set xs - {dp}" using fl ab by (auto simp: free_list_def)
      note hd = nearly_held [OF nr R(1) sg fx s1(3,2) ys]
      have "bobj SG s dp = None" using fx by (simp add: bobj_def live_def)
      then have "got_space SG s k dp s1" unfolding got_space_def using hd True same_objs_fields(6) [OF s1(3)] by (intro exI [of _ SG]) auto
      then show ?thesis using as True s1(1) by simp
    next
      case False
      then have "k < n" using kn by simp
      from split_desc_ok [OF nr R(1) sg x(2) xf k(1) this] obtain SG2 ys post' s2 where
        s2: "split_desc dp (of_nat (1024 * k)) (dp \<notin> set xs) s = Inr (rt_fresh s, s2)" "held SG2 ys (rt_fresh s) r pre k post' k s2"
          "\<forall>e. e \<noteq> rt_fresh s \<longrightarrow> bobj SG2 s2 e = bobj SG s e" "rt_fresh s2 = rt_fresh s + 1" by blast
      have "bobj SG s (rt_fresh s) = None" using bN fN by simp
      then have "got_space SG s k (rt_fresh s) s2" unfolding got_space_def using s2(2-4) by (intro exI [of _ SG2]) auto
      then show ?thesis using as False s2(1) by simp
    qed
  qed
qed

lemma BO_Alloc_ok:
  assumes inv: "bo_inv SG xs s" and mm: "mem_ok mmap (rt_ms s)" and sz: "0 < unat objSzB" "unat objSzB < 2 ^ 30 - 1024" and g: "gen < 14"
    and fr: "rt_fresh s < 2 ^ 63" and fuel: "rt_fresh s \<le> fuel"
  shows "(\<exists>msg. BO_Alloc mmap fuel gen objSzB s = Inl (Die msg))
    \<or> (\<exists>SG' ys d s' a. BO_Alloc mmap fuel gen objSzB s = Inr (d, s') \<and> bo_inv SG' ys s' \<and> bobj SG s d = None
        \<and> bobj SG' s' = (bobj SG s)(d := Some (a, objSzB, BO_YOUNG, gen)) \<and> rt_fresh s' \<le> rt_fresh s + 3)"
proof -
  let ?hdr = "h_freeBigObjs (rt_heap s)"
  have cm: "bo_common SG s" "free_list s xs" using inv by (simp_all add: bo_inv_def)
  define k where "k = (unat objSzB + 1023) div 1024"
  have k: "0 < k" "k < 2 ^ 20" "unat objSzB \<le> 1024 * k" "1024 * k < unat objSzB + 1024" using sz by (auto simp: k_def)
  have rs: "ROUNDUP objSzB BIGOBJ_PAGE_SZB = of_nat (1024 * k)" using k by (intro round_pages) auto
  have up: "unat (drop_bit 10 (of_nat (1024 * k) :: addr_t)) = k" using k by (intro unat_pages) simp
  have seg: "dseg (nx s) (pv s) ?hdr xs ?hdr" and dist: "distinct (?hdr # xs)" using cm(2) by (auto simp: free_list_def)
  have len: "length xs < fuel"
  proof -
    have "d < rt_fresh s" if "d \<in> set (?hdr # xs)" for d
    proof -
      have "rt_desc s d \<noteq> None" by (rule free_list_desc [OF cm(2) that])
      then show ?thesis using cm(1) by (simp add: bo_common_def)
    qed
    then have "set (?hdr # xs) \<subseteq> {..<rt_fresh s}" by auto
    then have "card (set (?hdr # xs)) \<le> rt_fresh s" by (metis card_lessThan card_mono finite_lessThan)
    then show ?thesis using dist fuel distinct_card [of "?hdr # xs"] by simp
  qed
  have "nx s ?hdr = Some (hd (xs @ [?hdr]))" using seg by (cases xs) auto
  then obtain h where h: "rt_desc s ?hdr = Some h" "bd_next h = hd (xs @ [?hdr])" by (auto simp: nx_def)
  have "?hdr \<notin> set xs" using dist by simp
  from first_fit_seg [OF seg this len, of "of_nat (1024 * k)"] obtain dp where
    ff: "first_fit fuel (hd (xs @ [?hdr])) ?hdr (of_nat (1024 * k)) s = Inr dp"
      "dp = ?hdr \<or> dp \<in> set xs \<and> (\<exists>x. rt_desc s dp = Some x \<and> of_nat (1024 * k) \<le> bd_sizeB x)" by blast
  have ba: "BO_Alloc mmap fuel gen objSzB s = rbind (alloc_space mmap dp ?hdr (of_nat (1024 * k)) s) (alloc_end gen objSzB k)"
    unfolding BO_Alloc_def Let_def rs up get_desc_def [of ?hdr] h(1) option.case rbind.simps h(2) ff(1) alloc_space_def alloc_end_def ..
  from alloc_space_ok [OF inv mm k(1,2) fr ff(2)] show ?thesis
  proof (elim disjE exE conjE)
    fix msg assume "alloc_space mmap dp ?hdr (of_nat (1024 * k)) s = Inl (Die msg)"
    then show ?thesis using ba by simp
  next
    fix d s' assume a: "alloc_space mmap dp ?hdr (of_nat (1024 * k)) s = Inr (d, s')" "got_space SG s k d s'"
    then obtain SG' ys r pre post where hd: "held SG' ys d r pre k post k s'" "bobj SG s d = None" "\<forall>e. e \<noteq> d \<longrightarrow> bobj SG' s' e = bobj SG s e"
      "rt_fresh s' \<le> rt_fresh s + 3" by (auto simp: got_space_def)
    from alloc_end_ok [OF hd(1) k(3,4) g] obtain t ad where
      t: "alloc_end gen objSzB k (d, s') = Inr (d, t)" "bo_inv SG' ys t" "bobj SG' t = (bobj SG' s')(d := Some (ad, objSzB, 1, gen))" "rt_fresh t = rt_fresh s'" by blast
    have "bobj SG' t = (bobj SG s)(d := Some (ad, objSzB, 1, gen))" using t(3) hd(3) by (auto simp: fun_eq_iff)
    then show ?thesis using ba a(1) t(1,2,4) hd(2,4) by (intro disjI2 exI [of _ SG'] exI [of _ ys] exI [of _ d] exI [of _ t] exI [of _ ad]) simp
  qed
qed

section \<open>From an address to its descriptor\<close>

lemma nth_segs: "tot a \<le> i \<Longrightarrow> i < tot a + n \<Longrightarrow> segs_map (a @ (d, n) # b) ! i = d"
proof -
  assume "tot a \<le> i" "i < tot a + n"
  moreover from this have "i - tot a < n" by simp
  ultimately show ?thesis by (simp add: nth_append)
qed

lemma find_hdr_marked:
  assumes m: "marked s r R" "br_minGen R < 14" and sh: "region_shape R sg" and wf: "bibop_wf (rt_bibop s)" and a: "addr \<in> bo_range R"
  shows "find_hdr (INDEX_TO_PAGEID (rt_bibop s)) (pg addr) = Inr (pg (mo_base (br_memObj R)))"
proof -
  let ?mo = "br_memObj R"
  have p: "paged (mo_base ?mo)" "paged (mo_sizeB ?mo)" "unat (mo_base ?mo) + unat (mo_sizeB ?mo) < 2 ^ 48" using sh by (auto simp: region_shape_def obj_ok_def)
  have ar: "pg addr \<in> region_pages (mo_base ?mo) (mo_sizeB ?mo)" using range_pages_iff [OF p(1,2)] a by (simp add: bo_range_def)
  have mk: "page_map (rt_bibop s) q = (if q = pg (mo_base ?mo) then AID_BIGOBJ_HDR (br_minGen R) else AID_BIGOBJ (br_minGen R))"
    if "q \<in> region_pages (mo_base ?mo) (mo_sizeB ?mo)" for q using m that by (simp add: marked_def)
  have hdr: "BO_IS_HDR (AID_BIGOBJ_HDR (br_minGen R))" "\<not> BO_IS_HDR (AID_BIGOBJ (br_minGen R))"
    using m(2) by (simp_all add: BO_IS_HDR_def AID_BIGOBJ_HDR_def AID_BIGOBJ_def EXTRACT_MAKE_AID)
  have b: "pg (mo_base ?mo) \<le> pg addr" "pg addr < pg (mo_base ?mo) + pg (mo_sizeB ?mo)" using ar by (simp_all add: region_pages_def)
  have "unat addr < 2 ^ 48" using a p(3) by (simp add: bo_range_def addr_range_def)
  then have lim: "pg addr < 2 ^ 30" by (rule pg_less)
  have base: "BO_IS_HDR (page_map (rt_bibop s) (pg (mo_base ?mo)))" using mk [of "pg (mo_base ?mo)"] hdr(1) b by (simp add: region_pages_def)
  have between: "\<not> BO_IS_HDR (page_map (rt_bibop s) q)" if q: "pg (mo_base ?mo) < q" "q \<le> pg addr" for q
  proof -
    have "q \<in> region_pages (mo_base ?mo) (mo_sizeB ?mo)" using q b by (simp add: region_pages_def)
    then show ?thesis using mk [of q] hdr(2) q by simp
  qed
  show ?thesis by (rule bb.find_hdr_down [OF wf b(1) lim base between])
qed

lemma index_base: "paged a \<Longrightarrow> unat a < 2 ^ 48 \<Longrightarrow> BIBOP_INDEX_TO_ADDR (pg a) = a"
proof -
  assume a: "paged a" "unat a < 2 ^ 48"
  have "unat (push_bit 18 (of_nat (pg a)) :: addr_t) = (pg a * 2 ^ 18) mod 2 ^ 64" by (simp add: push_bit_eq_mult unat_word_ariths(2) unat_of_nat mod_mult_left_eq)
  also have "\<dots> = unat a" using paged_unat [OF a(1)] a(2) by simp
  finally show ?thesis by (simp add: BIBOP_INDEX_TO_ADDR_def word_unat_eq_iff)
qed

lemma BO_GetDesc_ok:
  assumes inv: "bo_inv SG xs s" and d: "bobj SG s d = Some (a, sz, st, g)" and addr: "addr \<in> addr_range a sz"
  shows "BO_GetDesc addr s = Inr d"
proof -
  obtain r R pre n post x where R: "rt_region s r = Some R" and sg: "SG r = pre @ (d, n) # post" and x: "rt_desc s d = Some x" "desc_at r (br_firstPage R) (tot pre) n x" "\<not> BO_IS_FREE x"
    and v: "(a, sz, st, g) = (bd_obj x, bd_sizeB x, bd_state x, bd_gen x)" by (rule bobj_desc [OF inv d])
  have sh: "region_shape R (SG r)" and rd: "region_descs (rt_desc s) r R (SG r)" and mk: "marked s r R" by (rule bo_inv_region [OF inv R])+
  have wf: "bibop_wf (rt_bibop s)" using inv by (simp add: bo_inv_def bo_common_def)
  let ?mo = "br_memObj R"
  have s: "br_firstPage R = mo_base ?mo + 1024" "1024 * (tot (SG r) + 1) \<le> unat (mo_sizeB ?mo)" "paged (mo_base ?mo)" "unat (mo_base ?mo) + unat (mo_sizeB ?mo) < 2 ^ 48"
    "br_objMap R = segs_map (SG r)" using sh by (auto simp: region_shape_def obj_ok_def)
  have sz: "a = br_firstPage R + of_nat (1024 * tot pre)" "unat sz \<le> 1024 * n" using x(2,3) v by (simp_all add: desc_at_def)
  have tt: "tot pre + n \<le> tot (SG r)" using sg by simp
  have b1: "1024 + 1024 * tot pre + 1024 * n \<le> unat (mo_sizeB ?mo)" using s(2) tt by simp
  have uo: "unat (of_nat (1024 * tot pre) :: addr_t) = 1024 * tot pre"
  proof -
    have "1024 * tot pre < 2 ^ 64" using b1 s(4) by simp
    moreover have "unat (of_nat (1024 * tot pre) :: addr_t) = (1024 * tot pre) mod 2 ^ 64" by (subst unat_of_nat) simp
    ultimately show ?thesis by simp
  qed
  have uf: "unat (br_firstPage R) = unat (mo_base ?mo) + 1024" unfolding s(1) using s(4) b1 by (subst unat_add_less) auto
  have ua: "unat a = unat (mo_base ?mo) + 1024 + 1024 * tot pre" unfolding sz(1) using s(4) b1 uo uf by (subst unat_add_less) auto
  have ad: "unat a \<le> unat addr" "unat addr < unat a + 1024 * n" using addr sz(2) by (auto simp: addr_range_def)
  then have inr: "addr \<in> bo_range R" using ua b1 by (simp add: bo_range_def addr_range_def)
  have fh: "find_hdr (INDEX_TO_PAGEID (rt_bibop s)) (pg addr) = Inr (pg (mo_base ?mo))"
    by (rule find_hdr_marked [OF mk _ sh wf inr]) (use rd in \<open>simp add: region_descs_def\<close>)
  have ib: "BIBOP_INDEX_TO_ADDR (pg (mo_base ?mo)) = mo_base ?mo" using s(3,4) by (intro index_base) simp_all
  have rw: "unat (rt_mem s (mo_base ?mo)) = r"
  proof -
    have "rt_mem s (mo_base ?mo) = of_nat r" "r < 2 ^ 64" using mk by (simp_all add: marked_def)
    then show ?thesis by (simp add: unat_of_nat)
  qed
  have i: "tot pre \<le> ADDR_TO_BOPAGE R addr" "ADDR_TO_BOPAGE R addr < tot pre + n"
  proof -
    have "unat (addr - br_firstPage R) = unat addr - unat (br_firstPage R)" using ad ua uf by (intro unat_sub) (simp add: word_le_nat_alt)
    then have "ADDR_TO_BOPAGE R addr = (unat addr - unat (br_firstPage R)) div 1024" by (simp add: ADDR_TO_BOPAGE_def drop_bit_eq_div unat_div)
    then show "tot pre \<le> ADDR_TO_BOPAGE R addr" "ADDR_TO_BOPAGE R addr < tot pre + n" using ad ua uf by auto
  qed
  have "ADDR_TO_BODESC R addr = Inr d"
    unfolding ADDR_TO_BODESC_def Let_def s(5) sg using i nth_segs [OF i, of d post] by simp
  then show ?thesis using fh ib rw R by (simp add: BO_GetDesc_def pg_index get_region_def)
qed

section \<open>The contract\<close>

definition bo_wf :: "rt \<Rightarrow> bool" where "bo_wf s \<longleftrightarrow> (\<exists>SG xs. bo_inv SG xs s)"

text \<open>The objects, by descriptor: address, size, state and generation.\<close>

definition bo_objects :: "rt \<Rightarrow> bo_view" where
  "bo_objects s d = (case rt_desc s d of None \<Rightarrow> None | Some x \<Rightarrow>
     (case rt_region s (bd_region x) of None \<Rightarrow> None | Some R \<Rightarrow>
       if d \<in> set (br_objMap R) \<and> \<not> BO_IS_FREE x then Some (bd_obj x, bd_sizeB x, bd_state x, bd_gen x) else None))"

lemma bo_objects_bobj:
  assumes inv: "bo_inv SG xs s"
  shows "bo_objects s = bobj SG s"
proof (rule ext)
  fix d
  have om: "set (br_objMap R) \<subseteq> fst ` set (SG r)" if "rt_region s r = Some R" for r R
  proof -
    have "e \<in> fst ` set sg" if "e \<in> set (segs_map sg)" for e sg using that by (induction sg) (auto simp: set_replicate_conv_if split: if_splits)
    then have "set (segs_map sg) \<subseteq> fst ` set sg" for sg by blast
    then show ?thesis using bo_inv_region(1) [OF inv that] by (simp add: region_shape_def)
  qed
  show "bo_objects s d = bobj SG s d"
  proof (cases "bobj SG s d")
    case (Some v)
    obtain r R pre n post x where "rt_region s r = Some R" and sg: "SG r = pre @ (d, n) # post" and "rt_desc s d = Some x" "desc_at r (br_firstPage R) (tot pre) n x" "\<not> BO_IS_FREE x"
      "v = (bd_obj x, bd_sizeB x, bd_state x, bd_gen x)" by (rule bobj_desc [OF inv Some])
    moreover from this have "d \<in> set (br_objMap R)" using bo_inv_region(1) [OF inv] by (simp add: region_shape_def desc_at_def)
    ultimately show ?thesis using Some by (simp add: bo_objects_def desc_at_def)
  next
    case None
    show ?thesis
    proof (cases "bo_objects s d")
      case (Some v)
      then obtain x R where "rt_desc s d = Some x" "rt_region s (bd_region x) = Some R" "d \<in> set (br_objMap R)" "\<not> BO_IS_FREE x"
        by (auto simp: bo_objects_def split: option.splits if_splits)
      then have "bobj SG s d \<noteq> None" using om by (intro live_in) auto
      then show ?thesis using None by simp
    qed (use None in simp)
  qed
qed

text \<open>C13. The big-object regions are an allocator. When they are in order, \<open>BO_Alloc\<close> either stops
  the program because the system has no memory, or adds exactly one object of the requested
  size and generation; \<open>BO_Free\<close> removes exactly the given object; both keep the regions in
  order (descriptors divide the pages, free neighbours are joined, the free list holds exactly
  the free descriptors). Every address inside an object leads \<open>BO_GetDesc\<close> to its descriptor,
  so objects do not overlap.\<close>

theorem big_object_store:
  assumes "bo_wf s" "mem_ok mmap (rt_ms s)" "rt_fresh s < 2 ^ 63" "rt_fresh s \<le> fuel"
  shows "(\<forall>sz gen. 0 < unat sz \<and> unat sz < 2 ^ 30 - 1024 \<and> gen < MAX_NUM_GENS \<longrightarrow>
        (\<exists>msg. BO_Alloc mmap fuel gen sz s = Inl (Die msg))
        \<or> (\<exists>d s' a. BO_Alloc mmap fuel gen sz s = Inr (d, s') \<and> bo_wf s' \<and> bo_objects s d = None
             \<and> rt_fresh s' \<le> rt_fresh s + 3
             \<and> bo_objects s' = (bo_objects s)(d \<mapsto> (a, sz, BO_YOUNG, gen))))
    \<and> (\<forall>d \<in> dom (bo_objects s). \<exists>s'. BO_Free d s = Inr s' \<and> bo_wf s' \<and> bo_objects s' = (bo_objects s)(d := None))
    \<and> (\<forall>d a n st g addr. bo_objects s d = Some (a, n, st, g) \<and> addr \<in> addr_range a n \<longrightarrow> BO_GetDesc addr s = Inr d)"
proof -
  obtain SG xs where inv: "bo_inv SG xs s" using assms(1) by (auto simp: bo_wf_def)
  have view: "bo_objects s = bobj SG s" by (rule bo_objects_bobj [OF inv])
  have wf: "bo_wf s' \<and> bo_objects s' = bobj SG' s'" if "bo_inv SG' ys s'" for SG' ys s' using that bo_objects_bobj by (auto simp: bo_wf_def)
  show ?thesis
  proof (intro conjI allI impI ballI)
    fix sz :: addr_t and gen assume "0 < unat sz \<and> unat sz < 2 ^ 30 - 1024 \<and> gen < MAX_NUM_GENS"
    then have "0 < unat sz" "unat sz < 2 ^ 30 - 1024" "gen < 14" by auto
    from BO_Alloc_ok [OF inv assms(2) this assms(3,4)]
    show "(\<exists>msg. BO_Alloc mmap fuel gen sz s = Inl (Die msg))
        \<or> (\<exists>d s' a. BO_Alloc mmap fuel gen sz s = Inr (d, s') \<and> bo_wf s' \<and> bo_objects s d = None
             \<and> rt_fresh s' \<le> rt_fresh s + 3
             \<and> bo_objects s' = (bo_objects s)(d \<mapsto> (a, sz, BO_YOUNG, gen)))"
      unfolding view
    proof (elim disjE exE conjE)
      fix SG' ys d s' a
      assume a: "BO_Alloc mmap fuel gen sz s = Inr (d, s')" "bo_inv SG' ys s'" "bobj SG s d = None" "bobj SG' s' = (bobj SG s)(d \<mapsto> (a, sz, BO_YOUNG, gen))" "rt_fresh s' \<le> rt_fresh s + 3"
      show "(\<exists>msg. BO_Alloc mmap fuel gen sz s = Inl (Die msg))
        \<or> (\<exists>d s' a. BO_Alloc mmap fuel gen sz s = Inr (d, s') \<and> bo_wf s' \<and> bobj SG s d = None
             \<and> rt_fresh s' \<le> rt_fresh s + 3 \<and> bo_objects s' = (bobj SG s)(d \<mapsto> (a, sz, BO_YOUNG, gen)))"
        using a(1,3-5) wf [OF a(2)] by (intro disjI2 exI [of _ d] exI [of _ s'] exI [of _ a]) simp
    qed simp
  next
    fix d assume "d \<in> dom (bo_objects s)"
    then obtain v where "bobj SG s d = Some v" using view by auto
    from BO_Free_ok [OF inv this] show "\<exists>s'. BO_Free d s = Inr s' \<and> bo_wf s' \<and> bo_objects s' = (bo_objects s)(d := None)"
      unfolding view using wf by metis
  next
    fix d a n st g addr assume "bo_objects s d = Some (a, n, st, g) \<and> addr \<in> addr_range a n"
    then show "BO_GetDesc addr s = Inr d" unfolding view using BO_GetDesc_ok [OF inv] by blast
  qed
qed

definition ex_bo :: rt where
  "ex_bo = ex_rt\<lparr>rt_bibop := InitBibop, rt_heap := ex_heap\<lparr>h_freeBigObjs := 1\<rparr>, rt_fresh := 2, rt_region := Map.empty,
     rt_desc := [1 \<mapsto> \<lparr>bd_obj = 0, bd_sizeB = 0, bd_objc = 0, bd_state = BO_YOUNG, bd_gen = 0, bd_region = 0, bd_prev = 1, bd_next = 1\<rparr>]\<rparr>"

lemma ex_bo_wf: "bo_wf ex_bo" "bo_objects ex_bo = Map.empty" "rt_fresh ex_bo = 2"
proof -
  have "bo_inv (\<lambda>_. []) [] ex_bo"
    using InitBibop_ok by (simp add: bo_inv_def bo_common_def ex_bo_def free_list_def nx_def pv_def free_descs_def)
  then show "bo_wf ex_bo" by (auto simp: bo_wf_def)
  show "bo_objects ex_bo = Map.empty" "rt_fresh ex_bo = 2" by (simp_all add: fun_eq_iff bo_objects_def ex_bo_def)
qed

text \<open>An object of 5000 bytes is allocated in an empty heap and freed again.\<close>

theorem big_object_store_witness:
  "(\<exists>msg. BO_Alloc ex_mmap 100 2 5000 ex_bo = Inl (Die msg))
    \<or> (\<exists>d s a t. BO_Alloc ex_mmap 100 2 5000 ex_bo = Inr (d, s) \<and> bo_objects s = [d \<mapsto> (a, 5000, BO_YOUNG, 2)] \<and> BO_GetDesc a s = Inr d
         \<and> BO_Free d s = Inr t \<and> bo_wf t \<and> bo_objects t = Map.empty)"
proof -
  have "(\<exists>msg. BO_Alloc ex_mmap 100 2 5000 ex_bo = Inl (Die msg))
    \<or> (\<exists>d s a. BO_Alloc ex_mmap 100 2 5000 ex_bo = Inr (d, s) \<and> bo_wf s \<and> rt_fresh s \<le> 5 \<and> bo_objects s = [d \<mapsto> (a, 5000, BO_YOUNG, 2)])"
  proof -
    have "rt_fresh ex_bo < 2 ^ 63" "rt_fresh ex_bo \<le> 100" using ex_bo_wf(3) by simp_all
    from big_object_store [OF ex_bo_wf(1) ex_mmap_ok this, THEN conjunct1, rule_format, of "5000 :: addr_t" 2] show ?thesis
      unfolding ex_bo_wf(2,3) by simp
  qed
  then show ?thesis
  proof (elim disjE exE conjE)
    fix d s a assume s: "BO_Alloc ex_mmap 100 2 5000 ex_bo = Inr (d, s)" "bo_wf s" "rt_fresh s \<le> 5" "bo_objects s = [d \<mapsto> (a, 5000, BO_YOUNG, 2)]"
    have "rt_fresh s < 2 ^ 63" "rt_fresh s \<le> 100" using s(3) by simp_all
    note th = big_object_store [OF s(2) ex_mmap_ok this]
    have "\<exists>t. BO_Free d s = Inr t \<and> bo_wf t \<and> bo_objects t = (bo_objects s)(d := None)" using th s(4) by simp
    then obtain t where "BO_Free d s = Inr t" "bo_wf t" "bo_objects t = Map.empty" using s(4) by auto
    moreover have "a \<in> addr_range a 5000" by (simp add: addr_range_def)
    then have "BO_GetDesc a s = Inr d" using th s(4) by simp
    ultimately show ?thesis using s by blast
  qed simp
qed

end
