(* ===== verification/Blast_GC.thy ===== *)
theory Blast_GC
  imports Import_Heap
begin

text \<open>
  The collection behind a blast, \<open>gc/blast-gc.c\<close>: the generations up to that of the object are
  flipped, the object is copied with what it reaches to the new to-spaces, and afterwards the
  heap is put back from the repair lists or the collection is completed. The static variables of
  the file are fields of the state, and so is the field \<open>repairList\<close> of the arenas, which
  only this file uses: \<open>bl_repairList g j\<close> belongs to arena \<open>j\<close> of the generation at position
  \<open>g\<close>. A repair list is an array of pairs of words below \<open>tospTop\<close> that grows downwards.
\<close>

section \<open>State\<close>

datatype embobj_kind = EMB_STRING | EMB_REALD | UNUSED_CODE | USED_CODE

text \<open>\<open>None\<close>: \<open>relAddr\<close> is not yet written.\<close>

record embobj_info =
  ei_kind :: embobj_kind
  ei_codeObj :: nat
  ei_relAddr :: "word_t option"

record blast =
  bl_rt :: rt
  bl_repairHeap :: bool
  bl_finishGC :: bool
  bl_maxCollectedGen :: nat
  bl_savedTop :: "nat \<Rightarrow> nat \<Rightarrow> addr_t"
  bl_repairList :: "nat \<Rightarrow> nat \<Rightarrow> addr_t"
  bl_ExportTbl :: export_table
  bl_EmbObjTbl :: "nat addr_tbl"
  bl_emb :: "nat \<Rightarrow> embobj_info option"  \<comment> \<open>the information objects, numbered\<close>
  bl_nemb :: nat

text \<open>The result of \<open>BlastGC\<close>; \<open>None\<close> stands for a field that an early return leaves unset. The two
  tables of the structure are those of the state.\<close>

record blast_res =
  rs_error :: bool
  rs_needsRepair :: "bool option"
  rs_maxGen :: "nat option"

definition bl_put :: "rt \<Rightarrow> blast \<Rightarrow> blast" where "bl_put r s = s\<lparr>bl_rt := r\<rparr>"

definition bl_do :: "(rt \<Rightarrow> rt res) \<Rightarrow> blast \<Rightarrow> blast res" where
  "bl_do f s = rbind (f (bl_rt s)) (\<lambda>r. Inr (bl_put r s))"

definition bl_upd :: "(rt \<Rightarrow> rt) \<Rightarrow> blast \<Rightarrow> blast" where "bl_upd f s = bl_put (f (bl_rt s)) s"

section \<open>The repair lists\<close>

definition NOTE_REPAIR :: "nat \<Rightarrow> nat \<Rightarrow> addr_t \<Rightarrow> word_t \<Rightarrow> blast \<Rightarrow> blast" where
  "NOTE_REPAIR g j location val s =
     (if bl_repairHeap s then
        (let rp = bl_repairList s g j - 16 in
         if a_nextw (get_arena g j (bl_rt s)) < rp
         then (bl_upd (upd_mem (\<lambda>m. m(rp := location, rp + 8 := val))) s)
                \<lparr>bl_repairList := (bl_repairList s)(g := (bl_repairList s g)(j := rp))\<rparr>
         else s\<lparr>bl_repairHeap := False\<rparr>)
      else s)"

section \<open>Flipping\<close>

text \<open>The new size has room for what the arena holds; the repair list is not counted.\<close>

definition blast_flip_arena :: "nat \<Rightarrow> nat \<Rightarrow> blast \<Rightarrow> blast" where
  "blast_flip_arena i j s =
     (let r = bl_rt s; ap = get_arena i j r in
      if isACTIVE ap then
        (let ap1 = FLIP_ARENA ap; newSz0 = a_frspTop ap1 - a_frspBase ap1;
             newSz1 = (if i = 0 then newSz0 + h_allocSzB (rt_heap r) else newSz0);
             newSz = (if j = PAIR_INDX then newSz1 + 16 else newSz1)
         in (bl_upd (upd_arena i j (\<lambda>_. ap1\<lparr>a_tospSizeB := RND_MEMOBJ_SZB newSz\<rparr>)) s)
              \<lparr>bl_savedTop := (bl_savedTop s)(i := (bl_savedTop s i)(j := a_tospTop ap))\<rparr>)
      else s)"

definition init_repair :: "nat \<Rightarrow> nat \<Rightarrow> blast \<Rightarrow> blast" where
  "init_repair i j s =
     (let ap = get_arena i j (bl_rt s) in
      if isACTIVE ap then s\<lparr>bl_repairList := (bl_repairList s)(i := (bl_repairList s i)(j := a_tospTop ap))\<rparr> else s)"

definition blast_flip_gen :: "(mem_sys \<Rightarrow> addr_t \<Rightarrow> addr_t option) \<Rightarrow> nat \<Rightarrow> blast \<Rightarrow> blast res" where
  "blast_flip_gen mmap i s =
     (if h_numGens (rt_heap (bl_rt s)) \<le> i then Inl (Fault ''generation index'')
      else let s = bl_upd (upd_gen i (\<lambda>gn. gn\<lparr>g_fromObj := g_toObj gn\<rparr>)) (fold (blast_flip_arena i) [0..<NUM_ARENAS] s) in
        rbind (NewGeneration mmap i (bl_rt s)) (\<lambda>(ok, r).
        if ok then Inr (fold (init_repair i) [0..<NUM_ARENAS] (bl_put r s))
        else Inl (Die ''unable to allocate to-space'')))"

definition BlastGC_Flip :: "(mem_sys \<Rightarrow> addr_t \<Rightarrow> addr_t option) \<Rightarrow> nat \<Rightarrow> blast \<Rightarrow> blast res" where
  "BlastGC_Flip mmap gen s =
     rbind (rfold (blast_flip_gen mmap) [bl_maxCollectedGen s..<gen] s) (\<lambda>s. Inr (s\<lparr>bl_maxCollectedGen := gen\<rparr>))"

definition CHECK_GEN :: "(mem_sys \<Rightarrow> addr_t \<Rightarrow> addr_t option) \<Rightarrow> nat \<Rightarrow> blast \<Rightarrow> blast res" where
  "CHECK_GEN mmap g s = (if bl_maxCollectedGen s < g then BlastGC_Flip mmap g s else Inr s)"

section \<open>Embedded objects\<close>

definition FindEmbObj :: "blast \<Rightarrow> addr_t \<Rightarrow> nat option res" where
  "FindEmbObj s addr = AddrTblLookup (bl_EmbObjTbl s) addr"

definition get_emb :: "nat \<Rightarrow> blast \<Rightarrow> embobj_info res" where
  "get_emb p s = (case bl_emb s p of None \<Rightarrow> Inl (Fault ''dangling object information'') | Some x \<Rightarrow> Inr x)"

definition EmbObjLookup :: "addr_t \<Rightarrow> embobj_kind \<Rightarrow> blast \<Rightarrow> (nat \<times> blast) res" where
  "EmbObjLookup addr kind s =
     rbind (FindEmbObj s addr) (\<lambda>q.
     case q of
       Some p \<Rightarrow> Inr (p, s)
     | None \<Rightarrow>
         let p = bl_nemb s in
         rbind (AddrTblInsert (bl_EmbObjTbl s) addr p) (\<lambda>tbl.
         Inr (p, s\<lparr>bl_EmbObjTbl := tbl, bl_nemb := p + 1,
                   bl_emb := (bl_emb s)(p \<mapsto> \<lparr>ei_kind = kind, ei_codeObj = 0, ei_relAddr = None\<rparr>)\<rparr>)))"

section \<open>Forwarding\<close>

text \<open>
  The first page of a region is taken to be the region's header, which was moved out of the
  region: the fields \<open>firstPage\<close> and \<open>objMap\<close> of the structure are read from the words that the
  page holds, at the offsets of the structure.
\<close>

definition page_BODESC :: "addr_t \<Rightarrow> addr_t \<Rightarrow> memory \<Rightarrow> nat" where
  "page_BODESC region obj m = unat (m (at_ix (region + 40) (unat (drop_bit 10 (obj - m region)))))"

definition BlastGC_ForwardBigObj ::
  "(mem_sys \<Rightarrow> addr_t \<Rightarrow> addr_t option) \<Rightarrow> word_t \<Rightarrow> aid_t \<Rightarrow> blast \<Rightarrow> (nat \<times> blast) res" where
  "BlastGC_ForwardBigObj mmap obj aid s =
     rbind (find_hdr_from (INDEX_TO_PAGEID (rt_bibop (bl_rt s))) aid (BIBOP_ADDR_TO_INDEX obj)) (\<lambda>i.
     let dp = page_BODESC (BIBOP_INDEX_TO_ADDR i) obj (rt_mem (bl_rt s)) in
     if bl_finishGC s then Inr (dp, s)
     else
       rbind (get_desc dp (bl_rt s)) (\<lambda>x.
       rbind (CHECK_GEN mmap (bd_gen x) s) (\<lambda>s.
       rbind (EmbObjLookup (bd_obj x) UNUSED_CODE s) (\<lambda>(p, s).
       rbind (get_emb p s) (\<lambda>info.
       Inr (dp, s\<lparr>bl_emb := (bl_emb s)(p \<mapsto> info\<lparr>ei_kind := USED_CODE\<rparr>)\<rparr>))))))"

text \<open>Copying an object of \<open>len\<close> words behind its descriptor, and noting the repair.\<close>

definition blast_copy :: "nat \<Rightarrow> nat \<Rightarrow> word_t \<Rightarrow> word_t \<Rightarrow> addr_t \<Rightarrow> blast \<Rightarrow> (word_t \<times> blast) res" where
  "blast_copy g j len desc obj s =
     (let p = a_nextw (get_arena g j (bl_rt s)); new_obj = p + 8;
          s1 = bl_upd (upd_mem (\<lambda>m. Copy obj new_obj (copy_len len) (m(p := desc))))
                 (bl_upd (upd_arena g j (\<lambda>a. a\<lparr>a_nextw := p + 8 * (len + 1)\<rparr>)) s);
          s2 = NOTE_REPAIR g j obj (rt_mem (bl_rt s1) obj) s1
      in Inr (new_obj, bl_upd (upd_mem (\<lambda>m. m(obj - 8 := DESC_forwarded, obj := new_obj))) s2))"

definition blast_pair :: "nat \<Rightarrow> word_t \<Rightarrow> addr_t \<Rightarrow> blast \<Rightarrow> (word_t \<times> blast) res" where
  "blast_pair g w obj s =
     (let new_obj = a_nextw (get_arena g PAIR_INDX (bl_rt s));
          s1 = bl_upd (upd_mem (\<lambda>m. let m1 = m(new_obj := w) in m1(new_obj + 8 := m1 (obj + 8))))
                 (bl_upd (upd_arena g PAIR_INDX (\<lambda>a. a\<lparr>a_nextw := new_obj + 16\<rparr>)) s);
          s2 = NOTE_REPAIR g PAIR_INDX obj w s1
      in Inr (new_obj, bl_upd (upd_mem (\<lambda>m. m(obj := MAKE_PAIR_FP new_obj))) s2))"

text \<open>\<open>BlastGC_ForwardObj\<close> behind the check of the generation: \<open>g\<close> is the position of the object's generation.\<close>

definition blast_forward :: "nat \<Rightarrow> nat \<Rightarrow> addr_t \<Rightarrow> blast \<Rightarrow> (word_t \<times> blast) res" where
  "blast_forward objc g obj s =
     (let m = rt_mem (bl_rt s); desc = m (obj - 8); tag = GET_TAG desc;
          follow = Inr (FOLLOW_FWDOBJ obj m, s)
      in if objc = OBJC_record then
           (if tag = DTAG_forward then follow else blast_copy g RECORD_INDX (GET_LEN desc) desc obj s)
         else if objc = OBJC_pair then
           (if isDESC (m obj) then Inr (FOLLOW_FWDPAIR (m obj), s) else blast_pair g (m obj) obj s)
         else if objc = OBJC_mixed then
           (if tag = DTAG_vec_hdr \<or> tag = DTAG_arr_hdr then blast_copy g MIXED_INDX 2 desc obj s
            else if tag = DTAG_forward then follow
            else blast_copy g MIXED_INDX (MIXED_GET_LEN desc) desc obj s)
         else if objc = OBJC_string then
           (if tag = DTAG_forward then follow
            else if tag = DTAG_raw then blast_copy g STRING_INDX (GET_LEN desc) desc obj s
            else Inl (Die ''bad string tag''))
         else if objc = OBJC_array then
           (if tag = DTAG_forward then follow
            else if tag = DTAG_arr_data then blast_copy g ARRAY_INDX (GET_LEN desc) desc obj s
            else if tag = DTAG_special then blast_copy g ARRAY_INDX 1 desc obj s
            else Inl (Die ''bad array tag''))
         else Inl (Die ''BlastGC_ForwardObj: unknown object class''))"

definition BlastGC_ForwardObj ::
  "(mem_sys \<Rightarrow> addr_t \<Rightarrow> addr_t option) \<Rightarrow> word_t \<Rightarrow> aid_t \<Rightarrow> blast \<Rightarrow> (word_t \<times> blast) res" where
  "BlastGC_ForwardObj mmap obj aid s =
     rbind (if bl_finishGC s then Inr s else CHECK_GEN mmap (EXTRACT_GEN aid) s) (\<lambda>s.
     if EXTRACT_GEN aid = 0 \<and> EXTRACT_OBJC aid \<noteq> OBJC_new then Inl (Fault ''generation index'')
     else blast_forward (EXTRACT_OBJC aid) (EXTRACT_GEN aid - 1) obj s)"

text \<open>The word at \<open>p\<close>; the first component of the state is the error flag.\<close>

definition BlastGC_CheckWord ::
  "(mem_sys \<Rightarrow> addr_t \<Rightarrow> addr_t option) \<Rightarrow> registry \<Rightarrow> aid_t \<Rightarrow> addr_t \<Rightarrow> bool \<times> blast \<Rightarrow> (bool \<times> blast) res" where
  "BlastGC_CheckWord mmap r maxAid p = (\<lambda>(err, s).
     let w = rt_mem (bl_rt s) p in
     if isBOXED w then
       rbind (ADDR_TO_PAGEID (rt_bibop (bl_rt s)) w) (\<lambda>aid.
       if aid = AID_UNMAPPED then
         (if bl_finishGC s then Inr (err, s)
          else rbind (ExportCSymbol r w (bl_ExportTbl s)) (\<lambda>(x, tbl).
            Inr (err \<or> x = ML_unit, s\<lparr>bl_ExportTbl := tbl\<rparr>)))
       else if IS_BIGOBJ_AID aid then
         rbind (BlastGC_ForwardBigObj mmap w aid s) (\<lambda>(_, s). Inr (err, s))
       else if IS_FROM_SPACE aid maxAid then
         rbind (BlastGC_ForwardObj mmap w aid s) (\<lambda>(v, s). Inr (err, bl_upd (upd_mem (\<lambda>m. m(p := v))) s))
       else Inr (err, s))
     else Inr (err, s))"

section \<open>Sweeping\<close>

fun blast_sweep ::
  "nat \<Rightarrow> (mem_sys \<Rightarrow> addr_t \<Rightarrow> addr_t option) \<Rightarrow> registry \<Rightarrow> aid_t \<Rightarrow> nat \<Rightarrow> nat \<Rightarrow> addr_t \<Rightarrow> bool \<times> blast \<Rightarrow> (bool \<times> blast) res" where
  "blast_sweep 0 mmap r maxAid g ix p x = Inl NoFuel"
| "blast_sweep (Suc fuel) mmap r maxAid g ix p x =
     (let q = a_nextw (get_arena g ix (bl_rt (snd x))) in
      rbind (rfold (BlastGC_CheckWord mmap r maxAid) (words_between p q) x) (\<lambda>(err, s).
        if q \<noteq> a_nextw (get_arena g ix (bl_rt s)) then blast_sweep fuel mmap r maxAid g ix q (err, s)
        else Inr (err, bl_upd (upd_arena g ix (\<lambda>a. a\<lparr>a_sweep_nextw := q\<rparr>)) s)))"

definition BlastGC_SweepArena ::
  "nat \<Rightarrow> (mem_sys \<Rightarrow> addr_t \<Rightarrow> addr_t option) \<Rightarrow> registry \<Rightarrow> aid_t \<Rightarrow> nat \<Rightarrow> nat \<Rightarrow> bool \<times> bool \<times> blast \<Rightarrow> (bool \<times> bool \<times> blast) res" where
  "BlastGC_SweepArena fuel mmap r maxAid g ix = (\<lambda>(swept, err, s).
     let ap = get_arena g ix (bl_rt s) in
     if isACTIVE ap \<and> a_sweep_nextw ap < a_nextw ap
     then rbind (blast_sweep fuel mmap r maxAid g ix (a_sweep_nextw ap) (err, s)) (\<lambda>x. Inr (True, x))
     else Inr (swept, err, s))"

definition blast_sweep_gen ::
  "nat \<Rightarrow> (mem_sys \<Rightarrow> addr_t \<Rightarrow> addr_t option) \<Rightarrow> registry \<Rightarrow> aid_t \<Rightarrow> nat \<Rightarrow> bool \<times> bool \<times> blast \<Rightarrow> (bool \<times> bool \<times> blast) res" where
  "blast_sweep_gen fuel mmap r maxAid g x =
     rbind (BlastGC_SweepArena fuel mmap r maxAid g RECORD_INDX x) (\<lambda>x.
     rbind (BlastGC_SweepArena fuel mmap r maxAid g PAIR_INDX x)
       (BlastGC_SweepArena fuel mmap r maxAid g ARRAY_INDX))"

text \<open>The inner loop: its bound, \<open>maxCollectedGen\<close>, may grow while it runs.\<close>

fun blast_sweep_gens ::
  "nat \<Rightarrow> nat \<Rightarrow> (mem_sys \<Rightarrow> addr_t \<Rightarrow> addr_t option) \<Rightarrow> registry \<Rightarrow> aid_t \<Rightarrow> nat \<Rightarrow> bool \<times> bool \<times> blast \<Rightarrow> (bool \<times> bool \<times> blast) res" where
  "blast_sweep_gens n fuel mmap r maxAid i x =
     (if \<not> i < bl_maxCollectedGen (snd (snd x)) then Inr x
      else case n of
        0 \<Rightarrow> Inl NoFuel
      | Suc n \<Rightarrow> rbind (blast_sweep_gen fuel mmap r maxAid i x) (blast_sweep_gens n fuel mmap r maxAid (i + 1)))"

declare blast_sweep_gens.simps [simp del]

fun blast_sweep_rounds ::
  "nat \<Rightarrow> nat \<Rightarrow> (mem_sys \<Rightarrow> addr_t \<Rightarrow> addr_t option) \<Rightarrow> registry \<Rightarrow> aid_t \<Rightarrow> bool \<times> blast \<Rightarrow> (bool \<times> blast) res" where
  "blast_sweep_rounds 0 fuel mmap r maxAid x = Inl NoFuel"
| "blast_sweep_rounds (Suc n) fuel mmap r maxAid x =
     rbind (blast_sweep_gens fuel fuel mmap r maxAid 0 (False, x)) (\<lambda>(swept, err, s).
     if swept \<and> \<not> err then blast_sweep_rounds n fuel mmap r maxAid (err, s) else Inr (err, s))"

text \<open>The result is whether it is \<open>SUCCESS\<close>. The mixed arenas are not swept.\<close>

definition BlastGC_SweepToSpace ::
  "nat \<Rightarrow> (mem_sys \<Rightarrow> addr_t \<Rightarrow> addr_t option) \<Rightarrow> registry \<Rightarrow> aid_t \<Rightarrow> blast \<Rightarrow> (bool \<times> blast) res" where
  "BlastGC_SweepToSpace fuel mmap r maxAid s =
     rbind (blast_sweep_rounds fuel fuel mmap r maxAid (False, s)) (\<lambda>(err, s). Inr (\<not> err, s))"

section \<open>BlastGC\<close>

abbreviation (input) AID_MAX :: aid_t where "AID_MAX \<equiv> MAKE_MAX_AID MAX_NUM_GENS"

text \<open>Initially the static arrays have the values of the previous blast.\<close>

definition BlastGC_init :: "nat \<Rightarrow> (nat \<Rightarrow> nat \<Rightarrow> addr_t) \<Rightarrow> (nat \<Rightarrow> nat \<Rightarrow> addr_t) \<Rightarrow> rt \<Rightarrow> blast res" where
  "BlastGC_init fuel savedTop repairList r =
     rbind (MakeAddrTbl fuel 3 64) (\<lambda>tbl.
     Inr \<lparr>bl_rt = r, bl_repairHeap = True, bl_finishGC = False, bl_maxCollectedGen = 0, bl_savedTop = savedTop,
          bl_repairList = repairList, bl_ExportTbl = NewExportTbl, bl_EmbObjTbl = tbl, bl_emb = (\<lambda>_. None), bl_nemb = 1\<rparr>)"

definition BlastGC ::
  "nat \<Rightarrow> (mem_sys \<Rightarrow> addr_t \<Rightarrow> addr_t option) \<Rightarrow> registry \<Rightarrow> addr_t \<Rightarrow> nat \<Rightarrow> blast \<Rightarrow> (blast_res \<times> blast) res" where
  "BlastGC fuel mmap r root gen s =
     (let failed = \<lparr>rs_error = True, rs_needsRepair = None, rs_maxGen = None\<rparr> in
      rbind (BlastGC_Flip mmap gen s) (\<lambda>s.
      rbind (BlastGC_CheckWord mmap r AID_MAX root (False, s)) (\<lambda>(err, s).
      if err then Inr (failed, s)
      else rbind (BlastGC_SweepToSpace fuel mmap r AID_MAX s) (\<lambda>(ok, s).
        if \<not> ok then Inr (failed, s)
        else Inr (\<lparr>rs_error = False, rs_needsRepair = Some (bl_repairHeap s), rs_maxGen = Some (bl_maxCollectedGen s)\<rparr>, s)))))"

section \<open>Embedded literals\<close>

text \<open>The body of \<open>BlastGC_AssignLits\<close> is not compiled: the function dies.\<close>

definition BlastGC_AssignLits :: "addr_t \<Rightarrow> nat \<Rightarrow> addr_t res \<Rightarrow> addr_t res" where
  "BlastGC_AssignLits addr info clos = rbind clos (\<lambda>_. Inl (Die ''BlastGC_AssignLits''))"

definition BlastGC_AssignLitAddrs :: "addr_t \<Rightarrow> blast \<Rightarrow> addr_t res" where
  "BlastGC_AssignLitAddrs offset s = AddrTblApply (bl_EmbObjTbl s) BlastGC_AssignLits (Inr offset)"

text \<open>A string of \<open>n\<close> bytes takes one more word when \<open>n\<close> is a multiple of 4.\<close>

definition lit_size :: "embobj_kind \<Rightarrow> addr_t \<Rightarrow> memory \<Rightarrow> addr_t res" where
  "lit_size kind addr m =
     (case kind of
        EMB_STRING \<Rightarrow>
          (let nChars = (scast (ucast (GET_LEN (m (addr - 8))) :: u32) :: word_t); nWords = BYTES_TO_WORDS nChars in
           Inr (8 * (if nChars \<noteq> 0 \<and> nChars AND 3 = 0 then nWords + 1 else nWords)))
      | EMB_REALD \<Rightarrow> Inr (scast (ucast (GET_LEN (m (addr - 8)) * 8) :: u32))
      | _ \<Rightarrow> Inl (Die ''BlastGC_ExtractLits: unexpected kind''))"

definition BlastGC_ExtractLits :: "blast \<Rightarrow> addr_t \<Rightarrow> nat \<Rightarrow> wr_buffer res \<Rightarrow> wr_buffer res" where
  "BlastGC_ExtractLits s addr p clos =
     rbind clos (\<lambda>wr.
     rbind (get_emb p s) (\<lambda>info.
     case ei_relAddr info of
       None \<Rightarrow> Inl (Fault ''uninitialised address'')
     | Some a \<Rightarrow>
         if a = 0 then Inr wr
         else rbind (lit_size (ei_kind info) addr (mw_mem wr)) (\<lambda>objSzB.
           Inr (if objSzB \<noteq> 0 then mem_Write (bytes_at (addr - 8) (unat (objSzB + 8)) (mw_mem wr)) wr else wr))))"

definition BlastGC_BlastLits :: "blast \<Rightarrow> wr_buffer \<Rightarrow> wr_buffer res" where
  "BlastGC_BlastLits s wr = AddrTblApply (bl_EmbObjTbl s) (BlastGC_ExtractLits s) (Inr wr)"

section \<open>Repairing the heap\<close>

text \<open>One entry: the descriptor comes back from the copy, the first word from the list.\<close>

definition repair_entry :: "nat \<Rightarrow> addr_t \<Rightarrow> memory \<Rightarrow> memory" where
  "repair_entry j rp m =
     (let p = m rp; m1 = (if j \<noteq> PAIR_INDX then m(p - 8 := m (FOLLOW_FWDOBJ p m - 8)) else m) in m1(p := m1 (rp + 8)))"

definition repair_entries :: "addr_t \<Rightarrow> addr_t \<Rightarrow> addr_t list" where
  "repair_entries rp stop = map (\<lambda>k. rp + 16 * of_nat k) [0..<(unat stop - unat rp + 15) div 16]"

definition repair_arena :: "nat \<Rightarrow> nat \<Rightarrow> blast \<Rightarrow> blast" where
  "repair_arena i j s =
     (let ap = get_arena i j (bl_rt s) in
      if isACTIVE ap
      then bl_upd (upd_mem (fold (repair_entry j) (repair_entries (bl_repairList s i j) (a_tospTop ap)))) s
      else s)"

definition unflip_arena :: "nat \<Rightarrow> nat \<Rightarrow> blast \<Rightarrow> blast" where
  "unflip_arena i j s =
     bl_upd (upd_arena i j (\<lambda>ap.
       if isACTIVE ap then
         ap\<lparr>a_nextw := a_frspTop ap, a_sweep_nextw := a_frspTop ap, a_tospBase := a_frspBase ap, a_frspBase := a_tospBase ap,
            a_tospSizeB := a_frspSizeB ap, a_frspSizeB := a_tospSizeB ap, a_tospTop := bl_savedTop s i j, a_frspTop := a_tospTop ap\<rparr>
       else ap)) s"

definition blast_repair_gen :: "nat \<Rightarrow> blast \<Rightarrow> blast res" where
  "blast_repair_gen i s =
     (let s = fold (repair_arena i) [RECORD_INDX, PAIR_INDX, STRING_INDX, ARRAY_INDX, MIXED_INDX] s;
          s = fold (unflip_arena i) [0..<NUM_ARENAS] s;
          s = bl_upd (upd_gen i (\<lambda>gn. gn\<lparr>g_fromObj := g_toObj gn, g_toObj := g_fromObj gn\<rparr>)) s
      in bl_do (FreeGeneration i) s)"

definition BlastGC_RepairHeap :: "nat \<Rightarrow> blast \<Rightarrow> blast res" where
  "BlastGC_RepairHeap maxGen s = rfold blast_repair_gen [0..<maxGen] s"

section \<open>Completing the collection\<close>

text \<open>A word of a dirty card, with the youngest generation referred to in \<open>mark\<close>.\<close>

definition blast_card_word ::
  "(mem_sys \<Rightarrow> addr_t \<Rightarrow> addr_t option) \<Rightarrow> aid_t \<Rightarrow> addr_t \<Rightarrow> nat \<times> blast \<Rightarrow> (nat \<times> blast) res" where
  "blast_card_word mmap maxAid p = (\<lambda>(mark, s).
     let w = rt_mem (bl_rt s) p in
     if isBOXED w then
       rbind (ADDR_TO_PAGEID (rt_bibop (bl_rt s)) w) (\<lambda>aid.
       if IS_FROM_SPACE aid maxAid then
         rbind (if IS_BIGOBJ_AID aid then
                  rbind (BlastGC_ForwardBigObj mmap w aid s) (\<lambda>(dp, s).
                  rbind (get_desc dp (bl_rt s)) (\<lambda>x. Inr (bd_gen x, s)))
                else
                  rbind (BlastGC_ForwardObj mmap w aid s) (\<lambda>(v, s).
                  let s = bl_upd (upd_mem (\<lambda>m. m(p := v))) s in
                  rbind (ADDR_TO_PAGEID (rt_bibop (bl_rt s)) v) (\<lambda>aid. Inr (EXTRACT_GEN aid, s)))) (\<lambda>(targetGen, s).
         Inr (min mark targetGen, s))
       else Inr (mark, s))
     else Inr (mark, s))"

definition set_card :: "nat \<Rightarrow> nat \<Rightarrow> byte_t \<Rightarrow> rt \<Rightarrow> rt" where
  "set_card i cd v =
     upd_gen i (\<lambda>gn. gn\<lparr>g_dirty := map_option (\<lambda>cm. cm\<lparr>cm_map := (cm_map cm)(cd := v)\<rparr>) (g_dirty gn)\<rparr>)"

definition blast_scan_card ::
  "(mem_sys \<Rightarrow> addr_t \<Rightarrow> addr_t option) \<Rightarrow> nat \<Rightarrow> nat \<Rightarrow> addr_t \<Rightarrow> nat \<Rightarrow> blast \<Rightarrow> blast res" where
  "blast_scan_card mmap maxGen i maxSweep cd s =
     (case g_dirty (get_gen i (bl_rt s)) of
        None \<Rightarrow> Inl (Fault ''no card map'')
      | Some cm \<Rightarrow>
          if isDIRTY cm cd maxGen then
            (let p = cm_baseAddr cm + 256 * of_nat cd; q0 = p + 256;
                 q = (if maxSweep < q0 then maxSweep else q0)
             in rbind (rfold (blast_card_word mmap (MAKE_MAX_AID maxGen)) (words_between p q) (i + 1, s)) (\<lambda>(mark, s).
                if mark \<le> i then Inr (bl_upd (set_card i cd (of_nat mark)) s)
                else if i = maxGen then Inr (bl_upd (set_card i cd CARD_CLEAN) s)
                else Inr s))
          else Inr s)"

definition blast_scan_cards :: "(mem_sys \<Rightarrow> addr_t \<Rightarrow> addr_t option) \<Rightarrow> nat \<Rightarrow> nat \<Rightarrow> blast \<Rightarrow> blast res" where
  "blast_scan_cards mmap maxGen i s =
     (let ap = get_arena i ARRAY_INDX (bl_rt s) in
      if isACTIVE ap then
        (case g_dirty (get_gen i (bl_rt s)) of
           None \<Rightarrow> Inr s
         | Some cm \<Rightarrow> rfold (blast_scan_card mmap maxGen i (a_sweep_nextw ap)) [0..<cm_numCards cm] s)
      else Inr s)"

text \<open>Marking the cards of a flipped generation: the words of a card are read until one refers to
  the first generation. The state is the mark and whether the loop was left.\<close>

definition young_word :: "addr_t \<Rightarrow> rt \<Rightarrow> nat \<times> bool \<Rightarrow> (nat \<times> bool) res" where
  "young_word p s = (\<lambda>(mark, left).
     let w = rt_mem s p in
     if left \<or> \<not> isBOXED w then Inr (mark, left)
     else
       rbind (ADDR_TO_PAGEID (rt_bibop s) w) (\<lambda>aid.
       rbind (if IS_BIGOBJ_AID aid then rbind (BO_GetDesc w s) (\<lambda>dp. rbind (get_desc dp s) (\<lambda>x. Inr (bd_gen x)))
              else Inr (EXTRACT_GEN aid)) (\<lambda>targetGen.
       Inr (if targetGen < mark then (targetGen, targetGen = 1) else (mark, False)))))"

fun remark_cards :: "nat \<Rightarrow> nat \<Rightarrow> addr_t \<Rightarrow> nat \<Rightarrow> rt \<Rightarrow> rt res" where
  "remark_cards fuel i p cd s =
     (let ap = get_arena i ARRAY_INDX s in
      if \<not> p < a_nextw ap then Inr s
      else case fuel of
        0 \<Rightarrow> Inl NoFuel
      | Suc fuel \<Rightarrow>
          (let stop0 = (p + 256) AND NOT 255; stop = (if a_nextw ap < stop0 then a_nextw ap else stop0) in
           rbind (rfold (\<lambda>a. young_word a s) (words_between p stop) (i + 1, False)) (\<lambda>(mark, _).
           case g_dirty (get_gen i s) of
             None \<Rightarrow> Inl (Fault ''no card map'')
           | Some cm \<Rightarrow>
               if cm_numCards cm \<le> cd then Inl (Fault ''card index out of range'')
               else remark_cards fuel i stop (cd + 1) (set_card i cd (if mark \<le> i then of_nat mark else CARD_CLEAN) s))))"

declare remark_cards.simps [simp del]

definition remark_gen :: "nat \<Rightarrow> nat \<Rightarrow> rt \<Rightarrow> rt res" where
  "remark_gen fuel i s =
     (let ap = get_arena i ARRAY_INDX s in if isACTIVE ap then remark_cards fuel i (a_tospBase ap) 0 s else Inr s)"

text \<open>The roots are the C roots and ten registers of the ML state, in this order.\<close>

definition blast_roots :: "addr_t \<Rightarrow> addr_t list" where
  "blast_roots msp = [ml_arg msp, ml_cont msp, ml_closure msp, ml_linkReg msp, ml_pc msp, ml_exnCont msp, ml_varReg msp,
     ml_calleeSave0 msp, ml_calleeSave1 msp, ml_calleeSave2 msp]"

definition BlastGC_FinishGC ::
  "nat \<Rightarrow> (mem_sys \<Rightarrow> addr_t \<Rightarrow> addr_t option) \<Rightarrow> registry \<Rightarrow> addr_t list \<Rightarrow> nat \<Rightarrow> blast \<Rightarrow> blast res" where
  "BlastGC_FinishGC fuel mmap r roots maxGen s0 =
     (let maxAid = MAKE_MAX_AID maxGen;
          s = fold (\<lambda>i. bl_upd (\<lambda>r. if isACTIVE (get_arena i ARRAY_INDX r) then NewDirtyVector i r else r)) [0..<maxGen]
                (s0\<lparr>bl_finishGC := True\<rparr>)
      in rbind (rfold (BlastGC_CheckWord mmap r maxAid) roots (False, s)) (\<lambda>(_, s).
         rbind (rfold (blast_scan_cards mmap maxGen) [maxGen..<h_numGens (rt_heap (bl_rt s))] s) (\<lambda>s.
         rbind (BlastGC_SweepToSpace fuel mmap r maxAid s) (\<lambda>(_, s).
         rbind (bl_do (rfold (remark_gen fuel) [1..<maxGen]) s) (\<lambda>s.
         rbind (bl_do (rfold FreeGeneration [0..<maxGen]) s) (\<lambda>s.
         Inr (bl_upd (fold set_oldTop [0..<maxGen]) s)))))))"

text \<open>The tables are freed at the end, which has no effect on the state.\<close>

definition BlastGC_FinishUp ::
  "nat \<Rightarrow> (mem_sys \<Rightarrow> addr_t \<Rightarrow> addr_t option) \<Rightarrow> registry \<Rightarrow> addr_t list \<Rightarrow> blast_res \<Rightarrow> blast \<Rightarrow> blast res" where
  "BlastGC_FinishUp fuel mmap r roots res s =
     (case (rs_needsRepair res, rs_maxGen res) of
        (Some repair, Some maxGen) \<Rightarrow>
          if repair then BlastGC_RepairHeap maxGen s else BlastGC_FinishGC fuel mmap r roots maxGen s
      | _ \<Rightarrow> Inl (Fault ''uninitialised result''))"

end
