(* ===== verification/Blast_IO.thy ===== *)
theory Blast_IO
  imports Blast_GC
begin

text \<open>
  Blasting an ML value to a sequence of bytes and building it from them, \<open>gc/blast-out.c\<close> and
  \<open>gc/blast-in.c\<close>. The image of a boxed value has the headers, the table of external symbols, and
  the contents of the arenas of all its generations, in which a pointer is the index of an arena
  and an offset. It is written to the allocation space, so that the memory of the writer is the
  memory of the heap.
\<close>

section \<open>Structures\<close>

text \<open>\<open>ml_blast_hdr_t\<close>: three 32-bit numbers, a \<open>bool_t\<close> of 32 bits, and the root.\<close>

record ml_blast_hdr =
  lh_numArenas :: u32
  lh_numBOKinds :: u32
  lh_numBORegions :: u32
  lh_hasCode :: u32
  lh_rootObj :: word_t

definition blast_hdr_bytes :: "ml_blast_hdr \<Rightarrow> byte_t list" where
  "blast_hdr_bytes h = u32_bytes (lh_numArenas h) @ u32_bytes (lh_numBOKinds h) @ u32_bytes (lh_numBORegions h)
     @ u32_bytes (lh_hasCode h) @ word_bytes (lh_rootObj h)"

definition blast_hdr_of :: "byte_t list \<Rightarrow> ml_blast_hdr" where
  "blast_hdr_of bs = \<lparr>lh_numArenas = get_u32 0 bs, lh_numBOKinds = get_u32 4 bs, lh_numBORegions = get_u32 8 bs,
     lh_hasCode = get_u32 12 bs, lh_rootObj = get_word 16 bs\<rparr>"

definition HIO_TAG_PTR :: "nat \<Rightarrow> addr_t \<Rightarrow> word_t" where "HIO_TAG_PTR i offset = push_bit 56 (of_nat i) OR offset"
definition HIO_GET_ID :: "word_t \<Rightarrow> nat" where "HIO_GET_ID p = unat (drop_bit 56 p)"
definition HIO_GET_OFFSET :: "word_t \<Rightarrow> addr_t" where "HIO_GET_OFFSET p = p AND mask 56"

section \<open>Unboxed values\<close>

text \<open>\<open>nWords\<close> is an \<open>int\<close>.\<close>

definition AllocBlastData :: "addr_t \<Rightarrow> rt \<Rightarrow> (word_t \<times> rt) res" where
  "AllocBlastData sizeB r =
     (if h_allocSzB (rt_heap r) - 8192 \<le> sizeB then Inl (Die ''blasting out of this size not supported yet'')
      else let nWords = sint (ucast (BYTES_TO_WORDS sizeB) :: u32) in
        if nWords < 0 then Inl (Fault ''negative size'')
        else Inr (ML_Alloc (nat nWords) (ML_AllocWrite 0 (MAKE_DESC (of_int nWords) DTAG_raw) r)))"

definition BlastUnboxed :: "word_t \<Rightarrow> rt \<Rightarrow> (word_t \<times> rt) res" where
  "BlastUnboxed obj r =
     rbind (AllocBlastData 60 r) (\<lambda>(blastedObj, r).
     let (_, wr) = HeapIO_WriteImageHeader mem_writer BLAST_UNBOXED (WR_OpenMem blastedObj 60 (rt_mem r));
         hdr = \<lparr>lh_numArenas = 0, lh_numBOKinds = 0, lh_numBORegions = 0, lh_hasCode = 0, lh_rootObj = obj\<rparr>;
         wr = wr_write mem_writer (blast_hdr_bytes hdr) wr; r = r\<lparr>rt_mem := mw_mem wr\<rparr>
     in Inr (if errFlg mem_writer wr then (ML_unit, r) else ML_AllocSeqHdr DESC_string blastedObj 60 r))"

section \<open>Heap images\<close>

text \<open>
  The place of every arena in the merged arenas: the base address and the offset (\<open>None\<close>: a
  generation that is not collected, whose entry is not initialised), with the total sizes.
\<close>

type_synonym adjustment = "nat \<Rightarrow> nat \<Rightarrow> (addr_t \<times> addr_t) option"

definition place_arena :: "rt \<Rightarrow> nat \<Rightarrow> nat \<Rightarrow> (nat \<Rightarrow> addr_t) \<times> adjustment \<Rightarrow> (nat \<Rightarrow> addr_t) \<times> adjustment" where
  "place_arena r i j = (\<lambda>(tot, adj).
     let ap = get_arena i j r in
     if isACTIVE ap
     then (tot(j := tot j + (a_nextw ap - a_tospBase ap)), adj(i := (adj i)(j := Some (a_tospBase ap, tot j))))
     else (tot, adj(i := (adj i)(j := Some (0, tot j)))))"

definition place_arenas :: "rt \<Rightarrow> nat \<Rightarrow> addr_t \<Rightarrow> (nat \<Rightarrow> addr_t) \<times> adjustment" where
  "place_arenas r maxGen lits =
     fold (\<lambda>i. fold (place_arena r i) [0..<NUM_ARENAS]) [0..<maxGen] ((\<lambda>_. 0)(STRING_INDX := lits), \<lambda>_ _. None)"

definition adjust_ptr :: "adjustment \<Rightarrow> aid_t \<Rightarrow> word_t \<Rightarrow> word_t res" where
  "adjust_ptr adj aid w =
     (if EXTRACT_GEN aid = 0 \<or> EXTRACT_OBJC aid = 0 then Inl (Fault ''adjustment index'')
      else case adj (EXTRACT_GEN aid - 1) (EXTRACT_OBJC aid - 1) of
        None \<Rightarrow> Inl (Fault ''uninitialised adjustment'')
      | Some (base, offset) \<Rightarrow> Inr (HIO_TAG_PTR (EXTRACT_OBJC aid - 1) (w - base + offset)))"

definition emb_addr :: "word_t \<Rightarrow> blast \<Rightarrow> word_t option res" where
  "emb_addr w s =
     rbind (FindEmbObj s w) (\<lambda>q.
     case q of
       None \<Rightarrow> Inr None
     | Some p \<Rightarrow> rbind (get_emb p s) (\<lambda>info.
         if ei_kind info = USED_CODE then Inr None
         else case ei_relAddr info of None \<Rightarrow> Inl (Fault ''uninitialised address'') | Some a \<Rightarrow> Inr (Some a)))"

text \<open>The root; \<open>None\<close> is the error of a big object.\<close>

definition blast_root :: "adjustment \<Rightarrow> word_t \<Rightarrow> blast \<Rightarrow> word_t option res" where
  "blast_root adj obj s =
     (if isEXTERNTAG obj then Inr (Some obj)
      else rbind (ADDR_TO_PAGEID (rt_bibop (bl_rt s)) obj) (\<lambda>aid.
        if IS_BIGOBJ_AID aid then emb_addr obj s
        else rbind (adjust_ptr adj aid obj) (\<lambda>w. Inr (Some w))))"

text \<open>A word of an arena.\<close>

definition blast_word :: "registry \<Rightarrow> adjustment \<Rightarrow> word_t \<Rightarrow> blast \<Rightarrow> (word_t \<times> blast) res" where
  "blast_word r adj w s =
     (if isBOXED w then
        rbind (ADDR_TO_PAGEID (rt_bibop (bl_rt s)) w) (\<lambda>aid.
        if aid = AID_UNMAPPED then
          rbind (ExportCSymbol r w (bl_ExportTbl s)) (\<lambda>(x, tbl). Inr (x, s\<lparr>bl_ExportTbl := tbl\<rparr>))
        else if IS_BIGOBJ_AID aid then
          rbind (emb_addr w s) (\<lambda>a. case a of None \<Rightarrow> Inl (Die ''blast bigobj unimplemented'') | Some x \<Rightarrow> Inr (x, s))
        else rbind (adjust_ptr adj aid w) (\<lambda>x. Inr (x, s)))
      else Inr (w, s))"

definition blast_put :: "registry \<Rightarrow> adjustment \<Rightarrow> addr_t \<Rightarrow> blast \<times> wr_buffer \<Rightarrow> (blast \<times> wr_buffer) res" where
  "blast_put r adj p = (\<lambda>(s, wr).
     rbind (blast_word r adj (mw_mem wr p) s) (\<lambda>(x, s). Inr (s, putWord mem_writer x wr)))"

text \<open>The strings are written as they are, all the words of the other arenas as values.\<close>

definition blast_arena :: "registry \<Rightarrow> adjustment \<Rightarrow> nat \<Rightarrow> nat \<Rightarrow> blast \<times> wr_buffer \<Rightarrow> (blast \<times> wr_buffer) res" where
  "blast_arena r adj i j = (\<lambda>(s, wr).
     let ap = get_arena j i (bl_rt s) in
     if \<not> isACTIVE ap then Inr (s, wr)
     else if i = STRING_INDX then
       Inr (s, wr_write mem_writer (bytes_at (a_tospBase ap) (unat (a_nextw ap - a_tospBase ap)) (mw_mem wr)) wr)
     else rfold (blast_put r adj) (words_between (a_tospBase ap) (a_nextw ap)) (s, wr))"

definition blast_arenas :: "registry \<Rightarrow> adjustment \<Rightarrow> nat \<Rightarrow> blast \<times> wr_buffer \<Rightarrow> (blast \<times> wr_buffer) res" where
  "blast_arenas r adj maxGen x =
     rfold (\<lambda>i (s, wr).
       rbind (if i = STRING_INDX then BlastGC_BlastLits s wr else Inr wr) (\<lambda>wr.
       rfold (blast_arena r adj i) [0..<maxGen] (s, wr))) [0..<NUM_ARENAS] x"

definition blast_arena_hdr :: "(nat \<Rightarrow> addr_t) \<Rightarrow> nat \<Rightarrow> heap_arena_hdr" where
  "blast_arena_hdr tot i = \<lparr>ah_gen = 0, ah_objKind = of_nat i, ah_offset = - 1, ah_info = Info_o 0 (tot i) (- 1)\<rparr>"

text \<open>What is written; \<open>None\<close> is \<open>BLAST_ERROR\<close>.\<close>

definition blast_write ::
  "registry \<Rightarrow> adjustment \<Rightarrow> nat \<Rightarrow> heap_arena_hdr list \<Rightarrow> word_t \<Rightarrow> blast \<times> wr_buffer \<Rightarrow> (bool \<times> blast \<times> wr_buffer) res" where
  "blast_write r adj maxGen hdrs obj = (\<lambda>(s, wr0).
     let (ok, wr) = HeapIO_WriteImageHeader mem_writer BLAST_IMAGE wr0 in
     if \<not> ok then Inr (False, s, wr)
     else rbind (blast_root adj obj s) (\<lambda>root.
       case root of
         None \<Rightarrow> Inr (False, s, wr)
       | Some root \<Rightarrow>
           let wr = wr_write mem_writer (blast_hdr_bytes \<lparr>lh_numArenas = of_nat (length hdrs), lh_numBOKinds = 0,
                      lh_numBORegions = 0, lh_hasCode = 0, lh_rootObj = root\<rparr>) wr in
           if errFlg mem_writer wr then Inr (False, s, wr)
           else rbind (HeapIO_WriteExterns mem_writer (bl_ExportTbl s) wr) (\<lambda>(n, wr).
             if n = - 1 then Inr (False, s, wr)
             else let wr = wr_write mem_writer (concat (map arena_hdr_bytes hdrs)) wr in
               if errFlg mem_writer wr then Inr (False, s, wr)
               else rbind (blast_arenas r adj maxGen (s, wr)) (\<lambda>(s, wr). Inr (\<not> errFlg mem_writer wr, s, wr)))))"

definition BlastHeap :: "registry \<Rightarrow> word_t \<Rightarrow> blast_res \<Rightarrow> blast \<Rightarrow> (word_t \<times> blast) res" where
  "BlastHeap r obj info s =
     rbind (BlastGC_AssignLitAddrs 0 s) (\<lambda>lits.
     case rs_maxGen info of
       None \<Rightarrow> Inl (Fault ''uninitialised result'')
     | Some maxGen \<Rightarrow>
         let (tot, adj) = place_arenas (bl_rt s) maxGen lits;
             kinds = filter (\<lambda>i. 0 < tot i) [0..<NUM_ARENAS];
             hdrs = map (blast_arena_hdr tot) kinds
         in rbind (ExportTableSz (bl_ExportTbl s)) (\<lambda>extSzB.
            let totSzB = (\<Sum>i\<leftarrow>kinds. tot i) + (60 + of_nat (length kinds * 40)) + (8 + extSzB) in
            rbind (AllocBlastData totSzB (bl_rt s)) (\<lambda>(blastedObj, rt).
            rbind (blast_write r adj maxGen hdrs obj (bl_put rt s, WR_OpenMem blastedObj totSzB (rt_mem rt))) (\<lambda>(ok, s, wr).
            let rt = (bl_rt s)\<lparr>rt_mem := mw_mem wr\<rparr> in
            if ok then let (v, rt) = ML_AllocSeqHdr DESC_string blastedObj totSzB rt in Inr (v, bl_put rt s)
            else Inr (ML_unit, bl_put rt s)))))"

section \<open>BlastOut\<close>

text \<open>
  The object is a local variable of the C function, at the address \<open>G_root\<close>, that the collector
  updates. \<open>saved\<close> has the values of the static arrays \<open>savedTop\<close> and \<open>repairList\<close> from before.
\<close>

definition BlastOut ::
  "env \<Rightarrow> globals \<Rightarrow> registry \<Rightarrow> (nat \<Rightarrow> nat \<Rightarrow> addr_t) \<times> (nat \<Rightarrow> nat \<Rightarrow> addr_t) \<Rightarrow> word_t \<Rightarrow> word_t vmop" where
  "BlastOut E G r saved obj =
     vthen (st (G_root G) obj)
    (vthen (InvokeGCWithRoots E G 0 [G_root G])
    (vbind (ld (G_root G)) (\<lambda>obj.
     vbind (\<lambda>s. rbind (GetObjGen obj (vm_rt s)) (\<lambda>gen. Inr (gen, s))) (\<lambda>gen.
     if gen = - 1 then lift_rt (BlastUnboxed obj)
     else (\<lambda>v.
       lift_rt (\<lambda>rt.
         rbind (BlastGC_init (env_fuel E) (fst saved) (snd saved) rt) (\<lambda>s.
         rbind (BlastGC (env_fuel E) (env_mmap E) r (G_root G) (nat gen) s) (\<lambda>(res, s).
         rbind (BlastHeap r (rt_mem (bl_rt s) (G_root G)) res s) (\<lambda>(blastedObj, s).
         rbind (BlastGC_FinishUp (env_fuel E) (env_mmap E) r (vm_CRoots v @ blast_roots (G_msp G)) res s) (\<lambda>s.
         Inr (blastedObj, bl_rt s)))))) v)))))"

section \<open>BlastIn\<close>

text \<open>\<open>arenaBase\<close>: \<open>None\<close> for an arena that the image does not have.\<close>

definition reloc_ptr :: "(nat \<Rightarrow> addr_t option) \<Rightarrow> word_t \<Rightarrow> word_t res" where
  "reloc_ptr arenaBase w =
     (if NUM_ARENAS \<le> HIO_GET_ID w then Inl (Fault ''arena index'')
      else case arenaBase (HIO_GET_ID w) of None \<Rightarrow> Inl (Fault ''uninitialised base'') | Some b \<Rightarrow> Inr (b + HIO_GET_OFFSET w))"

definition adjust_word :: "word_t list \<Rightarrow> (nat \<Rightarrow> addr_t option) \<Rightarrow> addr_t \<Rightarrow> rt \<Rightarrow> rt res" where
  "adjust_word externs arenaBase p r =
     (let w = rt_mem r p in
      if isUNBOXED w then Inr r
      else rbind (if isEXTERNTAG w then extern_at externs w
                  else if \<not> isDESC w then reloc_ptr arenaBase w else Inr w) (\<lambda>v.
        Inr (upd_mem (\<lambda>m. m(p := v)) r)))"

definition adjust_arena :: "word_t list \<Rightarrow> (nat \<Rightarrow> addr_t option) \<Rightarrow> (nat \<Rightarrow> heap_arena_hdr option) \<Rightarrow> nat \<Rightarrow> rt \<Rightarrow> rt res" where
  "adjust_arena externs arenaBase hdrs i r =
     (case hdrs i of
        None \<Rightarrow> Inr r
      | Some h \<Rightarrow>
          let p = a_nextw (get_arena 0 i r); stop = p + io_sizeB (ah_info h) in
          if i \<noteq> STRING_INDX then
            rbind (rfold (adjust_word externs arenaBase) (words_between p stop) r) (\<lambda>r.
            Inr (upd_arena 0 i (\<lambda>a. a\<lparr>a_nextw := stop, a_sweep_nextw := stop\<rparr>) r))
          else Inr (upd_arena 0 i (\<lambda>a. a\<lparr>a_nextw := stop\<rparr>) r))"

text \<open>Reading the contents of an arena; the result of the read is not tested.\<close>

definition load_arena :: "(nat \<Rightarrow> heap_arena_hdr option) \<Rightarrow> nat \<Rightarrow> (nat \<Rightarrow> addr_t option) \<times> inbuf \<times> rt \<Rightarrow> ((nat \<Rightarrow> addr_t option) \<times> inbuf \<times> rt) res" where
  "load_arena hdrs i = (\<lambda>(arenaBase, bp, r).
     case hdrs i of
       None \<Rightarrow> Inr (arenaBase, bp, r)
     | Some h \<Rightarrow>
         let p = a_nextw (get_arena 0 i r) in
         rbind (HeapIO_ReadBlock (rt_mem r) (unat (io_sizeB (ah_info h))) bp) (\<lambda>((_, bs), bp).
         Inr (arenaBase(i := Some p), bp, upd_mem (put_bytes p bs) r)))"

text \<open>The arena headers by kind; the kind is an index of an array of \<open>NUM_OBJ_KINDS\<close> entries.\<close>

definition index_hdrs :: "heap_arena_hdr list \<Rightarrow> (nat \<Rightarrow> heap_arena_hdr option) res" where
  "index_hdrs hs =
     rfold (\<lambda>h hdrs. if NUM_ARENAS + 1 \<le> unat (ah_objKind h) then Inl (Fault ''arena kind'')
       else Inr (hdrs(unat (ah_objKind h) := Some h))) hs (\<lambda>_. None)"

definition needs_space :: "(nat \<Rightarrow> heap_arena_hdr option) \<Rightarrow> nat \<Rightarrow> bool \<times> rt \<Rightarrow> bool \<times> rt" where
  "needs_space hdrs i = (\<lambda>(needsGC, r).
     case hdrs i of
       None \<Rightarrow> (needsGC, r)
     | Some h \<Rightarrow>
         let ap = get_arena 0 i r; szB = io_sizeB (ah_info h) in
         if \<not> isACTIVE ap \<or> AVAIL_SPACE ap < szB + h_allocSzB (rt_heap r)
         then (True, upd_arena 0 i (\<lambda>a. a\<lparr>a_reqSizeB := szB\<rparr>) r) else (needsGC, r))"

text \<open>A collection may move the buffer, which is then a root.\<close>

definition make_space :: "env \<Rightarrow> globals \<Rightarrow> (nat \<Rightarrow> heap_arena_hdr option) \<Rightarrow> inbuf \<Rightarrow> inbuf vmop" where
  "make_space E G hdrs bp =
     vbind (\<lambda>s. let (needsGC, r) = fold (needs_space hdrs) [0..<NUM_ARENAS] (False, vm_rt s) in Inr (needsGC, s\<lparr>vm_rt := r\<rparr>)) (\<lambda>needsGC.
     if \<not> needsGC then vret bp
     else if 0 < ib_nbytes bp then
       vthen (st (G_root G) (ib_base bp))
      (vthen (InvokeGCWithRoots E G 1 [G_root G])
      (vbind (ld (G_root G)) (\<lambda>newBase.
       vret (if newBase \<noteq> ib_base bp then bp\<lparr>ib_buf := newBase + (ib_buf bp - ib_base bp), ib_base := newBase\<rparr> else bp))))
     else vthen (InvokeGC E G 1) (vret bp))"

definition read_blast :: "registry \<Rightarrow> inbuf \<Rightarrow> (word_t list \<times> inbuf) vmop" where
  "read_blast r bp s = rbind (HeapIO_ReadExterns r (rt_mem (vm_rt s)) bp) (\<lambda>x. Inr (x, s))"

definition read_bytes :: "nat \<Rightarrow> inbuf \<Rightarrow> (byte_t list option \<times> inbuf) vmop" where
  "read_bytes len bp s =
     rbind (HeapIO_ReadBlock (rt_mem (vm_rt s)) len bp) (\<lambda>((ok, bs), bp). Inr ((if ok then Some bs else None, bp), s))"

definition load_objects :: "word_t list \<Rightarrow> (nat \<Rightarrow> heap_arena_hdr option) \<Rightarrow> word_t \<Rightarrow> inbuf \<Rightarrow> rt \<Rightarrow> (word_t \<times> rt) res" where
  "load_objects externs hdrs root bp r =
     rbind (rfold (load_arena hdrs) [0..<NUM_ARENAS] (\<lambda>_. None, bp, r)) (\<lambda>(arenaBase, _, r).
     rbind (rfold (adjust_arena externs arenaBase hdrs) [0..<NUM_ARENAS] r) (\<lambda>r.
     rbind (if isEXTERNTAG root then extern_at externs root else reloc_ptr arenaBase root) (\<lambda>v. Inr (v, r))))"

text \<open>The result is \<open>None\<close> for \<open>FAILURE\<close>.\<close>

definition ReadImage :: "env \<Rightarrow> globals \<Rightarrow> registry \<Rightarrow> inbuf \<Rightarrow> word_t option vmop" where
  "ReadImage E G r bp =
     vbind (read_bytes 24 bp) (\<lambda>(bs, bp).
     case bs of
       None \<Rightarrow> vret None
     | Some bs \<Rightarrow>
         let hdr = blast_hdr_of bs in
         if of_nat NUM_ARENAS < lh_numArenas hdr \<or> 1 < lh_numBOKinds hdr then vret None
         else vbind (read_blast r bp) (\<lambda>(externs, bp).
           vbind (read_bytes ((unat (lh_numArenas hdr) + unat (lh_numBOKinds hdr)) * 40) bp) (\<lambda>(bs, bp).
           case bs of
             None \<Rightarrow> vret None
           | Some bs \<Rightarrow>
               vbind (\<lambda>s. rbind (index_hdrs (map (\<lambda>i. arena_hdr_of False (elem 40 i bs)) [0..<unat (lh_numArenas hdr)])) (\<lambda>h. Inr (h, s))) (\<lambda>hdrs.
               vbind (make_space E G hdrs bp) (\<lambda>bp.
               vbind (lift_rt (load_objects externs hdrs (lh_rootObj hdr) bp)) (\<lambda>v. vret (Some v)))))))"

text \<open>\<open>None\<close> when the error flag is set.\<close>

definition BlastIn :: "env \<Rightarrow> globals \<Rightarrow> registry \<Rightarrow> addr_t \<Rightarrow> addr_t \<Rightarrow> word_t option vmop" where
  "BlastIn E G r buf len =
     (let bp = \<lparr>ib_needsSwap = False, ib_file = None, ib_base = buf, ib_buf = buf, ib_nbytes = len\<rparr> in
      vbind (read_bytes 36 bp) (\<lambda>(bs, bp).
      case bs of
        None \<Rightarrow> vret None
      | Some bs \<Rightarrow>
          let h = image_hdr_of bs; swap = ih_byteOrder h \<noteq> ORDER;
              magic = (if swap then SwapBytes32 (ih_magic h) else ih_magic h);
              kind = (if swap then SwapBytes32 (ih_kind h) else ih_kind h);
              bp = bp\<lparr>ib_needsSwap := swap\<rparr>
          in if swap \<and> SwapBytes32 (ih_byteOrder h) \<noteq> ORDER then vret None
             else if magic \<noteq> BLAST_MAGIC then vret None
             else if kind = BLAST_IMAGE then ReadImage E G r bp
             else if kind = BLAST_UNBOXED then
               vbind (read_bytes 24 bp) (\<lambda>(bs, bp).
               vret (case bs of None \<Rightarrow> None | Some bs \<Rightarrow> Some (lh_rootObj (blast_hdr_of bs))))
             else vret None))"

end
