(* ===== verification/Blast_Round.thy ===== *)
theory Blast_Round
  imports Blast_IO IO_Correct Handler
begin

lemma blast_hdr_of_bytes: "blast_hdr_of (blast_hdr_bytes h @ rest) = h"
proof -
  have "get_u32 0 (blast_hdr_bytes h @ rest) = lh_numArenas h"
    unfolding blast_hdr_bytes_def append_assoc using get_u32_bytes [of "[]" 0] by simp
  moreover have "get_u32 4 (blast_hdr_bytes h @ rest) = lh_numBOKinds h"
    unfolding blast_hdr_bytes_def append_assoc by (rule get_u32_bytes) (simp add: u32_bytes_def)
  moreover have "get_u32 8 (blast_hdr_bytes h @ rest) = lh_numBORegions h"
    unfolding blast_hdr_bytes_def using get_u32_bytes [of "u32_bytes (lh_numArenas h) @ u32_bytes (lh_numBOKinds h)" 8] by (simp add: u32_bytes_def)
  moreover have "get_u32 12 (blast_hdr_bytes h @ rest) = lh_hasCode h"
    unfolding blast_hdr_bytes_def using get_u32_bytes [of "u32_bytes (lh_numArenas h) @ u32_bytes (lh_numBOKinds h) @ u32_bytes (lh_numBORegions h)" 12]
    by (simp add: u32_bytes_def)
  moreover have "get_word 16 (blast_hdr_bytes h @ rest) = lh_rootObj h"
    unfolding blast_hdr_bytes_def
    using get_word_bytes [of "u32_bytes (lh_numArenas h) @ u32_bytes (lh_numBOKinds h) @ u32_bytes (lh_numBORegions h) @ u32_bytes (lh_hasCode h)" 16]
    by (simp add: u32_bytes_def)
  ultimately show ?thesis by (simp add: blast_hdr_of_def)
qed

lemma length_blast_hdr: "length (blast_hdr_bytes h) = 24"
  by (simp add: blast_hdr_bytes_def u32_bytes_def word_bytes_def)

lemma mem_room_open: "unat d + n < 2 ^ 64 \<Longrightarrow> mem_room n (WR_OpenMem d (of_nat n) m) \<and> mem_output (WR_OpenMem d (of_nat n) m) = []"
proof -
  assume l: "unat d + n < 2 ^ 64"
  have "unat (of_nat n :: addr_t) = n" using l by (simp add: unat_of_nat)
  then have "unat (d + of_nat n) = unat d + n" using l by (simp add: unat_word_ariths(1))
  then show ?thesis by (simp add: mem_room_def mem_output_def WR_OpenMem_def bytes_at_def)
qed

lemma mem_Write_sel: "mw_base (mem_Write bs wr) = mw_base wr"
  by (simp add: mem_Write_def)

text \<open>The bytes that a writer opened on \<open>d\<close> has written are in memory from \<open>d\<close> on.\<close>

lemma mem_output_bytes: "mem_output wr = bs \<Longrightarrow> bytes_at (mw_base wr) (length bs) (mw_mem wr) = bs"
proof -
  assume "mem_output wr = bs"
  moreover then have "length bs = unat (mw_next wr) - unat (mw_base wr)" by (auto simp: mem_output_def)
  ultimately show ?thesis by (simp add: mem_output_def)
qed

lemma mem_Write_out: "(\<And>i. i < length bs \<Longrightarrow> w \<noteq> wbase (mw_next wr + of_nat i)) \<Longrightarrow> mw_mem (mem_Write bs wr) w = mw_mem wr w"
  by (simp add: mem_Write_def put_bytes_out)

text \<open>The two headers of the image of an unboxed value.\<close>

definition unboxed_image :: "word_t \<Rightarrow> byte_t list" where
  "unboxed_image obj = image_hdr_bytes (image_hdr BLAST_UNBOXED)
     @ blast_hdr_bytes \<lparr>lh_numArenas = 0, lh_numBOKinds = 0, lh_numBORegions = 0, lh_hasCode = 0, lh_rootObj = obj\<rparr>"

lemma length_unboxed_image: "length (unboxed_image obj) = 60"
  by (simp add: unboxed_image_def image_hdr_ok length_blast_hdr)

lemma write_unboxed:
  assumes d: "unat d + 64 < 2 ^ 64" "unat d mod 8 = 0"
  shows "\<exists>wr1 wr. HeapIO_WriteImageHeader mem_writer BLAST_UNBOXED (WR_OpenMem d 60 m) = (True, wr1)
    \<and> wr = wr_write mem_writer (blast_hdr_bytes \<lparr>lh_numArenas = 0, lh_numBOKinds = 0, lh_numBORegions = 0, lh_hasCode = 0, lh_rootObj = obj\<rparr>) wr1
    \<and> \<not> errFlg mem_writer wr \<and> bytes_at d 60 (mw_mem wr) = unboxed_image obj \<and> (\<forall>a. a \<notin> at_ix d ` {..<8} \<longrightarrow> mw_mem wr a = m a)"
proof -
  let ?h = "blast_hdr_bytes \<lparr>lh_numArenas = 0, lh_numBOKinds = 0, lh_numBORegions = 0, lh_hasCode = 0, lh_rootObj = obj\<rparr>"
  let ?i = "image_hdr_bytes (image_hdr BLAST_UNBOXED)" and ?w0 = "WR_OpenMem d 60 m"
  have o: "mem_room 60 ?w0" "mem_output ?w0 = []" using mem_room_open [of d 60 m] d(1) by simp_all
  from mw.WriteImageHeader_out [OF o(1), of BLAST_UNBOXED] obtain w1 where
    w1: "HeapIO_WriteImageHeader mem_writer BLAST_UNBOXED ?w0 = (True, w1)" "mem_output w1 = ?i" "mem_room 24 w1"
    by (auto simp: image_hdr_ok o(2))
  have e1: "w1 = mem_Write ?i ?w0" using w1(1) by (simp add: HeapIO_WriteImageHeader_def mem_writer_def Let_def)
  let ?w = "mem_Write ?h w1"
  have out: "mem_output ?w = unboxed_image obj" "mem_room 0 ?w"
    using mem_write_end [OF w1(3), of ?h] w1(2) by (simp_all add: length_blast_hdr unboxed_image_def)
  have b: "mw_base ?w = d" by (simp add: e1 mem_Write_sel WR_OpenMem_def)
  have "bytes_at d 60 (mw_mem ?w) = unboxed_image obj" using mem_output_bytes [OF out(1)] by (simp add: b length_unboxed_image)
  moreover have "mw_mem ?w a = m a" if a: "a \<notin> at_ix d ` {..<8}" for a
  proof -
    have out_blk: "a \<noteq> wbase (d + of_nat i)" if "i < 60" for i
    proof -
      have "i div 8 < 8" using that by simp
      then show ?thesis using a aligned_byte(1) [OF d(2), of i] that d(1) by force
    qed
    have n1: "mw_next w1 = d + 36" by (simp add: e1 mem_Write_def WR_OpenMem_def image_hdr_ok)
    have "mw_mem w1 a = m a" unfolding e1 by (subst mem_Write_out) (auto simp: WR_OpenMem_def image_hdr_ok out_blk)
    moreover have "mw_mem ?w a = mw_mem w1 a"
    proof (rule mem_Write_out)
      fix i assume "i < length ?h"
      then have "a \<noteq> wbase (d + of_nat (36 + i))" by (intro out_blk) (simp add: length_blast_hdr)
      then show "a \<noteq> wbase (mw_next w1 + of_nat i)" by (simp add: n1 add.assoc)
    qed
    ultimately show ?thesis by simp
  qed
  moreover have "\<not> errFlg mem_writer ?w" using mw.room_ok [OF out(2)] .
  ultimately show ?thesis using w1(1) by (intro exI [of _ w1] exI [of _ ?w]) (simp add: mem_writer_def)
qed

lemma BlastUnboxed_ok:
  assumes p: "unat (ml_allocPtr r) + 96 < 2 ^ 64" "unat (ml_allocPtr r) mod 8 = 0" and sz: "60 < h_allocSzB (rt_heap r) - 8192"
  shows "\<exists>v r'. BlastUnboxed obj r = Inr (v, r') \<and> v = ml_allocPtr r + 80 \<and> ml_allocPtr r' = ml_allocPtr r + 96
    \<and> rt_mem r' (v - 8) = DESC_string \<and> rt_mem r' (v + 8) = INT_CtoML 60
    \<and> bytes_at (rt_mem r' v) 60 (rt_mem r') = unboxed_image obj
    \<and> (\<forall>a. a \<notin> at_ix (ml_allocPtr r) ` {..<12} \<longrightarrow> rt_mem r' a = rt_mem r a)"
proof -
  let ?p = "ml_allocPtr r" and ?d = "ml_allocPtr r + 8"
  let ?r1 = "r\<lparr>rt_mem := (rt_mem r)(?p := MAKE_DESC 8 DTAG_raw), ml_allocPtr := ?p + 72\<rparr>"
  have "BYTES_TO_WORDS 60 = 8" by (simp add: BYTES_TO_WORDS_def)
  then have a: "AllocBlastData 60 r = Inr (?d, ?r1)"
    using sz by (simp add: AllocBlastData_def not_le [symmetric] ML_Alloc_def ML_AllocWrite_def upd_mem_def at_ix_def)
  have u: "unat ?d = unat ?p + 8" using p(1) by (simp add: unat_word_ariths(1))
  have d: "unat ?d + 64 < 2 ^ 64" "unat ?d mod 8 = 0" using p u by (simp, simp add: mod_add_eq [symmetric])
  from write_unboxed [OF d, of "rt_mem ?r1" obj] obtain w1 w where
    w: "HeapIO_WriteImageHeader mem_writer BLAST_UNBOXED (WR_OpenMem ?d 60 (rt_mem ?r1)) = (True, w1)"
      "w = wr_write mem_writer (blast_hdr_bytes \<lparr>lh_numArenas = 0, lh_numBOKinds = 0, lh_numBORegions = 0, lh_hasCode = 0, lh_rootObj = obj\<rparr>) w1"
      "\<not> errFlg mem_writer w" "bytes_at ?d 60 (mw_mem w) = unboxed_image obj"
      "\<forall>a. a \<notin> at_ix ?d ` {..<8} \<longrightarrow> mw_mem w a = rt_mem ?r1 a" by blast
  let ?q = "?p + 72"
  let ?m = "put_words ?q [DESC_string, ?d, INT_CtoML 60] (mw_mem w)"
  let ?r' = "?r1\<lparr>rt_mem := ?m, ml_allocPtr := ?p + 96\<rparr>"
  have e: "BlastUnboxed obj r = Inr (?p + 80, ?r')"
    unfolding BlastUnboxed_def a rbind.simps prod.case w(1) Let_def w(2) [symmetric] if_not_P [OF w(3)]
    by (simp add: ML_AllocSeqHdr_def alloc_obj_def ML_Alloc_def upd_mem_def at_ix_def)
  have ne: "?p + of_nat i \<noteq> ?p + of_nat j" if "i < 96" "j < 96" "i \<noteq> j" for i j :: nat
    using that word_of_nat_inj_64 [of i j] by auto
  have q: "?m ?q = DESC_string" "?m (?p + 80) = ?d" "?m (?p + 88) = INT_CtoML 60" by (simp_all add: add.assoc)
  have qo: "?m a = mw_mem w a" if "a \<noteq> ?q" "a \<noteq> ?p + 80" "a \<noteq> ?p + 88" for a using that by (simp add: add.assoc)
  have "bytes_at ?d 60 ?m = bytes_at ?d 60 (mw_mem w)"
  proof (rule bytes_at_cong, rule qo)
    fix i :: nat assume i: "i < 60"
    have b: "wbase (?d + of_nat i) = ?p + of_nat (8 * (i div 8) + 8)"
      using aligned_byte(1) [OF d(2), of i] i d(1) by (simp add: at_ix_def algebra_simps)
    have "8 * (i div 8) + 8 < 72" using i by linarith
    then show "wbase (?d + of_nat i) \<noteq> ?q" "wbase (?d + of_nat i) \<noteq> ?p + 80" "wbase (?d + of_nat i) \<noteq> ?p + 88"
      unfolding b using ne [of "8 * (i div 8) + 8" 72] ne [of "8 * (i div 8) + 8" 80] ne [of "8 * (i div 8) + 8" 88] by simp_all
  qed
  moreover have "?m a = rt_mem r a" if o: "a \<notin> at_ix ?p ` {..<12}" for a
  proof -
    have k: "a \<noteq> at_ix ?p k" if "k < 12" for k using o that by blast
    have "a \<noteq> at_ix ?d j" if "j < 8" for j using k [of "Suc j"] that by (simp add: at_ix_Suc)
    then have "a \<notin> at_ix ?d ` {..<8}" by blast
    then have "mw_mem w a = rt_mem r a" using w(5) k [of 0] by simp
    then show ?thesis using k [of 9] k [of 10] k [of 11] qo [of a] by (simp add: at_ix_def)
  qed
  moreover have "?m (72 + ?p) = DESC_string" using q(1) by (simp only: add.commute)
  ultimately show ?thesis using w(4) q by (intro exI [of _ "?p + 80"] exI [of _ ?r']) (simp add: e add.assoc del: put_words.simps)
qed

lemma BlastIn_unboxed:
  assumes b: "bytes_at buf 60 (rt_mem (vm_rt s)) = unboxed_image obj"
  shows "BlastIn E G r buf 60 s = Inr (Some obj, s)"
proof -
  let ?m = "rt_mem (vm_rt s)"
  let ?bp = "\<lparr>ib_needsSwap = False, ib_file = None, ib_base = buf, ib_buf = buf, ib_nbytes = 60 :: addr_t\<rparr>"
  have rem: "remaining ?m ?bp = unboxed_image obj" using b by (simp add: remaining_def)
  let ?h = "\<lparr>lh_numArenas = 0, lh_numBOKinds = 0, lh_numBORegions = 0, lh_hasCode = 0, lh_rootObj = obj\<rparr>"
  have t: "take 36 (unboxed_image obj) = image_hdr_bytes (image_hdr BLAST_UNBOXED)" "drop 36 (unboxed_image obj) = blast_hdr_bytes ?h"
    by (simp_all add: unboxed_image_def image_hdr_ok)
  have "36 \<le> length (remaining ?m ?bp)" "\<not> ib_needsSwap ?bp" by (simp_all add: rem length_unboxed_image)
  from HeapIO_ReadBlock_ok [OF this] obtain b1 where b1: "HeapIO_ReadBlock ?m 36 ?bp = Inr ((True, image_hdr_bytes (image_hdr BLAST_UNBOXED)), b1)"
    "remaining ?m b1 = blast_hdr_bytes ?h" "\<not> ib_needsSwap b1" unfolding rem t by blast
  have "24 \<le> length (remaining ?m b1)" by (simp add: b1(2) length_blast_hdr)
  from HeapIO_ReadBlock_ok [OF this b1(3)] obtain b2 where b2: "HeapIO_ReadBlock ?m 24 b1 = Inr ((True, blast_hdr_bytes ?h), b2)"
    unfolding b1(2) by (auto simp: length_blast_hdr)
  have e: "b1\<lparr>ib_needsSwap := False\<rparr> = b1" using b1(3) by (cases b1) simp
  have h: "lh_rootObj (blast_hdr_of (blast_hdr_bytes \<lparr>lh_numArenas = 0, lh_numBOKinds = 0, lh_numBORegions = 0, lh_hasCode = 0, lh_rootObj = obj\<rparr>)) = obj"
    using blast_hdr_of_bytes [of _ "[]"] by simp
  have k: "ih_byteOrder (image_hdr BLAST_UNBOXED) = ORDER" "ih_magic (image_hdr BLAST_UNBOXED) = BLAST_MAGIC" "ih_kind (image_hdr BLAST_UNBOXED) = BLAST_UNBOXED"
    by (simp_all add: image_hdr_def)
  have r1: "read_bytes 36 ?bp s = Inr ((Some (image_hdr_bytes (image_hdr BLAST_UNBOXED)), b1), s)"
    unfolding read_bytes_def b1(1) by simp
  have r2: "read_bytes 24 b1 s = Inr ((Some (blast_hdr_bytes ?h), b2), s)" unfolding read_bytes_def b2 by simp
  show ?thesis
    unfolding BlastIn_def Let_def vbind_def r1 rbind.simps prod.case option.case image_hdr_ok(2) k by (simp add: e r2 h vret_def)
qed

text \<open>C37. Blasting an unboxed value. Let a collection leave the value as the root and let it not be
  a pointer to an object of the heap. If the allocation space has room, the result of \<open>BlastOut\<close>
  is a new string of 60 bytes at the allocation pointer, nothing else is changed, and building a
  value from the bytes of the string gives the value back and changes nothing at all.\<close>

theorem blast_unboxed_roundtrip:
  assumes gc: "vthen (st (G_root G) obj) (InvokeGCWithRoots E G 0 [G_root G]) s = Inr ((), s1)"
    and r: "rt = vm_rt s1" "w = rt_mem rt (G_root G)" and un: "GetObjGen w rt = Inr (- 1)"
    and p: "unat (ml_allocPtr rt) + 96 < 2 ^ 64" "unat (ml_allocPtr rt) mod 8 = 0" and sz: "60 < h_allocSzB (rt_heap rt) - 8192"
  shows "\<exists>v s2. BlastOut E G reg saved obj s = Inr (v, s2) \<and> v = ml_allocPtr rt + 80 \<and> ml_allocPtr (vm_rt s2) = ml_allocPtr rt + 96
    \<and> rt_mem (vm_rt s2) (v - 8) = DESC_string \<and> rt_mem (vm_rt s2) (v + 8) = INT_CtoML 60
    \<and> (\<forall>a. a \<notin> at_ix (ml_allocPtr rt) ` {..<12} \<longrightarrow> rt_mem (vm_rt s2) a = rt_mem rt a)
    \<and> BlastIn E G reg (rt_mem (vm_rt s2) v) 60 s2 = Inr (Some w, s2)"
proof -
  from BlastUnboxed_ok [OF p sz] obtain v r' where
    b: "BlastUnboxed w rt = Inr (v, r')" "v = ml_allocPtr rt + 80" "ml_allocPtr r' = ml_allocPtr rt + 96"
      "rt_mem r' (v - 8) = DESC_string" "rt_mem r' (v + 8) = INT_CtoML 60" "bytes_at (rt_mem r' v) 60 (rt_mem r') = unboxed_image w"
      "\<forall>a. a \<notin> at_ix (ml_allocPtr rt) ` {..<12} \<longrightarrow> rt_mem r' a = rt_mem rt a" by blast
  let ?s2 = "s1\<lparr>vm_rt := r'\<rparr>"
  from gc obtain s0 where g: "st (G_root G) obj s = Inr ((), s0)" "InvokeGCWithRoots E G 0 [G_root G] s0 = Inr ((), s1)"
    by (auto simp: vthen_def)
  have o: "BlastOut E G reg saved obj s = Inr (v, ?s2)"
    unfolding BlastOut_def vthen_def g rbind.simps prod.case
    by (simp add: vbind_def ld_def read_rt_def un [unfolded r(2)] r(1) [symmetric] lift_rt_def b(1) [unfolded r(2)])
  have "BlastIn E G reg (rt_mem (vm_rt ?s2) v) 60 ?s2 = Inr (Some w, ?s2)" by (rule BlastIn_unboxed) (simp add: b(6))
  with o b(2-5,7) show ?thesis by (intro exI [of _ v] exI [of _ ?s2]) simp
qed

text \<open>A collection of a heap with nothing to do: the roots are not pointers, nothing is on the lists,
  and no arena is active.\<close>

definition quiet :: "addr_t list \<Rightarrow> rt \<Rightarrow> bool" where
  "quiet roots r \<longleftrightarrow> (\<forall>p \<in> set roots. \<not> isBOXED (rt_mem r p)) \<and> ml_storePtr r = ML_unit \<and> h_weakList (rt_heap r) = 0
     \<and> (\<forall>i < 5. \<not> NEEDS_SWEEPING (get_arena 0 i r) \<and> \<not> isACTIVE (get_arena 0 i r))"

lemma unboxed_roots: "\<forall>p \<in> set ps. \<not> isBOXED (rt_mem r p) \<Longrightarrow> rfold MinorGC_CheckWord ps r = Inr r"
  by (induction ps) (simp_all add: MinorGC_CheckWord_def in_alloc_def)

lemma get_arena_heap: "h_gen h = h_gen (rt_heap r) \<Longrightarrow> get_arena g i (r\<lparr>rt_heap := h\<rparr>) = get_arena g i r"
  by (simp add: get_arena_def get_gen_def)

lemma quiet_sweep:
  assumes "quiet roots r" "0 < fuel"
  shows "MinorGC_SweepToSpace fuel r = Inr r"
proof -
  obtain n where n: "fuel = Suc n" using assms(2) gr0_implies_Suc by blast
  have "sweep_round fuel r = Inr (False, r)"
    using assms(1) by (simp add: quiet_def sweep_round_def MinorGC_SweepToSpArena_def MinorGC_SweepMixed_def)
  then show ?thesis by (simp add: MinorGC_SweepToSpace_def n)
qed

text \<open>What a collection leaves as it is.\<close>

definition same_but_stats :: "rt \<Rightarrow> rt \<Rightarrow> bool" where
  "same_but_stats r t \<longleftrightarrow> rt_mem t = rt_mem r \<and> rt_bibop t = rt_bibop r \<and> ml_storePtr t = ml_storePtr r
     \<and> h_gen (rt_heap t) = h_gen (rt_heap r) \<and> h_allocBase (rt_heap t) = h_allocBase (rt_heap r)
     \<and> h_allocSzB (rt_heap t) = h_allocSzB (rt_heap r) \<and> h_weakList (rt_heap t) = h_weakList (rt_heap r)"

lemma same_but_stats_upd: "same_but_stats r t \<Longrightarrow> (\<And>h. h_gen (f h) = h_gen h \<and> h_allocBase (f h) = h_allocBase h
    \<and> h_allocSzB (f h) = h_allocSzB h \<and> h_weakList (f h) = h_weakList h) \<Longrightarrow> same_but_stats r (upd_heap f t)"
  by (simp add: same_but_stats_def upd_heap_def)

lemma quiet_same: "quiet roots r \<Longrightarrow> same_but_stats r t \<Longrightarrow> quiet roots t"
  by (simp add: quiet_def same_but_stats_def get_arena_def get_gen_def)

lemma quiet_MinorGC:
  assumes q: "quiet roots r" and f: "0 < fuel"
  shows "\<exists>t. MinorGC fuel roots r = Inr t \<and> same_but_stats r t"
proof -
  let ?r1 = "upd_heap (\<lambda>h. h\<lparr>h_numAlloc := h_numAlloc h + (ml_allocPtr r - h_allocBase (rt_heap r))\<rparr>) r"
  let ?r2 = "upd_heap (\<lambda>h. h\<lparr>h_numMinorGCs := h_numMinorGCs h + 1\<rparr>) ?r1"
  have s1: "same_but_stats r ?r1" by (rule same_but_stats_upd) (simp_all add: same_but_stats_def)
  then have s2: "same_but_stats r ?r2" by (rule same_but_stats_upd) simp
  note q1 = quiet_same [OF q s1] and q2 = quiet_same [OF q s2]
  have "rfold MinorGC_CheckWord roots ?r1 = Inr ?r1" using q1 by (intro unboxed_roots) (simp add: quiet_def)
  moreover have "\<not> ml_storePtr ?r1 \<noteq> ML_unit" "\<not> h_weakList (rt_heap ?r2) \<noteq> 0" using q1 q2 by (simp_all add: quiet_def)
  ultimately have e: "MinorGC fuel roots r = Inr (fold (count_copied (\<lambda>i. a_nextw (get_arena 0 i r))) [0..<NUM_ARENAS] ?r2)"
    by (simp only: MinorGC_def Let_def rbind.simps if_False quiet_sweep [OF q1 f])
  have "same_but_stats r (fold (count_copied c) is ?r2)" for c "is"
  proof -
    have "same_but_stats r t \<Longrightarrow> same_but_stats r (fold (count_copied c) is t)" for t
      by (induction "is" arbitrary: t) (simp_all add: count_copied_def same_but_stats_upd)
    then show ?thesis using s2 .
  qed
  then show ?thesis using e by blast
qed

lemma quiet_collection:
  assumes q: "quiet roots (vm_rt s)" and f: "0 < env_fuel E" and n: "length roots < 34" and p: "G_ProfCurrent G \<notin> set roots"
    and v: "vp_gcSigState (vm_vproc s) \<noteq> 2"
  shows "\<exists>s1. invoke E G 0 roots mroots s = Inr ((), s1) \<and> rt_mem (vm_rt s1) = (rt_mem (vm_rt s))(G_ProfCurrent G := PROF_RUNTIME)
    \<and> ml_allocPtr (vm_rt s1) = h_allocBase (rt_heap (vm_rt s)) \<and> h_allocSzB (rt_heap (vm_rt s1)) = h_allocSzB (rt_heap (vm_rt s))
    \<and> rt_bibop (vm_rt s1) = rt_bibop (vm_rt s)"
proof -
  let ?r = "upd_mem (\<lambda>m. m(G_ProfCurrent G := PROF_MINOR_GC)) (vm_rt s)"
  have "quiet roots ?r" using q p by (auto simp: quiet_def)
  from quiet_MinorGC [OF this f] obtain t where t: "MinorGC (env_fuel E) roots ?r = Inr t" "same_but_stats ?r t" by blast
  have "quiet roots t" using quiet_same [OF \<open>quiet roots ?r\<close> t(2)] .
  then have "gc_level 0 t = 0" by (auto simp: gc_level_def list_ex_iff quiet_def Let_def)
  moreover have "GCSignal (env_sig E) 0 (vm_vproc s) = vm_vproc s" using v by (simp add: GCSignal_def)
  ultimately have "invoke E G 0 roots mroots s = Inr ((), s\<lparr>vm_rt := upd_mem (\<lambda>m. m(G_ProfCurrent G := PROF_RUNTIME)) (reset_alloc t)\<rparr>)"
    using n t(1) by (simp add: invoke_def vm_defs)
  then show ?thesis using t(2) by (auto simp: same_but_stats_def reset_alloc_def upd_mem_def)
qed

definition ex_quiet :: vm where
  "ex_quiet = ex_vm\<lparr>vm_rt := ex_rt\<lparr>rt_mem := (\<lambda>_. 1), ml_allocPtr := 0x40000, ml_storePtr := ML_unit,
     rt_heap := ex_heap\<lparr>h_allocSzB := 0x40000, h_gen := replicate MAX_NUM_GENS (ex_gen\<lparr>g_arena := replicate NUM_ARENAS ((ex_arena 0)
       \<lparr>a_tospSizeB := 0, a_nextw := 0, a_sweep_nextw := 0\<rparr>)\<rparr>)\<rparr>\<rparr>\<rparr>"

text \<open>The number 21, blasted and read again.\<close>

theorem blast_unboxed_roundtrip_witness:
  "\<exists>v s2. BlastOut ex_env ex_globals empty_registry (\<lambda>_ _. 0, \<lambda>_ _. 0) (INT_CtoML 21) ex_quiet = Inr (v, s2)
    \<and> BlastIn ex_env ex_globals empty_registry (rt_mem (vm_rt s2) v) 60 s2 = Inr (Some (INT_CtoML 21), s2)"
proof -
  let ?s = "ex_quiet\<lparr>vm_rt := upd_mem (\<lambda>m. m(G_root ex_globals := INT_CtoML 21)) (vm_rt ex_quiet)\<rparr>"
  have st: "st (G_root ex_globals) (INT_CtoML 21) ex_quiet = Inr ((), ?s)" by (simp add: vm_defs)
  have sel: "vm_vproc ex_quiet = ex_vproc" "vm_CRoots ex_quiet = []" "rt_mem (vm_rt ex_quiet) = (\<lambda>_. 1)"
    "h_allocBase (rt_heap (vm_rt ex_quiet)) = 0x40000" "h_allocSzB (rt_heap (vm_rt ex_quiet)) = 0x40000"
    by (simp_all add: ex_quiet_def ex_vm_def ex_heap_def)
  let ?roots = "[G_root ex_globals] @ vm_CRoots ex_quiet @ reg_roots (G_msp ex_globals)"
  have ub: "\<not> isBOXED 1" "\<not> isBOXED (INT_CtoML 21)" by (simp_all add: isBOXED_def INT_CtoML_def)
  have ar: "get_arena 0 i (vm_rt ?s) = (ex_arena 0)\<lparr>a_tospSizeB := 0, a_nextw := 0, a_sweep_nextw := 0\<rparr>" if "i < 5" for i
    using that by (simp add: ex_quiet_def get_arena_def get_gen_def)
  have h: "ml_storePtr (vm_rt ?s) = ML_unit" "h_weakList (rt_heap (vm_rt ?s)) = 0" by (simp_all add: ex_quiet_def ex_heap_def upd_mem_def)
  have "quiet ?roots (vm_rt ?s)" unfolding quiet_def using h ar ub
    by (auto simp: sel NEEDS_SWEEPING_def isACTIVE_def upd_mem_def)
  moreover have "0 < env_fuel ex_env" "length ?roots < 34" "G_ProfCurrent ex_globals \<notin> set ?roots" "vp_gcSigState (vm_vproc ?s) \<noteq> 2"
    by (simp_all add: ex_env_def sel reg_roots_def ex_globals_def ex_vproc_def Let_def)
  ultimately obtain s1 where s1: "InvokeGCWithRoots ex_env ex_globals 0 [G_root ex_globals] ?s = Inr ((), s1)"
    "rt_mem (vm_rt s1) = (rt_mem (vm_rt ?s))(G_ProfCurrent ex_globals := 1)" "ml_allocPtr (vm_rt s1) = 0x40000"
    "h_allocSzB (rt_heap (vm_rt s1)) = 0x40000"
    using quiet_collection [of ?roots ?s ex_env ex_globals] by (auto simp: InvokeGCWithRoots_def sel upd_mem_def)
  have w: "rt_mem (vm_rt s1) (G_root ex_globals) = INT_CtoML 21" using s1(2) by (simp add: ex_globals_def upd_mem_def)
  have gc: "vthen (st (G_root ex_globals) (INT_CtoML 21)) (InvokeGCWithRoots ex_env ex_globals 0 [G_root ex_globals]) ex_quiet = Inr ((), s1)"
    by (simp add: vthen_def st s1(1))
  have "GetObjGen (INT_CtoML 21) (vm_rt s1) = Inr (- 1)" using ub(2) by (simp add: GetObjGen_def)
  with blast_unboxed_roundtrip [OF gc refl w [symmetric], of empty_registry "(\<lambda>_ _. 0, \<lambda>_ _. 0)"] s1(3,4) show ?thesis by auto
qed

end
