(* ===== verification/Signal_Search.thy ===== *)
theory Signal_Search
  imports Signal_Machine
begin

text \<open>
  The search of \<open>ChooseSignal\<close> against a reference definition: the first signal with a
  difference in the cyclic order that starts after the signal handled last.
\<close>

definition cyclic :: "sigconf \<Rightarrow> nat \<Rightarrow> nat list" where
  "cyclic c a = [Suc a..<SIGMAP_SZ c] @ [MIN_SYSTEM_SIG c..<Suc a]"

definition first_pending :: "sigconf \<Rightarrow> nat \<Rightarrow> vproc \<Rightarrow> nat option" where
  "first_pending c a v = find (\<lambda>i. sig_delta (vp_sigCounts v i) \<noteq> 0) (cyclic c a)"

lemma set_cyclic: "a \<in> sigs c \<Longrightarrow> set (cyclic c a) = sigs c"
  by (auto simp: cyclic_def)

lemma cyclic_next:
  assumes "sigconf_ok c" "a \<in> sigs c"
  shows "\<exists>xs. cyclic c a = next_sig c a # xs \<and> cyclic c (next_sig c a) = xs @ [next_sig c a]"
proof (cases "Suc a = SIGMAP_SZ c")
  case True
  then have "[MIN_SYSTEM_SIG c..<Suc a] = MIN_SYSTEM_SIG c # [Suc (MIN_SYSTEM_SIG c)..<Suc a]"
    using assms by (intro upt_conv_Cons) (auto simp: sigconf_ok_def)
  then show ?thesis using True by (simp add: cyclic_def next_sig_def)
next
  case False
  then have "Suc a < SIGMAP_SZ c" using assms(2) by simp
  then show ?thesis using assms(2) False by (simp add: cyclic_def next_sig_def upt_conv_Cons)
qed

lemma find_none: "(find P xs = None) = (\<forall>x \<in> set xs. \<not> P x)"
  by (induction xs) auto

lemma search_spins:
  assumes ok: "sigconf_ok c" and none: "\<And>i. i \<in> sigs c \<Longrightarrow> sig_delta (vp_sigCounts v i) = 0"
  shows "a \<in> sigs c \<Longrightarrow> search_sig n c a v = Inl NoFuel"
proof (induction n arbitrary: a)
  case (Suc n)
  have "next_sig c a \<in> sigs c" by (rule next_sig_range [OF ok Suc.prems])
  then show ?case using Suc.IH none by (simp add: Let_def)
qed simp

lemma search_finds:
  assumes ok: "sigconf_ok c"
  shows "a \<in> sigs c \<Longrightarrow> cyclic c a = ps @ i # qs \<Longrightarrow> \<forall>j \<in> set ps. sig_delta (vp_sigCounts v j) = 0
    \<Longrightarrow> sig_delta (vp_sigCounts v i) \<noteq> 0 \<Longrightarrow> length ps < n \<Longrightarrow> search_sig n c a v = Inr (i, sig_delta (vp_sigCounts v i))"
proof (induction ps arbitrary: a n qs)
  case Nil
  from cyclic_next [OF ok Nil(1)] Nil(2) have "next_sig c a = i" by auto
  moreover have "i \<in> sigs c" using next_sig_range [OF ok Nil(1)] calculation by simp
  ultimately show ?case using Nil(4,5) by (cases n) (simp_all add: Let_def)
next
  case (Cons p ps)
  from cyclic_next [OF ok Cons.prems(1)] Cons.prems(2) have
    n: "next_sig c a = p" "cyclic c p = ps @ i # (qs @ [p])" by auto
  have p: "p \<in> sigs c" using next_sig_range [OF ok Cons.prems(1)] n(1) by simp
  from Cons.prems(5) obtain m where m: "n = Suc m" "length ps < m" by (cases n) auto
  have "search_sig m c p v = Inr (i, sig_delta (vp_sigCounts v i))"
    using Cons.IH [OF p n(2) _ Cons.prems(4) m(2)] Cons.prems(3) by simp
  then show ?case using n(1) p m(1) Cons.prems(3) by (simp add: Let_def)
qed

lemma find_split: "find P xs = Some i \<Longrightarrow> \<exists>ps qs. xs = ps @ i # qs \<and> P i \<and> (\<forall>p \<in> set ps. \<not> P p)"
proof (induction xs)
  case (Cons x xs)
  show ?case
  proof (cases "P x")
    case True
    then show ?thesis using Cons.prems by (intro exI [of _ "[]"] exI [of _ xs]) auto
  next
    case False
    then obtain ps qs where "xs = ps @ i # qs" "P i" "\<forall>p \<in> set ps. \<not> P p" using Cons by auto
    then show ?thesis using False by (intro exI [of _ "x # ps"] exI [of _ qs]) auto
  qed
qed simp

text \<open>C6. The search is equivalent to the reference: with as much fuel as there are signals, it gives the
  first signal with a difference in cyclic order, and the loop ends at all if and only if there
  is one. \<open>ChooseSignal\<close> takes exactly this signal and its difference, and it never ends when the
  counters of all signals agree, whatever the total says.\<close>

theorem search_sig_cyclic:
  assumes "sigconf_ok c" "vp_nextPendingSig v \<in> sigs c" "SIGMAP_SZ c - MIN_SYSTEM_SIG c \<le> fuel"
  shows "search_sig fuel c (vp_nextPendingSig v) v = (case first_pending c (vp_nextPendingSig v) v of
      None \<Rightarrow> Inl NoFuel | Some i \<Rightarrow> Inr (i, sig_delta (vp_sigCounts v i)))
    \<and> ((\<exists>n x. search_sig n c (vp_nextPendingSig v) v = Inr x) \<longleftrightarrow> first_pending c (vp_nextPendingSig v) v \<noteq> None)
    \<and> ((\<exists>v'. ChooseSignal fuel c v = Inr v' \<and> vp_sigCode v' = i \<and> vp_nextPendingSig v' = i \<and> vp_sigCount v' = sig_delta (vp_sigCounts v i))
        \<longleftrightarrow> first_pending c (vp_nextPendingSig v) v = Some i)"
proof -
  let ?a = "vp_nextPendingSig v"
  show ?thesis
  proof (cases "first_pending c ?a v")
    case None
    then have "sig_delta (vp_sigCounts v j) = 0" if "j \<in> sigs c" for j
      using that by (auto simp: first_pending_def find_none set_cyclic [OF assms(2)])
    from search_spins [OF assms(1) this assms(2)] have "search_sig n c ?a v = Inl NoFuel" for n .
    then show ?thesis using None by (simp add: ChooseSignal_def)
  next
    case (Some j)
    then obtain ps qs where s: "cyclic c ?a = ps @ j # qs" "sig_delta (vp_sigCounts v j) \<noteq> 0"
      "\<forall>p \<in> set ps. sig_delta (vp_sigCounts v p) = 0" unfolding first_pending_def by (blast dest: find_split)
    have "length (cyclic c ?a) = SIGMAP_SZ c - MIN_SYSTEM_SIG c" using assms(2) by (auto simp: cyclic_def)
    then have "length ps < fuel" using s(1) assms(3) by simp
    from search_finds [OF assms(1,2) s(1,3,2) this]
    have f: "search_sig fuel c ?a v = Inr (j, sig_delta (vp_sigCounts v j))" .
    then show ?thesis using Some by (auto simp: ChooseSignal_def)
  qed
qed

theorem search_sig_cyclic_witness:
  "search_sig 4 ex_conf 2 (ex_signals\<lparr>vp_nextPendingSig := 2\<rparr>) = Inr (1, 1)
    \<and> \<not> (\<exists>n x. search_sig n ex_conf 2 (ex_start\<lparr>vp_nextPendingSig := 2\<rparr>) = Inr x)"
proof -
  have ok: "sigconf_ok ex_conf" "2 \<in> sigs ex_conf" "SIGMAP_SZ ex_conf - MIN_SYSTEM_SIG ex_conf \<le> 4" "cyclic ex_conf 2 = [3, 1, 2]"
    by (auto simp: sigconf_ok_def ex_conf_def cyclic_def upt_conv_Cons)
  have f: "first_pending ex_conf 2 (ex_signals\<lparr>vp_nextPendingSig := 2\<rparr>) = Some 1"
    "first_pending ex_conf 2 (ex_start\<lparr>vp_nextPendingSig := 2\<rparr>) = None"
    "sig_delta (vp_sigCounts ex_signals 1) = 1"
    unfolding first_pending_def ok(4) by (simp_all add: ex_sig_defs sig_delta_def)
  show ?thesis
    using search_sig_cyclic [of ex_conf "ex_signals\<lparr>vp_nextPendingSig := 2\<rparr>" 4] search_sig_cyclic [of ex_conf "ex_start\<lparr>vp_nextPendingSig := 2\<rparr>" 4]
      ok(1-3) f by simp
qed

end
