(* ===== verification/RT_Lib.thy ===== *)
theory RT_Lib
  imports Blast_IO Import_Heap Literals
begin

text \<open>
  The C functions that ML calls, of the libraries \<open>c-libs/smlnj-runtime\<close>, \<open>smlnj-signals\<close>,
  \<open>smlnj-time\<close>, \<open>smlnj-prof\<close> and \<open>posix-error\<close>, and \<open>RaiseSysError\<close> (\<open>c-libs/unix-raise-syserr.c\<close>), by
  which they report an error. A function takes its argument and gives its result; what the
  operating system answers is an argument. The text \<open>at\<close> names the source file of a report.
\<close>

section \<open>Errors\<close>

abbreviation (input) OPTION_NONE :: word_t where "OPTION_NONE \<equiv> ML_unit"

definition OPTION_SOME :: "word_t \<Rightarrow> word_t vmop" where
  "OPTION_SOME a = lift_rt (\<lambda>r. Inr (ML_Alloc1 a r))"

text \<open>The message of \<open>sprintf\<close> for an unknown error is a parameter, as is \<open>strerror\<close>.\<close>

record os_error =
  oe_errno :: int
  oe_strerror :: "int \<Rightarrow> byte_t list option"
  oe_unknown :: "int \<Rightarrow> byte_t list"

definition RaiseSysError :: "env \<Rightarrow> globals \<Rightarrow> os_error \<Rightarrow> byte_t list option \<Rightarrow> byte_t list option \<Rightarrow> word_t vmop" where
  "RaiseSysError E G os altMsg at =
     vbind (case altMsg of
         Some m \<Rightarrow> vret (m, OPTION_NONE)
       | None \<Rightarrow>
           vbind (OPTION_SOME (INT_ml (oe_errno os))) (\<lambda>syserror.
           vret (case oe_strerror os (oe_errno os) of Some m \<Rightarrow> m | None \<Rightarrow> oe_unknown os (oe_errno os), syserror))) (\<lambda>(msg, syserror).
     vbind (ML_CString E G (Some msg)) (\<lambda>s.
     vbind (case at of
         None \<Rightarrow> vret ML_unit
       | Some a \<Rightarrow> vbind (ML_CString E G (Some a)) (\<lambda>atMsg. cons atMsg ML_unit)) (\<lambda>atStk.
     vbind (lift_rt (\<lambda>r. Inr (ML_Alloc2 s syserror r))) (\<lambda>arg.
     vbind (lift_rt (\<lambda>r. Inr (ML_Alloc3 (G_SysErrId G) arg atStk r))) (\<lambda>exn.
     vthen (RaiseMLExn G exn) (vret exn))))))"

definition RAISE_ERROR :: "env \<Rightarrow> globals \<Rightarrow> os_error \<Rightarrow> byte_t list \<Rightarrow> string \<Rightarrow> word_t vmop" where
  "RAISE_ERROR E G os at msg = RaiseSysError E G os (Some (cbytes msg)) (Some at)"

definition RAISE_SYSERR :: "env \<Rightarrow> globals \<Rightarrow> os_error \<Rightarrow> byte_t list \<Rightarrow> word_t vmop" where
  "RAISE_SYSERR E G os at = RaiseSysError E G os None (Some at)"

definition CHK_RETURN_UNIT :: "env \<Rightarrow> globals \<Rightarrow> os_error \<Rightarrow> byte_t list \<Rightarrow> int \<Rightarrow> word_t vmop" where
  "CHK_RETURN_UNIT E G os at sts = (if sts < 0 then RAISE_SYSERR E G os at else vret ML_unit)"

section \<open>Arguments\<close>

text \<open>\<open>STR_MLtoC\<close>: the C string of an ML string.\<close>

definition STR_MLtoC :: "env \<Rightarrow> word_t \<Rightarrow> byte_t list vmop" where
  "STR_MLtoC E p =
     vbind (REC_SEL p 0) (\<lambda>data.
     vbind (read_rt (\<lambda>r. cstring_at (env_fuel E) data (rt_mem r))) (\<lambda>bs.
     if length bs = env_fuel E then vfail NoFuel else vret bs))"

definition int_of :: "word_t \<Rightarrow> int" where "int_of w = sint (ucast (INT_MLtoC w) :: u32)"

section \<open>gc-ctl.c\<close>

text \<open>The generations past the number of generations do not exist.\<close>

definition SetVMCache :: "word_t \<Rightarrow> unit vmop" where
  "SetVMCache arg =
     vbind (ld arg) (\<lambda>v.
     let level = (if int_of v < 0 then 0 else if int_of v > 14 then 14 else int_of v) in
     vbind (read_rt (\<lambda>r. h_cacheGen (rt_heap r))) (\<lambda>cacheGen.
     vthen (if level < cacheGen then
              do_rt (rfold (\<lambda>i r.
                if h_numGens (rt_heap r) \<le> i then Inl (Fault ''uninitialised generation'')
                else rbind (MEM_FreeMemObj (g_cacheObj (get_gen i r)) (rt_ms r)) (\<lambda>ms.
                     Inr (upd_gen i (\<lambda>gn. gn\<lparr>g_cacheObj := None\<rparr>) (r\<lparr>rt_ms := ms\<rparr>)))) [nat level..<nat cacheGen])
            else vret ())
    (vthen (ASSIGN arg (INT_ml cacheGen))
    (upd_rt (upd_heap (\<lambda>h. h\<lparr>h_cacheGen := level\<rparr>))))))"

text \<open>The rest of the list is a root, in a variable at \<open>G_root\<close>.\<close>

definition gc_with_next :: "env \<Rightarrow> globals \<Rightarrow> int \<Rightarrow> word_t \<Rightarrow> word_t vmop" where
  "gc_with_next E G level arg =
     vthen (st (G_root G) arg)
    (vthen (InvokeGCWithRoots E G level [G_root G])
    (ld (G_root G)))"

definition DoGC :: "env \<Rightarrow> globals \<Rightarrow> word_t \<Rightarrow> word_t \<Rightarrow> word_t vmop" where
  "DoGC E G cell arg =
     vbind (read_rt (\<lambda>r. int (h_numGens (rt_heap r)))) (\<lambda>n.
     vbind (ld cell) (\<lambda>v.
     gc_with_next E G (if int_of v < 0 then 0 else if n < int_of v then n else int_of v) arg))"

definition AllGC :: "env \<Rightarrow> globals \<Rightarrow> word_t \<Rightarrow> word_t vmop" where
  "AllGC E G arg = vbind (read_rt (\<lambda>r. int (h_numGens (rt_heap r)))) (\<lambda>n. gc_with_next E G n arg)"

text \<open>One operation: the rest of the list after it, and whether messages are on.\<close>

definition gc_ctl_op :: "env \<Rightarrow> globals \<Rightarrow> byte_t list \<Rightarrow> word_t \<Rightarrow> word_t \<Rightarrow> bool \<Rightarrow> (word_t \<times> bool) vmop" where
  "gc_ctl_op E G oper cell arg msgs =
     (let same = (\<lambda>f. vthen f (vret (arg, msgs)));
          positive = (\<lambda>k. vbind (ld cell) (\<lambda>v. k (0 < sint (INT_MLtoC v))))
      in if oper = cbytes ''NumGens'' then
           vbind (read_rt (\<lambda>r. h_numGens (rt_heap r))) (\<lambda>n. same (ASSIGN cell (INT_CtoML (of_nat n))))
         else if oper = cbytes ''NurserySize'' then
           vbind (read_rt (\<lambda>r. h_allocSzB (rt_heap r))) (\<lambda>n. same (ASSIGN cell (INT_CtoML n)))
         else if oper = cbytes ''SetVMCache'' then same (SetVMCache cell)
         else if oper = cbytes ''DoGC'' then vbind (DoGC E G cell arg) (\<lambda>arg. vret (arg, msgs))
         else if oper = cbytes ''AllGC'' then vbind (AllGC E G arg) (\<lambda>arg. vret (arg, msgs))
         else if oper = cbytes ''Messages'' then positive (\<lambda>b. vret (arg, b))
         else if oper = cbytes ''LimitHeap'' then positive (\<lambda>b. same (\<lambda>s. Inr ((), s\<lparr>vm_UnlimitedHeap := \<not> b\<rparr>)))
         else if oper = cbytes ''SigThreshold'' then
           vbind (ld cell) (\<lambda>v. same (upd_vproc (\<lambda>vp. vp\<lparr>vp_gcSigThreshold := max 0 (int_of v)\<rparr>)))
         else vret (arg, msgs))"

fun gc_ctl_loop :: "nat \<Rightarrow> env \<Rightarrow> globals \<Rightarrow> word_t \<Rightarrow> bool \<Rightarrow> bool vmop" where
  "gc_ctl_loop fuel E G arg msgs s =
     (if arg = ML_unit then Inr (msgs, s)
      else case fuel of
        0 \<Rightarrow> Inl NoFuel
      | Suc fuel \<Rightarrow>
          vbind (REC_SEL arg 0) (\<lambda>cmd.
          vbind (REC_SEL cmd 0) (\<lambda>oper.
          vbind (REC_SEL cmd 1) (\<lambda>cell.
          vbind (REC_SEL arg 1) (\<lambda>rest.
          vbind (STR_MLtoC E oper) (\<lambda>name.
          vbind (gc_ctl_op E G name cell rest msgs) (\<lambda>(arg, msgs). gc_ctl_loop fuel E G arg msgs)))))) s)"

declare gc_ctl_loop.simps [simp del]

text \<open>The state of the messages is the flag \<open>GCMessages\<close>.\<close>

definition gc_ctl :: "env \<Rightarrow> globals \<Rightarrow> word_t \<Rightarrow> bool \<Rightarrow> (word_t \<times> bool) vmop" where
  "gc_ctl E G arg msgs = vbind (gc_ctl_loop (env_fuel E) E G arg msgs) (\<lambda>msgs. vret (ML_unit, msgs))"

section \<open>gc-counter.c\<close>

definition gc_counter_reset :: "env \<Rightarrow> globals \<Rightarrow> word_t \<Rightarrow> word_t vmop" where
  "gc_counter_reset E G arg =
     vbind (read_rt (\<lambda>r. int (h_numGens (rt_heap r)))) (\<lambda>n.
     vthen (if arg = ML_true then InvokeGC E G n else InvokeGC E G 0)
    (vthen (upd_rt (upd_heap ResetGCStats)) (vret ML_unit)))"

text \<open>The last generation of the first ones that have been collected. The counts are unsigned.\<close>

fun collected_gens :: "(nat \<Rightarrow> u32) \<Rightarrow> nat \<Rightarrow> nat list \<Rightarrow> nat" where
  "collected_gens c n [] = n"
| "collected_gens c n (i # is) = (if 0 < c i then collected_gens c i is else n)"

fun count_list :: "(nat \<Rightarrow> u32) \<Rightarrow> nat list \<Rightarrow> word_t \<Rightarrow> word_t vmop" where
  "count_list c [] lp s = Inr (lp, s)"
| "count_list c (i # is) lp s = vbind (cons (INT_CtoML (ucast (c i))) lp) (count_list c is) s"

definition gc_counter_read :: "word_t vmop" where
  "gc_counter_read =
     vbind (read_rt GetGCStats) (\<lambda>stats.
     vbind (read_rt (\<lambda>r. h_numGens (rt_heap r))) (\<lambda>numGens.
     let c = (\<lambda>i. of_int (numGCs stats i) :: u32); n = collected_gens c 0 [1..<numGens + 1] in
     vbind (if 0 < c 0 then count_list c (rev [0..<n + 1]) ML_unit else vret ML_unit) (\<lambda>lp.
     lift_rt (\<lambda>r. Inr (ML_Alloc6 (INT_CtoML (of_nat (bytesPerCnt stats))) (INT_CtoML (allocCnt stats)) OPTION_NONE
       (INT_CtoML (allocFirstCnt stats)) (INT_CtoML (promoteCnt stats 0)) lp r)))))"

section \<open>Timers\<close>

text \<open>The interval of the timer in seconds and microseconds; \<open>sts\<close> is the answer of \<open>setitimer\<close>.\<close>

definition itimer_value :: "word_t option \<Rightarrow> word_t \<times> word_t" where
  "itimer_value ns = (case ns of None \<Rightarrow> (0, 0) | Some t \<Rightarrow> (let us = t div 1000 in (us div 1000000, us mod 1000000)))"

definition setitimer :: "env \<Rightarrow> globals \<Rightarrow> os_error \<Rightarrow> byte_t list \<Rightarrow> (word_t \<times> word_t \<Rightarrow> int) \<Rightarrow> word_t \<Rightarrow> word_t vmop" where
  "setitimer E G os at sts arg =
     vbind (if arg = OPTION_NONE then vret None
            else vbind (REC_SEL arg 0) (\<lambda>w. read_rt (\<lambda>r. Some (WORD64_MLtoC w r)))) (\<lambda>t.
     CHK_RETURN_UNIT E G os at (sts (itimer_value t)))"

text \<open>The resolution of the clock, if the system tells it.\<close>

definition itick :: "env \<Rightarrow> globals \<Rightarrow> os_error \<Rightarrow> byte_t list \<Rightarrow> (word_t \<times> word_t) option \<Rightarrow> word_t vmop" where
  "itick E G os at res =
     (case res of
        Some (sec, nsec) \<Rightarrow> lift_rt (\<lambda>r. Inr (ML_AllocWord64 (1000000000 * sec + nsec) r))
      | None \<Rightarrow> RAISE_SYSERR E G os at)"

section \<open>Code and literals\<close>

definition mkexec :: "word_t \<Rightarrow> word_t vmop" where
  "mkexec arg =
     vbind (REC_SEL arg 0) (\<lambda>seq.
     vbind (REC_SEL arg 1) (\<lambda>entry.
     vbind (REC_SEL seq 0) (\<lambda>code.
     lift_rt (\<lambda>r. Inr (ML_Alloc1 (code + of_int (int_of entry)) r)))))"

definition mkliterals :: "env \<Rightarrow> globals \<Rightarrow> lit_slots \<Rightarrow> word_t \<Rightarrow> word_t vmop" where
  "mkliterals E G L arg =
     vbind (REC_SEL arg 0) (\<lambda>data.
     vbind (REC_SEL arg 1) (\<lambda>len. BuildLiterals E G L data (int_of len)))"

definition mk_code_obj :: "env \<Rightarrow> word_t \<Rightarrow> word_t vmop" where
  "mk_code_obj E arg =
     vbind (REC_SEL arg 1) (\<lambda>len.
     vbind (REC_SEL arg 0) (\<lambda>data.
     if int_of len < 0 then vfail (Fault ''negative size'')
     else
       vbind (read_rt (\<lambda>r. bytes_at data (nat (int_of len)) (rt_mem r))) (\<lambda>bs.
       vbind (ML_AllocCode E bs) (\<lambda>code. seq_hdr DESC_word8vec code (of_int (int_of len))))))"

section \<open>Records\<close>

definition recordconcat :: "env \<Rightarrow> globals \<Rightarrow> os_error \<Rightarrow> byte_t list \<Rightarrow> word_t \<Rightarrow> word_t vmop" where
  "recordconcat E G os at arg =
     vbind (REC_SEL arg 0) (\<lambda>r1.
     vbind (REC_SEL arg 1) (\<lambda>r2.
     if r1 = ML_unit then vret r2
     else if r2 = ML_unit then vret r1
     else vbind (lift_rt (RecordConcat r1 r2)) (\<lambda>res.
       if res = ML_unit then RAISE_ERROR E G os at ''recordconcat: not a record'' else vret res)))"

definition record1 :: "word_t \<Rightarrow> word_t vmop" where
  "record1 arg = lift_rt (\<lambda>r. Inr (ML_Alloc1 arg r))"

section \<open>Images\<close>

text \<open>
  The name of the file is copied to a buffer of 1024 bytes, and the extension is added there.
  \<open>fopenw\<close> opens a file for writing; the result holds the file that has been written.
\<close>

definition image_file :: "env \<Rightarrow> word_t \<Rightarrow> string vmop" where
  "image_file E str =
     vbind (STR_MLtoC E str) (\<lambda>bs.
     let name = snd (QualifyImageName (cchars bs)) in
     if 1024 < length bs + 1 \<or> 1024 < length name + 1 then vfail (Fault ''buffer overflow'') else vret name)"

definition export_heap ::
  "env \<Rightarrow> globals \<Rightarrow> registry \<Rightarrow> addr_t \<Rightarrow> os_error \<Rightarrow> byte_t list \<Rightarrow> (string \<Rightarrow> FILE_t option) \<Rightarrow> word_t \<Rightarrow> (word_t \<times> FILE_t option) vmop" where
  "export_heap E G r pagesize os at fopenw arg =
     vbind (image_file E arg) (\<lambda>fname.
     case fopenw fname of
       None \<Rightarrow> vbind (RAISE_ERROR E G os at ''unable to open file for writing'') (\<lambda>v. vret (v, None))
     | Some f \<Rightarrow>
         vthen (st (ml_arg (G_msp G)) ML_true)
        (vbind (ExportHeapImage E G r pagesize (Some f)) (\<lambda>(ok, f).
         if ok then vret (ML_false, f)
         else vbind (RAISE_ERROR E G os at ''export failed'') (\<lambda>v. vret (v, f)))))"

text \<open>This function does not return once the file is open.\<close>

definition export_fun ::
  "env \<Rightarrow> globals \<Rightarrow> registry \<Rightarrow> addr_t \<Rightarrow> os_error \<Rightarrow> byte_t list \<Rightarrow> (string \<Rightarrow> FILE_t option) \<Rightarrow> word_t \<Rightarrow> word_t vmop" where
  "export_fun E G r pagesize os at fopenw arg =
     vbind (REC_SEL arg 0) (\<lambda>mlName.
     vbind (REC_SEL arg 1) (\<lambda>funct.
     vbind (image_file E mlName) (\<lambda>fname.
     case fopenw fname of
       None \<Rightarrow> RAISE_ERROR E G os at ''unable to open file for writing''
     | Some f \<Rightarrow>
         vbind (ExportFnImage E G r pagesize funct (Some f)) (\<lambda>(ok, f).
         vfail (if ok then Exited 0 else Die ''export failed'')))))"

definition blast_in :: "env \<Rightarrow> globals \<Rightarrow> registry \<Rightarrow> os_error \<Rightarrow> byte_t list \<Rightarrow> word_t \<Rightarrow> word_t vmop" where
  "blast_in E G r os at arg =
     vbind (REC_SEL arg 0) (\<lambda>data.
     vbind (REC_SEL arg 1) (\<lambda>len.
     vbind (BlastIn E G r data (INT_MLtoC len)) (\<lambda>obj.
     case obj of None \<Rightarrow> RAISE_ERROR E G os at ''blast_in'' | Some v \<Rightarrow> vret v)))"

definition blast_out ::
  "env \<Rightarrow> globals \<Rightarrow> registry \<Rightarrow> (nat \<Rightarrow> nat \<Rightarrow> addr_t) \<times> (nat \<Rightarrow> nat \<Rightarrow> addr_t) \<Rightarrow> os_error \<Rightarrow> byte_t list \<Rightarrow> word_t \<Rightarrow> word_t vmop" where
  "blast_out E G r saved os at arg =
     vbind (BlastOut E G r saved arg) (\<lambda>data.
     if data = ML_unit then RAISE_ERROR E G os at ''attempt to blast object failed'' else vret data)"

section \<open>The command line and the system\<close>

definition Proc_argv :: "env \<Rightarrow> globals \<Rightarrow> byte_t list list \<Rightarrow> word_t vmop" where
  "Proc_argv E G argv = ML_CStringList E G argv"
definition Proc_raw_argv :: "env \<Rightarrow> globals \<Rightarrow> byte_t list list \<Rightarrow> word_t vmop" where
  "Proc_raw_argv E G rawArgv = ML_CStringList E G rawArgv"
definition Proc_cmd_name :: "env \<Rightarrow> globals \<Rightarrow> byte_t list option \<Rightarrow> word_t vmop" where
  "Proc_cmd_name E G cmdName = ML_CString E G cmdName"

text \<open>The arguments that are left.\<close>

definition Proc_shift_argv :: "byte_t list list \<Rightarrow> word_t \<times> byte_t list list" where
  "Proc_shift_argv argv = (ML_unit, if argv \<noteq> [] then tl argv else argv)"

definition dummy :: "word_t vmop" where "dummy = vret ML_unit"

definition sysinfo :: "env \<Rightarrow> globals \<Rightarrow> word_t \<Rightarrow> word_t vmop" where
  "sysinfo E G arg =
     vbind (STR_MLtoC E arg) (\<lambda>name.
     let answer = (\<lambda>s. vbind (ML_CString E G (Some (cbytes s))) OPTION_SOME) in
     if name = cbytes ''OS_NAME'' then answer ''Linux''
     else if name = cbytes ''OS_VERSION'' then answer ''<unknown>''
     else if name = cbytes ''HEAP_SUFFIX'' then answer ''amd64-linux''
     else if name = cbytes ''ARCH_NAME'' then answer ''AMD64''
     else vret OPTION_NONE)"

section \<open>Signals\<close>

text \<open>The dispositions and the mask of the signals are the operating system's state.\<close>

definition Sig_getsigmask :: "env \<Rightarrow> globals \<Rightarrow> sysconst_tbl \<Rightarrow> int set \<Rightarrow> word_t vmop" where
  "Sig_getsigmask E G sigInfo msk = GetSignalMask E G sigInfo msk"
definition Sig_setsigmask :: "env \<Rightarrow> sysconst_tbl \<Rightarrow> word_t \<Rightarrow> (word_t \<times> int set) vmop" where
  "Sig_setsigmask E sigInfo arg s = rbind (SetSignalMask E sigInfo arg (vm_rt s)) (\<lambda>msk. Inr ((ML_unit, msk), s))"
definition Sig_listsigs :: "env \<Rightarrow> globals \<Rightarrow> sysconst_tbl \<Rightarrow> word_t vmop" where
  "Sig_listsigs E G SigTbl = ML_SysConstList E G SigTbl"

definition Sig_getsigstate :: "env \<Rightarrow> (int \<Rightarrow> int) \<Rightarrow> word_t \<Rightarrow> word_t vmop" where
  "Sig_getsigstate E handlers arg =
     vbind (REC_SEL arg 0) (\<lambda>n s.
     rbind (GetSignalState (env_sig E) (int_of n) (vm_vproc s, handlers)) (\<lambda>state. Inr (INT_ml state, s)))"

definition Sig_setsigstate :: "env \<Rightarrow> (int \<Rightarrow> int) \<Rightarrow> word_t \<Rightarrow> (word_t \<times> (int \<Rightarrow> int)) vmop" where
  "Sig_setsigstate E handlers arg =
     vbind (REC_SEL arg 0) (\<lambda>sig.
     vbind (REC_SEL sig 0) (\<lambda>n.
     vbind (REC_SEL arg 1) (\<lambda>state s.
     rbind (SetSignalState (env_sig E) (int_of n) (int_of state) (vm_vproc s, handlers)) (\<lambda>(v, handlers).
     Inr ((ML_unit, handlers), s\<lparr>vm_vproc := v\<rparr>)))))"

section \<open>Times\<close>

text \<open>The times that \<open>getrusage\<close> reports next are in the environment.\<close>

definition nanoseconds :: "time_t \<Rightarrow> word_t vmop" where
  "nanoseconds t = lift_rt (\<lambda>r. Inr (ML_AllocNanoseconds (seconds t) (uSeconds t) r))"

definition Time_gettime :: "env \<Rightarrow> word_t vmop" where
  "Time_gettime E =
     vbind (\<lambda>s. let (ru_u, ru_s) = env_rusage E (vm_rusages s); (t, sy, l) = GetCPUTime ru_u ru_s (vm_latches s)
           in Inr ((t, sy), s\<lparr>vm_latches := l, vm_rusages := vm_rusages s + 1\<rparr>)) (\<lambda>(t, sy).
     vbind (nanoseconds t) (\<lambda>usrT.
     vbind (nanoseconds sy) (\<lambda>sysT.
     vbind (\<lambda>s. nanoseconds (vp_gcUsrTime (vp_timers (vm_vproc s))) s) (\<lambda>gcUsrT.
     vbind (\<lambda>s. nanoseconds (vp_gcSysTime (vp_timers (vm_vproc s))) s) (\<lambda>gcSysT.
     lift_rt (\<lambda>r. Inr (ML_Alloc4 usrT sysT gcUsrT gcSysT r)))))))"

definition Time_timeofday :: "time_t \<Rightarrow> word_t vmop" where "Time_timeofday now = nanoseconds now"

section \<open>Profiling\<close>

text \<open>
  \<open>P\<close> is the address of \<open>ProfCntArray\<close>. The roots are an array of eight elements; the result of
  \<open>Prof_setpref\<close> holds whether the profiling signal is handled now.
\<close>

definition Prof_setpref :: "addr_t \<Rightarrow> bool \<Rightarrow> word_t \<Rightarrow> (word_t \<times> bool) vmop" where
  "Prof_setpref P handled arg =
     vbind (ld P) (\<lambda>old.
     let enabled = old \<noteq> ML_unit in
     if arg \<noteq> OPTION_NONE then
       vbind (REC_SEL arg 0) (\<lambda>arr.
       vthen (st P arr)
      (if enabled then vret (ML_unit, handled)
       else (\<lambda>s. if 8 \<le> length (vm_CRoots s) then Inl (Fault ''CRoots overflow'')
              else Inr ((ML_unit, True), s\<lparr>vm_CRoots := vm_CRoots s @ [P]\<rparr>))))
     else if enabled then
       vthen (\<lambda>s. let rs = vm_CRoots s; n = length rs; i = length (takeWhile (\<lambda>a. a \<noteq> P) rs) in
                Inr ((), if i < n then s\<lparr>vm_CRoots := take (n - 1) (rs[i := rs ! (n - 1)])\<rparr> else s))
      (vthen (st P ML_unit) (vret (ML_unit, False)))
     else vret (ML_unit, handled))"

text \<open>\<open>sts\<close> answers \<open>setitimer\<close> on the interval in microseconds, which is 10000 or 0.\<close>

definition Prof_setptimer :: "env \<Rightarrow> globals \<Rightarrow> os_error \<Rightarrow> byte_t list \<Rightarrow> (word_t \<Rightarrow> int) \<Rightarrow> addr_t \<Rightarrow> word_t \<Rightarrow> word_t vmop" where
  "Prof_setptimer E G os at sts P arg =
     vbind (ld P) (\<lambda>arr.
     if arg = ML_false then CHK_RETURN_UNIT E G os at (sts 0)
     else if arr = ML_unit then RAISE_ERROR E G os at ''no count array set''
     else CHK_RETURN_UNIT E G os at (sts 10000))"

definition Prof_getpquantum :: "word_t vmop" where "Prof_getpquantum = vret (INT_CtoML 10000)"

text \<open>The handler of the profiling signal (\<open>mach-dep/unix-prof.c\<close>); the index is not tested.\<close>

definition ProfSigHandler :: "globals \<Rightarrow> addr_t \<Rightarrow> unit vmop" where
  "ProfSigHandler G P =
     vbind (ld P) (\<lambda>v.
     vbind (REC_SEL v 0) (\<lambda>arr.
     vbind (ld (G_ProfCurrent G)) (\<lambda>c.
     let a = arr + 8 * of_int (int_of c) in vbind (ld a) (\<lambda>n. st a (n + 1)))))"

text \<open>
  The handler of arithmetic faults (\<open>mach-dep/unix-fault.c\<close>): \<open>trap\<close> says whether the fault is an
  overflow. The program goes on at \<open>request_fault\<close>.
\<close>

definition FaultHandler :: "(int \<Rightarrow> addr_t \<Rightarrow> bool) \<Rightarrow> addr_t \<Rightarrow> int \<Rightarrow> addr_t \<Rightarrow> addr_t vmop" where
  "FaultHandler trap request_fault signal pc s =
     (if \<not> vp_inMLFlag (vm_vproc s) then Inl (Die ''bogus fault not in ML'')
      else if \<not> trap signal pc then Inl (Die ''bogus overflow fault'')
      else Inr (request_fault, s\<lparr>vm_faultPC := pc\<rparr>))"

section \<open>Error codes\<close>

definition Error_errmsg :: "env \<Rightarrow> globals \<Rightarrow> os_error \<Rightarrow> word_t \<Rightarrow> word_t vmop" where
  "Error_errmsg E G os arg =
     ML_CString E G (Some (case oe_strerror os (int_of arg) of Some m \<Rightarrow> m | None \<Rightarrow> oe_unknown os (int_of arg)))"
definition Error_geterror :: "env \<Rightarrow> globals \<Rightarrow> sysconst_tbl \<Rightarrow> word_t \<Rightarrow> word_t vmop" where
  "Error_geterror E G ErrorNo arg = ML_SysConst E G ErrorNo (int_of arg)"
definition Error_listerrors :: "env \<Rightarrow> globals \<Rightarrow> sysconst_tbl \<Rightarrow> word_t vmop" where
  "Error_listerrors E G ErrorNo = ML_SysConstList E G ErrorNo"

end
