(* ===== verification/OS_Values.thy ===== *)
theory OS_Values
  imports RT_Lib
begin

text \<open>
  Constants of the operating system by name: the tables and the search of the \<open>osval.c\<close> files,
  \<open>pathconf.c\<close> and \<open>sysconf.c\<close> under \<open>c-libs\<close>, and \<open>posix-error/posix-name-val.c\<close>. An entry is a name
  with the name of its C constant; the values of the constants are the parameter \<open>val\<close>. The
  tables of \<open>pathconf.c\<close> and \<open>sysconf.c\<close> are generated, and parameters.
\<close>

section \<open>The search\<close>

type_synonym name_vals = "(string \<times> string) list"

fun strcmp :: "string \<Rightarrow> string \<Rightarrow> int" where
  "strcmp [] [] = 0"
| "strcmp [] (d # ds) = - 1"
| "strcmp (c # cs) [] = 1"
| "strcmp (c # cs) (d # ds) =
     (if c = d then strcmp cs ds else if (of_char c :: nat) < of_char d then - 1 else 1)"

text \<open>\<open>bsearch\<close> of the C library between two indices.\<close>

function bsearch :: "('a \<Rightarrow> int) \<Rightarrow> 'a list \<Rightarrow> nat \<Rightarrow> nat \<Rightarrow> 'a option" where
  "bsearch cmp xs l u =
     (if u \<le> l then None
      else let i = (l + u) div 2; c = cmp (xs ! i) in
        if c < 0 then bsearch cmp xs l i
        else if 0 < c then bsearch cmp xs (i + 1) u
        else Some (xs ! i))"
  by pat_completeness auto
termination by (relation "measure (\<lambda>(_, _, l, u). u - l)") auto

declare bsearch.simps [simp del]

definition nv_lookup :: "string \<Rightarrow> name_vals \<Rightarrow> (string \<times> string) option" where
  "nv_lookup key values = bsearch (\<lambda>e. strcmp key (fst e)) values 0 (length values)"

section \<open>The tables\<close>

definition filesys_values :: name_vals where
  "filesys_values =
    [(''A_EXEC'', ''X_OK''), (''A_FILE'', ''F_OK''), (''A_READ'', ''R_OK''), (''A_WRITE'', ''W_OK''), (''O_APPEND'', ''O_APPEND''),
     (''O_CREAT'', ''O_CREAT''), (''O_DSYNC'', ''O_DSYNC''), (''O_EXCL'', ''O_EXCL''), (''O_NOCTTY'', ''O_NOCTTY''),
     (''O_NONBLOCK'', ''O_NONBLOCK''), (''O_RDONLY'', ''O_RDONLY''), (''O_RDWR'', ''O_RDWR''), (''O_RSYNC'', ''O_RSYNC''),
     (''O_SYNC'', ''O_SYNC''), (''O_TRUNC'', ''O_TRUNC''), (''O_WRONLY'', ''O_WRONLY''), (''irgrp'', ''S_IRGRP''),
     (''iroth'', ''S_IROTH''), (''irusr'', ''S_IRUSR''), (''irwxg'', ''S_IRWXG''), (''irwxo'', ''S_IRWXO''),
     (''irwxu'', ''S_IRWXU''), (''isgid'', ''S_ISGID''), (''isuid'', ''S_ISUID''), (''iwgrp'', ''S_IWGRP''),
     (''iwoth'', ''S_IWOTH''), (''iwusr'', ''S_IWUSR''), (''ixgrp'', ''S_IXGRP''), (''ixoth'', ''S_IXOTH''),
     (''ixusr'', ''S_IXUSR'')]"

definition io_values :: name_vals where
  "io_values =
    [(''F_GETLK'', ''F_GETLK''), (''F_RDLCK'', ''F_RDLCK''), (''F_SETLK'', ''F_SETLK''), (''F_SETLKW'', ''F_SETLKW''),
     (''F_UNLCK'', ''F_UNLCK''), (''F_WRLCK'', ''F_WRLCK''), (''SEEK_CUR'', ''SEEK_CUR''), (''SEEK_END'', ''SEEK_END''),
     (''SEEK_SET'', ''SEEK_SET''), (''append'', ''O_APPEND''), (''cloexec'', ''FD_CLOEXEC''), (''dsync'', ''O_DSYNC''),
     (''nonblock'', ''O_NONBLOCK''), (''rsync'', ''O_RSYNC''), (''sync'', ''O_SYNC'')]"

definition process_values :: name_vals where
  "process_values =
    [(''WNOHANG'', ''WNOHANG''), (''WUNTRACED'', ''WUNTRACED'')]"

definition signal_values :: name_vals where
  "signal_values =
    [(''abrt'', ''SIGABRT''), (''alrm'', ''SIGALRM''), (''bus'', ''SIGBUS''), (''chld'', ''SIGCHLD''), (''cont'', ''SIGCONT''),
     (''fpe'', ''SIGFPE''), (''hup'', ''SIGHUP''), (''ill'', ''SIGILL''), (''int'', ''SIGINT''), (''kill'', ''SIGKILL''),
     (''pipe'', ''SIGPIPE''), (''quit'', ''SIGQUIT''), (''segv'', ''SIGSEGV''), (''stop'', ''SIGSTOP''), (''term'', ''SIGTERM''),
     (''tstp'', ''SIGTSTP''), (''ttin'', ''SIGTTIN''), (''ttou'', ''SIGTTOU''), (''usr1'', ''SIGUSR1''), (''usr2'', ''SIGUSR2'')]"

definition tty_values :: name_vals where
  "tty_values =
    [(''B0'', ''B0''), (''B110'', ''B110''), (''B1200'', ''B1200''), (''B134'', ''B134''), (''B150'', ''B150''),
     (''B1800'', ''B1800''), (''B19200'', ''B19200''), (''B200'', ''B200''), (''B2400'', ''B2400''), (''B300'', ''B300''),
     (''B38400'', ''B38400''), (''B4800'', ''B4800''), (''B50'', ''B50''), (''B600'', ''B600''), (''B75'', ''B75''),
     (''B9600'', ''B9600''), (''BRKINT'', ''BRKINT''), (''CLOCAL'', ''CLOCAL''), (''CREAD'', ''CREAD''), (''CS5'', ''CS5''),
     (''CS6'', ''CS6''), (''CS7'', ''CS7''), (''CS8'', ''CS8''), (''CSIZE'', ''CSIZE''), (''CSTOPB'', ''CSTOPB''),
     (''ECHO'', ''ECHO''), (''ECHOE'', ''ECHOE''), (''ECHOK'', ''ECHOK''), (''ECHONL'', ''ECHONL''), (''EOF'', ''VEOF''),
     (''EOL'', ''VEOL''), (''ERASE'', ''VERASE''), (''HUPCL'', ''HUPCL''), (''ICANON'', ''ICANON''), (''ICRNL'', ''ICRNL''),
     (''IEXTEN'', ''IEXTEN''), (''IGNBRK'', ''IGNBRK''), (''IGNCR'', ''IGNCR''), (''IGNPAR'', ''IGNPAR''), (''INLCR'', ''INLCR''),
     (''INPCK'', ''INPCK''), (''INTR'', ''VINTR''), (''ISIG'', ''ISIG''), (''ISTRIP'', ''ISTRIP''), (''IXOFF'', ''IXOFF''),
     (''IXON'', ''IXON''), (''KILL'', ''VKILL''), (''MIN'', ''VMIN''), (''NCCS'', ''NCCS''), (''NOFLSH'', ''NOFLSH''),
     (''OPOST'', ''OPOST''), (''PARENB'', ''PARENB''), (''PARMRK'', ''PARMRK''), (''PARODD'', ''PARODD''), (''QUIT'', ''VQUIT''),
     (''START'', ''VSTART''), (''STOP'', ''VSTOP''), (''SUSP'', ''VSUSP''), (''TCIFLUSH'', ''TCIFLUSH''), (''TCIOFF'', ''TCIOFF''),
     (''TCIOFLUSH'', ''TCIOFLUSH''), (''TCION'', ''TCION''), (''TCOFLUSH'', ''TCOFLUSH''), (''TCOOFF'', ''TCOOFF''),
     (''TCOON'', ''TCOON''), (''TCSADRAIN'', ''TCSADRAIN''), (''TCSAFLUSH'', ''TCSAFLUSH''), (''TCSANOW'', ''TCSANOW''),
     (''TIME'', ''VTIME''), (''TOSTOP'', ''TOSTOP'')]"

section \<open>The functions\<close>

definition osval :: "env \<Rightarrow> globals \<Rightarrow> os_error \<Rightarrow> byte_t list \<Rightarrow> (string \<Rightarrow> int) \<Rightarrow> name_vals \<Rightarrow> word_t \<Rightarrow> word_t vmop" where
  "osval E G os at val values arg =
     vbind (STR_MLtoC E arg) (\<lambda>key.
     case nv_lookup (cchars key) values of
       Some e \<Rightarrow> vret (INT_ml (val (snd e)))
     | None \<Rightarrow> RAISE_ERROR E G os at ''system constant not defined'')"

definition FileSys_osval where "FileSys_osval E G os at val = osval E G os at val filesys_values"
definition IO_osval where "IO_osval E G os at val = osval E G os at val io_values"
definition Process_osval where "Process_osval E G os at val = osval E G os at val process_values"
definition Signal_osval where "Signal_osval E G os at val = osval E G os at val signal_values"
definition TTY_osval where "TTY_osval E G os at val = osval E G os at val tty_values"

text \<open>The system call is repeated while it is interrupted: the value and \<open>errno\<close> of each attempt.\<close>

abbreviation (input) EINTR :: int where "EINTR \<equiv> 4"
abbreviation (input) EINVAL :: int where "EINVAL \<equiv> 22"

fun retry :: "nat \<Rightarrow> (nat \<Rightarrow> int \<times> int) \<Rightarrow> nat \<Rightarrow> (int \<times> int) res" where
  "retry 0 answer i = Inl NoFuel"
| "retry (Suc fuel) answer i = (if answer i = (- 1, EINTR) then retry fuel answer (i + 1) else Inr (answer i))"

definition sysword :: "int \<Rightarrow> word_t vmop" where
  "sysword val = lift_rt (\<lambda>r. Inr (ML_AllocWord (of_int val) r))"

definition mkValue :: "env \<Rightarrow> globals \<Rightarrow> os_error \<Rightarrow> byte_t list \<Rightarrow> int \<times> int \<Rightarrow> word_t vmop" where
  "mkValue E G os at = (\<lambda>(val, errno).
     if 0 \<le> val then vbind (sysword val) OPTION_SOME
     else if errno = 0 then vret OPTION_NONE
     else RAISE_SYSERR E G (os\<lparr>oe_errno := errno\<rparr>) at)"

text \<open>\<open>pathconf\<close> and \<open>fpathconf\<close>; \<open>call\<close> is the system call on the path or descriptor and the attribute.\<close>

definition pathconf_attr ::
  "env \<Rightarrow> globals \<Rightarrow> os_error \<Rightarrow> byte_t list \<Rightarrow> (string \<Rightarrow> int) \<Rightarrow> name_vals \<Rightarrow> (int \<Rightarrow> nat \<Rightarrow> int \<times> int) \<Rightarrow> word_t \<Rightarrow> word_t vmop" where
  "pathconf_attr E G os at val values call mlAttr =
     vbind (STR_MLtoC E mlAttr) (\<lambda>key.
     case nv_lookup (cchars key) values of
       None \<Rightarrow> RAISE_SYSERR E G (os\<lparr>oe_errno := EINVAL\<rparr>) at
     | Some e \<Rightarrow> (\<lambda>s. rbind (retry (env_fuel E) (call (val (snd e))) 0) (\<lambda>a. mkValue E G os at a s)))"

definition FileSys_pathconf ::
  "env \<Rightarrow> globals \<Rightarrow> os_error \<Rightarrow> byte_t list \<Rightarrow> (string \<Rightarrow> int) \<Rightarrow> name_vals \<Rightarrow> (byte_t list \<Rightarrow> int \<Rightarrow> nat \<Rightarrow> int \<times> int)
    \<Rightarrow> word_t \<Rightarrow> word_t vmop" where
  "FileSys_pathconf E G os at val values call arg =
     vbind (REC_SEL arg 0) (\<lambda>mlPathname.
     vbind (REC_SEL arg 1) (\<lambda>mlAttr.
     vbind (STR_MLtoC E mlPathname) (\<lambda>path.
     pathconf_attr E G os at val values (call path) mlAttr)))"

definition FileSys_fpathconf ::
  "env \<Rightarrow> globals \<Rightarrow> os_error \<Rightarrow> byte_t list \<Rightarrow> (string \<Rightarrow> int) \<Rightarrow> name_vals \<Rightarrow> (int \<Rightarrow> int \<Rightarrow> nat \<Rightarrow> int \<times> int)
    \<Rightarrow> word_t \<Rightarrow> word_t vmop" where
  "FileSys_fpathconf E G os at val values call arg =
     vbind (REC_SEL arg 0) (\<lambda>fd.
     vbind (REC_SEL arg 1) (\<lambda>mlAttr.
     pathconf_attr E G os at val values (call (int_of fd)) mlAttr))"

definition ProcEnv_sysconf ::
  "env \<Rightarrow> globals \<Rightarrow> os_error \<Rightarrow> byte_t list \<Rightarrow> (string \<Rightarrow> int) \<Rightarrow> name_vals \<Rightarrow> (int \<Rightarrow> nat \<Rightarrow> int \<times> int) \<Rightarrow> word_t \<Rightarrow> word_t vmop" where
  "ProcEnv_sysconf E G os at val values call arg =
     vbind (STR_MLtoC E arg) (\<lambda>key.
     case nv_lookup (cchars key) values of
       None \<Rightarrow> RAISE_SYSERR E G (os\<lparr>oe_errno := EINVAL\<rparr>) at
     | Some e \<Rightarrow> (\<lambda>s. rbind (retry (env_fuel E) (call (val (snd e))) 0) (\<lambda>(v, errno).
         if 0 \<le> v then sysword v s
         else if errno = 0 then RAISE_ERROR E G os at ''unsupported POSIX feature'' s
         else RAISE_SYSERR E G (os\<lparr>oe_errno := errno\<rparr>) at s)))"

section \<open>Properties\<close>

text \<open>The order of \<open>strcmp\<close>.\<close>

lemma strcmp_zero: "strcmp a b = 0 \<longleftrightarrow> a = b"
  by (induction a b rule: strcmp.induct) auto

lemma strcmp_sym: "0 < strcmp a b \<longleftrightarrow> strcmp b a < 0"
proof (induction a b rule: strcmp.induct)
  case (4 c cs d ds)
  show ?case
  proof (cases "c = d")
    case False
    then have "(of_char c :: nat) \<noteq> of_char d" by simp
    then show ?thesis using False by auto
  qed (use 4 in simp)
qed auto

definition table_sorted :: "name_vals \<Rightarrow> bool" where
  "table_sorted t \<longleftrightarrow> sorted_wrt (\<lambda>a b. strcmp a b < 0) (map fst t)"

lemma sorted_less: "table_sorted t \<Longrightarrow> i < j \<Longrightarrow> j < length t \<Longrightarrow> strcmp (fst (t ! i)) (fst (t ! j)) < 0"
  by (auto simp: table_sorted_def sorted_wrt_iff_nth_less)

lemma sorted_inj:
  assumes "table_sorted t" "i < length t" "j < length t" "fst (t ! i) = fst (t ! j)"
  shows "i = j"
  using sorted_less [OF assms(1), of i j] sorted_less [OF assms(1), of j i] assms(2-4) strcmp_zero
  by (metis less_irrefl linorder_neqE_nat)

lemma bsearch_some:
  assumes "table_sorted t"
  shows "u \<le> length t \<Longrightarrow> l \<le> i \<Longrightarrow> i < u \<Longrightarrow> bsearch (\<lambda>e. strcmp (fst (t ! i)) (fst e)) t l u = Some (t ! i)"
proof (induction u arbitrary: l rule: less_induct)
  case (less u)
  show ?case using less
  proof (induction "u - l" arbitrary: l rule: less_induct)
    case less
    let ?i = "(l + u) div 2"
    let ?c = "strcmp (fst (t ! i)) (fst (t ! ?i))"
    have m: "l \<le> ?i" "?i < u" using less.prems(3,4) by linarith+
    consider "i < ?i" | "i = ?i" | "?i < i" by linarith
    then show ?case
    proof cases
      case 1
      then have "?c < 0" using sorted_less [OF assms 1] m(2) less.prems(2) by linarith
      then show ?thesis using less.prems(1) [OF m(2) _ less.prems(3) 1] m less.prems(2) by (subst bsearch.simps) (simp add: Let_def)
    next
      case 2
      then have "?c = 0" by (simp add: strcmp_zero)
      then show ?thesis using m 2 by (subst bsearch.simps) (simp add: Let_def)
    next
      case 3
      have "strcmp (fst (t ! ?i)) (fst (t ! i)) < 0" using sorted_less [OF assms 3] less.prems(2,4) by linarith
      then have "0 < ?c" by (simp add: strcmp_sym)
      moreover have "bsearch (\<lambda>e. strcmp (fst (t ! i)) (fst e)) t (?i + 1) u = Some (t ! i)"
        using less.hyps [of "?i + 1"] less.prems m 3 by simp
      ultimately show ?thesis using m by (subst bsearch.simps) (simp add: Let_def)
    qed
  qed
qed

lemma bsearch_sound: "u \<le> length t \<Longrightarrow> bsearch cmp t l u = Some e \<Longrightarrow> e \<in> set t \<and> cmp e = 0"
proof (induction cmp t l u rule: bsearch.induct)
  case (1 cmp xs l u)
  let ?i = "(l + u) div 2"
  have "?i < u \<or> u \<le> l" by linarith
  with 1 show ?case by (subst (asm) (3) bsearch.simps) (auto simp: Let_def split: if_splits)
qed

lemma nv_lookup_find:
  assumes "table_sorted t"
  shows "nv_lookup key t = find (\<lambda>e. fst e = key) t"
proof (cases "find (\<lambda>e. fst e = key) t")
  case None
  then have "\<forall>e \<in> set t. fst e \<noteq> key" by (auto simp: find_None_iff)
  moreover have "e \<in> set t \<and> fst e = key" if "nv_lookup key t = Some e" for e
    using bsearch_sound [of "length t" t "\<lambda>e. strcmp key (fst e)" 0 e] that strcmp_zero [of key "fst e"] by (auto simp: nv_lookup_def)
  ultimately show ?thesis using None by (cases "nv_lookup key t") auto
next
  case (Some e)
  then obtain i where "i < length t" "fst (t ! i) = key" "e = t ! i" by (auto simp: find_Some_iff)
  then show ?thesis using Some bsearch_some [OF assms, of "length t" 0 i] by (simp add: nv_lookup_def)
qed

lemma find_map_of:
  "(case find (\<lambda>e. fst e = k) t of None \<Rightarrow> h | Some e \<Rightarrow> g (snd e)) = (case map_of t k of None \<Rightarrow> h | Some c \<Rightarrow> g c)"
  by (induction t) auto

text \<open>C38. The binary search is equivalent to a linear one on every table whose names are in the order
  of \<open>strcmp\<close>, and the five tables of the POSIX libraries are. So every name that a table lists gives the
  value of its constant, and every other name the exception.\<close>

theorem nv_lookup_linear:
  "(table_sorted t \<longrightarrow> nv_lookup key t = find (\<lambda>e. fst e = key) t)
    \<and> list_all table_sorted [filesys_values, io_values, process_values, signal_values, tty_values]
    \<and> (t \<in> {filesys_values, io_values, process_values, signal_values, tty_values} \<longrightarrow>
       osval E G os at val t arg = vbind (STR_MLtoC E arg) (\<lambda>k. case map_of t (cchars k) of
         Some c \<Rightarrow> vret (INT_ml (val c)) | None \<Rightarrow> RAISE_ERROR E G os at ''system constant not defined''))"
proof -
  have s: "list_all table_sorted [filesys_values, io_values, process_values, signal_values, tty_values]" by code_simp
  have "osval E G os at val t arg = vbind (STR_MLtoC E arg) (\<lambda>k. case map_of t (cchars k) of
         Some c \<Rightarrow> vret (INT_ml (val c)) | None \<Rightarrow> RAISE_ERROR E G os at ''system constant not defined'')"
    if "table_sorted t" unfolding osval_def nv_lookup_find [OF that] find_map_of [where g = "\<lambda>c. vret (INT_ml (val c))"] ..
  then show ?thesis using s nv_lookup_find by auto
qed

theorem nv_lookup_linear_witness:
  "nv_lookup ''O_RDWR'' filesys_values = Some (''O_RDWR'', ''O_RDWR'') \<and> nv_lookup ''eof'' tty_values = None"
  using nv_lookup_linear [of filesys_values "''O_RDWR''"] nv_lookup_linear [of tty_values "''eof''"]
  by (simp add: filesys_values_def tty_values_def)

end
