(* ===== verification/Bin_File.thy ===== *)
theory Bin_File
  imports Heap_IO Options
begin

text \<open>
  Reading binfiles, the first half of \<open>kernel/boot.c\<close>: numbers in the two packed formats, the
  headers of the three versions of the format (\<open>include/bin-file.h\<close>), and the list of files of the
  boot loader. The operations work on a stream; a buffer that a short read leaves unset is an
  undefined result, since the test of the result of \<open>fread\<close> never fails.
\<close>

section \<open>Operations on a stream\<close>

type_synonym 'a fop = "FILE_t \<Rightarrow> ('a \<times> FILE_t) res"

definition fret :: "'a \<Rightarrow> 'a fop" where "fret x f = Inr (x, f)"
definition fbind :: "'a fop \<Rightarrow> ('a \<Rightarrow> 'b fop) \<Rightarrow> 'b fop" where
  "fbind m k f = rbind (m f) (\<lambda>(x, f). k x f)"
definition ffail :: "rt_error \<Rightarrow> 'a fop" where "ffail e f = Inl e"

lemma fbind_cong [fundef_cong]:
  "m f = m' f' \<Longrightarrow> f = f' \<Longrightarrow> (\<And>x g. m' f' = Inr (x, g) \<Longrightarrow> k x g = k' x g) \<Longrightarrow> fbind m k f = fbind m' k' f'"
  by (auto simp: fbind_def intro!: rbind_cong)

definition Seek :: "word_t \<Rightarrow> unit fop" where
  "Seek offset f = (case fseek (sint offset) f of None \<Rightarrow> Inl (Die ''cannot seek'') | Some g \<Rightarrow> Inr ((), g))"

definition ReadBinFile :: "nat \<Rightarrow> byte_t list fop" where
  "ReadBinFile n f =
     (let (bs, g) = fread n f in
      if length bs < n then Inl (Fault ''uninitialised bytes'') else Inr (bs, g))"

definition ReadBinFileAt :: "nat \<Rightarrow> word_t \<Rightarrow> byte_t list fop" where
  "ReadBinFileAt n offset = fbind (Seek offset) (\<lambda>_. ReadBinFile n)"

section \<open>Packed numbers\<close>

text \<open>
  The byte variable of the two loops keeps its value at the end of the file; before the first
  read it has none.
\<close>

definition next_byte :: "byte_t option \<Rightarrow> byte_t fop" where
  "next_byte c f =
     (case fread 1 f of
        (b # _, g) \<Rightarrow> Inr (b, g)
      | ([], g) \<Rightarrow> (case c of Some b \<Rightarrow> Inr (b, g) | None \<Rightarrow> Inl (Fault ''uninitialised byte'')))"

text \<open>A shift by the width of the word or more is undefined, so the loop ends.\<close>

function leb_loop :: "byte_t option \<Rightarrow> u32 \<Rightarrow> nat \<Rightarrow> nat \<Rightarrow> (u32 \<times> nat) fop" where
  "leb_loop c n shift i =
     fbind (next_byte c) (\<lambda>c f.
     if 32 \<le> shift then Inl (Fault ''shift past the width'')
     else let m = n + push_bit shift (ucast (c AND 0x7f)) in
       if c AND 0x80 \<noteq> 0 then leb_loop (Some c) m (shift + 7) (i + 1) f
       else Inr ((m, i + 1), f))"
  by pat_completeness auto
termination by (relation "measure (\<lambda>(_, _, shift, _). 32 - shift)") auto

declare leb_loop.simps [simp del]

definition ReadLEB128Unsigned :: "(u32 \<times> nat) fop" where
  "ReadLEB128Unsigned = leb_loop None 0 0 0"

text \<open>This loop reads the last byte of a truncated file again and again.\<close>

fun packed_loop :: "nat \<Rightarrow> byte_t option \<Rightarrow> u32 \<Rightarrow> nat \<Rightarrow> (u32 \<times> nat) fop" where
  "packed_loop 0 c n i f = Inl NoFuel"
| "packed_loop (Suc fuel) c n i f =
     fbind (next_byte c) (\<lambda>c f.
     let m = push_bit 7 n OR ucast (c AND 0x7f) in
     if c AND 0x80 \<noteq> 0 then packed_loop fuel (Some c) m (i + 1) f else Inr ((m, i + 1), f)) f"

definition ReadPackedInt32 :: "nat \<Rightarrow> (int \<times> nat) fop" where
  "ReadPackedInt32 fuel = fbind (packed_loop fuel None 0 0) (\<lambda>(n, i). fret (sint n, i))"

section \<open>Headers\<close>

text \<open>Offsets are \<open>off_t\<close> and sizes are \<open>size_t\<close>: 64-bit words here.\<close>

record sect_desc =
  sd_offset :: word_t
  sd_size :: word_t

record binfile_info =
  bi_version :: u32
  bi_nImports :: int
  bi_importSect :: sect_desc
  bi_exportSect :: sect_desc
  bi_litsSect :: sect_desc
  bi_codeSect :: sect_desc
  bi_entry :: int
  bi_isNative :: bool

definition BF_TAG :: "char \<Rightarrow> char \<Rightarrow> char \<Rightarrow> char \<Rightarrow> u32" where
  "BF_TAG c1 c2 c3 c4 = push_bit 24 (of_char c4) OR push_bit 16 (of_char c3) OR push_bit 8 (of_char c2) OR of_char c1"

definition BF_IMPT :: u32 where "BF_IMPT = BF_TAG CHR ''I'' CHR ''M'' CHR ''P'' CHR ''T''"
definition BF_EXPT :: u32 where "BF_EXPT = BF_TAG CHR ''E'' CHR ''X'' CHR ''P'' CHR ''T''"
definition BF_LITS :: u32 where "BF_LITS = BF_TAG CHR ''L'' CHR ''I'' CHR ''T'' CHR ''S''"
definition BF_CODE :: u32 where "BF_CODE = BF_TAG CHR ''C'' CHR ''O'' CHR ''D'' CHR ''E''"
definition BF_CFGP :: u32 where "BF_CFGP = BF_TAG CHR ''C'' CHR ''F'' CHR ''G'' CHR ''P''"

abbreviation (input) CONTAINER_VERSION :: u32 where "CONTAINER_VERSION \<equiv> 0x20250801"
abbreviation (input) BINFILE_VERSION :: u32 where "BINFILE_VERSION \<equiv> 0x20211123"

text \<open>The flags of the loop over the section table.\<close>

record sects_seen =
  seenImports :: bool
  seenExports :: bool
  seenLits :: bool
  seenCodeOrCFG :: bool

definition section_entry :: "byte_t list \<Rightarrow> sects_seen \<times> binfile_info \<Rightarrow> (sects_seen \<times> binfile_info) res" where
  "section_entry bs = (\<lambda>(seen, info).
     let ident = get_u32 0 bs; sect = \<lparr>sd_offset = ucast (get_u32 8 bs), sd_size = ucast (get_u32 12 bs)\<rparr> in
     if ident = BF_IMPT then
       (if seenImports seen then Inl (Die ''multiple 'IMPT' sections'')
        else Inr (seen\<lparr>seenImports := True\<rparr>, info\<lparr>bi_importSect := sect\<rparr>))
     else if ident = BF_EXPT then
       (if seenExports seen then Inl (Die ''multiple 'EXPT' sections'')
        else Inr (seen\<lparr>seenExports := True\<rparr>, info\<lparr>bi_exportSect := sect\<rparr>))
     else if ident = BF_LITS then
       (if seenLits seen then Inl (Die ''multiple 'LITS' sections'')
        else Inr (seen\<lparr>seenLits := True\<rparr>, info\<lparr>bi_litsSect := sect\<rparr>))
     else if ident = BF_CODE then
       (if seenCodeOrCFG seen then Inl (Die ''multiple 'CODE' / 'CFGP' sections'')
        else Inr (seen\<lparr>seenCodeOrCFG := True\<rparr>, info\<lparr>bi_codeSect := sect, bi_isNative := True\<rparr>))
     else if ident = BF_CFGP then
       (if seenCodeOrCFG seen then Inl (Die ''multiple 'CODE' / 'CFGP' sections'')
        else Inr (seen\<lparr>seenCodeOrCFG := True\<rparr>, info\<lparr>bi_codeSect := sect, bi_isNative := False\<rparr>))
     else Inr (seen, info))"

text \<open>The number of sections is an \<open>int\<close>.\<close>

fun read_sects :: "nat \<Rightarrow> sects_seen \<times> binfile_info \<Rightarrow> (sects_seen \<times> binfile_info) fop" where
  "read_sects 0 t = fret t"
| "read_sects (Suc n) t =
     fbind (ReadBinFile 16) (\<lambda>bs f. rbind (section_entry bs t) (\<lambda>t. read_sects n t f))"

text \<open>The number at the start of a section is no part of the rest of the section.\<close>

definition sect_skip :: "nat \<Rightarrow> sect_desc \<Rightarrow> sect_desc" where
  "sect_skip nb d = \<lparr>sd_offset = sd_offset d + of_nat nb, sd_size = sd_size d - of_nat nb\<rparr>"

definition ReadContainerHdr :: "word_t \<Rightarrow> byte_t list \<Rightarrow> binfile_info \<Rightarrow> binfile_info fop" where
  "ReadContainerHdr base buf info =
     fbind (ReadBinFile 20) (\<lambda>rest.
     let nSects = sint (get_u32 16 rest); none = \<lparr>seenImports = False, seenExports = False, seenLits = False, seenCodeOrCFG = False\<rparr> in
     fbind (read_sects (nat nSects) (none, info\<lparr>bi_version := get_u32 8 buf\<rparr>)) (\<lambda>(seen, info).
     if \<not> seenImports seen \<or> \<not> seenExports seen \<or> \<not> seenLits seen \<or> \<not> seenCodeOrCFG seen then ffail (Die ''missing sections'')
     else
       fbind (Seek (base + sd_offset (bi_importSect info))) (\<lambda>_.
       fbind ReadLEB128Unsigned (\<lambda>(n, nb).
       let info = info\<lparr>bi_nImports := sint n, bi_importSect := sect_skip nb (bi_importSect info)\<rparr> in
       if bi_isNative info then
         fbind (Seek (base + sd_offset (bi_codeSect info))) (\<lambda>_.
         fbind ReadLEB128Unsigned (\<lambda>(n, nb).
         fret (info\<lparr>bi_entry := sint n, bi_codeSect := sect_skip nb (bi_codeSect info)\<rparr>)))
       else fret info))))"

text \<open>A big-endian number in a buffer, and as a size.\<close>

definition be32 :: "nat \<Rightarrow> byte_t list \<Rightarrow> u32" where "be32 i bs = SwapBytes32 (get_u32 i bs)"
definition be_size :: "nat \<Rightarrow> byte_t list \<Rightarrow> word_t" where "be_size i bs = ucast (be32 i bs)"

definition ReadVersionHdr :: "byte_t list \<Rightarrow> binfile_info \<Rightarrow> binfile_info fop" where
  "ReadVersionHdr buf info =
     fbind (ReadBinFile 56) (\<lambda>rest.
     let p = buf @ rest; importSz = be_size 44 p; exportSz = 16 * be_size 40 p;
         more = be_size 48 p + be_size 52 p + be_size 56 p;
         litsOff = 68 + importSz + exportSz + more in
     fbind (\<lambda>f. Inr (of_nat (f_pos f) :: word_t, f)) (\<lambda>here.
     fbind (ReadBinFileAt 4 (here + importSz + exportSz + more)) (\<lambda>litsSz.
     fbind (ReadBinFile 4) (\<lambda>_.
     fbind (ReadBinFile 4) (\<lambda>codeSz.
     fbind (ReadBinFile 4) (\<lambda>entry.
     fret (info\<lparr>bi_version := be32 8 buf, bi_nImports := sint (be32 36 p),
       bi_importSect := \<lparr>sd_offset = 68, sd_size = importSz\<rparr>,
       bi_exportSect := \<lparr>sd_offset = 68 + importSz, sd_size = exportSz\<rparr>,
       bi_litsSect := \<lparr>sd_offset = litsOff, sd_size = be_size 0 litsSz\<rparr>,
       bi_codeSect := \<lparr>sd_offset = litsOff + 8, sd_size = be_size 0 codeSz\<rparr>,
       bi_entry := sint (be32 0 entry), bi_isNative := True\<rparr>)))))))"

definition ReadOldHdr :: "word_t \<Rightarrow> byte_t list \<Rightarrow> binfile_info \<Rightarrow> binfile_info fop" where
  "ReadOldHdr base buf info =
     fbind (ReadBinFile 44) (\<lambda>rest.
     let p = buf @ rest; importSz = be_size 24 p; exportSz = 16 * be_size 20 p;
         litsOff = 52 + importSz + exportSz + be_size 28 p + be_size 36 p + be_size 40 p in
     fbind (ReadBinFileAt 4 (base + litsOff)) (\<lambda>litsSz.
     let codeOff = litsOff + 8 + be_size 0 litsSz in
     fbind (ReadBinFileAt 4 (base + codeOff)) (\<lambda>codeSz.
     fbind (ReadBinFile 4) (\<lambda>entry.
     fret (info\<lparr>bi_version := 0, bi_nImports := sint (be32 16 p),
       bi_importSect := \<lparr>sd_offset = 52, sd_size = importSz\<rparr>,
       bi_exportSect := \<lparr>sd_offset = 52 + importSz, sd_size = exportSz\<rparr>,
       bi_litsSect := \<lparr>sd_offset = litsOff + 8, sd_size = be_size 0 litsSz\<rparr>,
       bi_codeSect := \<lparr>sd_offset = codeOff + 8, sd_size = be_size 0 codeSz\<rparr>,
       bi_entry := sint (be32 0 entry), bi_isNative := True\<rparr>)))))"

text \<open>The header at \<open>base\<close>; \<open>info\<close> is the structure of the caller, which is not initialised.\<close>

definition ReadHeader :: "word_t \<Rightarrow> binfile_info \<Rightarrow> binfile_info fop" where
  "ReadHeader base info =
     fbind (ReadBinFile 8) (\<lambda>kind.
     if kind = cbytes ''BinFile '' then
       fbind (ReadBinFile 4) (\<lambda>v.
       let buf = kind @ v in
       if get_u32 0 v = CONTAINER_VERSION then ReadContainerHdr base buf info
       else if be32 0 v = BINFILE_VERSION then ReadVersionHdr buf info
       else ffail (Die ''invalid binfile version''))
     else ReadOldHdr base kind info)"

section \<open>The list of files\<close>

text \<open>\<open>strtoul\<close> with base 0; a value that does not fit is the largest one.\<close>

definition char_digit :: "char \<Rightarrow> nat" where
  "char_digit c =
     (let n = of_char c in
      if 48 \<le> n \<and> n \<le> 57 then n - 48 else if 97 \<le> n \<and> n \<le> 122 then n - 87
      else if 65 \<le> n \<and> n \<le> 90 then n - 55 else 36)"

definition number :: "nat \<Rightarrow> string \<Rightarrow> nat" where
  "number b s = foldl (\<lambda>n c. b * n + char_digit c) 0 (takeWhile (\<lambda>c. char_digit c < b) s)"

definition strtoul :: "string \<Rightarrow> word_t" where
  "strtoul s =
     (let t = dropWhile isspace s;
          neg = (t \<noteq> [] \<and> hd t = CHR ''-'');
          u = (if t \<noteq> [] \<and> hd t \<in> {CHR ''-'', CHR ''+''} then tl t else t);
          hex = (2 < length u \<and> hd u = CHR ''0'' \<and> u ! 1 \<in> {CHR ''x'', CHR ''X''} \<and> char_digit (u ! 2) < 16);
          n = (if hex then number 16 (drop 2 u) else if u \<noteq> [] \<and> hd u = CHR ''0'' then number 8 u else number 10 u)
      in if 2 ^ 64 \<le> n then - 1 else if neg then - of_nat n else of_nat n)"

text \<open>\<open>fgets\<close> into a buffer of \<open>n\<close> characters.\<close>

definition fgets :: "int \<Rightarrow> FILE_t \<Rightarrow> byte_t list option \<times> FILE_t" where
  "fgets n f =
     (if n \<le> 0 then (None, f)
      else let rest = drop (f_pos f) (f_data f); l = takeWhile (\<lambda>b. b \<noteq> 10) rest;
               bs = take (nat n - 1) (if length l < length rest then l @ [10] else l) in
        if 1 < n \<and> rest = [] then (None, f) else (Some bs, f\<lparr>f_pos := f_pos f + length bs\<rparr>))"

text \<open>A line as a C string, with the newline at its end removed.\<close>

definition chomp :: "byte_t list \<Rightarrow> byte_t list res" where
  "chomp bs =
     (let s = takeWhile (\<lambda>b. b \<noteq> 0) bs in
      if s = [] then Inl (Fault ''index -1'') else Inr (if last s = 10 then butlast s else s))"

text \<open>
  The first line: the numbers of files and of characters of a path. The first character is a
  \<open>char\<close> that is compared with \<open>EOF\<close>, -1.
\<close>

definition to_int :: "word_t \<Rightarrow> int" where "to_int w = sint (ucast w :: u32)"

definition boot_sizes :: "(int \<times> int) fop" where
  "boot_sizes f =
     (case fread 1 f of
        ([], _) \<Rightarrow> Inl (Die ''bootlist file is empty'')
      | (c # _, g) \<Rightarrow>
          if c = 0xff then Inl (Die ''bootlist file is empty'')
          else if c = 0x25 then
            (case fgets 128 g of
               (None, _) \<Rightarrow> Inl (Die ''unable to read first line'')
             | (Some bs, g) \<Rightarrow>
                 let s = cchars (takeWhile (\<lambda>b. b \<noteq> 0) bs) in
                 if CHR '' '' \<notin> set s then Inl (Fault ''null pointer'')
                 else Inr ((to_int (strtoul (takeWhile (\<lambda>c. c \<noteq> CHR '' '') s)),
                            to_int (strtoul (tl (dropWhile (\<lambda>c. c \<noteq> CHR '' '') s)) + 2)), g))
          else Inr ((1024, 512), f))"

text \<open>
  The entry of a file: \<open>name [@ offset [: object]]\<close>. The offset of an entry without one is 0.
\<close>

definition split_entry :: "string \<Rightarrow> string \<times> word_t \<times> string" where
  "split_entry s =
     (if CHR ''@'' \<notin> set s then (s, 0, s)
      else let fname = takeWhile (\<lambda>c. c \<noteq> CHR ''@'') s; rest = tl (dropWhile (\<lambda>c. c \<noteq> CHR ''@'') s) in
        if CHR '':'' \<in> set rest
        then (fname, strtoul (takeWhile (\<lambda>c. c \<noteq> CHR '':'') rest), tl (dropWhile (\<lambda>c. c \<noteq> CHR '':'') rest))
        else (fname, strtoul rest, fname))"

text \<open>\<open>HEX\<close> of a \<open>char\<close>, which is signed, and the persistent identifier of a list of hexadecimal digits.\<close>

definition HEX :: "byte_t \<Rightarrow> int" where
  "HEX b =
     (let c = sint b in
      if 48 \<le> c \<and> c \<le> 57 then c - 48 else if 97 \<le> c \<and> c \<le> 122 then c - 97 + 10 else c - 65 + 10)"

definition pid_byte :: "byte_t list \<Rightarrow> nat \<Rightarrow> byte_t res" where
  "pid_byte s i =
     (if length s \<le> 2 * i + 1 then Inl (Fault ''uninitialised byte'')
      else if HEX (s ! (2 * i)) < 0 then Inl (Fault ''shift of a negative number'')
      else Inr (of_int (HEX (s ! (2 * i)) * 16 + HEX (s ! (2 * i + 1)))))"

fun pid_bytes :: "byte_t list \<Rightarrow> nat list \<Rightarrow> byte_t list res" where
  "pid_bytes s [] = Inr []"
| "pid_bytes s (i # is) = rbind (pid_byte s i) (\<lambda>b. rbind (pid_bytes s is) (\<lambda>bs. Inr (b # bs)))"

definition parse_pid :: "byte_t list \<Rightarrow> byte_t list res" where
  "parse_pid s = pid_bytes s [0..<16]"

end
