(* ===== verification/Boot.thy ===== *)
theory Boot
  imports Bin_File Run_ML Literals
begin

text \<open>
  The boot loader, the second half of \<open>kernel/boot.c\<close>: the list of persistent identifiers, the
  import vector, loading a binfile and booting from a list of files. Messages are not modelled. The
  code generator behind \<open>llvm_codegen\<close> is a parameter, as are the addresses of the variables
  whose values are roots.
\<close>

record boot_slots =
  bs_BinFileList :: addr_t
  bs_importRec :: addr_t
  bs_val :: addr_t
  bs_buf :: addr_t                 \<comment> \<open>the buffer of the literals\<close>
  bs_lits :: lit_slots

definition on_file :: "'a fop \<Rightarrow> FILE_t \<Rightarrow> ('a \<times> FILE_t) vmop" where
  "on_file m f s = rbind (m f) (\<lambda>x. Inr (x, s))"

section \<open>Persistent identifiers\<close>

definition EnterPerID :: "env \<Rightarrow> globals \<Rightarrow> byte_t list \<Rightarrow> word_t \<Rightarrow> unit vmop" where
  "EnterPerID E G pid obj =
     vbind (ML_AllocString E G 16) (\<lambda>mlPerID.
     vbind (REC_SEL mlPerID 0) (\<lambda>data.
     vthen (upd_rt (upd_mem (put_bytes data pid)))
    (vbind (ld (G_PervStruct G)) (\<lambda>l.
     vbind (lift_rt (\<lambda>r. Inr (ML_Alloc3 mlPerID obj l r))) (st (G_PervStruct G))))))"

fun find_pid :: "nat \<Rightarrow> byte_t list \<Rightarrow> word_t \<Rightarrow> memory \<Rightarrow> word_t res" where
  "find_pid fuel pid p m =
     (if p = ML_unit then Inl (Die ''unable to find PerID'')
      else case fuel of
        0 \<Rightarrow> Inl NoFuel
      | Suc fuel \<Rightarrow>
          if bytes_at (m (m p)) 16 m = pid then Inr (m (p + 8)) else find_pid fuel pid (m (p + 16)) m)"

declare find_pid.simps [simp del]

definition LookupPerID :: "env \<Rightarrow> globals \<Rightarrow> byte_t list \<Rightarrow> word_t vmop" where
  "LookupPerID E G pid = lift_rt (\<lambda>r.
     rbind (find_pid (env_fuel E) pid (rt_mem r (G_PervStruct G)) (rt_mem r)) (\<lambda>v. Inr (v, r)))"

section \<open>The import vector\<close>

text \<open>
  The selection from one object: the position in the vector and the stream are passed on. The two
  versions differ in the format of numbers.
\<close>

fun import_sel :: "nat \<Rightarrow> (int \<times> nat) fop \<Rightarrow> word_t \<Rightarrow> nat \<times> FILE_t \<Rightarrow> (nat \<times> FILE_t) vmop"
and import_sels :: "nat \<Rightarrow> (int \<times> nat) fop \<Rightarrow> nat \<Rightarrow> word_t \<Rightarrow> nat \<times> FILE_t \<Rightarrow> (nat \<times> FILE_t) vmop" where
  "import_sel 0 rd tree pf s = Inl NoFuel"
| "import_sel (Suc fuel) rd tree (pos, f) s =
     vbind (on_file rd f) (\<lambda>((cnt, _), f).
     if cnt = 0 then vthen (upd_rt (ML_AllocWrite pos tree)) (vret (pos + 1, f))
     else import_sels fuel rd (nat cnt) tree (pos, f)) s"
| "import_sels fuel rd 0 tree pf s = Inr (pf, s)"
| "import_sels 0 rd (Suc n) tree pf s = Inl NoFuel"
| "import_sels (Suc fuel) rd (Suc n) tree (pos, f) s =
     vbind (on_file rd f) (\<lambda>((selector, _), f).
     vbind (ld (tree + 8 * of_int selector)) (\<lambda>t.
     vbind (import_sel fuel rd t (pos, f)) (import_sels fuel rd n tree))) s"

definition ReadLEB128 :: "(int \<times> nat) fop" where
  "ReadLEB128 = fbind ReadLEB128Unsigned (\<lambda>(n, i). fret (sint n, i))"

definition ImportSelection :: "env \<Rightarrow> word_t \<Rightarrow> nat \<times> FILE_t \<Rightarrow> (nat \<times> FILE_t) vmop" where
  "ImportSelection E = import_sel (env_fuel E) ReadLEB128"

definition OldImportSelection :: "env \<Rightarrow> word_t \<Rightarrow> nat \<times> FILE_t \<Rightarrow> (nat \<times> FILE_t) vmop" where
  "OldImportSelection E = import_sel (env_fuel E) (ReadPackedInt32 (env_fuel E))"

fun import_loop :: "nat \<Rightarrow> env \<Rightarrow> globals \<Rightarrow> u32 \<Rightarrow> int \<Rightarrow> nat \<times> FILE_t \<Rightarrow> (nat \<times> FILE_t) vmop" where
  "import_loop fuel E G version len (pos, f) s =
     (if len \<le> int pos then Inr ((pos, f), s)
      else case fuel of
        0 \<Rightarrow> Inl NoFuel
      | Suc fuel \<Rightarrow>
          vbind (on_file (ReadBinFile 16) f) (\<lambda>(pid, f).
          vbind (LookupPerID E G pid) (\<lambda>tree.
          vbind (if version = CONTAINER_VERSION then ImportSelection E tree (pos, f) else OldImportSelection E tree (pos, f))
            (import_loop fuel E G version len))) s)"

declare import_loop.simps [simp del]

text \<open>The vector goes to the variable \<open>importRec\<close>. \<open>nImports + 1\<close> and the size are \<open>int\<close>s.\<close>

definition import_vector :: "env \<Rightarrow> globals \<Rightarrow> boot_slots \<Rightarrow> word_t \<Rightarrow> binfile_info \<Rightarrow> FILE_t \<Rightarrow> FILE_t vmop" where
  "import_vector E G B archiveOffset hdr f =
     (let len = bi_nImports hdr + 1 in
      vbind (on_file (Seek (archiveOffset + sd_offset (bi_importSect hdr))) f) (\<lambda>(_, f).
      if INT_MAX \<le> len then vfail (Fault ''signed overflow'')
      else
        vbind (read_rt (NeedGC (8 * of_int (len + 1)))) (\<lambda>gc.
        vthen (if gc then InvokeGCWithRoots E G 0 [bs_BinFileList B] else vret ())
       (vthen (upd_rt (ML_AllocWrite 0 (MAKE_DESC (of_int len) DTAG_record)))
       (vbind (import_loop (env_fuel E) E G (bi_version hdr) len (1, f)) (\<lambda>(_, f).
        if len < 0 then vfail (Fault ''index out of bounds'')
        else
          vthen (upd_rt (ML_AllocWrite (nat len) ML_nil))
         (vbind (lift_rt (\<lambda>r. Inr (ML_Alloc (nat len) r))) (\<lambda>v.
          vthen (st (bs_importRec B) v) (vret f)))))))))"

text \<open>The copy of the vector whose last element is the literal vector.\<close>

definition import_with_literals :: "boot_slots \<Rightarrow> nat \<Rightarrow> word_t \<Rightarrow> word_t vmop" where
  "import_with_literals B len v =
     vbind (ld (bs_importRec B)) (\<lambda>p.
     vthen (upd_rt (\<lambda>r. fold (\<lambda>i r. ML_AllocWrite i (rt_mem r (p + 8 * of_nat i - 8)) r) [0..<len] r))
    (vthen (upd_rt (ML_AllocWrite len v))
     (lift_rt (\<lambda>r. Inr (ML_Alloc len r)))))"

section \<open>Loading a binfile\<close>

text \<open>A size that is passed as an \<open>int\<close>.\<close>

definition ReadSized :: "word_t \<Rightarrow> byte_t list fop" where
  "ReadSized n = (if to_int n < 0 then ffail (Fault ''negative size'') else ReadBinFile (nat (to_int n)))"

definition export_pid :: "word_t \<Rightarrow> binfile_info \<Rightarrow> byte_t list fop" where
  "export_pid archiveOffset hdr =
     (if sd_size (bi_exportSect hdr) = 16 then ReadBinFileAt 16 (archiveOffset + sd_offset (bi_exportSect hdr))
      else if sd_size (bi_exportSect hdr) \<noteq> 0 then ffail (Die ''size of export pids'')
      else fret [])"

definition load_literals :: "env \<Rightarrow> globals \<Rightarrow> boot_slots \<Rightarrow> word_t \<Rightarrow> binfile_info \<Rightarrow> FILE_t \<Rightarrow> (word_t \<times> FILE_t) vmop" where
  "load_literals E G B archiveOffset hdr f =
     (let sz = sd_size (bi_litsSect hdr); vars = [bs_BinFileList B, bs_importRec B] in
      if sz = 0 then vret (ML_unit, f)
      else
        vbind (on_file (fbind (Seek (archiveOffset + sd_offset (bi_litsSect hdr))) (\<lambda>_. ReadSized sz)) f) (\<lambda>(bs, f).
        vthen (upd_rt (upd_mem (put_bytes (bs_buf B) bs)))
       (vthen (SaveCState G vars)
       (vbind (BuildLiterals E G (bs_lits B) (bs_buf B) (to_int sz)) (\<lambda>v.
        vthen (RestoreCState G vars) (vret (v, f)))))))"

text \<open>The collection before the code is loaded and after it has run: the value is kept in \<open>val\<close>.\<close>

definition gc_with_val :: "env \<Rightarrow> globals \<Rightarrow> boot_slots \<Rightarrow> word_t \<Rightarrow> word_t vmop" where
  "gc_with_val E G B v =
     vbind (read_rt (NeedGC (16 + 6 * 8))) (\<lambda>gc.
     if gc then
       vthen (st (bs_val B) v)
      (vthen (InvokeGCWithRoots E G 0 [bs_BinFileList B, bs_val B])
      (ld (bs_val B)))
     else vret v)"

text \<open>The code of the section, native or generated, and its entry point.\<close>

definition load_code ::
  "env \<Rightarrow> (string \<Rightarrow> byte_t list \<Rightarrow> word_t vmop) \<Rightarrow> string \<Rightarrow> binfile_info \<Rightarrow> byte_t list \<Rightarrow> (word_t \<times> int) vmop" where
  "load_code E llvm_codegen objname hdr bs =
     (if bi_isNative hdr then vbind (ML_AllocCode E bs) (\<lambda>code. vret (code, bi_entry hdr))
      else
        vbind (llvm_codegen objname bs) (\<lambda>pr.
        vbind (REC_SEL pr 0) (\<lambda>vec.
        vbind (REC_SEL vec 0) (\<lambda>data.
        vbind (REC_SEL pr 1) (\<lambda>entry.
        vbind (REC_SEL vec 1) (\<lambda>n.
        if to_int (INT_MLtoC n) < 0 then vfail (Fault ''negative size'')
        else
          vbind (read_rt (\<lambda>r. bytes_at data (nat (to_int (INT_MLtoC n))) (rt_mem r))) (\<lambda>bs.
          vbind (ML_AllocCode E bs) (\<lambda>code. vret (code, to_int (INT_MLtoC entry))))))))))"

definition run_code ::
  "env \<Rightarrow> globals \<Rightarrow> ext \<Rightarrow> boot_slots \<Rightarrow> (string \<Rightarrow> byte_t list \<Rightarrow> word_t vmop) \<Rightarrow> string \<Rightarrow> word_t \<Rightarrow> binfile_info
    \<Rightarrow> word_t \<Rightarrow> FILE_t \<Rightarrow> word_t vmop" where
  "run_code E G X B llvm_codegen objname archiveOffset hdr v f =
     (if sd_size (bi_codeSect hdr) = 0 then vret v
      else
        vbind (on_file (fbind (Seek (archiveOffset + sd_offset (bi_codeSect hdr))) (\<lambda>_. ReadSized (sd_size (bi_codeSect hdr)))) f) (\<lambda>(bs, _).
        vbind (load_code E llvm_codegen objname hdr bs) (\<lambda>(code, entry).
        vbind (lift_rt (\<lambda>r. Inr (ML_Alloc1 (code + of_int entry) r))) (\<lambda>closure.
        vthen (SaveCState G [bs_BinFileList B])
       (vbind (ApplyMLFn (env_fuel E) E G X closure v True) (\<lambda>v.
        vthen (RestoreCState G [bs_BinFileList B])
       (gc_with_val E G B v)))))))"

definition LoadBinFile ::
  "env \<Rightarrow> globals \<Rightarrow> ext \<Rightarrow> boot_slots \<Rightarrow> (string \<Rightarrow> byte_t list \<Rightarrow> word_t vmop) \<Rightarrow> (string \<Rightarrow> FILE_t option) \<Rightarrow> binfile_info
    \<Rightarrow> string \<Rightarrow> unit vmop" where
  "LoadBinFile E G X B llvm_codegen fopen junk entry =
     (let (fname, archiveOffset, objname) = split_entry entry in
      case fopen fname of
        None \<Rightarrow> vfail (Exited 1)
      | Some f \<Rightarrow>
          vbind (on_file (if archiveOffset \<noteq> 0 then Seek archiveOffset else fret ()) f) (\<lambda>(_, f).
          vbind (on_file (ReadHeader archiveOffset junk) f) (\<lambda>(hdr, f).
          vbind (import_vector E G B archiveOffset hdr f) (\<lambda>f.
          vbind (on_file (export_pid archiveOffset hdr) f) (\<lambda>(pid, f).
          vbind (load_literals E G B archiveOffset hdr f) (\<lambda>(lits, f).
          vbind (import_with_literals B (nat (bi_nImports hdr + 1)) lits) (\<lambda>v.
          vbind (gc_with_val E G B v) (\<lambda>v.
          vbind (run_code E G X B llvm_codegen objname archiveOffset hdr v f) (\<lambda>v.
          if sd_size (bi_exportSect hdr) \<noteq> 0 then EnterPerID E G pid v else vret ())))))))))"

section \<open>Booting\<close>

text \<open>
  The names are kept as ML strings in a table of the given size, one line each; the stream has at
  least one byte for every line.
\<close>

fun read_names :: "nat \<Rightarrow> env \<Rightarrow> globals \<Rightarrow> int \<Rightarrow> int \<Rightarrow> word_t list \<Rightarrow> FILE_t \<Rightarrow> word_t list vmop" where
  "read_names 0 E G maxFiles maxLen names f s = Inl NoFuel"
| "read_names (Suc fuel) E G maxFiles maxLen names f s =
     (case fgets maxLen f of
        (None, _) \<Rightarrow> Inr (names, s)
      | (Some bs, f) \<Rightarrow> rbind (chomp bs) (\<lambda>name.
          if int (length names) < maxFiles then
            vbind (ML_CString E G (Some name)) (\<lambda>v. read_names fuel E G maxFiles maxLen (names @ [v]) f) s
          else Inl (Die ''too many files'')))"

fun list_of :: "word_t list \<Rightarrow> word_t \<Rightarrow> word_t vmop" where
  "list_of [] p s = Inr (p, s)"
| "list_of (v # vs) p s = vbind (cons v p) (list_of vs) s"

text \<open>The list, and the length of the buffer for a path, which is not set if there is no file.\<close>

definition BuildFileList :: "env \<Rightarrow> globals \<Rightarrow> FILE_t option \<Rightarrow> (word_t \<times> int option) vmop" where
  "BuildFileList E G listF =
     (case listF of
        None \<Rightarrow> vret (ML_unit, None)
      | Some f \<Rightarrow>
          vbind (on_file boot_sizes f) (\<lambda>((maxFiles, maxLen), f).
          if maxLen < 0 \<or> maxFiles < 0 then vfail (Die ''unable to allocate space for boot file names'')
          else
            vbind (read_names (Suc (length (f_data f))) E G maxFiles maxLen [] f) (\<lambda>names.
            vbind (list_of (rev names) ML_unit) (\<lambda>l. vret (l, Some maxLen)))))"

text \<open>
  One element of the list: a name that starts with \<open>#\<close> registers the run-time system; the result says
  whether this has happened.
\<close>

definition boot_item ::
  "env \<Rightarrow> globals \<Rightarrow> ext \<Rightarrow> boot_slots \<Rightarrow> (string \<Rightarrow> byte_t list \<Rightarrow> word_t vmop) \<Rightarrow> (string \<Rightarrow> FILE_t option) \<Rightarrow> binfile_info
    \<Rightarrow> byte_t list \<Rightarrow> bool \<Rightarrow> bool vmop" where
  "boot_item E G X B llvm_codegen fopen junk name rts_init =
     (if name \<noteq> [] \<and> hd name = 0x23 then
        (if rts_init then vfail (Die ''runtime system registered more than once'')
         else
           vbind (\<lambda>s. rbind (parse_pid (tl name)) (\<lambda>p. Inr (p, s))) (\<lambda>pid.
           vbind (ld (G_RunTimeCompUnit G)) (\<lambda>obj.
           vthen (EnterPerID E G pid obj) (vret True))))
      else vthen (LoadBinFile E G X B llvm_codegen fopen junk (cchars name)) (vret rts_init))"

fun boot_loop ::
  "nat \<Rightarrow> env \<Rightarrow> globals \<Rightarrow> ext \<Rightarrow> boot_slots \<Rightarrow> (string \<Rightarrow> byte_t list \<Rightarrow> word_t vmop) \<Rightarrow> (string \<Rightarrow> FILE_t option) \<Rightarrow> binfile_info
    \<Rightarrow> int \<Rightarrow> bool \<Rightarrow> unit vmop" where
  "boot_loop 0 E G X B llvm_codegen fopen junk n rts_init s = Inl NoFuel"
| "boot_loop (Suc fuel) E G X B llvm_codegen fopen junk n rts_init s =
     vbind (ld (bs_BinFileList B)) (\<lambda>l.
     if l = ML_unit then vret ()
     else
       vbind (REC_SEL l 0) (\<lambda>str.
       vbind (REC_SEL str 0) (\<lambda>data.
       vbind (read_rt (\<lambda>r. cstring_at (nat n) data (rt_mem r))) (\<lambda>name.
       if int (length name) = n then vfail (Fault ''unterminated string'')
       else
         vbind (REC_SEL l 1) (\<lambda>rest.
         vthen (st (bs_BinFileList B) rest)
        (vbind (boot_item E G X B llvm_codegen fopen junk name rts_init) (\<lambda>rts_init.
         boot_loop fuel E G X B llvm_codegen fopen junk n rts_init))))))) s"

definition BootML ::
  "env \<Rightarrow> globals \<Rightarrow> ext \<Rightarrow> boot_slots \<Rightarrow> (string \<Rightarrow> byte_t list \<Rightarrow> word_t vmop) \<Rightarrow> (string \<Rightarrow> FILE_t option) \<Rightarrow> binfile_info
    \<Rightarrow> u32 \<Rightarrow> (nat \<Rightarrow> nat \<Rightarrow> arena) \<Rightarrow> gc_timers \<Rightarrow> string \<Rightarrow> heap_params \<Rightarrow> Init_GC.freed list vmop" where
  "BootML E G X B llvm_codegen fopen junk pageSize junkA junkT bootlist params =
     vthen (AllocMLState E G pageSize junkA junkT True params)
    (vthen (AllocGlobals G)
    (vbind (BuildFileList E G (fopen bootlist)) (\<lambda>(l, maxLen).
     vthen (st (bs_BinFileList B) l)
    (vthen (case maxLen of None \<Rightarrow> vfail (Fault ''uninitialised length'')
            | Some n \<Rightarrow> boot_loop (env_fuel E) E G X B llvm_codegen fopen junk n False)
     (\<lambda>s. Inr (FreeMLState s, s))))))"

end
