(* ===== verification/Program.thy ===== *)
theory Program
  imports Boot Import_Heap
begin

text \<open>
  The start of the program: the symbols that the heap may refer to (\<open>RecordGlobals\<close> of
  \<open>kernel/globals.c\<close>), the tables of C functions (\<open>c-libs/c-libraries.c\<close>), loading an image
  (\<open>kernel/load-ml.c\<close>) and the two main programs (\<open>kernel/main.c\<close>, \<open>kernel/standalone.c\<close>).
\<close>

section \<open>Symbols\<close>

text \<open>The addresses of deprecated objects, which only the table of symbols knows.\<close>

record old_globals =
  O_logb :: addr_t
  O_try_lock :: addr_t
  O_unlock :: addr_t
  O_MLPollHandler :: addr_t
  O_PollEvent :: addr_t
  O_PollFreq :: addr_t
  O_ActiveProcs :: addr_t

definition global_symbols :: "globals \<Rightarrow> old_globals \<Rightarrow> (string \<times> word_t) list" where
  "global_symbols G D =
     (let v = (\<lambda>i. G_runvec G ! i) in
      [(''nullptr'', 0), (''handle'', G_handle G), (''return'', G_return_c G),
       (''RunVec.array'', v 0), (''RunVec.bind_cfun'', v 1), (''RunVec.callc'', v 2), (''RunVec.create_b'', v 3),
       (''RunVec.create_r'', v 4), (''RunVec.create_s'', v 5), (''RunVec.create_v'', v 6), (''RunVec.floor'', v 7),
       (''RunVec.logb'', O_logb D), (''RunVec.scalb'', v 8), (''RunVec.try_lock'', O_try_lock D), (''RunVec.unlock'', O_unlock D),
       (''CStruct.DivId'', G_DivId G), (''CStruct.OverflowId'', G_OverflowId G), (''CStruct.SysErrId'', G_SysErrId G),
       (''CStruct.PervStruct'', G_PervStruct G), (''CStruct.MLSignalHandler'', G_MLSignalHandler G),
       (''CStruct.vector0'', G_vector0 G), (''CStruct.profCurrent'', G_ProfCurrent G),
       (''CStruct.MLPollHandler'', O_MLPollHandler D), (''CStruct.pollEvent'', O_PollEvent D),
       (''CStruct.pollFreq'', O_PollFreq D), (''CStruct.activeProcs'', O_ActiveProcs D), (''string0'', G_string0 G)])"

definition RecordGlobals :: "globals \<Rightarrow> old_globals \<Rightarrow> registry \<Rightarrow> registry res" where
  "RecordGlobals G D = rfold (\<lambda>(name, addr). RecordCSymbol name addr) (global_symbols G D)"

section \<open>C libraries\<close>

text \<open>A library; a function of it is its name and the address of its binding.\<close>

record c_library =
  libName :: string
  initFn :: "unit vmop option"
  cfuns :: "(string \<times> addr_t) list"

definition init_library :: "c_library \<Rightarrow> registry \<times> vm \<Rightarrow> (registry \<times> vm) res" where
  "init_library lib = (\<lambda>(r, s).
     rbind (case initFn lib of None \<Rightarrow> Inr ((), s) | Some f \<Rightarrow> f s) (\<lambda>(_, s).
     rbind (rfold (\<lambda>(name, addr). RecordCSymbol (libName lib @ ''.'' @ name) addr) (cfuns lib) r) (\<lambda>r.
     Inr (r, s))))"

definition InitCFunList :: "c_library list \<Rightarrow> registry \<times> vm \<Rightarrow> (registry \<times> vm) res" where
  "InitCFunList libs = rfold init_library libs"

text \<open>Only the first library of the name is searched.\<close>

definition BindCFun_lib :: "c_library list \<Rightarrow> string \<Rightarrow> string \<Rightarrow> word_t" where
  "BindCFun_lib libs moduleName funName =
     (case find (\<lambda>l. libName l = moduleName) libs of
        None \<Rightarrow> ML_unit
      | Some l \<Rightarrow> (case find (\<lambda>f. fst f = funName) (cfuns l) of None \<Rightarrow> ML_unit | Some f \<Rightarrow> snd f))"

section \<open>Running an image\<close>

definition LoadML ::
  "env \<Rightarrow> globals \<Rightarrow> ext \<Rightarrow> registry \<Rightarrow> u32 \<Rightarrow> (nat \<Rightarrow> nat \<Rightarrow> arena) \<Rightarrow> gc_timers \<Rightarrow> (string \<Rightarrow> FILE_t option) \<Rightarrow> addr_t \<times> addr_t
    \<Rightarrow> byte_t list \<Rightarrow> byte_t list list \<Rightarrow> string option \<Rightarrow> heap_params \<Rightarrow> Init_GC.freed list vmop" where
  "LoadML E G X r pageSize junkA junkT fopen mimage cmdname args loadImage params =
     vthen (ImportHeapImage E G r pageSize junkA junkT fopen mimage cmdname args loadImage params)
    (vthen (RunML (env_fuel E) E G X)
     (\<lambda>s. Inr (FreeMLState s, s)))"

section \<open>The main programs\<close>

text \<open>
  What the program is linked with and what it finds: the libraries, the code generator, the image in
  memory, the file system, memory that is not initialised. \<open>fopenw\<close> says whether a file can be
  opened for debugging output.
\<close>

record world =
  w_env :: env
  w_globals :: globals
  w_old_globals :: old_globals
  w_ext :: ext
  w_slots :: boot_slots
  w_codegen :: "string \<Rightarrow> byte_t list \<Rightarrow> word_t vmop"
  w_libs :: "c_library list"
  w_fopen :: "string \<Rightarrow> FILE_t option"
  w_fopenw :: "string \<Rightarrow> bool"
  w_image :: "addr_t \<times> addr_t"
  w_pageSize :: u32
  w_junkArena :: "nat \<Rightarrow> nat \<Rightarrow> arena"
  w_junkTimers :: gc_timers
  w_junkInfo :: binfile_info

text \<open>\<open>InitTimers\<close>, \<open>RecordGlobals\<close> and \<open>InitCFunList\<close>.\<close>

definition start_up :: "world \<Rightarrow> options \<Rightarrow> vm \<Rightarrow> (registry \<times> vm) res" where
  "start_up W opts s =
     rbind (RecordGlobals (w_globals W) (w_old_globals W) empty_registry) (\<lambda>r.
     InitCFunList (w_libs W) (r, s\<lparr>vm_latches := InitTimers, vm_UnlimitedHeap := UnlimitedHeap opts\<rparr>))"

text \<open>The program either runs for ever or ends with an error or a call of \<open>Exit\<close>.\<close>

definition finish :: "Init_GC.freed list vmop \<Rightarrow> unit vmop" where
  "finish m = vbind m (\<lambda>_. vfail (Exited 0))"

definition run_image :: "world \<Rightarrow> options \<Rightarrow> registry \<Rightarrow> string option \<Rightarrow> heap_params \<Rightarrow> Init_GC.freed list vmop" where
  "run_image W opts r img params =
     LoadML (w_env W) (w_globals W) (w_ext W) r (w_pageSize W) (w_junkArena W) (w_junkTimers W) (w_fopen W) (w_image W)
       (cbytes (case MLCmdName opts of None \<Rightarrow> [] | Some c \<Rightarrow> c)) (map cbytes (CmdLineArgs opts)) img params"

definition main :: "world \<Rightarrow> string list \<Rightarrow> unit vmop" where
  "main W argv s =
     rbind (ParseOptions (w_fopenw W) argv init_options) (\<lambda>(hp, opts).
     case hp of
       None \<Rightarrow> Inl (Exited 1)
     | Some params \<Rightarrow>
         rbind (start_up W opts s) (\<lambda>(r, s).
         finish
           (if isBoot opts then
              BootML (w_env W) (w_globals W) (w_ext W) (w_slots W) (w_codegen W) (w_fopen W) (w_junkInfo W) (w_pageSize W)
                (w_junkArena W) (w_junkTimers W) (case BootFrom opts of None \<Rightarrow> [] | Some b \<Rightarrow> b) params
            else run_image W opts r (LoadImage opts) params) s))"

text \<open>The stand-alone program does not know the options \<open>boot\<close>, \<open>load\<close> and \<open>cmdname\<close>, and drops them.\<close>

definition standalone_option :: "(string \<Rightarrow> bool) \<Rightarrow> string \<Rightarrow> options \<Rightarrow> options res" where
  "standalone_option fopen arg opts =
     (case isRuntimeOption arg of
        None \<Rightarrow> Inr (opts\<lparr>CmdLineArgs := CmdLineArgs opts @ [arg]\<rparr>)
      | Some (opt, optionArg) \<Rightarrow>
          if MAX_OPT_LEN \<le> length opt then Inl (Fault ''option buffer overflow'')
          else if opt = ''quiet'' then Inr (opts\<lparr>SilentLoad := True\<rparr>)
          else if opt = ''verbose'' then Inr (opts\<lparr>SilentLoad := False\<rparr>)
          else if opt = ''objects'' then Inr (opts\<lparr>DumpObjectStrings := True\<rparr>)
          else if opt = ''gcmessages'' then Inr (opts\<lparr>GCMessages := True\<rparr>)
          else if opt = ''debug'' then
            rbind (char_at arg optionArg) (\<lambda>c.
            if c = CHR 0x00 then Inr (opts\<lparr>opt_errFlg := True\<rparr>)
            else if fopen (drop optionArg arg) then Inr (opts\<lparr>DebugF := Some (drop optionArg arg)\<rparr>)
            else Inl (Fault ''%s applied to a character''))
          else Inr opts)"

definition standalone_options :: "(string \<Rightarrow> bool) \<Rightarrow> string list \<Rightarrow> options \<Rightarrow> (heap_params option \<times> options) res" where
  "standalone_options fopen argv opts =
     rbind (ParseHeapParams argv (UnlimitedHeap opts)) (\<lambda>(hp, ul).
       let opts1 = opts\<lparr>UnlimitedHeap := ul, opt_errFlg := (hp = None), CmdLineArgs := [],
                    MLCmdName := (case argv of [] \<Rightarrow> None | a # _ \<Rightarrow> Some a)\<rparr>
       in rbind (rfold (standalone_option fopen) (tl argv) opts1) (\<lambda>opts2.
            if opt_errFlg opts2 then Inl (Exited 1) else Inr (hp, opts2)))"

definition standalone_main :: "world \<Rightarrow> string list \<Rightarrow> unit vmop" where
  "standalone_main W argv s =
     rbind (standalone_options (w_fopenw W) argv init_options) (\<lambda>(hp, opts).
     case hp of
       None \<Rightarrow> Inl (Exited 1)
     | Some params \<Rightarrow>
         rbind (start_up W opts s) (\<lambda>(r, s). finish (run_image W opts r None params) s))"

end
