(* ===== verification/Bin_Format.thy ===== *)
theory Bin_Format
  imports Bin_File
begin

text \<open>
  The producer of binfiles, \<open>src/compiler/Execution/binfile/binfile.sml\<close> and \<open>binfile-io.sml\<close>. A
  section is an identifier, the size that its producer announced and the bytes that it writes.
\<close>

section \<open>Packed numbers: leb128.sml\<close>

text \<open>\<open>encodeNativeWord\<close> and \<open>sizeOfWord64\<close>.\<close>

fun encodeWord :: "nat \<Rightarrow> byte_t list" where
  "encodeWord n = (if n div 128 = 0 then [of_nat (n mod 128)] else of_nat (n mod 128 + 128) # encodeWord (n div 128))"

fun size_lp :: "nat \<Rightarrow> nat \<Rightarrow> nat" where
  "size_lp w sz = (if w = 0 then sz else size_lp (w div 128) (sz + 1))"

declare encodeWord.simps [simp del] size_lp.simps [simp del]

definition sizeOfPackedInt :: "nat \<Rightarrow> nat" where "sizeOfPackedInt n = size_lp (n div 128) 1"

section \<open>Output: binfile-io.sml\<close>

record sect_data =
  sd_kind :: u32
  sd_szB :: nat
  sd_out :: "byte_t list"

definition sect_id :: "char \<Rightarrow> char \<Rightarrow> char \<Rightarrow> char \<Rightarrow> u32" where
  "sect_id c1 c2 c3 c4 = push_bit 24 (of_char c4) + push_bit 16 (of_char c3) + push_bit 8 (of_char c2) + of_char c1"

definition sizeOfHdr :: "nat \<Rightarrow> nat" where "sizeOfHdr nSects = 32 + 16 * nSects"

text \<open>The entries of the section table; the offset is a 63-bit word of which 32 bits are written.\<close>

fun out_descs :: "nat \<Rightarrow> sect_data list \<Rightarrow> byte_t list" where
  "out_descs offset [] = []"
| "out_descs offset (d # ds) =
     u32_bytes (sd_kind d) @ u32_bytes 0 @ u32_bytes (of_nat offset) @ u32_bytes (of_nat (sd_szB d))
     @ out_descs (offset + sd_szB d) ds"

text \<open>\<open>finish\<close>; \<open>v\<close> is the version of the compiler, padded or trimmed to 16 characters.\<close>

definition pad_right :: "nat \<Rightarrow> string \<Rightarrow> string" where "pad_right n s = take n s @ replicate (n - length s) CHR '' ''"

definition finish_file :: "bool \<Rightarrow> string \<Rightarrow> sect_data list \<Rightarrow> byte_t list" where
  "finish_file isArchive v sects =
     cbytes (if isArchive then ''StabArch'' else ''BinFile '') @ u32_bytes CONTAINER_VERSION @ cbytes (pad_right 16 v)
     @ u32_bytes (of_nat (length sects)) @ out_descs (sizeOfHdr (length sects)) sects @ concat (map sd_out sects)"

section \<open>Binfiles: binfile.sml\<close>

datatype itree = ITNODE "(nat \<times> itree) list"

datatype code = NoCode | CFGPickle "byte_t list" | NativeCode nat "byte_t list"

record binfile =
  bf_version :: string
  bf_arch :: string
  bf_imports :: "(byte_t list \<times> itree) list"
  bf_exportPid :: "byte_t list option"
  bf_cmData :: "byte_t list list"
  bf_guid :: string
  bf_lits :: "byte_t list"
  bf_code :: code
  bf_senvPid :: "byte_t list"
  bf_senv :: "byte_t list"

text \<open>The sizes and the numbers of leaves.\<close>

fun itreeSz :: "itree \<Rightarrow> nat \<times> nat \<Rightarrow> nat \<times> nat" and specsSz :: "(nat \<times> itree) list \<Rightarrow> nat \<times> nat \<Rightarrow> nat \<times> nat" where
  "itreeSz (ITNODE l) (nl, sz) = (if l = [] then (nl + 1, sz + 1) else specsSz l (nl, sz + sizeOfPackedInt (length l)))"
| "specsSz [] p = p"
| "specsSz ((selector, tree) # l) (nl, sz) = specsSz l (itreeSz tree (nl, sz + sizeOfPackedInt selector))"

definition importTreeSize :: "(byte_t list \<times> itree) list \<Rightarrow> nat \<times> nat" where
  "importTreeSize trees =
     (let (nl, sz) = fold (\<lambda>(pid, tree) (nl, sz). itreeSz tree (nl, sz + 16)) trees (0, 0) in (nl, sizeOfPackedInt nl + sz))"

fun emit_tree :: "itree \<Rightarrow> byte_t list" and emit_specs :: "(nat \<times> itree) list \<Rightarrow> byte_t list" where
  "emit_tree (ITNODE l) = (if l = [] then encodeWord 0 else encodeWord (length l) @ emit_specs l)"
| "emit_specs [] = []"
| "emit_specs ((selector, tree) # l) = encodeWord selector @ emit_tree tree @ emit_specs l"

definition emit_imports :: "(byte_t list \<times> itree) list \<Rightarrow> byte_t list" where
  "emit_imports l = concat (map (\<lambda>(pid, tree). pid @ emit_tree tree) l)"

definition sectionf :: "string \<Rightarrow> nat \<Rightarrow> byte_t list \<Rightarrow> sect_data" where
  "sectionf i sz bs = \<lparr>sd_kind = sect_id (i ! 0) (i ! 1) (i ! 2) (i ! 3), sd_szB = sz, sd_out = bs\<rparr>"

definition pad_left :: "nat \<Rightarrow> string \<Rightarrow> string" where "pad_left n s = replicate (n - length s) CHR '' '' @ take n s"

definition addInfoSection :: "binfile \<Rightarrow> sect_data" where
  "addInfoSection b = sectionf ''INFO'' 16 (cbytes (pad_left 8 (bf_arch b)) @ cbytes (pad_left 8 ''''))"

definition addImportTreeSection :: "binfile \<Rightarrow> sect_data" where
  "addImportTreeSection b =
     (let (nLeaves, sz) = importTreeSize (bf_imports b)
      in sectionf ''IMPT'' sz (encodeWord nLeaves @ emit_imports (bf_imports b)))"

definition addExportSection :: "binfile \<Rightarrow> sect_data" where
  "addExportSection b = (case bf_exportPid b of None \<Rightarrow> sectionf ''EXPT'' 0 [] | Some pid \<Rightarrow> sectionf ''EXPT'' 16 pid)"

definition addCodeSection :: "binfile \<Rightarrow> sect_data list" where
  "addCodeSection b =
     (let lits = sectionf ''LITS'' (length (bf_lits b)) (bf_lits b) in
      case bf_code b of
        NoCode \<Rightarrow> []
      | CFGPickle pkl \<Rightarrow> [lits, sectionf ''CFGP'' (length pkl) pkl]
      | NativeCode entry bs \<Rightarrow> [lits, sectionf ''CODE'' (sizeOfPackedInt entry + length bs) (encodeWord entry @ bs)])"

definition addStaticEnvSection :: "bool \<Rightarrow> binfile \<Rightarrow> sect_data" where
  "addStaticEnvSection nopickle b =
     sectionf ''SENV'' (if nopickle then 16 else 16 + length (bf_senv b)) (bf_senvPid b @ (if nopickle then [] else bf_senv b))"

definition sections :: "bool \<Rightarrow> binfile \<Rightarrow> sect_data list" where
  "sections nopickle b =
     [addInfoSection b, addImportTreeSection b, addExportSection b,
      sectionf ''PIDS'' (16 * length (bf_cmData b)) (concat (bf_cmData b)),
      sectionf ''GUID'' (length (bf_guid b)) (cbytes (bf_guid b))]
     @ addCodeSection b @ [addStaticEnvSection nopickle b]"

definition write_binfile :: "bool \<Rightarrow> binfile \<Rightarrow> byte_t list" where
  "write_binfile nopickle b = finish_file False (bf_version b) (sections nopickle b)"

end
