(* ===== verification/Bin_Correct.thy ===== *)
theory Bin_Correct
  imports Bin_Format
begin

text \<open>
  The boot loader finds in a file what the compiler put there: the packed numbers are read back,
  the announced sizes of the sections are the numbers of bytes written, and so the section table
  leads to the contents.
\<close>

section \<open>Reading ahead\<close>

definition ahead :: "byte_t list \<Rightarrow> FILE_t \<Rightarrow> bool" where
  "ahead bs f \<longleftrightarrow> (\<exists>rest. drop (f_pos f) (f_data f) = bs @ rest)"

definition adv :: "nat \<Rightarrow> FILE_t \<Rightarrow> FILE_t" where "adv n f = f\<lparr>f_pos := f_pos f + n\<rparr>"

lemma adv_sel [simp]: "f_data (adv n f) = f_data f" "f_pos (adv n f) = f_pos f + n" by (simp_all add: adv_def)
lemma adv_adv [simp]: "adv n (adv m f) = adv (m + n) f" by (simp add: adv_def add.assoc)

lemma drop_more: "drop p d = a @ b \<Longrightarrow> drop (p + length a) d = b"
  by (metis add.commute append_eq_conv_conj drop_drop)

lemma ahead_append: "ahead (a @ b) f \<Longrightarrow> ahead a f \<and> ahead b (adv (length a) f)"
  unfolding ahead_def using drop_more [of "f_pos f" "f_data f" a] by (metis adv_sel append.assoc)

lemma fread_ahead: "ahead bs f \<Longrightarrow> fread (length bs) f = (bs, adv (length bs) f)"
proof -
  assume "ahead bs f"
  then have t: "take (length bs) (drop (f_pos f) (f_data f)) = bs" by (auto simp: ahead_def)
  show ?thesis by (simp only: fread_def t Let_def adv_def)
qed

lemma ReadBinFile_ahead: "ahead bs f \<Longrightarrow> length bs = n \<Longrightarrow> ReadBinFile n f = Inr (bs, adv n f)"
  using fread_ahead [of bs f] by (auto simp: ReadBinFile_def)

lemma next_byte_ahead: "ahead (b # bs) f \<Longrightarrow> next_byte c f = Inr (b, adv 1 f)"
  using fread_ahead [of "[b]" f] ahead_append [of "[b]" bs f] by (simp add: next_byte_def)

section \<open>Packed numbers\<close>

lemma encodeWord_small: "n < 128 \<Longrightarrow> encodeWord n = [of_nat n]"
  by (subst encodeWord.simps) simp

lemma encodeWord_large: "128 \<le> n \<Longrightarrow> encodeWord n = of_nat (n mod 128 + 128) # encodeWord (n div 128)"
  by (subst encodeWord.simps) simp

lemma size_lp_add: "size_lp w (sz + k) = size_lp w sz + k"
proof (induction w sz rule: size_lp.induct)
  case (1 w sz)
  then show ?case by (subst (1 2) size_lp.simps) simp
qed

lemma sizeOfPackedInt_length: "sizeOfPackedInt n = length (encodeWord n)"
proof (induction n rule: encodeWord.induct)
  case (1 n)
  show ?case
  proof (cases "n < 128")
    case True
    then show ?thesis by (simp add: encodeWord_small sizeOfPackedInt_def size_lp.simps)
  next
    case False
    then have "n div 128 \<noteq> 0" by (simp add: div_greater_zero_iff)
    then have "sizeOfPackedInt n = sizeOfPackedInt (n div 128) + 1"
      unfolding sizeOfPackedInt_def by (subst size_lp.simps) (simp add: size_lp_add [of _ 1 1, simplified])
    then show ?thesis using 1 \<open>n div 128 \<noteq> 0\<close> False by (simp add: encodeWord_large)
  qed
qed

lemma byte_parts:
  assumes "b < 128"
  shows "ucast ((of_nat (b + 128) :: byte_t) AND 0x7f) = (of_nat b :: u32)" "(of_nat (b + 128) :: byte_t) AND 0x80 \<noteq> 0"
    "ucast ((of_nat b :: byte_t) AND 0x7f) = (of_nat b :: u32)" "(of_nat b :: byte_t) AND 0x80 = 0"
proof -
  have "\<forall>b \<in> {..<128 :: nat}. ucast ((of_nat (b + 128) :: byte_t) AND 0x7f) = (of_nat b :: u32) \<and> (of_nat (b + 128) :: byte_t) AND 0x80 \<noteq> 0
    \<and> ucast ((of_nat b :: byte_t) AND 0x7f) = (of_nat b :: u32) \<and> (of_nat b :: byte_t) AND 0x80 = 0"
    by code_simp
  then show "ucast ((of_nat (b + 128) :: byte_t) AND 0x7f) = (of_nat b :: u32)" "(of_nat (b + 128) :: byte_t) AND 0x80 \<noteq> 0"
    "ucast ((of_nat b :: byte_t) AND 0x7f) = (of_nat b :: u32)" "(of_nat b :: byte_t) AND 0x80 = 0" using assms by auto
qed

lemma push_bit_of_nat: "push_bit k (of_nat n :: u32) = of_nat (n * 2 ^ k)"
  by (simp add: push_bit_eq_mult)

lemma split_pow: "a * 2 ^ k + b * 2 ^ (k + 7) = (a + b * 128) * 2 ^ k" for a b :: nat
  by (simp add: algebra_simps power_add)

lemma leb_loop_encode:
  assumes "n * 2 ^ shift < 2 ^ 32" "shift < 32" "ahead (encodeWord n) f"
  shows "leb_loop c m shift i f = Inr ((m + of_nat (n * 2 ^ shift), i + length (encodeWord n)), adv (length (encodeWord n)) f)"
  using assms
proof (induction n arbitrary: c m shift i f rule: encodeWord.induct)
  case (1 n)
  show ?case
  proof (cases "n < 128")
    case True
    then have e: "encodeWord n = [of_nat n]" by (rule encodeWord_small)
    then have "next_byte c f = Inr (of_nat n, adv 1 f)" using next_byte_ahead 1(4) by simp
    then show ?thesis using 1(3) by (subst leb_loop.simps) (simp add: fbind_def e byte_parts [OF True] push_bit_of_nat del: of_nat_mult)
  next
    case False
    then have d: "n div 128 \<noteq> 0" by (simp add: div_greater_zero_iff)
    have e: "encodeWord n = of_nat (n mod 128 + 128) # encodeWord (n div 128)" using False by (simp add: encodeWord_large)
    have le: "n div 128 * 2 ^ (shift + 7) \<le> n * 2 ^ shift" by (simp add: power_add)
    have s: "shift + 7 < 32"
    proof (rule ccontr)
      assume "\<not> shift + 7 < 32"
      then have "(2 :: nat) ^ 32 \<le> 2 ^ (shift + 7)" by (intro power_increasing) auto
      also have "\<dots> \<le> n div 128 * 2 ^ (shift + 7)" using d by simp
      finally show False using le 1(2) by linarith
    qed
    have a: "next_byte c f = Inr (of_nat (n mod 128 + 128), adv 1 f)" "ahead (encodeWord (n div 128)) (adv 1 f)"
      using 1(4) next_byte_ahead ahead_append [of "[of_nat (n mod 128 + 128)]" "encodeWord (n div 128)" f] unfolding e by auto
    have ih: "leb_loop c' m' (shift + 7) i' (adv 1 f) = Inr ((m' + of_nat (n div 128 * 2 ^ (shift + 7)), i' + length (encodeWord (n div 128))), adv (length (encodeWord (n div 128))) (adv 1 f))" for c' m' i'
      by (rule 1(1) [OF d _ s a(2)]) (use le 1(2) in linarith)
    have "n mod 128 * 2 ^ shift + n div 128 * 2 ^ (shift + 7) = (n mod 128 + n div 128 * 128) * 2 ^ shift"
      by (rule split_pow)
    also have "\<dots> = n * 2 ^ shift" by (simp only: mod_div_mult_eq)
    finally have "n mod 128 * 2 ^ shift + n div 128 * 2 ^ (shift + 7) = n * 2 ^ shift" .
    then have sum: "(of_nat (n mod 128 * 2 ^ shift) :: u32) + of_nat (n div 128 * 2 ^ (shift + 7)) = of_nat (n * 2 ^ shift)"
      by (metis of_nat_add)
    have b: "n mod 128 < 128" by simp
    show ?thesis using 1(3)
      by (subst leb_loop.simps)
        (simp only: fbind_def a(1) rbind.simps prod.case byte_parts [OF b] push_bit_of_nat ih Let_def e list.size add.assoc sum, simp)
  qed
qed

lemma ReadLEB128Unsigned_encode: "n < 2 ^ 32 \<Longrightarrow> ahead (encodeWord n) f \<Longrightarrow>
    ReadLEB128Unsigned f = Inr ((of_nat n, length (encodeWord n)), adv (length (encodeWord n)) f)"
  using leb_loop_encode [of n 0 f None 0 0] by (simp add: ReadLEB128Unsigned_def)

section \<open>Announced sizes\<close>

fun leaves :: "itree \<Rightarrow> nat" and spec_leaves :: "(nat \<times> itree) list \<Rightarrow> nat" where
  "leaves (ITNODE l) = (if l = [] then 1 else spec_leaves l)"
| "spec_leaves [] = 0"
| "spec_leaves ((selector, tree) # l) = leaves tree + spec_leaves l"

definition import_leaves :: "(byte_t list \<times> itree) list \<Rightarrow> nat" where
  "import_leaves trees = (\<Sum>(pid, tree) \<leftarrow> trees. leaves tree)"

lemma itreeSz_eq:
  "itreeSz t p = (fst p + leaves t, snd p + length (emit_tree t))"
  "specsSz l p = (fst p + spec_leaves l, snd p + length (emit_specs l))"
proof (induction t p and l p rule: itreeSz_specsSz.induct)
  case (1 l nl sz)
  then show ?case by (simp add: sizeOfPackedInt_length encodeWord_small)
qed (simp_all add: sizeOfPackedInt_length)

lemma importTreeSize_eq:
  assumes "\<forall>(pid, tree) \<in> set trees. length pid = 16"
  shows "importTreeSize trees = (import_leaves trees, length (encodeWord (import_leaves trees) @ emit_imports trees))"
proof -
  have "fold (\<lambda>(pid, tree) (nl, sz). itreeSz tree (nl, sz + 16)) trees (a, b) = (a + import_leaves trees, b + length (emit_imports trees))"
    if "\<forall>(pid, tree) \<in> set trees. length pid = 16" for a b
    using that
  proof (induction trees arbitrary: a b)
    case (Cons x trees)
    then show ?case by (cases x) (simp add: itreeSz_eq import_leaves_def emit_imports_def)
  qed (simp add: import_leaves_def emit_imports_def)
  from this [OF assms] show ?thesis by (simp add: importTreeSize_def sizeOfPackedInt_length)
qed

definition sized :: "sect_data \<Rightarrow> bool" where "sized d \<longleftrightarrow> sd_szB d = length (sd_out d)"

definition binfile_ok :: "binfile \<Rightarrow> bool" where
  "binfile_ok b \<longleftrightarrow> (\<forall>(pid, tree) \<in> set (bf_imports b). length pid = 16) \<and> (\<forall>pid \<in> set (bf_cmData b). length pid = 16)
     \<and> (\<forall>pid. bf_exportPid b = Some pid \<longrightarrow> length pid = 16) \<and> length (bf_senvPid b) = 16"

lemma length_pids: "\<forall>p \<in> set ps. length p = 16 \<Longrightarrow> length (concat ps) = 16 * length ps"
  by (induction ps) simp_all

lemma cbytes_length [simp]: "length (cbytes s) = length s" by (simp add: cbytes_def)

lemma sections_sized: "binfile_ok b \<Longrightarrow> list_all sized (sections nopickle b)"
  by (auto simp: binfile_ok_def sections_def sized_def addInfoSection_def addImportTreeSection_def addExportSection_def
      addCodeSection_def addStaticEnvSection_def sectionf_def pad_left_def importTreeSize_eq sizeOfPackedInt_length
      length_pids Let_def split: option.splits code.splits)

section \<open>The section table\<close>

definition desc_bytes :: "nat \<Rightarrow> sect_data \<Rightarrow> byte_t list" where
  "desc_bytes offset d = u32_bytes (sd_kind d) @ u32_bytes 0 @ u32_bytes (of_nat offset) @ u32_bytes (of_nat (sd_szB d))"

fun entries :: "nat \<Rightarrow> sect_data list \<Rightarrow> sects_seen \<times> binfile_info \<Rightarrow> (sects_seen \<times> binfile_info) res" where
  "entries offset [] t = Inr t"
| "entries offset (d # ds) t = rbind (section_entry (desc_bytes offset d) t) (entries (offset + sd_szB d) ds)"

lemma u32_length [simp]: "length (u32_bytes w) = 4" by (simp add: u32_bytes_def)

lemma out_descs_Cons: "out_descs offset (d # ds) = desc_bytes offset d @ out_descs (offset + sd_szB d) ds"
  by (simp add: desc_bytes_def)

lemma length_out_descs: "length (out_descs offset ds) = 16 * length ds"
  by (induction offset ds rule: out_descs.induct) simp_all

lemma desc_numbers:
  "get_u32 0 (desc_bytes offset d) = sd_kind d" "get_u32 8 (desc_bytes offset d) = of_nat offset"
  "get_u32 12 (desc_bytes offset d) = of_nat (sd_szB d)"
proof -
  show "get_u32 0 (desc_bytes offset d) = sd_kind d" using get_u32_bytes [of "[]" 0] by (simp add: desc_bytes_def)
  show "get_u32 8 (desc_bytes offset d) = of_nat offset"
    using get_u32_bytes [of "u32_bytes (sd_kind d) @ u32_bytes 0" 8] by (simp add: desc_bytes_def)
  show "get_u32 12 (desc_bytes offset d) = of_nat (sd_szB d)"
    using get_u32_bytes [of "u32_bytes (sd_kind d) @ u32_bytes 0 @ u32_bytes (of_nat offset)" 12 _ "[]"] by (simp add: desc_bytes_def)
qed

lemma read_sects_entries:
  "ahead (out_descs offset ds) f \<Longrightarrow> read_sects (length ds) t f = rbind (entries offset ds t) (\<lambda>t. Inr (t, adv (16 * length ds) f))"
proof (induction ds arbitrary: offset f t)
  case Nil
  then show ?case by (simp add: fret_def adv_def)
next
  case (Cons d ds)
  then have a: "ahead (desc_bytes offset d) f" "ahead (out_descs (offset + sd_szB d) ds) (adv 16 f)"
    using ahead_append [of "desc_bytes offset d" "out_descs (offset + sd_szB d) ds" f] by (simp_all add: out_descs_Cons desc_bytes_def del: out_descs.simps)
  have r: "ReadBinFile 16 f = Inr (desc_bytes offset d, adv 16 f)" using ReadBinFile_ahead [OF a(1)] by (simp add: desc_bytes_def)
  show ?case by (simp add: fbind_def r Cons.IH [OF a(2)] rbind_assoc)
qed

lemma ucast_of_nat: "n < 2 ^ 32 \<Longrightarrow> (ucast (of_nat n :: u32) :: word_t) = of_nat n"
  by (rule word_unat_eq_iff [THEN iffD2]) (simp add: unsigned_ucast_eq unat_of_nat take_bit_eq_mod)

section \<open>Contents\<close>

text \<open>The contents of a section in the data of a file, for a binfile at \<open>base\<close>.\<close>

definition sect_bytes :: "word_t \<Rightarrow> sect_desc \<Rightarrow> byte_t list \<Rightarrow> byte_t list" where
  "sect_bytes base d data = take (unat (sd_size d)) (drop (unat (base + sd_offset d)) data)"

definition total_size :: "sect_data list \<Rightarrow> nat" where "total_size ds = (\<Sum>d \<leftarrow> ds. sd_szB d)"

lemma length_outs: "list_all sized ds \<Longrightarrow> length (concat (map sd_out ds)) = total_size ds"
  by (induction ds) (simp_all add: total_size_def sized_def)

lemma total_size_simps [simp]: "total_size [] = 0" "total_size (d # ds) = sd_szB d + total_size ds"
  "total_size (as @ ds) = total_size as + total_size ds"
  by (simp_all add: total_size_def)

lemma contents_at:
  assumes "list_all sized (as @ d # ds)" "data = pre @ hdr @ concat (map sd_out (as @ d # ds)) @ post"
  shows "drop (length pre + length hdr + total_size as) data = sd_out d @ concat (map sd_out ds) @ post"
proof -
  have "length (concat (map sd_out as)) = total_size as" using assms(1) by (intro length_outs) simp
  then show ?thesis unfolding assms(2)
    using drop_more [of 0 "pre @ hdr @ concat (map sd_out (as @ d # ds)) @ post" "pre @ hdr @ concat (map sd_out as)" "sd_out d @ concat (map sd_out ds) @ post"]
    by (simp add: add.assoc)
qed

lemma Seek_to: "p < 2 ^ 63 \<Longrightarrow> Seek (of_nat p) f = Inr ((), f\<lparr>f_pos := p\<rparr>)"
proof -
  assume p: "p < 2 ^ 63"
  then have "sint (of_nat p :: word_t) = int p"
    by (simp add: signed_of_nat signed_take_bit_int_eq_self)
  then show ?thesis by (simp add: Seek_def fseek_def)
qed

section \<open>ReadHeader on a binfile\<close>

definition none_seen :: sects_seen where
  "none_seen = \<lparr>seenImports = False, seenExports = False, seenLits = False, seenCodeOrCFG = False\<rparr>"

text \<open>What \<open>ReadContainerHdr\<close> does after the section table.\<close>

definition after_table :: "word_t \<Rightarrow> sects_seen \<times> binfile_info \<Rightarrow> binfile_info fop" where
  "after_table base = (\<lambda>(seen, info).
     if \<not> seenImports seen \<or> \<not> seenExports seen \<or> \<not> seenLits seen \<or> \<not> seenCodeOrCFG seen then ffail (Die ''missing sections'')
     else
       fbind (Seek (base + sd_offset (bi_importSect info))) (\<lambda>_.
       fbind ReadLEB128Unsigned (\<lambda>(n, nb).
       let info = info\<lparr>bi_nImports := sint n, bi_importSect := sect_skip nb (bi_importSect info)\<rparr> in
       if bi_isNative info then
         fbind (Seek (base + sd_offset (bi_codeSect info))) (\<lambda>_.
         fbind ReadLEB128Unsigned (\<lambda>(n, nb).
         fret (info\<lparr>bi_entry := sint n, bi_codeSect := sect_skip nb (bi_codeSect info)\<rparr>)))
       else fret info)))"

lemma length_pad_right: "length (pad_right n s) = n" by (simp add: pad_right_def)

lemma ReadContainerHdr_table:
  "ReadContainerHdr base buf info = fbind (ReadBinFile 20) (\<lambda>rest.
     fbind (read_sects (nat (sint (get_u32 16 rest))) (none_seen, info\<lparr>bi_version := get_u32 8 buf\<rparr>)) (after_table base))"
  unfolding ReadContainerHdr_def after_table_def none_seen_def Let_def ..

lemma ReadHeader_table:
  assumes a: "ahead (finish_file False v ds) f" and n: "length ds < 2 ^ 31"
  shows "ReadHeader base junk f = rbind (entries (sizeOfHdr (length ds)) ds (none_seen, junk\<lparr>bi_version := CONTAINER_VERSION\<rparr>))
    (\<lambda>t. after_table base t (adv (sizeOfHdr (length ds)) f))"
proof -
  let ?kind = "cbytes ''BinFile ''" and ?v = "u32_bytes CONTAINER_VERSION" and ?rest = "cbytes (pad_right 16 v) @ u32_bytes (of_nat (length ds))"
  let ?tbl = "out_descs (sizeOfHdr (length ds)) ds"
  have l8: "length ?kind = 8" by (simp add: cbytes_def)
  have "ahead (?kind @ ?v @ ?rest @ ?tbl @ concat (map sd_out ds)) f" using a by (simp add: finish_file_def)
  from ahead_append [OF this] have a1: "ahead ?kind f" "ahead (?v @ ?rest @ ?tbl @ concat (map sd_out ds)) (adv 8 f)" by (simp_all add: l8 del: cbytes_length)
  from ahead_append [OF a1(2)] have a2: "ahead ?v (adv 8 f)" "ahead (?rest @ ?tbl @ concat (map sd_out ds)) (adv 12 f)" by simp_all
  from ahead_append [OF a2(2)] have a3: "ahead ?rest (adv 12 f)" "ahead (?tbl @ concat (map sd_out ds)) (adv 32 f)" by (simp_all add: length_pad_right)
  have a4: "ahead ?tbl (adv 32 f)" using ahead_append [OF a3(2)] by simp
  have r: "ReadBinFile 8 f = Inr (?kind, adv 8 f)" "ReadBinFile 4 (adv 8 f) = Inr (?v, adv 12 f)" "ReadBinFile 20 (adv 12 f) = Inr (?rest, adv 32 f)"
    using ReadBinFile_ahead [OF a1(1) l8] ReadBinFile_ahead [OF a2(1)] ReadBinFile_ahead [OF a3(1)] by (simp_all add: length_pad_right)
  have g: "get_u32 0 ?v = CONTAINER_VERSION" "get_u32 8 (?kind @ ?v) = CONTAINER_VERSION"
    using get_u32_bytes [of "[]" 0 CONTAINER_VERSION "[]"] get_u32_bytes [of ?kind 8 CONTAINER_VERSION "[]", OF l8] by simp_all
  have "get_u32 16 ?rest = of_nat (length ds)" using get_u32_bytes [of "cbytes (pad_right 16 v)" 16 _ "[]"] by (simp add: length_pad_right)
  then have c: "nat (sint (get_u32 16 ?rest)) = length ds" using n by (simp add: signed_of_nat signed_take_bit_int_eq_self)
  show ?thesis
    unfolding ReadHeader_def fbind_def r rbind.simps prod.case Let_def g if_True ReadContainerHdr_table simp_thms refl c
      read_sects_entries [OF a4] rbind_assoc
    by (simp add: sizeOfHdr_def add.commute)
qed

lemma kinds [simp]:
  "sd_kind (sectionf ''INFO'' n bs) = 0x4F464E49" "sd_kind (sectionf ''IMPT'' n bs) = 0x54504D49" "sd_kind (sectionf ''EXPT'' n bs) = 0x54505845"
  "sd_kind (sectionf ''PIDS'' n bs) = 0x53444950" "sd_kind (sectionf ''GUID'' n bs) = 0x44495547" "sd_kind (sectionf ''LITS'' n bs) = 0x5354494C"
  "sd_kind (sectionf ''CODE'' n bs) = 0x45444F43" "sd_kind (sectionf ''CFGP'' n bs) = 0x50474643" "sd_kind (sectionf ''SENV'' n bs) = 0x564E4553"
  by (simp_all add: sectionf_def sect_id_def)

lemma tags [simp]: "BF_IMPT = 0x54504D49" "BF_EXPT = 0x54505845" "BF_LITS = 0x5354494C" "BF_CODE = 0x45444F43" "BF_CFGP = 0x50474643"
  by (simp_all add: BF_IMPT_def BF_EXPT_def BF_LITS_def BF_CODE_def BF_CFGP_def BF_TAG_def)

lemma section_size [simp]: "sd_szB (sectionf i n bs) = n" "sd_out (sectionf i n bs) = bs" by (simp_all add: sectionf_def)

abbreviation (input) sd :: "nat \<Rightarrow> nat \<Rightarrow> sect_desc" where
  "sd offset n \<equiv> \<lparr>sd_offset = ucast (of_nat offset :: u32), sd_size = ucast (of_nat n :: u32)\<rparr>"

text \<open>The descriptor of a section.\<close>

fun first_part :: "binfile \<Rightarrow> sect_data list" where
  "first_part b = [addInfoSection b, addImportTreeSection b, addExportSection b,
      sectionf ''PIDS'' (16 * length (bf_cmData b)) (concat (bf_cmData b)),
      sectionf ''GUID'' (length (bf_guid b)) (cbytes (bf_guid b))]"

lemma entries_append: "entries n0 (as @ ds) t = rbind (entries n0 as t) (entries (n0 + total_size as) ds)"
  by (induction as arbitrary: n0 t) (auto simp: rbind_assoc add.assoc intro!: rbind_cong)

lemma entries_first:
  "entries n0 (first_part b) (none_seen, info) = Inr (none_seen\<lparr>seenImports := True, seenExports := True\<rparr>,
     info\<lparr>bi_importSect := sd (n0 + 16) (sd_szB (addImportTreeSection b)),
          bi_exportSect := sd (n0 + 16 + sd_szB (addImportTreeSection b)) (sd_szB (addExportSection b))\<rparr>)"
proof -
  obtain n i where i: "addImportTreeSection b = sectionf ''IMPT'' n i" by (cases "importTreeSize (bf_imports b)") (auto simp: addImportTreeSection_def)
  obtain m e where e: "addExportSection b = sectionf ''EXPT'' m e" by (cases "bf_exportPid b") (auto simp: addExportSection_def)
  show ?thesis
    by (simp add: i e addInfoSection_def section_entry_def desc_numbers Let_def none_seen_def)
qed

lemma senv_entry [simp]: "section_entry (desc_bytes n (addStaticEnvSection nopickle b)) t = Inr t"
  by (cases t) (simp add: addStaticEnvSection_def section_entry_def desc_numbers)

lemma sections_split: "sections nopickle b = first_part b @ addCodeSection b @ [addStaticEnvSection nopickle b]"
  by (simp add: sections_def)

definition code_offset :: "bool \<Rightarrow> binfile \<Rightarrow> nat" where
  "code_offset nopickle b = sizeOfHdr (length (sections nopickle b)) + total_size (first_part b)"

lemma entries_tail:
  assumes "k = ''CODE'' \<or> k = ''CFGP''"
  shows "entries n0 [sectionf ''LITS'' l lits, sectionf k c bs, addStaticEnvSection nopickle b] (none_seen\<lparr>seenImports := True, seenExports := True\<rparr>, info) =
    Inr (none_seen\<lparr>seenImports := True, seenExports := True, seenLits := True, seenCodeOrCFG := True\<rparr>,
      info\<lparr>bi_litsSect := sd n0 l, bi_codeSect := sd (n0 + l) c, bi_isNative := (k = ''CODE'')\<rparr>)"
  using assms by (elim disjE) (simp_all add: section_entry_def desc_numbers Let_def none_seen_def addStaticEnvSection_def)

lemma entries_code:
  assumes "addCodeSection b = [sectionf ''LITS'' l lits, sectionf k c bs]" "k = ''CODE'' \<or> k = ''CFGP''"
  shows "entries (sizeOfHdr (length (sections nopickle b))) (sections nopickle b) (none_seen, info) =
    Inr (\<lparr>seenImports = True, seenExports = True, seenLits = True, seenCodeOrCFG = True\<rparr>,
      info\<lparr>bi_importSect := sd (sizeOfHdr (length (sections nopickle b)) + 16) (sd_szB (addImportTreeSection b)),
        bi_exportSect := sd (sizeOfHdr (length (sections nopickle b)) + 16 + sd_szB (addImportTreeSection b)) (sd_szB (addExportSection b)),
        bi_litsSect := sd (code_offset nopickle b) l, bi_codeSect := sd (code_offset nopickle b + l) c, bi_isNative := (k = ''CODE'')\<rparr>)"
proof -
  have "entries (sizeOfHdr (length (sections nopickle b))) (sections nopickle b) (none_seen, info) =
     entries (code_offset nopickle b) ([sectionf ''LITS'' l lits, sectionf k c bs] @ [addStaticEnvSection nopickle b])
       (none_seen\<lparr>seenImports := True, seenExports := True\<rparr>,
        info\<lparr>bi_importSect := sd (sizeOfHdr (length (sections nopickle b)) + 16) (sd_szB (addImportTreeSection b)),
          bi_exportSect := sd (sizeOfHdr (length (sections nopickle b)) + 16 + sd_szB (addImportTreeSection b)) (sd_szB (addExportSection b))\<rparr>)"
    by (subst (2) sections_split) (simp only: entries_append entries_first assms(1) rbind.simps code_offset_def)
  then show ?thesis by (simp only: append.simps entries_tail [OF assms(2)] rbind.simps) (simp add: none_seen_def)
qed

lemma entries_nocode:
  assumes "addCodeSection b = []"
  shows "\<exists>info'. entries (sizeOfHdr (length (sections nopickle b))) (sections nopickle b) (none_seen, info) =
    Inr (none_seen\<lparr>seenImports := True, seenExports := True\<rparr>, info')"
  by (subst (2) sections_split) (simp add: entries_append entries_first assms del: first_part.simps)

lemma length_write_binfile:
  "binfile_ok b \<Longrightarrow> length (write_binfile nopickle b) = sizeOfHdr (length (sections nopickle b)) + total_size (sections nopickle b)"
  by (subst write_binfile_def) (simp add: finish_file_def length_outs [OF sections_sized] length_pad_right length_out_descs sizeOfHdr_def)

text \<open>Where the contents of a section are in a file with a binfile.\<close>

lemma binfile_at:
  assumes "binfile_ok b" "sections nopickle b = as @ d # ds" "data = pre @ write_binfile nopickle b @ post"
  shows "\<exists>rest. drop (length pre + (sizeOfHdr (length (sections nopickle b)) + total_size as)) data = sd_out d @ rest"
proof -
  let ?hdr = "cbytes ''BinFile '' @ u32_bytes CONTAINER_VERSION @ cbytes (pad_right 16 (bf_version b))
     @ u32_bytes (of_nat (length (sections nopickle b))) @ out_descs (sizeOfHdr (length (sections nopickle b))) (sections nopickle b)"
  have l: "length ?hdr = sizeOfHdr (length (sections nopickle b))" by (simp add: length_pad_right length_out_descs sizeOfHdr_def)
  have "data = pre @ ?hdr @ concat (map sd_out (as @ d # ds)) @ post" using assms(2,3) by (simp add: write_binfile_def finish_file_def)
  from contents_at [OF _ this] show ?thesis using sections_sized [OF assms(1), of nopickle] unfolding assms(2) l [unfolded assms(2)] by (auto simp: add.assoc)
qed

lemma sect_bytes_skip:
  assumes "drop (p + n) data = a @ bs @ rest" "n < 2 ^ 31" "length a + length bs < 2 ^ 31" "p < 2 ^ 62"
  shows "sect_bytes (of_nat p) (sect_skip (length a) (sd n (length a + length bs))) data = bs"
proof -
  have e: "sd n (length a + length bs) = \<lparr>sd_offset = of_nat n, sd_size = of_nat (length a + length bs)\<rparr>"
    using assms(2,3) by (simp add: ucast_of_nat del: of_nat_add)
  have o1: "unat (of_nat p + (of_nat n + of_nat (length a)) :: word_t) = p + n + length a"
  proof -
    have "(of_nat p + (of_nat n + of_nat (length a)) :: word_t) = of_nat (p + n + length a)" by simp
    moreover have "p + n + length a < 2 ^ 64" using assms(2-4) by simp
    ultimately show ?thesis by (simp only: unat_of_nat) simp
  qed
  have o2: "unat (of_nat (length a + length bs) - of_nat (length a) :: word_t) = length bs"
    using assms(3) by (simp add: unat_of_nat)
  have "drop (p + n + length a) data = bs @ rest" by (rule drop_more [OF assms(1)])
  then show ?thesis unfolding sect_bytes_def sect_skip_def e sect_desc.select_convs o1 o2 by simp
qed

lemma sect_bytes_whole:
  assumes "drop (p + n) data = bs @ rest" "n < 2 ^ 31" "length bs < 2 ^ 31" "p < 2 ^ 62"
  shows "sect_bytes (of_nat p) (sd n (length bs)) data = bs"
  using sect_bytes_skip [of p n data "[]" bs rest] assms by (simp add: sect_skip_def)

lemma leaves_length:
  "leaves t \<le> length (emit_tree t)" "spec_leaves l \<le> length (emit_specs l)"
proof (induction t and l rule: leaves_spec_leaves.induct)
  case (1 l)
  then show ?case by (cases "l = []") (simp_all add: encodeWord_small trans_le_add2)
qed simp_all

lemma import_leaves_length: "import_leaves trees \<le> length (emit_imports trees)"
proof (induction trees)
  case (Cons x trees)
  then show ?case using leaves_length(1) [of "snd x"] by (cases x) (simp add: import_leaves_def emit_imports_def)
qed (simp add: import_leaves_def)

text \<open>The number at the start of a section.\<close>

lemma seek_number:
  assumes "drop (p + n) (f_data f) = encodeWord k @ rest" "n < 2 ^ 31" "p < 2 ^ 62" "k < 2 ^ 31"
  shows "\<exists>g. Seek (of_nat p + sd_offset (sd n m)) f = Inr ((), g) \<and> f_data g = f_data f
    \<and> (\<exists>h. ReadLEB128Unsigned g = Inr ((of_nat k, length (encodeWord k)), h) \<and> f_data h = f_data f)"
proof -
  have "of_nat p + sd_offset (sd n m) = (of_nat (p + n) :: word_t)" using assms(2) by (simp add: ucast_of_nat)
  moreover have "Seek (of_nat (p + n)) f = Inr ((), f\<lparr>f_pos := p + n\<rparr>)" by (rule Seek_to) (use assms(2,3) in simp)
  moreover have "ahead (encodeWord k) (f\<lparr>f_pos := p + n\<rparr>)" using assms(1) by (auto simp: ahead_def)
  ultimately show ?thesis using ReadLEB128Unsigned_encode [of k "f\<lparr>f_pos := p + n\<rparr>"] assms(4) by simp
qed

lemma sint_small: "k < 2 ^ 31 \<Longrightarrow> sint (of_nat k :: u32) = int k"
  by (simp add: signed_of_nat signed_take_bit_int_eq_self)

section \<open>The header of a binfile\<close>

lemma code_cases:
  assumes "bf_code b \<noteq> NoCode"
  obtains k c bs where "addCodeSection b = [sectionf ''LITS'' (length (bf_lits b)) (bf_lits b), sectionf k c bs]"
      "k = ''CFGP''" "bf_code b = CFGPickle bs" "c = length bs"
    | entry k c bs where "addCodeSection b = [sectionf ''LITS'' (length (bf_lits b)) (bf_lits b), sectionf k c (encodeWord entry @ bs)]"
      "k = ''CODE''" "bf_code b = NativeCode entry bs" "c = length (encodeWord entry) + length bs"
  using assms by (cases "bf_code b") (simp_all add: addCodeSection_def sizeOfPackedInt_length)

definition all_seen :: sects_seen where
  "all_seen = \<lparr>seenImports = True, seenExports = True, seenLits = True, seenCodeOrCFG = True\<rparr>"

lemma after_table_imports:
  assumes "Seek (base + sd_offset (bi_importSect info)) f = Inr ((), g)" "ReadLEB128Unsigned g = Inr ((k, nb), h)"
  shows "after_table base (all_seen, info) f =
    (let info = info\<lparr>bi_nImports := sint k, bi_importSect := sect_skip nb (bi_importSect info)\<rparr> in
     if bi_isNative info then
       fbind (Seek (base + sd_offset (bi_codeSect info))) (\<lambda>_.
       fbind ReadLEB128Unsigned (\<lambda>(n, nb).
       fret (info\<lparr>bi_entry := sint n, bi_codeSect := sect_skip nb (bi_codeSect info)\<rparr>)))
     else fret info) h"
  using assms by (simp add: after_table_def all_seen_def fbind_def Let_def)

text \<open>C7. The boot loader reads what the compiler wrote. For a well-formed binfile anywhere in a file, in
  the format of the compiler, \<open>ReadHeader\<close> gives the number of leaves of the import trees, and the
  sections it describes hold exactly the encoded import trees, the export identifier, the literals and
  the code, with the entry point of native code. A binfile without code makes the loader die.\<close>

theorem binfile_roundtrip:
  assumes ok: "binfile_ok b" and sz: "length (write_binfile nopickle b) < 2 ^ 31"
    and d: "f_data f = pre @ write_binfile nopickle b @ post" "f_pos f = length pre" "length pre < 2 ^ 62"
    and entry: "\<forall>e bs. bf_code b = NativeCode e bs \<longrightarrow> e < 2 ^ 31"
  shows "(bf_code b = NoCode \<longrightarrow> ReadHeader (of_nat (length pre)) junk f = Inl (Die ''missing sections''))
    \<and> (bf_code b \<noteq> NoCode \<longrightarrow> (\<exists>info g. ReadHeader (of_nat (length pre)) junk f = Inr (info, g) \<and> f_data g = f_data f
        \<and> bi_version info = CONTAINER_VERSION \<and> bi_nImports info = int (import_leaves (bf_imports b))
        \<and> sect_bytes (of_nat (length pre)) (bi_importSect info) (f_data f) = emit_imports (bf_imports b)
        \<and> sect_bytes (of_nat (length pre)) (bi_exportSect info) (f_data f) = (case bf_exportPid b of None \<Rightarrow> [] | Some p \<Rightarrow> p)
        \<and> sect_bytes (of_nat (length pre)) (bi_litsSect info) (f_data f) = bf_lits b
        \<and> (case bf_code b of
             NativeCode e bs \<Rightarrow> bi_isNative info \<and> bi_entry info = int e \<and> sect_bytes (of_nat (length pre)) (bi_codeSect info) (f_data f) = bs
           | CFGPickle bs \<Rightarrow> \<not> bi_isNative info \<and> sect_bytes (of_nat (length pre)) (bi_codeSect info) (f_data f) = bs
           | NoCode \<Rightarrow> False)))"
proof -
  let ?ds = "sections nopickle b" and ?p = "length pre" and ?I = "emit_imports (bf_imports b)" and ?nl = "import_leaves (bf_imports b)"
  let ?H = "sizeOfHdr (length ?ds)" and ?junk = "junk\<lparr>bi_version := CONTAINER_VERSION\<rparr>"
  have tot: "?H + total_size ?ds < 2 ^ 31" using sz length_write_binfile [OF ok] by simp
  have n: "length ?ds < 2 ^ 31" using tot by (simp add: sizeOfHdr_def)
  have "ahead (finish_file False (bf_version b) ?ds) f" using d(1,2) by (simp add: ahead_def write_binfile_def)
  note R = ReadHeader_table [OF this n, of "of_nat ?p" junk]
  have imp: "addImportTreeSection b = sectionf ''IMPT'' (length (encodeWord ?nl) + length ?I) (encodeWord ?nl @ ?I)"
    using importTreeSize_eq [of "bf_imports b"] ok by (simp add: addImportTreeSection_def binfile_ok_def)
  define X where "X = (case bf_exportPid b of None \<Rightarrow> [] | Some p \<Rightarrow> p)"
  have ex: "addExportSection b = sectionf ''EXPT'' (length X) X"
    using ok by (auto simp: addExportSection_def X_def binfile_ok_def split: option.splits)
  let ?pids = "sectionf ''PIDS'' (16 * length (bf_cmData b)) (concat (bf_cmData b))" and ?guid = "sectionf ''GUID'' (length (bf_guid b)) (cbytes (bf_guid b))"
  have fp: "first_part b = [addInfoSection b, addImportTreeSection b, addExportSection b, ?pids, ?guid]" by simp
  have info16: "sd_szB (addInfoSection b) = 16" by (simp add: addInfoSection_def)
  have at: "\<exists>rest. drop (?p + (?H + total_size as)) (f_data f) = sd_out x @ rest" if "?ds = as @ x # xs" for as x xs
    by (rule binfile_at [OF ok that d(1)])
  obtain rI where rI: "drop (?p + (?H + 16)) (f_data f) = encodeWord ?nl @ ?I @ rI"
    using at [of "[addInfoSection b]" "addImportTreeSection b"] by (auto simp: sections_def imp info16)
  obtain rX where rX: "drop (?p + (?H + 16 + (length (encodeWord ?nl) + length ?I))) (f_data f) = X @ rX"
    using at [of "[addInfoSection b, addImportTreeSection b]" "addExportSection b"] by (auto simp: sections_def imp ex info16 add.assoc)
  show ?thesis
  proof (cases "bf_code b = NoCode")
    case True
    then have "addCodeSection b = []" by (simp add: addCodeSection_def)
    from entries_nocode [OF this, of nopickle ?junk] obtain info' where "entries ?H ?ds (none_seen, ?junk) = Inr (none_seen\<lparr>seenImports := True, seenExports := True\<rparr>, info')" by blast
    then have "ReadHeader (of_nat ?p) junk f = Inl (Die ''missing sections'')" unfolding R by (simp add: after_table_def none_seen_def ffail_def)
    then show ?thesis using True by simp
  next
    case False
    let ?O = "code_offset nopickle b" and ?lits = "sectionf ''LITS'' (length (bf_lits b)) (bf_lits b)"
    have main: "\<exists>info g. after_table (of_nat ?p) (all_seen,
          ?junk\<lparr>bi_importSect := sd (?H + 16) (sd_szB (addImportTreeSection b)),
            bi_exportSect := sd (?H + 16 + sd_szB (addImportTreeSection b)) (sd_szB (addExportSection b)),
            bi_litsSect := sd ?O (length (bf_lits b)), bi_codeSect := sd (?O + length (bf_lits b)) c, bi_isNative := (k = ''CODE'')\<rparr>) (adv ?H f) = Inr (info, g)
        \<and> f_data g = f_data f \<and> bi_version info = CONTAINER_VERSION \<and> bi_nImports info = int ?nl
        \<and> sect_bytes (of_nat ?p) (bi_importSect info) (f_data f) = ?I \<and> sect_bytes (of_nat ?p) (bi_exportSect info) (f_data f) = X
        \<and> sect_bytes (of_nat ?p) (bi_litsSect info) (f_data f) = bf_lits b
        \<and> bi_isNative info = (k = ''CODE'') \<and> (k = ''CODE'' \<longrightarrow> bi_entry info = int e)
        \<and> sect_bytes (of_nat ?p) (bi_codeSect info) (f_data f) = bs"
      if cs: "addCodeSection b = [?lits, sectionf k c (ebs @ bs)]" "c = length ebs + length bs"
        and ke: "k = ''CODE'' \<longrightarrow> ebs = encodeWord e \<and> e < 2 ^ 31" "k \<noteq> ''CODE'' \<longrightarrow> ebs = []" for k c e ebs bs
    proof -
      have tl: "?ds = first_part b @ [?lits, sectionf k c (ebs @ bs), addStaticEnvSection nopickle b]" by (simp only: sections_split cs(1) append.simps)
      have O: "?O = ?H + total_size (first_part b)" by (simp add: code_offset_def)
      have le: "?O + (length (bf_lits b) + c) \<le> ?H + total_size ?ds" unfolding O tl by simp
      have tfp: "16 + (length (encodeWord ?nl) + length ?I) + length X \<le> total_size (first_part b)" by (simp add: fp imp ex info16)
      obtain rL where rL: "drop (?p + ?O) (f_data f) = bf_lits b @ rL"
        using at [of "first_part b" ?lits] unfolding O tl by (auto simp del: first_part.simps)
      obtain rC where rC: "drop (?p + (?O + length (bf_lits b))) (f_data f) = ebs @ bs @ rC"
        using at [of "first_part b @ [?lits]" "sectionf k c (ebs @ bs)" "[addStaticEnvSection nopickle b]"] unfolding O tl
        by (auto simp: add.assoc simp del: first_part.simps)
      have b: "?H + 16 < 2 ^ 31" "length (encodeWord ?nl) + length ?I < 2 ^ 31" "length X < 2 ^ 31"
        "?H + 16 + (length (encodeWord ?nl) + length ?I) < 2 ^ 31" "length (bf_lits b) < 2 ^ 31" "?O < 2 ^ 31" "?O + length (bf_lits b) < 2 ^ 31" "c < 2 ^ 31"
        using tot le tfp unfolding O by linarith+
      have nl: "?nl < 2 ^ 31" using import_leaves_length [of "bf_imports b"] b(2) by linarith
      note imp' = sect_bytes_skip [OF rI b(1,2) d(3)] and ex' = sect_bytes_whole [OF rX b(4,3) d(3)] and li' = sect_bytes_whole [OF rL b(6,5) d(3)]
      obtain g h where g: "Seek (of_nat ?p + sd_offset (sd (?H + 16) (length (encodeWord ?nl) + length ?I))) (adv ?H f) = Inr ((), g)" "f_data g = f_data f"
        "ReadLEB128Unsigned g = Inr ((of_nat ?nl, length (encodeWord ?nl)), h)" "f_data h = f_data f"
        using seek_number [OF _ b(1) d(3) nl, of "adv ?H f" "?I @ rI"] rI by auto
      define info0 where "info0 = ?junk\<lparr>bi_importSect := sd (?H + 16) (length (encodeWord ?nl) + length ?I),
            bi_exportSect := sd (?H + 16 + (length (encodeWord ?nl) + length ?I)) (length X),
            bi_litsSect := sd ?O (length (bf_lits b)), bi_codeSect := sd (?O + length (bf_lits b)) c, bi_isNative := (k = ''CODE'')\<rparr>"
      have i0: "bi_importSect info0 = sd (?H + 16) (length (encodeWord ?nl) + length ?I)"
        "bi_exportSect info0 = sd (?H + 16 + (length (encodeWord ?nl) + length ?I)) (length X)"
        "bi_litsSect info0 = sd ?O (length (bf_lits b))" "bi_codeSect info0 = sd (?O + length (bf_lits b)) c"
        "bi_isNative info0 = (k = ''CODE'')" "bi_version info0 = CONTAINER_VERSION"
        by (simp_all add: info0_def)
      note T = after_table_imports [of "of_nat ?p" info0 "adv ?H f", unfolded i0(1), OF g(1,3)]
      have "\<exists>info h2. after_table (of_nat ?p) (all_seen, info0) (adv ?H f) = Inr (info, h2)
        \<and> f_data h2 = f_data f \<and> bi_version info = CONTAINER_VERSION \<and> bi_nImports info = int ?nl
        \<and> bi_importSect info = sect_skip (length (encodeWord ?nl)) (bi_importSect info0) \<and> bi_exportSect info = bi_exportSect info0
        \<and> bi_litsSect info = bi_litsSect info0 \<and> bi_isNative info = (k = ''CODE'') \<and> (k = ''CODE'' \<longrightarrow> bi_entry info = int e)
        \<and> bi_codeSect info = sect_skip (length ebs) (bi_codeSect info0)"
      proof (cases "k = ''CODE''")
        case True
        then have E: "ebs = encodeWord e" "e < 2 ^ 31" using ke(1) by simp_all
        obtain g2 h2 where g2: "Seek (of_nat ?p + sd_offset (sd (?O + length (bf_lits b)) c)) h = Inr ((), g2)" "f_data g2 = f_data f"
          "ReadLEB128Unsigned g2 = Inr ((of_nat e, length (encodeWord e)), h2)" "f_data h2 = f_data f"
          using seek_number [OF _ b(7) d(3) E(2), of h "bs @ rC"] rC g(4) E(1) by auto
        show ?thesis unfolding T Let_def using True g2(4) i0(5,6) sint_small [OF nl] sint_small [OF E(2)]
          by (simp add: fbind_def fret_def i0(4) g2(1) [unfolded sect_desc.select_convs] g2(3) E(1) del: of_nat_add) (simp add: i0(1,4))
      next
        case False
        then have "sect_skip (length ebs) (bi_codeSect info0) = bi_codeSect info0" using ke(2) by (simp add: sect_skip_def)
        then show ?thesis unfolding T Let_def using False g(4) i0(5,6) sint_small [OF nl] by (simp add: fret_def) (simp add: i0(1))
      qed
      moreover have "sect_bytes (of_nat ?p) (sect_skip (length ebs) (bi_codeSect info0)) (f_data f) = bs"
        using sect_bytes_skip [OF rC b(7) _ d(3)] b(8) unfolding cs(2) i0(4) by simp
      ultimately show ?thesis using imp' ex' li' unfolding i0(1-3) unfolding imp ex section_size info0_def [symmetric] by metis
    qed
    show ?thesis
      using False
    proof (cases rule: code_cases)
      case (1 k c bs)
      have "ReadHeader (of_nat ?p) junk f = after_table (of_nat ?p) (all_seen,
          ?junk\<lparr>bi_importSect := sd (?H + 16) (sd_szB (addImportTreeSection b)),
            bi_exportSect := sd (?H + 16 + sd_szB (addImportTreeSection b)) (sd_szB (addExportSection b)),
            bi_litsSect := sd ?O (length (bf_lits b)), bi_codeSect := sd (?O + length (bf_lits b)) c, bi_isNative := (k = ''CODE'')\<rparr>) (adv ?H f)"
        unfolding R using entries_code [OF 1(1)] 1(2) by (simp add: all_seen_def)
      then show ?thesis using main [of k c "[]" bs 0] 1 by (auto simp: X_def)
    next
      case (2 e k c bs)
      have "ReadHeader (of_nat ?p) junk f = after_table (of_nat ?p) (all_seen,
          ?junk\<lparr>bi_importSect := sd (?H + 16) (sd_szB (addImportTreeSection b)),
            bi_exportSect := sd (?H + 16 + sd_szB (addImportTreeSection b)) (sd_szB (addExportSection b)),
            bi_litsSect := sd ?O (length (bf_lits b)), bi_codeSect := sd (?O + length (bf_lits b)) c, bi_isNative := (k = ''CODE'')\<rparr>) (adv ?H f)"
        unfolding R using entries_code [OF 2(1)] 2(2) by (simp add: all_seen_def)
      moreover have "e < 2 ^ 31" using entry 2(3) by blast
      ultimately show ?thesis using main [of k c "encodeWord e" bs e] 2 by (auto simp: X_def)
    qed
  qed
qed

definition ex_binfile :: binfile where
  "ex_binfile = \<lparr>bf_version = ''2025.1'', bf_arch = ''AMD64'',
     bf_imports = [(replicate 16 7, ITNODE [(2, ITNODE []), (0, ITNODE [(1, ITNODE [])])])], bf_exportPid = Some (replicate 16 9),
     bf_cmData = [replicate 16 1], bf_guid = ''g'', bf_lits = [1, 2, 3], bf_code = NativeCode 300 [0x90, 0xC3],
     bf_senvPid = replicate 16 2, bf_senv = []\<rparr>"

definition ex_info :: binfile_info where
  "ex_info = (let z = \<lparr>sd_offset = 0, sd_size = 0\<rparr> in \<lparr>bi_version = 0, bi_nImports = 0, bi_importSect = z, bi_exportSect = z,
     bi_litsSect = z, bi_codeSect = z, bi_entry = 0, bi_isNative = False\<rparr>)"

definition ex_archive :: FILE_t where
  "ex_archive = \<lparr>f_data = [1, 2, 3, 4, 5] @ write_binfile False ex_binfile @ [6], f_pos = 5, f_cap = 0\<rparr>"

theorem binfile_roundtrip_witness:
  "\<exists>info g. ReadHeader 5 ex_info ex_archive = Inr (info, g) \<and> bi_nImports info = 2 \<and> bi_isNative info \<and> bi_entry info = 300
    \<and> sect_bytes 5 (bi_litsSect info) (f_data ex_archive) = [1, 2, 3] \<and> sect_bytes 5 (bi_codeSect info) (f_data ex_archive) = [0x90, 0xC3]"
proof -
  have ok: "binfile_ok ex_binfile" by (simp add: binfile_ok_def ex_binfile_def)
  have "total_size (sections False ex_binfile) < 2000 \<and> length (sections False ex_binfile) = 8" by code_simp
  then have "length (write_binfile False ex_binfile) < 2 ^ 31" by (simp add: length_write_binfile [OF ok] sizeOfHdr_def)
  note rt = binfile_roundtrip [OF ok this, of ex_archive "[1, 2, 3, 4, 5]" "[6]" ex_info]
  have sel: "bf_code ex_binfile = NativeCode 300 [0x90, 0xC3]" "bf_lits ex_binfile = [1, 2, 3]" "import_leaves (bf_imports ex_binfile) = 2"
    by (simp_all add: ex_binfile_def import_leaves_def)
  have ar: "f_data ex_archive = [1, 2, 3, 4, 5] @ write_binfile False ex_binfile @ [6]" "f_pos ex_archive = length [1, 2, 3, 4, 5 :: byte_t]"
    by (simp_all add: ex_archive_def)
  have five: "(of_nat (length [1, 2, 3, 4, 5 :: byte_t]) :: word_t) = 5" by simp
  from rt [OF ar, unfolded five sel] show ?thesis by fastforce
qed

end
