(* ===== verification/Boot_Correct.thy ===== *)
theory Boot_Correct
  imports Boot Bin_Correct Handler
begin

text \<open>
  The import vector of the boot loader: from the import trees that the compiler wrote, the loader
  builds the vector of exactly the selected components of the imported objects, in order.
\<close>

section \<open>The selected components\<close>

fun sel_leaves :: "memory \<Rightarrow> word_t \<Rightarrow> itree \<Rightarrow> word_t list"
and sel_specs :: "memory \<Rightarrow> word_t \<Rightarrow> (nat \<times> itree) list \<Rightarrow> word_t list" where
  "sel_leaves m v (ITNODE l) = (if l = [] then [v] else sel_specs m v l)"
| "sel_specs m v [] = []"
| "sel_specs m v ((i, t) # l) = sel_leaves m (m (at_ix v i)) t @ sel_specs m v l"

text \<open>The addresses that the selection reads.\<close>

fun sel_reads :: "memory \<Rightarrow> word_t \<Rightarrow> itree \<Rightarrow> addr_t set"
and spec_reads :: "memory \<Rightarrow> word_t \<Rightarrow> (nat \<times> itree) list \<Rightarrow> addr_t set" where
  "sel_reads m v (ITNODE l) = spec_reads m v l"
| "spec_reads m v [] = {}"
| "spec_reads m v ((i, t) # l) = insert (at_ix v i) (sel_reads m (m (at_ix v i)) t \<union> spec_reads m v l)"

fun small_tree :: "itree \<Rightarrow> bool" and small_specs :: "(nat \<times> itree) list \<Rightarrow> bool" where
  "small_tree (ITNODE l) \<longleftrightarrow> length l < 2 ^ 31 \<and> small_specs l"
| "small_specs [] \<longleftrightarrow> True"
| "small_specs ((i, t) # l) \<longleftrightarrow> i < 2 ^ 31 \<and> small_tree t \<and> small_specs l"

lemma length_sel: "length (sel_leaves m v t) = leaves t" "length (sel_specs m v l) = spec_leaves l"
  by (induction m v t and m v l rule: sel_leaves_sel_specs.induct) auto

lemma put_words_app: "put_words p (as @ bs) m = put_words (at_ix p (length as)) bs (put_words p as m)"
  by (induction as arbitrary: p m) (simp_all add: at_ix_def algebra_simps)

text \<open>The state after writing words from index \<open>pos\<close> of the new object on.\<close>

definition wrote :: "nat \<Rightarrow> word_t list \<Rightarrow> vm \<Rightarrow> vm" where
  "wrote pos ws s = s\<lparr>vm_rt := upd_mem (put_words (at_ix (ml_allocPtr (vm_rt s)) pos) ws) (vm_rt s)\<rparr>"

lemma wrote_nil [simp]: "wrote pos [] s = s" by (simp add: wrote_def upd_mem_def)

lemma wrote_wrote: "wrote (pos + length as) bs (wrote pos as s) = wrote pos (as @ bs) s"
  by (simp add: wrote_def upd_mem_def put_words_app at_ix_def algebra_simps)

lemma wrote_alloc [simp]: "ml_allocPtr (vm_rt (wrote pos ws s)) = ml_allocPtr (vm_rt s)" by (simp add: wrote_def upd_mem_def)

definition same_out :: "addr_t set \<Rightarrow> memory \<Rightarrow> memory \<Rightarrow> bool" where
  "same_out R m m' \<longleftrightarrow> (\<forall>a. a \<notin> R \<longrightarrow> m' a = m a)"

lemma wrote_same_out:
  assumes "same_out R m (rt_mem (vm_rt s))" "at_ix (ml_allocPtr (vm_rt s)) ` {pos..<pos + length ws} \<subseteq> R"
  shows "same_out R m (rt_mem (vm_rt (wrote pos ws s)))"
proof -
  have "put_words (at_ix (ml_allocPtr (vm_rt s)) pos) ws (rt_mem (vm_rt s)) a = rt_mem (vm_rt s) a" if "a \<notin> R" for a
  proof (rule put_words_out)
    fix j assume "j < length ws"
    then have "at_ix (ml_allocPtr (vm_rt s)) (pos + j) \<in> R" using assms(2) by auto
    then show "a \<noteq> at_ix (at_ix (ml_allocPtr (vm_rt s)) pos) j" using that by (auto simp: at_ix_def algebra_simps)
  qed
  then show ?thesis using assms(1) by (simp add: same_out_def wrote_def upd_mem_def)
qed

lemma ReadLEB128_encode:
  "n < 2 ^ 31 \<Longrightarrow> ahead (encodeWord n) f \<Longrightarrow> ReadLEB128 f = Inr ((int n, length (encodeWord n)), adv (length (encodeWord n)) f)"
  using ReadLEB128Unsigned_encode [of n f] sint_small [of n] by (simp add: ReadLEB128_def fbind_def fret_def)

lemma encode_pos: "0 < length (encodeWord n)" by (subst encodeWord.simps) simp

section \<open>Selection\<close>

lemma import_sel_correct:
  "small_tree t \<Longrightarrow> ahead (emit_tree t) f \<Longrightarrow> length (emit_tree t) \<le> fuel \<Longrightarrow> same_out R m (rt_mem (vm_rt s)) \<Longrightarrow> sel_reads m v t \<inter> R = {} \<Longrightarrow>
     at_ix (ml_allocPtr (vm_rt s)) ` {pos..<pos + leaves t} \<subseteq> R \<Longrightarrow>
     import_sel fuel ReadLEB128 v (pos, f) s = Inr ((pos + leaves t, adv (length (emit_tree t)) f), wrote pos (sel_leaves m v t) s)"
  "small_specs l \<Longrightarrow> ahead (emit_specs l) f \<Longrightarrow> length (emit_specs l) \<le> fuel \<Longrightarrow> same_out R m (rt_mem (vm_rt s)) \<Longrightarrow> spec_reads m v l \<inter> R = {} \<Longrightarrow>
     at_ix (ml_allocPtr (vm_rt s)) ` {pos..<pos + spec_leaves l} \<subseteq> R \<Longrightarrow>
     import_sels fuel ReadLEB128 (length l) v (pos, f) s = Inr ((pos + spec_leaves l, adv (length (emit_specs l)) f), wrote pos (sel_specs m v l) s)"
proof (induction t and l arbitrary: f fuel s v pos and f fuel s v pos rule: emit_tree_emit_specs.induct)
  case (1 l)
  show ?case
  proof (cases "l = []")
    case True
    with 1(4) obtain k where k: "fuel = Suc k" by (cases fuel) (simp_all add: encodeWord_small)
    have "ahead (encodeWord 0) f" using 1(3) True by simp
    from ReadLEB128_encode [OF _ this] show ?thesis
      by (simp add: True k vbind_def on_file_def encodeWord_small vthen_def upd_rt_def vret_def wrote_def ML_AllocWrite_def upd_mem_def)
  next
    case False
    have e: "emit_tree (ITNODE l) = encodeWord (length l) @ emit_specs l" using False by simp
    have "length (emit_specs l) < fuel" using 1(4) encode_pos [of "length l"] unfolding e length_append by linarith
    then obtain k where k: "fuel = Suc k" "length (emit_specs l) \<le> k" by (cases fuel) simp_all
    from ahead_append [OF 1(3) [unfolded e]] have a: "ahead (encodeWord (length l)) f" "ahead (emit_specs l) (adv (length (encodeWord (length l))) f)" by simp_all
    have r: "ReadLEB128 f = Inr ((int (length l), length (encodeWord (length l))), adv (length (encodeWord (length l))) f)"
      using ReadLEB128_encode [OF _ a(1)] 1(2) by simp
    have "import_sels k ReadLEB128 (length l) v (pos, adv (length (encodeWord (length l))) f) s
        = Inr ((pos + spec_leaves l, adv (length (emit_specs l)) (adv (length (encodeWord (length l))) f)), wrote pos (sel_specs m v l) s)"
      by (rule 1(1) [OF False]) (use 1 a(2) k(2) False in simp_all)
    then show ?thesis using False by (simp add: k(1) vbind_def on_file_def r)
  qed
next
  case 2
  then show ?case by (simp add: adv_def)
next
  case (3 i t l)
  have e: "emit_specs ((i, t) # l) = encodeWord i @ emit_tree t @ emit_specs l" by simp
  have "length (emit_tree t) + length (emit_specs l) < fuel" using 3(5) encode_pos [of i] unfolding e length_append by linarith
  then obtain k where k: "fuel = Suc k" "length (emit_tree t) \<le> k" "length (emit_specs l) \<le> k" by (cases fuel) simp_all
  from ahead_append [OF 3(4) [unfolded e]] have a: "ahead (encodeWord i) f" "ahead (emit_tree t @ emit_specs l) (adv (length (encodeWord i)) f)" by simp_all
  from ahead_append [OF a(2)] have b: "ahead (emit_tree t) (adv (length (encodeWord i)) f)"
    "ahead (emit_specs l) (adv (length (encodeWord i) + length (emit_tree t)) f)" by simp_all
  have r: "ReadLEB128 f = Inr ((int i, length (encodeWord i)), adv (length (encodeWord i)) f)" using ReadLEB128_encode [OF _ a(1)] 3(3) by simp
  have rd: "rt_mem (vm_rt s) (at_ix v i) = m (at_ix v i)" using 3(6,7) by (auto simp: same_out_def)
  let ?t = "m (at_ix v i)" and ?s = "wrote pos (sel_leaves m (m (at_ix v i)) t) s"
  have one: "import_sel k ReadLEB128 ?t (pos, adv (length (encodeWord i)) f) s
      = Inr ((pos + leaves t, adv (length (emit_tree t)) (adv (length (encodeWord i)) f)), ?s)"
    by (rule 3(1)) (use 3 b(1) k(2) in \<open>auto simp: image_subset_iff\<close>)
  have two: "import_sels k ReadLEB128 (length l) v (pos + leaves t, adv (length (encodeWord i) + length (emit_tree t)) f) ?s
      = Inr ((pos + leaves t + spec_leaves l, adv (length (emit_specs l)) (adv (length (encodeWord i) + length (emit_tree t)) f)), wrote (pos + leaves t) (sel_specs m v l) ?s)"
  proof (rule 3(2))
    show "same_out R m (rt_mem (vm_rt ?s))" by (rule wrote_same_out [OF 3(6)]) (use 3(8) in \<open>auto simp: length_sel image_subset_iff\<close>)
  qed (use 3 b(2) k(3) in \<open>auto simp: image_subset_iff\<close>)
  have "wrote (pos + leaves t) (sel_specs m v l) ?s = wrote pos (sel_specs m v ((i, t) # l)) s"
    using wrote_wrote [of pos "sel_leaves m (m (at_ix v i)) t" "sel_specs m v l" s] by (simp add: length_sel)
  moreover have "v + 8 * of_nat i = at_ix v i" by (simp add: at_ix_def)
  ultimately show ?case using one two
    by (simp add: k(1) vbind_def on_file_def r ld_def read_rt_def rd add.assoc)
qed

section \<open>The vector\<close>

text \<open>
  What is known of an import: its identifier is bound to an object, and the components that
  its tree selects are not in the memory \<open>R\<close> of the vector.
\<close>

definition import_ok :: "env \<Rightarrow> globals \<Rightarrow> memory \<Rightarrow> addr_t set \<Rightarrow> (byte_t list \<Rightarrow> word_t) \<Rightarrow> byte_t list \<Rightarrow> itree \<Rightarrow> bool" where
  "import_ok E G m R root pid tree \<longleftrightarrow> length pid = 16 \<and> small_tree tree \<and> length (emit_tree tree) \<le> env_fuel E
     \<and> (\<forall>m'. same_out R m m' \<longrightarrow> find_pid (env_fuel E) pid (m' (G_PervStruct G)) m' = Inr (root pid))
     \<and> sel_reads m (root pid) tree \<inter> R = {}"

definition selected :: "memory \<Rightarrow> (byte_t list \<Rightarrow> word_t) \<Rightarrow> (byte_t list \<times> itree) list \<Rightarrow> word_t list" where
  "selected m root trees = concat (map (\<lambda>(pid, tree). sel_leaves m (root pid) tree) trees)"

lemma length_selected: "length (selected m root trees) = import_leaves trees"
  by (induction trees) (auto simp: selected_def import_leaves_def length_sel)

lemma leaves_pos: "0 < leaves t" "l \<noteq> [] \<Longrightarrow> 0 < spec_leaves l"
  by (induction t and l rule: leaves_spec_leaves.induct) auto

lemma import_loop_correct:
  "(\<And>pid tree. (pid, tree) \<in> set trees \<Longrightarrow> import_ok E G m R root pid tree) \<Longrightarrow> ahead (emit_imports trees) f \<Longrightarrow> length trees \<le> fuel \<Longrightarrow>
     same_out R m (rt_mem (vm_rt s)) \<Longrightarrow> at_ix (ml_allocPtr (vm_rt s)) ` {pos..<pos + import_leaves trees} \<subseteq> R \<Longrightarrow>
     import_loop fuel E G CONTAINER_VERSION (int (pos + import_leaves trees)) (pos, f) s
       = Inr ((pos + import_leaves trees, adv (length (emit_imports trees)) f), wrote pos (selected m root trees) s)"
proof (induction trees arbitrary: pos f fuel s)
  case Nil
  then show ?case by (simp add: import_loop.simps import_leaves_def emit_imports_def selected_def adv_def)
next
  case (Cons x trees)
  obtain pid tree where x: "x = (pid, tree)" by (cases x)
  have ok: "import_ok E G m R root pid tree" using Cons.prems(1) x by simp
  note o = ok [unfolded import_ok_def]
  obtain k where k: "fuel = Suc k" "length trees \<le> k" using Cons.prems(3) by (cases fuel) simp_all
  have L: "import_leaves (x # trees) = leaves tree + import_leaves trees" by (simp add: x import_leaves_def)
  have e: "emit_imports (x # trees) = pid @ emit_tree tree @ emit_imports trees" by (simp add: x emit_imports_def)
  from ahead_append [OF Cons.prems(2) [unfolded e]] have a: "ahead pid f" "ahead (emit_tree tree @ emit_imports trees) (adv 16 f)" using o by simp_all
  from ahead_append [OF a(2)] have b: "ahead (emit_tree tree) (adv 16 f)" "ahead (emit_imports trees) (adv (16 + length (emit_tree tree)) f)" by simp_all
  have r: "ReadBinFile 16 f = Inr (pid, adv 16 f)" using ReadBinFile_ahead [OF a(1)] o by simp
  have l: "LookupPerID E G pid s = Inr (root pid, s)" using o Cons.prems(4) by (simp add: LookupPerID_def lift_rt_def)
  let ?s = "wrote pos (sel_leaves m (root pid) tree) s"
  have one: "ImportSelection E (root pid) (pos, adv 16 f) s = Inr ((pos + leaves tree, adv (16 + length (emit_tree tree)) f), ?s)"
    using import_sel_correct(1) [of tree "adv 16 f" "env_fuel E" R m s "root pid" pos] o b(1) Cons.prems(4,5)
    by (auto simp: ImportSelection_def L image_subset_iff)
  have two: "import_loop k E G CONTAINER_VERSION (int (pos + leaves tree + import_leaves trees)) (pos + leaves tree, adv (16 + length (emit_tree tree)) f) ?s
      = Inr ((pos + leaves tree + import_leaves trees, adv (length (emit_imports trees)) (adv (16 + length (emit_tree tree)) f)), wrote (pos + leaves tree) (selected m root trees) ?s)"
  proof (rule Cons.IH)
    show "import_ok E G m R root p t" if "(p, t) \<in> set trees" for p t using Cons.prems(1) that by simp
    show "same_out R m (rt_mem (vm_rt ?s))" by (rule wrote_same_out [OF Cons.prems(4)]) (use Cons.prems(5) in \<open>auto simp: length_sel L image_subset_iff\<close>)
  qed (use b(2) k(2) Cons.prems(5) in \<open>auto simp: L image_subset_iff\<close>)
  have "wrote (pos + leaves tree) (selected m root trees) ?s = wrote pos (selected m root (x # trees)) s"
    using wrote_wrote [of pos "sel_leaves m (root pid) tree" "selected m root trees" s] by (simp add: length_sel selected_def x)
  moreover have "\<not> int (pos + import_leaves (x # trees)) \<le> int pos" using leaves_pos(1) [of tree] by (simp add: L)
  moreover have "length (emit_imports (x # trees)) = 16 + length (emit_tree tree) + length (emit_imports trees)" using o by (simp add: e)
  ultimately show ?case using two
    by (subst import_loop.simps) (simp add: k(1) vbind_def on_file_def r l one L add.assoc)
qed

text \<open>C8. The import vector. If the import section of a binfile is what the compiler wrote for some import
  trees, every imported identifier is bound and there is room, \<open>import_vector\<close> makes a record at the
  allocation pointer: the components that the trees select from the bound objects, in order, and a
  last element for the literals. Nothing else in memory changes but the variable of the vector.\<close>

theorem import_vector_selects:
  fixes s :: vm and trees :: "(byte_t list \<times> itree) list"
  defines "p \<equiv> ml_allocPtr (vm_rt s)" and "m \<equiv> rt_mem (vm_rt s)" and "n \<equiv> import_leaves trees + 1"
  assumes hdr: "bi_version hdr = CONTAINER_VERSION" "bi_nImports hdr = int (import_leaves trees)" "n < 2 ^ 31 - 1"
    and at: "drop k (f_data f) = emit_imports trees @ rest" "k < 2 ^ 63" "base + sd_offset (bi_importSect hdr) = of_nat k"
    and ok: "\<forall>(pid, tree) \<in> set trees. import_ok E G m (at_ix p ` {..n}) root pid tree" "length trees \<le> env_fuel E"
    and gc: "\<not> NeedGC (8 * of_nat (n + 1)) (vm_rt s)"
  shows "\<exists>g s'. import_vector E G B base hdr f s = Inr (g, s') \<and> f_data g = f_data f
    \<and> rt_mem (vm_rt s') = (put_words p (MAKE_DESC (of_nat n) DTAG_record # selected m root trees @ [ML_nil]) m)(bs_importRec B := p + 8)
    \<and> ml_allocPtr (vm_rt s') = at_ix p (n + 1)"
proof -
  let ?R = "at_ix p ` {..n}" and ?s0 = "wrote 0 [MAKE_DESC (of_nat n) DTAG_record] s" and ?f = "f\<lparr>f_pos := k\<rparr>"
  let ?s1 = "wrote 1 (selected m root trees) ?s0"
  have sk: "Seek (base + sd_offset (bi_importSect hdr)) f = Inr ((), ?f)" unfolding at(3) by (rule Seek_to [OF at(2)])
  have s0: "same_out ?R m (rt_mem (vm_rt ?s0))"
    by (rule wrote_same_out) (auto simp: same_out_def m_def p_def at_ix_def intro!: image_eqI [where x = 0])
  have "import_loop (env_fuel E) E G CONTAINER_VERSION (int (1 + import_leaves trees)) (1, ?f) ?s0
      = Inr ((1 + import_leaves trees, adv (length (emit_imports trees)) ?f), ?s1)"
    by (rule import_loop_correct [OF _ _ ok(2) s0]) (use ok(1) at(1) in \<open>auto simp: ahead_def p_def n_def\<close>)
  then have loop: "import_loop (env_fuel E) E G CONTAINER_VERSION (int n) (1, ?f) ?s0 = Inr ((n, adv (length (emit_imports trees)) ?f), ?s1)"
    by (simp add: n_def add.commute)
  have len: "bi_nImports hdr + 1 = int n" by (simp add: hdr(2) n_def)
  have w: "upd_rt (ML_AllocWrite 0 (MAKE_DESC (of_nat n) DTAG_record)) s = Inr ((), ?s0)"
    by (simp add: upd_rt_def wrote_def ML_AllocWrite_def upd_mem_def)
  let ?s2 = "wrote n [ML_nil] ?s1"
  have w2: "upd_rt (ML_AllocWrite n ML_nil) ?s1 = Inr ((), ?s2)"
    by (simp add: upd_rt_def wrote_def ML_AllocWrite_def upd_mem_def)
  have "?s2 = wrote 0 (MAKE_DESC (of_nat n) DTAG_record # selected m root trees @ [ML_nil]) s"
    using wrote_wrote [of 0 "[MAKE_DESC (of_nat n) DTAG_record]" "selected m root trees" s]
      wrote_wrote [of 0 "MAKE_DESC (of_nat n) DTAG_record # selected m root trees" "[ML_nil]" s]
    by (simp add: length_selected n_def)
  then have m2: "rt_mem (vm_rt ?s2) = put_words p (MAKE_DESC (of_nat n) DTAG_record # selected m root trees @ [ML_nil]) m" "ml_allocPtr (vm_rt ?s2) = p"
    by (simp_all add: wrote_def upd_mem_def m_def p_def at_ix_def del: put_words.simps)
  have big: "\<not> INT_MAX \<le> int n" "\<not> int n < 0" using hdr(3) by simp_all
  have i1: "(of_int (int n + 1) :: word_t) = of_nat (n + 1)" "(of_int (int n) :: word_t) = of_nat n" by simp_all
  obtain s3 where s3: "import_vector E G B base hdr f s = Inr (adv (length (emit_imports trees)) ?f, s3)"
    "s3 = ?s2\<lparr>vm_rt := upd_mem (\<lambda>m. m(bs_importRec B := p + 8)) ((vm_rt ?s2)\<lparr>ml_allocPtr := at_ix p (n + 1)\<rparr>)\<rparr>"
    unfolding import_vector_def Let_def len vbind_def vthen_def on_file_def sk rbind.simps prod.case read_rt_def i1
      if_not_P [OF gc] if_not_P [OF big(1)] if_not_P [OF big(2)] vret_def hdr(1) w loop nat_int w2 lift_rt_def ML_Alloc_def m2(2)
    by (simp add: st_def upd_rt_def upd_mem_def m2(2))
  show ?thesis by (rule exI [of _ "adv (length (emit_imports trees)) ?f"], rule exI [of _ s3]) (simp add: s3 m2(1) upd_mem_def del: put_words.simps One_nat_def)
qed

text \<open>One identifier is bound, to a record with two selected components, one of them nested.\<close>

definition ex_boot_mem :: memory where
  "ex_boot_mem = (\<lambda>_. 1)(0x2010 := 0x3000, 0x3000 := 0x3100, 0x3008 := 0x3200, 0x3100 := 0x3110, 0x3110 := 0x0707070707070707,
     0x3118 := 0x0707070707070707, 0x3200 := 0x3300, 0x3210 := 0x55, 0x3308 := 0x77)"

definition ex_boot :: vm where
  "ex_boot = ex_vm\<lparr>vm_rt := ex_rt\<lparr>rt_mem := ex_boot_mem, ml_allocPtr := 0x40000, rt_heap := ex_heap\<lparr>h_allocSzB := 0x40000\<rparr>\<rparr>\<rparr>"

definition ex_trees :: "(byte_t list \<times> itree) list" where
  "ex_trees = [(replicate 16 7, ITNODE [(2, ITNODE []), (0, ITNODE [(1, ITNODE [])])])]"

definition ex_boot_slots :: boot_slots where
  "ex_boot_slots = \<lparr>bs_BinFileList = 0x5000, bs_importRec = 0x5008, bs_val = 0x5010, bs_buf = 0x6000,
     bs_lits = \<lparr>sl_code = 0x5018, sl_root = 0x5020, sl_stk = 0x5028, sl_saved = 0x5030\<rparr>\<rparr>"

lemma ex_region: "at_ix 0x40000 ` {..3} = {0x40000, 0x40008, 0x40010, 0x40018}"
proof -
  have "{..3 :: nat} = {0, 1, 2, 3}" by auto
  then show ?thesis by (simp add: at_ix_def)
qed

lemma ex_find:
  assumes "same_out {0x40000, 0x40008, 0x40010, 0x40018} ex_boot_mem m"
  shows "find_pid 100 (replicate 16 7) (m 0x2010) m = Inr 0x3200"
proof -
  have m: "m 0x2010 = 0x3000" "m 0x3000 = 0x3100" "m 0x3008 = 0x3200" "m 0x3100 = 0x3110"
    "m 0x3110 = 0x0707070707070707" "m 0x3118 = 0x0707070707070707"
    using assms by (simp_all add: same_out_def ex_boot_mem_def)
  have i: "[0..<16] = [0, 1, 2, 3, 4, 5, 6, 7, 8, 9, 10, 11, 12, 13, 14, 15 :: nat]" by code_simp
  have r: "replicate 16 7 = [7, 7, 7, 7, 7, 7, 7, 7, 7, 7, 7, 7, 7, 7, 7, 7 :: byte_t]" by code_simp
  have "bytes_at 0x3110 16 m = replicate 16 7"
    unfolding bytes_at_def i r by (simp add: byte_at_def m)
  then show ?thesis by (subst find_pid.simps) (simp add: m ML_unit_def INT_CtoML_def)
qed

theorem import_vector_selects_witness:
  "\<exists>g s'. import_vector ex_env ex_globals ex_boot_slots 0 (ex_info\<lparr>bi_version := CONTAINER_VERSION, bi_nImports := 2\<rparr>)
       \<lparr>f_data = emit_imports ex_trees, f_pos = 0, f_cap = 0\<rparr> ex_boot = Inr (g, s')
     \<and> rt_mem (vm_rt s') 0x40008 = 0x55 \<and> rt_mem (vm_rt s') 0x40010 = 0x77 \<and> rt_mem (vm_rt s') 0x5008 = 0x40008"
proof -
  let ?hdr = "ex_info\<lparr>bi_version := CONTAINER_VERSION, bi_nImports := 2\<rparr>" and ?f = "\<lparr>f_data = emit_imports ex_trees, f_pos = 0, f_cap = 0\<rparr>"
  have n: "import_leaves ex_trees = 2" by (simp add: ex_trees_def import_leaves_def)
  have s: "ml_allocPtr (vm_rt ex_boot) = 0x40000" "rt_mem (vm_rt ex_boot) = ex_boot_mem" by (simp_all add: ex_boot_def ex_vm_def ex_rt_def)
  have e: "env_fuel ex_env = 100" "G_PervStruct ex_globals = 0x2010" by (simp_all add: ex_env_def ex_globals_def)
  have rd: "sel_reads ex_boot_mem 0x3200 (snd (hd ex_trees)) = {0x3210, 0x3200, 0x3308}"
    by (simp add: ex_trees_def at_ix_def ex_boot_mem_def)
  have len: "length (emit_tree (snd (hd ex_trees))) \<le> 100" by (simp add: ex_trees_def encodeWord_small)
  have ok: "\<forall>(pid, tree) \<in> set ex_trees. import_ok ex_env ex_globals ex_boot_mem (at_ix 0x40000 ` {..3}) (\<lambda>_. 0x3200) pid tree"
    using rd len ex_find unfolding ex_region by (simp add: ex_trees_def import_ok_def e)
  have "\<not> NeedGC (8 * of_nat (3 + 1)) (vm_rt ex_boot)"
    by (simp add: NeedGC_def ex_boot_def HEAP_LIMIT_def ex_heap_def)
  with import_vector_selects [of ?hdr ex_trees 0 ?f "[]" 0 ex_env ex_globals ex_boot "\<lambda>_. 0x3200" ex_boot_slots] ok
  obtain g s' where r: "import_vector ex_env ex_globals ex_boot_slots 0 ?hdr ?f ex_boot = Inr (g, s')"
    "rt_mem (vm_rt s') = (put_words 0x40000 (MAKE_DESC 3 DTAG_record # selected ex_boot_mem (\<lambda>_. 0x3200) ex_trees @ [ML_nil]) ex_boot_mem)(0x5008 := 0x40008)"
    by (auto simp: n s e ex_info_def Let_def ex_boot_slots_def ex_trees_def [THEN arg_cong [where f = length]])
  have "selected ex_boot_mem (\<lambda>_. 0x3200) ex_trees = [0x55, 0x77]" by (simp add: selected_def ex_trees_def at_ix_def ex_boot_mem_def)
  then show ?thesis using r by (intro exI [of _ g] exI [of _ s']) simp
qed

end
