(* ===== verification/Spec2Isabelle.thy ===== *)
theory Spec2Isabelle
  imports Handler Literal_Correct IO_Correct Export_Repair Import_Checks Big_Inv Blast_Round Signal_Search
    OS_Values Program Boot_Correct
begin

text \<open>
  The run-time system of Standard ML of New Jersey, the C program under \<open>src/runtime\<close>: memory,
  the generational copying collector, the allocation of ML objects, signals, the dispatch loop
  between ML and C, literal vectors, heap images, and the command line. The modelled build is
  64-bit little-endian Linux (\<open>SIZE_64\<close>, \<open>HAS_ANON_MMAP\<close>, \<open>HAS_PARTIAL_MUNMAP\<close>,
  \<open>INDIRECT_CFUNC\<close>, cards of one byte), without assertions, statistics, heap checks and heap
  monitor. File names below are relative to \<open>src/runtime\<close>.

  How the program works. ML code allocates in the allocation space through the allocation
  pointer of the ML state. When the space is full it returns to \<open>RunML\<close> (\<open>kernel/run-ml.c\<close>),
  which calls the collector (\<open>gc/call-gc.c\<close>). A minor collection (\<open>gc/minor-gc.c\<close>) copies the
  live objects to the arenas of the first generation: one arena for each kind of object. A major
  collection (\<open>gc/flip.c\<close>, \<open>gc/major-gc.c\<close>) gives some generations new to-spaces and copies
  between generations. Code lives in big-object regions (\<open>gc/big-objects.c\<close>), which are not
  copied. The BIBOP (\<open>include/bibop.h\<close>) maps every page of memory to the arena it belongs to.
  Updates of older objects are remembered by the store list and by card maps. The heap is
  exported to an image, and a program starts by importing one (\<open>gc/export-heap.c\<close>,
  \<open>gc/import-heap.c\<close>); references to the run-time system go through the registry of C symbols
  (\<open>gc/c-globals-tbl.c\<close>). The compiler delivers literals as a bytecode that
  \<open>gc/build-literals-v3.c\<close> interprets.

  How it is modelled. Functions of the program are functions with the state as an argument.
  A fatal error, an undefined result, a call of \<open>Exit\<close> and the end of the fuel of a loop are
  the errors \<open>Die\<close>, \<open>Fault\<close>, \<open>Exited\<close> and \<open>NoFuel\<close> of the result type; every access to an
  array tests its bounds and is a \<open>Fault\<close> outside. Words and addresses are 64-bit words,
  C \<open>int\<close>s are integers with the overflow written out, and memory maps the address of an
  aligned word to its contents, with a view of its bytes. The ML state is a structure in this
  memory, so that registers can be roots. Structures that C code links by pointers are records
  in stores indexed by numbers; generations and arenas are reached by position. Loops over
  linked lists and loops that may not end take fuel (\<open>env_fuel\<close>), and the theorems say
  how much is enough.

  Theories and components.
   \<^item> RT_Prelude: errors and their monad, folds that may fail, words, rounding. Buckets: chained
     hash tables, as a locale that the three hash tables of the program interpret.
   \<^item> Tags (\<open>include/tags.h\<close>, \<open>include/ml-values.h\<close>, \<open>gc/arena-id.h\<close>, \<open>gc/swap-bytes.c\<close>):
     descriptors, immediate values, arena identifiers.
   \<^item> Bibop, Memory_Sys (\<open>memory/\<close>), Heap_State (\<open>gc/heap.h\<close>, \<open>gc/card-map.h\<close>), ML_Alloc
     (\<open>include/ml-objects.h\<close>), Big_Objects (\<open>gc/big-objects.c\<close>, \<open>gc/obj-info.c\<close>), GC_Util
     (\<open>gc/gc-util.c\<close>): the state that the collector works on and its basic operations.
   \<^item> Minor_GC, Flip, Major_GC, Signals, VM, Call_GC, Init_GC, ML_Objects, Run_ML: the collections,
     signals, the whole state \<open>vm\<close>, the entry points of the collector, the creation of the
     heap, allocation from C, and the dispatch loop with its requests.
   \<^item> Options, Timers, Addr_Hash, C_Globals: the command line (\<open>kernel/ml-options.c\<close>,
     \<open>kernel/main.c\<close>, \<open>ParseHeapParams\<close>), CPU and collection times, address tables, the
     registry of C symbols and export tables.
   \<^item> Literals_V1, Literals_V2, Literals: the three versions of the literal machine.
     Literal_Code: the producer of the bytecode in
     \<open>src/compiler/CPS/main/literal-bytecode.sml\<close> and a reference machine for it.
   \<^item> Writer, Heap_IO, Export_Heap, Import_Heap: output devices, input sources, and the export and
     import of heap images (\<open>gc/writer.h\<close> to \<open>gc/import-heap.c\<close>, \<open>kernel/qualify-name.c\<close>).

   \<^item> Blast_GC, Blast_IO: the image of a single value (\<open>gc/blast-gc.c\<close>, \<open>gc/blast-out.c\<close>,
     \<open>gc/blast-in.c\<close>): the value is copied with what it reaches, written as a string of bytes, and
     the heap is then put back from repair lists or the collection is completed.
   \<^item> Bin_File, Boot, Program: reading the three formats of binfiles, the boot loader
     (\<open>kernel/boot.c\<close>), the tables of symbols and of C functions (\<open>kernel/globals.c\<close>,
     \<open>c-libs/c-libraries.c\<close>), and the main programs (\<open>kernel/main.c\<close>, \<open>kernel/standalone.c\<close>,
     \<open>kernel/load-ml.c\<close>). Bin_Format: the producer of binfiles in
     \<open>src/compiler/Execution/binfile\<close>.
   \<^item> RT_Lib, OS_Values: C functions that ML calls, under \<open>c-libs\<close>: control of the collector,
     timers, images, code objects, signals, profiling, error codes, constants of the system; and the
     handlers of faults and of the profiling signal (\<open>mach-dep/unix-fault.c\<close>,
     \<open>mach-dep/unix-prof.c\<close>).

  What is proved, by groups of lemmas.
   \<^item> Minor_Forward, Minor_Store, Minor_Sweep, Minor_Correct: a ghost description of a minor
     collection with an invariant that forwarding, the scan of the store list and the sweep keep;
     the sweep ends because each round sweeps more words, so fuel above the size of the
     allocation space is enough. The result is that a collection of a space without weak pointers,
     suspensions and other special objects copies exactly the live objects, word for word with
     the pointers between them relocated, and changes nothing else.
   \<^item> Alloc_Laws: the contract of an allocator as a locale and its interpretation on the
     program's allocators. C_State and Handler rest on it: registers and C values are restored as
     they were saved, and a request with a pending signal sets up the handler's call.
   \<^item> Gen_Space, Flip_Space: a new generation's memory is cut into the arenas in order, the page
     table included, and after \<open>Flip\<close> the to-space of every flipped generation has room for all
     that can be copied to it. Big_Inv: a region as a sequence of segments, the invariant of
     the big-object store and what the allocation and the release of an object do to it.
   \<^item> Signal_Machine: signals as a step relation, the collector's signal and its settings included,
     its invariant, and that choosing signals round robin is fair. Signal_Search: the search for a signal against a reference definition.
   \<^item> Byte_Mem, Literal_Decode, Literal_Sim, Literal_Correct: the interpreter decodes what the
     encoder wrote, and builds in the heap what the reference machine computes.
   \<^item> IO_Correct: the header and the symbol table of an image are read back as written, for every
     writer that meets the locale \<open>writer\<close>. Export_Repair: marking the external pointers of
     the heap and putting them back. Import_Checks: what is refused and which parameters hold.
   \<^item> Blast_Round: an unboxed value is read back from its image.
   \<^item> Bin_Correct: the boot loader finds in a binfile the sections that the compiler wrote.
     Boot_Correct: it builds the import vector that the import trees describe; fuel above the
     length of the section is enough. OS_Values: the binary search for a constant.
   \<^item> The other theories hold the theorems about their own definitions: hash tables are maps,
     options mean what they say, times add up, tags and descriptors are read back, the page
     table is set exactly on the pages of a region, memory objects are new and aligned.

  Not modelled: \<open>gc/check-heap.c\<close> and \<open>gc/gc-stats.c\<close>, which belong to other builds; messages
  (\<open>kernel/error.c\<close>); the C functions for files, processes, sockets, dates, floating-point
  conversion, C calls, dynamic loading and code generation under \<open>c-libs\<close>, which pass their
  arguments to system calls and foreign libraries; other platforms. The assembly code, the ML code,
  the code generator, the operating system (\<open>mmap\<close>, \<open>munmap\<close>, \<open>getrusage\<close>, the file system) and the
  constants of generated headers are parameters. The streams of the C library are modelled
  without their buffers.
\<close>

end
